(* ===== verification/Prelude.thy ===== *)
theory Prelude
  imports "HOL-Library.Word"
begin

text \<open>
  Shared vocabulary of the development: the C integer types as words, the error
  values of \<^verbatim>\<open>errno.h\<close>, the bounded search loop that the kernel uses to find a free
  slot in every one of its static tables, and the generic facts about lists, words
  and finite sets that the component theories use.
\<close>

unbundle bit_operations_syntax

section \<open>Machine types\<close>

type_synonym u8 = "8 word"
type_synonym u16 = "16 word"
type_synonym u32 = "32 word"
type_synonym u64 = "64 word"

text \<open>
  Collections that the component theories extend: \<open>table_simps\<close> for the length and
  lookup facts of the static tables, \<open>frame_simps\<close> for "this operation leaves that
  field alone".
\<close>

named_theorems table_simps \<open>lookup and length facts of the static tables\<close>
named_theorems frame_simps \<open>fields an operation leaves unchanged\<close>

section \<open>Bounded search\<close>

text \<open>
  \<open>scan p i n\<close> is the loop
  \<^verbatim>\<open>for (; i < n; i++) if (p(i)) return i; return -1;\<close>
  with \<open>None\<close> for the exit at the end. The kernel writes it for every free-slot and
  look-up search (process table, sockets, users, groups, descriptors, frames).
\<close>

function scan :: "(nat \<Rightarrow> bool) \<Rightarrow> nat \<Rightarrow> nat \<Rightarrow> nat option" where
  "scan p i n = (if i < n then (if p i then Some i else scan p (Suc i) n) else None)"
  by pat_completeness auto
termination
  by (relation "measure (\<lambda>(p, i, n). n - i)") auto

declare scan.simps [simp del]

lemma scan_SomeD:
  "scan p i n = Some j \<Longrightarrow> i \<le> j \<and> j < n \<and> p j \<and> (\<forall>k. i \<le> k \<and> k < j \<longrightarrow> \<not> p k)"
proof (induction p i n rule: scan.induct)
  case (1 p i n)
  show ?case
  proof (cases "i < n \<and> \<not> p i")
    case True
    with "1.prems" have "scan p (Suc i) n = Some j"
      by (simp add: scan.simps [of p i n])
    with "1.IH" True have "Suc i \<le> j \<and> j < n \<and> p j \<and> (\<forall>k. Suc i \<le> k \<and> k < j \<longrightarrow> \<not> p k)"
      by blast
    with True show ?thesis
      by (metis Suc_leD Suc_leI le_neq_implies_less)
  next
    case False
    with "1.prems" show ?thesis
      by (auto simp: scan.simps [of p i n] split: if_splits)
  qed
qed

lemma scan_None_iff: "scan p i n = None \<longleftrightarrow> (\<forall>k. i \<le> k \<and> k < n \<longrightarrow> \<not> p k)"
proof (induction p i n rule: scan.induct)
  case (1 p i n)
  show ?case
  proof (cases "i < n \<and> \<not> p i")
    case True
    then have "scan p i n = None \<longleftrightarrow> (\<forall>k. Suc i \<le> k \<and> k < n \<longrightarrow> \<not> p k)"
      using "1.IH" by (simp add: scan.simps [of p i n])
    with True show ?thesis
      by (metis Suc_leD Suc_leI le_neq_implies_less)
  next
    case False
    then show ?thesis
      by (auto simp: scan.simps [of p i n])
  qed
qed

lemma scan_Some_iff:
  "scan p i n = Some j \<longleftrightarrow> i \<le> j \<and> j < n \<and> p j \<and> (\<forall>k. i \<le> k \<and> k < j \<longrightarrow> \<not> p k)"
proof
  assume r: "i \<le> j \<and> j < n \<and> p j \<and> (\<forall>k. i \<le> k \<and> k < j \<longrightarrow> \<not> p k)"
  then have "scan p i n \<noteq> None"
    by (auto simp: scan_None_iff)
  then obtain j' where j': "scan p i n = Some j'"
    by blast
  with scan_SomeD [OF j'] r have "j' = j"
    by (metis linorder_neqE_nat)
  with j' show "scan p i n = Some j" by simp
qed (rule scan_SomeD)

lemma scan_cong:
  assumes "\<And>k. i \<le> k \<Longrightarrow> k < n \<Longrightarrow> p k = q k"
  shows "scan p i n = scan q i n"
proof (cases "scan q i n")
  case None
  with assms have "scan p i n = None"
    by (auto simp: scan_None_iff)
  with None show ?thesis by simp
next
  case (Some j)
  then have "i \<le> j \<and> j < n \<and> q j \<and> (\<forall>k. i \<le> k \<and> k < j \<longrightarrow> \<not> q k)"
    by (rule scan_SomeD)
  with assms have "scan p i n = Some j"
    by (auto simp: scan_Some_iff)
  with Some show ?thesis by simp
qed

section \<open>Words\<close>

lemma unat_of_nat64: "n < 2 ^ 64 \<Longrightarrow> unat (of_nat n :: u64) = n"
  by (simp add: unat_of_nat take_bit_nat_eq_self)

lemma unat_lt64: "unat (x :: u64) < 2 ^ 64"
  using unsigned_less [of x] by simp

lemma and_exp_neq_0_iff:
  fixes w :: "'a::len word"
  assumes "n < LENGTH('a)"
  shows "w AND push_bit n 1 \<noteq> 0 \<longleftrightarrow> bit w n"
proof
  assume "bit w n"
  then have "bit (w AND push_bit n 1) n"
    using assms by (simp add: bit_simps)
  then show "w AND push_bit n 1 \<noteq> 0" by auto
next
  assume "w AND push_bit n 1 \<noteq> 0"
  then obtain m where "bit (w AND push_bit n 1) m"
    by (metis bit_0_eq bit_eqI bot_apply bot_bool_def)
  then show "bit w n"
    by (auto simp: bit_simps bit_1_iff)
qed

section \<open>Finite sets of page and slot numbers\<close>

lemma card_insert_new: "finite A \<Longrightarrow> x \<notin> A \<Longrightarrow> card (insert x A) = Suc (card A)"
  by simp

lemma div_mod_neq: "(p::nat) \<noteq> q \<Longrightarrow> p div k = q div k \<Longrightarrow> p mod k \<noteq> q mod k"
  by (metis div_mult_mod_eq)

end
