(* ===== verification/Memory.thy ===== *)
theory Memory
  imports Prelude
begin

text \<open>
  Byte-addressed memory and the routines of \<^verbatim>\<open>src/kernel/memory.c\<close>. A memory maps
  addresses to bytes; the loops of \<^verbatim>\<open>memcpy\<close>, \<^verbatim>\<open>memset\<close>, \<^verbatim>\<open>memcmp\<close> and \<^verbatim>\<open>memmove\<close> are
  written as the C code runs them, byte after byte on the same memory, so that an
  overlap of source and destination has the effect it has in C. The closed forms
  are lemmas. The second half reads and writes the little-endian 64-bit cells that
  the page tables are made of.
\<close>

section \<open>The routines of memory.c\<close>

type_synonym memory = "nat \<Rightarrow> u8"

definition copy_byte :: "nat \<Rightarrow> nat \<Rightarrow> nat \<Rightarrow> memory \<Rightarrow> memory" where
  "copy_byte dst src i m = m(dst + i := m (src + i))"

definition memcpy :: "memory \<Rightarrow> nat \<Rightarrow> nat \<Rightarrow> nat \<Rightarrow> memory" where
  "memcpy m dst src num = fold (copy_byte dst src) [0..<num] m"

definition memset :: "memory \<Rightarrow> nat \<Rightarrow> u8 \<Rightarrow> nat \<Rightarrow> memory" where
  "memset m ptr v num = fold (\<lambda>i m. m(ptr + i := v)) [0..<num] m"

definition memcmp :: "memory \<Rightarrow> nat \<Rightarrow> nat \<Rightarrow> nat \<Rightarrow> int" where
  "memcmp m p1 p2 num =
     (case scan (\<lambda>i. m (p1 + i) \<noteq> m (p2 + i)) 0 num of Some _ \<Rightarrow> 1 | None \<Rightarrow> 0)"

definition memmove :: "memory \<Rightarrow> nat \<Rightarrow> nat \<Rightarrow> nat \<Rightarrow> memory" where
  "memmove m dst src num =
     (if dst < src
      then fold (copy_byte dst src) [0..<num] m
      else fold (copy_byte dst src) (rev [0..<num]) m)"

lemma memset_eq [code]:
  "memset m ptr v num = (\<lambda>x. if ptr \<le> x \<and> x < ptr + num then v else m x)"
proof -
  have "fold (\<lambda>i m. m(ptr + i := v)) [0..<num] m
          = (\<lambda>x. if ptr \<le> x \<and> x < ptr + num then v else m x)"
    by (induction num) (auto simp: fun_eq_iff)
  then show ?thesis by (simp add: memset_def)
qed

lemma copy_byte_apply:
  "copy_byte dst src i m x = (if x = dst + i then m (src + i) else m x)"
  by (simp add: copy_byte_def)

lemma copy_forward:
  assumes "dst \<le> src \<or> src + num \<le> dst"
  shows "fold (copy_byte dst src) [0..<num] m
           = (\<lambda>x. if dst \<le> x \<and> x < dst + num then m (src + (x - dst)) else m x)"
  using assms
proof (induction num)
  case 0
  then show ?case by (auto simp: fun_eq_iff)
next
  case (Suc num)
  then have "dst \<le> src \<or> src + num \<le> dst" by auto
  then have IH: "fold (copy_byte dst src) [0..<num] m
      = (\<lambda>x. if dst \<le> x \<and> x < dst + num then m (src + (x - dst)) else m x)"
    by (rule Suc.IH)
  have "\<not> (dst \<le> src + num \<and> src + num < dst + num)"
    using Suc.prems by auto
  then have "copy_byte dst src num (\<lambda>x. if dst \<le> x \<and> x < dst + num then m (src + (x - dst)) else m x)
      = (\<lambda>x. if dst \<le> x \<and> x < dst + Suc num then m (src + (x - dst)) else m x)"
    by (auto simp: fun_eq_iff copy_byte_apply)
  moreover have "fold (copy_byte dst src) [0..<Suc num] m
      = copy_byte dst src num (fold (copy_byte dst src) [0..<num] m)"
    by simp
  ultimately show ?case
    by (simp only: IH)
qed

lemma copy_backward_step:
  assumes "src \<le> dst" "k \<le> num"
  shows "fold (copy_byte dst src) (rev [k..<num]) m
           = (\<lambda>x. if dst + k \<le> x \<and> x < dst + num then m (src + (x - dst)) else m x)"
  using assms(2)
proof (induction "num - k" arbitrary: k)
  case 0
  then show ?case by (auto simp: fun_eq_iff)
next
  case (Suc d)
  then have k: "k < num" "d = num - Suc k" "Suc k \<le> num" by auto
  have "rev [k..<num] = rev [Suc k..<num] @ [k]"
    using k(1) by (simp add: upt_conv_Cons)
  moreover have "fold (copy_byte dst src) (rev [Suc k..<num]) m
      = (\<lambda>x. if dst + Suc k \<le> x \<and> x < dst + num then m (src + (x - dst)) else m x)"
    using k by (intro Suc.hyps(1)) auto
  ultimately show ?case
    using assms(1) k(1) by (auto simp: fun_eq_iff copy_byte_apply not_less_eq_eq le_Suc_eq)
qed

lemma memcpy_eq:
  assumes "dst \<le> src \<or> src + num \<le> dst"
  shows "memcpy m dst src num
           = (\<lambda>x. if dst \<le> x \<and> x < dst + num then m (src + (x - dst)) else m x)"
  by (simp add: memcpy_def copy_forward [OF assms])

lemma memmove_eq:
  "memmove m dst src num
     = (\<lambda>x. if dst \<le> x \<and> x < dst + num then m (src + (x - dst)) else m x)"
  using copy_forward [of dst src num m] copy_backward_step [of src dst 0 num m]
  by (auto simp: memmove_def)

lemma memcmp_0_iff: "memcmp m p1 p2 num = 0 \<longleftrightarrow> (\<forall>i < num. m (p1 + i) = m (p2 + i))"
  by (auto simp: memcmp_def scan_None_iff split: option.splits dest!: scan_SomeD)

section \<open>64-bit cells\<close>

fun read_le :: "memory \<Rightarrow> nat \<Rightarrow> nat \<Rightarrow> u64" where
  "read_le m a 0 = 0"
| "read_le m a (Suc k) = ucast (m a) OR push_bit 8 (read_le m (Suc a) k)"

definition read64 :: "memory \<Rightarrow> nat \<Rightarrow> u64" where
  "read64 m a = read_le m a 8"

lemma bit_read_le:
  "n < 8 * k \<Longrightarrow> bit (read_le m a k) n \<longleftrightarrow> n < 64 \<and> bit (m (a + n div 8)) (n mod 8)"
proof (induction k arbitrary: a n)
  case 0
  then show ?case by simp
next
  case (Suc k)
  show ?case
  proof (cases "n < 8")
    case True
    then show ?thesis by (simp add: bit_simps)
  next
    case False
    then have "n - 8 < 8 * k" using Suc.prems by simp
    note IH = Suc.IH [OF this, of "Suc a"]
    have "\<not> bit (m a) n"
      using False bit_imp_le_length [of "m a" n] by auto
    moreover have "n div 8 = Suc ((n - 8) div 8)" "n mod 8 = (n - 8) mod 8"
      using False by (simp_all add: le_div_geq le_mod_geq not_less)
    ultimately show ?thesis
      using False by (auto simp: bit_simps IH)
  qed
qed

lemma bit_read64: "n < 64 \<Longrightarrow> bit (read64 m a) n \<longleftrightarrow> bit (m (a + n div 8)) (n mod 8)"
  using bit_read_le [of n 8 m a] by (simp add: read64_def)

definition write64 :: "memory \<Rightarrow> nat \<Rightarrow> u64 \<Rightarrow> memory" where
  "write64 m a v = (\<lambda>x. if a \<le> x \<and> x < a + 8 then ucast (drop_bit (8 * (x - a)) v) else m x)"

lemma read64_write64_same [simp]: "read64 (write64 m a v) a = v"
  by (rule bit_word_eqI) (auto simp: bit_read64 write64_def bit_simps)

lemma read64_cong:
  assumes "\<And>i. i < 8 \<Longrightarrow> m (a + i) = m' (a + i)"
  shows "read64 m a = read64 m' a"
  using assms by (intro bit_word_eqI) (simp add: bit_read64)

lemma read64_0:
  assumes "\<And>i. i < 8 \<Longrightarrow> m (a + i) = 0"
  shows "read64 m a = 0"
  using assms by (intro bit_word_eqI) (simp add: bit_read64)

lemma read64_write64_other:
  assumes "a + 8 \<le> b \<or> b + 8 \<le> a"
  shows "read64 (write64 m a v) b = read64 m b"
  by (rule read64_cong) (use assms in \<open>auto simp: write64_def\<close>)

lemma read64_memset_zero:
  assumes "ptr \<le> a" "a + 8 \<le> ptr + num"
  shows "read64 (memset m ptr 0 num) a = 0"
  using assms by (intro read64_0) (simp add: memset_eq)

lemma read64_memset_other:
  assumes "a + 8 \<le> ptr \<or> ptr + num \<le> a"
  shows "read64 (memset m ptr v num) a = read64 m a"
  by (rule read64_cong) (use assms in \<open>auto simp: memset_eq\<close>)

lemma write64_other [simp]: "x < a \<or> a + 8 \<le> x \<Longrightarrow> write64 m a v x = m x"
  by (auto simp: write64_def)

end
