(* ===== verification/Pmm.thy ===== *)
theory Pmm
  imports Memory
begin

text \<open>
  The physical memory manager, \<^verbatim>\<open>src/kernel/mem/pmm.c\<close>. The page bitmap lives in the
  physical memory it describes, as in the code: \<open>bitmap\<close> is the physical address of
  its first byte (the code keeps that address plus the HHDM offset, \<open>None\<close> is the
  null pointer), and every test, set and clear reads or writes \<open>mem\<close>. An allocation
  clears the page it returns in the same memory, so that the bitmap survives an
  allocation is a theorem and not an assumption. Page numbers and sizes are
  natural numbers below \<open>2\<^sup>6\<^sup>4\<close>; the counter \<open>used_pages\<close> and the addresses are 64-bit
  words.
\<close>

section \<open>State\<close>

abbreviation PAGE_SIZE :: nat where
  "PAGE_SIZE \<equiv> 4096"

record limine_memmap_entry =
  me_base :: u64
  me_length :: u64
  me_type :: u64

abbreviation LIMINE_MEMMAP_USABLE :: u64 where
  "LIMINE_MEMMAP_USABLE \<equiv> 0"

abbreviation LIMINE_MEMMAP_BOOTLOADER_RECLAIMABLE :: u64 where
  "LIMINE_MEMMAP_BOOTLOADER_RECLAIMABLE \<equiv> 5"

abbreviation LIMINE_MEMMAP_EXECUTABLE_AND_MODULES :: u64 where
  "LIMINE_MEMMAP_EXECUTABLE_AND_MODULES \<equiv> 6"

record pmm =
  mem :: memory
  hhdm_offset :: u64
  bitmap :: "nat option"
  bitmap_size :: nat
  total_pages :: nat
  used_pages :: u64
  highest_addr :: u64

definition page_addr :: "nat \<Rightarrow> u64" where
  "page_addr page = of_nat (page * PAGE_SIZE)"

section \<open>Bitmap access\<close>

definition bitmap_index :: "'a pmm_scheme \<Rightarrow> nat \<Rightarrow> nat" where
  "bitmap_index s page = the (bitmap s) + page div 8"

definition bitmap_set :: "nat \<Rightarrow> 'a pmm_scheme \<Rightarrow> 'a pmm_scheme" where
  "bitmap_set page s =
     s\<lparr>mem := (mem s)(bitmap_index s page :=
         mem s (bitmap_index s page) OR push_bit (page mod 8) 1)\<rparr>"

definition bitmap_clear :: "nat \<Rightarrow> 'a pmm_scheme \<Rightarrow> 'a pmm_scheme" where
  "bitmap_clear page s =
     s\<lparr>mem := (mem s)(bitmap_index s page :=
         mem s (bitmap_index s page) AND NOT (push_bit (page mod 8) 1))\<rparr>"

definition bitmap_test :: "'a pmm_scheme \<Rightarrow> nat \<Rightarrow> bool" where
  "bitmap_test s page \<longleftrightarrow> mem s (bitmap_index s page) AND push_bit (page mod 8) 1 \<noteq> 0"

section \<open>Initialisation\<close>

text \<open>
  \<open>pmm_init\<close> runs the four loops of the code over the memory map: the highest
  address, the first usable entry that can hold the bitmap, the usable pages, and
  the pages of the bitmap, the kernel and the modules. Sums of a base and a length
  wrap at 64 bits, and \<open>used_pages\<close> counts down and up with wrap-around, as in C.
\<close>

fun find_highest :: "limine_memmap_entry list \<Rightarrow> u64 \<Rightarrow> u64" where
  "find_highest [] h = h"
| "find_highest (e # es) h =
     (let top = me_base e + me_length e in find_highest es (if top > h then top else h))"

definition free_page_step :: "nat \<Rightarrow> nat \<Rightarrow> 'a pmm_scheme \<Rightarrow> 'a pmm_scheme" where
  "free_page_step base_page j s =
     (let page = base_page + j in
      if page < total_pages s
      then (let s = bitmap_clear page s in s\<lparr>used_pages := used_pages s - 1\<rparr>)
      else s)"

definition use_page_step :: "nat \<Rightarrow> nat \<Rightarrow> 'a pmm_scheme \<Rightarrow> 'a pmm_scheme" where
  "use_page_step base_page j s =
     (let page = base_page + j in
      if page < total_pages s \<and> \<not> bitmap_test s page
      then (let s = bitmap_set page s in s\<lparr>used_pages := used_pages s + 1\<rparr>)
      else s)"

definition mark_usable :: "limine_memmap_entry \<Rightarrow> 'a pmm_scheme \<Rightarrow> 'a pmm_scheme" where
  "mark_usable e s =
     (if me_type e = LIMINE_MEMMAP_USABLE
      then fold (free_page_step (unat (me_base e) div PAGE_SIZE))
             [0..<unat (me_length e) div PAGE_SIZE] s
      else s)"

definition mark_kernel :: "limine_memmap_entry \<Rightarrow> 'a pmm_scheme \<Rightarrow> 'a pmm_scheme" where
  "mark_kernel e s =
     (if me_type e = LIMINE_MEMMAP_EXECUTABLE_AND_MODULES
         \<or> me_type e = LIMINE_MEMMAP_BOOTLOADER_RECLAIMABLE
      then fold (use_page_step (unat (me_base e) div PAGE_SIZE))
             [0..<unat (me_length e + of_nat PAGE_SIZE - 1) div PAGE_SIZE] s
      else s)"

definition place_bitmap :: "limine_memmap_entry list \<Rightarrow> nat \<Rightarrow> limine_memmap_entry option" where
  "place_bitmap es sz =
     List.find (\<lambda>e. me_type e = LIMINE_MEMMAP_USABLE \<and> unat (me_length e) \<ge> sz) es"

definition pmm_init :: "limine_memmap_entry list option \<Rightarrow> 'a pmm_scheme \<Rightarrow> 'a pmm_scheme" where
  "pmm_init memmap s =
     (case memmap of
        None \<Rightarrow> s
      | Some es \<Rightarrow>
          (let h = find_highest es (highest_addr s);
               total = unat h div PAGE_SIZE;
               sz = (total + 7) div 8;
               s = s\<lparr>highest_addr := h, total_pages := total, bitmap_size := sz, bitmap := None\<rparr>
           in case place_bitmap es sz of
                None \<Rightarrow> s
              | Some e \<Rightarrow>
                  (let b = unat (me_base e);
                       s = s\<lparr>bitmap := Some b, mem := memset (mem s) b 255 sz,
                             used_pages := of_nat total\<rparr>;
                       s = fold mark_usable es s;
                       s = fold (use_page_step (b div PAGE_SIZE))
                             [0..<(sz + PAGE_SIZE - 1) div PAGE_SIZE] s
                   in fold mark_kernel es s)))"

section \<open>Allocation and release\<close>

definition pmm_alloc :: "'a pmm_scheme \<Rightarrow> u64 \<times> 'a pmm_scheme" where
  "pmm_alloc s =
     (case scan (\<lambda>i. \<not> bitmap_test s i) 0 (total_pages s) of
        Some i \<Rightarrow>
          (let s = bitmap_set i s;
               s = s\<lparr>used_pages := used_pages s + 1\<rparr>;
               page = page_addr i;
               s = s\<lparr>mem := memset (mem s) (unat page) 0 PAGE_SIZE\<rparr>
           in (page, s))
      | None \<Rightarrow> (0, s))"

function find_run :: "(nat \<Rightarrow> bool) \<Rightarrow> nat \<Rightarrow> nat \<Rightarrow> nat \<Rightarrow> nat \<Rightarrow> nat \<Rightarrow> nat option" where
  "find_run isfree count n i found start_page =
     (if i < n then
        (if isfree i then
           (let start_page = (if found = 0 then i else start_page); found = found + 1 in
            if found = count then Some start_page
            else find_run isfree count n (Suc i) found start_page)
         else find_run isfree count n (Suc i) 0 start_page)
      else None)"
  by pat_completeness auto
termination
  by (relation "measure (\<lambda>(isfree, count, n, i, found, start_page). n - i)") auto

declare find_run.simps [simp del]

definition use_run_step :: "nat \<Rightarrow> nat \<Rightarrow> 'a pmm_scheme \<Rightarrow> 'a pmm_scheme" where
  "use_run_step start_page j s =
     (let s = bitmap_set (start_page + j) s in s\<lparr>used_pages := used_pages s + 1\<rparr>)"

definition pmm_alloc_pages :: "nat \<Rightarrow> 'a pmm_scheme \<Rightarrow> u64 \<times> 'a pmm_scheme" where
  "pmm_alloc_pages count s =
     (if count = 0 then (0, s)
      else if count = 1 then pmm_alloc s
      else case find_run (\<lambda>i. \<not> bitmap_test s i) count (total_pages s) 0 0 0 of
             Some start_page \<Rightarrow>
               (let s = fold (use_run_step start_page) [0..<count] s;
                    page = page_addr start_page;
                    s = s\<lparr>mem := memset (mem s) (unat page) 0 (count * PAGE_SIZE)\<rparr>
                in (page, s))
           | None \<Rightarrow> (0, s))"

definition release_page :: "nat \<Rightarrow> 'a pmm_scheme \<Rightarrow> 'a pmm_scheme" where
  "release_page page s =
     (if page \<ge> total_pages s then s
      else if \<not> bitmap_test s page then s
      else (let s = bitmap_clear page s in s\<lparr>used_pages := used_pages s - 1\<rparr>))"

definition pmm_free :: "u64 \<Rightarrow> 'a pmm_scheme \<Rightarrow> 'a pmm_scheme" where
  "pmm_free page s = (if page = 0 then s else release_page (unat page div PAGE_SIZE) s)"

definition pmm_free_pages :: "u64 \<Rightarrow> nat \<Rightarrow> 'a pmm_scheme \<Rightarrow> 'a pmm_scheme" where
  "pmm_free_pages page count s =
     (if page = 0 \<or> count = 0 then s
      else fold (\<lambda>i. release_page ((unat page div PAGE_SIZE + i) mod 2 ^ 64)) [0..<count] s)"

definition pmm_get_end_of_memory :: "'a pmm_scheme \<Rightarrow> u64" where
  "pmm_get_end_of_memory s = highest_addr s"

definition pmm_get_total_memory :: "'a pmm_scheme \<Rightarrow> u64" where
  "pmm_get_total_memory s = of_nat (total_pages s) * of_nat PAGE_SIZE"

definition pmm_get_used_memory :: "'a pmm_scheme \<Rightarrow> u64" where
  "pmm_get_used_memory s = used_pages s * of_nat PAGE_SIZE"

definition pmm_get_free_memory :: "'a pmm_scheme \<Rightarrow> u64" where
  "pmm_get_free_memory s = (of_nat (total_pages s) - used_pages s) * of_nat PAGE_SIZE"

section \<open>Lemmas on the bitmap\<close>

lemma bitmap_test_bit: "bitmap_test s p \<longleftrightarrow> bit (mem s (bitmap_index s p)) (p mod 8)"
  unfolding bitmap_test_def by (rule and_exp_neq_0_iff) simp

lemma bitmap_index_update [simp]:
  "bitmap_index (s\<lparr>mem := m\<rparr>) p = bitmap_index s p"
  "bitmap_index (s\<lparr>used_pages := u\<rparr>) p = bitmap_index s p"
  by (simp_all add: bitmap_index_def)

lemma bitmap_index_eq_iff: "bitmap_index s p = bitmap_index s q \<longleftrightarrow> p div 8 = q div 8"
  by (simp add: bitmap_index_def)

lemma bitmap_set_fields [simp]:
  "bitmap (bitmap_set p s) = bitmap s" "bitmap_size (bitmap_set p s) = bitmap_size s"
  "total_pages (bitmap_set p s) = total_pages s" "used_pages (bitmap_set p s) = used_pages s"
  "highest_addr (bitmap_set p s) = highest_addr s" "hhdm_offset (bitmap_set p s) = hhdm_offset s"
  "bitmap_index (bitmap_set p s) q = bitmap_index s q"
  "pmm.more (bitmap_set p s) = pmm.more s"
  by (simp_all add: bitmap_set_def bitmap_index_def)

lemma bitmap_clear_fields [simp]:
  "bitmap (bitmap_clear p s) = bitmap s" "bitmap_size (bitmap_clear p s) = bitmap_size s"
  "total_pages (bitmap_clear p s) = total_pages s" "used_pages (bitmap_clear p s) = used_pages s"
  "highest_addr (bitmap_clear p s) = highest_addr s" "hhdm_offset (bitmap_clear p s) = hhdm_offset s"
  "bitmap_index (bitmap_clear p s) q = bitmap_index s q"
  "pmm.more (bitmap_clear p s) = pmm.more s"
  by (simp_all add: bitmap_clear_def bitmap_index_def)

lemma bitmap_test_set [simp]: "bitmap_test (bitmap_set p s) q \<longleftrightarrow> q = p \<or> bitmap_test s q"
proof (cases "q div 8 = p div 8")
  case True
  have "q mod 8 = p mod 8 \<longleftrightarrow> q = p"
    using True div_mod_neq [of q p 8] by auto
  with True show ?thesis
    by (auto simp: bitmap_test_bit bitmap_set_def bitmap_index_def bit_simps)
next
  case False
  then show ?thesis
    by (auto simp: bitmap_test_bit bitmap_set_def bitmap_index_def)
qed

lemma bitmap_test_clear [simp]: "bitmap_test (bitmap_clear p s) q \<longleftrightarrow> q \<noteq> p \<and> bitmap_test s q"
proof (cases "q div 8 = p div 8")
  case True
  have "q mod 8 = p mod 8 \<longleftrightarrow> q = p"
    using True div_mod_neq [of q p 8] by auto
  with True show ?thesis
    by (auto simp: bitmap_test_bit bitmap_clear_def bitmap_index_def bit_simps)
next
  case False
  then show ?thesis
    by (auto simp: bitmap_test_bit bitmap_clear_def bitmap_index_def)
qed

lemma bitmap_test_used_pages [simp]: "bitmap_test (s\<lparr>used_pages := u\<rparr>) p = bitmap_test s p"
  by (simp add: bitmap_test_bit)

definition free_pages :: "'a pmm_scheme \<Rightarrow> nat set" where
  "free_pages s = {p. p < total_pages s \<and> \<not> bitmap_test s p}"

definition used_set :: "'a pmm_scheme \<Rightarrow> nat set" where
  "used_set s = {p. p < total_pages s \<and> bitmap_test s p}"

definition bitmap_bytes :: "'a pmm_scheme \<Rightarrow> nat set" where
  "bitmap_bytes s = (case bitmap s of None \<Rightarrow> {} | Some b \<Rightarrow> {b..<b + bitmap_size s})"

definition pmm_inv :: "'a pmm_scheme \<Rightarrow> bool" where
  "pmm_inv s \<longleftrightarrow>
     bitmap s \<noteq> None
     \<and> total_pages s \<le> 8 * bitmap_size s
     \<and> total_pages s \<le> 2 ^ 52
     \<and> (\<forall>a \<in> bitmap_bytes s. a div PAGE_SIZE \<in> used_set s)
     \<and> used_pages s = of_nat (card (used_set s))"

lemma bitmap_bytes_set [simp]:
  "bitmap_bytes (bitmap_set p s) = bitmap_bytes s" "bitmap_bytes (bitmap_clear p s) = bitmap_bytes s"
  "bitmap_bytes (s\<lparr>used_pages := u\<rparr>) = bitmap_bytes s" "bitmap_bytes (s\<lparr>mem := m\<rparr>) = bitmap_bytes s"
  by (simp_all add: bitmap_bytes_def split: option.split)

lemma finite_used_set [simp]: "finite (used_set s)"
  by (simp add: used_set_def)

lemma finite_free_pages [simp]: "finite (free_pages s)"
  by (simp add: free_pages_def)

lemma free_used_card: "card (free_pages s) + card (used_set s) = total_pages s"
proof -
  have "free_pages s \<union> used_set s = {..<total_pages s}" "free_pages s \<inter> used_set s = {}"
    by (auto simp: free_pages_def used_set_def)
  then show ?thesis
    using card_Un_disjoint [of "free_pages s" "used_set s"] by simp
qed

lemma bitmap_index_in_bytes:
  "pmm_inv s \<Longrightarrow> p < total_pages s \<Longrightarrow> bitmap_index s p \<in> bitmap_bytes s"
  by (auto simp: pmm_inv_def bitmap_bytes_def bitmap_index_def)

text \<open>A write outside the bitmap's own bytes changes no page's status.\<close>

lemma bitmap_test_mem:
  assumes "pmm_inv s" "p < total_pages s" "\<And>a. a \<in> bitmap_bytes s \<Longrightarrow> m a = mem s a"
  shows "bitmap_test (s\<lparr>mem := m\<rparr>) p = bitmap_test s p"
  using assms bitmap_index_in_bytes [OF assms(1,2)] by (simp add: bitmap_test_bit)

lemma mem_update_frames:
  assumes "pmm_inv s" "\<And>a. a \<in> bitmap_bytes s \<Longrightarrow> m a = mem s a"
  shows "used_set (s\<lparr>mem := m\<rparr>) = used_set s" "free_pages (s\<lparr>mem := m\<rparr>) = free_pages s"
    "pmm_inv (s\<lparr>mem := m\<rparr>)"
proof -
  note t = bitmap_test_mem [OF assms(1) _ assms(2)]
  show u: "used_set (s\<lparr>mem := m\<rparr>) = used_set s"
    using t by (auto simp: used_set_def)
  show "free_pages (s\<lparr>mem := m\<rparr>) = free_pages s"
    using t by (auto simp: free_pages_def)
  show "pmm_inv (s\<lparr>mem := m\<rparr>)"
    using assms(1) u by (simp add: pmm_inv_def)
qed

lemma free_page_not_bitmap:
  assumes "pmm_inv s" "p \<in> free_pages s" "a div PAGE_SIZE = p"
  shows "a \<notin> bitmap_bytes s"
  using assms by (auto simp: pmm_inv_def free_pages_def used_set_def)

text \<open>The two status changes, with the counter that goes with them.\<close>

lemma use_page_frames:
  assumes "pmm_inv s" "p \<in> free_pages s"
  defines "t \<equiv> (bitmap_set p s)\<lparr>used_pages := used_pages s + 1\<rparr>"
  shows "pmm_inv t" "free_pages t = free_pages s - {p}" "used_set t = insert p (used_set s)"
proof -
  show u: "used_set t = insert p (used_set s)"
    using assms(2) by (auto simp: t_def used_set_def free_pages_def)
  show "free_pages t = free_pages s - {p}"
    by (auto simp: t_def free_pages_def)
  have "p \<notin> used_set s" using assms(2) by (simp add: used_set_def free_pages_def)
  then have "card (used_set t) = Suc (card (used_set s))" by (simp add: u)
  with assms(1) show "pmm_inv t"
    unfolding pmm_inv_def u by (simp add: t_def)
qed

lemma release_page_frames:
  assumes "pmm_inv s" "p \<in> used_set s" "\<And>a. a \<in> bitmap_bytes s \<Longrightarrow> a div PAGE_SIZE \<noteq> p"
  defines "t \<equiv> (bitmap_clear p s)\<lparr>used_pages := used_pages s - 1\<rparr>"
  shows "pmm_inv t" "free_pages t = insert p (free_pages s)" "used_set t = used_set s - {p}"
proof -
  show u: "used_set t = used_set s - {p}"
    by (auto simp: t_def used_set_def)
  show "free_pages t = insert p (free_pages s)"
    using assms(2) by (auto simp: t_def free_pages_def used_set_def)
  have "card (used_set s) = Suc (card (used_set t))"
    unfolding u using card_Suc_Diff1 [OF finite_used_set assms(2)] by simp
  moreover have "\<forall>a \<in> bitmap_bytes s. a div PAGE_SIZE \<in> used_set s - {p}"
    using assms(1,3) by (simp add: pmm_inv_def)
  ultimately show "pmm_inv t"
    using assms(1) unfolding pmm_inv_def u by (simp add: t_def)
qed

lemma page_addr_unat: "p < 2 ^ 52 \<Longrightarrow> unat (page_addr p) = p * PAGE_SIZE"
  unfolding page_addr_def by (rule unat_of_nat64) simp

lemma pmm_alloc_none: "free_pages s = {} \<Longrightarrow> pmm_alloc s = (0, s)"
  by (auto simp: pmm_alloc_def free_pages_def scan_None_iff split: option.split dest!: scan_SomeD)

lemma scan_free_page:
  assumes "free_pages s \<noteq> {}"
  shows "scan (\<lambda>i. \<not> bitmap_test s i) 0 (total_pages s) = Some (Min (free_pages s))"
proof -
  obtain q where q: "q = Min (free_pages s)" by simp
  then have "q \<in> free_pages s"
    using assms by (simp add: Min_in)
  moreover have "k \<notin> free_pages s" if "k < q" for k
    using that assms q by (meson Min_le finite_free_pages linorder_not_le)
  ultimately have "scan (\<lambda>i. \<not> bitmap_test s i) 0 (total_pages s) = Some q"
    unfolding scan_Some_iff by (auto simp: free_pages_def)
  then show ?thesis by (simp only: q)
qed

lemma pmm_alloc_some:
  assumes "pmm_inv s" "free_pages s \<noteq> {}"
  defines "p \<equiv> Min (free_pages s)"
  obtains t where "pmm_alloc s = (page_addr p, t)"
    "pmm_inv t" "free_pages t = free_pages s - {p}" "used_set t = insert p (used_set s)"
    "\<And>a. a div PAGE_SIZE = p \<Longrightarrow> mem t a = 0"
    "\<And>a. a div PAGE_SIZE \<noteq> p \<Longrightarrow> a \<notin> bitmap_bytes s \<Longrightarrow> mem t a = mem s a"
    "t = s\<lparr>mem := mem t, used_pages := used_pages s + 1\<rparr>"
proof -
  define t1 where "t1 = (bitmap_set p s)\<lparr>used_pages := used_pages s + 1\<rparr>"
  define t where "t = t1\<lparr>mem := memset (mem t1) (p * PAGE_SIZE) 0 PAGE_SIZE\<rparr>"
  have p: "p \<in> free_pages s"
    using assms(2) unfolding p_def by (intro Min_in) auto
  then have "p < 2 ^ 52"
    using assms(1) by (auto simp: free_pages_def pmm_inv_def)
  then have "pmm_alloc s = (page_addr p, t)"
    unfolding pmm_alloc_def scan_free_page [OF assms(2)] p_def [symmetric]
    by (simp add: t_def t1_def page_addr_unat Let_def)
  note t1 = use_page_frames [OF assms(1) p, folded t1_def]
  have keep: "mem t a = mem t1 a" if "a div PAGE_SIZE \<noteq> p" for a
    using that by (auto simp: t_def memset_eq)
  have "\<And>a. a \<in> bitmap_bytes t1 \<Longrightarrow> mem t a = mem t1 a"
    using free_page_not_bitmap [OF assms(1) p] by (intro keep) (auto simp: t1_def)
  from mem_update_frames [OF t1(1) this] 
  have "pmm_inv t" "free_pages t = free_pages s - {p}" "used_set t = insert p (used_set s)"
    using t1 by (auto simp: t_def)
  moreover have "\<And>a. a div PAGE_SIZE = p \<Longrightarrow> mem t a = 0"
    by (auto simp: t_def memset_eq)
  moreover have "mem t a = mem s a" if "a div PAGE_SIZE \<noteq> p" "a \<notin> bitmap_bytes s" for a
  proof -
    have "a \<noteq> bitmap_index s p"
      using that(2) bitmap_index_in_bytes [OF assms(1)] p by (auto simp: free_pages_def)
    with keep [OF that(1)] show ?thesis by (simp add: t1_def bitmap_set_def)
  qed
  moreover have "t = s\<lparr>mem := mem t, used_pages := used_pages s + 1\<rparr>"
    by (simp add: t_def t1_def bitmap_set_def)
  ultimately show ?thesis
    using \<open>pmm_alloc s = _\<close> that by blast
qed

section \<open>Contiguous runs\<close>

text \<open>\<open>same_rest s t\<close>: \<open>t\<close> differs from \<open>s\<close> in the memory and the page counter at most.\<close>

definition same_rest :: "'a pmm_scheme \<Rightarrow> 'a pmm_scheme \<Rightarrow> bool" where
  "same_rest s t \<longleftrightarrow> t = s\<lparr>mem := mem t, used_pages := used_pages t\<rparr>"

lemma same_rest_refl [simp]: "same_rest s s"
  by (simp add: same_rest_def)

lemma same_rest_trans: "same_rest s t \<Longrightarrow> same_rest t u \<Longrightarrow> same_rest s u"
  unfolding same_rest_def by (cases s; cases t; cases u) simp

lemma same_rest_update [simp]:
  "same_rest s (s\<lparr>mem := m\<rparr>)" "same_rest s (s\<lparr>used_pages := n\<rparr>)"
  "same_rest s (s\<lparr>mem := m, used_pages := n\<rparr>)"
  "same_rest s (s\<lparr>used_pages := n, mem := m\<rparr>)"
  "same_rest s (bitmap_set p s)" "same_rest s (bitmap_clear p s)"
  by (simp_all add: same_rest_def bitmap_set_def bitmap_clear_def)

lemma same_restD:
  assumes "same_rest s t"
  shows "bitmap t = bitmap s" "bitmap_size t = bitmap_size s" "total_pages t = total_pages s"
    "highest_addr t = highest_addr s" "hhdm_offset t = hhdm_offset s" "pmm.more t = pmm.more s"
    "bitmap_bytes t = bitmap_bytes s"
proof -
  have t: "t = s\<lparr>mem := mem t, used_pages := used_pages t\<rparr>"
    using assms by (simp add: same_rest_def)
  show "bitmap t = bitmap s" "bitmap_size t = bitmap_size s" "total_pages t = total_pages s"
    "highest_addr t = highest_addr s" "hhdm_offset t = hhdm_offset s" "pmm.more t = pmm.more s"
    "bitmap_bytes t = bitmap_bytes s"
    by (subst t, simp)+
qed

definition free_run :: "'a pmm_scheme \<Rightarrow> nat \<Rightarrow> nat \<Rightarrow> bool" where
  "free_run s count a \<longleftrightarrow> {a..<a + count} \<subseteq> free_pages s"

lemma find_run_spec:
  assumes "found \<le> i" "found < count" "found > 0 \<longrightarrow> start = i - found"
    "\<forall>k. i - found \<le> k \<and> k < i \<longrightarrow> f k" "found < i \<longrightarrow> \<not> f (i - found - 1)"
    "\<forall>a. a + count \<le> i \<longrightarrow> (\<exists>k. a \<le> k \<and> k < a + count \<and> \<not> f k)" "i \<le> n"
  shows "case find_run f count n i found start of
           Some a \<Rightarrow> a + count \<le> n \<and> (\<forall>k. a \<le> k \<and> k < a + count \<longrightarrow> f k)
             \<and> (\<forall>b < a. \<exists>k. b \<le> k \<and> k < b + count \<and> \<not> f k)
         | None \<Rightarrow> (\<forall>a. a + count \<le> n \<longrightarrow> (\<exists>k. a \<le> k \<and> k < a + count \<and> \<not> f k))"
  using assms
proof (induction f count n i found start rule: find_run.induct)
  case (1 f count n i found start)
  note P = "1.prems"
  let ?st = "if found = 0 then i else start"
  have st: "?st = i - found" using P(1,3) by auto
  consider (stop) "\<not> i < n" | (used) "i < n" "\<not> f i" | (full) "i < n" "f i" "found + 1 = count"
    | (more) "i < n" "f i" "found + 1 \<noteq> count" by blast
  then show ?case
  proof cases
    case stop
    then have "find_run f count n i found start = None"
      by (subst find_run.simps) simp
    with P(6,7) stop show ?thesis by simp
  next
    case used
    have "\<exists>k. a \<le> k \<and> k < a + count \<and> \<not> f k" if "a + count \<le> Suc i" for a
    proof (cases "a + count \<le> i")
      case True with P(6) show ?thesis by blast
    next
      case False
      with that P(2) used(2) show ?thesis by (intro exI [of _ i]) auto
    qed
    then have "case find_run f count n (Suc i) 0 start of
           Some a \<Rightarrow> a + count \<le> n \<and> (\<forall>k. a \<le> k \<and> k < a + count \<longrightarrow> f k)
             \<and> (\<forall>b < a. \<exists>k. b \<le> k \<and> k < b + count \<and> \<not> f k)
         | None \<Rightarrow> (\<forall>a. a + count \<le> n \<longrightarrow> (\<exists>k. a \<le> k \<and> k < a + count \<and> \<not> f k))"
      using used P(2) by (intro "1.IH"(2)) auto
    with used show ?thesis by (simp add: find_run.simps [of f count n i found])
  next
    case full
    have "\<forall>k. ?st \<le> k \<and> k < ?st + count \<longrightarrow> f k"
      using P(1,4) full st by (auto simp: less_Suc_eq)
    moreover have "\<exists>k. b \<le> k \<and> k < b + count \<and> \<not> f k" if "b < ?st" for b
    proof -
      have "b + count \<le> i" using that st P(1) full(3) by linarith
      with P(6) show ?thesis by blast
    qed
    moreover have "?st + count \<le> n" using st full P(1) by linarith
    ultimately show ?thesis
      using full by (simp add: find_run.simps [of f count n i found] Let_def)
  next
    case more
    have "\<exists>k. a \<le> k \<and> k < a + count \<and> \<not> f k" if "a + count \<le> Suc i" for a
    proof (cases "a + count \<le> i")
      case True with P(6) show ?thesis by blast
    next
      case False
      then have "a + count = Suc i" using that by simp
      then have "a \<le> i - found - 1" "found < i" "i - found - 1 < a + count" 
        using more(3) P(2) by linarith+
      with P(5) show ?thesis by blast
    qed
    then have "case find_run f count n (Suc i) (found + 1) ?st of
           Some a \<Rightarrow> a + count \<le> n \<and> (\<forall>k. a \<le> k \<and> k < a + count \<longrightarrow> f k)
             \<and> (\<forall>b < a. \<exists>k. b \<le> k \<and> k < b + count \<and> \<not> f k)
         | None \<Rightarrow> (\<forall>a. a + count \<le> n \<longrightarrow> (\<exists>k. a \<le> k \<and> k < a + count \<and> \<not> f k))"
      using more P st by (intro "1.IH"(1)) (auto simp: less_Suc_eq)
    with more show ?thesis by (simp add: find_run.simps [of f count n i found] Let_def)
  qed
qed

lemma find_run_free:
  assumes "0 < count"
  shows "case find_run (\<lambda>i. \<not> bitmap_test s i) count (total_pages s) 0 0 0 of
           Some a \<Rightarrow> free_run s count a \<and> (\<forall>b < a. \<not> free_run s count b)
         | None \<Rightarrow> (\<forall>a. \<not> free_run s count a)"
proof -
  have run: "free_run s count a \<longleftrightarrow>
      a + count \<le> total_pages s \<and> (\<forall>k. a \<le> k \<and> k < a + count \<longrightarrow> \<not> bitmap_test s k)" for a
  proof
    assume r: "free_run s count a"
    then have "a + count - 1 \<in> free_pages s" using assms by (auto simp: free_run_def)
    with r show "a + count \<le> total_pages s \<and> (\<forall>k. a \<le> k \<and> k < a + count \<longrightarrow> \<not> bitmap_test s k)"
      using assms by (auto simp: free_run_def free_pages_def)
  qed (auto simp: free_run_def free_pages_def)
  show ?thesis
    using find_run_spec [of 0 0 count 0 "\<lambda>i. \<not> bitmap_test s i" "total_pages s"] assms
    by (auto simp: run split: option.splits)
qed

lemma use_run_frames:
  assumes "pmm_inv s" "free_run s count a"
  defines "t \<equiv> fold (use_run_step a) [0..<count] s"
  shows "pmm_inv t \<and> free_pages t = free_pages s - {a..<a + count}
      \<and> used_set t = used_set s \<union> {a..<a + count}
      \<and> (\<forall>x. x \<notin> bitmap_bytes s \<longrightarrow> mem t x = mem s x)
      \<and> same_rest s t"
  using assms(2) unfolding t_def
proof (induction count)
  case 0
  with assms(1) show ?case by simp
next
  case (Suc count)
  define u where "u = fold (use_run_step a) [0..<count] s"
  have "free_run s count a" using Suc.prems by (auto simp: free_run_def)
  note IH = Suc.IH [OF this, folded u_def]
  have p: "a + count \<in> free_pages u"
    using IH Suc.prems by (auto simp: free_run_def)
  define t' where "t' = (bitmap_set (a + count) u)\<lparr>used_pages := used_pages u + 1\<rparr>"
  have fold: "fold (use_run_step a) [0..<Suc count] s = t'"
    by (simp add: u_def [symmetric] use_run_step_def t'_def Let_def)
  have idx: "bitmap_index u (a + count) \<in> bitmap_bytes u"
    using p IH by (intro bitmap_index_in_bytes) (auto simp: free_pages_def)
  note t' = use_page_frames [of u "a + count", folded t'_def]
  have "same_rest u t'"
    unfolding t'_def by (rule same_rest_trans [OF same_rest_update(5) same_rest_update(2)])
  with IH have rest: "same_rest s t'" by (blast intro: same_rest_trans)
  have bytes: "bitmap_bytes u = bitmap_bytes s"
    using IH by (blast dest: same_restD)
  then have "\<forall>x. x \<notin> bitmap_bytes s \<longrightarrow> mem t' x = mem s x"
    using idx IH by (auto simp: t'_def bitmap_set_def)
  moreover have "{a..<a + Suc count} = insert (a + count) {a..<a + count}" by auto
  ultimately show ?case
    using IH p t' rest unfolding fold by auto
qed

definition bitmap_pages :: "'a pmm_scheme \<Rightarrow> nat set" where
  "bitmap_pages s = (\<lambda>a. a div PAGE_SIZE) ` bitmap_bytes s"

lemma bitmap_pages_used: "pmm_inv s \<Longrightarrow> bitmap_pages s \<subseteq> used_set s"
  by (auto simp: pmm_inv_def bitmap_pages_def)

lemma same_rest_bitmap_pages: "same_rest s t \<Longrightarrow> bitmap_pages t = bitmap_pages s"
  by (simp add: bitmap_pages_def same_restD)

text \<open>
  \<open>alloc_post s t a n\<close>: \<open>t\<close> results from \<open>s\<close> by handing out the \<open>n\<close> pages from
  \<open>a\<close> on. They were free and are free no longer, their bytes are zero, every byte
  outside them and outside the bitmap is as before, and the invariant holds.
\<close>

definition alloc_post :: "'a pmm_scheme \<Rightarrow> 'a pmm_scheme \<Rightarrow> nat \<Rightarrow> nat \<Rightarrow> bool" where
  "alloc_post s t a n \<longleftrightarrow>
     pmm_inv t \<and> same_rest s t
     \<and> {a..<a + n} \<subseteq> free_pages s \<and> free_pages t = free_pages s - {a..<a + n}
     \<and> (\<forall>x. x div PAGE_SIZE \<in> {a..<a + n} \<longrightarrow> mem t x = 0)
     \<and> (\<forall>x. x div PAGE_SIZE \<notin> {a..<a + n} \<and> x \<notin> bitmap_bytes s \<longrightarrow> mem t x = mem s x)"

lemma pmm_alloc_post:
  assumes "pmm_inv s" "free_pages s \<noteq> {}"
  shows "\<exists>t. pmm_alloc s = (page_addr (Min (free_pages s)), t) \<and> alloc_post s t (Min (free_pages s)) 1"
proof -
  obtain t where t: "pmm_alloc s = (page_addr (Min (free_pages s)), t)"
    "pmm_inv t" "free_pages t = free_pages s - {Min (free_pages s)}"
    "\<And>a. a div PAGE_SIZE = Min (free_pages s) \<Longrightarrow> mem t a = 0"
    "\<And>a. a div PAGE_SIZE \<noteq> Min (free_pages s) \<Longrightarrow> a \<notin> bitmap_bytes s \<Longrightarrow> mem t a = mem s a"
    "t = s\<lparr>mem := mem t, used_pages := used_pages s + 1\<rparr>"
    using pmm_alloc_some [OF assms] by metis
  have "{Min (free_pages s)..<Min (free_pages s) + 1} = {Min (free_pages s)}" by auto
  moreover have "same_rest s t" by (subst t(6)) simp
  moreover have "Min (free_pages s) \<in> free_pages s" using assms(2) by simp
  ultimately have "alloc_post s t (Min (free_pages s)) 1"
    using t(2-5) unfolding alloc_post_def by simp
  with t(1) show ?thesis by blast
qed

lemma run_div_iff: "(x::nat) div 4096 \<in> {a..<a + n} \<longleftrightarrow> a * 4096 \<le> x \<and> x < a * 4096 + n * 4096"
  by (auto simp: less_eq_div_iff_mult_less_eq div_less_iff_less_mult algebra_simps)

lemma pmm_alloc_pages_run:
  assumes inv: "pmm_inv s" and n: "1 < n" and a: "free_run s n a" and least: "\<forall>b < a. \<not> free_run s n b"
  shows "\<exists>t. pmm_alloc_pages n s = (page_addr a, t) \<and> alloc_post s t a n"
proof -
  have "find_run (\<lambda>i. \<not> bitmap_test s i) n (total_pages s) 0 0 0 = Some a"
    using find_run_free [of n s] n a least
    by (auto split: option.splits) (metis linorder_neqE_nat)
  moreover define u where "u = fold (use_run_step a) [0..<n] s"
  moreover have u: "pmm_inv u" "free_pages u = free_pages s - {a..<a + n}"
      "\<forall>x. x \<notin> bitmap_bytes s \<longrightarrow> mem u x = mem s x" "same_rest s u"
    using use_run_frames [OF inv a] by (auto simp: u_def)
  moreover define t where "t = u\<lparr>mem := memset (mem u) (a * PAGE_SIZE) 0 (n * PAGE_SIZE)\<rparr>"
  moreover have "a < 2 ^ 52"
  proof -
    have "a \<in> free_pages s" using a n by (auto simp: free_run_def)
    with inv show ?thesis by (auto simp: free_pages_def pmm_inv_def)
  qed
  ultimately have "pmm_alloc_pages n s = (page_addr a, t)"
    using n by (simp add: pmm_alloc_pages_def page_addr_unat Let_def)
  moreover have mem: "mem t x = (if x div PAGE_SIZE \<in> {a..<a + n} then 0 else mem u x)" for x
    unfolding run_div_iff by (simp add: t_def memset_eq)
  have "\<And>x. x \<in> bitmap_bytes u \<Longrightarrow> mem t x = mem u x"
    using u a free_page_not_bitmap [OF inv] same_restD(7) [OF u(4)]
    by (auto simp: mem free_run_def)
  from mem_update_frames [OF u(1) this]
  have "pmm_inv t" "free_pages t = free_pages u" by (auto simp: t_def)
  moreover have "same_rest s t"
    using u(4) by (rule same_rest_trans) (simp add: t_def)
  ultimately show ?thesis
    using u a by (auto simp: alloc_post_def free_run_def mem)
qed

lemma pmm_alloc_pages_none:
  assumes "pmm_inv s" "0 < n" "\<forall>a. \<not> free_run s n a"
  shows "pmm_alloc_pages n s = (0, s)"
proof (cases "n = 1")
  case True
  have "free_pages s = {}"
  proof (rule equals0I)
    fix p assume "p \<in> free_pages s"
    then have "free_run s n p" by (simp add: True free_run_def)
    with assms(3) show False by blast
  qed
  with True show ?thesis by (simp add: pmm_alloc_pages_def pmm_alloc_none)
next
  case False
  with find_run_free [OF assms(2), of s] assms(3) assms(2) show ?thesis
    by (auto simp: pmm_alloc_pages_def split: option.splits)
qed

lemma pmm_alloc_pages_some:
  assumes inv: "pmm_inv s" and n: "0 < n" and a: "free_run s n a" and least: "\<forall>b < a. \<not> free_run s n b"
  shows "\<exists>t. pmm_alloc_pages n s = (page_addr a, t) \<and> alloc_post s t a n"
proof (cases "n = 1")
  case True
  have "a \<in> free_pages s" "\<forall>b < a. b \<notin> free_pages s"
    using a least by (auto simp: True free_run_def)
  then have "Min (free_pages s) = a"
    by (intro Min_eqI) (auto simp: not_less [symmetric])
  with pmm_alloc_post [OF inv] \<open>a \<in> free_pages s\<close> show ?thesis
    by (auto simp: True pmm_alloc_pages_def)
qed (use pmm_alloc_pages_run [OF inv _ a least] n in auto)

section \<open>Release\<close>

definition release_post :: "'a pmm_scheme \<Rightarrow> 'a pmm_scheme \<Rightarrow> nat set \<Rightarrow> bool" where
  "release_post s t P \<longleftrightarrow>
     pmm_inv t \<and> same_rest s t \<and> free_pages t = free_pages s \<union> (P \<inter> {..<total_pages s})
     \<and> (\<forall>x. x \<notin> bitmap_bytes s \<longrightarrow> mem t x = mem s x)"

lemma release_post_refl: "pmm_inv s \<Longrightarrow> P \<inter> {..<total_pages s} \<subseteq> free_pages s \<Longrightarrow> release_post s s P"
  by (auto simp: release_post_def)

lemma release_page_post:
  assumes "pmm_inv s" "p \<notin> bitmap_pages s"
  shows "release_post s (release_page p s) {p}"
proof (cases "p \<in> used_set s")
  case False
  then have "release_page p s = s"
    by (auto simp: release_page_def used_set_def)
  moreover have "{p} \<inter> {..<total_pages s} \<subseteq> free_pages s"
    using False by (auto simp: used_set_def free_pages_def)
  ultimately show ?thesis using assms(1) by (simp add: release_post_refl)
next
  case True
  define t where "t = (bitmap_clear p s)\<lparr>used_pages := used_pages s - 1\<rparr>"
  have t: "release_page p s = t"
    using True by (simp add: release_page_def used_set_def t_def Let_def)
  have "\<And>a. a \<in> bitmap_bytes s \<Longrightarrow> a div PAGE_SIZE \<noteq> p"
    using assms(2) by (auto simp: bitmap_pages_def)
  note f = release_page_frames [OF assms(1) True this, folded t_def]
  have "bitmap_index s p \<in> bitmap_bytes s"
    using True by (intro bitmap_index_in_bytes assms) (auto simp: used_set_def)
  then have "\<forall>x. x \<notin> bitmap_bytes s \<longrightarrow> mem t x = mem s x"
    by (auto simp: t_def bitmap_clear_def)
  moreover have "same_rest s t"
    unfolding t_def by (rule same_rest_trans [OF same_rest_update(6) same_rest_update(2)])
  ultimately show ?thesis
    using f True unfolding t release_post_def by (auto simp: used_set_def)
qed

lemma release_post_trans:
  assumes "release_post s t P" "release_post t u Q"
  shows "release_post s u (P \<union> Q)"
proof -
  have "total_pages t = total_pages s" "bitmap_bytes t = bitmap_bytes s" "same_rest s u"
    using assms by (auto simp: release_post_def same_restD intro: same_rest_trans)
  with assms show ?thesis
    by (auto simp: release_post_def)
qed

lemma pmm_free_post:
  assumes "pmm_inv s" "a \<noteq> 0" "unat a div PAGE_SIZE \<notin> bitmap_pages s"
  shows "release_post s (pmm_free a s) {unat a div PAGE_SIZE}"
  using assms release_page_post [OF assms(1,3)] by (simp add: pmm_free_def)

lemma release_run_post:
  assumes "pmm_inv s" "p + n \<le> 2 ^ 64" "{p..<p + n} \<inter> bitmap_pages s = {}"
  shows "release_post s (fold (\<lambda>i. release_page ((p + i) mod 2 ^ 64)) [0..<n] s) {p..<p + n}"
  using assms(2,3)
proof (induction n)
  case 0
  then show ?case using assms(1) by (simp add: release_post_refl)
next
  case (Suc n)
  define u where "u = fold (\<lambda>i. release_page ((p + i) mod 2 ^ 64)) [0..<n] s"
  have IH: "release_post s u {p..<p + n}"
    unfolding u_def using Suc.prems by (intro Suc.IH) (simp_all, fastforce)
  then have "bitmap_pages u = bitmap_pages s" "pmm_inv u"
    by (auto simp: release_post_def same_rest_bitmap_pages)
  then have "release_post u (release_page (p + n) u) {p + n}"
    using Suc.prems by (intro release_page_post) (auto simp: disjoint_iff)
  with IH have "release_post s (release_page (p + n) u) ({p..<p + n} \<union> {p + n})"
    by (rule release_post_trans)
  moreover have "{p..<p + n} \<union> {p + n} = {p..<p + Suc n}" by auto
  moreover have "fold (\<lambda>i. release_page ((p + i) mod 2 ^ 64)) [0..<Suc n] s = release_page (p + n) u"
    using Suc.prems by (simp add: u_def)
  ultimately show ?case by simp
qed

lemma pmm_free_pages_post:
  assumes "pmm_inv s" "a \<noteq> 0" "unat a div PAGE_SIZE + n \<le> 2 ^ 64"
    "{unat a div PAGE_SIZE..<unat a div PAGE_SIZE + n} \<inter> bitmap_pages s = {}"
  shows "release_post s (pmm_free_pages a n s) {unat a div PAGE_SIZE..<unat a div PAGE_SIZE + n}"
proof (cases "n = 0")
  case True
  with assms(1) show ?thesis by (simp add: pmm_free_pages_def release_post_refl)
next
  case False
  with release_run_post [OF assms(1,3,4)] assms(2) show ?thesis
    by (simp only: pmm_free_pages_def if_False simp_thms)
qed

section \<open>Initialisation establishes the invariant\<close>

definition entry_pages :: "limine_memmap_entry \<Rightarrow> nat set" where
  "entry_pages e =
     {unat (me_base e) div PAGE_SIZE..<unat (me_base e) div PAGE_SIZE + unat (me_length e) div PAGE_SIZE}"

definition usable :: "limine_memmap_entry \<Rightarrow> bool" where
  "usable e \<longleftrightarrow> me_type e = LIMINE_MEMMAP_USABLE"

definition usable_pages :: "limine_memmap_entry list \<Rightarrow> nat set" where
  "usable_pages es = (\<Union>e \<in> {e \<in> set es. usable e}. entry_pages e)"

lemma usable_pages_simps [simp]:
  "usable_pages [] = {}"
  "usable_pages (e # es) = (if usable e then entry_pages e \<union> usable_pages es else usable_pages es)"
  by (auto simp: usable_pages_def)

definition kernel_entry_pages :: "limine_memmap_entry \<Rightarrow> nat set" where
  "kernel_entry_pages e =
     (if me_type e = LIMINE_MEMMAP_EXECUTABLE_AND_MODULES
         \<or> me_type e = LIMINE_MEMMAP_BOOTLOADER_RECLAIMABLE
      then {unat (me_base e) div PAGE_SIZE..<unat (me_base e) div PAGE_SIZE
              + unat (me_length e + of_nat PAGE_SIZE - 1) div PAGE_SIZE}
      else {})"

definition kernel_pages :: "limine_memmap_entry list \<Rightarrow> nat set" where
  "kernel_pages es = (\<Union>e \<in> set es. kernel_entry_pages e)"

text \<open>
  What the Limine protocol promises of the memory map: no entry runs past the
  64-bit address space, usable entries are whole pages and do not overlap.
\<close>

definition memmap_ok :: "limine_memmap_entry list \<Rightarrow> bool" where
  "memmap_ok es \<longleftrightarrow>
     (\<forall>e \<in> set es. unat (me_base e) + unat (me_length e) < 2 ^ 64)
     \<and> (\<forall>e \<in> set es. usable e \<longrightarrow> unat (me_base e) mod PAGE_SIZE = 0 \<and> unat (me_length e) mod PAGE_SIZE = 0)
     \<and> sorted_wrt (\<lambda>e f. usable e \<and> usable f \<longrightarrow> entry_pages e \<inter> entry_pages f = {}) es"

definition counted :: "'a pmm_scheme \<Rightarrow> bool" where
  "counted s \<longleftrightarrow> used_pages s = of_nat (card (used_set s))"

lemma free_steps:
  assumes "counted s" "{bp..<bp + n} \<subseteq> used_set s"
  shows "counted (fold (free_page_step bp) [0..<n] s)
     \<and> same_rest s (fold (free_page_step bp) [0..<n] s)
     \<and> used_set (fold (free_page_step bp) [0..<n] s) = used_set s - {bp..<bp + n}"
  using assms(2)
proof (induction n)
  case 0
  with assms(1) show ?case by simp
next
  case (Suc n)
  define u where "u = fold (free_page_step bp) [0..<n] s"
  define t where "t = (bitmap_clear (bp + n) u)\<lparr>used_pages := used_pages u - 1\<rparr>"
  have IH: "counted u" "same_rest s u" "used_set u = used_set s - {bp..<bp + n}"
    using Suc.IH Suc.prems unfolding u_def by (auto simp: subset_iff)
  have in_u: "bp + n \<in> used_set u" using Suc.prems IH(3) by auto
  then have step: "fold (free_page_step bp) [0..<Suc n] s = t"
    by (simp add: u_def [symmetric] free_page_step_def t_def used_set_def Let_def)
  have used: "used_set t = used_set u - {bp + n}"
    by (auto simp: t_def used_set_def)
  have "card (used_set u) = Suc (card (used_set t))"
    unfolding used using card_Suc_Diff1 [OF finite_used_set in_u] by simp
  with IH(1) have "counted t" unfolding counted_def used by (simp add: t_def)
  moreover have "same_rest s t"
    unfolding t_def
    by (rule same_rest_trans [OF IH(2) same_rest_trans [OF same_rest_update(6) same_rest_update(2)]])
  moreover have "used_set t = used_set s - {bp..<bp + Suc n}"
    unfolding used IH(3) by auto
  ultimately show ?case unfolding step by simp
qed

lemma use_steps:
  assumes "counted s"
  shows "counted (fold (use_page_step bp) [0..<n] s)
     \<and> same_rest s (fold (use_page_step bp) [0..<n] s)
     \<and> used_set (fold (use_page_step bp) [0..<n] s) = used_set s \<union> ({bp..<bp + n} \<inter> {..<total_pages s})"
proof (induction n)
  case 0
  with assms(1) show ?case by simp
next
  case (Suc n)
  define u where "u = fold (use_page_step bp) [0..<n] s"
  have IH: "counted u" "same_rest s u" "used_set u = used_set s \<union> ({bp..<bp + n} \<inter> {..<total_pages s})"
    using Suc unfolding u_def by auto
  have tot: "total_pages u = total_pages s" using IH(2) by (rule same_restD)
  have fold: "fold (use_page_step bp) [0..<Suc n] s = use_page_step bp n u"
    by (simp add: u_def)
  have range: "{bp..<bp + Suc n} = insert (bp + n) {bp..<bp + n}" by auto
  show ?case
  proof (cases "bp + n < total_pages u \<and> \<not> bitmap_test u (bp + n)")
    case False
    then have "use_page_step bp n u = u" by (auto simp: use_page_step_def Let_def)
    moreover have "bp + n < total_pages s \<longrightarrow> bp + n \<in> used_set u"
      using False tot by (auto simp: used_set_def)
    ultimately show ?thesis using IH unfolding fold range by auto
  next
    case True
    define t where "t = (bitmap_set (bp + n) u)\<lparr>used_pages := used_pages u + 1\<rparr>"
    have step: "use_page_step bp n u = t"
      using True by (simp add: use_page_step_def t_def Let_def)
    have used: "used_set t = insert (bp + n) (used_set u)"
      using True by (auto simp: t_def used_set_def)
    moreover have "bp + n \<notin> used_set u" using True by (simp add: used_set_def)
    ultimately have "card (used_set t) = Suc (card (used_set u))" by simp
    with IH(1) have "counted t" unfolding counted_def used by (simp add: t_def)
    moreover have "same_rest s t"
      unfolding t_def
      by (rule same_rest_trans [OF IH(2) same_rest_trans [OF same_rest_update(5) same_rest_update(2)]])
    moreover have "used_set t = used_set s \<union> ({bp..<bp + Suc n} \<inter> {..<total_pages s})"
      using True tot unfolding used IH(3) range by auto
    ultimately show ?thesis unfolding fold step by simp
  qed
qed

lemma mark_usable_list:
  assumes "counted s" "usable_pages es \<subseteq> used_set s"
    "sorted_wrt (\<lambda>e f. usable e \<and> usable f \<longrightarrow> entry_pages e \<inter> entry_pages f = {}) es"
  shows "counted (fold mark_usable es s) \<and> same_rest s (fold mark_usable es s)
     \<and> used_set (fold mark_usable es s) = used_set s - usable_pages es"
  using assms
proof (induction es arbitrary: s)
  case Nil
  then show ?case by (simp add: usable_pages_def)
next
  case (Cons e es)
  show ?case
  proof (cases "usable e")
    case False
    then have "usable_pages (e # es) = usable_pages es" "mark_usable e s = s"
      by (auto simp: usable_pages_def mark_usable_def usable_def)
    with Cons show ?thesis by simp
  next
    case True
    define u where "u = mark_usable e s"
    have up: "usable_pages (e # es) = entry_pages e \<union> usable_pages es"
      using True by (auto simp: usable_pages_def)
    have "u = fold (free_page_step (unat (me_base e) div PAGE_SIZE)) [0..<unat (me_length e) div PAGE_SIZE] s"
      using True by (simp add: u_def mark_usable_def usable_def)
    with free_steps [OF Cons.prems(1)] Cons.prems(2)
    have u: "counted u" "same_rest s u" "used_set u = used_set s - entry_pages e"
      unfolding up by (auto simp: entry_pages_def)
    have "entry_pages e \<inter> usable_pages es = {}"
      using Cons.prems(3) True by (auto simp: usable_pages_def)
    then have "usable_pages es \<subseteq> used_set u"
      using Cons.prems(2) unfolding u(3) up by auto
    with Cons.IH [of u] u Cons.prems(3)
    have "counted (fold mark_usable es u)" "same_rest u (fold mark_usable es u)"
      "used_set (fold mark_usable es u) = used_set u - usable_pages es"
      by auto
    with u show ?thesis
      unfolding up by (auto simp: u_def [symmetric] intro: same_rest_trans)
  qed
qed

lemma mark_kernel_list:
  assumes "counted s"
  shows "counted (fold mark_kernel es s) \<and> same_rest s (fold mark_kernel es s)
     \<and> used_set (fold mark_kernel es s) = used_set s \<union> (kernel_pages es \<inter> {..<total_pages s})"
  using assms
proof (induction es arbitrary: s)
  case Nil
  then show ?case by (simp add: kernel_pages_def)
next
  case (Cons e es)
  define u where "u = mark_kernel e s"
  have u: "counted u \<and> same_rest s u
      \<and> used_set u = used_set s \<union> (kernel_entry_pages e \<inter> {..<total_pages s})"
    using use_steps [OF Cons.prems] Cons.prems
    by (simp add: u_def mark_kernel_def kernel_entry_pages_def)
  then have "total_pages u = total_pages s" by (blast dest: same_restD)
  moreover have "kernel_pages (e # es) = kernel_entry_pages e \<union> kernel_pages es"
    by (simp add: kernel_pages_def)
  ultimately show ?case
    using Cons.IH [of u] u by (auto simp: u_def [symmetric] intro: same_rest_trans)
qed


lemma find_highest_ge: "h \<le> find_highest es h"
proof (induction es arbitrary: h)
  case (Cons e es)
  have "h \<le> (if me_base e + me_length e > h then me_base e + me_length e else h)" by auto
  then show ?case using Cons [of "if me_base e + me_length e > h then me_base e + me_length e else h"]
    by (auto simp: Let_def)
qed simp

lemma find_highest_entry: "e \<in> set es \<Longrightarrow> me_base e + me_length e \<le> find_highest es h"
proof (induction es arbitrary: h)
  case (Cons f es)
  show ?case
  proof (cases "e = f")
    case True
    have "me_base e + me_length e \<le> (if me_base f + me_length f > h then me_base f + me_length f else h)"
      using True by auto
    with find_highest_ge [of "if me_base f + me_length f > h then me_base f + me_length f else h" es]
    show ?thesis by (auto simp: Let_def)
  next
    case False
    with Cons show ?thesis by (simp add: Let_def)
  qed
qed simp

lemma entry_pages_below:
  assumes "memmap_ok es" "e \<in> set es"
  shows "unat (me_base e) + unat (me_length e) \<le> unat (find_highest es h)"
    "entry_pages e \<subseteq> {..<unat (find_highest es h) div PAGE_SIZE}"
proof -
  have "unat (me_base e + me_length e) = unat (me_base e) + unat (me_length e)"
    using assms by (auto simp: memmap_ok_def unat_word_ariths)
  with find_highest_entry [OF assms(2), of h]
  show le: "unat (me_base e) + unat (me_length e) \<le> unat (find_highest es h)"
    by (simp add: word_le_nat_alt)
  have "unat (me_base e) div PAGE_SIZE + unat (me_length e) div PAGE_SIZE
      \<le> unat (find_highest es h) div PAGE_SIZE"
    using le by linarith
  then show "entry_pages e \<subseteq> {..<unat (find_highest es h) div PAGE_SIZE}"
    by (auto simp: entry_pages_def)
qed

text \<open>
  The state right after the \<open>memset\<close> of the bitmap: every page counts as used.
\<close>

lemma bitmap_filled:
  assumes "tp \<le> 8 * sz"
  shows "used_set (s\<lparr>total_pages := tp, bitmap_size := sz, bitmap := Some b,
                     mem := memset m b 255 sz, used_pages := n\<rparr>) = {..<tp}"
proof -
  have "bit (255 :: u8) k" if "k < 8" for k
  proof -
    have e: "(255 :: u8) = mask 8" by (simp add: mask_eq_exp_minus_1)
    show ?thesis unfolding e using that by (simp add: bit_mask_iff)
  qed
  moreover have "p div 8 < sz" if "p < tp" for p
    using that assms by linarith
  ultimately show ?thesis
    by (auto simp: used_set_def bitmap_test_bit bitmap_index_def memset_eq)
qed


text \<open>The size of the bitmap that \<open>pmm_init\<close> computes from the memory map.\<close>

definition boot_bitmap_size :: "limine_memmap_entry list \<Rightarrow> u64 \<Rightarrow> nat" where
  "boot_bitmap_size es h = (unat (find_highest es h) div PAGE_SIZE + 7) div 8"

lemma place_bitmap_entry:
  "place_bitmap es sz = Some e \<Longrightarrow> e \<in> set es \<and> usable e \<and> sz \<le> unat (me_length e)"
  by (auto simp: place_bitmap_def usable_def find_Some_iff)

lemma page_image:
  assumes "b mod PAGE_SIZE = 0"
  shows "(\<lambda>a. a div PAGE_SIZE) ` {b..<b + sz}
    = {b div PAGE_SIZE..<b div PAGE_SIZE + (sz + PAGE_SIZE - 1) div PAGE_SIZE}" (is "?L = ?R")
proof
  obtain k where b: "b = PAGE_SIZE * k" using assms by auto
  show "?L \<subseteq> ?R"
  proof
    fix p assume "p \<in> ?L"
    then obtain a where "p = a div PAGE_SIZE" "b \<le> a" "a < b + sz" by auto
    then show "p \<in> ?R" unfolding b by simp linarith
  qed
  show "?R \<subseteq> ?L"
  proof
    fix j assume k': "j \<in> ?R"
    define a where "a = j * PAGE_SIZE"
    have "b \<le> a" "a < b + sz" using k' by (auto simp: a_def b)
    moreover have "j = a div PAGE_SIZE" by (simp add: a_def)
    ultimately show "j \<in> ?L" by auto
  qed
qed

lemma pmm_init_correct:
  assumes ok: "memmap_ok es" and e: "place_bitmap es (boot_bitmap_size es (highest_addr s)) = Some e"
  defines "t \<equiv> pmm_init (Some es) s"
  shows "pmm_inv t" "bitmap t = Some (unat (me_base e))"
    "bitmap_size t = boot_bitmap_size es (highest_addr s)"
    "total_pages t = unat (find_highest es (highest_addr s)) div PAGE_SIZE"
    "free_pages t = usable_pages es - bitmap_pages t - kernel_pages es"
proof -
  define h where "h = find_highest es (highest_addr s)"
  define tp where "tp = unat h div PAGE_SIZE"
  define sz where "sz = (tp + 7) div 8"
  define b where "b = unat (me_base e)"
  define s1 where "s1 = s\<lparr>highest_addr := h, total_pages := tp, bitmap_size := sz, bitmap := Some b,
      mem := memset (mem s) b 255 sz, used_pages := of_nat tp\<rparr>"
  define s2 where "s2 = fold mark_usable es s1"
  define s3 where "s3 = fold (use_page_step (b div PAGE_SIZE)) [0..<(sz + PAGE_SIZE - 1) div PAGE_SIZE] s2"
  have sz: "boot_bitmap_size es (highest_addr s) = sz"
    by (simp add: boot_bitmap_size_def sz_def tp_def h_def)
  have t: "t = fold mark_kernel es s3"
    unfolding t_def pmm_init_def s3_def s2_def s1_def
    using e sz by (simp add: Let_def h_def tp_def sz_def b_def)
  have e': "e \<in> set es" "usable e" "sz \<le> unat (me_length e)"
    using place_bitmap_entry [OF e] by (auto simp: sz)
  have s1: "used_set s1 = {..<tp}"
    unfolding s1_def by (rule bitmap_filled) (simp add: sz_def)
  then have "counted s1" by (simp add: counted_def s1_def)
  moreover have "usable_pages es \<subseteq> used_set s1"
    using entry_pages_below(2) [OF ok, of _ "highest_addr s"]
    unfolding s1 by (auto simp: usable_pages_def tp_def h_def)
  ultimately have s2: "counted s2" "same_rest s1 s2" "used_set s2 = {..<tp} - usable_pages es"
    using mark_usable_list [of s1 es] ok unfolding s2_def s1 memmap_ok_def by auto
  let ?B = "{b div PAGE_SIZE..<b div PAGE_SIZE + (sz + PAGE_SIZE - 1) div PAGE_SIZE}"
  have tot: "total_pages s2 = tp"
    using same_restD(3) [OF s2(2)] by (simp add: s1_def)
  have s3: "counted s3" "same_rest s2 s3" "used_set s3 = used_set s2 \<union> (?B \<inter> {..<tp})"
    using use_steps [OF s2(1), of "b div PAGE_SIZE"] unfolding s3_def tot by auto
  have rest: "same_rest s1 t" and cnt: "counted t"
    and used: "used_set t = used_set s3 \<union> (kernel_pages es \<inter> {..<tp})"
    using mark_kernel_list [OF s3(1), of es] s2(2) s3(2) same_restD(3) [OF s3(2)] tot
    unfolding t by (auto intro: same_rest_trans)
  have fields: "total_pages t = tp" "bitmap_size t = sz" "bitmap t = Some b"
    "bitmap_bytes t = {b..<b + sz}"
    using same_restD [OF rest] by (simp_all add: s1_def bitmap_bytes_def)
  have aligned: "b mod PAGE_SIZE = 0" "unat (me_length e) mod PAGE_SIZE = 0"
    using ok e' by (auto simp: memmap_ok_def b_def)
  have B: "bitmap_pages t = ?B"
    unfolding bitmap_pages_def fields by (rule page_image) (rule aligned(1))
  have "b + unat (me_length e) \<le> unat h"
    using entry_pages_below(1) [OF ok e'(1), of "highest_addr s"] by (simp add: b_def h_def)
  moreover obtain k m where km: "b = PAGE_SIZE * k" "unat (me_length e) = PAGE_SIZE * m"
    using aligned by (auto elim!: dvdE)
  ultimately have "k + m \<le> tp"
    by (simp add: tp_def less_eq_div_iff_mult_less_eq)
  moreover have "(sz + PAGE_SIZE - 1) div PAGE_SIZE \<le> m"
    using e'(3) km by simp
  ultimately have "b div PAGE_SIZE + (sz + PAGE_SIZE - 1) div PAGE_SIZE \<le> tp"
    using km by simp
  then have "?B \<subseteq> {..<tp}" by auto
  with used s3(3) s2(3) have used': "used_set t = ({..<tp} - usable_pages es) \<union> ?B \<union> (kernel_pages es \<inter> {..<tp})"
    by auto
  have "tp \<le> 2 ^ 52"
    using unat_lt64 [of h] unfolding tp_def by simp
  moreover have "\<forall>a \<in> bitmap_bytes t. a div PAGE_SIZE \<in> used_set t"
    using B used' unfolding bitmap_pages_def by blast
  ultimately show "pmm_inv t"
    using cnt fields by (simp add: pmm_inv_def counted_def sz_def)
  show "bitmap t = Some (unat (me_base e))" "bitmap_size t = boot_bitmap_size es (highest_addr s)"
    "total_pages t = unat (find_highest es (highest_addr s)) div PAGE_SIZE"
    by (simp_all add: fields b_def sz tp_def h_def)
  have "free_pages t = {..<tp} - used_set t"
    by (auto simp: free_pages_def used_set_def fields)
  moreover have "usable_pages es \<subseteq> {..<tp}"
    using \<open>usable_pages es \<subseteq> used_set s1\<close> s1 by simp
  ultimately show "free_pages t = usable_pages es - bitmap_pages t - kernel_pages es"
    unfolding used' B by auto
qed

section \<open>The allocator interface\<close>

text \<open>
  What the page-table code, the heap and the DMA pool rely on: a source of frames
  with a set of free frame numbers. \<open>alloc\<close> returns the address of a free frame and
  removes it from the set, or the null address when the set is empty; \<open>dealloc\<close> of
  an address puts the frame back. \<open>owned\<close> are the frames a client may give back.
\<close>

locale frame_allocator =
  fixes alloc :: "'s \<Rightarrow> u64 \<times> 's"
    and dealloc :: "u64 \<Rightarrow> 's \<Rightarrow> 's"
    and frames :: "'s \<Rightarrow> nat set"
    and owned :: "'s \<Rightarrow> nat set"
    and inv :: "'s \<Rightarrow> bool"
  assumes alloc_empty: "inv s \<Longrightarrow> frames s = {} \<Longrightarrow> alloc s = (0, s)"
    and alloc_frame: "inv s \<Longrightarrow> frames s \<noteq> {} \<Longrightarrow>
      \<exists>p t. alloc s = (page_addr p, t) \<and> inv t \<and> p \<in> frames s \<and> frames t = frames s - {p}
        \<and> owned t = insert p (owned s)"
    and dealloc_frame: "inv s \<Longrightarrow> p \<in> owned s \<Longrightarrow> p \<noteq> 0 \<Longrightarrow>
      inv (dealloc (page_addr p) s) \<and> frames (dealloc (page_addr p) s) = insert p (frames s)
        \<and> owned (dealloc (page_addr p) s) = owned s - {p}"
    and frames_finite: "finite (frames s)"
    and frames_owned: "frames s \<inter> owned s = {}"
begin

fun alloc_many :: "nat \<Rightarrow> 's \<Rightarrow> u64 list \<times> 's" where
  "alloc_many 0 s = ([], s)"
| "alloc_many (Suc n) s =
     (case alloc s of (a, t) \<Rightarrow> case alloc_many n t of (as, u) \<Rightarrow> (a # as, u))"

lemma alloc_many_frames:
  assumes "inv s" "n \<le> card (frames s)"
  shows "\<exists>ps t. alloc_many n s = (map page_addr ps, t) \<and> inv t \<and> distinct ps \<and> length ps = n
    \<and> set ps \<subseteq> frames s \<and> frames t = frames s - set ps"
  using assms
proof (induction n arbitrary: s)
  case 0
  then show ?case by (intro exI [of _ "[]"]) simp
next
  case (Suc n)
  then have "frames s \<noteq> {}" by auto
  then obtain p t where t: "alloc s = (page_addr p, t)" "inv t" "p \<in> frames s" "frames t = frames s - {p}"
    using alloc_frame Suc.prems(1) by blast
  then have "n \<le> card (frames t)"
    using Suc.prems(2) frames_finite [of s] by simp
  then obtain ps u where u: "alloc_many n t = (map page_addr ps, u)" "inv u" "distinct ps" "length ps = n"
      "set ps \<subseteq> frames t" "frames u = frames t - set ps"
    using Suc.IH t(2) by blast
  have "alloc_many (Suc n) s = (map page_addr (p # ps), u) \<and> inv u \<and> distinct (p # ps)
      \<and> length (p # ps) = Suc n \<and> set (p # ps) \<subseteq> frames s \<and> frames u = frames s - set (p # ps)"
    using t u by auto
  then show ?case by blast
qed

lemma alloc_dealloc:
  assumes "inv s" "frames s \<noteq> {}" "0 \<notin> frames s"
  shows "\<exists>a t. alloc s = (a, t) \<and> inv (dealloc a t) \<and> frames (dealloc a t) = frames s"
proof -
  obtain p t where t: "alloc s = (page_addr p, t)" "inv t" "p \<in> frames s" "frames t = frames s - {p}"
      "owned t = insert p (owned s)"
    using alloc_frame assms(1,2) by blast
  moreover have "p \<noteq> 0" using t(3) assms(3) by metis
  ultimately have "inv (dealloc (page_addr p) t)" "frames (dealloc (page_addr p) t) = insert p (frames t)"
    using dealloc_frame [of t p] by auto
  with t show ?thesis by (auto simp: insert_absorb)
qed

end

definition client_frames :: "'a pmm_scheme \<Rightarrow> nat set" where
  "client_frames s = used_set s - bitmap_pages s"

lemma client_frames_rest:
  assumes "same_rest s t" "free_pages t = free_pages s - A" "A \<subseteq> free_pages s" "pmm_inv s"
  shows "client_frames t = client_frames s \<union> A"
proof -
  have "total_pages t = total_pages s" "bitmap_pages t = bitmap_pages s"
    using assms(1) by (auto simp: same_restD same_rest_bitmap_pages)
  moreover have "used_set x = {..<total_pages x} - free_pages x" for x :: "'a pmm_scheme"
    by (auto simp: used_set_def free_pages_def)
  moreover have "A \<inter> bitmap_pages s = {}"
    using bitmap_pages_used [OF assms(4)] assms(3) by (auto simp: used_set_def free_pages_def)
  ultimately show ?thesis
    using assms(2,3) by (auto simp: client_frames_def free_pages_def)
qed

interpretation pmm: frame_allocator pmm_alloc pmm_free free_pages client_frames pmm_inv
proof
  fix s :: "'a pmm_scheme"
  assume "pmm_inv s" "free_pages s = {}"
  then show "pmm_alloc s = (0, s)" by (simp add: pmm_alloc_none)
next
  fix s :: "'a pmm_scheme"
  assume s: "pmm_inv s" "free_pages s \<noteq> {}"
  obtain t where t: "pmm_alloc s = (page_addr (Min (free_pages s)), t)"
      "alloc_post s t (Min (free_pages s)) 1"
    using pmm_alloc_post [OF s] by blast
  moreover have "{Min (free_pages s)..<Min (free_pages s) + 1} = {Min (free_pages s)}" by auto
  ultimately have "pmm_inv t" "free_pages t = free_pages s - {Min (free_pages s)}" "same_rest s t"
    by (simp_all add: alloc_post_def)
  moreover from this have "client_frames t = insert (Min (free_pages s)) (client_frames s)"
    using client_frames_rest [of s t "{Min (free_pages s)}"] s by simp
  ultimately show "\<exists>p t. pmm_alloc s = (page_addr p, t) \<and> pmm_inv t \<and> p \<in> free_pages s
      \<and> free_pages t = free_pages s - {p} \<and> client_frames t = insert p (client_frames s)"
    using t(1) s(2) by (metis Min_in finite_free_pages)
next
  fix s :: "'a pmm_scheme" and p
  assume s: "pmm_inv s" and p: "p \<in> client_frames s" "p \<noteq> 0"
  have "p < 2 ^ 52" using s p by (auto simp: client_frames_def used_set_def pmm_inv_def)
  then have a: "unat (page_addr p) div PAGE_SIZE = p" "page_addr p \<noteq> 0"
    using page_addr_unat [of p] p(2) by auto
  have "release_post s (pmm_free (page_addr p) s) {p}"
    using pmm_free_post [OF s a(2)] p by (simp add: a client_frames_def)
  then have r: "pmm_inv (pmm_free (page_addr p) s)" "same_rest s (pmm_free (page_addr p) s)"
    "free_pages (pmm_free (page_addr p) s) = insert p (free_pages s)"
    using p by (auto simp: release_post_def client_frames_def used_set_def)
  moreover have "client_frames (pmm_free (page_addr p) s) = client_frames s - {p}"
    using r(3) same_restD(3) [OF r(2)] same_rest_bitmap_pages [OF r(2)] p
    by (auto simp: client_frames_def used_set_def free_pages_def set_eq_iff)
  ultimately show "pmm_inv (pmm_free (page_addr p) s)
      \<and> free_pages (pmm_free (page_addr p) s) = insert p (free_pages s)
      \<and> client_frames (pmm_free (page_addr p) s) = client_frames s - {p}"
    by blast
next
  fix s :: "'a pmm_scheme"
  show "finite (free_pages s)" by simp
  show "free_pages s \<inter> client_frames s = {}"
    by (auto simp: free_pages_def client_frames_def used_set_def)
qed

section \<open>Properties\<close>

text \<open>A machine with four usable pages at \<open>0x1000\<close>; the bitmap goes to the first of them.\<close>

definition demo_memmap :: "limine_memmap_entry list" where
  "demo_memmap =
     [\<lparr>me_base = 0, me_length = 0x1000, me_type = 1\<rparr>,
      \<lparr>me_base = 0x1000, me_length = 0x4000, me_type = LIMINE_MEMMAP_USABLE\<rparr>]"

definition demo_reset :: pmm where
  "demo_reset = \<lparr>mem = (\<lambda>_. 0), hhdm_offset = 0xFFFF800000000000, bitmap = None, bitmap_size = 0,
     total_pages = 0, used_pages = 0, highest_addr = 0\<rparr>"

definition demo_pmm :: pmm where
  "demo_pmm = pmm_init (Some demo_memmap) demo_reset"

lemma demo_memmap_ok: "memmap_ok demo_memmap"
  by (simp add: memmap_ok_def demo_memmap_def usable_def)

lemma demo_place:
  "place_bitmap demo_memmap (boot_bitmap_size demo_memmap (highest_addr demo_reset))
     = Some \<lparr>me_base = 0x1000, me_length = 0x4000, me_type = LIMINE_MEMMAP_USABLE\<rparr>"
  by (simp add: place_bitmap_def boot_bitmap_size_def demo_memmap_def demo_reset_def Let_def)

lemma demo_pmm_boot:
  "pmm_inv demo_pmm" "bitmap demo_pmm = Some 0x1000" "bitmap_size demo_pmm = 1" "total_pages demo_pmm = 5"
  "free_pages demo_pmm = usable_pages demo_memmap - bitmap_pages demo_pmm - kernel_pages demo_memmap"
  using pmm_init_correct [OF demo_memmap_ok demo_place]
  by (simp_all add: demo_pmm_def boot_bitmap_size_def demo_memmap_def demo_reset_def Let_def)

lemma demo_pmm_bitmap_pages: "bitmap_pages demo_pmm = {1}"
proof -
  have "{4096..<4097 :: nat} = {4096}" by auto
  then show ?thesis by (simp add: bitmap_pages_def bitmap_bytes_def demo_pmm_boot(2,3))
qed

lemma demo_pmm_free: "free_pages demo_pmm = {2..<5}"
proof -
  have "usable_pages demo_memmap = {1..<5}"
    by (simp add: demo_memmap_def usable_def entry_pages_def)
  moreover have "kernel_pages demo_memmap = {}"
    by (simp add: kernel_pages_def kernel_entry_pages_def demo_memmap_def)
  ultimately show ?thesis
    unfolding demo_pmm_boot(5) demo_pmm_bitmap_pages by auto
qed

text \<open>
  C1: After \<open>pmm_init\<close> on a memory map that keeps the Limine guarantees and has a usable
  entry that can hold the bitmap, the allocator's invariant holds (the bitmap covers
  every page, its own pages are marked used, \<open>used_pages\<close> is the number of used pages)
  and the free pages are exactly the pages of the usable entries, without those of the
  bitmap, the kernel, the modules and the reclaimable boot loader memory.
\<close>

theorem pmm_init_establishes:
  assumes "memmap_ok es"
    and "place_bitmap es (boot_bitmap_size es (highest_addr s)) = Some e"
  shows "pmm_inv (pmm_init (Some es) s)
    \<and> bitmap (pmm_init (Some es) s) = Some (unat (me_base e))
    \<and> free_pages (pmm_init (Some es) s)
        = usable_pages es - bitmap_pages (pmm_init (Some es) s) - kernel_pages es"
  using pmm_init_correct [OF assms] by blast

theorem pmm_init_establishes_witness:
  "pmm_inv (pmm_init (Some demo_memmap) demo_reset)
   \<and> bitmap (pmm_init (Some demo_memmap) demo_reset) = Some 0x1000"
  using pmm_init_establishes [OF demo_memmap_ok demo_place] by simp

text \<open>
  C2: \<open>pmm_alloc\<close> returns the null address exactly when there is no free page and then
  changes nothing; otherwise it returns the lowest free page, marks it used, clears its
  4096 bytes, leaves every byte outside that page and outside the bitmap unchanged and
  keeps the invariant. The bitmap, which lies in the same memory, survives the clearing.
\<close>

theorem pmm_alloc_correct:
  assumes "pmm_inv s"
  shows "if free_pages s = {} then pmm_alloc s = (0, s)
    else \<exists>t. pmm_alloc s = (page_addr (Min (free_pages s)), t) \<and> alloc_post s t (Min (free_pages s)) 1"
  using pmm_alloc_none [of s] pmm_alloc_post [OF assms] by auto

theorem pmm_alloc_correct_witness:
  "\<exists>t. pmm_alloc demo_pmm = (page_addr 2, t) \<and> alloc_post demo_pmm t 2 1"
proof -
  have "Min (free_pages demo_pmm) = 2"
    unfolding demo_pmm_free by (rule Min_eqI) auto
  with pmm_alloc_correct [OF demo_pmm_boot(1)] show ?thesis
    by (simp add: demo_pmm_free)
qed

text \<open>
  \<open>pmm_alloc_pages\<close> finds the lowest run of \<open>n\<close> adjacent free pages when there is one,
  takes exactly these pages and clears them; it returns the null address and changes
  nothing when no such run exists.
\<close>

theorem pmm_alloc_pages_correct:
  assumes "pmm_inv s" and "0 < n"
  shows "if \<exists>a. free_run s n a
    then \<exists>a t. pmm_alloc_pages n s = (page_addr a, t) \<and> alloc_post s t a n
           \<and> (\<forall>b. free_run s n b \<longrightarrow> a \<le> b)
    else pmm_alloc_pages n s = (0, s)"
proof (cases "\<exists>a. free_run s n a")
  case True
  define a where "a = (LEAST a. free_run s n a)"
  have "free_run s n a" "\<forall>b < a. \<not> free_run s n b"
    using True unfolding a_def by (auto intro: LeastI dest: not_less_Least)
  with pmm_alloc_pages_some [OF assms] True show ?thesis
    by (simp only: if_True) (metis not_less)
next
  case False
  with pmm_alloc_pages_none [OF assms] show ?thesis by simp
qed

theorem pmm_alloc_pages_correct_witness:
  "\<exists>a t. pmm_alloc_pages 3 demo_pmm = (page_addr a, t) \<and> alloc_post demo_pmm t a 3"
proof -
  have "free_run demo_pmm 3 2" by (simp add: free_run_def demo_pmm_free)
  then have "\<exists>a. free_run demo_pmm 3 a" ..
  with pmm_alloc_pages_correct [OF demo_pmm_boot(1), of 3] show ?thesis
    by (simp only: if_True) auto
qed

text \<open>
  Successive calls of \<open>pmm_alloc\<close> hand out pairwise different pages, as long as there
  are free ones: no page is given to two owners.
\<close>

theorem pmm_alloc_distinct:
  assumes "pmm_inv s" and "n \<le> card (free_pages s)"
  shows "\<exists>ps t. pmm.alloc_many n s = (map page_addr ps, t) \<and> pmm_inv t \<and> distinct ps
    \<and> length ps = n \<and> set ps \<subseteq> free_pages s \<and> free_pages t = free_pages s - set ps"
  using assms by (rule pmm.alloc_many_frames)

theorem pmm_alloc_distinct_witness:
  "\<exists>ps t. pmm.alloc_many 2 demo_pmm = (map page_addr ps, t) \<and> distinct ps \<and> length ps = 2"
  using pmm_alloc_distinct [OF demo_pmm_boot(1), of 2] by (fastforce simp: demo_pmm_free)

text \<open>
  \<open>pmm_free_pages\<close> returns to the free set exactly the pages of its range that exist;
  pages that are already free and pages past the end of memory are skipped, so a double
  release is harmless, and no byte outside the bitmap changes.
\<close>

theorem pmm_free_pages_correct:
  assumes "pmm_inv s" and "a \<noteq> 0" and "unat a div PAGE_SIZE + n \<le> 2 ^ 64"
    and "{unat a div PAGE_SIZE..<unat a div PAGE_SIZE + n} \<inter> bitmap_pages s = {}"
  shows "pmm_inv (pmm_free_pages a n s)
    \<and> free_pages (pmm_free_pages a n s)
        = free_pages s \<union> ({unat a div PAGE_SIZE..<unat a div PAGE_SIZE + n} \<inter> {..<total_pages s})
    \<and> (\<forall>x. x \<notin> bitmap_bytes s \<longrightarrow> mem (pmm_free_pages a n s) x = mem s x)"
  using pmm_free_pages_post [OF assms] by (simp add: release_post_def)

theorem pmm_free_pages_correct_witness:
  "pmm_inv (pmm_free_pages 0x2000 5 demo_pmm) \<and> free_pages (pmm_free_pages 0x2000 5 demo_pmm) = {2..<5}"
  using pmm_free_pages_correct [OF demo_pmm_boot(1), of "0x2000" 5]
  by (auto simp: demo_pmm_free demo_pmm_bitmap_pages demo_pmm_boot)

text \<open>
  When page 0 is free, \<open>pmm_alloc\<close> takes it and returns its address, which is the null
  pointer: the page is lost to the caller, who sees the value that means "out of memory".
\<close>

theorem pmm_alloc_page_zero:
  assumes "pmm_inv s" and "0 \<in> free_pages s"
  shows "\<exists>t. pmm_alloc s = (0, t) \<and> 0 \<notin> free_pages t \<and> used_pages t = used_pages s + 1"
proof -
  have ne: "free_pages s \<noteq> {}" using assms(2) by blast
  have "Min (free_pages s) = 0" using assms(2) by (intro Min_eqI) auto
  with pmm_alloc_some [OF assms(1) ne] obtain t where t: "pmm_alloc s = (page_addr 0, t)"
      "free_pages t = free_pages s - {0}" "t = s\<lparr>mem := mem t, used_pages := used_pages s + 1\<rparr>"
    by metis
  have "used_pages t = used_pages s + 1" by (subst t(3)) simp
  with t(1,2) show ?thesis by (simp add: page_addr_def)
qed

definition low_memmap :: "limine_memmap_entry list" where
  "low_memmap =
     [\<lparr>me_base = 0x2000, me_length = 0x1000, me_type = LIMINE_MEMMAP_USABLE\<rparr>,
      \<lparr>me_base = 0, me_length = 0x1000, me_type = LIMINE_MEMMAP_USABLE\<rparr>]"

lemma low_boot:
  "pmm_inv (pmm_init (Some low_memmap) demo_reset)" "0 \<in> free_pages (pmm_init (Some low_memmap) demo_reset)"
proof -
  have ok: "memmap_ok low_memmap"
    by (simp add: memmap_ok_def low_memmap_def usable_def entry_pages_def)
  have place: "place_bitmap low_memmap (boot_bitmap_size low_memmap (highest_addr demo_reset))
     = Some \<lparr>me_base = 0x2000, me_length = 0x1000, me_type = LIMINE_MEMMAP_USABLE\<rparr>"
    by (simp add: place_bitmap_def boot_bitmap_size_def low_memmap_def demo_reset_def Let_def)
  note boot = pmm_init_correct [OF ok place]
  show "pmm_inv (pmm_init (Some low_memmap) demo_reset)" by (rule boot(1))
  have "0 \<in> usable_pages low_memmap"
    by (simp add: low_memmap_def usable_def entry_pages_def)
  moreover have "0 \<notin> bitmap_pages (pmm_init (Some low_memmap) demo_reset)"
    by (auto simp: bitmap_pages_def bitmap_bytes_def boot(2))
  moreover have "kernel_pages low_memmap = {}"
    by (simp add: kernel_pages_def kernel_entry_pages_def low_memmap_def)
  ultimately show "0 \<in> free_pages (pmm_init (Some low_memmap) demo_reset)"
    unfolding boot(5) by blast
qed

theorem pmm_alloc_page_zero_witness:
  "\<exists>t. pmm_alloc (pmm_init (Some low_memmap) demo_reset) = (0, t) \<and> 0 \<notin> free_pages t"
  using pmm_alloc_page_zero [OF low_boot] by blast

end
