(* ===== verification/PageTree.thy ===== *)
theory PageTree
  imports Prelude
begin

text \<open>
  Trees of page tables, apart from their encoding in memory. A view says for a table
  and an index which table or frame the entry points to; \<open>walk\<close> follows a path of
  indices. \<open>tree_ok\<close> is the shape invariant of a set of roots: every table reached
  on at most three indices lies in a given set, and no table is reached by two
  different paths, whether from one root or from two. Only paths whose first index
  lies in \<open>I\<close> count: the upper half of all address spaces of the kernel is shared,
  and the code builds and frees the lower half only.
\<close>

type_synonym view = "u64 \<Rightarrow> nat \<Rightarrow> u64 option"

fun walk :: "view \<Rightarrow> u64 \<Rightarrow> nat list \<Rightarrow> u64 option" where
  "walk v t [] = Some t"
| "walk v t (i # is) = (case v t i of None \<Rightarrow> None | Some u \<Rightarrow> walk v u is)"

lemma walk_append: "walk v t (is @ js) = Option.bind (walk v t is) (\<lambda>u. walk v u js)"
  by (induction "is" arbitrary: t) (auto split: option.split)

lemma walk_snoc: "walk v t (is @ [i]) = Option.bind (walk v t is) (\<lambda>u. v u i)"
  by (cases "walk v t is") (auto simp: walk_append split: option.split)

definition good_path :: "nat set \<Rightarrow> nat list \<Rightarrow> bool" where
  "good_path I is \<longleftrightarrow> (\<forall>i \<in> set is. i < 512) \<and> (is \<noteq> [] \<longrightarrow> hd is \<in> I)"

lemma good_path_Nil [simp]: "good_path I []"
  by (simp add: good_path_def)

lemma good_path_appendD: "good_path I (is @ js) \<Longrightarrow> good_path I is"
  by (cases "is") (auto simp: good_path_def)

lemma good_path_snoc: "good_path I (is @ [i]) \<longleftrightarrow> good_path I is \<and> i < 512 \<and> (is = [] \<longrightarrow> i \<in> I)"
  by (cases "is") (auto simp: good_path_def)

definition tables :: "view \<Rightarrow> nat set \<Rightarrow> u64 set \<Rightarrow> u64 set" where
  "tables v I R = {t. \<exists>r \<in> R. \<exists>is. good_path I is \<and> length is \<le> 3 \<and> walk v r is = Some t}"

definition one_path :: "view \<Rightarrow> nat set \<Rightarrow> u64 set \<Rightarrow> bool" where
  "one_path v I R \<longleftrightarrow>
     (\<forall>r \<in> R. \<forall>r' \<in> R. \<forall>is js t.
        good_path I is \<and> good_path I js \<and> length is \<le> 3 \<and> length js \<le> 3
        \<and> walk v r is = Some t \<and> walk v r' js = Some t \<longrightarrow> r = r' \<and> is = js)"

definition tree_ok :: "view \<Rightarrow> nat set \<Rightarrow> u64 set \<Rightarrow> u64 set \<Rightarrow> bool" where
  "tree_ok v I R U \<longleftrightarrow> tables v I R \<subseteq> U \<and> one_path v I R"

lemma tablesI: "r \<in> R \<Longrightarrow> good_path I is \<Longrightarrow> length is \<le> 3 \<Longrightarrow> walk v r is = Some t \<Longrightarrow> t \<in> tables v I R"
  by (auto simp: tables_def)

lemma one_pathD:
  assumes "one_path v I R" "r \<in> R" "r' \<in> R" "good_path I is" "good_path I js"
    "length is \<le> 3" "length js \<le> 3" "walk v r is = Some t" "walk v r' js = Some t"
  shows "r = r'" "is = js"
  using assms unfolding one_path_def by blast+

lemma tree_ok_mono: "tree_ok v I R U \<Longrightarrow> U \<subseteq> U' \<Longrightarrow> tree_ok v I R U'"
  by (auto simp: tree_ok_def)

text \<open>Walks depend on the entries of the tables they go through only.\<close>

definition agree :: "u64 set \<Rightarrow> view \<Rightarrow> view \<Rightarrow> bool" where
  "agree T v w \<longleftrightarrow> (\<forall>t \<in> T. \<forall>i < 512. v t i = w t i)"

lemma agree_trans: "agree T u v \<Longrightarrow> agree T v w \<Longrightarrow> agree T u w"
  by (simp add: agree_def)

lemma agree_sym: "agree T u v \<Longrightarrow> agree T v u"
  by (simp add: agree_def)

lemma agree_subset: "agree T u v \<Longrightarrow> T' \<subseteq> T \<Longrightarrow> agree T' u v"
  by (auto simp: agree_def)

lemma walk_agree:
  assumes "agree (tables v I R) v w" "r \<in> R" "good_path I is" "length is \<le> 4"
  shows "walk w r is = walk v r is"
  using assms(3,4)
proof (induction "is" rule: rev_induct)
  case (snoc i "is")
  then have "good_path I is" "i < 512" "walk w r is = walk v r is"
    by (auto simp: good_path_snoc)
  then show ?case
    using assms(1) snoc.prems tablesI [OF assms(2), of I "is" v]
    by (cases "walk v r is") (auto simp: walk_snoc agree_def)
qed simp

lemma tables_agree:
  assumes "agree (tables v I R) v w"
  shows "tables w I R = tables v I R"
proof -
  have "walk w r is = walk v r is" if "r \<in> R" "good_path I is" "length is \<le> 3" for r "is"
    using walk_agree [OF assms that(1,2)] that(3) by simp
  then show ?thesis unfolding tables_def by (intro Collect_cong bex_cong ex_cong1) auto
qed

lemma tree_ok_agree:
  assumes "tree_ok v I R U" "agree (tables v I R) v w"
  shows "tree_ok w I R U"
proof -
  have "walk w r is = walk v r is" if "r \<in> R" "good_path I is" "length is \<le> 3" for r "is"
    using walk_agree [OF assms(2) that(1,2)] that(3) by simp
  then have "one_path w I R"
    using assms(1) unfolding tree_ok_def one_path_def by metis
  then show ?thesis
    using assms tables_agree [OF assms(2)] by (simp add: tree_ok_def)
qed

text \<open>One entry changes: a walk changes only if it goes through that entry.\<close>

definition set_link :: "view \<Rightarrow> u64 \<Rightarrow> nat \<Rightarrow> u64 option \<Rightarrow> view" where
  "set_link v t i x = (\<lambda>u j. if u = t \<and> j = i then x else v u j)"

lemma set_link_same [simp]: "set_link v t i x t i = x"
  by (simp add: set_link_def)

lemma set_link_other [simp]: "u \<noteq> t \<or> j \<noteq> i \<Longrightarrow> set_link v t i x u j = v u j"
  by (auto simp: set_link_def)

lemma walk_set_link_other:
  assumes "\<And>ks ls. js = ks @ i # ls \<Longrightarrow> walk v r ks \<noteq> Some t"
  shows "walk (set_link v t i x) r js = walk v r js"
  using assms
proof (induction js rule: rev_induct)
  case (snoc j js)
  have "walk (set_link v t i x) r js = walk v r js"
    by (rule snoc.IH) (use snoc.prems in force)
  moreover have "j = i \<Longrightarrow> walk v r js \<noteq> Some t"
    using snoc.prems [of js "[]"] by simp
  ultimately show ?case
    by (cases "walk v r js"; cases "j = i") (auto simp: walk_snoc)
qed simp

text \<open>
  \<open>at_table v I R U r path t\<close>: in a well-shaped view the path leads from the root
  \<open>r\<close> to the table \<open>t\<close>.
\<close>

definition at_table :: "view \<Rightarrow> nat set \<Rightarrow> u64 set \<Rightarrow> u64 set \<Rightarrow> u64 \<Rightarrow> nat list \<Rightarrow> u64 \<Rightarrow> bool" where
  "at_table v I R U r path t \<longleftrightarrow>
     tree_ok v I R U \<and> r \<in> R \<and> good_path I path \<and> length path \<le> 3 \<and> walk v r path = Some t"

lemma through_unique:
  assumes "at_table v I R U r path t"
    "r' \<in> R" "good_path I (ks @ i # ls)" "length (ks @ i # ls) \<le> 4" "walk v r' ks = Some t"
  shows "r' = r \<and> ks = path"
  using assms good_path_appendD [OF assms(3)] one_pathD [of v I R r' r ks path t]
  by (auto simp: tree_ok_def at_table_def)

lemma walk_set_link:
  assumes "at_table v I R U r path t"
    "r' \<in> R" "good_path I js" "length js \<le> 4" "\<not> (r' = r \<and> (\<exists>ls. js = path @ i # ls))"
  shows "walk (set_link v t i x) r' js = walk v r' js"
proof (rule walk_set_link_other)
  fix ks ls assume js: "js = ks @ i # ls"
  then show "walk v r' ks \<noteq> Some t"
    using through_unique [OF assms(1,2), of ks i ls] assms(3-5) by blast
qed

lemma walk_set_link_new:
  assumes "at_table v I R U r path t"
  shows "walk (set_link v t i x) r (path @ i # ls) = Option.bind x (\<lambda>u. walk (set_link v t i x) u ls)"
proof -
  have "walk (set_link v t i x) r path = Some t"
    using assms walk_set_link [OF assms, of r path] by (simp add: at_table_def)
  then show ?thesis by (simp add: walk_append split: option.split)
qed

text \<open>A fresh empty table is linked in: the shape is kept and no frame changes.\<close>

lemma walk_fresh:
  assumes "at_table v I R U r path t" "p \<notin> U" "\<forall>j < 512. v p j = None" "length path \<le> 2" "v t i = None"
    and js: "r' \<in> R" "good_path I js" "length js \<le> 4"
  shows "walk (set_link v t i (Some p)) r' js
           = (if r' = r \<and> js = path @ [i] then Some p else walk v r' js)"
proof (cases "r' = r \<and> (\<exists>ls. js = path @ i # ls)")
  case True
  then obtain ls where ls: "js = path @ i # ls" "r' = r" by blast
  have "p \<noteq> t" using assms(1,2) tablesI [of r R I path v t] by (auto simp: at_table_def tree_ok_def)
  moreover have "walk v r (path @ i # ls) = None"
    using assms(1,5) by (simp add: at_table_def walk_append)
  ultimately show ?thesis
    using ls js assms(3) walk_set_link_new [OF assms(1), of i "Some p" ls]
    by (cases ls) (auto simp: good_path_def)
qed (use walk_set_link [OF assms(1) js, of i] in auto)

lemma tree_ok_fresh:
  assumes "at_table v I R U r path t" "p \<notin> U" "\<forall>j < 512. v p j = None" "length path \<le> 2"
    "v t i = None" "good_path I (path @ [i])"
  shows "tree_ok (set_link v t i (Some p)) I R (insert p U)"
    "tables (set_link v t i (Some p)) I R = insert p (tables v I R)"
proof -
  let ?v = "set_link v t i (Some p)"
  have w: "walk ?v r' js = (if r' = r \<and> js = path @ [i] then Some p else walk v r' js)"
    if "r' \<in> R" "good_path I js" "length js \<le> 3" for r' js
    using walk_fresh [OF assms(1-5) that(1,2)] that(3) by simp
  have none: "walk v r (path @ [i]) = None"
    using assms(1,5) by (simp add: at_table_def walk_append)
  have rR: "r \<in> R" and len: "length (path @ [i]) \<le> 3"
    using assms(1,4) by (auto simp: at_table_def)
  show tabs: "tables ?v I R = insert p (tables v I R)"
  proof (intro equalityI subsetI)
    fix x assume "x \<in> tables ?v I R"
    then show "x \<in> insert p (tables v I R)"
      unfolding tables_def using w by (auto split: if_splits)
  next
    fix x assume x: "x \<in> insert p (tables v I R)"
    show "x \<in> tables ?v I R"
    proof (cases "x = p")
      case True
      then show ?thesis using w [OF rR assms(6) len] rR assms(6) len by (auto intro: tablesI)
    next
      case False
      with x obtain r' js where "r' \<in> R" "good_path I js" "length js \<le> 3" "walk v r' js = Some x"
        by (auto simp: tables_def)
      then show ?thesis using w none by (intro tablesI [of r' R I js]) auto
    qed
  qed
  have ok: "one_path v I R" "tables v I R \<subseteq> U"
    using assms(1) by (auto simp: at_table_def tree_ok_def)
  have "p \<noteq> x" if "r' \<in> R" "good_path I js" "length js \<le> 3" "walk v r' js = Some x" for r' js x
    using ok(2) assms(2) tablesI [OF that] by auto
  then have "one_path ?v I R"
    unfolding one_path_def using w one_pathD [OF ok(1)] by (smt (verit) option.inject)
  with tabs ok(2) show "tree_ok ?v I R (insert p U)" by (auto simp: tree_ok_def)
qed

text \<open>An entry of a last-level table changes: the shape is kept.\<close>

lemma tree_ok_leaf:
  assumes "at_table v I R U r path t" "length path = 3"
  shows "tree_ok (set_link v t i x) I R U" "tables (set_link v t i x) I R = tables v I R"
proof -
  have w: "walk (set_link v t i x) r' js = walk v r' js"
    if "r' \<in> R" "good_path I js" "length js \<le> 3" for r' js
    by (rule walk_set_link [OF assms(1) that(1,2)]) (use that(3) assms(2) in auto)
  show tabs: "tables (set_link v t i x) I R = tables v I R"
    unfolding tables_def using w by (intro Collect_cong bex_cong ex_cong1) auto
  have "one_path (set_link v t i x) I R"
    using assms(1) w unfolding at_table_def tree_ok_def one_path_def by metis
  with tabs show "tree_ok (set_link v t i x) I R U"
    using assms(1) by (simp add: at_table_def tree_ok_def)
qed

lemma walk_leaf:
  assumes "at_table v I R U r path t" "length path = 3" "r' \<in> R" "good_path I js" "length js = 4"
  shows "walk (set_link v t i x) r' js = (if r' = r \<and> js = path @ [i] then x else walk v r' js)"
proof (cases "r' = r \<and> js = path @ [i]")
  case True
  then show ?thesis using walk_set_link_new [OF assms(1), of i x "[]"] by (cases x) auto
next
  case False
  then have "\<not> (r' = r \<and> (\<exists>ls. js = path @ i # ls))" using assms(2,5) by auto
  with False walk_set_link [OF assms(1,3,4)] assms(5) show ?thesis by auto
qed

end
