(* ===== verification/Vmm.thy ===== *)
theory Vmm
  imports Pmm PageTree
begin

text \<open>
  The virtual memory manager, \<^verbatim>\<open>src/kernel/mem/vmm.c\<close>. Page tables live in the
  physical memory of the page allocator: a table is reached through its address in
  the higher-half direct map, an entry is a 64-bit little-endian cell, and a missing
  table is allocated with \<open>pmm_alloc\<close>. Pointers are 64-bit words with 0 for the null
  pointer; \<open>space_ptr\<close> tells apart the three pointers to an address space the code
  compares: the null pointer, the address of the static \<open>kernel_space\<close>, and a
  structure in an allocated page. Translation look-aside buffer flushes have no
  effect on the modelled state.
\<close>

section \<open>State\<close>

record address_space_t =
  pml4 :: u64
  pml4_virt :: u64

record vmm = pmm +
  kernel_space :: address_space_t
  cr3 :: u64

datatype space_ptr = SNull | SKernel | SUser u64

abbreviation PAGE_PRESENT :: u64 where "PAGE_PRESENT \<equiv> 1"
abbreviation PAGE_WRITE :: u64 where "PAGE_WRITE \<equiv> 2"
abbreviation PAGE_USER :: u64 where "PAGE_USER \<equiv> 4"
abbreviation PAGE_NX :: u64 where "PAGE_NX \<equiv> 0x8000000000000000"

definition PAGE_MASK :: u64 where "PAGE_MASK = 0xFFFFFFFFFFFFF000"

definition PHYS_TO_VIRT :: "'a vmm_scheme \<Rightarrow> u64 \<Rightarrow> u64" where
  "PHYS_TO_VIRT s addr = addr + hhdm_offset s"

definition VIRT_TO_PHYS :: "'a vmm_scheme \<Rightarrow> u64 \<Rightarrow> u64" where
  "VIRT_TO_PHYS s addr = addr - hhdm_offset s"

definition PML4_INDEX :: "u64 \<Rightarrow> nat" where
  "PML4_INDEX addr = unat (drop_bit 39 addr AND 0x1FF)"

definition PDPT_INDEX :: "u64 \<Rightarrow> nat" where
  "PDPT_INDEX addr = unat (drop_bit 30 addr AND 0x1FF)"

definition PD_INDEX :: "u64 \<Rightarrow> nat" where
  "PD_INDEX addr = unat (drop_bit 21 addr AND 0x1FF)"

definition PT_INDEX :: "u64 \<Rightarrow> nat" where
  "PT_INDEX addr = unat (drop_bit 12 addr AND 0x1FF)"

definition PTE_GET_ADDR :: "u64 \<Rightarrow> u64" where
  "PTE_GET_ADDR entry = entry AND PAGE_MASK"

definition PTE_CREATE :: "u64 \<Rightarrow> u64 \<Rightarrow> u64" where
  "PTE_CREATE addr flags = (addr AND PAGE_MASK) OR flags"

text \<open>Loads and stores of 64-bit cells through the direct map.\<close>

definition cell_at :: "'a vmm_scheme \<Rightarrow> u64 \<Rightarrow> nat" where
  "cell_at s p = unat (VIRT_TO_PHYS s p)"

definition load :: "'a vmm_scheme \<Rightarrow> u64 \<Rightarrow> u64" where
  "load s p = read64 (mem s) (cell_at s p)"

definition store :: "u64 \<Rightarrow> u64 \<Rightarrow> 'a vmm_scheme \<Rightarrow> 'a vmm_scheme" where
  "store p v s = s\<lparr>mem := write64 (mem s) (cell_at s p) v\<rparr>"

definition entry_ptr :: "u64 \<Rightarrow> nat \<Rightarrow> u64" where
  "entry_ptr table idx = table + 8 * of_nat idx"

definition get_entry :: "'a vmm_scheme \<Rightarrow> u64 \<Rightarrow> nat \<Rightarrow> u64" where
  "get_entry s table idx = load s (entry_ptr table idx)"

definition set_entry :: "u64 \<Rightarrow> nat \<Rightarrow> u64 \<Rightarrow> 'a vmm_scheme \<Rightarrow> 'a vmm_scheme" where
  "set_entry table idx v = store (entry_ptr table idx) v"

fun space_pml4 :: "'a vmm_scheme \<Rightarrow> space_ptr \<Rightarrow> u64" where
  "space_pml4 s (SUser p) = load s p"
| "space_pml4 s _ = pml4 (kernel_space s)"

fun space_pml4_virt :: "'a vmm_scheme \<Rightarrow> space_ptr \<Rightarrow> u64" where
  "space_pml4_virt s (SUser p) = load s (p + 8)"
| "space_pml4_virt s _ = pml4_virt (kernel_space s)"

section \<open>Walking the tables\<close>

definition vmm_get_next_level ::
    "u64 \<Rightarrow> nat \<Rightarrow> bool \<Rightarrow> u64 \<Rightarrow> 'a vmm_scheme \<Rightarrow> u64 \<times> 'a vmm_scheme" where
  "vmm_get_next_level current idx create flags s =
     (let entry = get_entry s current idx in
      if entry AND PAGE_PRESENT \<noteq> 0 then
        (let s = set_entry current idx (entry OR (flags AND (PAGE_USER OR PAGE_WRITE))) s in
         (PHYS_TO_VIRT s (PTE_GET_ADDR entry), s))
      else if \<not> create then (0, s)
      else (let (phys, s) = pmm_alloc s in
            if phys = 0 then (0, s)
            else (let table = PHYS_TO_VIRT s phys;
                      s = s\<lparr>mem := memset (mem s) (cell_at s table) 0 PAGE_SIZE\<rparr>;
                      s = set_entry current idx (PTE_CREATE phys (flags OR PAGE_PRESENT)) s
                  in (table, s))))"

definition vmm_init :: "'a vmm_scheme \<Rightarrow> 'a vmm_scheme" where
  "vmm_init s =
     (let pml4_phys = cr3 s AND PAGE_MASK in
      s\<lparr>kernel_space := \<lparr>pml4 = pml4_phys, pml4_virt = PHYS_TO_VIRT s pml4_phys\<rparr>\<rparr>)"

definition vmm_switch_space :: "space_ptr \<Rightarrow> 'a vmm_scheme \<Rightarrow> 'a vmm_scheme" where
  "vmm_switch_space space s =
     (if space = SNull then s else s\<lparr>cr3 := space_pml4 s space\<rparr>)"

definition vmm_map :: "space_ptr \<Rightarrow> u64 \<Rightarrow> u64 \<Rightarrow> u64 \<Rightarrow> 'a vmm_scheme \<Rightarrow> bool \<times> 'a vmm_scheme" where
  "vmm_map space virt phys flags s =
     (let virt_addr = virt AND PAGE_MASK;
          phys_addr = phys AND PAGE_MASK;
          pml4t = space_pml4_virt s space;
          (pdpt, s) = vmm_get_next_level pml4t (PML4_INDEX virt_addr) True (PAGE_WRITE OR PAGE_USER) s
      in if pdpt = 0 then (False, s) else
     (let (pd, s) = vmm_get_next_level pdpt (PDPT_INDEX virt_addr) True (PAGE_WRITE OR PAGE_USER) s
      in if pd = 0 then (False, s) else
     (let (pt, s) = vmm_get_next_level pd (PD_INDEX virt_addr) True (PAGE_WRITE OR PAGE_USER) s
      in if pt = 0 then (False, s) else
      (True, set_entry pt (PT_INDEX virt_addr) (PTE_CREATE phys_addr (flags OR PAGE_PRESENT)) s))))"

definition vmm_unmap :: "space_ptr \<Rightarrow> u64 \<Rightarrow> 'a vmm_scheme \<Rightarrow> 'a vmm_scheme" where
  "vmm_unmap space virt s =
     (let virt_addr = virt AND PAGE_MASK;
          pml4t = space_pml4_virt s space;
          (pdpt, s) = vmm_get_next_level pml4t (PML4_INDEX virt_addr) False 0 s
      in if pdpt = 0 then s else
     (let (pd, s) = vmm_get_next_level pdpt (PDPT_INDEX virt_addr) False 0 s
      in if pd = 0 then s else
     (let (pt, s) = vmm_get_next_level pd (PD_INDEX virt_addr) False 0 s
      in if pt = 0 then s else set_entry pt (PT_INDEX virt_addr) 0 s)))"

definition vmm_get_physical :: "space_ptr \<Rightarrow> u64 \<Rightarrow> 'a vmm_scheme \<Rightarrow> u64 \<times> 'a vmm_scheme" where
  "vmm_get_physical space virt s =
     (let pml4t = space_pml4_virt s space;
          (pdpt, s) = vmm_get_next_level pml4t (PML4_INDEX virt) False 0 s
      in if pdpt = 0 then (0, s) else
     (let (pd, s) = vmm_get_next_level pdpt (PDPT_INDEX virt) False 0 s
      in if pd = 0 then (0, s) else
     (let (pt, s) = vmm_get_next_level pd (PD_INDEX virt) False 0 s
      in if pt = 0 then (0, s) else
     (let entry = get_entry s pt (PT_INDEX virt) in
      if entry AND PAGE_PRESENT = 0 then (0, s)
      else (PTE_GET_ADDR entry OR (virt AND NOT PAGE_MASK), s)))))"

definition vmm_is_mapped :: "space_ptr \<Rightarrow> u64 \<Rightarrow> 'a vmm_scheme \<Rightarrow> bool" where
  "vmm_is_mapped space virt s \<longleftrightarrow> fst (vmm_get_physical space virt s) \<noteq> 0"

section \<open>Ranges\<close>

fun vmm_unmap_range :: "space_ptr \<Rightarrow> u64 \<Rightarrow> nat \<Rightarrow> 'a vmm_scheme \<Rightarrow> 'a vmm_scheme" where
  "vmm_unmap_range space virt_addr 0 s = s"
| "vmm_unmap_range space virt_addr (Suc n) s =
     vmm_unmap_range space (virt_addr + of_nat PAGE_SIZE) n (vmm_unmap space virt_addr s)"

definition map_rollback :: "space_ptr \<Rightarrow> u64 \<Rightarrow> nat \<Rightarrow> 'a vmm_scheme \<Rightarrow> 'a vmm_scheme" where
  "map_rollback space virt i s =
     fold (\<lambda>j. vmm_unmap space (virt + of_nat j * of_nat PAGE_SIZE)) [0..<i] s"

text \<open>The loop of \<open>vmm_map_range\<close> at its counter \<open>i\<close>, with \<open>n\<close> iterations left.\<close>

fun map_range_from ::
    "space_ptr \<Rightarrow> u64 \<Rightarrow> u64 \<Rightarrow> u64 \<Rightarrow> u64 \<Rightarrow> nat \<Rightarrow> nat \<Rightarrow> 'a vmm_scheme \<Rightarrow> bool \<times> 'a vmm_scheme" where
  "map_range_from space virt flags virt_addr phys_addr i 0 s = (True, s)"
| "map_range_from space virt flags virt_addr phys_addr i (Suc n) s =
     (let (ok, s) = vmm_map space virt_addr phys_addr flags s in
      if \<not> ok then (False, map_rollback space virt i s)
      else map_range_from space virt flags (virt_addr + of_nat PAGE_SIZE)
             (phys_addr + of_nat PAGE_SIZE) (Suc i) n s)"

definition vmm_map_range ::
    "space_ptr \<Rightarrow> u64 \<Rightarrow> u64 \<Rightarrow> nat \<Rightarrow> u64 \<Rightarrow> 'a vmm_scheme \<Rightarrow> bool \<times> 'a vmm_scheme" where
  "vmm_map_range space virt phys pages flags s = map_range_from space virt flags virt phys 0 pages s"

section \<open>Allocation\<close>

definition vmm_map_contiguous ::
    "space_ptr \<Rightarrow> u64 \<Rightarrow> nat \<Rightarrow> u64 \<Rightarrow> 'a vmm_scheme \<Rightarrow> u64 \<times> 'a vmm_scheme" where
  "vmm_map_contiguous space virt count flags s =
     (if count = 0 \<or> virt = 0 then (0, s)
      else let (phys, s) = pmm_alloc_pages count s in
           if phys = 0 then (0, s)
           else let (ok, s) = vmm_map_range space virt phys count flags s in
                if \<not> ok then (0, pmm_free_pages phys count s) else (virt, s))"

definition vmm_alloc_page :: "space_ptr \<Rightarrow> u64 \<Rightarrow> u64 \<Rightarrow> 'a vmm_scheme \<Rightarrow> u64 \<times> 'a vmm_scheme" where
  "vmm_alloc_page space virt flags s =
     (let (phys, s) = pmm_alloc s in
      if phys = 0 then (0, s)
      else let (ok, s) = vmm_map space virt phys flags s in
           if \<not> ok then (0, pmm_free phys s) else (virt, s))"

definition vmm_alloc_pages ::
    "space_ptr \<Rightarrow> u64 \<Rightarrow> nat \<Rightarrow> u64 \<Rightarrow> 'a vmm_scheme \<Rightarrow> u64 \<times> 'a vmm_scheme" where
  "vmm_alloc_pages space virt count flags s =
     (let (phys, s) = pmm_alloc_pages count s in
      if phys = 0 then (0, s)
      else let (ok, s) = vmm_map_range space virt phys count flags s in
           if \<not> ok then (0, pmm_free_pages phys count s) else (virt, s))"

definition vmm_free_page :: "space_ptr \<Rightarrow> u64 \<Rightarrow> 'a vmm_scheme \<Rightarrow> 'a vmm_scheme" where
  "vmm_free_page space virt s =
     (let (phys, s) = vmm_get_physical space virt s in
      if phys \<noteq> 0 then pmm_free phys (vmm_unmap space virt s) else s)"

fun vmm_free_pages :: "space_ptr \<Rightarrow> u64 \<Rightarrow> nat \<Rightarrow> 'a vmm_scheme \<Rightarrow> 'a vmm_scheme" where
  "vmm_free_pages space virt_addr 0 s = s"
| "vmm_free_pages space virt_addr (Suc n) s =
     (let (phys, s) = vmm_get_physical space virt_addr s;
          s = (if phys \<noteq> 0 then pmm_free phys (vmm_unmap space virt_addr s) else s)
      in vmm_free_pages space (virt_addr + of_nat PAGE_SIZE) n s)"

fun map_user_pages :: "u64 \<Rightarrow> nat \<Rightarrow> 'a vmm_scheme \<Rightarrow> 'a vmm_scheme" where
  "map_user_pages vaddr 0 s = s"
| "map_user_pages vaddr (Suc n) s =
     (let (phys, s) = pmm_alloc s in
      if phys = 0 then s
      else let (ok, s) = vmm_map SKernel vaddr phys (PAGE_PRESENT OR PAGE_WRITE OR PAGE_USER) s in
           map_user_pages (vaddr + of_nat PAGE_SIZE) n s)"

definition setup_user_space :: "'a vmm_scheme \<Rightarrow> 'a vmm_scheme" where
  "setup_user_space s = map_user_pages 0x400000 ((0x800000 - 0x400000) div PAGE_SIZE) s"

section \<open>Address spaces\<close>

definition copy_kernel_entry :: "u64 \<Rightarrow> u64 \<Rightarrow> nat \<Rightarrow> 'a vmm_scheme \<Rightarrow> 'a vmm_scheme" where
  "copy_kernel_entry kernel_pml4 new_pml4 i s = set_entry new_pml4 i (get_entry s kernel_pml4 i) s"

definition vmm_create_address_space :: "'a vmm_scheme \<Rightarrow> space_ptr \<times> 'a vmm_scheme" where
  "vmm_create_address_space s =
     (let (p, s) = pmm_alloc s;
          space = PHYS_TO_VIRT s p
      in if space = 0 then (SNull, s) else
     (let (pml4_phys, s) = pmm_alloc s
      in if pml4_phys = 0 then (SNull, pmm_free (VIRT_TO_PHYS s space) s) else
     (let s = store space pml4_phys s;
          s = store (space + 8) (PHYS_TO_VIRT s pml4_phys) s;
          s = s\<lparr>mem := memset (mem s) (cell_at s (space_pml4_virt s (SUser space))) 0 PAGE_SIZE\<rparr>;
          kernel_pml4 = pml4_virt (kernel_space s);
          new_pml4 = space_pml4_virt s (SUser space)
      in (SUser space, fold (copy_kernel_entry kernel_pml4 new_pml4) [256..<512] s))))"

definition destroy_pde :: "u64 \<Rightarrow> nat \<Rightarrow> 'a vmm_scheme \<Rightarrow> 'a vmm_scheme" where
  "destroy_pde pd pde s =
     (let e = get_entry s pd pde in
      if e AND PAGE_PRESENT = 0 then s
      else (let pt = PHYS_TO_VIRT s (PTE_GET_ADDR e) in pmm_free (VIRT_TO_PHYS s pt) s))"

definition destroy_pdpte :: "u64 \<Rightarrow> nat \<Rightarrow> 'a vmm_scheme \<Rightarrow> 'a vmm_scheme" where
  "destroy_pdpte pdpt pdpte s =
     (let e = get_entry s pdpt pdpte in
      if e AND PAGE_PRESENT = 0 then s
      else (let pd = PHYS_TO_VIRT s (PTE_GET_ADDR e);
                s = fold (destroy_pde pd) [0..<512] s
            in pmm_free (VIRT_TO_PHYS s pd) s))"

definition destroy_pml4e :: "u64 \<Rightarrow> nat \<Rightarrow> 'a vmm_scheme \<Rightarrow> 'a vmm_scheme" where
  "destroy_pml4e pml4t pml4e s =
     (let e = get_entry s pml4t pml4e in
      if e AND PAGE_PRESENT = 0 then s
      else (let pdpt = PHYS_TO_VIRT s (PTE_GET_ADDR e);
                s = fold (destroy_pdpte pdpt) [0..<512] s
            in pmm_free (VIRT_TO_PHYS s pdpt) s))"

definition vmm_destroy_address_space :: "space_ptr \<Rightarrow> 'a vmm_scheme \<Rightarrow> 'a vmm_scheme" where
  "vmm_destroy_address_space space s =
     (case space of
        SUser p \<Rightarrow>
          (let s = fold (destroy_pml4e (space_pml4_virt s space)) [0..<256] s;
               s = pmm_free (space_pml4 s space) s
           in pmm_free (VIRT_TO_PHYS s p) s)
      | _ \<Rightarrow> s)"

section \<open>Tables as a view\<close>

text \<open>
  \<open>cell s t i\<close> is the \<open>i\<close>-th 64-bit cell of the frame at the physical address \<open>t\<close>;
  the view of the tables reads a present entry as a link to its frame. \<open>frames\<close> are
  the allocated frames outside the bitmap, page 0 apart.
\<close>

definition cell :: "'a vmm_scheme \<Rightarrow> u64 \<Rightarrow> nat \<Rightarrow> u64" where
  "cell s t i = read64 (mem s) (unat t + 8 * i)"

definition view_of :: "'a vmm_scheme \<Rightarrow> view" where
  "view_of s = (\<lambda>t i. if cell s t i AND PAGE_PRESENT \<noteq> 0 then Some (PTE_GET_ADDR (cell s t i)) else None)"

definition frames :: "'a pmm_scheme \<Rightarrow> u64 set" where
  "frames s = {t. t \<noteq> 0 \<and> unat t mod PAGE_SIZE = 0 \<and> unat t div PAGE_SIZE \<in> used_set s - bitmap_pages s}"

lemma view_of_cong: "cell s t i = cell s' t i \<Longrightarrow> view_of s t i = view_of s' t i"
  by (simp add: view_of_def)

lemma unat_offset:
  assumes "unat (t::u64) + k < 2 ^ 64"
  shows "unat (t + of_nat k) = unat t + k"
  using assms by (simp add: unat_word_ariths unat_of_nat64 flip: of_nat_add)

lemma page_multiple:
  assumes "(n::nat) mod 4096 = 0"
  obtains q where "n = 4096 * q" "n div 4096 = q"
  using assms by (metis div_mult_mod_eq add.right_neutral mult.commute)

lemma frames_below:
  assumes "pmm_inv s" "t \<in> frames s"
  shows "unat t + 4096 \<le> 2 ^ 64" "unat t mod 4096 = 0"
proof -
  have "unat t div 4096 < 2 ^ 52" and m: "unat t mod 4096 = 0"
    using assms by (auto simp: frames_def used_set_def pmm_inv_def)
  then obtain q where "unat t = 4096 * q" "q < 2 ^ 52" by (metis page_multiple)
  then show "unat t + 4096 \<le> 2 ^ 64" by simp
  show "unat t mod 4096 = 0" by (rule m)
qed

lemma cell_at_entry:
  assumes "unat t + 4096 \<le> 2 ^ 64" "i < 512"
  shows "cell_at s (entry_ptr (PHYS_TO_VIRT s t) i) = unat t + 8 * i"
proof -
  have "VIRT_TO_PHYS s (entry_ptr (PHYS_TO_VIRT s t) i) = t + of_nat (8 * i)"
    by (simp add: VIRT_TO_PHYS_def entry_ptr_def PHYS_TO_VIRT_def)
  with assms show ?thesis by (simp only: cell_at_def unat_offset)
qed

lemma get_entry_cell:
  assumes "pmm_inv s" "t \<in> frames s" "i < 512"
  shows "get_entry s (PHYS_TO_VIRT s t) i = cell s t i"
  using frames_below [OF assms(1,2)] assms(3)
  by (simp add: get_entry_def load_def cell_def cell_at_entry)

lemma cell_page:
  assumes "unat (t::u64) mod 4096 = 0" "i < 512" "k < 8"
  shows "(unat t + 8 * i + k) div 4096 = unat t div 4096"
proof -
  obtain q where "unat t = 4096 * q" using assms(1) by (rule page_multiple)
  then show ?thesis using assms(2,3) by (simp add: div_nat_eqI)
qed

lemma cell_eq:
  assumes "unat t mod 4096 = 0" "i < 512"
    "\<And>x. x div 4096 = unat t div 4096 \<Longrightarrow> mem s' x = mem s x"
  shows "cell s' t i = cell s t i"
  unfolding cell_def using assms cell_page [OF assms(1,2)] by (intro read64_cong) auto

text \<open>A store into an allocated frame changes one cell and no status of a page.\<close>

lemma set_entry_eq:
  assumes "pmm_inv s" "t \<in> frames s" "i < 512"
  shows "set_entry (PHYS_TO_VIRT s t) i v s = s\<lparr>mem := write64 (mem s) (unat t + 8 * i) v\<rparr>"
  using frames_below [OF assms(1,2)] assms(3) by (simp add: set_entry_def store_def cell_at_entry)

lemma not_bitmap_page: "a div PAGE_SIZE \<notin> bitmap_pages s \<Longrightarrow> a \<notin> bitmap_bytes s"
  by (auto simp: bitmap_pages_def)

lemma set_entry_frames:
  fixes v :: u64
  assumes "pmm_inv s" "t \<in> frames s" "i < 512"
  defines "s' \<equiv> set_entry (PHYS_TO_VIRT s t) i v s"
  shows "pmm_inv s'" "free_pages s' = free_pages s" "used_set s' = used_set s" "same_rest s s'"
    "frames s' = frames s" "\<And>x. x div 4096 \<noteq> unat t div 4096 \<Longrightarrow> mem s' x = mem s x"
proof -
  have s': "s' = s\<lparr>mem := write64 (mem s) (unat t + 8 * i) v\<rparr>"
    unfolding s'_def using assms by (simp add: set_entry_eq)
  have out: "mem s' x = mem s x" if "x div 4096 \<noteq> unat t div 4096" for x
  proof -
    have "\<not> (unat t + 8 * i \<le> x \<and> x < unat t + 8 * i + 8)"
      using that cell_page [of t i "x - (unat t + 8 * i)"] frames_below(2) [OF assms(1,2)] assms(3)
      by auto
    then show ?thesis by (simp add: s' not_le not_less)
  qed
  have "mem s' a = mem s a" if "a \<in> bitmap_bytes s" for a
    using that assms(2) by (intro out) (auto simp: frames_def bitmap_pages_def image_iff)
  from mem_update_frames [OF assms(1) this] 
  show r: "pmm_inv s'" "free_pages s' = free_pages s" "used_set s' = used_set s"
    using s' by simp_all
  show "same_rest s s'" by (simp add: s')
  with r(3) show "frames s' = frames s"
    by (simp add: frames_def same_rest_bitmap_pages)
  show "\<And>x. x div 4096 \<noteq> unat t div 4096 \<Longrightarrow> mem s' x = mem s x" by (rule out)
qed

lemma cell_set_entry:
  assumes "pmm_inv s" "t \<in> frames s" "i < 512" "unat u mod 4096 = 0" "j < 512"
  shows "cell (set_entry (PHYS_TO_VIRT s t) i v s) u j = (if u = t \<and> j = i then v else cell s u j)"
proof (cases "u = t")
  case True
  with assms show ?thesis
    by (cases "j < i"; cases "i < j")
      (auto simp: set_entry_eq cell_def intro: read64_write64_other)
next
  case False
  have "unat u div 4096 \<noteq> unat t div 4096"
    using False assms(4) frames_below(2) [OF assms(1,2)]
    by (metis div_mult_mod_eq word_unat_eq_iff)
  then have "cell (set_entry (PHYS_TO_VIRT s t) i v s) u j = cell s u j"
    using assms by (intro cell_eq set_entry_frames(6)) auto
  with False show ?thesis by simp
qed

text \<open>An allocation adds one empty frame.\<close>

lemma used_set_free: "used_set s = {..<total_pages s} - free_pages s"
  by (auto simp: used_set_def free_pages_def)

lemma page_addr_frame:
  assumes "p < 2 ^ 52"
  shows "unat (page_addr p) mod 4096 = 0" "unat (page_addr p) div 4096 = p"
  using page_addr_unat [OF assms] by simp_all

lemma page_addr_inj:
  assumes "unat t mod 4096 = 0" "unat t div 4096 = p"
  shows "t = page_addr p"
proof -
  have "unat t = p * 4096" using assms by (metis page_multiple mult.commute)
  moreover have "of_nat (unat t) = t" by simp
  ultimately have "t = of_nat (p * 4096)" by (simp only:)
  then show ?thesis by (simp only: page_addr_def)
qed

lemma frames_alloc:
  assumes "pmm_inv s" "alloc_post s t p 1" "page_addr p \<noteq> 0"
  shows "frames t = insert (page_addr p) (frames s)" "page_addr p \<notin> frames s"
    "\<And>u i. u \<in> frames s \<Longrightarrow> i < 512 \<Longrightarrow> cell t u i = cell s u i"
    "\<And>i. i < 512 \<Longrightarrow> cell t (page_addr p) i = 0"
proof -
  have p: "p \<in> free_pages s" "p < 2 ^ 52" "free_pages t = free_pages s - {p}" "same_rest s t"
    using assms by (auto simp: alloc_post_def free_pages_def pmm_inv_def)
  have used: "used_set t = insert p (used_set s)"
    using p same_restD(3) [OF p(4)] by (auto simp: used_set_free free_pages_def)
  have "p \<notin> bitmap_pages s" using p bitmap_pages_used [OF assms(1)] by (auto simp: used_set_free)
  then have "u \<in> frames t \<longleftrightarrow> u = page_addr p \<or> u \<in> frames s" for u
    using page_addr_frame [OF p(2)] page_addr_inj [of u p] assms(3)
    unfolding frames_def used same_rest_bitmap_pages [OF p(4)] mem_Collect_eq Diff_iff insert_iff by metis
  then show "frames t = insert (page_addr p) (frames s)" by blast
  show "page_addr p \<notin> frames s"
    using p page_addr_frame [OF p(2)] by (simp add: frames_def used_set_free)
  show "cell t u i = cell s u i" if "u \<in> frames s" "i < 512" for u i
  proof (rule cell_eq)
    fix x assume x: "x div 4096 = unat u div 4096"
    with that have "x div 4096 \<notin> bitmap_pages s" "x div 4096 \<noteq> p"
      using p by (auto simp: frames_def used_set_free)
    then show "mem t x = mem s x"
      using assms(2) not_bitmap_page [of x s] by (auto simp: alloc_post_def)
  qed (use that in \<open>auto simp: frames_def\<close>)
  show "cell t (page_addr p) i = 0" if "i < 512" for i
    unfolding cell_def using assms(2) cell_page [OF page_addr_frame(1) [OF p(2)] that]
      page_addr_frame(2) [OF p(2)]
    by (intro read64_0) (auto simp: alloc_post_def)
qed

lemma alloc_null_iff:
  assumes "pmm_inv s" "0 \<notin> free_pages s"
  shows "fst (pmm_alloc s) = 0 \<longleftrightarrow> free_pages s = {}"
proof (cases "free_pages s = {}")
  case False
  then have m: "Min (free_pages s) \<in> free_pages s" by simp
  with assms have "Min (free_pages s) < 2 ^ 52" "Min (free_pages s) \<noteq> 0"
    by (auto simp: free_pages_def pmm_inv_def intro: ccontr)
  then have "page_addr (Min (free_pages s)) \<noteq> 0"
    using page_addr_unat [of "Min (free_pages s)"] by (auto simp: unat_eq_0)
  with pmm_alloc_post [OF assms(1) False] False show ?thesis by auto
qed (simp add: pmm_alloc_none)

section \<open>Invariant of the address spaces\<close>

definition hhdm_ok :: "'a pmm_scheme \<Rightarrow> bool" where
  "hhdm_ok s \<longleftrightarrow> 0 < unat (hhdm_offset s) \<and> unat (hhdm_offset s) + total_pages s * PAGE_SIZE \<le> 2 ^ 64"

definition struct_frames :: "'a vmm_scheme \<Rightarrow> space_ptr set \<Rightarrow> u64 set" where
  "struct_frames s S = VIRT_TO_PHYS s ` {p. SUser p \<in> S}"

definition roots :: "'a vmm_scheme \<Rightarrow> space_ptr set \<Rightarrow> u64 set" where
  "roots s S = space_pml4 s ` S"

definition space_tables :: "nat set \<Rightarrow> space_ptr set \<Rightarrow> 'a vmm_scheme \<Rightarrow> u64 set" where
  "space_tables I S s = tables (view_of s) I (roots s S)"

text \<open>
  \<open>vmm_ok I S s\<close>: the page allocator is consistent and never hands out page 0, the
  structures of the spaces in \<open>S\<close> are allocated frames that agree on the two
  addresses of their top table, different spaces have different top tables, and the
  tables below the indices \<open>I\<close> of all these spaces form disjoint trees in allocated
  frames that hold no structure.
\<close>

definition vmm_ok :: "nat set \<Rightarrow> space_ptr set \<Rightarrow> 'a vmm_scheme \<Rightarrow> bool" where
  "vmm_ok I S s \<longleftrightarrow>
     pmm_inv s \<and> 0 \<notin> free_pages s \<and> hhdm_ok s \<and> SNull \<notin> S
     \<and> struct_frames s S \<subseteq> frames s
     \<and> inj_on (space_pml4 s) S
     \<and> (\<forall>sp \<in> S. space_pml4_virt s sp = PHYS_TO_VIRT s (space_pml4 s sp))
     \<and> tree_ok (view_of s) I (roots s S) (frames s - struct_frames s S)"

definition xlate :: "'a vmm_scheme \<Rightarrow> space_ptr \<Rightarrow> nat list \<Rightarrow> u64 option" where
  "xlate s sp path = walk (view_of s) (space_pml4 s sp) path"

text \<open>
  \<open>vmm_step I S s t\<close>: \<open>t\<close> keeps the invariant, at most consumes pages, keeps the top
  tables, makes tables out of free pages only, and leaves every allocated byte that
  is in no table and not in the bitmap as it was.
\<close>

definition vmm_step :: "nat set \<Rightarrow> space_ptr set \<Rightarrow> 'a vmm_scheme \<Rightarrow> 'a vmm_scheme \<Rightarrow> bool" where
  "vmm_step I S s t \<longleftrightarrow>
     vmm_ok I S t \<and> same_rest s t \<and> free_pages t \<subseteq> free_pages s
     \<and> (\<forall>sp \<in> S. space_pml4 t sp = space_pml4 s sp)
     \<and> space_tables I S t \<subseteq> space_tables I S s \<union> page_addr ` (free_pages s - free_pages t)
     \<and> (\<forall>x. x div PAGE_SIZE \<in> used_set s \<and> x \<notin> bitmap_bytes s
          \<and> page_addr (x div PAGE_SIZE) \<notin> space_tables I S s \<longrightarrow> mem t x = mem s x)"

lemma vmm_step_refl: "vmm_ok I S s \<Longrightarrow> vmm_step I S s s"
  by (simp add: vmm_step_def)

lemma used_set_mono: "free_pages t \<subseteq> free_pages s \<Longrightarrow> same_rest s t \<Longrightarrow> used_set s \<subseteq> used_set t"
  by (auto simp: used_set_free same_restD(3))

lemma page_addr_eqD: "page_addr p = page_addr q \<Longrightarrow> p < 2 ^ 52 \<Longrightarrow> q < 2 ^ 52 \<Longrightarrow> p = q"
  using page_addr_frame(2) by metis

lemma used_page_small: "pmm_inv s \<Longrightarrow> p \<in> used_set s \<or> p \<in> free_pages s \<Longrightarrow> p < 2 ^ 52"
  by (auto simp: pmm_inv_def used_set_def free_pages_def)

lemma vmm_step_trans:
  assumes inv: "pmm_inv s" and 1: "vmm_step I S s t" and 2: "vmm_step I S t u"
  shows "vmm_step I S s u"
proof -
  have rest: "same_rest s t" "same_rest t u" using 1 2 by (auto simp: vmm_step_def)
  have sub: "free_pages t \<subseteq> free_pages s" "free_pages u \<subseteq> free_pages t"
    using 1 2 by (auto simp: vmm_step_def)
  have mem: "mem u x = mem s x"
    if x: "x div 4096 \<in> used_set s" "x \<notin> bitmap_bytes s" "page_addr (x div 4096) \<notin> space_tables I S s" for x
  proof -
    have "page_addr (x div 4096) \<notin> page_addr ` (free_pages s - free_pages t)"
      using x(1) used_page_small [OF inv] page_addr_eqD [of "x div 4096"]
      by (auto simp: used_set_free)
    then have "page_addr (x div 4096) \<notin> space_tables I S t"
      using 1 x(3) by (auto simp: vmm_step_def)
    moreover have "x div 4096 \<in> used_set t" using x(1) used_set_mono [OF sub(1) rest(1)] by auto
    ultimately have "mem u x = mem t x"
      using 2 x(2) same_restD(7) [OF rest(1)] by (simp add: vmm_step_def)
    with 1 x show ?thesis by (simp add: vmm_step_def)
  qed
  moreover have "space_tables I S u \<subseteq> space_tables I S s \<union> page_addr ` (free_pages s - free_pages u)"
  proof -
    have "space_tables I S u \<subseteq> space_tables I S t \<union> page_addr ` (free_pages t - free_pages u)"
      "space_tables I S t \<subseteq> space_tables I S s \<union> page_addr ` (free_pages s - free_pages t)"
      using 1 2 by (auto simp: vmm_step_def)
    then show ?thesis using sub by blast
  qed
  ultimately show ?thesis
    using 1 2 sub same_rest_trans [OF rest] by (auto simp: vmm_step_def)
qed

lemma same_rest_vmm:
  assumes "same_rest s t"
  shows "kernel_space t = kernel_space s" "cr3 t = cr3 s" "PHYS_TO_VIRT t = PHYS_TO_VIRT s"
    "VIRT_TO_PHYS t = VIRT_TO_PHYS s" "struct_frames t = struct_frames s"
proof -
  have t: "t = s\<lparr>mem := mem t, used_pages := used_pages t\<rparr>"
    using assms by (simp add: same_rest_def)
  show "kernel_space t = kernel_space s" "cr3 t = cr3 s"
    by (subst t, simp)+
  show "PHYS_TO_VIRT t = PHYS_TO_VIRT s" "VIRT_TO_PHYS t = VIRT_TO_PHYS s"
    by (auto simp: PHYS_TO_VIRT_def VIRT_TO_PHYS_def same_restD(5) [OF assms])
  then show "struct_frames t = struct_frames s" by (auto simp: struct_frames_def)
qed

lemma PHYS_VIRT [simp]: "VIRT_TO_PHYS s (PHYS_TO_VIRT s p) = p" "PHYS_TO_VIRT s (VIRT_TO_PHYS s p) = p"
  by (simp_all add: VIRT_TO_PHYS_def PHYS_TO_VIRT_def)

lemma load_cell:
  assumes "pmm_inv s" "VIRT_TO_PHYS s p \<in> frames s"
  shows "load s p = cell s (VIRT_TO_PHYS s p) 0" "load s (p + 8) = cell s (VIRT_TO_PHYS s p) 1"
proof -
  have e: "entry_ptr (PHYS_TO_VIRT s (VIRT_TO_PHYS s p)) 0 = p"
    "entry_ptr (PHYS_TO_VIRT s (VIRT_TO_PHYS s p)) 1 = p + 8"
    by (simp_all add: entry_ptr_def)
  show "load s p = cell s (VIRT_TO_PHYS s p) 0" "load s (p + 8) = cell s (VIRT_TO_PHYS s p) 1"
    using get_entry_cell [OF assms, of 0] get_entry_cell [OF assms, of 1]
    unfolding get_entry_def e by simp_all
qed

text \<open>What keeps the invariant: the structures' cells stay, and the new tables are well shaped.\<close>

lemma vmm_ok_step:
  assumes ok: "vmm_ok I S s" and t: "pmm_inv t" "same_rest s t" "free_pages t \<subseteq> free_pages s"
    and str: "\<And>f i. f \<in> struct_frames s S \<Longrightarrow> i < 512 \<Longrightarrow> cell t f i = cell s f i"
    and tree: "tree_ok (view_of t) I (roots s S) (frames t - struct_frames s S)"
  shows "vmm_ok I S t" "\<And>sp. sp \<in> S \<Longrightarrow> space_pml4 t sp = space_pml4 s sp" "roots t S = roots s S"
proof -
  have inv: "pmm_inv s" and sf: "struct_frames s S \<subseteq> frames s" and nn: "SNull \<notin> S"
    using ok by (auto simp: vmm_ok_def)
  have fr: "frames s \<subseteq> frames t"
    using used_set_mono [OF t(3,2)] same_rest_bitmap_pages [OF t(2)] by (auto simp: frames_def)
  note v = same_rest_vmm [OF t(2)]
  have ld: "space_pml4 t sp = space_pml4 s sp \<and> space_pml4_virt t sp = space_pml4_virt s sp"
    if "sp \<in> S" for sp
  proof (cases sp)
    case (SUser p)
    then have p: "VIRT_TO_PHYS s p \<in> struct_frames s S" using that by (auto simp: struct_frames_def)
    then show ?thesis
      using SUser sf fr inv t(1) v(4) str [OF p] by (auto simp: load_cell subset_iff)
  qed (use v in auto)
  then show p: "\<And>sp. sp \<in> S \<Longrightarrow> space_pml4 t sp = space_pml4 s sp" by simp
  then show r: "roots t S = roots s S" unfolding roots_def by (intro image_cong) auto
  have "inj_on (space_pml4 t) S"
    using ok p inj_on_cong [of S "space_pml4 t" "space_pml4 s"] by (simp add: vmm_ok_def)
  moreover have "hhdm_ok t" using ok same_restD(3,5) [OF t(2)] by (simp add: vmm_ok_def hhdm_ok_def)
  ultimately show "vmm_ok I S t"
    using ok t sf fr ld r tree v nn unfolding vmm_ok_def by (auto simp: subset_iff)
qed

lemma table_virt_nonzero:
  assumes "hhdm_ok s" "pmm_inv s" "t \<in> frames s"
  shows "PHYS_TO_VIRT s t \<noteq> 0"
proof -
  obtain q where q: "unat t = 4096 * q" "q < total_pages s"
    using assms(3) by (auto simp: frames_def used_set_def elim!: page_multiple)
  then have "4096 * q + 4096 \<le> total_pages s * 4096" by linarith
  then have "unat t + unat (hhdm_offset s) < 2 ^ 64" "0 < unat (hhdm_offset s)"
    using assms(1) q by (auto simp: hhdm_ok_def)
  then have "unat (t + hhdm_offset s) \<noteq> 0"
    by (simp add: unat_word_ariths)
  then show ?thesis unfolding PHYS_TO_VIRT_def by (simp only: unat_eq_0) simp
qed

section \<open>Entries\<close>

lemma pte_keep:
  "(e OR (flags AND (PAGE_USER OR PAGE_WRITE))) AND PAGE_PRESENT = e AND PAGE_PRESENT"
  "PTE_GET_ADDR (e OR (flags AND (PAGE_USER OR PAGE_WRITE))) = PTE_GET_ADDR e"
proof -
  have "(PAGE_USER OR PAGE_WRITE) AND PAGE_PRESENT = 0" "(PAGE_USER OR PAGE_WRITE) AND PAGE_MASK = 0"
    by (simp_all add: PAGE_MASK_def)
  then show "(e OR (flags AND (PAGE_USER OR PAGE_WRITE))) AND PAGE_PRESENT = e AND PAGE_PRESENT"
    "PTE_GET_ADDR (e OR (flags AND (PAGE_USER OR PAGE_WRITE))) = PTE_GET_ADDR e"
    unfolding PTE_GET_ADDR_def by (simp_all only: bit.conj_disj_distrib2 and.assoc and_zero_eq or.right_neutral)
qed

lemma pte_create:
  "PTE_CREATE a (flags OR PAGE_PRESENT) AND PAGE_PRESENT \<noteq> 0"
  "PTE_GET_ADDR (PTE_CREATE a (flags OR PAGE_PRESENT)) = (a AND PAGE_MASK) OR (flags AND PAGE_MASK)"
proof -
  have "PAGE_PRESENT AND PAGE_MASK = 0" by (simp add: PAGE_MASK_def)
  then show "PTE_GET_ADDR (PTE_CREATE a (flags OR PAGE_PRESENT)) = (a AND PAGE_MASK) OR (flags AND PAGE_MASK)"
    unfolding PTE_GET_ADDR_def PTE_CREATE_def
    by (simp only: bit.conj_disj_distrib2 and.assoc and.idem or.right_neutral)
  have "bit (PTE_CREATE a (flags OR PAGE_PRESENT) AND PAGE_PRESENT) 0"
    by (simp add: PTE_CREATE_def bit_simps)
  then show "PTE_CREATE a (flags OR PAGE_PRESENT) AND PAGE_PRESENT \<noteq> 0"
    by (intro notI) (simp only: bit_0_eq bot_apply bot_bool_def)
qed

lemma aligned_mask: "unat t mod 4096 = 0 \<longleftrightarrow> t AND PAGE_MASK = t"
proof -
  have m: "PAGE_MASK = NOT (mask 12)" by (simp add: PAGE_MASK_def mask_eq_exp_minus_1 not_eq_complement)
  have "unat (take_bit 12 t) = take_bit 12 (unat t)" by (rule unsigned_take_bit_eq)
  also have "\<dots> = unat t mod 4096" by (simp add: take_bit_eq_mod)
  finally have "unat t mod 4096 = unat (take_bit 12 t)" by simp
  then have "unat t mod 4096 = 0 \<longleftrightarrow> take_bit 12 t = 0" by (simp add: unat_eq_0)
  also have "\<dots> \<longleftrightarrow> t AND PAGE_MASK = t"
    unfolding m bit_eq_iff by (auto simp: bit_simps)
  finally show ?thesis .
qed

lemma view_set_entry:
  assumes "pmm_inv s" "t \<in> frames s" "i < 512" "unat u mod 4096 = 0" "j < 512"
  shows "view_of (set_entry (PHYS_TO_VIRT s t) i v s) u j
           = set_link (view_of s) t i (if v AND PAGE_PRESENT \<noteq> 0 then Some (PTE_GET_ADDR v) else None) u j"
  using cell_set_entry [OF assms, of v]
  by (cases "u = t \<and> j = i") (auto simp: view_of_def set_link_def)

section \<open>One level of a walk\<close>

definition same_xlate :: "nat set \<Rightarrow> space_ptr set \<Rightarrow> 'a vmm_scheme \<Rightarrow> 'a vmm_scheme \<Rightarrow> bool" where
  "same_xlate I S s t \<longleftrightarrow>
     (\<forall>sp \<in> S. \<forall>path. good_path I path \<and> length path = 4 \<longrightarrow> xlate t sp path = xlate s sp path)"

lemma same_xlate_refl [simp]: "same_xlate I S s s"
  by (simp add: same_xlate_def)

lemma same_xlate_trans: "same_xlate I S s t \<Longrightarrow> same_xlate I S t u \<Longrightarrow> same_xlate I S s u"
  by (simp add: same_xlate_def)

lemma at_table_xlate:
  assumes "vmm_ok I S s" "sp \<in> S" "good_path I path" "length path \<le> 3" "xlate s sp path = Some t"
  shows "at_table (view_of s) I (roots s S) (frames s - struct_frames s S) (space_pml4 s sp) path t"
    "t \<in> frames s" "t \<notin> struct_frames s S" "t \<in> space_tables I S s"
proof -
  have r: "space_pml4 s sp \<in> roots s S" using assms(2) by (simp add: roots_def)
  then show "at_table (view_of s) I (roots s S) (frames s - struct_frames s S) (space_pml4 s sp) path t"
    using assms by (simp add: at_table_def vmm_ok_def xlate_def)
  have "t \<in> tables (view_of s) I (roots s S)"
    using tablesI [OF r assms(3,4)] assms(5) by (simp add: xlate_def)
  then show "t \<in> frames s" "t \<notin> struct_frames s S" "t \<in> space_tables I S s"
    using assms(1) by (auto simp: vmm_ok_def tree_ok_def space_tables_def)
qed

lemma space_tables_frames: "vmm_ok I S s \<Longrightarrow> space_tables I S s \<subseteq> frames s - struct_frames s S"
  by (auto simp: vmm_ok_def tree_ok_def space_tables_def)

text \<open>A step after which the tables agree on their entries changes no translation.\<close>

lemma vmm_step_agree:
  assumes ok: "vmm_ok I S s" and t: "pmm_inv t" "same_rest s t" "free_pages t \<subseteq> free_pages s"
    and str: "\<And>f i. f \<in> struct_frames s S \<Longrightarrow> i < 512 \<Longrightarrow> cell t f i = cell s f i"
    and view: "agree (space_tables I S s) (view_of s) (view_of t)"
    and mem: "\<And>x. x div 4096 \<in> used_set s \<Longrightarrow> x \<notin> bitmap_bytes s \<Longrightarrow>
        page_addr (x div 4096) \<notin> space_tables I S s \<Longrightarrow> mem t x = mem s x"
  shows "vmm_step I S s t"
    "\<And>sp path. sp \<in> S \<Longrightarrow> good_path I path \<Longrightarrow> length path \<le> 4 \<Longrightarrow> xlate t sp path = xlate s sp path"
    "space_tables I S t = space_tables I S s"
proof -
  have tr: "tree_ok (view_of s) I (roots s S) (frames s - struct_frames s S)"
    using ok by (simp add: vmm_ok_def)
  note ag = view [unfolded space_tables_def]
  have fr: "frames s \<subseteq> frames t"
    using used_set_mono [OF t(3,2)] same_rest_bitmap_pages [OF t(2)] by (auto simp: frames_def)
  have "tree_ok (view_of t) I (roots s S) (frames t - struct_frames s S)"
    by (rule tree_ok_mono [OF tree_ok_agree [OF tr ag]]) (use fr in auto)
  from vmm_ok_step [OF ok t str this]
  have k: "vmm_ok I S t" "\<And>sp. sp \<in> S \<Longrightarrow> space_pml4 t sp = space_pml4 s sp" "roots t S = roots s S"
    by blast+
  have tabs: "space_tables I S t = space_tables I S s"
    unfolding space_tables_def k(3) by (rule tables_agree [OF ag])
  then show "vmm_step I S s t" "space_tables I S t = space_tables I S s"
    using k t mem by (auto simp: vmm_step_def)
  show "xlate t sp path = xlate s sp path" if "sp \<in> S" "good_path I path" "length path \<le> 4" for sp path
    unfolding xlate_def k(2) [OF that(1)]
    by (rule walk_agree [OF ag _ that(2,3)]) (simp add: roots_def that)
qed

lemma write64_read64: "write64 m a (read64 m a) = m"
proof
  fix x
  show "write64 m a (read64 m a) x = m x"
  proof (cases "a \<le> x \<and> x < a + 8")
    case True
    then have "ucast (drop_bit (8 * (x - a)) (read64 m a)) = m x"
      by (intro bit_word_eqI) (auto simp: bit_simps bit_read64)
    with True show ?thesis by (simp add: write64_def)
  qed (auto simp: write64_def)
qed

lemma next_present:
  assumes ok: "vmm_ok I S s" and sp: "sp \<in> S" and path: "good_path I (path @ [i])" "length path \<le> 2"
    and t: "xlate s sp path = Some t" and u: "xlate s sp (path @ [i]) = Some u"
  obtains s' where "vmm_get_next_level (PHYS_TO_VIRT s t) i create flags s = (PHYS_TO_VIRT s u, s')"
    "vmm_step I S s s'" "free_pages s' = free_pages s" "same_xlate I S s s'"
    "xlate s' sp (path @ [i]) = Some u"
    "flags = 0 \<longrightarrow> s' = s"
proof -
  have inv: "pmm_inv s" using ok by (simp add: vmm_ok_def)
  have p: "good_path I path" "i < 512" using path by (auto simp: good_path_snoc)
  note T = at_table_xlate [OF ok sp p(1) _ t]
  have tf: "t \<in> frames s" "t \<notin> struct_frames s S" "t \<in> space_tables I S s" using T path(2) by auto
  define e where "e = cell s t i"
  define e' where "e' = e OR (flags AND (PAGE_USER OR PAGE_WRITE))"
  define s' where "s' = set_entry (PHYS_TO_VIRT s t) i e' s"
  have vt: "view_of s t i = Some u" using t u by (simp add: xlate_def walk_snoc)
  then have e: "e AND PAGE_PRESENT \<noteq> 0" "PTE_GET_ADDR e = u"
    by (auto simp: e_def view_of_def split: if_splits)
  note F = set_entry_frames [OF inv tf(1) p(2), where v = e', folded s'_def]
  have "vmm_get_next_level (PHYS_TO_VIRT s t) i create flags s = (PHYS_TO_VIRT s u, s')"
    unfolding vmm_get_next_level_def get_entry_cell [OF inv tf(1) p(2)] e_def [symmetric]
    using e same_rest_vmm(3) [OF F(4)] by (simp add: Let_def s'_def e'_def)
  moreover have c: "cell s' f j = (if f = t \<and> j = i then e' else cell s f j)" if "f \<in> frames s" "j < 512" for f j
    unfolding s'_def using that frames_below(2) [OF inv that(1)]
    by (intro cell_set_entry [OF inv tf(1) p(2)]) auto
  have "view_of s' f j = view_of s f j" if "f \<in> frames s" "j < 512" for f j
    using c [OF that] pte_keep [of e flags] by (cases "f = t \<and> j = i") (auto simp: view_of_def e_def e'_def)
  then have "agree (space_tables I S s) (view_of s) (view_of s')"
    using space_tables_frames [OF ok] by (auto simp: agree_def)
  note st = vmm_step_agree [OF ok F(1,4) _ _ this]
  have "page_addr (unat t div 4096) = t"
    using frames_below(2) [OF inv tf(1)] page_addr_inj by metis
  then have out: "mem s' x = mem s x" if "page_addr (x div 4096) \<notin> space_tables I S s" for x
    using that tf(3) F(6) by metis
  have "cell s' f j = cell s f j" if "f \<in> struct_frames s S" "j < 512" for f j
    using that c [of f j] tf(2) ok by (auto simp: vmm_ok_def)
  with st F(2) out have S: "vmm_step I S s s'"
    "\<And>sp path. sp \<in> S \<Longrightarrow> good_path I path \<Longrightarrow> length path \<le> 4 \<Longrightarrow> xlate s' sp path = xlate s sp path"
    by auto
  moreover have "flags = 0 \<longrightarrow> s' = s"
    unfolding s'_def set_entry_eq [OF inv tf(1) p(2)] e'_def
    by (auto simp: e_def cell_def write64_read64)
  ultimately show ?thesis
    using that F(2) u sp path by (simp add: same_xlate_def)
qed

lemma agree_cells:
  assumes "vmm_ok I S s" "\<And>u i. u \<in> frames s \<Longrightarrow> i < 512 \<Longrightarrow> cell t u i = cell s u i"
  shows "agree (space_tables I S s) (view_of s) (view_of t)"
  unfolding agree_def
proof (intro ballI allI impI)
  fix u i assume "u \<in> space_tables I S s" "i < (512::nat)"
  then have "cell t u i = cell s u i" using space_tables_frames [OF assms(1)] by (intro assms(2)) auto
  then show "view_of s u i = view_of t u i" by (simp add: view_of_def)
qed

lemma alloc_step:
  assumes ok: "vmm_ok I S s" and ne: "free_pages s \<noteq> {}"
  obtains p s1 where "pmm_alloc s = (page_addr p, s1)" "page_addr p \<noteq> 0" "p = Min (free_pages s)"
    "p \<in> free_pages s" "alloc_post s s1 p 1" "vmm_step I S s s1" "free_pages s1 = free_pages s - {p}"
    "\<And>sp path. sp \<in> S \<Longrightarrow> good_path I path \<Longrightarrow> length path \<le> 4 \<Longrightarrow> xlate s1 sp path = xlate s sp path"
    "space_tables I S s1 = space_tables I S s"
proof -
  have inv: "pmm_inv s" "0 \<notin> free_pages s" using ok by (auto simp: vmm_ok_def)
  obtain s1 where a: "pmm_alloc s = (page_addr (Min (free_pages s)), s1)"
    "alloc_post s s1 (Min (free_pages s)) 1"
    using pmm_alloc_post [OF inv(1) ne] by blast
  let ?p = "Min (free_pages s)"
  have nz: "page_addr ?p \<noteq> 0" using alloc_null_iff [OF inv] ne a(1) by simp
  note F = frames_alloc [OF inv(1) a(2) nz]
  have P: "pmm_inv s1" "same_rest s s1" "free_pages s1 = free_pages s - {?p}"
    using a(2) by (auto simp: alloc_post_def)
  have pin: "?p \<in> free_pages s" using ne by simp
  have "agree (space_tables I S s) (view_of s) (view_of s1)"
    by (rule agree_cells [OF ok F(3)])
  moreover have "cell s1 f i = cell s f i" if "f \<in> struct_frames s S" "i < 512" for f i
    using that F(3) ok by (auto simp: vmm_ok_def)
  moreover have "mem s1 x = mem s x" if "x div 4096 \<in> used_set s" "x \<notin> bitmap_bytes s" for x
  proof -
    have "x div 4096 \<noteq> ?p" using that(1) pin by (auto simp: used_set_free)
    with a(2) that(2) show ?thesis by (simp add: alloc_post_def)
  qed
  ultimately have "vmm_step I S s s1" "space_tables I S s1 = space_tables I S s"
    "\<And>sp path. sp \<in> S \<Longrightarrow> good_path I path \<Longrightarrow> length path \<le> 4 \<Longrightarrow> xlate s1 sp path = xlate s sp path"
    using P vmm_step_agree [OF ok P(1,2)] by auto
  then show ?thesis using that a nz pin P(3) by blast
qed

lemma clear_again:
  assumes "alloc_post s s1 p 1" "p < 2 ^ 52"
  shows "s1\<lparr>mem := memset (mem s1) (unat (page_addr p)) 0 PAGE_SIZE\<rparr> = s1"
proof -
  have "memset (mem s1) (unat (page_addr p)) 0 PAGE_SIZE = mem s1"
  proof
    fix x
    have "p * 4096 \<le> x \<and> x < p * 4096 + 4096 \<Longrightarrow> x div 4096 = p" by auto
    then show "memset (mem s1) (unat (page_addr p)) 0 PAGE_SIZE x = mem s1 x"
      using assms(1) by (auto simp: memset_eq page_addr_unat [OF assms(2)] alloc_post_def)
  qed
  then show ?thesis by simp
qed

lemma next_absent_none:
  assumes ok: "vmm_ok I S s" and sp: "sp \<in> S" and path: "good_path I (path @ [i])" "length path \<le> 2"
    and t: "xlate s sp path = Some t" and u: "xlate s sp (path @ [i]) = None"
    and no: "\<not> create \<or> free_pages s = {}"
  shows "vmm_get_next_level (PHYS_TO_VIRT s t) i create flags s = (0, s)"
proof -
  have inv: "pmm_inv s" using ok by (simp add: vmm_ok_def)
  have p: "good_path I path" "i < 512" using path by (auto simp: good_path_snoc)
  have tf: "t \<in> frames s" using at_table_xlate [OF ok sp p(1) _ t] path(2) by auto
  have "view_of s t i = None" using t u by (simp add: xlate_def walk_snoc)
  then have "cell s t i AND PAGE_PRESENT = 0" by (auto simp: view_of_def split: if_splits)
  then show ?thesis
    using no unfolding vmm_get_next_level_def get_entry_cell [OF inv tf p(2)]
    by (auto simp: pmm_alloc_none Let_def)
qed

lemma next_absent:
  assumes ok: "vmm_ok I S s" and sp: "sp \<in> S" and path: "good_path I (path @ [i])" "length path \<le> 2"
    and t: "xlate s sp path = Some t" and u: "xlate s sp (path @ [i]) = None"
    and ne: "free_pages s \<noteq> {}" and fl: "flags AND PAGE_MASK = 0"
  obtains p s' where "vmm_get_next_level (PHYS_TO_VIRT s t) i True flags s = (PHYS_TO_VIRT s p, s')"
    "vmm_step I S s s'" "free_pages s' = free_pages s - {Min (free_pages s)}" "same_xlate I S s s'"
    "xlate s' sp (path @ [i]) = Some p"
proof -
  have inv: "pmm_inv s" using ok by (simp add: vmm_ok_def)
  have gp: "good_path I path" "i < 512" using path by (auto simp: good_path_snoc)
  note T = at_table_xlate [OF ok sp gp(1) _ t]
  have tf: "t \<in> frames s" "t \<notin> struct_frames s S" "t \<in> space_tables I S s" using T path(2) by auto
  obtain q s1 where a: "pmm_alloc s = (page_addr q, s1)" "page_addr q \<noteq> 0" "q = Min (free_pages s)"
    "q \<in> free_pages s" "alloc_post s s1 q 1" "vmm_step I S s s1" "free_pages s1 = free_pages s - {q}"
    and x1: "\<And>sp path. sp \<in> S \<Longrightarrow> good_path I path \<Longrightarrow> length path \<le> 4 \<Longrightarrow> xlate s1 sp path = xlate s sp path"
    and tab1: "space_tables I S s1 = space_tables I S s"
    using alloc_step [OF ok ne] by metis
  note F = frames_alloc [OF inv a(5,2)]
  have q52: "q < 2 ^ 52" using a(4) inv used_page_small by blast
  have ok1: "vmm_ok I S s1" and inv1: "pmm_inv s1" and rest1: "same_rest s s1"
    using a(6) by (auto simp: vmm_step_def vmm_ok_def)
  let ?p = "page_addr q"
  define e where "e = PTE_CREATE ?p (flags OR PAGE_PRESENT)"
  define s' where "s' = set_entry (PHYS_TO_VIRT s1 t) i e s1"
  have e: "e AND PAGE_PRESENT \<noteq> 0" "PTE_GET_ADDR e = ?p"
    using pte_create [of ?p flags] fl page_addr_frame(1) [OF q52] aligned_mask [of ?p]
    by (simp_all add: e_def)
  have vt: "view_of s t i = None" using t u by (simp add: xlate_def walk_snoc)
  have tf1: "t \<in> frames s1" using tf(1) F(1) by auto
  have V: "PHYS_TO_VIRT s1 = PHYS_TO_VIRT s" "VIRT_TO_PHYS s1 = VIRT_TO_PHYS s" "struct_frames s1 = struct_frames s"
    using same_rest_vmm [OF rest1] by auto
  have res: "vmm_get_next_level (PHYS_TO_VIRT s t) i True flags s = (PHYS_TO_VIRT s ?p, s')"
  proof -
    have "cell s t i AND PAGE_PRESENT = 0" using vt by (auto simp: view_of_def split: if_splits)
    moreover have "cell_at s1 (PHYS_TO_VIRT s1 ?p) = unat ?p" by (simp add: cell_at_def)
    ultimately show ?thesis
      unfolding vmm_get_next_level_def get_entry_cell [OF inv tf(1) gp(2)] a(1)
      using a(2) clear_again [OF a(5) q52] V(1)
      by (simp add: Let_def s'_def e_def)
  qed
  note G = set_entry_frames [OF inv1 tf1 gp(2), where v = e, folded s'_def]
  have r: "roots s1 S = roots s S" "space_pml4 s1 sp = space_pml4 s sp"
    using a(6) sp by (auto simp: vmm_step_def roots_def)
  have T1: "at_table (view_of s1) I (roots s1 S) (frames s - struct_frames s S) (space_pml4 s1 sp) path t"
    and v1: "view_of s1 t i = None" and vp: "\<forall>j < 512. view_of s1 ?p j = None"
  proof -
    have ag: "agree (space_tables I S s) (view_of s) (view_of s1)"
      by (rule agree_cells [OF ok F(3)])
    have "xlate s1 sp path = Some t" using x1 [OF sp gp(1)] path(2) t by simp
    moreover have "tree_ok (view_of s1) I (roots s S) (frames s - struct_frames s S)"
      using tree_ok_agree [OF _ ag [unfolded space_tables_def]] ok by (simp add: vmm_ok_def)
    ultimately show "at_table (view_of s1) I (roots s1 S) (frames s - struct_frames s S) (space_pml4 s1 sp) path t"
      using T(1) path(2) by (simp add: at_table_def r xlate_def)
    show "view_of s1 t i = None" using ag tf(3) vt gp(2) by (simp add: agree_def)
    show "\<forall>j < 512. view_of s1 ?p j = None" using F(4) by (simp add: view_of_def)
  qed
  let ?w = "set_link (view_of s1) t i (Some ?p)"
  have pU: "?p \<notin> frames s - struct_frames s S" using F(2) by simp
  note Tr = tree_ok_fresh [OF T1 pU vp path(2) v1 path(1)]
  note Wk = walk_fresh [OF T1 pU vp path(2) v1]
  have view: "view_of s' f j = ?w f j" if "f \<in> frames s1" "j < 512" for f j
    unfolding s'_def using view_set_entry [OF inv1 tf1 gp(2) frames_below(2) [OF inv1 that(1)] that(2), of e] e
    by simp
  have sub: "insert ?p (frames s - struct_frames s S) \<subseteq> frames s1 - struct_frames s1 S"
    using F(1,2) ok V by (auto simp: vmm_ok_def)
  have "tables ?w I (roots s1 S) \<subseteq> frames s1" using Tr(1) sub unfolding tree_ok_def by blast
  then have ag': "agree (tables ?w I (roots s1 S)) ?w (view_of s')"
    unfolding agree_def by (intro ballI allI impI sym [OF view]) auto
  have ok': "vmm_ok I S s'" "\<And>sp. sp \<in> S \<Longrightarrow> space_pml4 s' sp = space_pml4 s1 sp" "roots s' S = roots s1 S"
  proof -
    have "cell s' f j = cell s1 f j" if "f \<in> struct_frames s1 S" "j < 512" for f j
    proof -
      have "f \<in> frames s1" "f \<noteq> t" using that(1) tf(2) ok1 V(3) by (auto simp: vmm_ok_def)
      then show ?thesis
        unfolding s'_def using cell_set_entry [OF inv1 tf1 gp(2) frames_below(2) [OF inv1] that(2)]
        by simp
    qed
    moreover have "tree_ok (view_of s') I (roots s1 S) (frames s' - struct_frames s1 S)"
      unfolding G(5) by (rule tree_ok_mono [OF tree_ok_agree [OF Tr(1) ag'] sub])
    ultimately show "vmm_ok I S s'" "\<And>sp. sp \<in> S \<Longrightarrow> space_pml4 s' sp = space_pml4 s1 sp" "roots s' S = roots s1 S"
      using vmm_ok_step [OF ok1 G(1,4)] G(2) by blast+
  qed
  have xl: "xlate s' sp' js = (if sp' = sp \<and> js = path @ [i] then Some ?p else xlate s sp' js)"
    if "sp' \<in> S" "good_path I js" "length js \<le> 4" for sp' js
  proof -
    have "space_pml4 s1 sp' = space_pml4 s1 sp \<longleftrightarrow> sp' = sp"
      using ok1 that(1) sp by (auto simp: vmm_ok_def inj_on_def)
    moreover have "xlate s' sp' js = walk ?w (space_pml4 s1 sp') js"
      unfolding xlate_def ok'(2) [OF that(1)]
      by (rule walk_agree [OF ag' _ that(2,3)]) (simp add: roots_def that)
    moreover have "space_pml4 s1 sp' \<in> roots s1 S" using that(1) by (simp add: roots_def)
    ultimately show ?thesis
      using Wk [OF _ that(2,3)] x1 [OF that] by (simp add: xlate_def)
  qed
  have tabs: "space_tables I S s' = insert ?p (space_tables I S s)"
    using tables_agree [OF ag'] Tr(2) ok'(3) tab1 by (simp add: space_tables_def)
  have "page_addr (unat t div 4096) = t"
    using frames_below(2) [OF inv tf(1)] page_addr_inj by metis
  then have out: "mem s' x = mem s1 x" if "page_addr (x div 4096) \<notin> space_tables I S s1" for x
    using that tf(3) tab1 G(6) by metis
  have "vmm_step I S s s'"
    using a(6) \<open>same_rest s s1\<close> ok' G(2,4) tabs a(4,7) same_rest_trans tab1
out
    unfolding vmm_step_def by auto
  then show ?thesis
    using that res xl [OF sp path(1)] path(2) G(2) a(3,7) xl
    by (auto simp: same_xlate_def)
qed

section \<open>Mapping, unmapping and look-up\<close>

lemma next_create:
  assumes ok: "vmm_ok I S s" and sp: "sp \<in> S" and path: "good_path I (path @ [i])" "length path \<le> 2"
    and t: "xlate s sp path = Some t" and fl: "flags AND PAGE_MASK = 0"
  obtains (full) "vmm_get_next_level (PHYS_TO_VIRT s t) i True flags s = (0, s)" "free_pages s = {}"
  | (got) u s' where "vmm_get_next_level (PHYS_TO_VIRT s t) i True flags s = (PHYS_TO_VIRT s' u, s')"
      "PHYS_TO_VIRT s' u \<noteq> 0" "vmm_step I S s s'" "same_xlate I S s s'"
      "xlate s' sp (path @ [i]) = Some u" "card (free_pages s) \<le> Suc (card (free_pages s'))"
proof -
  have nz: "PHYS_TO_VIRT s u = PHYS_TO_VIRT s' u \<and> PHYS_TO_VIRT s' u \<noteq> 0"
    if "vmm_step I S s s'" "xlate s' sp (path @ [i]) = Some u" for s' u
  proof -
    have ok': "vmm_ok I S s'" "same_rest s s'" using that by (auto simp: vmm_step_def)
    have "u \<in> frames s'" using at_table_xlate(2) [OF ok'(1) sp path(1) _ that(2)] path(2) by simp
    then show ?thesis
      using ok' table_virt_nonzero [of s' u] same_rest_vmm(3) [OF ok'(2)] by (auto simp: vmm_ok_def)
  qed
  show ?thesis
  proof (cases "xlate s sp (path @ [i])")
    case (Some u)
    then show ?thesis
      using next_present [OF ok sp path t Some, of True flags] got nz by (metis le_SucI order_refl)
  next
    case None
    show ?thesis
    proof (cases "free_pages s = {}")
      case True
      then show ?thesis using next_absent_none [OF ok sp path t None] full by blast
    next
      case False
      then have "card (free_pages s) \<le> Suc (card (free_pages s - {Min (free_pages s)}))" by simp
      then show ?thesis
        using next_absent [OF ok sp path t None False fl] got nz by metis
    qed
  qed
qed

definition entry_target :: "u64 \<Rightarrow> u64 option" where
  "entry_target e = (if e AND PAGE_PRESENT \<noteq> 0 then Some (PTE_GET_ADDR e) else None)"

lemma set_leaf:
  fixes e :: u64
  assumes ok: "vmm_ok I S s" and sp: "sp \<in> S" and path: "good_path I (path @ [i])" "length path = 3"
    and t: "xlate s sp path = Some t"
  defines "s' \<equiv> set_entry (PHYS_TO_VIRT s t) i e s"
  shows "vmm_step I S s s'" "free_pages s' = free_pages s"
    "\<And>sp' js. sp' \<in> S \<Longrightarrow> good_path I js \<Longrightarrow> length js = 4 \<Longrightarrow>
       xlate s' sp' js = (if sp' = sp \<and> js = path @ [i] then entry_target e else xlate s sp' js)"
proof -
  have inv: "pmm_inv s" using ok by (simp add: vmm_ok_def)
  have gp: "good_path I path" "i < 512" "length path \<le> 3" using path by (auto simp: good_path_snoc)
  note T = at_table_xlate [OF ok sp gp(1,3) t]
  note G = set_entry_frames [OF inv T(2) gp(2), where v = e, folded s'_def]
  let ?w = "set_link (view_of s) t i (entry_target e)"
  note Tr = tree_ok_leaf [OF T(1) path(2), of i "entry_target e"]
  have view: "view_of s' f j = ?w f j" if "f \<in> frames s" "j < 512" for f j
    unfolding s'_def entry_target_def
    by (rule view_set_entry [OF inv T(2) gp(2) frames_below(2) [OF inv that(1)] that(2)])
  have "tables ?w I (roots s S) \<subseteq> frames s" using Tr(1) unfolding tree_ok_def by blast
  then have ag: "agree (tables ?w I (roots s S)) ?w (view_of s')"
    unfolding agree_def by (intro ballI allI impI sym [OF view]) auto
  have str: "cell s' f j = cell s f j" if "f \<in> struct_frames s S" "j < 512" for f j
  proof -
    have "f \<in> frames s" "f \<noteq> t" using that(1) T(3) ok by (auto simp: vmm_ok_def)
    then show ?thesis
      unfolding s'_def using cell_set_entry [OF inv T(2) gp(2) frames_below(2) [OF inv] that(2)] by simp
  qed
  have "tree_ok (view_of s') I (roots s S) (frames s' - struct_frames s S)"
    unfolding G(5) by (rule tree_ok_agree [OF Tr(1) ag])
  then have ok': "vmm_ok I S s'" "\<And>sp. sp \<in> S \<Longrightarrow> space_pml4 s' sp = space_pml4 s sp" "roots s' S = roots s S"
    using vmm_ok_step [OF ok G(1,4) _ str] G(2) by blast+
  have "space_tables I S s' = space_tables I S s"
    using tables_agree [OF ag] Tr(2) ok'(3) by (simp add: space_tables_def)
  moreover have "page_addr (unat t div 4096) = t"
    using frames_below(2) [OF inv T(2)] page_addr_inj by metis
  then have "mem s' x = mem s x" if "page_addr (x div 4096) \<notin> space_tables I S s" for x
    using that T(4) G(6) by metis
  ultimately show "vmm_step I S s s'"
    using ok' G(2,4) unfolding vmm_step_def by simp
  show "free_pages s' = free_pages s" by (rule G(2))
  fix sp' js assume js: "sp' \<in> S" "good_path I js" "length js = 4"
  have "space_pml4 s sp' = space_pml4 s sp \<longleftrightarrow> sp' = sp"
    using ok js(1) sp by (auto simp: vmm_ok_def inj_on_def)
  moreover have "xlate s' sp' js = walk ?w (space_pml4 s sp') js"
    unfolding xlate_def ok'(2) [OF js(1)]
    by (rule walk_agree [OF ag _ js(2)]) (simp_all add: roots_def js)
  moreover have "space_pml4 s sp' \<in> roots s S" using js(1) by (simp add: roots_def)
  ultimately show "xlate s' sp' js = (if sp' = sp \<and> js = path @ [i] then entry_target e else xlate s sp' js)"
    using walk_leaf [OF T(1) path(2) _ js(2,3)] by (simp add: xlate_def)
qed

definition vpath :: "u64 \<Rightarrow> nat list" where
  "vpath v = [PML4_INDEX v, PDPT_INDEX v, PD_INDEX v, PT_INDEX v]"

lemma index_mask [simp]:
  "PML4_INDEX (v AND PAGE_MASK) = PML4_INDEX v" "PDPT_INDEX (v AND PAGE_MASK) = PDPT_INDEX v"
  "PD_INDEX (v AND PAGE_MASK) = PD_INDEX v" "PT_INDEX (v AND PAGE_MASK) = PT_INDEX v"
proof -
  have m: "PAGE_MASK = NOT (mask 12)" by (simp add: PAGE_MASK_def mask_eq_exp_minus_1 not_eq_complement)
  have "drop_bit k (v AND PAGE_MASK) = drop_bit k v" if "12 \<le> k" for k
    unfolding m using that by (intro bit_word_eqI) (auto simp: bit_simps dest: bit_imp_le_length)
  then show "PML4_INDEX (v AND PAGE_MASK) = PML4_INDEX v" "PDPT_INDEX (v AND PAGE_MASK) = PDPT_INDEX v"
    "PD_INDEX (v AND PAGE_MASK) = PD_INDEX v" "PT_INDEX (v AND PAGE_MASK) = PT_INDEX v"
    by (simp_all add: PML4_INDEX_def PDPT_INDEX_def PD_INDEX_def PT_INDEX_def)
qed

lemma index_below: "PML4_INDEX v < 512" "PDPT_INDEX v < 512" "PD_INDEX v < 512" "PT_INDEX v < 512"
proof -
  have "unat (w AND 0x1FF) < 512" for w :: u64
  proof -
    have "w AND 0x1FF \<le> 0x1FF" by (rule word_and_le1)
    then show ?thesis by (simp add: word_le_nat_alt)
  qed
  then show "PML4_INDEX v < 512" "PDPT_INDEX v < 512" "PD_INDEX v < 512" "PT_INDEX v < 512"
    by (simp_all add: PML4_INDEX_def PDPT_INDEX_def PD_INDEX_def PT_INDEX_def)
qed

lemma vpath_mask [simp]: "vpath (v AND PAGE_MASK) = vpath v"
  by (simp add: vpath_def)

lemma good_vpath: "good_path I (vpath v) \<longleftrightarrow> PML4_INDEX v \<in> I"
  by (simp add: good_path_def vpath_def index_below)

lemma xlate_root: "xlate s sp [] = Some (space_pml4 s sp)"
  by (simp add: xlate_def)

lemma root_virt: "vmm_ok I S s \<Longrightarrow> sp \<in> S \<Longrightarrow> space_pml4_virt s sp = PHYS_TO_VIRT s (space_pml4 s sp)"
  by (simp add: vmm_ok_def)


text \<open>
  \<open>mapped s t sp v x\<close>: \<open>t\<close> translates the page of \<open>v\<close> in \<open>sp\<close> to \<open>x\<close> and everything
  else as \<open>s\<close> does.
\<close>

definition xlate_upd ::
    "nat set \<Rightarrow> space_ptr set \<Rightarrow> 'a vmm_scheme \<Rightarrow> 'a vmm_scheme \<Rightarrow> space_ptr \<Rightarrow> u64 \<Rightarrow> u64 option \<Rightarrow> bool" where
  "xlate_upd I S s t sp v x \<longleftrightarrow>
     (\<forall>sp' \<in> S. \<forall>path. good_path I path \<and> length path = 4 \<longrightarrow>
        xlate t sp' path = (if sp' = sp \<and> path = vpath v then x else xlate s sp' path))"

lemma xlate_upd_same: "same_xlate I S s t \<Longrightarrow> xlate_upd I S t u sp v x \<Longrightarrow> xlate_upd I S s u sp v x"
  by (simp add: same_xlate_def xlate_upd_def)

lemma vmm_map_cases:
  assumes ok: "vmm_ok I S s" and sp: "sp \<in> S" and v: "PML4_INDEX virt \<in> I"
  obtains (full) t where "vmm_map sp virt phys flags s = (False, t)" "vmm_step I S s t"
      "same_xlate I S s t" "free_pages t = {}" "card (free_pages s) \<le> 2"
  | (mapped) t where "vmm_map sp virt phys flags s = (True, t)" "vmm_step I S s t"
      "xlate_upd I S s t sp virt (Some ((phys AND PAGE_MASK) OR (flags AND PAGE_MASK)))"
      "card (free_pages s) \<le> card (free_pages t) + 3"
proof -
  note idx = vpath_def index_below v good_path_def
  let ?p4 = "PML4_INDEX virt" and ?p3 = "PDPT_INDEX virt" and ?p2 = "PD_INDEX virt" and ?p1 = "PT_INDEX virt"
  let ?fl = "PAGE_WRITE OR PAGE_USER"
  have fl: "?fl AND PAGE_MASK = 0" by (simp add: PAGE_MASK_def)
  have inv: "pmm_inv s" using ok by (simp add: vmm_ok_def)
  have g: "good_path I ([] @ [?p4])" "good_path I ([?p4] @ [?p3])" "good_path I ([?p4, ?p3] @ [?p2])"
    "good_path I ([?p4, ?p3, ?p2] @ [?p1])" by (simp_all add: idx)
  have l: "length ([] :: nat list) \<le> 2" "length [?p4] \<le> 2" "length [?p4, ?p3] \<le> 2" by simp_all
  note m = vmm_map_def Let_def index_mask root_virt [OF ok sp]
  show ?thesis
  proof (cases rule: next_create [OF ok sp g(1) l(1) xlate_root fl])
    case 1
    then show ?thesis using ok by (intro that(1) [of s]) (simp_all add: m vmm_step_refl)
  next
    case (2 t3 s1)
    note A = 2
    have ok1: "vmm_ok I S s1" using A by (simp add: vmm_step_def)
    have x1: "xlate s1 sp [?p4] = Some t3" using A by simp
    show ?thesis
    proof (cases rule: next_create [OF ok1 sp g(2) l(2) x1 fl])
      case 1
      then show ?thesis using A by (intro that(1) [of s1]) (simp_all add: m)
    next
      case (2 t2 s2)
      note B = 2
      have ok2: "vmm_ok I S s2" using B by (simp add: vmm_step_def)
      have x2: "xlate s2 sp [?p4, ?p3] = Some t2" using B by simp
      have st2: "vmm_step I S s s2" "same_xlate I S s s2"
        using vmm_step_trans [OF inv A(3) B(3)] same_xlate_trans [OF A(4) B(4)] by auto
      show ?thesis
      proof (cases rule: next_create [OF ok2 sp g(3) l(3) x2 fl])
        case 1
        then show ?thesis using A B st2 by (intro that(1) [of s2]) (simp_all add: m)
      next
        case (2 t1 s3)
        note C = 2
        have ok3: "vmm_ok I S s3" using C by (simp add: vmm_step_def)
        have x3: "xlate s3 sp [?p4, ?p3, ?p2] = Some t1" using C by simp
        define e where "e = PTE_CREATE (phys AND PAGE_MASK) (flags OR PAGE_PRESENT)"
        define t where "t = set_entry (PHYS_TO_VIRT s3 t1) ?p1 e s3"
        note L = set_leaf [OF ok3 sp g(4) _ x3, where e = e, folded t_def]
        have "entry_target e = Some ((phys AND PAGE_MASK) OR (flags AND PAGE_MASK))"
          using pte_create [of "phys AND PAGE_MASK" flags] by (simp add: entry_target_def e_def)
        then have "xlate_upd I S s3 t sp virt (Some ((phys AND PAGE_MASK) OR (flags AND PAGE_MASK)))"
          using L(3) by (simp add: xlate_upd_def vpath_def)
        moreover have "vmm_step I S s t"
          using vmm_step_trans [OF inv vmm_step_trans [OF inv st2(1) C(3)] L(1)] by simp
        moreover have "same_xlate I S s s3" using same_xlate_trans [OF st2(2) C(4)] .
        moreover have "vmm_map sp virt phys flags s = (True, t)"
          using A(1,2) B(1,2) C(1,2) by (simp add: m t_def e_def)
        moreover have "card (free_pages s) \<le> card (free_pages t) + 3"
          using A(6) B(6) C(6) L(2) by simp
        ultimately show ?thesis by (metis that(2) xlate_upd_same)
      qed
    qed
  qed
qed

lemma next_lookup:
  assumes ok: "vmm_ok I S s" and sp: "sp \<in> S" and path: "good_path I (path @ [i])" "length path \<le> 2"
    and t: "xlate s sp path = Some t"
  shows "vmm_get_next_level (PHYS_TO_VIRT s t) i False 0 s
           = (case xlate s sp (path @ [i]) of None \<Rightarrow> 0 | Some u \<Rightarrow> PHYS_TO_VIRT s u, s)"
    "xlate s sp (path @ [i]) = Some u \<Longrightarrow> PHYS_TO_VIRT s u \<noteq> 0"
proof -
  show "PHYS_TO_VIRT s u \<noteq> 0" if "xlate s sp (path @ [i]) = Some u" for u
  proof -
    have "u \<in> frames s" using at_table_xlate(2) [OF ok sp path(1) _ that] path(2) by simp
    then show ?thesis using ok table_virt_nonzero by (auto simp: vmm_ok_def)
  qed
  show "vmm_get_next_level (PHYS_TO_VIRT s t) i False 0 s
           = (case xlate s sp (path @ [i]) of None \<Rightarrow> 0 | Some u \<Rightarrow> PHYS_TO_VIRT s u, s)"
  proof (cases "xlate s sp (path @ [i])")
    case None
    then show ?thesis using next_absent_none [OF ok sp path t None, of False] by simp
  next
    case (Some u)
    then show ?thesis using next_present [OF ok sp path t Some, of False 0] by (metis option.simps(5))
  qed
qed

text \<open>The walk of \<open>vmm_unmap\<close> and \<open>vmm_get_physical\<close> finds the last-level table or stops.\<close>

lemma xlate_snoc: "xlate s sp (path @ [i]) = Option.bind (xlate s sp path) (\<lambda>t. view_of s t i)"
  by (simp add: xlate_def walk_snoc)

lemma walk_lookup:
  assumes ok: "vmm_ok I S s" and sp: "sp \<in> S" and v: "PML4_INDEX v \<in> I"
  obtains (no_pdpt) "xlate s sp (vpath v) = None"
      "vmm_get_next_level (space_pml4_virt s sp) (PML4_INDEX v) False 0 s = (0, s)"
  | (no_pd) t3 where "xlate s sp (vpath v) = None" "t3 \<noteq> 0"
      "vmm_get_next_level (space_pml4_virt s sp) (PML4_INDEX v) False 0 s = (t3, s)"
      "vmm_get_next_level t3 (PDPT_INDEX v) False 0 s = (0, s)"
  | (no_pt) t3 t2 where "xlate s sp (vpath v) = None" "t3 \<noteq> 0" "t2 \<noteq> 0"
      "vmm_get_next_level (space_pml4_virt s sp) (PML4_INDEX v) False 0 s = (t3, s)"
      "vmm_get_next_level t3 (PDPT_INDEX v) False 0 s = (t2, s)"
      "vmm_get_next_level t2 (PD_INDEX v) False 0 s = (0, s)"
  | (table) t3 t2 pt where "xlate s sp [PML4_INDEX v, PDPT_INDEX v, PD_INDEX v] = Some pt"
      "t3 \<noteq> 0" "t2 \<noteq> 0" "PHYS_TO_VIRT s pt \<noteq> 0"
      "vmm_get_next_level (space_pml4_virt s sp) (PML4_INDEX v) False 0 s = (t3, s)"
      "vmm_get_next_level t3 (PDPT_INDEX v) False 0 s = (t2, s)"
      "vmm_get_next_level t2 (PD_INDEX v) False 0 s = (PHYS_TO_VIRT s pt, s)"
proof -
  let ?p4 = "PML4_INDEX v" and ?p3 = "PDPT_INDEX v" and ?p2 = "PD_INDEX v" and ?p1 = "PT_INDEX v"
  note rv = root_virt [OF ok sp]
  have g: "good_path I ([] @ [?p4])" "good_path I ([?p4] @ [?p3])" "good_path I ([?p4, ?p3] @ [?p2])"
    using v by (simp_all add: good_path_def index_below)
  note n1 = next_lookup [OF ok sp g(1) _ xlate_root, simplified]
  have vp: "vpath v = [?p4, ?p3, ?p2] @ [?p1]" "[?p4, ?p3, ?p2] = [?p4, ?p3] @ [?p2]" "[?p4, ?p3] = [?p4] @ [?p3]"
    by (simp_all add: vpath_def)
  show ?thesis
  proof (cases "xlate s sp [?p4]")
    case None
    then have "xlate s sp (vpath v) = None" by (simp only: vp xlate_snoc) simp
    then show ?thesis using no_pdpt n1 None rv by simp
  next
    case (Some t3)
    note n2 = next_lookup [OF ok sp g(2) _ Some, simplified]
    note S1 = Some
    show ?thesis
    proof (cases "xlate s sp [?p4, ?p3]")
      case None
      then have "xlate s sp (vpath v) = None" by (simp only: vp(1,2) xlate_snoc) simp
      then show ?thesis using no_pd n1 n2 None S1 rv by simp
    next
      case (Some t2)
      note n3 = next_lookup [OF ok sp g(3) _ Some, simplified]
      note S2 = Some
      show ?thesis
      proof (cases "xlate s sp [?p4, ?p3, ?p2]")
        case None
        then have "xlate s sp (vpath v) = None" by (simp only: vp(1) xlate_snoc) simp
        then show ?thesis using no_pt n1 n2 n3 None S1 S2 rv by simp
      next
        case (Some t1)
        then show ?thesis using table n1 n2 n3 S1 S2 rv by simp
      qed
    qed
  qed
qed

lemma get_entry_leaf:
  assumes "vmm_ok I S s" "sp \<in> S" "PML4_INDEX v \<in> I"
    "xlate s sp [PML4_INDEX v, PDPT_INDEX v, PD_INDEX v] = Some pt"
  shows "xlate s sp (vpath v) = entry_target (get_entry s (PHYS_TO_VIRT s pt) (PT_INDEX v))"
proof -
  have "good_path I [PML4_INDEX v, PDPT_INDEX v, PD_INDEX v]"
    using assms(3) by (simp add: good_path_def index_below)
  then have "pt \<in> frames s" using at_table_xlate(2) [OF assms(1,2) _ _ assms(4)] by simp
  then have e: "get_entry s (PHYS_TO_VIRT s pt) (PT_INDEX v) = cell s pt (PT_INDEX v)"
    using assms(1) by (intro get_entry_cell) (auto simp: vmm_ok_def index_below)
  have "vpath v = [PML4_INDEX v, PDPT_INDEX v, PD_INDEX v] @ [PT_INDEX v]" by (simp add: vpath_def)
  then show ?thesis
    unfolding e by (simp only: xlate_snoc assms(4)) (simp add: entry_target_def view_of_def)
qed

lemma vmm_get_physical_eq:
  assumes "vmm_ok I S s" "sp \<in> S" "PML4_INDEX virt \<in> I"
  shows "vmm_get_physical sp virt s
    = ((case xlate s sp (vpath virt) of None \<Rightarrow> 0 | Some f \<Rightarrow> f OR (virt AND NOT PAGE_MASK)), s)"
proof (cases rule: walk_lookup [OF assms])
  case (4 t3 t2 pt)
  then show ?thesis
    using get_entry_leaf [OF assms 4(1)] by (simp add: vmm_get_physical_def entry_target_def)
qed (simp_all add: vmm_get_physical_def)

lemma vmm_unmap_post:
  assumes "vmm_ok I S s" "sp \<in> S" "PML4_INDEX virt \<in> I"
  shows "vmm_step I S s (vmm_unmap sp virt s)" "free_pages (vmm_unmap sp virt s) = free_pages s"
    "xlate_upd I S s (vmm_unmap sp virt s) sp virt None"
proof -
  have "vmm_step I S s (vmm_unmap sp virt s) \<and> free_pages (vmm_unmap sp virt s) = free_pages s
    \<and> xlate_upd I S s (vmm_unmap sp virt s) sp virt None"
  proof (cases rule: walk_lookup [OF assms])
    case (4 t3 t2 pt)
    then have "vmm_unmap sp virt s = set_entry (PHYS_TO_VIRT s pt) (PT_INDEX virt) 0 s"
      by (simp add: vmm_unmap_def index_mask)
    moreover have g: "good_path I ([PML4_INDEX virt, PDPT_INDEX virt, PD_INDEX virt] @ [PT_INDEX virt])"
      using assms(3) by (simp add: good_path_def index_below)
    ultimately show ?thesis
      using set_leaf [OF assms(1,2) g _ 4(1), where e = 0]
      by (simp add: xlate_upd_def entry_target_def vpath_def)
  qed (use assms(1) in \<open>auto simp: vmm_unmap_def vmm_step_refl xlate_upd_def Let_def\<close>)
  then show "vmm_step I S s (vmm_unmap sp virt s)" "free_pages (vmm_unmap sp virt s) = free_pages s"
    "xlate_upd I S s (vmm_unmap sp virt s) sp virt None" by auto
qed

section \<open>Ranges of pages\<close>

definition vpn :: "u64 \<Rightarrow> nat" where
  "vpn v = unat v div PAGE_SIZE mod 2 ^ 36"

lemma index_digit: "unat (drop_bit k (v::u64) AND 0x1FF) = unat v div 2 ^ k mod 512"
proof -
  have "(0x1FF::u64) = mask 9" by (simp add: mask_eq_exp_minus_1)
  then have "drop_bit k v AND 0x1FF = take_bit 9 (drop_bit k v)" by (simp only: take_bit_eq_mask)
  then have "unat (drop_bit k v AND 0x1FF) = take_bit 9 (drop_bit k (unat v))"
    by (simp only: unsigned_take_bit_eq unsigned_drop_bit_eq) (simp add: take_bit_nat_eq_self [OF unat_lt64])
  then show ?thesis by (simp add: take_bit_eq_mod drop_bit_eq_div)
qed

lemma digits: "(x::nat) mod 2 ^ 36 = x mod 512 + 512 * (x div 512 mod 512 + 512 * (x div 512 div 512 mod 512 + 512 * (x div 512 div 512 div 512 mod 512)))"
proof -
  have "(2::nat) ^ 36 = 512 * (512 * (512 * 512))" by simp
  then show ?thesis by (simp only: mod_mult2_eq) (simp add: algebra_simps)
qed

lemma vpath_vpn: "vpath v = vpath w \<longleftrightarrow> vpn v = vpn w"
proof -
  have e: "PT_INDEX x = unat x div 4096 mod 512" "PD_INDEX x = unat x div 4096 div 512 mod 512"
    "PDPT_INDEX x = unat x div 4096 div 512 div 512 mod 512"
    "PML4_INDEX x = unat x div 4096 div 512 div 512 div 512 mod 512" for x
    by (simp_all add: PT_INDEX_def PD_INDEX_def PDPT_INDEX_def PML4_INDEX_def index_digit div_mult2_eq [symmetric])
  have "vpn v = vpn w" if "vpath v = vpath w"
    using that unfolding vpn_def digits vpath_def e by simp
  moreover have "vpath v = vpath w" if "vpn v = vpn w"
  proof -
    have "take_bit 9 (drop_bit k (take_bit 36 y)) = take_bit 9 (drop_bit k y)" if "k + 9 \<le> 36" for k and y :: nat
      using that by (intro bit_eqI) (auto simp: bit_simps)
    then have k: "(y mod 2 ^ 36) div 2 ^ k mod 512 = y div 2 ^ k mod 512" if "k + 9 \<le> 36" for k and y :: nat
      using that by (simp add: take_bit_eq_mod drop_bit_eq_div)
    have q: "unat v div 4096 mod 2 ^ 36 = unat w div 4096 mod 2 ^ 36" using that by (simp only: vpn_def)
    have "unat v div 4096 div 2 ^ k mod 512 = unat w div 4096 div 2 ^ k mod 512" if "k + 9 \<le> 36" for k
      by (rule trans [OF k [OF that, symmetric]]) (simp only: q k [OF that])
    note n = this [of 0, simplified] this [of 9, simplified] this [of 18, simplified] this [of 27, simplified]
    show ?thesis unfolding vpath_def e using n by (simp add: div_mult2_eq [symmetric])
  qed
  ultimately show ?thesis by blast
qed

lemma vpn_page:
  "vpn (v + of_nat j * of_nat PAGE_SIZE) = (vpn v + j) mod 2 ^ 36"
proof -
  have "unat (v + of_nat j * of_nat PAGE_SIZE) = (unat v + j * 4096) mod 2 ^ 64"
    by (simp add: unat_word_ariths unat_of_nat mod_simps)
  moreover have "((x + j * 4096) mod 2 ^ 64) div 4096 = (x div 4096 + j) mod 2 ^ 52" for x :: nat
  proof -
    have "(2::nat) ^ 64 = 4096 * 2 ^ 52" by simp
    then have "(x + j * 4096) mod 2 ^ 64 = 4096 * ((x + j * 4096) div 4096 mod 2 ^ 52) + (x + j * 4096) mod 4096"
      by (simp only: mod_mult2_eq)
    then show ?thesis by (simp add: add.commute)
  qed
  moreover have "y mod 2 ^ 52 mod 2 ^ 36 = y mod 2 ^ 36" for y :: nat
    by (rule mod_mod_cancel) simp
  ultimately show ?thesis unfolding vpn_def by (simp add: mod_simps)
qed

lemma mod_add_inj_le:
  assumes "(a + i) mod N = (a + j) mod N" "j < N" "i \<le> (j::nat)"
  shows "i = j"
proof -
  have "N dvd (a + j) - (a + i)"
    using assms(1,3) mod_eq_dvd_iff_nat [of "a + i" "a + j" N] by simp
  then have "N dvd j - i" by simp
  with assms(2,3) show ?thesis by (metis dvd_imp_le le_antisym less_imp_diff_less not_le diff_is_0_eq neq0_conv)
qed

lemma mod_add_inj: "(a + i) mod N = (a + j) mod N \<Longrightarrow> i < N \<Longrightarrow> j < N \<Longrightarrow> i = (j::nat)"
  using mod_add_inj_le [of a i N j] mod_add_inj_le [of a j N i] by (cases "i \<le> j") auto

lemma vpath_page_inj:
  assumes "i < 2 ^ 36" "j < 2 ^ 36"
    "vpath (v + of_nat i * of_nat PAGE_SIZE) = vpath (v + of_nat j * of_nat PAGE_SIZE)"
  shows "i = j"
proof (rule mod_add_inj)
  show "(vpn v + i) mod 2 ^ 36 = (vpn v + j) mod 2 ^ 36"
    using assms(3) by (simp only: vpath_vpn vpn_page)
qed (use assms in auto)

definition nth_page :: "u64 \<Rightarrow> nat \<Rightarrow> u64" where
  "nth_page v j = v + of_nat j * of_nat PAGE_SIZE"

lemma nth_page_0 [simp]: "nth_page v 0 = v"
  by (simp add: nth_page_def)

lemma nth_page_Suc: "nth_page v (Suc j) = nth_page v j + of_nat PAGE_SIZE"
  by (simp add: nth_page_def algebra_simps)

lemma nth_page_inj: "i < 2 ^ 36 \<Longrightarrow> j < 2 ^ 36 \<Longrightarrow> vpath (nth_page v i) = vpath (nth_page v j) \<Longrightarrow> i = j"
  unfolding nth_page_def by (rule vpath_page_inj)

definition range_paths :: "u64 \<Rightarrow> nat \<Rightarrow> nat \<Rightarrow> nat list set" where
  "range_paths v i n = (\<lambda>j. vpath (nth_page v j)) ` {i..<n}"

text \<open>Translations outside a set of pages of one space stay as they were.\<close>

definition xlate_off ::
    "nat set \<Rightarrow> space_ptr set \<Rightarrow> 'a vmm_scheme \<Rightarrow> 'a vmm_scheme \<Rightarrow> space_ptr \<Rightarrow> nat list set \<Rightarrow> bool" where
  "xlate_off I S s t sp P \<longleftrightarrow>
     (\<forall>sp' \<in> S. \<forall>path. good_path I path \<and> length path = 4 \<and> \<not> (sp' = sp \<and> path \<in> P) \<longrightarrow>
        xlate t sp' path = xlate s sp' path)"

lemma vpath_length [simp]: "length (vpath v) = 4"
  by (simp add: vpath_def)

lemma unmap_list:
  assumes "vmm_ok I S s" "sp \<in> S" "\<forall>v \<in> set vs. PML4_INDEX v \<in> I"
  shows "vmm_step I S s (fold (vmm_unmap sp) vs s) \<and> free_pages (fold (vmm_unmap sp) vs s) = free_pages s
    \<and> (\<forall>v \<in> set vs. xlate (fold (vmm_unmap sp) vs s) sp (vpath v) = None)
    \<and> xlate_off I S s (fold (vmm_unmap sp) vs s) sp (vpath ` set vs)"
  using assms
proof (induction vs arbitrary: s)
  case Nil
  then show ?case by (simp add: vmm_step_refl xlate_off_def)
next
  case (Cons v vs)
  define u where "u = vmm_unmap sp v s"
  have U: "vmm_step I S s u" "free_pages u = free_pages s" "xlate_upd I S s u sp v None"
    using vmm_unmap_post [OF Cons.prems(1,2), of v] Cons.prems(3) by (auto simp: u_def)
  have "vmm_ok I S u" "pmm_inv s" using U(1) Cons.prems(1) by (auto simp: vmm_step_def vmm_ok_def)
  then have IH: "vmm_step I S u (fold (vmm_unmap sp) vs u)" "free_pages (fold (vmm_unmap sp) vs u) = free_pages u"
    "\<forall>v \<in> set vs. xlate (fold (vmm_unmap sp) vs u) sp (vpath v) = None"
    "xlate_off I S u (fold (vmm_unmap sp) vs u) sp (vpath ` set vs)"
    using Cons.IH [of u] Cons.prems by auto
  have "xlate (fold (vmm_unmap sp) vs u) sp (vpath v) = None"
  proof (cases "vpath v \<in> vpath ` set vs")
    case True
    with IH(3) show ?thesis by auto
  next
    case False
    moreover have "good_path I (vpath v)" using Cons.prems(3) by (simp add: good_vpath)
    ultimately show ?thesis
      using IH(4) U(3) Cons.prems(2) by (simp add: xlate_off_def xlate_upd_def)
  qed
  moreover have "xlate_off I S s (fold (vmm_unmap sp) vs u) sp (vpath ` set (v # vs))"
    using IH(4) U(3) by (auto simp: xlate_off_def xlate_upd_def)
  ultimately show ?case
    using vmm_step_trans [OF \<open>pmm_inv s\<close> U(1) IH(1)] IH(2,3) U(2) by (simp add: u_def [symmetric])
qed

lemma vmm_unmap_range_fold: "vmm_unmap_range sp v n s = fold (vmm_unmap sp) (map (nth_page v) [0..<n]) s"
proof (induction n arbitrary: v s)
  case (Suc n)
  have "map (nth_page v) [0..<Suc n] = v # map (nth_page (v + of_nat PAGE_SIZE)) [0..<n]"
    by (simp add: map_upt_Suc nth_page_def algebra_simps del: upt_Suc)
  with Suc show ?case by simp
qed simp

lemma map_rollback_fold: "map_rollback sp v n s = fold (vmm_unmap sp) (map (nth_page v) [0..<n]) s"
  by (simp add: map_rollback_def fold_map nth_page_def comp_def)

lemma unmap_range_post:
  assumes "vmm_ok I S s" "sp \<in> S" "\<forall>j < n. PML4_INDEX (nth_page v j) \<in> I"
  defines "t \<equiv> fold (vmm_unmap sp) (map (nth_page v) [0..<n]) s"
  shows "vmm_step I S s t" "free_pages t = free_pages s"
    "\<And>j. j < n \<Longrightarrow> xlate t sp (vpath (nth_page v j)) = None"
    "xlate_off I S s t sp (range_paths v 0 n)"
proof -
  have "vpath ` set (map (nth_page v) [0..<n]) = range_paths v 0 n"
    by (auto simp: range_paths_def)
  then show "vmm_step I S s t" "free_pages t = free_pages s"
    "\<And>j. j < n \<Longrightarrow> xlate t sp (vpath (nth_page v j)) = None"
    "xlate_off I S s t sp (range_paths v 0 n)"
    using unmap_list [OF assms(1,2), of "map (nth_page v) [0..<n]"] assms(3) by (auto simp: t_def)
qed

text \<open>The two outcomes of a range: all pages \<open>i..m-1\<close> mapped, or the first \<open>k\<close> pages unmapped.\<close>

definition range_mapped ::
    "nat set \<Rightarrow> space_ptr set \<Rightarrow> 'a vmm_scheme \<Rightarrow> 'a vmm_scheme \<Rightarrow> space_ptr \<Rightarrow> u64 \<Rightarrow> u64 \<Rightarrow> nat \<Rightarrow> nat \<Rightarrow> bool" where
  "range_mapped I S s t sp virt phys i m \<longleftrightarrow>
     vmm_step I S s t \<and> card (free_pages s) \<le> card (free_pages t) + 3 * (m - i)
     \<and> (\<forall>j \<in> {i..<m}. xlate t sp (vpath (nth_page virt j)) = Some (nth_page phys j AND PAGE_MASK))
     \<and> xlate_off I S s t sp (range_paths virt i m)"

definition range_undone ::
    "nat set \<Rightarrow> space_ptr set \<Rightarrow> 'a vmm_scheme \<Rightarrow> 'a vmm_scheme \<Rightarrow> space_ptr \<Rightarrow> u64 \<Rightarrow> nat \<Rightarrow> bool" where
  "range_undone I S s t sp virt k \<longleftrightarrow>
     vmm_step I S s t \<and> free_pages t = {}
     \<and> (\<forall>j < k. xlate t sp (vpath (nth_page virt j)) = None)
     \<and> xlate_off I S s t sp (range_paths virt 0 k)"

lemma range_paths_Cons: "i < m \<Longrightarrow> range_paths v i m = insert (vpath (nth_page v i)) (range_paths v (Suc i) m)"
  by (auto simp: range_paths_def image_iff Bex_def) (metis Suc_leI le_neq_implies_less)

lemma range_mapped_step:
  assumes "vmm_ok I S s" "sp \<in> S" "PML4_INDEX (nth_page virt i) \<in> I" "i < m" "m \<le> 2 ^ 36"
    and 1: "vmm_step I S s u" "card (free_pages s) \<le> card (free_pages u) + 3"
      "xlate_upd I S s u sp (nth_page virt i) (Some (nth_page phys i AND PAGE_MASK))"
    and 2: "range_mapped I S u t sp virt phys (Suc i) m"
  shows "range_mapped I S s t sp virt phys i m"
proof -
  let ?v = "nth_page virt i"
  have inv: "pmm_inv s" using assms(1) by (simp add: vmm_ok_def)
  have "i = j" if "j < m" "vpath ?v = vpath (nth_page virt j)" for j
    using nth_page_inj [OF _ _ that(2)] assms(4,5) that(1) by simp
  then have "vpath ?v \<notin> range_paths virt (Suc i) m" by (force simp: range_paths_def)
  moreover have "good_path I (vpath ?v)" using assms(3) by (simp add: good_vpath)
  ultimately have "xlate t sp (vpath ?v) = Some (nth_page phys i AND PAGE_MASK)"
    using 1(3) 2 assms(2) by (simp add: range_mapped_def xlate_off_def xlate_upd_def)
  moreover have "{i..<m} = insert i {Suc i..<m}" using assms(4) by auto
  moreover have "xlate_off I S s t sp (range_paths virt i m)"
    using 1(3) 2 unfolding range_paths_Cons [OF assms(4)]
    by (auto simp: range_mapped_def xlate_off_def xlate_upd_def)
  ultimately show ?thesis
    using 1(2) 2 vmm_step_trans [OF inv 1(1)] assms(4) by (auto simp: range_mapped_def)
qed

lemma map_range_from_cases:
  assumes "vmm_ok I S s" "sp \<in> S" "\<forall>j < i + n. PML4_INDEX (nth_page virt j) \<in> I" "i + n \<le> 2 ^ 36"
    and fl: "flags AND PAGE_MASK = 0"
  shows "\<exists>ok t. map_range_from sp virt flags (nth_page virt i) (nth_page phys i) i n s = (ok, t)
    \<and> (if ok then range_mapped I S s t sp virt phys i (i + n)
       else card (free_pages s) < 3 * n \<and> (\<exists>k \<in> {i..<i + n}. range_undone I S s t sp virt k))"
  using assms(1-4)
proof (induction n arbitrary: i s)
  case 0
  then show ?case by (intro exI [of _ True] exI [of _ s]) (simp add: vmm_step_refl xlate_off_def range_mapped_def)
next
  case (Suc n)
  let ?v = "nth_page virt i" and ?p = "nth_page phys i"
  have inv: "pmm_inv s" using Suc.prems(1) by (simp add: vmm_ok_def)
  have vI: "PML4_INDEX ?v \<in> I" using Suc.prems(3) by simp
  show ?case
  proof (cases rule: vmm_map_cases [OF Suc.prems(1,2) vI, of ?p flags])
    case (1 u)
    define t where "t = fold (vmm_unmap sp) (map (nth_page virt) [0..<i]) u"
    have "vmm_ok I S u" using 1 by (simp add: vmm_step_def)
    then have T: "vmm_step I S u t" "free_pages t = free_pages u"
      "\<And>j. j < i \<Longrightarrow> xlate t sp (vpath (nth_page virt j)) = None"
      "xlate_off I S u t sp (range_paths virt 0 i)"
      using unmap_range_post [of I S u sp i virt] Suc.prems by (auto simp: t_def)
    have "map_range_from sp virt flags ?v ?p i (Suc n) s = (False, t)"
      using 1(1) by (simp add: map_rollback_fold t_def)
    moreover have "xlate_off I S s t sp (range_paths virt 0 i)"
      using 1(3) T(4) by (simp add: xlate_off_def same_xlate_def)
    ultimately show ?thesis
      using T(2,3) 1(4,5) vmm_step_trans [OF inv 1(2) T(1)] by (auto simp: range_undone_def intro!: bexI [of _ i])
  next
    case (2 u)
    have uok: "vmm_ok I S u" using 2 by (simp add: vmm_step_def)
    have here: "xlate_upd I S s u sp ?v (Some (?p AND PAGE_MASK))" using 2(3) fl by simp
    have step: "map_range_from sp virt flags ?v ?p i (Suc n) s
        = map_range_from sp virt flags (nth_page virt (Suc i)) (nth_page phys (Suc i)) (Suc i) n u"
      using 2(1) by (simp add: nth_page_Suc)
    obtain ok t where t: "map_range_from sp virt flags (nth_page virt (Suc i)) (nth_page phys (Suc i)) (Suc i) n u = (ok, t)"
      "if ok then range_mapped I S u t sp virt phys (Suc i) (Suc i + n)
       else card (free_pages u) < 3 * n \<and> (\<exists>k \<in> {Suc i..<Suc i + n}. range_undone I S u t sp virt k)"
      using Suc.IH [OF uok Suc.prems(2), of "Suc i"] Suc.prems(3,4) by auto
    show ?thesis
    proof (cases ok)
      case True
      then have "range_mapped I S s t sp virt phys i (i + Suc n)"
        using t(2) Suc.prems vI by (intro range_mapped_step [OF _ _ _ _ _ 2(2,4) here]) auto
      with True t(1) show ?thesis unfolding step by auto
    next
      case False
      then obtain k where k: "k \<in> {Suc i..<Suc i + n}" "range_undone I S u t sp virt k" using t(2) by auto
      have "range_undone I S s t sp virt k"
      proof -
        have "vpath ?v \<in> range_paths virt 0 k" using k(1) by (auto simp: range_paths_def)
        then have "xlate_off I S s t sp (range_paths virt 0 k)"
          using k(2) here by (auto simp: range_undone_def xlate_off_def xlate_upd_def)
        moreover have "vmm_step I S s t"
          by (rule vmm_step_trans [OF inv 2(2)]) (use k(2) in \<open>simp add: range_undone_def\<close>)
        ultimately show ?thesis using k(2) by (simp add: range_undone_def)
      qed
      then have "\<exists>k \<in> {i..<i + Suc n}. range_undone I S s t sp virt k" using k(1) by (intro bexI [of _ k]) auto
      moreover have "card (free_pages s) < 3 * Suc n" using False t(2) 2(4) by simp
      ultimately show ?thesis unfolding step using False t(1) by (intro exI [of _ ok] exI [of _ t]) simp
    qed
  qed
qed

section \<open>Releasing frames\<close>

definition frame_pages :: "u64 set \<Rightarrow> nat set" where
  "frame_pages F = (\<lambda>f. unat f div PAGE_SIZE) ` F"

lemma release_cell:
  assumes "release_post s t P" "f \<in> frames s" "i < 512"
  shows "cell t f i = cell s f i"
proof (rule cell_eq)
  fix x assume "x div 4096 = unat f div 4096"
  with assms(2) have "x \<notin> bitmap_bytes s" by (intro not_bitmap_page) (simp add: frames_def)
  with assms(1) show "mem t x = mem s x" by (simp add: release_post_def)
qed (use assms in \<open>auto simp: frames_def\<close>)

lemma release_frames:
  assumes "release_post s t P"
  shows "frames t = {f \<in> frames s. unat f div PAGE_SIZE \<notin> P}"
proof -
  have r: "same_rest s t" "free_pages t = free_pages s \<union> (P \<inter> {..<total_pages s})"
    using assms by (auto simp: release_post_def)
  have "used_set t = used_set s - P"
    using r(2) same_restD(3) [OF r(1)] by (auto simp: used_set_free)
  then show ?thesis by (auto simp: frames_def same_rest_bitmap_pages [OF r(1)])
qed

text \<open>Releasing pages that hold neither a table nor a structure keeps every translation.\<close>

lemma release_keeps:
  assumes ok: "vmm_ok I S s" and r: "release_post s t P" and P: "0 \<notin> P"
    "P \<inter> frame_pages (space_tables I S s \<union> struct_frames s S) = {}"
  shows "vmm_ok I S t"
    "\<And>sp path. sp \<in> S \<Longrightarrow> good_path I path \<Longrightarrow> length path \<le> 4 \<Longrightarrow> xlate t sp path = xlate s sp path"
    "space_tables I S t = space_tables I S s" "\<And>sp. sp \<in> S \<Longrightarrow> space_pml4 t sp = space_pml4 s sp"
proof -
  have t: "pmm_inv t" "same_rest s t" "free_pages t = free_pages s \<union> (P \<inter> {..<total_pages s})"
    using r by (auto simp: release_post_def)
  have inv: "pmm_inv s" and sf: "struct_frames s S \<subseteq> frames s" and tr: "tree_ok (view_of s) I (roots s S) (frames s - struct_frames s S)"
    using ok by (auto simp: vmm_ok_def)
  note v = same_rest_vmm [OF t(2)]
  have sub: "space_tables I S s \<subseteq> frames t - struct_frames s S" "struct_frames s S \<subseteq> frames t"
    using P(2) sf space_tables_frames [OF ok] unfolding release_frames [OF r] frame_pages_def by auto
  have ag: "agree (space_tables I S s) (view_of s) (view_of t)"
    by (rule agree_cells [OF ok]) (rule release_cell [OF r])
  have ld: "space_pml4 t sp = space_pml4 s sp \<and> space_pml4_virt t sp = space_pml4_virt s sp"
    if "sp \<in> S" for sp
  proof (cases sp)
    case (SUser p)
    then have p: "VIRT_TO_PHYS s p \<in> struct_frames s S" using that by (auto simp: struct_frames_def)
    then show ?thesis
      using SUser sf sub(2) inv t(1) v(4) release_cell [OF r, of "VIRT_TO_PHYS s p"]
      by (auto simp: load_cell subset_iff)
  qed (use v in auto)
  then show p: "\<And>sp. sp \<in> S \<Longrightarrow> space_pml4 t sp = space_pml4 s sp" by simp
  then have rt: "roots t S = roots s S" unfolding roots_def by (intro image_cong) auto
  show tb: "space_tables I S t = space_tables I S s"
    unfolding space_tables_def rt by (rule tables_agree [OF ag [unfolded space_tables_def]])
  have "tree_ok (view_of t) I (roots t S) (frames t - struct_frames t S)"
    using tree_ok_agree [OF tr ag [unfolded space_tables_def]] sub(1) tb v(5)
    by (simp add: tree_ok_def rt space_tables_def)
  moreover have "inj_on (space_pml4 t) S"
    using ok p inj_on_cong [of S "space_pml4 t" "space_pml4 s"] by (simp add: vmm_ok_def)
  moreover have "hhdm_ok t" using ok same_restD(3,5) [OF t(2)] by (simp add: vmm_ok_def hhdm_ok_def)
  ultimately show "vmm_ok I S t"
    using ok t sub ld P(1) v unfolding vmm_ok_def by auto
  show "xlate t sp path = xlate s sp path" if "sp \<in> S" "good_path I path" "length path \<le> 4" for sp path
    unfolding xlate_def p [OF that(1)]
    by (rule walk_agree [OF ag [unfolded space_tables_def] _ that(2,3)]) (simp add: roots_def that)
qed

text \<open>Forgetting spaces keeps the invariant for the others.\<close>

lemma vmm_ok_subset:
  assumes "vmm_ok I S s" "S' \<subseteq> S"
  shows "vmm_ok I S' s"
proof -
  have sf: "struct_frames s S' \<subseteq> struct_frames s S" "roots s S' \<subseteq> roots s S"
    using assms(2) by (auto simp: struct_frames_def roots_def)
  then have "tables (view_of s) I (roots s S') \<subseteq> tables (view_of s) I (roots s S)"
    by (auto simp: tables_def)
  moreover have "one_path (view_of s) I (roots s S')"
    using assms(1) sf(2) unfolding vmm_ok_def tree_ok_def one_path_def by (meson subsetD)
  ultimately show ?thesis
    using assms sf unfolding vmm_ok_def tree_ok_def by (auto intro: inj_on_subset)
qed

lemma space_tables_disjoint:
  assumes ok: "vmm_ok I S s" and "sp \<in> S" "S' \<subseteq> S" "sp \<notin> S'"
  shows "space_tables I {sp} s \<inter> space_tables I S' s = {}"
proof (rule equals0I)
  fix t assume "t \<in> space_tables I {sp} s \<inter> space_tables I S' s"
  then obtain "is" sp' js where w: "good_path I is" "length is \<le> 3" "walk (view_of s) (space_pml4 s sp) is = Some t"
    "sp' \<in> S'" "good_path I js" "length js \<le> 3" "walk (view_of s) (space_pml4 s sp') js = Some t"
    by (auto simp: space_tables_def tables_def roots_def)
  have "one_path (view_of s) I (roots s S)" using ok by (simp add: vmm_ok_def tree_ok_def)
  then have "space_pml4 s sp = space_pml4 s sp'"
    using w assms(2,3) by (intro one_pathD(1) [OF _ _ _ w(1,5,2,6,3,7)]) (auto simp: roots_def)
  then have "sp = sp'" using ok assms(2,3) w(4) by (auto simp: vmm_ok_def inj_on_def)
  with w(4) assms(4) show False by simp
qed

section \<open>Destroying an address space\<close>

lemma fold_release:
  assumes "\<And>i u P. i \<in> set is \<Longrightarrow> release_post s u P \<Longrightarrow> release_post s (f i u) (P \<union> A i)"
    "release_post s u P"
  shows "release_post s (fold f is u) (P \<union> (\<Union>i \<in> set is. A i))"
  using assms
proof (induction "is" arbitrary: u P)
  case (Cons i "is")
  have "release_post s (fold f is (f i u)) ((P \<union> A i) \<union> (\<Union>i \<in> set is. A i))"
    by (rule Cons.IH) (use Cons.prems in auto)
  moreover have "(P \<union> A i) \<union> (\<Union>i \<in> set is. A i) = P \<union> (\<Union>i \<in> set (i # is). A i)" by auto
  ultimately show ?case by simp
qed simp

lemma free_frame_post:
  assumes "release_post s u P" "f \<in> frames s"
  shows "release_post s (pmm_free f u) (P \<union> frame_pages {f})"
proof -
  have "pmm_inv u" "bitmap_pages u = bitmap_pages s"
    using assms(1) by (auto simp: release_post_def same_rest_bitmap_pages)
  then have "release_post u (pmm_free f u) {unat f div PAGE_SIZE}"
    using assms(2) by (intro pmm_free_post) (auto simp: frames_def)
  from release_post_trans [OF assms(1) this] show ?thesis by (simp add: frame_pages_def)
qed

lemma release_entry:
  assumes "pmm_inv s" "release_post s u P" "t \<in> frames s" "i < 512"
  shows "get_entry u (PHYS_TO_VIRT s t) i = cell s t i"
proof -
  have "PHYS_TO_VIRT u = PHYS_TO_VIRT s"
    using assms(2) same_rest_vmm(3) by (auto simp: release_post_def)
  then have "get_entry u (PHYS_TO_VIRT s t) i = cell u t i"
    using cell_at_entry [of t i u] frames_below(1) [OF assms(1,3)] assms(4)
    by (simp add: get_entry_def load_def cell_def)
  with release_cell [OF assms(2-4)] show ?thesis by simp
qed

definition links :: "view \<Rightarrow> u64 \<Rightarrow> nat \<Rightarrow> u64 set" where
  "links v t i = {x. v t i = Some x}"

definition subtree1 :: "view \<Rightarrow> u64 \<Rightarrow> nat \<Rightarrow> u64 set" where
  "subtree1 v t i = (\<Union>x \<in> links v t i. insert x (\<Union>j \<in> {0..<512}. links v x j))"

definition subtree2 :: "view \<Rightarrow> u64 \<Rightarrow> nat \<Rightarrow> u64 set" where
  "subtree2 v t i = (\<Union>x \<in> links v t i. insert x (\<Union>j \<in> {0..<512}. subtree1 v x j))"

lemma in_subtree1: "t \<in> subtree1 v r i \<longleftrightarrow> (\<exists>x. v r i = Some x \<and> (t = x \<or> (\<exists>j < 512. v x j = Some t)))"
  unfolding subtree1_def links_def by auto

lemma in_subtree2: "t \<in> subtree2 v r i \<longleftrightarrow> (\<exists>x. v r i = Some x \<and> (t = x \<or> (\<exists>j < 512. t \<in> subtree1 v x j)))"
  unfolding subtree2_def links_def by auto

lemma view_of_iff:
  "view_of s t i = Some x \<longleftrightarrow> cell s t i AND PAGE_PRESENT \<noteq> 0 \<and> PTE_GET_ADDR (cell s t i) = x"
  "view_of s t i = None \<longleftrightarrow> cell s t i AND PAGE_PRESENT = 0"
  by (auto simp: view_of_def)

lemma links_simps: "v t i = None \<Longrightarrow> links v t i = {}" "v t i = Some x \<Longrightarrow> links v t i = {x}"
  by (auto simp: links_def)

lemma frame_pages_simps [simp]:
  "frame_pages {} = {}" "frame_pages (insert f F) = insert (unat f div PAGE_SIZE) (frame_pages F)"
  "frame_pages (F \<union> G) = frame_pages F \<union> frame_pages G"
  "frame_pages (\<Union>i \<in> A. H i) = (\<Union>i \<in> A. frame_pages (H i))"
  by (auto simp: frame_pages_def)

lemma release_virt:
  assumes "release_post s u P"
  shows "PHYS_TO_VIRT u = PHYS_TO_VIRT s" "VIRT_TO_PHYS u (PHYS_TO_VIRT s f) = f"
  using assms same_rest_vmm(3,4) [of s u] by (auto simp: release_post_def)

lemma destroy_pde_post:
  assumes inv: "pmm_inv s" and r: "release_post s u P" and "t \<in> frames s" "i < 512" "links (view_of s) t i \<subseteq> frames s"
  shows "release_post s (destroy_pde (PHYS_TO_VIRT s t) i u) (P \<union> frame_pages (links (view_of s) t i))"
proof (cases "view_of s t i")
  case None
  then have "cell s t i AND PAGE_PRESENT = 0" by (auto simp: view_of_def split: if_splits)
  with None r show ?thesis
    by (simp add: destroy_pde_def release_entry [OF inv r assms(3,4)] links_simps)
next
  case (Some x)
  then have x: "cell s t i AND PAGE_PRESENT \<noteq> 0" "PTE_GET_ADDR (cell s t i) = x" "x \<in> frames s"
    using assms(5) by (auto simp: view_of_def links_def split: if_splits)
  then show ?thesis
    using Some free_frame_post [OF r x(3)]
    by (simp add: destroy_pde_def release_entry [OF inv r assms(3,4)] links_simps release_virt [OF r] Let_def)
qed

lemma destroy_pdpte_post:
  assumes inv: "pmm_inv s" and r: "release_post s u P" and "t \<in> frames s" "i < 512" "subtree1 (view_of s) t i \<subseteq> frames s"
  shows "release_post s (destroy_pdpte (PHYS_TO_VIRT s t) i u) (P \<union> frame_pages (subtree1 (view_of s) t i))"
proof (cases "view_of s t i")
  case None
  then have "cell s t i AND PAGE_PRESENT = 0" by (auto simp: view_of_def split: if_splits)
  with None r show ?thesis
    by (simp add: destroy_pdpte_def release_entry [OF inv r assms(3,4)] subtree1_def links_simps)
next
  case (Some x)
  have sub: "subtree1 (view_of s) t i = insert x (\<Union>j \<in> {0..<512}. links (view_of s) x j)"
    by (simp only: subtree1_def links_simps(2) [where v = "view_of s", OF Some] UN_insert UN_empty Un_empty_right)
  have x: "cell s t i AND PAGE_PRESENT \<noteq> 0" "PTE_GET_ADDR (cell s t i) = x"
    using Some [unfolded view_of_iff] by blast+
  have "x \<in> frames s" "\<And>j. j < 512 \<Longrightarrow> links (view_of s) x j \<subseteq> frames s"
    using assms(5) unfolding sub insert_subset UN_subset_iff by (auto simp only: atLeastLessThan_iff)
  note x = x this
  define w where "w = fold (destroy_pde (PHYS_TO_VIRT s x)) [0..<512] u"
  have w: "release_post s w (P \<union> (\<Union>j \<in> set [0..<512]. frame_pages (links (view_of s) x j)))"
    unfolding w_def using x(3,4) by (intro fold_release destroy_pde_post inv r) auto
  then show ?thesis
    using Some x(1,2) free_frame_post [OF w x(3)]
    by (simp add: destroy_pdpte_def release_entry [OF inv r assms(3,4)] links_simps release_virt [OF r]
        release_virt [OF w] Let_def sub flip: w_def)
qed

lemma destroy_pml4e_post:
  assumes inv: "pmm_inv s" and r: "release_post s u P" and "t \<in> frames s" "i < 512" "subtree2 (view_of s) t i \<subseteq> frames s"
  shows "release_post s (destroy_pml4e (PHYS_TO_VIRT s t) i u) (P \<union> frame_pages (subtree2 (view_of s) t i))"
proof (cases "view_of s t i")
  case None
  then have "cell s t i AND PAGE_PRESENT = 0" by (auto simp: view_of_def split: if_splits)
  with None r show ?thesis
    by (simp add: destroy_pml4e_def release_entry [OF inv r assms(3,4)] subtree2_def links_simps)
next
  case (Some x)
  have sub: "subtree2 (view_of s) t i = insert x (\<Union>j \<in> {0..<512}. subtree1 (view_of s) x j)"
    by (simp only: subtree2_def links_simps(2) [where v = "view_of s", OF Some] UN_insert UN_empty Un_empty_right)
  have x: "cell s t i AND PAGE_PRESENT \<noteq> 0" "PTE_GET_ADDR (cell s t i) = x"
    using Some [unfolded view_of_iff] by blast+
  have "x \<in> frames s" "\<And>j. j < 512 \<Longrightarrow> subtree1 (view_of s) x j \<subseteq> frames s"
    using assms(5) unfolding sub insert_subset UN_subset_iff by (auto simp only: atLeastLessThan_iff)
  note x = x this
  define w where "w = fold (destroy_pdpte (PHYS_TO_VIRT s x)) [0..<512] u"
  have w: "release_post s w (P \<union> (\<Union>j \<in> set [0..<512]. frame_pages (subtree1 (view_of s) x j)))"
    unfolding w_def using x(3,4) by (intro fold_release destroy_pdpte_post inv r) auto
  then show ?thesis
    using Some x(1,2) free_frame_post [OF w x(3)]
    by (simp add: destroy_pml4e_def release_entry [OF inv r assms(3,4)] links_simps release_virt [OF r]
        release_virt [OF w] Let_def sub flip: w_def)
qed

abbreviation user_half :: "nat set" where
  "user_half \<equiv> {..<256}"

lemma user_tables:
  "space_tables user_half {sp} s
     = insert (space_pml4 s sp) (\<Union>i \<in> {0..<256}. subtree2 (view_of s) (space_pml4 s sp) i)"
proof -
  have "t \<in> space_tables user_half {sp} s \<longleftrightarrow>
      t = space_pml4 s sp \<or> (\<exists>i < 256. view_of s (space_pml4 s sp) i = Some t
        \<or> (\<exists>x. view_of s (space_pml4 s sp) i = Some x \<and> (\<exists>j < 512. view_of s x j = Some t
           \<or> (\<exists>y. view_of s x j = Some y \<and> (\<exists>k < 512. view_of s y k = Some t)))))" (is "?L \<longleftrightarrow> ?R") for t
  proof
    assume ?L
    then obtain path where p: "good_path user_half path" "length path \<le> 3"
      "walk (view_of s) (space_pml4 s sp) path = Some t"
      by (auto simp: space_tables_def tables_def roots_def)
    from p(2) consider "path = []" | i where "path = [i]" | i j where "path = [i, j]" | i j k where "path = [i, j, k]"
      by (cases path rule: list.exhaust [case_product list.exhaust]) (auto simp: le_Suc_eq length_Suc_conv numeral_3_eq_3)
    then show ?R
      using p by cases (auto simp: good_path_def split: option.splits)
  next
    have I: "t \<in> space_tables user_half {sp} s" if "good_path user_half path" "length path \<le> 3"
      "walk (view_of s) (space_pml4 s sp) path = Some t" for path
      using that by (auto simp: space_tables_def tables_def roots_def)
    assume ?R
    then consider "t = space_pml4 s sp" | i where "i < 256" "view_of s (space_pml4 s sp) i = Some t"
      | i x j where "i < 256" "view_of s (space_pml4 s sp) i = Some x" "j < 512" "view_of s x j = Some t"
      | i x j y k where "i < 256" "view_of s (space_pml4 s sp) i = Some x" "j < 512" "view_of s x j = Some y"
          "k < 512" "view_of s y k = Some t" by blast
    then show ?L
    proof cases
      case 1 then show ?thesis using I [of "[]"] by simp
    next
      case (2 i) then show ?thesis using I [of "[i]"] by (simp add: good_path_def)
    next
      case (3 i x j) then show ?thesis using I [of "[i, j]"] by (simp add: good_path_def)
    next
      case (4 i x j y k) then show ?thesis using I [of "[i, j, k]"] by (simp add: good_path_def)
    qed
  qed
  then show ?thesis
    unfolding set_eq_iff insert_iff UN_iff in_subtree2 in_subtree1 Bex_def atLeast0LessThan lessThan_iff
    by blast
qed

lemma space_tables_mono: "S' \<subseteq> S \<Longrightarrow> space_tables I S' s \<subseteq> space_tables I S s"
  unfolding space_tables_def tables_def roots_def by blast

lemma load_release:
  assumes "pmm_inv s" "release_post s u P" "VIRT_TO_PHYS s p \<in> frames s"
  shows "load u p = load s p"
proof -
  have u: "PHYS_TO_VIRT s (VIRT_TO_PHYS s p) = p" by simp
  have "load u p = get_entry u (PHYS_TO_VIRT s (VIRT_TO_PHYS s p)) 0"
    unfolding u by (simp add: get_entry_def entry_ptr_def)
  also have "\<dots> = load s p"
    using release_entry [OF assms, of 0] load_cell [OF assms(1,3)] by simp
  finally show ?thesis .
qed

lemma vmm_destroy_post:
  assumes ok: "vmm_ok user_half S s" and sp: "SUser p \<in> S"
  defines "t \<equiv> vmm_destroy_address_space (SUser p) s"
  shows "release_post s t (frame_pages (insert (VIRT_TO_PHYS s p) (space_tables user_half {SUser p} s)))"
proof -
  have inv: "pmm_inv s" and P: "VIRT_TO_PHYS s p \<in> frames s"
    using ok sp by (auto simp: vmm_ok_def struct_frames_def)
  let ?r = "space_pml4 s (SUser p)"
  have tabs: "space_tables user_half {SUser p} s \<subseteq> frames s"
    using space_tables_frames [OF vmm_ok_subset [OF ok, of "{SUser p}"]] sp by auto
  have r: "?r \<in> frames s" and sub: "\<And>i. i < 256 \<Longrightarrow> subtree2 (view_of s) ?r i \<subseteq> frames s"
    using tabs unfolding user_tables insert_subset UN_subset_iff by auto
  define w where "w = fold (destroy_pml4e (space_pml4_virt s (SUser p))) [0..<256] s"
  have w: "release_post s w ({} \<union> (\<Union>i \<in> set [0..<256]. frame_pages (subtree2 (view_of s) ?r i)))"
    unfolding w_def root_virt [OF ok sp] using r sub
    by (intro fold_release destroy_pml4e_post inv release_post_refl) auto
  have "space_pml4 w (SUser p) = ?r" using load_release [OF inv w P] by simp
  then have t: "t = pmm_free (VIRT_TO_PHYS (pmm_free ?r w) p) (pmm_free ?r w)"
    unfolding t_def vmm_destroy_address_space_def space_ptr.case Let_def w_def [symmetric] by (simp only:)
  note w2 = free_frame_post [OF w r]
  have V: "VIRT_TO_PHYS (pmm_free ?r w) p = VIRT_TO_PHYS s p"
    using release_virt(2) [OF w2, of "VIRT_TO_PHYS s p"] by simp
  show ?thesis
    using free_frame_post [OF w2 P] unfolding t V user_tables by (simp add: Un_commute insert_commute)
qed

lemma vmm_destroy_keeps:
  assumes ok: "vmm_ok user_half S s" and sp: "SUser p \<in> S"
  defines "t \<equiv> vmm_destroy_address_space (SUser p) s"
  shows "vmm_ok user_half (S - {SUser p}) t"
    "\<And>sp' path. sp' \<in> S - {SUser p} \<Longrightarrow> good_path user_half path \<Longrightarrow> length path \<le> 4 \<Longrightarrow>
       xlate t sp' path = xlate s sp' path"
proof -
  let ?S = "S - {SUser p}"
  let ?F = "insert (VIRT_TO_PHYS s p) (space_tables user_half {SUser p} s)"
  note ok' = vmm_ok_subset [OF ok Diff_subset, of "{SUser p}"]
  have inv: "pmm_inv s" using ok by (simp add: vmm_ok_def)
  have tabs: "space_tables user_half {SUser p} s \<subseteq> frames s - struct_frames s S"
    using space_tables_frames [OF ok] space_tables_mono [of "{SUser p}" S] sp by blast
  have P: "VIRT_TO_PHYS s p \<in> struct_frames s S" "struct_frames s S \<subseteq> frames s"
    using sp ok by (auto simp: struct_frames_def vmm_ok_def)
  have F: "?F \<subseteq> frames s" using tabs P by auto
  have dis: "?F \<inter> (space_tables user_half ?S s \<union> struct_frames s ?S) = {}"
  proof -
    have "VIRT_TO_PHYS s p \<notin> struct_frames s ?S"
      by (auto simp: struct_frames_def VIRT_TO_PHYS_def)
    moreover have "VIRT_TO_PHYS s p \<notin> space_tables user_half ?S s"
      using space_tables_frames [OF ok] P(1) space_tables_mono [of ?S S] by blast
    moreover have "struct_frames s ?S \<subseteq> struct_frames s S" by (auto simp: struct_frames_def)
    ultimately show ?thesis
      using tabs space_tables_disjoint [OF ok sp, of ?S] by auto
  qed
  have inj: "unat f div 4096 = unat g div 4096 \<Longrightarrow> f = g" if "f \<in> frames s" "g \<in> frames s" for f g
    using page_addr_inj frames_below(2) [OF inv] that by metis
  have "space_tables user_half ?S s \<union> struct_frames s ?S \<subseteq> frames s"
    using space_tables_frames [OF ok'] ok' by (auto simp: vmm_ok_def)
  then have "frame_pages ?F \<inter> frame_pages (space_tables user_half ?S s \<union> struct_frames s ?S) = {}"
    using F dis inj unfolding frame_pages_def by blast
  moreover have "0 \<notin> frame_pages ?F"
  proof
    assume "0 \<in> frame_pages ?F"
    then obtain f where "f \<in> frames s" "unat f div 4096 = 0" using F by (auto simp: frame_pages_def)
    then show False
      using frames_below(2) [OF inv, of f] page_multiple [of "unat f"] by (auto simp: frames_def unat_eq_0)
  qed
  ultimately show "vmm_ok user_half ?S t"
    "\<And>sp' path. sp' \<in> ?S \<Longrightarrow> good_path user_half path \<Longrightarrow> length path \<le> 4 \<Longrightarrow>
       xlate t sp' path = xlate s sp' path"
    using release_keeps [OF ok' vmm_destroy_post [OF ok sp]] unfolding t_def by auto
qed

section \<open>Creating an address space\<close>

lemma vmm_ok_insert:
  assumes ok: "vmm_ok I S t" and P: "VIRT_TO_PHYS t p = P" "P \<in> frames t" "P \<notin> space_tables I S t \<union> struct_frames t S"
    and Q: "Q \<in> frames t" "Q \<notin> space_tables I S t \<union> struct_frames t S" "Q \<noteq> P"
    and c: "cell t P 0 = Q" "cell t P 1 = PHYS_TO_VIRT t Q" "\<And>i. i \<in> I \<Longrightarrow> i < 512 \<Longrightarrow> view_of t Q i = None"
  shows "vmm_ok I (insert (SUser p) S) t" "SUser p \<notin> S"
    "\<And>path. good_path I path \<Longrightarrow> path \<noteq> [] \<Longrightarrow> xlate t (SUser p) path = None"
proof -
  have inv: "pmm_inv t" using ok by (simp add: vmm_ok_def)
  show n: "SUser p \<notin> S" using P(1,3) by (auto simp: struct_frames_def)
  note ld = load_cell [OF inv, of p, unfolded P(1), OF P(2)]
  have pm: "space_pml4 t (SUser p) = Q" "space_pml4_virt t (SUser p) = PHYS_TO_VIRT t Q"
    using ld c by auto
  have wQ: "walk (view_of t) Q path = None" if "good_path I path" "path \<noteq> []" for path
    using that c(3) by (cases path) (auto simp: good_path_def)
  then show "\<And>path. good_path I path \<Longrightarrow> path \<noteq> [] \<Longrightarrow> xlate t (SUser p) path = None"
    using pm by (simp add: xlate_def)
  have rt: "roots t (insert (SUser p) S) = insert Q (roots t S)" using pm by (simp add: roots_def)
  have Qt: "Q \<notin> tables (view_of t) I (roots t S)" using Q(2) by (simp add: space_tables_def)
  then have QR: "Q \<notin> roots t S" using tablesI [of Q "roots t S" I "[]"] by auto
  have tb: "tables (view_of t) I (insert Q (roots t S)) = insert Q (tables (view_of t) I (roots t S))"
  proof (intro equalityI subsetI)
    fix x assume "x \<in> tables (view_of t) I (insert Q (roots t S))"
    then show "x \<in> insert Q (tables (view_of t) I (roots t S))"
      using wQ unfolding tables_def by (auto, metis option.discI option.inject walk.simps(1))
  next
    fix x assume "x \<in> insert Q (tables (view_of t) I (roots t S))"
    then show "x \<in> tables (view_of t) I (insert Q (roots t S))"
      using tablesI [of Q "insert Q (roots t S)" I "[]"] by (auto simp: tables_def)
  qed
  have one: "one_path (view_of t) I (insert Q (roots t S))"
    unfolding one_path_def
  proof (intro ballI allI impI, elim conjE)
    fix r r' "is" js x
    assume a: "r \<in> insert Q (roots t S)" "r' \<in> insert Q (roots t S)" "good_path I is" "good_path I js"
      "length is \<le> 3" "length js \<le> 3" "walk (view_of t) r is = Some x" "walk (view_of t) r' js = Some x"
    have old: "x \<noteq> Q" if "y \<in> roots t S" "good_path I ks" "length ks \<le> 3" "walk (view_of t) y ks = Some x" for y ks
      using Qt tablesI [OF that] by auto
    have new: "x = Q \<and> ks = []" if "good_path I ks" "walk (view_of t) Q ks = Some x" for ks
      using wQ [OF that(1)] that(2) by (cases ks) auto
    have op: "one_path (view_of t) I (roots t S)" using ok by (simp add: vmm_ok_def tree_ok_def)
    show "r = r' \<and> is = js"
      using a old new one_pathD [OF op _ _ a(3-8)] by blast
  qed
  have sf: "struct_frames t (insert (SUser p) S) = insert P (struct_frames t S)"
    using P(1) by (auto simp: struct_frames_def)
  have "tree_ok (view_of t) I (roots t (insert (SUser p) S)) (frames t - struct_frames t (insert (SUser p) S))"
    unfolding tree_ok_def rt tb sf using one Q P(3) space_tables_frames [OF ok]
    by (auto simp: space_tables_def)
  moreover have "inj_on (space_pml4 t) (insert (SUser p) S)"
    using ok QR pm(1) n by (auto simp: vmm_ok_def roots_def)
  ultimately show "vmm_ok I (insert (SUser p) S) t"
    using ok P(2) pm unfolding vmm_ok_def sf by auto
qed

text \<open>
  \<open>writes_in F s t\<close>: \<open>t\<close> results from \<open>s\<close> by stores into the allocated frames \<open>F\<close>.
\<close>

definition writes_in :: "u64 set \<Rightarrow> 'a vmm_scheme \<Rightarrow> 'a vmm_scheme \<Rightarrow> bool" where
  "writes_in F s t \<longleftrightarrow>
     pmm_inv t \<and> same_rest s t \<and> free_pages t = free_pages s \<and> used_set t = used_set s \<and> frames t = frames s
     \<and> (\<forall>x. x div PAGE_SIZE \<notin> frame_pages F \<longrightarrow> mem t x = mem s x)"

lemma writes_in_refl: "pmm_inv s \<Longrightarrow> writes_in F s s"
  by (simp add: writes_in_def)

lemma writes_in_trans: "writes_in F s t \<Longrightarrow> writes_in F t u \<Longrightarrow> writes_in F s u"
  unfolding writes_in_def by (auto intro: same_rest_trans)

lemma writes_in_set_entry:
  assumes "pmm_inv s" "f \<in> F" "f \<in> frames s" "i < 512"
  shows "writes_in F s (set_entry (PHYS_TO_VIRT s f) i v s)"
proof -
  have "x div 4096 \<noteq> unat f div 4096" if "x div 4096 \<notin> frame_pages F" for x
    using that assms(2) by (auto simp: frame_pages_def)
  then show ?thesis
    using set_entry_frames [OF assms(1,3,4), where v = v] by (simp add: writes_in_def)
qed

lemma frames_inj:
  assumes "pmm_inv s" "f \<in> frames s" "g \<in> frames s" "unat f div PAGE_SIZE = unat g div PAGE_SIZE"
  shows "f = g"
  using page_addr_inj frames_below(2) [OF assms(1)] assms(2-4) by metis

lemma writes_in_cell:
  assumes "pmm_inv s" "writes_in F s t" "F \<subseteq> frames s" "f \<in> frames s" "f \<notin> F" "i < 512"
  shows "cell t f i = cell s f i"
proof (rule cell_eq)
  fix x assume "x div 4096 = unat f div 4096"
  then have "x div PAGE_SIZE \<notin> frame_pages F"
    using assms frames_inj [OF assms(1,4)] by (auto simp: frame_pages_def subset_iff)
  with assms(2) show "mem t x = mem s x" by (simp add: writes_in_def)
qed (use assms in \<open>auto simp: frames_def\<close>)

lemma writes_in_step:
  assumes ok: "vmm_ok I S s" and w: "writes_in F s t" and F: "F \<subseteq> frames s"
    "F \<inter> (space_tables I S s \<union> struct_frames s S) = {}"
  shows "vmm_ok I S t" "space_tables I S t = space_tables I S s"
    "\<And>sp path. sp \<in> S \<Longrightarrow> good_path I path \<Longrightarrow> length path \<le> 4 \<Longrightarrow> xlate t sp path = xlate s sp path"
proof -
  have inv: "pmm_inv s" and sf: "struct_frames s S \<subseteq> frames s" using ok by (auto simp: vmm_ok_def)
  have T: "pmm_inv t" "same_rest s t" "free_pages t \<subseteq> free_pages s" "frames t = frames s"
    using w by (auto simp: writes_in_def)
  have c: "cell t f i = cell s f i" if "f \<in> space_tables I S s \<union> struct_frames s S" "i < 512" for f i
    using that F sf space_tables_frames [OF ok] by (intro writes_in_cell [OF inv w F(1)]) auto
  have ag: "agree (tables (view_of s) I (roots s S)) (view_of s) (view_of t)"
    unfolding agree_def using c by (auto simp: view_of_def space_tables_def)
  have "tree_ok (view_of t) I (roots s S) (frames t - struct_frames s S)"
    unfolding T(4) by (rule tree_ok_agree [OF _ ag]) (use ok in \<open>simp add: vmm_ok_def\<close>)
  from vmm_ok_step [OF ok T(1-3) _ this] c
  have k: "vmm_ok I S t" "\<And>sp. sp \<in> S \<Longrightarrow> space_pml4 t sp = space_pml4 s sp" "roots t S = roots s S"
    by auto
  then show "vmm_ok I S t" "space_tables I S t = space_tables I S s"
    using tables_agree [OF ag] by (auto simp: space_tables_def)
  show "xlate t sp path = xlate s sp path" if "sp \<in> S" "good_path I path" "length path \<le> 4" for sp path
    unfolding xlate_def k(2) [OF that(1)] by (rule walk_agree [OF ag _ that(2,3)]) (simp add: roots_def that)
qed

lemma copy_entries:
  assumes inv: "pmm_inv s" and fr: "K \<in> frames s" "Q \<in> frames s" "Q \<noteq> K" and n: "n \<le> 512" "m \<le> n"
  defines "t \<equiv> fold (copy_kernel_entry (PHYS_TO_VIRT s K) (PHYS_TO_VIRT s Q)) [m..<n] s"
  shows "writes_in {Q} s t" "\<And>i. i < 512 \<Longrightarrow> cell t Q i = (if m \<le> i \<and> i < n then cell s K i else cell s Q i)"
proof -
  have "writes_in {Q} s t \<and> (\<forall>i < 512. cell t Q i = (if m \<le> i \<and> i < n then cell s K i else cell s Q i))"
    unfolding t_def using n(2,1)
  proof (induction n rule: dec_induct)
    case base
    then show ?case by (auto simp: writes_in_refl inv)
  next
    case (step n)
    define u where "u = fold (copy_kernel_entry (PHYS_TO_VIRT s K) (PHYS_TO_VIRT s Q)) [m..<n] s"
    have IH: "writes_in {Q} s u" "\<forall>i < 512. cell u Q i = (if m \<le> i \<and> i < n then cell s K i else cell s Q i)"
      using step.IH step.prems unfolding u_def by auto
    have U: "pmm_inv u" "PHYS_TO_VIRT u = PHYS_TO_VIRT s" "frames u = frames s"
      using IH(1) same_rest_vmm(3) [of s u] by (auto simp: writes_in_def)
    have n512: "n < 512" using step by simp
    have "get_entry u (PHYS_TO_VIRT s K) n = cell s K n"
      using get_entry_cell [OF U(1), of K n] U fr n512 writes_in_cell [OF inv IH(1), of K n] by auto
    then have st: "fold (copy_kernel_entry (PHYS_TO_VIRT s K) (PHYS_TO_VIRT s Q)) [m..<Suc n] s
        = set_entry (PHYS_TO_VIRT u Q) n (cell s K n) u"
      using step.hyps U(2) by (simp add: copy_kernel_entry_def flip: u_def)
    have "writes_in {Q} u (set_entry (PHYS_TO_VIRT u Q) n (cell s K n) u)"
      using U fr n512 by (intro writes_in_set_entry) auto
    then have "writes_in {Q} s (set_entry (PHYS_TO_VIRT u Q) n (cell s K n) u)"
      by (rule writes_in_trans [OF IH(1)])
    moreover have "cell (set_entry (PHYS_TO_VIRT u Q) n (cell s K n) u) Q i
        = (if m \<le> i \<and> i < Suc n then cell s K i else cell s Q i)" if "i < 512" for i
      using cell_set_entry [OF U(1), of Q n Q i] U(3) fr n512 that IH(2) frames_below(2) [OF inv fr(2)] step.hyps
      by (auto simp: less_Suc_eq)
    ultimately show ?case unfolding st by blast
  qed
  then show "writes_in {Q} s t" "\<And>i. i < 512 \<Longrightarrow> cell t Q i = (if m \<le> i \<and> i < n then cell s K i else cell s Q i)"
    by auto
qed

lemma store_entry: "store p v s = set_entry p 0 v s" "store (p + 8) v s = set_entry p 1 v s"
  by (simp_all add: set_entry_def entry_ptr_def)

lemma vmm_ok_same_tables:
  assumes "vmm_step I S s t"
  shows "vmm_ok I S t" "pmm_inv t" "same_rest s t" "PHYS_TO_VIRT t = PHYS_TO_VIRT s" "VIRT_TO_PHYS t = VIRT_TO_PHYS s"
    "struct_frames t = struct_frames s" "kernel_space t = kernel_space s"
  using assms same_rest_vmm [of s t] by (auto simp: vmm_step_def vmm_ok_def)

text \<open>The two allocations and the stores of \<open>vmm_create_address_space\<close>, up to the copy loop.\<close>

lemma create_alloc:
  assumes ok: "vmm_ok I S s" and two: "card (free_pages s) \<ge> 2"
  obtains P Q s1 s2 where "pmm_alloc s = (P, s1)" "P \<noteq> 0" "pmm_alloc s1 = (Q, s2)" "Q \<noteq> 0" "P \<noteq> Q"
    "vmm_step I S s s2" "frames s2 = insert Q (insert P (frames s))" "P \<notin> frames s" "Q \<notin> frames s"
    "\<And>i. i < 512 \<Longrightarrow> cell s2 Q i = 0" "\<And>f i. f \<in> frames s \<Longrightarrow> i < 512 \<Longrightarrow> cell s2 f i = cell s f i"
    "card (free_pages s) = card (free_pages s2) + 2" "space_tables I S s2 = space_tables I S s"
    "\<And>sp path. sp \<in> S \<Longrightarrow> good_path I path \<Longrightarrow> length path \<le> 4 \<Longrightarrow> xlate s2 sp path = xlate s sp path"
    "PHYS_TO_VIRT s1 = PHYS_TO_VIRT s" "s2\<lparr>mem := memset (mem s2) (unat Q) 0 PAGE_SIZE\<rparr> = s2"
proof -
  have inv: "pmm_inv s" using ok by (simp add: vmm_ok_def)
  have ne: "free_pages s \<noteq> {}" using two by auto
  obtain p s1 where a: "pmm_alloc s = (page_addr p, s1)" "page_addr p \<noteq> 0"
    "p \<in> free_pages s" "alloc_post s s1 p 1" "vmm_step I S s s1" "free_pages s1 = free_pages s - {p}"
    "\<And>sp path. sp \<in> S \<Longrightarrow> good_path I path \<Longrightarrow> length path \<le> 4 \<Longrightarrow> xlate s1 sp path = xlate s sp path"
    "space_tables I S s1 = space_tables I S s"
    using alloc_step [OF ok ne] by metis
  have c1: "card (free_pages s) = Suc (card (free_pages s1))"
    using a(3,6) card_Suc_Diff1 [of "free_pages s" p] by simp
  have ne1: "free_pages s1 \<noteq> {}" using c1 two by auto
  note s1 = vmm_ok_same_tables [OF a(5)]
  obtain q s2 where b: "pmm_alloc s1 = (page_addr q, s2)" "page_addr q \<noteq> 0"
    "q \<in> free_pages s1" "alloc_post s1 s2 q 1" "vmm_step I S s1 s2" "free_pages s2 = free_pages s1 - {q}"
    "\<And>sp path. sp \<in> S \<Longrightarrow> good_path I path \<Longrightarrow> length path \<le> 4 \<Longrightarrow> xlate s2 sp path = xlate s1 sp path"
    "space_tables I S s2 = space_tables I S s1"
    using alloc_step [OF s1(1) ne1] by metis
  note F = frames_alloc [OF inv a(4,2)] and G = frames_alloc [OF s1(2) b(4,2)]
  have c2: "card (free_pages s) = card (free_pages s2) + 2"
    using c1 b(3,6) card_Suc_Diff1 [of "free_pages s1" q] by simp
  have q52: "q < 2 ^ 52" using used_page_small [OF s1(2)] b(3) by blast
  have "cell s2 f i = cell s f i" if "f \<in> frames s" "i < 512" for f i
    using that F(1,3) G(3) by simp
  moreover have "page_addr p \<noteq> page_addr q" using F(1) G(2) by (metis insertI1)
  moreover have "vmm_step I S s s2" by (rule vmm_step_trans [OF inv a(5) b(5)])
  moreover have "s2\<lparr>mem := memset (mem s2) (unat (page_addr q)) 0 PAGE_SIZE\<rparr> = s2"
    by (rule clear_again [OF b(4) q52])
  ultimately show ?thesis
    using that [OF a(1,2) b(1,2)] a(7,8) b(7,8) F(1,2) G(1,2,4) c2 s1(4) by simp
qed

lemma vmm_create_some:
  assumes ok: "vmm_ok user_half S s" and two: "card (free_pages s) \<ge> 2"
    and K: "pml4_virt (kernel_space s) = PHYS_TO_VIRT s K" "K \<in> frames s"
  obtains p t where "vmm_create_address_space s = (SUser p, t)" "SUser p \<notin> S"
    "vmm_ok user_half (insert (SUser p) S) t" "card (free_pages s) = card (free_pages t) + 2"
    "\<And>path. good_path user_half path \<Longrightarrow> path \<noteq> [] \<Longrightarrow> xlate t (SUser p) path = None"
    "\<And>i. 256 \<le> i \<Longrightarrow> i < 512 \<Longrightarrow> cell t (space_pml4 t (SUser p)) i = cell s K i"
    "same_xlate user_half S s t" "same_rest s t"
proof -
  have inv: "pmm_inv s" using ok by (simp add: vmm_ok_def)
  obtain P Q s1 s2 where A: "pmm_alloc s = (P, s1)" "P \<noteq> 0" "pmm_alloc s1 = (Q, s2)" "Q \<noteq> 0" "P \<noteq> Q"
    "vmm_step user_half S s s2" "frames s2 = insert Q (insert P (frames s))" "P \<notin> frames s" "Q \<notin> frames s"
    and cz: "\<And>i. i < 512 \<Longrightarrow> cell s2 Q i = 0" "\<And>f i. f \<in> frames s \<Longrightarrow> i < 512 \<Longrightarrow> cell s2 f i = cell s f i"
    and c2: "card (free_pages s) = card (free_pages s2) + 2" and tb: "space_tables user_half S s2 = space_tables user_half S s"
    and xl: "\<And>sp path. sp \<in> S \<Longrightarrow> good_path user_half path \<Longrightarrow> length path \<le> 4 \<Longrightarrow> xlate s2 sp path = xlate s sp path"
    and v1: "PHYS_TO_VIRT s1 = PHYS_TO_VIRT s" and ms: "s2\<lparr>mem := memset (mem s2) (unat Q) 0 PAGE_SIZE\<rparr> = s2"
    by (rule create_alloc [OF ok two]) (rule that; assumption)
  note s2 = vmm_ok_same_tables [OF A(6)]
  have PQ: "P \<in> frames s2" "Q \<in> frames s2" "K \<in> frames s2" "K \<noteq> Q" "K \<noteq> P" using A K(2) by auto
  let ?V = "PHYS_TO_VIRT s P"
  define s3 where "s3 = set_entry ?V 0 Q s2"
  have w3: "writes_in {P, Q} s2 s3"
    unfolding s3_def s2(4) [symmetric] by (rule writes_in_set_entry [OF s2(2)]) (use PQ in auto)
  then have I3: "pmm_inv s3" "PHYS_TO_VIRT s3 = PHYS_TO_VIRT s" "frames s3 = frames s2"
    using same_rest_vmm(3) [of s2 s3] s2(4) by (auto simp: writes_in_def)
  define s4 where "s4 = set_entry ?V 1 (PHYS_TO_VIRT s Q) s3"
  have w4: "writes_in {P, Q} s2 s4"
    unfolding s4_def I3(2) [symmetric] using I3 PQ
    by (intro writes_in_trans [OF w3] writes_in_set_entry) auto
  then have I4: "pmm_inv s4" "PHYS_TO_VIRT s4 = PHYS_TO_VIRT s" "VIRT_TO_PHYS s4 = VIRT_TO_PHYS s" "frames s4 = frames s2"
      "kernel_space s4 = kernel_space s"
    using same_rest_vmm [of s2 s4] s2 by (auto simp: writes_in_def)
  have c4: "cell s4 P 0 = Q" "cell s4 P 1 = PHYS_TO_VIRT s Q" "\<And>f i. f \<in> frames s2 \<Longrightarrow> f \<noteq> P \<Longrightarrow> i < 512 \<Longrightarrow> cell s4 f i = cell s2 f i"
    using cell_set_entry [OF I3(1), of P 1 _ _ "PHYS_TO_VIRT s Q"] cell_set_entry [OF s2(2), of P 0 _ _ Q] I3 PQ s2
      frames_below(2) [OF s2(2)] by (simp_all add: s4_def s3_def)
  have virt: "space_pml4_virt s4 (SUser ?V) = PHYS_TO_VIRT s Q"
    using load_cell(2) [OF I4(1), of ?V] I4 PQ c4(2) by simp
  have clr: "s4\<lparr>mem := memset (mem s4) (cell_at s4 (space_pml4_virt s4 (SUser ?V))) 0 PAGE_SIZE\<rparr> = s4"
  proof -
    have "mem s4 x = 0" if x: "unat Q \<le> x" "x < unat Q + 4096" for x
    proof -
      have "x div 4096 = unat Q div 4096"
        using x page_multiple [OF frames_below(2) [OF s2(2) PQ(2)]] by (metis div_nat_eqI mult.commute add.commute mult_Suc_right)
      then have "x div 4096 \<noteq> unat P div 4096" using frames_inj [OF s2(2) PQ(1,2)] A(5) by auto
      then have "mem s4 x = mem s2 x"
        using set_entry_frames(6) [OF s2(2) PQ(1), of 0 x Q] set_entry_frames(6) [OF I3(1), of P 1 x "PHYS_TO_VIRT s Q"] I3 PQ(1) s2(4)
        by (simp add: s4_def s3_def)
      moreover have "mem s2 x = memset (mem s2) (unat Q) 0 PAGE_SIZE x"
        using ms by (metis pmm.select_convs(1) pmm.surjective pmm.update_convs(1))
      ultimately show ?thesis using x by (simp add: memset_eq)
    qed
    then have "memset (mem s4) (unat Q) 0 PAGE_SIZE = mem s4" by (auto simp: memset_eq fun_eq_iff)
    then show ?thesis using virt I4 by (simp add: cell_at_def)
  qed
  define t where "t = fold (copy_kernel_entry (PHYS_TO_VIRT s4 K) (PHYS_TO_VIRT s4 Q)) [256..<512] s4"
  have T: "writes_in {Q} s4 t" "\<And>i. i < 512 \<Longrightarrow> cell t Q i = (if 256 \<le> i \<and> i < 512 then cell s4 K i else cell s4 Q i)"
    using copy_entries [OF I4(1), of K Q 512 256] I4 PQ by (auto simp: t_def)
  have res: "vmm_create_address_space s = (SUser ?V, t)"
  proof -
    have "?V \<noteq> 0" using table_virt_nonzero [of s2 P] s2 PQ(1) by (auto simp: vmm_ok_def)
    moreover have "store ?V Q s2 = s3" by (simp add: s3_def store_entry)
    moreover have "store (?V + 8) (PHYS_TO_VIRT s3 Q) s3 = s4" by (simp only: s4_def store_entry(2) I3)
    moreover have "pml4_virt (kernel_space s4) = PHYS_TO_VIRT s4 K" using K(1) I4 by simp
    moreover have v4: "space_pml4_virt s4 (SUser ?V) = PHYS_TO_VIRT s4 Q" using virt I4 by simp
    ultimately show ?thesis
      unfolding vmm_create_address_space_def t_def
      by (simp only: A(1) Let_def prod.case v1 A(3) A(4) if_False clr [unfolded v4])
  qed
  have wt: "writes_in {P, Q} s2 t"
    using w4 T(1) by (auto simp: writes_in_def intro: same_rest_trans)
  have sf: "struct_frames s S \<subseteq> frames s" using ok by (simp add: vmm_ok_def)
  have dis: "{P, Q} \<inter> (space_tables user_half S s2 \<union> struct_frames s2 S) = {}"
    using space_tables_frames [OF ok] sf A(8,9) unfolding tb s2(6) by blast
  note W = writes_in_step [OF s2(1) wt _ dis]
  have It: "frames t = frames s2" "PHYS_TO_VIRT t = PHYS_TO_VIRT s" "VIRT_TO_PHYS t = VIRT_TO_PHYS s"
      "struct_frames t = struct_frames s" "free_pages t = free_pages s2"
    using wt same_rest_vmm [of s2 t] s2 by (auto simp: writes_in_def)
  have cP: "cell t P i = cell s4 P i" if "i < 512" for i
    using writes_in_cell [OF I4(1) T(1), of P i] I4 PQ A(5) that by auto
  have vm: "vmm_ok user_half S t" "space_tables user_half S t = space_tables user_half S s"
    and xt: "\<And>sp path. sp \<in> S \<Longrightarrow> good_path user_half path \<Longrightarrow> length path \<le> 4 \<Longrightarrow> xlate t sp path = xlate s sp path"
    using W PQ xl tb by auto
  have new: "VIRT_TO_PHYS t ?V = P" "P \<in> frames t" "Q \<in> frames t" "Q \<noteq> P"
    "P \<notin> space_tables user_half S t \<union> struct_frames t S" "Q \<notin> space_tables user_half S t \<union> struct_frames t S"
    "cell t P 0 = Q" "cell t P 1 = PHYS_TO_VIRT t Q"
    using It PQ A(5) dis vm(2) tb s2(6) c4(1,2) cP by auto
  moreover have "view_of t Q i = None" if "i \<in> user_half" "i < 512" for i
    using that T(2) [of i] c4(3) [OF PQ(2), of i] cz(1) [of i] A(5) by (simp add: view_of_def)
  ultimately have N: "vmm_ok user_half (insert (SUser ?V) S) t" "SUser ?V \<notin> S"
    "\<And>path. good_path user_half path \<Longrightarrow> path \<noteq> [] \<Longrightarrow> xlate t (SUser ?V) path = None"
    using vmm_ok_insert [OF vm(1) new(1,2,5,3,6,4)] by auto
  have "space_pml4 t (SUser ?V) = Q"
    using load_cell(1) [of t ?V] new vm(1) by (simp add: vmm_ok_def)
  moreover have "cell t Q i = cell s K i" if "256 \<le> i" "i < 512" for i
    using that T(2) [of i] c4(3) [OF PQ(3,5), of i] cz(2) [OF K(2), of i] by simp
  moreover have "same_xlate user_half S s t" using xt by (simp add: same_xlate_def)
  moreover have "same_rest s t"
    using same_rest_trans [OF s2(3)] wt by (simp add: writes_in_def)
  ultimately show ?thesis using that [OF res N(2,1)] N(3) c2 It(5) by simp
qed

lemma vmm_create_none:
  assumes ok: "vmm_ok I S s" and few: "card (free_pages s) < 2"
  obtains t where "vmm_create_address_space s = (SNull, t)" "free_pages t = free_pages s"
    "vmm_ok I S t" "same_xlate I S s t"
proof (cases "free_pages s = {}")
  case True
  then have a: "pmm_alloc s = (0, s)" by (rule pmm_alloc_none)
  have "hhdm_offset s \<noteq> 0" using ok by (auto simp: vmm_ok_def hhdm_ok_def)
  then have "vmm_create_address_space s = (SNull, s)"
    by (simp add: vmm_create_address_space_def a PHYS_TO_VIRT_def VIRT_TO_PHYS_def pmm_free_def)
  then show ?thesis using that ok by simp
next
  case False
  have inv: "pmm_inv s" using ok by (simp add: vmm_ok_def)
  obtain p s1 where a: "pmm_alloc s = (page_addr p, s1)" "page_addr p \<noteq> 0"
    "p \<in> free_pages s" "alloc_post s s1 p 1" "vmm_step I S s s1" "free_pages s1 = free_pages s - {p}"
    "\<And>sp path. sp \<in> S \<Longrightarrow> good_path I path \<Longrightarrow> length path \<le> 4 \<Longrightarrow> xlate s1 sp path = xlate s sp path"
    "space_tables I S s1 = space_tables I S s"
    using alloc_step [OF ok False] by metis
  note s1 = vmm_ok_same_tables [OF a(5)]
  have "card (free_pages s) = 1" using few False by (simp add: card_gt_0_iff less_Suc_eq numeral_2_eq_2)
  then have "free_pages s = {p}" using a(3) by (metis card_1_singletonE singletonD)
  then have b: "pmm_alloc s1 = (0, s1)" using a(6) by (intro pmm_alloc_none) simp
  note F = frames_alloc [OF inv a(4,2)]
  have pf: "page_addr p \<in> frames s1" using F(1) by simp
  have p52: "p < 2 ^ 52" using used_page_small [OF inv] a(3) by blast
  define t where "t = pmm_free (page_addr p) s1"
  have "PHYS_TO_VIRT s1 (page_addr p) \<noteq> 0"
    using table_virt_nonzero [OF _ s1(2) pf] s1(1) by (simp add: vmm_ok_def)
  then have "vmm_create_address_space s = (SNull, t)"
    by (simp add: vmm_create_address_space_def a(1) b t_def)
  moreover have r: "release_post s1 t {p}"
    using free_frame_post [OF release_post_refl [OF s1(2), of "{}"] pf] page_addr_frame(2) [OF p52]
    by (simp add: t_def)
  moreover have "p \<noteq> 0" using a(2) by (metis mult_0 of_nat_0 page_addr_def)
  moreover have "{p} \<inter> frame_pages (space_tables I S s1 \<union> struct_frames s1 S) = {}"
  proof -
    have "space_tables I S s1 \<union> struct_frames s1 S \<subseteq> frames s"
      using space_tables_frames [OF ok] ok unfolding a(8) s1(6) by (auto simp: vmm_ok_def)
    moreover have "unat f div 4096 \<noteq> p" if "f \<in> frames s" for f
      using that a(3) by (auto simp: frames_def used_set_free)
    ultimately show ?thesis by (auto simp: frame_pages_def subset_iff)
  qed
  ultimately have "vmm_ok I S t" "same_xlate I S s1 t"
    using release_keeps [OF s1(1) r] by (auto simp: same_xlate_def)
  moreover have "same_xlate I S s s1" using a(7) by (simp add: same_xlate_def)
  moreover have "free_pages t = free_pages s"
    using r a(3,6) same_restD(3) [OF s1(3)] by (auto simp: release_post_def free_pages_def)
  ultimately show ?thesis
    using that \<open>vmm_create_address_space s = (SNull, t)\<close> same_xlate_trans by blast
qed

section \<open>Pages with their frames\<close>

lemma PAGE_MASK_not: "PAGE_MASK = NOT (mask 12)"
  by (simp add: PAGE_MASK_def mask_eq_exp_minus_1 not_eq_complement)

lemma offset_page: "unat (f OR (v AND NOT PAGE_MASK)) div 4096 = unat (f::u64) div 4096"
proof -
  have "drop_bit 12 (f OR (v AND NOT PAGE_MASK)) = drop_bit 12 f"
    unfolding PAGE_MASK_not by (intro bit_word_eqI) (auto simp: bit_simps)
  then have "unat (drop_bit 12 (f OR (v AND NOT PAGE_MASK))) = unat (drop_bit 12 f)"
    by (rule arg_cong)
  moreover have "unat (drop_bit 12 w) = unat w div 4096" for w :: u64
    using unat_div_distrib [of w 4096] by (simp add: drop_bit_eq_div)
  ultimately show ?thesis by (simp only:)
qed

lemma offset_nonzero: "f \<noteq> 0 \<Longrightarrow> f OR x \<noteq> (0::u64)"
  by (metis or_eq_0_iff)

lemma frame_page_free:
  assumes "f \<in> frames s" "pmm_inv s" "f \<notin> F" "F \<subseteq> frames s"
  shows "{unat f div PAGE_SIZE} \<inter> frame_pages F = {}"
  using assms frames_inj [OF assms(2,1)] by (auto simp: frame_pages_def)

lemma frame_page_nonzero: "f \<in> frames s \<Longrightarrow> pmm_inv s \<Longrightarrow> unat f div PAGE_SIZE \<noteq> 0"
proof
  assume f: "f \<in> frames s" "pmm_inv s" "unat f div 4096 = 0"
  obtain q where "unat f = 4096 * q" "unat f div 4096 = q" using frames_below(2) [OF f(2,1)] by (rule page_multiple)
  with f(3) have "unat f = 0" by simp
  with f(1) show False by (simp add: frames_def unat_eq_0)
qed

lemma vmm_alloc_page_cases:
  assumes ok: "vmm_ok I S s" and sp: "sp \<in> S" and v: "PML4_INDEX virt \<in> I" and fl: "flags AND PAGE_MASK = 0"
  obtains (none) t where "vmm_alloc_page sp virt flags s = (0, t)" "vmm_ok I S t" "same_xlate I S s t"
      "card (free_pages s) \<le> 3"
  | (page) f t where "vmm_alloc_page sp virt flags s = (virt, t)" "vmm_step I S s t"
      "xlate_upd I S s t sp virt (Some f)" "unat f div PAGE_SIZE \<in> free_pages s - free_pages t"
      "\<And>x. x div PAGE_SIZE = unat f div PAGE_SIZE \<Longrightarrow> mem t x = 0"
      "f \<in> frames t" "f \<notin> space_tables I S t" "f \<notin> struct_frames t S"
proof (cases "free_pages s = {}")
  case True
  then show ?thesis using none [of s] ok by (simp add: vmm_alloc_page_def pmm_alloc_none)
next
  case False
  have inv: "pmm_inv s" using ok by (simp add: vmm_ok_def)
  obtain p s1 where a: "pmm_alloc s = (page_addr p, s1)" "page_addr p \<noteq> 0"
    "p \<in> free_pages s" "alloc_post s s1 p 1" "vmm_step I S s s1" "free_pages s1 = free_pages s - {p}"
    and x1: "\<And>sp path. sp \<in> S \<Longrightarrow> good_path I path \<Longrightarrow> length path \<le> 4 \<Longrightarrow> xlate s1 sp path = xlate s sp path"
    and tb: "space_tables I S s1 = space_tables I S s"
    using alloc_step [OF ok False] by metis
  note s1 = vmm_ok_same_tables [OF a(5)]
  let ?P = "page_addr p"
  note F = frames_alloc [OF inv a(4,2)]
  have p52: "p < 2 ^ 52" using used_page_small [OF inv] a(3) by blast
  note pp = page_addr_frame [OF p52]
  have Pnew: "?P \<notin> space_tables I S s1" "?P \<notin> struct_frames s1 S"
    using F(2) space_tables_frames [OF ok] ok unfolding tb s1(6) by (auto simp: vmm_ok_def)
  have sx: "same_xlate I S s s1" using x1 by (simp add: same_xlate_def)
  have cd: "card (free_pages s) = Suc (card (free_pages s1))"
    using a(3,6) card_Suc_Diff1 [of "free_pages s" p] by simp
  have later: "?P \<in> frames t" "?P \<notin> space_tables I S t" "?P \<notin> struct_frames t S" if st: "vmm_step I S s1 t" for t
  proof -
    have sub: "free_pages t \<subseteq> free_pages s1" "same_rest s1 t" using st by (auto simp: vmm_step_def)
    show "?P \<in> frames t"
      using F(1) used_set_mono [OF sub] same_rest_bitmap_pages [OF sub(2)] by (auto simp: frames_def)
    have "?P \<notin> page_addr ` (free_pages s1 - free_pages t)"
      using page_addr_eqD [of p] p52 used_page_small [OF s1(2)] a(6) by fastforce
    then show "?P \<notin> space_tables I S t" using st Pnew(1) by (auto simp: vmm_step_def)
    show "?P \<notin> struct_frames t S" using Pnew(2) same_rest_vmm(5) [OF sub(2)] by simp
  qed
  show ?thesis
  proof (cases rule: vmm_map_cases [OF s1(1) sp v, of ?P flags])
    case (1 t1)
    note t1 = vmm_ok_same_tables [OF 1(2)]
    define t where "t = pmm_free ?P t1"
    note L = later [OF 1(2)]
    have r: "release_post t1 t {p}"
      using free_frame_post [OF release_post_refl [OF t1(2), of "{}"] L(1)] pp by (simp add: t_def)
    have "{p} \<inter> frame_pages (space_tables I S t1 \<union> struct_frames t1 S) = {}"
      using frame_page_free [OF L(1) t1(2), of "space_tables I S t1 \<union> struct_frames t1 S"] L
        space_tables_frames [OF t1(1)] t1(1) pp by (auto simp: vmm_ok_def)
    moreover have "0 \<notin> {p}" using frame_page_nonzero [OF L(1) t1(2)] pp by simp
    ultimately have "vmm_ok I S t" "same_xlate I S t1 t"
      using release_keeps [OF t1(1) r] by (auto simp: same_xlate_def)
    moreover have "vmm_alloc_page sp virt flags s = (0, t)"
      using 1(1) a(1,2) by (simp add: vmm_alloc_page_def t_def)
    ultimately show ?thesis
      using none same_xlate_trans [OF same_xlate_trans [OF sx 1(3)]] cd 1(5) by simp
  next
    case (2 t)
    note L = later [OF 2(2)]
    have "?P AND PAGE_MASK = ?P" using aligned_mask [of ?P] pp(1) by simp
    then have "xlate_upd I S s t sp virt (Some ?P)"
      using xlate_upd_same [OF sx 2(3)] fl by simp
    moreover have "vmm_step I S s t" by (rule vmm_step_trans [OF inv a(5) 2(2)])
    moreover have "vmm_alloc_page sp virt flags s = (virt, t)"
      using 2(1) a(1,2) by (simp add: vmm_alloc_page_def)
    moreover have "mem t x = 0" if x: "x div 4096 = p" for x
    proof -
      have "x div 4096 \<in> used_set s1" "x div 4096 \<notin> bitmap_pages s1" "page_addr (x div 4096) \<notin> space_tables I S s1"
      proof -
        have "?P \<in> frames s1" using F(1) by blast
        then have "unat ?P div 4096 \<in> used_set s1 - bitmap_pages s1" by (simp add: frames_def)
        with x pp(2) Pnew(1) show "x div 4096 \<in> used_set s1" "x div 4096 \<notin> bitmap_pages s1"
          "page_addr (x div 4096) \<notin> space_tables I S s1" by simp_all
      qed
      then have "mem t x = mem s1 x"
        using 2(2) not_bitmap_page [of x s1] by (simp add: vmm_step_def)
      then show ?thesis using a(4) x by (simp add: alloc_post_def)
    qed
    moreover have "p \<in> free_pages s - free_pages t" using a(3,6) 2(2) by (auto simp: vmm_step_def)
    ultimately show ?thesis using page [of t ?P] L pp by simp
  qed
qed

lemma vmm_free_page_post:
  assumes ok: "vmm_ok I S s" and sp: "sp \<in> S" and v: "PML4_INDEX virt \<in> I"
    and f: "xlate s sp (vpath virt) = Some f" "f \<in> frames s" "f \<notin> space_tables I S s" "f \<notin> struct_frames s S"
  defines "t \<equiv> vmm_free_page sp virt s"
  shows "vmm_ok I S t" "free_pages t = insert (unat f div PAGE_SIZE) (free_pages s)"
    "xlate_upd I S s t sp virt None"
proof -
  define u where "u = vmm_unmap sp virt s"
  note U = vmm_unmap_post [OF ok sp v, folded u_def]
  note V = vmm_ok_same_tables [OF U(1)]
  let ?a = "f OR (virt AND NOT PAGE_MASK)"
  have nz: "?a \<noteq> 0" using f(2) offset_nonzero by (auto simp: frames_def)
  then have t: "t = pmm_free ?a u"
    using vmm_get_physical_eq [OF ok sp v] f(1) by (simp add: t_def vmm_free_page_def u_def)
  have fu: "f \<in> frames u"
    using f(2) used_set_mono [of u s] U(2) V(3) same_rest_bitmap_pages [OF V(3)] by (auto simp: frames_def)
  have tb: "f \<notin> space_tables I S u \<union> struct_frames u S"
    using U(1,2) f(3,4) V(6) by (auto simp: vmm_step_def)
  have r: "release_post u t {unat f div PAGE_SIZE}"
    using pmm_free_post [OF V(2) nz] fu unfolding t offset_page by (simp add: frames_def)
  have "{unat f div PAGE_SIZE} \<inter> frame_pages (space_tables I S u \<union> struct_frames u S) = {}"
    using space_tables_frames [OF V(1)] V(1) by (intro frame_page_free [OF fu V(2) tb]) (auto simp: vmm_ok_def)
  then have k: "vmm_ok I S t"
    "\<And>sp path. sp \<in> S \<Longrightarrow> good_path I path \<Longrightarrow> length path \<le> 4 \<Longrightarrow> xlate t sp path = xlate u sp path"
    using release_keeps [OF V(1) r] frame_page_nonzero [OF fu V(2)] by auto
  show "vmm_ok I S t" by (rule k(1))
  show "xlate_upd I S s t sp virt None" using U(3) k(2) by (simp add: xlate_upd_def)
  have "unat f div PAGE_SIZE < total_pages u" using fu by (simp add: frames_def used_set_def)
  then show "free_pages t = insert (unat f div PAGE_SIZE) (free_pages s)"
    using r U(2) by (auto simp: release_post_def)
qed

section \<open>A concrete machine\<close>

text \<open>
  Sixteen usable pages from 0x1000 on, then one page of the kernel, which holds the top
  table the boot loader left in \<open>cr3\<close>.
\<close>

definition vdemo_memmap :: "limine_memmap_entry list" where
  "vdemo_memmap =
     [\<lparr>me_base = 0x1000, me_length = 0x10000, me_type = LIMINE_MEMMAP_USABLE\<rparr>,
      \<lparr>me_base = 0x11000, me_length = 0x1000, me_type = LIMINE_MEMMAP_EXECUTABLE_AND_MODULES\<rparr>]"

definition vdemo_reset :: vmm where
  "vdemo_reset = \<lparr>mem = (\<lambda>_. 0), hhdm_offset = 0xFFFF800000000000, bitmap = None, bitmap_size = 0,
     total_pages = 0, used_pages = 0, highest_addr = 0, kernel_space = \<lparr>pml4 = 0, pml4_virt = 0\<rparr>, cr3 = 0x11000\<rparr>"

definition vdemo_boot :: vmm where
  "vdemo_boot = vmm_init (pmm_init (Some vdemo_memmap) vdemo_reset)"

lemma fold_field: "(\<And>x s. g (f x s) = g s) \<Longrightarrow> g (fold f xs s) = g s"
  by (induction xs arbitrary: s) auto

lemma pmm_init_field:
  fixes s :: "'a pmm_scheme" and g :: "'a pmm_scheme \<Rightarrow> 'b"
  assumes "\<And>s m. g (s\<lparr>mem := m\<rparr>) = g s" "\<And>s m. g (s\<lparr>used_pages := m\<rparr>) = g s" "\<And>s m. g (s\<lparr>highest_addr := m\<rparr>) = g s"
    "\<And>s m. g (s\<lparr>total_pages := m\<rparr>) = g s" "\<And>s m. g (s\<lparr>bitmap_size := m\<rparr>) = g s" "\<And>s m. g (s\<lparr>bitmap := m\<rparr>) = g s"
  shows "g (pmm_init memmap s) = g s"
proof -
  note steps = bitmap_set_def bitmap_clear_def free_page_step_def use_page_step_def mark_usable_def mark_kernel_def assms
  have g1: "g (free_page_step b j s) = g s" "g (use_page_step b j s) = g s" for b j and s :: "'a pmm_scheme"
    by (simp_all add: steps Let_def)
  have g2: "g (mark_usable e s) = g s" "g (mark_kernel e s) = g s" for e and s :: "'a pmm_scheme"
    unfolding mark_usable_def mark_kernel_def by (auto intro: fold_field [of g, OF g1(1)] fold_field [of g, OF g1(2)])
  show ?thesis
    unfolding pmm_init_def Let_def
    by (simp add: fold_field [of g, OF g2(2)] fold_field [of g, OF g1(2)] fold_field [of g, OF g2(1)] assms split: option.split)
qed

lemma vdemo_memmap_ok: "memmap_ok vdemo_memmap"
  by (simp add: memmap_ok_def vdemo_memmap_def usable_def)

lemma vdemo_place:
  "place_bitmap vdemo_memmap (boot_bitmap_size vdemo_memmap (highest_addr vdemo_reset))
     = Some \<lparr>me_base = 0x1000, me_length = 0x10000, me_type = LIMINE_MEMMAP_USABLE\<rparr>"
  by (simp add: place_bitmap_def boot_bitmap_size_def vdemo_memmap_def vdemo_reset_def Let_def)

lemma vdemo_pmm:
  fixes b defines "b \<equiv> pmm_init (Some vdemo_memmap) vdemo_reset"
  shows "pmm_inv b" "bitmap_pages b = {1}" "total_pages b = 18" "free_pages b = {2..<17}"
    "hhdm_offset b = 0xFFFF800000000000" "cr3 b = 0x11000"
proof -
  note C = pmm_init_correct [OF vdemo_memmap_ok vdemo_place, folded b_def]
  show inv: "pmm_inv b" and tp: "total_pages b = 18"
    using C by (simp_all add: boot_bitmap_size_def vdemo_memmap_def vdemo_reset_def Let_def)
  have bm: "bitmap b = Some 0x1000" "bitmap_size b = 3"
    using C by (simp_all add: boot_bitmap_size_def vdemo_memmap_def vdemo_reset_def Let_def)
  have "{4096..<4099 :: nat} = {4096, 4097, 4098}" by auto
  with bm show bp: "bitmap_pages b = {1}" by (simp add: bitmap_pages_def bitmap_bytes_def)
  have "usable_pages vdemo_memmap = {1..<17}"
    by (simp add: vdemo_memmap_def usable_def entry_pages_def)
  moreover have "kernel_pages vdemo_memmap = {17}"
    by (auto simp: kernel_pages_def kernel_entry_pages_def vdemo_memmap_def)
  moreover have "free_pages b = usable_pages vdemo_memmap - bitmap_pages b - kernel_pages vdemo_memmap"
    using C by simp
  ultimately show "free_pages b = {2..<17}" unfolding bp by auto
  show "hhdm_offset b = 0xFFFF800000000000" "cr3 b = 0x11000"
    by (simp_all add: b_def pmm_init_field [of hhdm_offset] pmm_init_field [of cr3]) (simp_all add: vdemo_reset_def)
qed


lemma vdemo_boot:
  "vmm_ok user_half {} vdemo_boot" "free_pages vdemo_boot = {2..<17}"
  "pml4_virt (kernel_space vdemo_boot) = PHYS_TO_VIRT vdemo_boot 0x11000" "0x11000 \<in> frames vdemo_boot"
proof -
  let ?b = "pmm_init (Some vdemo_memmap) vdemo_reset"
  note B = vdemo_pmm
  have f: "bitmap_test vdemo_boot = bitmap_test ?b" "mem vdemo_boot = mem ?b" "bitmap vdemo_boot = bitmap ?b"
    "bitmap_size vdemo_boot = bitmap_size ?b" "total_pages vdemo_boot = total_pages ?b" "used_pages vdemo_boot = used_pages ?b"
    "hhdm_offset vdemo_boot = hhdm_offset ?b"
    by (auto simp: vdemo_boot_def vmm_init_def Let_def bitmap_test_def bitmap_index_def fun_eq_iff)
  have g: "free_pages vdemo_boot = free_pages ?b" "used_set vdemo_boot = used_set ?b"
    "bitmap_bytes vdemo_boot = bitmap_bytes ?b" "bitmap_pages vdemo_boot = bitmap_pages ?b"
    by (simp_all add: free_pages_def used_set_def bitmap_bytes_def bitmap_pages_def f split: option.split)
  then have inv: "pmm_inv vdemo_boot" using B(1) by (simp add: pmm_inv_def f)
  show "free_pages vdemo_boot = {2..<17}" using g B(4) by simp
  show "pml4_virt (kernel_space vdemo_boot) = PHYS_TO_VIRT vdemo_boot 0x11000"
    using B(6) by (simp add: vdemo_boot_def vmm_init_def PHYS_TO_VIRT_def Let_def PAGE_MASK_def)
  show "0x11000 \<in> frames vdemo_boot"
    using B(2,3,4) f(5) by (simp add: frames_def g used_set_free)
  show "vmm_ok user_half {} vdemo_boot"
    using inv B(3,4,5) g f
    by (simp add: vmm_ok_def hhdm_ok_def struct_frames_def roots_def tree_ok_def tables_def one_path_def)
qed

definition vdemo_space :: space_ptr where
  "vdemo_space = fst (vmm_create_address_space vdemo_boot)"

definition vdemo :: vmm where
  "vdemo = snd (vmm_create_address_space vdemo_boot)"

lemma vdemo_ok:
  "vmm_ok user_half {vdemo_space} vdemo" "card (free_pages vdemo) = 13"
  "\<And>path. good_path user_half path \<Longrightarrow> path \<noteq> [] \<Longrightarrow> xlate vdemo vdemo_space path = None"
  "vdemo_space \<noteq> SNull" "vdemo_space \<noteq> SKernel" "total_pages vdemo = 18"
proof -
  have c: "card (free_pages vdemo_boot) = 15" by (simp add: vdemo_boot(2))
  obtain p t where "vmm_create_address_space vdemo_boot = (SUser p, t)"
    "vmm_ok user_half {SUser p} t" "card (free_pages vdemo_boot) = card (free_pages t) + 2"
    "\<And>path. good_path user_half path \<Longrightarrow> path \<noteq> [] \<Longrightarrow> xlate t (SUser p) path = None"
    "same_rest vdemo_boot t"
    by (rule vmm_create_some [OF vdemo_boot(1) _ vdemo_boot(3,4)]) (use c in auto)
  then show "vmm_ok user_half {vdemo_space} vdemo" "card (free_pages vdemo) = 13"
    "\<And>path. good_path user_half path \<Longrightarrow> path \<noteq> [] \<Longrightarrow> xlate vdemo vdemo_space path = None"
    "vdemo_space \<noteq> SNull" "vdemo_space \<noteq> SKernel" "total_pages vdemo = 18"
    using c vdemo_pmm(3) by (simp_all add: vdemo_def vdemo_space_def same_restD(3) vdemo_boot_def vmm_init_def Let_def)
qed


section \<open>Properties\<close>

text \<open>
  C3: \<open>vmm_map\<close> keeps every address space well formed. If it returns true, the page of
  \<open>virt\<close> in the given space translates to the frame of \<open>phys\<close>, and every other page of
  this space and every page of every other space translates as before. If it returns
  false, no page of any space changes its translation and no page is free any more; with
  three free pages it never returns false. No byte of an allocated frame that is not a
  page table changes.
\<close>

theorem vmm_map_correct:
  assumes "vmm_ok I S s" "sp \<in> S" "PML4_INDEX virt \<in> I" "flags AND PAGE_MASK = 0"
  shows "\<exists>ok t. vmm_map sp virt phys flags s = (ok, t) \<and> vmm_step I S s t
    \<and> (ok \<longrightarrow> xlate_upd I S s t sp virt (Some (phys AND PAGE_MASK)))
    \<and> (\<not> ok \<longrightarrow> same_xlate I S s t \<and> free_pages t = {})
    \<and> (3 \<le> card (free_pages s) \<longrightarrow> ok)"
  using assms(4) by (cases rule: vmm_map_cases [OF assms(1-3), of phys flags]) auto

theorem vmm_map_correct_witness:
  "\<exists>t. vmm_map vdemo_space 0x400000 0x9000 PAGE_WRITE vdemo = (True, t)
     \<and> xlate_upd user_half {vdemo_space} vdemo t vdemo_space 0x400000 (Some 0x9000)"
proof -
  have "PML4_INDEX 0x400000 \<in> user_half" "PAGE_WRITE AND PAGE_MASK = 0" "0x9000 AND PAGE_MASK = 0x9000"
    by (simp_all add: PML4_INDEX_def PAGE_MASK_def)
  then show ?thesis
    using vmm_map_correct [OF vdemo_ok(1) singletonI, of "0x400000" PAGE_WRITE "0x9000"] vdemo_ok(2) by auto
qed

text \<open>
  C4: Mapping and look-up. After a successful \<open>vmm_map\<close>, \<open>vmm_get_physical\<close> of any address
  in the mapped page gives the frame with the offset of that address; for an address in
  another page, or in another space, it gives what it gave before. After \<open>vmm_unmap\<close> it
  gives the null address in the unmapped page and what it gave before elsewhere. Look-up
  itself changes nothing.
\<close>

theorem vmm_map_lookup:
  assumes "vmm_ok I S s" "sp \<in> S" "sp' \<in> S" "PML4_INDEX virt \<in> I" "PML4_INDEX v \<in> I" "flags AND PAGE_MASK = 0"
  shows "(vmm_map sp virt phys flags s = (True, t) \<longrightarrow>
      vmm_get_physical sp' v t
        = (if sp' = sp \<and> vpn v = vpn virt then (phys AND PAGE_MASK) OR (v AND NOT PAGE_MASK)
           else fst (vmm_get_physical sp' v s), t))
    \<and> vmm_get_physical sp' v (vmm_unmap sp virt s)
        = (if sp' = sp \<and> vpn v = vpn virt then 0 else fst (vmm_get_physical sp' v s), vmm_unmap sp virt s)"
proof (intro conjI impI)
  have g: "good_path I (vpath v)" using assms(5) by (simp add: good_vpath)
  note L = vmm_get_physical_eq [OF _ assms(3,5)]
  show "vmm_get_physical sp' v (vmm_unmap sp virt s)
        = (if sp' = sp \<and> vpn v = vpn virt then 0 else fst (vmm_get_physical sp' v s), vmm_unmap sp virt s)"
    using vmm_unmap_post [OF assms(1,2,4)] g assms(1,3) unfolding vmm_step_def
    by (auto simp: L xlate_upd_def vpath_vpn)
  assume m: "vmm_map sp virt phys flags s = (True, t)"
  have "vmm_ok I S t" "xlate_upd I S s t sp virt (Some (phys AND PAGE_MASK))"
    using m assms(6) by (cases rule: vmm_map_cases [OF assms(1,2,4), of phys flags]; auto simp: vmm_step_def)+
  then show "vmm_get_physical sp' v t
        = (if sp' = sp \<and> vpn v = vpn virt then (phys AND PAGE_MASK) OR (v AND NOT PAGE_MASK)
           else fst (vmm_get_physical sp' v s), t)"
    using g assms(1,3) by (auto simp: L xlate_upd_def vpath_vpn)
qed

theorem vmm_map_lookup_witness:
  "vmm_get_physical vdemo_space 0x400123 (snd (vmm_map vdemo_space 0x400000 0x9000 PAGE_WRITE vdemo))
     = (0x9123, snd (vmm_map vdemo_space 0x400000 0x9000 PAGE_WRITE vdemo))"
proof -
  have I: "PML4_INDEX 0x400000 \<in> user_half" "PML4_INDEX 0x400123 \<in> user_half" by (simp_all add: PML4_INDEX_def)
  have fl: "PAGE_WRITE AND PAGE_MASK = 0" by (simp add: PAGE_MASK_def)
  have m: "vmm_map vdemo_space 0x400000 0x9000 PAGE_WRITE vdemo
      = (True, snd (vmm_map vdemo_space 0x400000 0x9000 PAGE_WRITE vdemo))"
    using vdemo_ok(2) by (cases rule: vmm_map_cases [OF vdemo_ok(1) singletonI I(1), of "0x9000" PAGE_WRITE]) auto
  show ?thesis
    using vmm_map_lookup [OF vdemo_ok(1) singletonI singletonI I fl, of "0x9000"] m
    by (simp add: vpn_def PAGE_MASK_def)
qed

text \<open>
  \<open>vmm_map_range\<close> either maps all pages of the range, each to its own frame, or
  returns false; every page outside the range, and every other space, translates as
  before in both cases. If the range was not mapped before, a failure leaves every
  translation as it was: the roll-back is complete. With three free pages per page of
  the range it does not fail.
\<close>

theorem vmm_map_range_correct:
  assumes "vmm_ok I S s" "sp \<in> S" "\<forall>j < n. PML4_INDEX (nth_page virt j) \<in> I" "n \<le> 2 ^ 36" "flags AND PAGE_MASK = 0"
  shows "\<exists>ok t. vmm_map_range sp virt phys n flags s = (ok, t) \<and> vmm_step I S s t
    \<and> xlate_off I S s t sp (range_paths virt 0 n)
    \<and> (ok \<longrightarrow> (\<forall>j < n. xlate t sp (vpath (nth_page virt j)) = Some (nth_page phys j AND PAGE_MASK)))
    \<and> (\<not> ok \<and> (\<forall>j < n. xlate s sp (vpath (nth_page virt j)) = None) \<longrightarrow> same_xlate I S s t)
    \<and> (3 * n \<le> card (free_pages s) \<longrightarrow> ok)"
proof -
  obtain ok t where t: "vmm_map_range sp virt phys n flags s = (ok, t)"
    "if ok then range_mapped I S s t sp virt phys 0 n
     else card (free_pages s) < 3 * n \<and> (\<exists>k \<in> {0..<n}. range_undone I S s t sp virt k)"
    using map_range_from_cases [OF assms(1,2), of 0 n virt flags phys, unfolded add_0 nth_page_0] assms(3-5)
    unfolding vmm_map_range_def by blast
  show ?thesis
  proof (cases ok)
    case True
    then show ?thesis using t by (intro exI [of _ ok] exI [of _ t]) (auto simp: range_mapped_def)
  next
    case False
    then obtain k where k: "k < n" "range_undone I S s t sp virt k" and few: "card (free_pages s) < 3 * n"
      using t(2) by auto
    have "range_paths virt 0 k \<subseteq> range_paths virt 0 n" using k(1) by (auto simp: range_paths_def)
    then have off: "xlate_off I S s t sp (range_paths virt 0 n)"
      using k(2) unfolding range_undone_def xlate_off_def by blast
    have "same_xlate I S s t" if none: "\<forall>j < n. xlate s sp (vpath (nth_page virt j)) = None"
      unfolding same_xlate_def
    proof (intro ballI allI impI)
      fix sp' path assume a: "sp' \<in> S" "good_path I path \<and> length path = 4"
      show "xlate t sp' path = xlate s sp' path"
      proof (cases "sp' = sp \<and> path \<in> range_paths virt 0 k")
        case True
        then obtain j where "j < k" "path = vpath (nth_page virt j)" by (auto simp: range_paths_def)
        then show ?thesis using True none k by (simp add: range_undone_def)
      next
        case False
        then show ?thesis using k(2) a by (simp add: range_undone_def xlate_off_def)
      qed
    qed
    then show ?thesis
      using False t(1) k off few by (intro exI [of _ ok] exI [of _ t]) (auto simp: range_undone_def)
  qed
qed

theorem vmm_map_range_correct_witness:
  "\<exists>t. vmm_map_range vdemo_space 0x400000 0x9000 3 PAGE_WRITE vdemo = (True, t)
     \<and> xlate t vdemo_space (vpath 0x402000) = Some 0xB000"
proof -
  have I: "\<forall>j < 3. PML4_INDEX (nth_page 0x400000 j) \<in> user_half"
    by (auto simp: nth_page_def PML4_INDEX_def less_Suc_eq numeral_3_eq_3)
  have fl: "PAGE_WRITE AND PAGE_MASK = 0" by (simp add: PAGE_MASK_def)
  have n: "(3::nat) \<le> 2 ^ 36" by simp
  have e: "nth_page 0x400000 2 = 0x402000" "nth_page 0x9000 2 AND PAGE_MASK = 0xB000"
    by (simp_all add: nth_page_def PAGE_MASK_def)
  obtain ok t where t: "vmm_map_range vdemo_space 0x400000 0x9000 3 PAGE_WRITE vdemo = (ok, t)"
    "ok \<longrightarrow> (\<forall>j < 3. xlate t vdemo_space (vpath (nth_page 0x400000 j)) = Some (nth_page 0x9000 j AND PAGE_MASK))"
    "3 * 3 \<le> card (free_pages vdemo) \<longrightarrow> ok"
    using vmm_map_range_correct [OF vdemo_ok(1) singletonI I n fl] by metis
  then have "ok" "xlate t vdemo_space (vpath (nth_page 0x400000 2)) = Some (nth_page 0x9000 2 AND PAGE_MASK)"
    using vdemo_ok(2) by auto
  with t(1) e show ?thesis by auto
qed

text \<open>
  \<open>vmm_alloc_page\<close> and \<open>vmm_free_page\<close>. The first either maps the page to a frame that
  was free, is no longer free and holds only zeros, or returns the null pointer and
  changes no translation; four free pages are enough for it to succeed. Freeing the page
  then gives exactly that frame back, removes exactly that translation and keeps the
  address spaces well formed.
\<close>

theorem vmm_alloc_free_page:
  assumes "vmm_ok I S s" "sp \<in> S" "PML4_INDEX virt \<in> I" "flags AND PAGE_MASK = 0" "virt \<noteq> 0"
  shows "\<exists>t. (vmm_alloc_page sp virt flags s = (0, t) \<and> vmm_ok I S t \<and> same_xlate I S s t \<and> card (free_pages s) \<le> 3)
    \<or> (\<exists>f. vmm_alloc_page sp virt flags s = (virt, t) \<and> vmm_ok I S t
        \<and> xlate_upd I S s t sp virt (Some f) \<and> unat f div PAGE_SIZE \<in> free_pages s - free_pages t
        \<and> (\<forall>x. x div PAGE_SIZE = unat f div PAGE_SIZE \<longrightarrow> mem t x = 0)
        \<and> vmm_ok I S (vmm_free_page sp virt t)
        \<and> free_pages (vmm_free_page sp virt t) = insert (unat f div PAGE_SIZE) (free_pages t)
        \<and> xlate_upd I S t (vmm_free_page sp virt t) sp virt None)"
proof (cases rule: vmm_alloc_page_cases [OF assms(1-4)])
  case (1 t)
  then show ?thesis by blast
next
  case (2 f t)
  have ok: "vmm_ok I S t" using 2(2) by (simp add: vmm_step_def)
  have "good_path I (vpath virt)" using assms(3) by (simp add: good_vpath)
  then have "xlate t sp (vpath virt) = Some f" using 2(3) assms(2) by (simp add: xlate_upd_def)
  note R = vmm_free_page_post [OF ok assms(2,3) this 2(6,7,8)]
  show ?thesis using 2 R ok by blast
qed

theorem vmm_alloc_free_page_witness:
  "\<exists>t (f::u64). vmm_alloc_page vdemo_space 0x400000 PAGE_WRITE vdemo = (0x400000, t)
     \<and> free_pages (vmm_free_page vdemo_space 0x400000 t) = insert (unat f div PAGE_SIZE) (free_pages t)"
proof -
  have a: "PML4_INDEX 0x400000 \<in> user_half" "PAGE_WRITE AND PAGE_MASK = 0" "(0x400000::u64) \<noteq> 0"
    by (simp_all add: PML4_INDEX_def PAGE_MASK_def)
  from vmm_alloc_free_page [OF vdemo_ok(1) singletonI a] show ?thesis
  proof (elim exE disjE conjE, goal_cases)
    case (1 t)
    then show ?case using vdemo_ok(2) by simp
  next
    case (2 t f)
    then show ?case by (intro exI [of _ t] exI [of _ f] conjI)
  qed
qed

text \<open>
  C5: \<open>vmm_create_address_space\<close>. With two free pages it returns a new space, different
  from all others, whose lower half is empty and whose upper half has the entries of the
  kernel's top table; every other space translates as before. With fewer it returns the
  null pointer and gives back what it had taken.
\<close>

theorem vmm_create_address_space_correct:
  assumes "vmm_ok user_half S s" "pml4_virt (kernel_space s) = PHYS_TO_VIRT s K" "K \<in> frames s"
  shows "\<exists>t. (2 \<le> card (free_pages s) \<and> (\<exists>p. vmm_create_address_space s = (SUser p, t) \<and> SUser p \<notin> S
        \<and> vmm_ok user_half (insert (SUser p) S) t \<and> same_xlate user_half S s t
        \<and> (\<forall>path. good_path user_half path \<and> path \<noteq> [] \<longrightarrow> xlate t (SUser p) path = None)
        \<and> (\<forall>i \<in> {256..<512}. cell t (space_pml4 t (SUser p)) i = cell s K i)))
    \<or> (card (free_pages s) < 2 \<and> vmm_create_address_space s = (SNull, t)
        \<and> vmm_ok user_half S t \<and> same_xlate user_half S s t \<and> free_pages t = free_pages s)"
proof (cases "2 \<le> card (free_pages s)")
  case True
  show ?thesis
    by (rule vmm_create_some [OF assms(1) True assms(2,3)]) (use True in auto)
next
  case False
  then have few: "card (free_pages s) < 2" by simp
  show ?thesis by (rule vmm_create_none [OF assms(1) few]) (use few in auto)
qed

theorem vmm_create_address_space_correct_witness:
  "\<exists>p t. vmm_create_address_space vdemo_boot = (SUser p, t) \<and> vmm_ok user_half {SUser p} t"
  using vmm_create_address_space_correct [OF vdemo_boot(1,3,4)] vdemo_boot(2) by auto

text \<open>
  C6: \<open>vmm_destroy_address_space\<close> frees exactly the page tables of the lower half of the
  space, its top table and its structure (the frames mapped in the space stay allocated),
  and every other space stays well formed and translates as before. The pointers it
  refuses, null and the kernel's space, change nothing.
\<close>

theorem vmm_destroy_address_space_correct:
  assumes "vmm_ok user_half S s" "SUser p \<in> S"
  defines "t \<equiv> vmm_destroy_address_space (SUser p) s"
  shows "free_pages t = free_pages s \<union> frame_pages (insert (VIRT_TO_PHYS s p) (space_tables user_half {SUser p} s))
    \<and> vmm_ok user_half (S - {SUser p}) t \<and> same_xlate user_half (S - {SUser p}) s t
    \<and> vmm_destroy_address_space SNull s = s \<and> vmm_destroy_address_space SKernel s = s"
proof -
  let ?F = "insert (VIRT_TO_PHYS s p) (space_tables user_half {SUser p} s)"
  have "?F \<subseteq> frames s"
    using space_tables_frames [OF assms(1)] space_tables_mono [of "{SUser p}" S] assms(1,2)
    by (auto simp: vmm_ok_def struct_frames_def)
  then have "frame_pages ?F \<subseteq> {..<total_pages s}"
    by (auto simp: frame_pages_def frames_def used_set_def)
  then have "free_pages t = free_pages s \<union> frame_pages ?F"
    using vmm_destroy_post [OF assms(1,2)] unfolding t_def release_post_def by (simp add: inf.absorb1)
  then show ?thesis
    using vmm_destroy_keeps [OF assms(1,2)] unfolding t_def same_xlate_def
    by (simp add: vmm_destroy_address_space_def)
qed

theorem vmm_destroy_address_space_correct_witness:
  "\<exists>p. vdemo_space = SUser p \<and> vmm_ok user_half {} (vmm_destroy_address_space (SUser p) vdemo)"
proof -
  obtain p where p: "vdemo_space = SUser p" using vdemo_ok(4,5) by (cases vdemo_space) auto
  show ?thesis
    using vmm_destroy_address_space_correct [of "{SUser p}" vdemo p] vdemo_ok(1) unfolding p by auto
qed

text \<open>
  A page mapped with the no-execute flag, which lies in bit 63 of the entry, is not
  looked up correctly: \<open>PTE_GET_ADDR\<close> keeps that bit, so \<open>vmm_get_physical\<close> returns the
  frame's address with bit 63 set, and \<open>vmm_free_page\<close> removes the mapping without giving
  the frame back.
\<close>

theorem vmm_nx_lookup:
  assumes "vmm_ok I S s" "sp \<in> S" "PML4_INDEX virt \<in> I" "total_pages s \<le> 2 ^ 51"
    "vmm_map sp virt phys (PAGE_NX OR PAGE_WRITE) s = (True, t)"
  shows "fst (vmm_get_physical sp virt t) = ((phys AND PAGE_MASK) OR PAGE_NX) OR (virt AND NOT PAGE_MASK)
    \<and> free_pages (vmm_free_page sp virt t) = free_pages t"
proof -
  let ?f = "(phys AND PAGE_MASK) OR PAGE_NX"
  have fl: "(PAGE_NX OR PAGE_WRITE) AND PAGE_MASK = PAGE_NX" by (simp add: PAGE_MASK_def)
  have st: "vmm_step I S s t" "xlate_upd I S s t sp virt (Some ?f)"
    using assms(5) fl by (cases rule: vmm_map_cases [OF assms(1-3), of phys "PAGE_NX OR PAGE_WRITE"]; auto)+
  note T = vmm_ok_same_tables [OF st(1)]
  have "xlate t sp (vpath virt) = Some ?f" using st(2) assms(2,3) by (simp add: xlate_upd_def good_vpath)
  then have g: "vmm_get_physical sp virt t = (?f OR (virt AND NOT PAGE_MASK), t)"
    by (simp add: vmm_get_physical_eq [OF T(1) assms(2,3)])
  define u where "u = vmm_unmap sp virt t"
  note U = vmm_unmap_post [OF T(1) assms(2,3), folded u_def]
  have "bit (?f OR (virt AND NOT PAGE_MASK)) 63"
  proof -
    have "PAGE_NX = push_bit 63 1" by simp
    then have "bit PAGE_NX 63" by (simp only: bit_simps) simp
    then show ?thesis by (simp only: bit_or_iff) simp
  qed
  then have "odd (unat (?f OR (virt AND NOT PAGE_MASK)) div 2 ^ 63)"
    by (simp only: bit_unsigned_iff flip: bit_iff_odd) simp
  then have big: "2 ^ 63 \<le> unat (?f OR (virt AND NOT PAGE_MASK))"
    by (intro leI notI) (simp only: div_less dvd_0_right not_True_eq_False)
  then have "2 ^ 51 \<le> unat (?f OR (virt AND NOT PAGE_MASK)) div 4096" by (simp add: less_eq_div_iff_mult_less_eq)
  moreover have "total_pages u = total_pages s"
    using same_restD(3) [OF T(3)] U(1) by (auto simp: vmm_step_def dest: same_restD(3))
  ultimately have "pmm_free (?f OR (virt AND NOT PAGE_MASK)) u = u"
    using assms(4) by (simp add: pmm_free_def release_page_def)
  moreover have "?f OR (virt AND NOT PAGE_MASK) \<noteq> 0" using big by auto
  ultimately have "vmm_free_page sp virt t = u" by (simp add: vmm_free_page_def g u_def)
  with g U(2) show ?thesis by simp
qed

theorem vmm_nx_lookup_witness:
  "\<exists>t. vmm_map vdemo_space 0x400000 0x9000 (PAGE_NX OR PAGE_WRITE) vdemo = (True, t)
     \<and> fst (vmm_get_physical vdemo_space 0x400000 t) = 0x8000000000009000"
proof -
  have I: "PML4_INDEX 0x400000 \<in> user_half" by (simp add: PML4_INDEX_def)
  have tp: "total_pages vdemo \<le> 2 ^ 51" by (simp add: vdemo_ok(6))
  obtain t where t: "vmm_map vdemo_space 0x400000 0x9000 (PAGE_NX OR PAGE_WRITE) vdemo = (True, t)"
    using vdemo_ok(2) by (cases rule: vmm_map_cases [OF vdemo_ok(1) singletonI I, of "0x9000" "PAGE_NX OR PAGE_WRITE"]) auto
  show ?thesis
    using vmm_nx_lookup [OF vdemo_ok(1) singletonI I tp t] t by (simp add: PAGE_MASK_def)
qed

section \<open>What the memory managers leave alone\<close>

text \<open>
  \<open>keeps g\<close>: the observation \<open>g\<close> does not look at the physical memory or the page counter.
  Every operation of the two memory managers keeps such observations, in particular all
  fields of a state that extends theirs.
\<close>

definition keeps :: "('a pmm_scheme \<Rightarrow> 'b) \<Rightarrow> bool" where
  "keeps g \<longleftrightarrow> (\<forall>s m. g (s\<lparr>mem := m\<rparr>) = g s) \<and> (\<forall>s u. g (s\<lparr>used_pages := u\<rparr>) = g s)"

lemma keepsD: "keeps g \<Longrightarrow> g (s\<lparr>mem := m\<rparr>) = g s" "keeps g \<Longrightarrow> g (s\<lparr>used_pages := u\<rparr>) = g s"
  by (auto simp: keeps_def)

lemma keeps_fold: "(\<And>x s. g (f x s) = g s) \<Longrightarrow> g (fold f xs s) = g s"
  by (rule fold_field)

lemma keeps_pmm [frame_simps]:
  assumes "keeps g"
  shows "g (bitmap_set p s) = g s" "g (bitmap_clear p s) = g s" "g (snd (pmm_alloc s)) = g s"
    "g (snd (pmm_alloc_pages n s)) = g s" "g (release_page p s) = g s" "g (pmm_free a s) = g s"
    "g (pmm_free_pages a n s) = g s"
proof -
  show b: "\<And>p s. g (bitmap_set p s) = g s" "\<And>p s. g (bitmap_clear p s) = g s"
    by (simp_all add: bitmap_set_def bitmap_clear_def keepsD [OF assms])
  show a: "\<And>s. g (snd (pmm_alloc s)) = g s"
    by (simp add: pmm_alloc_def Let_def keepsD [OF assms] b split: option.split)
  have "g (fold (use_run_step i) xs s) = g s" for i xs and s
    by (rule keeps_fold) (simp add: use_run_step_def Let_def keepsD [OF assms] b)
  then show "g (snd (pmm_alloc_pages n s)) = g s"
    by (auto simp: pmm_alloc_pages_def Let_def keepsD [OF assms] a split: option.split)
  show r: "\<And>p s. g (release_page p s) = g s"
    by (simp add: release_page_def Let_def keepsD [OF assms] b)
  then show "\<And>a s. g (pmm_free a s) = g s" by (simp add: pmm_free_def)
  show "g (pmm_free_pages a n s) = g s"
    unfolding pmm_free_pages_def by (auto intro!: keeps_fold r)
qed

lemma keeps_entry [frame_simps]: "keeps g \<Longrightarrow> g (set_entry t i v s) = g s"
  by (simp add: set_entry_def store_def keepsD)

lemma keeps_next [frame_simps]: "keeps g \<Longrightarrow> g (snd (vmm_get_next_level t i c f s)) = g s"
  using keeps_pmm(3) [of g s]
  by (auto simp: vmm_get_next_level_def Let_def keeps_entry keepsD split: prod.split)

lemma keeps_snd: "keeps g \<Longrightarrow> vmm_get_next_level t i c f s = (x, s') \<Longrightarrow> g s' = g s"
  using keeps_next [of g t i c f s] by simp

lemma keeps_map [frame_simps]: "keeps g \<Longrightarrow> g (snd (vmm_map sp v p f s)) = g s"
  by (auto simp: vmm_map_def Let_def keeps_entry keeps_snd split: prod.split)

lemma keeps_unmap [frame_simps]: "keeps g \<Longrightarrow> g (vmm_unmap sp v s) = g s"
  by (auto simp: vmm_unmap_def Let_def keeps_entry keeps_snd split: prod.split)

lemma keeps_get_physical [frame_simps]: "keeps g \<Longrightarrow> g (snd (vmm_get_physical sp v s)) = g s"
  by (auto simp: vmm_get_physical_def Let_def keeps_snd split: prod.split)

lemma keeps_map_range [frame_simps]:
  assumes "keeps g"
  shows "g (snd (vmm_map_range sp v p n f s)) = g s"
proof -
  have "g (snd (map_range_from sp virt f va pa i n s)) = g s" for virt va pa i
  proof (induction n arbitrary: va pa i s)
    case (Suc n)
    have "g (map_rollback sp virt i s) = g s" for s
      unfolding map_rollback_def by (rule keeps_fold) (simp add: keeps_unmap assms)
    then show ?case
      using Suc.IH keeps_map [OF assms, of sp va pa f s] by (auto split: prod.split)
  qed simp
  then show ?thesis by (simp add: vmm_map_range_def)
qed

lemma keeps_alloc_page [frame_simps]:
  assumes "keeps g"
  shows "g (snd (vmm_alloc_page sp v f s)) = g s" "g (snd (vmm_alloc_pages sp v n f s)) = g s"
    "g (vmm_free_page sp v s) = g s"
proof -
  have a: "g s' = g s" if "pmm_alloc s = (x, s')" for x s s' using keeps_pmm(3) [OF assms, of s] that by simp
  have b: "g s' = g s" if "pmm_alloc_pages n s = (x, s')" for x s s' using keeps_pmm(4) [OF assms, of n s] that by simp
  have c: "g s' = g s" if "vmm_map sp v p f s = (x, s')" for x p s s' using keeps_map [OF assms, of sp v p f s] that by simp
  have d: "g s' = g s" if "vmm_map_range sp v p n f s = (x, s')" for x p s s' using keeps_map_range [OF assms, of sp v p n f s] that by simp
  have e: "g s' = g s" if "vmm_get_physical sp v s = (x, s')" for x s s' using keeps_get_physical [OF assms, of sp v s] that by simp
  show "g (snd (vmm_alloc_page sp v f s)) = g s"
    by (auto simp: vmm_alloc_page_def Let_def keeps_pmm [OF assms] dest!: a c split: prod.split)
  show "g (snd (vmm_alloc_pages sp v n f s)) = g s"
    by (auto simp: vmm_alloc_pages_def Let_def keeps_pmm [OF assms] dest!: b d split: prod.split)
  show "g (vmm_free_page sp v s) = g s"
    by (auto simp: vmm_free_page_def Let_def keeps_pmm [OF assms] keeps_unmap [OF assms] dest!: e split: prod.split)
qed

lemma keeps_create [frame_simps]: "keeps g \<Longrightarrow> g (snd (vmm_create_address_space s)) = g s"
proof -
  assume k: "keeps g"
  have a: "g s' = g s" if "pmm_alloc s = (x, s')" for x s s' using keeps_pmm(3) [OF k, of s] that by simp
  have f: "g (fold (copy_kernel_entry x y) is s) = g s" for x y "is" s
    by (rule keeps_fold) (simp add: copy_kernel_entry_def keeps_entry k)
  show ?thesis
    by (auto simp: vmm_create_address_space_def Let_def f keeps_pmm [OF k] store_def keepsD [OF k] dest!: a split: prod.split simp del: upt.simps fold.simps)
qed

lemma keeps_destroy [frame_simps]: "keeps g \<Longrightarrow> g (vmm_destroy_address_space sp s) = g s"
proof -
  assume k: "keeps g"
  have 1: "g (fold (destroy_pde x) is s) = g s" for x "is" s
    by (rule keeps_fold) (simp add: destroy_pde_def Let_def keeps_pmm [OF k])
  have 2: "g (fold (destroy_pdpte x) is s) = g s" for x "is" s
    by (rule keeps_fold) (simp add: destroy_pdpte_def Let_def keeps_pmm [OF k] 1 del: upt.simps fold.simps)
  have 3: "g (fold (destroy_pml4e x) is s) = g s" for x "is" s
    by (rule keeps_fold) (simp add: destroy_pml4e_def Let_def keeps_pmm [OF k] 2 del: upt.simps fold.simps)
  show ?thesis
    by (simp add: vmm_destroy_address_space_def Let_def keeps_pmm [OF k] 3 split: space_ptr.split del: upt.simps fold.simps)
qed

section \<open>Contiguous frames\<close>

lemma cell_alloc_run:
  assumes "pmm_inv s" "alloc_post s t a n" "u \<in> frames s" "i < 512"
  shows "cell t u i = cell s u i"
proof (rule cell_eq)
  fix x assume x: "x div 4096 = unat u div 4096"
  have "{a..<a + n} \<subseteq> free_pages s" using assms(2) by (simp add: alloc_post_def)
  with x assms(3) have "x div 4096 \<notin> bitmap_pages s" "x div 4096 \<notin> {a..<a + n}"
    by (auto simp: frames_def used_set_free)
  then show "mem t x = mem s x"
    using assms(2) not_bitmap_page [of x s] by (simp add: alloc_post_def)
qed (use assms in \<open>auto simp: frames_def\<close>)

lemma alloc_run_step:
  assumes ok: "vmm_ok I S s" and a: "alloc_post s t a n"
  shows "vmm_step I S s t" "same_xlate I S s t" "card (free_pages s) = card (free_pages t) + n"
    "space_tables I S t = space_tables I S s"
proof -
  have inv: "pmm_inv s" using ok by (simp add: vmm_ok_def)
  have P: "pmm_inv t" "same_rest s t" "free_pages t = free_pages s - {a..<a + n}" "{a..<a + n} \<subseteq> free_pages s"
    using a by (auto simp: alloc_post_def)
  have ag: "agree (space_tables I S s) (view_of s) (view_of t)"
    by (rule agree_cells [OF ok cell_alloc_run [OF inv a]])
  have str: "cell t f i = cell s f i" if "f \<in> struct_frames s S" "i < 512" for f i
    using that cell_alloc_run [OF inv a] ok by (auto simp: vmm_ok_def)
  have out: "mem t x = mem s x" if "x div 4096 \<in> used_set s" "x \<notin> bitmap_bytes s" for x
  proof -
    have "x div 4096 \<notin> {a..<a + n}" using that(1) P(4) by (auto simp: used_set_free)
    with a that(2) show ?thesis by (simp add: alloc_post_def)
  qed
  note st = vmm_step_agree [OF ok P(1,2) _ str ag out]
  show "vmm_step I S s t" using st(1) P(3) by blast
  show "same_xlate I S s t" using st(2) P(3) by (simp add: same_xlate_def)
  show "space_tables I S t = space_tables I S s" using st(3) P(3) by blast
  show "card (free_pages s) = card (free_pages t) + n"
    using P(3,4) card_Diff_subset [of "{a..<a + n}" "free_pages s"] card_mono [OF finite_free_pages P(4)] by simp
qed

text \<open>
  \<open>vmm_alloc_pages\<close> with a run of \<open>n\<close> free frames and three more free pages per page for
  the tables maps the run, page by page.
\<close>

lemma vmm_alloc_pages_some:
  assumes ok: "vmm_ok I S s" and sp: "sp \<in> S" and v: "\<forall>j < n. PML4_INDEX (nth_page virt j) \<in> I"
    and n: "0 < n" "n \<le> 2 ^ 36" and fl: "flags AND PAGE_MASK = 0"
    and run: "free_run s n a" "\<forall>b < a. \<not> free_run s n b" and room: "4 * n \<le> card (free_pages s)"
  obtains t where "vmm_alloc_pages sp virt n flags s = (virt, t)" "vmm_step I S s t"
    "\<And>j. j < n \<Longrightarrow> xlate t sp (vpath (nth_page virt j)) = Some (page_addr (a + j))"
proof -
  have inv: "pmm_inv s" and z: "0 \<notin> free_pages s" using ok by (auto simp: vmm_ok_def)
  obtain u where u: "pmm_alloc_pages n s = (page_addr a, u)" "alloc_post s u a n"
    using pmm_alloc_pages_some [OF inv n(1) run] by blast
  note U = alloc_run_step [OF ok u(2)]
  have sub: "{a..<a + n} \<subseteq> free_pages s" using run(1) by (simp add: free_run_def)
  then have a0: "a \<in> free_pages s" "a + n - 1 \<in> free_pages s" using n(1) by auto
  then have "a \<noteq> 0" "a + n \<le> 2 ^ 52"
    using z used_page_small [OF inv, of "a + n - 1"] by (metis, simp)
  then have pa: "page_addr a \<noteq> 0" using page_addr_unat [of a] n(1) by (auto simp: unat_eq_0)
  have uok: "vmm_ok I S u" using U(1) by (simp add: vmm_step_def)
  have few: "3 * n \<le> card (free_pages u)" using U(3) room by simp
  obtain ok t where t: "vmm_map_range sp virt (page_addr a) n flags u = (ok, t)"
    "if ok then range_mapped I S u t sp virt (page_addr a) 0 n else card (free_pages u) < 3 * n"
    using map_range_from_cases [OF uok sp, of 0 n virt flags "page_addr a", unfolded add_0 nth_page_0] v n(2) fl
    unfolding vmm_map_range_def by (metis (full_types))
  then have ok and R: "range_mapped I S u t sp virt (page_addr a) 0 n" using few by (auto split: if_splits)
  have "vmm_alloc_pages sp virt n flags s = (virt, t)"
    using u(1) pa t(1) \<open>ok\<close> by (simp add: vmm_alloc_pages_def)
  moreover have "vmm_step I S s t"
    using vmm_step_trans [OF inv U(1)] R by (simp add: range_mapped_def)
  moreover have "nth_page (page_addr a) j AND PAGE_MASK = page_addr (a + j)" if "j < n" for j
  proof -
    have e: "nth_page (page_addr a) j = page_addr (a + j)" by (simp only: nth_page_def page_addr_def of_nat_add of_nat_mult distrib_right)
    have "a + j < 2 ^ 52" using that \<open>a + n \<le> 2 ^ 52\<close> by linarith
    then show ?thesis unfolding e using page_addr_frame(1) [of "a + j"] aligned_mask [of "page_addr (a + j)"] by simp
  qed
  ultimately show ?thesis using that R by (auto simp: range_mapped_def)
qed

end
