(* ===== verification/Heap.thy ===== *)
theory Heap
  imports Vmm
begin

text \<open>
  The kernel heap, \<^verbatim>\<open>src/kernel/heap.c\<close>. The state extends that of the virtual memory
  manager, which the first allocation calls to map the heap. The memory behind the
  heap's virtual addresses is \<open>hmem\<close>, byte by byte: a block header is four fields at
  its address (\<open>magic\<close> at 0, \<open>size\<close> at 8, \<open>is_free\<close> at 16, \<open>next\<close> at 24), and the payload
  follows. The loops over the block list are partial functions: a cyclic list would
  make them run for ever, which is the value \<open>None\<close>, and that they end is proved.
\<close>

section \<open>32-bit cells\<close>

definition read32 :: "memory \<Rightarrow> nat \<Rightarrow> u32" where
  "read32 m a = ucast (read_le m a 4)"

definition write32 :: "memory \<Rightarrow> nat \<Rightarrow> u32 \<Rightarrow> memory" where
  "write32 m a v = (\<lambda>x. if a \<le> x \<and> x < a + 4 then ucast (drop_bit (8 * (x - a)) v) else m x)"

lemma bit_read32: "n < 32 \<Longrightarrow> bit (read32 m a) n \<longleftrightarrow> bit (m (a + n div 8)) (n mod 8)"
  using bit_read_le [of n 4 m a] by (simp add: read32_def bit_simps)

lemma read32_write32_same [simp]: "read32 (write32 m a v) a = v"
  by (rule bit_word_eqI) (auto simp: bit_read32 write32_def bit_simps)

lemma read32_cong:
  assumes "\<And>i. i < 4 \<Longrightarrow> m (a + i) = m' (a + i)"
  shows "read32 m a = read32 m' a"
  using assms by (intro bit_word_eqI) (simp add: bit_read32)

lemma write32_other [simp]: "x < a \<or> a + 4 \<le> x \<Longrightarrow> write32 m a v x = m x"
  by (auto simp: write32_def)

section \<open>State\<close>

definition BLOCK_MAGIC :: u32 where "BLOCK_MAGIC = 0xDEADBEEF"

abbreviation HEAP_VIRTUAL_BASE :: u64 where "HEAP_VIRTUAL_BASE \<equiv> 0xFFFFFFFF90000000"
abbreviation DEFAULT_HEAP_SIZE :: u64 where "DEFAULT_HEAP_SIZE \<equiv> 0x1000000"
abbreviation SIZEOF_BLOCK :: u64 where "SIZEOF_BLOCK \<equiv> 32"

record heap = vmm +
  hmem :: memory
  free_list :: u64
  heap_initialized :: bool
  heap_start :: u64
  heap_size :: u64

record HeapStats =
  total_size :: u64
  used_size :: u64
  free_size :: u64
  num_blocks :: u64
  num_free_blocks :: u64

definition b_magic :: "memory \<Rightarrow> u64 \<Rightarrow> u32" where "b_magic m b = read32 m (unat b)"
definition b_size :: "memory \<Rightarrow> u64 \<Rightarrow> u64" where "b_size m b = read64 m (unat b + 8)"
definition b_is_free :: "memory \<Rightarrow> u64 \<Rightarrow> u32" where "b_is_free m b = read32 m (unat b + 16)"
definition b_next :: "memory \<Rightarrow> u64 \<Rightarrow> u64" where "b_next m b = read64 m (unat b + 24)"

definition set_magic :: "u64 \<Rightarrow> u32 \<Rightarrow> memory \<Rightarrow> memory" where "set_magic b v m = write32 m (unat b) v"
definition set_size :: "u64 \<Rightarrow> u64 \<Rightarrow> memory \<Rightarrow> memory" where "set_size b v m = write64 m (unat b + 8) v"
definition set_is_free :: "u64 \<Rightarrow> u32 \<Rightarrow> memory \<Rightarrow> memory" where "set_is_free b v m = write32 m (unat b + 16) v"
definition set_next :: "u64 \<Rightarrow> u64 \<Rightarrow> memory \<Rightarrow> memory" where "set_next b v m = write64 m (unat b + 24) v"

definition align :: "u64 \<Rightarrow> u64" where
  "align sz = (sz + 15) AND NOT 15"

section \<open>Operations\<close>

definition init_heap :: "'a heap_scheme \<Rightarrow> 'a heap_scheme" where
  "init_heap s =
     (if heap_initialized s then s
      else (let s = s\<lparr>heap_start := HEAP_VIRTUAL_BASE, heap_size := DEFAULT_HEAP_SIZE\<rparr>;
                pages_needed = (heap_size s + of_nat PAGE_SIZE - 1) div of_nat PAGE_SIZE;
                (result, s) = vmm_alloc_pages SKernel (heap_start s) (unat pages_needed)
                                (PAGE_WRITE OR PAGE_PRESENT) s
            in if result = 0 then s
               else (let b = heap_start s;
                         m = set_magic b BLOCK_MAGIC (hmem s);
                         m = set_size b (heap_size s - SIZEOF_BLOCK) m;
                         m = set_is_free b 1 m;
                         m = set_next b 0 m
                     in s\<lparr>free_list := b, hmem := m, heap_initialized := True\<rparr>)))"

datatype fit = Found u64 | Corrupt | NoFit

partial_function (option) find_fit :: "memory \<Rightarrow> u64 \<Rightarrow> u64 \<Rightarrow> fit option" where
  "find_fit m n current =
     (if current = 0 then Some NoFit
      else if b_magic m current \<noteq> BLOCK_MAGIC then Some Corrupt
      else if b_is_free m current \<noteq> 0 \<and> b_size m current \<ge> n then Some (Found current)
      else find_fit m n (b_next m current))"

definition take_block :: "u64 \<Rightarrow> u64 \<Rightarrow> memory \<Rightarrow> memory" where
  "take_block current aligned_size m =
     set_is_free current 0
       (if b_size m current \<ge> aligned_size + SIZEOF_BLOCK + 16
        then (let new_block = current + SIZEOF_BLOCK + aligned_size;
                  m = set_magic new_block BLOCK_MAGIC m;
                  m = set_size new_block (b_size m current - aligned_size - SIZEOF_BLOCK) m;
                  m = set_is_free new_block 1 m;
                  m = set_next new_block (b_next m current) m;
                  m = set_size current aligned_size m
              in set_next current new_block m)
        else m)"

definition kmalloc :: "u64 \<Rightarrow> 'a heap_scheme \<Rightarrow> (u64 \<times> 'a heap_scheme) option" where
  "kmalloc sz s =
     (let s = (if \<not> heap_initialized s then init_heap s else s) in
      if \<not> heap_initialized s then Some (0, s)
      else if sz = 0 then Some (0, s)
      else (let aligned_size = align sz in
            case find_fit (hmem s) aligned_size (free_list s) of
              None \<Rightarrow> None
            | Some (Found current) \<Rightarrow>
                Some (current + SIZEOF_BLOCK, s\<lparr>hmem := take_block current aligned_size (hmem s)\<rparr>)
            | Some _ \<Rightarrow> Some (0, s)))"

partial_function (option) find_prev :: "memory \<Rightarrow> u64 \<Rightarrow> u64 \<Rightarrow> u64 option" where
  "find_prev m block current =
     (if current \<noteq> 0 \<and> b_next m current \<noteq> block then find_prev m block (b_next m current)
      else Some current)"

definition merge_next :: "u64 \<Rightarrow> memory \<Rightarrow> memory" where
  "merge_next b m =
     (let nxt = b_next m b;
          m = set_size b (b_size m b + (SIZEOF_BLOCK + b_size m nxt)) m
      in set_next b (b_next m nxt) m)"

definition kfree :: "u64 \<Rightarrow> 'a heap_scheme \<Rightarrow> 'a heap_scheme option" where
  "kfree ptr s =
     (if ptr = 0 then Some s
      else if \<not> heap_initialized s then Some s
      else (let heap_end = heap_start s + heap_size s in
            if ptr < heap_start s \<or> ptr \<ge> heap_end then Some s
            else (let block = ptr - SIZEOF_BLOCK; m = hmem s in
                  if b_magic m block \<noteq> BLOCK_MAGIC then Some s
                  else if b_is_free m block \<noteq> 0 then Some s
                  else (let m = set_is_free block 1 m;
                            m = (if b_next m block \<noteq> 0 \<and> b_is_free m (b_next m block) \<noteq> 0
                                 then merge_next block m else m)
                        in case find_prev m block (free_list s) of
                             None \<Rightarrow> None
                           | Some current \<Rightarrow>
                               (let m = (if current \<noteq> 0 \<and> b_is_free m current \<noteq> 0
                                         then (let m = set_size current
                                                 (b_size m current + (SIZEOF_BLOCK + b_size m block)) m
                                               in set_next current (b_next m block) m)
                                         else m)
                                in Some (s\<lparr>hmem := m\<rparr>))))))"

partial_function (option) count_blocks :: "memory \<Rightarrow> u64 \<Rightarrow> HeapStats \<Rightarrow> HeapStats option" where
  "count_blocks m current st =
     (if current = 0 then Some st
      else (let st = st\<lparr>num_blocks := num_blocks st + 1\<rparr>;
                st = (if b_is_free m current \<noteq> 0
                      then st\<lparr>num_free_blocks := num_free_blocks st + 1, free_size := free_size st + b_size m current\<rparr>
                      else st\<lparr>used_size := used_size st + b_size m current\<rparr>)
            in count_blocks m (b_next m current) st))"

definition get_heap_stats :: "'a heap_scheme \<Rightarrow> HeapStats option \<Rightarrow> HeapStats option option" where
  "get_heap_stats s stats =
     (if \<not> heap_initialized s then Some stats
      else case stats of
             None \<Rightarrow> Some None
           | Some st \<Rightarrow>
               (case count_blocks (hmem s) (free_list s)
                       \<lparr>total_size = heap_size s, used_size = 0, free_size = 0, num_blocks = 0, num_free_blocks = 0\<rparr> of
                  None \<Rightarrow> None
                | Some st \<Rightarrow> Some (Some st)))"

partial_function (option) defrag :: "u64 \<Rightarrow> memory \<Rightarrow> memory option" where
  "defrag current m =
     (if current = 0 then Some m
      else if b_is_free m current \<noteq> 0 \<and> b_next m current \<noteq> 0 \<and> b_is_free m (b_next m current) \<noteq> 0
      then defrag current (merge_next current m)
      else defrag (b_next m current) m)"

definition defrag_heap :: "'a heap_scheme \<Rightarrow> 'a heap_scheme option" where
  "defrag_heap s =
     (if \<not> heap_initialized s then Some s
      else case defrag (free_list s) (hmem s) of None \<Rightarrow> None | Some m \<Rightarrow> Some (s\<lparr>hmem := m\<rparr>))"

section \<open>Header fields\<close>

lemmas field_defs = b_magic_def b_size_def b_is_free_def b_next_def
lemmas set_defs = set_magic_def set_size_def set_is_free_def set_next_def

lemma read32_write64_other: "a + 8 \<le> b \<or> b + 4 \<le> a \<Longrightarrow> read32 (write64 m a v) b = read32 m b"
  by (rule read32_cong) (auto simp: write64_def)

lemma read32_write32_other: "a + 4 \<le> b \<or> b + 4 \<le> a \<Longrightarrow> read32 (write32 m a v) b = read32 m b"
  by (rule read32_cong) (auto simp: write32_def)

lemma read64_write32_other: "a + 4 \<le> b \<or> b + 8 \<le> a \<Longrightarrow> read64 (write32 m a v) b = read64 m b"
  by (rule read64_cong) (auto simp: write32_def)

lemmas cell_others = read32_write64_other read32_write32_other read64_write32_other read64_write64_other

lemma fields_same [simp]:
  "b_magic (set_magic b x m) b = x" "b_size (set_magic b x m) b = b_size m b"
  "b_is_free (set_magic b x m) b = b_is_free m b" "b_next (set_magic b x m) b = b_next m b"
  "b_magic (set_size b y m) b = b_magic m b" "b_size (set_size b y m) b = y"
  "b_is_free (set_size b y m) b = b_is_free m b" "b_next (set_size b y m) b = b_next m b"
  "b_magic (set_is_free b x m) b = b_magic m b" "b_size (set_is_free b x m) b = b_size m b"
  "b_is_free (set_is_free b x m) b = x" "b_next (set_is_free b x m) b = b_next m b"
  "b_magic (set_next b y m) b = b_magic m b" "b_size (set_next b y m) b = b_size m b"
  "b_is_free (set_next b y m) b = b_is_free m b" "b_next (set_next b y m) b = y"
  by (simp_all add: field_defs set_defs cell_others)

text \<open>A store into one header changes no byte outside it.\<close>

definition header :: "u64 \<Rightarrow> nat set" where
  "header b = {unat b..<unat b + 32}"

definition same_bytes :: "nat set \<Rightarrow> memory \<Rightarrow> memory \<Rightarrow> bool" where
  "same_bytes A m m' \<longleftrightarrow> (\<forall>x \<in> A. m' x = m x)"

lemma set_out:
  "x \<notin> header b \<Longrightarrow> set_magic b u m x = m x" "x \<notin> header b \<Longrightarrow> set_size b v m x = m x"
  "x \<notin> header b \<Longrightarrow> set_is_free b u m x = m x" "x \<notin> header b \<Longrightarrow> set_next b v m x = m x"
  by (auto simp: header_def set_defs write32_def write64_def)

lemma fields_cong:
  assumes "same_bytes (header b) m m'"
  shows "b_magic m' b = b_magic m b" "b_size m' b = b_size m b" "b_is_free m' b = b_is_free m b" "b_next m' b = b_next m b"
  using assms unfolding field_defs
  by (auto simp: same_bytes_def header_def intro!: read32_cong read64_cong)

lemma fields_other:
  assumes "header b \<inter> header c = {}"
  shows "b_magic (set_magic c u m) b = b_magic m b" "b_size (set_magic c u m) b = b_size m b"
    "b_is_free (set_magic c u m) b = b_is_free m b" "b_next (set_magic c u m) b = b_next m b"
    "b_magic (set_size c v m) b = b_magic m b" "b_size (set_size c v m) b = b_size m b"
    "b_is_free (set_size c v m) b = b_is_free m b" "b_next (set_size c v m) b = b_next m b"
    "b_magic (set_is_free c u m) b = b_magic m b" "b_size (set_is_free c u m) b = b_size m b"
    "b_is_free (set_is_free c u m) b = b_is_free m b" "b_next (set_is_free c u m) b = b_next m b"
    "b_magic (set_next c v m) b = b_magic m b" "b_size (set_next c v m) b = b_size m b"
    "b_is_free (set_next c v m) b = b_is_free m b" "b_next (set_next c v m) b = b_next m b"
proof -
  have "same_bytes (header b) m (set_magic c u m)" "same_bytes (header b) m (set_size c v m)"
    "same_bytes (header b) m (set_is_free c u m)" "same_bytes (header b) m (set_next c v m)"
    using assms by (auto simp: same_bytes_def disjoint_iff intro!: set_out)
  then show "b_magic (set_magic c u m) b = b_magic m b" "b_size (set_magic c u m) b = b_size m b"
    "b_is_free (set_magic c u m) b = b_is_free m b" "b_next (set_magic c u m) b = b_next m b"
    "b_magic (set_size c v m) b = b_magic m b" "b_size (set_size c v m) b = b_size m b"
    "b_is_free (set_size c v m) b = b_is_free m b" "b_next (set_size c v m) b = b_next m b"
    "b_magic (set_is_free c u m) b = b_magic m b" "b_size (set_is_free c u m) b = b_size m b"
    "b_is_free (set_is_free c u m) b = b_is_free m b" "b_next (set_is_free c u m) b = b_next m b"
    "b_magic (set_next c v m) b = b_magic m b" "b_size (set_next c v m) b = b_size m b"
    "b_is_free (set_next c v m) b = b_is_free m b" "b_next (set_next c v m) b = b_next m b"
    by (simp_all add: fields_cong)
qed

section \<open>The block list\<close>

text \<open>
  The abstract heap is a list of blocks (address of the header, size of the payload, free
  or not). \<open>tiled a e bs\<close>: the blocks cover the addresses from \<open>a\<close> to \<open>e\<close> without gaps
  and overlaps, with payloads in units of 16 bytes. \<open>rep m bs p\<close>: the memory holds the
  headers of these blocks, linked in this order, the last one to \<open>p\<close>.
\<close>

type_synonym blk = "nat \<times> nat \<times> bool"

fun tiled :: "nat \<Rightarrow> nat \<Rightarrow> blk list \<Rightarrow> bool" where
  "tiled a e [] \<longleftrightarrow> a = e"
| "tiled a e ((b, sz, fr) # bs) \<longleftrightarrow> b = a \<and> 16 dvd sz \<and> tiled (a + 32 + sz) e bs"

fun hd_ptr :: "blk list \<Rightarrow> u64 \<Rightarrow> u64" where
  "hd_ptr [] p = p"
| "hd_ptr ((a, sz, fr) # bs) p = of_nat a"

fun rep :: "memory \<Rightarrow> blk list \<Rightarrow> u64 \<Rightarrow> bool" where
  "rep m [] p \<longleftrightarrow> True"
| "rep m ((a, sz, fr) # bs) p \<longleftrightarrow>
     b_magic m (of_nat a) = BLOCK_MAGIC \<and> b_size m (of_nat a) = of_nat sz
     \<and> (b_is_free m (of_nat a) \<noteq> 0 \<longleftrightarrow> fr) \<and> b_next m (of_nat a) = hd_ptr bs p \<and> rep m bs p"

lemma tiled_append: "tiled a e (xs @ ys) \<longleftrightarrow> (\<exists>c. tiled a c xs \<and> tiled c e ys)"
  by (induction xs arbitrary: a) (auto split: prod.splits)

lemma hd_ptr_append: "hd_ptr (xs @ ys) p = hd_ptr xs (hd_ptr ys p)"
  by (cases xs) auto

lemma rep_append: "rep m (xs @ ys) p \<longleftrightarrow> rep m xs (hd_ptr ys p) \<and> rep m ys p"
  by (induction xs) (auto simp: hd_ptr_append)

lemma tiled_le: "tiled a e bs \<Longrightarrow> a \<le> e"
  by (induction bs arbitrary: a) (auto, force)

lemma tiled_bounds: "tiled a e bs \<Longrightarrow> (b, sz, fr) \<in> set bs \<Longrightarrow> a \<le> b \<and> b + 32 + sz \<le> e"
proof (induction bs arbitrary: a)
  case (Cons x bs)
  obtain c s f where x: "x = (c, s, f)" by (cases x)
  with Cons.prems(1) have "c = a" "tiled (a + 32 + s) e bs" by auto
  with Cons x tiled_le [of "a + 32 + s" e bs] show ?case by fastforce
qed simp

lemma unat_addr: "b < 2 ^ 64 \<Longrightarrow> unat (of_nat b :: u64) = b"
  by (rule unat_of_nat64)

text \<open>What the blocks own: the header and the payload.\<close>

definition extent :: "blk list \<Rightarrow> nat set" where
  "extent bs = (\<Union>(b, sz, fr) \<in> set bs. {b..<b + 32 + sz})"

lemma extent_tiled: "tiled a e bs \<Longrightarrow> extent bs = {a..<e}"
proof (induction bs arbitrary: a)
  case (Cons x bs)
  obtain c s f where x: "x = (c, s, f)" by (cases x)
  with Cons.prems have t: "c = a" "tiled (a + 32 + s) e bs" by auto
  have "extent (x # bs) = {a..<a + 32 + s} \<union> extent bs" by (simp add: extent_def x t(1))
  with Cons.IH [OF t(2)] tiled_le [OF t(2)] show ?case by auto
qed (simp add: extent_def)

lemma rep_same_bytes:
  assumes "rep m bs p" "tiled a e bs" "e < 2 ^ 64" "\<And>x. a \<le> x \<Longrightarrow> x < e \<Longrightarrow> m' x = m x"
  shows "rep m' bs p"
  using assms(1,2,4)
proof (induction bs arbitrary: a)
  case (Cons x bs)
  obtain c s f where x: "x = (c, s, f)" by (cases x)
  with Cons.prems have t: "c = a" "tiled (a + 32 + s) e bs" by auto
  have e: "a + 32 + s \<le> e" using tiled_le [OF t(2)] .
  have "same_bytes (header (of_nat a)) m m'"
    using Cons.prems(3) e assms(3) by (auto simp: same_bytes_def header_def unat_addr)
  from fields_cong [OF this] Cons.IH [OF _ t(2)] Cons.prems e show ?case
    by (simp add: x t(1))
qed simp

section \<open>First fit\<close>

definition first_fit :: "nat \<Rightarrow> blk list \<Rightarrow> blk option" where
  "first_fit n bs = List.find (\<lambda>(b, sz, fr). fr \<and> n \<le> sz) bs"

lemma find_fit_rep:
  assumes "rep m bs 0" "tiled a e bs" "0 < a" "e < 2 ^ 64"
  shows "find_fit m n (hd_ptr bs 0)
    = Some (case first_fit (unat n) bs of None \<Rightarrow> NoFit | Some (b, sz, fr) \<Rightarrow> Found (of_nat b))"
  using assms
proof (induction bs arbitrary: a)
  case Nil
  then show ?case by (simp add: find_fit.simps first_fit_def)
next
  case (Cons x bs)
  obtain c s f where x: "x = (c, s, f)" by (cases x)
  with Cons.prems have t: "c = a" "tiled (a + 32 + s) e bs" by auto
  have e: "a + 32 + s \<le> e" using tiled_le [OF t(2)] .
  have nz: "(of_nat a :: u64) \<noteq> 0" using Cons.prems(3,4) e unat_addr [of a] by (metis unat_0 add_leD1 less_le_trans linorder_not_less order_le_less_trans neq0_conv)
  have sz: "unat (of_nat s :: u64) = s" using e Cons.prems(4) by (intro unat_addr) simp
  have "n \<le> of_nat s \<longleftrightarrow> unat n \<le> s" by (simp add: word_le_nat_alt sz)
  then show ?case
    using Cons.IH [OF _ t(2)] Cons.prems x t(1) nz
    by (subst find_fit.simps) (auto simp: first_fit_def)
qed

definition carve :: "nat \<Rightarrow> nat \<Rightarrow> nat \<Rightarrow> blk list" where
  "carve n a sz = (if n + 48 \<le> sz then [(a, n, False), (a + 32 + n, sz - n - 32, True)] else [(a, sz, False)])"

fun take_fit :: "nat \<Rightarrow> blk list \<Rightarrow> blk list" where
  "take_fit n [] = []"
| "take_fit n ((a, sz, fr) # bs) = (if fr \<and> n \<le> sz then carve n a sz @ bs else (a, sz, fr) # take_fit n bs)"

lemma first_fit_split:
  assumes "first_fit n bs = Some (a, sz, fr)"
  obtains xs ys where "bs = xs @ (a, sz, True) # ys" "fr" "n \<le> sz" "take_fit n bs = xs @ carve n a sz @ ys"
    "\<forall>(b, s, f) \<in> set xs. \<not> (f \<and> n \<le> s)"
proof -
  have "\<exists>xs ys. bs = xs @ (a, sz, True) # ys \<and> fr \<and> n \<le> sz \<and> take_fit n bs = xs @ carve n a sz @ ys
      \<and> (\<forall>(b, s, f) \<in> set xs. \<not> (f \<and> n \<le> s))"
    using assms
  proof (induction bs)
    case (Cons x bs)
    obtain c s f where x: "x = (c, s, f)" by (cases x)
    show ?case
    proof (cases "f \<and> n \<le> s")
      case True
      with Cons.prems x show ?thesis by (intro exI [of _ "[]"] exI [of _ bs]) (auto simp: first_fit_def)
    next
      case False
      with Cons.prems x have "first_fit n bs = Some (a, sz, fr)" by (auto simp: first_fit_def)
      from Cons.IH [OF this] obtain xs ys where "bs = xs @ (a, sz, True) # ys" "fr" "n \<le> sz"
        "take_fit n bs = xs @ carve n a sz @ ys" "\<forall>(b, s, f) \<in> set xs. \<not> (f \<and> n \<le> s)" by blast
      with False x show ?thesis by (intro exI [of _ "x # xs"] exI [of _ ys]) auto
    qed
  qed (simp add: first_fit_def)
  then show ?thesis using that by blast
qed

lemma tiled_carve:
  assumes "n \<le> sz" "16 dvd n" "16 dvd sz"
  shows "tiled a (a + 32 + sz) (carve n a sz)" "hd_ptr (carve n a sz @ ys) p = of_nat a"
  using assms by (auto simp: carve_def)

lemma take_block_rep:
  assumes r: "rep m ((a, sz, True) # ys) p" and b: "16 \<le> a" "a + 32 + sz < 2 ^ 64" and n: "n \<le> sz"
  defines "m' \<equiv> take_block (of_nat a) (of_nat n) m"
  shows "\<And>x. x \<notin> {a..<a + 32 + sz} \<Longrightarrow> m' x = m x" "rep m' (carve n a sz) (hd_ptr ys p)"
proof -
  let ?a = "of_nat a :: u64" and ?n = "of_nat n :: u64" and ?c = "of_nat (a + 32 + n) :: u64"
  have u: "unat ?a = a" "unat ?n = n" "unat (of_nat sz :: u64) = sz" using b n by (simp_all add: unat_addr)
  have f: "b_magic m ?a = BLOCK_MAGIC" "b_size m ?a = of_nat sz" "b_next m ?a = hd_ptr ys p" using r by auto
  have "?n + SIZEOF_BLOCK + 16 = of_nat (n + 48)" by simp
  moreover have "n + 48 < 2 ^ 64" using b n by linarith
  ultimately have "unat (?n + SIZEOF_BLOCK + 16) = n + 48" by (simp only: unat_addr)
  then have split: "b_size m ?a \<ge> ?n + SIZEOF_BLOCK + 16 \<longleftrightarrow> n + 48 \<le> sz"
    by (simp only: f word_le_nat_alt u)
  have "(\<forall>x. x \<notin> {a..<a + 32 + sz} \<longrightarrow> m' x = m x) \<and> rep m' (carve n a sz) (hd_ptr ys p)"
  proof (cases "n + 48 \<le> sz")
    case False
    have "x \<notin> header ?a" if "x \<notin> {a..<a + 32 + sz}" for x using that by (auto simp: header_def u)
    moreover have "m' = set_is_free ?a 0 m"
      unfolding m'_def take_block_def split using False by (simp only: if_False)
    ultimately show ?thesis using False f by (auto simp: carve_def set_out)
  next
    case True
    have uc: "unat ?c = a + 32 + n" using b n by (intro unat_addr) simp
    have c: "?a + SIZEOF_BLOCK + ?n = ?c" by simp
    have dis: "header ?a \<inter> header ?c = {}" "header ?c \<inter> header ?a = {}" unfolding header_def u uc by auto
    have out: "x \<notin> header ?a \<and> x \<notin> header ?c" if "x \<notin> {a..<a + 32 + sz}" for x
      using that True unfolding header_def u uc by auto
    have sz': "of_nat sz - ?n - SIZEOF_BLOCK = of_nat (sz - n - 32)" using True by (simp add: of_nat_diff)
    note other = fields_other [OF dis(1)] fields_other [OF dis(2)]
    have "m' = set_is_free ?a 0 (set_next ?a ?c (set_size ?a ?n (set_next ?c (hd_ptr ys p) (set_is_free ?c 1
        (set_size ?c (of_nat (sz - n - 32)) (set_magic ?c BLOCK_MAGIC m))))))"
      unfolding m'_def take_block_def split using True
      by (simp only: if_True Let_def c other f sz')
    with True f out show ?thesis by (auto simp: carve_def set_out other simp del: of_nat_add)
  qed
  then show "\<And>x. x \<notin> {a..<a + 32 + sz} \<Longrightarrow> m' x = m x" "rep m' (carve n a sz) (hd_ptr ys p)" by auto
qed

lemma tiled_end: "tiled a c bs \<Longrightarrow> tiled a d bs \<Longrightarrow> c = d"
  by (induction bs arbitrary: a) auto

text \<open>One block of the list changes, within its own extent.\<close>

lemma rep_replace:
  assumes r: "rep m (xs @ bs @ ys) 0" and t: "tiled A e (xs @ bs @ ys)" "tiled a c bs" and e: "e < 2 ^ 64"
    and out: "\<And>x. x \<notin> {a..<c} \<Longrightarrow> m' x = m x" and new: "rep m' cs (hd_ptr ys 0)" "tiled a c cs"
      "hd_ptr (cs @ ys) 0 = hd_ptr (bs @ ys) 0" and ne: "bs \<noteq> []"
  shows "rep m' (xs @ cs @ ys) 0" "tiled A e (xs @ cs @ ys)"
proof -
  obtain a' c' where s: "tiled A a' xs" "tiled a' c' bs" "tiled c' e ys" using t(1) by (auto simp: tiled_append)
  have "a' = a" using s(2) t(2) ne by (cases bs) auto
  moreover have "c' = c"
    using s(2) t(2) calculation tiled_end by blast
  ultimately have s: "tiled A a xs" "tiled c e ys" using s by auto
  have le: "A \<le> a" "a \<le> c" "c \<le> e" using tiled_le [OF s(1)] tiled_le [OF t(2)] tiled_le [OF s(2)] by auto
  have "rep m xs (hd_ptr (bs @ ys) 0)" "rep m ys 0" using r by (auto simp: rep_append)
  then have "rep m' xs (hd_ptr (cs @ ys) 0)" "rep m' ys 0"
    using rep_same_bytes [OF _ s(1), of m] rep_same_bytes [OF _ s(2), of m] le e out new(3) by auto
  with new(1) show "rep m' (xs @ cs @ ys) 0" by (simp add: rep_append)
  show "tiled A e (xs @ cs @ ys)" using s new(2) by (auto simp: tiled_append)
qed

section \<open>Invariant and refinement of the operations\<close>

abbreviation heap_lo :: nat where "heap_lo \<equiv> 0xFFFFFFFF90000000"
abbreviation heap_hi :: nat where "heap_hi \<equiv> 0xFFFFFFFF91000000"

definition heap_inv :: "'a heap_scheme \<Rightarrow> blk list \<Rightarrow> bool" where
  "heap_inv s bs \<longleftrightarrow>
     heap_initialized s \<and> heap_start s = HEAP_VIRTUAL_BASE \<and> heap_size s = DEFAULT_HEAP_SIZE
     \<and> free_list s = HEAP_VIRTUAL_BASE \<and> tiled heap_lo heap_hi bs \<and> rep (hmem s) bs 0"

definition payload :: "blk \<Rightarrow> nat set" where
  "payload = (\<lambda>(a, sz, fr). {a + 32..<a + 32 + sz})"

definition allocated :: "blk list \<Rightarrow> blk list" where
  "allocated bs = filter (\<lambda>(a, sz, fr). \<not> fr) bs"

lemma heap_inv_ptr: "heap_inv s bs \<Longrightarrow> free_list s = hd_ptr bs 0"
  by (cases bs) (auto simp: heap_inv_def)

lemma align_nat: "unat (align sz) = (unat sz + 15) mod 2 ^ 64 div 16 * 16"
proof -
  have m: "(15::u64) = mask 4" by (simp add: mask_eq_exp_minus_1)
  have "w AND NOT 15 = push_bit 4 (drop_bit 4 w)" for w :: u64
    unfolding m by (intro bit_word_eqI) (auto simp: bit_simps)
  then have "align sz = push_bit 4 (drop_bit 4 (sz + 15))" unfolding align_def .
  then have "align sz = (sz + 15) div 16 * 16" by (simp add: push_bit_eq_mult drop_bit_eq_div)
  moreover have "unat ((sz + 15) div 16) * 16 < 2 ^ 64"
    using unat_lt64 [of "sz + 15"] by (simp add: unat_div_distrib)
  ultimately show ?thesis by (simp add: unat_word_ariths unat_div_distrib)
qed

lemma align_dvd: "16 dvd unat (align sz)"
  by (simp add: align_nat)

lemma align_ge: "unat sz \<le> 2 ^ 64 - 16 \<Longrightarrow> unat sz \<le> unat (align sz) \<and> unat (align sz) < unat sz + 16"
  unfolding align_nat by (simp, linarith)

lemma kmalloc_refine:
  assumes inv: "heap_inv s bs" and sz: "sz \<noteq> 0"
  defines "n \<equiv> unat (align sz)"
  shows "first_fit n bs = None \<Longrightarrow> kmalloc sz s = Some (0, s)"
    and "first_fit n bs = Some (a, k, fr) \<Longrightarrow>
      \<exists>t. kmalloc sz s = Some (of_nat (a + 32), t) \<and> heap_inv t (take_fit n bs)
        \<and> t = s\<lparr>hmem := hmem t\<rparr> \<and> (\<forall>x. x \<notin> {a..<a + 32 + k} \<longrightarrow> hmem t x = hmem s x)"
proof -
  have I: "heap_initialized s" "tiled heap_lo heap_hi bs" "rep (hmem s) bs 0"
    "free_list s = hd_ptr bs 0" using inv heap_inv_ptr [OF inv] by (auto simp: heap_inv_def)
  note F = find_fit_rep [OF I(3,2), of "align sz", folded n_def I(4)]
  show "kmalloc sz s = Some (0, s)" if "first_fit n bs = None"
    using F that I(1) sz by (simp add: kmalloc_def Let_def)
  assume fit: "first_fit n bs = Some (a, k, fr)"
  obtain xs ys where split: "bs = xs @ (a, k, True) # ys" "n \<le> k" "take_fit n bs = xs @ carve n a k @ ys"
    by (rule first_fit_split [OF fit]) (rule that; assumption)
  let ?m = "take_block (of_nat a) (align sz) (hmem s)"
  have al: "align sz = of_nat n" by (simp add: n_def)
  have b: "heap_lo \<le> a" "a + 32 + k \<le> heap_hi" using tiled_bounds [OF I(2), of a k True] split(1) by auto
  have t1: "tiled a (a + 32 + k) [(a, k, True)]" using I(2) split(1) by (auto simp: tiled_append)
  have dv: "16 dvd n" "16 dvd k" using align_dvd t1 by (auto simp: n_def)
  have r: "rep (hmem s) ((a, k, True) # ys) 0" using I(3) split(1) by (simp add: rep_append)
  have hi: "16 \<le> a" "a + 32 + k < 2 ^ 64" using b by auto
  note T = take_block_rep [OF r hi split(2), folded al]
  have R: "rep ?m (xs @ carve n a k @ ys) 0" "tiled heap_lo heap_hi (xs @ carve n a k @ ys)"
    using rep_replace [of "hmem s" xs "[(a, k, True)]" ys heap_lo heap_hi a "a + 32 + k" ?m "carve n a k"]
      I(2,3) split(1) t1 T tiled_carve [OF split(2) dv] by auto
  then have "heap_inv (s\<lparr>hmem := ?m\<rparr>) (take_fit n bs)"
    using inv split(3) by (simp add: heap_inv_def)
  moreover have "kmalloc sz s = Some (of_nat (a + 32), s\<lparr>hmem := ?m\<rparr>)"
    using F fit I(1) sz by (simp add: kmalloc_def Let_def add.commute)
  ultimately show "\<exists>t. kmalloc sz s = Some (of_nat (a + 32), t) \<and> heap_inv t (take_fit n bs)
        \<and> t = s\<lparr>hmem := hmem t\<rparr> \<and> (\<forall>x. x \<notin> {a..<a + 32 + k} \<longrightarrow> hmem t x = hmem s x)"
    using T(1) by (intro exI [of _ "s\<lparr>hmem := ?m\<rparr>"]) auto
qed

section \<open>Release\<close>

lemma merge_next_rep:
  assumes r: "rep m ((a, sz, fa) # (b, sb, fb) # ys) p" and b: "b = a + 32 + sz" "b + 32 + sb < 2 ^ 64"
  defines "m' \<equiv> merge_next (of_nat a) m"
  shows "\<And>x. x \<notin> header (of_nat a) \<Longrightarrow> m' x = m x" "rep m' [(a, sz + 32 + sb, fa)] (hd_ptr ys p)"
proof -
  let ?a = "of_nat a :: u64" and ?b = "of_nat b :: u64"
  have "a < 2 ^ 64" "b < 2 ^ 64" using b by linarith+
  then have u: "unat ?a = a" "unat ?b = b" by (simp_all only: unat_addr)
  have dis: "header ?b \<inter> header ?a = {}" unfolding header_def u using b(1) by auto
  have f: "b_magic m ?a = BLOCK_MAGIC" "b_size m ?a = of_nat sz" "b_is_free m ?a \<noteq> 0 \<longleftrightarrow> fa" "b_next m ?a = ?b"
    "b_size m ?b = of_nat sb" "b_next m ?b = hd_ptr ys p" using r by auto
  have "m' = set_next ?a (hd_ptr ys p) (set_size ?a (of_nat (sz + 32 + sb)) m)"
    unfolding m'_def merge_next_def Let_def f fields_other [OF dis] by (simp add: algebra_simps)
  then show "\<And>x. x \<notin> header (of_nat a) \<Longrightarrow> m' x = m x" "rep m' [(a, sz + 32 + sb, fa)] (hd_ptr ys p)"
    using f by (auto simp: set_out simp del: of_nat_add)
qed

lemma tiled_sorted: "tiled a e (xs @ (b, sb, fb) # ys) \<Longrightarrow> (c, sc, fc) \<in> set xs \<Longrightarrow> c < b"
  using tiled_bounds by (fastforce simp: tiled_append)

lemma hd_ptr_nonzero:
  assumes "tiled a e bs" "bs \<noteq> []" "0 < a" "e < 2 ^ 64"
  shows "hd_ptr bs p \<noteq> 0" "hd_ptr bs p = of_nat a"
proof -
  have "a < 2 ^ 64" using tiled_le [OF assms(1)] assms(4) by simp
  then have "unat (of_nat a :: u64) = a" by (rule unat_addr)
  with assms show "hd_ptr bs p \<noteq> 0" "hd_ptr bs p = of_nat a" by (cases bs; auto simp: unat_eq_0)+
qed

text \<open>The walk to the predecessor of a block finds it, or ends at the null pointer for the first block.\<close>

lemma find_prev_some:
  assumes "rep m (xs @ [(c, sc, fc)]) (of_nat b)" "tiled a b (xs @ [(c, sc, fc)])" "0 < a" "b < 2 ^ 64"
  shows "find_prev m (of_nat b) (hd_ptr (xs @ [(c, sc, fc)]) p) = Some (of_nat c)"
  using assms(1,2,3)
proof (induction xs arbitrary: a)
  case Nil
  have "(of_nat c :: u64) \<noteq> 0" using Nil assms(4) unat_addr [of c] by (auto simp: unat_eq_0)
  then show ?case using Nil by (subst find_prev.simps) auto
next
  case (Cons x xs)
  obtain d s f where x: "x = (d, s, f)" by (cases x)
  with Cons.prems have t: "d = a" "tiled (a + 32 + s) b (xs @ [(c, sc, fc)])" by auto
  have ne: "xs @ [(c, sc, fc)] \<noteq> []" by simp
  obtain g where g: "hd_ptr (xs @ [(c, sc, fc)]) p' = (of_nat (a + 32 + s) :: u64)" for p'
    using hd_ptr_nonzero(2) [OF t(2) ne _ assms(4)] Cons.prems(3) by simp
  have lt: "a + 32 + s < b" using t(2) tiled_bounds [OF t(2), of c sc fc] by simp
  then have "(of_nat (a + 32 + s) :: u64) \<noteq> of_nat b"
    using unat_addr [of "a + 32 + s"] unat_addr [OF assms(4)] assms(4) by (metis less_trans nat_neq_iff)
  moreover have "(of_nat a :: u64) \<noteq> 0" using lt assms(4) Cons.prems(3) unat_addr [of a] by (auto simp: unat_eq_0)
  moreover have "b_next m (of_nat a) = of_nat (a + 32 + s)" using Cons.prems(1) x t(1) g by simp
  ultimately show ?case
    using Cons.IH [OF _ t(2)] Cons.prems x t(1) g by (subst find_prev.simps) (simp del: of_nat_add)
qed

lemma find_prev_none:
  assumes "rep m bs 0" "tiled c e bs" "0 < a" "a \<le> c" "e < 2 ^ 64"
  shows "find_prev m (of_nat a) (hd_ptr bs 0) = Some 0"
  using assms
proof (induction bs arbitrary: c)
  case Nil
  then show ?case by (simp add: find_prev.simps)
next
  case (Cons x bs)
  obtain d s f where x: "x = (d, s, f)" by (cases x)
  with Cons.prems have t: "d = c" "tiled (c + 32 + s) e bs" by auto
  have le: "c + 32 + s \<le> e" using tiled_le [OF t(2)] .
  have ua: "unat (of_nat a :: u64) = a" using Cons.prems le by (intro unat_addr) simp
  have "hd_ptr bs 0 \<noteq> of_nat a"
  proof (cases "bs = []")
    case True
    then show ?thesis using ua Cons.prems(3) by auto
  next
    case False
    then have "hd_ptr bs 0 = of_nat (c + 32 + s)" using hd_ptr_nonzero(2) [OF t(2)] Cons.prems by simp
    moreover have "unat (of_nat (c + 32 + s) :: u64) = c + 32 + s" using le Cons.prems(5) by (intro unat_addr) simp
    ultimately have "unat (hd_ptr bs 0) \<noteq> unat (of_nat a :: u64)" using ua Cons.prems(4) by simp
    then show ?thesis by auto
  qed
  moreover have "b_next m (of_nat c) = hd_ptr bs 0" using Cons.prems(1) x t(1) by simp
  ultimately show ?case
    using Cons.IH [OF _ t(2)] Cons.prems x t(1) by (subst find_prev.simps) auto
qed


text \<open>
  Release on the abstract heap: the block becomes free, absorbs a free successor, and is
  absorbed by a free predecessor.
\<close>

fun join_next :: "nat \<Rightarrow> nat \<Rightarrow> blk list \<Rightarrow> nat \<times> blk list" where
  "join_next a sz ((b, sb, True) # ys) = (sz + 32 + sb, ys)"
| "join_next a sz ys = (sz, ys)"

definition release :: "blk list \<Rightarrow> nat \<Rightarrow> nat \<Rightarrow> blk list \<Rightarrow> blk list" where
  "release xs a sz ys =
     (let (sz', ys') = join_next a sz ys in
      if xs \<noteq> [] \<and> snd (snd (last xs))
      then butlast xs @ (fst (last xs), fst (snd (last xs)) + 32 + sz', True) # ys'
      else xs @ (a, sz', True) # ys')"

lemma free_block_rep:
  assumes "rep m (xs @ (a, sz, False) # ys) 0" "tiled A e (xs @ (a, sz, False) # ys)" "e < 2 ^ 64"
  defines "m' \<equiv> set_is_free (of_nat a) 1 m"
  shows "rep m' (xs @ (a, sz, True) # ys) 0" "tiled A e (xs @ (a, sz, True) # ys)"
proof -
  have t: "tiled a (a + 32 + sz) [(a, sz, False)]" "a + 32 + sz \<le> e"
    using assms(2) tiled_bounds [OF assms(2), of a sz False] by (auto simp: tiled_append)
  have u: "unat (of_nat a :: u64) = a" using t(2) assms(3) by (intro unat_addr) simp
  have out: "x \<notin> {a..<a + 32 + sz} \<Longrightarrow> m' x = m x" for x
    unfolding m'_def by (rule set_out) (auto simp: header_def u)
  have "rep m ((a, sz, False) # ys) 0" using assms(1) by (simp add: rep_append)
  then have "rep m' [(a, sz, True)] (hd_ptr ys 0)" by (simp add: m'_def)
  with rep_replace [of m xs "[(a, sz, False)]" ys A e a "a + 32 + sz" m' "[(a, sz, True)]"] assms t out
  show "rep m' (xs @ (a, sz, True) # ys) 0" "tiled A e (xs @ (a, sz, True) # ys)" by auto
qed

lemma merge_block_rep:
  assumes "rep m (xs @ (a, sz, fa) # (b, sb, fb) # ys) 0" "tiled A e (xs @ (a, sz, fa) # (b, sb, fb) # ys)" "e < 2 ^ 64"
  defines "m' \<equiv> merge_next (of_nat a) m"
  shows "rep m' (xs @ (a, sz + 32 + sb, fa) # ys) 0" "tiled A e (xs @ (a, sz + 32 + sb, fa) # ys)"
    "\<And>x. x \<notin> header (of_nat a) \<Longrightarrow> m' x = m x"
proof -
  have t: "b = a + 32 + sz" "16 dvd sz" "16 dvd sb" using assms(2) by (auto simp: tiled_append)
  have e: "b + 32 + sb \<le> e" using tiled_bounds [OF assms(2), of b sb fb] by auto
  have u: "unat (of_nat a :: u64) = a" using e t assms(3) by (intro unat_addr) simp
  have r: "rep m ((a, sz, fa) # (b, sb, fb) # ys) 0" using assms(1) by (simp add: rep_append)
  have e2: "b + 32 + sb < 2 ^ 64" using e assms(3) by simp
  note M = merge_next_rep [OF r t(1) e2, folded m'_def]
  have out: "x \<notin> {a..<b + 32 + sb} \<Longrightarrow> m' x = m x" for x
    by (rule M(1)) (auto simp: header_def u t(1))
  from rep_replace [of m xs "[(a, sz, fa), (b, sb, fb)]" ys A e a "b + 32 + sb" m' "[(a, sz + 32 + sb, fa)]"]
    assms(1-3) t out M(2)
  show "rep m' (xs @ (a, sz + 32 + sb, fa) # ys) 0" "tiled A e (xs @ (a, sz + 32 + sb, fa) # ys)" by auto
  show "\<And>x. x \<notin> header (of_nat a) \<Longrightarrow> m' x = m x" by (rule M(1))
qed

lemma kfree_refine:
  assumes inv: "heap_inv s (xs @ (a, sz, False) # ys)" and sz: "0 < sz"
  shows "\<exists>t. kfree (of_nat (a + 32)) s = Some t \<and> heap_inv t (release xs a sz ys) \<and> t = s\<lparr>hmem := hmem t\<rparr>
    \<and> b_magic (hmem t) (of_nat a) = BLOCK_MAGIC \<and> b_is_free (hmem t) (of_nat a) \<noteq> 0
    \<and> (\<forall>x. x \<notin> header (of_nat a) \<and> (xs \<noteq> [] \<longrightarrow> x \<notin> header (of_nat (fst (last xs)))) \<longrightarrow> hmem t x = hmem s x)"
proof -
  let ?a = "of_nat a :: u64"
  let ?m = "hmem s"
  have I: "heap_initialized s" "heap_start s = HEAP_VIRTUAL_BASE" "heap_size s = DEFAULT_HEAP_SIZE"
    "tiled heap_lo heap_hi (xs @ (a, sz, False) # ys)" "rep ?m (xs @ (a, sz, False) # ys) 0"
    "free_list s = hd_ptr (xs @ (a, sz, False) # ys) 0"
    using inv heap_inv_ptr [OF inv] by (auto simp: heap_inv_def)
  have b: "heap_lo \<le> a" "a + 32 + sz \<le> heap_hi" using tiled_bounds [OF I(4), of a sz False] by auto
  have u: "unat ?a = a" "unat (of_nat (a + 32) :: u64) = a + 32" using b by (intro unat_addr; simp)+
  have guard: "of_nat (a + 32) \<noteq> (0::u64)" "\<not> (of_nat (a + 32) < heap_start s)"
    "\<not> (of_nat (a + 32) \<ge> heap_start s + heap_size s)" "of_nat (a + 32) - SIZEOF_BLOCK = ?a"
    using b sz u(2) unfolding word_less_nat_alt word_le_nat_alt I(2,3) by (auto simp: unat_eq_0 simp del: of_nat_add) simp
  have hd: "b_magic ?m ?a = BLOCK_MAGIC" "b_is_free ?m ?a = 0" using I(5) by (auto simp: rep_append)
  define m1 where "m1 = set_is_free ?a 1 ?m"
  note R1 = free_block_rep [OF I(5,4), folded m1_def]
  have r1: "rep m1 (xs @ (a, sz, True) # ys) 0" "tiled heap_lo heap_hi (xs @ (a, sz, True) # ys)" using R1 by auto
  obtain sz' ys' where j: "join_next a sz ys = (sz', ys')" by force
  define m2 where "m2 = (if b_next m1 ?a \<noteq> 0 \<and> b_is_free m1 (b_next m1 ?a) \<noteq> 0 then merge_next ?a m1 else m1)"
  have m1out: "m1 x = ?m x" if "x \<notin> header ?a" for x using that by (simp add: m1_def set_out)
  have r2: "rep m2 (xs @ (a, sz', True) # ys') 0 \<and> tiled heap_lo heap_hi (xs @ (a, sz', True) # ys')
      \<and> (\<forall>x. x \<notin> header ?a \<longrightarrow> m2 x = ?m x)"
  proof (cases ys)
    case Nil
    then have "b_next m1 ?a = 0" using r1(1) by (simp add: rep_append)
    then show ?thesis using Nil j r1 m1out by (simp add: m2_def)
  next
    case (Cons y zs)
    obtain b sb fb where y: "y = (b, sb, fb)" by (cases y)
    have f: "b_next m1 ?a = of_nat b" "b_is_free m1 (of_nat b) \<noteq> 0 \<longleftrightarrow> fb"
      using r1(1) Cons y by (auto simp: rep_append)
    have "heap_lo \<le> b \<and> b + 32 + sb \<le> heap_hi" using tiled_bounds [OF r1(2), of b sb fb] Cons y by auto
    then have "unat (of_nat b :: u64) = b" "0 < b" by (auto intro!: unat_addr)
    then have nz: "(of_nat b :: u64) \<noteq> 0" by auto
    show ?thesis
    proof (cases fb)
      case False
      then show ?thesis using f Cons y j r1 m1out by (simp add: m2_def)
    next
      case True
      note M = merge_block_rep [of m1 xs a sz True b sb True zs heap_lo heap_hi]
      show ?thesis using M True f nz Cons y j r1 m1out by (simp add: m2_def)
    qed
  qed
  have e: "heap_hi < 2 ^ 64" by simp
  have af: "b_magic m2 ?a = BLOCK_MAGIC" "b_is_free m2 ?a \<noteq> 0" using r2 by (auto simp: rep_append)
  have hdp: "free_list s = hd_ptr (xs @ (a, sz', True) # ys') 0" using I(6) by (simp add: hd_ptr_append)
  have k: "kfree (of_nat (a + 32)) s = (case find_prev m2 ?a (free_list s) of None \<Rightarrow> None
      | Some current \<Rightarrow> Some (s\<lparr>hmem := (if current \<noteq> 0 \<and> b_is_free m2 current \<noteq> 0
          then set_next current (b_next (set_size current (b_size m2 current + (SIZEOF_BLOCK + b_size m2 ?a)) m2) ?a)
                 (set_size current (b_size m2 current + (SIZEOF_BLOCK + b_size m2 ?a)) m2)
          else m2)\<rparr>))"
    unfolding kfree_def Let_def guard(4) m1_def [symmetric] m2_def [symmetric]
    using guard(1-3) I(1) hd by (simp only: if_False if_True simp_thms)
  show ?thesis
  proof (cases xs rule: rev_cases)
    case Nil
    have "find_prev m2 ?a (free_list s) = Some 0"
      using find_prev_none [of m2 "xs @ (a, sz', True) # ys'" a heap_hi a] r2 Nil b hdp e by auto
    then show ?thesis
      using r2 inv Nil j af unfolding k
      by (intro exI [of _ "s\<lparr>hmem := m2\<rparr>"]) (auto simp: heap_inv_def release_def)
  next
    case (snoc zs z)
    obtain c sc fc where z: "z = (c, sc, fc)" by (cases z)
    have r3: "rep m2 (zs @ [(c, sc, fc)]) ?a" "tiled heap_lo a (zs @ [(c, sc, fc)])"
      using r2 snoc z by (auto simp: rep_append tiled_append)
    have fp: "find_prev m2 ?a (free_list s) = Some (of_nat c)"
      using find_prev_some [OF r3, of 0] b hdp snoc z by (simp add: hd_ptr_append)
    have bc: "heap_lo \<le> c" "c + 32 + sc \<le> a" using tiled_bounds [OF r3(2), of c sc fc] by auto
    then have uc: "unat (of_nat c :: u64) = c" using b by (intro unat_addr) simp
    then have nz: "(of_nat c :: u64) \<noteq> 0" using bc by auto
    have cf: "b_is_free m2 (of_nat c) \<noteq> 0 \<longleftrightarrow> fc" "b_next m2 (of_nat c) = ?a" using r3(1) by (auto simp: rep_append)
    have mg: "set_next (of_nat c) (b_next (set_size (of_nat c) (b_size m2 (of_nat c) + (SIZEOF_BLOCK + b_size m2 ?a)) m2) ?a)
        (set_size (of_nat c) (b_size m2 (of_nat c) + (SIZEOF_BLOCK + b_size m2 ?a)) m2) = merge_next (of_nat c) m2"
      by (simp add: merge_next_def cf Let_def)
    show ?thesis
    proof (cases fc)
      case False
      then show ?thesis
        using r2 inv snoc z j fp cf(1) af unfolding k
        by (intro exI [of _ "s\<lparr>hmem := m2\<rparr>"]) (auto simp: heap_inv_def release_def)
    next
      case True
      note M = merge_block_rep [of m2 zs c sc True a sz' True ys' heap_lo heap_hi]
      have "header ?a \<inter> header (of_nat c) = {}" unfolding header_def u uc using bc by auto
      then have "same_bytes (header ?a) m2 (merge_next (of_nat c) m2)"
        using M(3) True r2 snoc z by (auto simp: same_bytes_def disjoint_iff)
      from fields_cong [OF this] af
      have "b_magic (merge_next (of_nat c) m2) ?a = BLOCK_MAGIC" "b_is_free (merge_next (of_nat c) m2) ?a \<noteq> 0" by auto
      then show ?thesis
        using M True r2 inv snoc z j fp cf(1) nz mg unfolding k
        by (intro exI [of _ "s\<lparr>hmem := merge_next (of_nat c) m2\<rparr>"]) (auto simp: heap_inv_def release_def)
    qed
  qed
qed


section \<open>Defragmentation and statistics\<close>

fun merge_free :: "blk list \<Rightarrow> blk list" where
  "merge_free [] = []"
| "merge_free [x] = [x]"
| "merge_free ((a, sz, fa) # (b, sb, fb) # bs) =
     (if fa \<and> fb then merge_free ((a, sz + 32 + sb, fa) # bs) else (a, sz, fa) # merge_free ((b, sb, fb) # bs))"

fun no_adjacent :: "blk list \<Rightarrow> bool" where
  "no_adjacent ((a, sz, fa) # (b, sb, fb) # bs) \<longleftrightarrow> \<not> (fa \<and> fb) \<and> no_adjacent ((b, sb, fb) # bs)"
| "no_adjacent bs \<longleftrightarrow> True"

lemma merge_free_head: "\<exists>sz' bs'. merge_free ((a, sz, f) # bs) = (a, sz', f) # bs'"
  by (induction "(a, sz, f) # bs" arbitrary: sz bs rule: merge_free.induct) auto

lemma no_adjacent_merge: "no_adjacent (merge_free bs)"
proof (induction bs rule: merge_free.induct)
  case (3 a sz fa b sb fb bs)
  show ?case
  proof (cases "fa \<and> fb")
    case True
    with 3(1) show ?thesis by simp
  next
    case False
    obtain sz' bs' where "merge_free ((b, sb, fb) # bs) = (b, sz', fb) # bs'" using merge_free_head by blast
    with 3(2) [OF False] False show ?thesis by auto
  qed
qed auto

lemma allocated_simps [simp]:
  "allocated [] = []" "allocated ((a, sz, f) # bs) = (if f then allocated bs else (a, sz, f) # allocated bs)"
  "allocated (xs @ ys) = allocated xs @ allocated ys"
  by (simp_all add: allocated_def)

lemma allocated_merge: "allocated (merge_free bs) = allocated bs"
  by (induction bs rule: merge_free.induct) auto

definition headers :: "blk list \<Rightarrow> nat set" where
  "headers bs = (\<Union>b \<in> set bs. header (of_nat (fst b)))"

lemma headers_simps [simp]: "headers [] = {}" "headers ((a, sz, f) # bs) = header (of_nat a) \<union> headers bs"
  "headers (xs @ ys) = headers xs \<union> headers ys"
  by (auto simp: headers_def)

lemma defrag_rep:
  assumes "rep m (xs @ bs) 0" "tiled A e (xs @ bs)" "0 < A" "e < 2 ^ 64"
  shows "\<exists>m'. defrag (hd_ptr bs 0) m = Some m' \<and> rep m' (xs @ merge_free bs) 0 \<and> tiled A e (xs @ merge_free bs)
    \<and> (\<forall>x. x \<notin> headers bs \<longrightarrow> m' x = m x)"
  using assms
proof (induction bs arbitrary: xs m rule: merge_free.induct)
  case (3 a sz fa b sb fb bs)
  have bd: "A \<le> a" "a + 32 + sz \<le> e" "A \<le> b" "b + 32 + sb \<le> e"
    using tiled_bounds [OF 3(4), of a sz fa] tiled_bounds [OF 3(4), of b sb fb] by auto
  then have "unat (of_nat a :: u64) = a" "unat (of_nat b :: u64) = b" using 3(6) by (auto intro!: unat_addr)
  then have nz: "(of_nat a :: u64) \<noteq> 0" "(of_nat b :: u64) \<noteq> 0" using bd 3(5) by auto
  have f: "b_is_free m (of_nat a) \<noteq> 0 \<longleftrightarrow> fa" "b_next m (of_nat a) = of_nat b" "b_is_free m (of_nat b) \<noteq> 0 \<longleftrightarrow> fb"
    using 3(3) by (auto simp: rep_append)
  show ?case
  proof (cases "fa \<and> fb")
    case True
    let ?m = "merge_next (of_nat a) m"
    note M = merge_block_rep [OF 3(3,4,6)]
    obtain m' where m': "defrag (of_nat a) ?m = Some m'" "rep m' (xs @ merge_free ((a, sz + 32 + sb, fa) # bs)) 0"
      "tiled A e (xs @ merge_free ((a, sz + 32 + sb, fa) # bs))"
      "\<forall>x. x \<notin> headers ((a, sz + 32 + sb, fa) # bs) \<longrightarrow> m' x = ?m x"
      using 3(1) [OF True M(1,2) 3(5,6)] by auto
    have "defrag (of_nat a) m = Some m'"
      using m'(1) nz f True by (subst defrag.simps) simp
    with m' M(3) True show ?thesis by (intro exI [of _ m']) auto
  next
    case False
    obtain m' where m': "defrag (of_nat b) m = Some m'" "rep m' ((xs @ [(a, sz, fa)]) @ merge_free ((b, sb, fb) # bs)) 0"
      "tiled A e ((xs @ [(a, sz, fa)]) @ merge_free ((b, sb, fb) # bs))"
      "\<forall>x. x \<notin> headers ((b, sb, fb) # bs) \<longrightarrow> m' x = m x"
      using 3(2) [OF False, of m "xs @ [(a, sz, fa)]"] 3(3-6) by auto
    have "defrag (of_nat a) m = Some m'"
      using m'(1) nz f False by (subst defrag.simps) auto
    with m' False show ?thesis by (intro exI [of _ m']) auto
  qed
next
  case 1
  then show ?case by (simp add: defrag.simps)
next
  case (2 x)
  obtain a sz f where x: "x = (a, sz, f)" by (cases x)
  have bd: "A \<le> a" "a + 32 + sz \<le> e" using tiled_bounds [OF 2(2), of a sz f] x by auto
  then have "unat (of_nat a :: u64) = a" using 2(4) by (intro unat_addr) simp
  then have "(of_nat a :: u64) \<noteq> 0" using bd 2(3) by auto
  then have "defrag (of_nat a) m = Some m"
    using 2(1) x by (subst defrag.simps) (simp add: rep_append defrag.simps)
  with 2 x show ?case by simp
qed

lemma defrag_refine:
  assumes "heap_inv s bs"
  shows "\<exists>t. defrag_heap s = Some t \<and> heap_inv t (merge_free bs) \<and> t = s\<lparr>hmem := hmem t\<rparr>
    \<and> (\<forall>x. x \<notin> headers bs \<longrightarrow> hmem t x = hmem s x)"
proof -
  obtain m' where m': "defrag (hd_ptr bs 0) (hmem s) = Some m'" "rep m' ([] @ merge_free bs) 0"
    "tiled heap_lo heap_hi ([] @ merge_free bs)"
    "\<forall>x. x \<notin> headers bs \<longrightarrow> m' x = hmem s x"
    using defrag_rep [of "hmem s" "[]" bs heap_lo heap_hi] assms by (auto simp: heap_inv_def)
  with assms heap_inv_ptr [OF assms] show ?thesis
    by (intro exI [of _ "s\<lparr>hmem := m'\<rparr>"]) (auto simp: heap_inv_def defrag_heap_def)
qed

definition free_bytes :: "blk list \<Rightarrow> nat" where
  "free_bytes bs = sum_list (map (\<lambda>(a, sz, f). if f then sz else 0) bs)"

definition used_bytes :: "blk list \<Rightarrow> nat" where
  "used_bytes bs = sum_list (map (\<lambda>(a, sz, f). if f then 0 else sz) bs)"

lemma tiled_total: "tiled a e bs \<Longrightarrow> free_bytes bs + used_bytes bs + 32 * length bs = e - a"
proof (induction bs arbitrary: a)
  case (Cons x bs)
  obtain c s f where x: "x = (c, s, f)" by (cases x)
  with Cons.prems have t: "c = a" "tiled (a + 32 + s) e bs" by auto
  with Cons.IH [OF t(2)] tiled_le [OF t(2)] x show ?case by (auto simp: free_bytes_def used_bytes_def)
qed (simp add: free_bytes_def used_bytes_def)

lemma count_blocks_rep:
  assumes "rep m bs 0" "tiled a e bs" "0 < a" "e < 2 ^ 64"
  shows "count_blocks m (hd_ptr bs 0) st = Some (st\<lparr>num_blocks := num_blocks st + of_nat (length bs),
     num_free_blocks := num_free_blocks st + of_nat (length bs - length (allocated bs)),
     free_size := free_size st + of_nat (free_bytes bs), used_size := used_size st + of_nat (used_bytes bs)\<rparr>)"
  using assms
proof (induction bs arbitrary: a st)
  case Nil
  then show ?case by (simp add: count_blocks.simps free_bytes_def used_bytes_def)
next
  case (Cons x bs)
  obtain c s f where x: "x = (c, s, f)" by (cases x)
  with Cons.prems have t: "c = a" "tiled (a + 32 + s) e bs" by auto
  have "a + 32 + s \<le> e" using tiled_le [OF t(2)] .
  then have "unat (of_nat a :: u64) = a" using Cons.prems(4) by (intro unat_addr) simp
  then have nz: "(of_nat a :: u64) \<noteq> 0" using Cons.prems(3) by auto
  have le: "length (allocated bs) \<le> length bs" by (simp add: allocated_def)
  show ?case
    using Cons.IH [OF _ t(2)] Cons.prems x t(1) nz le
    by (subst count_blocks.simps) (auto simp: free_bytes_def used_bytes_def Let_def Suc_diff_le algebra_simps)
qed

section \<open>Initialisation\<close>

definition whole_heap :: "blk list" where
  "whole_heap = [(heap_lo, 0x1000000 - 32, True)]"

lemma keeps_heap_fields:
  "keeps hmem" "keeps free_list" "keeps heap_initialized" "keeps heap_start" "keeps heap_size"
  by (simp_all add: keeps_def)

lemma init_heap_inv:
  assumes "\<not> heap_initialized s"
    "fst (vmm_alloc_pages SKernel HEAP_VIRTUAL_BASE 4096 (PAGE_WRITE OR PAGE_PRESENT)
       (s\<lparr>heap_start := HEAP_VIRTUAL_BASE, heap_size := DEFAULT_HEAP_SIZE\<rparr>)) \<noteq> 0"
  shows "heap_inv (init_heap s) whole_heap"
proof -
  let ?s = "s\<lparr>heap_start := HEAP_VIRTUAL_BASE, heap_size := DEFAULT_HEAP_SIZE\<rparr>"
  obtain r t where t: "vmm_alloc_pages SKernel HEAP_VIRTUAL_BASE 4096 (PAGE_WRITE OR PAGE_PRESENT) ?s = (r, t)" "r \<noteq> 0"
    using assms(2) by (metis prod.collapse)
  have f: "heap_start t = HEAP_VIRTUAL_BASE" "heap_size t = DEFAULT_HEAP_SIZE"
    using keeps_alloc_page(2) [OF keeps_heap_fields(4), of SKernel HEAP_VIRTUAL_BASE 4096 "PAGE_WRITE OR PAGE_PRESENT" ?s]
      keeps_alloc_page(2) [OF keeps_heap_fields(5), of SKernel HEAP_VIRTUAL_BASE 4096 "PAGE_WRITE OR PAGE_PRESENT" ?s] t(1)
    by simp_all
  have n: "unat ((DEFAULT_HEAP_SIZE + of_nat PAGE_SIZE - 1) div of_nat PAGE_SIZE) = 4096" by simp
  have c: "of_nat heap_lo = HEAP_VIRTUAL_BASE" by simp
  have "init_heap s = t\<lparr>free_list := HEAP_VIRTUAL_BASE,
      hmem := set_next HEAP_VIRTUAL_BASE 0 (set_is_free HEAP_VIRTUAL_BASE 1
        (set_size HEAP_VIRTUAL_BASE (DEFAULT_HEAP_SIZE - SIZEOF_BLOCK) (set_magic HEAP_VIRTUAL_BASE BLOCK_MAGIC (hmem t)))),
      heap_initialized := True\<rparr>"
    using assms(1) t f n by (simp add: init_heap_def Let_def)
  then show ?thesis
    using f by (simp add: heap_inv_def whole_heap_def)
qed

section \<open>A concrete machine\<close>

text \<open>
  A machine of 20000 pages, of which the first three are used (page 1 holds the bitmap,
  page 2 the kernel's top table), with an empty top table.
\<close>

definition hdemo :: heap where
  "hdemo = \<lparr>mem = (\<lambda>a. if a = 4096 then 7 else 0), hhdm_offset = 0xFFFF800000000000, bitmap = Some 4096,
     bitmap_size = 2500, total_pages = 20000, used_pages = 3, highest_addr = 0x4E20000,
     kernel_space = \<lparr>pml4 = 0x2000, pml4_virt = 0xFFFF800000002000\<rparr>, cr3 = 0x2000,
     hmem = (\<lambda>_. 0), free_list = 0, heap_initialized = False, heap_start = 0, heap_size = 0\<rparr>"

definition hdemo_s :: heap where
  "hdemo_s = hdemo\<lparr>heap_start := HEAP_VIRTUAL_BASE, heap_size := DEFAULT_HEAP_SIZE\<rparr>"

lemma hdemo_pages: "bitmap_test hdemo_s p \<longleftrightarrow> p < 3"
proof -
  have "bit (7::u8) (p mod 8) \<longleftrightarrow> p mod 8 < 3"
  proof -
    have "(7::u8) = mask 3" by (simp add: mask_eq_exp_minus_1)
    then show ?thesis by (simp only: bit_mask_iff) auto
  qed
  moreover have "p div 8 = 0 \<Longrightarrow> p mod 8 = p" by simp
  moreover have "p div 8 \<noteq> 0 \<Longrightarrow> \<not> p < 3" by auto
  ultimately show ?thesis
    by (cases "p div 8 = 0") (auto simp: bitmap_test_bit bitmap_index_def hdemo_s_def hdemo_def)
qed

lemma hdemo_sets: "free_pages hdemo_s = {3..<20000}" "used_set hdemo_s = {0, 1, 2}" "bitmap_pages hdemo_s = {1}"
proof -
  have t: "total_pages hdemo_s = 20000" "bitmap_bytes hdemo_s = {4096..<6596}"
    by (simp_all add: hdemo_s_def hdemo_def bitmap_bytes_def)
  show "free_pages hdemo_s = {3..<20000}" "used_set hdemo_s = {0, 1, 2}"
    by (auto simp: free_pages_def used_set_def hdemo_pages t)
  have "a div 4096 = 1" if "a \<in> {4096..<6596}" for a :: nat using that by auto
  moreover have "(4096::nat) \<in> {4096..<6596}" by simp
  ultimately show "bitmap_pages hdemo_s = {1}" unfolding bitmap_pages_def t by force
qed

lemma hdemo_inv: "pmm_inv hdemo_s"
proof -
  have "a div 4096 = 1" if "a \<in> bitmap_bytes hdemo_s" for a
    using that hdemo_sets(3) by (auto simp: bitmap_pages_def)
  then show ?thesis
    by (auto simp: pmm_inv_def hdemo_sets) (simp_all add: hdemo_s_def hdemo_def)
qed

lemma hdemo_ok: "vmm_ok {511} {SKernel} hdemo_s"
proof -
  have fr: "0x2000 \<in> frames hdemo_s" by (simp add: frames_def hdemo_sets)
  have p: "space_pml4 hdemo_s SKernel = 0x2000" "space_pml4_virt hdemo_s SKernel = PHYS_TO_VIRT hdemo_s 0x2000"
    "hhdm_ok hdemo_s" by (simp_all add: hdemo_s_def hdemo_def PHYS_TO_VIRT_def hhdm_ok_def)
  have "cell hdemo_s 0x2000 i = 0" if "i < 512" for i
    unfolding cell_def using that by (intro read64_0) (auto simp: hdemo_s_def hdemo_def)
  then have w: "walk (view_of hdemo_s) 0x2000 path = (if path = [] then Some 0x2000 else None)" if "good_path {511} path" for path
    using that by (cases path) (auto simp: good_path_def view_of_def)
  have "tables (view_of hdemo_s) {511} {0x2000} = {0x2000}"
    by (auto simp: tables_def w split: if_splits intro: exI [of _ "[]"])
  moreover have "one_path (view_of hdemo_s) {511} {0x2000}"
    by (auto simp: one_path_def w split: if_splits)
  ultimately show ?thesis
    using fr p hdemo_inv hdemo_sets(1) by (simp add: vmm_ok_def struct_frames_def roots_def tree_ok_def)
qed

lemma heap_page_index: "j < 4096 \<Longrightarrow> PML4_INDEX (nth_page HEAP_VIRTUAL_BASE j) = 511"
proof -
  assume j: "j < 4096"
  have "nth_page HEAP_VIRTUAL_BASE j = of_nat (heap_lo + j * 4096)" by (simp add: nth_page_def)
  moreover have "heap_lo + j * 4096 < 2 ^ 64" using j by simp
  ultimately have "unat (nth_page HEAP_VIRTUAL_BASE j) = heap_lo + j * 4096" by (simp only: unat_of_nat64)
  then have "PML4_INDEX (nth_page HEAP_VIRTUAL_BASE j) = (heap_lo + j * 4096) div 2 ^ 39 mod 512"
    unfolding PML4_INDEX_def index_digit by (simp only:)
  moreover have "(heap_lo + j * 4096) div 2 ^ 39 = 33554431" using j by (intro div_nat_eqI) auto
  ultimately show ?thesis by simp
qed

lemma hdemo_alloc:
  "fst (vmm_alloc_pages SKernel HEAP_VIRTUAL_BASE 4096 (PAGE_WRITE OR PAGE_PRESENT) hdemo_s) \<noteq> 0"
proof -
  have a: "\<forall>j < 4096. PML4_INDEX (nth_page HEAP_VIRTUAL_BASE j) \<in> {511}" using heap_page_index by simp
  have f: "(PAGE_WRITE OR PAGE_PRESENT) AND PAGE_MASK = 0" by (simp add: PAGE_MASK_def)
  have r: "free_run hdemo_s 4096 3" "\<forall>b < 3. \<not> free_run hdemo_s 4096 b"
    by (auto simp: free_run_def hdemo_sets)
  obtain t where "vmm_alloc_pages SKernel HEAP_VIRTUAL_BASE 4096 (PAGE_WRITE OR PAGE_PRESENT) hdemo_s = (HEAP_VIRTUAL_BASE, t)"
    by (rule vmm_alloc_pages_some [OF hdemo_ok _ a _ _ f r]) (auto simp: hdemo_sets)
  then show ?thesis by simp
qed

definition hdemo_heap :: heap where
  "hdemo_heap = init_heap hdemo"

lemma hdemo_heap_inv: "heap_inv hdemo_heap whole_heap"
  unfolding hdemo_heap_def using hdemo_alloc
  by (intro init_heap_inv) (simp_all add: hdemo_s_def, simp add: hdemo_def)


section \<open>Properties\<close>

lemma kmalloc_new_block:
  assumes "first_fit n bs = Some (a, k, fr)"
  obtains xs ys k' where "allocated bs = allocated xs @ allocated ys" "allocated (take_fit n bs) = allocated xs @ (a, k', False) # allocated ys"
    "n \<le> k'" "bs = xs @ (a, k, True) # ys" "k' \<le> k"
proof -
  obtain xs ys where s: "bs = xs @ (a, k, True) # ys" "n \<le> k" "take_fit n bs = xs @ carve n a k @ ys"
    by (rule first_fit_split [OF assms]) (rule that; assumption)
  show ?thesis
    by (rule that [of xs ys "if n + 48 \<le> k then n else k"]) (use s in \<open>auto simp: carve_def\<close>)
qed

lemma tiled_disjoint:
  assumes "tiled A e (xs @ (a, k, f) # ys)" "(b, s, g) \<in> set xs \<union> set ys"
  shows "{a..<a + 32 + k} \<inter> {b..<b + 32 + s} = {}"
proof -
  obtain c where c: "tiled A c xs" "c = a" "tiled (a + 32 + k) e ys" using assms(1) by (auto simp: tiled_append)
  then show ?thesis using assms(2) tiled_bounds [OF c(1), of b s g] tiled_bounds [OF c(3), of b s g] by auto
qed

text \<open>
  C7: \<open>kmalloc\<close> always returns. If no free block has room for the request, rounded up to 16
  bytes, it returns the null pointer and changes nothing. Otherwise the pointer is aligned
  to 16 bytes and starts a region of at least the requested size inside the heap, which is
  a new allocated block disjoint from the header and payload of every block that was
  allocated before; those keep their contents, and the block list still tiles the heap.
\<close>

theorem kmalloc_correct:
  assumes "heap_inv s bs" "sz \<noteq> 0" "unat sz \<le> 2 ^ 64 - 16"
  shows "\<exists>p t. kmalloc sz s = Some (p, t)
    \<and> (p = 0 \<longrightarrow> t = s \<and> (\<forall>(b, k, f) \<in> set bs. f \<longrightarrow> k < unat (align sz)))
    \<and> (p \<noteq> 0 \<longrightarrow> heap_inv t (take_fit (unat (align sz)) bs) \<and> 16 dvd unat p
        \<and> {unat p..<unat p + unat sz} \<subseteq> {heap_lo..<heap_hi}
        \<and> (\<exists>k' xs ys. allocated bs = xs @ ys \<and> unat sz \<le> k'
             \<and> allocated (take_fit (unat (align sz)) bs) = xs @ (unat p - 32, k', False) # ys)
        \<and> (\<forall>(b, k, f) \<in> set (allocated bs). {unat p - 32..<unat p + unat sz} \<inter> {b..<b + 32 + k} = {}
             \<and> (\<forall>x \<in> {b..<b + 32 + k}. hmem t x = hmem s x)))"
proof (cases "first_fit (unat (align sz)) bs")
  case None
  then have "\<forall>(b, k, f) \<in> set bs. f \<longrightarrow> k < unat (align sz)"
    by (auto simp: first_fit_def find_None_iff not_le)
  with kmalloc_refine(1) [OF assms(1,2) None] show ?thesis by (intro exI [of _ 0] exI [of _ s]) simp
next
  case (Some x)
  let ?n = "unat (align sz)"
  obtain a k fr where x: "first_fit ?n bs = Some (a, k, fr)" using Some by (cases x) auto
  obtain t where t: "kmalloc sz s = Some (of_nat (a + 32), t)" "heap_inv t (take_fit ?n bs)"
    "\<forall>x. x \<notin> {a..<a + 32 + k} \<longrightarrow> hmem t x = hmem s x"
    using kmalloc_refine(2) [OF assms(1,2) x] by blast
  obtain xs ys k' where b: "allocated bs = allocated xs @ allocated ys"
    "allocated (take_fit ?n bs) = allocated xs @ (a, k', False) # allocated ys" "?n \<le> k'" "bs = xs @ (a, k, True) # ys" "k' \<le> k"
    using kmalloc_new_block [OF x] by blast
  have T: "tiled heap_lo heap_hi bs" using assms(1) by (simp add: heap_inv_def)
  have bd: "heap_lo \<le> a" "a + 32 + k \<le> heap_hi" using tiled_bounds [OF T, of a k True] b(4) by auto
  then have u: "unat (of_nat (a + 32) :: u64) = a + 32" by (intro unat_addr) simp
  have nz: "of_nat (a + 32) \<noteq> (0 :: u64)" using u by (metis add_is_0 unat_0 zero_neq_numeral)
  have sz: "unat sz \<le> k'" using align_ge [OF assms(3)] b(3) by simp
  have al: "16 dvd a + 32"
  proof -
    have "16 dvd c" if "tiled A c zs" "16 dvd A" for A c and zs :: "blk list"
      using that by (induction zs arbitrary: A) auto
    then have "16 dvd a" using T b(4) by (auto simp: tiled_append)
    then show ?thesis by simp
  qed
  have dis: "{a..<a + 32 + k} \<inter> {c..<c + 32 + l} = {}" if "(c, l, g) \<in> set (allocated bs)" for c l g
    using tiled_disjoint [OF T [unfolded b(4)], of c l g] that b(4) by (auto simp: allocated_def)
  let ?p = "of_nat (a + 32) :: u64"
  have "{unat ?p..<unat ?p + unat sz} \<subseteq> {heap_lo..<heap_hi}" using bd sz b(5) unfolding u by auto
  moreover have "\<exists>k' xs ys. allocated bs = xs @ ys \<and> unat sz \<le> k'
       \<and> allocated (take_fit ?n bs) = xs @ (unat ?p - 32, k', False) # ys"
    using b(1,2) sz unfolding u by (metis diff_add_inverse2)
  moreover have "{unat ?p - 32..<unat ?p + unat sz} \<inter> {c..<c + 32 + l} = {} \<and> (\<forall>x \<in> {c..<c + 32 + l}. hmem t x = hmem s x)"
    if "(c, l, g) \<in> set (allocated bs)" for c l g
  proof -
    have "{unat ?p - 32..<unat ?p + unat sz} \<subseteq> {a..<a + 32 + k}" using sz b(5) unfolding u by auto
    moreover have "\<forall>x \<in> {c..<c + 32 + l}. x \<notin> {a..<a + 32 + k}" using dis [OF that] by blast
    ultimately show ?thesis using dis [OF that] t(3) by blast
  qed
  ultimately show ?thesis
    using t(1,2) nz al unfolding u
    by (intro exI [of _ ?p] exI [of _ t] conjI impI) (simp_all add: u del: of_nat_add, blast+)
qed

theorem kmalloc_correct_witness:
  "\<exists>p t. kmalloc 100 hdemo_heap = Some (p, t) \<and> p \<noteq> 0 \<and> 16 dvd unat p
     \<and> heap_inv t [(heap_lo, 112, False), (heap_lo + 144, 0x1000000 - 176, True)]"
proof -
  have n: "unat (align 100) = 112" by (simp add: align_nat)
  obtain p t where p: "kmalloc 100 hdemo_heap = Some (p, t)"
    "p = 0 \<longrightarrow> (\<forall>(b, k, f) \<in> set whole_heap. f \<longrightarrow> k < unat (align 100))"
    "p \<noteq> 0 \<longrightarrow> heap_inv t (take_fit (unat (align 100)) whole_heap) \<and> 16 dvd unat p"
    using kmalloc_correct [OF hdemo_heap_inv, of 100] by auto
  then have "p \<noteq> 0" unfolding n by (auto simp: whole_heap_def)
  with p show ?thesis unfolding n by (auto simp: whole_heap_def carve_def)
qed


lemma no_adjacent_append:
  "no_adjacent (xs @ (a, sz, f) # ys) \<longleftrightarrow>
     no_adjacent (xs @ [(a, sz, f)]) \<and> no_adjacent ((a, sz, f) # ys)"
proof (induction xs)
  case (Cons x xs)
  then show ?case by (cases x; cases xs) auto
qed simp

lemma no_adjacent_size: "no_adjacent (xs @ [(a, sz, f)]) \<longleftrightarrow> no_adjacent (xs @ [(b, sz', f)])"
proof (induction xs)
  case (Cons x xs)
  then show ?case by (cases x; cases xs) auto
qed simp

lemma no_adjacent_snoc_used: "no_adjacent (xs @ [(a, sz, False)]) \<longleftrightarrow> no_adjacent xs"
proof (induction xs)
  case (Cons x xs)
  then show ?case by (cases x; cases xs) auto
qed simp

lemma no_adjacent_snoc_free:
  "no_adjacent (xs @ [(a, sz, True)]) \<longleftrightarrow> no_adjacent xs \<and> (xs \<noteq> [] \<longrightarrow> \<not> snd (snd (last xs)))"
proof (induction xs)
  case (Cons x xs)
  then show ?case by (cases x; cases xs) auto
qed simp

lemma no_adjacent_Cons: "no_adjacent ((a, sz, f) # ys) \<longleftrightarrow> no_adjacent ys \<and> (ys \<noteq> [] \<longrightarrow> \<not> (f \<and> snd (snd (hd ys))))"
  by (cases ys) auto

lemma no_adjacent_release:
  assumes "no_adjacent (xs @ (a, sz, False) # ys)"
  shows "no_adjacent (release xs a sz ys)"
proof -
  obtain sz' ys' where j: "join_next a sz ys = (sz', ys')" by force
  have xs: "no_adjacent xs" and ys: "no_adjacent ys"
    using assms by (auto simp: no_adjacent_append [of xs] no_adjacent_snoc_used no_adjacent_Cons)
  have ys': "no_adjacent ((a, sz', True) # ys')"
    using j ys by (cases "(a, sz, ys)" rule: join_next.cases) (auto simp: no_adjacent_Cons)
  show ?thesis
  proof (cases "xs \<noteq> [] \<and> snd (snd (last xs))")
    case False
    with xs ys' j show ?thesis
      by (auto simp: release_def no_adjacent_append [of xs] no_adjacent_snoc_free)
  next
    case True
    then obtain zs c sc where z: "xs = zs @ [(c, sc, True)]" by (cases xs rule: rev_cases) auto
    with xs ys' j show ?thesis
      by (auto simp: release_def no_adjacent_append [of zs] no_adjacent_Cons no_adjacent_snoc_free)
  qed
qed

lemma allocated_release: "allocated (release xs a sz ys) = allocated xs @ allocated ys"
proof -
  obtain sz' ys' where j: "join_next a sz ys = (sz', ys')" by force
  have "allocated ys' = allocated ys" using j by (cases "(a, sz, ys)" rule: join_next.cases) auto
  then show ?thesis
    using j by (cases xs rule: rev_cases) (auto simp: release_def)
qed

text \<open>
  C8: \<open>kfree\<close> of an allocated block always returns and frees exactly that block: all other
  allocated blocks stay allocated with their contents, the block list tiles the heap
  again, and if no two neighbouring blocks were both free before, none are afterwards,
  since the block is merged with a free neighbour on either side. Freeing the same
  pointer a second time is detected and changes nothing.
\<close>

theorem kfree_correct:
  assumes "heap_inv s (xs @ (a, sz, False) # ys)" "0 < sz"
  shows "\<exists>t. kfree (of_nat (a + 32)) s = Some t \<and> heap_inv t (release xs a sz ys)
    \<and> allocated (release xs a sz ys) = allocated xs @ allocated ys
    \<and> (no_adjacent (xs @ (a, sz, False) # ys) \<longrightarrow> no_adjacent (release xs a sz ys))
    \<and> (\<forall>(b, k, f) \<in> set (allocated (xs @ ys)). \<forall>x \<in> {b + 32..<b + 32 + k}. hmem t x = hmem s x)
    \<and> kfree (of_nat (a + 32)) t = Some t"
proof -
  obtain t where t: "kfree (of_nat (a + 32)) s = Some t" "heap_inv t (release xs a sz ys)" "t = s\<lparr>hmem := hmem t\<rparr>"
    "b_magic (hmem t) (of_nat a) = BLOCK_MAGIC" "b_is_free (hmem t) (of_nat a) \<noteq> 0"
    "\<forall>x. x \<notin> header (of_nat a) \<and> (xs \<noteq> [] \<longrightarrow> x \<notin> header (of_nat (fst (last xs)))) \<longrightarrow> hmem t x = hmem s x"
    using kfree_refine [OF assms] by blast
  have T: "tiled heap_lo heap_hi (xs @ (a, sz, False) # ys)" using assms(1) by (simp add: heap_inv_def)
  have again: "kfree (of_nat (a + 32)) t = Some t"
    using t(4,5) by (simp add: kfree_def Let_def)
  have un: "unat (of_nat c :: u64) = c" if "(c, l, g) \<in> set (xs @ (a, sz, False) # ys)" for c l g
    using tiled_bounds [OF T that] by (intro unat_addr) simp
  have keep: "hmem t x = hmem s x" if b: "(b, k, f) \<in> set (xs @ ys)" and x: "x \<in> {b + 32..<b + 32 + k}" for b k f x
  proof -
    have out: "x \<notin> header (of_nat c)" if c: "(c, l, g) \<in> set (xs @ (a, sz, False) # ys)" for c l g
    proof (cases "c = b")
      case True
      then show ?thesis using x un [OF c] by (auto simp: header_def)
    next
      case False
      obtain us vs where s: "xs @ (a, sz, False) # ys = us @ (c, l, g) # vs" using split_list [OF c] by blast
      have "(b, k, f) \<in> set us \<union> set vs" using b s False by (metis Un_iff insert_iff list.set(2) prod.inject set_append)
      from tiled_disjoint [OF T [unfolded s] this] x show ?thesis using un [OF c] by (auto simp: header_def)
    qed
    have "x \<notin> header (of_nat a)" using out [of a sz False] by simp
    moreover have "x \<notin> header (of_nat (fst (last xs)))" if "xs \<noteq> []"
      using out [of "fst (last xs)" "fst (snd (last xs))" "snd (snd (last xs))"] last_in_set [OF that] by simp
    ultimately show ?thesis using t(6) by simp
  qed
  have "\<forall>(b, k, f) \<in> set (allocated (xs @ ys)). \<forall>x \<in> {b + 32..<b + 32 + k}. hmem t x = hmem s x"
  proof (clarify)
    fix b k f x assume "(b, k, f) \<in> set (allocated (xs @ ys))" and x: "x \<in> {b + 32..<b + 32 + k}"
    then have "(b, k, f) \<in> set (xs @ ys)" unfolding allocated_def by auto
    from keep [OF this x] show "hmem t x = hmem s x" .
  qed
  with t again no_adjacent_release allocated_release show ?thesis by (intro exI [of _ t]) auto
qed

lemma hdemo_kmalloc:
  "\<exists>t. kmalloc 100 hdemo_heap = Some (of_nat (heap_lo + 32), t) \<and> heap_inv t (take_fit 112 whole_heap)"
proof -
  have n: "unat (align 100) = 112" by (simp add: align_nat)
  have f: "first_fit (unat (align 100)) whole_heap = Some (heap_lo, 0x1000000 - 32, True)"
    unfolding n by (simp add: first_fit_def whole_heap_def)
  have z: "(100::u64) \<noteq> 0" by simp
  from kmalloc_refine(2) [OF hdemo_heap_inv z f] show ?thesis unfolding n by blast
qed

theorem kfree_correct_witness:
  "\<exists>(s::heap) t. heap_inv s [(heap_lo, 112, False), (heap_lo + 144, 0x1000000 - 176, True)]
     \<and> kfree (of_nat (heap_lo + 32)) s = Some t \<and> heap_inv t whole_heap"
proof -
  obtain s :: heap where s: "heap_inv s (take_fit 112 whole_heap)" using hdemo_kmalloc by blast
  have e: "take_fit 112 whole_heap = [] @ (heap_lo, 112, False) # [(heap_lo + 144, 0x1000000 - 176, True)]"
    "release [] heap_lo 112 [(heap_lo + 144, 0x1000000 - 176, True)] = whole_heap"
    by (simp_all add: whole_heap_def carve_def release_def)
  from kfree_correct [OF s [unfolded e(1)]] s e show ?thesis by auto
qed

text \<open>
  \<open>kmalloc\<close> followed by \<open>kfree\<close> of the pointer it returned restores the block list
  exactly, if no two neighbouring blocks are free (which every operation keeps).
\<close>

theorem kmalloc_kfree_restores:
  assumes "heap_inv s bs" "no_adjacent bs" "sz \<noteq> 0" "unat sz \<le> 2 ^ 64 - 16" "kmalloc sz s = Some (p, t)" "p \<noteq> 0"
  shows "\<exists>u. kfree p t = Some u \<and> heap_inv u bs"
proof -
  let ?n = "unat (align sz)"
  obtain a k fr where x: "first_fit ?n bs = Some (a, k, fr)"
    using kmalloc_refine(1) [OF assms(1,3)] assms(5,6) by (cases "first_fit ?n bs") auto
  have p: "p = of_nat (a + 32)" "heap_inv t (take_fit ?n bs)"
    using kmalloc_refine(2) [OF assms(1,3) x] assms(5) by auto
  obtain xs ys where s: "bs = xs @ (a, k, True) # ys" "?n \<le> k" "take_fit ?n bs = xs @ carve ?n a k @ ys"
    by (rule first_fit_split [OF x]) (rule that; assumption)
  have "0 < unat sz" using assms(3) by (simp add: unat_gt_0)
  then have pos: "0 < ?n" using align_ge [OF assms(4)] by simp
  have na: "xs \<noteq> [] \<longrightarrow> \<not> snd (snd (last xs))" "ys \<noteq> [] \<longrightarrow> \<not> snd (snd (hd ys))"
    using assms(2) no_adjacent_append [of xs a k True ys] unfolding s(1)
    by (auto simp: no_adjacent_snoc_free no_adjacent_Cons)
  define k' zs where "k' = (if ?n + 48 \<le> k then ?n else k)"
    and "zs = (if ?n + 48 \<le> k then (a + 32 + ?n, k - ?n - 32, True) # ys else ys)"
  have c: "take_fit ?n bs = xs @ (a, k', False) # zs" using s(3) by (simp add: carve_def k'_def zs_def)
  have "join_next a k' zs = (k, ys)"
    using na(2) by (cases ys) (auto simp: k'_def zs_def split: if_splits elim!: join_next.elims)
  then have "release xs a k' zs = bs" using na(1) s(1) by (auto simp: release_def)
  moreover have "0 < k'" using pos s(2) by (auto simp: k'_def)
  ultimately show ?thesis using kfree_refine [of t xs a k' zs] p c by auto
qed

theorem kmalloc_kfree_restores_witness:
  "\<exists>p t u. kmalloc 100 hdemo_heap = Some (p, t) \<and> kfree p t = Some u \<and> heap_inv u whole_heap"
proof -
  obtain t where t: "kmalloc 100 hdemo_heap = Some (of_nat (heap_lo + 32), t)" using hdemo_kmalloc by blast
  have n: "no_adjacent whole_heap" by (simp add: whole_heap_def)
  show ?thesis
    using kmalloc_kfree_restores [OF hdemo_heap_inv n _ _ t] t by auto
qed

text \<open>
  \<open>init_heap\<close>, when the page mapping succeeds, sets up a heap of one free block that
  covers the 16 MB region, with a header of 32 bytes.
\<close>

theorem init_heap_establishes:
  assumes "\<not> heap_initialized s"
    "fst (vmm_alloc_pages SKernel HEAP_VIRTUAL_BASE 4096 (PAGE_WRITE OR PAGE_PRESENT)
       (s\<lparr>heap_start := HEAP_VIRTUAL_BASE, heap_size := DEFAULT_HEAP_SIZE\<rparr>)) \<noteq> 0"
  shows "heap_inv (init_heap s) [(heap_lo, 0x1000000 - 32, True)]"
  using init_heap_inv [OF assms] unfolding whole_heap_def .

theorem init_heap_establishes_witness: "heap_inv (init_heap hdemo) [(heap_lo, 0x1000000 - 32, True)]"
  using hdemo_alloc by (intro init_heap_establishes) (simp_all add: hdemo_s_def, simp add: hdemo_def)

text \<open>
  \<open>defrag_heap\<close> ends, leaves no two neighbouring free blocks, keeps the list of allocated
  blocks and every byte outside the headers, and neither gains nor loses heap space; and
  \<open>get_heap_stats\<close> ends and reports the number of blocks and the free and allocated bytes of
  the block list, which with the 32-byte headers add up to the size of the heap.
\<close>

theorem defrag_heap_stats:
  assumes "heap_inv s bs"
  shows "\<exists>t. defrag_heap s = Some t \<and> heap_inv t (merge_free bs) \<and> no_adjacent (merge_free bs)
    \<and> allocated (merge_free bs) = allocated bs \<and> (\<forall>x. x \<notin> headers bs \<longrightarrow> hmem t x = hmem s x)
    \<and> get_heap_stats s (Some st) = Some (Some \<lparr>total_size = DEFAULT_HEAP_SIZE, used_size = of_nat (used_bytes bs),
        free_size = of_nat (free_bytes bs), num_blocks = of_nat (length bs),
        num_free_blocks = of_nat (length bs - length (allocated bs))\<rparr>)
    \<and> used_bytes bs + free_bytes bs + 32 * length bs = 0x1000000
    \<and> used_bytes (merge_free bs) + free_bytes (merge_free bs) + 32 * length (merge_free bs) = 0x1000000"
proof -
  obtain t where t: "defrag_heap s = Some t" "heap_inv t (merge_free bs)"
    "\<forall>x. x \<notin> headers bs \<longrightarrow> hmem t x = hmem s x"
    using defrag_refine [OF assms] by blast
  have T: "tiled heap_lo heap_hi bs" "tiled heap_lo heap_hi (merge_free bs)" "rep (hmem s) bs 0"
    using assms t(2) by (auto simp: heap_inv_def)
  have "get_heap_stats s (Some st) = Some (Some \<lparr>total_size = DEFAULT_HEAP_SIZE, used_size = of_nat (used_bytes bs),
        free_size = of_nat (free_bytes bs), num_blocks = of_nat (length bs),
        num_free_blocks = of_nat (length bs - length (allocated bs))\<rparr>)"
    using count_blocks_rep [OF T(3,1)] heap_inv_ptr [OF assms] assms
    by (simp add: get_heap_stats_def heap_inv_def)
  then show ?thesis
    using t tiled_total [OF T(1)] tiled_total [OF T(2)] no_adjacent_merge allocated_merge by auto
qed

theorem defrag_heap_stats_witness:
  "\<exists>t. defrag_heap hdemo_heap = Some t \<and> no_adjacent (merge_free whole_heap) \<and> heap_inv t (merge_free whole_heap)"
  using defrag_heap_stats [OF hdemo_heap_inv] by blast

text \<open>
  Requests close to \<open>2\<^sup>6\<^sup>4\<close> bytes are not refused: the round-up to 16 bytes wraps to 0, so
  that \<open>kmalloc\<close> returns a pointer to a block with no payload when any block is free.
\<close>

theorem kmalloc_wraps:
  assumes "heap_inv s bs" "2 ^ 64 - 15 \<le> unat sz" "(b, k, True) \<in> set bs"
  shows "\<exists>a t. kmalloc sz s = Some (of_nat (a + 32), t) \<and> of_nat (a + 32) \<noteq> (0::u64)
    \<and> heap_inv t (take_fit 0 bs)"
proof -
  have n: "unat (align sz) = 0"
  proof -
    have "unat sz + 15 - 2 ^ 64 < 16" "2 ^ 64 \<le> unat sz + 15" using assms(2) unat_lt64 [of sz] by linarith+
    then have "(unat sz + 15) mod 2 ^ 64 < 16" by (simp add: le_mod_geq)
    then show ?thesis unfolding align_nat by simp
  qed
  have sz: "sz \<noteq> 0" using assms(2) by auto
  have "first_fit 0 bs \<noteq> None" using assms(3) by (auto simp: first_fit_def find_None_iff)
  then obtain a k fr where x: "first_fit (unat (align sz)) bs = Some (a, k, fr)" using n by auto
  obtain xs ys where split: "bs = xs @ (a, k, True) # ys"
    by (rule first_fit_split [OF x]) (rule that; assumption)
  have "tiled heap_lo heap_hi bs" using assms(1) by (simp add: heap_inv_def)
  then have "a + 32 + k \<le> heap_hi" using tiled_bounds [of heap_lo heap_hi bs a k True] split by auto
  then have "unat (of_nat (a + 32) :: u64) = a + 32" by (intro unat_addr) simp
  then have "of_nat (a + 32) \<noteq> (0 :: u64)" by (metis add_is_0 unat_0 zero_neq_numeral)
  then show ?thesis using kmalloc_refine(2) [OF assms(1) sz x] unfolding n by blast
qed

theorem kmalloc_wraps_witness:
  "\<exists>a t. kmalloc 0xFFFFFFFFFFFFFFFF hdemo_heap = Some (of_nat (a + 32), t) \<and> of_nat (a + 32) \<noteq> (0::u64)
     \<and> heap_inv t [(heap_lo, 0, False), (heap_lo + 32, 0x1000000 - 64, True)]"
proof -
  have e: "take_fit 0 whole_heap = [(heap_lo, 0, False), (heap_lo + 32, 0x1000000 - 64, True)]"
    by (simp add: whole_heap_def carve_def)
  show ?thesis
    using kmalloc_wraps [OF hdemo_heap_inv, of "0xFFFFFFFFFFFFFFFF" heap_lo "0x1000000 - 32"]
    unfolding e by (auto simp: whole_heap_def)
qed

end
