(* ===== verification/Allocator.thy ===== *)
theory Allocator
  imports Heap
begin

text \<open>
  The contract of the kernel heap as its clients use it. \<open>heap_owns s A\<close> says that the
  heap is well formed and that \<open>A\<close> is the set of regions (address and size) that are
  handed out. The locale \<open>allocator\<close> states what \<open>malloc\<close> and \<open>free\<close> promise about that set
  and about the bytes in the regions, and derives what a caller needs; it is
  interpreted on \<open>kmalloc\<close> and \<open>kfree\<close>.
\<close>

type_synonym region = "nat \<times> nat"

definition bytes_of :: "region \<Rightarrow> nat set" where
  "bytes_of r = {fst r..<fst r + snd r}"

definition regions :: "blk list \<Rightarrow> region set" where
  "regions bs = (\<lambda>(a, k, f). (a + 32, k)) ` set (allocated bs)"

definition heap_owns :: "'a heap_scheme \<Rightarrow> region set \<Rightarrow> bool" where
  "heap_owns s A \<longleftrightarrow> (\<exists>bs. heap_inv s bs \<and> regions bs = A \<and> (\<forall>r \<in> A. 0 < snd r))"

section \<open>The interface\<close>

locale allocator =
  fixes malloc :: "u64 \<Rightarrow> 's \<Rightarrow> (u64 \<times> 's) option"
    and free :: "u64 \<Rightarrow> 's \<Rightarrow> 's option"
    and owns :: "'s \<Rightarrow> region set \<Rightarrow> bool"
    and content :: "'s \<Rightarrow> memory"
    and put :: "memory \<Rightarrow> 's \<Rightarrow> 's"
  assumes content_put: "content (put m s) = m"
    and put_content: "put (content s) s = s"
    and put_put: "put m (put m' s) = put m s"
    and malloc_law: "owns s A \<Longrightarrow> n \<noteq> 0 \<Longrightarrow> unat n \<le> 2 ^ 64 - 16 \<Longrightarrow>
      malloc n s = Some (0, s)
      \<or> (\<exists>p k m. malloc n s = Some (p, put m s) \<and> p \<noteq> 0 \<and> unat n \<le> k \<and> owns (put m s) (insert (unat p, k) A)
          \<and> (\<forall>r \<in> A. bytes_of r \<inter> bytes_of (unat p, k) = {} \<and> (\<forall>x \<in> bytes_of r. m x = content s x)))"
    and free_law: "owns s A \<Longrightarrow> (unat p, k) \<in> A \<Longrightarrow>
      \<exists>m. free p s = Some (put m s) \<and> owns (put m s) (A - {(unat p, k)})
          \<and> (\<forall>r \<in> A - {(unat p, k)}. \<forall>x \<in> bytes_of r. m x = content s x)"
    and free_null: "free 0 s = Some s"
    and write_law: "owns s A \<Longrightarrow> r \<in> A \<Longrightarrow> (\<And>x. x \<notin> bytes_of r \<Longrightarrow> m x = content s x) \<Longrightarrow> owns (put m s) A"
begin

text \<open>
  A scratch buffer: allocate it, write into it and free it again. Whatever is written
  inside the buffer, the heap owns afterwards what it owned before, with the same bytes.
\<close>

lemma scratch:
  assumes "owns s A" "n \<noteq> 0" "unat n \<le> 2 ^ 64 - 16" "malloc n s = Some (p, t)" "p \<noteq> 0"
    and w: "\<And>x. x < unat p \<or> unat p + unat n \<le> x \<Longrightarrow> m x = content t x"
  shows "\<exists>m'. free p (put m t) = Some (put m' s) \<and> owns (put m' s) A \<and> (\<forall>r \<in> A. \<forall>x \<in> bytes_of r. m' x = content s x)"
proof -
  obtain k c where k: "t = put c s" "unat n \<le> k" "owns t (insert (unat p, k) A)"
    "\<forall>r \<in> A. bytes_of r \<inter> bytes_of (unat p, k) = {} \<and> (\<forall>x \<in> bytes_of r. c x = content s x)"
    using malloc_law [OF assms(1-3)] assms(4,5) by auto
  have "0 < unat n" using assms(2) by (simp add: unat_gt_0)
  then have in_p: "unat p \<in> bytes_of (unat p, k)" using k(2) by (simp add: bytes_of_def)
  then have new: "(unat p, k) \<notin> A" using k(4) by blast
  have out: "m x = content t x" if "x \<notin> bytes_of (unat p, k)" for x
    using that k(2) by (intro w) (auto simp: bytes_of_def)
  have o: "owns (put m t) (insert (unat p, k) A)"
    by (rule write_law [OF k(3) insertI1 out])
  obtain m' where m': "free p (put m t) = Some (put m' (put m t))" "owns (put m' (put m t)) (insert (unat p, k) A - {(unat p, k)})"
    "\<forall>r \<in> insert (unat p, k) A - {(unat p, k)}. \<forall>x \<in> bytes_of r. m' x = content (put m t) x"
    using free_law [OF o insertI1] by blast
  have A: "insert (unat p, k) A - {(unat p, k)} = A" using new by blast
  have "m' x = content s x" if "r \<in> A" "x \<in> bytes_of r" for r x
  proof -
    have "x \<notin> bytes_of (unat p, k)" using k(4) that by blast
    then have "m x = c x" using out k(1) by (simp add: content_put)
    then show ?thesis using m'(3) k(4) that unfolding A content_put by auto
  qed
  then show ?thesis using m'(1,2) unfolding A k(1) put_put by blast
qed

lemma malloc_total:
  assumes "owns s A" "n \<noteq> 0" "unat n \<le> 2 ^ 64 - 16"
  obtains "malloc n s = Some (0, s)"
  | p k m where "malloc n s = Some (p, put m s)" "p \<noteq> 0" "unat n \<le> k" "owns (put m s) (insert (unat p, k) A)"
      "(unat p, k) \<notin> A" "\<And>r x. r \<in> A \<Longrightarrow> x \<in> bytes_of r \<Longrightarrow> m x = content s x"
proof -
  have "0 < unat n" using assms(2) by (simp add: unat_gt_0)
  then have "(unat p, k) \<notin> A" if "unat n \<le> k" "\<forall>r \<in> A. bytes_of r \<inter> bytes_of (unat p, k) = {}" for p :: u64 and k
    using that by (force simp: bytes_of_def)
  with malloc_law [OF assms] that show thesis by blast
qed

end

section \<open>The kernel heap provides it\<close>

lemma set_allocated: "x \<in> set (allocated bs) \<longleftrightarrow> x \<in> set bs \<and> \<not> snd (snd x)"
  by (cases x) (auto simp: allocated_def)

lemma payload_not_header:
  assumes T: "tiled heap_lo heap_hi bs" and c: "(c, l, g) \<in> set bs" and b: "(b, j, f) \<in> set bs" and x: "x \<in> {b + 32..<b + 32 + j}"
  shows "x \<notin> header (of_nat c)"
proof -
  have u: "unat (of_nat c :: u64) = c" using tiled_bounds [OF T c] by (intro unat_addr) simp
  show ?thesis
  proof (cases "(c, l, g) = (b, j, f)")
    case False
    obtain us vs where s: "bs = us @ (c, l, g) # vs" using split_list [OF c] by blast
    have "(b, j, f) \<in> set us \<union> set vs" using b s False by auto
    from tiled_disjoint [OF T [unfolded s] this] x u show ?thesis by (auto simp: header_def)
  qed (use x u in \<open>auto simp: header_def\<close>)
qed

lemma rep_headers:
  "rep m bs p \<Longrightarrow> (\<And>c l g x. (c, l, g) \<in> set bs \<Longrightarrow> x \<in> header (of_nat c) \<Longrightarrow> m' x = m x) \<Longrightarrow> rep m' bs p"
proof (induction bs)
  case (Cons x bs)
  obtain c l g where x: "x = (c, l, g)" by (cases x)
  have "same_bytes (header (of_nat c)) m m'" using Cons.prems(2) x by (auto simp: same_bytes_def)
  from fields_cong [OF this] Cons x show ?case by force
qed simp

lemma write_owns:
  assumes "heap_owns s A" "r \<in> A" and w: "\<And>x. x \<notin> bytes_of r \<Longrightarrow> m x = hmem s x"
  shows "heap_owns (s\<lparr>hmem := m\<rparr>) A"
proof -
  obtain bs where bs: "heap_inv s bs" "regions bs = A" "\<forall>r \<in> A. 0 < snd r"
    using assms(1) by (auto simp: heap_owns_def)
  obtain b j f where b: "(b, j, f) \<in> set bs" "r = (b + 32, j)"
    using assms(2) bs(2) by (auto simp: regions_def set_allocated)
  have I: "tiled heap_lo heap_hi bs" "rep (hmem s) bs 0" using bs(1) by (auto simp: heap_inv_def)
  have "rep m bs 0"
  proof (rule rep_headers [OF I(2)])
    fix c l g x assume c: "(c, l, g) \<in> set bs" "x \<in> header (of_nat c)"
    with payload_not_header [OF I(1) c(1) b(1), of x] show "m x = hmem s x"
      by (intro w) (auto simp: b(2) bytes_of_def)
  qed
  then show ?thesis using bs by (auto simp: heap_owns_def heap_inv_def intro!: exI [of _ bs])
qed

lemma owns_disjoint:
  assumes "heap_owns s A" "r \<in> A" "r' \<in> A" "r \<noteq> r'"
  shows "bytes_of r \<inter> bytes_of r' = {}"
proof -
  obtain bs where bs: "heap_inv s bs" "regions bs = A" using assms(1) by (auto simp: heap_owns_def)
  obtain a k where a: "(a, k, False) \<in> set bs" "r = (a + 32, k)"
    using assms(2) bs(2) by (auto simp: regions_def set_allocated)
  obtain b j where b: "(b, j, False) \<in> set bs" "r' = (b + 32, j)"
    using assms(3) bs(2) by (auto simp: regions_def set_allocated)
  have T: "tiled heap_lo heap_hi bs" using bs(1) by (simp add: heap_inv_def)
  obtain us vs where s: "bs = us @ (a, k, False) # vs" using split_list [OF a(1)] by blast
  have "(b, j, False) \<in> set us \<union> set vs" using b a(2) assms(4) s by auto
  from tiled_disjoint [OF T [unfolded s] this] a(2) b(2) show ?thesis by (auto simp: bytes_of_def)
qed

lemma kmalloc_owns:
  assumes "heap_owns s A" "n \<noteq> 0" "unat n \<le> 2 ^ 64 - 16"
  shows "kmalloc n s = Some (0, s)
      \<or> (\<exists>p k m. kmalloc n s = Some (p, s\<lparr>hmem := m\<rparr>) \<and> p \<noteq> 0 \<and> unat n \<le> k \<and> heap_owns (s\<lparr>hmem := m\<rparr>) (insert (unat p, k) A)
          \<and> (\<forall>r \<in> A. bytes_of r \<inter> bytes_of (unat p, k) = {} \<and> (\<forall>x \<in> bytes_of r. m x = hmem s x)))"
proof -
  obtain bs where bs: "heap_inv s bs" "regions bs = A" "\<forall>r \<in> A. 0 < snd r"
    using assms(1) by (auto simp: heap_owns_def)
  show ?thesis
  proof (cases "first_fit (unat (align n)) bs")
    case None
    then show ?thesis using kmalloc_refine(1) [OF bs(1) assms(2)] by simp
  next
    case (Some y)
    obtain a k fr where x: "first_fit (unat (align n)) bs = Some (a, k, fr)" using Some by (cases y) auto
    obtain t where t: "kmalloc n s = Some (of_nat (a + 32), t)" "heap_inv t (take_fit (unat (align n)) bs)"
      "t = s\<lparr>hmem := hmem t\<rparr>" "\<forall>x. x \<notin> {a..<a + 32 + k} \<longrightarrow> hmem t x = hmem s x"
      using kmalloc_refine(2) [OF bs(1) assms(2) x] by blast
    obtain xs ys k' where b: "allocated bs = allocated xs @ allocated ys"
      "allocated (take_fit (unat (align n)) bs) = allocated xs @ (a, k', False) # allocated ys"
      "unat (align n) \<le> k'" "bs = xs @ (a, k, True) # ys" "k' \<le> k"
      by (rule kmalloc_new_block [OF x]) (rule that; assumption)
    have T: "tiled heap_lo heap_hi bs" using bs(1) by (simp add: heap_inv_def)
    have bd: "heap_lo \<le> a" "a + 32 + k \<le> heap_hi" using tiled_bounds [OF T, of a k True] b(4) by auto
    then have u: "unat (of_nat (a + 32) :: u64) = a + 32" by (intro unat_addr) simp
    then have nz: "of_nat (a + 32) \<noteq> (0 :: u64)" by (metis add_is_0 unat_0 zero_neq_numeral)
    have nk: "unat n \<le> k'" using align_ge [OF assms(3)] b(3) by simp
    have dis: "bytes_of r \<inter> {a..<a + 32 + k} = {}" if r: "r \<in> A" for r
    proof -
      obtain c l g where c: "(c, l, g) \<in> set (allocated bs)" "r = (c + 32, l)" using r bs(2) by (auto simp: regions_def)
      then have "(c, l, g) \<in> set xs \<union> set ys" using b(1) by (auto simp: set_allocated)
      from tiled_disjoint [OF T [unfolded b(4)] this] c(2) show ?thesis by (auto simp: bytes_of_def)
    qed
    have reg: "regions (take_fit (unat (align n)) bs) = insert (a + 32, k') A"
      using bs(2) b(1,2) by (auto simp: regions_def)
    moreover have "0 < k'" using nk assms(2) by (metis gr_zeroI le_zero_eq unat_eq_zero)
    ultimately have "heap_owns t (insert (a + 32, k') A)"
      using t(2) bs(3) by (auto simp: heap_owns_def)
    moreover have "\<forall>r \<in> A. bytes_of r \<inter> bytes_of (a + 32, k') = {} \<and> (\<forall>x \<in> bytes_of r. hmem t x = hmem s x)"
    proof (intro ballI conjI)
      fix r x assume r: "r \<in> A"
      show "bytes_of r \<inter> bytes_of (a + 32, k') = {}" using dis [OF r] b(5) by (force simp: bytes_of_def)
      assume "x \<in> bytes_of r"
      then show "hmem t x = hmem s x" using dis [OF r] t(4) by blast
    qed
    ultimately show ?thesis using t(1,3) u nz nk
      by (intro disjI2 exI [of _ "of_nat (a + 32)"] exI [of _ k'] exI [of _ "hmem t"]) simp
  qed
qed

lemma kfree_owns:
  assumes "heap_owns s A" "(unat p, k) \<in> A"
  shows "\<exists>m. kfree p s = Some (s\<lparr>hmem := m\<rparr>) \<and> heap_owns (s\<lparr>hmem := m\<rparr>) (A - {(unat p, k)})
          \<and> (\<forall>r \<in> A - {(unat p, k)}. \<forall>x \<in> bytes_of r. m x = hmem s x)"
proof -
  obtain bs where bs: "heap_inv s bs" "regions bs = A" "\<forall>r \<in> A. 0 < snd r"
    using assms(1) by (auto simp: heap_owns_def)
  obtain a where a: "(a, k, False) \<in> set bs" "unat p = a + 32"
    using assms(2) bs(2) by (auto simp: regions_def set_allocated)
  obtain xs ys where split: "bs = xs @ (a, k, False) # ys" using split_list [OF a(1)] by blast
  have k: "0 < k" using bs(3) assms(2) by force
  have p: "p = of_nat (a + 32)" using arg_cong [OF a(2), of "of_nat :: nat \<Rightarrow> u64"] by simp
  have T: "tiled heap_lo heap_hi (xs @ (a, k, False) # ys)" using bs(1) split by (simp add: heap_inv_def)
  obtain t where t: "kfree p s = Some t" "heap_inv t (release xs a k ys)" "t = s\<lparr>hmem := hmem t\<rparr>"
    "\<forall>x. x \<notin> header (of_nat a) \<and> (xs \<noteq> [] \<longrightarrow> x \<notin> header (of_nat (fst (last xs)))) \<longrightarrow> hmem t x = hmem s x"
    using kfree_refine [OF bs(1) [unfolded split] k] p by blast
  have hd: "x \<notin> header (of_nat c)" if "(c, l, g) \<in> set bs" "(b, j, False) \<in> set bs" "x \<in> {b + 32..<b + 32 + j}" for c l g b j x
    by (rule payload_not_header [OF T [folded split] that])
  have keep: "hmem t x = hmem s x" if "(b, j, False) \<in> set bs" "x \<in> {b + 32..<b + 32 + j}" for b j x
  proof -
    have "xs \<noteq> [] \<Longrightarrow> last xs \<in> set bs" using split by simp
    then show ?thesis using t(4) hd [OF a(1) that] hd [OF _ that, of "fst (last xs)" "fst (snd (last xs))" "snd (snd (last xs))"] by auto
  qed
  have uniq: "(a, k, False) \<notin> set xs \<union> set ys" using tiled_disjoint [OF T, of a k False] by auto
  have mem: "r \<in> regions us \<longleftrightarrow> (\<exists>b. (b, snd r, False) \<in> set us \<and> fst r = b + 32)" for r us
    by (cases r) (force simp: regions_def set_allocated)
  have "regions (release xs a k ys) = regions xs \<union> regions ys"
    by (simp add: regions_def allocated_release image_Un)
  then have reg: "regions (release xs a k ys) = A - {(unat p, k)}"
    using uniq unfolding bs(2) [symmetric] a(2) set_eq_iff by (auto simp: mem split)
  have "heap_owns t (A - {(unat p, k)})" using t(2) reg bs(3) by (auto simp: heap_owns_def)
  moreover have "\<forall>r \<in> A - {(unat p, k)}. \<forall>x \<in> bytes_of r. hmem t x = hmem s x"
    using keep bs(2) by (auto simp: regions_def set_allocated bytes_of_def)
  ultimately show ?thesis using t(1,3) by (intro exI [of _ "hmem t"]) simp
qed

interpretation kheap: allocator kmalloc kfree heap_owns hmem "\<lambda>m s. s\<lparr>hmem := m\<rparr>"
proof (unfold_locales, goal_cases)
  case (4 s A n)
  then show ?case by (rule kmalloc_owns)
next
  case (5 s A p k)
  then show ?case by (rule kfree_owns)
next
  case (7 s A r m)
  then show ?case by (rule write_owns)
qed (simp_all add: kfree_def)

end
