(* ===== verification/Strings.thy ===== *)
theory Strings
  imports Allocator
begin

text \<open>
  The string routines of \<^verbatim>\<open>src/kernel/string.c\<close>. A string is a pointer into byte memory;
  the routines run over the bytes up to the terminating zero, as the C loops do. A loop
  that has no bound of its own is a partial function, so that a string without a
  terminator is the value \<open>None\<close>. \<open>cstr m p bs\<close> says that the memory holds the bytes \<open>bs\<close>
  and a terminator at \<open>p\<close>; the lemmas give the result of every routine on such strings.
\<close>

section \<open>Operations\<close>

partial_function (option) str_len_from :: "memory \<Rightarrow> nat \<Rightarrow> nat \<Rightarrow> nat option" where
  "str_len_from m s i = (if m (s + i) \<noteq> 0 then str_len_from m s (i + 1) else Some i)"

definition str_len :: "memory \<Rightarrow> nat \<Rightarrow> nat option" where
  "str_len m s = str_len_from m s 0"

definition strlen :: "memory \<Rightarrow> nat \<Rightarrow> nat option" where
  "strlen m s = str_len m s"

definition char_diff :: "u8 \<Rightarrow> u8 \<Rightarrow> int" where
  "char_diff a b = uint a - uint b"

partial_function (option) str_cmp_from :: "memory \<Rightarrow> nat \<Rightarrow> nat \<Rightarrow> nat \<Rightarrow> int option" where
  "str_cmp_from m s1 s2 i =
     (if m (s1 + i) \<noteq> 0 \<and> m (s2 + i) \<noteq> 0 \<and> m (s1 + i) = m (s2 + i) then str_cmp_from m s1 s2 (i + 1)
      else Some (char_diff (m (s1 + i)) (m (s2 + i))))"

definition str_cmp :: "memory \<Rightarrow> nat \<Rightarrow> nat \<Rightarrow> int option" where
  "str_cmp m s1 s2 = str_cmp_from m s1 s2 0"

definition strcmp :: "memory \<Rightarrow> nat \<Rightarrow> nat \<Rightarrow> int option" where
  "strcmp m a b = str_cmp m a b"

partial_function (option) str_cpy_from :: "nat \<Rightarrow> nat \<Rightarrow> nat \<Rightarrow> memory \<Rightarrow> memory option" where
  "str_cpy_from dst src i m =
     (if m (src + i) \<noteq> 0 then str_cpy_from dst src (i + 1) (m(dst + i := m (src + i)))
      else Some (m(dst + i := 0)))"

definition str_cpy :: "memory \<Rightarrow> nat \<Rightarrow> nat \<Rightarrow> memory option" where
  "str_cpy m dst src = str_cpy_from dst src 0 m"

definition strcpy :: "memory \<Rightarrow> nat \<Rightarrow> nat \<Rightarrow> memory option" where
  "strcpy m dst src = str_cpy m dst src"

partial_function (option) needle_here :: "memory \<Rightarrow> nat \<Rightarrow> nat \<Rightarrow> bool option" where
  "needle_here m h n =
     (if m h \<noteq> 0 \<and> m n \<noteq> 0 \<and> m h = m n then needle_here m (h + 1) (n + 1) else Some (m n = 0))"

partial_function (option) strstr_from :: "memory \<Rightarrow> nat \<Rightarrow> nat \<Rightarrow> nat option option" where
  "strstr_from m needle haystack =
     (if m haystack \<noteq> 0
      then (case needle_here m haystack needle of
              None \<Rightarrow> None
            | Some found \<Rightarrow> if found then Some (Some haystack) else strstr_from m needle (haystack + 1))
      else Some None)"

definition strstr :: "memory \<Rightarrow> nat \<Rightarrow> nat \<Rightarrow> nat option option" where
  "strstr m haystack needle =
     (if m needle = 0 then Some (Some haystack) else strstr_from m needle haystack)"

partial_function (option) strchr :: "memory \<Rightarrow> nat \<Rightarrow> int \<Rightarrow> nat option option" where
  "strchr m s c =
     (if m s \<noteq> 0 then (if m s = word_of_int c then Some (Some s) else strchr m (s + 1) c)
      else if c = 0 then Some (Some s) else Some None)"

function strncpy_copy :: "nat \<Rightarrow> nat \<Rightarrow> nat \<Rightarrow> nat \<Rightarrow> memory \<Rightarrow> nat \<times> memory" where
  "strncpy_copy dest src n i m =
     (if i < n \<and> m (src + i) \<noteq> 0 then strncpy_copy dest src n (i + 1) (m(dest + i := m (src + i))) else (i, m))"
  by pat_completeness auto
termination by (relation "measure (\<lambda>(dest, src, n, i, m). n - i)") auto

definition strncpy :: "memory \<Rightarrow> nat \<Rightarrow> nat \<Rightarrow> nat \<Rightarrow> memory" where
  "strncpy m dest src n =
     (let (i, m) = strncpy_copy dest src n 0 m
      in fold (\<lambda>i m. m(dest + i := 0)) [i..<n] m)"

function strncmp_from :: "memory \<Rightarrow> nat \<Rightarrow> nat \<Rightarrow> nat \<Rightarrow> nat \<Rightarrow> int" where
  "strncmp_from m s1 s2 n i =
     (if i < n \<and> m (s1 + i) \<noteq> 0 \<and> m (s2 + i) \<noteq> 0 \<and> m (s1 + i) = m (s2 + i)
      then strncmp_from m s1 s2 n (i + 1)
      else if i = n then 0 else char_diff (m (s1 + i)) (m (s2 + i)))"
  by pat_completeness auto
termination by (relation "measure (\<lambda>(m, s1, s2, n, i). n - i)") auto

definition strncmp :: "memory \<Rightarrow> nat \<Rightarrow> nat \<Rightarrow> nat \<Rightarrow> int" where
  "strncmp m s1 s2 n = strncmp_from m s1 s2 n 0"

declare strncpy_copy.simps [simp del] strncmp_from.simps [simp del]

definition bytes :: "string \<Rightarrow> u8 list" where
  "bytes s = map of_char s"

fun put_bytes :: "nat \<Rightarrow> u8 list \<Rightarrow> memory \<Rightarrow> memory" where
  "put_bytes p [] m = m"
| "put_bytes p (b # bs) m = put_bytes (p + 1) bs (m(p := b))"

text \<open>
  \<open>strdup\<close> takes the characters of its argument, which may lie anywhere in memory, and puts
  them with the terminator into a new block of the heap.
\<close>

definition strdup :: "string \<Rightarrow> 'a heap_scheme \<Rightarrow> (u64 \<times> 'a heap_scheme) option" where
  "strdup str s =
     (case kmalloc (of_nat (length str + 1)) s of
        None \<Rightarrow> None
      | Some (dup, s) \<Rightarrow>
          if dup = 0 then Some (0, s)
          else Some (dup, s\<lparr>hmem := put_bytes (unat dup) (bytes str @ [0]) (hmem s)\<rparr>))"

text \<open>
  \<open>strtok\<close> keeps its position in a static variable, here the argument and result \<open>next\<close>
  (\<open>None\<close> for the null pointer). It returns the token, the position and the memory.
\<close>

partial_function (option) is_delim :: "memory \<Rightarrow> nat \<Rightarrow> u8 \<Rightarrow> bool option" where
  "is_delim m d c = (if m d \<noteq> 0 then (if c = m d then Some True else is_delim m (d + 1) c) else Some False)"

partial_function (option) skip_delims :: "memory \<Rightarrow> nat \<Rightarrow> nat \<Rightarrow> nat option" where
  "skip_delims m delim nxt =
     (if m nxt \<noteq> 0
      then (case is_delim m delim (m nxt) of
              None \<Rightarrow> None
            | Some b \<Rightarrow> if \<not> b then Some nxt else skip_delims m delim (nxt + 1))
      else Some nxt)"

partial_function (option) find_delim :: "memory \<Rightarrow> nat \<Rightarrow> nat \<Rightarrow> nat option option" where
  "find_delim m delim nxt =
     (if m nxt \<noteq> 0
      then (case is_delim m delim (m nxt) of
              None \<Rightarrow> None
            | Some b \<Rightarrow> if b then Some (Some nxt) else find_delim m delim (nxt + 1))
      else Some None)"

definition strtok :: "nat option \<Rightarrow> nat \<Rightarrow> nat option \<Rightarrow> memory \<Rightarrow> (nat option \<times> nat option \<times> memory) option" where
  "strtok str delim nxt m =
     (case (case str of Some p \<Rightarrow> Some p | None \<Rightarrow> nxt) of
        None \<Rightarrow> Some (None, None, m)
      | Some nxt \<Rightarrow>
          (case skip_delims m delim nxt of
             None \<Rightarrow> None
           | Some start \<Rightarrow>
               if m start = 0 then Some (None, None, m)
               else (case find_delim m delim start of
                       None \<Rightarrow> None
                     | Some None \<Rightarrow> Some (Some start, None, m)
                     | Some (Some e) \<Rightarrow> Some (Some start, Some (e + 1), m(e := 0)))))"

section \<open>Strings in memory\<close>

definition cstr :: "memory \<Rightarrow> nat \<Rightarrow> u8 list \<Rightarrow> bool" where
  "cstr m p bs \<longleftrightarrow> (\<forall>i < length bs. m (p + i) = bs ! i \<and> bs ! i \<noteq> 0) \<and> m (p + length bs) = 0"

lemma cstr_Nil [simp]: "cstr m p [] \<longleftrightarrow> m p = 0"
  by (simp add: cstr_def)

lemma cstr_Cons [simp]: "cstr m p (b # bs) \<longleftrightarrow> m p = b \<and> b \<noteq> 0 \<and> cstr m (p + 1) bs"
  by (auto simp: cstr_def less_Suc_eq_0_disj all_conj_distrib)

lemma cstr_append: "cstr m p (xs @ ys) \<longleftrightarrow> (\<forall>i < length xs. m (p + i) = xs ! i \<and> xs ! i \<noteq> 0) \<and> cstr m (p + length xs) ys"
proof (induction xs arbitrary: p)
  case (Cons x xs)
  then show ?case by (auto simp: less_Suc_eq_0_disj add.assoc)
qed simp

lemma cstr_unique: "cstr m p xs \<Longrightarrow> cstr m p ys \<Longrightarrow> xs = ys"
proof (induction xs arbitrary: p ys)
  case Nil
  then show ?case by (cases ys) auto
next
  case (Cons x xs)
  then show ?case by (cases ys) auto
qed

lemma cstr_nonzero: "cstr m p bs \<Longrightarrow> b \<in> set bs \<Longrightarrow> b \<noteq> 0"
  by (auto simp: cstr_def in_set_conv_nth)

lemma cstr_same: "cstr m p bs \<Longrightarrow> (\<And>x. p \<le> x \<Longrightarrow> x \<le> p + length bs \<Longrightarrow> m' x = m x) \<Longrightarrow> cstr m' p bs"
  by (simp add: cstr_def)

lemma put_bytes_eq: "put_bytes p bs m x = (if p \<le> x \<and> x < p + length bs then bs ! (x - p) else m x)"
proof (induction bs arbitrary: p m)
  case (Cons b bs)
  then show ?case by (auto simp: nth_Cons' Suc_diff_le)
qed auto

lemma strlen_cstr: "cstr m p bs \<Longrightarrow> strlen m p = Some (length bs)"
proof -
  have "cstr m (p + i) bs \<Longrightarrow> str_len_from m p i = Some (i + length bs)" for i
  proof (induction bs arbitrary: i)
    case (Cons b bs)
    from Cons.IH [of "i + 1"] Cons.prems show ?case
      by (simp add: str_len_from.simps [of m p i] add.assoc)
  qed (simp add: str_len_from.simps)
  from this [of 0] show "cstr m p bs \<Longrightarrow> strlen m p = Some (length bs)"
    by (simp add: strlen_def str_len_def)
qed

text \<open>The value of the comparison: the difference at the first position where the strings differ.\<close>

fun diff :: "u8 list \<Rightarrow> u8 list \<Rightarrow> int" where
  "diff (a # as) (b # bs) = (if a = b then diff as bs else uint a - uint b)"
| "diff (a # as) [] = uint a"
| "diff [] (b # bs) = - uint b"
| "diff [] [] = 0"

lemma strcmp_cstr: "cstr m p as \<Longrightarrow> cstr m q bs \<Longrightarrow> strcmp m p q = Some (diff as bs)"
proof -
  have "cstr m (p + i) as \<Longrightarrow> cstr m (q + i) bs \<Longrightarrow> str_cmp_from m p q i = Some (diff as bs)" for i
  proof (induction as bs arbitrary: i rule: diff.induct)
    case (1 a as b bs)
    from "1.IH" [of "i + 1"] "1.prems" show ?case
      by (simp add: str_cmp_from.simps [of m p q i] char_diff_def add.assoc)
  qed (auto simp: str_cmp_from.simps [of m p q] char_diff_def split: list.splits)
  from this [of 0] show "cstr m p as \<Longrightarrow> cstr m q bs \<Longrightarrow> strcmp m p q = Some (diff as bs)"
    by (simp add: strcmp_def str_cmp_def)
qed

lemma uint_pos: "(a :: u8) \<noteq> 0 \<Longrightarrow> 0 < uint a"
  by (metis order_le_less uint_0_iff uint_ge_0)

lemma uint_neq: "(a :: u8) \<noteq> b \<Longrightarrow> uint a \<noteq> uint b"
  by (metis word_uint_eq_iff)

lemma diff_0_iff: "0 \<notin> set as \<Longrightarrow> 0 \<notin> set bs \<Longrightarrow> diff as bs = 0 \<longleftrightarrow> as = bs"
  by (induction as bs rule: diff.induct) (auto dest: uint_pos uint_neq)

lemma diff_neg_iff: "0 \<notin> set as \<Longrightarrow> 0 \<notin> set bs \<Longrightarrow> diff as bs < 0 \<longleftrightarrow> (as, bs) \<in> lexord {(a, b). a < b}"
  by (induction as bs rule: diff.induct) (auto simp: word_less_def dest: uint_pos)

lemma strncmp_cstr:
  assumes "cstr m p as" "cstr m q bs"
  shows "strncmp m p q n = diff (take n as) (take n bs)"
proof -
  have "cstr m (p + i) as \<Longrightarrow> cstr m (q + i) bs \<Longrightarrow> strncmp_from m p q (i + n) i = diff (take n as) (take n bs)" for i
  proof (induction as bs arbitrary: i n rule: diff.induct)
    case (1 a as b bs)
    from "1.IH" [of "i + 1" "n - 1"] "1.prems" show ?case
      by (cases n) (simp_all add: strncmp_from.simps [of m p q _ i] char_diff_def add.assoc)
  qed (auto simp: strncmp_from.simps [of m p q] char_diff_def take_Cons')
  from this [of 0] assms show ?thesis by (simp add: strncmp_def)
qed

text \<open>Copying. The bytes of the source must not be overwritten on the way.\<close>

lemma strcpy_cstr:
  assumes "cstr m src bs" "dst + length bs < src \<or> src + length bs < dst"
  shows "strcpy m dst src = Some (put_bytes dst (bs @ [0]) m)"
proof -
  have "cstr m (src + i) cs \<Longrightarrow> i + length cs \<le> length bs \<Longrightarrow>
    str_cpy_from dst src i m = Some (put_bytes (dst + i) (cs @ [0]) m)" for i cs m
  proof (induction cs arbitrary: i m)
    case (Cons c cs)
    have "cstr (m(dst + i := c)) (src + (i + 1)) cs"
      using Cons.prems assms(2) by (auto simp: add.assoc intro: cstr_same [of m])
    from Cons.IH [OF this] Cons.prems show ?case
      by (simp add: str_cpy_from.simps [of dst src i m] fun_upd_def)
  qed (simp add: str_cpy_from.simps)
  from this [of m 0 bs] assms(1) show ?thesis by (simp add: strcpy_def str_cpy_def)
qed

lemma fold_zero: "i \<le> n \<Longrightarrow> fold (\<lambda>i m. m(d + i := 0)) [i..<n] m = put_bytes (d + i) (replicate (n - i) 0) m"
proof (induction "n - i" arbitrary: i m)
  case (Suc k)
  then have "[i..<n] = i # [Suc i..<n]" by (simp add: upt_conv_Cons)
  moreover have "n - i = Suc (n - Suc i)" using Suc.hyps(2) by simp
  ultimately show ?case using Suc.hyps(1) [of "Suc i"] Suc.hyps(2) by simp
qed simp

lemma put_bytes_append: "put_bytes p (xs @ ys) m = put_bytes (p + length xs) ys (put_bytes p xs m)"
  by (induction xs arbitrary: p m) auto

lemma strncpy_cstr:
  assumes "cstr m src bs" "dst + n \<le> src \<or> src + length bs < dst"
  shows "strncpy m dst src n = put_bytes dst (take n bs @ replicate (n - length bs) 0) m"
proof -
  have "cstr m (src + i) cs \<Longrightarrow> i + length cs \<le> length bs \<Longrightarrow> i \<le> n \<Longrightarrow>
    strncpy_copy dst src n i m = (i + length (take (n - i) cs), put_bytes (dst + i) (take (n - i) cs) m)" for i cs m
  proof (induction cs arbitrary: i m)
    case (Cons c cs)
    show ?case
    proof (cases "i < n")
      case True
      have "cstr (m(dst + i := c)) (src + (i + 1)) cs"
        using Cons.prems assms(2) True by (auto simp: add.assoc intro: cstr_same [of m])
      from Cons.IH [OF this] Cons.prems True show ?thesis
        by (simp add: strncpy_copy.simps [of dst src n i m] take_Cons' Suc_diff_Suc fun_upd_def)
    qed (use Cons.prems in \<open>simp add: strncpy_copy.simps\<close>)
  qed (simp add: strncpy_copy.simps)
  from this [of m 0 bs] assms(1) show ?thesis
    by (simp add: strncpy_def fold_zero put_bytes_append min_def)
qed

text \<open>Searching. \<open>strstr\<close> finds the first position at which the needle occurs.\<close>

lemma needle_here_cstr:
  "cstr m h hs \<Longrightarrow> cstr m n ns \<Longrightarrow> needle_here m h n = Some (take (length ns) hs = ns)"
proof (induction ns arbitrary: h n hs)
  case Nil
  then show ?case by (simp add: needle_here.simps)
next
  case (Cons x ns)
  then show ?case by (cases hs) (auto simp: needle_here.simps [of m h n])
qed

lemma strstr_from_cstr:
  assumes n: "cstr m n ns" "ns \<noteq> []"
  shows "cstr m (h + i) hs \<Longrightarrow> strstr_from m n (h + i) =
    Some (map_option (\<lambda>j. h + j) (scan (\<lambda>j. take (length ns) (drop (j - i) hs) = ns) i (i + length hs)))"
proof (induction hs arbitrary: i)
  case Nil
  then show ?case by (simp add: strstr_from.simps scan.simps)
next
  case (Cons x hs)
  have e: "scan (\<lambda>j. take (length ns) (drop (j - i) (x # hs)) = ns) (Suc i) (Suc (i + length hs))
      = scan (\<lambda>j. take (length ns) (drop (j - Suc i) hs) = ns) (Suc i) (Suc (i + length hs))"
    by (rule scan_cong) (simp add: drop_Cons')
  from Cons.IH [of "Suc i"] Cons.prems show ?case
    by (simp add: strstr_from.simps [of m n "h + i"] needle_here_cstr [OF Cons.prems n(1)]
        scan.simps [of _ i] e del: drop_Suc_Cons)
qed

lemma strchr_cstr:
  assumes "0 \<le> c" "c < 256"
  shows "cstr m (s + i) bs \<Longrightarrow> strchr m (s + i) c =
    Some (map_option (\<lambda>j. s + j) (scan (\<lambda>j. (bs @ [0]) ! (j - i) = word_of_int c) i (i + length bs + 1)))"
proof (induction bs arbitrary: i)
  case Nil
  have "(0 :: u8) = word_of_int c \<longleftrightarrow> c = 0"
    using assms by (auto simp: word_uint_eq_iff uint_word_of_int)
  with Nil show ?case by (auto simp: strchr.simps scan.simps)
next
  case (Cons x bs)
  have e: "scan (\<lambda>j. (x # bs @ [0]) ! (j - i) = word_of_int c) (Suc i) (Suc (Suc (i + length bs)))
     = scan (\<lambda>j. (bs @ [0]) ! (j - Suc i) = word_of_int c) (Suc i) (Suc (Suc (i + length bs)))"
    by (rule scan_cong) (simp add: nth_Cons')
  from Cons.IH [of "Suc i"] Cons.prems show ?case
    by (auto simp: strchr.simps [of m "s + i"] scan.simps [of _ i] e)
qed

section \<open>Tokens\<close>

text \<open>
  The tokens of a string: the maximal runs of bytes that are no delimiters. \<open>strtok_run\<close>
  is the way a caller uses \<open>strtok\<close>: calls with a null pointer until no token is left.
\<close>

function tokens :: "(u8 \<Rightarrow> bool) \<Rightarrow> u8 list \<Rightarrow> u8 list list" where
  "tokens dl bs =
     (let r = dropWhile dl bs in
      if r = [] then [] else takeWhile (\<lambda>b. \<not> dl b) r # tokens dl (dropWhile (\<lambda>b. \<not> dl b) r))"
  by pat_completeness auto
termination
proof (relation "measure (\<lambda>(dl, bs). length bs)", simp, goal_cases)
  case (1 dl bs)
  then obtain x xs where x: "dropWhile dl bs = x # xs" by (cases "dropWhile dl bs") auto
  then have "\<not> dl x" by (metis hd_dropWhile list.distinct(1) list.sel(1))
  with x have "takeWhile (\<lambda>b. \<not> dl b) (dropWhile dl bs) \<noteq> []" by auto
  then have "length (dropWhile (\<lambda>b. \<not> dl b) (dropWhile dl bs)) < length (dropWhile dl bs)"
    by (metis add_less_cancel_right length_append length_greater_0_conv less_add_same_cancel2 takeWhile_dropWhile_id)
  moreover have "length (dropWhile dl bs) \<le> length bs" by (rule length_dropWhile_le)
  ultimately show ?case using 1 by simp
qed

declare tokens.simps [simp del]

inductive strtok_run :: "nat \<Rightarrow> nat option \<Rightarrow> memory \<Rightarrow> nat list \<Rightarrow> memory \<Rightarrow> bool" for delim where
  stop: "strtok None delim nxt m = Some (None, nxt', m') \<Longrightarrow> strtok_run delim nxt m [] m'"
| tok: "strtok None delim nxt m = Some (Some p, nxt', m') \<Longrightarrow> strtok_run delim nxt' m' ps m''
    \<Longrightarrow> strtok_run delim nxt m (p # ps) m''"

lemma is_delim_cstr: "cstr m d ds \<Longrightarrow> is_delim m d c = Some (c \<in> set ds)"
  by (induction ds arbitrary: d) (auto simp: is_delim.simps)

lemma skip_delims_cstr:
  assumes "cstr m d ds"
  shows "cstr m p bs \<Longrightarrow> skip_delims m d p = Some (p + length (takeWhile (\<lambda>b. b \<in> set ds) bs))"
  by (induction bs arbitrary: p)
    (auto simp: skip_delims.simps is_delim_cstr [OF assms])

lemma find_delim_cstr:
  assumes "cstr m d ds"
  shows "cstr m p bs \<Longrightarrow> find_delim m d p =
    Some (let k = length (takeWhile (\<lambda>b. b \<notin> set ds) bs) in if k = length bs then None else Some (p + k))"
  by (induction bs arbitrary: p)
    (auto simp: find_delim.simps is_delim_cstr [OF assms] Let_def)

lemma cstr_drop: "cstr m p (xs @ ys) \<Longrightarrow> cstr m (p + length xs) ys"
  by (simp add: cstr_append)

lemma cstr_cut:
  assumes "cstr m p (xs @ y # ys)"
  shows "cstr (m(p + length xs := 0)) p xs" "cstr (m(p + length xs := 0)) (p + length xs + 1) ys"
proof -
  have a: "\<forall>i < length xs. m (p + i) = xs ! i \<and> xs ! i \<noteq> 0" "cstr m (p + length xs + 1) ys"
    using assms by (auto simp: cstr_append)
  then show "cstr (m(p + length xs := 0)) p xs" by (auto simp: cstr_def)
  show "cstr (m(p + length xs := 0)) (p + length xs + 1) ys" by (rule cstr_same [OF a(2)]) simp
qed

text \<open>One call: skip the delimiters, cut the token off and remember what follows.\<close>

lemma strtok_step:
  assumes d: "cstr m d ds" and p: "cstr m p (xs @ ts @ zs)"
    and "set xs \<subseteq> set ds" "set ts \<inter> set ds = {}" "ts \<noteq> []" "zs \<noteq> [] \<Longrightarrow> hd zs \<in> set ds"
  shows "strtok None d (Some p) m = Some (Some (p + length xs),
    (if zs = [] then None else Some (p + length xs + length ts + 1)),
    (if zs = [] then m else m(p + length xs + length ts := 0)))"
proof -
  let ?r = "ts @ zs"
  have t: "takeWhile (\<lambda>b. b \<in> set ds) (xs @ ?r) = xs"
    using assms(3-5) by (subst takeWhile_append2) (auto simp: neq_Nil_conv)
  have s: "skip_delims m d p = Some (p + length xs)" using skip_delims_cstr [OF d p] t by simp
  have r: "cstr m (p + length xs) ?r" using p by (rule cstr_drop)
  then have nz: "m (p + length xs) \<noteq> 0" using assms(5) by (cases ts) auto
  have k: "takeWhile (\<lambda>b. b \<notin> set ds) ?r = ts"
    using assms(4,6) by (subst takeWhile_append2) (auto, cases zs, auto)
  have "find_delim m d (p + length xs) = Some (if zs = [] then None else Some (p + length xs + length ts))"
    using find_delim_cstr [OF d r] k by (auto simp: Let_def)
  then show ?thesis using s nz by (simp add: strtok_def)
qed

lemma strtok_run_tokens:
  assumes "cstr m p bs" "cstr m d ds" "d + length ds < p \<or> p + length bs < d"
  shows "\<exists>ps m'. strtok_run d (Some p) m ps m' \<and> list_all2 (cstr m') ps (tokens (\<lambda>b. b \<in> set ds) bs)
    \<and> (\<forall>x. x < p \<or> p + length bs < x \<longrightarrow> m' x = m x)"
  using assms
proof (induction "length bs" arbitrary: bs p m rule: less_induct)
  case less
  define xs where "xs = takeWhile (\<lambda>b. b \<in> set ds) bs"
  define rs where "rs = dropWhile (\<lambda>b. b \<in> set ds) bs"
  define ts where "ts = takeWhile (\<lambda>b. b \<notin> set ds) rs"
  define zs where "zs = dropWhile (\<lambda>b. b \<notin> set ds) rs"
  have b: "bs = xs @ ts @ zs" "rs = ts @ zs" by (simp_all add: xs_def rs_def ts_def zs_def)
  have tk: "tokens (\<lambda>b. b \<in> set ds) bs = (if rs = [] then [] else ts # tokens (\<lambda>b. b \<in> set ds) zs)"
    by (simp add: tokens.simps [of _ bs] Let_def rs_def ts_def zs_def)
  show ?case
  proof (cases "rs = []")
    case True
    have "bs = xs" using True b by simp
    then have "skip_delims m d p = Some (p + length bs)"
      using skip_delims_cstr [OF less.prems(2,1)] xs_def by simp
    then have "strtok None d (Some p) m = Some (None, None, m)"
      using less.prems(1) by (simp add: strtok_def cstr_def)
    then have "strtok_run d (Some p) m [] m" by (rule strtok_run.stop)
    then show ?thesis using tk True by auto
  next
    case False
    then have h: "hd rs \<notin> set ds" unfolding rs_def by (rule hd_dropWhile)
    then have ts: "ts \<noteq> []" using False by (cases rs) (auto simp: ts_def)
    have z: "zs \<noteq> [] \<Longrightarrow> hd zs \<in> set ds" unfolding zs_def using hd_dropWhile by blast
    have sub: "set xs \<subseteq> set ds" "set ts \<inter> set ds = {}" by (auto simp: xs_def ts_def dest: set_takeWhileD)
    note call = strtok_step [OF less.prems(2) less.prems(1) [unfolded b(1)] sub ts z]
    have r: "cstr m (p + length xs) (ts @ zs)" using cstr_drop less.prems(1) b(1) by blast
    show ?thesis
    proof (cases zs)
      case Nil
      have "strtok None d None m = Some (None, None, m)" by (simp add: strtok_def)
      then have "strtok_run d None m [] m" by (rule strtok_run.stop)
      then have "strtok_run d (Some p) m [p + length xs] m" using call Nil by (intro strtok_run.tok) auto
      moreover have "tokens (\<lambda>b. b \<in> set ds) [] = []" by (simp add: tokens.simps)
      ultimately show ?thesis using tk False r Nil by auto
    next
      case (Cons y ys)
      let ?q = "p + length xs + length ts + 1" and ?m = "m(p + length xs + length ts := 0)"
      have c: "cstr ?m (p + length xs) ts" "cstr ?m ?q ys"
        using cstr_cut [of m "p + length xs" ts y ys] r Cons by (auto simp: add.assoc)
      have lb: "length bs = length xs + length ts + 1 + length ys" using b(1) Cons by simp
      have d': "cstr ?m d ds" using less.prems(2,3) lb by (auto intro: cstr_same [of m])
      have dis: "d + length ds < ?q \<or> ?q + length ys < d" using less.prems(3) lb by auto
      obtain ps m' where IH: "strtok_run d (Some ?q) ?m ps m'" "list_all2 (cstr m') ps (tokens (\<lambda>b. b \<in> set ds) ys)"
        "\<forall>x. x < ?q \<or> ?q + length ys < x \<longrightarrow> m' x = ?m x"
        using less.hyps [OF _ c(2) d' dis] lb by auto
      have y: "y \<in> set ds" using z Cons by simp
      have "tokens (\<lambda>b. b \<in> set ds) zs = tokens (\<lambda>b. b \<in> set ds) ys"
        by (simp add: Cons y tokens.simps [of _ "y # ys"] tokens.simps [of _ ys])
      moreover have "cstr m' (p + length xs) ts" using IH(3) by (intro cstr_same [OF c(1)]) auto
      moreover have "strtok_run d (Some p) m ((p + length xs) # ps) m'"
        using call Cons IH(1) by (intro strtok_run.tok) auto
      ultimately show ?thesis using IH(2,3) tk False lb by (intro exI [of _ "(p + length xs) # ps"] exI [of _ m']) auto
    qed
  qed
qed

section \<open>Duplicates on the heap\<close>

lemma length_bytes [simp]: "length (bytes s) = length s"
  by (simp add: bytes_def)

definition no_nul :: "string \<Rightarrow> bool" where
  "no_nul s \<longleftrightarrow> 0 \<notin> set (bytes s)"

lemma cstr_put_bytes: "0 \<notin> set bs \<Longrightarrow> cstr (put_bytes p (bs @ [0]) m) p bs"
  by (auto simp: cstr_def put_bytes_eq nth_append) (metis nth_mem)

lemma strdup_cases:
  assumes "heap_owns s A" "length str + 1 \<le> 2 ^ 64 - 16"
  obtains "strdup str s = Some (0, s)"
  | p k m where "strdup str s = Some (p, s\<lparr>hmem := m\<rparr>)" "p \<noteq> 0" "length str + 1 \<le> k" "heap_owns (s\<lparr>hmem := m\<rparr>) (insert (unat p, k) A)"
      "(unat p, k) \<notin> A" "no_nul str \<Longrightarrow> cstr m (unat p) (bytes str)" "\<And>r x. r \<in> A \<Longrightarrow> x \<in> bytes_of r \<Longrightarrow> m x = hmem s x"
proof -
  let ?n = "of_nat (length str + 1) :: u64"
  have u: "unat ?n = length str + 1" using assms(2) by (intro unat_of_nat64) simp
  then have nz: "?n \<noteq> 0" by (metis add_is_0 one_neq_zero unat_0)
  have le: "unat ?n \<le> 2 ^ 64 - 16" using u assms(2) by simp
  have dis: "bytes_of r \<inter> bytes_of (unat p, k) = {}"
    if "heap_owns t (insert (unat p, k) A)" "(unat p, k) \<notin> A" "r \<in> A" for t :: "'a heap_scheme" and p k r
    by (rule owns_disjoint [OF that(1)]) (use that in auto)
  show thesis
  proof (cases rule: kheap.malloc_total [OF assms(1) nz le])
    case 1
    then show ?thesis by (intro that(1)) (simp add: strdup_def del: of_nat_add)
  next
    case (2 p k m)
    let ?m = "put_bytes (unat p) (bytes str @ [0]) m"
    have o: "heap_owns (s\<lparr>hmem := m\<rparr>\<lparr>hmem := ?m\<rparr>) (insert (unat p, k) A)"
      by (rule write_owns [OF 2(4) insertI1]) (use 2(3) u in \<open>auto simp: bytes_of_def put_bytes_eq\<close>)
    have keep: "?m x = hmem s x" if "r \<in> A" "x \<in> bytes_of r" for r x
      using 2(6) [OF that] dis [OF 2(4,5) that(1)] that(2) 2(3) u by (auto simp: put_bytes_eq bytes_of_def)
    show ?thesis
      by (rule that(2) [of p ?m k])
        (use 2 o keep u in \<open>auto simp: strdup_def no_nul_def cstr_put_bytes simp del: of_nat_add\<close>)
  qed
qed

section \<open>Properties\<close>

definition text_mem :: memory where
  "text_mem = put_bytes 64 (bytes '' ,'' @ [0]) (put_bytes 16 (bytes ''ls -l,/bin'' @ [0]) (put_bytes 32 (bytes ''ls -a'' @ [0]) (\<lambda>_. 0)))"

lemma text_mem_cstr:
  "cstr text_mem 16 (bytes ''ls -l,/bin'')" "cstr text_mem 32 (bytes ''ls -a'')" "cstr text_mem 64 (bytes '' ,'')"
  by (simp_all add: text_mem_def bytes_def)

text \<open>
  \<open>strcmp\<close> on two terminated strings returns, with 0 exactly if they are equal and a
  negative value exactly if the first precedes the second in the lexicographic order of
  unsigned bytes; \<open>strncmp\<close> gives 0 exactly if the first \<open>n\<close> bytes agree.
\<close>

theorem strcmp_order:
  assumes "cstr m p as" "cstr m q bs"
  shows "\<exists>r. strcmp m p q = Some r \<and> (r = 0 \<longleftrightarrow> as = bs) \<and> (r < 0 \<longleftrightarrow> (as, bs) \<in> lexord {(a, b). a < b})
    \<and> (strncmp m p q n = 0 \<longleftrightarrow> take n as = take n bs)"
proof -
  have nz: "0 \<notin> set as" "0 \<notin> set bs" using assms cstr_nonzero by blast+
  then have "0 \<notin> set (take n as)" "0 \<notin> set (take n bs)" by (auto dest: in_set_takeD)
  then show ?thesis
    using nz assms by (auto simp: strcmp_cstr strncmp_cstr diff_0_iff diff_neg_iff)
qed

theorem strcmp_order_witness:
  "\<exists>r. strcmp text_mem 32 16 = Some r \<and> r < 0 \<and> strncmp text_mem 32 16 4 = 0"
  using strcmp_order [OF text_mem_cstr(2,1), of 4] by (auto simp: bytes_def)

text \<open>
  Calling \<open>strtok\<close> until it returns the null pointer yields the tokens of the string in
  order: the \<open>k\<close>-th pointer returned is, when all calls are done, a terminated string that
  holds the \<open>k\<close>-th maximal run of bytes that are no delimiters, and no byte outside the
  string has changed.
\<close>

theorem strtok_tokens:
  assumes "cstr m p bs" "cstr m d ds" "d + length ds < p \<or> p + length bs < d"
  shows "\<exists>ps m'. strtok_run d (Some p) m ps m' \<and> list_all2 (cstr m') ps (tokens (\<lambda>b. b \<in> set ds) bs)
    \<and> strtok (Some p) d nxt m = strtok None d (Some p) m \<and> (\<forall>x. x < p \<or> p + length bs < x \<longrightarrow> m' x = m x)"
  using strtok_run_tokens [OF assms] by (auto simp: strtok_def)

lemma text_tokens: "tokens (\<lambda>b. b \<in> set (bytes '' ,'')) (bytes ''ls -l,/bin'') = map bytes [''ls'', ''-l'', ''/bin'']"
  by (simp add: tokens.simps bytes_def)

theorem strtok_tokens_witness:
  "\<exists>ps m'. strtok_run 64 (Some 16) text_mem ps m' \<and> list_all2 (cstr m') ps (map bytes [''ls'', ''-l'', ''/bin''])"
  using strtok_tokens [OF text_mem_cstr(1,3), of None] unfolding text_tokens by fastforce

text \<open>
  \<open>strdup\<close> returns null and changes nothing, or a new block that is handed out by the
  heap, disjoint from all others, and that holds the string with its terminator; the
  contents of all other blocks stay.
\<close>

theorem strdup_copies:
  assumes "heap_owns s A" "no_nul str" "length str + 1 \<le> 2 ^ 64 - 16"
  shows "strdup str s = Some (0, s) \<or> (\<exists>p k t. strdup str s = Some (p, t) \<and> p \<noteq> 0 \<and> length str < k
    \<and> heap_owns t (insert (unat p, k) A) \<and> (unat p, k) \<notin> A
    \<and> strlen (hmem t) (unat p) = Some (length str) \<and> cstr (hmem t) (unat p) (bytes str)
    \<and> (\<forall>r \<in> A. bytes_of r \<inter> bytes_of (unat p, k) = {} \<and> (\<forall>x \<in> bytes_of r. hmem t x = hmem s x)))"
proof (cases rule: strdup_cases [OF assms(1,3)])
  case (2 p k m)
  have "\<forall>r \<in> A. bytes_of r \<inter> bytes_of (unat p, k) = {}"
    using owns_disjoint [OF 2(4)] 2(5) by (metis insertI1 insertI2)
  then show ?thesis using 2 assms(2)
    by (intro disjI2 exI [of _ p] exI [of _ k] exI [of _ "s\<lparr>hmem := m\<rparr>"]) (simp add: strlen_cstr)
qed simp

lemma hdemo_heap_owns: "heap_owns hdemo_heap {}"
  using hdemo_heap_inv by (auto simp: heap_owns_def regions_def whole_heap_def allocated_def intro!: exI [of _ whole_heap])

lemma hdemo_strdup: "length str < 1000 \<Longrightarrow> strdup str hdemo_heap \<noteq> Some (0, hdemo_heap)"
proof
  assume l: "length str < 1000" and a: "strdup str hdemo_heap = Some (0, hdemo_heap)"
  let ?n = "of_nat (length str + 1) :: u64"
  have u: "unat ?n = length str + 1" using l by (intro unat_of_nat64) simp
  then have nz: "?n \<noteq> 0" by (metis add_is_0 one_neq_zero unat_0)
  have "unat (align ?n) \<le> 1016" using align_ge [of ?n] u l by simp
  then have ff: "first_fit (unat (align ?n)) whole_heap = Some (heap_lo, 0x1000000 - 32, True)"
    by (simp add: first_fit_def whole_heap_def)
  obtain t where "kmalloc ?n hdemo_heap = Some (of_nat (heap_lo + 32), t)"
    using kmalloc_refine(2) [OF hdemo_heap_inv nz ff] by blast
  then show False using a by (simp add: strdup_def del: of_nat_add split: if_splits)
qed

theorem strdup_copies_witness:
  "\<exists>p t. strdup ''root'' hdemo_heap = Some (p, t) \<and> p \<noteq> 0 \<and> cstr (hmem t) (unat p) (bytes ''root'')"
proof -
  have "no_nul ''root''" by (simp add: no_nul_def bytes_def)
  from strdup_copies [OF hdemo_heap_owns this] hdemo_strdup [of "''root''"] show ?thesis by fastforce
qed

end
