(* ===== verification/Sha256.thy ===== *)
theory Sha256
  imports Memory
begin

text \<open>
  The hash of the user database, \<^verbatim>\<open>src/kernel/user/sha256.c\<close>. Data and blocks are lists of
  bytes, the chaining value is a list of eight 32-bit words. The reference definition
  is the standard's: pad the message and fold the compression function over its blocks;
  the code's handling of the last one or two blocks is shown to compute it.
\<close>

section \<open>Operations\<close>

definition ROTR32 :: "u32 \<Rightarrow> nat \<Rightarrow> u32" where
  "ROTR32 x n = drop_bit n x OR push_bit (32 - n) x"

definition CH :: "u32 \<Rightarrow> u32 \<Rightarrow> u32 \<Rightarrow> u32" where
  "CH x y z = (x AND y) XOR (NOT x AND z)"

definition MAJ :: "u32 \<Rightarrow> u32 \<Rightarrow> u32 \<Rightarrow> u32" where
  "MAJ x y z = (x AND y) XOR (x AND z) XOR (y AND z)"

definition EP0 :: "u32 \<Rightarrow> u32" where
  "EP0 x = ROTR32 x 2 XOR ROTR32 x 13 XOR ROTR32 x 22"

definition EP1 :: "u32 \<Rightarrow> u32" where
  "EP1 x = ROTR32 x 6 XOR ROTR32 x 11 XOR ROTR32 x 25"

definition SIG0 :: "u32 \<Rightarrow> u32" where
  "SIG0 x = ROTR32 x 7 XOR ROTR32 x 18 XOR drop_bit 3 x"

definition SIG1 :: "u32 \<Rightarrow> u32" where
  "SIG1 x = ROTR32 x 17 XOR ROTR32 x 19 XOR drop_bit 10 x"

definition sha_K :: "u32 list" where
  "sha_K = concat [
    [0x428a2f98, 0x71374491, 0xb5c0fbcf, 0xe9b5dba5],
    [0x3956c25b, 0x59f111f1, 0x923f82a4, 0xab1c5ed5],
    [0xd807aa98, 0x12835b01, 0x243185be, 0x550c7dc3],
    [0x72be5d74, 0x80deb1fe, 0x9bdc06a7, 0xc19bf174],
    [0xe49b69c1, 0xefbe4786, 0x0fc19dc6, 0x240ca1cc],
    [0x2de92c6f, 0x4a7484aa, 0x5cb0a9dc, 0x76f988da],
    [0x983e5152, 0xa831c66d, 0xb00327c8, 0xbf597fc7],
    [0xc6e00bf3, 0xd5a79147, 0x06ca6351, 0x14292967],
    [0x27b70a85, 0x2e1b2138, 0x4d2c6dfc, 0x53380d13],
    [0x650a7354, 0x766a0abb, 0x81c2c92e, 0x92722c85],
    [0xa2bfe8a1, 0xa81a664b, 0xc24b8b70, 0xc76c51a3],
    [0xd192e819, 0xd6990624, 0xf40e3585, 0x106aa070],
    [0x19a4c116, 0x1e376c08, 0x2748774c, 0x34b0bcb5],
    [0x391c0cb3, 0x4ed8aa4a, 0x5b9cca4f, 0x682e6ff3],
    [0x748f82ee, 0x78a5636f, 0x84c87814, 0x8cc70208],
    [0x90befffa, 0xa4506ceb, 0xbef9a3f7, 0xc67178f2]]"

definition be32 :: "u8 list \<Rightarrow> nat \<Rightarrow> u32" where
  "be32 block i =
     push_bit 24 (ucast (block ! (i * 4))) OR push_bit 16 (ucast (block ! (i * 4 + 1)))
     OR push_bit 8 (ucast (block ! (i * 4 + 2))) OR ucast (block ! (i * 4 + 3))"

definition extend :: "u32 list \<Rightarrow> nat \<Rightarrow> u32 list" where
  "extend W i = W @ [SIG1 (W ! (i - 2)) + W ! (i - 7) + SIG0 (W ! (i - 15)) + W ! (i - 16)]"

definition schedule :: "u8 list \<Rightarrow> u32 list" where
  "schedule block = foldl extend (map (be32 block) [0..<16]) [16..<64]"

type_synonym vars = "u32 \<times> u32 \<times> u32 \<times> u32 \<times> u32 \<times> u32 \<times> u32 \<times> u32"

fun sha_round :: "u32 \<Rightarrow> u32 \<Rightarrow> vars \<Rightarrow> vars" where
  "sha_round k w (a, b, c, d, e, f, g, h) =
     (let t1 = h + EP1 e + CH e f g + k + w;
          t2 = EP0 a + MAJ a b c
      in (t1 + t2, a, b, c, d + t1, e, f, g))"

definition sha256_transform :: "u32 list \<Rightarrow> u8 list \<Rightarrow> u32 list" where
  "sha256_transform state block =
     (let W = schedule block;
          (a, b, c, d, e, f, g, h) =
            fold (\<lambda>i. sha_round (sha_K ! i) (W ! i)) [0..<64]
              (state ! 0, state ! 1, state ! 2, state ! 3, state ! 4, state ! 5, state ! 6, state ! 7)
      in [state ! 0 + a, state ! 1 + b, state ! 2 + c, state ! 3 + d,
          state ! 4 + e, state ! 5 + f, state ! 6 + g, state ! 7 + h])"

definition sha_H0 :: "u32 list" where
  "sha_H0 = [0x6a09e667, 0xbb67ae85, 0x3c6ef372, 0xa54ff53a, 0x510e527f, 0x9b05688c, 0x1f83d9ab, 0x5be0cd19]"

function full_blocks :: "u32 list \<Rightarrow> u8 list \<Rightarrow> u32 list \<times> u8 list" where
  "full_blocks state p =
     (if length p \<ge> 64 then full_blocks (sha256_transform state (take 64 p)) (drop 64 p) else (state, p))"
  by pat_completeness auto
termination by (relation "measure (\<lambda>(state, p). length p)") auto

declare full_blocks.simps [simp del]

definition be64 :: "u64 \<Rightarrow> u8 list" where
  "be64 n = map (\<lambda>i. ucast (drop_bit i n)) [56, 48, 40, 32, 24, 16, 8, 0]"

definition be_bytes :: "u32 \<Rightarrow> u8 list" where
  "be_bytes w = map (\<lambda>i. ucast (drop_bit i w)) [24, 16, 8, 0]"

definition sha256 :: "u8 list \<Rightarrow> u8 list" where
  "sha256 data =
     (let (state, p) = full_blocks sha_H0 data;
          remaining = length p;
          block = p @ [0x80] @ replicate (63 - remaining) 0;
          (state, block) = (if remaining \<ge> 56 then (sha256_transform state block, replicate 64 0) else (state, block));
          bit_len = of_nat (length data) * 8 :: u64;
          block = take 56 block @ be64 bit_len;
          state = sha256_transform state block
      in concat (map be_bytes state))"

definition hexc :: "u8 \<Rightarrow> char" where
  "hexc n = ''0123456789abcdef'' ! unat n"

definition to_hex :: "u8 list \<Rightarrow> string" where
  "to_hex bs = concat (map (\<lambda>b. [hexc (drop_bit 4 b), hexc (b AND 0xf)]) bs)"

definition sha256_hex :: "u8 list \<Rightarrow> string" where
  "sha256_hex data = to_hex (sha256 data)"

section \<open>The standard\<close>

text \<open>
  The padding of the standard: a byte 0x80, zeros until 8 bytes are missing to a multiple
  of 64, and the length in bits as a big-endian 64-bit number.
\<close>

definition sha_padded :: "u8 list \<Rightarrow> u8 list" where
  "sha_padded msg = msg @ [0x80] @ replicate ((119 - length msg mod 64) mod 64) 0 @ be64 (8 * of_nat (length msg))"

function sha_blocks :: "u8 list \<Rightarrow> u8 list list" where
  "sha_blocks p = (if length p < 64 then [] else take 64 p # sha_blocks (drop 64 p))"
  by pat_completeness auto
termination by (relation "measure length") auto

declare sha_blocks.simps [simp del]

definition sha256_spec :: "u8 list \<Rightarrow> u8 list" where
  "sha256_spec msg = concat (map be_bytes (foldl sha256_transform sha_H0 (sha_blocks (sha_padded msg))))"

lemma length_be64 [simp]: "length (be64 n) = 8"
  by (simp add: be64_def)

lemma full_blocks_spec:
  "full_blocks st p = (st', r) \<Longrightarrow> length r < 64 \<and> length r = length p mod 64
    \<and> (\<exists>q. p = q @ r \<and> 64 dvd length q \<and> (\<forall>tl. foldl sha256_transform st (sha_blocks (q @ tl)) = foldl sha256_transform st' (sha_blocks tl)))"
proof (induction st p rule: full_blocks.induct)
  case (1 st p)
  show ?case
  proof (cases "64 \<le> length p")
    case True
    then have f: "full_blocks (sha256_transform st (take 64 p)) (drop 64 p) = (st', r)"
      using "1.prems" by (simp add: full_blocks.simps [of st p])
    obtain q where q: "length r < 64" "length r = length (drop 64 p) mod 64" "drop 64 p = q @ r" "64 dvd length q"
      "\<forall>tl. foldl sha256_transform (sha256_transform st (take 64 p)) (sha_blocks (q @ tl)) = foldl sha256_transform st' (sha_blocks tl)"
      using "1.IH" [OF True f] by blast
    have "foldl sha256_transform st (sha_blocks ((take 64 p @ q) @ tl)) = foldl sha256_transform st' (sha_blocks tl)" for tl
      using q(5) True by (simp add: sha_blocks.simps [of "take 64 p @ q @ tl"])
    moreover have "p = (take 64 p @ q) @ r" using q(3) by (metis append.assoc append_take_drop_id)
    moreover have "length r = length p mod 64" using q(2) True by (simp add: le_mod_geq)
    moreover have "64 dvd length (take 64 p @ q)" using True q(4) by simp
    ultimately show ?thesis using q(1) by blast
  next
    case False
    then show ?thesis using "1.prems" by (auto simp: full_blocks.simps [of st p] intro!: exI [of _ "[]"])
  qed
qed

lemma sha_blocks_one: "length b = 64 \<Longrightarrow> sha_blocks b = [b]"
  by (simp add: sha_blocks.simps [of b] sha_blocks.simps [of "[]"])

lemma sha_blocks_Cons: "length b = 64 \<Longrightarrow> sha_blocks (b @ r) = b # sha_blocks r"
  by (simp add: sha_blocks.simps [of "b @ r"])

lemma sha256_eq_spec: "sha256 msg = sha256_spec msg"
proof -
  obtain st r where f: "full_blocks sha_H0 msg = (st, r)" by (cases "full_blocks sha_H0 msg")
  obtain q where r: "length r < 64" "length r = length msg mod 64" "msg = q @ r"
    "\<And>tl. foldl sha256_transform sha_H0 (sha_blocks (q @ tl)) = foldl sha256_transform st (sha_blocks tl)"
    using full_blocks_spec [OF f] by blast
  let ?l = "be64 (8 * of_nat (length msg))"
  have e: "sha_padded msg = q @ (r @ [0x80] @ replicate ((119 - length r) mod 64) 0 @ ?l)"
    unfolding sha_padded_def r(2) [symmetric] by (simp add: r(3))
  have st: "foldl sha256_transform sha_H0 (sha_blocks (sha_padded msg))
      = foldl sha256_transform st (sha_blocks (r @ [0x80] @ replicate ((119 - length r) mod 64) 0 @ ?l))"
    unfolding e by (rule r(4))
  show ?thesis
  proof (cases "56 \<le> length r")
    case True
    have n: "(119 - length r) mod 64 = (63 - length r) + 56" using r(1) True by simp
    have "sha_blocks (r @ [0x80] @ replicate ((119 - length r) mod 64) 0 @ ?l)
        = [r @ [0x80] @ replicate (63 - length r) 0, replicate 56 0 @ ?l]"
      unfolding n replicate_add
      using r(1) sha_blocks_Cons [of "r @ [0x80] @ replicate (63 - length r) 0" "replicate 56 0 @ ?l"]
      by (simp add: sha_blocks_one)
    then show ?thesis using True by (simp add: sha256_def sha256_spec_def st f mult.commute)
  next
    case False
    have n: "(119 - length r) mod 64 = 55 - length r" using False by (simp add: mod_if)
    have "sha_blocks (r @ [0x80] @ replicate ((119 - length r) mod 64) 0 @ ?l)
        = [r @ [0x80] @ replicate (55 - length r) 0 @ ?l]"
      unfolding n by (rule sha_blocks_one) (use False in simp)
    moreover have "take (56 - length r) (128 # replicate (63 - length r) 0) = (128 :: u8) # replicate (55 - length r) 0"
      using False by (simp add: take_Cons')
    ultimately show ?thesis using False by (simp add: sha256_def sha256_spec_def st f n mult.commute Let_def)
  qed
qed

lemma length_transform [simp]: "length (sha256_transform st b) = 8"
  by (simp add: sha256_transform_def Let_def split: prod.split)

lemma length_be_bytes: "length (concat (map be_bytes ws)) = 4 * length ws"
  by (induction ws) (auto simp: be_bytes_def)

lemma length_foldl_transform: "bs \<noteq> [] \<Longrightarrow> length (foldl sha256_transform st bs) = 8"
  by (induction bs rule: rev_induct) auto

lemma length_sha256 [simp]: "length (sha256 msg) = 32"
  by (simp add: sha256_def length_be_bytes Let_def split: prod.split)


end
