(* ===== verification/User.thy ===== *)
theory User
  imports Strings Sha256 "HOL-Library.Monad_Syntax"
begin

text \<open>
  The user database, \<^verbatim>\<open>src/kernel/user/user.c\<close>: the tables of users and groups, passwords,
  permission levels and the text files the tables are saved to. The fixed character
  arrays of a user are buffers with everything they hold, so that what is left behind a
  shorter string stays visible to the code that reads on; \<open>cval\<close> is the string in a buffer.
  A name is a block of the heap, kept with its address (0 for a failed \<open>strdup\<close>). Every
  operation that allocates threads the heap; \<open>None\<close> stands for a call that does not return
  (a list of the heap that does not end, an access outside the tables, a null name).
  The files are read and written in \<open>UserDisk\<close>.
\<close>

section \<open>State\<close>

abbreviation (input) MAX_GROUPS :: nat where "MAX_GROUPS \<equiv> 124"
abbreviation (input) MAX_USERS :: nat where "MAX_USERS \<equiv> 124"
abbreviation (input) SHADOW_HASH_LEN :: nat where "SHADOW_HASH_LEN \<equiv> 128"
abbreviation (input) USER_HOME_LEN :: nat where "USER_HOME_LEN \<equiv> 128"
abbreviation (input) USER_SHELL_LEN :: nat where "USER_SHELL_LEN \<equiv> 64"
abbreviation (input) ROOT :: int where "ROOT \<equiv> 0"
abbreviation (input) SUDO :: int where "SUDO \<equiv> 1"
abbreviation (input) USER :: int where "USER \<equiv> 2"
abbreviation (input) NUL :: char where "NUL \<equiv> CHR 0x00"
abbreviation (input) NL :: char where "NL \<equiv> CHR 0x0A"

type_synonym hstr = "u64 \<times> string"

record group_t =
  groupname :: hstr
  gid :: int
  perms :: int
  gexists :: bool

record user_t =
  uid :: int
  ugroup :: int
  username :: hstr
  password_hash :: string
  home :: string
  shell :: string
  uexists :: bool

record user_sys = heap +
  groups_ptr :: u64
  users_ptr :: u64
  groups :: "group_t list"
  users :: "user_t list"
  salt_state :: u64

definition cval :: "string \<Rightarrow> string" where
  "cval buf = takeWhile (\<lambda>c. c \<noteq> NUL) buf"

section \<open>Helpers\<close>

definition salt_seed :: "u64 \<Rightarrow> 'a user_sys_scheme \<Rightarrow> 'a user_sys_scheme" where
  "salt_seed tsc s = s\<lparr>salt_state := (if tsc = 0 then 0xdeadbeefcafe1234 else tsc)\<rparr>"

definition gen_salt :: "'a user_sys_scheme \<Rightarrow> u64 \<times> 'a user_sys_scheme" where
  "gen_salt s =
     (let x = salt_state s;
          x = x XOR push_bit 13 x;
          x = x XOR drop_bit 7 x;
          x = x XOR push_bit 17 x
      in (x, s\<lparr>salt_state := x\<rparr>))"

definition hex_digit :: "char \<Rightarrow> u8" where
  "hex_digit c =
     (let b = of_char c :: u8 in
      if 0x30 \<le> b \<and> b \<le> 0x39 then b - 0x30
      else if 0x61 \<le> b \<and> b \<le> 0x66 then b - 0x61 + 10
      else if 0x41 \<le> b \<and> b \<le> 0x46 then b - 0x41 + 10
      else 0)"

definition hex_byte :: "char \<Rightarrow> char \<Rightarrow> u8" where
  "hex_byte c0 c1 =
     (let v = 0;
          v = push_bit 4 v OR hex_digit c0
      in push_bit 4 v OR hex_digit c1)"

function u_strncmp_from :: "string \<Rightarrow> string \<Rightarrow> nat \<Rightarrow> nat \<Rightarrow> int" where
  "u_strncmp_from a b n i =
     (if i < n then
        (if a ! i \<noteq> b ! i then uint (of_char (a ! i) :: u8) - uint (of_char (b ! i) :: u8)
         else if a ! i = NUL then 0
         else u_strncmp_from a b n (i + 1))
      else 0)"
  by pat_completeness auto
termination by (relation "measure (\<lambda>(a, b, n, i). n - i)") auto

definition u_strncmp :: "string \<Rightarrow> string \<Rightarrow> nat \<Rightarrow> int" where
  "u_strncmp a b n = u_strncmp_from a b n 0"

function u_strlcpy_from :: "string \<Rightarrow> string \<Rightarrow> nat \<Rightarrow> nat \<Rightarrow> string" where
  "u_strlcpy_from dst src sz i =
     (if i + 1 < sz \<and> i < length src \<and> src ! i \<noteq> NUL then u_strlcpy_from (dst[i := src ! i]) src sz (i + 1)
      else dst[i := NUL])"
  by pat_completeness auto
termination by (relation "measure (\<lambda>(dst, src, sz, i). sz - i)") auto

definition u_strlcpy :: "string \<Rightarrow> string \<Rightarrow> nat \<Rightarrow> string" where
  "u_strlcpy dst src sz = (if sz = 0 then dst else u_strlcpy_from dst src sz 0)"

declare u_strncmp_from.simps [simp del] u_strlcpy_from.simps [simp del]

function digits_rev :: "nat \<Rightarrow> string" where
  "digits_rev uv = (if uv = 0 then [] else char_of (48 + uv mod 10) # digits_rev (uv div 10))"
  by pat_completeness auto
termination by (relation "measure id") auto

declare digits_rev.simps [simp del]

function u_itoa :: "nat \<Rightarrow> int \<Rightarrow> string" where
  "u_itoa bufsz v =
     (if bufsz = 0 then []
      else if v < 0 then (if bufsz < 2 then [] else CHR ''-'' # u_itoa (bufsz - 1) (- v))
      else take (bufsz - 1) (if v = 0 then ''0'' else rev (digits_rev (nat v))))"
  by pat_completeness auto
termination by (relation "measure (\<lambda>(bufsz, v). bufsz)") auto

declare u_itoa.simps [simp del]

datatype fmt_arg = ArgS hstr | ArgD int

definition arg_text :: "fmt_arg \<Rightarrow> string" where
  "arg_text a = (case a of
     ArgS (p, str) \<Rightarrow> if p = 0 then ''(null)'' else str
   | ArgD v \<Rightarrow> u_itoa 24 v)"

fun u_fmt_from :: "nat \<Rightarrow> string \<Rightarrow> fmt_arg list \<Rightarrow> string \<Rightarrow> string" where
  "u_fmt_from dstsz [] args out = out"
| "u_fmt_from dstsz [c] args out = (if length out + 1 < dstsz \<and> c \<noteq> CHR ''%'' then out @ [c] else out)"
| "u_fmt_from dstsz (c # d # fmt) args out =
     (if length out + 1 < dstsz then
        (if c \<noteq> CHR ''%'' then u_fmt_from dstsz (d # fmt) args (out @ [c])
         else if d \<noteq> CHR ''s'' \<and> d \<noteq> CHR ''d'' \<and> d \<noteq> CHR ''u'' then u_fmt_from dstsz fmt args out
         else case args of
                a # args \<Rightarrow> u_fmt_from dstsz fmt args (out @ take (dstsz - 1 - length out) (arg_text a))
              | [] \<Rightarrow> u_fmt_from dstsz fmt [] out)
      else out)"

definition u_fmt :: "nat \<Rightarrow> string \<Rightarrow> fmt_arg list \<Rightarrow> string" where
  "u_fmt dstsz fmt args = u_fmt_from dstsz fmt args []"

definition into_buf :: "string \<Rightarrow> string \<Rightarrow> string" where
  "into_buf text buf = text @ [NUL] @ drop (length text + 1) buf"

fun atoi_from :: "u32 \<Rightarrow> string \<Rightarrow> u32" where
  "atoi_from v [] = v"
| "atoi_from v (c # cs) =
     (let b = of_char c :: u8 in
      if 0x30 \<le> b \<and> b \<le> 0x39 then atoi_from (v * 10 + ucast (b - 0x30)) cs else v)"

definition simple_atoi :: "string \<Rightarrow> int" where
  "simple_atoi str = sint (atoi_from 0 str)"

fun split_from :: "nat \<Rightarrow> string \<Rightarrow> string \<Rightarrow> string list" where
  "split_from n cur [] = [cur]"
| "split_from n cur (c # cs) =
     (if n = 0 then [cur @ c # cs]
      else if c = CHR '':'' then cur # split_from (n - 1) [] cs
      else split_from n (cur @ [c]) cs)"

definition split_fields :: "string \<Rightarrow> nat \<Rightarrow> string list" where
  "split_fields line max_fields = split_from (max_fields - 1) [] line"

function for_lines :: "(string \<Rightarrow> 's \<Rightarrow> 's option) \<Rightarrow> string \<Rightarrow> 's \<Rightarrow> 's option" where
  "for_lines f text s =
     (if text = [] then Some s
      else (let line = takeWhile (\<lambda>c. c \<noteq> NL) text;
                rest = dropWhile (\<lambda>c. c \<noteq> NL) text
            in do {
              s \<leftarrow> (if line \<noteq> [] then f line s else Some s);
              (if rest = [] then Some s else for_lines f (tl rest) s)
            }))"
  by pat_completeness auto
termination
proof (relation "measure (\<lambda>(f, text, s). length text)", goal_cases)
  case (2 f t s line rest s')
  then have "length (tl rest) < length rest" by simp
  also have "length rest \<le> length t" using 2 by (simp add: length_dropWhile_le)
  finally show ?case by simp
qed simp

declare for_lines.simps [simp del]

section \<open>Accounts\<close>

definition user_create_group :: "string \<Rightarrow> int \<Rightarrow> 'a user_sys_scheme \<Rightarrow> (int \<times> 'a user_sys_scheme) option" where
  "user_create_group name p s =
     (case scan (\<lambda>i. \<not> gexists (groups s ! i)) 0 MAX_GROUPS of
        None \<Rightarrow> Some (-1, s)
      | Some i \<Rightarrow> do {
          (dup, s) \<leftarrow> strdup name s;
          let g = (groups s ! i)\<lparr>gexists := True, gid := int i, perms := p, groupname := (dup, name)\<rparr>;
          Some (int i, s\<lparr>groups := (groups s)[i := g]\<rparr>)
        })"

definition user_create_user_full ::
    "string \<Rightarrow> int \<Rightarrow> string option \<Rightarrow> string option \<Rightarrow> 'a user_sys_scheme \<Rightarrow> (int \<times> 'a user_sys_scheme) option" where
  "user_create_user_full name g hm sh s =
     (if g \<ge> int MAX_GROUPS then Some (-1, s)
      else case scan (\<lambda>i. \<not> uexists (users s ! i)) 0 MAX_USERS of
             None \<Rightarrow> Some (-1, s)
           | Some i \<Rightarrow> do {
               (dup, s) \<leftarrow> strdup name s;
               let u = users s ! i;
               let u = u\<lparr>uexists := True, uid := int i, ugroup := g, username := (dup, name),
                         password_hash := (password_hash u)[0 := NUL],
                         home := u_strlcpy (home u) (case hm of Some h \<Rightarrow> h | None \<Rightarrow> ''/'') USER_HOME_LEN,
                         shell := u_strlcpy (shell u) (case sh of Some h \<Rightarrow> h | None \<Rightarrow> ''/bin/mountshell'') USER_SHELL_LEN\<rparr>;
               Some (int i, s\<lparr>users := (users s)[i := u]\<rparr>)
             })"

text \<open>
  \<open>user_create_user\<close> creates the home directory first; \<open>VFS_Create\<close> is the parameter.
\<close>

definition user_create_user ::
    "(string \<Rightarrow> bool \<Rightarrow> 'a user_sys_scheme \<Rightarrow> 'a user_sys_scheme) \<Rightarrow> string \<Rightarrow> int \<Rightarrow> 'a user_sys_scheme
      \<Rightarrow> (int \<times> 'a user_sys_scheme) option" where
  "user_create_user VFS_Create name g s =
     (let hm = u_fmt USER_HOME_LEN ''/home/%s'' [ArgS (1, name)];
          s = VFS_Create ''/home'' True s;
          s = VFS_Create hm True s
      in user_create_user_full name g (Some hm) (Some ''/bin/mountshell'') s)"

section \<open>Permissions\<close>

text \<open>
  An index is checked by the code only against the upper bound in \<open>user_check_perms\<close>, so a
  negative one is an access outside the table: \<open>None\<close>.
\<close>

definition user_check_perms :: "'a user_sys_scheme \<Rightarrow> int \<Rightarrow> int \<Rightarrow> bool option" where
  "user_check_perms s reqU recU =
     (if reqU = recU then Some True
      else if reqU \<ge> int MAX_USERS \<or> recU \<ge> int MAX_USERS then Some False
      else if reqU < 0 then None
      else if \<not> uexists (users s ! nat reqU) then Some False
      else if recU < 0 then None
      else if \<not> uexists (users s ! nat recU) then Some False
      else (let reqG = ugroup (users s ! nat reqU); recG = ugroup (users s ! nat recU) in
            if reqG \<ge> int MAX_GROUPS \<or> recG \<ge> int MAX_GROUPS then Some False
            else if reqG < 0 \<or> recG < 0 then None
            else Some (perms (groups s ! nat reqG) \<le> perms (groups s ! nat recG))))"

definition user_exists :: "'a user_sys_scheme \<Rightarrow> int \<Rightarrow> bool" where
  "user_exists s u = (if u < 0 \<or> u \<ge> int MAX_USERS then False else uexists (users s ! nat u))"

definition user_get_gid :: "'a user_sys_scheme \<Rightarrow> int \<Rightarrow> int" where
  "user_get_gid s u = (if \<not> user_exists s u then -1 else ugroup (users s ! nat u))"

definition user_is_root :: "'a user_sys_scheme \<Rightarrow> int \<Rightarrow> bool" where
  "user_is_root s u =
     (if \<not> user_exists s u then False
      else (let g = ugroup (users s ! nat u) in
            if g < 0 \<or> g \<ge> int MAX_GROUPS \<or> \<not> gexists (groups s ! nat g) then False
            else perms (groups s ! nat g) = ROOT))"

definition user_get_perm_level :: "'a user_sys_scheme \<Rightarrow> int \<Rightarrow> int" where
  "user_get_perm_level s u =
     (if \<not> user_exists s u then USER
      else (let g = ugroup (users s ! nat u) in
            if g < 0 \<or> g \<ge> int MAX_GROUPS \<or> \<not> gexists (groups s ! nat g) then USER
            else perms (groups s ! nat g)))"

section \<open>Look-up by name\<close>

text \<open>
  The loops stop at the first existing entry whose name compares equal; an existing entry
  with a null name on the way makes \<open>strcmp\<close> read address 0, which is \<open>None\<close>.
\<close>

definition find_name :: "(nat \<Rightarrow> bool) \<Rightarrow> (nat \<Rightarrow> hstr) \<Rightarrow> string \<Rightarrow> nat \<Rightarrow> int option" where
  "find_name ex nm name n =
     (case scan (\<lambda>i. ex i \<and> (fst (nm i) = 0 \<or> snd (nm i) = name)) 0 n of
        None \<Rightarrow> Some (-1)
      | Some i \<Rightarrow> if fst (nm i) = 0 then None else Some (int i))"

definition user_find_by_name :: "'a user_sys_scheme \<Rightarrow> string option \<Rightarrow> int option" where
  "user_find_by_name s name =
     (case name of None \<Rightarrow> Some (-1)
      | Some name \<Rightarrow> find_name (\<lambda>i. uexists (users s ! i)) (\<lambda>i. username (users s ! i)) name MAX_USERS)"

definition group_find_by_name :: "'a user_sys_scheme \<Rightarrow> string option \<Rightarrow> int option" where
  "group_find_by_name s name =
     (case name of None \<Rightarrow> Some (-1)
      | Some name \<Rightarrow> find_name (\<lambda>i. gexists (groups s ! i)) (\<lambda>i. groupname (groups s ! i)) name MAX_GROUPS)"

section \<open>Passwords\<close>

definition salt_bytes :: "u64 \<Rightarrow> u8 list" where
  "salt_bytes s = map (\<lambda>i. ucast (drop_bit (i * 8) s)) [0..<8]"

text \<open>The hash of salt and password, computed in a buffer of the heap that is freed again.\<close>

definition salted_hash :: "u8 list \<Rightarrow> string \<Rightarrow> 'a user_sys_scheme \<Rightarrow> (u8 list option \<times> 'a user_sys_scheme) option" where
  "salted_hash salt password s =
     do {
       let plen = length password;
       (input, s) \<leftarrow> kmalloc (of_nat (8 + plen)) s;
       if input = 0 then Some (None, s)
       else do {
         let s = s\<lparr>hmem := put_bytes (unat input) (salt @ bytes password) (hmem s)\<rparr>;
         let hash = sha256 (map (\<lambda>i. hmem s (unat input + i)) [0..<8 + plen]);
         s \<leftarrow> kfree input s;
         Some (Some hash, s)
       }
     }"

definition user_set_password :: "int \<Rightarrow> string option \<Rightarrow> 'a user_sys_scheme \<Rightarrow> (int \<times> 'a user_sys_scheme) option" where
  "user_set_password u password s =
     (case password of
        None \<Rightarrow> Some (-1, s)
      | Some password \<Rightarrow>
          if \<not> user_exists s u then Some (-1, s)
          else do {
            let (x, s) = gen_salt s;
            let salt = salt_bytes x;
            (hash, s) \<leftarrow> salted_hash salt password s;
            (case hash of
               None \<Rightarrow> Some (-1, s)
             | Some hash \<Rightarrow>
                 let usr = users s ! nat u;
                     text = u_fmt SHADOW_HASH_LEN ''$sha256$%s$%s'' [ArgS (1, to_hex salt), ArgS (1, to_hex hash)]
                 in Some (0, s\<lparr>users := (users s)[nat u := usr\<lparr>password_hash := into_buf text (password_hash usr)\<rparr>]\<rparr>))
          })"

definition user_authenticate :: "string option \<Rightarrow> string option \<Rightarrow> 'a user_sys_scheme \<Rightarrow> (int \<times> 'a user_sys_scheme) option" where
  "user_authenticate name password s =
     (case (name, password) of
        (Some name, Some password) \<Rightarrow> do {
          u \<leftarrow> user_find_by_name s (Some name);
          if u < 0 then Some (-2, s)
          else do {
            let stored = password_hash (users s ! nat u);
            if stored ! 0 = NUL \<or> stored ! 0 = CHR ''!'' then Some (-3, s)
            else if u_strncmp stored (''$sha256$'' @ [NUL]) 8 \<noteq> 0 then Some (-4, s)
            else do {
              let salt_hex = drop 8 stored;
              let hash_hex = drop 17 salt_hex;
              let salt = map (\<lambda>i. hex_byte (salt_hex ! (i * 2)) (salt_hex ! (i * 2 + 1))) [0..<8];
              (hash, s) \<leftarrow> salted_hash salt password s;
              (case hash of
                 None \<Rightarrow> Some (-5, s)
               | Some hash \<Rightarrow>
                   if u_strncmp (to_hex hash @ [NUL]) hash_hex 64 \<noteq> 0 then Some (-6, s)
                   else Some (u, s))
            }
          }
        }
      | _ \<Rightarrow> Some (-1, s))"

section \<open>Initialisation\<close>

text \<open>
  The arrays come from the heap; what they hold before the \<open>exists\<close> flags are cleared is
  arbitrary, so the model keeps whatever the tables of the state held.
\<close>

definition user_init :: "u64 \<Rightarrow> 'a user_sys_scheme \<Rightarrow> (int \<times> 'a user_sys_scheme) option" where
  "user_init tsc s =
     do {
       let s = salt_seed tsc s;
       (gp, s) \<leftarrow> kmalloc (24 * of_nat MAX_GROUPS) s;
       if gp = 0 then Some (-1, s\<lparr>groups_ptr := 0\<rparr>)
       else do {
         let s = s\<lparr>groups_ptr := gp, groups := map (\<lambda>g. g\<lparr>gexists := False\<rparr>) (groups s)\<rparr>;
         (up, s) \<leftarrow> kmalloc (344 * of_nat MAX_USERS) s;
         if up = 0 then do { s \<leftarrow> kfree gp (s\<lparr>users_ptr := 0\<rparr>); Some (-1, s) }
         else do {
           let s = s\<lparr>users_ptr := up, users := map (\<lambda>u. u\<lparr>uexists := False\<rparr>) (users s)\<rparr>;
           (rootG, s) \<leftarrow> user_create_group ''root'' ROOT s;
           if rootG < 0 then do { s \<leftarrow> kfree up s; s \<leftarrow> kfree gp s; Some (-1, s) }
           else do {
             (rootU, s) \<leftarrow> user_create_user_full ''root'' rootG (Some ''/root'') (Some ''/bin/mountshell'') s;
             if rootU < 0 then do { s \<leftarrow> kfree up s; s \<leftarrow> kfree gp s; Some (-1, s) }
             else do {
               (r, s) \<leftarrow> user_set_password rootU (Some ''bmroot'') s;
               Some (0, s)
             }
           }
         }
       }
     }"

section \<open>The texts of the files\<close>

definition passwd_line :: "nat \<Rightarrow> user_t \<Rightarrow> string" where
  "passwd_line sz u =
     u_fmt sz (''%s:x:%d:%d::%s:%s'' @ [NL])
       [ArgS (username u), ArgD (uid u), ArgD (ugroup u), ArgS (1, cval (home u)), ArgS (1, cval (shell u))]"

definition shadow_line :: "nat \<Rightarrow> user_t \<Rightarrow> string" where
  "shadow_line sz u =
     (let hash = (if password_hash u ! 0 \<noteq> NUL then cval (password_hash u) else ''!'')
      in u_fmt sz (''%s:%s:0:0:99999:7:::'' @ [NL]) [ArgS (username u), ArgS (1, hash)])"

definition group_line :: "nat \<Rightarrow> group_t \<Rightarrow> string" where
  "group_line sz g = u_fmt sz (''%s:x:%d:%d'' @ [NL]) [ArgS (groupname g), ArgD (gid g), ArgD (perms g)]"

definition table_text :: "('e \<Rightarrow> bool) \<Rightarrow> (nat \<Rightarrow> 'e \<Rightarrow> string) \<Rightarrow> nat \<Rightarrow> 'e list \<Rightarrow> string" where
  "table_text ex line sz es = fold (\<lambda>e out. if ex e then out @ line (sz - length out) e else out) es []"

definition passwd_text :: "user_t list \<Rightarrow> string" where
  "passwd_text us = table_text uexists passwd_line 32768 us"

definition shadow_text :: "user_t list \<Rightarrow> string" where
  "shadow_text us = table_text uexists shadow_line 32768 us"

definition group_text :: "group_t list \<Rightarrow> string" where
  "group_text gs = table_text gexists group_line 16384 gs"

text \<open>One line of a file. The entry that a line denotes is separated from storing it.\<close>

definition group_entry :: "string \<Rightarrow> (nat \<times> string \<times> int) option" where
  "group_entry line =
     (let fields = split_fields line 8 in
      if length fields \<ge> 4
      then (let g = simple_atoi (fields ! 2); perm = simple_atoi (fields ! 3)
            in if 0 \<le> g \<and> g < int MAX_GROUPS then Some (nat g, fields ! 0, perm) else None)
      else None)"

definition load_group_line :: "string \<Rightarrow> 'a user_sys_scheme \<Rightarrow> 'a user_sys_scheme option" where
  "load_group_line line s =
     (case group_entry line of
        None \<Rightarrow> Some s
      | Some (g, name, perm) \<Rightarrow> do {
          (dup, s) \<leftarrow> strdup name s;
          Some (s\<lparr>groups := (groups s)[g := (groups s ! g)\<lparr>groupname := (dup, name), gid := int g, perms := perm, gexists := True\<rparr>]\<rparr>)
        })"

definition user_entry :: "string \<Rightarrow> (nat \<times> string \<times> int \<times> string \<times> string) option" where
  "user_entry line =
     (let fields = split_fields line 8 in
      if length fields \<ge> 7
      then (let u = simple_atoi (fields ! 2); g = simple_atoi (fields ! 3)
            in if 0 \<le> u \<and> u < int MAX_USERS then Some (nat u, fields ! 0, g, fields ! 5, fields ! 6) else None)
      else None)"

definition load_user_line :: "string \<Rightarrow> 'a user_sys_scheme \<Rightarrow> 'a user_sys_scheme option" where
  "load_user_line line s =
     (case user_entry line of
        None \<Rightarrow> Some s
      | Some (u, name, g, hm, sh) \<Rightarrow> do {
          (dup, s) \<leftarrow> strdup name s;
          let usr = users s ! u;
          Some (s\<lparr>users := (users s)[u := usr\<lparr>username := (dup, name), uid := int u, ugroup := g,
             home := u_strlcpy (home usr) hm USER_HOME_LEN, shell := u_strlcpy (shell usr) sh USER_SHELL_LEN, uexists := True\<rparr>]\<rparr>)
        })"

definition shadow_entry :: "string \<Rightarrow> (string \<times> string) option" where
  "shadow_entry line =
     (let fields = split_fields line 10 in if length fields \<ge> 2 then Some (fields ! 0, fields ! 1) else None)"

definition load_shadow_line :: "string \<Rightarrow> 'a user_sys_scheme \<Rightarrow> 'a user_sys_scheme option" where
  "load_shadow_line line s =
     (case shadow_entry line of
        None \<Rightarrow> Some s
      | Some (name, hash) \<Rightarrow> do {
          u \<leftarrow> user_find_by_name s (Some name);
          if u \<ge> 0 then (let usr = users s ! nat u in
            Some (s\<lparr>users := (users s)[nat u := usr\<lparr>password_hash := u_strlcpy (password_hash usr) hash SHADOW_HASH_LEN\<rparr>]\<rparr>))
          else Some s
        })"

fun drop_groups :: "nat list \<Rightarrow> 'a user_sys_scheme \<Rightarrow> 'a user_sys_scheme option" where
  "drop_groups [] s = Some s"
| "drop_groups (i # is) s = do {
     s \<leftarrow> (if gexists (groups s ! i) \<and> fst (groupname (groups s ! i)) \<noteq> 0 then kfree (fst (groupname (groups s ! i))) s else Some s);
     drop_groups is (s\<lparr>groups := (groups s)[i := (groups s ! i)\<lparr>gexists := False\<rparr>]\<rparr>)
   }"

fun drop_users :: "nat list \<Rightarrow> 'a user_sys_scheme \<Rightarrow> 'a user_sys_scheme option" where
  "drop_users [] s = Some s"
| "drop_users (i # is) s = do {
     s \<leftarrow> (if uexists (users s ! i) \<and> fst (username (users s ! i)) \<noteq> 0 then kfree (fst (username (users s ! i))) s else Some s);
     let u = users s ! i;
     drop_users is (s\<lparr>users := (users s)[i := u\<lparr>uexists := False, password_hash := (password_hash u)[0 := NUL]\<rparr>]\<rparr>)
   }"

end
