(* ===== verification/UserProps.thy ===== *)
theory UserProps
  imports User
begin

text \<open>
  Properties of the user database: formatting and parsing of the text lines, hexadecimal
  digits, passwords, creation of accounts, initialisation, and the round trip of the
  three files. The state invariant is \<open>db_ok\<close>; the heap is tracked by \<open>heap_owns\<close>.
\<close>

section \<open>Formatting and parsing\<close>

fun render :: "string \<Rightarrow> fmt_arg list \<Rightarrow> string" where
  "render [] args = []"
| "render [c] args = (if c \<noteq> CHR ''%'' then [c] else [])"
| "render (c # d # fmt) args =
     (if c \<noteq> CHR ''%'' then c # render (d # fmt) args
      else if d \<noteq> CHR ''s'' \<and> d \<noteq> CHR ''d'' \<and> d \<noteq> CHR ''u'' then render fmt args
      else case args of a # args \<Rightarrow> arg_text a @ render fmt args | [] \<Rightarrow> render fmt [])"

lemma u_fmt_from_fits:
  "length out + length (render fmt args) < sz \<Longrightarrow> u_fmt_from sz fmt args out = out @ render fmt args"
proof (induction sz fmt args out rule: u_fmt_from.induct)
  case (3 sz c d fmt args out)
  show ?case
  proof (cases "length out + 1 < sz")
    case True
    with 3 show ?thesis by (auto split: list.splits)
  next
    case False
    then have "length (render (c # d # fmt) args) = 0" using "3.prems" by linarith
    then have "render (c # d # fmt) args = []" by (simp only: length_0_conv)
    then show ?thesis using False by (simp del: render.simps)
  qed
qed auto

lemma u_fmt_fits: "length (render fmt args) < sz \<Longrightarrow> u_fmt sz fmt args = render fmt args"
  by (simp add: u_fmt_def u_fmt_from_fits)

lemma hex_digit_hexc:
  assumes "unat n < 16"
  shows "hex_digit (hexc n) = n"
proof -
  have "\<forall>k \<in> set [0..<16]. hex_digit (hexc (of_nat k)) = of_nat k" by code_simp
  then have "hex_digit (hexc (of_nat (unat n))) = of_nat (unat n)" using assms by (metis atLeastLessThan_iff set_upt zero_le)
  then show ?thesis by simp
qed

lemma nibbles: "unat (drop_bit 4 (b :: u8)) < 16" "unat (b AND 0xf) < 16"
proof -
  have "unat b < 256" using unsigned_less [of b, where ?'a = nat] by simp
  then show "unat (drop_bit 4 b) < 16" by (simp add: drop_bit_eq_div unat_div_distrib)
  have "b AND 0xf = take_bit 4 b" by (simp add: take_bit_eq_mask mask_eq_exp_minus_1 and.commute)
  then show "unat (b AND 0xf) < 16" by (simp add: take_bit_eq_mod unat_mod_distrib)
qed

lemma hex_byte_to_hex: "hex_byte (hexc (drop_bit 4 b)) (hexc (b AND 0xf)) = b"
proof -
  have m: "b AND 0xf = take_bit 4 b" by (simp add: take_bit_eq_mask mask_eq_exp_minus_1 and.commute)
  have "hex_byte (hexc (drop_bit 4 b)) (hexc (b AND 0xf)) = push_bit 4 (drop_bit 4 b) OR take_bit 4 b"
    using nibbles [of b] unfolding m by (simp add: hex_byte_def hex_digit_hexc)
  also have "\<dots> = b" by (rule bit_word_eqI) (auto simp: bit_simps)
  finally show ?thesis .
qed

lemma length_to_hex [simp]: "length (to_hex bs) = 2 * length bs"
  by (induction bs) (auto simp: to_hex_def)

lemma to_hex_nth: "i < length bs \<Longrightarrow> to_hex bs ! (i * 2) = hexc (drop_bit 4 (bs ! i)) \<and> to_hex bs ! (i * 2 + 1) = hexc (bs ! i AND 0xf)"
proof (induction bs arbitrary: i)
  case (Cons b bs)
  then show ?case by (cases i) (auto simp: to_hex_def)
qed simp

lemma from_hex: "map (\<lambda>i. hex_byte (to_hex bs ! (i * 2)) (to_hex bs ! (i * 2 + 1))) [0..<length bs] = bs"
  by (rule nth_equalityI) (simp_all only: length_map length_upt diff_zero nth_map nth_upt plus_nat.add_0 to_hex_nth hex_byte_to_hex)

lemma to_hex_inj: "length as = length bs \<Longrightarrow> to_hex as = to_hex bs \<longleftrightarrow> as = bs"
  by (metis from_hex)

lemma hexc_not_nul: "unat n < 16 \<Longrightarrow> hexc n \<noteq> NUL"
proof -
  assume "unat n < 16"
  moreover have "\<forall>k \<in> set [0..<16]. hexc (of_nat k) \<noteq> NUL" by code_simp
  ultimately have "hexc (of_nat (unat n)) \<noteq> NUL" by (metis atLeastLessThan_iff set_upt zero_le)
  then show ?thesis by simp
qed

lemma to_hex_not_nul: "NUL \<notin> set (to_hex bs)"
proof -
  show ?thesis using nibbles hexc_not_nul by (fastforce simp: to_hex_def)
qed

section \<open>Passwords\<close>

lemma owns_users [simp]:
  "heap_owns (s\<lparr>users := us\<rparr>) A = heap_owns s A" "heap_owns (s\<lparr>groups := gs\<rparr>) A = heap_owns s A"
  "heap_owns (s\<lparr>salt_state := x\<rparr>) A = heap_owns s A" "heap_owns (s\<lparr>users_ptr := p\<rparr>) A = heap_owns s A"
  "heap_owns (s\<lparr>groups_ptr := p\<rparr>) A = heap_owns s A"
  by (simp_all add: heap_owns_def heap_inv_def)

lemma salted_hash_correct:
  assumes "heap_owns s A" "length salt + length pw \<le> 2 ^ 32" "length salt = 8"
  shows "\<exists>m h. salted_hash salt pw s = Some (h, s\<lparr>hmem := m\<rparr>) \<and> heap_owns (s\<lparr>hmem := m\<rparr>) A
    \<and> (h = None \<or> h = Some (sha256 (salt @ bytes pw)))
    \<and> (\<forall>r \<in> A. \<forall>x \<in> bytes_of r. m x = hmem s x)"
proof -
  let ?n = "of_nat (8 + length pw) :: u64"
  have u: "unat ?n = 8 + length pw" using assms(2,3) by (intro unat_of_nat64) simp
  then have nz: "?n \<noteq> 0" by (metis add_is_0 unat_0 zero_neq_numeral)
  have le: "unat ?n \<le> 2 ^ 64 - 16" using u assms(2,3) by simp
  show ?thesis
  proof (cases rule: kheap.malloc_total [OF assms(1) nz le])
    case 1
    then show ?thesis using assms(1)
      by (intro exI [of _ "hmem s"] exI [of _ None]) (simp add: salted_hash_def Let_def del: of_nat_add)
  next
    case (2 p k m)
    let ?m = "put_bytes (unat p) (salt @ bytes pw) m"
    have "map (\<lambda>i. ?m (unat p + i)) [0..<8 + length pw] = salt @ bytes pw"
      using assms(3) by (intro nth_equalityI) (auto simp: put_bytes_eq)
    moreover have "\<And>x. x < unat p \<or> unat p + unat ?n \<le> x \<Longrightarrow> ?m x = hmem (s\<lparr>hmem := m\<rparr>) x"
      unfolding u using assms(3) by (auto simp: put_bytes_eq)
    from kheap.scratch [OF assms(1) nz le 2(1,2) this]
    obtain m' where "kfree p (s\<lparr>hmem := m\<rparr>\<lparr>hmem := ?m\<rparr>) = Some (s\<lparr>hmem := m'\<rparr>)" "heap_owns (s\<lparr>hmem := m'\<rparr>) A"
      "\<forall>r \<in> A. \<forall>x \<in> bytes_of r. m' x = hmem s x" by auto
    ultimately show ?thesis using 2(1,2)
      by (intro exI [of _ m'] exI [of _ "Some (sha256 (salt @ bytes pw))"])
        (simp add: salted_hash_def Let_def del: of_nat_add)
  qed
qed

definition user_ok :: "nat \<Rightarrow> user_t \<Rightarrow> bool" where
  "user_ok i u \<longleftrightarrow> length (password_hash u) = SHADOW_HASH_LEN \<and> length (home u) = USER_HOME_LEN
     \<and> length (shell u) = USER_SHELL_LEN \<and> (uexists u \<longrightarrow> uid u = int i \<and> ugroup u < int MAX_GROUPS)"

definition group_ok :: "nat \<Rightarrow> group_t \<Rightarrow> bool" where
  "group_ok i g \<longleftrightarrow> (gexists g \<longrightarrow> gid g = int i)"

definition db_ok :: "'a user_sys_scheme \<Rightarrow> bool" where
  "db_ok s \<longleftrightarrow> length (groups s) = MAX_GROUPS \<and> length (users s) = MAX_USERS
     \<and> (\<forall>i < MAX_USERS. user_ok i (users s ! i)) \<and> (\<forall>i < MAX_GROUPS. group_ok i (groups s ! i))"

lemma db_ok_same: "db_ok s \<Longrightarrow> groups t = groups s \<Longrightarrow> users t = users s \<Longrightarrow> db_ok t"
  by (simp add: db_ok_def)

lemma db_ok_user: "db_ok s \<Longrightarrow> groups t = groups s \<Longrightarrow> users t = (users s)[i := v] \<Longrightarrow> user_ok i v \<Longrightarrow> db_ok t"
  unfolding db_ok_def by (cases "i < MAX_USERS") (auto simp: nth_list_update)

lemma db_ok_group: "db_ok s \<Longrightarrow> groups t = (groups s)[i := g] \<Longrightarrow> users t = users s \<Longrightarrow> group_ok i g \<Longrightarrow> db_ok t"
  unfolding db_ok_def by (cases "i < MAX_GROUPS") (auto simp: nth_list_update)

lemma unat_of_char [simp]: "unat (of_char c :: u8) = of_char c"
proof -
  have "(of_char c :: nat) < 256" by simp
  then have "unat (of_nat (of_char c) :: u8) = of_char c" by (simp add: unat_of_nat take_bit_nat_eq_self)
  moreover have "(of_char c :: u8) = of_nat (of_char c)" by (simp only: of_nat_of_char)
  ultimately show ?thesis by simp
qed

lemma of_char_inj [simp]: "(of_char c :: u8) = of_char d \<longleftrightarrow> c = d"
  by (metis char_of_char unat_of_char)

lemma u_strncmp_0_iff:
  assumes "n \<le> length a" "n \<le> length b" "NUL \<notin> set (take n a)"
  shows "u_strncmp a b n = 0 \<longleftrightarrow> take n a = take n b"
proof -
  have nz: "\<forall>j < n. a ! j \<noteq> NUL" using assms(1,3) by (metis in_set_conv_nth length_take min.absorb2 nth_take)
  have "\<forall>j < n. a ! j \<noteq> NUL \<Longrightarrow> u_strncmp_from a b n i = 0 \<longleftrightarrow> (\<forall>j. i \<le> j \<and> j < n \<longrightarrow> a ! j = b ! j)" for i
  proof (induction a b n i rule: u_strncmp_from.induct)
    case (1 a b n i)
    show ?case
    proof (cases "i < n \<and> a ! i = b ! i")
      case True
      then have "u_strncmp_from a b n i = 0 \<longleftrightarrow> (\<forall>j. i + 1 \<le> j \<and> j < n \<longrightarrow> a ! j = b ! j)"
        using 1 by (auto simp: u_strncmp_from.simps [of a b n i])
      then show ?thesis using True by (metis add.commute le_neq_implies_less less_iff_succ_less_eq less_or_eq_imp_le plus_1_eq_Suc)
    next
      case False
      then show ?thesis
        by (cases "i < n") (auto simp: u_strncmp_from.simps [of a b n i] simp flip: word_uint_eq_iff)
    qed
  qed
  from this [OF nz, of 0] assms show ?thesis by (auto simp: u_strncmp_def list_eq_iff_nth_eq)
qed

lemma length_salt_bytes [simp]: "length (salt_bytes x) = 8"
  by (simp add: salt_bytes_def)

definition shadow_of :: "u8 list \<Rightarrow> u8 list \<Rightarrow> string" where
  "shadow_of salt hash = ''$sha256$'' @ to_hex salt @ ''$'' @ to_hex hash"

lemma shadow_fmt:
  assumes "length salt = 8" "length hash = 32"
  shows "u_fmt SHADOW_HASH_LEN ''$sha256$%s$%s'' [ArgS (1, to_hex salt), ArgS (1, to_hex hash)] = shadow_of salt hash"
  using assms by (subst u_fmt_fits) (simp_all add: arg_text_def shadow_of_def)

lemma user_find_password:
  assumes "i < length (users s)"
  shows "user_find_by_name (s\<lparr>users := (users s)[i := (users s ! i)\<lparr>password_hash := h\<rparr>]\<rparr>) name = user_find_by_name s name"
proof -
  let ?us = "(users s)[i := (users s ! i)\<lparr>password_hash := h\<rparr>]"
  have "uexists (?us ! j) = uexists (users s ! j)" "username (?us ! j) = username (users s ! j)" for j
    using assms by (cases "j = i"; simp)+
  then show ?thesis by (simp add: user_find_by_name_def split: option.split)
qed

lemma user_find_range: "user_find_by_name s (Some name) = Some u \<Longrightarrow> 0 \<le> u \<Longrightarrow> user_exists s u"
  by (auto simp: user_find_by_name_def find_name_def user_exists_def split: option.splits if_splits dest: scan_SomeD)

lemma authenticate_stored:
  assumes find: "user_find_by_name t (Some name) = Some u" "0 \<le> u"
    and stored: "password_hash (users t ! nat u) = shadow_of salt hash @ [NUL] @ rest" "length salt = 8" "length hash = 32"
    and heap: "heap_owns t A" "length pw < 2 ^ 31"
  shows "\<exists>r t'. user_authenticate (Some name) (Some pw) t = Some (r, t') \<and> heap_owns t' A \<and> users t' = users t
    \<and> (r = -5 \<or> r = (if sha256 (salt @ bytes pw) = hash then u else -6))"
proof -
  obtain m h where h: "salted_hash salt pw t = Some (h, t\<lparr>hmem := m\<rparr>)" "heap_owns (t\<lparr>hmem := m\<rparr>) A"
    "h = None \<or> h = Some (sha256 (salt @ bytes pw))"
    using salted_hash_correct [OF heap(1), of salt pw] heap(2) stored(2) by auto
  let ?st = "password_hash (users t ! nat u)"
  have c0: "?st ! 0 = CHR ''$''" by (simp add: stored(1) shadow_of_def)
  have pre: "u_strncmp ?st (''$sha256$'' @ [NUL]) 8 = 0"
    by (subst u_strncmp_0_iff) (simp_all add: stored(1) shadow_of_def)
  have dr: "drop 8 ?st = to_hex salt @ ''$'' @ to_hex hash @ [NUL] @ rest" by (simp add: stored(1) shadow_of_def)
  have sl: "map (\<lambda>i. hex_byte (drop 8 ?st ! (i * 2)) (drop 8 ?st ! (i * 2 + 1))) [0..<8] = salt"
  proof -
    have "map (\<lambda>i. hex_byte (drop 8 ?st ! (i * 2)) (drop 8 ?st ! (i * 2 + 1))) [0..<8]
      = map (\<lambda>i. hex_byte (to_hex salt ! (i * 2)) (to_hex salt ! (i * 2 + 1))) [0..<length salt]"
      unfolding dr stored(2) by (rule map_cong) (use stored(2) in \<open>auto simp: nth_append\<close>)
    then show ?thesis by (simp only: from_hex)
  qed
  have hx: "drop 17 (drop 8 ?st) = to_hex hash @ [NUL] @ rest" unfolding dr using stored(2) by simp
  have cmp: "u_strncmp (to_hex g @ [NUL]) (drop 17 (drop 8 ?st)) 64 = 0 \<longleftrightarrow> g = hash" if "length g = 32" for g
    unfolding hx using that stored(3) to_hex_not_nul [of g]
    by (subst u_strncmp_0_iff) (auto simp: to_hex_inj dest: in_set_takeD)
  have "user_authenticate (Some name) (Some pw) t = Some (case h of None \<Rightarrow> -5 | Some g \<Rightarrow> if g = hash then u else -6, t\<lparr>hmem := m\<rparr>)"
    using find c0 h(3)
    by (auto simp: user_authenticate_def h(1) pre [simplified] sl [simplified] cmp [simplified])
  then show ?thesis using h(2,3) by (auto split: option.splits)
qed

text \<open>
  C9: Passwords. Setting the password of an account that is found by its name either runs
  out of memory (-1) or succeeds; afterwards the name still denotes the same account, and
  there is a salt such that authenticating with any password either runs out of memory
  (-5) or returns the account exactly if the salted hashes agree, in particular for the
  password that was set, and -6 otherwise. No block of the heap is lost.
\<close>

theorem password_roundtrip:
  assumes "db_ok s" "heap_owns s A" "user_find_by_name s (Some name) = Some u" "0 \<le> u" "length pw < 2 ^ 31"
  shows "\<exists>r t salt. user_set_password u (Some pw) s = Some (r, t) \<and> heap_owns t A \<and> (r = -1 \<or> r = 0)
    \<and> (r = 0 \<longrightarrow> db_ok t \<and> user_find_by_name t (Some name) = Some u
        \<and> (\<forall>pw'. length pw' < 2 ^ 31 \<longrightarrow> (\<exists>r' t'. user_authenticate (Some name) (Some pw') t = Some (r', t') \<and> heap_owns t' A
             \<and> (r' = -5 \<or> r' = (if sha256 (salt @ bytes pw') = sha256 (salt @ bytes pw) then u else -6)))))"
proof -
  obtain x s1 where g: "gen_salt s = (x, s1)" "s1 = s\<lparr>salt_state := x\<rparr>" by (simp add: gen_salt_def Let_def)
  let ?salt = "salt_bytes x"
  have ex: "user_exists s u" using user_find_range assms(3,4) by blast
  then have u: "nat u < MAX_USERS" "int (nat u) = u" by (auto simp: user_exists_def split: if_splits)
  obtain m h where h: "salted_hash ?salt pw s1 = Some (h, s1\<lparr>hmem := m\<rparr>)" "heap_owns (s1\<lparr>hmem := m\<rparr>) A"
    "h = None \<or> h = Some (sha256 (?salt @ bytes pw))"
    using salted_hash_correct [of s1 A ?salt pw] assms(2,5) by (auto simp: g(2))
  show ?thesis
  proof (cases h)
    case None
    then have "user_set_password u (Some pw) s = Some (-1, s1\<lparr>hmem := m\<rparr>)"
      using ex h(1) by (simp add: user_set_password_def g(1))
    then show ?thesis using h(2) by (intro exI [of _ "-1"] exI [of _ "s1\<lparr>hmem := m\<rparr>"]) simp
  next
    case (Some hash)
    then have hash: "hash = sha256 (?salt @ bytes pw)" using h(3) by simp
    define buf where "buf = into_buf (shadow_of ?salt hash) (password_hash (users s ! nat u))"
    define t where "t = s1\<lparr>hmem := m, users := (users s)[nat u := (users s ! nat u)\<lparr>password_hash := buf\<rparr>]\<rparr>"
    have t: "user_set_password u (Some pw) s = Some (0, t)"
      using ex h(1) Some shadow_fmt [of ?salt hash]
      by (simp add: user_set_password_def g t_def buf_def hash Let_def)
    have o: "heap_owns t A" using h(2) by (simp add: t_def)
    have lu: "nat u < length (users s)" using u(1) assms(1) by (simp add: db_ok_def)
    have f: "user_find_by_name t (Some name) = Some u"
      using user_find_password [OF lu, of buf "Some name"] assms(3) by (simp add: user_find_by_name_def t_def g(2))
    have ph: "password_hash (users t ! nat u) = shadow_of ?salt hash @ [NUL] @ drop 90 (password_hash (users s ! nat u))"
      using lu by (simp add: t_def buf_def into_buf_def shadow_of_def hash)
    have "user_ok (nat u) (users s ! nat u)" using assms(1) u(1) by (simp add: db_ok_def)
    then have "user_ok (nat u) ((users s ! nat u)\<lparr>password_hash := buf\<rparr>)"
      by (simp add: user_ok_def buf_def into_buf_def shadow_of_def hash)
    then have "db_ok t" by (intro db_ok_user [OF assms(1)]) (simp_all add: t_def g(2))
    moreover have "\<exists>r' t'. user_authenticate (Some name) (Some pw') t = Some (r', t') \<and> heap_owns t' A
             \<and> (r' = -5 \<or> r' = (if sha256 (?salt @ bytes pw') = sha256 (?salt @ bytes pw) then u else -6))"
      if "length pw' < 2 ^ 31" for pw'
      using authenticate_stored [OF f assms(4) ph _ _ o that] unfolding hash length_salt_bytes length_sha256 by blast
    ultimately show ?thesis using t o f
      by (intro exI [of _ 0] exI [of _ t] exI [of _ ?salt]) blast
  qed
qed

section \<open>Buffers\<close>

lemma u_strlcpy_from_eq:
  "sz \<le> length dst \<Longrightarrow> i < sz \<Longrightarrow>
   u_strlcpy_from dst src sz i = (let w = take (sz - 1 - i) (cval (drop i src)) in take i dst @ w @ NUL # drop (i + length w + 1) dst)"
proof (induction dst src sz i rule: u_strlcpy_from.induct)
  case (1 dst src sz i)
  show ?case
  proof (cases "i + 1 < sz \<and> i < length src \<and> src ! i \<noteq> NUL")
    case True
    then have d: "drop i src = src ! i # drop (i + 1) src" by (simp add: Cons_nth_drop_Suc)
    have n: "sz - 1 - i = Suc (sz - 1 - (i + 1))" using True by arith
    have c: "take (sz - 1 - i) (cval (drop i src)) = src ! i # take (sz - 1 - (i + 1)) (cval (drop (i + 1) src))"
      unfolding d n using True by (simp add: cval_def)
    have "take (i + 1) (dst[i := src ! i]) = take i dst @ [src ! i]"
      using "1.prems" by (simp add: take_Suc_conv_app_nth)
    then show ?thesis using "1.IH" [OF True] "1.prems" True
      unfolding u_strlcpy_from.simps [of dst src sz i] c Let_def by (simp add: drop_update_cancel)
  next
    case False
    then have w: "take (sz - 1 - i) (cval (drop i src)) = []"
      using "1.prems" by (cases "drop i src") (auto simp: cval_def drop_eq_Nil hd_drop_conv_nth [symmetric] dest: arg_cong [of _ _ hd])
    have "u_strlcpy_from dst src sz i = dst[i := NUL]" using False by (subst u_strlcpy_from.simps) auto
    then show ?thesis using "1.prems" unfolding w Let_def by (simp add: upd_conv_take_nth_drop)
  qed
qed

lemma u_strlcpy_eq:
  assumes "0 < sz" "sz \<le> length dst"
  shows "u_strlcpy dst src sz = take (sz - 1) (cval src) @ NUL # drop (length (take (sz - 1) (cval src)) + 1) dst"
  using assms by (simp add: u_strlcpy_def u_strlcpy_from_eq Let_def)

lemma length_u_strlcpy: "sz = length dst \<Longrightarrow> length (u_strlcpy dst src sz) = sz"
  by (cases "sz = 0") (simp add: u_strlcpy_def, cases dst, auto simp: u_strlcpy_eq min_def)

lemma cval_no_nul: "NUL \<notin> set (cval b)"
  by (auto simp: cval_def dest: set_takeWhileD)

lemma cval_append: "NUL \<notin> set w \<Longrightarrow> cval (w @ NUL # r) = w"
  unfolding cval_def by (subst takeWhile_append2) auto

lemma cval_u_strlcpy: "0 < sz \<Longrightarrow> sz \<le> length dst \<Longrightarrow> cval (u_strlcpy dst src sz) = take (sz - 1) (cval src)"
  using cval_no_nul [of src] by (simp add: u_strlcpy_eq) (rule cval_append, auto dest: in_set_takeD)

section \<open>Accounts\<close>

lemma strdup_keeps:
  assumes "heap_owns s A" "length name < 2 ^ 31"
  shows "\<exists>q m B. strdup name s = Some (q, s\<lparr>hmem := m\<rparr>) \<and> heap_owns (s\<lparr>hmem := m\<rparr>) B \<and> A \<subseteq> B"
proof (cases rule: strdup_cases [OF assms(1), of name])
  case 2
  then show ?thesis using assms(1) by (intro exI [of _ 0] exI [of _ "hmem s"] exI [of _ A]) simp
next
  case (3 q k m)
  then show ?thesis by blast
qed (use assms(2) in simp)

lemma user_create_group_cases:
  assumes "db_ok s" "heap_owns s A" "length name < 2 ^ 31"
  shows "\<exists>r t B. user_create_group name p s = Some (r, t) \<and> db_ok t \<and> heap_owns t B \<and> A \<subseteq> B \<and> users t = users s
    \<and> (r = -1 \<longrightarrow> t = s \<and> (\<forall>i < MAX_GROUPS. gexists (groups s ! i)))
    \<and> (r \<noteq> -1 \<longrightarrow> (\<exists>i < MAX_GROUPS. r = int i \<and> \<not> gexists (groups s ! i) \<and> (\<forall>j < i. gexists (groups s ! j))
         \<and> (\<exists>q. groups t = (groups s)[i := \<lparr>groupname = (q, name), gid = int i, perms = p, gexists = True\<rparr>])))"
proof (cases "scan (\<lambda>i. \<not> gexists (groups s ! i)) 0 MAX_GROUPS")
  case None
  then have "user_create_group name p s = Some (-1, s)" by (simp add: user_create_group_def)
  then show ?thesis using assms(1,2) None
    by (intro exI [of _ "-1"] exI [of _ s] exI [of _ A]) (auto simp: scan_None_iff)
next
  case (Some i)
  then have i: "i < MAX_GROUPS" "\<not> gexists (groups s ! i)" "\<forall>j < i. gexists (groups s ! j)"
    by (auto simp: scan_Some_iff)
  obtain q m B where q: "strdup name s = Some (q, s\<lparr>hmem := m\<rparr>)" "heap_owns (s\<lparr>hmem := m\<rparr>) B" "A \<subseteq> B"
    using strdup_keeps [OF assms(2,3)] by blast
  define g where "g = \<lparr>groupname = (q, name), gid = int i, perms = p, gexists = True\<rparr>"
  have g': "(groups s ! i)\<lparr>gexists := True, gid := int i, perms := p, groupname := (q, name)\<rparr> = g"
    by (simp add: g_def)
  have c: "user_create_group name p s = Some (int i, s\<lparr>hmem := m, groups := (groups s)[i := g]\<rparr>)"
    using Some q(1) g' by (simp add: user_create_group_def)
  have "db_ok (s\<lparr>hmem := m, groups := (groups s)[i := g]\<rparr>)"
    by (rule db_ok_group [OF assms(1), where i = i and g = g]) (simp_all add: g_def group_ok_def)
  then show ?thesis using c q(2,3) i
    by (intro exI [of _ "int i"] exI [of _ "s\<lparr>hmem := m, groups := (groups s)[i := g]\<rparr>"] exI [of _ B]) (auto simp: g_def)
qed

lemma user_create_user_cases:
  assumes "db_ok s" "heap_owns s A" "length name < 2 ^ 31"
  shows "\<exists>r t B. user_create_user_full name g hm sh s = Some (r, t) \<and> db_ok t \<and> heap_owns t B \<and> A \<subseteq> B \<and> groups t = groups s
    \<and> (r = -1 \<longrightarrow> t = s \<and> (int MAX_GROUPS \<le> g \<or> (\<forall>i < MAX_USERS. uexists (users s ! i))))
    \<and> (r \<noteq> -1 \<longrightarrow> (\<exists>i < MAX_USERS. r = int i \<and> \<not> uexists (users s ! i) \<and> (\<forall>j < i. uexists (users s ! j))
         \<and> (\<exists>v. users t = (users s)[i := v] \<and> uexists v \<and> uid v = int i \<and> ugroup v = g \<and> snd (username v) = name
              \<and> password_hash v ! 0 = NUL \<and> cval (home v) = take 127 (cval (case hm of Some h \<Rightarrow> h | None \<Rightarrow> ''/''))
              \<and> cval (shell v) = take 63 (cval (case sh of Some h \<Rightarrow> h | None \<Rightarrow> ''/bin/mountshell'')))))"
proof (cases "g \<ge> int MAX_GROUPS \<or> scan (\<lambda>i. \<not> uexists (users s ! i)) 0 MAX_USERS = None")
  case True
  then have "user_create_user_full name g hm sh s = Some (-1, s)" by (auto simp: user_create_user_full_def)
  then show ?thesis using assms(1,2) True
    by (intro exI [of _ "-1"] exI [of _ s] exI [of _ A]) (auto simp: scan_None_iff)
next
  case False
  then obtain i where i': "scan (\<lambda>i. \<not> uexists (users s ! i)) 0 MAX_USERS = Some i" by auto
  then have i: "i < MAX_USERS" "\<not> uexists (users s ! i)" "\<forall>j < i. uexists (users s ! j)"
    by (auto simp: scan_Some_iff)
  obtain q m B where q: "strdup name s = Some (q, s\<lparr>hmem := m\<rparr>)" "heap_owns (s\<lparr>hmem := m\<rparr>) B" "A \<subseteq> B"
    using strdup_keeps [OF assms(2,3)] by blast
  let ?h = "case hm of Some h \<Rightarrow> h | None \<Rightarrow> ''/''" and ?sh = "case sh of Some h \<Rightarrow> h | None \<Rightarrow> ''/bin/mountshell''"
  define u where "u = users s ! i"
  define v where "v = u\<lparr>uexists := True, uid := int i, ugroup := g, username := (q, name),
    password_hash := (password_hash u)[0 := NUL], home := u_strlcpy (home u) ?h USER_HOME_LEN,
    shell := u_strlcpy (shell u) ?sh USER_SHELL_LEN\<rparr>"
  have c: "user_create_user_full name g hm sh s = Some (int i, s\<lparr>hmem := m, users := (users s)[i := v]\<rparr>)"
    using i' False q(1) by (simp add: user_create_user_full_def v_def u_def Let_def)
  have u: "length (password_hash u) = 128" "length (home u) = 128" "length (shell u) = 64"
    using assms(1) i(1) by (auto simp: u_def db_ok_def user_ok_def)
  have "user_ok i v" using u False by (simp add: user_ok_def v_def length_u_strlcpy)
  then have "db_ok (s\<lparr>hmem := m, users := (users s)[i := v]\<rparr>)"
    by (rule db_ok_user [OF assms(1), rotated 2]) simp_all
  moreover have "cval (home v) = take 127 (cval ?h)" "cval (shell v) = take 63 (cval ?sh)" "password_hash v ! 0 = NUL"
    using u by (simp_all add: v_def cval_u_strlcpy)
  ultimately show ?thesis using c q(2,3) i
    by (intro exI [of _ "int i"] exI [of _ "s\<lparr>hmem := m, users := (users s)[i := v]\<rparr>"] exI [of _ B]) (auto simp: v_def)
qed

text \<open>
  Accounts. \<open>user_create_user_full\<close> takes the lowest free slot of the user table, whose
  number becomes the user id, and stores the group, name, home and shell (cut to the size
  of their arrays); the new account has no password, so that authenticating under its
  name fails. Nothing else in the tables changes, and with a group number out of range or
  a full table it returns -1 and changes nothing.
\<close>

theorem user_create_user_correct:
  assumes "db_ok s" "heap_owns s A" "length name < 2 ^ 31"
  shows "\<exists>r t B. user_create_user_full name g hm sh s = Some (r, t) \<and> db_ok t \<and> heap_owns t B \<and> A \<subseteq> B \<and> groups t = groups s
    \<and> (r = -1 \<longrightarrow> t = s \<and> (int MAX_GROUPS \<le> g \<or> (\<forall>i < MAX_USERS. uexists (users s ! i))))
    \<and> (r \<noteq> -1 \<longrightarrow> (\<exists>i < MAX_USERS. r = int i \<and> \<not> uexists (users s ! i) \<and> (\<forall>j < i. uexists (users s ! j))
         \<and> (\<forall>j. j \<noteq> i \<longrightarrow> users t ! j = users s ! j) \<and> user_exists t r \<and> user_get_gid t r = g
         \<and> cval (home (users t ! i)) = take 127 (cval (case hm of Some h \<Rightarrow> h | None \<Rightarrow> ''/''))
         \<and> cval (shell (users t ! i)) = take 63 (cval (case sh of Some h \<Rightarrow> h | None \<Rightarrow> ''/bin/mountshell''))
         \<and> (\<forall>pw. user_find_by_name t (Some name) = Some r \<longrightarrow> user_authenticate (Some name) (Some pw) t = Some (-3, t))))"
proof -
  obtain r t B where c: "user_create_user_full name g hm sh s = Some (r, t)" "db_ok t" "heap_owns t B" "A \<subseteq> B" "groups t = groups s"
    "r = -1 \<longrightarrow> t = s \<and> (int MAX_GROUPS \<le> g \<or> (\<forall>i < MAX_USERS. uexists (users s ! i)))"
    "r \<noteq> -1 \<longrightarrow> (\<exists>i < MAX_USERS. r = int i \<and> \<not> uexists (users s ! i) \<and> (\<forall>j < i. uexists (users s ! j))
         \<and> (\<exists>v. users t = (users s)[i := v] \<and> uexists v \<and> uid v = int i \<and> ugroup v = g \<and> snd (username v) = name
              \<and> password_hash v ! 0 = NUL \<and> cval (home v) = take 127 (cval (case hm of Some h \<Rightarrow> h | None \<Rightarrow> ''/''))
              \<and> cval (shell v) = take 63 (cval (case sh of Some h \<Rightarrow> h | None \<Rightarrow> ''/bin/mountshell''))))"
    using user_create_user_cases [OF assms, of g hm sh] by blast
  show ?thesis
  proof (cases "r = -1")
    case True
    with c show ?thesis by blast
  next
    case False
    then obtain i v where i: "i < MAX_USERS" "r = int i" "\<not> uexists (users s ! i)" "\<forall>j < i. uexists (users s ! j)"
      "users t = (users s)[i := v]" "uexists v" "ugroup v = g" "password_hash v ! 0 = NUL"
      "cval (home v) = take 127 (cval (case hm of Some h \<Rightarrow> h | None \<Rightarrow> ''/''))"
      "cval (shell v) = take 63 (cval (case sh of Some h \<Rightarrow> h | None \<Rightarrow> ''/bin/mountshell''))"
      using c(7) by blast
    have v: "users t ! i = v" using i(1,5) assms(1) by (simp add: db_ok_def)
    have "user_exists t r" "user_get_gid t r = g" using i v by (simp_all add: user_exists_def user_get_gid_def)
    moreover have "user_authenticate (Some name) (Some pw) t = Some (-3, t)" if "user_find_by_name t (Some name) = Some r" for pw
      using that i(2,8) v by (simp add: user_authenticate_def)
    ultimately show ?thesis using c(1-5) i v False
      by (intro exI [of _ r] exI [of _ t] exI [of _ B]) (auto intro!: exI [of _ i])
  qed
qed

text \<open>The tables before initialisation: memory of the right size.\<close>

definition db_shape :: "'a user_sys_scheme \<Rightarrow> bool" where
  "db_shape s \<longleftrightarrow> length (groups s) = MAX_GROUPS \<and> length (users s) = MAX_USERS
     \<and> (\<forall>u \<in> set (users s). length (password_hash u) = SHADOW_HASH_LEN \<and> length (home u) = USER_HOME_LEN
          \<and> length (shell u) = USER_SHELL_LEN)"

lemma user_set_password_total:
  assumes "db_ok s" "heap_owns s A" "user_exists s u" "length pw < 2 ^ 31"
  shows "\<exists>r t. user_set_password u (Some pw) s = Some (r, t) \<and> heap_owns t A \<and> db_ok t \<and> groups t = groups s
    \<and> (\<forall>i < MAX_USERS. uexists (users t ! i) = uexists (users s ! i) \<and> ugroup (users t ! i) = ugroup (users s ! i))"
proof -
  obtain x s1 where g: "gen_salt s = (x, s1)" "s1 = s\<lparr>salt_state := x\<rparr>" by (simp add: gen_salt_def Let_def)
  let ?salt = "salt_bytes x"
  have u: "nat u < MAX_USERS" using assms(3) by (auto simp: user_exists_def split: if_splits)
  then have lu: "nat u < length (users s)" using assms(1) by (simp add: db_ok_def)
  obtain m h where h: "salted_hash ?salt pw s1 = Some (h, s1\<lparr>hmem := m\<rparr>)" "heap_owns (s1\<lparr>hmem := m\<rparr>) A"
    "h = None \<or> h = Some (sha256 (?salt @ bytes pw))"
    using salted_hash_correct [of s1 A ?salt pw] assms(2,4) by (auto simp: g(2))
  show ?thesis
  proof (cases h)
    case None
    then have "user_set_password u (Some pw) s = Some (-1, s1\<lparr>hmem := m\<rparr>)"
      using assms(3) h(1) by (simp add: user_set_password_def g(1))
    moreover have "db_ok (s1\<lparr>hmem := m\<rparr>)" by (rule db_ok_same [OF assms(1)]) (simp_all add: g(2))
    ultimately show ?thesis using h(2) by (intro exI [of _ "-1"] exI [of _ "s1\<lparr>hmem := m\<rparr>"]) (simp add: g(2))
  next
    case (Some hash)
    then have hash: "hash = sha256 (?salt @ bytes pw)" using h(3) by simp
    define v where "v = (users s ! nat u)\<lparr>password_hash := into_buf (shadow_of ?salt hash) (password_hash (users s ! nat u))\<rparr>"
    define t where "t = s1\<lparr>hmem := m, users := (users s)[nat u := v]\<rparr>"
    have t: "user_set_password u (Some pw) s = Some (0, t)"
      using assms(3) h(1) Some shadow_fmt [of ?salt hash]
      by (simp add: user_set_password_def g t_def v_def hash Let_def)
    have "user_ok (nat u) (users s ! nat u)" using assms(1) u by (simp add: db_ok_def)
    then have "user_ok (nat u) v" by (simp add: user_ok_def v_def into_buf_def shadow_of_def hash)
    then have "db_ok t" by (intro db_ok_user [OF assms(1)]) (simp_all add: t_def g(2))
    moreover have "heap_owns t A" using h(2) by (simp add: t_def)
    moreover have "uexists (users t ! i) = uexists (users s ! i) \<and> ugroup (users t ! i) = ugroup (users s ! i)" for i
      using lu by (cases "i = nat u") (simp_all add: t_def v_def)
    ultimately show ?thesis using t by (intro exI [of _ 0] exI [of _ t]) (simp add: t_def g(2))
  qed
qed

text \<open>The first group and the first user of empty tables.\<close>

lemma user_create_group_first:
  assumes "db_ok s" "heap_owns s A" "length name < 2 ^ 31" "\<not> gexists (groups s ! 0)"
  shows "\<exists>t B q. user_create_group name p s = Some (0, t) \<and> db_ok t \<and> heap_owns t B \<and> A \<subseteq> B \<and> users t = users s
    \<and> groups t = (groups s)[0 := \<lparr>groupname = (q, name), gid = 0, perms = p, gexists = True\<rparr>]"
proof -
  obtain r t B where c: "user_create_group name p s = Some (r, t)" "db_ok t" "heap_owns t B" "A \<subseteq> B" "users t = users s"
    "r = -1 \<longrightarrow> (\<forall>i < MAX_GROUPS. gexists (groups s ! i))"
    "r \<noteq> -1 \<longrightarrow> (\<exists>i < MAX_GROUPS. r = int i \<and> (\<forall>j < i. gexists (groups s ! j))
         \<and> (\<exists>q. groups t = (groups s)[i := \<lparr>groupname = (q, name), gid = int i, perms = p, gexists = True\<rparr>]))"
    using user_create_group_cases [OF assms(1-3), of p] by blast
  have "r \<noteq> -1" using c(6) assms(4) by auto
  then obtain i q where i: "r = int i" "\<forall>j < i. gexists (groups s ! j)"
    "groups t = (groups s)[i := \<lparr>groupname = (q, name), gid = int i, perms = p, gexists = True\<rparr>]" using c(7) by blast
  have "i = 0" using i(2) assms(4) by (cases i) auto
  then show ?thesis using c(1-5) i(1,3) by auto
qed

lemma user_create_user_first:
  assumes "db_ok s" "heap_owns s A" "length name < 2 ^ 31" "\<not> uexists (users s ! 0)" "g < int MAX_GROUPS"
  shows "\<exists>t B v. user_create_user_full name g hm sh s = Some (0, t) \<and> db_ok t \<and> heap_owns t B \<and> A \<subseteq> B \<and> groups t = groups s
    \<and> users t = (users s)[0 := v] \<and> uexists v \<and> ugroup v = g"
proof -
  obtain r t B where c: "user_create_user_full name g hm sh s = Some (r, t)" "db_ok t" "heap_owns t B" "A \<subseteq> B" "groups t = groups s"
    "r = -1 \<longrightarrow> int MAX_GROUPS \<le> g \<or> (\<forall>i < MAX_USERS. uexists (users s ! i))"
    "r \<noteq> -1 \<longrightarrow> (\<exists>i < MAX_USERS. r = int i \<and> (\<forall>j < i. uexists (users s ! j))
         \<and> (\<exists>v. users t = (users s)[i := v] \<and> uexists v \<and> ugroup v = g))"
    using user_create_user_cases [OF assms(1-3), of g hm sh] by blast
  have "r \<noteq> -1" using c(6) assms(4,5) by auto
  then obtain i v where i: "r = int i" "\<forall>j < i. uexists (users s ! j)" "users t = (users s)[i := v]" "uexists v" "ugroup v = g"
    using c(7) by blast
  have "i = 0" using i(2) assms(4) by (cases i) auto
  then show ?thesis using c(1-5) i by auto
qed

definition root_only :: "'a user_sys_scheme \<Rightarrow> bool" where
  "root_only t \<longleftrightarrow> (\<forall>i < MAX_USERS. uexists (users t ! i) \<longleftrightarrow> i = 0) \<and> (\<forall>i < MAX_GROUPS. gexists (groups t ! i) \<longleftrightarrow> i = 0)
    \<and> user_is_root t 0 \<and> user_get_gid t 0 = 0 \<and> (\<forall>u. u \<noteq> 0 \<longrightarrow> user_get_perm_level t u = USER)"

lemma user_init_accounts:
  assumes ok: "db_ok s" and "heap_owns s A" and fresh: "\<And>i. i < 124 \<Longrightarrow> \<not> gexists (groups s ! i) \<and> \<not> uexists (users s ! i)"
  shows "\<exists>r t B. user_set_password 0 (Some ''bmroot'') (snd (the (user_create_user_full ''root'' 0 (Some ''/root'') (Some ''/bin/mountshell'')
      (snd (the (user_create_group ''root'' ROOT s)))))) = Some (r, t)
    \<and> fst (the (user_create_group ''root'' ROOT s)) = 0 \<and> user_create_group ''root'' ROOT s \<noteq> None
    \<and> (\<exists>s'. user_create_user_full ''root'' 0 (Some ''/root'') (Some ''/bin/mountshell'') (snd (the (user_create_group ''root'' ROOT s))) = Some (0, s'))
    \<and> heap_owns t B \<and> A \<subseteq> B \<and> db_ok t \<and> root_only t"
proof -
  obtain s3 B3 q where c3: "user_create_group ''root'' ROOT s = Some (0, s3)" "db_ok s3" "heap_owns s3 B3" "A \<subseteq> B3" "users s3 = users s"
    "groups s3 = (groups s)[0 := \<lparr>groupname = (q, ''root''), gid = 0, perms = ROOT, gexists = True\<rparr>]"
    using user_create_group_first [OF assms(1,2), of "''root''" ROOT] fresh [of 0] by auto
  obtain s4 B4 v where c4: "user_create_user_full ''root'' 0 (Some ''/root'') (Some ''/bin/mountshell'') s3 = Some (0, s4)" "db_ok s4"
    "heap_owns s4 B4" "B3 \<subseteq> B4" "groups s4 = groups s3" "users s4 = (users s)[0 := v]" "uexists v" "ugroup v = 0"
    using user_create_user_first [OF c3(2,3), of "''root''" 0 "Some ''/root''" "Some ''/bin/mountshell''"] fresh [of 0] c3(5) by auto
  have ex4: "user_exists s4 0" using c4 ok by (simp add: user_exists_def db_ok_def)
  obtain r5 t where c5: "user_set_password 0 (Some ''bmroot'') s4 = Some (r5, t)" "heap_owns t B4" "db_ok t" "groups t = groups s4"
    "\<forall>i < MAX_USERS. uexists (users t ! i) = uexists (users s4 ! i) \<and> ugroup (users t ! i) = ugroup (users s4 ! i)"
    using user_set_password_total [OF c4(2,3) ex4, of "''bmroot''"] by auto
  have ue: "\<forall>i < MAX_USERS. uexists (users t ! i) \<longleftrightarrow> i = 0"
    using c5(5) c4(6,7) fresh ok by (auto simp: db_ok_def nth_list_update)
  have ge: "\<forall>i < MAX_GROUPS. gexists (groups t ! i) \<longleftrightarrow> i = 0"
    using c5(4) c4(5) c3(6) fresh ok by (auto simp: db_ok_def nth_list_update)
  have "ugroup (users t ! 0) = 0" using c5(5) c4 ok by (simp add: db_ok_def)
  moreover have "perms (groups t ! 0) = ROOT" using c5(4) c4(5) c3(6) ok by (simp add: db_ok_def)
  moreover have "user_get_perm_level t u = USER" if "u \<noteq> 0" for u
    using that ue by (auto simp: user_get_perm_level_def user_exists_def)
  ultimately have "root_only t" using ue ge by (simp add: root_only_def user_is_root_def user_get_gid_def user_exists_def)
  moreover have "A \<subseteq> B4" using c3(4) c4(4) by blast
  ultimately show ?thesis using c3(1) c4(1) c5(1-3) by auto
qed

text \<open>
  C11: \<open>user_init\<close> returns. If there is no memory for the tables it returns -1 and the heap
  owns what it owned before. Otherwise it returns 0, the database is well formed and
  holds exactly one group and one user, number 0, the user in the group and the group
  with the permissions of root.
\<close>

theorem user_init_root:
  assumes "db_shape s" "heap_owns s A"
  shows "\<exists>r t B. user_init tsc s = Some (r, t) \<and> heap_owns t B \<and> A \<subseteq> B \<and> (r = -1 \<and> B = A \<or> r = 0 \<and> db_ok t
    \<and> (\<forall>i < MAX_USERS. uexists (users t ! i) \<longleftrightarrow> i = 0) \<and> (\<forall>i < MAX_GROUPS. gexists (groups t ! i) \<longleftrightarrow> i = 0)
    \<and> user_is_root t 0 \<and> user_get_gid t 0 = 0 \<and> (\<forall>u. u \<noteq> 0 \<longrightarrow> user_get_perm_level t u = USER))"
proof -
  define s0 where "s0 = salt_seed tsc s"
  have s0: "heap_owns s0 A" "groups s0 = groups s" "users s0 = users s"
    using assms(2) by (simp_all add: s0_def salt_seed_def)
  have n: "(2976 :: u64) \<noteq> 0" "unat (2976 :: u64) \<le> 2 ^ 64 - 16" "(42656 :: u64) \<noteq> 0" "unat (42656 :: u64) \<le> 2 ^ 64 - 16" by simp_all
  show ?thesis
  proof (cases rule: kheap.malloc_total [OF s0(1) n(1,2)])
    case 1
    then have "user_init tsc s = Some (-1, s0\<lparr>groups_ptr := 0\<rparr>)" by (simp add: user_init_def flip: s0_def)
    then show ?thesis using s0(1) by (intro exI [of _ "-1"] exI [of _ "s0\<lparr>groups_ptr := 0\<rparr>"] exI [of _ A]) simp
  next
    case (2 gp k m)
    define s1 where "s1 = s0\<lparr>hmem := m, groups_ptr := gp, groups := map (\<lambda>g. g\<lparr>gexists := False\<rparr>) (groups s)\<rparr>"
    let ?B1 = "insert (unat gp, k) A"
    have o1: "heap_owns s1 ?B1" using 2(4) by (simp add: s1_def)
    show ?thesis
    proof (cases rule: kheap.malloc_total [OF o1 n(3,4)])
      case 1
      obtain m' where m': "kfree gp (s1\<lparr>users_ptr := 0\<rparr>) = Some (s1\<lparr>users_ptr := 0, hmem := m'\<rparr>)"
        "heap_owns (s1\<lparr>users_ptr := 0, hmem := m'\<rparr>) (?B1 - {(unat gp, k)})"
        using kfree_owns [of "s1\<lparr>users_ptr := 0\<rparr>" ?B1 gp k] o1 by auto
      have "user_init tsc s = Some (-1, s1\<lparr>users_ptr := 0, hmem := m'\<rparr>)"
        using 2(1,2) 1 m'(1) s0 by (simp add: user_init_def s1_def flip: s0_def)
      moreover have "?B1 - {(unat gp, k)} = A" using 2(5) by blast
      ultimately show ?thesis using m'(2)
        by (intro exI [of _ "-1"] exI [of _ "s1\<lparr>users_ptr := 0, hmem := m'\<rparr>"] exI [of _ A]) simp
    next
      case (2 up k' m2)
      note mg = \<open>kmalloc 2976 s0 = Some (gp, s0\<lparr>hmem := m\<rparr>)\<close> \<open>gp \<noteq> 0\<close>
      define s2 where "s2 = s1\<lparr>hmem := m2, users_ptr := up, users := map (\<lambda>u. u\<lparr>uexists := False\<rparr>) (users s)\<rparr>"
      let ?B2 = "insert (unat up, k') ?B1"
      have o2: "heap_owns s2 ?B2" using 2(4) by (simp add: s2_def)
      have fresh: "\<not> gexists (groups s2 ! i)" "\<not> uexists (users s2 ! i)" if "i < 124" for i
        using that assms(1) by (simp_all add: s2_def s1_def db_shape_def)
      have "user_ok i (users s2 ! i)" "group_ok i (groups s2 ! i)" if "i < 124" for i
        using that fresh [OF that] assms(1) by (auto simp: user_ok_def group_ok_def s2_def s1_def db_shape_def)
      then have ok2: "db_ok s2" using assms(1) by (simp add: db_ok_def db_shape_def s2_def s1_def)
      obtain r t B where c: "user_set_password 0 (Some ''bmroot'') (snd (the (user_create_user_full ''root'' 0 (Some ''/root'')
          (Some ''/bin/mountshell'') (snd (the (user_create_group ''root'' ROOT s2)))))) = Some (r, t)"
        "fst (the (user_create_group ''root'' ROOT s2)) = 0" "user_create_group ''root'' ROOT s2 \<noteq> None"
        "\<exists>s'. user_create_user_full ''root'' 0 (Some ''/root'') (Some ''/bin/mountshell'') (snd (the (user_create_group ''root'' ROOT s2))) = Some (0, s')"
        "heap_owns t B" "?B2 \<subseteq> B" "db_ok t" "root_only t"
        using user_init_accounts [OF ok2 o2] fresh by blast
      have us1: "users s1 = users s" by (simp add: s1_def s0(3))
      have "user_init tsc s = Some (0, t)"
        using mg 2(1,2) c(1-4) s0(2,3) us1
        by (auto simp: user_init_def s1_def [symmetric] s2_def [symmetric] simp flip: s0_def)
      then show ?thesis using c(5-8) unfolding root_only_def by blast
    qed
  qed
qed

section \<open>Saving and loading\<close>

lemma atoi_from_append: "list_all (\<lambda>c. 0x30 \<le> (of_char c :: u8) \<and> (of_char c :: u8) \<le> 0x39) xs \<Longrightarrow> atoi_from v (xs @ ys) = atoi_from (atoi_from v xs) ys"
  by (induction xs arbitrary: v) (auto simp: Let_def)

lemma digit_char:
  assumes "d < 10"
  shows "0x30 \<le> (of_char (char_of (48 + d)) :: u8)" "(of_char (char_of (48 + d)) :: u8) \<le> 0x39"
    "ucast ((of_char (char_of (48 + d)) :: u8) - 0x30) = (of_nat d :: u32)"
    "char_of (48 + d) \<notin> {CHR '':'', NL, NUL}"
proof -
  have "\<forall>d \<in> set [0..<10]. 0x30 \<le> (of_char (char_of (48 + d :: nat)) :: u8) \<and> (of_char (char_of (48 + d)) :: u8) \<le> 0x39
    \<and> ucast ((of_char (char_of (48 + d)) :: u8) - 0x30) = (of_nat d :: u32) \<and> char_of (48 + d) \<notin> {CHR '':'', NL, NUL}" by code_simp
  then have "0x30 \<le> (of_char (char_of (48 + d)) :: u8) \<and> (of_char (char_of (48 + d)) :: u8) \<le> 0x39
    \<and> ucast ((of_char (char_of (48 + d)) :: u8) - 0x30) = (of_nat d :: u32) \<and> char_of (48 + d) \<notin> {CHR '':'', NL, NUL}"
    using assms by (metis atLeastLessThan_iff set_upt zero_le)
  then show "0x30 \<le> (of_char (char_of (48 + d)) :: u8)" "(of_char (char_of (48 + d)) :: u8) \<le> 0x39"
    "ucast ((of_char (char_of (48 + d)) :: u8) - 0x30) = (of_nat d :: u32)"
    "char_of (48 + d) \<notin> {CHR '':'', NL, NUL}" by blast+
qed

lemma digits_rev_digits: "list_all (\<lambda>c. 0x30 \<le> (of_char c :: u8) \<and> (of_char c :: u8) \<le> 0x39 \<and> c \<notin> {CHR '':'', NL, NUL}) (digits_rev n)"
proof (induction n rule: digits_rev.induct)
  case (1 n)
  then show ?case using digit_char [of "n mod 10"] by (subst digits_rev.simps) (simp del: insert_iff)
qed

lemma length_digits_rev: "n < 10 ^ k \<Longrightarrow> length (digits_rev n) \<le> k"
proof (induction k arbitrary: n)
  case (Suc k)
  then have "n div 10 < 10 ^ k" by auto
  from Suc.IH [OF this] show ?case by (subst digits_rev.simps) simp
qed (simp add: digits_rev.simps)

lemma atoi_digits: "atoi_from 0 (rev (digits_rev n)) = of_nat n"
proof (induction n rule: digits_rev.induct)
  case (1 n)
  show ?case
  proof (cases "n = 0")
    case False
    let ?d = "char_of (48 + n mod 10) :: char"
    have "atoi_from 0 (rev (digits_rev n)) = atoi_from (of_nat (n div 10)) [?d]"
      using False 1 digits_rev_digits [of "n div 10"]
      by (subst digits_rev.simps) (simp add: atoi_from_append list_all_iff)
    also have "\<dots> = of_nat (n div 10) * 10 + of_nat (n mod 10)" using digit_char [of "n mod 10"] by (simp add: Let_def)
    also have "\<dots> = of_nat (n div 10 * 10 + n mod 10)" by (simp only: of_nat_add of_nat_mult of_nat_numeral)
    finally show ?thesis by simp
  qed (simp add: digits_rev.simps)
qed

lemma itoa_eq:
  assumes "0 \<le> v" "v < 2 ^ 31"
  shows "u_itoa 24 v = (if v = 0 then ''0'' else rev (digits_rev (nat v)))"
proof -
  have "nat v < 10 ^ 10" using assms by simp
  from length_digits_rev [OF this] show ?thesis using assms by (subst u_itoa.simps) simp
qed

lemma atoi_itoa:
  assumes "0 \<le> v" "v < 2 ^ 31"
  shows "simple_atoi (u_itoa 24 v) = v"
proof (cases "v = 0")
  case True
  then show ?thesis using assms by (simp add: itoa_eq simple_atoi_def Let_def)
next
  case False
  have "simple_atoi (u_itoa 24 v) = sint (of_nat (nat v) :: u32)"
    using False assms by (simp add: itoa_eq simple_atoi_def atoi_digits)
  also have "\<dots> = v" using assms by (simp add: sint_sbintrunc' signed_take_bit_int_eq_self_iff)
  finally show ?thesis .
qed

definition text_ok :: "string \<Rightarrow> bool" where
  "text_ok w \<longleftrightarrow> CHR '':'' \<notin> set w \<and> NL \<notin> set w \<and> NUL \<notin> set w"

lemma text_ok_itoa: "0 \<le> v \<Longrightarrow> v < 2 ^ 31 \<Longrightarrow> text_ok (u_itoa 24 v)"
  using digits_rev_digits [of "nat v"] by (auto simp: itoa_eq text_ok_def list_all_iff)

lemma split_from_field: "0 < n \<Longrightarrow> CHR '':'' \<notin> set w \<Longrightarrow> split_from n cur (w @ CHR '':'' # r) = (cur @ w) # split_from (n - 1) [] r"
  by (induction w arbitrary: cur) auto

lemma split_from_last: "CHR '':'' \<notin> set w \<Longrightarrow> split_from n cur w = [cur @ w]"
  by (induction w arbitrary: cur) auto

lemma table_text_fits:
  assumes "\<And>e k. e \<in> set es \<Longrightarrow> ex e \<Longrightarrow> length (ln e) < k \<Longrightarrow> line k e = ln e"
    and "length (concat (map ln (filter ex es))) < sz"
  shows "table_text ex line sz es = concat (map ln (filter ex es))"
proof -
  have "length out + length (concat (map ln (filter ex es))) < sz \<Longrightarrow>
    fold (\<lambda>e out. if ex e then out @ line (sz - length out) e else out) es out = out @ concat (map ln (filter ex es))" for out
    using assms(1)
  proof (induction es arbitrary: out)
    case (Cons e es)
    show ?case
    proof (cases "ex e")
      case True
      then have "line (sz - length out) e = ln e" using Cons.prems by simp
      then show ?thesis using Cons.IH [of "out @ ln e"] Cons.prems True by simp
    next
      case False
      then show ?thesis using Cons.IH [of out] Cons.prems by simp
    qed
  qed simp
  from this [of "[]"] assms(2) show ?thesis by (simp add: table_text_def)
qed

text \<open>What the loop over the lines makes of a file: the lines in order, each one handled.\<close>

definition collect :: "(string \<Rightarrow> 'e option) \<Rightarrow> string \<Rightarrow> 'e list option" where
  "collect p content = for_lines (\<lambda>l es. Some (case p l of None \<Rightarrow> es | Some e \<Rightarrow> es @ [e])) content []"

lemma collect_lines:
  assumes "\<And>e. e \<in> set es \<Longrightarrow> \<exists>l. ln e = l @ [NL] \<and> l \<noteq> [] \<and> NL \<notin> set l \<and> p l = Some (val e)"
  shows "collect p (concat (map ln es)) = Some (map val es)"
proof -
  have "for_lines (\<lambda>l es. Some (case p l of None \<Rightarrow> es | Some e \<Rightarrow> es @ [e])) (concat (map ln es)) acc = Some (acc @ map val es)" for acc
    using assms
  proof (induction es arbitrary: acc)
    case Nil
    then show ?case by (simp add: for_lines.simps)
  next
    case (Cons e es)
    then obtain l where l: "ln e = l @ [NL]" "l \<noteq> []" "NL \<notin> set l" "p l = Some (val e)" by (metis list.set_intros(1))
    have t: "takeWhile (\<lambda>c. c \<noteq> NL) (l @ NL # r) = l" "dropWhile (\<lambda>c. c \<noteq> NL) (l @ NL # r) = NL # r" for r
      using l(3) by (subst takeWhile_append2, auto) (subst dropWhile_append2, auto)
    show ?case using Cons.IH [of "acc @ [val e]"] Cons.prems l(2,4)
      by (subst for_lines.simps) (simp add: l(1) t)
  qed
  from this [of "[]"] show ?thesis by (simp add: collect_def)
qed

definition user_wf :: "user_t \<Rightarrow> bool" where
  "user_wf u \<longleftrightarrow> fst (username u) \<noteq> 0 \<and> text_ok (snd (username u)) \<and> text_ok (cval (home u)) \<and> text_ok (cval (shell u))
     \<and> text_ok (cval (password_hash u)) \<and> password_hash u \<noteq> [] \<and> 0 \<le> uid u \<and> uid u < int MAX_USERS \<and> 0 \<le> ugroup u \<and> ugroup u < 2 ^ 31"

definition group_wf :: "group_t \<Rightarrow> bool" where
  "group_wf g \<longleftrightarrow> fst (groupname g) \<noteq> 0 \<and> text_ok (snd (groupname g)) \<and> 0 \<le> gid g \<and> gid g < int MAX_GROUPS
     \<and> 0 \<le> perms g \<and> perms g < 2 ^ 31"

text \<open>The lines without the limit of the buffer.\<close>

definition passwd_row :: "user_t \<Rightarrow> string" where
  "passwd_row u = snd (username u) @ '':x:'' @ u_itoa 24 (uid u) @ '':'' @ u_itoa 24 (ugroup u) @ ''::'' @ cval (home u) @ '':'' @ cval (shell u)"

definition shadow_row :: "user_t \<Rightarrow> string" where
  "shadow_row u = snd (username u) @ '':'' @ (if password_hash u ! 0 \<noteq> NUL then cval (password_hash u) else ''!'') @ '':0:0:99999:7:::''"

definition group_row :: "group_t \<Rightarrow> string" where
  "group_row g = snd (groupname g) @ '':x:'' @ u_itoa 24 (gid g) @ '':'' @ u_itoa 24 (perms g)"

lemma u_fmt_render: "render fmt args = w \<Longrightarrow> length w < k \<Longrightarrow> u_fmt k fmt args = w"
  by (simp add: u_fmt_fits)

lemma passwd_line_fits:
  assumes "user_wf u" "length (passwd_row u @ [NL]) < k"
  shows "passwd_line k u = passwd_row u @ [NL]"
proof -
  obtain p nm where n: "username u = (p, nm)" by (cases "username u")
  have r: "render (''%s:x:%d:%d::%s:%s'' @ [NL]) [ArgS (username u), ArgD (uid u), ArgD (ugroup u), ArgS (1, cval (home u)), ArgS (1, cval (shell u))]
    = passwd_row u @ [NL]"
    using assms(1) by (simp add: user_wf_def arg_text_def passwd_row_def n)
  show ?thesis unfolding passwd_line_def by (rule u_fmt_render [OF r assms(2)])
qed

lemma shadow_line_fits:
  assumes "user_wf u" "length (shadow_row u @ [NL]) < k"
  shows "shadow_line k u = shadow_row u @ [NL]"
proof -
  obtain p nm where n: "username u = (p, nm)" by (cases "username u")
  have r: "render (''%s:%s:0:0:99999:7:::'' @ [NL]) [ArgS (username u), ArgS (1, if password_hash u ! 0 \<noteq> NUL then cval (password_hash u) else ''!'')]
    = shadow_row u @ [NL]"
    using assms(1) by (simp add: user_wf_def arg_text_def shadow_row_def n)
  show ?thesis unfolding shadow_line_def Let_def by (rule u_fmt_render [OF r assms(2)])
qed

lemma group_line_fits:
  assumes "group_wf g" "length (group_row g @ [NL]) < k"
  shows "group_line k g = group_row g @ [NL]"
proof -
  obtain p nm where n: "groupname g = (p, nm)" by (cases "groupname g")
  have r: "render (''%s:x:%d:%d'' @ [NL]) [ArgS (groupname g), ArgD (gid g), ArgD (perms g)] = group_row g @ [NL]"
    using assms(1) by (simp add: group_wf_def arg_text_def group_row_def n)
  show ?thesis unfolding group_line_def by (rule u_fmt_render [OF r assms(2)])
qed

lemmas split_simps = split_fields_def split_from_field split_from_last

lemma user_entry_row:
  assumes "user_wf u"
  shows "user_entry (passwd_row u) = Some (nat (uid u), snd (username u), ugroup u, cval (home u), cval (shell u))"
    "passwd_row u \<noteq> []" "NL \<notin> set (passwd_row u)"
proof -
  have w: "text_ok (snd (username u))" "text_ok (cval (home u))" "text_ok (cval (shell u))"
    "text_ok (u_itoa 24 (uid u))" "text_ok (u_itoa 24 (ugroup u))"
    using assms text_ok_itoa [of "uid u"] text_ok_itoa [of "ugroup u"] by (auto simp: user_wf_def)
  have "split_fields (passwd_row u) 8 = [snd (username u), ''x'', u_itoa 24 (uid u), u_itoa 24 (ugroup u), [], cval (home u), cval (shell u)]"
    using w by (simp add: passwd_row_def split_simps text_ok_def)
  then show "user_entry (passwd_row u) = Some (nat (uid u), snd (username u), ugroup u, cval (home u), cval (shell u))"
    using assms by (simp add: user_entry_def atoi_itoa user_wf_def)
  show "passwd_row u \<noteq> []" "NL \<notin> set (passwd_row u)" using w by (auto simp: passwd_row_def text_ok_def)
qed

lemma shadow_entry_row:
  assumes "user_wf u"
  shows "shadow_entry (shadow_row u) = Some (snd (username u), if cval (password_hash u) \<noteq> [] then cval (password_hash u) else ''!'')"
    "shadow_row u \<noteq> []" "NL \<notin> set (shadow_row u)"
proof -
  have w: "text_ok (snd (username u))" "text_ok (cval (password_hash u))" "password_hash u \<noteq> []"
    using assms by (auto simp: user_wf_def)
  have c: "cval (password_hash u) \<noteq> [] \<longleftrightarrow> password_hash u ! 0 \<noteq> NUL"
    using w(3) by (cases "password_hash u") (auto simp: cval_def)
  have "\<exists>r. split_fields (shadow_row u) 10 = snd (username u) # (if cval (password_hash u) \<noteq> [] then cval (password_hash u) else ''!'') # r"
    using w c by (auto simp: shadow_row_def split_simps text_ok_def)
  then show "shadow_entry (shadow_row u) = Some (snd (username u), if cval (password_hash u) \<noteq> [] then cval (password_hash u) else ''!'')"
    by (auto simp: shadow_entry_def)
  show "shadow_row u \<noteq> []" "NL \<notin> set (shadow_row u)" using w by (auto simp: shadow_row_def text_ok_def)
qed

lemma group_entry_row:
  assumes "group_wf g"
  shows "group_entry (group_row g) = Some (nat (gid g), snd (groupname g), perms g)"
    "group_row g \<noteq> []" "NL \<notin> set (group_row g)"
proof -
  have w: "text_ok (snd (groupname g))" "text_ok (u_itoa 24 (gid g))" "text_ok (u_itoa 24 (perms g))"
    using assms text_ok_itoa [of "gid g"] text_ok_itoa [of "perms g"] by (auto simp: group_wf_def)
  have "split_fields (group_row g) 8 = [snd (groupname g), ''x'', u_itoa 24 (gid g), u_itoa 24 (perms g)]"
    using w by (simp add: group_row_def split_simps text_ok_def)
  then show "group_entry (group_row g) = Some (nat (gid g), snd (groupname g), perms g)"
    using assms by (simp add: group_entry_def atoi_itoa group_wf_def)
  show "group_row g \<noteq> []" "NL \<notin> set (group_row g)" using w by (auto simp: group_row_def text_ok_def)
qed

text \<open>
  C10: Saving and loading. For tables whose names, homes, shells and hashes hold no colon,
  line feed or zero and whose texts fit the buffers, the files that \<open>user_save_to_disk\<close>
  writes are read back by the loops of \<open>user_load_from_disk\<close> as exactly the entries of the
  existing users and groups, in order and with all fields equal.
\<close>

theorem files_roundtrip:
  assumes "\<forall>u \<in> set us. uexists u \<longrightarrow> user_wf u" "\<forall>g \<in> set gs. gexists g \<longrightarrow> group_wf g"
    and "length (concat (map (\<lambda>u. passwd_row u @ [NL]) (filter uexists us))) < 32768"
    and "length (concat (map (\<lambda>u. shadow_row u @ [NL]) (filter uexists us))) < 32768"
    and "length (concat (map (\<lambda>g. group_row g @ [NL]) (filter gexists gs))) < 16384"
  shows "collect user_entry (passwd_text us)
      = Some (map (\<lambda>u. (nat (uid u), snd (username u), ugroup u, cval (home u), cval (shell u))) (filter uexists us))
    \<and> collect shadow_entry (shadow_text us)
      = Some (map (\<lambda>u. (snd (username u), if cval (password_hash u) \<noteq> [] then cval (password_hash u) else ''!'')) (filter uexists us))
    \<and> collect group_entry (group_text gs)
      = Some (map (\<lambda>g. (nat (gid g), snd (groupname g), perms g)) (filter gexists gs))"
proof (intro conjI)
  have "passwd_text us = concat (map (\<lambda>u. passwd_row u @ [NL]) (filter uexists us))"
    unfolding passwd_text_def by (rule table_text_fits) (use assms passwd_line_fits in auto)
  then show "collect user_entry (passwd_text us)
      = Some (map (\<lambda>u. (nat (uid u), snd (username u), ugroup u, cval (home u), cval (shell u))) (filter uexists us))"
    using assms(1) user_entry_row by (auto intro!: collect_lines)
  have "shadow_text us = concat (map (\<lambda>u. shadow_row u @ [NL]) (filter uexists us))"
    unfolding shadow_text_def by (rule table_text_fits) (use assms shadow_line_fits in auto)
  then show "collect shadow_entry (shadow_text us)
      = Some (map (\<lambda>u. (snd (username u), if cval (password_hash u) \<noteq> [] then cval (password_hash u) else ''!'')) (filter uexists us))"
    using assms(1) shadow_entry_row by (auto intro!: collect_lines)
  have "group_text gs = concat (map (\<lambda>g. group_row g @ [NL]) (filter gexists gs))"
    unfolding group_text_def by (rule table_text_fits) (use assms group_line_fits in auto)
  then show "collect group_entry (group_text gs)
      = Some (map (\<lambda>g. (nat (gid g), snd (groupname g), perms g)) (filter gexists gs))"
    using assms(2) group_entry_row by (auto intro!: collect_lines)
qed

section \<open>Examples\<close>

definition blank_user :: user_t where
  "blank_user = \<lparr>uid = 0, ugroup = 0, username = (0, []), password_hash = replicate 128 NUL,
     home = replicate 128 NUL, shell = replicate 64 NUL, uexists = False\<rparr>"

definition blank_group :: group_t where
  "blank_group = \<lparr>groupname = (0, []), gid = 0, perms = 0, gexists = False\<rparr>"

definition udemo :: user_sys where
  "udemo = heap.extend hdemo_heap (user_sys.fields 0 0 (replicate 124 blank_group) (replicate 124 blank_user) 1)"

definition root_user :: user_t where
  "root_user = blank_user\<lparr>username := (0xFFFFFFFF90000020, ''root''), home := into_buf ''/root'' (replicate 128 NUL),
     shell := into_buf ''/bin/mountshell'' (replicate 64 NUL), uexists := True\<rparr>"

definition root_group :: group_t where
  "root_group = \<lparr>groupname = (0xFFFFFFFF90000060, ''root''), gid = 0, perms = 0, gexists = True\<rparr>"

definition udemo_root :: user_sys where
  "udemo_root = udemo\<lparr>groups := (groups udemo)[0 := root_group], users := (users udemo)[0 := root_user]\<rparr>"

lemma heap_owns_extend: "heap_owns (heap.extend h e) A \<longleftrightarrow> heap_owns h A"
  by (cases h) (simp add: heap_owns_def heap_inv_def heap.defs)

lemma udemo_fields: "groups udemo = replicate 124 blank_group" "users udemo = replicate 124 blank_user"
  by (simp_all add: udemo_def heap.defs user_sys.defs)

lemma udemo_owns: "heap_owns udemo {}" "heap_owns udemo_root {}"
  using hdemo_heap_owns by (simp_all add: udemo_root_def udemo_def heap_owns_extend)

lemma udemo_shape: "db_shape udemo"
  by (simp add: db_shape_def udemo_fields blank_user_def)

lemma udemo_root_ok: "db_ok udemo_root"
  by (auto simp: db_ok_def udemo_root_def udemo_fields nth_list_update user_ok_def group_ok_def root_user_def root_group_def
      blank_user_def blank_group_def into_buf_def)

lemma udemo_root_find: "user_find_by_name udemo_root (Some ''root'') = Some 0"
proof -
  have "scan (\<lambda>i. uexists (users udemo_root ! i) \<and> (fst (username (users udemo_root ! i)) = 0 \<or> snd (username (users udemo_root ! i)) = ''root'')) 0 124 = Some 0"
    by (simp add: scan_Some_iff udemo_root_def udemo_fields root_user_def)
  then show ?thesis
    by (simp add: user_find_by_name_def find_name_def) (simp add: udemo_root_def udemo_fields root_user_def)
qed

theorem password_roundtrip_witness:
  "\<exists>r (t :: user_sys) salt. user_set_password 0 (Some ''secret'') udemo_root = Some (r, t) \<and> (r = -1 \<or> r = 0)
    \<and> (r = 0 \<longrightarrow> (\<exists>r' t'. user_authenticate (Some ''root'') (Some ''secret'') t = Some (r', t') \<and> (r' = -5 \<or> r' = 0)))"
proof -
  have l: "length ''secret'' < 2 ^ 31" by simp
  obtain r t salt where "user_set_password 0 (Some ''secret'') udemo_root = Some (r, t)" "r = -1 \<or> r = 0"
    "r = 0 \<longrightarrow> (\<forall>pw'. length pw' < 2 ^ 31 \<longrightarrow> (\<exists>r' t'. user_authenticate (Some ''root'') (Some pw') t = Some (r', t')
             \<and> (r' = -5 \<or> r' = (if sha256 (salt @ bytes pw') = sha256 (salt @ bytes ''secret'') then 0 else -6))))"
    using password_roundtrip [OF udemo_root_ok udemo_owns(2) udemo_root_find order_refl l] by blast
  then show ?thesis using l by metis
qed

theorem user_create_user_correct_witness:
  "\<exists>r (t :: user_sys). user_create_user_full ''guest'' 0 None None udemo_root = Some (r, t) \<and> db_ok t \<and> groups t = groups udemo_root"
proof -
  have l: "length ''guest'' < 2 ^ 31" by simp
  from user_create_user_correct [OF udemo_root_ok udemo_owns(2) l, of 0 None None] show ?thesis by blast
qed

theorem user_init_root_witness:
  "\<exists>r (t :: user_sys). user_init 0x1234 udemo = Some (r, t) \<and> (r = -1 \<or> r = 0 \<and> user_is_root t 0)"
  using user_init_root [OF udemo_shape udemo_owns(1), where tsc = "0x1234"] by blast

lemma root_row: "passwd_row root_user = ''root:x:0:0::/root:/bin/mountshell''"
  "shadow_row root_user = ''root:!:0:0:99999:7:::''" "group_row root_group = ''root:x:0:0''"
  by (simp_all add: passwd_row_def shadow_row_def group_row_def root_user_def root_group_def blank_user_def into_buf_def u_itoa.simps cval_def)

theorem files_roundtrip_witness:
  "collect user_entry (passwd_text [root_user, blank_user]) = Some [(0, ''root'', 0, ''/root'', ''/bin/mountshell'')]
   \<and> collect shadow_entry (shadow_text [root_user, blank_user]) = Some [(''root'', ''!'')]
   \<and> collect group_entry (group_text [root_group]) = Some [(0, ''root'', 0)]"
proof -
  have f: "filter uexists [root_user, blank_user] = [root_user]" "filter gexists [root_group] = [root_group]"
    by (simp_all add: root_user_def blank_user_def root_group_def)
  have w: "user_wf root_user" "group_wf root_group"
    by (simp_all add: user_wf_def group_wf_def root_user_def root_group_def blank_user_def into_buf_def text_ok_def cval_def)
  have v: "cval (home root_user) = ''/root''" "cval (shell root_user) = ''/bin/mountshell''" "cval (password_hash root_user) = []"
    by (simp_all add: root_user_def blank_user_def into_buf_def cval_def)
  have "\<not> uexists blank_user" by (simp add: blank_user_def)
  then show ?thesis
    using files_roundtrip [of "[root_user, blank_user]" "[root_group]"] w
    unfolding f by (simp add: root_row v) (simp add: root_user_def root_group_def blank_user_def)
qed

end
