(* ===== verification/Ring.thy ===== *)
theory Ring
  imports Prelude
begin

text \<open>
  The receive buffer of a socket, \<^verbatim>\<open>unix_ring_t\<close> of \<^verbatim>\<open>src/kernel/net/unix_socket.h\<close> with
  \<open>rb_write\<close> and \<open>rb_read\<close> of \<^verbatim>\<open>unix_socket.c\<close>, and the interface it provides to the sockets: a
  bounded queue of bytes, stated as a locale and interpreted on the ring buffer.
\<close>

section \<open>The ring buffer\<close>

abbreviation (input) UNIX_BUF_SIZE :: nat where "UNIX_BUF_SIZE \<equiv> 8192"

record unix_ring_t =
  rb_data :: "u8 list"
  rb_head :: u32
  rb_tail :: u32
  rb_count :: u32

definition rb_next :: "u32 \<Rightarrow> u32" where
  "rb_next i = (i + 1) mod of_nat UNIX_BUF_SIZE"

definition rb_put :: "u8 \<Rightarrow> unix_ring_t \<Rightarrow> unix_ring_t" where
  "rb_put b rb = rb\<lparr>rb_data := (rb_data rb)[unat (rb_tail rb) := b], rb_tail := rb_next (rb_tail rb)\<rparr>"

definition rb_write :: "u8 list \<Rightarrow> unix_ring_t \<Rightarrow> bool \<times> unix_ring_t" where
  "rb_write src rb =
     (if rb_count rb + of_nat (length src) > of_nat UNIX_BUF_SIZE then (False, rb)
      else (let rb = fold rb_put src rb in (True, rb\<lparr>rb_count := rb_count rb + of_nat (length src)\<rparr>)))"

fun rb_take :: "nat \<Rightarrow> unix_ring_t \<Rightarrow> u8 list \<times> unix_ring_t" where
  "rb_take 0 rb = ([], rb)"
| "rb_take (Suc n) rb =
     (let b = rb_data rb ! unat (rb_head rb);
          (bs, rb) = rb_take n (rb\<lparr>rb_head := rb_next (rb_head rb)\<rparr>)
      in (b # bs, rb))"

definition rb_read :: "u32 \<Rightarrow> unix_ring_t \<Rightarrow> u8 list \<times> unix_ring_t" where
  "rb_read want rb =
     (let n = (if want < rb_count rb then want else rb_count rb);
          (bs, rb) = rb_take (unat n) rb
      in (bs, rb\<lparr>rb_count := rb_count rb - n\<rparr>))"

definition zero_ring :: unix_ring_t where
  "zero_ring = \<lparr>rb_data = replicate UNIX_BUF_SIZE 0, rb_head = 0, rb_tail = 0, rb_count = 0\<rparr>"

section \<open>A bounded queue of bytes\<close>

datatype queue_op = Put "u8 list" | Get u32

text \<open>A run of writes and reads; the result holds the bytes accepted, the bytes read and the queue.\<close>

fun run_queue :: "(u8 list \<Rightarrow> 'q \<Rightarrow> bool \<times> 'q) \<Rightarrow> (u32 \<Rightarrow> 'q \<Rightarrow> u8 list \<times> 'q) \<Rightarrow> queue_op list \<Rightarrow> 'q \<Rightarrow> u8 list \<times> u8 list \<times> 'q" where
  "run_queue qw qr [] q = ([], [], q)"
| "run_queue qw qr (Put bs # ops) q =
     (let (ok, q) = qw bs q; (w, r, q) = run_queue qw qr ops q in (if ok then bs @ w else w, r, q))"
| "run_queue qw qr (Get n # ops) q =
     (let (bs, q) = qr n q; (w, r, q) = run_queue qw qr ops q in (w, bs @ r, q))"

text \<open>The abstract queue: a list of bytes of bounded length.\<close>

definition spec_write :: "nat \<Rightarrow> u8 list \<Rightarrow> u8 list \<Rightarrow> bool \<times> u8 list" where
  "spec_write cap bs q = (if length q + length bs \<le> cap then (True, q @ bs) else (False, q))"

definition spec_read :: "u32 \<Rightarrow> u8 list \<Rightarrow> u8 list \<times> u8 list" where
  "spec_read n q = (take (unat n) q, drop (unat n) q)"

lemma spec_fifo: "run_queue (spec_write cap) spec_read ops q = (w, r, q') \<Longrightarrow> q @ w = r @ q'"
proof (induction ops arbitrary: q w r q')
  case (Cons x ops)
  show ?case
  proof (cases x)
    case (Put bs)
    then obtain w' where "run_queue (spec_write cap) spec_read ops (if length q + length bs \<le> cap then q @ bs else q) = (w', r, q')"
        "w = (if length q + length bs \<le> cap then bs @ w' else w')"
      using Cons.prems by (auto simp: spec_write_def [of cap bs q] split: prod.splits if_splits)
    then show ?thesis using Cons.IH by (fastforce split: if_splits)
  next
    case (Get n)
    then obtain r' where "run_queue (spec_write cap) spec_read ops (drop (unat n) q) = (w, r', q')" "r = take (unat n) q @ r'"
      using Cons.prems by (auto simp: spec_read_def [of n q] split: prod.splits)
    then show ?thesis using Cons.IH [of "drop (unat n) q"] by (metis append.assoc append_take_drop_id)
  qed
qed simp

locale byte_queue =
  fixes qwrite :: "u8 list \<Rightarrow> 'q \<Rightarrow> bool \<times> 'q"
    and qread :: "u32 \<Rightarrow> 'q \<Rightarrow> u8 list \<times> 'q"
    and queued :: "'q \<Rightarrow> u8 list"
    and inv :: "'q \<Rightarrow> bool"
    and capacity :: nat
  assumes bounded: "inv q \<Longrightarrow> length (queued q) \<le> capacity"
    and write_fits: "inv q \<Longrightarrow> length (queued q) + length bs \<le> capacity \<Longrightarrow>
      \<exists>q'. qwrite bs q = (True, q') \<and> inv q' \<and> queued q' = queued q @ bs"
    and write_full: "inv q \<Longrightarrow> length bs + capacity < 2 ^ 32 \<Longrightarrow> capacity < length (queued q) + length bs \<Longrightarrow> qwrite bs q = (False, q)"
    and read_front: "inv q \<Longrightarrow> \<exists>q'. qread n q = (take (unat n) (queued q), q') \<and> inv q' \<and> queued q' = drop (unat n) (queued q)"
begin

lemma write_refines:
  assumes "inv q" "length bs + capacity < 2 ^ 32"
  obtains ok q' where "qwrite bs q = (ok, q')" "inv q'" "spec_write capacity bs (queued q) = (ok, queued q')"
proof (cases "length (queued q) + length bs \<le> capacity")
  case True
  then show ?thesis using write_fits [OF assms(1) True] that by (auto simp: spec_write_def)
next
  case False
  then show ?thesis using write_full [OF assms] assms(1) that by (auto simp: spec_write_def)
qed

lemma read_refines:
  assumes "inv q"
  obtains bs q' where "qread n q = (bs, q')" "inv q'" "spec_read n (queued q) = (bs, queued q')"
  using read_front [OF assms, of n] by (auto simp: spec_read_def)

lemma run_refines:
  assumes "inv q" "\<And>bs. Put bs \<in> set ops \<Longrightarrow> length bs + capacity < 2 ^ 32" "run_queue qwrite qread ops q = (w, r, q')"
  shows "inv q' \<and> run_queue (spec_write capacity) spec_read ops (queued q) = (w, r, queued q')"
  using assms
proof (induction ops arbitrary: q w r q')
  case (Cons x ops)
  show ?case
  proof (cases x)
    case (Put bs)
    then have len: "length bs + capacity < 2 ^ 32" using Cons.prems(2) by simp
    obtain ok p where p: "qwrite bs q = (ok, p)" "inv p" "spec_write capacity bs (queued q) = (ok, queued p)"
      by (rule write_refines [OF Cons.prems(1) len])
    obtain w' r' where "run_queue qwrite qread ops p = (w', r', q')" "w = (if ok then bs @ w' else w')" "r = r'"
      using Cons.prems(3) Put p(1) by (auto split: prod.splits)
    then show ?thesis using Cons.IH [OF p(2), of w' r' q'] Cons.prems(2) p(3) Put by simp
  next
    case (Get n)
    obtain bs p where p: "qread n q = (bs, p)" "inv p" "spec_read n (queued q) = (bs, queued p)"
      by (rule read_refines [OF Cons.prems(1)])
    obtain w' r' where "run_queue qwrite qread ops p = (w', r', q')" "w = w'" "r = bs @ r'"
      using Cons.prems(3) Get p(1) by (auto split: prod.splits)
    then show ?thesis using Cons.IH [OF p(2), of w' r' q'] Cons.prems(2) p(3) Get by simp
  qed
qed simp

end

section \<open>The ring buffer is a bounded queue of bytes\<close>

definition ring_ok :: "unix_ring_t \<Rightarrow> bool" where
  "ring_ok rb \<longleftrightarrow> length (rb_data rb) = UNIX_BUF_SIZE \<and> unat (rb_head rb) < UNIX_BUF_SIZE \<and> unat (rb_count rb) \<le> UNIX_BUF_SIZE
     \<and> unat (rb_tail rb) = (unat (rb_head rb) + unat (rb_count rb)) mod UNIX_BUF_SIZE"

definition ring_bytes :: "unix_ring_t \<Rightarrow> u8 list" where
  "ring_bytes rb = map (\<lambda>k. rb_data rb ! ((unat (rb_head rb) + k) mod UNIX_BUF_SIZE)) [0..<unat (rb_count rb)]"

lemma rb_next_unat: "unat (rb_next i) = (unat i + 1) mod UNIX_BUF_SIZE"
proof -
  have m: "unat (x mod 8192) = unat x mod 8192" for x :: u32 by (simp add: unat_mod_distrib)
  show ?thesis
  proof (cases "i + 1 = 0")
    case True
    then have "i = -1" by (simp add: eq_neg_iff_add_eq_0)
    then show ?thesis by (simp add: rb_next_def unsigned_minus_1_eq_mask mask_eq_exp_minus_1)
  next
    case False
    then show ?thesis using unatSuc [of i] by (simp add: rb_next_def m add.commute)
  qed
qed

text \<open>Generalised to a cursor: \<open>n\<close> bytes starting at the head are in the buffer.\<close>

definition arc :: "u8 list \<Rightarrow> nat \<Rightarrow> nat \<Rightarrow> u8 list" where
  "arc xs h n = map (\<lambda>k. xs ! ((h + k) mod UNIX_BUF_SIZE)) [0..<n]"

lemma arc_Suc: "arc xs h (Suc n) = xs ! (h mod UNIX_BUF_SIZE) # arc xs (h + 1) n"
  by (simp add: arc_def upt_conv_Cons map_Suc_upt [symmetric] del: upt_Suc)

lemma arc_snoc: "arc xs h (Suc n) = arc xs h n @ [xs ! ((h + n) mod UNIX_BUF_SIZE)]"
  by (simp add: arc_def)

lemma arc_mod: "arc xs (h mod UNIX_BUF_SIZE) n = arc xs h n"
  by (simp add: arc_def mod_add_left_eq)

lemma arc_upd:
  assumes "length xs = UNIX_BUF_SIZE" "n < UNIX_BUF_SIZE"
  shows "arc (xs[(h + n) mod UNIX_BUF_SIZE := b]) h (Suc n) = arc xs h n @ [b]"
proof -
  have ne: "(h + k) mod 8192 \<noteq> (h + n) mod 8192" if "k < n" for k
  proof
    assume "(h + k) mod 8192 = (h + n) mod 8192"
    then have "8192 dvd (n - k)" using that
      by (metis add_diff_cancel_left less_imp_le_nat mod_eq_dvd_iff_nat nat_add_left_cancel_le)
    then show False using that assms(2) by (auto dest: dvd_imp_le)
  qed
  have "arc (xs[(h + n) mod 8192 := b]) h n = arc xs h n"
    unfolding arc_def by (rule map_cong) (auto simp: ne [symmetric] nth_list_update_neq dest: ne)
  then show ?thesis using assms by (simp add: arc_snoc)
qed

lemma fold_put:
  assumes "length (rb_data rb) = UNIX_BUF_SIZE" "unat (rb_tail rb) = (h + n) mod UNIX_BUF_SIZE" "n + length bs \<le> UNIX_BUF_SIZE"
  shows "let rb' = fold rb_put bs rb in length (rb_data rb') = UNIX_BUF_SIZE \<and> rb_head rb' = rb_head rb \<and> rb_count rb' = rb_count rb
    \<and> unat (rb_tail rb') = (h + n + length bs) mod UNIX_BUF_SIZE
    \<and> arc (rb_data rb') h (n + length bs) = arc (rb_data rb) h n @ bs"
  using assms
proof (induction bs arbitrary: rb n)
  case (Cons b bs)
  let ?rb = "rb_put b rb"
  have 1: "length (rb_data ?rb) = 8192" "unat (rb_tail ?rb) = (h + Suc n) mod 8192" "Suc n + length bs \<le> 8192"
    using Cons.prems by (auto simp: rb_put_def rb_next_unat mod_Suc_eq)
  have "arc (rb_data ?rb) h (Suc n) = arc (rb_data rb) h n @ [b]"
    using arc_upd [OF Cons.prems(1), of n h b] Cons.prems by (simp add: rb_put_def)
  then show ?case using Cons.IH [OF 1] by (simp add: Let_def rb_put_def)
qed (simp add: Let_def)

lemma rb_take_arc:
  assumes "unat (rb_head rb) = h mod UNIX_BUF_SIZE"
  shows "fst (rb_take n rb) = arc (rb_data rb) h n \<and> rb_data (snd (rb_take n rb)) = rb_data rb \<and> rb_count (snd (rb_take n rb)) = rb_count rb
    \<and> rb_tail (snd (rb_take n rb)) = rb_tail rb \<and> unat (rb_head (snd (rb_take n rb))) = (h + n) mod UNIX_BUF_SIZE"
  using assms
proof (induction n arbitrary: rb h)
  case (Suc n)
  have "unat (rb_head (rb\<lparr>rb_head := rb_next (rb_head rb)\<rparr>)) = (h + 1) mod 8192"
    using Suc.prems by (simp add: rb_next_unat mod_Suc_eq)
  from Suc.IH [OF this] show ?case using Suc.prems by (simp add: arc_Suc split_beta)
qed (simp add: arc_def)

lemma arc_split: "arc xs h (m + n) = arc xs h m @ arc xs (h + m) n"
  by (induction n) (simp_all add: arc_snoc arc_def [of _ _ 0] add.assoc)

lemma ring_bytes_arc: "ring_bytes rb = arc (rb_data rb) (unat (rb_head rb)) (unat (rb_count rb))"
  by (simp add: ring_bytes_def arc_def)

lemma arc_0 [simp]: "arc xs h 0 = []"
  by (simp add: arc_def)

lemma arc_length [simp]: "length (arc xs h n) = n"
  by (simp add: arc_def)

lemma rb_write_fits:
  assumes ok: "ring_ok rb" and fits: "length (ring_bytes rb) + length bs \<le> UNIX_BUF_SIZE"
  shows "\<exists>rb'. rb_write bs rb = (True, rb') \<and> ring_ok rb' \<and> ring_bytes rb' = ring_bytes rb @ bs"
proof -
  let ?n = "unat (rb_count rb)" and ?rb = "fold rb_put bs rb"
  have n: "?n + length bs \<le> 8192" using fits by (simp add: ring_bytes_arc)
  have c: "unat (rb_count rb + of_nat (length bs)) = ?n + length bs"
    using n by (simp add: unat_word_ariths unat_of_nat)
  then have le: "\<not> rb_count rb + of_nat (length bs) > of_nat 8192" using n by (simp add: word_less_nat_alt)
  have f: "length (rb_data ?rb) = 8192" "rb_head ?rb = rb_head rb" "rb_count ?rb = rb_count rb"
      "unat (rb_tail ?rb) = (unat (rb_head rb) + ?n + length bs) mod 8192"
      "arc (rb_data ?rb) (unat (rb_head rb)) (?n + length bs) = arc (rb_data rb) (unat (rb_head rb)) ?n @ bs"
    using fold_put [of rb "unat (rb_head rb)" ?n bs] ok n by (auto simp: ring_ok_def Let_def)
  let ?rb' = "?rb\<lparr>rb_count := rb_count ?rb + of_nat (length bs)\<rparr>"
  have "rb_write bs rb = (True, ?rb')" using le by (simp add: rb_write_def Let_def)
  moreover have "ring_ok ?rb'" using ok f c n by (simp add: ring_ok_def add.assoc)
  moreover have "ring_bytes ?rb' = ring_bytes rb @ bs" using f c by (simp add: ring_bytes_arc)
  ultimately show ?thesis by blast
qed

lemma rb_write_full:
  assumes ok: "ring_ok rb" and len: "length bs + UNIX_BUF_SIZE < 2 ^ 32" and full: "UNIX_BUF_SIZE < length (ring_bytes rb) + length bs"
  shows "rb_write bs rb = (False, rb)"
proof -
  have n: "unat (rb_count rb) \<le> 8192" using ok by (simp add: ring_ok_def)
  then have "unat (rb_count rb + of_nat (length bs)) = unat (rb_count rb) + length bs"
    using len by (simp add: unat_word_ariths unat_of_nat)
  then show ?thesis using full by (simp add: rb_write_def word_less_nat_alt ring_bytes_arc)
qed

lemma rb_read_front:
  assumes ok: "ring_ok rb"
  shows "\<exists>rb'. rb_read n rb = (take (unat n) (ring_bytes rb), rb') \<and> ring_ok rb' \<and> ring_bytes rb' = drop (unat n) (ring_bytes rb)"
proof -
  let ?c = "unat (rb_count rb)" and ?h = "unat (rb_head rb)"
  let ?n = "if n < rb_count rb then n else rb_count rb"
  let ?rb = "snd (rb_take (unat ?n) rb)" and ?rb' = "(snd (rb_take (unat ?n) rb))\<lparr>rb_count := rb_count rb - ?n\<rparr>"
  have k: "unat ?n = min (unat n) ?c" by (simp add: word_less_nat_alt min_def)
  have h: "?h = ?h mod 8192" using ok by (simp add: ring_ok_def)
  have t: "fst (rb_take (unat ?n) rb) = arc (rb_data rb) ?h (unat ?n)" "rb_data ?rb = rb_data rb" "rb_count ?rb = rb_count rb"
      "rb_tail ?rb = rb_tail rb" "unat (rb_head ?rb) = (?h + unat ?n) mod 8192"
    using rb_take_arc [OF h, of "unat ?n"] by auto
  have c: "unat (rb_count rb - ?n) = ?c - min (unat n) ?c"
    using k by (simp add: unat_sub word_le_nat_alt)
  have sp: "arc (rb_data rb) ?h ?c = arc (rb_data rb) ?h (min (unat n) ?c) @ arc (rb_data rb) (?h + min (unat n) ?c) (?c - min (unat n) ?c)"
    using arc_split [of "rb_data rb" ?h "min (unat n) ?c" "?c - min (unat n) ?c"] by simp
  have "rb_read n rb = (take (unat n) (ring_bytes rb), ?rb')"
    unfolding ring_bytes_arc sp using t k by (cases "unat n \<le> ?c") (simp_all add: rb_read_def Let_def split_beta)
  moreover have "ring_ok ?rb'"
  proof -
    let ?k = "min (unat n) ?c"
    have "((?h + ?k) mod 8192 + (?c - ?k)) mod 8192 = (?h + ?k + (?c - ?k)) mod 8192" by (rule mod_add_left_eq)
    then have "((?h + ?k) mod 8192 + (?c - ?k)) mod 8192 = (?h + ?c) mod 8192" by simp
    moreover have "?c - ?k \<le> 8192" using ok by (intro order_trans [OF diff_le_self]) (simp add: ring_ok_def)
    ultimately show ?thesis using ok t c k by (simp add: ring_ok_def del: Nat.add_diff_assoc)
  qed
  moreover have "ring_bytes ?rb' = drop (unat n) (ring_bytes rb)"
    unfolding ring_bytes_arc sp using t c k by (cases "unat n \<le> ?c") (simp_all add: arc_mod)
  ultimately show ?thesis by blast
qed

interpretation rbq: byte_queue rb_write rb_read ring_bytes ring_ok 8192
  by unfold_locales (simp add: ring_bytes_arc ring_ok_def, rule rb_write_fits, assumption+, rule rb_write_full, assumption+, rule rb_read_front, assumption)

lemma zero_ring_ok [simp]: "ring_ok zero_ring" "ring_bytes zero_ring = []"
  by (simp_all add: zero_ring_def ring_ok_def ring_bytes_def)

end
