(* ===== verification/Proc.thy ===== *)
theory Proc
  imports User
begin

text \<open>
  Processes, \<^verbatim>\<open>src/kernel/proc/proc.c\<close> and \<^verbatim>\<open>proc.h\<close>: the process table, creation, fork,
  termination, waiting, the round-robin scheduler, user memory, the program break and
  the credentials. The state extends that of the user database, so that the calls into
  the user database, the heap and the memory managers are those of the models of these
  parts. Memory reached by a virtual address is the physical memory behind the page
  tables; \<open>None\<close> is a page fault in the kernel (or a heap list that does not end). What is
  assembly or hardware is reduced to its effect on the state: the kernel stack of the
  TSS and the page-table register are fields, a yield is the point where a call stops,
  and a resumed context is the one the scheduler installs.
\<close>

section \<open>Data\<close>

datatype ProcType = PROC_TYPE_KERNEL | PROC_TYPE_USER

datatype ProcState = PROC_UNUSED | PROC_READY | PROC_RUNNING | PROC_ZOMBIE | PROC_BLOCKED

record Proc_t =
  PID :: u32
  PPID :: u32
  Priority :: u32
  CPUTime :: u64
  WaitingFor :: u32
  ExitCode :: u32
  Type :: ProcType
  Owner :: int
  EUID :: int
  SavedUID :: int
  Group :: int
  EGroup :: int
  SavedGID :: int

record Registers =
  r15 :: u64
  r14 :: u64
  r13 :: u64
  r12 :: u64
  r11 :: u64
  r10 :: u64
  r9 :: u64
  r8 :: u64
  rdi :: u64
  rsi :: u64
  rbp :: u64
  rdx :: u64
  rcx :: u64
  rbx :: u64
  rax :: u64
  reg_interrupt :: u64
  reg_error :: u64
  rip :: u64
  reg_cs :: u64
  rflags :: u64
  rsp :: u64
  reg_ss :: u64

record PCB =
  proc :: Proc_t
  pstate :: ProcState
  ctx :: Registers
  address_space :: space_ptr
  kernel_stack_top :: u64
  code_vaddr_start :: u64
  code_vaddr_end :: u64
  stack_vaddr_base :: u64
  stack_vaddr_top :: u64
  heap_vstart :: u64
  heap_vend :: u64
  vfork_parent :: int
  cwd :: string

record proc_sys = user_sys +
  proc_table :: "nat \<Rightarrow> PCB"
  current_proc :: int
  next_pid :: u32
  scheduling_enabled :: bool
  next_user_code_addr :: u64
  current_syscall_frame :: "Registers option"
  kernel_stacks :: "nat \<Rightarrow> u64"
  tss_stack :: u64

abbreviation (input) MAX_PROCESSES :: nat where "MAX_PROCESSES \<equiv> 64"
abbreviation (input) PROC_STACK_SIZE :: u64 where "PROC_STACK_SIZE \<equiv> 8192"
abbreviation (input) USER_CODE_BASE :: u64 where "USER_CODE_BASE \<equiv> 0x00100000"
abbreviation (input) USER_CODE_LIMIT :: u64 where "USER_CODE_LIMIT \<equiv> 0x20000000"
abbreviation (input) USER_STACK_ARENA :: u64 where "USER_STACK_ARENA \<equiv> 0x20000000"
abbreviation (input) USER_STACK_VSIZE :: u64 where "USER_STACK_VSIZE \<equiv> 0x01000000"
abbreviation (input) USER_SPACE_END :: u64 where "USER_SPACE_END \<equiv> 0x0000800000000000"
abbreviation (input) VMM_SCRATCH_VA :: u64 where "VMM_SCRATCH_VA \<equiv> 0xFFFFFFFF80F00000"
abbreviation (input) VMM_USER_PAGE :: u64 where "VMM_USER_PAGE \<equiv> PAGE_PRESENT OR PAGE_WRITE OR PAGE_USER"
abbreviation (input) VMM_KERNEL_PAGE :: u64 where "VMM_KERNEL_PAGE \<equiv> PAGE_PRESENT OR PAGE_WRITE"
abbreviation (input) UID_ROOT :: int where "UID_ROOT \<equiv> 0"

definition zero_proc :: Proc_t where
  "zero_proc = \<lparr>PID = 0, PPID = 0, Priority = 0, CPUTime = 0, WaitingFor = 0, ExitCode = 0, Type = PROC_TYPE_KERNEL,
     Owner = 0, EUID = 0, SavedUID = 0, Group = 0, EGroup = 0, SavedGID = 0\<rparr>"

definition zero_regs :: Registers where
  "zero_regs = \<lparr>r15 = 0, r14 = 0, r13 = 0, r12 = 0, r11 = 0, r10 = 0, r9 = 0, r8 = 0, rdi = 0, rsi = 0, rbp = 0,
     rdx = 0, rcx = 0, rbx = 0, rax = 0, reg_interrupt = 0, reg_error = 0, rip = 0, reg_cs = 0, rflags = 0, rsp = 0, reg_ss = 0\<rparr>"

text \<open>
  \<^verbatim>\<open>memset(pcb, 0, offsetof(PCB, kernel_stack))\<close> clears the fields before the kernel stack;
  \<^verbatim>\<open>memset(pcb, 0, sizeof(PCB))\<close> clears all of them.
\<close>

definition clear_head :: "PCB \<Rightarrow> PCB" where
  "clear_head p = p\<lparr>proc := zero_proc, pstate := PROC_UNUSED, ctx := zero_regs, address_space := SNull\<rparr>"

definition zero_pcb :: PCB where
  "zero_pcb = \<lparr>proc = zero_proc, pstate = PROC_UNUSED, ctx = zero_regs, address_space = SNull, kernel_stack_top = 0,
     code_vaddr_start = 0, code_vaddr_end = 0, stack_vaddr_base = 0, stack_vaddr_top = 0, heap_vstart = 0, heap_vend = 0,
     vfork_parent = 0, cwd = replicate 256 NUL\<rparr>"

definition upd_pcb :: "nat \<Rightarrow> (PCB \<Rightarrow> PCB) \<Rightarrow> 'a proc_sys_scheme \<Rightarrow> 'a proc_sys_scheme" where
  "upd_pcb i f s = s\<lparr>proc_table := (proc_table s)(i := f (proc_table s i))\<rparr>"

definition set_state :: "ProcState \<Rightarrow> PCB \<Rightarrow> PCB" where
  "set_state st p = p\<lparr>pstate := st\<rparr>"

definition upd_proc :: "(Proc_t \<Rightarrow> Proc_t) \<Rightarrow> PCB \<Rightarrow> PCB" where
  "upd_proc f p = p\<lparr>proc := f (proc p)\<rparr>"

definition pcb_space :: "PCB \<Rightarrow> space_ptr" where
  "pcb_space p = (if address_space p \<noteq> SNull then address_space p else SKernel)"

abbreviation current :: "'a proc_sys_scheme \<Rightarrow> nat" where
  "current s \<equiv> nat (current_proc s)"

abbreviation cur_pcb :: "'a proc_sys_scheme \<Rightarrow> PCB" where
  "cur_pcb s \<equiv> proc_table s (current s)"

section \<open>Blocking and termination\<close>

definition proc_find_index :: "int \<Rightarrow> 'a proc_sys_scheme \<Rightarrow> nat option" where
  "proc_find_index pid s = scan (\<lambda>i. PID (proc (proc_table s i)) = word_of_int pid) 0 MAX_PROCESSES"

definition proc_is_blocked :: "int \<Rightarrow> 'a proc_sys_scheme \<Rightarrow> bool" where
  "proc_is_blocked pid s =
     (case proc_find_index pid s of None \<Rightarrow> False | Some i \<Rightarrow> pstate (proc_table s i) = PROC_BLOCKED)"

definition proc_block :: "int \<Rightarrow> 'a proc_sys_scheme \<Rightarrow> 'a proc_sys_scheme" where
  "proc_block pid s =
     (case proc_find_index pid s of None \<Rightarrow> s | Some i \<Rightarrow> upd_pcb i (set_state PROC_BLOCKED) s)"

definition proc_unblock :: "int \<Rightarrow> 'a proc_sys_scheme \<Rightarrow> 'a proc_sys_scheme" where
  "proc_unblock pid s =
     (case proc_find_index pid s of None \<Rightarrow> s | Some i \<Rightarrow> upd_pcb i (set_state PROC_READY) s)"

definition release_pcb :: "nat \<Rightarrow> 'a proc_sys_scheme \<Rightarrow> 'a proc_sys_scheme" where
  "release_pcb i s =
     (let sp = address_space (proc_table s i);
          s = (if sp \<noteq> SNull then upd_pcb i (\<lambda>p. p\<lparr>address_space := SNull\<rparr>) (vmm_destroy_address_space sp s) else s)
      in upd_pcb i clear_head s)"

text \<open>
  \<open>kill_from parent_pid i\<close> is the loop of \<open>proc_kill_children\<close> from slot \<open>i\<close> on. The recursion
  into the children of a child starts a new loop at slot 0.
\<close>

partial_function (option) kill_from :: "u32 \<Rightarrow> nat \<Rightarrow> 'a proc_sys_scheme \<Rightarrow> 'a proc_sys_scheme option" where
  "kill_from parent_pid i s =
     (if i < MAX_PROCESSES then
        (let child = proc_table s i in
         if pstate child = PROC_UNUSED \<or> pstate child = PROC_ZOMBIE then kill_from parent_pid (i + 1) s
         else if PPID (proc child) \<noteq> parent_pid then kill_from parent_pid (i + 1) s
         else do {
           s \<leftarrow> kill_from (PID (proc child)) 0 s;
           kill_from parent_pid (i + 1) (release_pcb i s)
         })
      else Some s)"

definition proc_kill_children :: "u32 \<Rightarrow> 'a proc_sys_scheme \<Rightarrow> 'a proc_sys_scheme option" where
  "proc_kill_children parent_pid s = kill_from parent_pid 0 s"

definition wake_vfork_parent :: "nat \<Rightarrow> 'a proc_sys_scheme \<Rightarrow> 'a proc_sys_scheme" where
  "wake_vfork_parent index s =
     (if vfork_parent (proc_table s index) > 0 then
        (let s = (case proc_find_index (vfork_parent (proc_table s index)) s of
                    None \<Rightarrow> s
                  | Some v \<Rightarrow> if pstate (proc_table s v) = PROC_BLOCKED
                             then upd_pcb v (set_state PROC_READY \<circ> upd_proc (\<lambda>q. q\<lparr>WaitingFor := -1\<rparr>)) s else s)
         in upd_pcb index (\<lambda>p. p\<lparr>address_space := SNull, vfork_parent := -1\<rparr>) s)
      else s)"

definition wake_parent :: "nat \<Rightarrow> u32 \<Rightarrow> 'a proc_sys_scheme \<Rightarrow> 'a proc_sys_scheme" where
  "wake_parent index pid s =
     (case proc_find_index (uint (PPID (proc (proc_table s index)))) s of
        None \<Rightarrow> s
      | Some parent_idx \<Rightarrow>
          if WaitingFor (proc (proc_table s parent_idx)) = pid
          then (let s = upd_pcb parent_idx (upd_proc (\<lambda>q. q\<lparr>WaitingFor := -1\<rparr>)) s
                in proc_unblock (uint (PID (proc (proc_table s parent_idx)))) s)
          else s)"

definition proc_terminate :: "nat \<Rightarrow> u64 \<Rightarrow> 'a proc_sys_scheme \<Rightarrow> 'a proc_sys_scheme option" where
  "proc_terminate index exit_code s =
     do {
       let pid = PID (proc (proc_table s index));
       let s = upd_pcb index (set_state PROC_ZOMBIE \<circ> upd_proc (\<lambda>q. q\<lparr>ExitCode := ucast exit_code\<rparr>)) s;
       s \<leftarrow> proc_kill_children pid s;
       let s = wake_vfork_parent index s;
       Some (wake_parent index pid s)
     }"

definition proc_reap :: "nat \<Rightarrow> 'a proc_sys_scheme \<Rightarrow> 'a proc_sys_scheme" where
  "proc_reap index s = release_pcb index s"

definition page_up :: "u64 \<Rightarrow> u64" where
  "page_up x = (x + of_nat PAGE_SIZE - 1) AND NOT (of_nat PAGE_SIZE - 1)"

definition proc_is_valid_demand_addr :: "u64 \<Rightarrow> 'a proc_sys_scheme \<Rightarrow> bool" where
  "proc_is_valid_demand_addr vaddr s =
     (if current_proc s < 0 then False
      else (let pcb = cur_pcb s in
            if vaddr \<ge> stack_vaddr_base pcb \<and> vaddr < stack_vaddr_top pcb then True
            else (let code_fence = page_up (code_vaddr_end pcb) in
                  if vaddr \<ge> code_vaddr_start pcb \<and> vaddr < code_fence then True
                  else if vaddr \<ge> heap_vstart pcb \<and> vaddr < heap_vend pcb then True
                  else False)))"

section \<open>The scheduler\<close>

definition find_next :: "'a proc_sys_scheme \<Rightarrow> nat option" where
  "find_next s =
     map_option (\<lambda>i. nat ((current_proc s + int i) mod int MAX_PROCESSES))
       (scan (\<lambda>i. pstate (proc_table s (nat ((current_proc s + int i) mod int MAX_PROCESSES))) = PROC_READY) 1 (MAX_PROCESSES + 1))"

definition switch_to :: "nat \<Rightarrow> 'a proc_sys_scheme \<Rightarrow> 'a proc_sys_scheme" where
  "switch_to nxt s =
     (let s = upd_pcb nxt (set_state PROC_RUNNING) (s\<lparr>current_proc := int nxt\<rparr>);
          s = s\<lparr>tss_stack := kernel_stack_top (proc_table s nxt)\<rparr>
      in vmm_switch_space (pcb_space (proc_table s nxt)) s)"

definition save_old :: "Registers \<Rightarrow> 'a proc_sys_scheme \<Rightarrow> 'a proc_sys_scheme" where
  "save_old frame s =
     (if current_proc s \<ge> 0 \<and> pstate (cur_pcb s) \<noteq> PROC_UNUSED
      then upd_pcb (current s) (\<lambda>p. (if pstate p = PROC_RUNNING then set_state PROC_READY p else p)\<lparr>ctx := frame\<rparr>) s
      else s)"

definition proc_schedule_interrupt :: "Registers \<Rightarrow> 'a proc_sys_scheme \<Rightarrow> Registers \<times> 'a proc_sys_scheme" where
  "proc_schedule_interrupt frame s =
     (if \<not> scheduling_enabled s then (frame, s)
      else (let s = save_old frame s in
            case find_next s of
              None \<Rightarrow> (frame, s)
            | Some nxt \<Rightarrow> (let s = switch_to nxt s in (ctx (proc_table s nxt), s))))"

text \<open>
  A yield raises the scheduling interrupt; the process continues at this point when it is
  scheduled again.
\<close>

definition proc_yield :: "Registers \<Rightarrow> 'a proc_sys_scheme \<Rightarrow> Registers \<times> 'a proc_sys_scheme" where
  "proc_yield frame s =
     (if \<not> scheduling_enabled s \<or> current_proc s < 0 then (frame, s) else proc_schedule_interrupt frame s)"

definition proc_enter_syscall :: "'a proc_sys_scheme \<Rightarrow> 'a proc_sys_scheme" where
  "proc_enter_syscall s = upd_pcb (current s) (upd_proc (\<lambda>q. q\<lparr>Type := PROC_TYPE_KERNEL\<rparr>)) s"

definition proc_exit_syscall :: "'a proc_sys_scheme \<Rightarrow> 'a proc_sys_scheme" where
  "proc_exit_syscall s = upd_pcb (current s) (upd_proc (\<lambda>q. q\<lparr>Type := PROC_TYPE_USER\<rparr>)) s"

definition proc_start_scheduling :: "'a proc_sys_scheme \<Rightarrow> 'a proc_sys_scheme" where
  "proc_start_scheduling s =
     (let s = s\<lparr>scheduling_enabled := True\<rparr> in
      case scan (\<lambda>i. pstate (proc_table s i) = PROC_READY \<and> Type (proc (proc_table s i)) = PROC_TYPE_USER) 0 MAX_PROCESSES of
        Some i \<Rightarrow> switch_to i s
      | None \<Rightarrow>
          (case scan (\<lambda>i. pstate (proc_table s i) = PROC_READY) 0 MAX_PROCESSES of
             Some i \<Rightarrow> upd_pcb i (set_state PROC_RUNNING) (s\<lparr>current_proc := int i\<rparr>)
           | None \<Rightarrow> s))"

definition proc_exit :: "u64 \<Rightarrow> 'a proc_sys_scheme \<Rightarrow> (Registers option \<times> 'a proc_sys_scheme) option" where
  "proc_exit exit_code s =
     (if current_proc s < 0 then Some (None, s\<lparr>current_proc := -1\<rparr>)
      else do {
        let exiting = current s;
        s \<leftarrow> proc_terminate exiting exit_code s;
        let old_space = address_space (proc_table s exiting);
        (case find_next s of
           None \<Rightarrow>
             let dying = address_space (cur_pcb s);
                 s = (if dying \<noteq> SNull then vmm_destroy_address_space dying (vmm_switch_space SKernel s) else s)
             in Some (None, s\<lparr>current_proc := -1\<rparr>)
         | Some nxt \<Rightarrow>
             let s = switch_to nxt s;
                 s = (if old_space \<noteq> SNull \<and> old_space \<noteq> address_space (proc_table s nxt)
                      then vmm_destroy_address_space old_space s else s)
             in Some (Some (ctx (proc_table s nxt)), s))
      })"

definition proc_update_time :: "u32 \<Rightarrow> 'a proc_sys_scheme \<Rightarrow> 'a proc_sys_scheme" where
  "proc_update_time ticks s =
     (if current_proc s \<ge> 0 then upd_pcb (current s) (upd_proc (\<lambda>q. q\<lparr>CPUTime := CPUTime q + ucast ticks\<rparr>)) s else s)"

definition proc_get_current_pid :: "'a proc_sys_scheme \<Rightarrow> int" where
  "proc_get_current_pid s = (if current_proc s < 0 then -1 else sint (PID (proc (cur_pcb s))))"

text \<open>
  \<open>proc_wait_pid\<close> up to its yield, and the rest of it when the caller runs again.
\<close>

datatype wait_result = WDone u64 | WYield

definition reap_child :: "nat \<Rightarrow> 'a proc_sys_scheme \<Rightarrow> u64 \<times> 'a proc_sys_scheme" where
  "reap_child child_idx s = (ucast (ExitCode (proc (proc_table s child_idx))), proc_reap child_idx s)"

definition proc_wait_pid :: "u64 \<Rightarrow> 'a proc_sys_scheme \<Rightarrow> wait_result \<times> 'a proc_sys_scheme" where
  "proc_wait_pid pid s =
     (case proc_find_index (uint pid) s of
        None \<Rightarrow> (WDone (-1), s)
      | Some child_idx \<Rightarrow>
          if pstate (proc_table s child_idx) \<noteq> PROC_ZOMBIE
          then (case proc_find_index (proc_get_current_pid s) s of
                  None \<Rightarrow> (WDone (-1), s)
                | Some parent_idx \<Rightarrow>
                    (WYield, upd_pcb parent_idx (set_state PROC_BLOCKED \<circ> upd_proc (\<lambda>q. q\<lparr>WaitingFor := ucast pid\<rparr>)) s))
          else (let (r, s) = reap_child child_idx s in (WDone r, s)))"

definition proc_wait_pid_resume :: "u64 \<Rightarrow> 'a proc_sys_scheme \<Rightarrow> u64 \<times> 'a proc_sys_scheme" where
  "proc_wait_pid_resume pid s =
     (case proc_find_index (uint pid) s of None \<Rightarrow> (-1, s) | Some child_idx \<Rightarrow> reap_child child_idx s)"

end
