(* ===== verification/ProcMem.thy ===== *)
theory ProcMem
  imports Proc
begin

text \<open>
  The part of \<^verbatim>\<open>src/kernel/proc/proc.c\<close> that builds and reads user memory: pages of a
  process, copying to and from user space, user stacks, process creation, the program
  break, and fork, vfork and clone.
\<close>

section \<open>Virtual memory accesses\<close>

text \<open>
  An access to a virtual address goes to the physical byte that the page tables of the
  space assign to it; without a mapping it faults.
\<close>

definition mmu :: "'a vmm_scheme \<Rightarrow> space_ptr \<Rightarrow> u64 \<Rightarrow> nat option" where
  "mmu s space va = (let p = fst (vmm_get_physical space va s) in if p = 0 then None else Some (unat p))"

fun virt_write :: "space_ptr \<Rightarrow> u64 \<Rightarrow> u8 list \<Rightarrow> 'a vmm_scheme \<Rightarrow> 'a vmm_scheme option" where
  "virt_write space va [] s = Some s"
| "virt_write space va (b # bs) s =
     (case mmu s space va of
        None \<Rightarrow> None
      | Some a \<Rightarrow> virt_write space (va + 1) bs (s\<lparr>mem := (mem s)(a := b)\<rparr>))"

fun virt_read :: "'a vmm_scheme \<Rightarrow> space_ptr \<Rightarrow> u64 \<Rightarrow> nat \<Rightarrow> u8 list option" where
  "virt_read s space va 0 = Some []"
| "virt_read s space va (Suc n) =
     do { a \<leftarrow> mmu s space va; bs \<leftarrow> virt_read s space (va + 1) n; Some (mem s a # bs) }"

section \<open>Pages of a process\<close>

definition map_user_page ::
    "space_ptr \<Rightarrow> u64 \<Rightarrow> u8 list option \<Rightarrow> nat \<Rightarrow> 'a proc_sys_scheme \<Rightarrow> (bool \<times> 'a proc_sys_scheme) option" where
  "map_user_page proc_space user_va src copy_len s =
     (let (kptr, s) = vmm_alloc_page SKernel VMM_SCRATCH_VA VMM_KERNEL_PAGE s in
      if kptr = 0 then Some (False, s)
      else do {
        s \<leftarrow> (case src of
                Some bs \<Rightarrow> if copy_len > 0 then virt_write SKernel kptr (take copy_len bs) s else Some s
              | None \<Rightarrow> Some s);
        s \<leftarrow> (if copy_len < PAGE_SIZE
              then virt_write SKernel (kptr + of_nat copy_len) (replicate (PAGE_SIZE - copy_len) 0) s else Some s);
        let (phys, s) = vmm_get_physical SKernel VMM_SCRATCH_VA s;
        let s = vmm_unmap SKernel VMM_SCRATCH_VA s;
        let (ok, s) = vmm_map proc_space user_va phys VMM_USER_PAGE s;
        Some (ok, s)
      })"

definition page_off :: "u64 \<Rightarrow> nat" where
  "page_off a = unat (a AND (of_nat PAGE_SIZE - 1))"

definition chunk_len :: "u64 \<Rightarrow> nat \<Rightarrow> nat" where
  "chunk_len a remaining = (let chunk = PAGE_SIZE - page_off a in if chunk > remaining then remaining else chunk)"

lemma page_off_less: "page_off a < PAGE_SIZE"
proof -
  have "a AND (of_nat PAGE_SIZE - 1) = take_bit 12 a" by (simp add: take_bit_eq_mask mask_eq_exp_minus_1 and.commute)
  then show ?thesis by (simp add: page_off_def unat_mod_distrib take_bit_eq_mod)
qed

lemma chunk_len_pos: "0 < n \<Longrightarrow> 0 < chunk_len a n"
  using page_off_less [of a] by (simp add: chunk_len_def Let_def)

function write_chunks :: "space_ptr \<Rightarrow> u64 \<Rightarrow> u8 list \<Rightarrow> 'a proc_sys_scheme \<Rightarrow> (bool \<times> 'a proc_sys_scheme) option" where
  "write_chunks proc_space udst ksrc s =
     (if ksrc = [] then Some (True, s)
      else (let chunk = chunk_len udst (length ksrc);
                page_va = udst AND NOT (of_nat PAGE_SIZE - 1);
                (phys, s) = vmm_get_physical proc_space page_va s
            in if phys = 0 then Some (False, s)
               else (let (ok, s) = vmm_map SKernel VMM_SCRATCH_VA phys VMM_KERNEL_PAGE s in
                     if \<not> ok then Some (False, s)
                     else do {
                       s \<leftarrow> virt_write SKernel (VMM_SCRATCH_VA + of_nat (page_off udst)) (take chunk ksrc) s;
                       let s = vmm_unmap SKernel VMM_SCRATCH_VA s;
                       write_chunks proc_space (udst + of_nat chunk) (drop chunk ksrc) s
                     })))"
  by pat_completeness auto
termination
  by (relation "measure (\<lambda>(proc_space, udst, ksrc, s). length ksrc)") (auto simp: chunk_len_pos)

declare write_chunks.simps [simp del]

definition proc_write_to_user :: "int \<Rightarrow> u64 \<Rightarrow> u8 list option \<Rightarrow> 'a proc_sys_scheme \<Rightarrow> (bool \<times> 'a proc_sys_scheme) option" where
  "proc_write_to_user pid user_dst src s =
     (case src of
        None \<Rightarrow> Some (False, s)
      | Some bs \<Rightarrow>
          if user_dst = 0 \<or> bs = [] then Some (False, s)
          else case proc_find_index pid s of
                 None \<Rightarrow> Some (False, s)
               | Some idx \<Rightarrow>
                   (let proc_space = address_space (proc_table s idx) in
                    if proc_space = SNull then do { s \<leftarrow> virt_write SKernel user_dst bs s; Some (True, s) }
                    else write_chunks proc_space user_dst bs s))"

function read_chunks :: "space_ptr \<Rightarrow> u64 \<Rightarrow> nat \<Rightarrow> u8 list \<Rightarrow> 'a proc_sys_scheme \<Rightarrow> (bool \<times> u8 list \<times> 'a proc_sys_scheme) option" where
  "read_chunks proc_space usrc remaining kdst s =
     (if remaining = 0 then Some (True, kdst, s)
      else (let chunk = chunk_len usrc remaining;
                page_va = usrc AND NOT (of_nat PAGE_SIZE - 1);
                (phys, s) = vmm_get_physical proc_space page_va s
            in if phys = 0 then Some (False, kdst, s)
               else (let (ok, s) = vmm_map SKernel VMM_SCRATCH_VA phys VMM_KERNEL_PAGE s in do {
                       bs \<leftarrow> virt_read s SKernel (VMM_SCRATCH_VA + of_nat (page_off usrc)) chunk;
                       let s = vmm_unmap SKernel VMM_SCRATCH_VA s;
                       read_chunks proc_space (usrc + of_nat chunk) (remaining - chunk) (kdst @ bs) s
                     })))"
  by pat_completeness auto
termination
proof (relation "measure (\<lambda>(proc_space, usrc, remaining, kdst, s). remaining)", goal_cases)
  case (2 sp usrc remaining)
  then show ?case using chunk_len_pos [of remaining usrc] by simp
qed simp

declare read_chunks.simps [simp del]

definition proc_read_from_user :: "int \<Rightarrow> u64 \<Rightarrow> nat \<Rightarrow> 'a proc_sys_scheme \<Rightarrow> (bool \<times> u8 list \<times> 'a proc_sys_scheme) option" where
  "proc_read_from_user pid user_src n s =
     (if user_src = 0 \<or> n = 0 then Some (False, [], s)
      else case proc_find_index pid s of
             None \<Rightarrow> Some (False, [], s)
           | Some idx \<Rightarrow>
               (let proc_space = address_space (proc_table s idx) in
                if proc_space = SNull then do { bs \<leftarrow> virt_read s SKernel user_src n; Some (True, bs, s) }
                else read_chunks proc_space user_src n [] s))"

function write_bytes_to_user :: "space_ptr \<Rightarrow> u64 \<Rightarrow> u8 list \<Rightarrow> 'a proc_sys_scheme \<Rightarrow> (bool \<times> 'a proc_sys_scheme) option" where
  "write_bytes_to_user proc_space dst src s =
     (if src = [] then Some (True, s)
      else (let chunk = chunk_len dst (length src);
                page_va = dst AND NOT (of_nat PAGE_SIZE - 1);
                (phys, s) = vmm_get_physical proc_space page_va s
            in do {
              (phys, s) \<leftarrow> (if phys \<noteq> 0 then Some (phys, s)
                 else do {
                   (ok, s) \<leftarrow> map_user_page proc_space page_va None 0 s;
                   Some (if \<not> ok then (0, s) else vmm_get_physical proc_space page_va s)
                 });
              if phys = 0 then Some (False, s)
              else do {
                let (_, s) = vmm_map SKernel VMM_SCRATCH_VA phys VMM_KERNEL_PAGE s;
                s \<leftarrow> virt_write SKernel (VMM_SCRATCH_VA + of_nat (page_off dst)) (take chunk src) s;
                let s = vmm_unmap SKernel VMM_SCRATCH_VA s;
                write_bytes_to_user proc_space (dst + of_nat chunk) (drop chunk src) s
              }
            }))"
  by pat_completeness auto
termination
  by (relation "measure (\<lambda>(proc_space, dst, src, s). length src)") (auto simp: chunk_len_pos)

declare write_bytes_to_user.simps [simp del]

section \<open>User stacks\<close>

definition free_slot :: "'a proc_sys_scheme \<Rightarrow> nat option" where
  "free_slot s = scan (\<lambda>i. pstate (proc_table s i) = PROC_UNUSED) 0 MAX_PROCESSES"

definition pcb_alloc_slot :: "'a proc_sys_scheme \<Rightarrow> nat option" where
  "pcb_alloc_slot s = free_slot s"

fun map_stack_pages :: "space_ptr \<Rightarrow> u64 \<Rightarrow> nat list \<Rightarrow> 'a proc_sys_scheme \<Rightarrow> (bool \<times> 'a proc_sys_scheme) option" where
  "map_stack_pages proc_space first [] s = Some (True, s)"
| "map_stack_pages proc_space first (p # ps) s =
     do {
       (ok, s) \<leftarrow> map_user_page proc_space (first + of_nat p * of_nat PAGE_SIZE) None 0 s;
       if ok then map_stack_pages proc_space first ps s else Some (False, s)
     }"

text \<open>The result: the slot (\<open>None\<close> for -1), the top and base of the stack and the first stack pointer.\<close>

definition user_map_stack ::
    "space_ptr \<Rightarrow> 'a proc_sys_scheme \<Rightarrow> ((nat \<times> u64 \<times> u64 \<times> u64) option \<times> 'a proc_sys_scheme) option" where
  "user_map_stack proc_space s =
     (case free_slot s of
        None \<Rightarrow> Some (None, s)
      | Some slot \<Rightarrow>
          (let stack_top = USER_STACK_ARENA + of_nat (slot + 1) * USER_STACK_VSIZE;
               stack_base = stack_top - USER_STACK_VSIZE
           in if stack_top > USER_SPACE_END then Some (None, s)
              else do {
                let first_stack_page = (stack_top - 8 * of_nat PAGE_SIZE) AND NOT (of_nat PAGE_SIZE - 1);
                (ok, s) \<leftarrow> map_stack_pages proc_space first_stack_page [0..<8] s;
                Some (if ok then (Some (slot, stack_top, stack_base, (stack_top - 16) AND NOT 0xF), s) else (None, s))
              }))"

definition le_bytes :: "u64 \<Rightarrow> u8 list" where
  "le_bytes v = map (\<lambda>i. ucast (drop_bit (8 * i) v)) [0..<8]"

definition push64_to_space :: "space_ptr \<Rightarrow> u64 \<Rightarrow> u64 \<times> 'a proc_sys_scheme \<Rightarrow> (u64 \<times> 'a proc_sys_scheme) option" where
  "push64_to_space proc_space v =
     (\<lambda>(sp, s). do {
        let sp = sp - 8;
        (_, s) \<leftarrow> write_bytes_to_user proc_space sp (le_bytes v) s;
        Some (sp, s)
      })"

fun push_all :: "space_ptr \<Rightarrow> u64 list \<Rightarrow> u64 \<times> 'a proc_sys_scheme \<Rightarrow> (u64 \<times> 'a proc_sys_scheme) option" where
  "push_all proc_space [] st = Some st"
| "push_all proc_space (v # vs) st = do { st \<leftarrow> push64_to_space proc_space v st; push_all proc_space vs st }"

definition rand_bytes :: "u8 list" where
  "rand_bytes = [1, 2, 3, 4, 5, 6, 7, 8, 9, 10, 11, 12, 13, 14, 15, 16]"

definition setup_user_stack_minimal :: "space_ptr \<Rightarrow> u64 \<Rightarrow> 'a proc_sys_scheme \<Rightarrow> (u64 \<times> 'a proc_sys_scheme) option" where
  "setup_user_stack_minimal proc_space stack_top s =
     do {
       let sp = (stack_top - 16) AND NOT 0xF;
       let sp = sp - 16;
       let rand_ptr = sp;
       (_, s) \<leftarrow> write_bytes_to_user proc_space sp rand_bytes s;
       let sp = sp - 5;
       let name_ptr = sp;
       (_, s) \<leftarrow> write_bytes_to_user proc_space sp (bytes ''prog'' @ [0]) s;
       let sp = sp AND NOT 0xF;
       push_all proc_space [0, 0, rand_ptr, 25, 0x1000, 6, 0, 0, name_ptr, 1] (sp, s)
     }"

fun push_strings :: "space_ptr \<Rightarrow> string list \<Rightarrow> u64 \<times> 'a proc_sys_scheme \<Rightarrow> (u64 list \<times> u64 \<times> 'a proc_sys_scheme) option" where
  "push_strings proc_space [] st = Some ([], st)"
| "push_strings proc_space (str # strs) st =
     do {
       (ptrs, sp, s) \<leftarrow> push_strings proc_space strs st;
       let sp = sp - of_nat (length str + 1);
       (_, s) \<leftarrow> write_bytes_to_user proc_space sp (bytes str @ [0]) s;
       Some (sp # ptrs, sp, s)
     }"

definition setup_user_stack_argv ::
    "space_ptr \<Rightarrow> u64 \<Rightarrow> string list \<Rightarrow> string list \<Rightarrow> 'a proc_sys_scheme \<Rightarrow> (u64 \<times> 'a proc_sys_scheme) option" where
  "setup_user_stack_argv proc_space stack_top argv envp s =
     do {
       let sp = (stack_top - 16) AND NOT 0xF;
       let sp = sp - 16;
       let rand_ptr = sp;
       (_, s) \<leftarrow> write_bytes_to_user proc_space sp rand_bytes s;
       (env_ptrs, s) \<leftarrow> kmalloc (of_nat (length envp + 1) * 8) s;
       (arg_ptrs, s) \<leftarrow> kmalloc (of_nat (length argv + 1) * 8) s;
       if env_ptrs = 0 \<or> arg_ptrs = 0 then do {
         s \<leftarrow> kfree env_ptrs s; s \<leftarrow> kfree arg_ptrs s; Some (sp, s)
       } else do {
         (eps, sp, s) \<leftarrow> push_strings proc_space envp (sp, s);
         (aps, sp, s) \<leftarrow> push_strings proc_space argv (sp, s);
         let sp = sp AND NOT 0xF;
         (sp, s) \<leftarrow> push_all proc_space
            ([0, 0, rand_ptr, 25, 0x1000, 6, 0] @ rev eps @ [0] @ rev aps @ [of_nat (length argv)]) (sp, s);
         s \<leftarrow> kfree env_ptrs s; s \<leftarrow> kfree arg_ptrs s;
         Some (sp, s)
       }
     }"

end
