(* ===== verification/ProcLife.thy ===== *)
theory ProcLife
  imports ProcMem
begin

text \<open>
  The life of processes, from \<^verbatim>\<open>src/kernel/proc/proc.c\<close>: creation from kernel functions,
  kernel code and program images, the program break, the operations on another process
  with their permission check, and fork, vfork and clone. Functions of the source that
  differ only in the owner share one definition.
\<close>

section \<open>Creation\<close>

definition kstack_top :: "'a proc_sys_scheme \<Rightarrow> nat \<Rightarrow> u64" where
  "kstack_top s slot = (kernel_stacks s slot + PROC_STACK_SIZE) AND NOT 0xF"

definition proc_create_internal ::
    "u64 \<Rightarrow> u32 \<Rightarrow> u32 \<Rightarrow> ProcType \<Rightarrow> u64 \<Rightarrow> u64 \<Rightarrow> u64 \<Rightarrow> u64 \<Rightarrow> u64 \<Rightarrow> space_ptr \<Rightarrow> int \<Rightarrow> 'a proc_sys_scheme \<Rightarrow> int \<times> 'a proc_sys_scheme" where
  "proc_create_internal entry priority parent type code_start code_end stack_base stack_top initial_rsp space owner s =
     (case free_slot s of
        None \<Rightarrow> (-1, s)
      | Some slot \<Rightarrow>
          (let group = user_get_gid s owner;
               q = zero_proc\<lparr>PID := next_pid s, WaitingFor := -1, PPID := parent, Priority := priority, Type := type,
                     Owner := owner, EUID := owner, SavedUID := owner, Group := group, EGroup := group, SavedGID := group\<rparr>;
               s = s\<lparr>next_pid := next_pid s + 1\<rparr>;
               p = zero_pcb\<lparr>proc := q, pstate := PROC_READY, address_space := space, vfork_parent := -1,
                     cwd := (replicate 256 NUL)[0 := CHR ''/''], kernel_stack_top := kstack_top s slot\<rparr>;
               c = zero_regs\<lparr>rip := entry, rflags := 0x202\<rparr>;
               p = (if type = PROC_TYPE_KERNEL
                    then p\<lparr>ctx := c\<lparr>reg_cs := 0x08, reg_ss := 0x10, rsp := kstack_top s slot\<rparr>\<rparr>
                    else p\<lparr>ctx := c\<lparr>reg_cs := 0x20 OR 3, reg_ss := 0x18 OR 3, rsp := initial_rsp\<rparr>,
                           code_vaddr_start := code_start, code_vaddr_end := code_end,
                           stack_vaddr_base := stack_base, stack_vaddr_top := stack_top,
                           heap_vstart := page_up code_end, heap_vend := page_up code_end\<rparr>)
           in (sint (PID q), upd_pcb slot (\<lambda>_. p) s)))"

definition proc_create_kernel :: "u64 \<Rightarrow> u32 \<Rightarrow> u32 \<Rightarrow> 'a proc_sys_scheme \<Rightarrow> int \<times> 'a proc_sys_scheme" where
  "proc_create_kernel entry priority parent s =
     proc_create_internal entry priority parent PROC_TYPE_KERNEL 0 0 0 0 0 SNull UID_ROOT s"

definition proc_create_kernel_as :: "int \<Rightarrow> u64 \<Rightarrow> u32 \<Rightarrow> u32 \<Rightarrow> 'a proc_sys_scheme \<Rightarrow> int \<times> 'a proc_sys_scheme" where
  "proc_create_kernel_as owner entry priority parent s =
     (if \<not> user_exists s owner then (-1, s)
      else proc_create_internal entry priority parent PROC_TYPE_KERNEL 0 0 0 0 0 SNull owner s)"

definition proc_init :: "u64 \<Rightarrow> 'a proc_sys_scheme \<Rightarrow> 'a proc_sys_scheme" where
  "proc_init idle s =
     snd (proc_create_kernel idle 0 0
       (s\<lparr>proc_table := (\<lambda>_. zero_pcb), current_proc := -1, next_pid := 1, scheduling_enabled := False,
          next_user_code_addr := USER_CODE_BASE, current_syscall_frame := None\<rparr>))"

text \<open>
  \<open>proc_create_user\<close> copies kernel code to user addresses of the kernel's space; \<open>ktext\<close> is
  the memory of the kernel image.
\<close>

definition copy_len :: "nat \<Rightarrow> nat \<Rightarrow> nat" where
  "copy_len sz off = (if off < sz then (if sz - off < PAGE_SIZE then sz - off else PAGE_SIZE) else 0)"

fun map_code_pages ::
    "(u64 \<Rightarrow> u8) \<Rightarrow> u64 \<Rightarrow> nat \<Rightarrow> u64 \<Rightarrow> nat list \<Rightarrow> 'a proc_sys_scheme \<Rightarrow> (bool \<times> 'a proc_sys_scheme) option" where
  "map_code_pages ktext entry code_size va [] s = Some (True, s)"
| "map_code_pages ktext entry code_size va (k # ks) s =
     (let off = k * PAGE_SIZE;
          (mapped, s) = vmm_alloc_page SKernel (va + of_nat off) VMM_USER_PAGE s
      in if mapped = 0 then Some (False, s)
         else do {
           let n = copy_len code_size off;
           s \<leftarrow> virt_write SKernel (va + of_nat off) (map (\<lambda>i. ktext (entry + of_nat (off + i))) [0..<n]) s;
           s \<leftarrow> (if n < PAGE_SIZE then virt_write SKernel (va + of_nat (off + n)) (replicate (PAGE_SIZE - n) 0) s else Some s);
           map_code_pages ktext entry code_size va ks s
         })"

definition start_user_code :: "int \<Rightarrow> u64 \<Rightarrow> u64 \<Rightarrow> u64 \<Rightarrow> u32 \<Rightarrow> u32 \<Rightarrow> 'a proc_sys_scheme \<Rightarrow> (int \<times> 'a proc_sys_scheme) option" where
  "start_user_code owner user_code_va code_size alloc_size priority parent s =
     do {
       (st, s) \<leftarrow> user_map_stack SKernel s;
       (case st of
          None \<Rightarrow> Some (-1, s)
        | Some (slot, stack_top, stack_base, initial_rsp) \<Rightarrow>
            let (pid, s) = proc_create_internal user_code_va priority parent PROC_TYPE_USER user_code_va
                  (user_code_va + code_size) stack_base stack_top initial_rsp SNull owner s
            in if pid < 0 then Some (-1, s)
               else Some (pid, s\<lparr>next_user_code_addr := user_code_va + alloc_size\<rparr>))
     }"

definition create_user_code ::
    "int \<Rightarrow> (u64 \<Rightarrow> u8) \<Rightarrow> u64 \<Rightarrow> u64 \<Rightarrow> u32 \<Rightarrow> u32 \<Rightarrow> 'a proc_sys_scheme \<Rightarrow> (int \<times> 'a proc_sys_scheme) option" where
  "create_user_code owner ktext entry end_marker priority parent s =
     (if entry = 0 \<or> end_marker = 0 then Some (-1, s)
      else (let code_size = end_marker - entry in
            if code_size = 0 \<or> code_size > USER_CODE_LIMIT - USER_CODE_BASE then Some (-1, s)
            else (let alloc_size = page_up code_size;
                      user_code_va = next_user_code_addr s
                  in if user_code_va + alloc_size \<ge> USER_CODE_LIMIT then Some (-1, s)
                     else do {
                       (ok, s) \<leftarrow> map_code_pages ktext entry (unat code_size) user_code_va [0..<unat alloc_size div PAGE_SIZE] s;
                       if \<not> ok then Some (-1, s)
                       else start_user_code owner user_code_va code_size alloc_size priority parent s
                     })))"

definition proc_create_user ::
    "(u64 \<Rightarrow> u8) \<Rightarrow> u64 \<Rightarrow> u64 \<Rightarrow> u32 \<Rightarrow> u32 \<Rightarrow> 'a proc_sys_scheme \<Rightarrow> (int \<times> 'a proc_sys_scheme) option" where
  "proc_create_user ktext entry end_marker priority parent s = create_user_code UID_ROOT ktext entry end_marker priority parent s"

definition proc_create_user_as ::
    "int \<Rightarrow> (u64 \<Rightarrow> u8) \<Rightarrow> u64 \<Rightarrow> u64 \<Rightarrow> u32 \<Rightarrow> u32 \<Rightarrow> 'a proc_sys_scheme \<Rightarrow> (int \<times> 'a proc_sys_scheme) option" where
  "proc_create_user_as owner ktext entry end_marker priority parent s =
     (if \<not> user_exists s owner then Some (-1, s) else create_user_code owner ktext entry end_marker priority parent s)"

text \<open>The creation from an image; the callers differ in the owner and in the stack they build.\<close>

fun map_image_pages :: "space_ptr \<Rightarrow> u8 list \<Rightarrow> u64 \<Rightarrow> nat list \<Rightarrow> 'a proc_sys_scheme \<Rightarrow> (bool \<times> 'a proc_sys_scheme) option" where
  "map_image_pages proc_space img load_vaddr [] s = Some (True, s)"
| "map_image_pages proc_space img load_vaddr (k # ks) s =
     do {
       let off = k * PAGE_SIZE;
       let src = (if off < length img then Some (drop off img) else None);
       (ok, s) \<leftarrow> map_user_page proc_space (load_vaddr + of_nat off) src (copy_len (length img) off) s;
       if ok then map_image_pages proc_space img load_vaddr ks s
       else Some (False, vmm_destroy_address_space proc_space s)
     }"

definition start_image ::
    "int \<Rightarrow> (space_ptr \<Rightarrow> u64 \<Rightarrow> 'a proc_sys_scheme \<Rightarrow> (u64 \<times> 'a proc_sys_scheme) option) \<Rightarrow> space_ptr \<Rightarrow> u64 \<Rightarrow> u64 \<Rightarrow> u64 \<Rightarrow> u32 \<Rightarrow> u32
      \<Rightarrow> 'a proc_sys_scheme \<Rightarrow> (int \<times> 'a proc_sys_scheme) option" where
  "start_image owner setup proc_space load_vaddr image_size entry_vaddr priority parent s =
     do {
       (st, s) \<leftarrow> user_map_stack proc_space s;
       (case st of
          None \<Rightarrow> Some (-1, vmm_destroy_address_space proc_space s)
        | Some (slot, stack_top, stack_base, _) \<Rightarrow> do {
            (initial_rsp, s) \<leftarrow> setup proc_space stack_top s;
            let (pid, s) = proc_create_internal entry_vaddr priority parent PROC_TYPE_USER load_vaddr
                  (load_vaddr + image_size) stack_base stack_top initial_rsp proc_space owner s;
            if pid < 0 then Some (-1, vmm_destroy_address_space proc_space s) else Some (pid, s)
          })
     }"

definition create_from_image ::
    "int \<Rightarrow> (space_ptr \<Rightarrow> u64 \<Rightarrow> 'a proc_sys_scheme \<Rightarrow> (u64 \<times> 'a proc_sys_scheme) option) \<Rightarrow> u8 list option \<Rightarrow> u64 \<Rightarrow> u64 \<Rightarrow> u32 \<Rightarrow> u32
      \<Rightarrow> 'a proc_sys_scheme \<Rightarrow> (int \<times> 'a proc_sys_scheme) option" where
  "create_from_image owner setup img load_vaddr entry_vaddr priority parent s =
     (case img of
        None \<Rightarrow> Some (-1, s)
      | Some bs \<Rightarrow>
          (let image_size = of_nat (length bs) :: u64; alloc_size = page_up image_size in
           if image_size = 0 then Some (-1, s)
           else if load_vaddr < USER_CODE_BASE \<or> load_vaddr \<ge> USER_CODE_LIMIT then Some (-1, s)
           else if entry_vaddr < load_vaddr \<or> entry_vaddr \<ge> load_vaddr + image_size then Some (-1, s)
           else if load_vaddr + alloc_size > USER_CODE_LIMIT then Some (-1, s)
           else (let (proc_space, s) = vmm_create_address_space s in
                 if proc_space = SNull then Some (-1, s)
                 else do {
                   (ok, s) \<leftarrow> map_image_pages proc_space bs load_vaddr [0..<unat alloc_size div PAGE_SIZE] s;
                   if \<not> ok then Some (-1, s)
                   else start_image owner setup proc_space load_vaddr image_size entry_vaddr priority parent s
                 })))"

definition proc_create_user_image ::
    "u8 list option \<Rightarrow> u64 \<Rightarrow> u64 \<Rightarrow> u32 \<Rightarrow> u32 \<Rightarrow> 'a proc_sys_scheme \<Rightarrow> (int \<times> 'a proc_sys_scheme) option" where
  "proc_create_user_image img load_vaddr entry_vaddr priority parent s =
     create_from_image UID_ROOT setup_user_stack_minimal img load_vaddr entry_vaddr priority parent s"

definition proc_create_user_image_argv ::
    "u8 list option \<Rightarrow> u64 \<Rightarrow> u64 \<Rightarrow> u32 \<Rightarrow> u32 \<Rightarrow> string list \<Rightarrow> string list \<Rightarrow> 'a proc_sys_scheme \<Rightarrow> (int \<times> 'a proc_sys_scheme) option" where
  "proc_create_user_image_argv img load_vaddr entry_vaddr priority parent argv envp s =
     create_from_image UID_ROOT (\<lambda>sp top. setup_user_stack_argv sp top argv envp) img load_vaddr entry_vaddr priority parent s"

definition proc_create_user_image_as ::
    "int \<Rightarrow> u8 list option \<Rightarrow> u64 \<Rightarrow> u64 \<Rightarrow> u32 \<Rightarrow> u32 \<Rightarrow> 'a proc_sys_scheme \<Rightarrow> (int \<times> 'a proc_sys_scheme) option" where
  "proc_create_user_image_as owner img load_vaddr entry_vaddr priority parent s =
     (if \<not> user_exists s owner then Some (-1, s)
      else create_from_image owner setup_user_stack_minimal img load_vaddr entry_vaddr priority parent s)"

section \<open>The program break\<close>

fun brk_grow :: "PCB \<Rightarrow> u64 \<Rightarrow> nat \<Rightarrow> 'a proc_sys_scheme \<Rightarrow> (bool \<times> 'a proc_sys_scheme) option" where
  "brk_grow pcb va 0 s = Some (True, s)"
| "brk_grow pcb va (Suc n) s =
     do {
       (ok, s) \<leftarrow> (if address_space pcb \<noteq> SNull then map_user_page (address_space pcb) va None 0 s
                   else (let (p, s) = vmm_alloc_page SKernel va VMM_USER_PAGE s in Some (p \<noteq> 0, s)));
       if ok then brk_grow pcb (va + of_nat PAGE_SIZE) n s else Some (False, s)
     }"

fun brk_shrink :: "space_ptr \<Rightarrow> u64 \<Rightarrow> nat \<Rightarrow> 'a proc_sys_scheme \<Rightarrow> 'a proc_sys_scheme" where
  "brk_shrink space va 0 s = s"
| "brk_shrink space va (Suc n) s = brk_shrink space (va + of_nat PAGE_SIZE) n (vmm_unmap space va s)"

text \<open>The number of iterations of \<^verbatim>\<open>for (va = from; va < to; va += PAGE_SIZE)\<close> between page boundaries.\<close>

definition pages_between :: "u64 \<Rightarrow> u64 \<Rightarrow> nat" where
  "pages_between lo hi = (unat hi - unat lo) div PAGE_SIZE"

definition proc_brk :: "u64 \<Rightarrow> 'a proc_sys_scheme \<Rightarrow> (u64 \<times> 'a proc_sys_scheme) option" where
  "proc_brk new_brk s =
     (if current_proc s < 0 then Some (-1, s)
      else (let pcb = cur_pcb s in
            if new_brk = 0 then Some (heap_vend pcb, s)
            else (let limit = (if stack_vaddr_base pcb \<noteq> 0 then stack_vaddr_base pcb else USER_CODE_LIMIT) in
                  if new_brk < heap_vstart pcb \<or> new_brk > limit then Some (-1, s)
                  else do {
                    let old_end = heap_vend pcb;
                    let old_page = page_up old_end;
                    let new_page = page_up new_brk;
                    (ok, s) \<leftarrow> (if new_brk > old_end then brk_grow pcb old_page (pages_between old_page new_page) s
                                else if new_brk < old_end
                                then Some (True, brk_shrink (pcb_space pcb) new_page (pages_between new_page old_page) s)
                                else Some (True, s));
                    if \<not> ok then Some (-1, s)
                    else Some (old_end, upd_pcb (current s) (\<lambda>p. p\<lparr>heap_vend := new_brk\<rparr>) s)
                  })))"

definition proc_sbrk :: "int \<Rightarrow> 'a proc_sys_scheme \<Rightarrow> (u64 \<times> 'a proc_sys_scheme) option" where
  "proc_sbrk increment s =
     (if current_proc s < 0 then Some (-1, s)
      else (let pcb = cur_pcb s; old_brk = heap_vend pcb in
            if increment = 0 then Some (old_brk, s)
            else if increment > 0 \<and> old_brk + word_of_int increment < old_brk then Some (-1, s)
            else if increment < 0 \<and> word_of_int (- increment) > old_brk - heap_vstart pcb then Some (-1, s)
            else (let new_brk = (if increment > 0 then old_brk + word_of_int increment else old_brk - word_of_int (- increment)) in do {
                    (r, s) \<leftarrow> proc_brk new_brk s;
                    Some (if r = -1 then (-1, s) else (old_brk, s))
                  })))"

section \<open>Acting on other processes\<close>

definition proc_can_act :: "int \<Rightarrow> int \<Rightarrow> 'a proc_sys_scheme \<Rightarrow> bool" where
  "proc_can_act actor pid s =
     (if \<not> user_exists s actor then False
      else case proc_find_index pid s of
             None \<Rightarrow> False
           | Some idx \<Rightarrow>
               (let owner = Owner (proc (proc_table s idx)) in
                if actor = owner then True else user_get_perm_level s actor < user_get_perm_level s owner))"

definition proc_get_owner :: "int \<Rightarrow> 'a proc_sys_scheme \<Rightarrow> int" where
  "proc_get_owner pid s =
     (case proc_find_index pid s of None \<Rightarrow> -1 | Some idx \<Rightarrow> Owner (proc (proc_table s idx)))"

definition proc_set_owner :: "int \<Rightarrow> int \<Rightarrow> 'a proc_sys_scheme \<Rightarrow> int \<times> 'a proc_sys_scheme" where
  "proc_set_owner pid new_owner s =
     (if \<not> user_exists s new_owner then (-1, s)
      else case proc_find_index pid s of
             None \<Rightarrow> (-1, s)
           | Some idx \<Rightarrow> (0, upd_pcb idx (upd_proc (\<lambda>q. q\<lparr>Owner := new_owner\<rparr>)) s))"

definition proc_kill_as :: "int \<Rightarrow> int \<Rightarrow> 'a proc_sys_scheme \<Rightarrow> (int \<times> 'a proc_sys_scheme) option" where
  "proc_kill_as actor pid s =
     (if \<not> proc_can_act actor pid s then Some (-1, s)
      else case proc_find_index pid s of
             None \<Rightarrow> Some (-1, s)
           | Some idx \<Rightarrow> do { s \<leftarrow> proc_terminate idx 1 s; Some (0, s) })"

definition proc_block_as :: "int \<Rightarrow> int \<Rightarrow> 'a proc_sys_scheme \<Rightarrow> int \<times> 'a proc_sys_scheme" where
  "proc_block_as actor pid s = (if \<not> proc_can_act actor pid s then (-1, s) else (0, proc_block pid s))"

definition proc_unblock_as :: "int \<Rightarrow> int \<Rightarrow> 'a proc_sys_scheme \<Rightarrow> int \<times> 'a proc_sys_scheme" where
  "proc_unblock_as actor pid s = (if \<not> proc_can_act actor pid s then (-1, s) else (0, proc_unblock pid s))"

definition proc_wait_pid_as :: "int \<Rightarrow> u64 \<Rightarrow> 'a proc_sys_scheme \<Rightarrow> wait_result \<times> 'a proc_sys_scheme" where
  "proc_wait_pid_as actor pid s =
     (if \<not> proc_can_act actor (uint pid) s then (WDone (-1), s) else proc_wait_pid pid s)"

section \<open>Fork, vfork and clone\<close>

fun clone_pages :: "space_ptr \<Rightarrow> space_ptr \<Rightarrow> u64 \<Rightarrow> nat \<Rightarrow> 'a proc_sys_scheme \<Rightarrow> (bool \<times> 'a proc_sys_scheme) option" where
  "clone_pages dst src va 0 s = Some (True, s)"
| "clone_pages dst src va (Suc n) s =
     (let (phys_src, s) = vmm_get_physical src va s in
      if phys_src = 0 then clone_pages dst src (va + of_nat PAGE_SIZE) n s
      else (let (ok, s) = vmm_map SKernel VMM_SCRATCH_VA phys_src VMM_KERNEL_PAGE s in
            if \<not> ok then Some (False, s)
            else do {
              page_buf \<leftarrow> virt_read s SKernel VMM_SCRATCH_VA PAGE_SIZE;
              let s = vmm_unmap SKernel VMM_SCRATCH_VA s;
              (ok, s) \<leftarrow> map_user_page dst va (Some page_buf) PAGE_SIZE s;
              if \<not> ok then Some (False, s) else clone_pages dst src (va + of_nat PAGE_SIZE) n s
            }))"

definition page_count :: "u64 \<Rightarrow> u64 \<Rightarrow> nat" where
  "page_count lo hi = (unat hi - unat lo + PAGE_SIZE - 1) div PAGE_SIZE"

definition clone_user_region :: "space_ptr \<Rightarrow> space_ptr \<Rightarrow> u64 \<Rightarrow> u64 \<Rightarrow> 'a proc_sys_scheme \<Rightarrow> (bool \<times> 'a proc_sys_scheme) option" where
  "clone_user_region dst src va_start va_end s =
     do {
       (page_buf, s) \<leftarrow> kmalloc (of_nat PAGE_SIZE) s;
       if page_buf = 0 then Some (False, s)
       else do {
         (ok, s) \<leftarrow> clone_pages dst src va_start (page_count va_start va_end) s;
         s \<leftarrow> kfree page_buf s;
         Some (ok, s)
       }
     }"

definition pcb_copy_layout :: "PCB \<Rightarrow> PCB \<Rightarrow> PCB" where
  "pcb_copy_layout dst src =
     dst\<lparr>code_vaddr_start := code_vaddr_start src, code_vaddr_end := code_vaddr_end src,
         stack_vaddr_base := stack_vaddr_base src, stack_vaddr_top := stack_vaddr_top src,
         heap_vstart := heap_vstart src, heap_vend := heap_vend src\<rparr>"

definition pcb_init_child :: "nat \<Rightarrow> PCB \<Rightarrow> space_ptr \<Rightarrow> Registers \<Rightarrow> 'a proc_sys_scheme \<Rightarrow> 'a proc_sys_scheme" where
  "pcb_init_child slot parent space frame s =
     (let q = zero_proc\<lparr>PID := next_pid s, PPID := PID (proc parent), Priority := Priority (proc parent), WaitingFor := -1,
            Type := Type (proc parent), Owner := Owner (proc parent), EUID := EUID (proc parent), SavedUID := SavedUID (proc parent),
            Group := Group (proc parent), EGroup := EGroup (proc parent), SavedGID := SavedGID (proc parent)\<rparr>;
          s = s\<lparr>next_pid := next_pid s + 1\<rparr>;
          p = (clear_head (proc_table s slot))\<lparr>proc := q, pstate := PROC_READY, address_space := space, vfork_parent := -1,
                kernel_stack_top := kstack_top s slot, ctx := frame\<lparr>rax := 0\<rparr>, cwd := cwd parent\<rparr>
      in upd_pcb slot (\<lambda>_. pcb_copy_layout p parent) s)"

definition clone_space :: "PCB \<Rightarrow> 'a proc_sys_scheme \<Rightarrow> (space_ptr option \<times> 'a proc_sys_scheme) option" where
  "clone_space parent s =
     (if address_space parent = SNull then Some (Some SNull, s)
      else (let (child_space, s) = vmm_create_address_space s in
            if child_space = SNull then Some (None, s)
            else do {
              let src = address_space parent;
              let code_end_pg = page_up (code_vaddr_end parent);
              let heap_end_pg = page_up (heap_vend parent);
              (ok, s) \<leftarrow> (if code_vaddr_start parent < code_end_pg
                          then clone_user_region child_space src (code_vaddr_start parent) code_end_pg s else Some (True, s));
              (ok, s) \<leftarrow> (if ok \<and> stack_vaddr_base parent < stack_vaddr_top parent
                          then clone_user_region child_space src (stack_vaddr_base parent) (stack_vaddr_top parent) s else Some (ok, s));
              (ok, s) \<leftarrow> (if ok \<and> heap_vstart parent < heap_end_pg
                          then clone_user_region child_space src (heap_vstart parent) heap_end_pg s else Some (ok, s));
              Some (if ok then (Some child_space, s) else (None, vmm_destroy_address_space child_space s))
            }))"

definition proc_fork :: "Registers \<Rightarrow> 'a proc_sys_scheme \<Rightarrow> (int \<times> 'a proc_sys_scheme) option" where
  "proc_fork frame s =
     (if current_proc s < 0 then Some (-1, s)
      else case pcb_alloc_slot s of
             None \<Rightarrow> Some (-1, s)
           | Some slot \<Rightarrow> do {
               let parent = cur_pcb s;
               (space, s) \<leftarrow> clone_space parent s;
               (case space of
                  None \<Rightarrow> Some (-1, s)
                | Some child_space \<Rightarrow> Some (sint (next_pid s), pcb_init_child slot parent child_space frame s))
             })"

definition proc_vfork :: "Registers \<Rightarrow> 'a proc_sys_scheme \<Rightarrow> int \<times> 'a proc_sys_scheme" where
  "proc_vfork frame s =
     (if current_proc s < 0 then (-1, s)
      else case pcb_alloc_slot s of
             None \<Rightarrow> (-1, s)
           | Some slot \<Rightarrow>
               (let parent = cur_pcb s;
                    cpid = next_pid s;
                    s = pcb_init_child slot parent (address_space parent) frame s;
                    s = upd_pcb slot (\<lambda>p. p\<lparr>vfork_parent := sint (PID (proc parent))\<rparr>) s;
                    s = upd_pcb (current s) (\<lambda>p. (upd_proc (\<lambda>q. q\<lparr>WaitingFor := cpid\<rparr>) p)
                          \<lparr>ctx := frame\<lparr>rax := ucast cpid\<rparr>, pstate := PROC_BLOCKED\<rparr>) s
                in (sint cpid, s)))"

definition set_child_stack :: "int \<Rightarrow> u64 \<Rightarrow> 'a proc_sys_scheme \<Rightarrow> 'a proc_sys_scheme" where
  "set_child_stack pid child_stack s =
     (if pid > 0 \<and> child_stack \<noteq> 0
      then (case proc_find_index pid s of
              None \<Rightarrow> s
            | Some idx \<Rightarrow> upd_pcb idx (\<lambda>p. p\<lparr>ctx := (ctx p)\<lparr>rsp := child_stack\<rparr>\<rparr>) s)
      else s)"

definition proc_clone :: "Registers \<Rightarrow> u64 \<Rightarrow> u64 \<Rightarrow> 'a proc_sys_scheme \<Rightarrow> (int \<times> 'a proc_sys_scheme) option" where
  "proc_clone frame flags child_stack s =
     (if flags AND 0x4000 \<noteq> 0 then (let (pid, s) = proc_vfork frame s in Some (pid, set_child_stack pid child_stack s))
      else if flags AND 0x100 \<noteq> 0 then
        (if current_proc s < 0 then Some (-1, s)
         else case pcb_alloc_slot s of
                None \<Rightarrow> Some (-1, s)
              | Some slot \<Rightarrow>
                  (let parent = cur_pcb s;
                       cpid = next_pid s;
                       s = pcb_init_child slot parent (address_space parent) frame s;
                       s = (if child_stack \<noteq> 0 then upd_pcb slot (\<lambda>p. p\<lparr>ctx := (ctx p)\<lparr>rsp := child_stack\<rparr>\<rparr>) s else s)
                   in Some (sint cpid, s)))
      else do { (pid, s) \<leftarrow> proc_fork frame s; Some (pid, set_child_stack pid child_stack s) })"

end
