(* ===== verification/Cred.thy ===== *)
theory Cred
  imports ProcLife
begin

text \<open>
  The identity of a process, from \<^verbatim>\<open>src/kernel/proc/proc.c\<close>: real, effective and saved user
  and group ids and the calls that read and change them, the working directory and the
  frame of the current system call.
\<close>

section \<open>Operations\<close>

definition upd_cur :: "(Proc_t \<Rightarrow> Proc_t) \<Rightarrow> 'a proc_sys_scheme \<Rightarrow> 'a proc_sys_scheme" where
  "upd_cur f s = upd_pcb (current s) (upd_proc f) s"

abbreviation cur_proc :: "'a proc_sys_scheme \<Rightarrow> Proc_t" where
  "cur_proc s \<equiv> proc (cur_pcb s)"

definition proc_set_syscall_frame :: "Registers option \<Rightarrow> 'a proc_sys_scheme \<Rightarrow> 'a proc_sys_scheme" where
  "proc_set_syscall_frame frame s = s\<lparr>current_syscall_frame := frame\<rparr>"

definition proc_get_syscall_frame :: "'a proc_sys_scheme \<Rightarrow> Registers option" where
  "proc_get_syscall_frame s = current_syscall_frame s"

definition proc_getppid :: "'a proc_sys_scheme \<Rightarrow> int" where
  "proc_getppid s = (if current_proc s < 0 then -1 else sint (PPID (cur_proc s)))"

definition proc_getuid :: "'a proc_sys_scheme \<Rightarrow> int" where
  "proc_getuid s = (if current_proc s < 0 then -1 else Owner (cur_proc s))"

definition proc_geteuid :: "'a proc_sys_scheme \<Rightarrow> int" where
  "proc_geteuid s = (if current_proc s < 0 then -1 else EUID (cur_proc s))"

definition proc_setuid :: "int \<Rightarrow> 'a proc_sys_scheme \<Rightarrow> int \<times> 'a proc_sys_scheme" where
  "proc_setuid u s =
     (if current_proc s < 0 then (-1, s)
      else (let p = cur_proc s in
            if user_is_root s (EUID p) then (0, upd_cur (\<lambda>q. q\<lparr>Owner := u, EUID := u, SavedUID := u\<rparr>) s)
            else if u = Owner p \<or> u = SavedUID p then (0, upd_cur (\<lambda>q. q\<lparr>EUID := u\<rparr>) s)
            else (-1, s)))"

definition proc_seteuid :: "int \<Rightarrow> 'a proc_sys_scheme \<Rightarrow> int \<times> 'a proc_sys_scheme" where
  "proc_seteuid u s =
     (if current_proc s < 0 then (-1, s)
      else (let p = cur_proc s in
            if user_is_root s (EUID p) then (0, upd_cur (\<lambda>q. q\<lparr>EUID := u\<rparr>) s)
            else if u = Owner p \<or> u = SavedUID p then (0, upd_cur (\<lambda>q. q\<lparr>EUID := u\<rparr>) s)
            else (-1, s)))"

definition proc_setreuid :: "int \<Rightarrow> int \<Rightarrow> 'a proc_sys_scheme \<Rightarrow> int \<times> 'a proc_sys_scheme" where
  "proc_setreuid ruid euid s =
     (if current_proc s < 0 then (-1, s)
      else (let root = user_is_root s (EUID (cur_proc s)); old_r = Owner (cur_proc s) in
            if ruid \<noteq> -1 \<and> \<not> root \<and> ruid \<noteq> Owner (cur_proc s) \<and> ruid \<noteq> EUID (cur_proc s) then (-1, s)
            else (let s = (if ruid \<noteq> -1 then upd_cur (\<lambda>q. q\<lparr>Owner := ruid\<rparr>) s else s) in
                  if euid \<noteq> -1 \<and> \<not> root \<and> euid \<noteq> old_r \<and> euid \<noteq> EUID (cur_proc s) \<and> euid \<noteq> SavedUID (cur_proc s) then (-1, s)
                  else (let s = (if euid \<noteq> -1 then upd_cur (\<lambda>q. q\<lparr>EUID := euid\<rparr>) s else s);
                            s = (if ruid \<noteq> -1 \<or> (euid \<noteq> -1 \<and> euid \<noteq> old_r)
                                 then upd_cur (\<lambda>q. q\<lparr>SavedUID := EUID q\<rparr>) s else s)
                        in (0, s)))))"

definition proc_apply_setuid_exec :: "int \<Rightarrow> u16 \<Rightarrow> 'a proc_sys_scheme \<Rightarrow> int \<times> 'a proc_sys_scheme" where
  "proc_apply_setuid_exec file_owner file_mode s =
     (if current_proc s < 0 then (-1, s)
      else (0, if file_mode AND 0x0800 \<noteq> 0 then upd_cur (\<lambda>q. q\<lparr>SavedUID := file_owner, EUID := file_owner\<rparr>) s else s))"

definition proc_getgid :: "'a proc_sys_scheme \<Rightarrow> int" where
  "proc_getgid s = (if current_proc s < 0 then -1 else Group (cur_proc s))"

definition proc_getegid :: "'a proc_sys_scheme \<Rightarrow> int" where
  "proc_getegid s = (if current_proc s < 0 then -1 else EGroup (cur_proc s))"

definition proc_setgid :: "int \<Rightarrow> 'a proc_sys_scheme \<Rightarrow> int \<times> 'a proc_sys_scheme" where
  "proc_setgid g s =
     (if current_proc s < 0 then (-1, s)
      else (let p = cur_proc s in
            if user_is_root s (EUID p) then (0, upd_cur (\<lambda>q. q\<lparr>Group := g, EGroup := g, SavedGID := g\<rparr>) s)
            else if g = Group p \<or> g = SavedGID p then (0, upd_cur (\<lambda>q. q\<lparr>EGroup := g\<rparr>) s)
            else (-1, s)))"

definition proc_setegid :: "int \<Rightarrow> 'a proc_sys_scheme \<Rightarrow> int \<times> 'a proc_sys_scheme" where
  "proc_setegid g s =
     (if current_proc s < 0 then (-1, s)
      else (let p = cur_proc s in
            if user_is_root s (EUID p) then (0, upd_cur (\<lambda>q. q\<lparr>EGroup := g\<rparr>) s)
            else if g = Group p \<or> g = SavedGID p then (0, upd_cur (\<lambda>q. q\<lparr>EGroup := g\<rparr>) s)
            else (-1, s)))"

definition proc_setregid :: "int \<Rightarrow> int \<Rightarrow> 'a proc_sys_scheme \<Rightarrow> int \<times> 'a proc_sys_scheme" where
  "proc_setregid rgid egid s =
     (if current_proc s < 0 then (-1, s)
      else (let root = user_is_root s (EUID (cur_proc s)); old_r = Group (cur_proc s) in
            if rgid \<noteq> -1 \<and> \<not> root \<and> rgid \<noteq> Group (cur_proc s) \<and> rgid \<noteq> EGroup (cur_proc s) then (-1, s)
            else (let s = (if rgid \<noteq> -1 then upd_cur (\<lambda>q. q\<lparr>Group := rgid\<rparr>) s else s) in
                  if egid \<noteq> -1 \<and> \<not> root \<and> egid \<noteq> old_r \<and> egid \<noteq> EGroup (cur_proc s) \<and> egid \<noteq> SavedGID (cur_proc s) then (-1, s)
                  else (let s = (if egid \<noteq> -1 then upd_cur (\<lambda>q. q\<lparr>EGroup := egid\<rparr>) s else s);
                            s = (if rgid \<noteq> -1 \<or> (egid \<noteq> -1 \<and> egid \<noteq> old_r)
                                 then upd_cur (\<lambda>q. q\<lparr>SavedGID := EGroup q\<rparr>) s else s)
                        in (0, s)))))"

definition proc_setresgid :: "int \<Rightarrow> int \<Rightarrow> int \<Rightarrow> 'a proc_sys_scheme \<Rightarrow> int \<times> 'a proc_sys_scheme" where
  "proc_setresgid rgid egid sgid s =
     (if current_proc s < 0 then (-1, s)
      else (let p = cur_proc s; root = user_is_root s (EUID p); own = {Group p, EGroup p, SavedGID p} in
            if \<not> root \<and> (rgid \<noteq> -1 \<and> rgid \<notin> own \<or> egid \<noteq> -1 \<and> egid \<notin> own \<or> sgid \<noteq> -1 \<and> sgid \<notin> own) then (-1, s)
            else (0, upd_cur (\<lambda>q. q\<lparr>Group := (if rgid \<noteq> -1 then rgid else Group q), EGroup := (if egid \<noteq> -1 then egid else EGroup q),
                                   SavedGID := (if sgid \<noteq> -1 then sgid else SavedGID q)\<rparr>) s)))"

definition proc_getresgid :: "'a proc_sys_scheme \<Rightarrow> (int \<times> int \<times> int) option" where
  "proc_getresgid s =
     (if current_proc s < 0 then None else Some (Group (cur_proc s), EGroup (cur_proc s), SavedGID (cur_proc s)))"

text \<open>\<open>None\<close> is the result -1; otherwise the bytes written to the buffer.\<close>

definition proc_getcwd :: "nat \<Rightarrow> 'a proc_sys_scheme \<Rightarrow> string option" where
  "proc_getcwd sz s =
     (if sz = 0 \<or> current_proc s < 0 then None
      else (let d = cval (cwd (cur_pcb s)) in if length d + 1 > sz then None else Some (d @ [NUL])))"

definition proc_chdir :: "string \<Rightarrow> 'a proc_sys_scheme \<Rightarrow> int \<times> 'a proc_sys_scheme" where
  "proc_chdir path s =
     (if current_proc s < 0 then (-1, s)
      else if length path \<ge> 256 then (-1, s)
      else (0, upd_pcb (current s) (\<lambda>p. p\<lparr>cwd := into_buf path (cwd p)\<rparr>) s))"

end
