(* ===== verification/UnixSocket.thy ===== *)
theory UnixSocket
  imports Ring Cred
begin

text \<open>
  Unix domain sockets, \<^verbatim>\<open>src/kernel/net/unix_socket.c\<close> and \<^verbatim>\<open>unix_socket.h\<close>: the socket table,
  stream connections with a backlog of pending clients, datagrams, and the blocking and
  waking of processes. The state extends that of the processes. A call that gives up the
  processor is modelled up to that point and, under the name with suffix \<open>_resume\<close>, from there
  on; \<open>SBlock\<close> is the result when the process was blocked, \<open>SMore n\<close> when a writer yields with \<open>n\<close>
  bytes written.
\<close>

section \<open>Data\<close>

abbreviation (input) MAX_UNIX_SOCKETS :: nat where "MAX_UNIX_SOCKETS \<equiv> 64"
abbreviation (input) UNIX_BACKLOG_MAX :: int where "UNIX_BACKLOG_MAX \<equiv> 8"
abbreviation (input) UNIX_PATH_MAX :: nat where "UNIX_PATH_MAX \<equiv> 108"
abbreviation (input) SOCK_STREAM :: int where "SOCK_STREAM \<equiv> 1"
abbreviation (input) SOCK_DGRAM :: int where "SOCK_DGRAM \<equiv> 2"

datatype unix_sock_state_t = US_FREE | US_CREATED | US_BOUND | US_LISTENING | US_CONNECTED | US_CLOSED

record unix_pending_t =
  client_sock_id :: int
  client_pid :: int
  accepted :: bool
  peer_sock_id :: int

record unix_socket_t =
  in_use :: bool
  us_state :: unix_sock_state_t
  us_type :: int
  us_path :: string
  peer_id :: int
  rx :: unix_ring_t
  backlog :: "unix_pending_t list"
  backlog_head :: int
  backlog_tail :: int
  backlog_count :: int
  blocked_reader_pid :: int
  owner_pid :: int

record sock_sys = proc_sys +
  sock_table :: "nat \<Rightarrow> unix_socket_t"

datatype sock_result = SDone int | SBlock | SMore nat

definition zero_pending :: unix_pending_t where
  "zero_pending = \<lparr>client_sock_id = 0, client_pid = 0, accepted = False, peer_sock_id = 0\<rparr>"

definition zero_socket :: unix_socket_t where
  "zero_socket = \<lparr>in_use = False, us_state = US_FREE, us_type = 0, us_path = replicate UNIX_PATH_MAX NUL, peer_id = 0,
     rx = zero_ring, backlog = replicate (nat UNIX_BACKLOG_MAX) zero_pending, backlog_head = 0, backlog_tail = 0, backlog_count = 0,
     blocked_reader_pid = 0, owner_pid = 0\<rparr>"

definition upd_sock :: "nat \<Rightarrow> (unix_socket_t \<Rightarrow> unix_socket_t) \<Rightarrow> 'a sock_sys_scheme \<Rightarrow> 'a sock_sys_scheme" where
  "upd_sock i f s = s\<lparr>sock_table := (sock_table s)(i := f (sock_table s i))\<rparr>"

text \<open>\<^verbatim>\<open>strncpy(dest, src, n)\<close> into a character buffer: the first \<open>n\<close> cells are the text, padded with zeros.\<close>

definition strncpy_buf :: "nat \<Rightarrow> string \<Rightarrow> string \<Rightarrow> string" where
  "strncpy_buf n src buf = take n src @ replicate (n - length src) NUL @ drop n buf"

section \<open>Looking up sockets\<close>

definition unix_sock_init :: "'a sock_sys_scheme \<Rightarrow> 'a sock_sys_scheme" where
  "unix_sock_init s = s\<lparr>sock_table := (\<lambda>_. zero_socket\<lparr>peer_id := -1, blocked_reader_pid := -1\<rparr>)\<rparr>"

definition unix_sock_get :: "int \<Rightarrow> 'a sock_sys_scheme \<Rightarrow> nat option" where
  "unix_sock_get sid s =
     (if sid < 0 \<or> sid \<ge> int MAX_UNIX_SOCKETS then None
      else if in_use (sock_table s (nat sid)) then Some (nat sid) else None)"

definition find_listener :: "string \<Rightarrow> 'a sock_sys_scheme \<Rightarrow> nat option" where
  "find_listener path s =
     scan (\<lambda>i. in_use (sock_table s i) \<and> us_state (sock_table s i) = US_LISTENING \<and> cval (us_path (sock_table s i)) = path)
       0 MAX_UNIX_SOCKETS"

definition find_bound :: "string \<Rightarrow> 'a sock_sys_scheme \<Rightarrow> nat option" where
  "find_bound path s =
     scan (\<lambda>i. in_use (sock_table s i) \<and> (us_state (sock_table s i) = US_BOUND \<or> us_state (sock_table s i) = US_LISTENING)
              \<and> cval (us_path (sock_table s i)) = path) 0 MAX_UNIX_SOCKETS"

definition find_free :: "'a sock_sys_scheme \<Rightarrow> nat option" where
  "find_free s = scan (\<lambda>i. \<not> in_use (sock_table s i)) 0 MAX_UNIX_SOCKETS"

definition wake_reader :: "nat \<Rightarrow> 'a sock_sys_scheme \<Rightarrow> 'a sock_sys_scheme" where
  "wake_reader i s =
     (if blocked_reader_pid (sock_table s i) \<ge> 0
      then upd_sock i (\<lambda>k. k\<lparr>blocked_reader_pid := -1\<rparr>) (proc_unblock (blocked_reader_pid (sock_table s i)) s)
      else s)"

section \<open>Creation and destruction\<close>

definition unix_sock_create :: "int \<Rightarrow> 'a sock_sys_scheme \<Rightarrow> int \<times> 'a sock_sys_scheme" where
  "unix_sock_create type s =
     (if type \<noteq> SOCK_STREAM \<and> type \<noteq> SOCK_DGRAM then (-1, s)
      else case find_free s of
             None \<Rightarrow> (-1, s)
           | Some i \<Rightarrow> (int i, upd_sock i (\<lambda>_. zero_socket\<lparr>in_use := True, us_state := US_CREATED, us_type := type, peer_id := -1,
                                blocked_reader_pid := -1, owner_pid := proc_get_current_pid s\<rparr>) s))"

definition pop_backlog :: "unix_socket_t \<Rightarrow> unix_socket_t" where
  "pop_backlog k = k\<lparr>backlog_head := (backlog_head k + 1) mod UNIX_BACKLOG_MAX, backlog_count := backlog_count k - 1\<rparr>"

definition front_pending :: "unix_socket_t \<Rightarrow> unix_pending_t" where
  "front_pending k = backlog k ! nat (backlog_head k)"

definition unblock_client :: "int \<Rightarrow> 'a sock_sys_scheme \<Rightarrow> 'a sock_sys_scheme" where
  "unblock_client pid s = (if pid \<ge> 0 then proc_unblock pid s else s)"

text \<open>The loop over the backlog, \<open>n\<close> being the number of pending clients.\<close>

fun drain_backlog :: "nat \<Rightarrow> nat \<Rightarrow> 'a sock_sys_scheme \<Rightarrow> 'a sock_sys_scheme" where
  "drain_backlog i 0 s = s"
| "drain_backlog i (Suc n) s =
     drain_backlog i n (unblock_client (client_pid (front_pending (sock_table s i))) (upd_sock i pop_backlog s))"

definition close_peer :: "nat \<Rightarrow> 'a sock_sys_scheme \<Rightarrow> 'a sock_sys_scheme" where
  "close_peer i s =
     (if peer_id (sock_table s i) \<ge> 0
      then (let s = (case unix_sock_get (peer_id (sock_table s i)) s of
                       None \<Rightarrow> s
                     | Some p \<Rightarrow> wake_reader p (upd_sock p (\<lambda>k. k\<lparr>us_state := US_CLOSED, peer_id := -1\<rparr>) s))
            in upd_sock i (\<lambda>k. k\<lparr>peer_id := -1\<rparr>) s)
      else s)"

definition unix_sock_destroy :: "int \<Rightarrow> 'a sock_sys_scheme \<Rightarrow> 'a sock_sys_scheme" where
  "unix_sock_destroy sid s =
     (case unix_sock_get sid s of
        None \<Rightarrow> s
      | Some i \<Rightarrow>
          (let s = wake_reader i s;
               s = close_peer i s;
               s = drain_backlog i (nat (backlog_count (sock_table s i))) s
           in upd_sock i (\<lambda>k. k\<lparr>us_state := US_CLOSED, in_use := False\<rparr>) s))"

section \<open>Addresses and connections\<close>

definition unix_sock_bind :: "int \<Rightarrow> string option \<Rightarrow> 'a sock_sys_scheme \<Rightarrow> int \<times> 'a sock_sys_scheme" where
  "unix_sock_bind sid path s =
     (case unix_sock_get sid s of
        None \<Rightarrow> (-1, s)
      | Some i \<Rightarrow>
          if us_state (sock_table s i) \<noteq> US_CREATED then (-1, s)
          else case path of
                 None \<Rightarrow> (-1, s)
               | Some p \<Rightarrow>
                   if p = [] then (-1, s)
                   else if find_bound p s \<noteq> None then (-1, s)
                   else (0, upd_sock i (\<lambda>k. k\<lparr>us_path := (strncpy_buf (UNIX_PATH_MAX - 1) p (us_path k))[UNIX_PATH_MAX - 1 := NUL],
                                            us_state := US_BOUND\<rparr>) s))"

definition unix_sock_listen :: "int \<Rightarrow> 'a sock_sys_scheme \<Rightarrow> int \<times> 'a sock_sys_scheme" where
  "unix_sock_listen sid s =
     (case unix_sock_get sid s of
        None \<Rightarrow> (-1, s)
      | Some i \<Rightarrow>
          if us_type (sock_table s i) \<noteq> SOCK_STREAM then (-1, s)
          else if us_state (sock_table s i) \<noteq> US_BOUND then (-1, s)
          else (0, upd_sock i (\<lambda>k. k\<lparr>us_state := US_LISTENING\<rparr>) s))"

definition block_reader :: "nat \<Rightarrow> 'a sock_sys_scheme \<Rightarrow> 'a sock_sys_scheme" where
  "block_reader i s =
     proc_block (proc_get_current_pid s) (upd_sock i (\<lambda>k. k\<lparr>blocked_reader_pid := proc_get_current_pid s\<rparr>) s)"

definition new_connection :: "nat \<Rightarrow> unix_pending_t \<Rightarrow> 'a sock_sys_scheme \<Rightarrow> unix_socket_t" where
  "new_connection i e s = zero_socket\<lparr>in_use := True, us_state := US_CONNECTED, us_type := us_type (sock_table s i),
     peer_id := client_sock_id e, blocked_reader_pid := -1, owner_pid := proc_get_current_pid s,
     us_path := strncpy_buf (UNIX_PATH_MAX - 1) (cval (us_path (sock_table s i))) (us_path zero_socket)\<rparr>"

definition pair_client :: "int \<Rightarrow> nat \<Rightarrow> 'a sock_sys_scheme \<Rightarrow> 'a sock_sys_scheme" where
  "pair_client client_id n s =
     (case unix_sock_get client_id s of
        None \<Rightarrow> s
      | Some c \<Rightarrow> upd_sock c (\<lambda>k. k\<lparr>us_state := US_CONNECTED, peer_id := int n\<rparr>) s)"

definition accept_pending :: "nat \<Rightarrow> 'a sock_sys_scheme \<Rightarrow> int \<times> 'a sock_sys_scheme" where
  "accept_pending i s =
     (let e = front_pending (sock_table s i);
          s = upd_sock i pop_backlog s
      in case find_free s of
           None \<Rightarrow> (-1, unblock_client (client_pid e) s)
         | Some n \<Rightarrow>
             (let s = upd_sock n (\<lambda>_. new_connection i e s) s;
                  s = pair_client (client_sock_id e) n s
              in (int n, unblock_client (client_pid e) s)))"

text \<open>
  After the yield \<open>accept\<close> makes the same tests as at its start, so that continuing it is
  calling it again.
\<close>

definition unix_sock_accept :: "int \<Rightarrow> 'a sock_sys_scheme \<Rightarrow> sock_result \<times> 'a sock_sys_scheme" where
  "unix_sock_accept sid s =
     (case unix_sock_get sid s of
        None \<Rightarrow> (SDone (-1), s)
      | Some i \<Rightarrow>
          if us_state (sock_table s i) \<noteq> US_LISTENING then (SDone (-1), s)
          else if backlog_count (sock_table s i) = 0 then (SBlock, block_reader i s)
          else (let (r, s) = accept_pending i s in (SDone r, s)))"

definition push_backlog :: "unix_pending_t \<Rightarrow> unix_socket_t \<Rightarrow> unix_socket_t" where
  "push_backlog e k = k\<lparr>backlog := (backlog k)[nat (backlog_tail k) := e], backlog_tail := (backlog_tail k + 1) mod UNIX_BACKLOG_MAX,
     backlog_count := backlog_count k + 1\<rparr>"

definition unix_sock_connect :: "int \<Rightarrow> string \<Rightarrow> 'a sock_sys_scheme \<Rightarrow> sock_result \<times> 'a sock_sys_scheme" where
  "unix_sock_connect sid path s =
     (case unix_sock_get sid s of
        None \<Rightarrow> (SDone (-1), s)
      | Some c \<Rightarrow>
          if us_state (sock_table s c) \<noteq> US_CREATED \<and> us_state (sock_table s c) \<noteq> US_BOUND then (SDone (-1), s)
          else if us_type (sock_table s c) \<noteq> SOCK_STREAM then (SDone (-1), s)
          else case find_listener path s of
                 None \<Rightarrow> (SDone (-1), s)
               | Some v \<Rightarrow>
                   if backlog_count (sock_table s v) \<ge> UNIX_BACKLOG_MAX then (SDone (-1), s)
                   else (let pid = proc_get_current_pid s;
                             s = upd_sock v (push_backlog \<lparr>client_sock_id = sid, client_pid = pid, accepted = False, peer_sock_id = -1\<rparr>) s;
                             s = wake_reader v s
                         in (SBlock, proc_block pid s)))"

definition unix_sock_connect_resume :: "int \<Rightarrow> 'a sock_sys_scheme \<Rightarrow> int" where
  "unix_sock_connect_resume sid s =
     (case unix_sock_get sid s of
        None \<Rightarrow> -1
      | Some c \<Rightarrow> if us_state (sock_table s c) \<noteq> US_CONNECTED then -1 else 0)"

section \<open>Streams\<close>

text \<open>
  The loop of \<open>unix_sock_write\<close> for socket slot \<open>i\<close>, with \<open>n\<close> bytes to write and \<open>w\<close> written. It
  gives up the processor when the buffer of the peer is full and goes on with the loop.
\<close>

definition space_left :: "unix_socket_t \<Rightarrow> nat" where
  "space_left k = unat (of_nat UNIX_BUF_SIZE - rb_count (rx k))"

function write_loop :: "nat \<Rightarrow> u8 list \<Rightarrow> nat \<Rightarrow> nat \<Rightarrow> 'a sock_sys_scheme \<Rightarrow> sock_result \<times> 'a sock_sys_scheme" where
  "write_loop i src n w s =
     (if w < n then
        (case unix_sock_get (peer_id (sock_table s i)) s of
           None \<Rightarrow> (SDone (int w), s)
         | Some p \<Rightarrow>
             if us_state (sock_table s p) = US_CLOSED then (SDone (int w), s)
             else if space_left (sock_table s p) = 0 then (SMore w, s)
             else (let chunk = (if n - w > space_left (sock_table s p) then space_left (sock_table s p) else n - w);
                       s = upd_sock p (\<lambda>k. k\<lparr>rx := snd (rb_write (take chunk (drop w src)) (rx k))\<rparr>) s
                   in write_loop i src n (w + chunk) (wake_reader p s)))
      else (SDone (int w), s))"
  by pat_completeness auto
termination
  by (relation "measure (\<lambda>(i, src, n, w, s). n - w)") auto

declare write_loop.simps [simp del]

definition unix_sock_write :: "int \<Rightarrow> u8 list \<Rightarrow> 'a sock_sys_scheme \<Rightarrow> sock_result \<times> 'a sock_sys_scheme" where
  "unix_sock_write sid src s =
     (case unix_sock_get sid s of
        None \<Rightarrow> (SDone (-1), s)
      | Some i \<Rightarrow>
          if us_state (sock_table s i) \<noteq> US_CONNECTED then (SDone (-1), s)
          else write_loop i src (length src mod 2 ^ 32) 0 s)"

definition unix_sock_write_resume :: "int \<Rightarrow> u8 list \<Rightarrow> nat \<Rightarrow> 'a sock_sys_scheme \<Rightarrow> sock_result \<times> 'a sock_sys_scheme" where
  "unix_sock_write_resume sid src w s = write_loop (nat sid) src (length src mod 2 ^ 32) w s"

definition take_rx :: "nat \<Rightarrow> u32 \<Rightarrow> 'a sock_sys_scheme \<Rightarrow> sock_result \<times> u8 list \<times> 'a sock_sys_scheme" where
  "take_rx i want s =
     (let (bs, r) = rb_read want (rx (sock_table s i))
      in (SDone (int (length bs)), bs, upd_sock i (\<lambda>k. k\<lparr>rx := r\<rparr>) s))"

definition peer_gone :: "nat \<Rightarrow> 'a sock_sys_scheme \<Rightarrow> bool" where
  "peer_gone i s =
     (peer_id (sock_table s i) < 0 \<or> \<not> in_use (sock_table s (nat (peer_id (sock_table s i))))
      \<or> us_state (sock_table s (nat (peer_id (sock_table s i)))) = US_CLOSED)"

definition unix_sock_read_resume :: "int \<Rightarrow> u32 \<Rightarrow> 'a sock_sys_scheme \<Rightarrow> sock_result \<times> u8 list \<times> 'a sock_sys_scheme" where
  "unix_sock_read_resume sid want s =
     (case unix_sock_get sid s of
        None \<Rightarrow> (SDone (-1), [], s)
      | Some i \<Rightarrow>
          if rb_count (rx (sock_table s i)) = 0
          then (if peer_gone i s then (SDone 0, [], s) else (SBlock, [], block_reader i s))
          else take_rx i want s)"

definition unix_sock_read :: "int \<Rightarrow> u32 \<Rightarrow> 'a sock_sys_scheme \<Rightarrow> sock_result \<times> u8 list \<times> 'a sock_sys_scheme" where
  "unix_sock_read sid want s =
     (case unix_sock_get sid s of
        None \<Rightarrow> (SDone (-1), [], s)
      | Some i \<Rightarrow>
          if us_state (sock_table s i) \<noteq> US_CONNECTED \<and> us_state (sock_table s i) \<noteq> US_CLOSED then (SDone (-1), [], s)
          else unix_sock_read_resume sid want s)"

section \<open>Datagrams\<close>

definition unix_sock_sendto :: "int \<Rightarrow> u8 list \<Rightarrow> string \<Rightarrow> 'a sock_sys_scheme \<Rightarrow> int \<times> 'a sock_sys_scheme" where
  "unix_sock_sendto sid src dest_path s =
     (case unix_sock_get sid s of
        None \<Rightarrow> (-1, s)
      | Some i \<Rightarrow>
          if us_type (sock_table s i) \<noteq> SOCK_DGRAM then (-1, s)
          else case find_bound dest_path s of
                 None \<Rightarrow> (-1, s)
               | Some d \<Rightarrow>
                   if length src > space_left (sock_table s d) then (-1, s)
                   else (int (length src), wake_reader d (upd_sock d (\<lambda>k. k\<lparr>rx := snd (rb_write src (rx k))\<rparr>) s)))"

definition unix_sock_recvfrom_resume :: "int \<Rightarrow> u32 \<Rightarrow> 'a sock_sys_scheme \<Rightarrow> sock_result \<times> u8 list \<times> 'a sock_sys_scheme" where
  "unix_sock_recvfrom_resume sid want s =
     (case unix_sock_get sid s of
        None \<Rightarrow> (SDone (-1), [], s)
      | Some i \<Rightarrow>
          if rb_count (rx (sock_table s i)) = 0 then (SBlock, [], block_reader i s) else take_rx i want s)"

definition unix_sock_recvfrom :: "int \<Rightarrow> u32 \<Rightarrow> 'a sock_sys_scheme \<Rightarrow> sock_result \<times> u8 list \<times> 'a sock_sys_scheme" where
  "unix_sock_recvfrom sid want s =
     (case unix_sock_get sid s of
        None \<Rightarrow> (SDone (-1), [], s)
      | Some i \<Rightarrow> if us_type (sock_table s i) \<noteq> SOCK_DGRAM then (SDone (-1), [], s) else unix_sock_recvfrom_resume sid want s)"

end
