(* ===== verification/ProcFrame.thy ===== *)
theory ProcFrame
  imports Cred
begin

text \<open>
  What the operations on user memory leave alone: the process table and every other part
  of the state outside physical memory and the heap.
\<close>

section \<open>What the memory operations leave alone\<close>

text \<open>
  \<open>quiet g\<close>: the observation \<open>g\<close> looks neither at physical memory nor at the heap. All
  operations on user memory keep such observations, in particular the process table.
\<close>

definition quiet :: "('a heap_scheme \<Rightarrow> 'b) \<Rightarrow> bool" where
  "quiet g \<longleftrightarrow> keeps g \<and> (\<forall>s x. g (s\<lparr>hmem := x\<rparr>) = g s) \<and> (\<forall>s x. g (s\<lparr>free_list := x\<rparr>) = g s)
     \<and> (\<forall>s x. g (s\<lparr>heap_initialized := x\<rparr>) = g s) \<and> (\<forall>s x. g (s\<lparr>heap_start := x\<rparr>) = g s)
     \<and> (\<forall>s x. g (s\<lparr>heap_size := x\<rparr>) = g s)"

lemma quietD:
  assumes "quiet g"
  shows "keeps g" "g (s\<lparr>hmem := x\<rparr>) = g s" "g (s\<lparr>free_list := p\<rparr>) = g s" "g (s\<lparr>heap_initialized := b\<rparr>) = g s"
    "g (s\<lparr>heap_start := p\<rparr>) = g s" "g (s\<lparr>heap_size := p\<rparr>) = g s"
  using assms by (auto simp: quiet_def)

lemma quiet_init_heap:
  assumes q: "quiet g"
  shows "g (init_heap s) = g s"
proof -
  let ?s = "s\<lparr>heap_start := HEAP_VIRTUAL_BASE, heap_size := DEFAULT_HEAP_SIZE\<rparr>"
  have "g (s\<lparr>heap_start := a, heap_size := b\<rparr>) = g s" for a b
    using quietD(5) [OF q, of a s] quietD(6) [OF q, of b "s\<lparr>heap_start := a\<rparr>"] by simp
  then have "g (snd (vmm_alloc_pages SKernel v n f ?s)) = g s" for v n f
    using keeps_alloc_page(2) [OF quietD(1) [OF q]] by simp
  then show ?thesis
    by (simp add: init_heap_def Let_def split_beta quietD(2-4) [OF q])
qed

lemma quiet_kmalloc: "quiet g \<Longrightarrow> kmalloc n s = Some (p, t) \<Longrightarrow> g t = g s"
  by (auto simp: kmalloc_def Let_def quietD quiet_init_heap split: if_splits option.splits fit.splits)

lemma quiet_kfree: "quiet g \<Longrightarrow> kfree p s = Some t \<Longrightarrow> g t = g s"
  by (auto simp: kfree_def Let_def quietD split: if_splits option.splits)

lemma keeps_virt_write: "keeps g \<Longrightarrow> virt_write sp va bs s = Some t \<Longrightarrow> g t = g s"
  by (induction sp va bs s rule: virt_write.induct) (auto simp: keepsD split: option.splits)

lemma keeps_snd_eq:
  assumes "keeps g"
  shows "vmm_get_physical sp v s = (x, t) \<Longrightarrow> g t = g s" "vmm_map sp v p f s = (ok, t) \<Longrightarrow> g t = g s"
    "vmm_alloc_page sp v f s = (x, t) \<Longrightarrow> g t = g s" "vmm_create_address_space s = (y, t) \<Longrightarrow> g t = g s"
  using keeps_get_physical [OF assms, of sp v s] keeps_map [OF assms, of sp v p f s] keeps_alloc_page(1) [OF assms, of sp v f s]
    keeps_create [OF assms, of s] by auto

lemma keeps_map_user_page:
  assumes k: "keeps g" and "map_user_page sp va src n s = Some (ok, t)"
  shows "g t = g s"
  using assms(2)
  by (auto simp: map_user_page_def Let_def split_beta bind_eq_Some_conv frame_simps [OF k]
      dest!: keeps_virt_write [OF k] keeps_snd_eq [OF k] split: if_splits option.splits)

lemma keeps_write_bytes:
  assumes k: "keeps g"
  shows "write_bytes_to_user sp dst src s = Some (ok, t) \<Longrightarrow> g t = g s"
proof (induction "length src" arbitrary: dst src s rule: less_induct)
  case less
  show ?case
  proof (cases "src = []")
    case False
    have l: "length (drop (chunk_len dst (length src)) src) < length src" using False by (simp add: chunk_len_pos)
    show ?thesis using less.prems False
      by (subst (asm) write_bytes_to_user.simps)
         (auto simp: Let_def split_beta bind_eq_Some_conv frame_simps [OF k]
           dest!: keeps_virt_write [OF k] keeps_map_user_page [OF k] less.hyps [OF l] keeps_snd_eq [OF k] split: if_splits)
  qed (use less.prems in \<open>simp add: write_bytes_to_user.simps\<close>)
qed

lemma keeps_write_chunks:
  assumes k: "keeps g"
  shows "write_chunks sp dst src s = Some (ok, t) \<Longrightarrow> g t = g s"
proof (induction "length src" arbitrary: dst src s rule: less_induct)
  case less
  show ?case
  proof (cases "src = []")
    case False
    have l: "length (drop (chunk_len dst (length src)) src) < length src" using False by (simp add: chunk_len_pos)
    show ?thesis using less.prems False
      by (subst (asm) write_chunks.simps)
         (auto simp: Let_def split_beta bind_eq_Some_conv frame_simps [OF k]
           dest!: keeps_virt_write [OF k] less.hyps [OF l] keeps_snd_eq [OF k] split: if_splits)
  qed (use less.prems in \<open>simp add: write_chunks.simps\<close>)
qed

lemma keeps_push64: "keeps g \<Longrightarrow> push64_to_space sp v st = Some (a, t) \<Longrightarrow> g t = g (snd st)"
  by (auto simp: push64_to_space_def Let_def bind_eq_Some_conv split: prod.splits dest: keeps_write_bytes)

lemma keeps_push_all: "keeps g \<Longrightarrow> push_all sp vs st = Some (a, t) \<Longrightarrow> g t = g (snd st)"
  by (induction vs arbitrary: st) (auto simp: bind_eq_Some_conv dest: keeps_push64)

lemma keeps_push_strings: "keeps g \<Longrightarrow> push_strings sp strs st = Some (ps, a, t) \<Longrightarrow> g t = g (snd st)"
  by (induction strs arbitrary: ps a t) (auto simp: Let_def bind_eq_Some_conv dest: keeps_write_bytes)

lemma keeps_stack_minimal:
  assumes k: "keeps g"
  shows "setup_user_stack_minimal sp tp s = Some (a, t) \<Longrightarrow> g t = g s"
  by (auto simp: setup_user_stack_minimal_def Let_def bind_eq_Some_conv simp del: push_all.simps
      dest!: keeps_push_all [OF k] keeps_write_bytes [OF k])

lemma quiet_stack_argv:
  assumes q: "quiet g"
  shows "setup_user_stack_argv sp tp argv envp s = Some (a, t) \<Longrightarrow> g t = g s"
  by (auto simp: setup_user_stack_argv_def Let_def bind_eq_Some_conv simp del: push_all.simps push_strings.simps
      dest!: keeps_push_all [OF quietD(1) [OF q]] keeps_push_strings [OF quietD(1) [OF q]] keeps_write_bytes [OF quietD(1) [OF q]]
        quiet_kmalloc [OF q] quiet_kfree [OF q] split: if_splits)

lemma keeps_map_stack:
  assumes k: "keeps g"
  shows "user_map_stack sp s = Some (r, t) \<Longrightarrow> g t = g s"
proof -
  have p: "map_stack_pages sp f ps s = Some (ok, t) \<Longrightarrow> g t = g s" for f ps ok s t
    by (induction ps arbitrary: s) (auto simp: bind_eq_Some_conv dest!: keeps_map_user_page [OF k] split: if_splits)
  show "user_map_stack sp s = Some (r, t) \<Longrightarrow> g t = g s"
    by (auto simp: user_map_stack_def Let_def bind_eq_Some_conv simp del: map_stack_pages.simps upt.simps split: option.splits if_splits dest!: p)
qed

lemma keeps_image_pages:
  assumes k: "keeps g"
  shows "map_image_pages sp bs va ks s = Some (ok, t) \<Longrightarrow> g t = g s"
  by (induction ks arbitrary: s)
     (auto simp: bind_eq_Some_conv Let_def keeps_destroy [OF k] dest!: keeps_map_user_page [OF k] split: if_splits)

lemma keeps_code_pages:
  assumes k: "keeps g"
  shows "map_code_pages ktext entry sz va ks s = Some (ok, t) \<Longrightarrow> g t = g s"
  by (induction ks arbitrary: s)
     (auto simp: bind_eq_Some_conv Let_def split_beta frame_simps [OF k] dest!: keeps_virt_write [OF k] split: if_splits)

lemma keeps_clone_pages:
  assumes k: "keeps g"
  shows "clone_pages dst src va n s = Some (ok, t) \<Longrightarrow> g t = g s"
  by (induction n arbitrary: va s)
     (auto simp: bind_eq_Some_conv Let_def split_beta frame_simps [OF k] dest!: keeps_map_user_page [OF k] split: if_splits)

lemma quiet_clone_region:
  assumes q: "quiet g"
  shows "clone_user_region dst src a b s = Some (ok, t) \<Longrightarrow> g t = g s"
  by (auto simp: clone_user_region_def bind_eq_Some_conv dest!: quiet_kmalloc [OF q] quiet_kfree [OF q] keeps_clone_pages [OF quietD(1) [OF q]]
      split: if_splits)

lemma quiet_clone_space:
  assumes q: "quiet g"
  shows "clone_space parent s = Some (r, t) \<Longrightarrow> g t = g s"
  using quietD(1) [OF q]
  by (auto simp: clone_space_def bind_eq_Some_conv Let_def split_beta frame_simps [OF quietD(1) [OF q]]
      dest!: quiet_clone_region [OF q] split: if_splits)

lemma keeps_brk_grow:
  assumes k: "keeps g"
  shows "brk_grow pcb va n s = Some (ok, t) \<Longrightarrow> g t = g s"
  by (induction n arbitrary: va s)
     (auto simp: bind_eq_Some_conv Let_def split_beta frame_simps [OF k] dest!: keeps_map_user_page [OF k] split: if_splits)

lemma keeps_brk_shrink: "keeps g \<Longrightarrow> g (brk_shrink sp va n s) = g s"
  by (induction n arbitrary: va s) (auto simp: keeps_unmap)

lemma quiet_fields:
  "quiet proc_table" "quiet current_proc" "quiet next_pid" "quiet scheduling_enabled" "quiet next_user_code_addr"
  "quiet current_syscall_frame" "quiet kernel_stacks" "quiet tss_stack" "quiet users" "quiet groups"
  by (simp_all add: quiet_def keeps_def)

lemmas keeps_fields = quiet_fields [THEN quietD(1)]

end
