(* ===== verification/Scheduler.thy ===== *)
theory Scheduler
  imports ProcFrame
begin

text \<open>
  The invariant of the process table and the round-robin scheduler of
  \<^verbatim>\<open>src/kernel/proc/proc.c\<close>: which process an interrupt picks, what it saves and restores, and
  that every ready process gets its turn.
\<close>

section \<open>The invariant of the process table\<close>

definition used :: "PCB \<Rightarrow> bool" where
  "used p \<longleftrightarrow> pstate p \<noteq> PROC_UNUSED"

abbreviation (input) slot_pid :: "(nat \<Rightarrow> PCB) \<Rightarrow> nat \<Rightarrow> u32" where
  "slot_pid pt i \<equiv> PID (proc (pt i))"

abbreviation (input) slot_ppid :: "(nat \<Rightarrow> PCB) \<Rightarrow> nat \<Rightarrow> u32" where
  "slot_ppid pt i \<equiv> PPID (proc (pt i))"

text \<open>
  At most the current process is running; a slot is in use exactly when it has a process
  id; ids are unique and below the next one to give out; a parent is older than its child;
  no free slot waits for a process.
\<close>

definition table_ok :: "(nat \<Rightarrow> PCB) \<Rightarrow> int \<Rightarrow> u32 \<Rightarrow> bool" where
  "table_ok pt c n \<longleftrightarrow>
     -1 \<le> c \<and> c < 64 \<and> 0 < n
     \<and> (\<forall>i<64. pstate (pt i) = PROC_RUNNING \<longrightarrow> int i = c)
     \<and> (\<forall>i<64. used (pt i) \<longleftrightarrow> slot_pid pt i \<noteq> 0)
     \<and> (\<forall>i<64. used (pt i) \<or> WaitingFor (proc (pt i)) = 0)
     \<and> (\<forall>i<64. slot_pid pt i < n)
     \<and> (\<forall>i<64. used (pt i) \<longrightarrow> slot_ppid pt i < slot_pid pt i)
     \<and> (\<forall>i<64. \<forall>j<64. used (pt i) \<longrightarrow> slot_pid pt i = slot_pid pt j \<longrightarrow> i = j)"

definition proc_ok :: "'a proc_sys_scheme \<Rightarrow> bool" where
  "proc_ok s \<longleftrightarrow> table_ok (proc_table s) (current_proc s) (next_pid s)"

lemma table_okD:
  assumes "table_ok pt c n"
  shows "-1 \<le> c" "c < 64" "0 < n"
    "i < 64 \<Longrightarrow> pstate (pt i) = PROC_RUNNING \<Longrightarrow> int i = c"
    "i < 64 \<Longrightarrow> used (pt i) \<longleftrightarrow> slot_pid pt i \<noteq> 0"
    "i < 64 \<Longrightarrow> slot_pid pt i < n"
    "i < 64 \<Longrightarrow> used (pt i) \<Longrightarrow> slot_ppid pt i < slot_pid pt i"
    "i < 64 \<Longrightarrow> j < 64 \<Longrightarrow> used (pt i) \<Longrightarrow> slot_pid pt i = slot_pid pt j \<Longrightarrow> i = j"
    "i < 64 \<Longrightarrow> \<not> used (pt i) \<Longrightarrow> WaitingFor (proc (pt i)) = 0"
  using assms by (auto simp: table_ok_def)

text \<open>Changing slots without touching ids.\<close>

lemma table_ok_same:
  assumes t: "table_ok pt c n"
    and q: "\<And>j. j < 64 \<Longrightarrow> slot_pid qt j = slot_pid pt j \<and> slot_ppid qt j = slot_ppid pt j \<and> used (qt j) = used (pt j)
      \<and> (pstate (qt j) = PROC_RUNNING \<longrightarrow> int j = c) \<and> (used (pt j) \<or> WaitingFor (proc (qt j)) = 0)"
  shows "table_ok qt c n"
  using t q unfolding table_ok_def by (simp add: q)

lemma table_ok_upd:
  assumes t: "table_ok pt c n" and i: "i < 64"
    and f: "PID (proc p) = slot_pid pt i" "PPID (proc p) = slot_ppid pt i" "used p = used (pt i)"
    and r: "pstate p = PROC_RUNNING \<longrightarrow> int i = c"
    and w: "used (pt i) \<or> WaitingFor (proc p) = 0"
  shows "table_ok (pt(i := p)) c n"
  by (rule table_ok_same [OF t]) (use assms table_okD(4,9) [OF t] in auto)

lemma table_ok_clear:
  assumes t: "table_ok pt c n" and i: "i < 64"
  shows "table_ok (pt(i := clear_head p)) c n"
  using t unfolding table_ok_def by (auto simp: used_def clear_head_def zero_proc_def)

lemma table_ok_current:
  assumes t: "table_ok pt c n" and "-1 \<le> d" "d < 64" and "\<And>i. i < 64 \<Longrightarrow> pstate (pt i) \<noteq> PROC_RUNNING"
  shows "table_ok pt d n"
  using assms unfolding table_ok_def by blast

lemma table_ok_new:
  assumes t: "table_ok pt c n" and i: "i < 64" and u: "pstate (pt i) = PROC_UNUSED"
    and p: "PID (proc p) = n" "PPID (proc p) < n" "pstate p = PROC_READY" and n: "n \<noteq> -1"
  shows "table_ok (pt(i := p)) c (n + 1)"
proof -
  have "1 + n \<noteq> 0" using n by (metis add.commute add_eq_0_iff)
  then have n1: "n < n + 1" by (simp add: word_less_nat_alt unatSuc add.commute [of n])
  have z: "0 < n" "n \<noteq> 0" using table_okD(3) [OF t] by auto
  have lt: "slot_pid (pt(i := p)) k < n + 1" if "k < 64" for k
    using p(1) n1 table_okD(6) [OF t that] by auto
  have "int k = c" if "k < 64" "pstate ((pt(i := p)) k) = PROC_RUNNING" for k
    using that p(3) table_okD(4) [OF t] by (auto split: if_splits)
  moreover have "used ((pt(i := p)) k) \<longleftrightarrow> slot_pid (pt(i := p)) k \<noteq> 0" if "k < 64" for k
    using that p z table_okD(5) [OF t that] by (auto simp: used_def)
  moreover have "slot_ppid (pt(i := p)) k < slot_pid (pt(i := p)) k" if "k < 64" "used ((pt(i := p)) k)" for k
    using that p table_okD(7) [OF t] by (auto split: if_splits)
  moreover have "j = k" if "j < 64" "k < 64" "used ((pt(i := p)) j)" "slot_pid (pt(i := p)) j = slot_pid (pt(i := p)) k" for j k
    using that p table_okD(6) [OF t that(1)] table_okD(6) [OF t that(2)] table_okD(8) [OF t that(1,2)] by (auto split: if_splits)
  moreover have "used ((pt(i := p)) k) \<or> WaitingFor (proc ((pt(i := p)) k)) = 0" if "k < 64" for k
    using p table_okD(9) [OF t that] by (auto simp: used_def)
  moreover have "0 < n + 1" using z(1) n1 by (rule order.strict_trans)
  ultimately show ?thesis using table_okD(1,2) [OF t] lt unfolding table_ok_def by blast
qed

section \<open>The scheduler\<close>

definition turn :: "int \<Rightarrow> nat \<Rightarrow> nat" where
  "turn c j = (if int j > c then nat (int j - c) else nat (int j - c + 64))"

lemma turn_bounds: "-1 \<le> c \<Longrightarrow> c < 64 \<Longrightarrow> j < 64 \<Longrightarrow> 1 \<le> turn c j \<and> turn c j \<le> 64"
  by (auto simp: turn_def)

lemma turn_index: "-1 \<le> c \<Longrightarrow> c < 64 \<Longrightarrow> j < 64 \<Longrightarrow> nat ((c + int (turn c j)) mod 64) = j"
proof (cases "int j > c")
  case False
  assume "-1 \<le> c" "c < 64" "j < 64"
  with False have "c + int (turn c j) = int j + 64" by (simp add: turn_def)
  then show ?thesis using \<open>j < 64\<close> by (simp add: mod_pos_pos_trivial)
qed (simp add: turn_def mod_pos_pos_trivial)

lemma index_turn:
  assumes "-1 \<le> c" "c < 64" "1 \<le> i" "i \<le> 64"
  shows "turn c (nat ((c + int i) mod 64)) = i"
proof (cases "c + int i < 64")
  case True
  then have "(c + int i) mod 64 = c + int i" using assms by (simp add: mod_pos_pos_trivial)
  then show ?thesis using assms True by (simp add: turn_def)
next
  case False
  then have "(c + int i) mod 64 = c + int i - 64"
    using assms by (subst minus_mod_self2 [symmetric], intro mod_pos_pos_trivial) auto
  then show ?thesis using assms False by (simp add: turn_def)
qed

abbreviation (input) nth_turn :: "int \<Rightarrow> nat \<Rightarrow> nat" where
  "nth_turn c i \<equiv> nat ((c + int i) mod 64)"

lemma find_next_scan:
  "find_next s = map_option (nth_turn (current_proc s)) (scan (\<lambda>i. pstate (proc_table s (nth_turn (current_proc s) i)) = PROC_READY) 1 65)"
  by (simp only: find_next_def of_nat_numeral) simp

lemma find_next_Some:
  assumes c: "-1 \<le> current_proc s" "current_proc s < 64" and f: "find_next s = Some j"
  shows "j < 64 \<and> pstate (proc_table s j) = PROC_READY
    \<and> (\<forall>k<64. pstate (proc_table s k) = PROC_READY \<longrightarrow> turn (current_proc s) j \<le> turn (current_proc s) k)"
proof -
  let ?c = "current_proc s" and ?ix = "\<lambda>i. nat ((current_proc s + int i) mod 64)"
  from f [unfolded find_next_scan map_option_eq_Some] obtain i where "scan (\<lambda>i. pstate (proc_table s (?ix i)) = PROC_READY) 1 65 = Some i" "?ix i = j"
    by blast
  from scan_SomeD [OF this(1)] this(2)
  have i: "1 \<le> i" "i \<le> 64" "pstate (proc_table s (?ix i)) = PROC_READY" "j = ?ix i"
      and m: "\<And>k. 1 \<le> k \<Longrightarrow> k < i \<Longrightarrow> pstate (proc_table s (?ix k)) \<noteq> PROC_READY"
    by simp_all
  have "turn ?c j \<le> turn ?c k" if k: "k < 64" "pstate (proc_table s k) = PROC_READY" for k
  proof (rule ccontr)
    assume "\<not> turn ?c j \<le> turn ?c k"
    then have "turn ?c k < i" using i c by (simp add: index_turn)
    with m [of "turn ?c k"] k c turn_bounds [OF c k(1)] show False by (simp add: turn_index)
  qed
  then show ?thesis using i by (simp add: nat_less_iff)
qed

lemma find_next_None:
  assumes c: "-1 \<le> current_proc s" "current_proc s < 64" and f: "find_next s = None"
  shows "k < 64 \<Longrightarrow> pstate (proc_table s k) \<noteq> PROC_READY"
proof
  assume k: "k < 64" "pstate (proc_table s k) = PROC_READY"
  have "scan (\<lambda>i. pstate (proc_table s (nth_turn (current_proc s) i)) = PROC_READY) 1 65 = None"
    using f unfolding find_next_scan by (simp only: option.map_disc_iff)
  from this [unfolded scan_None_iff, rule_format, of "turn (current_proc s) k"] turn_bounds [OF c k(1)] k
  show False by (simp add: turn_index [OF c k(1)])
qed

lemma turn_less: "-1 \<le> c \<Longrightarrow> c < 64 \<Longrightarrow> i < 64 \<Longrightarrow> j < 64 \<Longrightarrow> turn c j < turn c i \<Longrightarrow> turn (int j) i < turn c i"
  by (auto simp: turn_def split: if_splits)

lemma turn_inj: "-1 \<le> c \<Longrightarrow> c < 64 \<Longrightarrow> i < 64 \<Longrightarrow> j < 64 \<Longrightarrow> turn c j = turn c i \<Longrightarrow> i = j"
  by (metis turn_index)

lemma upd_pcb_simps [simp]:
  "proc_table (upd_pcb i f s) = (proc_table s)(i := f (proc_table s i))"
  "current_proc (upd_pcb i f s) = current_proc s" "next_pid (upd_pcb i f s) = next_pid s"
  "scheduling_enabled (upd_pcb i f s) = scheduling_enabled s" "tss_stack (upd_pcb i f s) = tss_stack s"
  "cr3 (upd_pcb i f s) = cr3 s" "kernel_stacks (upd_pcb i f s) = kernel_stacks s"
  "users (upd_pcb i f s) = users s" "groups (upd_pcb i f s) = groups s" "mem (upd_pcb i f s) = mem s"
  by (simp_all add: upd_pcb_def)

lemma set_state_simps [simp]:
  "pstate (set_state st p) = st" "proc (set_state st p) = proc p" "ctx (set_state st p) = ctx p"
  "address_space (set_state st p) = address_space p" "kernel_stack_top (set_state st p) = kernel_stack_top p"
  "vfork_parent (set_state st p) = vfork_parent p" "pcb_space (set_state st p) = pcb_space p"
  by (simp_all add: set_state_def pcb_space_def)

lemma upd_proc_simps [simp]:
  "pstate (upd_proc f p) = pstate p" "proc (upd_proc f p) = f (proc p)" "ctx (upd_proc f p) = ctx p"
  "address_space (upd_proc f p) = address_space p" "vfork_parent (upd_proc f p) = vfork_parent p"
  by (simp_all add: upd_proc_def)

lemma pcb_space_not_null [simp]: "pcb_space p \<noteq> SNull"
  by (simp add: pcb_space_def)

lemma space_pml4_simps [simp]:
  "space_pml4 (s\<lparr>proc_table := x\<rparr>) sp = space_pml4 s sp" "space_pml4 (s\<lparr>current_proc := c\<rparr>) sp = space_pml4 s sp"
  "space_pml4 (s\<lparr>tss_stack := k\<rparr>) sp = space_pml4 s sp" "space_pml4 (upd_pcb i f s) sp = space_pml4 s sp"
  by (cases sp; simp add: load_def cell_at_def VIRT_TO_PHYS_def upd_pcb_def)+

lemma switch_to_simps [simp]:
  "proc_table (switch_to j s) = (proc_table s)(j := set_state PROC_RUNNING (proc_table s j))"
  "current_proc (switch_to j s) = int j" "next_pid (switch_to j s) = next_pid s"
  "scheduling_enabled (switch_to j s) = scheduling_enabled s"
  "tss_stack (switch_to j s) = kernel_stack_top (proc_table s j)"
  "cr3 (switch_to j s) = space_pml4 s (pcb_space (proc_table s j))"
  by (simp_all add: switch_to_def vmm_switch_space_def Let_def upd_pcb_def)

definition saved :: "Registers \<Rightarrow> PCB \<Rightarrow> PCB" where
  "saved frame p = (if pstate p = PROC_RUNNING then set_state PROC_READY p else p)\<lparr>ctx := frame\<rparr>"

lemma saved_simps [simp]:
  "proc (saved f p) = proc p" "address_space (saved f p) = address_space p" "ctx (saved f p) = f"
  "pstate (saved f p) = (if pstate p = PROC_RUNNING then PROC_READY else pstate p)"
  "kernel_stack_top (saved f p) = kernel_stack_top p" "pcb_space (saved f p) = pcb_space p"
  by (simp_all add: saved_def set_state_def pcb_space_def)

lemma save_old_simps [simp]:
  "proc_table (save_old f s) = (if current_proc s \<ge> 0 \<and> pstate (cur_pcb s) \<noteq> PROC_UNUSED
     then (proc_table s)(current s := saved f (cur_pcb s)) else proc_table s)"
  "current_proc (save_old f s) = current_proc s" "next_pid (save_old f s) = next_pid s"
  "scheduling_enabled (save_old f s) = scheduling_enabled s" "tss_stack (save_old f s) = tss_stack s"
  "cr3 (save_old f s) = cr3 s" "space_pml4 (save_old f s) sp = space_pml4 s sp"
  by (auto simp: save_old_def saved_def upd_pcb_def)

text \<open>The slots a scheduling decision may choose: the ready ones and the one that runs.\<close>

definition runnable :: "'a proc_sys_scheme \<Rightarrow> nat \<Rightarrow> bool" where
  "runnable s k \<longleftrightarrow> pstate (proc_table s k) \<in> {PROC_READY, PROC_RUNNING}"

lemma save_old_ready:
  assumes "proc_ok s" "k < 64"
  shows "pstate (proc_table (save_old f s) k) = PROC_READY \<longleftrightarrow> runnable s k"
  using assms table_okD(4) [of "proc_table s" "current_proc s" "next_pid s" k]
  by (auto simp: runnable_def proc_ok_def)

definition scheduled :: "Registers \<Rightarrow> 'a proc_sys_scheme \<Rightarrow> nat \<Rightarrow> nat \<Rightarrow> PCB" where
  "scheduled frame s j k =
     (let p = (if int k = current_proc s \<and> used (proc_table s k) then saved frame (proc_table s k) else proc_table s k)
      in if k = j then set_state PROC_RUNNING p else p)"

lemma schedule_None:
  assumes ok: "proc_ok s" and en: "scheduling_enabled s" and none: "\<And>k. k < 64 \<Longrightarrow> \<not> runnable s k"
  shows "proc_schedule_interrupt frame s = (frame, save_old frame s)"
proof -
  have c: "-1 \<le> current_proc s" "current_proc s < 64" using ok by (auto simp: proc_ok_def table_ok_def)
  have "find_next (save_old frame s) = None"
  proof (cases "find_next (save_old frame s)")
    case (Some j)
    with find_next_Some [of "save_old frame s" j] c save_old_ready [OF ok] none show ?thesis by auto
  qed
  then show ?thesis using en by (simp add: proc_schedule_interrupt_def)
qed

lemma schedule_Some:
  assumes ok: "proc_ok s" and en: "scheduling_enabled s" and some: "k < 64" "runnable s k"
  obtains j where "j < 64" "runnable s j" "\<And>k. k < 64 \<Longrightarrow> runnable s k \<Longrightarrow> turn (current_proc s) j \<le> turn (current_proc s) k"
    "proc_schedule_interrupt frame s = (ctx (proc_table (save_old frame s) j), switch_to j (save_old frame s))"
proof -
  have c: "-1 \<le> current_proc (save_old frame s)" "current_proc (save_old frame s) < 64"
    using ok by (auto simp: proc_ok_def table_ok_def)
  obtain j where j: "find_next (save_old frame s) = Some j"
    using find_next_None [OF c _ some(1)] save_old_ready [OF ok some(1)] some(2) by fastforce
  have "proc_schedule_interrupt frame s = (ctx (proc_table (save_old frame s) j), switch_to j (save_old frame s))"
    using en j by (simp add: proc_schedule_interrupt_def)
  moreover have "j < 64" "runnable s j"
    using find_next_Some [OF c j] save_old_ready [OF ok, of j frame] by (simp_all del: save_old_simps(1))
  ultimately show ?thesis using find_next_Some [OF c j]
    by (intro that [of j]) (simp_all add: save_old_ready [OF ok] del: save_old_simps(1))
qed

lemma proc_ok_save_old:
  assumes ok: "proc_ok s"
  shows "proc_ok (save_old f s)"
  using ok table_ok_upd [of "proc_table s" "current_proc s" "next_pid s" "current s" "saved f (cur_pcb s)"]
  by (auto simp: proc_ok_def used_def dest: table_okD(2))

lemma proc_ok_switch:
  assumes ok: "proc_ok s" and j: "j < 64" "used (proc_table s j)" and r: "\<And>k. k < 64 \<Longrightarrow> pstate (proc_table s k) \<noteq> PROC_RUNNING"
  shows "proc_ok (switch_to j s)"
  using table_ok_upd [OF table_ok_current [OF ok [unfolded proc_ok_def], of "int j"], of j "set_state PROC_RUNNING (proc_table s j)"] j r
  by (simp add: proc_ok_def used_def)

lemma save_old_not_running: "proc_ok s \<Longrightarrow> k < 64 \<Longrightarrow> pstate (proc_table (save_old f s) k) \<noteq> PROC_RUNNING"
  using table_okD(4) [of "proc_table s" "current_proc s" "next_pid s" k] by (auto simp: proc_ok_def)

lemma proc_ok_schedule:
  assumes ok: "proc_ok s" and r: "proc_schedule_interrupt f s = (regs, t)"
  shows "proc_ok t"
proof (cases "scheduling_enabled s \<and> (\<exists>k<64. runnable s k)")
  case True
  then obtain k where "k < 64" "runnable s k" by blast
  from schedule_Some [OF ok _ this] True obtain j
    where j: "j < 64" "runnable s j" "proc_schedule_interrupt f s = (ctx (proc_table (save_old f s) j), switch_to j (save_old f s))"
    by metis
  have "used (proc_table (save_old f s) j)" using save_old_ready [OF ok j(1), of f] j(2) by (simp add: used_def del: save_old_simps(1))
  with j r proc_ok_switch [OF proc_ok_save_old [OF ok]] save_old_not_running [OF ok] show ?thesis
    by (simp del: save_old_simps(1))
next
  case False
  then show ?thesis using r ok schedule_None [OF ok, of f] proc_ok_save_old [OF ok, of f]
    by (cases "scheduling_enabled s") (auto simp: proc_schedule_interrupt_def simp del: save_old_simps(1))
qed

text \<open>
  Rounds of scheduling: between two interrupts arbitrary work is done, by the running
  process or the kernel, which keeps the invariant, does not schedule and does not stop
  the process in slot \<open>i\<close>.
\<close>

definition lets_wait :: "nat \<Rightarrow> ('a proc_sys_scheme \<Rightarrow> 'a proc_sys_scheme) \<Rightarrow> bool" where
  "lets_wait i w \<longleftrightarrow> (\<forall>s. proc_ok s \<longrightarrow> proc_ok (w s) \<and> current_proc (w s) = current_proc s
     \<and> scheduling_enabled (w s) = scheduling_enabled s
     \<and> (pstate (proc_table s i) = PROC_READY \<longrightarrow> pstate (proc_table (w s) i) = PROC_READY))"

fun rounds :: "(Registers \<times> ('a proc_sys_scheme \<Rightarrow> 'a proc_sys_scheme)) list \<Rightarrow> 'a proc_sys_scheme \<Rightarrow> 'a proc_sys_scheme" where
  "rounds [] s = s"
| "rounds ((frame, w) # ws) s = rounds ws (snd (proc_schedule_interrupt frame (w s)))"

lemma rounds_reach:
  assumes "proc_ok s" "scheduling_enabled s" "i < 64" "pstate (proc_table s i) = PROC_READY"
    "\<forall>(f, w) \<in> set ws. lets_wait i w" "turn (current_proc s) i \<le> length ws"
  shows "\<exists>k \<le> turn (current_proc s) i. current_proc (rounds (take k ws) s) = int i
    \<and> pstate (proc_table (rounds (take k ws) s) i) = PROC_RUNNING"
  using assms
proof (induction "turn (current_proc s) i" arbitrary: s ws rule: less_induct)
  case less
  have c: "-1 \<le> current_proc s" "current_proc s < 64" using less.prems(1) by (auto simp: proc_ok_def table_ok_def)
  obtain f w ws' where ws: "ws = (f, w) # ws'"
    using less.prems(6) turn_bounds [OF c less.prems(3)] by (cases ws) auto
  define s1 t where "s1 = w s" and "t = snd (proc_schedule_interrupt f s1)"
  have w: "proc_ok s1" "current_proc s1 = current_proc s" "scheduling_enabled s1" "pstate (proc_table s1 i) = PROC_READY"
    using less.prems ws by (auto simp: lets_wait_def s1_def)
  obtain j where j: "j < 64" "turn (current_proc s1) j \<le> turn (current_proc s1) i" and t: "t = switch_to j (save_old f s1)"
    using schedule_Some [OF w(1,3) less.prems(3), of f thesis] w(4) less.prems(3) by (auto simp: runnable_def t_def)
  show ?case
  proof (cases "j = i")
    case True
    then show ?thesis using ws t turn_bounds [OF c less.prems(3)]
      by (intro exI [of _ 1]) (simp add: s1_def t_def del: save_old_simps)
  next
    case False
    have lt: "turn (current_proc t) i < turn (current_proc s) i"
      using turn_less [OF c less.prems(3) j(1)] turn_inj [OF c less.prems(3) j(1)] False j(2) w(2) by (fastforce simp: t)
    have "proc_ok t" using proc_ok_schedule [OF w(1), of f] by (simp add: t_def prod_eq_iff)
    moreover have "pstate (proc_table t i) = PROC_READY" "scheduling_enabled t" using False w by (auto simp: t)
    ultimately obtain k where "k \<le> turn (current_proc t) i" "current_proc (rounds (take k ws') t) = int i"
        "pstate (proc_table (rounds (take k ws') t) i) = PROC_RUNNING"
      using less.hyps [OF lt, of ws'] less.prems lt ws by auto
    then show ?thesis using lt ws by (intro exI [of _ "Suc k"]) (simp add: s1_def t_def)
  qed
qed

end
