(* ===== verification/ProcKill.thy ===== *)
theory ProcKill
  imports Scheduler
begin

text \<open>
  Termination of processes: the recursive removal of descendants ends and removes exactly
  them, and the parents that wait are woken.
\<close>

section \<open>Termination of processes\<close>

definition live :: "PCB \<Rightarrow> bool" where
  "live p \<longleftrightarrow> pstate p \<noteq> PROC_UNUSED \<and> pstate p \<noteq> PROC_ZOMBIE"

text \<open>The live processes below process id \<open>a\<close> in the tree of processes.\<close>

inductive descends :: "(nat \<Rightarrow> PCB) \<Rightarrow> u32 \<Rightarrow> nat \<Rightarrow> bool" for pt where
  child: "j < 64 \<Longrightarrow> live (pt j) \<Longrightarrow> slot_ppid pt j = a \<Longrightarrow> descends pt a j"
| down: "descends pt a k \<Longrightarrow> j < 64 \<Longrightarrow> live (pt j) \<Longrightarrow> slot_ppid pt j = slot_pid pt k \<Longrightarrow> descends pt a j"

lemma clear_head_simps [simp]:
  "pstate (clear_head p) = PROC_UNUSED" "proc (clear_head p) = zero_proc" "address_space (clear_head p) = SNull"
  "clear_head (p\<lparr>address_space := x\<rparr>) = clear_head p" "clear_head (clear_head p) = clear_head p"
  "\<not> live (clear_head p)" "\<not> used (clear_head p)"
  by (simp_all add: clear_head_def live_def used_def)

text \<open>Observations outside memory and the process table.\<close>

definition outside :: "('a proc_sys_scheme \<Rightarrow> 'b) \<Rightarrow> bool" where
  "outside g \<longleftrightarrow> keeps g \<and> (\<forall>s x. g (s\<lparr>proc_table := x\<rparr>) = g s)"

lemma outside_fields:
  "outside current_proc" "outside next_pid" "outside scheduling_enabled" "outside next_user_code_addr" "outside current_syscall_frame"
  "outside kernel_stacks" "outside tss_stack" "outside cr3" "outside users" "outside groups" "outside hmem" "outside kernel_space"
  by (simp_all add: outside_def keeps_def)

lemma outside_upd_pcb: "outside g \<Longrightarrow> g (upd_pcb i f s) = g s"
  by (simp add: outside_def upd_pcb_def)

lemma outside_release_pcb: "outside g \<Longrightarrow> g (release_pcb i s) = g s"
  by (simp add: release_pcb_def Let_def outside_upd_pcb) (simp add: outside_def keeps_destroy)

lemma release_pcb_table [simp]: "proc_table (release_pcb i s) = (proc_table s)(i := clear_head (proc_table s i))"
  by (simp add: release_pcb_def Let_def keeps_destroy [OF keeps_fields(1)])

definition clear_slots :: "nat set \<Rightarrow> (nat \<Rightarrow> PCB) \<Rightarrow> nat \<Rightarrow> PCB" where
  "clear_slots X pt j = (if j \<in> X then clear_head (pt j) else pt j)"

definition below_closed :: "nat set \<Rightarrow> (nat \<Rightarrow> PCB) \<Rightarrow> bool" where
  "below_closed X pt \<longleftrightarrow> (\<forall>k\<in>X. \<forall>j<64. live (pt j) \<longrightarrow> slot_ppid pt j = slot_pid pt k \<longrightarrow> j \<in> X)"

definition doomed :: "(nat \<Rightarrow> PCB) \<Rightarrow> u32 \<Rightarrow> nat \<Rightarrow> nat set" where
  "doomed pt a i = {j. \<exists>k\<ge>i. k < 64 \<and> live (pt k) \<and> slot_ppid pt k = a \<and> (j = k \<or> descends pt (slot_pid pt k) j)}"

lemma clear_slots_simps:
  "live (clear_slots X pt j) \<longleftrightarrow> live (pt j) \<and> j \<notin> X" "j \<notin> X \<Longrightarrow> clear_slots X pt j = pt j"
  by (auto simp: clear_slots_def)

lemma descends_down:
  "descends pt a j \<Longrightarrow> below_closed X pt \<Longrightarrow> (\<And>j. j < 64 \<Longrightarrow> live (pt j) \<Longrightarrow> slot_ppid pt j = a \<Longrightarrow> j \<in> X) \<Longrightarrow> j \<in> X"
  by (induction rule: descends.induct) (auto simp: below_closed_def)

lemma descends_clear1: "descends (clear_slots X pt) a j \<Longrightarrow> descends pt a j \<and> j \<notin> X"
  by (induction rule: descends.induct) (auto simp: clear_slots_simps intro: descends.intros)

lemma descends_clear2: "descends pt a j \<Longrightarrow> below_closed X pt \<Longrightarrow> j \<in> X \<or> descends (clear_slots X pt) a j"
proof (induction rule: descends.induct)
  case (child j a)
  then show ?case by (auto simp: clear_slots_simps intro!: descends.child)
next
  case (down a k j)
  show ?case
  proof (cases "k \<in> X \<or> j \<in> X")
    case False
    then show ?thesis using down by (auto simp: clear_slots_simps intro!: descends.down [of _ _ k])
  qed (use down in \<open>auto simp: below_closed_def\<close>)
qed

lemma doomed_closed:
  "k \<in> X \<Longrightarrow> below_closed X pt \<Longrightarrow> descends pt (slot_pid pt k) j \<Longrightarrow> j \<in> X"
  by (rule descends_down) (auto simp: below_closed_def)

lemma below_closed_insert: "below_closed (insert i {j. descends pt (slot_pid pt i) j}) pt"
  by (auto simp: below_closed_def intro: descends.intros)

lemma doomed_split:
  assumes i: "i < 64" "live (pt i)" "slot_ppid pt i = a"
  defines "X \<equiv> insert i {j. descends pt (slot_pid pt i) j}"
  shows "doomed pt a i = X \<union> doomed (clear_slots X pt) a (Suc i)"
proof (intro set_eqI iffI)
  fix j assume "j \<in> doomed pt a i"
  then obtain k where k: "i \<le> k" "k < 64" "live (pt k)" "slot_ppid pt k = a" "j = k \<or> descends pt (slot_pid pt k) j"
    by (auto simp: doomed_def)
  have cl: "below_closed X pt" unfolding X_def by (rule below_closed_insert)
  show "j \<in> X \<union> doomed (clear_slots X pt) a (Suc i)"
  proof (cases "k \<in> X")
    case True
    then show ?thesis using k(5) doomed_closed [OF True cl] by auto
  next
    case False
    then have "i \<noteq> k" by (auto simp: X_def)
    then have "Suc i \<le> k" using k(1) by simp
    then show ?thesis using k False descends_clear2 [OF _ cl, of "slot_pid pt k" j]
      by (auto simp: doomed_def clear_slots_simps intro!: exI [of _ k])
  qed
next
  fix j assume "j \<in> X \<union> doomed (clear_slots X pt) a (Suc i)"
  then show "j \<in> doomed pt a i"
  proof
    assume "j \<in> X" then show ?thesis using i by (auto simp: X_def doomed_def)
  next
    assume "j \<in> doomed (clear_slots X pt) a (Suc i)"
    then obtain k where k: "Suc i \<le> k" "k < 64" "live (pt k)" "k \<notin> X" "slot_ppid pt k = a"
        "j = k \<or> descends (clear_slots X pt) (slot_pid pt k) j"
      by (auto simp: doomed_def clear_slots_simps)
    then show ?thesis using descends_clear1 by (fastforce simp: doomed_def intro!: exI [of _ k])
  qed
qed

lemma doomed_skip: "\<not> (live (pt i) \<and> slot_ppid pt i = a) \<Longrightarrow> doomed pt a i = doomed pt a (Suc i)"
  unfolding doomed_def by (metis (no_types, lifting) Suc_le_eq le_eq_less_or_eq)

lemma doomed_0: "doomed pt a 0 = {j. descends pt a j}"
proof (intro set_eqI iffI; clarify)
  fix j assume "j \<in> doomed pt a 0"
  then obtain k where k: "k < 64" "live (pt k)" "slot_ppid pt k = a" "j = k \<or> descends pt (slot_pid pt k) j"
    by (auto simp: doomed_def)
  have "descends pt b j \<Longrightarrow> b = slot_pid pt k \<Longrightarrow> descends pt a j" for b
    by (induction rule: descends.induct) (use k in \<open>auto intro: descends.intros\<close>)
  then show "descends pt a j" using k by (auto intro: descends.child)
next
  fix j assume "descends pt a j"
  then show "j \<in> doomed pt a 0"
    by (induction rule: descends.induct) (auto simp: doomed_def intro: descends.intros)
qed

lemma clear_slots_more: "clear_slots (X \<union> Y) pt = clear_slots Y (clear_slots X pt)"
  by (auto simp: clear_slots_def)

text \<open>The loop ends, since a child has a larger id than its parent, and clears the doomed slots.\<close>

lemma kill_from_clears:
  assumes o: "outside g"
  shows "(\<And>j. j < 64 \<Longrightarrow> live (proc_table s j) \<Longrightarrow> slot_ppid (proc_table s) j < slot_pid (proc_table s) j) \<Longrightarrow>
    \<exists>t. kill_from a i s = Some t \<and> proc_table t = clear_slots (doomed (proc_table s) a i) (proc_table s) \<and> g t = g s"
proof (induction "(2 ^ 32 - unat a, 64 - i)" arbitrary: a i s rule: wf_induct_rule [OF wf_lex_prod [OF wf_less_than wf_less_than], case_names less])
  case less
  let ?pt = "proc_table s"
  have IH: "\<exists>t. kill_from b k u = Some t \<and> proc_table t = clear_slots (doomed (proc_table u) b k) (proc_table u) \<and> g t = g u"
    if "((2 ^ 32 - unat b, 64 - k), (2 ^ 32 - unat a, 64 - i)) \<in> less_than <*lex*> less_than"
      "\<And>j. j < 64 \<Longrightarrow> live (proc_table u j) \<Longrightarrow> slot_ppid (proc_table u) j < slot_pid (proc_table u) j" for b k and u :: "'a proc_sys_scheme"
    using less.hyps [OF that(1)] that(2) by blast
  consider "64 \<le> i" | "i < 64" "\<not> (live (?pt i) \<and> slot_ppid ?pt i = a)" | "i < 64" "live (?pt i)" "slot_ppid ?pt i = a" by fastforce
  then show ?case
  proof cases
    case 1
    then have "doomed ?pt a i = {}" by (auto simp: doomed_def)
    then show ?thesis using 1 by (subst kill_from.simps) (auto simp: clear_slots_def)
  next
    case 2
    have "63 - i < 64 - i" using 2 by arith
    then obtain t where "kill_from a (Suc i) s = Some t" "proc_table t = clear_slots (doomed ?pt a (Suc i)) ?pt" "g t = g s"
      using IH [of a "Suc i" s] less.prems 2 by auto
    then show ?thesis using 2 by (subst kill_from.simps) (auto simp: Let_def live_def doomed_skip)
  next
    case 3
    let ?c = "slot_pid ?pt i"
    let ?X = "insert i {j. descends ?pt ?c j}"
    have ac: "unat a < unat ?c" "unat ?c < 2 ^ 32" using less.prems [OF 3(1,2)] 3(3) unsigned_less [of ?c, where ?'a=nat] by (auto simp: word_less_nat_alt)
    then have "2 ^ 32 - unat ?c < 2 ^ 32 - unat a" by (simp only: diff_less_mono2)
    then obtain t where t: "kill_from ?c 0 s = Some t" "proc_table t = clear_slots (doomed ?pt ?c 0) ?pt" "g t = g s"
      using IH [of ?c 0 s] less.prems by auto
    have pt: "proc_table (release_pcb i t) = clear_slots ?X ?pt"
      by (auto simp: t(2) doomed_0 clear_slots_def fun_eq_iff)
    have "63 - i < 64 - i" using 3 by arith
    then obtain u where u: "kill_from a (Suc i) (release_pcb i t) = Some u"
        "proc_table u = clear_slots (doomed (clear_slots ?X ?pt) a (Suc i)) (clear_slots ?X ?pt)" "g u = g s"
      using IH [of a "Suc i" "release_pcb i t"] less.prems 3(1) outside_release_pcb [OF o, of i t] t(3)
      unfolding pt by (auto simp: clear_slots_simps)
    have "proc_table u = clear_slots (doomed ?pt a i) ?pt"
      by (simp only: u(2) doomed_split [of i ?pt a, OF 3] clear_slots_more)
    moreover have "kill_from a i s = Some u"
      using 3 t(1) u(1) by (subst kill_from.simps) (simp add: Let_def live_def)
    ultimately show ?thesis using u(3) by blast
  qed
qed

lemma table_ok_clear_slots: "table_ok pt c n \<Longrightarrow> table_ok (clear_slots X pt) c n"
  unfolding table_ok_def by (auto simp: clear_slots_def zero_proc_def)

lemma find_index_Some:
  "proc_find_index pid s = Some i \<Longrightarrow> i < 64 \<and> slot_pid (proc_table s) i = word_of_int pid"
  by (auto simp: proc_find_index_def dest: scan_SomeD)

lemma find_index_None: "proc_find_index pid s = None \<Longrightarrow> i < 64 \<Longrightarrow> slot_pid (proc_table s) i \<noteq> word_of_int pid"
  by (auto simp: proc_find_index_def scan_None_iff)

lemma find_index_used:
  assumes "proc_ok s" "proc_find_index pid s = Some i" "j < 64" "used (proc_table s j)" "slot_pid (proc_table s) j = word_of_int pid"
  shows "i = j"
  using assms find_index_Some [OF assms(2)] table_okD(8) [of "proc_table s" _ _ j i] by (auto simp: proc_ok_def)

lemma find_index_eq:
  assumes "proc_ok s" "j < 64" "used (proc_table s j)" "slot_pid (proc_table s) j = word_of_int pid"
  shows "proc_find_index pid s = Some j"
  using assms find_index_used [of s pid _ j] find_index_None [of pid s j] by (cases "proc_find_index pid s") auto

definition woken :: "PCB \<Rightarrow> PCB" where
  "woken p = set_state PROC_READY (upd_proc (\<lambda>q. q\<lparr>WaitingFor := -1\<rparr>) p)"

lemma woken_simps [simp]:
  "pstate (woken p) = PROC_READY" "PID (proc (woken p)) = PID (proc p)" "PPID (proc (woken p)) = PPID (proc p)"
  "WaitingFor (proc (woken p)) = -1" "woken (woken p) = woken p" "used (woken p)"
  by (simp_all add: woken_def used_def set_state_def upd_proc_def)

definition vfork_waits :: "(nat \<Rightarrow> PCB) \<Rightarrow> nat \<Rightarrow> nat \<Rightarrow> bool" where
  "vfork_waits pt i j \<longleftrightarrow> vfork_parent (pt i) > 0 \<and> slot_pid pt j = word_of_int (vfork_parent (pt i)) \<and> pstate (pt j) = PROC_BLOCKED"

definition parent_waits :: "(nat \<Rightarrow> PCB) \<Rightarrow> nat \<Rightarrow> nat \<Rightarrow> bool" where
  "parent_waits pt i j \<longleftrightarrow> used (pt j) \<and> slot_pid pt j = slot_ppid pt i \<and> WaitingFor (proc (pt j)) = slot_pid pt i"

lemma outside_wake_vfork: "outside g \<Longrightarrow> g (wake_vfork_parent i s) = g s"
  by (simp add: wake_vfork_parent_def Let_def outside_upd_pcb split: option.split)

lemma outside_wake_parent: "outside g \<Longrightarrow> g (wake_parent i pid s) = g s"
  by (simp add: wake_parent_def proc_unblock_def Let_def outside_upd_pcb split: option.split)

lemma wake_vfork_other:
  assumes ok: "proc_ok s" and z: "pstate (proc_table s i) = PROC_ZOMBIE" and j: "j < 64" "j \<noteq> i"
  shows "proc_table (wake_vfork_parent i s) j = (if vfork_waits (proc_table s) i j then woken (proc_table s j) else proc_table s j)"
proof (cases "proc_find_index (vfork_parent (proc_table s i)) s")
  case None
  then show ?thesis using find_index_None [OF None j(1)] j by (auto simp: wake_vfork_parent_def vfork_waits_def)
next
  case (Some v)
  show ?thesis
  proof (cases "v = j")
    case True
    then show ?thesis using Some find_index_Some [OF Some] j by (simp add: wake_vfork_parent_def vfork_waits_def woken_def)
  next
    case False
    then have "\<not> vfork_waits (proc_table s) i j"
      using find_index_used [OF ok Some j(1)] by (auto simp: vfork_waits_def used_def)
    then show ?thesis using Some False j by (simp add: wake_vfork_parent_def)
  qed
qed

lemma wake_vfork_self:
  assumes z: "pstate (proc_table s i) = PROC_ZOMBIE"
  shows "proc_table (wake_vfork_parent i s) i = (if vfork_parent (proc_table s i) > 0
     then (proc_table s i)\<lparr>address_space := SNull, vfork_parent := -1\<rparr> else proc_table s i)"
  using z by (auto simp: wake_vfork_parent_def split: option.split)

lemma wake_parent_table:
  assumes ok: "proc_ok s" and i: "i < 64" "used (proc_table s i)" and j: "j < 64"
  shows "proc_table (wake_parent i (slot_pid (proc_table s) i) s) j =
    (if parent_waits (proc_table s) i j then woken (proc_table s j) else proc_table s j)"
proof -
  let ?pt = "proc_table s" and ?pp = "uint (slot_ppid (proc_table s) i)"
  have z: "slot_pid ?pt i \<noteq> 0" using ok i by (auto simp: proc_ok_def dest: table_okD(5))
  show ?thesis
  proof (cases "proc_find_index ?pp s")
    case None
    then show ?thesis using find_index_None [OF None j] by (auto simp: wake_parent_def parent_waits_def)
  next
    case (Some v)
    have v: "v < 64" "slot_pid ?pt v = slot_ppid ?pt i" using find_index_Some [OF Some] by auto
    have nw: "\<not> parent_waits ?pt i j" if "j \<noteq> v"
      using that find_index_used [OF ok Some j] by (auto simp: parent_waits_def)
    show ?thesis
    proof (cases "WaitingFor (proc (?pt v)) = slot_pid ?pt i")
      case False
      then show ?thesis using Some nw by (auto simp: wake_parent_def parent_waits_def)
    next
      case True
      then have uv: "used (?pt v)" using z table_okD(9) [OF ok [unfolded proc_ok_def] v(1)] by fastforce
      let ?s = "upd_pcb v (upd_proc (\<lambda>q. q\<lparr>WaitingFor := -1\<rparr>)) s"
      have "proc_ok ?s" unfolding proc_ok_def upd_pcb_simps
        by (rule table_ok_upd) (use ok v uv in \<open>auto simp: proc_ok_def used_def dest: table_okD(4)\<close>)
      then have "proc_find_index (uint (slot_pid (proc_table ?s) v)) ?s = Some v"
        by (rule find_index_eq) (use v uv in \<open>auto simp: used_def\<close>)
      then show ?thesis using True Some nw uv v
        by (auto simp: wake_parent_def proc_unblock_def parent_waits_def woken_def Let_def)
    qed
  qed
qed

lemma descends_younger:
  assumes "\<And>j. j < 64 \<Longrightarrow> live (pt j) \<Longrightarrow> slot_ppid pt j < slot_pid pt j"
  shows "descends pt a j \<Longrightarrow> a < slot_pid pt j \<and> j < 64 \<and> live (pt j)"
proof (induction rule: descends.induct)
  case (down a k j)
  then show ?case using assms [of j] by (auto intro: order.strict_trans)
qed (use assms in auto)

lemma descends_zombie:
  assumes o: "\<And>j. j < 64 \<Longrightarrow> live (pt j) \<Longrightarrow> slot_ppid pt j < slot_pid pt j"
    and q: "slot_pid pt i = a" "PID (proc q) = a" "\<not> live q"
  shows "descends (pt(i := q)) a j \<longleftrightarrow> descends pt a j"
proof
  show "descends (pt(i := q)) a j \<Longrightarrow> descends pt a j"
  proof (induction a\<equiv>a j rule: descends.induct)
    case (down k j)
    have "slot_pid (pt(i := q)) k = slot_pid pt k" using q by (cases "k = i") auto
    then show ?case using down q by (auto intro: descends.down [of _ _ k] split: if_splits)
  qed (use q in \<open>auto intro: descends.child split: if_splits\<close>)
next
  show "descends pt a j \<Longrightarrow> descends (pt(i := q)) a j"
  proof (induction a\<equiv>a j rule: descends.induct)
    case (child j)
    then show ?case using q o [of j] by (cases "j = i") (auto intro: descends.child)
  next
    case (down k j)
    then have "a < slot_pid pt j" "a < slot_pid pt k"
      using descends_younger [of pt a j, OF o] descends_younger [of pt a k, OF o] descends.down [of pt a k j] by auto
    then show ?case using down q by (cases "j = i"; cases "k = i") (auto intro: descends.down [of _ _ k])
  qed
qed

definition as_zombie :: "u64 \<Rightarrow> PCB \<Rightarrow> PCB" where
  "as_zombie code p = set_state PROC_ZOMBIE (upd_proc (\<lambda>q. q\<lparr>ExitCode := ucast code\<rparr>) p)"

lemma as_zombie_simps [simp]:
  "pstate (as_zombie code p) = PROC_ZOMBIE" "PID (proc (as_zombie code p)) = PID (proc p)"
  "PPID (proc (as_zombie code p)) = PPID (proc p)" "WaitingFor (proc (as_zombie code p)) = WaitingFor (proc p)"
  "vfork_parent (as_zombie code p) = vfork_parent p" "\<not> live (as_zombie code p)" "used (as_zombie code p)"
  by (simp_all add: as_zombie_def live_def used_def)

lemma proc_ok_older: "proc_ok s \<Longrightarrow> j < 64 \<Longrightarrow> live (proc_table s j) \<Longrightarrow> slot_ppid (proc_table s) j < slot_pid (proc_table s) j"
  unfolding proc_ok_def live_def by (rule table_okD(7)) (auto simp: used_def)

text \<open>The state after the exit code is stored and the descendants are gone.\<close>

lemma kill_children_zombie:
  fixes code :: u64
  assumes ok: "proc_ok s" and i: "i < 64" "used (proc_table s i)" and o: "outside g"
  defines "pt \<equiv> (proc_table s)(i := as_zombie code (proc_table s i))"
  obtains t where "proc_kill_children (slot_pid (proc_table s) i) (s\<lparr>proc_table := pt\<rparr>) = Some t" "g t = g s" "proc_ok t"
    "proc_table t = clear_slots {j. descends (proc_table s) (slot_pid (proc_table s) i) j} pt"
proof -
  let ?a = "slot_pid (proc_table s) i" and ?s = "s\<lparr>proc_table := pt\<rparr>"
  have ok1: "proc_ok ?s" unfolding proc_ok_def pt_def
    using table_ok_upd [OF ok [unfolded proc_ok_def] i(1), of "as_zombie code (proc_table s i)"] i by simp
  have D: "descends pt ?a j \<longleftrightarrow> descends (proc_table s) ?a j" for j
    unfolding pt_def by (rule descends_zombie) (use proc_ok_older [OF ok] in auto)
  from kill_from_clears [OF o, of ?s ?a 0] proc_ok_older [OF ok1] obtain t
    where t: "kill_from ?a 0 ?s = Some t" "proc_table t = clear_slots {j. descends (proc_table s) ?a j} pt" "g t = g ?s"
    by (auto simp: doomed_0 D)
  from kill_from_clears [OF outside_fields(1), of ?s ?a 0] kill_from_clears [OF outside_fields(2), of ?s ?a 0] proc_ok_older [OF ok1] t(1)
  have "current_proc t = current_proc s" "next_pid t = next_pid s" by auto
  then have "proc_ok t" using table_ok_clear_slots [OF ok1 [unfolded proc_ok_def]] t(2) by (simp add: proc_ok_def)
  with t o show ?thesis by (intro that [of t]) (auto simp: proc_kill_children_def outside_def)
qed

definition reset_vfork :: "PCB \<Rightarrow> PCB" where
  "reset_vfork p = (if vfork_parent p > 0 then p\<lparr>address_space := SNull, vfork_parent := -1\<rparr> else p)"

lemma reset_vfork_simps [simp]:
  "pstate (reset_vfork p) = pstate p" "proc (reset_vfork p) = proc p" "used (reset_vfork p) = used p"
  by (simp_all add: reset_vfork_def used_def)

text \<open>What the termination of slot \<open>i\<close> makes of slot \<open>j\<close>.\<close>

definition terminated :: "(nat \<Rightarrow> PCB) \<Rightarrow> nat \<Rightarrow> u64 \<Rightarrow> nat \<Rightarrow> PCB" where
  "terminated pt i code j =
     (if j = i then reset_vfork (as_zombie code (pt i))
      else if descends pt (slot_pid pt i) j then clear_head (pt j)
      else if vfork_waits pt i j \<or> parent_waits pt i j then woken (pt j) else pt j)"

lemma proc_ok_wake_vfork:
  assumes ok: "proc_ok s" and i: "i < 64" "pstate (proc_table s i) = PROC_ZOMBIE"
  shows "proc_ok (wake_vfork_parent i s)"
proof -
  let ?t = "wake_vfork_parent i s"
  have t: "proc_table ?t i = reset_vfork (proc_table s i)" using wake_vfork_self [OF i(2)] by (simp add: reset_vfork_def)
  have "table_ok (proc_table ?t) (current_proc s) (next_pid s)"
  proof (rule table_ok_same [OF ok [unfolded proc_ok_def]], goal_cases)
    case (1 j)
    then show ?case using wake_vfork_other [OF ok i(2), of j] table_okD(4,9) [OF ok [unfolded proc_ok_def], of j] i
      by (cases "j = i") (auto simp: t vfork_waits_def used_def)
  qed
  then show ?thesis by (simp add: proc_ok_def outside_wake_vfork outside_fields)
qed

lemma proc_ok_wake_parent:
  assumes ok: "proc_ok s" and i: "i < 64" "used (proc_table s i)"
  shows "proc_ok (wake_parent i (slot_pid (proc_table s) i) s)"
proof -
  have "table_ok (proc_table (wake_parent i (slot_pid (proc_table s) i) s)) (current_proc s) (next_pid s)"
  proof (rule table_ok_same [OF ok [unfolded proc_ok_def]], goal_cases)
    case (1 j)
    then show ?case using wake_parent_table [OF ok i, of j] table_okD(4,9) [OF ok [unfolded proc_ok_def], of j]
      by (auto simp: parent_waits_def)
  qed
  then show ?thesis by (simp add: proc_ok_def outside_wake_parent outside_fields)
qed

lemma terminate_table:
  assumes ok: "proc_ok s" and i: "i < 64" "used (proc_table s i)" and g: "outside g"
  shows "\<exists>t. proc_terminate i code s = Some t \<and> proc_ok t \<and> g t = g s
    \<and> (\<forall>j<64. proc_table t j = terminated (proc_table s) i code j)"
proof -
  let ?pt = "proc_table s" and ?a = "slot_pid (proc_table s) i"
  let ?D = "{j. descends ?pt ?a j}"
  obtain u where u: "proc_kill_children ?a (s\<lparr>proc_table := ?pt(i := as_zombie code (?pt i))\<rparr>) = Some u" "g u = g s" "proc_ok u"
      "proc_table u = clear_slots ?D (?pt(i := as_zombie code (?pt i)))"
    by (rule kill_children_zombie [OF ok i g])
  have ni: "i \<notin> ?D" using descends_younger [of ?pt ?a i] proc_ok_older [OF ok] by auto
  have ui: "proc_table u i = as_zombie code (?pt i)" using u(4) ni by (simp add: clear_slots_def)
  define v where "v = wake_vfork_parent i u"
  have okv: "proc_ok v" unfolding v_def by (rule proc_ok_wake_vfork [OF u(3) i(1)]) (simp add: ui)
  have vi: "proc_table v i = reset_vfork (as_zombie code (?pt i))"
    using wake_vfork_self [of u i] by (simp add: ui v_def reset_vfork_def)
  have usv: "used (proc_table v i)" by (simp add: vi)
  define t where "t = wake_parent i ?a v"
  have e: "proc_terminate i code s = Some t"
    using u(1) by (simp add: proc_terminate_def upd_pcb_def as_zombie_def t_def v_def)
  have okt: "proc_ok t" using proc_ok_wake_parent [OF okv i(1) usv] by (simp add: t_def vi)
  have gt: "g t = g s" by (simp add: t_def v_def outside_wake_parent [OF g] outside_wake_vfork [OF g] u(2))
  have a: "?a \<noteq> -1" "?a \<noteq> 0"
    using table_okD(6) [OF ok [unfolded proc_ok_def] i(1)] word_n1_ge [of "next_pid s"] table_okD(5) [OF ok [unfolded proc_ok_def] i(1)] i(2)
    by (auto simp: not_le [symmetric])
  have "proc_table t j = terminated ?pt i code j" if j: "j < 64" for j
  proof (cases "j = i")
    case True
    have "slot_ppid ?pt i \<noteq> ?a" using table_okD(7) [OF ok [unfolded proc_ok_def] i] by auto
    then show ?thesis using wake_parent_table [OF okv i(1) usv j] True vi by (simp add: t_def terminated_def parent_waits_def)
  next
    case False
    have vj: "proc_table v j = (if vfork_waits (proc_table u) i j then woken (proc_table u j) else proc_table u j)"
      unfolding v_def by (rule wake_vfork_other [OF u(3)]) (use ui j False in auto)
    have tj: "proc_table t j = (if parent_waits (proc_table v) i j then woken (proc_table v j) else proc_table v j)"
      using wake_parent_table [OF okv i(1) usv j] by (simp add: t_def vi)
    show ?thesis
    proof (cases "j \<in> ?D")
      case True
      then have uj: "proc_table u j = clear_head (?pt j)" using u(4) False by (simp add: clear_slots_def)
      then have "proc_table v j = clear_head (?pt j)" using vj by (simp add: vfork_waits_def)
      then show ?thesis using tj True False by (simp add: parent_waits_def terminated_def)
    next
      case nd: False
      then have uj: "proc_table u j = ?pt j" using u(4) False by (simp add: clear_slots_def)
      have vw: "vfork_waits (proc_table u) i j = vfork_waits ?pt i j" using ui uj by (simp add: vfork_waits_def)
      have "parent_waits (proc_table v) i j = (parent_waits ?pt i j \<and> \<not> vfork_waits ?pt i j)"
        using vj vi uj vw a by (simp add: parent_waits_def)
      then show ?thesis using tj vj uj vw nd False by (simp add: terminated_def)
    qed
  qed
  with e okt gt show ?thesis by blast
qed

end
