(* ===== verification/ProcInv.thy ===== *)
theory ProcInv
  imports ProcKill
begin

text \<open>
  Every operation on processes keeps the invariant of the process table; the kernel's
  steps as a transition relation and the states reachable from \<open>proc_init\<close>.
\<close>

section \<open>Every operation keeps the invariant\<close>

lemma proc_ok_eq: "proc_table t = proc_table s \<Longrightarrow> current_proc t = current_proc s \<Longrightarrow> next_pid t = next_pid s \<Longrightarrow> proc_ok t = proc_ok s"
  by (simp add: proc_ok_def)

lemma proc_ok_upd:
  assumes "proc_ok s" "i < 64" "PID (proc (f (proc_table s i))) = slot_pid (proc_table s) i"
    "PPID (proc (f (proc_table s i))) = slot_ppid (proc_table s) i" "used (f (proc_table s i)) = used (proc_table s i)"
    "pstate (f (proc_table s i)) = PROC_RUNNING \<Longrightarrow> pstate (proc_table s i) = PROC_RUNNING"
    "used (proc_table s i) \<or> WaitingFor (proc (f (proc_table s i))) = WaitingFor (proc (proc_table s i))"
  shows "proc_ok (upd_pcb i f s)"
  unfolding proc_ok_def upd_pcb_simps
  by (rule table_ok_upd) (use assms table_okD(4,9) [OF assms(1) [unfolded proc_ok_def], of i] in \<open>auto simp: proc_ok_def\<close>)

lemma proc_ok_current: "proc_ok s \<Longrightarrow> current_proc s \<ge> 0 \<Longrightarrow> current s < 64"
  by (auto simp: proc_ok_def dest: table_okD(2))

lemma proc_ok_release: "proc_ok s \<Longrightarrow> i < 64 \<Longrightarrow> proc_ok (release_pcb i s)"
  by (simp add: proc_ok_def outside_release_pcb outside_fields table_ok_clear)

lemma pid_slot_used:
  assumes "proc_ok s" "proc_find_index pid s = Some i" "word_of_int pid \<noteq> (0 :: u32)"
  shows "i < 64" "used (proc_table s i)"
  using assms find_index_Some [OF assms(2)] table_okD(5) [of "proc_table s" _ _ i] by (auto simp: proc_ok_def)

lemma proc_ok_set_state:
  assumes "proc_ok s" "i < 64" "used (proc_table s i)" "st \<in> {PROC_READY, PROC_BLOCKED}"
  shows "proc_ok (upd_pcb i (set_state st) s)"
  by (rule proc_ok_upd) (use assms in \<open>auto simp: used_def\<close>)

lemma proc_ok_block: "proc_ok s \<Longrightarrow> word_of_int pid \<noteq> (0 :: u32) \<Longrightarrow> proc_ok (proc_block pid s)"
  by (auto simp: proc_block_def split: option.split dest: pid_slot_used intro!: proc_ok_set_state)

lemma proc_ok_unblock: "proc_ok s \<Longrightarrow> word_of_int pid \<noteq> (0 :: u32) \<Longrightarrow> proc_ok (proc_unblock pid s)"
  by (auto simp: proc_unblock_def split: option.split dest: pid_slot_used intro!: proc_ok_set_state)

lemma proc_ok_terminate: "proc_ok s \<Longrightarrow> i < 64 \<Longrightarrow> used (proc_table s i) \<Longrightarrow> proc_terminate i code s = Some t \<Longrightarrow> proc_ok t"
  using terminate_table [OF _ _ _ outside_fields(1), of s i code] by auto

lemma proc_ok_kill_as: "proc_ok s \<Longrightarrow> word_of_int pid \<noteq> (0 :: u32) \<Longrightarrow> proc_kill_as actor pid s = Some (r, t) \<Longrightarrow> proc_ok t"
  by (auto simp: proc_kill_as_def bind_eq_Some_conv split: if_splits option.splits dest: pid_slot_used intro: proc_ok_terminate)

lemma proc_ok_reap_child: "proc_ok s \<Longrightarrow> i < 64 \<Longrightarrow> proc_ok (snd (reap_child i s))"
  by (simp add: reap_child_def proc_reap_def proc_ok_release)

lemma find_index_current:
  assumes "proc_ok s" "current_proc s \<ge> 0" "used (cur_pcb s)"
  shows "proc_find_index (proc_get_current_pid s) s = Some (current s)"
  by (rule find_index_eq) (use assms proc_ok_current [OF assms(1,2)] in \<open>auto simp: proc_get_current_pid_def\<close>)

lemma proc_ok_wait:
  assumes ok: "proc_ok s" and c: "current_proc s \<ge> 0" "used (cur_pcb s)"
  shows "proc_ok (snd (proc_wait_pid pid s))"
proof (cases "proc_find_index (uint pid) s")
  case None then show ?thesis using ok by (simp add: proc_wait_pid_def)
next
  case (Some i)
  have i: "i < 64" using find_index_Some [OF Some] by simp
  have "proc_ok (upd_pcb (current s) (set_state PROC_BLOCKED \<circ> upd_proc (\<lambda>q. q\<lparr>WaitingFor := x\<rparr>)) s)" for x
    by (rule proc_ok_upd) (use ok c proc_ok_current [OF ok c(1)] in \<open>auto simp: used_def\<close>)
  then show ?thesis using Some find_index_current [OF ok c] proc_ok_reap_child [OF ok i] by (simp add: proc_wait_pid_def split_beta)
qed

lemma proc_ok_wait_resume: "proc_ok s \<Longrightarrow> proc_ok (snd (proc_wait_pid_resume pid s))"
  by (auto simp: proc_wait_pid_resume_def proc_ok_reap_child split: option.split dest: find_index_Some)

lemma proc_ok_exit_state:
  assumes ok: "proc_ok s" and c: "current_proc s \<ge> 0" "used (cur_pcb s)" and t: "proc_terminate (current s) code s = Some t"
  shows "proc_ok t" "current_proc t = current_proc s" "k < 64 \<Longrightarrow> pstate (proc_table t k) \<noteq> PROC_RUNNING"
proof -
  note i = proc_ok_current [OF ok c(1)]
  show "proc_ok t" using terminate_table [OF ok i c(2) outside_fields(1), of code] t by simp
  show ct: "current_proc t = current_proc s" using terminate_table [OF ok i c(2) outside_fields(1), of code] t by simp
  have "pstate (proc_table t (current s)) = PROC_ZOMBIE"
    using terminate_table [OF ok i c(2) outside_fields(1), of code] t i by (auto simp: terminated_def)
  then show "k < 64 \<Longrightarrow> pstate (proc_table t k) \<noteq> PROC_RUNNING"
    using table_okD(4) [OF \<open>proc_ok t\<close> [unfolded proc_ok_def], of k] ct by (metis ProcState.distinct nat_int)
qed

lemma proc_ok_keeps:
  "proc_ok (vmm_destroy_address_space sp s) = proc_ok s" "proc_ok (vmm_switch_space sp s) = proc_ok s"
  by (simp_all add: proc_ok_def keeps_destroy [OF keeps_fields(1)] keeps_destroy [OF keeps_fields(2)] keeps_destroy [OF keeps_fields(3)]
      vmm_switch_space_def)

lemma proc_ok_idle: "proc_ok s \<Longrightarrow> (\<And>k. k < 64 \<Longrightarrow> pstate (proc_table s k) \<noteq> PROC_RUNNING) \<Longrightarrow> proc_ok (s\<lparr>current_proc := -1\<rparr>)"
  unfolding proc_ok_def by (auto intro: table_ok_current)

lemma proc_ok_exit:
  assumes ok: "proc_ok s" and c: "current_proc s \<ge> 0" "used (cur_pcb s)" and e: "proc_exit code s = Some (r, t)"
  shows "proc_ok t"
proof -
  obtain u where u: "proc_terminate (current s) code s = Some u" using e c(1) by (auto simp: proc_exit_def Let_def bind_eq_Some_conv)
  note x = proc_ok_exit_state [OF ok c u]
  have cu: "-1 \<le> current_proc u" "current_proc u < 64" using x(1) by (auto simp: proc_ok_def table_ok_def)
  show ?thesis
  proof (cases "find_next u")
    case None
    have "proc_table (if b then vmm_destroy_address_space sp (vmm_switch_space SKernel u) else u) = proc_table u" for b sp
      by (simp add: keeps_destroy [OF keeps_fields(1)] vmm_switch_space_def)
    then show ?thesis using e c(1) u None x by (auto simp: proc_exit_def Let_def proc_ok_keeps intro!: proc_ok_idle)
  next
    case (Some j)
    have "proc_ok (switch_to j u)"
      by (rule proc_ok_switch) (use x find_next_Some [OF cu Some] in \<open>auto simp: used_def\<close>)
    then show ?thesis using e c(1) u Some by (auto simp: proc_exit_def Let_def proc_ok_keeps split: if_splits)
  qed
qed

lemma proc_ok_start:
  assumes ok: "proc_ok s" and c: "current_proc s = -1"
  shows "proc_ok (proc_start_scheduling s)"
proof -
  let ?s = "s\<lparr>scheduling_enabled := True\<rparr>"
  have ok': "proc_ok ?s" using ok by (simp add: proc_ok_def)
  have r: "pstate (proc_table ?s k) \<noteq> PROC_RUNNING" if "k < 64" for k
    using table_okD(4) [OF ok [unfolded proc_ok_def] that] c by auto
  have sw: "proc_ok (switch_to j ?s)" if "j < 64" "pstate (proc_table ?s j) = PROC_READY" for j
    by (rule proc_ok_switch [OF ok' that(1)]) (use that r in \<open>auto simp: used_def\<close>)
  moreover have "proc_ok (upd_pcb j (set_state PROC_RUNNING) (?s\<lparr>current_proc := int j\<rparr>))" if "j < 64" "pstate (proc_table ?s j) = PROC_READY" for j
    using sw [OF that] by (simp add: proc_ok_def)
  ultimately show ?thesis using ok'
    by (auto simp: proc_start_scheduling_def Let_def split: option.split dest!: scan_SomeD)
qed

lemma proc_ok_time: "proc_ok s \<Longrightarrow> proc_ok (proc_update_time n s)"
  by (auto simp: proc_update_time_def used_def dest: proc_ok_current intro!: proc_ok_upd)

text \<open>Giving out a slot and an id.\<close>

lemma free_slot_Some: "free_slot s = Some i \<Longrightarrow> i < 64 \<and> pstate (proc_table s i) = PROC_UNUSED \<and> (\<forall>k<i. pstate (proc_table s k) \<noteq> PROC_UNUSED)"
  by (auto simp: free_slot_def dest: scan_SomeD)

lemma free_slot_None: "free_slot s = None \<Longrightarrow> k < 64 \<Longrightarrow> pstate (proc_table s k) \<noteq> PROC_UNUSED"
  by (auto simp: free_slot_def scan_None_iff)

lemma proc_ok_new:
  assumes "proc_ok s" "i < 64" "pstate (proc_table s i) = PROC_UNUSED" "PID (proc p) = next_pid s" "PPID (proc p) < next_pid s"
    "pstate p = PROC_READY" "next_pid s \<noteq> -1"
  shows "proc_ok (upd_pcb i (\<lambda>_. p) (s\<lparr>next_pid := next_pid s + 1\<rparr>))"
  using table_ok_new [OF assms(1) [unfolded proc_ok_def] assms(2-7)] by (simp add: proc_ok_def)

lemma proc_ok_create_internal:
  assumes "proc_ok s" "next_pid s \<noteq> -1" "parent < next_pid s"
    "proc_create_internal entry prio parent ty cs ce sb st rsp0 sp own s = (r, t)"
  shows "proc_ok t"
proof (cases "free_slot s")
  case None then show ?thesis using assms by (simp add: proc_create_internal_def)
next
  case (Some i)
  then obtain p where "t = upd_pcb i (\<lambda>_. p) (s\<lparr>next_pid := next_pid s + 1\<rparr>)" "PID (proc p) = next_pid s" "PPID (proc p) = parent" "pstate p = PROC_READY"
    using assms(4) by (auto simp: proc_create_internal_def Let_def)
  then show ?thesis using free_slot_Some [OF Some] assms by (auto intro!: proc_ok_new)
qed

lemma proc_ok_init: "proc_ok (proc_init idle s)"
proof -
  let ?s = "s\<lparr>proc_table := (\<lambda>_. zero_pcb), current_proc := -1, next_pid := 1, scheduling_enabled := False,
          next_user_code_addr := USER_CODE_BASE, current_syscall_frame := None\<rparr>"
  have "proc_ok ?s" by (simp add: proc_ok_def table_ok_def zero_pcb_def zero_proc_def used_def)
  moreover obtain r t where rt: "proc_create_internal idle 0 0 PROC_TYPE_KERNEL 0 0 0 0 0 SNull UID_ROOT ?s = (r, t)"
    by (meson surj_pair)
  ultimately have "proc_ok t" using proc_ok_create_internal [OF _ _ _ rt] by simp
  with rt show ?thesis by (simp add: proc_init_def proc_create_kernel_def)
qed

text \<open>The fields the invariant is about; the memory operations keep them.\<close>

definition core :: "'a proc_sys_scheme \<Rightarrow> (nat \<Rightarrow> PCB) \<times> int \<times> u32" where
  "core s = (proc_table s, current_proc s, next_pid s)"

lemma quiet_core: "quiet core"
  by (simp add: quiet_def keeps_def core_def)

lemmas keeps_core = quietD(1) [OF quiet_core]

lemma core_fields: "core t = core s \<Longrightarrow> proc_table t = proc_table s \<and> current_proc t = current_proc s \<and> next_pid t = next_pid s"
  by (simp add: core_def)

lemma proc_ok_core: "core t = core s \<Longrightarrow> proc_ok t = proc_ok s"
  by (simp add: core_def proc_ok_def)

lemma proc_ok_create_core:
  assumes "core u = core s" "proc_ok s" "next_pid s \<noteq> -1" "parent < next_pid s"
    "proc_create_internal entry prio parent ty cs ce sb st rsp0 sp own u = (r, t)"
  shows "proc_ok t"
  using proc_ok_create_internal [OF _ _ _ assms(5)] assms(2-4) core_fields [OF assms(1)] proc_ok_core [OF assms(1)] by simp

lemma proc_ok_start_image:
  assumes ok: "proc_ok s" "next_pid s \<noteq> -1" "parent < next_pid s" and c: "core u = core s"
    and su: "\<And>sp top s r t. setup sp top s = Some (r, t) \<Longrightarrow> core t = core s"
    and e: "start_image own setup sp va sz entry prio parent u = Some (r, t)"
  shows "proc_ok t"
proof -
  obtain st u2 where u2: "user_map_stack sp u = Some (st, u2)" using e by (auto simp: start_image_def split: Option.bind_splits)
  have c2: "core u2 = core s" using keeps_map_stack [OF keeps_core u2] c by simp
  show ?thesis
  proof (cases st)
    case None then show ?thesis using e u2 ok(1) proc_ok_core [OF c2] by (auto simp: start_image_def proc_ok_keeps)
  next
    case (Some x)
    obtain sl top base y where x: "x = (sl, top, base, y)" by (cases x)
    obtain rsp0 u3 where u3: "setup sp top u2 = Some (rsp0, u3)"
      using e u2 Some x by (auto simp: start_image_def split: Option.bind_splits)
    obtain pid u4 where u4: "proc_create_internal entry prio parent PROC_TYPE_USER va (va + sz) base top rsp0 sp own u3 = (pid, u4)"
      by (meson surj_pair)
    have "proc_ok u4" by (rule proc_ok_create_core [OF _ ok u4]) (simp add: su [OF u3] c2)
    then show ?thesis using e u2 Some x u3 u4 by (auto simp: start_image_def proc_ok_keeps split: if_splits)
  qed
qed

lemma proc_ok_create_from_image:
  assumes ok: "proc_ok s" "next_pid s \<noteq> -1" "parent < next_pid s"
    and su: "\<And>sp top s r t. setup sp top s = Some (r, t) \<Longrightarrow> core t = core s"
    and e: "create_from_image own setup img va entry prio parent s = Some (r, t)"
  shows "proc_ok t"
proof (cases img)
  case None then show ?thesis using e ok by (simp add: create_from_image_def)
next
  case (Some bs)
  have z: "core u = core s \<Longrightarrow> proc_ok u" for u using ok(1) proc_ok_core by blast
  obtain sp u0 where u0: "vmm_create_address_space s = (sp, u0)" by (meson surj_pair)
  have c0: "core u0 = core s" by (rule keeps_snd_eq(4) [OF keeps_core u0])
  consider "t = s \<or> t = u0"
    | ok1 u1 where "map_image_pages sp bs va [0..<unat (page_up (of_nat (length bs))) div PAGE_SIZE] u0 = Some (ok1, u1)"
        "(if ok1 then start_image own setup sp va (of_nat (length bs)) entry prio parent u1 else Some (-1, u1)) = Some (r, t)"
    using e Some u0 by (auto simp: create_from_image_def Let_def split: if_splits Option.bind_splits)
  then show ?thesis
  proof cases
    case 1 then show ?thesis using z c0 ok(1) by blast
  next
    case (2 ok1 u1)
    have c1: "core u1 = core s" using keeps_image_pages [OF keeps_core 2(1)] c0 by simp
    show ?thesis using 2(2) z [OF c1] by (cases ok1) (auto intro: proc_ok_start_image [OF ok c1 su])
  qed
qed

lemma proc_ok_create_user_code:
  assumes ok: "proc_ok s" "next_pid s \<noteq> -1" "parent < next_pid s"
    and e: "create_user_code own ktext entry em prio parent s = Some (r, t)"
  shows "proc_ok t"
proof -
  have z: "core u = core s \<Longrightarrow> proc_ok u" for u using ok(1) proc_ok_core by blast
  let ?n = "em - entry"
  consider "t = s"
    | ok1 u1 where "map_code_pages ktext entry (unat ?n) (next_user_code_addr s) [0..<unat (page_up ?n) div PAGE_SIZE] s = Some (ok1, u1)"
        "(if ok1 then start_user_code own (next_user_code_addr s) ?n (page_up ?n) prio parent u1 else Some (-1, u1)) = Some (r, t)"
    using e by (auto simp: create_user_code_def Let_def split: if_splits Option.bind_splits)
  then show ?thesis
  proof cases
    case 1 then show ?thesis using ok(1) by simp
  next
    case (2 ok1 u1)
    have c1: "core u1 = core s" by (rule keeps_code_pages [OF keeps_core 2(1)])
    show ?thesis
    proof (cases "ok1 \<and> (\<exists>x u2. user_map_stack SKernel u1 = Some (Some x, u2))")
      case True
      then obtain sl top base rsp0 u2 where u2: "user_map_stack SKernel u1 = Some (Some (sl, top, base, rsp0), u2)" by auto
      obtain pid u3 where u3: "proc_create_internal (next_user_code_addr s) prio parent PROC_TYPE_USER (next_user_code_addr s)
          (next_user_code_addr s + ?n) base top rsp0 SNull own u2 = (pid, u3)" by (meson surj_pair)
      have "proc_ok u3" by (rule proc_ok_create_core [OF _ ok u3]) (simp add: keeps_map_stack [OF keeps_core u2] c1)
      then show ?thesis using 2(2) True u2 u3 by (auto simp: start_user_code_def proc_ok_def split: if_splits)
    next
      case False
      then show ?thesis using 2(2) z c1 keeps_map_stack [OF keeps_core, of SKernel u1 None]
        by (auto simp: start_user_code_def split: if_splits Option.bind_splits option.splits)
    qed
  qed
qed

lemma pcb_init_child_table:
  "j \<noteq> i \<Longrightarrow> proc_table (pcb_init_child i parent sp frame s) j = proc_table s j"
  "current_proc (pcb_init_child i parent sp frame s) = current_proc s" "next_pid (pcb_init_child i parent sp frame s) = next_pid s + 1"
  "scheduling_enabled (pcb_init_child i parent sp frame s) = scheduling_enabled s"
  by (simp_all add: pcb_init_child_def Let_def)

lemma proc_ok_init_child:
  assumes ok: "proc_ok s" "next_pid s \<noteq> -1" and i: "pcb_alloc_slot s = Some i" and p: "PID (proc parent) < next_pid s"
  shows "proc_ok (pcb_init_child i parent sp frame s)"
  unfolding pcb_init_child_def Let_def
  using proc_ok_new [OF ok(1)] free_slot_Some [of s i] i p ok(2) by (simp add: pcb_alloc_slot_def pcb_copy_layout_def)

lemma current_pid_less: "proc_ok s \<Longrightarrow> current_proc s \<ge> 0 \<Longrightarrow> PID (proc (cur_pcb s)) < next_pid s"
  using table_okD(6) [of "proc_table s" "current_proc s" "next_pid s" "current s"] proc_ok_current [of s] by (simp add: proc_ok_def)

lemma clone_space_core: "clone_space parent s = Some (r, t) \<Longrightarrow> core t = core s"
  by (rule quiet_clone_space [OF quiet_core])

lemma pcb_alloc_slot_core: "core t = core s \<Longrightarrow> pcb_alloc_slot t = pcb_alloc_slot s"
  by (simp add: core_def pcb_alloc_slot_def free_slot_def)

lemma fork_cases:
  assumes "proc_fork frame s = Some (r, t)"
  obtains "core t = core s" "r = -1"
  | i sp u where "current_proc s \<ge> 0" "pcb_alloc_slot s = Some i" "clone_space (cur_pcb s) s = Some (Some sp, u)" "core u = core s"
      "r = sint (next_pid s)" "t = pcb_init_child i (cur_pcb s) sp frame u"
  using assms clone_space_core [of "cur_pcb s" s]
  by (auto simp: proc_fork_def Let_def bind_eq_Some_conv split: if_splits option.splits) (metis core_fields linorder_not_le)+

lemma proc_ok_fork:
  assumes ok: "proc_ok s" "next_pid s \<noteq> -1" and e: "proc_fork frame s = Some (r, t)"
  shows "proc_ok t"
  using e
proof (cases rule: fork_cases)
  case 1 then show ?thesis using ok(1) proc_ok_core by blast
next
  case (2 i sp u)
  have "next_pid u = next_pid s" using core_fields [OF 2(4)] by simp
  then show ?thesis using proc_ok_init_child [of u i] ok current_pid_less [OF ok(1) 2(1)] proc_ok_core [OF 2(4)] pcb_alloc_slot_core [OF 2(4)] 2
    by simp
qed

lemma proc_ok_vfork:
  assumes ok: "proc_ok s" "next_pid s \<noteq> -1" and u: "current_proc s \<ge> 0 \<longrightarrow> used (cur_pcb s)"
  shows "proc_ok (snd (proc_vfork frame s))"
proof (cases "current_proc s < 0 \<or> pcb_alloc_slot s = None")
  case True then show ?thesis using ok by (auto simp: proc_vfork_def)
next
  case False
  then obtain i where i: "pcb_alloc_slot s = Some i" and c: "current_proc s \<ge> 0" by auto
  let ?t = "pcb_init_child i (cur_pcb s) (address_space (cur_pcb s)) frame s"
  let ?v = "\<lambda>x. upd_pcb i (\<lambda>p. p\<lparr>vfork_parent := x\<rparr>) ?t"
  have si: "i < 64" "\<not> used (proc_table s i)" using free_slot_Some [of s i] i by (auto simp: pcb_alloc_slot_def used_def)
  have ot: "proc_ok ?t" by (rule proc_ok_init_child [OF ok i current_pid_less [OF ok(1) c]])
  then have v: "proc_ok (?v x)" for x by (rule proc_ok_upd) (use si in \<open>auto simp: used_def\<close>)
  have c': "used (proc_table (?v x) (current s))" "current s \<noteq> i" for x
    using u c si by (cases "current s = i"; auto simp: used_def pcb_init_child_table)+
  have "proc_ok (upd_pcb (current s) (\<lambda>p. (upd_proc (\<lambda>q. q\<lparr>WaitingFor := y\<rparr>) p)\<lparr>ctx := z, pstate := PROC_BLOCKED\<rparr>) (?v x))" for x y z
    by (rule proc_ok_upd [OF v]) (use proc_ok_current [OF ok(1) c] c' in \<open>auto simp: used_def\<close>)
  then show ?thesis using i c by (simp add: proc_vfork_def Let_def pcb_init_child_table(2))
qed

lemma proc_ok_set_child_stack: "proc_ok s \<Longrightarrow> proc_ok (set_child_stack pid st s)"
  by (auto simp: set_child_stack_def used_def split: option.split dest: find_index_Some intro!: proc_ok_upd)

lemma proc_ok_clone:
  assumes ok: "proc_ok s" "next_pid s \<noteq> -1" and u: "current_proc s \<ge> 0 \<longrightarrow> used (cur_pcb s)" and e: "proc_clone frame fl st s = Some (r, t)"
  shows "proc_ok t"
proof -
  have "proc_ok (upd_pcb i (\<lambda>p. p\<lparr>ctx := (ctx p)\<lparr>rsp := x\<rparr>\<rparr>) (pcb_init_child i (cur_pcb s) sp frame s))"
      "proc_ok (pcb_init_child i (cur_pcb s) sp frame s)" if "pcb_alloc_slot s = Some i" "current_proc s \<ge> 0" for i x sp
    using proc_ok_init_child [OF ok that(1) current_pid_less [OF ok(1) that(2)], of sp frame] free_slot_Some [of s i] that(1)
    by (auto simp: pcb_alloc_slot_def used_def intro!: proc_ok_upd)
  then show ?thesis using e ok(1) proc_ok_fork [OF ok] proc_ok_vfork [OF ok u]
    by (auto simp: proc_clone_def Let_def split_beta bind_eq_Some_conv intro: proc_ok_set_child_stack split: if_splits option.splits)
qed

lemma proc_ok_brk:
  assumes ok: "proc_ok s" and e: "proc_brk b s = Some (r, t)"
  shows "proc_ok t"
proof -
  have g: "proc_ok u" "current_proc u = current_proc s" if "brk_grow pcb va n s = Some (f, u)" for pcb va n f u
    using keeps_brk_grow [OF keeps_core that] ok proc_ok_core core_fields by blast+
  have h: "proc_ok (brk_shrink sp va n s)" "current_proc (brk_shrink sp va n s) = current_proc s" for sp va n
    using keeps_brk_shrink [OF keeps_core] ok proc_ok_core core_fields by blast+
  have k: "proc_ok (upd_pcb (current u) (\<lambda>p. p\<lparr>heap_vend := x\<rparr>) u)" if "proc_ok u" "0 \<le> current_proc u" for x u
    by (rule proc_ok_upd) (use that proc_ok_current in \<open>auto simp: used_def\<close>)
  from e ok show ?thesis
    by (auto simp: proc_brk_def Let_def bind_eq_Some_conv not_less intro!: k dest: g split: if_splits intro: h(1) simp: h(2))
qed

lemma proc_ok_sbrk: "proc_ok s \<Longrightarrow> proc_sbrk n s = Some (r, t) \<Longrightarrow> proc_ok t"
  by (auto simp: proc_sbrk_def Let_def bind_eq_Some_conv split: if_splits dest: proc_ok_brk)

definition keeps_ids :: "(Proc_t \<Rightarrow> Proc_t) \<Rightarrow> bool" where
  "keeps_ids f \<longleftrightarrow> (\<forall>q. PID (f q) = PID q \<and> PPID (f q) = PPID q \<and> WaitingFor (f q) = WaitingFor q)"

lemma proc_ok_upd_proc: "proc_ok s \<Longrightarrow> i < 64 \<Longrightarrow> keeps_ids f \<Longrightarrow> proc_ok (upd_pcb i (upd_proc f) s)"
  by (rule proc_ok_upd) (auto simp: used_def keeps_ids_def)

lemma proc_ok_upd_cur: "proc_ok s \<Longrightarrow> current_proc s \<ge> 0 \<Longrightarrow> keeps_ids f \<Longrightarrow> proc_ok (upd_cur f s)"
  by (simp add: upd_cur_def proc_ok_upd_proc proc_ok_current)

lemma upd_cur_current [simp]: "current_proc (upd_cur f s) = current_proc s"
  by (simp add: upd_cur_def)

lemma snd_ifI: "(c \<Longrightarrow> proc_ok (snd a)) \<Longrightarrow> (\<not> c \<Longrightarrow> proc_ok (snd b)) \<Longrightarrow> proc_ok (snd (if c then a else b))"
  by simp

lemma proc_ok_ifI: "(c \<Longrightarrow> proc_ok a) \<Longrightarrow> (\<not> c \<Longrightarrow> proc_ok b) \<Longrightarrow> proc_ok (if c then a else b)"
  by simp

lemma proc_ok_setuid: "proc_ok s \<Longrightarrow> proc_ok (snd (proc_setuid u s))"
  by (simp add: proc_setuid_def Let_def proc_ok_upd_cur keeps_ids_def not_less)

lemma proc_ok_seteuid: "proc_ok s \<Longrightarrow> proc_ok (snd (proc_seteuid u s))"
  by (simp add: proc_seteuid_def Let_def proc_ok_upd_cur keeps_ids_def not_less)

lemma proc_ok_setgid: "proc_ok s \<Longrightarrow> proc_ok (snd (proc_setgid u s))"
  by (simp add: proc_setgid_def Let_def proc_ok_upd_cur keeps_ids_def not_less)

lemma proc_ok_setegid: "proc_ok s \<Longrightarrow> proc_ok (snd (proc_setegid u s))"
  by (simp add: proc_setegid_def Let_def proc_ok_upd_cur keeps_ids_def not_less)

lemma proc_ok_setreuid: "proc_ok s \<Longrightarrow> proc_ok (snd (proc_setreuid u v s))"
  unfolding proc_setreuid_def Let_def
  by (intro snd_ifI; simp only: snd_conv; intro proc_ok_ifI proc_ok_upd_cur; simp add: keeps_ids_def)

lemma proc_ok_setregid: "proc_ok s \<Longrightarrow> proc_ok (snd (proc_setregid u v s))"
  unfolding proc_setregid_def Let_def
  by (intro snd_ifI; simp only: snd_conv; intro proc_ok_ifI proc_ok_upd_cur; simp add: keeps_ids_def)

lemma proc_ok_setresgid: "proc_ok s \<Longrightarrow> proc_ok (snd (proc_setresgid u v w s))"
  by (simp add: proc_setresgid_def Let_def proc_ok_upd_cur keeps_ids_def not_less)

lemma proc_ok_apply_setuid_exec: "proc_ok s \<Longrightarrow> proc_ok (snd (proc_apply_setuid_exec u m s))"
  by (simp add: proc_apply_setuid_exec_def Let_def proc_ok_upd_cur keeps_ids_def not_less)

lemma proc_ok_chdir: "proc_ok s \<Longrightarrow> proc_ok (snd (proc_chdir path s))"
  by (auto simp: proc_chdir_def used_def not_less dest: proc_ok_current intro!: proc_ok_upd)

lemma proc_ok_set_owner: "proc_ok s \<Longrightarrow> proc_ok (snd (proc_set_owner pid u s))"
  by (auto simp: proc_set_owner_def keeps_ids_def split: option.split dest: find_index_Some intro!: proc_ok_upd_proc)

lemma proc_ok_write_user:
  assumes ok: "proc_ok s" and e: "proc_write_to_user pid dst src s = Some (r, t)"
  shows "proc_ok t"
proof -
  have "core t = core s"
    using e by (auto simp: proc_write_to_user_def Let_def bind_eq_Some_conv split: option.splits if_splits
        dest: keeps_virt_write [OF keeps_core] keeps_write_chunks [OF keeps_core])
  then show ?thesis using ok proc_ok_core by blast
qed

section \<open>Reachable states\<close>

text \<open>
  The steps of the kernel on processes: an interrupt or a call. New processes are only
  created while ids remain; a parent given to a creation is an id given out before. Block,
  unblock and kill name a process by a non-zero id, and the calls of a process are those
  of the current one.
\<close>

inductive proc_step :: "'a proc_sys_scheme \<Rightarrow> 'a proc_sys_scheme \<Rightarrow> bool" where
  create_kernel: "next_pid s \<noteq> -1 \<Longrightarrow> parent < next_pid s \<Longrightarrow> proc_step s (snd (proc_create_kernel entry prio parent s))"
| create_kernel_as: "next_pid s \<noteq> -1 \<Longrightarrow> parent < next_pid s \<Longrightarrow> proc_step s (snd (proc_create_kernel_as u entry prio parent s))"
| create_user: "next_pid s \<noteq> -1 \<Longrightarrow> parent < next_pid s \<Longrightarrow> proc_create_user kt entry em prio parent s = Some (r, t) \<Longrightarrow> proc_step s t"
| create_user_as: "next_pid s \<noteq> -1 \<Longrightarrow> parent < next_pid s \<Longrightarrow> proc_create_user_as u kt entry em prio parent s = Some (r, t) \<Longrightarrow> proc_step s t"
| image_step: "next_pid s \<noteq> -1 \<Longrightarrow> parent < next_pid s \<Longrightarrow> proc_create_user_image img va entry prio parent s = Some (r, t) \<Longrightarrow> proc_step s t"
| image_argv: "next_pid s \<noteq> -1 \<Longrightarrow> parent < next_pid s \<Longrightarrow> proc_create_user_image_argv img va entry prio parent av ev s = Some (r, t) \<Longrightarrow> proc_step s t"
| image_as: "next_pid s \<noteq> -1 \<Longrightarrow> parent < next_pid s \<Longrightarrow> proc_create_user_image_as u img va entry prio parent s = Some (r, t) \<Longrightarrow> proc_step s t"
| fork: "next_pid s \<noteq> -1 \<Longrightarrow> proc_fork frame s = Some (r, t) \<Longrightarrow> proc_step s t"
| vfork: "next_pid s \<noteq> -1 \<Longrightarrow> used (cur_pcb s) \<Longrightarrow> proc_step s (snd (proc_vfork frame s))"
| clone: "next_pid s \<noteq> -1 \<Longrightarrow> used (cur_pcb s) \<Longrightarrow> proc_clone frame flags st s = Some (r, t) \<Longrightarrow> proc_step s t"
| start: "current_proc s = -1 \<Longrightarrow> proc_step s (proc_start_scheduling s)"
| tick: "proc_step s (snd (proc_schedule_interrupt frame s))"
| yield: "proc_step s (snd (proc_yield frame s))"
| time: "proc_step s (proc_update_time n s)"
| block: "word_of_int pid \<noteq> (0 :: u32) \<Longrightarrow> proc_step s (proc_block pid s)"
| unblock: "word_of_int pid \<noteq> (0 :: u32) \<Longrightarrow> proc_step s (proc_unblock pid s)"
| block_as: "word_of_int pid \<noteq> (0 :: u32) \<Longrightarrow> proc_step s (snd (proc_block_as u pid s))"
| unblock_as: "word_of_int pid \<noteq> (0 :: u32) \<Longrightarrow> proc_step s (snd (proc_unblock_as u pid s))"
| kill_as: "word_of_int pid \<noteq> (0 :: u32) \<Longrightarrow> proc_kill_as u pid s = Some (r, t) \<Longrightarrow> proc_step s t"
| exit: "current_proc s \<ge> 0 \<Longrightarrow> used (cur_pcb s) \<Longrightarrow> proc_exit code s = Some (regs, t) \<Longrightarrow> proc_step s t"
| wait: "current_proc s \<ge> 0 \<Longrightarrow> used (cur_pcb s) \<Longrightarrow> proc_step s (snd (proc_wait_pid wpid s))"
| wait_as: "current_proc s \<ge> 0 \<Longrightarrow> used (cur_pcb s) \<Longrightarrow> proc_step s (snd (proc_wait_pid_as u wpid s))"
| wait_resume: "proc_step s (snd (proc_wait_pid_resume wpid s))"
| enter_syscall: "current_proc s \<ge> 0 \<Longrightarrow> proc_step s (proc_enter_syscall s)"
| exit_syscall: "current_proc s \<ge> 0 \<Longrightarrow> proc_step s (proc_exit_syscall s)"
| syscall_frame: "proc_step s (proc_set_syscall_frame f s)"
| brk: "proc_brk b s = Some (v, t) \<Longrightarrow> proc_step s t"
| sbrk: "proc_sbrk n s = Some (v, t) \<Longrightarrow> proc_step s t"
| write_user: "proc_write_to_user pid dst src s = Some (b, t) \<Longrightarrow> proc_step s t"
| setuid: "proc_step s (snd (proc_setuid u s))"
| seteuid: "proc_step s (snd (proc_seteuid u s))"
| setreuid: "proc_step s (snd (proc_setreuid u v s))"
| setuid_exec: "proc_step s (snd (proc_apply_setuid_exec u mode s))"
| setgid: "proc_step s (snd (proc_setgid u s))"
| setegid: "proc_step s (snd (proc_setegid u s))"
| setregid: "proc_step s (snd (proc_setregid u v s))"
| setresgid: "proc_step s (snd (proc_setresgid u v w s))"
| set_owner: "proc_step s (snd (proc_set_owner pid u s))"
| chdir: "proc_step s (snd (proc_chdir path s))"

inductive proc_reachable :: "'a proc_sys_scheme \<Rightarrow> bool" where
  init: "proc_reachable (proc_init idle s)"
| step: "proc_reachable s \<Longrightarrow> proc_step s t \<Longrightarrow> proc_reachable t"

lemma proc_ok_create_kernel:
  assumes "proc_ok s" "next_pid s \<noteq> -1" "parent < next_pid s"
  shows "proc_ok (snd (proc_create_kernel entry prio parent s))" "proc_ok (snd (proc_create_kernel_as u entry prio parent s))"
  using proc_ok_create_internal [OF assms prod.collapse [symmetric]] assms(1)
  by (simp_all add: proc_create_kernel_def proc_create_kernel_as_def)

lemma proc_ok_create_user:
  assumes "proc_ok s" "next_pid s \<noteq> -1" "parent < next_pid s"
  shows "proc_create_user kt entry em prio parent s = Some (r, t) \<Longrightarrow> proc_ok t"
    "proc_create_user_as u kt entry em prio parent s = Some (r, t) \<Longrightarrow> proc_ok t"
  using proc_ok_create_user_code [OF assms] assms(1)
  by (auto simp: proc_create_user_def proc_create_user_as_def split: if_splits)

lemma proc_ok_create_image:
  assumes ok: "proc_ok s" "next_pid s \<noteq> -1" "parent < next_pid s"
  shows "proc_create_user_image img va entry prio parent s = Some (r, t) \<Longrightarrow> proc_ok t"
    "proc_create_user_image_argv img va entry prio parent av ev s = Some (r, t) \<Longrightarrow> proc_ok t"
    "proc_create_user_image_as u img va entry prio parent s = Some (r, t) \<Longrightarrow> proc_ok t"
proof -
  note m = proc_ok_create_from_image [OF ok, of setup_user_stack_minimal, OF keeps_stack_minimal [OF keeps_core]]
  note a = proc_ok_create_from_image [OF ok, of "\<lambda>sp tp. setup_user_stack_argv sp tp av ev", OF quiet_stack_argv [OF quiet_core]]
  show "proc_create_user_image img va entry prio parent s = Some (r, t) \<Longrightarrow> proc_ok t"
    unfolding proc_create_user_image_def by (rule m)
  show "proc_create_user_image_argv img va entry prio parent av ev s = Some (r, t) \<Longrightarrow> proc_ok t"
    unfolding proc_create_user_image_argv_def by (rule a)
  show "proc_create_user_image_as u img va entry prio parent s = Some (r, t) \<Longrightarrow> proc_ok t"
    using ok(1) m by (auto simp: proc_create_user_image_as_def split: if_splits)
qed

lemma proc_ok_calls:
  assumes ok: "proc_ok s"
  shows "proc_ok (snd (proc_schedule_interrupt f s))" "proc_ok (snd (proc_yield f s))" "proc_ok (proc_set_syscall_frame x s)"
    "current_proc s \<ge> 0 \<Longrightarrow> proc_ok (proc_enter_syscall s)" "current_proc s \<ge> 0 \<Longrightarrow> proc_ok (proc_exit_syscall s)"
    "word_of_int pid \<noteq> (0 :: u32) \<Longrightarrow> proc_ok (snd (proc_block_as u pid s))"
    "word_of_int pid \<noteq> (0 :: u32) \<Longrightarrow> proc_ok (snd (proc_unblock_as u pid s))"
    "current_proc s \<ge> 0 \<Longrightarrow> used (cur_pcb s) \<Longrightarrow> proc_ok (snd (proc_wait_pid_as u wpid s))"
  using ok proc_ok_schedule [OF ok prod.collapse [symmetric]] proc_ok_current [OF ok]
  by (simp_all add: proc_yield_def proc_set_syscall_frame_def proc_enter_syscall_def proc_exit_syscall_def proc_block_as_def
      proc_unblock_as_def proc_wait_pid_as_def proc_ok_block proc_ok_unblock proc_ok_wait proc_ok_upd_proc keeps_ids_def)
     (simp add: proc_ok_def)

lemmas proc_ok_ops = proc_ok_create_kernel proc_ok_create_user proc_ok_create_image proc_ok_fork proc_ok_vfork proc_ok_clone proc_ok_start
  proc_ok_calls proc_ok_time proc_ok_block proc_ok_unblock proc_ok_kill_as proc_ok_exit proc_ok_wait proc_ok_wait_resume proc_ok_brk proc_ok_sbrk
  proc_ok_write_user proc_ok_setuid proc_ok_seteuid proc_ok_setreuid proc_ok_apply_setuid_exec proc_ok_setgid proc_ok_setegid
  proc_ok_setregid proc_ok_setresgid proc_ok_set_owner proc_ok_chdir

lemma proc_step_ok: "proc_step s t \<Longrightarrow> proc_ok s \<Longrightarrow> proc_ok t"
  by (induction rule: proc_step.induct) (blast intro: proc_ok_ops)+

lemma proc_reachable_ok: "proc_reachable s \<Longrightarrow> proc_ok s"
  by (induction rule: proc_reachable.induct) (auto intro: proc_ok_init proc_step_ok)

end
