(* ===== verification/UnixInv.thy ===== *)
theory UnixInv
  imports UnixSocket ProcInv
begin

text \<open>
  The invariant of the socket table, that every operation of \<^verbatim>\<open>unix_socket.c\<close> keeps it together with
  the invariant of the process table, and what the loops of writers and readers do.
\<close>

section \<open>The invariant of the socket table\<close>

definition pending :: "unix_socket_t \<Rightarrow> unix_pending_t list" where
  "pending k = map (\<lambda>n. backlog k ! nat ((backlog_head k + int n) mod UNIX_BACKLOG_MAX)) [0..<nat (backlog_count k)]"

definition sock_wf :: "unix_socket_t \<Rightarrow> bool" where
  "sock_wf k \<longleftrightarrow> ring_ok (rx k) \<and> length (us_path k) = UNIX_PATH_MAX \<and> us_path k ! (UNIX_PATH_MAX - 1) = NUL
     \<and> length (backlog k) = 8 \<and> 0 \<le> backlog_head k \<and> backlog_head k < UNIX_BACKLOG_MAX
     \<and> 0 \<le> backlog_count k \<and> backlog_count k \<le> UNIX_BACKLOG_MAX
     \<and> backlog_tail k = (backlog_head k + backlog_count k) mod UNIX_BACKLOG_MAX
     \<and> -1 \<le> peer_id k \<and> peer_id k < int MAX_UNIX_SOCKETS
     \<and> (in_use k \<longrightarrow> us_state k \<noteq> US_FREE) \<and> (\<not> in_use k \<longrightarrow> us_state k \<in> {US_FREE, US_CLOSED})
     \<and> word_of_int (blocked_reader_pid k) \<noteq> (0 :: u32)
     \<and> (\<forall>e\<in>set (pending k). 0 \<le> client_sock_id e \<and> client_sock_id e < int MAX_UNIX_SOCKETS \<and> word_of_int (client_pid e) \<noteq> (0 :: u32))"

definition sock_ok :: "'a sock_sys_scheme \<Rightarrow> bool" where
  "sock_ok s \<longleftrightarrow> (\<forall>i<64. sock_wf (sock_table s i))"

lemma upd_sock_simps [simp]:
  "sock_table (upd_sock i f s) = (sock_table s)(i := f (sock_table s i))"
  "proc_table (upd_sock i f s) = proc_table s" "current_proc (upd_sock i f s) = current_proc s" "next_pid (upd_sock i f s) = next_pid s"
  by (simp_all add: upd_sock_def)

lemma proc_ok_upd_sock [simp]: "proc_ok (upd_sock i f s) = proc_ok s"
  by (simp add: proc_ok_def)

lemma sock_table_procs [simp]:
  "sock_table (proc_block pid s) = sock_table s" "sock_table (proc_unblock pid s) = sock_table s"
  "sock_table (unblock_client pid s) = sock_table s" "sock_table (block_reader i s) = sock_table (upd_sock i (\<lambda>k. k\<lparr>blocked_reader_pid := proc_get_current_pid s\<rparr>) s)"
  by (auto simp: proc_block_def proc_unblock_def upd_pcb_def unblock_client_def block_reader_def split: option.split)

lemma wake_reader_table:
  "sock_table (wake_reader i s) = (sock_table s)(i := (sock_table s i)\<lparr>blocked_reader_pid :=
     (if blocked_reader_pid (sock_table s i) \<ge> 0 then -1 else blocked_reader_pid (sock_table s i))\<rparr>)"
  by (auto simp: wake_reader_def fun_upd_idem)

lemma sock_ok_upd: "sock_ok s \<Longrightarrow> (i < 64 \<Longrightarrow> sock_wf (sock_table s i) \<Longrightarrow> sock_wf (f (sock_table s i))) \<Longrightarrow> sock_ok (upd_sock i f s)"
  by (auto simp: sock_ok_def)

lemma sock_get_Some: "unix_sock_get sid s = Some i \<Longrightarrow> i < 64 \<and> sid = int i \<and> in_use (sock_table s i)"
  by (auto simp: unix_sock_get_def split: if_splits)

lemma sock_wf_simps:
  "sock_wf k \<Longrightarrow> word_of_int p \<noteq> (0 :: u32) \<Longrightarrow> sock_wf (k\<lparr>blocked_reader_pid := p\<rparr>)"
  "sock_wf k \<Longrightarrow> -1 \<le> p \<Longrightarrow> p < 64 \<Longrightarrow> sock_wf (k\<lparr>peer_id := p\<rparr>)"
  "sock_wf k \<Longrightarrow> ring_ok r \<Longrightarrow> sock_wf (k\<lparr>rx := r\<rparr>)"
  "sock_wf k \<Longrightarrow> in_use k \<Longrightarrow> st \<noteq> US_FREE \<Longrightarrow> sock_wf (k\<lparr>us_state := st\<rparr>)"
  by (auto simp: sock_wf_def pending_def)

lemma sock_ok_wake: "sock_ok s \<Longrightarrow> sock_ok (wake_reader i s)"
  unfolding sock_ok_def wake_reader_table by (auto intro!: sock_wf_simps(1))

lemma pending_pop:
  assumes "sock_wf k" "backlog_count k > 0"
  shows "pending k = front_pending k # pending (pop_backlog k)" "sock_wf (pop_backlog k)"
proof -
  let ?h = "backlog_head k" and ?n = "nat (backlog_count k - 1)"
  have n: "nat (backlog_count k) = Suc ?n" using assms(2) by simp
  have h: "nat (?h mod 8) = nat ?h" using assms(1) by (simp add: sock_wf_def mod_pos_pos_trivial)
  have e: "(?h + int (Suc m)) mod 8 = ((?h + 1) mod 8 + int m) mod 8" for m
    by (simp add: mod_add_left_eq add.assoc)
  show p: "pending k = front_pending k # pending (pop_backlog k)"
    unfolding pending_def n front_pending_def pop_backlog_def
    by (simp add: upt_conv_Cons map_Suc_upt [symmetric] h e [simplified] del: upt_Suc)
  have "(?h + backlog_count k) mod 8 = ((?h + 1) mod 8 + (backlog_count k - 1)) mod 8" by (simp add: mod_add_left_eq)
  then show "sock_wf (pop_backlog k)"
    using assms p unfolding sock_wf_def by (auto simp: pop_backlog_def)
qed

lemma pending_push:
  assumes "sock_wf k" "backlog_count k < UNIX_BACKLOG_MAX"
  shows "pending (push_backlog e k) = pending k @ [e]"
proof -
  let ?h = "backlog_head k" and ?c = "backlog_count k"
  have wf: "0 \<le> ?c" "0 \<le> ?h" "length (backlog k) = 8" "backlog_tail k = (?h + ?c) mod 8" using assms(1) by (auto simp: sock_wf_def)
  have ne: "nat ((?h + int n) mod 8) \<noteq> nat ((?h + ?c) mod 8)" if "n < nat ?c" for n
  proof
    assume "nat ((?h + int n) mod 8) = nat ((?h + ?c) mod 8)"
    then have "(?h + ?c) mod 8 = (?h + int n) mod 8" by (simp add: eq_nat_nat_iff)
    then have "8 dvd (?h + ?c) - (?h + int n)" by (simp only: mod_eq_dvd_iff)
    then have "8 dvd ?c - int n" by simp
    then show False using that assms(2) zdvd_imp_le [of 8 "?c - int n"] by linarith
  qed
  have n: "nat (?c + 1) = Suc (nat ?c)" using wf by simp
  have "map (\<lambda>n. (backlog k)[nat ((?h + ?c) mod 8) := e] ! nat ((?h + int n) mod 8)) [0..<nat ?c] = pending k"
    unfolding pending_def by (rule map_cong) (auto simp: ne [symmetric] nth_list_update_neq dest: ne)
  then show ?thesis using wf by (simp add: push_backlog_def pending_def n nat_less_iff)
qed

lemma sock_wf_push:
  assumes wf: "sock_wf k" "backlog_count k < UNIX_BACKLOG_MAX" and e: "0 \<le> client_sock_id e" "client_sock_id e < 64" "word_of_int (client_pid e) \<noteq> (0 :: u32)"
  shows "sock_wf (push_backlog e k)"
proof -
  have "((backlog_head k + backlog_count k) mod 8 + 1) mod 8 = (backlog_head k + (backlog_count k + 1)) mod 8"
    by (simp add: mod_add_left_eq add.assoc)
  then show ?thesis using wf e pending_push [OF wf, of e] unfolding sock_wf_def by (auto simp: push_backlog_def)
qed

lemma strncpy_buf_length: "length buf = 108 \<Longrightarrow> length (strncpy_buf 107 src buf) = 108"
  by (cases "length src \<le> 107") (simp_all add: strncpy_buf_def)

lemma strncpy_buf_last: "length buf = 108 \<Longrightarrow> strncpy_buf 107 src buf ! 107 = buf ! 107"
  by (cases "length src \<le> 107") (simp_all add: strncpy_buf_def nth_append)

lemma sock_wf_new:
  assumes "st \<noteq> US_FREE" "-1 \<le> p" "p < 64" "length path = 108" "path ! 107 = NUL"
  shows "sock_wf (zero_socket\<lparr>in_use := True, us_state := st, us_type := ty, us_path := path, peer_id := p, blocked_reader_pid := -1, owner_pid := ow\<rparr>)"
  using assms by (auto simp: sock_wf_def zero_socket_def pending_def)

text \<open>Both invariants together, and a caller that is a process.\<close>

definition sys_ok :: "'a sock_sys_scheme \<Rightarrow> bool" where
  "sys_ok s \<longleftrightarrow> proc_ok s \<and> sock_ok s"

definition caller_ok :: "'a proc_sys_scheme \<Rightarrow> bool" where
  "caller_ok s \<longleftrightarrow> current_proc s \<ge> 0 \<and> used (cur_pcb s)"

lemma caller_pid: "proc_ok s \<Longrightarrow> caller_ok s \<Longrightarrow> word_of_int (proc_get_current_pid s) \<noteq> (0 :: u32)"
  using table_okD(5) [of "proc_table s" _ _ "current s"] proc_ok_current [of s]
  by (auto simp: caller_ok_def proc_get_current_pid_def proc_ok_def)

lemma caller_upd_sock [simp]: "proc_get_current_pid (upd_sock i f s) = proc_get_current_pid s" "caller_ok (upd_sock i f s) = caller_ok s"
  by (simp_all add: proc_get_current_pid_def caller_ok_def)

lemma sys_ok_upd: "sys_ok s \<Longrightarrow> (i < 64 \<Longrightarrow> sock_wf (sock_table s i) \<Longrightarrow> sock_wf (f (sock_table s i))) \<Longrightarrow> sys_ok (upd_sock i f s)"
  by (simp add: sys_ok_def sock_ok_upd)

lemma sock_ok_same: "sock_table t = sock_table s \<Longrightarrow> sock_ok t = sock_ok s"
  by (simp add: sock_ok_def)

lemma sys_ok_unblock: "sys_ok s \<Longrightarrow> word_of_int p \<noteq> (0 :: u32) \<Longrightarrow> sys_ok (unblock_client p s)"
  by (simp add: sys_ok_def sock_ok_same [of "unblock_client p s" s]) (simp add: unblock_client_def proc_ok_unblock)

lemma sys_ok_block: "sys_ok s \<Longrightarrow> word_of_int p \<noteq> (0 :: u32) \<Longrightarrow> sys_ok (proc_block p s)"
  by (simp add: sys_ok_def sock_ok_same [of "proc_block p s" s] proc_ok_block)

lemma sys_ok_wf: "sys_ok s \<Longrightarrow> i < 64 \<Longrightarrow> sock_wf (sock_table s i)"
  by (simp add: sys_ok_def sock_ok_def)

lemma sys_ok_wake:
  assumes "sys_ok s" "i < 64"
  shows "sys_ok (wake_reader i s)"
  using assms sock_ok_wake [of s i] sys_ok_wf [OF assms]
  by (auto simp: sys_ok_def wake_reader_def sock_wf_def intro: proc_ok_unblock)

lemma sys_ok_block_reader:
  assumes "sys_ok s" "i < 64" "caller_ok s"
  shows "sys_ok (block_reader i s)"
proof -
  have w: "word_of_int (proc_get_current_pid s) \<noteq> (0 :: u32)" by (rule caller_pid) (use assms in \<open>auto simp: sys_ok_def\<close>)
  then have "sys_ok (upd_sock i (\<lambda>k. k\<lparr>blocked_reader_pid := proc_get_current_pid s\<rparr>) s)"
    using assms by (auto intro!: sys_ok_upd sock_wf_simps(1))
  then show ?thesis unfolding block_reader_def by (rule sys_ok_block) (rule w)
qed

section \<open>Every operation keeps the invariant\<close>

lemma sys_ok_create: "sys_ok s \<Longrightarrow> sys_ok (snd (unix_sock_create ty s))"
  using sock_wf_new [of US_CREATED "-1" "replicate 108 NUL" "proc_get_current_pid s" ty]
  by (auto simp: unix_sock_create_def zero_socket_def split: option.split intro!: sys_ok_upd)

lemma drain_sys_ok:
  assumes "sys_ok s" "i < 64" "n = nat (backlog_count (sock_table s i))"
  shows "sys_ok (drain_backlog i n s)"
  using assms
proof (induction n arbitrary: s)
  case (Suc n)
  let ?k = "sock_table s i"
  have wf: "sock_wf ?k" "backlog_count ?k > 0" using sys_ok_wf [OF Suc.prems(1,2)] Suc.prems(3) by auto
  note p = pending_pop [OF wf]
  have "word_of_int (client_pid (front_pending ?k)) \<noteq> (0 :: u32)" using wf(1) p(1) by (simp add: sock_wf_def)
  then have u: "sys_ok (unblock_client (client_pid (front_pending ?k)) (upd_sock i pop_backlog s))"
    using Suc.prems p(2) by (intro sys_ok_unblock sys_ok_upd) auto
  have "sys_ok (drain_backlog i n (unblock_client (client_pid (front_pending ?k)) (upd_sock i pop_backlog s)))"
    by (rule Suc.IH [OF u Suc.prems(2)]) (use Suc.prems(3) in \<open>simp add: pop_backlog_def\<close>)
  then show ?case by simp
qed simp

lemma sys_ok_close_peer:
  assumes "sys_ok s" "i < 64"
  shows "sys_ok (close_peer i s)"
proof -
  have "sys_ok (wake_reader p (upd_sock p (\<lambda>k. k\<lparr>us_state := US_CLOSED, peer_id := -1\<rparr>) s))" if "unix_sock_get q s = Some p" for p q
    using assms sock_get_Some [OF that] sock_wf_simps(2) [OF sock_wf_simps(4) [of "sock_table s p" US_CLOSED], of "-1"] sys_ok_wf [of s p]
    by (intro sys_ok_wake sys_ok_upd) auto
  then show ?thesis using assms by (auto simp: close_peer_def Let_def split: option.split intro!: sys_ok_upd sock_wf_simps(2))
qed

lemma sys_ok_destroy: "sys_ok s \<Longrightarrow> sys_ok (unix_sock_destroy sid s)"
proof (cases "unix_sock_get sid s")
  case (Some i)
  assume ok: "sys_ok s"
  have i: "i < 64" using sock_get_Some [OF Some] by simp
  have "sys_ok (drain_backlog i (nat (backlog_count (sock_table (close_peer i (wake_reader i s)) i))) (close_peer i (wake_reader i s)))"
    by (intro drain_sys_ok sys_ok_close_peer sys_ok_wake ok i refl)
  then have "sys_ok (upd_sock i (\<lambda>k. k\<lparr>us_state := US_CLOSED, in_use := False\<rparr>)
      (drain_backlog i (nat (backlog_count (sock_table (close_peer i (wake_reader i s)) i))) (close_peer i (wake_reader i s))))"
    by (rule sys_ok_upd) (auto simp: sock_wf_def pending_def)
  then show ?thesis using Some by (simp add: unix_sock_destroy_def Let_def)
qed (simp add: unix_sock_destroy_def)

lemma sys_ok_bind: "sys_ok s \<Longrightarrow> sys_ok (snd (unix_sock_bind sid path s))"
  by (auto simp: unix_sock_bind_def sock_wf_def pending_def strncpy_buf_length split: option.split intro!: sys_ok_upd dest!: sock_get_Some)

lemma sys_ok_listen: "sys_ok s \<Longrightarrow> sys_ok (snd (unix_sock_listen sid s))"
  by (auto simp: unix_sock_listen_def split: option.split intro!: sys_ok_upd sock_wf_simps(4) dest!: sock_get_Some)

lemma find_free_Some: "find_free s = Some n \<Longrightarrow> n < 64 \<and> \<not> in_use (sock_table s n)"
  by (auto simp: find_free_def dest: scan_SomeD)

lemma find_bound_Some:
  "find_bound p s = Some d \<Longrightarrow> d < 64 \<and> in_use (sock_table s d) \<and> us_state (sock_table s d) \<in> {US_BOUND, US_LISTENING} \<and> cval (us_path (sock_table s d)) = p"
  by (auto simp: find_bound_def dest: scan_SomeD)

lemma find_listener_Some:
  "find_listener p s = Some d \<Longrightarrow> d < 64 \<and> in_use (sock_table s d) \<and> us_state (sock_table s d) = US_LISTENING \<and> cval (us_path (sock_table s d)) = p"
  by (auto simp: find_listener_def dest: scan_SomeD)

lemma sys_ok_pair:
  "sys_ok s \<Longrightarrow> n < 64 \<Longrightarrow> sys_ok (pair_client q n s)"
  by (auto simp: pair_client_def split: option.split dest!: sock_get_Some intro!: sys_ok_upd sock_wf_simps(2) sock_wf_simps(4))

lemma sys_ok_accept_pending:
  assumes ok: "sys_ok s" and i: "i < 64" "backlog_count (sock_table s i) > 0"
  shows "sys_ok (snd (accept_pending i s))"
proof -
  let ?k = "sock_table s i" and ?e = "front_pending (sock_table s i)" and ?s = "upd_sock i pop_backlog s"
  note p = pending_pop [OF sys_ok_wf [OF ok i(1)] i(2)]
  have e: "word_of_int (client_pid ?e) \<noteq> (0 :: u32)" "0 \<le> client_sock_id ?e" "client_sock_id ?e < 64"
    using sys_ok_wf [OF ok i(1)] p(1) by (auto simp: sock_wf_def)
  have s1: "sys_ok ?s" using ok i p(2) by (intro sys_ok_upd) auto
  show ?thesis
  proof (cases "find_free ?s")
    case None then show ?thesis using sys_ok_unblock [OF s1 e(1)] by (simp add: accept_pending_def Let_def)
  next
    case (Some n)
    have "sock_wf (new_connection i ?e ?s)"
      using sock_wf_new [of US_CONNECTED "client_sock_id ?e" "strncpy_buf 107 (cval (us_path (sock_table ?s i))) (us_path zero_socket)"] e
      by (simp add: new_connection_def strncpy_buf_length strncpy_buf_last zero_socket_def)
    then have "sys_ok (upd_sock n (\<lambda>_. new_connection i ?e ?s) ?s)" by (intro sys_ok_upd s1)
    then have "sys_ok (pair_client (client_sock_id ?e) n (upd_sock n (\<lambda>_. new_connection i ?e ?s) ?s))"
      using find_free_Some [OF Some] by (intro sys_ok_pair) auto
    from sys_ok_unblock [OF this e(1)] show ?thesis by (simp add: accept_pending_def Let_def Some)
  qed
qed

lemma sys_ok_accept:
  assumes ok: "sys_ok s" and c: "caller_ok s"
  shows "sys_ok (snd (unix_sock_accept sid s))"
proof (cases "unix_sock_get sid s")
  case None then show ?thesis using ok by (simp add: unix_sock_accept_def)
next
  case (Some i)
  have i: "i < 64" using sock_get_Some [OF Some] by simp
  have "backlog_count (sock_table s i) \<noteq> 0 \<Longrightarrow> backlog_count (sock_table s i) > 0" using sys_ok_wf [OF ok i] by (simp add: sock_wf_def)
  then show ?thesis using Some ok sys_ok_accept_pending [OF ok i] sys_ok_block_reader [OF ok i c]
    by (simp add: unix_sock_accept_def split_beta)
qed

lemma sys_ok_connect:
  assumes ok: "sys_ok s" and c: "caller_ok s"
  shows "sys_ok (snd (unix_sock_connect sid path s))"
proof -
  have pid: "word_of_int (proc_get_current_pid s) \<noteq> (0 :: u32)" by (rule caller_pid) (use ok c in \<open>auto simp: sys_ok_def\<close>)
  have "sys_ok (proc_block (proc_get_current_pid s) (wake_reader v (upd_sock v (push_backlog
      \<lparr>client_sock_id = sid, client_pid = proc_get_current_pid s, accepted = False, peer_sock_id = -1\<rparr>) s)))"
    if "find_listener path s = Some v" "unix_sock_get sid s = Some i" "\<not> backlog_count (sock_table s v) \<ge> 8" for v i
    using find_listener_Some [OF that(1)] sock_get_Some [OF that(2)] that(3) pid
    by (intro sys_ok_block sys_ok_wake sys_ok_upd ok sock_wf_push) auto
  then show ?thesis using ok by (auto simp: unix_sock_connect_def Let_def split: option.split)
qed

section \<open>Writing and reading\<close>

lemma space_left_wf: "ring_ok (rx k) \<Longrightarrow> space_left k = UNIX_BUF_SIZE - length (ring_bytes (rx k))"
  by (simp add: space_left_def ring_bytes_arc ring_ok_def unat_sub word_le_nat_alt)

text \<open>The state after a chunk was put into the buffer of socket \<open>p\<close> and its reader woken.\<close>

definition delivered :: "nat \<Rightarrow> u8 list \<Rightarrow> 'a sock_sys_scheme \<Rightarrow> 'a sock_sys_scheme" where
  "delivered p bs s = wake_reader p (upd_sock p (\<lambda>k. k\<lparr>rx := snd (rb_write bs (rx k))\<rparr>) s)"

lemma delivered_rx:
  assumes "ring_ok (rx (sock_table s p))" "length bs \<le> space_left (sock_table s p)"
  shows "ring_ok (rx (sock_table (delivered p bs s) p))"
    "ring_bytes (rx (sock_table (delivered p bs s) p)) = ring_bytes (rx (sock_table s p)) @ bs"
proof -
  have "length (ring_bytes (rx (sock_table s p))) + length bs \<le> UNIX_BUF_SIZE"
    using assms(2) rbq.bounded [OF assms(1)] by (simp add: space_left_wf [OF assms(1)])
  from rbq.write_fits [OF assms(1) this]
  show "ring_ok (rx (sock_table (delivered p bs s) p))"
    "ring_bytes (rx (sock_table (delivered p bs s) p)) = ring_bytes (rx (sock_table s p)) @ bs"
    by (auto simp: delivered_def wake_reader_table)
qed

lemma delivered_table:
  "sock_table (delivered p bs s) j = (if j = p then (sock_table s p)\<lparr>rx := rx (sock_table (delivered p bs s) p),
     blocked_reader_pid := blocked_reader_pid (sock_table (delivered p bs s) p)\<rparr> else sock_table s j)"
  by (simp add: delivered_def wake_reader_table)

lemma delivered_fields [simp]:
  "peer_id (sock_table (delivered p bs s) j) = peer_id (sock_table s j)" "in_use (sock_table (delivered p bs s) j) = in_use (sock_table s j)"
  "us_state (sock_table (delivered p bs s) j) = us_state (sock_table s j)" "us_type (sock_table (delivered p bs s) j) = us_type (sock_table s j)"
  "us_path (sock_table (delivered p bs s) j) = us_path (sock_table s j)" "unix_sock_get q (delivered p bs s) = unix_sock_get q s"
  by (simp_all add: delivered_def wake_reader_table unix_sock_get_def)

lemma sys_ok_delivered:
  assumes "sys_ok s" "p < 64" "length bs \<le> space_left (sock_table s p)"
  shows "sys_ok (delivered p bs s)"
proof -
  have "ring_ok (snd (rb_write bs (rx (sock_table s p))))"
    using delivered_rx(1) [OF _ assms(3)] sys_ok_wf [OF assms(1,2)] by (simp add: sock_wf_def delivered_def wake_reader_table)
  then show ?thesis unfolding delivered_def using assms by (intro sys_ok_wake sys_ok_upd) (auto intro: sock_wf_simps(3))
qed

text \<open>
  One run of the writer's loop: it fills the buffer of the peer, and is done if that was
  enough.
\<close>

lemma write_loop_run:
  assumes p: "unix_sock_get (peer_id (sock_table s i)) s = Some p" "us_state (sock_table s p) \<noteq> US_CLOSED"
    and ring: "ring_ok (rx (sock_table s p))" and w: "w < n" "n \<le> length src"
  shows "write_loop i src n w s =
    (let room = space_left (sock_table s p) in
     if room = 0 then (SMore w, s)
     else if n - w \<le> room then (SDone (int n), delivered p (take (n - w) (drop w src)) s)
     else (SMore (w + room), delivered p (take room (drop w src)) s))"
proof -
  let ?room = "space_left (sock_table s p)"
  let ?chunk = "if n - w > ?room then ?room else n - w"
  let ?t = "delivered p (take ?chunk (drop w src)) s"
  have step: "write_loop i src n w s = write_loop i src n (w + ?chunk) ?t" if "?room \<noteq> 0"
    using that p w by (subst write_loop.simps) (simp add: Let_def delivered_def)
  have "space_left (sock_table ?t p) = 0" if "n - w > ?room"
    using that delivered_rx [OF ring, of "take ?chunk (drop w src)"] w rbq.bounded [OF ring] by (simp add: space_left_wf [OF ring] space_left_wf)
  then have "write_loop i src n (w + ?room) ?t = (SMore (w + ?room), ?t)" if "n - w > ?room" "?room \<noteq> 0"
    using that p w by (subst write_loop.simps) simp
  moreover have "write_loop i src n (w + (n - w)) ?t = (SDone (int n), ?t)" if "\<not> n - w > ?room"
    using w by (subst write_loop.simps) simp
  moreover have "write_loop i src n w s = (SMore w, s)" if "?room = 0"
    using that p w by (subst write_loop.simps) simp
  ultimately show ?thesis using step by (auto simp: Let_def not_less)
qed

lemma sys_ok_write_loop:
  assumes ok: "sys_ok s" and n: "n \<le> length src"
  shows "sys_ok (snd (write_loop i src n w s))"
proof (cases "w < n")
  case False then show ?thesis using ok by (subst write_loop.simps) simp
next
  case True
  show ?thesis
  proof (cases "unix_sock_get (peer_id (sock_table s i)) s")
    case None then show ?thesis using ok True by (subst write_loop.simps) simp
  next
    case (Some p)
    have p: "p < 64" using sock_get_Some [OF Some] by simp
    have r: "ring_ok (rx (sock_table s p))" using sys_ok_wf [OF ok p] by (simp add: sock_wf_def)
    show ?thesis
    proof (cases "us_state (sock_table s p) = US_CLOSED")
      case True then show ?thesis using ok Some by (subst write_loop.simps) simp
    next
      case False
      show ?thesis using sys_ok_delivered [OF ok p] ok
        by (simp add: write_loop_run [OF Some False r \<open>w < n\<close> n] Let_def)
    qed
  qed
qed

lemma sys_ok_write: "sys_ok s \<Longrightarrow> sys_ok (snd (unix_sock_write sid src s))"
  by (auto simp: unix_sock_write_def split: option.split intro!: sys_ok_write_loop)

lemma sys_ok_write_resume: "sys_ok s \<Longrightarrow> sys_ok (snd (unix_sock_write_resume sid src w s))"
  by (auto simp: unix_sock_write_resume_def intro!: sys_ok_write_loop)

lemma sys_ok_sendto: "sys_ok s \<Longrightarrow> sys_ok (snd (unix_sock_sendto sid src path s))"
  using sys_ok_delivered [of s _ src]
  by (auto simp: unix_sock_sendto_def delivered_def [symmetric] split: option.split dest!: find_bound_Some)

lemma take_rx_run:
  assumes "ring_ok (rx (sock_table s i))"
  shows "\<exists>r. take_rx i want s = (SDone (int (length (take (unat want) (ring_bytes (rx (sock_table s i)))))),
      take (unat want) (ring_bytes (rx (sock_table s i))), upd_sock i (\<lambda>k. k\<lparr>rx := r\<rparr>) s)
    \<and> ring_ok r \<and> ring_bytes r = drop (unat want) (ring_bytes (rx (sock_table s i)))"
  using rbq.read_front [OF assms, of want] by (auto simp: take_rx_def)

lemma sys_ok_take_rx:
  assumes ok: "sys_ok s" and i: "i < 64"
  shows "sys_ok (snd (snd (take_rx i want s)))"
proof -
  have "ring_ok (rx (sock_table s i))" using sys_ok_wf [OF ok i] by (simp add: sock_wf_def)
  from take_rx_run [OF this, of want] show ?thesis using ok by (auto intro!: sys_ok_upd sock_wf_simps(3))
qed

lemma sys_ok_read:
  assumes ok: "sys_ok s" and c: "caller_ok s"
  shows "sys_ok (snd (snd (unix_sock_read_resume sid want s)))" "sys_ok (snd (snd (unix_sock_read sid want s)))"
    "sys_ok (snd (snd (unix_sock_recvfrom_resume sid want s)))" "sys_ok (snd (snd (unix_sock_recvfrom sid want s)))"
  using ok sys_ok_take_rx [OF ok] sys_ok_block_reader [OF ok _ c]
  by (auto simp: unix_sock_read_resume_def unix_sock_read_def unix_sock_recvfrom_def unix_sock_recvfrom_resume_def split: option.split
      dest!: sock_get_Some)

end
