(* ===== verification/ProcProps.thy ===== *)
theory ProcProps
  imports ProcInv UserProps
begin

text \<open>
  The properties of processes: scheduling, fairness, the invariant of the reachable states,
  termination, permissions, fork, the change of user and group ids, the program break, and
  the address space a zombie keeps.
\<close>

section \<open>Properties\<close>

text \<open>
  C14: a scheduling interrupt implements round robin. It picks, among the ready processes
  and the one that ran, the first in cyclic order after the current one; it saves the
  interrupted registers in the old process, which becomes ready if it was running, and
  returns the registers saved for the new process, which becomes the one running process,
  with its kernel stack and page tables installed. Nothing else in the process table
  changes. If no process can run, the interrupted one continues.
\<close>

theorem schedule_round_robin:
  assumes ok: "proc_ok s" and en: "scheduling_enabled s" and r: "proc_schedule_interrupt frame s = (regs, t)"
  shows "if \<exists>k<64. runnable s k
    then \<exists>j<64. runnable s j \<and> (\<forall>k<64. runnable s k \<longrightarrow> turn (current_proc s) j \<le> turn (current_proc s) k)
      \<and> current_proc t = int j \<and> (\<forall>k<64. pstate (proc_table t k) = PROC_RUNNING \<longleftrightarrow> k = j)
      \<and> regs = (if int j = current_proc s then frame else ctx (proc_table s j))
      \<and> tss_stack t = kernel_stack_top (proc_table s j) \<and> cr3 t = space_pml4 s (pcb_space (proc_table s j))
      \<and> (\<forall>k<64. proc_table t k = scheduled frame s j k)
    else regs = frame \<and> current_proc t = current_proc s \<and> cr3 t = cr3 s \<and> tss_stack t = tss_stack s
      \<and> (\<forall>k<64. int k \<noteq> current_proc s \<longrightarrow> proc_table t k = proc_table s k)"
proof (cases "\<exists>k<64. runnable s k")
  case False
  then have "regs = frame" "t = save_old frame s" using schedule_None [OF ok en, of frame] r by auto
  then show ?thesis using False by auto
next
  case True
  then obtain k where "k < 64" "runnable s k" by blast
  from schedule_Some [OF ok en this] obtain j where j: "j < 64" "runnable s j"
      "\<And>k. k < 64 \<Longrightarrow> runnable s k \<Longrightarrow> turn (current_proc s) j \<le> turn (current_proc s) k"
      and e: "proc_schedule_interrupt frame s = (ctx (proc_table (save_old frame s) j), switch_to j (save_old frame s))"
    by metis
  have u: "used (proc_table s j)" using j(2) by (auto simp: runnable_def used_def)
  have t: "t = switch_to j (save_old frame s)" "regs = ctx (proc_table (save_old frame s) j)" using e r by auto
  have A: "pstate (proc_table t k) = PROC_RUNNING \<longleftrightarrow> k = j" if "k < 64" for k
    using save_old_not_running [OF ok that, of frame] by (simp add: t del: save_old_simps(1))
  have B: "proc_table t k = scheduled frame s j k" for k
    using table_okD(1) [OF ok [unfolded proc_ok_def]] by (auto simp: t scheduled_def Let_def used_def)
  have C: "regs = (if int j = current_proc s then frame else ctx (proc_table s j))"
    using u by (auto simp: t used_def)
  have D: "tss_stack t = kernel_stack_top (proc_table s j)" "cr3 t = space_pml4 s (pcb_space (proc_table s j))" "current_proc t = int j"
    by (auto simp: t)
  show ?thesis unfolding if_P [OF True] by (intro exI [of _ j] conjI allI impI j A B C D)
qed

text \<open>
  C15: a ready process is not starved. However the running processes and the kernel work
  between the interrupts, as long as they do not stop the process, after at most 64
  scheduling interrupts it is the running one.
\<close>

theorem ready_process_runs:
  assumes "proc_ok s" "scheduling_enabled s" "i < 64" "pstate (proc_table s i) = PROC_READY"
    "\<forall>(f, w) \<in> set ws. lets_wait i w" "64 \<le> length ws"
  shows "\<exists>k \<le> 64. current_proc (rounds (take k ws) s) = int i \<and> pstate (proc_table (rounds (take k ws) s) i) = PROC_RUNNING"
proof -
  have "turn (current_proc s) i \<le> 64" using assms(1,3) by (intro conjunct2 [OF turn_bounds]) (auto simp: proc_ok_def table_ok_def)
  with rounds_reach [OF assms(1-5)] assms(6) show ?thesis by (meson order_trans)
qed


text \<open>
  C16: \<open>proc_terminate\<close> always returns. The process becomes a zombie with its exit code; all
  its live descendants, and no others, are removed; a parent that waits for it and a
  parent blocked by vfork become ready; no other process changes, and the table stays
  consistent.
\<close>

theorem proc_terminate_correct:
  assumes "proc_ok s" "i < 64" "pstate (proc_table s i) \<noteq> PROC_UNUSED"
  shows "\<exists>t. proc_terminate i code s = Some t \<and> proc_ok t \<and> current_proc t = current_proc s
    \<and> pstate (proc_table t i) = PROC_ZOMBIE \<and> ExitCode (proc (proc_table t i)) = ucast code
    \<and> (\<forall>j<64. j \<noteq> i \<longrightarrow> proc_table t j =
         (if descends (proc_table s) (PID (proc (proc_table s i))) j then clear_head (proc_table s j)
          else if vfork_waits (proc_table s) i j \<or> parent_waits (proc_table s) i j then woken (proc_table s j)
          else proc_table s j))"
  using terminate_table [OF assms(1,2) _ outside_fields(1), of code] assms(2,3)
  by (auto simp: used_def terminated_def as_zombie_def)

text \<open>
  C19: \<open>proc_kill_as\<close> kills exactly when the acting user exists, the process exists, and the
  user owns it or has a stronger permission level than its owner; otherwise it returns -1
  and changes nothing.
\<close>

theorem proc_kill_as_permission:
  assumes ok: "proc_ok s" and pid: "word_of_int pid \<noteq> (0 :: u32)"
  shows "if user_exists s actor \<and> (\<exists>i<64. PID (proc (proc_table s i)) = word_of_int pid
        \<and> (actor = Owner (proc (proc_table s i)) \<or> user_get_perm_level s actor < user_get_perm_level s (Owner (proc (proc_table s i)))))
    then \<exists>i<64. \<exists>t. PID (proc (proc_table s i)) = word_of_int pid \<and> proc_kill_as actor pid s = Some (0, t)
        \<and> (\<forall>j<64. proc_table t j = terminated (proc_table s) i 1 j)
    else proc_kill_as actor pid s = Some (-1, s)"
proof (cases "proc_find_index pid s")
  case None
  then show ?thesis using find_index_None [OF None] by (auto simp: proc_kill_as_def proc_can_act_def)
next
  case (Some i)
  note i = find_index_Some [OF Some] pid_slot_used [OF ok Some pid]
  have uq: "j = i" if "j < 64" "PID (proc (proc_table s j)) = word_of_int pid" for j
    using find_index_used [OF ok Some that(1)] that table_okD(5) [OF ok [unfolded proc_ok_def] that(1)] pid by auto
  obtain t where k: "proc_terminate i 1 s = Some t" "\<forall>j<64. proc_table t j = terminated (proc_table s) i 1 j"
    using terminate_table [OF ok i(2,3) outside_fields(1), of 1] by blast
  let ?P = "\<lambda>i. actor = Owner (proc (proc_table s i)) \<or> user_get_perm_level s actor < user_get_perm_level s (Owner (proc (proc_table s i)))"
  have ex: "(\<exists>j<64. PID (proc (proc_table s j)) = word_of_int pid \<and> ?P j) \<longleftrightarrow> ?P i" using i uq by blast
  show ?thesis
  proof (cases "user_exists s actor \<and> ?P i")
    case True
    then have "proc_kill_as actor pid s = Some (0, t)" using Some k(1) by (auto simp: proc_kill_as_def proc_can_act_def)
    then show ?thesis unfolding ex if_P [OF True] using i(1) k(2) by blast
  next
    case False
    then have "proc_kill_as actor pid s = Some (-1, s)" using Some by (auto simp: proc_kill_as_def proc_can_act_def)
    then show ?thesis unfolding ex if_not_P [OF False] .
  qed
qed


text \<open>The calls by which a process changes its user and group ids.\<close>

datatype id_call = Setuid int | Seteuid int | Setreuid int int | Setgid int | Setegid int | Setregid int int | Setresgid int int int

fun id_step :: "id_call \<Rightarrow> 'a proc_sys_scheme \<Rightarrow> 'a proc_sys_scheme" where
  "id_step (Setuid u) s = snd (proc_setuid u s)"
| "id_step (Seteuid u) s = snd (proc_seteuid u s)"
| "id_step (Setreuid r e) s = snd (proc_setreuid r e s)"
| "id_step (Setgid g) s = snd (proc_setgid g s)"
| "id_step (Setegid g) s = snd (proc_setegid g s)"
| "id_step (Setregid r e) s = snd (proc_setregid r e s)"
| "id_step (Setresgid r e v) s = snd (proc_setresgid r e v s)"

definition uids :: "Proc_t \<Rightarrow> int set" where
  "uids p = {Owner p, EUID p, SavedUID p}"

definition gids :: "Proc_t \<Rightarrow> int set" where
  "gids p = {Group p, EGroup p, SavedGID p}"

text \<open>\<open>drops s t\<close>: from \<open>s\<close> to \<open>t\<close> the current process got no id it did not have, and nothing else changed.\<close>

definition drops :: "'a proc_sys_scheme \<Rightarrow> 'a proc_sys_scheme \<Rightarrow> bool" where
  "drops s t \<longleftrightarrow> uids (proc (cur_pcb t)) \<subseteq> uids (proc (cur_pcb s)) \<and> gids (proc (cur_pcb t)) \<subseteq> gids (proc (cur_pcb s))
     \<and> current_proc t = current_proc s \<and> users t = users s \<and> groups t = groups s
     \<and> (\<forall>k. int k \<noteq> current_proc s \<longrightarrow> proc_table t k = proc_table s k)"

lemma drops_refl: "drops s s"
  by (simp add: drops_def)

lemma drops_trans: "drops s t \<Longrightarrow> drops t u \<Longrightarrow> drops s u"
  unfolding drops_def by (metis (no_types, lifting) subset_trans)

lemma drops_upd:
  "current_proc s \<ge> 0 \<Longrightarrow> uids (f (proc (cur_pcb s))) \<subseteq> uids (proc (cur_pcb s)) \<Longrightarrow> gids (f (proc (cur_pcb s))) \<subseteq> gids (proc (cur_pcb s)) \<Longrightarrow> drops s (upd_cur f s)"
  by (auto simp: drops_def upd_cur_def)

lemma drops_root: "drops s t \<Longrightarrow> user_is_root t u = user_is_root s u"
  by (simp add: drops_def user_is_root_def user_exists_def)

lemma cur_pcb_upd [simp]: "proc (cur_pcb (upd_cur f s)) = f (proc (cur_pcb s))"
  "proc (proc_table (upd_cur f s) (current s)) = f (proc (cur_pcb s))"
  by (simp_all add: upd_cur_def)

lemma drops_ifI: "(c \<Longrightarrow> drops s a) \<Longrightarrow> (\<not> c \<Longrightarrow> drops s b) \<Longrightarrow> drops s (if c then a else b)"
  by simp

lemma drops_snd_ifI: "(c \<Longrightarrow> drops s (snd a)) \<Longrightarrow> (\<not> c \<Longrightarrow> drops s (snd b)) \<Longrightarrow> drops s (snd (if c then a else b))"
  by simp

lemmas drops_intros = drops_snd_ifI drops_ifI drops_refl drops_upd

lemma setuid_drops:
  assumes e: "\<not> user_is_root s (EUID (proc (cur_pcb s)))"
  shows "drops s (snd (proc_setuid u s))" "drops s (snd (proc_seteuid u s))" "drops s (snd (proc_setgid u s))" "drops s (snd (proc_setegid u s))"
  unfolding proc_setuid_def proc_seteuid_def proc_setgid_def proc_setegid_def Let_def
  by (intro drops_snd_ifI; simp add: e drops_refl; (intro drops_upd; force simp: uids_def gids_def))+

lemma setresgid_drops:
  assumes e: "\<not> user_is_root s (EUID (proc (cur_pcb s)))"
  shows "drops s (snd (proc_setresgid u v w s))"
proof -
  let ?q = "proc (cur_pcb s)"
  let ?own = "\<lambda>g. g = -1 \<or> g \<in> gids ?q"
  show ?thesis
  proof (cases "current_proc s \<ge> 0 \<and> ?own u \<and> ?own v \<and> ?own w")
    case True
    let ?f = "\<lambda>q. q\<lparr>Group := (if u \<noteq> -1 then u else Group q), EGroup := (if v \<noteq> -1 then v else EGroup q),
                    SavedGID := (if w \<noteq> -1 then w else SavedGID q)\<rparr>"
    have own: "Group ?q \<in> gids ?q" "EGroup ?q \<in> gids ?q" "SavedGID ?q \<in> gids ?q" by (simp_all add: gids_def)
    have "gids (?f ?q) = {if u \<noteq> -1 then u else Group ?q, if v \<noteq> -1 then v else EGroup ?q, if w \<noteq> -1 then w else SavedGID ?q}"
      by (simp add: gids_def)
    then have "gids (?f ?q) \<subseteq> gids ?q" using True own by (simp only: insert_subset empty_subsetI split: if_split) blast
    moreover have "uids (?f ?q) = uids ?q" by (simp add: uids_def)
    ultimately have "drops s (upd_cur ?f s)" using True by (intro drops_upd) simp_all
    then show ?thesis unfolding proc_setresgid_def Let_def by (intro drops_snd_ifI) (simp_all add: drops_refl)
  next
    case False
    then show ?thesis using e unfolding proc_setresgid_def Let_def by (intro drops_snd_ifI) (auto simp: drops_refl gids_def)
  qed
qed

lemma upd_cur_upd: "upd_cur f (upd_cur g s) = upd_cur (\<lambda>q. f (g q)) s"
  by (simp add: upd_cur_def upd_pcb_def upd_proc_def)

lemma upd_cur_if: "(if b then upd_cur f s else s) = upd_cur (\<lambda>q. if b then f q else q) s"
  by (simp add: upd_cur_def upd_pcb_def upd_proc_def)

lemma setreuid_drops:
  assumes e: "\<not> user_is_root s (EUID (proc (cur_pcb s)))"
  shows "drops s (snd (proc_setreuid u v s))"
proof -
  let ?q = "proc (cur_pcb s)"
  let ?f1 = "\<lambda>q. if u \<noteq> -1 then q\<lparr>Owner := u\<rparr> else q"
  let ?f2 = "\<lambda>q. if v \<noteq> -1 then (?f1 q)\<lparr>EUID := v\<rparr> else ?f1 q"
  have 1: "drops s (upd_cur ?f1 s)" if "0 \<le> current_proc s" "u = -1 \<or> u = Owner ?q \<or> u = EUID ?q"
    by (rule drops_upd [OF that(1)]; insert that(2); cases "u = -1"; force simp: uids_def gids_def)
  have 2: "drops s (upd_cur (\<lambda>q. if u \<noteq> -1 \<or> v \<noteq> -1 \<and> v \<noteq> Owner ?q then (?f2 q)\<lparr>SavedUID := EUID (?f2 q)\<rparr> else ?f2 q) s)"
    if "0 \<le> current_proc s" "u = -1 \<or> u = Owner ?q \<or> u = EUID ?q" "v = -1 \<or> v = Owner ?q \<or> v = EUID ?q \<or> v = SavedUID ?q"
    by (rule drops_upd [OF that(1)]; insert that(2,3); cases "u = -1"; cases "v = -1"; cases "v = Owner ?q"; force simp: uids_def gids_def)
  show ?thesis
    unfolding proc_setreuid_def Let_def upd_cur_if upd_cur_upd
    by (intro drops_snd_ifI; simp only: snd_conv drops_refl; (rule 1 2)?; insert e; simp split: if_splits)
qed

lemma setregid_drops:
  assumes e: "\<not> user_is_root s (EUID (proc (cur_pcb s)))"
  shows "drops s (snd (proc_setregid u v s))"
proof -
  let ?q = "proc (cur_pcb s)"
  let ?f1 = "\<lambda>q. if u \<noteq> -1 then q\<lparr>Group := u\<rparr> else q"
  let ?f2 = "\<lambda>q. if v \<noteq> -1 then (?f1 q)\<lparr>EGroup := v\<rparr> else ?f1 q"
  have 1: "drops s (upd_cur ?f1 s)" if "0 \<le> current_proc s" "u = -1 \<or> u = Group ?q \<or> u = EGroup ?q"
    by (rule drops_upd [OF that(1)]; insert that(2); cases "u = -1"; force simp: uids_def gids_def)
  have 2: "drops s (upd_cur (\<lambda>q. if u \<noteq> -1 \<or> v \<noteq> -1 \<and> v \<noteq> Group ?q then (?f2 q)\<lparr>SavedGID := EGroup (?f2 q)\<rparr> else ?f2 q) s)"
    if "0 \<le> current_proc s" "u = -1 \<or> u = Group ?q \<or> u = EGroup ?q" "v = -1 \<or> v = Group ?q \<or> v = EGroup ?q \<or> v = SavedGID ?q"
    by (rule drops_upd [OF that(1)]; insert that(2,3); cases "u = -1"; cases "v = -1"; cases "v = Group ?q"; force simp: uids_def gids_def)
  show ?thesis
    unfolding proc_setregid_def Let_def upd_cur_if upd_cur_upd
    by (intro drops_snd_ifI; simp only: snd_conv drops_refl; (rule 1 2)?; insert e; simp split: if_splits)
qed

lemma id_step_drops: "\<not> user_is_root s (EUID (proc (cur_pcb s))) \<Longrightarrow> drops s (id_step c s)"
  by (cases c) (simp_all add: setuid_drops setresgid_drops setreuid_drops setregid_drops)

text \<open>
  C18: a process none of whose user ids is an administrator's cannot gain privileges: after
  any sequence of the calls that set user and group ids, its real, effective and saved ids
  are among those it had before, and no other process, user or group is affected.
\<close>

theorem set_ids_no_escalation:
  assumes "\<forall>u \<in> uids (proc (cur_pcb s)). \<not> user_is_root s u"
  shows "drops s (fold id_step cs s)"
  using assms
proof (induction cs arbitrary: s)
  case (Cons c cs)
  have d: "drops s (id_step c s)" by (rule id_step_drops) (use Cons.prems in \<open>simp add: uids_def\<close>)
  have "\<forall>u \<in> uids (proc (cur_pcb (id_step c s))). \<not> user_is_root (id_step c s) u"
    using Cons.prems d drops_root [OF d] by (auto simp: drops_def)
  from drops_trans [OF d Cons.IH [OF this]] show ?case by simp
qed (simp add: drops_refl)

text \<open>The heap of a process lies between its start and the stack.\<close>

definition brk_limit :: "PCB \<Rightarrow> u64" where
  "brk_limit p = (if stack_vaddr_base p \<noteq> 0 then stack_vaddr_base p else USER_CODE_LIMIT)"

definition heap_within :: "PCB \<Rightarrow> bool" where
  "heap_within p \<longleftrightarrow> heap_vstart p \<le> heap_vend p \<and> heap_vend p \<le> brk_limit p"

lemma brk_cases:
  assumes e: "proc_brk b s = Some (r, t)" and c: "current_proc s \<ge> 0"
  obtains "b = 0" "r = heap_vend (cur_pcb s)" "t = s"
  | "b < heap_vstart (cur_pcb s) \<or> b > brk_limit (cur_pcb s)" "b \<noteq> 0" "r = -1" "t = s"
  | "b > heap_vend (cur_pcb s)" "b \<le> brk_limit (cur_pcb s)" "r = -1" "core t = core s"
  | u where "b \<noteq> 0" "heap_vstart (cur_pcb s) \<le> b" "b \<le> brk_limit (cur_pcb s)" "r = heap_vend (cur_pcb s)" "core u = core s"
      "t = upd_pcb (current s) (\<lambda>p. p\<lparr>heap_vend := b\<rparr>) u"
proof -
  let ?p = "cur_pcb s"
  consider "b = 0" | "b \<noteq> 0" "b < heap_vstart ?p \<or> b > brk_limit ?p" | "b \<noteq> 0" "heap_vstart ?p \<le> b" "b \<le> brk_limit ?p" by force
  then show ?thesis
  proof cases
    case 1
    have n: "\<not> current_proc s < 0" using c by simp
    note e' = e [unfolded proc_brk_def Let_def if_not_P [OF n] if_P [OF 1]]
    then show ?thesis using 1 that(1) by blast
  next
    case 2
    have n: "\<not> current_proc s < 0" "\<not> b = 0" using c 2 by auto
    note e' = e [unfolded proc_brk_def Let_def brk_limit_def [symmetric] if_not_P [OF n(1)] if_not_P [OF n(2)] if_P [OF 2(2)]]
    then show ?thesis using 2 that(2) by blast
  next
    case 3
    obtain ok u where u: "(if b > heap_vend ?p then brk_grow ?p (page_up (heap_vend ?p)) (pages_between (page_up (heap_vend ?p)) (page_up b)) s
        else if b < heap_vend ?p then Some (True, brk_shrink (pcb_space ?p) (page_up b) (pages_between (page_up b) (page_up (heap_vend ?p))) s)
        else Some (True, s)) = Some (ok, u)"
      and r: "(r, t) = (if ok then (heap_vend ?p, upd_pcb (current u) (\<lambda>p. p\<lparr>heap_vend := b\<rparr>) u) else (-1, u))"
    proof -
      have n: "\<not> current_proc s < 0" "\<not> b = 0" "\<not> (b < heap_vstart ?p \<or> brk_limit ?p < b)" using c 3 by auto
      note e' = e [unfolded proc_brk_def Let_def brk_limit_def [symmetric] if_not_P [OF n(1)] if_not_P [OF n(2)] if_not_P [OF n(3)]
        bind_eq_Some_conv]
      then obtain w where "(if b > heap_vend ?p then brk_grow ?p (page_up (heap_vend ?p)) (pages_between (page_up (heap_vend ?p)) (page_up b)) s
        else if b < heap_vend ?p then Some (True, brk_shrink (pcb_space ?p) (page_up b) (pages_between (page_up b) (page_up (heap_vend ?p))) s)
        else Some (True, s)) = Some w" "(case w of (ok, u) \<Rightarrow> if \<not> ok then Some (-1, u)
          else Some (heap_vend ?p, upd_pcb (current u) (\<lambda>p. p\<lparr>heap_vend := b\<rparr>) u)) = Some (r, t)" by blast
      then show ?thesis using that [of "fst w" "snd w"] by (simp add: split_beta split: if_splits)
    qed
    have cu: "core u = core s"
      using u by (auto split: if_splits dest: keeps_brk_grow [OF keeps_core] simp: keeps_brk_shrink [OF keeps_core])
    have "ok \<or> b > heap_vend ?p" using u by (auto split: if_splits)
    then show ?thesis using r cu core_fields [OF cu] 3 that(3) that(4) [of u] by (cases ok) simp_all
  qed
qed

text \<open>
  C20: the program break stays between the start of the heap and the stack of the process.
  \<open>proc_brk\<close> either returns -1 and leaves all processes as they are, or it returns the old
  break and sets the new one, or, for 0, it only returns the break; no other field of any
  process changes.
\<close>

theorem proc_brk_bounds:
  assumes ok: "current_proc s \<ge> 0" "heap_within (cur_pcb s)" and e: "proc_brk b s = Some (r, t)"
  shows "current_proc t = current_proc s \<and> heap_within (cur_pcb t)
    \<and> (if b = 0 then r = heap_vend (cur_pcb s) \<and> t = s
       else if b < heap_vstart (cur_pcb s) \<or> b > brk_limit (cur_pcb s) then r = -1 \<and> t = s
       else r = -1 \<and> proc_table t = proc_table s
         \<or> r = heap_vend (cur_pcb s) \<and> proc_table t = (proc_table s)(current s := (cur_pcb s)\<lparr>heap_vend := b\<rparr>))"
  using e ok(1)
proof (cases rule: brk_cases)
  case 3
  then have "heap_vstart (cur_pcb s) \<le> b" using ok(2) by (auto simp: heap_within_def)
  then show ?thesis using 3 ok core_fields [OF 3(4)] by (auto simp: not_less [symmetric])
next
  case (4 u)
  then show ?thesis using ok core_fields [OF 4(5)] by (simp add: heap_within_def brk_limit_def not_less [symmetric] split: if_splits)
qed (use ok in auto)

text \<open>
  after \<open>proc_exit\<close> switches to another process, the zombie still holds the pointer to
  the address space that was just destroyed, so reaping the zombie destroys it again.
\<close>

theorem proc_exit_dangling_space:
  assumes ok: "proc_ok s" and c: "current_proc s \<ge> 0" "used (cur_pcb s)" and v: "vfork_parent (cur_pcb s) \<le> 0"
    and sp: "address_space (cur_pcb s) = SUser p" and e: "proc_exit code s = Some (Some regs, t)"
    and o: "address_space (cur_pcb t) \<noteq> SUser p"
  shows "\<exists>u. t = vmm_destroy_address_space (SUser p) u \<and> pstate (proc_table t (current s)) = PROC_ZOMBIE
    \<and> address_space (proc_table t (current s)) = SUser p
    \<and> proc_reap (current s) t = upd_pcb (current s) clear_head
        (upd_pcb (current s) (\<lambda>q. q\<lparr>address_space := SNull\<rparr>) (vmm_destroy_address_space (SUser p) t))"
proof -
  note i = proc_ok_current [OF ok c(1)]
  obtain u where u: "proc_terminate (current s) code s = Some u" "proc_table u (current s) = terminated (proc_table s) (current s) code (current s)"
    using terminate_table [OF ok i c(2) outside_fields(1), of code] i by auto
  have z: "pstate (proc_table u (current s)) = PROC_ZOMBIE" "address_space (proc_table u (current s)) = SUser p"
    using v sp by (auto simp: u(2) terminated_def reset_vfork_def as_zombie_def)
  note x = proc_ok_exit_state [OF ok c u(1)]
  obtain j where j: "find_next u = Some j" "t = (if SUser p \<noteq> address_space (proc_table u j) then vmm_destroy_address_space (SUser p) (switch_to j u) else switch_to j u)"
    using e c(1) u(1) z(2) by (auto simp: proc_exit_def Let_def split: option.splits)
  have "-1 \<le> current_proc u" "current_proc u < 64" using x(1) by (auto simp: proc_ok_def table_ok_def)
  from find_next_Some [OF this j(1)] z have ji: "j \<noteq> current s" by auto
  have "proc_table t = proc_table (switch_to j u)" "current_proc t = int j"
    by (simp_all add: j(2) keeps_destroy [OF keeps_fields(1)] keeps_destroy [OF keeps_fields(2)])
  then have t: "t = vmm_destroy_address_space (SUser p) (switch_to j u)" "proc_table t (current s) = proc_table u (current s)"
    using o j(2) ji by (auto split: if_splits)
  then show ?thesis using z by (intro exI [of _ "switch_to j u"]) (simp add: proc_reap_def release_pcb_def Let_def)
qed

section \<open>Witnesses\<close>

text \<open>A table with the running process 1 in slot 0 and the ready process 2, a child of \<open>pp\<close>, in slot 1.\<close>

definition pdemo_pcb :: "u32 \<Rightarrow> u32 \<Rightarrow> ProcState \<Rightarrow> PCB" where
  "pdemo_pcb pid ppid st = zero_pcb\<lparr>proc := zero_proc\<lparr>PID := pid, PPID := ppid, WaitingFor := -1\<rparr>, pstate := st, vfork_parent := -1\<rparr>"

definition pdemo :: "u32 \<Rightarrow> proc_sys" where
  "pdemo pp = user_sys.extend udemo_root (proc_sys.fields
     ((\<lambda>_. zero_pcb)(0 := pdemo_pcb 1 0 PROC_RUNNING, 1 := pdemo_pcb 2 pp PROC_READY)) 0 3 True USER_CODE_BASE None (\<lambda>_. 0) 0)"

lemma pdemo_fields [simp]:
  "proc_table (pdemo pp) = (\<lambda>_. zero_pcb)(0 := pdemo_pcb 1 0 PROC_RUNNING, 1 := pdemo_pcb 2 pp PROC_READY)"
  "current_proc (pdemo pp) = 0" "next_pid (pdemo pp) = 3" "scheduling_enabled (pdemo pp)"
  "users (pdemo pp) = users udemo_root" "groups (pdemo pp) = groups udemo_root"
  by (simp_all add: pdemo_def proc_sys.defs user_sys.defs heap.defs)

lemma pdemo_pcb_fields [simp]:
  "PID (proc (pdemo_pcb a b st)) = a" "PPID (proc (pdemo_pcb a b st)) = b" "pstate (pdemo_pcb a b st) = st"
  "WaitingFor (proc (pdemo_pcb a b st)) = -1" "address_space (pdemo_pcb a b st) = SNull" "vfork_parent (pdemo_pcb a b st) = -1"
  "Owner (proc (pdemo_pcb a b st)) = 0" "EUID (proc (pdemo_pcb a b st)) = 0" "SavedUID (proc (pdemo_pcb a b st)) = 0"
  by (simp_all add: pdemo_pcb_def zero_pcb_def zero_proc_def)

lemma zero_pcb_fields [simp]: "pstate zero_pcb = PROC_UNUSED" "proc zero_pcb = zero_proc" "PID zero_proc = 0" "WaitingFor zero_proc = 0" "PPID zero_proc = 0"
  by (simp_all add: zero_pcb_def zero_proc_def)

lemma pdemo_ok: "pp < 2 \<Longrightarrow> proc_ok (pdemo pp)"
  by (auto simp: proc_ok_def table_ok_def used_def)

theorem schedule_round_robin_witness:
  "\<exists>regs t. proc_schedule_interrupt zero_regs (pdemo 1) = (regs, t) \<and> current_proc t = 1 \<and> pstate (proc_table t 1) = PROC_RUNNING"
proof -
  obtain regs t where r: "proc_schedule_interrupt zero_regs (pdemo 1) = (regs, t)" by (meson surj_pair)
  have ex: "\<exists>k<64. runnable (pdemo 1) k" by (intro exI [of _ 1]) (simp add: runnable_def)
  from schedule_round_robin [OF pdemo_ok _ r] ex obtain j where j: "j < 64" "runnable (pdemo 1) j"
      "\<forall>k<64. runnable (pdemo 1) k \<longrightarrow> turn 0 j \<le> turn 0 k" "current_proc t = int j" "\<forall>k<64. pstate (proc_table t k) = PROC_RUNNING \<longleftrightarrow> k = j"
    by auto
  have "j = 0 \<or> j = 1" using j(2) by (auto simp: runnable_def split: if_splits)
  moreover have "turn 0 j \<le> turn 0 1" using j(3) by (auto simp: runnable_def)
  ultimately have "j = 1" by (auto simp: turn_def)
  then show ?thesis using r j by auto
qed

theorem ready_process_runs_witness:
  "\<exists>k \<le> 64. current_proc (rounds (take k (replicate 64 (zero_regs, id))) (pdemo 1)) = 1
    \<and> pstate (proc_table (rounds (take k (replicate 64 (zero_regs, id))) (pdemo 1)) 1) = PROC_RUNNING"
proof -
  have w: "\<forall>(f, w) \<in> set (replicate 64 (zero_regs, id)). lets_wait 1 w" by (simp add: lets_wait_def)
  have "proc_ok (pdemo 1)" by (rule pdemo_ok) simp
  from ready_process_runs [OF this _ _ _ w] show ?thesis by simp
qed


theorem proc_terminate_correct_witness:
  "\<exists>t. proc_terminate 0 7 (pdemo 1) = Some t \<and> pstate (proc_table t 0) = PROC_ZOMBIE \<and> ExitCode (proc (proc_table t 0)) = 7
    \<and> pstate (proc_table t 1) = PROC_UNUSED"
proof -
  have d: "descends (proc_table (pdemo 1)) (PID (proc (proc_table (pdemo 1) 0))) 1" by (rule descends.child) (auto simp: live_def)
  have ok: "proc_ok (pdemo 1)" "0 < (64 :: nat)" "pstate (proc_table (pdemo 1) 0) \<noteq> PROC_UNUSED" by (auto intro: pdemo_ok)
  from proc_terminate_correct [OF ok, of 7] obtain t where t: "proc_terminate 0 7 (pdemo 1) = Some t" "pstate (proc_table t 0) = PROC_ZOMBIE"
      "ExitCode (proc (proc_table t 0)) = ucast (7 :: u64)"
      and n: "\<And>j. j < 64 \<Longrightarrow> j \<noteq> 0 \<Longrightarrow> descends (proc_table (pdemo 1)) (PID (proc (proc_table (pdemo 1) 0))) j \<Longrightarrow>
        proc_table t j = clear_head (proc_table (pdemo 1) j)" by metis
  from n [OF _ _ d] t show ?thesis by (intro exI [of _ t]) simp
qed

lemma pdemo_root: "user_exists (pdemo pp) 0"
  by (simp add: user_exists_def udemo_root_def udemo_fields root_user_def)

theorem proc_kill_as_permission_witness:
  "\<exists>t. proc_kill_as 0 2 (pdemo 1) = Some (0, t)"
proof -
  have ok: "proc_ok (pdemo 1)" by (rule pdemo_ok) simp
  have "user_exists (pdemo 1) 0 \<and> (\<exists>i<64. PID (proc (proc_table (pdemo 1) i)) = word_of_int 2
        \<and> (0 = Owner (proc (proc_table (pdemo 1) i))
          \<or> user_get_perm_level (pdemo 1) 0 < user_get_perm_level (pdemo 1) (Owner (proc (proc_table (pdemo 1) i)))))"
    using pdemo_root by (intro conjI exI [of _ 1]) auto
  then show ?thesis using proc_kill_as_permission [OF ok, of 2 0] by auto
qed


definition pdemo_user :: proc_sys where
  "pdemo_user = upd_pcb 0 (upd_proc (\<lambda>q. q\<lparr>Owner := 5, EUID := 5, SavedUID := 5\<rparr>)) (pdemo 1)"

theorem set_ids_no_escalation_witness:
  "EUID (proc (cur_pcb (fold id_step [Setuid 0, Setreuid 0 0, Seteuid 0] pdemo_user))) = 5"
proof -
  have u: "uids (proc (cur_pcb pdemo_user)) = {5}" "user_is_root pdemo_user 5 = False"
    by (simp_all add: pdemo_user_def uids_def user_is_root_def user_exists_def udemo_root_def udemo_fields blank_user_def)
  have "drops pdemo_user (fold id_step [Setuid 0, Setreuid 0 0, Seteuid 0] pdemo_user)"
    by (rule set_ids_no_escalation) (simp add: u)
  then have "uids (proc (cur_pcb (fold id_step [Setuid 0, Setreuid 0 0, Seteuid 0] pdemo_user))) \<subseteq> {5}"
    unfolding drops_def u(1) by (rule conjunct1)
  then show ?thesis unfolding uids_def by blast
qed

definition pdemo_heap :: proc_sys where
  "pdemo_heap = upd_pcb 0 (\<lambda>p. p\<lparr>heap_vstart := 0x101000, heap_vend := 0x101800, stack_vaddr_base := 0x20000000\<rparr>) (pdemo 1)"

theorem proc_brk_bounds_witness:
  "\<exists>t. proc_brk 0x101400 pdemo_heap = Some (0x101800, t) \<and> heap_within (cur_pcb t)"
proof -
  have p: "heap_vstart (proc_table pdemo_heap 0) = 0x101000" "heap_vend (proc_table pdemo_heap 0) = 0x101800"
      "stack_vaddr_base (proc_table pdemo_heap 0) = 0x20000000" "current_proc pdemo_heap = 0"
    by (simp_all add: pdemo_heap_def)
  have h: "heap_within (cur_pcb pdemo_heap)" by (simp add: heap_within_def brk_limit_def p)
  have "proc_brk 0x101400 pdemo_heap = Some (0x101800, upd_pcb 0 (\<lambda>p. p\<lparr>heap_vend := 0x101400\<rparr>) pdemo_heap)"
    by (simp add: proc_brk_def p Let_def pages_between_def page_up_def)
  then show ?thesis using proc_brk_bounds [OF _ h] p by (metis order_refl)
qed

definition pdemo_exit :: proc_sys where
  "pdemo_exit = upd_pcb 0 (\<lambda>p. p\<lparr>address_space := SUser 0x5000\<rparr>) (pdemo 0)"

theorem proc_exit_dangling_space_witness:
  "\<exists>regs t. proc_exit 0 pdemo_exit = Some (Some regs, t) \<and> pstate (proc_table t 0) = PROC_ZOMBIE \<and> address_space (proc_table t 0) = SUser 0x5000"
proof -
  have f: "proc_table pdemo_exit = (\<lambda>_. zero_pcb)(0 := (pdemo_pcb 1 0 PROC_RUNNING)\<lparr>address_space := SUser 0x5000\<rparr>, 1 := pdemo_pcb 2 0 PROC_READY)"
      "current_proc pdemo_exit = 0"
    by (auto simp: pdemo_exit_def)
  have ok: "proc_ok pdemo_exit" unfolding pdemo_exit_def by (rule proc_ok_upd) (auto intro: pdemo_ok simp: used_def)
  have u: "used (proc_table pdemo_exit 0)" by (simp add: f used_def)
  have nd: "\<not> descends (proc_table pdemo_exit) 1 j" for j
  proof
    assume "descends (proc_table pdemo_exit) 1 j"
    then have "1 \<noteq> (1 :: u32)"
      by (induction "1 :: u32" j rule: descends.induct) (auto simp: f live_def split: if_splits)
    then show False by simp
  qed
  obtain v where v: "proc_terminate 0 0 pdemo_exit = Some v" "\<forall>j<64. proc_table v j = terminated (proc_table pdemo_exit) 0 0 j"
      "current_proc v = 0"
    using terminate_table [OF ok _ u outside_fields(1), of 0] f(2) by auto
  have v1: "pstate (proc_table v 1) = PROC_READY" "address_space (proc_table v 1) = SNull"
    using v(2) nd by (auto simp: f terminated_def vfork_waits_def parent_waits_def)
  have "find_next v = Some 1"
    unfolding find_next_scan using v1(1) v(3) by (simp add: scan.simps)
  then obtain t where e: "proc_exit 0 pdemo_exit = Some (Some (ctx (proc_table v 1)), t)" "current_proc t = 1" "address_space (proc_table t 1) = SNull"
    using v v1 f(2) by (auto simp: proc_exit_def Let_def keeps_destroy [OF keeps_fields(1)] keeps_destroy [OF keeps_fields(2)])
  from proc_exit_dangling_space [OF ok _ _ _ _ e(1), of "0x5000"] e u show ?thesis by (auto simp: f)
qed

end
