(* ===== verification/UnixProps.thy ===== *)
theory UnixProps
  imports UnixInv ProcProps
begin

text \<open>
  The properties of the Unix domain sockets: the ring buffer refines a queue, every reachable
  socket table is well formed, connections are made in order and deliver bytes in order.
\<close>

section \<open>Steps of the kernel\<close>

inductive sys_step :: "'a sock_sys_scheme \<Rightarrow> 'a sock_sys_scheme \<Rightarrow> bool" where
  proc_step: "proc_step s t \<Longrightarrow> sock_table t = sock_table s \<Longrightarrow> sys_step s t"
| create: "sys_step s (snd (unix_sock_create ty s))"
| destroy: "sys_step s (unix_sock_destroy sid s)"
| bind: "sys_step s (snd (unix_sock_bind sid path s))"
| listen: "sys_step s (snd (unix_sock_listen sid s))"
| accept: "caller_ok s \<Longrightarrow> sys_step s (snd (unix_sock_accept sid s))"
| connect: "caller_ok s \<Longrightarrow> sys_step s (snd (unix_sock_connect sid p s))"
| sock_write: "sys_step s (snd (unix_sock_write sid src s))"
| write_resume: "sys_step s (snd (unix_sock_write_resume sid src w s))"
| sendto: "sys_step s (snd (unix_sock_sendto sid src p s))"
| sock_read: "caller_ok s \<Longrightarrow> sys_step s (snd (snd (unix_sock_read sid want s)))"
| read_resume: "caller_ok s \<Longrightarrow> sys_step s (snd (snd (unix_sock_read_resume sid want s)))"
| recvfrom: "caller_ok s \<Longrightarrow> sys_step s (snd (snd (unix_sock_recvfrom sid want s)))"
| recvfrom_resume: "caller_ok s \<Longrightarrow> sys_step s (snd (snd (unix_sock_recvfrom_resume sid want s)))"

inductive sys_reachable :: "'a sock_sys_scheme \<Rightarrow> bool" where
  init: "proc_reachable s \<Longrightarrow> sys_reachable (unix_sock_init s)"
| step: "sys_reachable s \<Longrightarrow> sys_step s t \<Longrightarrow> sys_reachable t"

lemma sys_ok_init: "proc_ok s \<Longrightarrow> sys_ok (unix_sock_init s)"
  by (simp add: sys_ok_def unix_sock_init_def proc_ok_def sock_ok_def sock_wf_def zero_socket_def pending_def)

lemma sys_ok_proc_step: "proc_step s t \<Longrightarrow> sock_table t = sock_table s \<Longrightarrow> sys_ok s \<Longrightarrow> sys_ok t"
  by (simp add: sys_ok_def sock_ok_same [of t s] proc_step_ok)

lemmas sys_ok_ops = sys_ok_proc_step sys_ok_create sys_ok_destroy sys_ok_bind sys_ok_listen sys_ok_accept sys_ok_connect
  sys_ok_write sys_ok_write_resume sys_ok_sendto sys_ok_read

lemma sys_step_ok: "sys_step s t \<Longrightarrow> sys_ok s \<Longrightarrow> sys_ok t"
  by (induction rule: sys_step.induct) (rule sys_ok_ops; assumption)+

lemma sys_reachable_ok: "sys_reachable s \<Longrightarrow> sys_ok s"
  by (induction rule: sys_reachable.induct) (auto intro: sys_ok_init sys_step_ok proc_reachable_ok)

section \<open>Connected pairs\<close>

lemma sock_get_in_use: "i < 64 \<Longrightarrow> in_use (sock_table s i) \<Longrightarrow> unix_sock_get (int i) s = Some i"
  by (simp add: unix_sock_get_def)

lemma delivered_procs:
  "proc_table (delivered p bs s) = proc_table (if blocked_reader_pid (sock_table s p) \<ge> 0 then proc_unblock (blocked_reader_pid (sock_table s p)) s else s)"
  by (simp add: delivered_def wake_reader_def proc_unblock_def proc_find_index_def upd_pcb_def upd_sock_def split: option.split)

text \<open>A writer whose peer is open delivers as much as there is room for.\<close>

lemma write_delivers:
  assumes ok: "sys_ok s" and i: "i < 64" "in_use (sock_table s i)" "us_state (sock_table s i) = US_CONNECTED" "peer_id (sock_table s i) = int p"
    and p: "p < 64" "in_use (sock_table s p)" "us_state (sock_table s p) \<noteq> US_CLOSED" and len: "length bs < 2 ^ 32" "bs \<noteq> []"
  shows "unix_sock_write (int i) bs s =
    (let room = UNIX_BUF_SIZE - length (ring_bytes (rx (sock_table s p))) in
     (if length bs \<le> room then SDone (int (length bs)) else SMore room, if room = 0 then s else delivered p (take room bs) s))"
proof -
  have ring: "ring_ok (rx (sock_table s p))" using sys_ok_wf [OF ok p(1)] by (simp add: sock_wf_def)
  have get: "unix_sock_get (peer_id (sock_table s i)) s = Some p" using i p by (simp add: sock_get_in_use)
  have "unix_sock_write (int i) bs s = write_loop i bs (length bs) 0 s" using i len by (simp add: unix_sock_write_def sock_get_in_use)
  then show ?thesis using len(2) write_loop_run [OF get p(3) ring, of 0 "length bs" bs]
    by (auto simp: Let_def space_left_wf [OF ring])
qed

lemma read_takes:
  assumes ok: "sys_ok s" and p: "p < 64" "in_use (sock_table s p)" "us_state (sock_table s p) \<in> {US_CONNECTED, US_CLOSED}"
    and ne: "ring_bytes (rx (sock_table s p)) \<noteq> []"
  shows "\<exists>r. unix_sock_read (int p) want s = (SDone (int (length (take (unat want) (ring_bytes (rx (sock_table s p)))))),
      take (unat want) (ring_bytes (rx (sock_table s p))), upd_sock p (\<lambda>k. k\<lparr>rx := r\<rparr>) s)
    \<and> ring_ok r \<and> ring_bytes r = drop (unat want) (ring_bytes (rx (sock_table s p)))"
proof -
  have ring: "ring_ok (rx (sock_table s p))" using sys_ok_wf [OF ok p(1)] by (simp add: sock_wf_def)
  have "rb_count (rx (sock_table s p)) \<noteq> 0" using ne by (auto simp: ring_bytes_arc)
  then have "unix_sock_read (int p) want s = take_rx p want s"
    using p by (auto simp: unix_sock_read_def unix_sock_read_resume_def sock_get_in_use)
  with take_rx_run [OF ring, of want] show ?thesis by simp
qed

section \<open>Accepting\<close>

lemma find_free_pop: "find_free (upd_sock i pop_backlog s) = find_free s"
  by (simp add: find_free_def) (rule arg_cong [where f = "\<lambda>P. scan P 0 64"], auto simp: pop_backlog_def)

lemma wake_reader_procs:
  "proc_table (wake_reader i s) = proc_table (if blocked_reader_pid (sock_table s i) \<ge> 0 then proc_unblock (blocked_reader_pid (sock_table s i)) s else s)"
  by (simp add: wake_reader_def)

lemma proc_table_ops_cong:
  "proc_table s = proc_table t \<Longrightarrow> proc_table (proc_unblock pid s) = proc_table (proc_unblock pid t)"
  "proc_table s = proc_table t \<Longrightarrow> proc_table (proc_block pid s) = proc_table (proc_block pid t)"
  by (simp_all add: proc_unblock_def proc_block_def proc_find_index_def upd_pcb_def split: option.split)

lemma pending_blocked [simp]: "pending (k\<lparr>blocked_reader_pid := p\<rparr>) = pending k"
  by (simp add: pending_def)

lemma accept_pending_run:
  assumes ok: "sys_ok s" and l: "l < 64" "in_use (sock_table s l)" "pending (sock_table s l) = e # es"
    and n: "find_free s = Some n" and c: "client_sock_id e = int c" "in_use (sock_table s c)" "c \<noteq> l"
  shows "fst (accept_pending l s) = int n"
    "sock_table (snd (accept_pending l s)) = (sock_table s)(l := pop_backlog (sock_table s l), n := new_connection l e s,
       c := (sock_table s c)\<lparr>us_state := US_CONNECTED, peer_id := int n\<rparr>)"
    "proc_table (snd (accept_pending l s)) = proc_table (unblock_client (client_pid e) s)"
    "pending (sock_table (snd (accept_pending l s)) l) = es"
proof -
  note wf = sys_ok_wf [OF ok l(1)]
  have cnt: "backlog_count (sock_table s l) > 0" using l(3) wf by (cases "backlog_count (sock_table s l) = 0") (auto simp: pending_def sock_wf_def)
  have f: "front_pending (sock_table s l) = e" "pending (pop_backlog (sock_table s l)) = es"
    using pending_pop(1) [OF wf cnt] l(3) by auto
  have nn: "n < 64" "\<not> in_use (sock_table s n)" using find_free_Some [OF n] by auto
  then have d: "n \<noteq> l" "n \<noteq> c" using l(2) c(2) by auto
  have c64: "c < 64" using wf l(3) c(1) by (simp add: sock_wf_def)
  let ?s = "upd_sock l pop_backlog s"
  have new: "new_connection l e ?s = new_connection l e s"
    by (simp add: new_connection_def pop_backlog_def)
  let ?t = "upd_sock n (\<lambda>_. new_connection l e s) ?s"
  have "unix_sock_get (int c) ?t = Some c" using c d c64 by (simp add: sock_get_in_use)
  then have a: "accept_pending l s =
      (int n, unblock_client (client_pid e) (upd_sock c (\<lambda>k. k\<lparr>us_state := US_CONNECTED, peer_id := int n\<rparr>) ?t))"
    by (simp add: accept_pending_def Let_def f(1) find_free_pop n new pair_client_def c(1))
  show "fst (accept_pending l s) = int n" by (simp add: a)
  show t: "sock_table (snd (accept_pending l s)) = (sock_table s)(l := pop_backlog (sock_table s l), n := new_connection l e s,
       c := (sock_table s c)\<lparr>us_state := US_CONNECTED, peer_id := int n\<rparr>)"
    using c(3) d by (simp add: a)
  show "pending (sock_table (snd (accept_pending l s)) l) = es" using d c(3) by (simp add: t f(2))
  show "proc_table (snd (accept_pending l s)) = proc_table (unblock_client (client_pid e) s)"
    unfolding a unblock_client_def by (auto intro!: proc_table_ops_cong)
qed

lemma accept_run:
  assumes "l < 64" "in_use (sock_table s l)" "us_state (sock_table s l) = US_LISTENING" "pending (sock_table s l) = e # es"
  shows "unix_sock_accept (int l) s = (SDone (fst (accept_pending l s)), snd (accept_pending l s))"
proof -
  have "backlog_count (sock_table s l) \<noteq> 0" using assms(4) by (auto simp: pending_def)
  then show ?thesis using assms by (simp add: unix_sock_accept_def sock_get_in_use split_beta)
qed

lemma connect_run:
  assumes ok: "sys_ok s" and c: "c < 64" "in_use (sock_table s c)" "us_state (sock_table s c) \<in> {US_CREATED, US_BOUND}" "us_type (sock_table s c) = SOCK_STREAM"
    and v: "find_listener path s = Some v" "length (pending (sock_table s v)) < 8"
  defines "e \<equiv> \<lparr>client_sock_id = int c, client_pid = proc_get_current_pid s, accepted = False, peer_sock_id = -1\<rparr>"
  shows "\<exists>t. unix_sock_connect (int c) path s = (SBlock, t) \<and> pending (sock_table t v) = pending (sock_table s v) @ [e]
    \<and> (\<forall>j. j \<noteq> v \<longrightarrow> sock_table t j = sock_table s j)
    \<and> proc_table t = proc_table (proc_block (proc_get_current_pid s) (wake_reader v s))"
proof -
  have v64: "v < 64" using find_listener_Some [OF v(1)] by simp
  note wf = sys_ok_wf [OF ok v64]
  have cnt: "backlog_count (sock_table s v) < 8" using v(2) wf by (simp add: pending_def sock_wf_def)
  let ?t = "proc_block (proc_get_current_pid s) (wake_reader v (upd_sock v (push_backlog e) s))"
  have "unix_sock_connect (int c) path s = (SBlock, ?t)"
    using c v cnt by (auto simp: unix_sock_connect_def sock_get_in_use Let_def e_def)
  moreover have "pending (sock_table ?t v) = pending (sock_table s v) @ [e]"
    using pending_push [OF wf cnt, of e] by (simp add: wake_reader_table pending_blocked)
  moreover have "proc_table ?t = proc_table (proc_block (proc_get_current_pid s) (wake_reader v s))"
    by (rule proc_table_ops_cong) (auto simp: wake_reader_procs push_backlog_def intro: proc_table_ops_cong)
  ultimately show ?thesis by (auto simp: wake_reader_table)
qed

section \<open>Properties of the sockets\<close>

text \<open>
  C21: the ring buffer refines a bounded queue of bytes. Any sequence of \<open>rb_write\<close> and
  \<open>rb_read\<close> calls accepts and returns the same bytes as the abstract queue of at most 8192
  bytes, so that no byte is lost, duplicated or reordered, and the indices stay valid.
\<close>

theorem ring_refines_queue:
  assumes "ring_ok rb" "\<forall>bs. Put bs \<in> set ops \<longrightarrow> length bs + UNIX_BUF_SIZE < 2 ^ 32" "run_queue rb_write rb_read ops rb = (w, r, rb')"
  shows "ring_ok rb' \<and> run_queue (spec_write UNIX_BUF_SIZE) spec_read ops (ring_bytes rb) = (w, r, ring_bytes rb')
    \<and> ring_bytes rb @ w = r @ ring_bytes rb'"
  using rbq.run_refines [of rb ops w r rb'] spec_fifo [of 8192 ops "ring_bytes rb" w r "ring_bytes rb'"] assms by simp

text \<open>
  C22: in every state reached from \<open>unix_sock_init\<close> by the kernel's steps each slot of the
  socket table is well formed: the ring buffer and the backlog have valid indices that
  agree with their counts, the path is terminated, the peer is -1 or a slot number, the
  state agrees with \<open>in_use\<close>, and pending clients name slots and processes.
\<close>

theorem socket_table_invariant:
  assumes "sys_reachable s" "i < 64" "k = sock_table s i"
  shows "length (rb_data (rx k)) = 8192 \<and> unat (rb_head (rx k)) < 8192 \<and> unat (rb_count (rx k)) \<le> 8192
    \<and> unat (rb_tail (rx k)) = (unat (rb_head (rx k)) + unat (rb_count (rx k))) mod 8192
    \<and> length (backlog k) = 8 \<and> 0 \<le> backlog_head k \<and> backlog_head k < 8 \<and> 0 \<le> backlog_count k \<and> backlog_count k \<le> 8
    \<and> backlog_tail k = (backlog_head k + backlog_count k) mod 8
    \<and> length (us_path k) = 108 \<and> us_path k ! 107 = NUL
    \<and> -1 \<le> peer_id k \<and> peer_id k < 64 \<and> (in_use k \<longrightarrow> us_state k \<noteq> US_FREE) \<and> (\<not> in_use k \<longrightarrow> us_state k \<in> {US_FREE, US_CLOSED})
    \<and> (\<forall>e\<in>set (pending k). 0 \<le> client_sock_id e \<and> client_sock_id e < 64 \<and> word_of_int (client_pid e) \<noteq> (0 :: u32))"
proof -
  have wf: "sock_wf k" using sys_ok_wf [OF sys_reachable_ok [OF assms(1)] assms(2)] assms(3) by simp
  show ?thesis using wf by (simp add: sock_wf_def ring_ok_def)
qed

text \<open>
  C23: what is written to one end of a connection is read at the other. A write puts as many
  bytes as there is room for at the end of the peer's queue and returns the length, or goes
  on waiting with the rest; it wakes the reader that waits there and changes no other
  socket. The next read returns the first bytes of that queue, in order.
\<close>

theorem stream_roundtrip:
  fixes s :: "'a sock_sys_scheme"
  assumes ok: "sys_ok s" and i: "i < 64" "in_use (sock_table s i)" "us_state (sock_table s i) = US_CONNECTED" "peer_id (sock_table s i) = int p"
    and p: "p < 64" "in_use (sock_table s p)" "us_state (sock_table s p) = US_CONNECTED"
    and bs: "length bs < 2 ^ 32" "bs \<noteq> []"
    and q: "q = ring_bytes (rx (sock_table s p))" "room = UNIX_BUF_SIZE - length q"
    and wr: "unix_sock_write (int i) bs s = (r, t)"
  shows "r = (if length bs \<le> room then SDone (int (length bs)) else SMore room)
    \<and> ring_bytes (rx (sock_table t p)) = q @ take room bs
    \<and> (\<forall>j. j \<noteq> p \<longrightarrow> sock_table t j = sock_table s j)
    \<and> proc_table t = proc_table (if room > 0 \<and> blocked_reader_pid (sock_table s p) \<ge> 0 then proc_unblock (blocked_reader_pid (sock_table s p)) s else s)
    \<and> (\<exists>u. unix_sock_read (int p) want t = (SDone (int (length (take (unat want) (q @ take room bs)))), take (unat want) (q @ take room bs), u)
         \<and> ring_bytes (rx (sock_table u p)) = drop (unat want) (q @ take room bs)
         \<and> (\<forall>j. j \<noteq> p \<longrightarrow> sock_table u j = sock_table s j))"
proof -
  have ring: "ring_ok (rx (sock_table s p))" using sys_ok_wf [OF ok p(1)] by (simp add: sock_wf_def)
  have "us_state (sock_table s p) \<noteq> US_CLOSED" using p by simp
  from write_delivers [OF ok i p(1,2) this bs] wr
  have r: "r = (if length bs \<le> room then SDone (int (length bs)) else SMore room)" and t: "t = (if room = 0 then s else delivered p (take room bs) s)"
    by (simp_all add: q Let_def)
  have sp: "length (take room bs) \<le> space_left (sock_table s p)" by (simp add: space_left_wf [OF ring] q)
  have queue: "ring_bytes (rx (sock_table t p)) = q @ take room bs" using delivered_rx(2) [OF ring sp] by (simp add: t q)
  have others: "\<forall>j. j \<noteq> p \<longrightarrow> sock_table t j = sock_table s j" by (auto simp: t delivered_table [of p _ s])
  have procs: "proc_table t = proc_table (if room > 0 \<and> blocked_reader_pid (sock_table s p) \<ge> 0 then proc_unblock (blocked_reader_pid (sock_table s p)) s else s)"
    by (simp add: t delivered_procs)
  have ok': "sys_ok t" using ok sys_ok_delivered [OF ok p(1) sp] by (simp add: t)
  have ne: "ring_bytes (rx (sock_table t p)) \<noteq> []" using bs(2) unfolding queue by (cases "room = 0") (auto simp: q(2))
  have open_t: "in_use (sock_table t p)" "us_state (sock_table t p) \<in> {US_CONNECTED, US_CLOSED}" using p by (simp_all add: t)
  obtain v where v: "unix_sock_read (int p) want t = (SDone (int (length (take (unat want) (q @ take room bs)))),
      take (unat want) (q @ take room bs), upd_sock p (\<lambda>k. k\<lparr>rx := v\<rparr>) t)" "ring_bytes v = drop (unat want) (q @ take room bs)"
    using read_takes [OF ok' p(1) open_t ne, of want] unfolding queue by blast
  show ?thesis using r queue others procs v by (intro conjI exI [of _ "upd_sock p (\<lambda>k. k\<lparr>rx := v\<rparr>) t"]) auto
qed

text \<open>
  connections are made in the order of the requests: \<open>unix_sock_accept\<close> takes the oldest client, connects it with a new socket in the lowest free
  slot, and makes it ready, so that its \<open>unix_sock_connect\<close> returns 0.
\<close>

theorem accept_oldest:
  fixes s :: "'a sock_sys_scheme"
  assumes ok: "sys_ok s" and l: "l < 64" "in_use (sock_table s l)" "us_state (sock_table s l) = US_LISTENING" "pending (sock_table s l) = e # es"
    and n: "find_free s = Some n" and c: "client_sock_id e = int c" "in_use (sock_table s c)" "c \<noteq> l"
    and acc: "unix_sock_accept (int l) s = (r, t)"
  shows "r = SDone (int n) \<and> pending (sock_table t l) = es
    \<and> us_state (sock_table t n) = US_CONNECTED \<and> peer_id (sock_table t n) = int c \<and> ring_bytes (rx (sock_table t n)) = []
    \<and> us_state (sock_table t c) = US_CONNECTED \<and> peer_id (sock_table t c) = int n \<and> rx (sock_table t c) = rx (sock_table s c)
    \<and> unix_sock_connect_resume (int c) t = 0
    \<and> (\<forall>j. j \<notin> {l, n, c} \<longrightarrow> sock_table t j = sock_table s j)
    \<and> proc_table t = proc_table (if client_pid e \<ge> 0 then proc_unblock (client_pid e) s else s)"
proof -
  note a = accept_pending_run [OF ok l(1,2,4) n c]
  have t: "r = SDone (int n)" "t = snd (accept_pending l s)" using accept_run [OF l] a(1) acc by auto
  have c64: "c < 64" using sys_ok_wf [OF ok l(1)] l(4) c(1) by (simp add: sock_wf_def)
  have "n \<noteq> c" "n \<noteq> l" using find_free_Some [OF n] c(2) l(2) by auto
  then show ?thesis using a t c c64
    by (auto simp: new_connection_def zero_socket_def unix_sock_connect_resume_def sock_get_in_use unblock_client_def)
qed

text \<open>
  a client that connects is put at the end of the backlog and blocked, and nothing but the
  listener's slot changes; the listener is woken.
\<close>

theorem connect_queues:
  fixes s :: "'a sock_sys_scheme"
  assumes ok: "sys_ok s" and c: "c < 64" "in_use (sock_table s c)" "us_state (sock_table s c) \<in> {US_CREATED, US_BOUND}" "us_type (sock_table s c) = SOCK_STREAM"
    and v: "find_listener path s = Some v" "length (pending (sock_table s v)) < 8"
  shows "\<exists>t. unix_sock_connect (int c) path s = (SBlock, t)
    \<and> pending (sock_table t v) = pending (sock_table s v) @ [\<lparr>client_sock_id = int c, client_pid = proc_get_current_pid s, accepted = False, peer_sock_id = -1\<rparr>]
    \<and> (\<forall>j. j \<noteq> v \<longrightarrow> sock_table t j = sock_table s j)
    \<and> proc_table t = proc_table (proc_block (proc_get_current_pid s) (wake_reader v s))"
  by (rule connect_run [OF assms])

section \<open>Witnesses\<close>

text \<open>Slot 0 listens and has the client of slot 1 pending; the sockets of slots 2 and 3 are connected.\<close>

definition sdemo_sock :: "unix_sock_state_t \<Rightarrow> int \<Rightarrow> unix_socket_t" where
  "sdemo_sock st p = zero_socket\<lparr>in_use := True, us_state := st, us_type := SOCK_STREAM, us_path := ''s'' @ replicate 107 NUL,
     peer_id := p, blocked_reader_pid := -1, owner_pid := 1\<rparr>"

definition sdemo_client :: unix_pending_t where
  "sdemo_client = \<lparr>client_sock_id = 1, client_pid = 2, accepted = False, peer_sock_id = -1\<rparr>"

definition sdemo :: sock_sys where
  "sdemo = proc_sys.extend (pdemo 1) (sock_sys.fields ((\<lambda>_. zero_socket\<lparr>peer_id := -1, blocked_reader_pid := -1\<rparr>)
     (0 := push_backlog sdemo_client (sdemo_sock US_LISTENING (-1)), 1 := sdemo_sock US_CREATED (-1),
      2 := sdemo_sock US_CONNECTED 3, 3 := sdemo_sock US_CONNECTED 2)))"

lemma sdemo_fields [simp]:
  "sock_table sdemo = (\<lambda>_. zero_socket\<lparr>peer_id := -1, blocked_reader_pid := -1\<rparr>)
     (0 := push_backlog sdemo_client (sdemo_sock US_LISTENING (-1)), 1 := sdemo_sock US_CREATED (-1),
      2 := sdemo_sock US_CONNECTED 3, 3 := sdemo_sock US_CONNECTED 2)"
  "proc_table sdemo = proc_table (pdemo 1)" "current_proc sdemo = current_proc (pdemo 1)" "next_pid sdemo = next_pid (pdemo 1)"
  by (simp_all add: sdemo_def pdemo_def sock_sys.defs proc_sys.defs user_sys.defs heap.defs)

lemma sdemo_sock_fields [simp]:
  "in_use (sdemo_sock st p)" "us_state (sdemo_sock st p) = st" "us_type (sdemo_sock st p) = 1" "peer_id (sdemo_sock st p) = p"
  "ring_bytes (rx (sdemo_sock st p)) = []" "pending (sdemo_sock st p) = []" "backlog_count (sdemo_sock st p) = 0"
  by (simp_all add: sdemo_sock_def zero_socket_def pending_def)

lemma sdemo_sock_wf: "st \<noteq> US_FREE \<Longrightarrow> -1 \<le> p \<Longrightarrow> p < 64 \<Longrightarrow> sock_wf (sdemo_sock st p)"
  unfolding sdemo_sock_def by (rule sock_wf_new) auto

lemma sdemo_pushed [simp]:
  "in_use (push_backlog e k) = in_use k" "us_state (push_backlog e k) = us_state k" "us_path (push_backlog e k) = us_path k"
  by (simp_all add: push_backlog_def)

lemma sdemo_pending [simp]: "pending (push_backlog sdemo_client (sdemo_sock US_LISTENING (-1))) = [sdemo_client]"
  by (simp add: pending_push sdemo_sock_wf)

lemma sdemo_ok: "sys_ok sdemo"
proof -
  have "proc_ok sdemo" using pdemo_ok [of 1] by (simp add: proc_ok_def)
  moreover have "sock_wf (push_backlog sdemo_client (sdemo_sock US_LISTENING (-1)))"
    by (rule sock_wf_push) (auto simp: sdemo_client_def intro: sdemo_sock_wf)
  moreover have "sock_wf (zero_socket\<lparr>peer_id := -1, blocked_reader_pid := -1\<rparr>)"
    by (simp add: sock_wf_def zero_socket_def pending_def)
  ultimately show ?thesis by (simp add: sys_ok_def sock_ok_def sdemo_sock_wf)
qed

theorem ring_refines_queue_witness:
  "\<exists>w r rb'. run_queue rb_write rb_read [Put [1, 2], Get 1, Put [3], Get 9] zero_ring = (w, r, rb') \<and> w = r @ ring_bytes rb'"
proof -
  obtain w r rb' where run: "run_queue rb_write rb_read [Put [1, 2], Get 1, Put [3], Get 9] zero_ring = (w, r, rb')" by (metis prod.exhaust)
  from ring_refines_queue [OF zero_ring_ok(1) _ run] have "ring_bytes zero_ring @ w = r @ ring_bytes rb'" by simp
  then show ?thesis using run by simp
qed

theorem socket_table_invariant_witness:
  "peer_id (sock_table (snd (unix_sock_create 1 (unix_sock_init (proc_init 0x1000 sdemo)))) 0) < 64"
proof -
  have "sys_reachable (snd (unix_sock_create 1 (unix_sock_init (proc_init 0x1000 sdemo))))"
    by (rule sys_reachable.step [OF sys_reachable.init [OF proc_reachable.init] sys_step.create])
  from socket_table_invariant [OF this _ refl, of 0] show ?thesis by simp
qed

theorem stream_roundtrip_witness:
  "\<exists>t u. unix_sock_write 2 [7, 8, 9] sdemo = (SDone 3, t) \<and> unix_sock_read 3 2 t = (SDone 2, [7, 8], u) \<and> ring_bytes (rx (sock_table u 3)) = [9]"
proof -
  obtain r t where w: "unix_sock_write (int 2) [7, 8, 9] sdemo = (r, t)" by (meson surj_pair)
  from stream_roundtrip [OF sdemo_ok _ _ _ _ _ _ _ _ _ refl refl w, of 3 2] show ?thesis using w by auto
qed

lemma sdemo_free: "find_free sdemo = Some 4"
  by (simp add: find_free_def scan_Some_iff zero_socket_def less_Suc_eq numeral_eq_Suc)

theorem accept_oldest_witness:
  "\<exists>t. unix_sock_accept 0 sdemo = (SDone 4, t) \<and> peer_id (sock_table t 4) = 1 \<and> peer_id (sock_table t 1) = 4 \<and> unix_sock_connect_resume 1 t = 0"
proof -
  obtain r t where a: "unix_sock_accept (int 0) sdemo = (r, t)" by (meson surj_pair)
  have p: "pending (sock_table sdemo 0) = [sdemo_client]" "client_sock_id sdemo_client = int 1" by simp (simp add: sdemo_client_def)
  from accept_oldest [OF sdemo_ok _ _ _ p(1) sdemo_free p(2) _ _ a] show ?thesis using a by auto
qed

lemma sdemo_listener: "find_listener ''s'' sdemo = Some 0"
  by (simp add: find_listener_def scan_Some_iff) (simp add: sdemo_sock_def cval_def)

theorem connect_queues_witness:
  "\<exists>t. unix_sock_connect 1 ''s'' sdemo = (SBlock, t) \<and> length (pending (sock_table t 0)) = 2"
  using connect_queues [OF sdemo_ok, of 1 "''s''" 0] sdemo_listener by auto

end
