(* ===== verification/Block.thy ===== *)
theory Block
  imports User
begin

text \<open>
  Block devices, \<^verbatim>\<open>src/kernel/block\<close>: the device structure with its read and write functions, the
  table of registered devices, disks in memory (\<^verbatim>\<open>block_ramdisk.c\<close>) and boot images
  (\<^verbatim>\<open>block_image.c\<close>). The driver data of a device holds the contents of the disk. A device
  function gives \<open>Some None\<close> for the result \<^verbatim>\<open>false\<close> and \<open>None\<close> for an access outside the memory of
  the disk. The interface \<open>block_store\<close> says what the file system relies on.
\<close>

section \<open>Devices\<close>

record 'd bdev =
  bd_name :: string
  sector_count :: u64
  sector_size :: u32
  lba_offset :: u64
  driver_data :: 'd

record 'd block_device = "'d bdev" +
  bd_read :: "'d bdev \<Rightarrow> u64 \<Rightarrow> u32 \<Rightarrow> u8 list option option"
  bd_write :: "'d bdev \<Rightarrow> u64 \<Rightarrow> u32 \<Rightarrow> u8 list \<Rightarrow> 'd option option"

definition dev_read :: "'d block_device \<Rightarrow> u64 \<Rightarrow> u32 \<Rightarrow> u8 list option option" where
  "dev_read dev lba count = bd_read dev (bdev.truncate dev) lba count"

definition dev_write :: "'d block_device \<Rightarrow> u64 \<Rightarrow> u32 \<Rightarrow> u8 list \<Rightarrow> 'd block_device option option" where
  "dev_write dev lba count buf =
     map_option (map_option (\<lambda>x. dev\<lparr>driver_data := x\<rparr>)) (bd_write dev (bdev.truncate dev) lba count buf)"

abbreviation (input) MAX_BLOCK_DEVICES :: nat where "MAX_BLOCK_DEVICES \<equiv> 16"

type_synonym 'd block_table = "nat \<Rightarrow> 'd block_device option"

definition block_register :: "'d block_device \<Rightarrow> 'd block_table \<Rightarrow> bool \<times> 'd block_table" where
  "block_register dev t =
     (case scan (\<lambda>i. t i = None) 0 MAX_BLOCK_DEVICES of
        None \<Rightarrow> (False, t)
      | Some i \<Rightarrow> (True, t(i := Some dev)))"

definition block_get :: "string \<Rightarrow> 'd block_table \<Rightarrow> 'd block_device option" where
  "block_get name t =
     (case scan (\<lambda>i. case t i of None \<Rightarrow> False | Some d \<Rightarrow> bd_name d = name) 0 MAX_BLOCK_DEVICES of
        None \<Rightarrow> None
      | Some i \<Rightarrow> t i)"

section \<open>Disks in memory\<close>

record mem_ctx =
  ctx_ptr :: u64
  data_ptr :: u64
  disk_bytes :: "u8 list"
  size_bytes :: u64

definition byte_off :: "'d bdev \<Rightarrow> u64 \<Rightarrow> u64" where
  "byte_off dev lba = (lba_offset dev + lba) * ucast (sector_size dev)"

definition byte_count :: "'d bdev \<Rightarrow> u32 \<Rightarrow> u64" where
  "byte_count dev count = ucast count * ucast (sector_size dev)"

definition overlay :: "nat \<Rightarrow> 'a list \<Rightarrow> 'a list \<Rightarrow> 'a list" where
  "overlay off bs xs = take off xs @ bs @ drop (off + length bs) xs"

text \<open>\<^verbatim>\<open>memcpy\<close> between a buffer of the caller and the memory of the disk; \<open>None\<close> outside of it.\<close>

definition disk_get :: "nat \<Rightarrow> nat \<Rightarrow> u8 list \<Rightarrow> u8 list option" where
  "disk_get off n xs = (if off + n \<le> length xs then Some (take n (drop off xs)) else None)"

definition disk_put :: "nat \<Rightarrow> u8 list \<Rightarrow> u8 list \<Rightarrow> u8 list option" where
  "disk_put off bs xs = (if off + length bs \<le> length xs then Some (overlay off bs xs) else None)"

definition ramdisk_read :: "mem_ctx bdev \<Rightarrow> u64 \<Rightarrow> u32 \<Rightarrow> u8 list option option" where
  "ramdisk_read dev lba count =
     (let ctx = driver_data dev in
      if byte_off dev lba + byte_count dev count > size_bytes ctx then Some None
      else do {
        buf \<leftarrow> disk_get (unat (byte_off dev lba)) (unat (byte_count dev count)) (disk_bytes ctx);
        Some (Some buf)
      })"

definition ramdisk_write :: "mem_ctx bdev \<Rightarrow> u64 \<Rightarrow> u32 \<Rightarrow> u8 list \<Rightarrow> mem_ctx option option" where
  "ramdisk_write dev lba count buf =
     (let ctx = driver_data dev in
      if byte_off dev lba + byte_count dev count > size_bytes ctx then Some None
      else if length buf < unat (byte_count dev count) then None
      else do {
        xs \<leftarrow> disk_put (unat (byte_off dev lba)) (take (unat (byte_count dev count)) buf) (disk_bytes ctx);
        Some (Some (ctx\<lparr>disk_bytes := xs\<rparr>))
      })"

abbreviation (input) SIZEOF_CTX :: u64 where "SIZEOF_CTX \<equiv> 16"
abbreviation (input) SIZEOF_BLOCK_DEVICE :: u64 where "SIZEOF_BLOCK_DEVICE \<equiv> 64"

definition ramdisk_create_blockdev :: "string \<Rightarrow> u64 \<Rightarrow> 'a heap_scheme \<Rightarrow> ((u64 \<times> mem_ctx block_device) option \<times> 'a heap_scheme) option" where
  "ramdisk_create_blockdev name n s =
     (if n = 0 \<or> n mod 512 \<noteq> 0 then Some (None, s)
      else do {
        (data, s) \<leftarrow> kmalloc n s;
        if data = 0 then Some (None, s)
        else do {
          (ctx, s) \<leftarrow> kmalloc SIZEOF_CTX s;
          if ctx = 0 then do { s \<leftarrow> kfree data s; Some (None, s) }
          else do {
            (dev, s) \<leftarrow> kmalloc SIZEOF_BLOCK_DEVICE s;
            if dev = 0 then do { s \<leftarrow> kfree data s; s \<leftarrow> kfree ctx s; Some (None, s) }
            else Some (Some (dev, \<lparr>bd_name = name, sector_count = n div 512, sector_size = 512, lba_offset = 0,
                   driver_data = \<lparr>ctx_ptr = ctx, data_ptr = data, disk_bytes = replicate (unat n) 0, size_bytes = n\<rparr>,
                   bd_read = ramdisk_read, bd_write = ramdisk_write\<rparr>), s)
          }
        }
      })"

definition ramdisk_destroy_blockdev :: "u64 \<Rightarrow> mem_ctx block_device \<Rightarrow> 'a heap_scheme \<Rightarrow> 'a heap_scheme option" where
  "ramdisk_destroy_blockdev dev d s =
     (if dev = 0 then Some s
      else do {
        s \<leftarrow> (if ctx_ptr (driver_data d) \<noteq> 0
              then do { s \<leftarrow> kfree (data_ptr (driver_data d)) s; kfree (ctx_ptr (driver_data d)) s }
              else Some s);
        kfree dev s
      })"

definition image_read :: "mem_ctx bdev \<Rightarrow> u64 \<Rightarrow> u32 \<Rightarrow> u8 list option option" where
  "image_read dev lba count =
     (let ctx = driver_data dev in
      if byte_off dev lba + byte_count dev count > size_bytes ctx then Some None
      else do {
        buf \<leftarrow> disk_get (unat (byte_off dev lba)) (unat (byte_count dev count)) (disk_bytes ctx);
        Some (Some buf)
      })"

definition image_write :: "mem_ctx bdev \<Rightarrow> u64 \<Rightarrow> u32 \<Rightarrow> u8 list \<Rightarrow> mem_ctx option option" where
  "image_write dev lba count buf =
     (let ctx = driver_data dev in
      if byte_off dev lba + byte_count dev count > size_bytes ctx then Some None
      else if length buf < unat (byte_count dev count) then None
      else do {
        xs \<leftarrow> disk_put (unat (byte_off dev lba)) (take (unat (byte_count dev count)) buf) (disk_bytes ctx);
        Some (Some (ctx\<lparr>disk_bytes := xs\<rparr>))
      })"

end
