(* ===== verification/LittleEndian.thy ===== *)
theory LittleEndian
  imports Block
begin

text \<open>
  Little-endian integers in byte buffers, as the packed structures of the disk formats
  hold them, and what reading after writing gives.
\<close>

fun le_val :: "u8 list \<Rightarrow> 'w::len word" where
  "le_val [] = 0"
| "le_val (b # bs) = ucast b OR push_bit 8 (le_val bs)"

definition le_enc :: "nat \<Rightarrow> 'w::len word \<Rightarrow> u8 list" where
  "le_enc n v = map (\<lambda>i. ucast (drop_bit (8 * i) v)) [0..<n]"

text \<open>Fields of a buffer; \<open>None\<close> outside of it.\<close>

definition get8 :: "u8 list \<Rightarrow> nat \<Rightarrow> u8 option" where
  "get8 xs off = (if off < length xs then Some (xs ! off) else None)"

definition get16 :: "u8 list \<Rightarrow> nat \<Rightarrow> u16 option" where
  "get16 xs off = map_option le_val (disk_get off 2 xs)"

definition get32 :: "u8 list \<Rightarrow> nat \<Rightarrow> u32 option" where
  "get32 xs off = map_option le_val (disk_get off 4 xs)"

lemma le_enc_length [simp]: "length (le_enc n v) = n"
  by (simp add: le_enc_def)

lemma le_enc_Suc: "le_enc (Suc n) v = ucast v # le_enc n (drop_bit 8 v)"
  unfolding le_enc_def upt_conv_Cons [OF zero_less_Suc] map_Suc_upt [symmetric] by (simp add: add.commute)

lemma le_val_enc:
  fixes v :: "'w::len word"
  assumes "LENGTH('w) \<le> 8 * n"
  shows "le_val (le_enc n v) = v"
proof -
  have "bit (le_val (le_enc n v) :: 'w word) k \<longleftrightarrow> bit v k \<and> k < 8 * n" for k
  proof (induction n arbitrary: v k)
    case 0 then show ?case by (simp add: le_enc_def)
  next
    case (Suc n)
    show ?case
    proof (cases "k < 8")
      case True then show ?thesis by (auto simp: le_enc_Suc bit_simps dest: bit_imp_le_length)
    next
      case False then show ?thesis by (auto simp: le_enc_Suc bit_simps Suc.IH dest: bit_imp_le_length)
    qed
  qed
  then show ?thesis using assms by (intro bit_word_eqI) auto
qed

lemma overlay_length: "off + length bs \<le> length xs \<Longrightarrow> length (overlay off bs xs) = length xs"
  by (simp add: overlay_def)

lemma nth_overlay:
  assumes "off + length bs \<le> length xs" "i < length xs"
  shows "overlay off bs xs ! i = (if off \<le> i \<and> i < off + length bs then bs ! (i - off) else xs ! i)"
  using assms by (auto simp: overlay_def nth_append)

lemma take_drop_overlay_same: "off + length bs \<le> length xs \<Longrightarrow> take (length bs) (drop off (overlay off bs xs)) = bs"
  by (simp add: overlay_def)

lemma take_drop_overlay_other:
  assumes "off + length bs \<le> length xs" "i + n \<le> off \<or> off + length bs \<le> i" "i + n \<le> length xs"
  shows "take n (drop i (overlay off bs xs)) = take n (drop i xs)"
  using assms by (intro nth_equalityI) (auto simp: overlay_length nth_overlay)

lemma disk_get_overlay:
  assumes "off + length bs \<le> length xs"
  shows "n = length bs \<Longrightarrow> disk_get off n (overlay off bs xs) = Some bs"
    "i + n \<le> off \<or> off + length bs \<le> i \<Longrightarrow> disk_get i n (overlay off bs xs) = disk_get i n xs"
  using assms by (auto simp: disk_get_def overlay_length take_drop_overlay_same take_drop_overlay_other)

end
