(* ===== verification/Ext2.thy ===== *)
theory Ext2
  imports LittleEndian
begin

text \<open>
  The ext2 file system, \<^verbatim>\<open>src/kernel/drivers/fs/ext/ext2.c\<close>: structures of the disk format, the block
  cache, bitmaps, inodes and block pointers. A function takes the file system and the state
  with the heap and returns both. The block cache, a doubly linked list in the code, is a list
  with the head first; an entry is named by its address, its data by the address of the data.
  \<open>None\<close> stands for what has no defined result: a division by zero, an access outside a
  buffer, a loop that does not end.
\<close>

section \<open>Disk structures\<close>

abbreviation (input) EXT2_SUCCESS :: int where "EXT2_SUCCESS \<equiv> 0"
abbreviation (input) EXT2_ERROR :: int where "EXT2_ERROR \<equiv> -1"
abbreviation (input) EXT2_ERROR_NO_MEM :: int where "EXT2_ERROR_NO_MEM \<equiv> -2"
abbreviation (input) EXT2_ERROR_IO :: int where "EXT2_ERROR_IO \<equiv> -3"
abbreviation (input) EXT2_ERROR_NOT_FOUND :: int where "EXT2_ERROR_NOT_FOUND \<equiv> -4"
abbreviation (input) EXT2_ERROR_EXISTS :: int where "EXT2_ERROR_EXISTS \<equiv> -5"
abbreviation (input) EXT2_ERROR_NO_SPACE :: int where "EXT2_ERROR_NO_SPACE \<equiv> -6"
abbreviation (input) EXT2_ERROR_INVALID :: int where "EXT2_ERROR_INVALID \<equiv> -7"
abbreviation (input) EXT2_ERROR_IS_DIR :: int where "EXT2_ERROR_IS_DIR \<equiv> -8"
abbreviation (input) EXT2_ERROR_NOT_DIR :: int where "EXT2_ERROR_NOT_DIR \<equiv> -9"
abbreviation (input) EXT2_ERROR_NOT_EMPTY :: int where "EXT2_ERROR_NOT_EMPTY \<equiv> -10"
abbreviation (input) EXT2_ERROR_PERM :: int where "EXT2_ERROR_PERM \<equiv> -11"

abbreviation (input) EXT2_SUPER_MAGIC :: u16 where "EXT2_SUPER_MAGIC \<equiv> 0xEF53"
abbreviation (input) EXT2_FT_REG_FILE :: u8 where "EXT2_FT_REG_FILE \<equiv> 1"
abbreviation (input) EXT2_FT_DIR :: u8 where "EXT2_FT_DIR \<equiv> 2"
abbreviation (input) EXT2_S_IFREG :: u16 where "EXT2_S_IFREG \<equiv> 0x8000"
abbreviation (input) EXT2_S_IFDIR :: u16 where "EXT2_S_IFDIR \<equiv> 0x4000"
abbreviation (input) EXT2_S_PERM_MASK :: u16 where "EXT2_S_PERM_MASK \<equiv> 0x0FFF"
abbreviation (input) EXT2_ROOT_INO :: u32 where "EXT2_ROOT_INO \<equiv> 2"
abbreviation (input) EXT2_NDIR_BLOCKS :: nat where "EXT2_NDIR_BLOCKS \<equiv> 12"
abbreviation (input) EXT2_IND_BLOCK :: nat where "EXT2_IND_BLOCK \<equiv> 12"
abbreviation (input) EXT2_DIND_BLOCK :: nat where "EXT2_DIND_BLOCK \<equiv> 13"
abbreviation (input) EXT2_TIND_BLOCK :: nat where "EXT2_TIND_BLOCK \<equiv> 14"
abbreviation (input) EXT2_CACHE_SIZE :: u32 where "EXT2_CACHE_SIZE \<equiv> 64"

text \<open>The fields of the superblock that the driver reads.\<close>

record ext2_superblock =
  s_inodes_count :: u32
  s_blocks_count :: u32
  s_free_blocks_count :: u32
  s_free_inodes_count :: u32
  s_first_data_block :: u32
  s_log_block_size :: u32
  s_blocks_per_group :: u32
  s_inodes_per_group :: u32
  s_magic :: u16
  s_inode_size :: u16

definition dec16 :: "u8 list \<Rightarrow> nat \<Rightarrow> u16" where
  "dec16 xs off = le_val (take 2 (drop off xs))"

definition dec32 :: "u8 list \<Rightarrow> nat \<Rightarrow> u32" where
  "dec32 xs off = le_val (take 4 (drop off xs))"

definition superblock_of :: "u8 list \<Rightarrow> ext2_superblock" where
  "superblock_of xs = \<lparr>s_inodes_count = dec32 xs 0, s_blocks_count = dec32 xs 4, s_free_blocks_count = dec32 xs 12,
     s_free_inodes_count = dec32 xs 16, s_first_data_block = dec32 xs 20, s_log_block_size = dec32 xs 24,
     s_blocks_per_group = dec32 xs 32, s_inodes_per_group = dec32 xs 40, s_magic = dec16 xs 56, s_inode_size = dec16 xs 88\<rparr>"

record ext2_group_desc =
  bg_block_bitmap :: u32
  bg_inode_bitmap :: u32
  bg_inode_table :: u32
  bg_free_blocks_count :: u16
  bg_free_inodes_count :: u16
  bg_used_dirs_count :: u16
  bg_pad :: u16
  bg_reserved :: "u8 list"

definition group_desc_of :: "u8 list \<Rightarrow> ext2_group_desc" where
  "group_desc_of xs = \<lparr>bg_block_bitmap = dec32 xs 0, bg_inode_bitmap = dec32 xs 4, bg_inode_table = dec32 xs 8,
     bg_free_blocks_count = dec16 xs 12, bg_free_inodes_count = dec16 xs 14, bg_used_dirs_count = dec16 xs 16,
     bg_pad = dec16 xs 18, bg_reserved = take 12 (drop 20 xs)\<rparr>"

definition group_desc_bytes :: "ext2_group_desc \<Rightarrow> u8 list" where
  "group_desc_bytes g = le_enc 4 (bg_block_bitmap g) @ le_enc 4 (bg_inode_bitmap g) @ le_enc 4 (bg_inode_table g)
     @ le_enc 2 (bg_free_blocks_count g) @ le_enc 2 (bg_free_inodes_count g) @ le_enc 2 (bg_used_dirs_count g)
     @ le_enc 2 (bg_pad g) @ bg_reserved g"

record ext2_inode =
  i_mode :: u16
  i_uid :: u16
  i_size :: u32
  i_atime :: u32
  i_ctime :: u32
  i_mtime :: u32
  i_dtime :: u32
  i_gid :: u16
  i_links_count :: u16
  i_blocks :: u32
  i_flags :: u32
  i_osd1 :: u32
  i_block :: "u32 list"
  i_generation :: u32
  i_file_acl :: u32
  i_dir_acl :: u32
  i_faddr :: u32
  i_osd2 :: "u8 list"

definition inode_of :: "u8 list \<Rightarrow> ext2_inode" where
  "inode_of xs = \<lparr>i_mode = dec16 xs 0, i_uid = dec16 xs 2, i_size = dec32 xs 4, i_atime = dec32 xs 8, i_ctime = dec32 xs 12,
     i_mtime = dec32 xs 16, i_dtime = dec32 xs 20, i_gid = dec16 xs 24, i_links_count = dec16 xs 26, i_blocks = dec32 xs 28,
     i_flags = dec32 xs 32, i_osd1 = dec32 xs 36, i_block = map (\<lambda>i. dec32 xs (40 + 4 * i)) [0..<15],
     i_generation = dec32 xs 100, i_file_acl = dec32 xs 104, i_dir_acl = dec32 xs 108, i_faddr = dec32 xs 112,
     i_osd2 = take 12 (drop 116 xs)\<rparr>"

definition inode_bytes :: "ext2_inode \<Rightarrow> u8 list" where
  "inode_bytes n = le_enc 2 (i_mode n) @ le_enc 2 (i_uid n) @ le_enc 4 (i_size n) @ le_enc 4 (i_atime n) @ le_enc 4 (i_ctime n)
     @ le_enc 4 (i_mtime n) @ le_enc 4 (i_dtime n) @ le_enc 2 (i_gid n) @ le_enc 2 (i_links_count n) @ le_enc 4 (i_blocks n)
     @ le_enc 4 (i_flags n) @ le_enc 4 (i_osd1 n) @ concat (map (le_enc 4) (i_block n))
     @ le_enc 4 (i_generation n) @ le_enc 4 (i_file_acl n) @ le_enc 4 (i_dir_acl n) @ le_enc 4 (i_faddr n) @ i_osd2 n"

definition zero_inode :: ext2_inode where
  "zero_inode = \<lparr>i_mode = 0, i_uid = 0, i_size = 0, i_atime = 0, i_ctime = 0, i_mtime = 0, i_dtime = 0, i_gid = 0,
     i_links_count = 0, i_blocks = 0, i_flags = 0, i_osd1 = 0, i_block = replicate 15 0, i_generation = 0, i_file_acl = 0,
     i_dir_acl = 0, i_faddr = 0, i_osd2 = replicate 12 0\<rparr>"

section \<open>The mounted file system\<close>

record ext2_cache_entry =
  ce_ptr :: u64
  block_num :: u32
  ce_data_ptr :: u64
  ce_data :: "u8 list"
  ce_dirty :: bool
  ref_count :: u32

record 'd ext2_fs =
  fs_ptr :: u64
  fs_device :: "'d block_device"
  superblock :: ext2_superblock
  group_desc_ptr :: u64
  group_desc :: "ext2_group_desc list"
  block_size :: u32
  inode_size :: u32
  num_groups :: u32
  first_data_block :: u32
  cache :: "ext2_cache_entry list"
  cache_size :: u32
  max_cache_entries :: u32

abbreviation (input) SIZEOF_CACHE_ENTRY :: u64 where "SIZEOF_CACHE_ENTRY \<equiv> 40"

definition udiv :: "'w::len word \<Rightarrow> 'w word \<Rightarrow> 'w word option" where
  "udiv a b = (if b = 0 then None else Some (a div b))"

definition umod :: "'w::len word \<Rightarrow> 'w word \<Rightarrow> 'w word option" where
  "umod a b = (if b = 0 then None else Some (a mod b))"

section \<open>The block cache\<close>

definition ext2_read_block :: "u32 \<Rightarrow> 'd ext2_fs \<Rightarrow> u8 list option option" where
  "ext2_read_block b fs = do {
     sectors_per_block \<leftarrow> udiv (block_size fs) (sector_size (fs_device fs));
     dev_read (fs_device fs) (ucast (b * sectors_per_block)) sectors_per_block
   }"

definition ext2_write_block :: "u32 \<Rightarrow> u8 list \<Rightarrow> 'd ext2_fs \<Rightarrow> (int \<times> 'd ext2_fs) option" where
  "ext2_write_block b buffer fs = do {
     sectors_per_block \<leftarrow> udiv (block_size fs) (sector_size (fs_device fs));
     r \<leftarrow> dev_write (fs_device fs) (ucast (b * sectors_per_block)) sectors_per_block buffer;
     Some (case r of None \<Rightarrow> (EXT2_ERROR_IO, fs) | Some d \<Rightarrow> (EXT2_SUCCESS, fs\<lparr>fs_device := d\<rparr>))
   }"

definition ext2_cache_find :: "u32 \<Rightarrow> 'd ext2_fs \<Rightarrow> ext2_cache_entry option" where
  "ext2_cache_find b fs = find (\<lambda>e. block_num e = b) (cache fs)"

definition ext2_cache_remove :: "u64 \<Rightarrow> 'd ext2_fs \<Rightarrow> 'd ext2_fs" where
  "ext2_cache_remove p fs = fs\<lparr>cache := filter (\<lambda>e. ce_ptr e \<noteq> p) (cache fs), cache_size := cache_size fs - 1\<rparr>"

definition ext2_cache_add_front :: "ext2_cache_entry \<Rightarrow> 'd ext2_fs \<Rightarrow> 'd ext2_fs" where
  "ext2_cache_add_front e fs = fs\<lparr>cache := e # cache fs, cache_size := cache_size fs + 1\<rparr>"

definition ext2_cache_move_front :: "ext2_cache_entry \<Rightarrow> 'd ext2_fs \<Rightarrow> 'd ext2_fs" where
  "ext2_cache_move_front e fs =
     (if cache fs \<noteq> [] \<and> ce_ptr (hd (cache fs)) = ce_ptr e then fs
      else ext2_cache_add_front e (ext2_cache_remove (ce_ptr e) fs))"

text \<open>An update of the entry with a given address.\<close>

definition upd_entry :: "u64 \<Rightarrow> (ext2_cache_entry \<Rightarrow> ext2_cache_entry) \<Rightarrow> 'd ext2_fs \<Rightarrow> 'd ext2_fs" where
  "upd_entry p f fs = fs\<lparr>cache := map (\<lambda>e. if ce_ptr e = p then f e else e) (cache fs)\<rparr>"

definition ext2_cache_flush_entry :: "ext2_cache_entry \<Rightarrow> 'd ext2_fs \<Rightarrow> (int \<times> 'd ext2_fs) option" where
  "ext2_cache_flush_entry e fs =
     (if \<not> ce_dirty e then Some (EXT2_SUCCESS, fs)
      else do {
        (r, fs) \<leftarrow> ext2_write_block (block_num e) (ce_data e) fs;
        Some (r, if r = EXT2_SUCCESS then upd_entry (ce_ptr e) (\<lambda>e. e\<lparr>ce_dirty := False\<rparr>) fs else fs)
      })"

definition ext2_cache_evict :: "'d ext2_fs \<Rightarrow> 'a heap_scheme \<Rightarrow> (int \<times> 'd ext2_fs \<times> 'a heap_scheme) option" where
  "ext2_cache_evict fs s =
     (case find (\<lambda>e. ref_count e = 0) (rev (cache fs)) of
        None \<Rightarrow> Some (EXT2_ERROR_NO_MEM, fs, s)
      | Some e \<Rightarrow> do {
          (r, fs) \<leftarrow> ext2_cache_flush_entry e fs;
          if r \<noteq> EXT2_SUCCESS then Some (r, fs, s)
          else do {
            let fs = ext2_cache_remove (ce_ptr e) fs;
            s \<leftarrow> kfree (ce_data_ptr e) s;
            s \<leftarrow> kfree (ce_ptr e) s;
            Some (EXT2_SUCCESS, fs, s)
          }
        })"

text \<open>The buffer at address \<open>p\<close> after \<open>bs\<close> was read into it; the rest of it is what the heap holds.\<close>

definition read_into :: "u64 \<Rightarrow> nat \<Rightarrow> u8 list \<Rightarrow> 'a heap_scheme \<Rightarrow> u8 list option" where
  "read_into p n bs s =
     (if length bs \<le> n then Some (bs @ map (\<lambda>i. hmem s (unat p + i)) [length bs..<n]) else None)"

definition cache_load :: "u32 \<Rightarrow> 'd ext2_fs \<Rightarrow> 'a heap_scheme \<Rightarrow> (u64 \<times> 'd ext2_fs \<times> 'a heap_scheme) option" where
  "cache_load b fs s = do {
     (entry, s) \<leftarrow> kmalloc SIZEOF_CACHE_ENTRY s;
     if entry = 0 then Some (0, fs, s)
     else do {
       (data, s) \<leftarrow> kmalloc (ucast (block_size fs)) s;
       if data = 0 then do { s \<leftarrow> kfree entry s; Some (0, fs, s) }
       else do {
         r \<leftarrow> ext2_read_block b fs;
         (case r of
            None \<Rightarrow> do { s \<leftarrow> kfree data s; s \<leftarrow> kfree entry s; Some (0, fs, s) }
          | Some bs \<Rightarrow> do {
              buf \<leftarrow> read_into data (unat (block_size fs)) bs s;
              Some (data, ext2_cache_add_front \<lparr>ce_ptr = entry, block_num = b, ce_data_ptr = data, ce_data = buf,
                                                ce_dirty = False, ref_count = 1\<rparr> fs, s)
            })
       }
     }
   }"

definition ext2_get_block :: "u32 \<Rightarrow> 'd ext2_fs \<Rightarrow> 'a heap_scheme \<Rightarrow> (u64 \<times> 'd ext2_fs \<times> 'a heap_scheme) option" where
  "ext2_get_block b fs s =
     (case ext2_cache_find b fs of
        Some e \<Rightarrow> (let e = e\<lparr>ref_count := ref_count e + 1\<rparr>;
                       fs = upd_entry (ce_ptr e) (\<lambda>_. e) fs
                   in Some (ce_data_ptr e, ext2_cache_move_front e fs, s))
      | None \<Rightarrow>
          if cache_size fs \<ge> max_cache_entries fs
          then do {
            (r, fs, s) \<leftarrow> ext2_cache_evict fs s;
            if r \<noteq> EXT2_SUCCESS then Some (0, fs, s) else cache_load b fs s
          }
          else cache_load b fs s)"

text \<open>The update of the first entry whose data is at address \<open>p\<close>.\<close>

fun upd_first :: "('e \<Rightarrow> bool) \<Rightarrow> ('e \<Rightarrow> 'e) \<Rightarrow> 'e list \<Rightarrow> 'e list" where
  "upd_first P f [] = []"
| "upd_first P f (e # es) = (if P e then f e # es else e # upd_first P f es)"

definition ext2_put_block :: "u64 \<Rightarrow> bool \<Rightarrow> 'd ext2_fs \<Rightarrow> 'd ext2_fs" where
  "ext2_put_block p d fs =
     fs\<lparr>cache := upd_first (\<lambda>e. ce_data_ptr e = p) (\<lambda>e. e\<lparr>ref_count := ref_count e - 1, ce_dirty := ce_dirty e \<or> d\<rparr>) (cache fs)\<rparr>"

fun flush_entries :: "ext2_cache_entry list \<Rightarrow> 'd ext2_fs \<Rightarrow> (int \<times> 'd ext2_fs) option" where
  "flush_entries [] fs = Some (EXT2_SUCCESS, fs)"
| "flush_entries (e # es) fs =
     (if ce_dirty e
      then do {
        (r, fs) \<leftarrow> ext2_cache_flush_entry e fs;
        if r \<noteq> EXT2_SUCCESS then Some (r, fs) else flush_entries es fs
      }
      else flush_entries es fs)"

definition ext2_flush_cache :: "'d ext2_fs \<Rightarrow> (int \<times> 'd ext2_fs) option" where
  "ext2_flush_cache fs = flush_entries (cache fs) fs"

text \<open>The bytes behind a block pointer and an assignment to them.\<close>

definition block_at :: "u64 \<Rightarrow> 'd ext2_fs \<Rightarrow> u8 list option" where
  "block_at p fs = map_option ce_data (find (\<lambda>e. ce_data_ptr e = p) (cache fs))"

definition block_put :: "u64 \<Rightarrow> u8 list \<Rightarrow> 'd ext2_fs \<Rightarrow> 'd ext2_fs" where
  "block_put p xs fs = fs\<lparr>cache := upd_first (\<lambda>e. ce_data_ptr e = p) (\<lambda>e. e\<lparr>ce_data := xs\<rparr>) (cache fs)\<rparr>"

definition block_copy :: "u64 \<Rightarrow> nat \<Rightarrow> u8 list \<Rightarrow> 'd ext2_fs \<Rightarrow> 'd ext2_fs option" where
  "block_copy p off bs fs = do {
     xs \<leftarrow> block_at p fs;
     xs \<leftarrow> disk_put off bs xs;
     Some (block_put p xs fs)
   }"

section \<open>Bitmaps\<close>

definition ext2_test_bit :: "u8 list \<Rightarrow> nat \<Rightarrow> bool option" where
  "ext2_test_bit bm i = map_option (\<lambda>b. b AND push_bit (i mod 8) 1 \<noteq> 0) (get8 bm (i div 8))"

definition ext2_set_bit :: "nat \<Rightarrow> u8 list \<Rightarrow> u8 list option" where
  "ext2_set_bit i bm = do { b \<leftarrow> get8 bm (i div 8); Some (bm[i div 8 := b OR push_bit (i mod 8) 1]) }"

definition ext2_clear_bit :: "nat \<Rightarrow> u8 list \<Rightarrow> u8 list option" where
  "ext2_clear_bit i bm = do { b \<leftarrow> get8 bm (i div 8); Some (bm[i div 8 := b AND NOT (push_bit (i mod 8) 1)]) }"

text \<open>The search for a clear bit among \<open>k\<close> bits from \<open>i\<close> on.\<close>

fun first_clear :: "u8 list \<Rightarrow> nat \<Rightarrow> nat \<Rightarrow> nat option option" where
  "first_clear bm i 0 = Some None"
| "first_clear bm i (Suc k) = do {
     t \<leftarrow> ext2_test_bit bm i;
     if \<not> t then Some (Some i) else first_clear bm (Suc i) k
   }"

end
