(* ===== verification/Ext2Alloc.thy ===== *)
theory Ext2Alloc
  imports Ext2
begin

text \<open>
  Inodes, the allocation of blocks and inodes in the bitmaps of the block groups, and the
  block pointers of a file (\<^verbatim>\<open>ext2.c\<close>). A result is \<open>Inl\<close> of an error code or \<open>Inr\<close> of the value that the
  code stores through a pointer argument.
\<close>

section \<open>Inodes\<close>

type_synonym 'r res = "int + 'r"

definition group_at :: "nat \<Rightarrow> 'd ext2_fs \<Rightarrow> ext2_group_desc option" where
  "group_at g fs = (if g < length (group_desc fs) then Some (group_desc fs ! g) else None)"

definition upd_group :: "nat \<Rightarrow> (ext2_group_desc \<Rightarrow> ext2_group_desc) \<Rightarrow> 'd ext2_fs \<Rightarrow> 'd ext2_fs" where
  "upd_group g f fs = fs\<lparr>group_desc := (group_desc fs)[g := f (group_desc fs ! g)]\<rparr>"

definition bad_inode_num :: "u32 \<Rightarrow> 'd ext2_fs \<Rightarrow> bool" where
  "bad_inode_num n fs \<longleftrightarrow> n = 0 \<or> n > s_inodes_count (superblock fs)"

text \<open>The block of the inode table that holds an inode, and the offset in it.\<close>

definition inode_pos :: "u32 \<Rightarrow> 'd ext2_fs \<Rightarrow> (u32 \<times> nat) option" where
  "inode_pos n fs = do {
     group \<leftarrow> udiv (n - 1) (s_inodes_per_group (superblock fs));
     index \<leftarrow> umod (n - 1) (s_inodes_per_group (superblock fs));
     g \<leftarrow> group_at (unat group) fs;
     q \<leftarrow> udiv (index * inode_size fs) (block_size fs);
     offset \<leftarrow> umod (index * inode_size fs) (block_size fs);
     Some (bg_inode_table g + q, unat offset)
   }"

definition ext2_read_inode :: "u32 \<Rightarrow> 'd ext2_fs \<Rightarrow> 'a heap_scheme \<Rightarrow> (ext2_inode res \<times> 'd ext2_fs \<times> 'a heap_scheme) option" where
  "ext2_read_inode n fs s =
     (if bad_inode_num n fs then Some (Inl EXT2_ERROR_INVALID, fs, s)
      else do {
        (block, offset) \<leftarrow> inode_pos n fs;
        (p, fs, s) \<leftarrow> ext2_get_block block fs s;
        if p = 0 then Some (Inl EXT2_ERROR_IO, fs, s)
        else do {
          data \<leftarrow> block_at p fs;
          bs \<leftarrow> disk_get offset 128 data;
          Some (Inr (inode_of bs), ext2_put_block p False fs, s)
        }
      })"

definition ext2_write_inode :: "u32 \<Rightarrow> ext2_inode \<Rightarrow> 'd ext2_fs \<Rightarrow> 'a heap_scheme \<Rightarrow> (int \<times> 'd ext2_fs \<times> 'a heap_scheme) option" where
  "ext2_write_inode n inode fs s =
     (if bad_inode_num n fs then Some (EXT2_ERROR_INVALID, fs, s)
      else do {
        (block, offset) \<leftarrow> inode_pos n fs;
        (p, fs, s) \<leftarrow> ext2_get_block block fs s;
        if p = 0 then Some (EXT2_ERROR_IO, fs, s)
        else do {
          fs \<leftarrow> block_copy p offset (inode_bytes inode) fs;
          Some (EXT2_SUCCESS, ext2_put_block p True fs, s)
        }
      })"

section \<open>Allocation\<close>

text \<open>The write of a changed group descriptor to its block.\<close>

definition write_group :: "nat \<Rightarrow> 'd ext2_fs \<Rightarrow> 'a heap_scheme \<Rightarrow> ('d ext2_fs \<times> 'a heap_scheme) option" where
  "write_group g fs s = do {
     (p, fs, s) \<leftarrow> ext2_get_block (first_data_block fs + 1) fs s;
     if p = 0 then Some (fs, s)
     else do {
       fs \<leftarrow> block_copy p (g * 32) (group_desc_bytes (group_desc fs ! g)) fs;
       Some (ext2_put_block p True fs, s)
     }
   }"

definition blocks_in_group :: "nat \<Rightarrow> 'd ext2_fs \<Rightarrow> u32" where
  "blocks_in_group g fs =
     (if of_nat g = num_groups fs - 1
      then s_blocks_count (superblock fs) - of_nat g * s_blocks_per_group (superblock fs)
      else s_blocks_per_group (superblock fs))"

text \<open>Bit \<open>i\<close> of the bitmap at \<open>p\<close> is set or cleared and the block released.\<close>

definition mark_bit :: "(nat \<Rightarrow> u8 list \<Rightarrow> u8 list option) \<Rightarrow> nat \<Rightarrow> u64 \<Rightarrow> 'd ext2_fs \<Rightarrow> 'd ext2_fs option" where
  "mark_bit f i p fs = do {
     bm \<leftarrow> block_at p fs;
     bm \<leftarrow> f i bm;
     Some (ext2_put_block p True (block_put p bm fs))
   }"

definition count_blocks_by :: "(u16 \<Rightarrow> u16) \<Rightarrow> (u32 \<Rightarrow> u32) \<Rightarrow> nat \<Rightarrow> 'd ext2_fs \<Rightarrow> 'd ext2_fs" where
  "count_blocks_by f h g fs =
     (upd_group g (\<lambda>d. d\<lparr>bg_free_blocks_count := f (bg_free_blocks_count d)\<rparr>) fs)
       \<lparr>superblock := (superblock fs)\<lparr>s_free_blocks_count := h (s_free_blocks_count (superblock fs))\<rparr>\<rparr>"

definition count_inodes_by :: "(u16 \<Rightarrow> u16) \<Rightarrow> (u32 \<Rightarrow> u32) \<Rightarrow> (u16 \<Rightarrow> u16) \<Rightarrow> nat \<Rightarrow> 'd ext2_fs \<Rightarrow> 'd ext2_fs" where
  "count_inodes_by f h k g fs =
     (upd_group g (\<lambda>d. d\<lparr>bg_free_inodes_count := f (bg_free_inodes_count d), bg_used_dirs_count := k (bg_used_dirs_count d)\<rparr>) fs)
       \<lparr>superblock := (superblock fs)\<lparr>s_free_inodes_count := h (s_free_inodes_count (superblock fs))\<rparr>\<rparr>"

fun alloc_block_from :: "nat \<Rightarrow> nat \<Rightarrow> 'd ext2_fs \<Rightarrow> 'a heap_scheme \<Rightarrow> (u32 res \<times> 'd ext2_fs \<times> 'a heap_scheme) option" where
  "alloc_block_from g 0 fs s = Some (Inl EXT2_ERROR_NO_SPACE, fs, s)"
| "alloc_block_from g (Suc k) fs s = do {
     d \<leftarrow> group_at g fs;
     if bg_free_blocks_count d = 0 then alloc_block_from (Suc g) k fs s
     else do {
       (p, fs, s) \<leftarrow> ext2_get_block (bg_block_bitmap d) fs s;
       if p = 0 then Some (Inl EXT2_ERROR_IO, fs, s)
       else do {
         bm \<leftarrow> block_at p fs;
         r \<leftarrow> first_clear bm 0 (unat (blocks_in_group g fs));
         (case r of
            None \<Rightarrow> alloc_block_from (Suc g) k (ext2_put_block p False fs) s
          | Some i \<Rightarrow> do {
              fs \<leftarrow> mark_bit ext2_set_bit i p fs;
              let fs = count_blocks_by (\<lambda>c. c - 1) (\<lambda>c. c - 1) g fs;
              (fs, s) \<leftarrow> write_group g fs s;
              Some (Inr (of_nat g * s_blocks_per_group (superblock fs) + first_data_block fs + of_nat i), fs, s)
            })
       }
     }
   }"

definition ext2_alloc_block :: "'d ext2_fs \<Rightarrow> 'a heap_scheme \<Rightarrow> (u32 res \<times> 'd ext2_fs \<times> 'a heap_scheme) option" where
  "ext2_alloc_block fs s = alloc_block_from 0 (unat (num_groups fs)) fs s"

definition ext2_free_block :: "u32 \<Rightarrow> 'd ext2_fs \<Rightarrow> 'a heap_scheme \<Rightarrow> (int \<times> 'd ext2_fs \<times> 'a heap_scheme) option" where
  "ext2_free_block b fs s =
     (if b < first_data_block fs \<or> b \<ge> s_blocks_count (superblock fs) then Some (EXT2_ERROR_INVALID, fs, s)
      else do {
        group \<leftarrow> udiv (b - first_data_block fs) (s_blocks_per_group (superblock fs));
        index \<leftarrow> umod (b - first_data_block fs) (s_blocks_per_group (superblock fs));
        d \<leftarrow> group_at (unat group) fs;
        (p, fs, s) \<leftarrow> ext2_get_block (bg_block_bitmap d) fs s;
        if p = 0 then Some (EXT2_ERROR_IO, fs, s)
        else do {
          fs \<leftarrow> mark_bit ext2_clear_bit (unat index) p fs;
          let fs = count_blocks_by (\<lambda>c. c + 1) (\<lambda>c. c + 1) (unat group) fs;
          (fs, s) \<leftarrow> write_group (unat group) fs s;
          Some (EXT2_SUCCESS, fs, s)
        }
      })"

text \<open>The search for an inode, \<open>a\<close> being the number of the attempt.\<close>

fun alloc_inode_from :: "u32 \<Rightarrow> bool \<Rightarrow> nat \<Rightarrow> nat \<Rightarrow> 'd ext2_fs \<Rightarrow> 'a heap_scheme \<Rightarrow> (u32 res \<times> 'd ext2_fs \<times> 'a heap_scheme) option" where
  "alloc_inode_from pref is_dir a 0 fs s = Some (Inl EXT2_ERROR_NO_SPACE, fs, s)"
| "alloc_inode_from pref is_dir a (Suc k) fs s = do {
     group \<leftarrow> umod (pref + of_nat a) (num_groups fs);
     d \<leftarrow> group_at (unat group) fs;
     if bg_free_inodes_count d = 0 then alloc_inode_from pref is_dir (Suc a) k fs s
     else do {
       (p, fs, s) \<leftarrow> ext2_get_block (bg_inode_bitmap d) fs s;
       if p = 0 then Some (Inl EXT2_ERROR_IO, fs, s)
       else do {
         bm \<leftarrow> block_at p fs;
         r \<leftarrow> first_clear bm 0 (unat (s_inodes_per_group (superblock fs)));
         (case r of
            None \<Rightarrow> alloc_inode_from pref is_dir (Suc a) k (ext2_put_block p False fs) s
          | Some i \<Rightarrow> do {
              fs \<leftarrow> mark_bit ext2_set_bit i p fs;
              let fs = count_inodes_by (\<lambda>c. c - 1) (\<lambda>c. c - 1) (if is_dir then (\<lambda>c. c + 1) else (\<lambda>c. c)) (unat group) fs;
              (fs, s) \<leftarrow> write_group (unat group) fs s;
              Some (Inr (group * s_inodes_per_group (superblock fs) + of_nat i + 1), fs, s)
            })
       }
     }
   }"

definition ext2_alloc_inode :: "u32 \<Rightarrow> bool \<Rightarrow> 'd ext2_fs \<Rightarrow> 'a heap_scheme \<Rightarrow> (u32 res \<times> 'd ext2_fs \<times> 'a heap_scheme) option" where
  "ext2_alloc_inode parent is_dir fs s = do {
     pref \<leftarrow> (if parent > 0 then udiv (parent - 1) (s_inodes_per_group (superblock fs)) else Some 0);
     alloc_inode_from pref is_dir 0 (unat (num_groups fs)) fs s
   }"

definition ext2_free_inode :: "u32 \<Rightarrow> 'd ext2_fs \<Rightarrow> 'a heap_scheme \<Rightarrow> (int \<times> 'd ext2_fs \<times> 'a heap_scheme) option" where
  "ext2_free_inode n fs s =
     (if bad_inode_num n fs then Some (EXT2_ERROR_INVALID, fs, s)
      else do {
        (r, fs, s) \<leftarrow> ext2_read_inode n fs s;
        (case r of
           Inl _ \<Rightarrow> Some (EXT2_ERROR_IO, fs, s)
         | Inr inode \<Rightarrow> do {
             let is_dir = (i_mode inode AND EXT2_S_IFDIR \<noteq> 0);
             group \<leftarrow> udiv (n - 1) (s_inodes_per_group (superblock fs));
             index \<leftarrow> umod (n - 1) (s_inodes_per_group (superblock fs));
             d \<leftarrow> group_at (unat group) fs;
             (p, fs, s) \<leftarrow> ext2_get_block (bg_inode_bitmap d) fs s;
             if p = 0 then Some (EXT2_ERROR_IO, fs, s)
             else do {
               fs \<leftarrow> mark_bit ext2_clear_bit (unat index) p fs;
               let fs = count_inodes_by (\<lambda>c. c + 1) (\<lambda>c. c + 1) (if is_dir then (\<lambda>c. c - 1) else (\<lambda>c. c)) (unat group) fs;
               (fs, s) \<leftarrow> write_group (unat group) fs s;
               Some (EXT2_SUCCESS, fs, s)
             }
           })
      })"

section \<open>The blocks of a file\<close>

definition zero_block :: "u32 \<Rightarrow> 'd ext2_fs \<Rightarrow> 'a heap_scheme \<Rightarrow> ('d ext2_fs \<times> 'a heap_scheme) option" where
  "zero_block b fs s = do {
     (p, fs, s) \<leftarrow> ext2_get_block b fs s;
     if p = 0 then Some (fs, s)
     else do {
       fs \<leftarrow> block_copy p 0 (replicate (unat (block_size fs)) 0) fs;
       Some (ext2_put_block p True fs, s)
     }
   }"

text \<open>
  A pointer of the inode, which is set to a new block when it is zero and \<open>allocate\<close> is given:
  the direct blocks and the roots of the indirect ones.
\<close>

definition root_slot :: "nat \<Rightarrow> bool \<Rightarrow> ext2_inode \<Rightarrow> 'd ext2_fs \<Rightarrow> 'a heap_scheme \<Rightarrow> (u32 \<times> ext2_inode \<times> 'd ext2_fs \<times> 'a heap_scheme) option" where
  "root_slot k allocate inode fs s =
     (if i_block inode ! k = 0 \<and> allocate
      then do {
        (r, fs, s) \<leftarrow> ext2_alloc_block fs s;
        (case r of
           Inl _ \<Rightarrow> Some (0, inode, fs, s)
         | Inr b \<Rightarrow> do {
             (fs, s) \<leftarrow> zero_block b fs s;
             Some (b, inode\<lparr>i_block := (i_block inode)[k := b]\<rparr>, fs, s)
           })
      }
      else Some (i_block inode ! k, inode, fs, s))"

text \<open>Pointer \<open>i\<close> of the indirect block \<open>b\<close>, in the same way.\<close>

definition ind_slot :: "u32 \<Rightarrow> nat \<Rightarrow> bool \<Rightarrow> 'd ext2_fs \<Rightarrow> 'a heap_scheme \<Rightarrow> (u32 \<times> 'd ext2_fs \<times> 'a heap_scheme) option" where
  "ind_slot b i allocate fs s = do {
     (p, fs, s) \<leftarrow> ext2_get_block b fs s;
     if p = 0 then Some (0, fs, s)
     else do {
       ptrs \<leftarrow> block_at p fs;
       n \<leftarrow> get32 ptrs (4 * i);
       if n = 0 \<and> allocate
       then do {
         (r, fs, s) \<leftarrow> ext2_alloc_block fs s;
         (case r of
            Inl _ \<Rightarrow> Some (0, fs, s)
          | Inr m \<Rightarrow> do {
              fs \<leftarrow> block_copy p (4 * i) (le_enc 4 m) fs;
              (fs, s) \<leftarrow> zero_block m (ext2_put_block p True fs) s;
              Some (m, fs, s)
            })
       }
       else Some (n, ext2_put_block p False fs, s)
     }
   }"

fun ind_walk :: "u32 \<Rightarrow> nat list \<Rightarrow> bool \<Rightarrow> 'd ext2_fs \<Rightarrow> 'a heap_scheme \<Rightarrow> (u32 \<times> 'd ext2_fs \<times> 'a heap_scheme) option" where
  "ind_walk b [] allocate fs s = Some (b, fs, s)"
| "ind_walk b (i # is) allocate fs s =
     (if b = 0 then Some (0, fs, s)
      else do { (n, fs, s) \<leftarrow> ind_slot b i allocate fs s; ind_walk n is allocate fs s })"

definition tree_slot :: "nat \<Rightarrow> nat list \<Rightarrow> bool \<Rightarrow> ext2_inode \<Rightarrow> 'd ext2_fs \<Rightarrow> 'a heap_scheme \<Rightarrow> (u32 \<times> ext2_inode \<times> 'd ext2_fs \<times> 'a heap_scheme) option" where
  "tree_slot k is allocate inode fs s = do {
     (b, inode, fs, s) \<leftarrow> root_slot k allocate inode fs s;
     (n, fs, s) \<leftarrow> ind_walk b is allocate fs s;
     Some (n, inode, fs, s)
   }"

text \<open>The pointers that lead to block \<open>index\<close> of a file: a pointer of the inode and indices in indirect blocks.\<close>

definition block_path :: "u32 \<Rightarrow> u32 \<Rightarrow> (nat \<times> nat list) option" where
  "block_path ptrs index =
     (if index < of_nat EXT2_NDIR_BLOCKS then Some (unat index, [])
      else (let index = index - of_nat EXT2_NDIR_BLOCKS in
            if index < ptrs then Some (EXT2_IND_BLOCK, [unat index])
            else (let index = index - ptrs in
                  if index < ptrs * ptrs then Some (EXT2_DIND_BLOCK, [unat (index div ptrs), unat (index mod ptrs)])
                  else (let index = index - ptrs * ptrs in
                        if index < ptrs * ptrs * ptrs
                        then Some (EXT2_TIND_BLOCK, [unat (index div (ptrs * ptrs)), unat (index div ptrs mod ptrs), unat (index mod ptrs)])
                        else None))))"

definition ext2_get_block_num :: "u32 \<Rightarrow> bool \<Rightarrow> ext2_inode \<Rightarrow> 'd ext2_fs \<Rightarrow> 'a heap_scheme \<Rightarrow> (u32 \<times> ext2_inode \<times> 'd ext2_fs \<times> 'a heap_scheme) option" where
  "ext2_get_block_num index allocate inode fs s =
     (case block_path (block_size fs div 4) index of
        None \<Rightarrow> Some (0, inode, fs, s)
      | Some (k, is) \<Rightarrow> tree_slot k is allocate inode fs s)"

end
