(* ===== verification/Ext2Dir.thy ===== *)
theory Ext2Dir
  imports Ext2Alloc
begin

text \<open>Directories and paths of the ext2 file system (\<^verbatim>\<open>ext2.c\<close>).\<close>

section \<open>Directory entries\<close>

definition align4 :: "u32 \<Rightarrow> u32" where
  "align4 x = (x + 4 - 1) AND NOT (4 - 1)"

text \<open>Whether the entry at \<open>off\<close> is in use and has the given name.\<close>

definition entry_matches :: "u8 list \<Rightarrow> nat \<Rightarrow> string \<Rightarrow> bool option" where
  "entry_matches data off name = do {
     ino \<leftarrow> get32 data off;
     if ino = 0 then Some False
     else do {
       len \<leftarrow> get8 data (off + 6);
       if unat len = length name
       then do { bs \<leftarrow> disk_get (off + 8) (unat len) data; Some (bs = bytes name) }
       else Some False
     }
   }"

definition entry_bytes :: "u32 \<Rightarrow> u16 \<Rightarrow> u8 \<Rightarrow> string \<Rightarrow> u8 list" where
  "entry_bytes ino rec type name = le_enc 4 ino @ le_enc 2 rec @ [of_nat (length name), type] @ bytes name"

partial_function (option) lookup_from ::
    "string \<Rightarrow> ext2_inode \<Rightarrow> u32 \<Rightarrow> 'd ext2_fs \<Rightarrow> 'a heap_scheme \<Rightarrow> (u32 res \<times> 'd ext2_fs \<times> 'a heap_scheme) option" where
  "lookup_from name dir offset fs s =
     (if offset < i_size dir
      then do {
        block_index \<leftarrow> udiv offset (block_size fs);
        block_offset \<leftarrow> umod offset (block_size fs);
        (b, dir, fs, s) \<leftarrow> ext2_get_block_num block_index False dir fs s;
        if b = 0 then Some (Inl EXT2_ERROR_NOT_FOUND, fs, s)
        else do {
          (p, fs, s) \<leftarrow> ext2_get_block b fs s;
          if p = 0 then Some (Inl EXT2_ERROR_IO, fs, s)
          else do {
            data \<leftarrow> block_at p fs;
            m \<leftarrow> entry_matches data (unat block_offset) name;
            if m
            then do { ino \<leftarrow> get32 data (unat block_offset); Some (Inr ino, ext2_put_block p False fs, s) }
            else do {
              rec_len \<leftarrow> get16 data (unat block_offset + 4);
              lookup_from name dir (offset + ucast rec_len) (ext2_put_block p False fs) s
            }
          }
        }
      }
      else Some (Inl EXT2_ERROR_NOT_FOUND, fs, s))"

definition ext2_lookup :: "u32 \<Rightarrow> string \<Rightarrow> 'd ext2_fs \<Rightarrow> 'a heap_scheme \<Rightarrow> (u32 res \<times> 'd ext2_fs \<times> 'a heap_scheme) option" where
  "ext2_lookup dir_num name fs s = do {
     (r, fs, s) \<leftarrow> ext2_read_inode dir_num fs s;
     (case r of
        Inl _ \<Rightarrow> Some (Inl EXT2_ERROR_IO, fs, s)
      | Inr dir \<Rightarrow>
          if i_mode dir AND EXT2_S_IFDIR = 0 then Some (Inl EXT2_ERROR_NOT_DIR, fs, s)
          else lookup_from name dir 0 fs s)
   }"

text \<open>
  The search for an entry with room behind it, which is split; the result \<open>None\<close> means that a
  new block is needed.
\<close>

partial_function (option) add_from ::
    "string \<Rightarrow> u32 \<Rightarrow> u8 \<Rightarrow> ext2_inode \<Rightarrow> u32 \<Rightarrow> 'd ext2_fs \<Rightarrow> 'a heap_scheme \<Rightarrow> (int option \<times> 'd ext2_fs \<times> 'a heap_scheme) option" where
  "add_from name ino type dir offset fs s =
     (if offset < i_size dir
      then do {
        block_index \<leftarrow> udiv offset (block_size fs);
        block_offset \<leftarrow> umod offset (block_size fs);
        (b, dir, fs, s) \<leftarrow> ext2_get_block_num block_index False dir fs s;
        if b = 0 then Some (None, fs, s)
        else do {
          (p, fs, s) \<leftarrow> ext2_get_block b fs s;
          if p = 0 then Some (Some EXT2_ERROR_IO, fs, s)
          else do {
            data \<leftarrow> block_at p fs;
            rec_len \<leftarrow> get16 data (unat block_offset + 4);
            name_len \<leftarrow> get8 data (unat block_offset + 6);
            let real_len = align4 (8 + ucast name_len);
            let extra_space = ucast rec_len - real_len;
            if extra_space \<ge> align4 (8 + of_nat (length name))
            then do {
              fs \<leftarrow> block_copy p (unat block_offset + 4) (le_enc 2 (ucast real_len :: u16)) fs;
              fs \<leftarrow> block_copy p (unat block_offset + unat real_len) (entry_bytes ino (ucast extra_space) type name) fs;
              Some (Some EXT2_SUCCESS, ext2_put_block p True fs, s)
            }
            else add_from name ino type dir (offset + ucast rec_len) (ext2_put_block p False fs) s
          }
        }
      }
      else Some (None, fs, s))"

definition ext2_add_dir_entry ::
    "u32 \<Rightarrow> string \<Rightarrow> u32 \<Rightarrow> u8 \<Rightarrow> 'd ext2_fs \<Rightarrow> 'a heap_scheme \<Rightarrow> (int \<times> 'd ext2_fs \<times> 'a heap_scheme) option" where
  "ext2_add_dir_entry dir_num name ino type fs s = do {
     (r, fs, s) \<leftarrow> ext2_read_inode dir_num fs s;
     (case r of
        Inl _ \<Rightarrow> Some (EXT2_ERROR_IO, fs, s)
      | Inr dir \<Rightarrow>
          if i_mode dir AND EXT2_S_IFDIR = 0 then Some (EXT2_ERROR_NOT_DIR, fs, s)
          else do {
            (r, fs, s) \<leftarrow> add_from name ino type dir 0 fs s;
            (case r of
               Some e \<Rightarrow> Some (e, fs, s)
             | None \<Rightarrow> do {
                 block_index \<leftarrow> udiv (i_size dir) (block_size fs);
                 (b, dir, fs, s) \<leftarrow> ext2_get_block_num block_index True dir fs s;
                 if b = 0 then Some (EXT2_ERROR_NO_SPACE, fs, s)
                 else do {
                   (p, fs, s) \<leftarrow> ext2_get_block b fs s;
                   if p = 0 then Some (EXT2_ERROR_IO, fs, s)
                   else do {
                     fs \<leftarrow> block_copy p 0 (entry_bytes ino (ucast (block_size fs)) type name) fs;
                     let fs = ext2_put_block p True fs;
                     (_, fs, s) \<leftarrow> ext2_write_inode dir_num (dir\<lparr>i_size := i_size dir + block_size fs\<rparr>) fs s;
                     Some (EXT2_SUCCESS, fs, s)
                   }
                 }
               })
          })
   }"

text \<open>\<open>prev\<close> is the previous entry: the address of its block and its offset there.\<close>

partial_function (option) remove_from ::
    "string \<Rightarrow> ext2_inode \<Rightarrow> u32 \<Rightarrow> (u64 \<times> nat) option \<Rightarrow> 'd ext2_fs \<Rightarrow> 'a heap_scheme \<Rightarrow> (int \<times> 'd ext2_fs \<times> 'a heap_scheme) option" where
  "remove_from name dir offset prev fs s =
     (let not_found = (\<lambda>fs s. Some (EXT2_ERROR_NOT_FOUND, case prev of None \<Rightarrow> fs | Some (q, _) \<Rightarrow> ext2_put_block q False fs, s)) in
      if offset < i_size dir
      then do {
        block_index \<leftarrow> udiv offset (block_size fs);
        block_offset \<leftarrow> umod offset (block_size fs);
        (b, dir, fs, s) \<leftarrow> ext2_get_block_num block_index False dir fs s;
        if b = 0 then not_found fs s
        else do {
          (p, fs, s) \<leftarrow> ext2_get_block b fs s;
          if p = 0 then Some (EXT2_ERROR_IO, fs, s)
          else do {
            data \<leftarrow> block_at p fs;
            m \<leftarrow> entry_matches data (unat block_offset) name;
            rec_len \<leftarrow> get16 data (unat block_offset + 4);
            if m
            then (case prev of
                    Some (q, off) \<Rightarrow> do {
                      pdata \<leftarrow> block_at q fs;
                      prev_len \<leftarrow> get16 pdata (off + 4);
                      fs \<leftarrow> block_copy q (off + 4) (le_enc 2 (prev_len + rec_len)) fs;
                      Some (EXT2_SUCCESS, ext2_put_block p False (ext2_put_block q True fs), s)
                    }
                  | None \<Rightarrow> do {
                      fs \<leftarrow> block_copy p (unat block_offset) (le_enc 4 (0 :: u32)) fs;
                      Some (EXT2_SUCCESS, ext2_put_block p True fs, s)
                    })
            else remove_from name dir (offset + ucast rec_len) (Some (p, unat block_offset))
                   (case prev of None \<Rightarrow> fs | Some (q, _) \<Rightarrow> if q \<noteq> p then ext2_put_block q False fs else fs) s
          }
        }
      }
      else not_found fs s)"

definition ext2_remove_dir_entry :: "u32 \<Rightarrow> string \<Rightarrow> 'd ext2_fs \<Rightarrow> 'a heap_scheme \<Rightarrow> (int \<times> 'd ext2_fs \<times> 'a heap_scheme) option" where
  "ext2_remove_dir_entry dir_num name fs s = do {
     (r, fs, s) \<leftarrow> ext2_read_inode dir_num fs s;
     (case r of
        Inl _ \<Rightarrow> Some (EXT2_ERROR_IO, fs, s)
      | Inr dir \<Rightarrow>
          if i_mode dir AND EXT2_S_IFDIR = 0 then Some (EXT2_ERROR_NOT_DIR, fs, s)
          else remove_from name dir 0 None fs s)
   }"

section \<open>Paths\<close>

text \<open>
  The loop over the components of a path. The result is the error code, the inode reached and, when
  the last component is wanted, that component; it is \<open>None\<close> where the code leaves the buffer unset.
\<close>

function resolve_from ::
    "bool \<Rightarrow> string \<Rightarrow> u32 \<Rightarrow> 'd ext2_fs \<Rightarrow> 'a heap_scheme \<Rightarrow> ((int \<times> u32 \<times> string option) \<times> 'd ext2_fs \<times> 'a heap_scheme) option" where
  "resolve_from want token ino fs s =
     (if token = [] then Some ((EXT2_SUCCESS, ino, if want then Some [] else None), fs, s)
      else (let name = takeWhile (\<lambda>c. c \<noteq> CHR ''/'') token; rest = dropWhile (\<lambda>c. c \<noteq> CHR ''/'') token in
            if rest = [] \<and> want then Some ((EXT2_SUCCESS, ino, Some name), fs, s)
            else do {
              (r, fs, s) \<leftarrow> ext2_lookup ino name fs s;
              (case r of
                 Inl e \<Rightarrow> Some ((e, ino, None), fs, s)
               | Inr next \<Rightarrow>
                   if rest = [] then Some ((EXT2_SUCCESS, next, if want then Some [] else None), fs, s)
                   else resolve_from want (tl rest) next fs s)
            }))"
  by pat_completeness auto
termination
proof (relation "measure (\<lambda>(want, token, ino, fs, s). length token)", goal_cases)
  case (2 want token ino fs s x xa r)
  then have "length xa \<le> length token" "xa \<noteq> []" by (auto simp: length_dropWhile_le)
  then show ?case by (cases xa) auto
qed simp

declare resolve_from.simps [simp del]

definition ext2_resolve_path ::
    "string \<Rightarrow> bool \<Rightarrow> 'd ext2_fs \<Rightarrow> 'a heap_scheme \<Rightarrow> ((int \<times> u32 \<times> string option) \<times> 'd ext2_fs \<times> 'a heap_scheme) option" where
  "ext2_resolve_path path want fs s =
     (if path = [] \<or> hd path \<noteq> CHR ''/'' then Some ((EXT2_ERROR_INVALID, 0, None), fs, s)
      else resolve_from want (take 255 (tl path)) EXT2_ROOT_INO fs s)"

end
