(* ===== verification/Ext2File.thy ===== *)
theory Ext2File
  imports Ext2Dir
begin

text \<open>
  Mounting, files, directories as callers use them, permissions (\<^verbatim>\<open>ext2.c\<close>). The pointer from
  a file to its file system is left out: the file system is an argument.
\<close>

section \<open>Mounting\<close>

abbreviation (input) SIZEOF_EXT2_FS :: u64 where "SIZEOF_EXT2_FS \<equiv> 1080"
abbreviation (input) SIZEOF_GROUP_DESC :: u32 where "SIZEOF_GROUP_DESC \<equiv> 32"
abbreviation (input) SIZEOF_EXT2_FILE :: u64 where "SIZEOF_EXT2_FILE \<equiv> 160"
abbreviation (input) SIZEOF_DIR_ITER :: u64 where "SIZEOF_DIR_ITER \<equiv> 280"

definition fs_geometry :: "u64 \<Rightarrow> 'd block_device \<Rightarrow> ext2_superblock \<Rightarrow> 'd ext2_fs option" where
  "fs_geometry fp dev sb = do {
     groups \<leftarrow> udiv (s_blocks_count sb + s_blocks_per_group sb - 1) (s_blocks_per_group sb);
     if unat (s_log_block_size sb) \<ge> 32 then None
     else Some \<lparr>fs_ptr = fp, fs_device = dev, superblock = sb, group_desc_ptr = 0, group_desc = [],
            block_size = push_bit (unat (s_log_block_size sb)) 1024,
            inode_size = (if s_inode_size sb \<noteq> 0 then ucast (s_inode_size sb) else 128),
            num_groups = groups, first_data_block = s_first_data_block sb,
            cache = [], cache_size = 0, max_cache_entries = EXT2_CACHE_SIZE\<rparr>
   }"

definition groups_of :: "nat \<Rightarrow> u8 list \<Rightarrow> ext2_group_desc list" where
  "groups_of n bs = map (\<lambda>i. group_desc_of (take 32 (drop (32 * i) bs))) [0..<n]"

definition mount_groups :: "'d ext2_fs \<Rightarrow> 'a heap_scheme \<Rightarrow> ('d ext2_fs option \<times> 'a heap_scheme) option" where
  "mount_groups fs s = do {
     let gd_size = num_groups fs * SIZEOF_GROUP_DESC;
     (gp, s) \<leftarrow> kmalloc (ucast gd_size) s;
     if gp = 0 then do { s \<leftarrow> kfree (fs_ptr fs) s; Some (None, s) }
     else do {
       (buf, s) \<leftarrow> kmalloc (ucast (block_size fs)) s;
       if buf = 0 then do { s \<leftarrow> kfree gp s; s \<leftarrow> kfree (fs_ptr fs) s; Some (None, s) }
       else do {
         r \<leftarrow> ext2_read_block (first_data_block fs + 1) fs;
         (case r of
            None \<Rightarrow> do { s \<leftarrow> kfree buf s; s \<leftarrow> kfree gp s; s \<leftarrow> kfree (fs_ptr fs) s; Some (None, s) }
          | Some bs \<Rightarrow> do {
              bs \<leftarrow> read_into buf (unat (block_size fs)) bs s;
              bs \<leftarrow> disk_get 0 (unat gd_size) bs;
              s \<leftarrow> kfree buf s;
              Some (Some (fs\<lparr>group_desc_ptr := gp, group_desc := groups_of (unat gd_size div 32) bs\<rparr>), s)
            })
       }
     }
   }"

definition ext2_mount :: "'d block_device \<Rightarrow> 'a heap_scheme \<Rightarrow> ('d ext2_fs option \<times> 'a heap_scheme) option" where
  "ext2_mount dev s = do {
     (fp, s) \<leftarrow> kmalloc SIZEOF_EXT2_FS s;
     if fp = 0 then Some (None, s)
     else do {
       (buf, s) \<leftarrow> kmalloc 1024 s;
       if buf = 0 then do { s \<leftarrow> kfree fp s; Some (None, s) }
       else do {
         sb_lba \<leftarrow> udiv 1024 (sector_size dev);
         r \<leftarrow> dev_read dev (ucast sb_lba) sb_lba;
         (case r of
            None \<Rightarrow> do { s \<leftarrow> kfree buf s; s \<leftarrow> kfree fp s; Some (None, s) }
          | Some bs \<Rightarrow> do {
              bs \<leftarrow> read_into buf 1024 bs s;
              let sb = superblock_of bs;
              s \<leftarrow> kfree buf s;
              if s_magic sb \<noteq> EXT2_SUPER_MAGIC then do { s \<leftarrow> kfree fp s; Some (None, s) }
              else do { fs \<leftarrow> fs_geometry fp dev sb; mount_groups fs s }
            })
       }
     }
   }"

fun free_entries :: "ext2_cache_entry list \<Rightarrow> 'a heap_scheme \<Rightarrow> 'a heap_scheme option" where
  "free_entries [] s = Some s"
| "free_entries (e # es) s = do { s \<leftarrow> kfree (ce_data_ptr e) s; s \<leftarrow> kfree (ce_ptr e) s; free_entries es s }"

text \<open>What is left of the file system is its device.\<close>

definition ext2_unmount :: "'d ext2_fs \<Rightarrow> 'a heap_scheme \<Rightarrow> (int \<times> 'd block_device \<times> 'a heap_scheme) option" where
  "ext2_unmount fs s = do {
     (_, fs) \<leftarrow> ext2_flush_cache fs;
     s \<leftarrow> free_entries (cache fs) s;
     s \<leftarrow> kfree (group_desc_ptr fs) s;
     s \<leftarrow> kfree (fs_ptr fs) s;
     Some (EXT2_SUCCESS, fs_device fs, s)
   }"

section \<open>Files\<close>

record ext2_file =
  file_ptr :: u64
  inode_num :: u32
  f_inode :: ext2_inode
  position :: u64
  is_directory :: bool

definition ext2_open :: "string \<Rightarrow> 'd ext2_fs \<Rightarrow> 'a heap_scheme \<Rightarrow> (ext2_file option \<times> 'd ext2_fs \<times> 'a heap_scheme) option" where
  "ext2_open path fs s = do {
     ((r, ino, _), fs, s) \<leftarrow> ext2_resolve_path path False fs s;
     if r \<noteq> EXT2_SUCCESS then Some (None, fs, s)
     else do {
       (fp, s) \<leftarrow> kmalloc SIZEOF_EXT2_FILE s;
       if fp = 0 then Some (None, fs, s)
       else do {
         (r, fs, s) \<leftarrow> ext2_read_inode ino fs s;
         (case r of
            Inl _ \<Rightarrow> do { s \<leftarrow> kfree fp s; Some (None, fs, s) }
          | Inr inode \<Rightarrow> Some (Some \<lparr>file_ptr = fp, inode_num = ino, f_inode = inode, position = 0,
                                   is_directory = (i_mode inode AND EXT2_S_IFDIR \<noteq> 0)\<rparr>, fs, s))
       }
     }
   }"

definition ext2_close :: "ext2_file \<Rightarrow> 'd ext2_fs \<Rightarrow> 'a heap_scheme \<Rightarrow> (int \<times> 'd ext2_fs \<times> 'a heap_scheme) option" where
  "ext2_close f fs s = do {
     (_, fs, s) \<leftarrow> ext2_write_inode (inode_num f) (f_inode f) fs s;
     s \<leftarrow> kfree (file_ptr f) s;
     Some (EXT2_SUCCESS, fs, s)
   }"

text \<open>The loop of \<open>ext2_read\<close>; \<open>acc\<close> are the bytes in the buffer.\<close>

definition chunk_at :: "u64 \<Rightarrow> u32 \<Rightarrow> 'd ext2_fs \<Rightarrow> (u32 \<times> u32 \<times> u32) option" where
  "chunk_at pos left fs = do {
     block_index \<leftarrow> udiv pos (ucast (block_size fs));
     block_offset \<leftarrow> umod pos (ucast (block_size fs));
     let room = block_size fs - ucast block_offset;
     Some (ucast block_index, ucast block_offset, if left < room then left else room)
   }"

partial_function (option) read_loop ::
    "u32 \<Rightarrow> u8 list \<Rightarrow> ext2_file \<Rightarrow> 'd ext2_fs \<Rightarrow> 'a heap_scheme \<Rightarrow> (int \<times> u8 list \<times> ext2_file \<times> 'd ext2_fs \<times> 'a heap_scheme) option" where
  "read_loop left acc f fs s =
     (if left = 0 then Some (sint (of_nat (length acc) :: u32), acc, f, fs, s)
      else do {
        (block_index, block_offset, chunk) \<leftarrow> chunk_at (position f) left fs;
        (b, inode, fs, s) \<leftarrow> ext2_get_block_num block_index False (f_inode f) fs s;
        let f = f\<lparr>f_inode := inode\<rparr>;
        if b = 0
        then read_loop (left - chunk) (acc @ replicate (unat chunk) 0) (f\<lparr>position := position f + ucast chunk\<rparr>) fs s
        else do {
          (p, fs, s) \<leftarrow> ext2_get_block b fs s;
          if p = 0 then Some (EXT2_ERROR_IO, acc, f, fs, s)
          else do {
            data \<leftarrow> block_at p fs;
            bs \<leftarrow> disk_get (unat block_offset) (unat chunk) data;
            read_loop (left - chunk) (acc @ bs) (f\<lparr>position := position f + ucast chunk\<rparr>) (ext2_put_block p False fs) s
          }
        }
      })"

definition ext2_read :: "ext2_file \<Rightarrow> u32 \<Rightarrow> 'd ext2_fs \<Rightarrow> 'a heap_scheme \<Rightarrow> (int \<times> u8 list \<times> ext2_file \<times> 'd ext2_fs \<times> 'a heap_scheme) option" where
  "ext2_read f n fs s =
     (if is_directory f then Some (EXT2_ERROR_IS_DIR, [], f, fs, s)
      else if position f \<ge> ucast (i_size (f_inode f)) then Some (0, [], f, fs, s)
      else (let rest = ucast (i_size (f_inode f)) - position f;
                to_read = (if ucast n < rest then n else ucast rest)
            in read_loop to_read [] f fs s))"

partial_function (option) ext2_write_loop ::
    "u8 list \<Rightarrow> u32 \<Rightarrow> ext2_file \<Rightarrow> 'd ext2_fs \<Rightarrow> 'a heap_scheme \<Rightarrow> (int \<times> ext2_file \<times> 'd ext2_fs \<times> 'a heap_scheme) option" where
  "ext2_write_loop buf left f fs s =
     (if left = 0 then Some (EXT2_SUCCESS, f, fs, s)
      else do {
        (block_index, block_offset, chunk) \<leftarrow> chunk_at (position f) left fs;
        (b, inode, fs, s) \<leftarrow> ext2_get_block_num block_index True (f_inode f) fs s;
        let f = f\<lparr>f_inode := inode\<rparr>;
        if b = 0 then Some (EXT2_ERROR_NO_SPACE, f, fs, s)
        else do {
          (p, fs, s) \<leftarrow> ext2_get_block b fs s;
          if p = 0 then Some (EXT2_ERROR_IO, f, fs, s)
          else do {
            fs \<leftarrow> block_copy p (unat block_offset) (take (unat chunk) buf) fs;
            let f = f\<lparr>position := position f + ucast chunk\<rparr>;
            let f = (if position f > ucast (i_size (f_inode f)) then f\<lparr>f_inode := (f_inode f)\<lparr>i_size := ucast (position f)\<rparr>\<rparr> else f);
            ext2_write_loop (drop (unat chunk) buf) (left - chunk) f (ext2_put_block p True fs) s
          }
        }
      })"

definition ext2_write :: "ext2_file \<Rightarrow> u8 list \<Rightarrow> 'd ext2_fs \<Rightarrow> 'a heap_scheme \<Rightarrow> (int \<times> ext2_file \<times> 'd ext2_fs \<times> 'a heap_scheme) option" where
  "ext2_write f buf fs s =
     (if is_directory f then Some (EXT2_ERROR_IS_DIR, f, fs, s)
      else do {
        (r, f, fs, s) \<leftarrow> ext2_write_loop buf (of_nat (length buf)) f fs s;
        if r \<noteq> EXT2_SUCCESS then Some (r, f, fs, s)
        else do {
          (_, fs, s) \<leftarrow> ext2_write_inode (inode_num f) (f_inode f) fs s;
          Some (sint (of_nat (length buf) :: u32), f, fs, s)
        }
      })"

abbreviation (input) EXT2_SEEK_SET :: int where "EXT2_SEEK_SET \<equiv> 0"
abbreviation (input) EXT2_SEEK_CUR :: int where "EXT2_SEEK_CUR \<equiv> 1"
abbreviation (input) EXT2_SEEK_END :: int where "EXT2_SEEK_END \<equiv> 2"

definition ext2_seek :: "ext2_file \<Rightarrow> u64 \<Rightarrow> int \<Rightarrow> int \<times> ext2_file" where
  "ext2_seek f offset whence =
     (if whence \<notin> {EXT2_SEEK_SET, EXT2_SEEK_CUR, EXT2_SEEK_END} then (EXT2_ERROR_INVALID, f)
      else (let new_pos = (if whence = EXT2_SEEK_SET then offset
                           else if whence = EXT2_SEEK_CUR then position f + offset
                           else ucast (i_size (f_inode f)) + offset)
            in if sint new_pos < 0 then (EXT2_ERROR_INVALID, f) else (EXT2_SUCCESS, f\<lparr>position := new_pos\<rparr>)))"

definition ext2_tell :: "ext2_file \<Rightarrow> u64" where
  "ext2_tell f = position f"

definition ext2_size :: "ext2_file \<Rightarrow> u64" where
  "ext2_size f = ucast (i_size (f_inode f))"

end
