(* ===== verification/Ext2Ops.thy ===== *)
theory Ext2Ops
  imports Ext2File
begin

text \<open>Creating and deleting files and directories, reading directories, modes and owners (\<^verbatim>\<open>ext2.c\<close>).\<close>

section \<open>Creation and deletion\<close>

text \<open>
  The first part of \<open>ext2_create\<close> and \<open>ext2_mkdir\<close>: the parent directory and the new name. A path whose
  parent does not exist goes on with a last component that was never set, which has no
  defined result.
\<close>

definition new_name :: "string \<Rightarrow> 'd ext2_fs \<Rightarrow> 'a heap_scheme \<Rightarrow> ((u32 \<times> string) res \<times> 'd ext2_fs \<times> 'a heap_scheme) option" where
  "new_name path fs s = do {
     ((r, parent, last), fs, s) \<leftarrow> ext2_resolve_path path True fs s;
     if r \<noteq> EXT2_SUCCESS \<and> r \<noteq> EXT2_ERROR_NOT_FOUND then Some (Inl r, fs, s)
     else do {
       name \<leftarrow> last;
       if name = [] then Some (Inl EXT2_ERROR_INVALID, fs, s)
       else do {
         (r, fs, s) \<leftarrow> ext2_lookup parent name fs s;
         (case r of
            Inr _ \<Rightarrow> Some (Inl EXT2_ERROR_EXISTS, fs, s)
          | Inl _ \<Rightarrow> Some (Inr (parent, name), fs, s))
       }
     }
   }"

definition ext2_create :: "string \<Rightarrow> u16 \<Rightarrow> 'd ext2_fs \<Rightarrow> 'a heap_scheme \<Rightarrow> (int \<times> 'd ext2_fs \<times> 'a heap_scheme) option" where
  "ext2_create path mode fs s = do {
     (r, fs, s) \<leftarrow> new_name path fs s;
     (case r of
        Inl e \<Rightarrow> Some (e, fs, s)
      | Inr (parent, name) \<Rightarrow> do {
          (r, fs, s) \<leftarrow> ext2_alloc_inode parent False fs s;
          (case r of
             Inl e \<Rightarrow> Some (e, fs, s)
           | Inr ino \<Rightarrow> do {
               (r, fs, s) \<leftarrow> ext2_write_inode ino (zero_inode\<lparr>i_mode := mode OR EXT2_S_IFREG, i_links_count := 1, i_size := 0\<rparr>) fs s;
               if r \<noteq> EXT2_SUCCESS then do { (_, fs, s) \<leftarrow> ext2_free_inode ino fs s; Some (r, fs, s) }
               else do {
                 (r, fs, s) \<leftarrow> ext2_add_dir_entry parent name ino EXT2_FT_REG_FILE fs s;
                 if r \<noteq> EXT2_SUCCESS then do { (_, fs, s) \<leftarrow> ext2_free_inode ino fs s; Some (r, fs, s) }
                 else Some (EXT2_SUCCESS, fs, s)
               }
             })
        })
   }"

text \<open>The direct blocks of an inode up to the first zero pointer are freed.\<close>

fun free_direct :: "u32 list \<Rightarrow> 'd ext2_fs \<Rightarrow> 'a heap_scheme \<Rightarrow> ('d ext2_fs \<times> 'a heap_scheme) option" where
  "free_direct [] fs s = Some (fs, s)"
| "free_direct (b # bs) fs s =
     (if b = 0 then Some (fs, s)
      else do { (_, fs, s) \<leftarrow> ext2_free_block b fs s; free_direct bs fs s })"

text \<open>The first part of \<open>ext2_delete\<close> and \<open>ext2_rmdir\<close>: the parent, the name, the inode and its number.\<close>

definition old_name :: "string \<Rightarrow> 'd ext2_fs \<Rightarrow> 'a heap_scheme \<Rightarrow> ((u32 \<times> string \<times> u32 \<times> ext2_inode) res \<times> 'd ext2_fs \<times> 'a heap_scheme) option" where
  "old_name path fs s = do {
     ((r, parent, last), fs, s) \<leftarrow> ext2_resolve_path path True fs s;
     if r \<noteq> EXT2_SUCCESS then Some (Inl r, fs, s)
     else do {
       name \<leftarrow> last;
       if name = [] then Some (Inl EXT2_ERROR_INVALID, fs, s)
       else do {
         (r, fs, s) \<leftarrow> ext2_lookup parent name fs s;
         (case r of
            Inl e \<Rightarrow> Some (Inl e, fs, s)
          | Inr ino \<Rightarrow> do {
              (r, fs, s) \<leftarrow> ext2_read_inode ino fs s;
              (case r of
                 Inl e \<Rightarrow> Some (Inl e, fs, s)
               | Inr inode \<Rightarrow> Some (Inr (parent, name, ino, inode), fs, s))
            })
       }
     }
   }"

definition ext2_delete :: "string \<Rightarrow> 'd ext2_fs \<Rightarrow> 'a heap_scheme \<Rightarrow> (int \<times> 'd ext2_fs \<times> 'a heap_scheme) option" where
  "ext2_delete path fs s = do {
     (r, fs, s) \<leftarrow> old_name path fs s;
     (case r of
        Inl e \<Rightarrow> Some (e, fs, s)
      | Inr (parent, name, ino, inode) \<Rightarrow>
          if i_mode inode AND EXT2_S_IFDIR \<noteq> 0 then Some (EXT2_ERROR_IS_DIR, fs, s)
          else do {
            (r, fs, s) \<leftarrow> ext2_remove_dir_entry parent name fs s;
            if r \<noteq> EXT2_SUCCESS then Some (r, fs, s)
            else do {
              let inode = inode\<lparr>i_links_count := i_links_count inode - 1\<rparr>;
              if i_links_count inode = 0
              then do {
                (fs, s) \<leftarrow> free_direct (take EXT2_NDIR_BLOCKS (i_block inode)) fs s;
                (_, fs, s) \<leftarrow> ext2_free_inode ino fs s;
                Some (EXT2_SUCCESS, fs, s)
              }
              else do { (_, fs, s) \<leftarrow> ext2_write_inode ino inode fs s; Some (EXT2_SUCCESS, fs, s) }
            }
          })
   }"

text \<open>The change of the link count of a directory whose inode can be read.\<close>

definition link_parent :: "(u16 \<Rightarrow> u16) \<Rightarrow> u32 \<Rightarrow> 'd ext2_fs \<Rightarrow> 'a heap_scheme \<Rightarrow> (int \<times> 'd ext2_fs \<times> 'a heap_scheme) option" where
  "link_parent f parent fs s = do {
     (r, fs, s) \<leftarrow> ext2_read_inode parent fs s;
     (case r of
        Inl _ \<Rightarrow> Some (EXT2_SUCCESS, fs, s)
      | Inr inode \<Rightarrow> do {
          (_, fs, s) \<leftarrow> ext2_write_inode parent (inode\<lparr>i_links_count := f (i_links_count inode)\<rparr>) fs s;
          Some (EXT2_SUCCESS, fs, s)
        })
   }"

definition undo_mkdir :: "int \<Rightarrow> u32 \<Rightarrow> u32 \<Rightarrow> 'd ext2_fs \<Rightarrow> 'a heap_scheme \<Rightarrow> (int \<times> 'd ext2_fs \<times> 'a heap_scheme) option" where
  "undo_mkdir e b ino fs s = do {
     (_, fs, s) \<leftarrow> ext2_free_block b fs s;
     (_, fs, s) \<leftarrow> ext2_free_inode ino fs s;
     Some (e, fs, s)
   }"

text \<open>The first block of a new directory.\<close>

definition dot_entries :: "u32 \<Rightarrow> u32 \<Rightarrow> u32 \<Rightarrow> u8 list" where
  "dot_entries bsz ino parent =
     overlay 12 (entry_bytes parent (ucast (bsz - 12)) EXT2_FT_DIR ''..'')
       (overlay 0 (entry_bytes ino 12 EXT2_FT_DIR ''.'') (replicate (unat bsz) 0))"

definition make_dir :: "u32 \<Rightarrow> string \<Rightarrow> u32 \<Rightarrow> u32 \<Rightarrow> 'd ext2_fs \<Rightarrow> 'a heap_scheme \<Rightarrow> (int \<times> 'd ext2_fs \<times> 'a heap_scheme) option" where
  "make_dir parent name ino b fs s = do {
     (r, fs, s) \<leftarrow> ext2_write_inode ino (zero_inode\<lparr>i_mode := 0x1ED OR EXT2_S_IFDIR, i_links_count := 2, i_size := block_size fs,
                     i_block := (i_block zero_inode)[0 := b]\<rparr>) fs s;
     if r \<noteq> EXT2_SUCCESS then undo_mkdir r b ino fs s
     else do {
       (p, fs, s) \<leftarrow> ext2_get_block b fs s;
       if p = 0 then undo_mkdir EXT2_ERROR_IO b ino fs s
       else do {
         fs \<leftarrow> block_copy p 0 (dot_entries (block_size fs) ino parent) fs;
         (r, fs, s) \<leftarrow> ext2_add_dir_entry parent name ino EXT2_FT_DIR (ext2_put_block p True fs) s;
         if r \<noteq> EXT2_SUCCESS then undo_mkdir r b ino fs s
         else link_parent (\<lambda>c. c + 1) parent fs s
       }
     }
   }"

definition ext2_mkdir :: "string \<Rightarrow> 'd ext2_fs \<Rightarrow> 'a heap_scheme \<Rightarrow> (int \<times> 'd ext2_fs \<times> 'a heap_scheme) option" where
  "ext2_mkdir path fs s = do {
     (r, fs, s) \<leftarrow> new_name path fs s;
     (case r of
        Inl e \<Rightarrow> Some (e, fs, s)
      | Inr (parent, name) \<Rightarrow> do {
          (r, fs, s) \<leftarrow> ext2_alloc_inode parent True fs s;
          (case r of
             Inl e \<Rightarrow> Some (e, fs, s)
           | Inr ino \<Rightarrow> do {
               (r, fs, s) \<leftarrow> ext2_alloc_block fs s;
               (case r of
                  Inl e \<Rightarrow> do { (_, fs, s) \<leftarrow> ext2_free_inode ino fs s; Some (e, fs, s) }
                | Inr b \<Rightarrow> make_dir parent name ino b fs s)
             })
        })
   }"

definition ext2_rmdir :: "string \<Rightarrow> 'd ext2_fs \<Rightarrow> 'a heap_scheme \<Rightarrow> (int \<times> 'd ext2_fs \<times> 'a heap_scheme) option" where
  "ext2_rmdir path fs s = do {
     (r, fs, s) \<leftarrow> old_name path fs s;
     (case r of
        Inl e \<Rightarrow> Some (e, fs, s)
      | Inr (parent, name, ino, inode) \<Rightarrow>
          if i_mode inode AND EXT2_S_IFDIR = 0 then Some (EXT2_ERROR_NOT_DIR, fs, s)
          else if i_links_count inode > 2 then Some (EXT2_ERROR_NOT_EMPTY, fs, s)
          else do {
            (r, fs, s) \<leftarrow> ext2_remove_dir_entry parent name fs s;
            if r \<noteq> EXT2_SUCCESS then Some (r, fs, s)
            else do {
              (fs, s) \<leftarrow> free_direct (take EXT2_NDIR_BLOCKS (i_block inode)) fs s;
              (_, fs, s) \<leftarrow> ext2_free_inode ino fs s;
              link_parent (\<lambda>c. c - 1) parent fs s
            }
          })
   }"

section \<open>Reading directories\<close>

record ext2_dir_iter =
  iter_ptr :: u64
  iter_dir :: ext2_file
  iter_offset :: u64

definition ext2_opendir :: "string \<Rightarrow> 'd ext2_fs \<Rightarrow> 'a heap_scheme \<Rightarrow> (ext2_dir_iter option \<times> 'd ext2_fs \<times> 'a heap_scheme) option" where
  "ext2_opendir path fs s = do {
     (dir, fs, s) \<leftarrow> ext2_open path fs s;
     (case dir of
        None \<Rightarrow> Some (None, fs, s)
      | Some dir \<Rightarrow>
          if \<not> is_directory dir then do { (_, fs, s) \<leftarrow> ext2_close dir fs s; Some (None, fs, s) }
          else do {
            (p, s) \<leftarrow> kmalloc SIZEOF_DIR_ITER s;
            if p = 0 then do { (_, fs, s) \<leftarrow> ext2_close dir fs s; Some (None, fs, s) }
            else Some (Some \<lparr>iter_ptr = p, iter_dir = dir, iter_offset = 0\<rparr>, fs, s)
          })
   }"

text \<open>The result is an error code or the name, the inode and the type of the next entry.\<close>

partial_function (option) ext2_readdir ::
    "ext2_dir_iter \<Rightarrow> 'd ext2_fs \<Rightarrow> 'a heap_scheme \<Rightarrow> ((u8 list \<times> u32 \<times> u8) res \<times> ext2_dir_iter \<times> 'd ext2_fs \<times> 'a heap_scheme) option" where
  "ext2_readdir it fs s =
     (if iter_offset it < ucast (i_size (f_inode (iter_dir it)))
      then do {
        block_index \<leftarrow> udiv (iter_offset it) (ucast (block_size fs));
        block_offset \<leftarrow> umod (iter_offset it) (ucast (block_size fs));
        (b, inode, fs, s) \<leftarrow> ext2_get_block_num (ucast block_index) False (f_inode (iter_dir it)) fs s;
        if b = 0 then Some (Inl EXT2_ERROR_IO, it, fs, s)
        else do {
          (p, fs, s) \<leftarrow> ext2_get_block b fs s;
          if p = 0 then Some (Inl EXT2_ERROR_IO, it, fs, s)
          else do {
            data \<leftarrow> block_at p fs;
            rec_len \<leftarrow> get16 data (unat block_offset + 4);
            ino \<leftarrow> get32 data (unat block_offset);
            let it = it\<lparr>iter_offset := iter_offset it + ucast rec_len\<rparr>;
            if ino \<noteq> 0
            then do {
              name_len \<leftarrow> get8 data (unat block_offset + 6);
              name \<leftarrow> disk_get (unat block_offset + 8) (unat name_len) data;
              type \<leftarrow> get8 data (unat block_offset + 7);
              Some (Inr (name, ino, type), it, ext2_put_block p False fs, s)
            }
            else ext2_readdir it (ext2_put_block p False fs) s
          }
        }
      }
      else Some (Inl EXT2_ERROR_NOT_FOUND, it, fs, s))"

definition ext2_closedir :: "ext2_dir_iter \<Rightarrow> 'd ext2_fs \<Rightarrow> 'a heap_scheme \<Rightarrow> (int \<times> 'd ext2_fs \<times> 'a heap_scheme) option" where
  "ext2_closedir it fs s = do {
     (_, fs, s) \<leftarrow> ext2_close (iter_dir it) fs s;
     s \<leftarrow> kfree (iter_ptr it) s;
     Some (EXT2_SUCCESS, fs, s)
   }"

section \<open>Modes and owners\<close>

definition ext2_stat :: "string \<Rightarrow> 'd ext2_fs \<Rightarrow> 'a heap_scheme \<Rightarrow> (ext2_inode res \<times> 'd ext2_fs \<times> 'a heap_scheme) option" where
  "ext2_stat path fs s = do {
     ((r, ino, _), fs, s) \<leftarrow> ext2_resolve_path path False fs s;
     if r \<noteq> EXT2_SUCCESS then Some (Inl r, fs, s) else ext2_read_inode ino fs s
   }"

definition ext2_exists :: "string \<Rightarrow> 'd ext2_fs \<Rightarrow> 'a heap_scheme \<Rightarrow> (bool \<times> 'd ext2_fs \<times> 'a heap_scheme) option" where
  "ext2_exists path fs s = do {
     ((r, _, _), fs, s) \<leftarrow> ext2_resolve_path path False fs s;
     Some (r = EXT2_SUCCESS, fs, s)
   }"

definition ext2_get_mode :: "string \<Rightarrow> 'd ext2_fs \<Rightarrow> 'a heap_scheme \<Rightarrow> (u16 \<times> 'd ext2_fs \<times> 'a heap_scheme) option" where
  "ext2_get_mode path fs s = do {
     (r, fs, s) \<leftarrow> ext2_stat path fs s;
     Some (case r of Inl _ \<Rightarrow> 0 | Inr inode \<Rightarrow> i_mode inode, fs, s)
   }"

text \<open>The read, change and write of the inode of a path.\<close>

definition change_inode :: "(ext2_inode \<Rightarrow> ext2_inode) \<Rightarrow> string \<Rightarrow> 'd ext2_fs \<Rightarrow> 'a heap_scheme \<Rightarrow> (int \<times> 'd ext2_fs \<times> 'a heap_scheme) option" where
  "change_inode f path fs s = do {
     ((r, ino, _), fs, s) \<leftarrow> ext2_resolve_path path False fs s;
     if r \<noteq> EXT2_SUCCESS then Some (r, fs, s)
     else do {
       (r, fs, s) \<leftarrow> ext2_read_inode ino fs s;
       (case r of
          Inl e \<Rightarrow> Some (e, fs, s)
        | Inr inode \<Rightarrow> ext2_write_inode ino (f inode) fs s)
     }
   }"

definition ext2_chmod :: "string \<Rightarrow> u16 \<Rightarrow> 'd ext2_fs \<Rightarrow> 'a heap_scheme \<Rightarrow> (int \<times> 'd ext2_fs \<times> 'a heap_scheme) option" where
  "ext2_chmod path mode fs s =
     change_inode (\<lambda>n. n\<lparr>i_mode := (i_mode n AND NOT EXT2_S_PERM_MASK) OR (mode AND EXT2_S_PERM_MASK)\<rparr>) path fs s"

definition ext2_get_owner :: "string \<Rightarrow> 'd ext2_fs \<Rightarrow> 'a heap_scheme \<Rightarrow> ((u16 \<times> u16) res \<times> 'd ext2_fs \<times> 'a heap_scheme) option" where
  "ext2_get_owner path fs s = do {
     (r, fs, s) \<leftarrow> ext2_stat path fs s;
     Some (case r of Inl e \<Rightarrow> Inl e | Inr inode \<Rightarrow> Inr (i_uid inode, i_gid inode), fs, s)
   }"

definition ext2_chown :: "string \<Rightarrow> u16 \<Rightarrow> u16 \<Rightarrow> 'd ext2_fs \<Rightarrow> 'a heap_scheme \<Rightarrow> (int \<times> 'd ext2_fs \<times> 'a heap_scheme) option" where
  "ext2_chown path u g fs s =
     change_inode (\<lambda>n. n\<lparr>i_uid := (if u \<noteq> -1 then u else i_uid n), i_gid := (if g \<noteq> -1 then g else i_gid n)\<rparr>) path fs s"

abbreviation (input) ACCESS_READ :: u16 where "ACCESS_READ \<equiv> 4"
abbreviation (input) ACCESS_WRITE :: u16 where "ACCESS_WRITE \<equiv> 2"
abbreviation (input) ACCESS_EXEC :: u16 where "ACCESS_EXEC \<equiv> 1"

text \<open>The permission bits that apply to a user.\<close>

definition access_shift :: "int \<Rightarrow> ext2_inode \<Rightarrow> 'a user_sys_scheme \<Rightarrow> nat" where
  "access_shift u inode s =
     (if word_of_int u = i_uid inode then 6
      else if word_of_int (user_get_gid s u) = i_gid inode then 3
      else 0)"

definition ext2_access :: "string \<Rightarrow> int \<Rightarrow> u16 \<Rightarrow> 'd ext2_fs \<Rightarrow> 'a user_sys_scheme \<Rightarrow> (int \<times> 'd ext2_fs \<times> 'a user_sys_scheme) option" where
  "ext2_access path u acc fs s =
     (if \<not> user_exists s u then Some (EXT2_ERROR_INVALID, fs, s)
      else if user_is_root s u then Some (EXT2_SUCCESS, fs, s)
      else do {
        (r, fs, s) \<leftarrow> ext2_stat path fs s;
        (case r of
           Inl e \<Rightarrow> Some (e, fs, s)
         | Inr inode \<Rightarrow>
             (let allowed = drop_bit (access_shift u inode s) (i_mode inode) AND 7
              in Some (if allowed AND acc \<noteq> acc then EXT2_ERROR_PERM else EXT2_SUCCESS, fs, s)))
      })"

definition ext2_chmod_as :: "string \<Rightarrow> int \<Rightarrow> u16 \<Rightarrow> 'd ext2_fs \<Rightarrow> 'a user_sys_scheme \<Rightarrow> (int \<times> 'd ext2_fs \<times> 'a user_sys_scheme) option" where
  "ext2_chmod_as path u mode fs s =
     (if \<not> user_exists s u then Some (EXT2_ERROR_INVALID, fs, s)
      else if user_is_root s u then ext2_chmod path mode fs s
      else do {
        (r, fs, s) \<leftarrow> ext2_stat path fs s;
        (case r of
           Inl e \<Rightarrow> Some (e, fs, s)
         | Inr inode \<Rightarrow> if i_uid inode \<noteq> word_of_int u then Some (EXT2_ERROR_PERM, fs, s) else ext2_chmod path mode fs s)
      })"

definition ext2_chown_as :: "string \<Rightarrow> int \<Rightarrow> u16 \<Rightarrow> u16 \<Rightarrow> 'd ext2_fs \<Rightarrow> 'a user_sys_scheme \<Rightarrow> (int \<times> 'd ext2_fs \<times> 'a user_sys_scheme) option" where
  "ext2_chown_as path u new_uid new_gid fs s =
     (if \<not> user_exists s u then Some (EXT2_ERROR_INVALID, fs, s)
      else if \<not> user_is_root s u then Some (EXT2_ERROR_PERM, fs, s)
      else ext2_chown path new_uid new_gid fs s)"

end
