(* ===== verification/UserDisk.thy ===== *)
theory UserDisk
  imports Ext2Ops
begin

text \<open>
  The files of the user database in the root file system (\<^verbatim>\<open>user.c\<close>): whole files are read and
  written through the ext2 driver. The global \<^verbatim>\<open>rootfs\<close> is an argument, \<open>None\<close> for the null pointer, and is
  returned with its changes. The contents of a buffer are what was read into it, then what the
  heap held there.
\<close>

definition chars :: "u8 list \<Rightarrow> string" where
  "chars bs = map (\<lambda>b. char_of (unat b)) bs"

definition read_full_file ::
    "string \<Rightarrow> 'd ext2_fs \<Rightarrow> 'a user_sys_scheme \<Rightarrow> ((u64 \<times> string) option \<times> 'd ext2_fs \<times> 'a user_sys_scheme) option" where
  "read_full_file path fs s = do {
     (f, fs, s) \<leftarrow> ext2_open path fs s;
     (case f of
        None \<Rightarrow> Some (None, fs, s)
      | Some f \<Rightarrow> do {
          let n = ext2_size f;
          if n = 0 \<or> n > 65536 then do { (_, fs, s) \<leftarrow> ext2_close f fs s; Some (None, fs, s) }
          else do {
            (buf, s) \<leftarrow> kmalloc (n + 1) s;
            if buf = 0 then do { (_, fs, s) \<leftarrow> ext2_close f fs s; Some (None, fs, s) }
            else do {
              (_, bs, f, fs, s) \<leftarrow> ext2_read f (ucast n) fs s;
              bs \<leftarrow> read_into buf (unat n) bs s;
              let s = s\<lparr>hmem := put_bytes (unat buf) (bs @ [0]) (hmem s)\<rparr>;
              (_, fs, s) \<leftarrow> ext2_close f fs s;
              Some (Some (buf, cval (chars bs)), fs, s)
            }
          }
        })
   }"

definition write_full_file :: "string \<Rightarrow> string \<Rightarrow> 'd ext2_fs \<Rightarrow> 'a user_sys_scheme \<Rightarrow> (int \<times> 'd ext2_fs \<times> 'a user_sys_scheme) option" where
  "write_full_file path buf fs s = do {
     (_, fs, s) \<leftarrow> ext2_delete path fs s;
     (r, fs, s) \<leftarrow> ext2_create path 0x1A0 fs s;
     if r \<noteq> EXT2_SUCCESS then Some (-1, fs, s)
     else do {
       (f, fs, s) \<leftarrow> ext2_open path fs s;
       (case f of
          None \<Rightarrow> Some (-1, fs, s)
        | Some f \<Rightarrow> do {
            (r, f, fs, s) \<leftarrow> ext2_write f (bytes buf) fs s;
            (_, fs, s) \<leftarrow> ext2_close f fs s;
            Some (if r \<ge> 0 then 0 else -1, fs, s)
          })
     }
   }"

definition user_save_to_disk ::
    "bool \<Rightarrow> 'd ext2_fs option \<Rightarrow> 'a user_sys_scheme \<Rightarrow> (int \<times> 'd ext2_fs option \<times> 'a user_sys_scheme) option" where
  "user_save_to_disk mounted rootfs s =
     (case rootfs of
        None \<Rightarrow> Some (-1, rootfs, s)
      | Some fs \<Rightarrow>
          if \<not> mounted then Some (-1, rootfs, s)
          else do {
            (_, fs, s) \<leftarrow> ext2_mkdir ''/etc'' fs s;
            (pbuf, s) \<leftarrow> kmalloc 32768 s;
            (sbuf, s) \<leftarrow> kmalloc 32768 s;
            (gbuf, s) \<leftarrow> kmalloc 16384 s;
            if pbuf = 0 \<or> sbuf = 0 \<or> gbuf = 0 then do {
              s \<leftarrow> kfree pbuf s; s \<leftarrow> kfree sbuf s; s \<leftarrow> kfree gbuf s;
              Some (-1, Some fs, s)
            } else do {
              (r1, fs, s) \<leftarrow> write_full_file ''/etc/passwd'' (passwd_text (users s)) fs s;
              (r2, fs, s) \<leftarrow> write_full_file ''/etc/shadow'' (shadow_text (users s)) fs s;
              (r3, fs, s) \<leftarrow> write_full_file ''/etc/group'' (group_text (groups s)) fs s;
              let r = (if r1 < 0 \<or> r2 < 0 \<or> r3 < 0 then -1 else 0);
              s \<leftarrow> kfree pbuf s; s \<leftarrow> kfree sbuf s; s \<leftarrow> kfree gbuf s;
              Some (r, Some fs, s)
            }
          })"

definition user_load_from_disk ::
    "bool \<Rightarrow> 'd ext2_fs option \<Rightarrow> 'a user_sys_scheme \<Rightarrow> (int \<times> 'd ext2_fs option \<times> 'a user_sys_scheme) option" where
  "user_load_from_disk mounted rootfs s =
     (case rootfs of
        None \<Rightarrow> Some (-1, rootfs, s)
      | Some fs \<Rightarrow>
          if \<not> mounted then Some (-1, rootfs, s)
          else do {
            (g, fs, s) \<leftarrow> read_full_file ''/etc/group'' fs s;
            s \<leftarrow> (case g of None \<Rightarrow> Some s
                  | Some (gbuf, content) \<Rightarrow> do {
                      s \<leftarrow> drop_groups [0..<MAX_GROUPS] s;
                      s \<leftarrow> for_lines load_group_line content s;
                      kfree gbuf s });
            (p, fs, s) \<leftarrow> read_full_file ''/etc/passwd'' fs s;
            s \<leftarrow> (case p of None \<Rightarrow> Some s
                  | Some (pbuf, content) \<Rightarrow> do {
                      s \<leftarrow> drop_users [0..<MAX_USERS] s;
                      s \<leftarrow> for_lines load_user_line content s;
                      kfree pbuf s });
            (h, fs, s) \<leftarrow> read_full_file ''/etc/shadow'' fs s;
            s \<leftarrow> (case h of None \<Rightarrow> Some s
                  | Some (sbuf, content) \<Rightarrow> do {
                      s \<leftarrow> for_lines load_shadow_line content s;
                      kfree sbuf s });
            Some (0, Some fs, s)
          })"

end
