(* ===== verification/Ext2Cache.thy ===== *)
theory Ext2Cache
  imports Ext2
begin

text \<open>
  The block cache is transparent: whatever it evicts, writes back or loads, the contents of the
  blocks as the file system sees them (\<open>bview\<close>) change only by assignments to blocks that are
  held. The lemmas are proved in the interface \<open>block_store\<close> of the device, for every file
  system with the invariant \<open>cache_inv\<close>, and no heap block of anybody else is touched.
\<close>

section \<open>The interface of the device\<close>

locale block_store =
  fixes good :: "'d block_device \<Rightarrow> bool"
    and sector :: "'d block_device \<Rightarrow> nat \<Rightarrow> u8 list"
  assumes sector_length: "good dev \<Longrightarrow> length (sector dev i) = unat (sector_size dev)"
    and read_law: "good dev \<Longrightarrow> unat lba + unat n \<le> 2 ^ 32 \<Longrightarrow>
      dev_read dev lba n = Some None
      \<or> dev_read dev lba n = Some (Some (concat (map (sector dev) [unat lba..<unat lba + unat n])))"
    and write_law: "good dev \<Longrightarrow> unat lba + unat n \<le> 2 ^ 32 \<Longrightarrow> length buf = unat n * unat (sector_size dev) \<Longrightarrow>
      dev_write dev lba n buf = Some None
      \<or> (\<exists>dev'. dev_write dev lba n buf = Some (Some dev') \<and> good dev' \<and> sector_size dev' = sector_size dev
          \<and> (\<forall>i. sector dev' i = (if unat lba \<le> i \<and> i < unat lba + unat n
                then take (unat (sector_size dev)) (drop ((i - unat lba) * unat (sector_size dev)) buf) else sector dev i)))"

section \<open>Views and invariants\<close>

definition spb :: "'d ext2_fs \<Rightarrow> nat" where
  "spb fs = unat (block_size fs div sector_size (fs_device fs))"

definition dblock :: "('d block_device \<Rightarrow> nat \<Rightarrow> u8 list) \<Rightarrow> 'd ext2_fs \<Rightarrow> u32 \<Rightarrow> u8 list" where
  "dblock sec fs b = concat (map (sec (fs_device fs)) [unat b * spb fs..<unat b * spb fs + spb fs])"

definition bview :: "('d block_device \<Rightarrow> nat \<Rightarrow> u8 list) \<Rightarrow> 'd ext2_fs \<Rightarrow> u32 \<Rightarrow> u8 list" where
  "bview sec fs b = (case ext2_cache_find b fs of Some e \<Rightarrow> ce_data e | None \<Rightarrow> dblock sec fs b)"

definition refs :: "'d ext2_fs \<Rightarrow> u32 \<Rightarrow> nat" where
  "refs fs b = (case ext2_cache_find b fs of Some e \<Rightarrow> unat (ref_count e) | None \<Rightarrow> 0)"

definition held_at :: "u64 \<Rightarrow> 'd ext2_fs \<Rightarrow> u32 \<Rightarrow> bool" where
  "held_at p fs b \<longleftrightarrow> (\<exists>e \<in> set (cache fs). ce_data_ptr e = p \<and> block_num e = b)"

definition valid_blk :: "'d ext2_fs \<Rightarrow> u32 \<Rightarrow> bool" where
  "valid_blk fs b \<longleftrightarrow> (unat b + 1) * spb fs \<le> 2 ^ 32"

definition cptrs :: "ext2_cache_entry list \<Rightarrow> nat list" where
  "cptrs es = concat (map (\<lambda>e. [unat (ce_ptr e), unat (ce_data_ptr e)]) es)"

definition geo_ok :: "'d ext2_fs \<Rightarrow> bool" where
  "geo_ok fs \<longleftrightarrow> sector_size (fs_device fs) \<noteq> 0 \<and> block_size fs \<noteq> 0 \<and> spb fs * unat (sector_size (fs_device fs)) = unat (block_size fs)"

definition entries_ok :: "('d block_device \<Rightarrow> nat \<Rightarrow> u8 list) \<Rightarrow> 'd ext2_fs \<Rightarrow> bool" where
  "entries_ok sec fs \<longleftrightarrow> distinct (map block_num (cache fs)) \<and> distinct (cptrs (cache fs)) \<and> 0 \<notin> set (cptrs (cache fs))
     \<and> unat (cache_size fs) = length (cache fs) \<and> max_cache_entries fs \<noteq> -1 \<and> length (cache fs) \<le> unat (max_cache_entries fs)
     \<and> (\<forall>e \<in> set (cache fs). valid_blk fs (block_num e) \<and> length (ce_data e) = unat (block_size fs)
          \<and> (\<not> ce_dirty e \<longrightarrow> ce_data e = dblock sec fs (block_num e)))"

text \<open>The heap owns the blocks at the addresses \<open>P\<close> and, apart from them, the regions \<open>F\<close>.\<close>

definition ptr_mem :: "region set \<Rightarrow> nat set \<Rightarrow> 'a heap_scheme \<Rightarrow> bool" where
  "ptr_mem F P s \<longleftrightarrow> (\<exists>A. heap_owns s A \<and> (\<forall>p \<in> P. \<exists>k. (p, k) \<in> A) \<and> {r \<in> A. fst r \<notin> P} = F)"

definition heap_step :: "region set \<Rightarrow> 'a heap_scheme \<Rightarrow> 'a heap_scheme \<Rightarrow> bool" where
  "heap_step F s t \<longleftrightarrow> (\<exists>m. t = s\<lparr>hmem := m\<rparr> \<and> (\<forall>r \<in> F. \<forall>x \<in> bytes_of r. m x = hmem s x))"

definition same_meta :: "'d ext2_fs \<Rightarrow> 'd ext2_fs \<Rightarrow> bool" where
  "same_meta fs fs' \<longleftrightarrow> sector_size (fs_device fs') = sector_size (fs_device fs) \<and> fs_ptr fs' = fs_ptr fs
     \<and> superblock fs' = superblock fs \<and> group_desc_ptr fs' = group_desc_ptr fs \<and> group_desc fs' = group_desc fs
     \<and> block_size fs' = block_size fs \<and> inode_size fs' = inode_size fs \<and> num_groups fs' = num_groups fs
     \<and> first_data_block fs' = first_data_block fs \<and> max_cache_entries fs' = max_cache_entries fs"

lemma heap_step_refl [simp]: "heap_step F s s"
  unfolding heap_step_def by (rule exI [of _ "hmem s"]) simp

lemma heap_step_trans: "heap_step F s t \<Longrightarrow> heap_step F t u \<Longrightarrow> heap_step F s u"
  by (auto simp: heap_step_def)

lemma same_meta_refl [simp]: "same_meta fs fs"
  by (simp add: same_meta_def)

lemma same_meta_trans: "same_meta fs gs \<Longrightarrow> same_meta gs hs \<Longrightarrow> same_meta fs hs"
  by (auto simp: same_meta_def)

lemma same_metaD:
  assumes "same_meta fs fs'"
  shows "block_size fs' = block_size fs" "inode_size fs' = inode_size fs" "superblock fs' = superblock fs" "group_desc fs' = group_desc fs"
    "num_groups fs' = num_groups fs" "first_data_block fs' = first_data_block fs" "fs_ptr fs' = fs_ptr fs" "group_desc_ptr fs' = group_desc_ptr fs"
    "max_cache_entries fs' = max_cache_entries fs" "sector_size (fs_device fs') = sector_size (fs_device fs)" "spb fs' = spb fs"
    "valid_blk fs' = valid_blk fs" "geo_ok fs' = geo_ok fs"
  using assms by (auto simp: same_meta_def spb_def valid_blk_def geo_ok_def fun_eq_iff)

section \<open>Lists of entries\<close>

lemma find_uniq: "distinct (map f es) \<Longrightarrow> e \<in> set es \<Longrightarrow> find (\<lambda>x. f x = f e) es = Some e"
  by (induction es) auto

lemma cache_find_iff:
  assumes "distinct (map block_num (cache fs))"
  shows "ext2_cache_find b fs = Some e \<longleftrightarrow> e \<in> set (cache fs) \<and> block_num e = b"
  using find_uniq [OF assms] by (auto simp: ext2_cache_find_def find_Some_iff)

lemma cptrs_simps [simp]:
  "cptrs [] = []" "cptrs (e # es) = unat (ce_ptr e) # unat (ce_data_ptr e) # cptrs es" "cptrs (es @ fs) = cptrs es @ cptrs fs"
  by (simp_all add: cptrs_def)

lemma set_cptrs: "set (cptrs es) = (\<lambda>e. unat (ce_ptr e)) ` set es \<union> (\<lambda>e. unat (ce_data_ptr e)) ` set es"
  by (auto simp: cptrs_def)

lemma distinct_ptrs:
  "distinct (cptrs es) \<Longrightarrow> distinct (map ce_ptr es)" "distinct (cptrs es) \<Longrightarrow> distinct (map ce_data_ptr es)"
  by (induction es) (auto simp: set_cptrs)

lemma upd_first_map:
  assumes "distinct (map f es)"
  shows "upd_first (\<lambda>e. f e = x) g es = map (\<lambda>e. if f e = x then g e else e) es"
  using assms
proof (induction es)
  case (Cons e es)
  have "map (\<lambda>e'. if f e' = f e then g e' else e') es = es"
    using Cons.prems by (intro map_idI) (metis distinct.simps(2) image_eqI image_set list.simps(9))
  then show ?case using Cons by auto
qed simp

lemma concat_slices: "length xs = k * n \<Longrightarrow> concat (map (\<lambda>i. take n (drop (i * n) xs)) [0..<k]) = xs"
proof (induction k arbitrary: xs)
  case (Suc k)
  have "map (\<lambda>i. take n (drop (i * n) xs)) [Suc 0..<Suc k] = map (\<lambda>i. take n (drop (i * n) (drop n xs))) [0..<k]"
    by (simp add: map_Suc_upt [symmetric] add.commute del: upt_Suc)
  then show ?case using Suc.IH [of "drop n xs"] Suc.prems by (simp add: upt_conv_Cons del: upt_Suc)
qed simp

lemma concat_slices_from: "length xs = k * n \<Longrightarrow> concat (map (\<lambda>i. take n (drop ((i - m) * n) xs)) [m..<m + k]) = xs"
proof -
  assume "length xs = k * n"
  moreover have "[m..<m + k] = map (\<lambda>i. i + m) [0..<k]" by (simp add: map_add_upt add.commute)
  ultimately show ?thesis using concat_slices [of xs k n] by (simp add: comp_def)
qed

context block_store
begin

lemma spb_word: "geo_ok fs \<Longrightarrow> udiv (block_size fs) (sector_size (fs_device fs)) = Some (of_nat (spb fs))"
  by (simp add: udiv_def geo_ok_def spb_def)

lemma lba:
  assumes "valid_blk fs b"
  shows "unat (ucast (b * of_nat (spb fs)) :: u64) = unat b * spb fs \<or> spb fs = 0" "unat (of_nat (spb fs) :: u32) = spb fs"
proof -
  show k: "unat (of_nat (spb fs) :: u32) = spb fs" by (simp add: spb_def)
  have "unat b * spb fs < 2 ^ 32" if "spb fs \<noteq> 0"
  proof -
    have "unat b * spb fs + spb fs \<le> 2 ^ 32" using assms by (simp add: valid_blk_def)
    then show ?thesis using that by linarith
  qed
  then have "unat (b * of_nat (spb fs)) = unat b * spb fs" if "spb fs \<noteq> 0"
    using that k by (simp add: unat_word_ariths)
  moreover have "unat (ucast x :: u64) = unat x" for x :: u32
    by (simp add: unsigned_ucast_eq take_bit_nat_eq_self_iff) (rule order_less_trans [OF unsigned_less], simp)
  ultimately show "unat (ucast (b * of_nat (spb fs)) :: u64) = unat b * spb fs \<or> spb fs = 0" by (cases "spb fs = 0") auto
qed

lemma spb_pos: "geo_ok fs \<Longrightarrow> spb fs > 0"
  by (rule ccontr) (auto simp: geo_ok_def unat_eq_zero)

lemma lba_exact: "geo_ok fs \<Longrightarrow> valid_blk fs b \<Longrightarrow> unat (ucast (b * of_nat (spb fs)) :: u64) = unat b * spb fs"
  using lba(1) [of fs b] spb_pos [of fs] by auto

lemma dblock_length: "good (fs_device fs) \<Longrightarrow> geo_ok fs \<Longrightarrow> length (dblock sector fs b) = unat (block_size fs)"
  by (simp add: dblock_def length_concat comp_def sector_length sum_list_triv geo_ok_def)

lemma read_block:
  assumes "good (fs_device fs)" "geo_ok fs" "valid_blk fs b"
  shows "ext2_read_block b fs = Some None \<or> ext2_read_block b fs = Some (Some (dblock sector fs b))"
proof -
  let ?n = "of_nat (spb fs) :: u32"
  have l: "unat (ucast (b * ?n) :: u64) = unat b * spb fs" "unat ?n = spb fs"
    using lba_exact [OF assms(2,3)] lba(2) [OF assms(3)] by auto
  then have "unat (ucast (b * ?n) :: u64) + unat ?n \<le> 2 ^ 32" using assms(3) by (simp add: valid_blk_def)
  from read_law [OF assms(1) this] show ?thesis
    by (simp add: ext2_read_block_def spb_word [OF assms(2)] l dblock_def)
qed

lemma write_block:
  assumes "good (fs_device fs)" "geo_ok fs" "valid_blk fs b" "length xs = unat (block_size fs)"
  shows "ext2_write_block b xs fs = Some (EXT2_ERROR_IO, fs)
    \<or> (\<exists>d. ext2_write_block b xs fs = Some (EXT2_SUCCESS, fs\<lparr>fs_device := d\<rparr>) \<and> good d \<and> sector_size d = sector_size (fs_device fs)
         \<and> (\<forall>c. dblock sector (fs\<lparr>fs_device := d\<rparr>) c = (if c = b then xs else dblock sector fs c)))"
proof -
  let ?n = "of_nat (spb fs) :: u32" and ?w = "unat (sector_size (fs_device fs))"
  have l: "unat (ucast (b * ?n) :: u64) = unat b * spb fs" "unat ?n = spb fs"
    using lba_exact [OF assms(2,3)] lba(2) [OF assms(3)] by auto
  then have v: "unat (ucast (b * ?n) :: u64) + unat ?n \<le> 2 ^ 32" using assms(3) by (simp add: valid_blk_def)
  have len: "length xs = spb fs * ?w" using assms(2,4) by (simp add: geo_ok_def)
  from write_law [OF assms(1) v, of xs] l len
  consider "dev_write (fs_device fs) (ucast (b * ?n)) ?n xs = Some None"
    | d where "dev_write (fs_device fs) (ucast (b * ?n)) ?n xs = Some (Some d)" "good d" "sector_size d = sector_size (fs_device fs)"
      "\<And>i. sector d i = (if unat b * spb fs \<le> i \<and> i < unat b * spb fs + spb fs
         then take ?w (drop ((i - unat b * spb fs) * ?w) xs) else sector (fs_device fs) i)"
    by auto
  then show ?thesis
  proof cases
    case 1 then show ?thesis by (simp add: ext2_write_block_def spb_word [OF assms(2)])
  next
    case (2 d)
    have s: "spb (fs\<lparr>fs_device := d\<rparr>) = spb fs" using 2(3) by (simp add: spb_def)
    have "dblock sector (fs\<lparr>fs_device := d\<rparr>) c = (if c = b then xs else dblock sector fs c)" for c
    proof (cases "c = b")
      case True
      have "map (sector d) [unat b * spb fs..<unat b * spb fs + spb fs]
          = map (\<lambda>i. take ?w (drop ((i - unat b * spb fs) * ?w) xs)) [unat b * spb fs..<unat b * spb fs + spb fs]"
        by (rule map_cong) (auto simp: 2(4))
      then have "concat (map (sector d) [unat b * spb fs..<unat b * spb fs + spb fs]) = xs"
        by (simp only: concat_slices_from [OF len])
      then show ?thesis using True by (simp add: dblock_def s)
    next
      case False
      then have "unat c < unat b \<or> unat b < unat c" by (metis linorder_neqE_nat word_unat_eq_iff)
      then have d: "(unat c + 1) * spb fs \<le> unat b * spb fs \<or> (unat b + 1) * spb fs \<le> unat c * spb fs"
        by (metis Suc_eq_plus1 Suc_leI mult_le_mono1)
      have "map (sector d) [unat c * spb fs..<unat c * spb fs + spb fs] = map (sector (fs_device fs)) [unat c * spb fs..<unat c * spb fs + spb fs]"
        by (rule map_cong) (use d in \<open>auto simp: 2(4)\<close>)
      from arg_cong [OF this, of concat] show ?thesis using False by (simp add: dblock_def s)
    qed
    with 2 show ?thesis by (intro disjI2 exI [of _ d]) (simp add: ext2_write_block_def spb_word [OF assms(2)])
  qed
qed

end

definition cache_inv :: "('d block_device \<Rightarrow> bool) \<Rightarrow> ('d block_device \<Rightarrow> nat \<Rightarrow> u8 list) \<Rightarrow> region set \<Rightarrow> 'd ext2_fs \<Rightarrow> 'a heap_scheme \<Rightarrow> bool" where
  "cache_inv good sec F fs s \<longleftrightarrow> good (fs_device fs) \<and> geo_ok fs \<and> entries_ok sec fs \<and> ptr_mem F (set (cptrs (cache fs))) s"

lemma cache_find_map:
  assumes "\<And>e. e \<in> set (cache fs) \<Longrightarrow> block_num (f e) = block_num e"
  shows "ext2_cache_find b (fs\<lparr>cache := map f (cache fs)\<rparr>) = map_option f (ext2_cache_find b fs)"
proof -
  have "find (\<lambda>e. block_num e = b) (map f es) = map_option f (find (\<lambda>e. block_num e = b) es)"
    if "\<And>e. e \<in> set es \<Longrightarrow> block_num (f e) = block_num e" for es
    using that by (induction es) auto
  then show ?thesis using assms by (simp add: ext2_cache_find_def)
qed

lemma cache_find_upd [simp]: "ext2_cache_find b (fs\<lparr>fs_device := d\<rparr>) = ext2_cache_find b fs" "ext2_cache_find b (fs\<lparr>cache_size := n\<rparr>) = ext2_cache_find b fs"
  by (simp_all add: ext2_cache_find_def)

lemma cptrs_map: "(\<And>e. e \<in> set es \<Longrightarrow> ce_ptr (f e) = ce_ptr e \<and> ce_data_ptr (f e) = ce_data_ptr e) \<Longrightarrow> cptrs (map f es) = cptrs es"
  by (induction es) auto

text \<open>Entries whose dirty mark, reference count or data change.\<close>

lemma entries_ok_map:
  assumes ok: "entries_ok sec fs"
    and f: "\<And>e. e \<in> set (cache fs) \<Longrightarrow> ce_ptr (f e) = ce_ptr e \<and> ce_data_ptr (f e) = ce_data_ptr e \<and> block_num (f e) = block_num e
      \<and> length (ce_data (f e)) = unat (block_size fs) \<and> (\<not> ce_dirty (f e) \<longrightarrow> ce_data (f e) = dblock sec fs (block_num e))"
  shows "entries_ok sec (fs\<lparr>cache := map f (cache fs)\<rparr>)"
proof -
  have b: "map block_num (map f (cache fs)) = map block_num (cache fs)" using f by simp
  have c: "cptrs (map f (cache fs)) = cptrs (cache fs)" using f by (intro cptrs_map) auto
  have v: "valid_blk (fs\<lparr>cache := x\<rparr>) = valid_blk fs" "dblock sec (fs\<lparr>cache := x\<rparr>) = dblock sec fs" for x
    by (simp_all add: valid_blk_def spb_def dblock_def fun_eq_iff)
  show ?thesis using ok f unfolding entries_ok_def by (auto simp: b [unfolded map_map] c v)
qed

lemma dblock_upd [simp]:
  "dblock sec (fs\<lparr>cache := x\<rparr>) = dblock sec fs" "dblock sec (fs\<lparr>cache_size := n\<rparr>) = dblock sec fs"
  by (simp_all add: dblock_def spb_def fun_eq_iff)

lemma geo_upd [simp]:
  "geo_ok (fs\<lparr>cache := x\<rparr>) = geo_ok fs" "geo_ok (fs\<lparr>cache_size := n\<rparr>) = geo_ok fs"
  "valid_blk (fs\<lparr>cache := x\<rparr>) = valid_blk fs" "valid_blk (fs\<lparr>cache_size := n\<rparr>) = valid_blk fs"
  by (simp_all add: geo_ok_def valid_blk_def spb_def fun_eq_iff)

lemma held_at_map:
  assumes "\<And>e. ce_data_ptr (f e) = ce_data_ptr e" "\<And>e. block_num (f e) = block_num e"
  shows "held_at p (fs\<lparr>cache := map f (cache fs)\<rparr>) b = held_at p fs b"
  using assms by (simp add: held_at_def)

lemma entries_okI:
  assumes "cache fs' = es" "distinct (map block_num es)" "cptrs es = cs" "distinct cs" "0 \<notin> set cs"
    "cache_size fs' = n" "unat n = length es" "max_cache_entries fs' = k" "k \<noteq> -1" "length es \<le> unat k"
    "\<forall>x \<in> set es. valid_blk fs' (block_num x) \<and> length (ce_data x) = unat (block_size fs') \<and> (\<not> ce_dirty x \<longrightarrow> ce_data x = dblock sec fs' (block_num x))"
  shows "entries_ok sec fs'"
  using assms by (simp add: entries_ok_def)

lemma entries_okD:
  assumes "entries_ok sec fs" "e \<in> set (cache fs)"
  shows "valid_blk fs (block_num e)" "length (ce_data e) = unat (block_size fs)" "\<not> ce_dirty e \<Longrightarrow> ce_data e = dblock sec fs (block_num e)"
    "ext2_cache_find (block_num e) fs = Some e" "ce_ptr e \<noteq> 0" "ce_data_ptr e \<noteq> 0"
proof -
  have d: "distinct (map block_num (cache fs))" "0 \<notin> set (cptrs (cache fs))" using assms(1) by (auto simp: entries_ok_def)
  show "valid_blk fs (block_num e)" "length (ce_data e) = unat (block_size fs)" "\<not> ce_dirty e \<Longrightarrow> ce_data e = dblock sec fs (block_num e)"
    using assms by (auto simp: entries_ok_def)
  show "ext2_cache_find (block_num e) fs = Some e" using cache_find_iff [OF d(1)] assms(2) by simp
  show "ce_ptr e \<noteq> 0" "ce_data_ptr e \<noteq> 0" using d(2) assms(2) by (force simp: set_cptrs)+
qed

context block_store
begin

text \<open>
  What the operations of the cache that do not change data have in common: the invariant, the view,
  the counts and the blocks that are held.
\<close>

definition quiet :: "region set \<Rightarrow> 'd ext2_fs \<Rightarrow> 'a heap_scheme \<Rightarrow> 'd ext2_fs \<Rightarrow> 'a heap_scheme \<Rightarrow> bool" where
  "quiet F fs s fs' s' \<longleftrightarrow> cache_inv good sector F fs' s' \<and> heap_step F s s' \<and> same_meta fs fs' \<and> bview sector fs' = bview sector fs
     \<and> refs fs' = refs fs \<and> (\<forall>p b. held_at p fs b \<and> refs fs b > 0 \<longrightarrow> held_at p fs' b)"

lemma flush_entry:
  assumes inv: "cache_inv good sector F fs s" and e: "e \<in> set (cache fs)"
  shows "\<exists>r fs'. ext2_cache_flush_entry e fs = Some (r, fs') \<and> quiet F fs s fs' s \<and> cptrs (cache fs') = cptrs (cache fs)
    \<and> (r = EXT2_SUCCESS \<longrightarrow> e\<lparr>ce_dirty := False\<rparr> \<in> set (cache fs'))"
proof (cases "ce_dirty e")
  case False
  then have "e\<lparr>ce_dirty := False\<rparr> \<in> set (cache fs)" using e by (cases e) simp
  then show ?thesis using False inv by (simp add: ext2_cache_flush_entry_def quiet_def)
next
  case True
  have ok: "good (fs_device fs)" "geo_ok fs" "entries_ok sector fs" "ptr_mem F (set (cptrs (cache fs))) s" using inv by (auto simp: cache_inv_def)
  note D = entries_okD [OF ok(3) e]
  from write_block [OF ok(1,2) D(1,2)] show ?thesis
  proof (elim disjE exE conjE)
    assume "ext2_write_block (block_num e) (ce_data e) fs = Some (EXT2_ERROR_IO, fs)"
    then show ?thesis using True inv by (simp add: ext2_cache_flush_entry_def quiet_def)
  next
    fix d assume w: "ext2_write_block (block_num e) (ce_data e) fs = Some (EXT2_SUCCESS, fs\<lparr>fs_device := d\<rparr>)" "good d"
      "sector_size d = sector_size (fs_device fs)" "\<forall>c. dblock sector (fs\<lparr>fs_device := d\<rparr>) c = (if c = block_num e then ce_data e else dblock sector fs c)"
    let ?f = "\<lambda>x. if ce_ptr x = ce_ptr e then x\<lparr>ce_dirty := False\<rparr> else x"
    let ?gs = "fs\<lparr>fs_device := d\<rparr>" and ?fs = "fs\<lparr>fs_device := d, cache := map ?f (cache fs)\<rparr>"
    have run: "ext2_cache_flush_entry e fs = Some (EXT2_SUCCESS, ?fs)"
      using True w(1) by (simp add: ext2_cache_flush_entry_def upd_entry_def)
    have ptr: "ce_ptr x = ce_ptr e \<longleftrightarrow> x = e" if "x \<in> set (cache fs)" for x
      using distinct_ptrs(1) that e ok(3) by (auto simp: entries_ok_def distinct_map dest: inj_onD)
    have bn: "block_num x = block_num e \<longleftrightarrow> x = e" if "x \<in> set (cache fs)" for x
      using that e ok(3) by (auto simp: entries_ok_def distinct_map dest: inj_onD)
    have geo: "geo_ok ?gs" "valid_blk ?gs = valid_blk fs" using ok(2) w(3) by (simp_all add: geo_ok_def spb_def valid_blk_def fun_eq_iff)
    have "entries_ok sector (?gs\<lparr>cache := map ?f (cache ?gs)\<rparr>)"
    proof -
      have "valid_blk ?gs (block_num (?f x)) \<and> length (ce_data (?f x)) = unat (block_size ?gs)
          \<and> (\<not> ce_dirty (?f x) \<longrightarrow> ce_data (?f x) = dblock sector ?gs (block_num (?f x)))" if x: "x \<in> set (cache fs)" for x
      proof (cases "x = e")
        case True then show ?thesis using entries_okD(1,2) [OF ok(3) x] w(4) by (simp add: geo(2))
      next
        case False then show ?thesis using entries_okD(1-3) [OF ok(3) x] w(4) ptr [OF x] bn [OF x] by (simp add: geo(2))
      qed
      then have p3: "\<forall>x \<in> set (map ?f (cache fs)). valid_blk ?gs (block_num x) \<and> length (ce_data x) = unat (block_size ?gs)
             \<and> (\<not> ce_dirty x \<longrightarrow> ce_data x = dblock sector ?gs (block_num x))"
        unfolding set_map by blast
      have "map block_num (map ?f (cache fs)) = map block_num (cache fs)" by simp
      then have p1: "distinct (map block_num (map ?f (cache fs)))" using ok(3) by (simp only: entries_ok_def)
      have p2: "cptrs (map ?f (cache fs)) = cptrs (cache fs)" by (intro cptrs_map) auto
      note p = p1 p2 p3
      have q: "0 \<notin> set (cptrs (cache fs))" "distinct (cptrs (cache fs))" "unat (cache_size fs) = length (cache fs)"
          "max_cache_entries fs \<noteq> -1" "length (cache fs) \<le> unat (max_cache_entries fs)"
        using ok(3) by (auto simp: entries_ok_def)
      have len: "unat (cache_size fs) = length (map ?f (cache fs))" "length (map ?f (cache fs)) \<le> unat (max_cache_entries fs)"
        using q by simp_all
      define hs where "hs = ?gs\<lparr>cache := map ?f (cache ?gs)\<rparr>"
      have h: "cache hs = map ?f (cache fs)" "cache_size hs = cache_size fs" "max_cache_entries hs = max_cache_entries fs"
          "valid_blk hs = valid_blk ?gs" "dblock sector hs = dblock sector ?gs" "block_size hs = block_size ?gs"
        by (simp_all add: hs_def)
      have "entries_ok sector hs"
        by (rule entries_okI [OF h(1) p1 p2 q(2,1) h(2) len(1) h(3) q(4) len(2)], unfold h(4-6), rule p3)
      then show ?thesis by (simp only: hs_def)
    qed
    moreover have "cptrs (map ?f (cache fs)) = cptrs (cache fs)" by (intro cptrs_map) auto
    moreover have find: "ext2_cache_find b ?fs = map_option ?f (ext2_cache_find b fs)" for b
      using cache_find_map [of ?gs ?f b] by (simp add: if_distrib [of block_num] cong: if_cong)
    moreover have "bview sector ?fs b = bview sector fs b" for b
    proof (cases "ext2_cache_find b fs")
      case None
      then have "b \<noteq> block_num e" using D(4) by auto
      then show ?thesis using None w(4) by (simp add: bview_def find)
    qed (simp add: bview_def find)
    moreover have "refs ?fs = refs fs" by (auto simp: refs_def find fun_eq_iff split: option.split)
    moreover have "held_at p ?fs b \<longleftrightarrow> held_at p fs b" for p b
      using held_at_map [of ?f p ?gs b] by (simp add: held_at_def [of p ?gs] held_at_def [of p fs])
    moreover have "same_meta fs ?fs" using w(3) by (simp add: same_meta_def)
    ultimately have "quiet F fs s ?fs s" using ok w(2) geo(1) by (auto simp: quiet_def cache_inv_def)
    then show ?thesis using run e \<open>cptrs (map ?f (cache fs)) = cptrs (cache fs)\<close> by auto
  qed
qed

end

lemma filter_other: "distinct (map f (xs @ e # ys)) \<Longrightarrow> filter (\<lambda>x. f x \<noteq> f e) (xs @ e # ys) = xs @ ys"
  by (simp, intro arg_cong2 [of _ _ _ _ append] filter_True) (auto simp: image_iff)

lemma owns_uniq:
  assumes "heap_owns s A" "(p, k) \<in> A" "(p, j) \<in> A"
  shows "j = k"
proof (rule ccontr)
  assume "j \<noteq> k"
  then have "bytes_of (p, k) \<inter> bytes_of (p, j) = {}" using owns_disjoint [OF assms] by simp
  moreover have "0 < k" "0 < j" using assms by (force simp: heap_owns_def)+
  ultimately show False by (auto simp: bytes_of_def)
qed

lemma ptr_malloc:
  assumes mem: "ptr_mem F P s" and n: "n \<noteq> 0" "unat n \<le> 2 ^ 64 - 16"
  shows "kmalloc n s = Some (0, s)
    \<or> (\<exists>p t. kmalloc n s = Some (p, t) \<and> p \<noteq> 0 \<and> unat p \<notin> P \<and> heap_step F s t \<and> ptr_mem F (insert (unat p) P) t)"
proof -
  obtain A where A: "heap_owns s A" "\<forall>p \<in> P. \<exists>k. (p, k) \<in> A" "{r \<in> A. fst r \<notin> P} = F" using mem by (auto simp: ptr_mem_def)
  show ?thesis
  proof (rule kheap.malloc_total [OF A(1) n])
    fix p k m assume m: "kmalloc n s = Some (p, s\<lparr>hmem := m\<rparr>)" "p \<noteq> 0" "heap_owns (s\<lparr>hmem := m\<rparr>) (insert (unat p, k) A)"
      "(unat p, k) \<notin> A" "\<And>r x. r \<in> A \<Longrightarrow> x \<in> bytes_of r \<Longrightarrow> m x = hmem s x"
    have new: "(unat p, j) \<notin> A" for j
      using owns_uniq [OF m(3), of "unat p" k j] m(4) by auto
    then have "unat p \<notin> P" using A(2) by blast
    moreover have "{r \<in> insert (unat p, k) A. fst r \<notin> insert (unat p) P} = F" using A(3) new by auto
    moreover have "\<forall>q \<in> insert (unat p) P. \<exists>j. (q, j) \<in> insert (unat p, k) A" using A(2) by blast
    ultimately have "unat p \<notin> P \<and> ptr_mem F (insert (unat p) P) (s\<lparr>hmem := m\<rparr>)" using m(3) unfolding ptr_mem_def by blast
    moreover have "heap_step F s (s\<lparr>hmem := m\<rparr>)" using m(5) A(3) unfolding heap_step_def by (intro exI [of _ m]) auto
    ultimately show ?thesis using m(1,2) by blast
  qed simp
qed

lemma ptr_free:
  assumes mem: "ptr_mem F P s" and p: "unat p \<in> P"
  shows "\<exists>t. kfree p s = Some t \<and> heap_step F s t \<and> ptr_mem F (P - {unat p}) t"
proof -
  obtain A where A: "heap_owns s A" "\<forall>p \<in> P. \<exists>k. (p, k) \<in> A" "{r \<in> A. fst r \<notin> P} = F" using mem by (auto simp: ptr_mem_def)
  obtain k where k: "(unat p, k) \<in> A" using A(2) p by blast
  obtain m where m: "kfree p s = Some (s\<lparr>hmem := m\<rparr>)" "heap_owns (s\<lparr>hmem := m\<rparr>) (A - {(unat p, k)})"
      "\<forall>r \<in> A - {(unat p, k)}. \<forall>x \<in> bytes_of r. m x = hmem s x"
    using kheap.free_law [OF A(1) k] by blast
  have uniq: "fst r \<noteq> unat p" if "r \<in> A - {(unat p, k)}" for r
    using that owns_uniq [OF A(1) k, of "snd r"] by (cases r) auto
  have F: "{r \<in> A - {(unat p, k)}. fst r \<notin> P - {unat p}} = F" unfolding A(3) [symmetric] using uniq p by auto
  have "\<forall>q \<in> P - {unat p}. \<exists>j. (q, j) \<in> A - {(unat p, k)}" using A(2) by blast
  then have "ptr_mem F (P - {unat p}) (s\<lparr>hmem := m\<rparr>)" using m(2) F unfolding ptr_mem_def by blast
  moreover have "heap_step F s (s\<lparr>hmem := m\<rparr>)"
  proof -
    have "F \<subseteq> A - {(unat p, k)}" using F by blast
    then show ?thesis using m(3) unfolding heap_step_def by (intro exI [of _ m]) blast
  qed
  ultimately show ?thesis using m(1) by blast
qed

text \<open>Giving back the memory of an entry.\<close>

lemma free_entry_mem:
  assumes mem: "ptr_mem F (set (cptrs es)) s" and e: "e \<in> set es" and d: "distinct (cptrs es)" "0 \<notin> set (cptrs es)"
  shows "\<exists>t u. kfree (ce_data_ptr e) s = Some t \<and> kfree (ce_ptr e) t = Some u \<and> heap_step F s u
    \<and> ptr_mem F (set (cptrs (filter (\<lambda>x. ce_ptr x \<noteq> ce_ptr e) es))) u"
proof -
  obtain xs ys where s: "es = xs @ e # ys" using split_list [OF e] by blast
  have fil: "filter (\<lambda>x. ce_ptr x \<noteq> ce_ptr e) es = xs @ ys"
    using distinct_ptrs(1) [OF d(1)] unfolding s by (rule filter_other)
  have cp: "set (cptrs es) - {unat (ce_data_ptr e)} - {unat (ce_ptr e)} = set (cptrs (xs @ ys))" using d(1) s by auto
  have "unat (ce_data_ptr e) \<in> set (cptrs es)" "unat (ce_ptr e) \<in> set (cptrs es) - {unat (ce_data_ptr e)}" using d(1) s by auto
  with ptr_free [OF mem] obtain t where t: "kfree (ce_data_ptr e) s = Some t" "heap_step F s t" "ptr_mem F (set (cptrs es) - {unat (ce_data_ptr e)}) t"
    by blast
  with ptr_free [OF t(3) \<open>unat (ce_ptr e) \<in> _\<close>] obtain u where "kfree (ce_ptr e) t = Some u" "heap_step F t u" "ptr_mem F (set (cptrs (xs @ ys))) u"
    unfolding cp by blast
  then show ?thesis using t fil heap_step_trans by fastforce
qed

context block_store
begin

lemma quiet_refl: "cache_inv good sector F fs s \<Longrightarrow> quiet F fs s fs s"
  by (simp add: quiet_def)

lemma quiet_trans: "quiet F fs s gs t \<Longrightarrow> quiet F gs t hs u \<Longrightarrow> quiet F fs s hs u"
  by (auto simp: quiet_def elim: heap_step_trans same_meta_trans)

lemma remove_clean:
  assumes inv: "cache_inv good sector F fs s" and e: "e \<in> set (cache fs)" "\<not> ce_dirty e" "ref_count e = 0"
  shows "\<exists>t u. kfree (ce_data_ptr e) s = Some t \<and> kfree (ce_ptr e) t = Some u \<and> quiet F fs s (ext2_cache_remove (ce_ptr e) fs) u
    \<and> length (cache (ext2_cache_remove (ce_ptr e) fs)) < length (cache fs)"
proof -
  have ok: "good (fs_device fs)" "geo_ok fs" "entries_ok sector fs" "ptr_mem F (set (cptrs (cache fs))) s" using inv by (auto simp: cache_inv_def)
  have d: "distinct (cptrs (cache fs))" "0 \<notin> set (cptrs (cache fs))" "distinct (map block_num (cache fs))"
    using ok(3) by (auto simp: entries_ok_def)
  obtain xs ys where s: "cache fs = xs @ e # ys" using split_list [OF e(1)] by blast
  have fil: "filter (\<lambda>x. ce_ptr x \<noteq> ce_ptr e) (cache fs) = xs @ ys"
    using distinct_ptrs(1) [OF d(1)] unfolding s by (rule filter_other)
  let ?fs = "ext2_cache_remove (ce_ptr e) fs"
  have c: "cache ?fs = xs @ ys" "cache_size ?fs = cache_size fs - 1" using fil by (auto simp: ext2_cache_remove_def)
  have eq: "?fs = fs\<lparr>cache := xs @ ys, cache_size := cache_size fs - 1\<rparr>" using fil by (simp add: ext2_cache_remove_def)
  have "unat (cache_size fs) = Suc (length (xs @ ys))" using ok(3) s by (simp add: entries_ok_def)
  then have cs: "unat (cache_size fs - 1) = length (xs @ ys)"
    by (metis Suc_eq_plus1 add_diff_cancel_right' unat_0 unat_minus_one old.nat.distinct(2))
  have ent: "entries_ok sector ?fs" using ok(3) s cs unfolding eq by (auto simp: entries_ok_def)
  have find: "ext2_cache_find b ?fs = (if b = block_num e then None else ext2_cache_find b fs)" for b
  proof -
    have "find (\<lambda>x. block_num x = b) (xs @ ys) = (if b = block_num e then None else find (\<lambda>x. block_num x = b) (xs @ e # ys))"
    proof (cases "b = block_num e")
      case True
      then show ?thesis using d(3) s by (auto simp: find_None_iff image_iff)
    next
      case False
      then have "find (\<lambda>x. block_num x = b) (xs @ e # ys) = find (\<lambda>x. block_num x = b) (xs @ ys)" by (induction xs) auto
      then show ?thesis using False by simp
    qed
    then show ?thesis by (simp add: ext2_cache_find_def c(1) s)
  qed
  have fe: "ext2_cache_find (block_num e) fs = Some e" "ce_data e = dblock sector fs (block_num e)"
    using entries_okD [OF ok(3) e(1)] e(2) by auto
  have dv: "dblock sector ?fs = dblock sector fs" by (simp add: eq)
  have view: "bview sector ?fs = bview sector fs" using fe by (auto simp: fun_eq_iff bview_def find dv split: option.split)
  have rf: "refs ?fs = refs fs" using fe e(3) by (auto simp: fun_eq_iff refs_def find)
  have held: "\<forall>p b. held_at p fs b \<and> refs fs b > 0 \<longrightarrow> held_at p ?fs b"
    using fe e(3) by (auto simp: held_at_def c(1) s refs_def)
  obtain t u where k: "kfree (ce_data_ptr e) s = Some t" "kfree (ce_ptr e) t = Some u" "heap_step F s u" "ptr_mem F (set (cptrs (xs @ ys))) u"
    using free_entry_mem [OF ok(4) e(1) d(1,2)] fil by auto
  have "cache_inv good sector F ?fs u" using ok ent k(4) c(1) by (simp add: cache_inv_def eq)
  moreover have "same_meta fs ?fs" by (simp add: same_meta_def eq)
  ultimately show ?thesis using k view rf held c(1) s by (intro exI [of _ t] exI [of _ u]) (simp add: quiet_def)
qed

lemma evict:
  assumes inv: "cache_inv good sector F fs s"
  shows "\<exists>r fs' s'. ext2_cache_evict fs s = Some (r, fs', s') \<and> quiet F fs s fs' s'
    \<and> (r = EXT2_SUCCESS \<longrightarrow> length (cache fs') < length (cache fs))"
proof (cases "find (\<lambda>e. ref_count e = 0) (rev (cache fs))")
  case None then show ?thesis using quiet_refl [OF inv] by (simp add: ext2_cache_evict_def)
next
  case (Some e)
  have e: "e \<in> set (cache fs)" "ref_count e = 0"
    using Some unfolding find_Some_iff by (metis nth_mem set_rev)+
  obtain r gs where f: "ext2_cache_flush_entry e fs = Some (r, gs)" "quiet F fs s gs s" "cptrs (cache gs) = cptrs (cache fs)"
      "r = EXT2_SUCCESS \<longrightarrow> e\<lparr>ce_dirty := False\<rparr> \<in> set (cache gs)"
    using flush_entry [OF inv e(1)] by blast
  show ?thesis
  proof (cases "r = EXT2_SUCCESS")
    case False then show ?thesis using Some f by (simp add: ext2_cache_evict_def)
  next
    case True
    have ig: "cache_inv good sector F gs s" using f(2) by (simp add: quiet_def)
    obtain t u where k: "kfree (ce_data_ptr e) s = Some t" "kfree (ce_ptr e) t = Some u"
        "quiet F gs s (ext2_cache_remove (ce_ptr e) gs) u" "length (cache (ext2_cache_remove (ce_ptr e) gs)) < length (cache gs)"
      using remove_clean [OF ig, of "e\<lparr>ce_dirty := False\<rparr>"] f(4) True e(2) by auto
    have "2 * length (cache gs) = 2 * length (cache fs)"
      using arg_cong [OF f(3), of length] by (simp add: cptrs_def length_concat comp_def sum_list_triv)
    then show ?thesis using Some f(1) True k quiet_trans [OF f(2) k(3)] by (simp add: ext2_cache_evict_def Let_def)
  qed
qed

end

context block_store
begin

text \<open>The state after block \<open>b\<close> was taken, with its data at \<open>p\<close>.\<close>

definition taken :: "region set \<Rightarrow> u64 \<Rightarrow> u32 \<Rightarrow> 'd ext2_fs \<Rightarrow> 'a heap_scheme \<Rightarrow> 'd ext2_fs \<Rightarrow> 'a heap_scheme \<Rightarrow> bool" where
  "taken F p b fs s fs' s' \<longleftrightarrow> cache_inv good sector F fs' s' \<and> heap_step F s s' \<and> same_meta fs fs' \<and> bview sector fs' = bview sector fs
     \<and> refs fs' = (refs fs)(b := refs fs b + 1) \<and> (\<forall>q c. held_at q fs c \<and> refs fs c > 0 \<longrightarrow> held_at q fs' c) \<and> held_at p fs' b"

lemma add_front:
  assumes inv: "cache_inv good sector F fs s" and b: "valid_blk fs b" "ext2_cache_find b fs = None" "length (cache fs) < unat (max_cache_entries fs)"
    and e: "block_num e = b" "ce_data e = dblock sector fs b" "ref_count e = 1"
    and new: "ce_ptr e \<noteq> 0" "ce_data_ptr e \<noteq> 0" "unat (ce_ptr e) \<notin> set (cptrs (cache fs))"
      "unat (ce_data_ptr e) \<notin> insert (unat (ce_ptr e)) (set (cptrs (cache fs)))"
    and mem: "heap_step F s t" "ptr_mem F (insert (unat (ce_data_ptr e)) (insert (unat (ce_ptr e)) (set (cptrs (cache fs))))) t"
  shows "taken F (ce_data_ptr e) b fs s (ext2_cache_add_front e fs) t"
proof -
  let ?fs = "ext2_cache_add_front e fs"
  have ok: "good (fs_device fs)" "geo_ok fs" "entries_ok sector fs" using inv by (auto simp: cache_inv_def)
  have eq: "?fs = fs\<lparr>cache := e # cache fs, cache_size := cache_size fs + 1\<rparr>" by (simp add: ext2_cache_add_front_def)
  have cs: "unat (cache_size fs) = length (cache fs)" "max_cache_entries fs \<noteq> -1" using ok(3) by (auto simp: entries_ok_def)
  have "unat (cache_size fs + 1) = Suc (length (cache fs))"
  proof -
    have "unat (max_cache_entries fs) < 2 ^ 32" using unsigned_less [of "max_cache_entries fs", where 'a = nat] by simp
    then have "Suc (length (cache fs)) < 2 ^ 32" using b(3) by linarith
    then show ?thesis using cs(1) by (simp add: unat_word_ariths)
  qed
  moreover have "b \<notin> block_num ` set (cache fs)" using b(2) by (auto simp: ext2_cache_find_def find_None_iff)
  moreover have "unat (ce_ptr e) \<noteq> 0" "unat (ce_data_ptr e) \<noteq> 0" using new by (simp_all add: unat_eq_zero)
  moreover have "length (dblock sector fs b) = unat (block_size fs)" by (rule dblock_length [OF ok(1,2)])
  ultimately have ent: "entries_ok sector ?fs"
    using ok(3) e b new unfolding eq by (auto simp: entries_ok_def)
  have find: "ext2_cache_find c ?fs = (if c = b then Some e else ext2_cache_find c fs)" for c
    using e by (simp add: ext2_cache_find_def eq)
  have dv: "dblock sector ?fs = dblock sector fs" by (simp add: eq)
  have "bview sector ?fs = bview sector fs" using e b(2) by (auto simp: fun_eq_iff bview_def find dv split: option.split)
  moreover have "refs ?fs = (refs fs)(b := refs fs b + 1)" using e b(2) by (auto simp: fun_eq_iff refs_def find)
  moreover have "held_at (ce_data_ptr e) ?fs b" "\<forall>q c. held_at q fs c \<and> refs fs c > 0 \<longrightarrow> held_at q ?fs c" using e by (auto simp: held_at_def eq)
  moreover have "cache_inv good sector F ?fs t" using ok ent mem(2) by (simp add: cache_inv_def eq insert_commute)
  moreover have "same_meta fs ?fs" by (simp add: same_meta_def eq)
  ultimately show ?thesis using mem(1) by (simp add: taken_def)
qed

lemma load:
  assumes inv: "cache_inv good sector F fs s" and b: "valid_blk fs b" "ext2_cache_find b fs = None" "length (cache fs) < unat (max_cache_entries fs)"
  shows "\<exists>p fs' s'. cache_load b fs s = Some (p, fs', s') \<and> (if p = 0 then quiet F fs s fs' s' else taken F p b fs s fs' s')"
proof -
  let ?P = "set (cptrs (cache fs))"
  have ok: "good (fs_device fs)" "geo_ok fs" "ptr_mem F ?P s" using inv by (auto simp: cache_inv_def)
  have keep: "quiet F fs s fs t" if "heap_step F s t" "ptr_mem F ?P t" for t
    using inv that by (simp add: quiet_def cache_inv_def)
  have sz: "ucast (block_size fs) \<noteq> (0 :: u64)" "unat (ucast (block_size fs) :: u64) \<le> 2 ^ 64 - 16"
  proof -
    have u: "unat (ucast (block_size fs) :: u64) = unat (block_size fs)"
      by (simp add: unsigned_ucast_eq take_bit_nat_eq_self_iff) (rule order_less_trans [OF unsigned_less], simp)
    then show "unat (ucast (block_size fs) :: u64) \<le> 2 ^ 64 - 16" using unsigned_less [of "block_size fs", where 'a = nat] by simp
    show "ucast (block_size fs) \<noteq> (0 :: u64)" using u ok(2) by (metis geo_ok_def unat_eq_zero)
  qed
  from ptr_malloc [OF ok(3), of SIZEOF_CACHE_ENTRY]
  consider "kmalloc SIZEOF_CACHE_ENTRY s = Some (0, s)"
    | e t where "kmalloc SIZEOF_CACHE_ENTRY s = Some (e, t)" "e \<noteq> 0" "unat e \<notin> ?P" "heap_step F s t" "ptr_mem F (insert (unat e) ?P) t"
    by auto
  then show ?thesis
  proof cases
    case 1 then show ?thesis using quiet_refl [OF inv] by (simp add: cache_load_def)
  next
    case (2 e t)
    have free_e: "\<exists>v. kfree e u = Some v \<and> quiet F fs s fs v" if u: "heap_step F s u" "ptr_mem F (insert (unat e) ?P) u" for u
    proof -
      obtain v where "kfree e u = Some v" "heap_step F u v" "ptr_mem F (insert (unat e) ?P - {unat e}) v"
        using ptr_free [OF u(2), of e] by blast
      then show ?thesis using keep [OF heap_step_trans [OF u(1)], of v] 2(3) by auto
    qed
    from ptr_malloc [OF 2(5) sz]
    consider "kmalloc (ucast (block_size fs)) t = Some (0, t)"
      | d u where "kmalloc (ucast (block_size fs)) t = Some (d, u)" "d \<noteq> 0" "unat d \<notin> insert (unat e) ?P" "heap_step F t u"
        "ptr_mem F (insert (unat d) (insert (unat e) ?P)) u"
      by auto
    then show ?thesis
    proof cases
      case 1 then show ?thesis using 2(1,2) free_e [OF 2(4,5)] by (auto simp: cache_load_def)
    next
      case (2 d u)
      note E = \<open>kmalloc SIZEOF_CACHE_ENTRY s = Some (e, t)\<close> \<open>e \<noteq> 0\<close> \<open>unat e \<notin> ?P\<close>
      have su: "heap_step F s u" by (rule heap_step_trans) fact+
      from read_block [OF ok(1,2) b(1)] show ?thesis
      proof
        assume r: "ext2_read_block b fs = Some None"
        obtain v where v: "kfree d u = Some v" "heap_step F u v" "ptr_mem F (insert (unat d) (insert (unat e) ?P) - {unat d}) v"
          using ptr_free [OF 2(5), of d] by blast
        have "insert (unat d) (insert (unat e) ?P) - {unat d} = insert (unat e) ?P" using 2(3) by blast
        then show ?thesis using E 2 r v free_e [OF heap_step_trans [OF su v(2)]] by (auto simp: cache_load_def)
      next
        assume r: "ext2_read_block b fs = Some (Some (dblock sector fs b))"
        have "read_into d (unat (block_size fs)) (dblock sector fs b) u = Some (dblock sector fs b)"
          by (simp add: read_into_def dblock_length [OF ok(1,2)])
        then show ?thesis using E 2 r add_front [OF inv b, of "\<lparr>ce_ptr = e, block_num = b, ce_data_ptr = d, ce_data = dblock sector fs b, ce_dirty = False, ref_count = 1\<rparr>" u] su
          by (simp add: cache_load_def)
      qed
    qed
  qed
qed

lemma hit:
  assumes inv: "cache_inv good sector F fs s" and e: "ext2_cache_find b fs = Some e" and r: "refs fs b < 2 ^ 32 - 1"
  shows "\<exists>fs'. ext2_get_block b fs s = Some (ce_data_ptr e, fs', s) \<and> ce_data_ptr e \<noteq> 0 \<and> taken F (ce_data_ptr e) b fs s fs' s"
proof -
  have ok: "good (fs_device fs)" "geo_ok fs" "entries_ok sector fs" "ptr_mem F (set (cptrs (cache fs))) s" using inv by (auto simp: cache_inv_def)
  have d: "distinct (map block_num (cache fs))" "distinct (cptrs (cache fs))" using ok(3) by (auto simp: entries_ok_def)
  have m: "e \<in> set (cache fs)" "block_num e = b" using e cache_find_iff [OF d(1)] by auto
  obtain xs ys where s: "cache fs = xs @ e # ys" using split_list [OF m(1)] by blast
  let ?e = "e\<lparr>ref_count := ref_count e + 1\<rparr>"
  have mp: "map (\<lambda>x. if ce_ptr x = ce_ptr e then ?e else x) (cache fs) = xs @ ?e # ys"
    using distinct_ptrs(1) [OF d(2)] unfolding s by (auto simp: image_iff intro!: map_idI)
  have fil: "filter (\<lambda>x. ce_ptr x \<noteq> ce_ptr e) (xs @ ?e # ys) = xs @ ys"
    using filter_other [of ce_ptr xs ?e ys] distinct_ptrs(1) [OF d(2)] unfolding s by simp
  define fs' where "fs' = fs\<lparr>cache := ?e # xs @ ys\<rparr>"
  have get: "ext2_get_block b fs s = Some (ce_data_ptr e, fs', s)"
  proof (cases "xs = []")
    case True
    then show ?thesis using e mp s by (simp add: ext2_get_block_def Let_def upd_entry_def ext2_cache_move_front_def fs'_def)
  next
    case False
    then have "ce_ptr (hd xs) \<noteq> ce_ptr e" using distinct_ptrs(1) [OF d(2)] s by (cases xs) auto
    then show ?thesis using e mp fil False
      by (simp add: ext2_get_block_def Let_def upd_entry_def ext2_cache_move_front_def ext2_cache_remove_def ext2_cache_add_front_def fs'_def)
  qed
  have rc: "unat (ref_count e + 1) = unat (ref_count e) + 1" using r e by (simp add: refs_def unat_word_ariths)
  have same: "cptrs (cache fs') = cptrs (?e # xs @ ys)" "set (cptrs (cache fs')) = set (cptrs (cache fs))" using s by (auto simp: fs'_def)
  have ent: "entries_ok sector fs'" using ok(3) unfolding entries_ok_def s fs'_def by auto
  have find: "ext2_cache_find c fs' = (if c = b then Some ?e else ext2_cache_find c fs)" for c
  proof -
    have "find (\<lambda>x. block_num x = c) (xs @ e # ys) = find (\<lambda>x. block_num x = c) (xs @ ys)" if "c \<noteq> b"
      using that m(2) by (induction xs) auto
    then show ?thesis using m(2) by (simp add: ext2_cache_find_def fs'_def s)
  qed
  have dv: "dblock sector fs' = dblock sector fs" by (simp add: fs'_def)
  have "bview sector fs' = bview sector fs" using e by (auto simp: fun_eq_iff bview_def find dv split: option.split)
  moreover have "refs fs' = (refs fs)(b := refs fs b + 1)" using e rc by (auto simp: fun_eq_iff refs_def find)
  moreover have "held_at (ce_data_ptr e) fs' b" "\<forall>q c. held_at q fs c \<and> refs fs c > 0 \<longrightarrow> held_at q fs' c"
    using m(2) s by (auto simp: held_at_def fs'_def)
  moreover have "cache_inv good sector F fs' s" using ok ent same(2) by (simp add: cache_inv_def fs'_def)
  moreover have "same_meta fs fs'" by (simp add: same_meta_def fs'_def)
  ultimately show ?thesis using get entries_okD(6) [OF ok(3) m(1)] by (simp add: taken_def)
qed

end

text \<open>An assignment to the data of a block that is held, followed by its release.\<close>

definition put_data :: "u64 \<Rightarrow> u8 list \<Rightarrow> 'd ext2_fs \<Rightarrow> 'd ext2_fs" where
  "put_data p xs fs = ext2_put_block p True (block_put p xs fs)"

lemma flush_blocks: "ext2_cache_flush_entry e fs = Some (r, gs) \<Longrightarrow> map block_num (cache gs) = map block_num (cache fs)"
  by (auto simp: ext2_cache_flush_entry_def ext2_write_block_def upd_entry_def bind_eq_Some_conv split: if_splits option.splits)

text \<open>Eviction brings in no entry.\<close>

lemma evict_subset:
  assumes "ext2_cache_evict fs s = Some (r, gs, t)"
  shows "set (map block_num (cache gs)) \<subseteq> set (map block_num (cache fs))"
proof -
  have "\<exists>hs p. (gs = hs \<or> gs = ext2_cache_remove p hs) \<and> map block_num (cache hs) = map block_num (cache fs)"
    using assms by (auto simp: ext2_cache_evict_def bind_eq_Some_conv Let_def split: option.splits if_splits dest!: flush_blocks; blast)
  then obtain hs p where h: "gs = hs \<or> gs = ext2_cache_remove p hs" "map block_num (cache hs) = map block_num (cache fs)" by blast
  have "set (map block_num (cache gs)) \<subseteq> set (map block_num (cache hs))" using h(1) by (auto simp: ext2_cache_remove_def)
  then show ?thesis by (simp only: h(2))
qed

context block_store
begin

lemma get_block:
  assumes inv: "cache_inv good sector F fs s" and b: "valid_blk fs b" "refs fs b < 2 ^ 32 - 1"
  shows "\<exists>p fs' s'. ext2_get_block b fs s = Some (p, fs', s') \<and> (if p = 0 then quiet F fs s fs' s' else taken F p b fs s fs' s')"
proof (cases "ext2_cache_find b fs")
  case (Some e)
  then show ?thesis using hit [OF inv Some b(2)] by auto
next
  case None
  have cs: "unat (cache_size fs) = length (cache fs)" "length (cache fs) \<le> unat (max_cache_entries fs)"
    using inv by (auto simp: cache_inv_def entries_ok_def)
  show ?thesis
  proof (cases "cache_size fs \<ge> max_cache_entries fs")
    case False
    then have "length (cache fs) < unat (max_cache_entries fs)" using cs by (simp add: word_le_nat_alt)
    then show ?thesis using False load [OF inv b(1) None] None by (simp add: ext2_get_block_def)
  next
    case True
    obtain r gs t where ev: "ext2_cache_evict fs s = Some (r, gs, t)" "quiet F fs s gs t" "r = EXT2_SUCCESS \<longrightarrow> length (cache gs) < length (cache fs)"
      using evict [OF inv] by blast
    show ?thesis
    proof (cases "r = EXT2_SUCCESS")
      case False then show ?thesis using None True ev by (simp add: ext2_get_block_def)
    next
      case ok: True
      note q = ev(2) [unfolded quiet_def]
      have m: "valid_blk gs b" "length (cache gs) < unat (max_cache_entries gs)"
        using q ev(3) ok b(1) cs(2) by (auto simp: same_metaD)
      show ?thesis
      proof (cases "ext2_cache_find b gs")
        case n: None
        obtain p hs u where h: "cache_load b gs t = Some (p, hs, u)" "if p = 0 then quiet F gs t hs u else taken F p b gs t hs u"
          using load [of F gs t, OF _ m(1) n m(2)] q by blast
        have "ext2_get_block b fs s = Some (p, hs, u)" using None True ev ok h(1) by (simp add: ext2_get_block_def)
        moreover have "if p = 0 then quiet F fs s hs u else taken F p b fs s hs u"
          using h(2) quiet_trans [OF ev(2)] q unfolding taken_def
          by (auto split: if_splits elim: heap_step_trans same_meta_trans)
        ultimately show ?thesis by blast
      next
        case (Some e)
        have "set (map block_num (cache gs)) \<subseteq> set (map block_num (cache fs))" by (rule evict_subset [OF ev(1)])
        moreover have "b \<in> set (map block_num (cache gs))" using Some by (auto simp: ext2_cache_find_def find_Some_iff)
        moreover have "b \<notin> set (map block_num (cache fs))" using None by (auto simp: ext2_cache_find_def find_None_iff)
        ultimately show ?thesis by blast
      qed
    qed
  qed
qed

lemma held_entry:
  assumes "entries_ok sector fs" "held_at p fs b"
  obtains e where "e \<in> set (cache fs)" "ce_data_ptr e = p" "block_num e = b" "ext2_cache_find b fs = Some e"
    "\<And>x. x \<in> set (cache fs) \<Longrightarrow> ce_data_ptr x = p \<longleftrightarrow> x = e" "\<And>x. x \<in> set (cache fs) \<Longrightarrow> block_num x = b \<longleftrightarrow> x = e"
proof -
  obtain e where e: "e \<in> set (cache fs)" "ce_data_ptr e = p" "block_num e = b" using assms(2) by (auto simp: held_at_def)
  have d: "inj_on ce_data_ptr (set (cache fs))" "inj_on block_num (set (cache fs))"
    using assms(1) distinct_ptrs(2) by (auto simp: entries_ok_def distinct_map)
  have "ext2_cache_find b fs = Some e" using entries_okD(4) [OF assms(1) e(1)] e(3) by simp
  moreover have "ce_data_ptr x = p \<longleftrightarrow> x = e" "block_num x = b \<longleftrightarrow> x = e" if "x \<in> set (cache fs)" for x
    using that e d by (auto dest: inj_onD)
  ultimately show thesis using that e by blast
qed

lemma block_at_view: "cache_inv good sector F fs s \<Longrightarrow> held_at p fs b \<Longrightarrow> block_at p fs = Some (bview sector fs b)"
proof -
  assume "cache_inv good sector F fs s" "held_at p fs b"
  then have ok: "entries_ok sector fs" "held_at p fs b" by (auto simp: cache_inv_def)
  obtain e where e: "e \<in> set (cache fs)" "ce_data_ptr e = p" "ext2_cache_find b fs = Some e" by (rule held_entry [OF ok])
  have "find (\<lambda>x. ce_data_ptr x = ce_data_ptr e) (cache fs) = Some e"
    by (rule find_uniq [OF distinct_ptrs(2) e(1)]) (use ok(1) in \<open>simp add: entries_ok_def\<close>)
  then show ?thesis using e by (simp add: block_at_def bview_def)
qed

text \<open>One entry changed at its data, its dirty mark or its count.\<close>

lemma change_entry:
  assumes inv: "cache_inv good sector F fs s" and h: "held_at p fs b" and len: "length xs = unat (block_size fs)"
    and g: "\<And>e. block_num (g e) = block_num e" "\<And>e. ce_ptr (g e) = ce_ptr e" "\<And>e. ce_data_ptr (g e) = ce_data_ptr e"
      "\<And>e. e \<in> set (cache fs) \<Longrightarrow> ce_data_ptr e = p \<Longrightarrow> ce_data (g e) = xs \<and> (ce_dirty (g e) \<or> xs = ce_data e \<and> ce_dirty (g e) = ce_dirty e)
         \<and> ref_count (g e) = ref_count e - 1"
    and r: "refs fs b > 0"
  defines "fs' \<equiv> fs\<lparr>cache := upd_first (\<lambda>e. ce_data_ptr e = p) g (cache fs)\<rparr>"
  shows "cache_inv good sector F fs' s" "same_meta fs fs'" "bview sector fs' = (bview sector fs)(b := xs)"
    "refs fs' = (refs fs)(b := refs fs b - 1)" "held_at q fs' c = held_at q fs c"
proof -
  have ok: "good (fs_device fs)" "geo_ok fs" "entries_ok sector fs" "ptr_mem F (set (cptrs (cache fs))) s" using inv by (auto simp: cache_inv_def)
  obtain e where e: "e \<in> set (cache fs)" "ce_data_ptr e = p" "block_num e = b" "ext2_cache_find b fs = Some e"
    and u: "\<And>x. x \<in> set (cache fs) \<Longrightarrow> ce_data_ptr x = p \<longleftrightarrow> x = e" by (rule held_entry [OF ok(3) h]) blast
  let ?f = "\<lambda>x. if ce_data_ptr x = p then g x else x"
  have fs': "fs' = fs\<lparr>cache := map ?f (cache fs)\<rparr>"
    unfolding fs'_def by (subst upd_first_map) (use ok(3) distinct_ptrs(2) in \<open>auto simp: entries_ok_def\<close>)
  have f: "block_num (?f x) = block_num x" "ce_ptr (?f x) = ce_ptr x" "ce_data_ptr (?f x) = ce_data_ptr x" for x using g by auto
  have find: "ext2_cache_find c fs' = map_option ?f (ext2_cache_find c fs)" for c unfolding fs' by (rule cache_find_map) (rule f(1))
  have ge: "ce_data (g e) = xs" "ref_count (g e) = ref_count e - 1" using g(4) [OF e(1,2)] by auto
  have other: "?f x = x" if "ext2_cache_find c fs = Some x" "c \<noteq> b" for x c
  proof -
    have "x \<in> set (cache fs)" "block_num x = c" using that cache_find_iff [of fs] ok(3) by (auto simp: entries_ok_def)
    then have "x \<noteq> e" using that(2) e(3) by auto
    then show ?thesis using u [OF \<open>x \<in> set (cache fs)\<close>] by simp
  qed
  have dv: "dblock sector fs' = dblock sector fs" by (simp add: fs')
  show "bview sector fs' = (bview sector fs)(b := xs)"
    using e ge other by (auto simp: fun_eq_iff bview_def find dv split: option.split)
  have "ref_count e \<noteq> 0" using r e(4) by (auto simp: refs_def)
  then have "unat (ref_count e - 1) = unat (ref_count e) - 1" by (metis unat_minus_one)
  then show "refs fs' = (refs fs)(b := refs fs b - 1)"
    using e ge other by (auto simp: fun_eq_iff refs_def find split: option.split)
  show "held_at q fs' c = held_at q fs c" unfolding fs' by (rule held_at_map) (rule f(3), rule f(1))
  have "entries_ok sector fs'" unfolding fs'
  proof (rule entries_ok_map [OF ok(3)])
    fix x assume x: "x \<in> set (cache fs)"
    show "ce_ptr (?f x) = ce_ptr x \<and> ce_data_ptr (?f x) = ce_data_ptr x \<and> block_num (?f x) = block_num x
      \<and> length (ce_data (?f x)) = unat (block_size fs) \<and> (\<not> ce_dirty (?f x) \<longrightarrow> ce_data (?f x) = dblock sector fs (block_num x))"
      using f [of x] g(4) [OF x] len entries_okD(2,3) [OF ok(3) x] by auto
  qed
  moreover have "cptrs (cache fs') = cptrs (cache fs)" unfolding fs' by (simp, rule cptrs_map) (use f in auto)
  ultimately show "cache_inv good sector F fs' s" using ok by (simp add: cache_inv_def fs')
  show "same_meta fs fs'" by (simp add: same_meta_def fs')
qed

lemma put_clean:
  assumes "cache_inv good sector F fs s" "held_at p fs b" "refs fs b > 0"
  shows "cache_inv good sector F (ext2_put_block p False fs) s" "same_meta fs (ext2_put_block p False fs)"
    "bview sector (ext2_put_block p False fs) = bview sector fs" "refs (ext2_put_block p False fs) = (refs fs)(b := refs fs b - 1)"
    "held_at q (ext2_put_block p False fs) c = held_at q fs c"
proof -
  have ok: "entries_ok sector fs" using assms(1) by (simp add: cache_inv_def)
  obtain e where e: "e \<in> set (cache fs)" "ce_data_ptr e = p" "ext2_cache_find b fs = Some e"
    and u: "\<And>x. x \<in> set (cache fs) \<Longrightarrow> ce_data_ptr x = p \<longleftrightarrow> x = e" by (rule held_entry [OF ok assms(2)]) blast
  have len: "length (ce_data e) = unat (block_size fs)" by (rule entries_okD(2) [OF ok e(1)])
  have v: "(bview sector fs)(b := ce_data e) = bview sector fs" using e(3) by (auto simp: bview_def fun_eq_iff)
  note C = change_entry [OF assms(1,2) len, where g = "\<lambda>e. e\<lparr>ref_count := ref_count e - 1, ce_dirty := ce_dirty e \<or> False\<rparr>", OF _ _ _ _ assms(3)]
  have "x \<in> set (cache fs) \<Longrightarrow> ce_data_ptr x = p \<Longrightarrow> ce_data x = ce_data e" for x using u by blast
  with C v show "cache_inv good sector F (ext2_put_block p False fs) s" "same_meta fs (ext2_put_block p False fs)"
    "bview sector (ext2_put_block p False fs) = bview sector fs" "refs (ext2_put_block p False fs) = (refs fs)(b := refs fs b - 1)"
    "held_at q (ext2_put_block p False fs) c = held_at q fs c"
    unfolding ext2_put_block_def by simp_all
qed

lemma put_data_eq:
  assumes "entries_ok sector fs"
  shows "put_data p xs fs = fs\<lparr>cache := upd_first (\<lambda>e. ce_data_ptr e = p) (\<lambda>e. e\<lparr>ce_data := xs, ref_count := ref_count e - 1, ce_dirty := True\<rparr>) (cache fs)\<rparr>"
proof -
  have "upd_first (\<lambda>e. ce_data_ptr e = p) (\<lambda>e. e\<lparr>ref_count := ref_count e - 1, ce_dirty := True\<rparr>) (upd_first (\<lambda>e. ce_data_ptr e = p) (\<lambda>e. e\<lparr>ce_data := xs\<rparr>) es)
      = upd_first (\<lambda>e. ce_data_ptr e = p) (\<lambda>e. e\<lparr>ce_data := xs, ref_count := ref_count e - 1, ce_dirty := True\<rparr>) es" for es
    by (induction es) auto
  from this [of "cache fs"] show ?thesis by (auto simp: put_data_def ext2_put_block_def block_put_def)
qed

lemma put_dirty:
  assumes "cache_inv good sector F fs s" "held_at p fs b" "refs fs b > 0" "length xs = unat (block_size fs)"
  shows "cache_inv good sector F (put_data p xs fs) s" "same_meta fs (put_data p xs fs)"
    "bview sector (put_data p xs fs) = (bview sector fs)(b := xs)" "refs (put_data p xs fs) = (refs fs)(b := refs fs b - 1)"
    "held_at q (put_data p xs fs) c = held_at q fs c"
  using change_entry [OF assms(1,2,4), where g = "\<lambda>e. e\<lparr>ce_data := xs, ref_count := ref_count e - 1, ce_dirty := True\<rparr>", OF _ _ _ _ assms(3)]
    put_data_eq [of fs p xs] assms(1) by (simp_all add: cache_inv_def)

end

lemma flush_entry_cache:
  assumes "ext2_cache_flush_entry e fs = Some (EXT2_SUCCESS, fs')" "ce_dirty e"
  shows "cache fs' = map (\<lambda>x. if ce_ptr x = ce_ptr e then x\<lparr>ce_dirty := False\<rparr> else x) (cache fs)"
  using assms by (auto simp: ext2_cache_flush_entry_def ext2_write_block_def upd_entry_def bind_eq_Some_conv split: if_splits option.splits)

context block_store
begin

lemma flush_entries:
  assumes "cache_inv good sector F fs s" "distinct (map ce_ptr es)" "set es \<subseteq> set (cache fs)" "\<forall>x \<in> set (cache fs). ce_dirty x \<longrightarrow> x \<in> set es"
  shows "\<exists>r fs'. flush_entries es fs = Some (r, fs') \<and> quiet F fs s fs' s \<and> cptrs (cache fs') = cptrs (cache fs)
    \<and> (r = EXT2_SUCCESS \<longrightarrow> (\<forall>x \<in> set (cache fs'). \<not> ce_dirty x))"
  using assms
proof (induction es arbitrary: fs)
  case Nil then show ?case using quiet_refl by auto
next
  case (Cons e es)
  show ?case
  proof (cases "ce_dirty e")
    case False
    then have "\<forall>x \<in> set (cache fs). ce_dirty x \<longrightarrow> x \<in> set es" using Cons.prems(4) by auto
    then show ?thesis using Cons.IH [of fs] Cons.prems False by auto
  next
    case True
    obtain r gs where g: "ext2_cache_flush_entry e fs = Some (r, gs)" "quiet F fs s gs s" "cptrs (cache gs) = cptrs (cache fs)"
      using flush_entry [OF Cons.prems(1), of e] Cons.prems(3) by auto
    show ?thesis
    proof (cases "r = EXT2_SUCCESS")
      case False then show ?thesis using g True by simp
    next
      case ok: True
      note c = flush_entry_cache [OF g(1) [unfolded ok] True]
      have keep: "x \<in> set (cache gs)" if "x \<in> set es" for x
      proof -
        have "x \<in> set (cache fs)" "ce_ptr x \<noteq> ce_ptr e" using that Cons.prems(2,3) by (auto simp: image_iff)
        then show ?thesis unfolding c set_map image_iff by (intro bexI [of _ x]) auto
      qed
      have old: "x \<in> set es" if x: "x \<in> set (cache gs)" "ce_dirty x" for x
      proof -
        obtain y where y: "y \<in> set (cache fs)" "x = (if ce_ptr y = ce_ptr e then y\<lparr>ce_dirty := False\<rparr> else y)"
          using x(1) unfolding c by auto
        then have "x = y" "y \<noteq> e" using x(2) by (auto split: if_splits)
        then show ?thesis using Cons.prems(4) y x(2) by auto
      qed
      have "cache_inv good sector F gs s" using g(2) by (simp add: quiet_def)
      from Cons.IH [OF this] keep old Cons.prems(2)
      obtain r' fs' where h: "flush_entries es gs = Some (r', fs')" "quiet F gs s fs' s" "cptrs (cache fs') = cptrs (cache gs)"
        "r' = EXT2_SUCCESS \<longrightarrow> (\<forall>x \<in> set (cache fs'). \<not> ce_dirty x)" by auto
      then show ?thesis using g True ok quiet_trans [OF g(2) h(2)] by auto
    qed
  qed
qed

text \<open>A flush that succeeds leaves the contents of every block on the device.\<close>

lemma flush_cache:
  assumes inv: "cache_inv good sector F fs s"
  shows "\<exists>r fs'. ext2_flush_cache fs = Some (r, fs') \<and> quiet F fs s fs' s \<and> cptrs (cache fs') = cptrs (cache fs)
    \<and> (r = EXT2_SUCCESS \<longrightarrow> dblock sector fs' = bview sector fs)"
proof -
  have ok: "entries_ok sector fs" using inv by (simp add: cache_inv_def)
  have "distinct (map ce_ptr (cache fs))" using ok distinct_ptrs(1) by (simp add: entries_ok_def)
  from flush_entries [OF inv this] obtain r fs' where f: "ext2_flush_cache fs = Some (r, fs')" "quiet F fs s fs' s"
    "cptrs (cache fs') = cptrs (cache fs)" "r = EXT2_SUCCESS \<longrightarrow> (\<forall>x \<in> set (cache fs'). \<not> ce_dirty x)"
    unfolding ext2_flush_cache_def by auto
  have "dblock sector fs' = bview sector fs'" if "r = EXT2_SUCCESS"
  proof
    fix b
    have e: "entries_ok sector fs'" using f(2) by (simp add: quiet_def cache_inv_def)
    show "dblock sector fs' b = bview sector fs' b"
    proof (cases "ext2_cache_find b fs'")
      case None then show ?thesis by (simp add: bview_def)
    next
      case (Some x)
      then have "x \<in> set (cache fs')" "block_num x = b" using cache_find_iff [of fs' b x] e by (auto simp: entries_ok_def)
      then show ?thesis using Some entries_okD(3) [OF e] f(4) that by (auto simp: bview_def)
    qed
  qed
  then show ?thesis using f by (auto simp: quiet_def)
qed

end

end
