(* ===== verification/MemDisk.thy ===== *)
theory MemDisk
  imports Ext2Cache
begin

text \<open>
  Disks in memory satisfy the interface of the block cache.
\<close>

section \<open>Disks in memory are block stores\<close>

text \<open>A disk in memory with a geometry whose byte offsets do not wrap around.\<close>

definition mem_good :: "mem_ctx block_device \<Rightarrow> bool" where
  "mem_good dev \<longleftrightarrow> (bd_read dev = ramdisk_read \<and> bd_write dev = ramdisk_write \<or> bd_read dev = image_read \<and> bd_write dev = image_write)
     \<and> sector_size dev \<noteq> 0 \<and> unat (sector_size dev) < 2 ^ 16 \<and> unat (lba_offset dev) < 2 ^ 40
     \<and> unat (size_bytes (driver_data dev)) = length (disk_bytes (driver_data dev))"

definition mem_byte :: "mem_ctx block_device \<Rightarrow> nat \<Rightarrow> u8" where
  "mem_byte dev i = (if i < length (disk_bytes (driver_data dev)) then disk_bytes (driver_data dev) ! i else 0)"

definition mem_sector :: "mem_ctx block_device \<Rightarrow> nat \<Rightarrow> u8 list" where
  "mem_sector dev i = map (\<lambda>k. mem_byte dev ((unat (lba_offset dev) + i) * unat (sector_size dev) + k)) [0..<unat (sector_size dev)]"

lemma image_is_ramdisk: "image_read = ramdisk_read" "image_write = ramdisk_write"
  by (simp_all add: fun_eq_iff image_read_def ramdisk_read_def image_write_def ramdisk_write_def)

lemma mem_good_fun: "mem_good dev \<Longrightarrow> bd_read dev = ramdisk_read \<and> bd_write dev = ramdisk_write"
  by (auto simp: mem_good_def image_is_ramdisk)

lemma concat_rows: "concat (map (\<lambda>i. map (\<lambda>k. f ((m + i) * w + k)) [0..<w]) [a..<a + n]) = map f [(m + a) * w..<(m + a + n) * w]"
proof (induction n)
  case (Suc n)
  have "[(m + a + n) * w..<(m + a + Suc n) * w] = map (\<lambda>k. k + (m + a + n) * w) [0..<w]"
    by (simp add: map_add_upt add.commute)
  then have r: "map f [(m + a + n) * w..<(m + a + Suc n) * w] = map (\<lambda>k. f ((m + a + n) * w + k)) [0..<w]"
    by (simp add: comp_def add.commute)
  have "[(m + a) * w..<(m + a + Suc n) * w] = [(m + a) * w..<(m + a + n) * w] @ [(m + a + n) * w..<(m + a + Suc n) * w]"
    using upt_add_eq_append [of "(m + a) * w" "(m + a + n) * w" w] by (simp add: algebra_simps)
  then show ?case using Suc r by (simp add: add.assoc)
qed simp

lemma byte_bounds:
  fixes dev :: "mem_ctx block_device"
  assumes g: "mem_good dev" and n: "unat lba + unat n \<le> 2 ^ 32"
  defines "d \<equiv> bdev.truncate dev"
  shows "unat (byte_off d lba) = (unat (lba_offset dev) + unat lba) * unat (sector_size dev)"
    "unat (byte_count d n) = unat n * unat (sector_size dev)"
    "unat (byte_off d lba + byte_count d n) = unat (byte_off d lba) + unat (byte_count d n)"
proof -
  have f: "sector_size d = sector_size dev" "lba_offset d = lba_offset dev" by (simp_all add: d_def bdev.truncate_def)
  have u: "unat (ucast x :: u64) = unat x" for x :: u32
    by (simp add: unsigned_ucast_eq take_bit_nat_eq_self_iff) (rule order_less_trans [OF unsigned_less], simp)
  have w: "unat (sector_size dev) < 2 ^ 16" "unat (lba_offset dev) < 2 ^ 40" using g by (simp_all add: mem_good_def)
  have "(unat (lba_offset dev) + (unat lba + unat n)) * unat (sector_size dev) \<le> (2 ^ 40 + 2 ^ 32) * 2 ^ 16"
    using w n by (intro mult_le_mono add_mono) auto
  then have b: "(unat (lba_offset dev) + unat lba) * unat (sector_size dev) + unat n * unat (sector_size dev) < 2 ^ 64"
    by (simp add: algebra_simps)
  have s: "unat (lba_offset dev) + unat lba < 2 ^ 64" using w(2) n by simp
  show o: "unat (byte_off d lba) = (unat (lba_offset dev) + unat lba) * unat (sector_size dev)"
    using b s unfolding byte_off_def f unat_word_ariths u by simp
  show c: "unat (byte_count d n) = unat n * unat (sector_size dev)"
    using b unfolding byte_count_def f unat_word_ariths u by simp
  show "unat (byte_off d lba + byte_count d n) = unat (byte_off d lba) + unat (byte_count d n)"
    using b unfolding unat_word_ariths o c by simp
qed

lemma mem_read:
  assumes g: "mem_good dev" and n: "unat lba + unat n \<le> 2 ^ 32"
  shows "dev_read dev lba n = Some None \<or> dev_read dev lba n = Some (Some (concat (map (mem_sector dev) [unat lba..<unat lba + unat n])))"
proof -
  let ?d = "bdev.truncate dev" and ?xs = "disk_bytes (driver_data dev)" and ?w = "unat (sector_size dev)"
  note B = byte_bounds [OF g n]
  have dd: "driver_data ?d = driver_data dev" by (simp add: bdev.truncate_def)
  show ?thesis
  proof (cases "byte_off ?d lba + byte_count ?d n > size_bytes (driver_data dev)")
    case True then show ?thesis using mem_good_fun [OF g] by (simp add: dev_read_def ramdisk_read_def Let_def dd)
  next
    case False
    then have le: "unat (byte_off ?d lba) + unat (byte_count ?d n) \<le> length ?xs"
      using B(3) g by (simp add: word_less_nat_alt mem_good_def)
    have "take (unat (byte_count ?d n)) (drop (unat (byte_off ?d lba)) ?xs) = map (mem_byte dev) [unat (byte_off ?d lba)..<unat (byte_off ?d lba) + unat (byte_count ?d n)]"
      using le by (intro nth_equalityI) (auto simp: mem_byte_def)
    also have "\<dots> = concat (map (mem_sector dev) [unat lba..<unat lba + unat n])"
      unfolding mem_sector_def concat_rows B(1,2) by (simp add: algebra_simps)
    finally show ?thesis using False le mem_good_fun [OF g]
      by (simp add: dev_read_def ramdisk_read_def Let_def dd disk_get_def)
  qed
qed

text \<open>Byte \<open>k\<close> of sector \<open>i\<close> lies in the range of the sectors from \<open>l\<close> on if and only if \<open>i\<close> does.\<close>

lemma sector_range:
  fixes k :: nat
  assumes "k < w"
  shows "(m + l) * w \<le> (m + i) * w + k \<and> (m + i) * w + k < (m + l) * w + n * w \<longleftrightarrow> l \<le> i \<and> i < l + n"
proof -
  have "(m + l) * w \<le> (m + i) * w + k \<longleftrightarrow> l \<le> i"
  proof
    assume a: "(m + l) * w \<le> (m + i) * w + k"
    then have "(m + l) * w < Suc (m + i) * w" using assms by simp
    then have "m + l < Suc (m + i)" by (simp only: mult_less_cancel2)
    then show "l \<le> i" by simp
  qed (simp add: trans_le_add1)
  moreover have "(m + i) * w + k < (m + (l + n)) * w \<longleftrightarrow> i < l + n"
  proof
    assume "(m + i) * w + k < (m + (l + n)) * w"
    then have "(m + i) * w < (m + (l + n)) * w" by linarith
    then show "i < l + n" by simp
  next
    assume "i < l + n"
    then have "(m + i + 1) * w \<le> (m + (l + n)) * w" by (intro mult_le_mono1) simp
    then show "(m + i) * w + k < (m + (l + n)) * w" using assms by (simp add: algebra_simps)
  qed
  ultimately show ?thesis by (simp add: algebra_simps)
qed

lemma mem_write:
  assumes g: "mem_good dev" and n: "unat lba + unat n \<le> 2 ^ 32" and len: "length buf = unat n * unat (sector_size dev)"
  shows "dev_write dev lba n buf = Some None
    \<or> (\<exists>dev'. dev_write dev lba n buf = Some (Some dev') \<and> mem_good dev' \<and> sector_size dev' = sector_size dev
        \<and> (\<forall>i. mem_sector dev' i = (if unat lba \<le> i \<and> i < unat lba + unat n
              then take (unat (sector_size dev)) (drop ((i - unat lba) * unat (sector_size dev)) buf) else mem_sector dev i)))"
proof -
  let ?d = "bdev.truncate dev" and ?xs = "disk_bytes (driver_data dev)" and ?w = "unat (sector_size dev)" and ?m = "unat (lba_offset dev)"
  note B = byte_bounds [OF g n]
  have dd: "driver_data ?d = driver_data dev" by (simp add: bdev.truncate_def)
  show ?thesis
  proof (cases "byte_off ?d lba + byte_count ?d n > size_bytes (driver_data dev)")
    case True then show ?thesis using mem_good_fun [OF g] by (simp add: dev_write_def ramdisk_write_def Let_def dd)
  next
    case False
    then have le: "unat (byte_off ?d lba) + unat (byte_count ?d n) \<le> length ?xs"
      using B(3) g by (simp add: word_less_nat_alt mem_good_def)
    define dev' where "dev' = dev\<lparr>driver_data := (driver_data dev)\<lparr>disk_bytes := overlay (unat (byte_off ?d lba)) buf ?xs\<rparr>\<rparr>"
    have lb: "length buf = unat (byte_count ?d n)" using len B(2) by simp
    have run: "dev_write dev lba n buf = Some (Some dev')"
      using False le lb mem_good_fun [OF g] by (simp add: dev_write_def ramdisk_write_def Let_def dd disk_put_def dev'_def)
    have ov: "length (overlay (unat (byte_off ?d lba)) buf ?xs) = length ?xs" using le lb by (simp add: overlay_length)
    have g': "mem_good dev'" using g ov by (simp add: mem_good_def dev'_def)
    have "mem_byte dev' ((?m + i) * ?w + k)
        = (if unat lba \<le> i \<and> i < unat lba + unat n then buf ! ((i - unat lba) * ?w + k) else mem_byte dev ((?m + i) * ?w + k))"
      if k: "k < ?w" for i k
    proof -
      have o: "unat (byte_off ?d lba) + length buf = (?m + unat lba) * ?w + unat n * ?w" using B(1) len by simp
      note R = sector_range [OF k, of ?m "unat lba" i "unat n"]
      show ?thesis
      proof (cases "unat lba \<le> i \<and> i < unat lba + unat n")
        case True
        then have "(?m + i) * ?w + k - (?m + unat lba) * ?w = (i - unat lba) * ?w + k"
          by (metis (no_types, lifting) Nat.diff_add_assoc2 add_diff_cancel_left diff_mult_distrib le_add_diff_inverse mult_le_mono1 add_le_mono order_refl)
        moreover have "(?m + i) * ?w + k < length ?xs" using R True le B(1,2) by linarith
        ultimately show ?thesis using True R le lb ov o
          by (simp add: mem_byte_def dev'_def nth_overlay B(1))
      next
        case False
        then have "\<not> ((?m + unat lba) * ?w \<le> (?m + i) * ?w + k \<and> (?m + i) * ?w + k < (?m + unat lba) * ?w + unat n * ?w)" using R by blast
        then show ?thesis using False le lb ov o
          by (auto simp: mem_byte_def dev'_def nth_overlay B(1))
      qed
    qed
    note byte = this
    have f: "lba_offset dev' = lba_offset dev" "sector_size dev' = sector_size dev" by (simp_all add: dev'_def)
    have "mem_sector dev' i = (if unat lba \<le> i \<and> i < unat lba + unat n then take ?w (drop ((i - unat lba) * ?w) buf) else mem_sector dev i)" for i
    proof (cases "unat lba \<le> i \<and> i < unat lba + unat n")
      case True
      then have "(i - unat lba + 1) * ?w \<le> length buf" unfolding len by (intro mult_le_mono1) auto
      then show ?thesis using True by (intro nth_equalityI) (auto simp: mem_sector_def f byte)
    next
      case False then show ?thesis by (auto simp: mem_sector_def f byte)
    qed
    then show ?thesis using run g' f(2) by blast
  qed
qed

interpretation ram: block_store mem_good mem_sector
  by unfold_locales (simp add: mem_sector_def, fact mem_read, fact mem_write)

end
