(* ===== verification/Ext2View.thy ===== *)
theory Ext2View
  imports MemDisk Ext2Ops
begin

text \<open>
  The file system as a map from block numbers to contents: what the operations keep, what
  fetching, changing and releasing a block does to it, bitmaps, the codecs of descriptors and inodes,
  and the metadata of the allocator.
\<close>

section \<open>What the operations keep\<close>

text \<open>What never changes while a file system is mounted.\<close>

definition same_geo :: "'d ext2_fs \<Rightarrow> 'd ext2_fs \<Rightarrow> bool" where
  "same_geo fs fs' \<longleftrightarrow> sector_size (fs_device fs') = sector_size (fs_device fs) \<and> fs_ptr fs' = fs_ptr fs
     \<and> group_desc_ptr fs' = group_desc_ptr fs \<and> block_size fs' = block_size fs \<and> inode_size fs' = inode_size fs
     \<and> num_groups fs' = num_groups fs \<and> first_data_block fs' = first_data_block fs \<and> max_cache_entries fs' = max_cache_entries fs
     \<and> s_inodes_count (superblock fs') = s_inodes_count (superblock fs) \<and> s_blocks_count (superblock fs') = s_blocks_count (superblock fs)
     \<and> s_blocks_per_group (superblock fs') = s_blocks_per_group (superblock fs)
     \<and> s_inodes_per_group (superblock fs') = s_inodes_per_group (superblock fs)
     \<and> map bg_block_bitmap (group_desc fs') = map bg_block_bitmap (group_desc fs)
     \<and> map bg_inode_bitmap (group_desc fs') = map bg_inode_bitmap (group_desc fs)
     \<and> map bg_inode_table (group_desc fs') = map bg_inode_table (group_desc fs)
     \<and> map bg_reserved (group_desc fs') = map bg_reserved (group_desc fs)"

lemma same_geo_refl [simp]: "same_geo fs fs"
  by (simp add: same_geo_def)

lemma same_geo_trans: "same_geo fs gs \<Longrightarrow> same_geo gs hs \<Longrightarrow> same_geo fs hs"
  by (simp add: same_geo_def)

lemma same_meta_geo: "same_meta fs fs' \<Longrightarrow> same_geo fs fs'"
  by (simp add: same_meta_def same_geo_def)

lemma same_geoD:
  assumes "same_geo fs fs'"
  shows "block_size fs' = block_size fs" "inode_size fs' = inode_size fs" "num_groups fs' = num_groups fs"
    "first_data_block fs' = first_data_block fs" "fs_ptr fs' = fs_ptr fs" "group_desc_ptr fs' = group_desc_ptr fs"
    "sector_size (fs_device fs') = sector_size (fs_device fs)" "spb fs' = spb fs"
    "valid_blk fs' = valid_blk fs" "geo_ok fs' = geo_ok fs" "length (group_desc fs') = length (group_desc fs)"
    "s_inodes_count (superblock fs') = s_inodes_count (superblock fs)" "s_blocks_count (superblock fs') = s_blocks_count (superblock fs)"
    "s_blocks_per_group (superblock fs') = s_blocks_per_group (superblock fs)"
    "s_inodes_per_group (superblock fs') = s_inodes_per_group (superblock fs)"
  using assms by (auto simp: same_geo_def spb_def valid_blk_def geo_ok_def fun_eq_iff dest: map_eq_imp_length_eq)

lemma same_geo_group:
  assumes "same_geo fs fs'" "g < length (group_desc fs)"
  shows "bg_block_bitmap (group_desc fs' ! g) = bg_block_bitmap (group_desc fs ! g)"
    "bg_inode_bitmap (group_desc fs' ! g) = bg_inode_bitmap (group_desc fs ! g)"
    "bg_inode_table (group_desc fs' ! g) = bg_inode_table (group_desc fs ! g)"
    "bg_reserved (group_desc fs' ! g) = bg_reserved (group_desc fs ! g)"
proof -
  have "length (group_desc fs') = length (group_desc fs)" by (rule same_geoD(11) [OF assms(1)])
  then show "bg_block_bitmap (group_desc fs' ! g) = bg_block_bitmap (group_desc fs ! g)"
    "bg_inode_bitmap (group_desc fs' ! g) = bg_inode_bitmap (group_desc fs ! g)"
    "bg_inode_table (group_desc fs' ! g) = bg_inode_table (group_desc fs ! g)"
    "bg_reserved (group_desc fs' ! g) = bg_reserved (group_desc fs ! g)"
    using assms unfolding same_geo_def by (metis nth_map)+
qed

definition refs_below :: "nat \<Rightarrow> 'd ext2_fs \<Rightarrow> bool" where
  "refs_below n fs \<longleftrightarrow> (\<forall>b. refs fs b < n)"

context block_store
begin

text \<open>What an operation of the file system keeps: everything but the contents of blocks and the counts of free blocks and inodes.\<close>

definition keeps :: "region set \<Rightarrow> 'd ext2_fs \<Rightarrow> 'a heap_scheme \<Rightarrow> 'd ext2_fs \<Rightarrow> 'a heap_scheme \<Rightarrow> bool" where
  "keeps F fs s fs' s' \<longleftrightarrow> cache_inv good sector F fs' s' \<and> heap_step F s s' \<and> same_geo fs fs'
     \<and> refs fs' = refs fs \<and> (\<forall>p b. held_at p fs b \<and> refs fs b > 0 \<longrightarrow> held_at p fs' b)"

lemma quiet_keeps: "quiet F fs s fs' s' \<Longrightarrow> keeps F fs s fs' s' \<and> bview sector fs' = bview sector fs \<and> same_meta fs fs'"
  by (simp add: quiet_def keeps_def same_meta_geo)

lemma keeps_refl: "cache_inv good sector F fs s \<Longrightarrow> keeps F fs s fs s"
  by (simp add: keeps_def)

lemma keeps_trans: "keeps F fs s gs t \<Longrightarrow> keeps F gs t hs u \<Longrightarrow> keeps F fs s hs u"
  unfolding keeps_def by (metis heap_step_trans same_geo_trans)

lemma view_keepsD: "keeps F fs s fs' s' \<Longrightarrow> cache_inv good sector F fs' s'" "keeps F fs s fs' s' \<Longrightarrow> same_geo fs fs'"
  "keeps F fs s fs' s' \<Longrightarrow> refs fs' = refs fs" "keeps F fs s fs' s' \<Longrightarrow> refs_below n fs' = refs_below n fs"
  by (simp_all add: keeps_def refs_below_def)

text \<open>A block that is fetched, read and released.\<close>

lemma peek:
  assumes inv: "cache_inv good sector F fs s" and b: "valid_blk fs b" "refs fs b < 2 ^ 32 - 1"
  shows "\<exists>p fs' s'. ext2_get_block b fs s = Some (p, fs', s') \<and> (p = 0 \<longrightarrow> quiet F fs s fs' s')
    \<and> (p \<noteq> 0 \<longrightarrow> block_at p fs' = Some (bview sector fs b) \<and> same_meta fs fs' \<and> quiet F fs s (ext2_put_block p False fs') s')"
proof -
  obtain p fs' s' where g: "ext2_get_block b fs s = Some (p, fs', s')" "if p = 0 then quiet F fs s fs' s' else taken F p b fs s fs' s'"
    using get_block [OF inv b] by blast
  have "block_at p fs' = Some (bview sector fs b) \<and> same_meta fs fs' \<and> quiet F fs s (ext2_put_block p False fs') s'" if "p \<noteq> 0"
  proof -
    have t: "cache_inv good sector F fs' s'" "heap_step F s s'" "same_meta fs fs'" "bview sector fs' = bview sector fs"
      "refs fs' = (refs fs)(b := refs fs b + 1)" "held_at p fs' b" "\<And>q c. held_at q fs c \<and> refs fs c > 0 \<Longrightarrow> held_at q fs' c"
      using g(2) that by (auto simp: taken_def)
    have r: "refs fs' b > 0" using t(5) by simp
    note P = put_clean [OF t(1,6) r]
    have "refs (ext2_put_block p False fs') = refs fs" using P(4) t(5) by (simp add: fun_eq_iff)
    moreover have "same_meta fs (ext2_put_block p False fs')" by (rule same_meta_trans [OF t(3) P(2)])
    ultimately show ?thesis using t P block_at_view [OF t(1,6)] by (simp add: quiet_def)
  qed
  then show ?thesis using g by auto
qed

text \<open>A block that is fetched, changed and released.\<close>

definition edits :: "region set \<Rightarrow> u32 \<Rightarrow> u8 list \<Rightarrow> 'd ext2_fs \<Rightarrow> 'a heap_scheme \<Rightarrow> 'd ext2_fs \<Rightarrow> 'a heap_scheme \<Rightarrow> bool" where
  "edits F b xs fs s fs' s' \<longleftrightarrow> keeps F fs s fs' s' \<and> same_meta fs fs' \<and> bview sector fs' = (bview sector fs)(b := xs)"

lemma poke:
  assumes inv: "cache_inv good sector F fs s" and b: "valid_blk fs b" "refs fs b < 2 ^ 32 - 1"
  shows "\<exists>p fs' s'. ext2_get_block b fs s = Some (p, fs', s') \<and> (p = 0 \<longrightarrow> quiet F fs s fs' s')
    \<and> (p \<noteq> 0 \<longrightarrow> block_at p fs' = Some (bview sector fs b) \<and> same_meta fs fs' \<and> quiet F fs s (ext2_put_block p False fs') s'
         \<and> (\<forall>xs. length xs = unat (block_size fs) \<longrightarrow> edits F b xs fs s (ext2_put_block p True (block_put p xs fs')) s'))"
proof -
  obtain p fs' s' where g: "ext2_get_block b fs s = Some (p, fs', s')" "if p = 0 then quiet F fs s fs' s' else taken F p b fs s fs' s'"
    using get_block [OF inv b] by blast
  have k: "p = 0 \<longrightarrow> quiet F fs s fs' s'"
    "p \<noteq> 0 \<longrightarrow> block_at p fs' = Some (bview sector fs b) \<and> same_meta fs fs' \<and> quiet F fs s (ext2_put_block p False fs') s'"
    using peek [OF inv b] g(1) by auto
  have "edits F b xs fs s (ext2_put_block p True (block_put p xs fs')) s'" if p: "p \<noteq> 0" and l: "length xs = unat (block_size fs)" for xs
  proof -
    have t: "cache_inv good sector F fs' s'" "heap_step F s s'" "same_meta fs fs'" "bview sector fs' = bview sector fs"
      "refs fs' = (refs fs)(b := refs fs b + 1)" "held_at p fs' b" "\<And>q c. held_at q fs c \<and> refs fs c > 0 \<Longrightarrow> held_at q fs' c"
      using g(2) p by (auto simp: taken_def)
    have r: "refs fs' b > 0" using t(5) by simp
    have "length xs = unat (block_size fs')" using l same_metaD(1) [OF t(3)] by simp
    note P = put_dirty [OF t(1,6) r this, unfolded put_data_def]
    have "refs (ext2_put_block p True (block_put p xs fs')) = refs fs" using P(4) t(5) by (simp add: fun_eq_iff)
    moreover have m: "same_meta fs (ext2_put_block p True (block_put p xs fs'))" by (rule same_meta_trans [OF t(3) P(2)])
    ultimately show ?thesis using t P same_meta_geo [OF m] by (simp add: edits_def keeps_def)
  qed
  then show ?thesis using g(1) k by blast
qed

end

section \<open>Bitmaps\<close>

definition bit_of :: "u8 list \<Rightarrow> nat \<Rightarrow> bool" where
  "bit_of bm i \<longleftrightarrow> bit (bm ! (i div 8)) (i mod 8)"

lemma test_bit: "i < 8 * length bm \<Longrightarrow> ext2_test_bit bm i = Some (bit_of bm i)"
proof -
  assume "i < 8 * length bm"
  moreover have "b AND push_bit k 1 \<noteq> 0 \<longleftrightarrow> bit b k" for b :: u8 and k by (simp add: and_exp_eq_0_iff_not_bit push_bit_eq_mult)
  ultimately show ?thesis by (simp add: ext2_test_bit_def get8_def bit_of_def less_mult_imp_div_less mult.commute)
qed

lemma eq_div_mod: "i div 8 = j div 8 \<Longrightarrow> i mod 8 = j mod 8 \<longleftrightarrow> i = j" for i j :: nat
  by (metis div_mod_decomp)

lemma set_bit:
  assumes "i < 8 * length bm"
  shows "\<exists>bm'. ext2_set_bit i bm = Some bm' \<and> length bm' = length bm \<and> (\<forall>j < 8 * length bm. bit_of bm' j \<longleftrightarrow> bit_of bm j \<or> j = i)"
proof -
  let ?bm = "bm[i div 8 := bm ! (i div 8) OR push_bit (i mod 8) 1]"
  have d: "i div 8 < length bm" using assms by (simp add: less_mult_imp_div_less mult.commute)
  have "bit_of ?bm j \<longleftrightarrow> bit_of bm j \<or> j = i" if "j < 8 * length bm" for j
    using d eq_div_mod [of i j] by (cases "j div 8 = i div 8") (auto simp: bit_of_def nth_list_update bit_simps)
  then show ?thesis using d by (simp add: ext2_set_bit_def get8_def)
qed

lemma clear_bit:
  assumes "i < 8 * length bm"
  shows "\<exists>bm'. ext2_clear_bit i bm = Some bm' \<and> length bm' = length bm \<and> (\<forall>j < 8 * length bm. bit_of bm' j \<longleftrightarrow> bit_of bm j \<and> j \<noteq> i)"
proof -
  let ?bm = "bm[i div 8 := bm ! (i div 8) AND NOT (push_bit (i mod 8) 1)]"
  have d: "i div 8 < length bm" using assms by (simp add: less_mult_imp_div_less mult.commute)
  have "bit_of ?bm j \<longleftrightarrow> bit_of bm j \<and> j \<noteq> i" if "j < 8 * length bm" for j
    using d eq_div_mod [of i j] by (cases "j div 8 = i div 8") (auto simp: bit_of_def nth_list_update bit_simps)
  then show ?thesis using d by (simp add: ext2_clear_bit_def get8_def)
qed

lemma first_clear:
  assumes "i + k \<le> 8 * length bm"
  shows "\<exists>r. first_clear bm i k = Some r
    \<and> (case r of None \<Rightarrow> \<forall>j. i \<le> j \<and> j < i + k \<longrightarrow> bit_of bm j
       | Some j \<Rightarrow> i \<le> j \<and> j < i + k \<and> \<not> bit_of bm j \<and> (\<forall>l. i \<le> l \<and> l < j \<longrightarrow> bit_of bm l))"
  using assms
proof (induction k arbitrary: i)
  case (Suc k)
  have t: "ext2_test_bit bm i = Some (bit_of bm i)" using Suc.prems by (intro test_bit) simp
  show ?case
  proof (cases "bit_of bm i")
    case False then show ?thesis using t by auto
  next
    case True
    obtain r where r: "first_clear bm (Suc i) k = Some r" "case r of None \<Rightarrow> \<forall>j. Suc i \<le> j \<and> j < Suc i + k \<longrightarrow> bit_of bm j
       | Some j \<Rightarrow> Suc i \<le> j \<and> j < Suc i + k \<and> \<not> bit_of bm j \<and> (\<forall>l. Suc i \<le> l \<and> l < j \<longrightarrow> bit_of bm l)"
      using Suc.IH [of "Suc i"] Suc.prems by auto
    have up: "(\<forall>l. i \<le> l \<and> l < j \<longrightarrow> bit_of bm l) \<longleftrightarrow> (\<forall>l. Suc i \<le> l \<and> l < j \<longrightarrow> bit_of bm l)" for j
      using True by (metis Suc_leD Suc_leI le_neq_implies_less)
    show ?thesis using r t True up by (auto split: option.splits)
  qed
qed auto

lemma first_clear_all:
  assumes "k \<le> 8 * length bm"
  obtains "first_clear bm 0 k = Some None" "\<And>j. j < k \<Longrightarrow> bit_of bm j"
    | i where "first_clear bm 0 k = Some (Some i)" "i < k" "\<not> bit_of bm i" "\<And>j. j < i \<Longrightarrow> bit_of bm j"
proof -
  obtain r where r: "first_clear bm 0 k = Some r" "case r of None \<Rightarrow> \<forall>j. 0 \<le> j \<and> j < 0 + k \<longrightarrow> bit_of bm j
      | Some j \<Rightarrow> 0 \<le> j \<and> j < 0 + k \<and> \<not> bit_of bm j \<and> (\<forall>l. 0 \<le> l \<and> l < j \<longrightarrow> bit_of bm l)"
    using first_clear [of 0 k bm] assms by auto
  then show thesis using that by (cases r) auto
qed

section \<open>Codecs\<close>

lemma take_append_exact: "length xs = n \<Longrightarrow> take n (xs @ ys) = xs" "length xs = n \<Longrightarrow> drop n (xs @ ys) = ys"
  by auto

lemma group_desc_length [simp]: "length (bg_reserved g) = 12 \<Longrightarrow> length (group_desc_bytes g) = 32"
  by (simp add: group_desc_bytes_def)

lemma dec_enc:
  "length xs = n \<Longrightarrow> dec16 (xs @ le_enc 2 v @ ys) n = v" "length xs = n \<Longrightarrow> dec32 (xs @ le_enc 4 w @ ys) n = w"
  by (simp_all add: dec16_def dec32_def le_val_enc)

lemma group_desc_roundtrip:
  assumes "length (bg_reserved g) = 12"
  shows "group_desc_of (group_desc_bytes g) = g"
  using assms by (cases g) (simp add: group_desc_of_def group_desc_bytes_def dec16_def dec32_def le_val_enc)

lemma blocks_length: "length (concat (map (le_enc 4) bs)) = 4 * length bs"
  by (induction bs) auto

lemma dec_blocks: "i < length bs \<Longrightarrow> take 4 (drop (4 * i) (concat (map (le_enc 4) bs) @ ys)) = le_enc 4 (bs ! i)" for bs :: "u32 list"
proof (induction bs arbitrary: i)
  case (Cons b bs)
  then show ?case by (cases i) auto
qed simp

definition inode_ok :: "ext2_inode \<Rightarrow> bool" where
  "inode_ok n \<longleftrightarrow> length (i_block n) = 15 \<and> length (i_osd2 n) = 12"

lemma inode_bytes_length: "inode_ok n \<Longrightarrow> length (inode_bytes n) = 128"
  by (simp add: inode_bytes_def inode_ok_def blocks_length)

lemma inode_of_ok: "length bs = 128 \<Longrightarrow> inode_ok (inode_of bs)"
  by (simp add: inode_ok_def inode_of_def)

lemma inode_blocks: "inode_ok n \<Longrightarrow> i_block (inode_of (inode_bytes n)) = i_block n"
proof -
  assume n: "inode_ok n"
  let ?pre = "le_enc 2 (i_mode n) @ le_enc 2 (i_uid n) @ le_enc 4 (i_size n) @ le_enc 4 (i_atime n) @ le_enc 4 (i_ctime n)
     @ le_enc 4 (i_mtime n) @ le_enc 4 (i_dtime n) @ le_enc 2 (i_gid n) @ le_enc 2 (i_links_count n) @ le_enc 4 (i_blocks n)
     @ le_enc 4 (i_flags n) @ le_enc 4 (i_osd1 n)"
  let ?suf = "le_enc 4 (i_generation n) @ le_enc 4 (i_file_acl n) @ le_enc 4 (i_dir_acl n) @ le_enc 4 (i_faddr n) @ i_osd2 n"
  have s: "inode_bytes n = ?pre @ concat (map (le_enc 4) (i_block n)) @ ?suf" by (simp add: inode_bytes_def)
  have "dec32 (inode_bytes n) (40 + 4 * i) = i_block n ! i" if "i < 15" for i
  proof -
    have "drop (40 + 4 * i) (inode_bytes n) = drop (4 * i) (drop 40 (inode_bytes n))" by (simp add: add.commute)
    also have "drop 40 (inode_bytes n) = concat (map (le_enc 4) (i_block n)) @ ?suf" unfolding s by (rule take_append_exact) simp
    finally have "take 4 (drop (40 + 4 * i) (inode_bytes n)) = le_enc 4 (i_block n ! i)"
      by (simp only:) (rule dec_blocks, use that n in \<open>simp add: inode_ok_def\<close>)
    then show ?thesis by (simp only: dec32_def) (simp add: le_val_enc)
  qed
  then have "map (\<lambda>i. dec32 (inode_bytes n) (40 + 4 * i)) [0..<15] = map (\<lambda>i. i_block n ! i) [0..<15]" by (intro map_cong) auto
  also have "\<dots> = i_block n" using n map_nth [of "i_block n"] by (simp add: inode_ok_def)
  finally show ?thesis by (simp only: inode_of_def ext2_inode.simps)
qed

lemma inode_roundtrip:
  assumes "inode_ok n"
  shows "inode_of (inode_bytes n) = n"
proof -
  have "length (concat (map (le_enc 4) (i_block n))) = 60" using assms by (simp add: blocks_length inode_ok_def)
  then have "inode_of (inode_bytes n) = n\<lparr>i_block := i_block (inode_of (inode_bytes n))\<rparr>"
    using assms by (cases n) (simp add: inode_of_def inode_bytes_def dec16_def dec32_def le_val_enc inode_ok_def)
  then show ?thesis by (simp add: inode_blocks [OF assms])
qed

section \<open>Allocation\<close>

definition gdt_block :: "'d ext2_fs \<Rightarrow> u32" where
  "gdt_block fs = first_data_block fs + 1"

text \<open>The blocks the allocators write: the group descriptors and the bitmaps.\<close>

definition meta_blocks :: "'d ext2_fs \<Rightarrow> u32 list" where
  "meta_blocks fs = gdt_block fs # map bg_block_bitmap (group_desc fs) @ map bg_inode_bitmap (group_desc fs)"

text \<open>Number \<open>i\<close> in block group \<open>g\<close>, and whether its bit is set.\<close>

definition group_block :: "'d ext2_fs \<Rightarrow> nat \<Rightarrow> nat \<Rightarrow> u32" where
  "group_block fs g i = of_nat g * s_blocks_per_group (superblock fs) + first_data_block fs + of_nat i"

definition bit_set :: "('d block_device \<Rightarrow> nat \<Rightarrow> u8 list) \<Rightarrow> 'd ext2_fs \<Rightarrow> nat \<Rightarrow> nat \<Rightarrow> bool" where
  "bit_set sec fs g i \<longleftrightarrow> bit_of (bview sec fs (bg_block_bitmap (group_desc fs ! g))) i"

text \<open>
  The metadata of the allocator: the group descriptors fit one block, the bitmaps cover their groups,
  the blocks that hold them are distinct, and block numbers do not wrap around.
\<close>

definition groups_ok :: "'d ext2_fs \<Rightarrow> bool" where
  "groups_ok fs \<longleftrightarrow> length (group_desc fs) = unat (num_groups fs) \<and> 32 * unat (num_groups fs) \<le> unat (block_size fs)
     \<and> (\<forall>d \<in> set (group_desc fs). length (bg_reserved d) = 12)
     \<and> s_blocks_per_group (superblock fs) \<noteq> 0
     \<and> unat (first_data_block fs) + unat (num_groups fs) * unat (s_blocks_per_group (superblock fs)) < 2 ^ 32
     \<and> unat (s_blocks_count (superblock fs)) \<le> unat (num_groups fs) * unat (s_blocks_per_group (superblock fs))
     \<and> (\<forall>g < unat (num_groups fs). unat (blocks_in_group g fs) \<le> unat (s_blocks_per_group (superblock fs)))
     \<and> unat (s_blocks_per_group (superblock fs)) \<le> 8 * unat (block_size fs)
     \<and> s_inodes_per_group (superblock fs) \<noteq> 0 \<and> unat (s_inodes_per_group (superblock fs)) \<le> 8 * unat (block_size fs)
     \<and> distinct (meta_blocks fs) \<and> (\<forall>b \<in> set (meta_blocks fs). valid_blk fs b)"

definition group_full :: "('d block_device \<Rightarrow> nat \<Rightarrow> u8 list) \<Rightarrow> 'd ext2_fs \<Rightarrow> nat \<Rightarrow> bool" where
  "group_full sec fs g \<longleftrightarrow> bg_free_blocks_count (group_desc fs ! g) = 0 \<or> (\<forall>i < unat (blocks_in_group g fs). bit_set sec fs g i)"

lemma same_geo_meta:
  assumes "same_geo fs fs'"
  shows "gdt_block fs' = gdt_block fs" "meta_blocks fs' = meta_blocks fs" "group_block fs' = group_block fs"
    "blocks_in_group g fs' = blocks_in_group g fs"
  using assms by (simp_all add: gdt_block_def meta_blocks_def group_block_def blocks_in_group_def same_geo_def fun_eq_iff)

lemma reserved_cong: "map bg_reserved ds = map bg_reserved es \<Longrightarrow> (\<forall>d \<in> set ds. length (bg_reserved d) = 12) \<longleftrightarrow> (\<forall>d \<in> set es. length (bg_reserved d) = 12)"
proof (induction ds arbitrary: es)
  case (Cons d ds) then show ?case by (cases es) auto
qed simp

lemma groups_ok_geo: "same_geo fs fs' \<Longrightarrow> groups_ok fs' \<longleftrightarrow> groups_ok fs"
proof -
  assume g: "same_geo fs fs'"
  then have "(\<forall>d \<in> set (group_desc fs'). length (bg_reserved d) = 12) \<longleftrightarrow> (\<forall>d \<in> set (group_desc fs). length (bg_reserved d) = 12)"
    by (intro reserved_cong) (simp add: same_geo_def)
  then show ?thesis by (simp add: groups_ok_def same_geoD [OF g] same_geo_meta [OF g])
qed

lemma meta_in:
  assumes "groups_ok fs" "g < unat (num_groups fs)"
  shows "g < length (group_desc fs)" "valid_blk fs (bg_block_bitmap (group_desc fs ! g))" "valid_blk fs (bg_inode_bitmap (group_desc fs ! g))"
    "bg_block_bitmap (group_desc fs ! g) \<noteq> gdt_block fs" "bg_inode_bitmap (group_desc fs ! g) \<noteq> gdt_block fs"
    "length (bg_reserved (group_desc fs ! g)) = 12" "valid_blk fs (gdt_block fs)" "32 * g + 32 \<le> unat (block_size fs)"
proof -
  have l: "length (group_desc fs) = unat (num_groups fs)" using assms(1) by (simp add: groups_ok_def)
  then show i: "g < length (group_desc fs)" using assms(2) by simp
  then have m: "group_desc fs ! g \<in> set (group_desc fs)" by simp
  show "valid_blk fs (bg_block_bitmap (group_desc fs ! g))" "valid_blk fs (bg_inode_bitmap (group_desc fs ! g))"
    "bg_block_bitmap (group_desc fs ! g) \<noteq> gdt_block fs" "bg_inode_bitmap (group_desc fs ! g) \<noteq> gdt_block fs"
    "length (bg_reserved (group_desc fs ! g)) = 12" "valid_blk fs (gdt_block fs)"
    using assms(1) m unfolding groups_ok_def meta_blocks_def by (simp_all, (metis image_eqI)+)
  have "32 * unat (num_groups fs) \<le> unat (block_size fs)" using assms(1) by (simp add: groups_ok_def)
  then show "32 * g + 32 \<le> unat (block_size fs)" using assms(2) by linarith
qed

lemma bitmap_inj:
  assumes "groups_ok fs" "g < unat (num_groups fs)" "h < unat (num_groups fs)"
  shows "bg_block_bitmap (group_desc fs ! g) = bg_block_bitmap (group_desc fs ! h) \<longleftrightarrow> g = h"
    "bg_inode_bitmap (group_desc fs ! g) = bg_inode_bitmap (group_desc fs ! h) \<longleftrightarrow> g = h"
    "bg_block_bitmap (group_desc fs ! g) \<noteq> bg_inode_bitmap (group_desc fs ! h)"
proof -
  have d: "distinct (map bg_block_bitmap (group_desc fs))" "distinct (map bg_inode_bitmap (group_desc fs))"
    "set (map bg_block_bitmap (group_desc fs)) \<inter> set (map bg_inode_bitmap (group_desc fs)) = {}"
    using assms(1) by (auto simp: groups_ok_def meta_blocks_def)
  have i: "g < length (group_desc fs)" "h < length (group_desc fs)" using meta_in(1) [OF assms(1)] assms(2,3) by auto
  show "bg_block_bitmap (group_desc fs ! g) = bg_block_bitmap (group_desc fs ! h) \<longleftrightarrow> g = h"
    "bg_inode_bitmap (group_desc fs ! g) = bg_inode_bitmap (group_desc fs ! h) \<longleftrightarrow> g = h"
    using nth_eq_iff_index_eq [OF d(1), of g h] nth_eq_iff_index_eq [OF d(2), of g h] i by auto
  show "bg_block_bitmap (group_desc fs ! g) \<noteq> bg_inode_bitmap (group_desc fs ! h)" using d(3) i by (metis disjoint_iff length_map nth_map nth_mem)
qed

context block_store
begin

lemma view_length: "cache_inv good sector F fs s \<Longrightarrow> length (bview sector fs b) = unat (block_size fs)"
proof -
  assume inv: "cache_inv good sector F fs s"
  then have ok: "good (fs_device fs)" "geo_ok fs" "entries_ok sector fs" by (auto simp: cache_inv_def)
  show ?thesis
  proof (cases "ext2_cache_find b fs")
    case None then show ?thesis using dblock_length [OF ok(1,2)] by (simp add: bview_def)
  next
    case (Some e)
    then have "e \<in> set (cache fs)" using cache_find_iff [of fs b e] ok(3) by (auto simp: entries_ok_def)
    then show ?thesis using Some entries_okD(2) [OF ok(3)] by (simp add: bview_def)
  qed
qed

text \<open>A write of some bytes of a block.\<close>

lemma poke_bytes:
  assumes inv: "cache_inv good sector F fs s" and b: "valid_blk fs b" "refs fs b < 2 ^ 32 - 1" and n: "off + length bs \<le> unat (block_size fs)"
  shows "\<exists>p fs' s'. ext2_get_block b fs s = Some (p, fs', s') \<and> (p = 0 \<longrightarrow> quiet F fs s fs' s') \<and> same_meta fs fs'
    \<and> (p \<noteq> 0 \<longrightarrow> (\<exists>gs. block_copy p off bs fs' = Some gs \<and> same_meta fs gs
         \<and> edits F b (overlay off bs (bview sector fs b)) fs s (ext2_put_block p True gs) s'))"
proof -
  obtain p fs' s' where g: "ext2_get_block b fs s = Some (p, fs', s')" "p = 0 \<longrightarrow> quiet F fs s fs' s'"
    "p \<noteq> 0 \<longrightarrow> block_at p fs' = Some (bview sector fs b) \<and> same_meta fs fs' \<and> quiet F fs s (ext2_put_block p False fs') s'
       \<and> (\<forall>xs. length xs = unat (block_size fs) \<longrightarrow> edits F b xs fs s (ext2_put_block p True (block_put p xs fs')) s')"
    using poke [OF inv b] by blast
  let ?xs = "overlay off bs (bview sector fs b)"
  have l: "length (bview sector fs b) = unat (block_size fs)" by (rule view_length [OF inv])
  have "block_copy p off bs fs' = Some (block_put p ?xs fs')" if "p \<noteq> 0"
    using g(3) that n l by (simp add: block_copy_def disk_put_def)
  moreover have "same_meta fs (block_put p ?xs fs')" if "p \<noteq> 0" using g(3) that by (auto simp: block_put_def same_meta_def)
  moreover have "length ?xs = unat (block_size fs)" using l n by (simp add: overlay_length)
  moreover have "same_meta fs fs'" using g(2,3) by (cases "p = 0") (auto simp: quiet_def)
  ultimately show ?thesis using g by auto
qed

lemma write_group:
  assumes inv: "cache_inv good sector F fs s" and ok: "groups_ok fs" "g < unat (num_groups fs)" and r: "refs fs (gdt_block fs) < 2 ^ 32 - 1"
  shows "\<exists>fs' s' X. write_group g fs s = Some (fs', s') \<and> edits F (gdt_block fs) X fs s fs' s' \<and> length X = unat (block_size fs)
    \<and> (X = bview sector fs (gdt_block fs) \<or> X = overlay (g * 32) (group_desc_bytes (group_desc fs ! g)) (bview sector fs (gdt_block fs)))"
proof -
  note M = meta_in [OF ok]
  have n: "g * 32 + length (group_desc_bytes (group_desc fs ! g)) \<le> unat (block_size fs)" using M(6,8) by simp
  note v = view_length [OF inv]
  obtain p fs' s' where h: "ext2_get_block (gdt_block fs) fs s = Some (p, fs', s')" "p = 0 \<longrightarrow> quiet F fs s fs' s'" "same_meta fs fs'"
    "p \<noteq> 0 \<longrightarrow> (\<exists>gs. block_copy p (g * 32) (group_desc_bytes (group_desc fs ! g)) fs' = Some gs \<and> same_meta fs gs
         \<and> edits F (gdt_block fs) (overlay (g * 32) (group_desc_bytes (group_desc fs ! g)) (bview sector fs (gdt_block fs))) fs s (ext2_put_block p True gs) s')"
    using poke_bytes [OF inv M(7) r n] by blast
  show ?thesis
  proof (cases "p = 0")
    case True
    then have "edits F (gdt_block fs) (bview sector fs (gdt_block fs)) fs s fs' s'" using h(2) quiet_keeps [of F fs s fs' s'] by (simp add: edits_def)
    then show ?thesis using True h(1) v [of "gdt_block fs"] by (auto simp: write_group_def gdt_block_def)
  next
    case False
    then obtain gs where "block_copy p (g * 32) (group_desc_bytes (group_desc fs ! g)) fs' = Some gs"
      "edits F (gdt_block fs) (overlay (g * 32) (group_desc_bytes (group_desc fs ! g)) (bview sector fs (gdt_block fs))) fs s (ext2_put_block p True gs) s'"
      using h(4) by blast
    moreover have "group_desc fs' = group_desc fs" by (rule same_metaD(4) [OF h(3)])
    ultimately show ?thesis using False h(1) n v [of "gdt_block fs"] by (auto simp: write_group_def gdt_block_def overlay_length)
  qed
qed

lemma keeps_counts:
  assumes "cache_inv good sector F fs s" "g < length (group_desc fs)"
  shows "keeps F fs s (count_blocks_by f h g fs) s" "bview sector (count_blocks_by f h g fs) = bview sector fs"
    "keeps F fs s (count_inodes_by f h k g fs) s" "bview sector (count_inodes_by f h k g fs) = bview sector fs"
proof -
  have upd: "map q ((group_desc fs)[g := d]) = map q (group_desc fs)" if "q d = q (group_desc fs ! g)" for q :: "ext2_group_desc \<Rightarrow> 'z" and d
    using assms(2) that by (metis list_update_id map_update nth_map length_map)
  have geo: "same_geo fs (count_blocks_by f h g fs)" "same_geo fs (count_inodes_by f h k g fs)"
    using upd [of bg_block_bitmap] upd [of bg_inode_bitmap] upd [of bg_inode_table] upd [of bg_reserved]
    by (simp_all add: same_geo_def count_blocks_by_def count_inodes_by_def upd_group_def)
  have u: "dblock sector (fs\<lparr>group_desc := x, superblock := y\<rparr>) = dblock sector fs" "valid_blk (fs\<lparr>group_desc := x, superblock := y\<rparr>) = valid_blk fs"
    "geo_ok (fs\<lparr>group_desc := x, superblock := y\<rparr>) = geo_ok fs" "ext2_cache_find b (fs\<lparr>group_desc := x, superblock := y\<rparr>) = ext2_cache_find b fs" for x y b
    by (simp_all add: dblock_def valid_blk_def geo_ok_def spb_def ext2_cache_find_def fun_eq_iff)
  have v: "bview sector (fs\<lparr>group_desc := x, superblock := y\<rparr>) = bview sector fs" "refs (fs\<lparr>group_desc := x, superblock := y\<rparr>) = refs fs"
    "held_at p (fs\<lparr>group_desc := x, superblock := y\<rparr>) b = held_at p fs b"
    "cache_inv good sector F (fs\<lparr>group_desc := x, superblock := y\<rparr>) s = cache_inv good sector F fs s" for x y p b
    unfolding bview_def refs_def held_at_def cache_inv_def entries_ok_def u by simp_all
  show "keeps F fs s (count_blocks_by f h g fs) s" "keeps F fs s (count_inodes_by f h k g fs) s"
    using geo assms(1) unfolding keeps_def by (simp_all add: count_blocks_by_def count_inodes_by_def upd_group_def v)
  show "bview sector (count_blocks_by f h g fs) = bview sector fs" "bview sector (count_inodes_by f h k g fs) = bview sector fs"
    by (simp_all add: count_blocks_by_def count_inodes_by_def upd_group_def v)
qed

end

end
