(* ===== verification/Ext2AllocProps.thy ===== *)
theory Ext2AllocProps
  imports Ext2View
begin

text \<open>
  The allocator of blocks and the inode table on the view of the blocks.
\<close>

context block_store
begin

text \<open>
  The tail that the allocators share: a bit of the bitmap in block \<open>b\<close> is changed, the counts of
  group \<open>g\<close> are adjusted by \<open>c\<close> and the descriptor of the group is written.
\<close>

lemma mark_and_count:
  assumes inv: "cache_inv good sector F fs s" and ok: "groups_ok fs" "g < unat (num_groups fs)" and r: "refs_below (2 ^ 32 - 1) fs"
    and p: "block_at p fs1 = Some (bview sector fs b)" "same_meta fs fs1"
      "\<forall>xs. length xs = unat (block_size fs) \<longrightarrow> edits F b xs fs s (ext2_put_block p True (block_put p xs fs1)) s1"
    and f: "f i (bview sector fs b) = Some bm" "length bm = unat (block_size fs)"
    and c: "\<And>hs. cache_inv good sector F hs s1 \<Longrightarrow> g < length (group_desc hs) \<Longrightarrow> keeps F hs s1 (c hs) s1 \<and> bview sector (c hs) = bview sector hs"
  shows "\<exists>gs fs' s' X. mark_bit f i p fs1 = Some gs \<and> write_group g (c gs) s1 = Some (fs', s') \<and> keeps F fs s fs' s'
    \<and> same_meta fs gs \<and> same_meta (c gs) fs' \<and> length X = unat (block_size fs) \<and> bview sector fs' = (bview sector fs)(b := bm, gdt_block fs := X)"
proof -
  define gs where "gs = ext2_put_block p True (block_put p bm fs1)"
  have m: "mark_bit f i p fs1 = Some gs" using p(1) f(1) by (simp add: mark_bit_def gs_def)
  have e: "keeps F fs s gs s1" "same_meta fs gs" "bview sector gs = (bview sector fs)(b := bm)"
    using p(3) f(2) by (auto simp: edits_def gs_def)
  have l: "g < length (group_desc gs)" using meta_in(1) [OF ok] same_metaD(4) [OF e(2)] by simp
  note C = c [OF view_keepsD(1) [OF e(1)] l]
  have k: "keeps F fs s (c gs) s1" by (rule keeps_trans [OF e(1)]) (use C in simp)
  have geo: "same_geo fs (c gs)" by (rule view_keepsD(2) [OF k])
  have q: "groups_ok (c gs)" "g < unat (num_groups (c gs))" "refs (c gs) (gdt_block (c gs)) < 2 ^ 32 - 1"
    using ok r groups_ok_geo [OF geo] same_geoD(3) [OF geo] view_keepsD(3) [OF k] by (auto simp: refs_below_def)
  obtain fs' s' X where w: "write_group g (c gs) s1 = Some (fs', s')" "edits F (gdt_block (c gs)) X (c gs) s1 fs' s'" "length X = unat (block_size (c gs))"
    using write_group [OF view_keepsD(1) [OF k] q] by blast
  have "keeps F fs s fs' s'" by (rule keeps_trans [OF k]) (use w(2) in \<open>simp add: edits_def\<close>)
  moreover have "bview sector fs' = (bview sector fs)(b := bm, gdt_block fs := X)"
    using w(2) C e(3) same_geo_meta(1) [OF geo] by (simp add: edits_def)
  ultimately show ?thesis using m w e(2) same_geoD(1) [OF geo] by (auto simp: edits_def)
qed

text \<open>The change of view and counts by an allocation.\<close>

definition takes_block :: "region set \<Rightarrow> nat \<Rightarrow> nat \<Rightarrow> 'd ext2_fs \<Rightarrow> 'a heap_scheme \<Rightarrow> 'd ext2_fs \<Rightarrow> 'a heap_scheme \<Rightarrow> bool" where
  "takes_block F g i fs s fs' s' \<longleftrightarrow> keeps F fs s fs' s' \<and> g < unat (num_groups fs) \<and> i < unat (blocks_in_group g fs) \<and> \<not> bit_set sector fs g i
     \<and> (\<forall>j < i. bit_set sector fs g j)
     \<and> superblock fs' = (superblock fs)\<lparr>s_free_blocks_count := s_free_blocks_count (superblock fs) - 1\<rparr>
     \<and> group_desc fs' = (group_desc fs)[g := (group_desc fs ! g)\<lparr>bg_free_blocks_count := bg_free_blocks_count (group_desc fs ! g) - 1\<rparr>]
     \<and> (\<exists>bm X. ext2_set_bit i (bview sector fs (bg_block_bitmap (group_desc fs ! g))) = Some bm \<and> length X = unat (block_size fs)
          \<and> bview sector fs' = (bview sector fs)(bg_block_bitmap (group_desc fs ! g) := bm, gdt_block fs := X))"

lemma bitmap_range: "cache_inv good sector F fs s \<Longrightarrow> groups_ok fs \<Longrightarrow> g < unat (num_groups fs) \<Longrightarrow>
    unat (blocks_in_group g fs) \<le> 8 * length (bview sector fs b) \<and> unat (s_inodes_per_group (superblock fs)) \<le> 8 * length (bview sector fs b)"
  unfolding view_length groups_ok_def by (metis order_trans)

lemma quiet_full: "same_meta fs fs' \<Longrightarrow> bview sector fs' = bview sector fs \<Longrightarrow> group_full sector fs' g = group_full sector fs g"
  "same_meta fs fs' \<Longrightarrow> bview sector fs' = bview sector fs \<Longrightarrow> bit_set sector fs' g i = bit_set sector fs g i"
  "same_meta fs fs' \<Longrightarrow> blocks_in_group g fs' = blocks_in_group g fs"
  by (simp_all add: group_full_def bit_set_def blocks_in_group_def same_metaD)

lemma alloc_found:
  assumes inv: "cache_inv good sector F fs s" and ok: "groups_ok fs" "g < unat (num_groups fs)" and r: "refs_below (2 ^ 32 - 1) fs"
    and p: "block_at p fs1 = Some (bview sector fs (bg_block_bitmap (group_desc fs ! g)))" "same_meta fs fs1"
      "\<forall>xs. length xs = unat (block_size fs) \<longrightarrow> edits F (bg_block_bitmap (group_desc fs ! g)) xs fs s (ext2_put_block p True (block_put p xs fs1)) s1"
    and i: "i < unat (blocks_in_group g fs)" "\<not> bit_set sector fs g i" "\<forall>j < i. bit_set sector fs g j"
  shows "\<exists>gs fs' s'. mark_bit ext2_set_bit i p fs1 = Some gs \<and> write_group g (count_blocks_by (\<lambda>c. c - 1) (\<lambda>c. c - 1) g gs) s1 = Some (fs', s')
    \<and> takes_block F g i fs s fs' s'"
proof -
  let ?b = "bg_block_bitmap (group_desc fs ! g)" and ?c = "count_blocks_by (\<lambda>c. c - 1) (\<lambda>c. c - 1) g"
  have "i < 8 * length (bview sector fs ?b)" using i(1) bitmap_range [OF inv ok, of ?b] by linarith
  then obtain bm where bm: "ext2_set_bit i (bview sector fs ?b) = Some bm" "length bm = unat (block_size fs)"
    using set_bit view_length [OF inv] by metis
  obtain gs fs' s' X where w: "mark_bit ext2_set_bit i p fs1 = Some gs" "write_group g (?c gs) s1 = Some (fs', s')" "keeps F fs s fs' s'"
    "same_meta fs gs" "same_meta (?c gs) fs'" "length X = unat (block_size fs)" "bview sector fs' = (bview sector fs)(?b := bm, gdt_block fs := X)"
    using mark_and_count [OF inv ok r p, of ext2_set_bit i bm ?c] bm keeps_counts by blast
  have "superblock fs' = superblock (?c gs)" "group_desc fs' = group_desc (?c gs)" "superblock gs = superblock fs" "group_desc gs = group_desc fs"
    using w(4,5) by (simp_all add: same_metaD)
  then show ?thesis using w i ok(2) bm(1) by (auto simp: takes_block_def count_blocks_by_def upd_group_def)
qed

text \<open>What the search from group \<open>g\<close> over \<open>k\<close> groups gives.\<close>

definition alloc_res :: "region set \<Rightarrow> nat \<Rightarrow> nat \<Rightarrow> 'd ext2_fs \<Rightarrow> 'a heap_scheme \<Rightarrow> u32 res \<Rightarrow> 'd ext2_fs \<Rightarrow> 'a heap_scheme \<Rightarrow> bool" where
  "alloc_res F g k fs s r fs' s' \<longleftrightarrow>
     (case r of Inl e \<Rightarrow> quiet F fs s fs' s' \<and> (e = EXT2_ERROR_IO \<or> e = EXT2_ERROR_NO_SPACE \<and> (\<forall>h. g \<le> h \<and> h < g + k \<longrightarrow> group_full sector fs h))
      | Inr b \<Rightarrow> \<exists>h i. b = group_block fs h i \<and> takes_block F h i fs s fs' s' \<and> (\<forall>j. g \<le> j \<and> j < h \<longrightarrow> group_full sector fs j))"

lemma alloc_res_next:
  assumes Q: "quiet F fs s gs t" and full: "group_full sector fs g" and R: "alloc_res F (Suc g) k gs t r fs' s'"
  shows "alloc_res F g (Suc k) fs s r fs' s'"
proof -
  have q: "same_meta fs gs" "bview sector gs = bview sector fs" "keeps F fs s gs t" using Q quiet_keeps [OF Q] by auto
  have up: "(\<forall>h. Suc g \<le> h \<and> h < n \<longrightarrow> group_full sector fs h) \<Longrightarrow> (\<forall>h. g \<le> h \<and> h < n \<longrightarrow> group_full sector fs h)" for n
    using full by (metis Suc_leI le_neq_implies_less)
  have gb: "group_block gs = group_block fs" "gdt_block gs = gdt_block fs" by (rule same_geo_meta [OF view_keepsD(2) [OF q(3)]])+
  have tk: "takes_block F h i fs s fs' s'" if "takes_block F h i gs t fs' s'" for h i
    using that keeps_trans [OF q(3), of fs' s'] quiet_full(2) [OF q(1,2)] quiet_full(3) [OF q(1)] q(2) same_metaD [OF q(1)] gb(2)
    by (simp add: takes_block_def)
  show ?thesis
  proof (cases r)
    case (Inl e)
    then have "quiet F gs t fs' s'" "e = EXT2_ERROR_IO \<or> e = EXT2_ERROR_NO_SPACE \<and> (\<forall>h. Suc g \<le> h \<and> h < Suc g + k \<longrightarrow> group_full sector fs h)"
      using R by (simp_all add: alloc_res_def quiet_full(1) [OF q(1,2)])
    then show ?thesis unfolding Inl alloc_res_def sum.case using quiet_trans [OF Q] up [of "Suc g + k"] by (metis add_Suc_shift)
  next
    case (Inr b)
    then obtain h i where "b = group_block fs h i" "takes_block F h i gs t fs' s'" "\<forall>j. Suc g \<le> j \<and> j < h \<longrightarrow> group_full sector fs j"
      using R by (auto simp: alloc_res_def quiet_full(1) [OF q(1,2)] gb)
    then show ?thesis unfolding Inr alloc_res_def sum.case using tk up by blast
  qed
qed

lemma alloc_block_from:
  assumes "cache_inv good sector F fs s" "groups_ok fs" "refs_below (2 ^ 32 - 1) fs" "g + k = unat (num_groups fs)"
  shows "\<exists>r fs' s'. alloc_block_from g k fs s = Some (r, fs', s') \<and> alloc_res F g k fs s r fs' s'"
  using assms
proof (induction k arbitrary: g fs s)
  case 0 then show ?case using quiet_refl by (auto simp: alloc_res_def)
next
  case (Suc k)
  have g: "g < unat (num_groups fs)" using Suc.prems(4) by simp
  note M = meta_in [OF Suc.prems(2) g]
  let ?b = "bg_block_bitmap (group_desc fs ! g)"
  have at: "group_at g fs = Some (group_desc fs ! g)" using M(1) by (simp add: group_at_def)
  have nxt: "\<exists>r fs' s'. alloc_block_from (Suc g) k gs t = Some (r, fs', s') \<and> alloc_res F g (Suc k) fs s r fs' s'"
    if Q: "quiet F fs s gs t" and full: "group_full sector fs g" for gs t
  proof -
    note K = quiet_keeps [OF Q, THEN conjunct1]
    have "groups_ok gs" "refs_below (2 ^ 32 - 1) gs" "Suc g + k = unat (num_groups gs)"
      using Suc.prems groups_ok_geo [OF view_keepsD(2) [OF K]] view_keepsD(4) [OF K] same_geoD(3) [OF view_keepsD(2) [OF K]] by auto
    from Suc.IH [OF view_keepsD(1) [OF K] this] show ?thesis using alloc_res_next [OF Q full] by blast
  qed
  show ?case
  proof (cases "bg_free_blocks_count (group_desc fs ! g) = 0")
    case True
    then have "group_full sector fs g" by (simp add: group_full_def)
    from nxt [OF quiet_refl [OF Suc.prems(1)] this] show ?thesis using True at by simp
  next
    case False
    have rb: "refs fs ?b < 2 ^ 32 - 1" using Suc.prems(3) by (simp add: refs_below_def)
    obtain p fs1 s1 where h: "ext2_get_block ?b fs s = Some (p, fs1, s1)" "p = 0 \<longrightarrow> quiet F fs s fs1 s1"
      "p \<noteq> 0 \<longrightarrow> block_at p fs1 = Some (bview sector fs ?b) \<and> same_meta fs fs1 \<and> quiet F fs s (ext2_put_block p False fs1) s1
         \<and> (\<forall>xs. length xs = unat (block_size fs) \<longrightarrow> edits F ?b xs fs s (ext2_put_block p True (block_put p xs fs1)) s1)"
      using poke [OF Suc.prems(1) M(2) rb] by blast
    show ?thesis
    proof (cases "p = 0")
      case True then show ?thesis using at False h(1,2) by (simp add: alloc_res_def)
    next
      case p: False
      note H = h(3) [rule_format, OF p]
      have bg: "blocks_in_group g fs1 = blocks_in_group g fs" by (rule same_geo_meta(4) [OF same_meta_geo]) (use H in blast)
      have le: "unat (blocks_in_group g fs) \<le> 8 * length (bview sector fs ?b)" using bitmap_range [OF Suc.prems(1,2) g] by simp
      show ?thesis
      proof (rule first_clear_all [OF le])
        assume q: "first_clear (bview sector fs ?b) 0 (unat (blocks_in_group g fs)) = Some None"
          "\<And>j. j < unat (blocks_in_group g fs) \<Longrightarrow> bit_of (bview sector fs ?b) j"
        then have "group_full sector fs g" by (simp add: group_full_def bit_set_def)
        from nxt [OF _ this, of "ext2_put_block p False fs1" s1] show ?thesis using at False h(1) p H q(1) bg by simp
      next
        fix i assume q: "first_clear (bview sector fs ?b) 0 (unat (blocks_in_group g fs)) = Some (Some i)" "i < unat (blocks_in_group g fs)"
          "\<not> bit_of (bview sector fs ?b) i" "\<And>j. j < i \<Longrightarrow> bit_of (bview sector fs ?b) j"
        then have i: "i < unat (blocks_in_group g fs)" "\<not> bit_set sector fs g i" "\<forall>j < i. bit_set sector fs g j" by (auto simp: bit_set_def)
        obtain gs fs' s' where w: "mark_bit ext2_set_bit i p fs1 = Some gs" "write_group g (count_blocks_by (\<lambda>c. c - 1) (\<lambda>c. c - 1) g gs) s1 = Some (fs', s')"
          "takes_block F g i fs s fs' s'"
          using alloc_found [OF Suc.prems(1,2) g Suc.prems(3) _ _ _ i] H by blast
        have gb: "group_block fs' = group_block fs" by (rule same_geo_meta(3) [OF view_keepsD(2)]) (use w(3) in \<open>auto simp: takes_block_def\<close>)
        have "alloc_block_from g (Suc k) fs s = Some (Inr (group_block fs' g i), fs', s')"
          using at False h(1) p H q(1) bg w(1,2) by (simp add: group_block_def)
        moreover have "alloc_res F g (Suc k) fs s (Inr (group_block fs' g i)) fs' s'"
          unfolding alloc_res_def sum.case gb by (rule exI [of _ g], rule exI [of _ i]) (use w(3) in auto)
        ultimately show ?thesis by blast
      qed
    qed
  qed
qed

end

text \<open>The bit of a block, by its number.\<close>

definition group_of_block :: "'d ext2_fs \<Rightarrow> u32 \<Rightarrow> nat" where
  "group_of_block fs b = unat ((b - first_data_block fs) div s_blocks_per_group (superblock fs))"

definition index_of_block :: "'d ext2_fs \<Rightarrow> u32 \<Rightarrow> nat" where
  "index_of_block fs b = unat ((b - first_data_block fs) mod s_blocks_per_group (superblock fs))"

definition block_used :: "('d block_device \<Rightarrow> nat \<Rightarrow> u8 list) \<Rightarrow> 'd ext2_fs \<Rightarrow> u32 \<Rightarrow> bool" where
  "block_used sec fs b \<longleftrightarrow> bit_set sec fs (group_of_block fs b) (index_of_block fs b)"

definition in_groups :: "'d ext2_fs \<Rightarrow> u32 \<Rightarrow> bool" where
  "in_groups fs b \<longleftrightarrow> first_data_block fs \<le> b \<and> group_of_block fs b < unat (num_groups fs)"

lemma group_block_pos:
  assumes ok: "groups_ok fs" and g: "g < unat (num_groups fs)" and i: "i < unat (s_blocks_per_group (superblock fs))"
  shows "group_of_block fs (group_block fs g i) = g" "index_of_block fs (group_block fs g i) = i" "in_groups fs (group_block fs g i)"
    "unat (group_block fs g i) = unat (first_data_block fs) + g * unat (s_blocks_per_group (superblock fs)) + i"
proof -
  let ?n = "s_blocks_per_group (superblock fs)" and ?d = "first_data_block fs"
  have "Suc g * unat ?n \<le> unat (num_groups fs) * unat ?n" using g by (intro mult_le_mono1) simp
  then have lt: "unat ?d + (g * unat ?n + i) < 2 ^ 32" using ok i unfolding groups_ok_def by simp
  have gi: "unat (of_nat g :: u32) = g" "unat (of_nat i :: u32) = i"
    using g i unsigned_less [of "num_groups fs", where 'a = nat] unsigned_less [of ?n, where 'a = nat] by (simp_all add: unat_of_nat take_bit_nat_eq_self_iff)
  have m: "unat (of_nat g * ?n) = g * unat ?n" using lt gi(1) by (simp add: unat_word_ariths)
  have x: "unat (of_nat g * ?n + of_nat i) = g * unat ?n + i" using lt gi(2) m by (simp add: unat_word_ariths)
  have b: "group_block fs g i = ?d + (of_nat g * ?n + of_nat i)" by (simp add: group_block_def algebra_simps)
  then show u: "unat (group_block fs g i) = unat ?d + g * unat ?n + i" using lt x by (simp add: unat_word_ariths)
  have diff: "group_block fs g i - ?d = of_nat g * ?n + of_nat i" by (simp add: b)
  show go: "group_of_block fs (group_block fs g i) = g" "index_of_block fs (group_block fs g i) = i"
    using i by (simp_all add: group_of_block_def index_of_block_def diff unat_div unat_mod x)
  show "in_groups fs (group_block fs g i)" using g u go(1) by (simp add: in_groups_def word_le_nat_alt)
qed

lemma in_groups_pos:
  assumes "groups_ok fs" "in_groups fs b"
  shows "group_of_block fs b < unat (num_groups fs)" "index_of_block fs b < unat (s_blocks_per_group (superblock fs))"
    "group_block fs (group_of_block fs b) (index_of_block fs b) = b"
proof -
  let ?n = "s_blocks_per_group (superblock fs)"
  show "group_of_block fs b < unat (num_groups fs)" using assms by (simp add: in_groups_def)
  have n: "unat ?n > 0" using assms(1) by (simp add: groups_ok_def unat_gt_0)
  then show "index_of_block fs b < unat ?n" by (simp add: index_of_block_def unat_mod)
  have "of_nat (group_of_block fs b) * ?n + of_nat (index_of_block fs b) = b - first_data_block fs"
    by (simp add: group_of_block_def index_of_block_def word_mod_div_equality)
  then show "group_block fs (group_of_block fs b) (index_of_block fs b) = b"
    by (simp add: group_block_def algebra_simps)
qed

lemma pos_inj:
  assumes "groups_ok fs" "in_groups fs b" "in_groups fs c"
  shows "group_of_block fs b = group_of_block fs c \<and> index_of_block fs b = index_of_block fs c \<longleftrightarrow> b = c"
  using in_groups_pos(3) [OF assms(1)] assms(2,3) by metis

lemma same_geo_pos: "same_geo fs fs' \<Longrightarrow> group_of_block fs' = group_of_block fs" "same_geo fs fs' \<Longrightarrow> index_of_block fs' = index_of_block fs"
  "same_geo fs fs' \<Longrightarrow> in_groups fs' = in_groups fs"
  by (simp_all add: fun_eq_iff group_of_block_def index_of_block_def in_groups_def same_geoD)

context block_store
begin

text \<open>The bits of the blocks after the bitmap of one group was replaced.\<close>

lemma used_after:
  assumes inv: "cache_inv good sector F fs s" and ok: "groups_ok fs" and geo: "same_geo fs fs'" and b: "in_groups fs b" and c: "in_groups fs c"
    and v: "bview sector fs' = (bview sector fs)(bg_block_bitmap (group_desc fs ! group_of_block fs b) := bm, gdt_block fs := X)"
    and bit: "\<forall>j < 8 * length (bview sector fs (bg_block_bitmap (group_desc fs ! group_of_block fs b))).
      bit_of bm j \<longleftrightarrow> P j (bit_of (bview sector fs (bg_block_bitmap (group_desc fs ! group_of_block fs b))) j)"
  shows "block_used sector fs' c \<longleftrightarrow> (if group_of_block fs c = group_of_block fs b then P (index_of_block fs c) (block_used sector fs c) else block_used sector fs c)"
proof -
  note p = in_groups_pos [OF ok b] and q = in_groups_pos [OF ok c]
  note eq = same_geo_group(1) [OF geo meta_in(1) [OF ok q(1)]] same_geo_pos [OF geo]
  have "unat (s_blocks_per_group (superblock fs)) \<le> 8 * unat (block_size fs)" using ok by (simp add: groups_ok_def)
  then have "index_of_block fs c < 8 * length (bview sector fs (bg_block_bitmap (group_desc fs ! group_of_block fs b)))"
    using q(2) view_length [OF inv] by simp
  then show ?thesis using bitmap_inj(1) [OF ok q(1) p(1)] meta_in(4) [OF ok q(1)] bit
    by (simp add: block_used_def bit_set_def eq v)
qed

lemma takes_used:
  assumes inv: "cache_inv good sector F fs s" and ok: "groups_ok fs" and t: "takes_block F g i fs s fs' s'"
  shows "in_groups fs (group_block fs g i)" "\<not> block_used sector fs (group_block fs g i)"
    "in_groups fs c \<Longrightarrow> block_used sector fs' c \<longleftrightarrow> block_used sector fs c \<or> c = group_block fs g i"
    "b \<notin> set (meta_blocks fs) \<Longrightarrow> bview sector fs' b = bview sector fs b"
proof -
  have g: "g < unat (num_groups fs)" "i < unat (s_blocks_per_group (superblock fs))" "\<not> bit_set sector fs g i"
    using t ok unfolding takes_block_def groups_ok_def by (blast, meson less_le_trans, blast)
  note p = group_block_pos [OF ok g(1,2)]
  show ig: "in_groups fs (group_block fs g i)" by (rule p(3))
  show "\<not> block_used sector fs (group_block fs g i)" using g(3) p by (simp add: block_used_def)
  let ?b = "bg_block_bitmap (group_desc fs ! g)"
  obtain bm X where v: "ext2_set_bit i (bview sector fs ?b) = Some bm" "bview sector fs' = (bview sector fs)(?b := bm, gdt_block fs := X)"
    and geo: "same_geo fs fs'" using t by (auto simp: takes_block_def view_keepsD)
  have "i < 8 * length (bview sector fs ?b)" using t bitmap_range [OF inv ok g(1), of ?b] by (auto simp: takes_block_def)
  from set_bit [OF this] v(1) have bit: "\<forall>j < 8 * length (bview sector fs ?b). bit_of bm j \<longleftrightarrow> bit_of (bview sector fs ?b) j \<or> j = i" by auto
  show "block_used sector fs' c \<longleftrightarrow> block_used sector fs c \<or> c = group_block fs g i" if c: "in_groups fs c"
    using used_after [OF inv ok geo ig c, unfolded p(1), OF v(2), of "\<lambda>j x. x \<or> j = i"] bit pos_inj [OF ok c ig] p(1,2) by auto
  have "?b \<in> set (meta_blocks fs)" "gdt_block fs \<in> set (meta_blocks fs)" using meta_in(1) [OF ok g(1)] by (auto simp: meta_blocks_def)
  then show "bview sector fs' b = bview sector fs b" if "b \<notin> set (meta_blocks fs)" using that v(2) by auto
qed

lemma free_block:
  assumes inv: "cache_inv good sector F fs s" and ok: "groups_ok fs" and r: "refs_below (2 ^ 32 - 1) fs"
  shows "\<exists>r fs' s'. ext2_free_block b fs s = Some (r, fs', s')
    \<and> (r \<noteq> EXT2_SUCCESS \<longrightarrow> quiet F fs s fs' s')
    \<and> (r = EXT2_SUCCESS \<longrightarrow> keeps F fs s fs' s' \<and> in_groups fs b
        \<and> (\<forall>c. in_groups fs c \<longrightarrow> (block_used sector fs' c \<longleftrightarrow> block_used sector fs c \<and> c \<noteq> b))
        \<and> (\<forall>c. c \<notin> set (meta_blocks fs) \<longrightarrow> bview sector fs' c = bview sector fs c)
        \<and> s_free_blocks_count (superblock fs') = s_free_blocks_count (superblock fs) + 1)
    \<and> (r = EXT2_ERROR_INVALID \<longleftrightarrow> b < first_data_block fs \<or> b \<ge> s_blocks_count (superblock fs))"
proof (cases "b < first_data_block fs \<or> b \<ge> s_blocks_count (superblock fs)")
  case True then show ?thesis using quiet_refl [OF inv] by (simp add: ext2_free_block_def)
next
  case False
  let ?n = "s_blocks_per_group (superblock fs)" and ?g = "group_of_block fs b" and ?i = "index_of_block fs b"
  have n: "?n \<noteq> 0" "unat (s_blocks_count (superblock fs)) \<le> unat (num_groups fs) * unat ?n" using ok by (auto simp: groups_ok_def)
  have "unat (b - first_data_block fs) \<le> unat b" using False by (simp add: unat_sub word_less_nat_alt not_less word_le_nat_alt)
  then have "unat (b - first_data_block fs) < unat (num_groups fs) * unat ?n"
    using False n(2) by (meson le_less_trans less_le_trans linorder_not_le word_less_nat_alt)
  then have g: "?g < unat (num_groups fs)" by (simp add: group_of_block_def unat_div less_mult_imp_div_less)
  then have ig: "in_groups fs b" using False by (auto simp: in_groups_def)
  note M = meta_in [OF ok g]
  let ?bm = "bg_block_bitmap (group_desc fs ! ?g)"
  have rb: "refs fs ?bm < 2 ^ 32 - 1" using r by (simp add: refs_below_def)
  obtain p fs1 s1 where h: "ext2_get_block ?bm fs s = Some (p, fs1, s1)" "p = 0 \<longrightarrow> quiet F fs s fs1 s1"
    "p \<noteq> 0 \<longrightarrow> block_at p fs1 = Some (bview sector fs ?bm) \<and> same_meta fs fs1 \<and> quiet F fs s (ext2_put_block p False fs1) s1
       \<and> (\<forall>xs. length xs = unat (block_size fs) \<longrightarrow> edits F ?bm xs fs s (ext2_put_block p True (block_put p xs fs1)) s1)"
    using poke [OF inv M(2) rb] by blast
  have pre: "ext2_free_block b fs s = (if p = 0 then Some (EXT2_ERROR_IO, fs1, s1) else do {
        fs \<leftarrow> mark_bit ext2_clear_bit ?i p fs1;
        (fs, s) \<leftarrow> write_group ?g (count_blocks_by (\<lambda>c. c + 1) (\<lambda>c. c + 1) ?g fs) s1;
        Some (EXT2_SUCCESS, fs, s) })"
    using False n(1) M(1) h(1) by (simp add: ext2_free_block_def udiv_def umod_def group_at_def Let_def group_of_block_def index_of_block_def)
  show ?thesis
  proof (cases "p = 0")
    case True then show ?thesis using pre h(2) False by simp
  next
    case p: False
    have H: "block_at p fs1 = Some (bview sector fs ?bm)" "same_meta fs fs1" "quiet F fs s (ext2_put_block p False fs1) s1"
        "\<forall>xs. length xs = unat (block_size fs) \<longrightarrow> edits F ?bm xs fs s (ext2_put_block p True (block_put p xs fs1)) s1"
      using h(3) p by auto
    have "?i < unat ?n" by (rule in_groups_pos(2) [OF ok ig])
    moreover have "unat ?n \<le> 8 * unat (block_size fs)" using ok by (simp add: groups_ok_def)
    ultimately have i8: "?i < 8 * length (bview sector fs ?bm)" using view_length [OF inv] by simp
    from clear_bit [OF this] obtain bm where bm: "ext2_clear_bit ?i (bview sector fs ?bm) = Some bm" "length bm = unat (block_size fs)"
      "\<forall>j < 8 * length (bview sector fs ?bm). bit_of bm j \<longleftrightarrow> bit_of (bview sector fs ?bm) j \<and> j \<noteq> ?i"
      using view_length [OF inv] by auto
    let ?c = "count_blocks_by (\<lambda>c. c + 1) (\<lambda>c. c + 1) ?g"
    obtain gs fs' s' X where w: "mark_bit ext2_clear_bit ?i p fs1 = Some gs" "write_group ?g (?c gs) s1 = Some (fs', s')" "keeps F fs s fs' s'"
      "same_meta fs gs" "same_meta (?c gs) fs'" "bview sector fs' = (bview sector fs)(?bm := bm, gdt_block fs := X)"
      using mark_and_count [OF inv ok g r H(1,2) H(4), of ext2_clear_bit ?i bm ?c] bm(1,2) keeps_counts by blast
    have "block_used sector fs' c \<longleftrightarrow> block_used sector fs c \<and> c \<noteq> b" if c: "in_groups fs c" for c
      using used_after [OF inv ok view_keepsD(2) [OF w(3)] ig c w(6), of "\<lambda>j x. x \<and> j \<noteq> ?i"] bm(3) pos_inj [OF ok c ig] by auto
    moreover have "?bm \<in> set (meta_blocks fs)" "gdt_block fs \<in> set (meta_blocks fs)" using M(1) by (auto simp: meta_blocks_def)
    then have "bview sector fs' c = bview sector fs c" if "c \<notin> set (meta_blocks fs)" for c using that w(6) by auto
    moreover have "s_free_blocks_count (superblock fs') = s_free_blocks_count (superblock fs) + 1"
      using same_metaD(3) [OF w(4)] same_metaD(3) [OF w(5)] by (simp add: count_blocks_by_def)
    ultimately show ?thesis using pre p w(1-3) ig False by simp
  qed
qed

end

section \<open>Inodes\<close>

definition table_block :: "'d ext2_fs \<Rightarrow> nat \<Rightarrow> nat \<Rightarrow> u32" where
  "table_block fs g q = bg_inode_table (group_desc fs ! g) + of_nat q"

definition table_range :: "'d ext2_fs \<Rightarrow> nat \<Rightarrow> nat \<Rightarrow> bool" where
  "table_range fs g q \<longleftrightarrow> g < unat (num_groups fs)
     \<and> q * unat (block_size fs) < unat (s_inodes_per_group (superblock fs)) * unat (inode_size fs)"

text \<open>
  The inode tables: no inode crosses a block, offsets do not wrap around, and the blocks of the tables are
  distinct from each other and from the bitmaps and descriptors.
\<close>

definition inodes_ok :: "'d ext2_fs \<Rightarrow> bool" where
  "inodes_ok fs \<longleftrightarrow> groups_ok fs \<and> 128 \<le> unat (inode_size fs) \<and> unat (inode_size fs) dvd unat (block_size fs)
     \<and> unat (s_inodes_per_group (superblock fs)) * unat (inode_size fs) < 2 ^ 32
     \<and> unat (s_inodes_count (superblock fs)) \<le> unat (num_groups fs) * unat (s_inodes_per_group (superblock fs))
     \<and> (\<forall>g q. table_range fs g q \<longrightarrow> valid_blk fs (table_block fs g q) \<and> table_block fs g q \<notin> set (meta_blocks fs))
     \<and> (\<forall>g q h r. table_range fs g q \<longrightarrow> table_range fs h r \<longrightarrow> table_block fs g q = table_block fs h r \<longrightarrow> g = h \<and> q = r)"

definition inode_group :: "'d ext2_fs \<Rightarrow> u32 \<Rightarrow> nat" where
  "inode_group fs n = unat (n - 1) div unat (s_inodes_per_group (superblock fs))"

definition inode_byte :: "'d ext2_fs \<Rightarrow> u32 \<Rightarrow> nat" where
  "inode_byte fs n = unat (n - 1) mod unat (s_inodes_per_group (superblock fs)) * unat (inode_size fs)"

lemma inodes_ok_geo: "same_geo fs fs' \<Longrightarrow> inodes_ok fs' \<longleftrightarrow> inodes_ok fs"
proof -
  assume g: "same_geo fs fs'"
  have r: "table_range fs' h q \<longleftrightarrow> table_range fs h q" for h q by (simp add: table_range_def same_geoD [OF g])
  show ?thesis
  proof (cases "groups_ok fs")
    case True
    have "table_block fs' h q = table_block fs h q" if "table_range fs h q" for h q
      using that same_geo_group(3) [OF g meta_in(1) [OF True]] by (simp add: table_block_def table_range_def)
    then have "(\<forall>h q. table_range fs h q \<longrightarrow> valid_blk fs (table_block fs' h q) \<and> table_block fs' h q \<notin> set (meta_blocks fs))
          \<longleftrightarrow> (\<forall>h q. table_range fs h q \<longrightarrow> valid_blk fs (table_block fs h q) \<and> table_block fs h q \<notin> set (meta_blocks fs))"
        "(\<forall>i q h r. table_range fs i q \<longrightarrow> table_range fs h r \<longrightarrow> table_block fs' i q = table_block fs' h r \<longrightarrow> i = h \<and> q = r)
          \<longleftrightarrow> (\<forall>i q h r. table_range fs i q \<longrightarrow> table_range fs h r \<longrightarrow> table_block fs i q = table_block fs h r \<longrightarrow> i = h \<and> q = r)"
      by metis+
    then show ?thesis unfolding inodes_ok_def groups_ok_geo [OF g] r same_geo_meta(2) [OF g] same_geoD [OF g] by (simp only:)
  qed (simp add: inodes_ok_def groups_ok_geo [OF g])
qed

text \<open>Where an inode is.\<close>

lemma inode_place:
  assumes ok: "inodes_ok fs" and n: "\<not> bad_inode_num n fs"
  defines "q \<equiv> inode_byte fs n div unat (block_size fs)" and "off \<equiv> inode_byte fs n mod unat (block_size fs)"
  shows "inode_pos n fs = Some (table_block fs (inode_group fs n) q, off)" "table_range fs (inode_group fs n) q" "off + 128 \<le> unat (block_size fs)"
    "unat (inode_size fs) dvd off"
proof -
  let ?k = "unat (s_inodes_per_group (superblock fs))" and ?w = "unat (inode_size fs)" and ?bs = "unat (block_size fs)"
  have G: "groups_ok fs" and w: "128 \<le> ?w" "?w dvd ?bs" "?k * ?w < 2 ^ 32" "unat (s_inodes_count (superblock fs)) \<le> unat (num_groups fs) * ?k"
    using ok by (auto simp: inodes_ok_def)
  have k: "s_inodes_per_group (superblock fs) \<noteq> 0" "?k > 0" using G by (auto simp: groups_ok_def unat_gt_0)
  have "n \<noteq> 0" "n \<le> s_inodes_count (superblock fs)" using n by (auto simp: bad_inode_num_def)
  then have "unat (n - 1) < unat (num_groups fs) * ?k"
    using w(4) by (metis Suc_pred' less_le_trans order_less_le_trans lessI unat_gt_0 unat_minus_one word_le_nat_alt)
  then have g: "inode_group fs n < unat (num_groups fs)" by (simp add: inode_group_def less_mult_imp_div_less)
  have bs: "block_size fs \<noteq> 0" using meta_in(8) [OF G g] by auto
  have ib: "inode_byte fs n < ?k * ?w" using k(2) w(1) by (simp add: inode_byte_def)
  have "unat ((n - 1) mod s_inodes_per_group (superblock fs) * inode_size fs) = inode_byte fs n"
    using order_less_trans [OF ib w(3)] unat_mult_lem [of "(n - 1) mod s_inodes_per_group (superblock fs)" "inode_size fs"]
    unfolding inode_byte_def unat_mod by simp
  then have e: "unat ((n - 1) mod s_inodes_per_group (superblock fs) * inode_size fs div block_size fs) = q"
    "unat ((n - 1) mod s_inodes_per_group (superblock fs) * inode_size fs mod block_size fs) = off"
    by (simp_all add: unat_div unat_mod q_def off_def)
  then show "inode_pos n fs = Some (table_block fs (inode_group fs n) q, off)"
    using k(1) bs meta_in(1) [OF G g] unfolding inode_group_def unat_div [symmetric]
    by (auto simp: inode_pos_def udiv_def umod_def group_at_def table_block_def simp del: unat_div)
  have "q * ?bs \<le> inode_byte fs n" by (simp add: q_def)
  then show "table_range fs (inode_group fs n) q" using g ib by (simp add: table_range_def)
  show d: "?w dvd off" using w(2) by (simp add: off_def inode_byte_def dvd_mod)
  have "off < ?bs" using bs by (simp add: off_def unat_gt_0)
  moreover obtain a b where "off = ?w * a" "?bs = ?w * b" using d w(2) by (auto elim!: dvdE)
  ultimately have "Suc a \<le> b" by simp
  then have "?w * Suc a \<le> ?w * b" by (rule mult_le_mono2)
  then show "off + 128 \<le> ?bs" using w(1) \<open>off = ?w * a\<close> \<open>?bs = ?w * b\<close> by simp
qed

lemma inode_disjoint:
  assumes ok: "inodes_ok fs" and n: "\<not> bad_inode_num n fs" "\<not> bad_inode_num m fs" "n \<noteq> m"
    and p: "inode_pos n fs = Some (b, off)" "inode_pos m fs = Some (b', off')"
  shows "b \<noteq> b' \<or> off + 128 \<le> off' \<or> off' + 128 \<le> off"
proof (rule ccontr)
  let ?k = "unat (s_inodes_per_group (superblock fs))" and ?w = "unat (inode_size fs)" and ?bs = "unat (block_size fs)"
  assume "\<not> ?thesis"
  then have c: "b = b'" "\<not> off + 128 \<le> off'" "\<not> off' + 128 \<le> off" by auto
  note N = inode_place [OF ok n(1)] and M = inode_place [OF ok n(2)]
  have e: "b = table_block fs (inode_group fs n) (inode_byte fs n div ?bs)" "b' = table_block fs (inode_group fs m) (inode_byte fs m div ?bs)"
    "off = inode_byte fs n mod ?bs" "off' = inode_byte fs m mod ?bs"
    using N(1) M(1) p by auto
  have eq: "inode_group fs n = inode_group fs m" "inode_byte fs n div ?bs = inode_byte fs m div ?bs"
    using ok N(2) M(2) c(1) e(1,2) unfolding inodes_ok_def by metis+
  obtain x y where xy: "off = ?w * x" "off' = ?w * y" using N(4) M(4) e(3,4) by (auto elim!: dvdE)
  have w: "128 \<le> ?w" using ok by (simp add: inodes_ok_def)
  have "x = y"
  proof (rule ccontr)
    assume "x \<noteq> y"
    then have "Suc x \<le> y \<or> Suc y \<le> x" by linarith
    then have "?w * Suc x \<le> ?w * y \<or> ?w * Suc y \<le> ?w * x" by (meson mult_le_mono2)
    then show False using c(2,3) xy w by auto
  qed
  then have "inode_byte fs n = inode_byte fs m" using e(3,4) eq(2) xy by (metis div_mult_mod_eq)
  then have "unat (n - 1) mod ?k = unat (m - 1) mod ?k" using w by (simp add: inode_byte_def)
  then have "unat (n - 1) = unat (m - 1)" using eq(1) by (metis inode_group_def div_mult_mod_eq)
  then have "n - 1 = m - 1" by (simp add: word_unat_eq_iff)
  then show False using n(3) by (metis diff_add_cancel)
qed

definition inode_at :: "('d block_device \<Rightarrow> nat \<Rightarrow> u8 list) \<Rightarrow> 'd ext2_fs \<Rightarrow> u32 \<Rightarrow> ext2_inode" where
  "inode_at sec fs n = (case inode_pos n fs of None \<Rightarrow> zero_inode | Some (b, off) \<Rightarrow> inode_of (take 128 (drop off (bview sec fs b))))"

lemma same_geo_inode:
  assumes "same_geo fs fs'" "inodes_ok fs"
  shows "bad_inode_num n fs' = bad_inode_num n fs" "\<not> bad_inode_num n fs \<Longrightarrow> inode_pos n fs' = inode_pos n fs"
proof -
  show b: "bad_inode_num n fs' = bad_inode_num n fs" using assms(1) by (simp add: bad_inode_num_def same_geo_def)
  assume n: "\<not> bad_inode_num n fs"
  have "inodes_ok fs'" using assms inodes_ok_geo by blast
  note P = inode_place [OF assms(2) n] and Q = inode_place [OF this, of n]
  have e: "inode_group fs' n = inode_group fs n" "inode_byte fs' n = inode_byte fs n"
    by (simp_all add: inode_group_def inode_byte_def same_geoD [OF assms(1)])
  have "inode_group fs n < length (group_desc fs)" using P(2) assms(2) meta_in(1) by (auto simp: table_range_def inodes_ok_def)
  then show "inode_pos n fs' = inode_pos n fs"
    using P(1) Q(1) n b same_geo_group(3) [OF assms(1)] by (simp add: e table_block_def same_geoD [OF assms(1)])
qed

context block_store
begin

lemma read_inode:
  assumes inv: "cache_inv good sector F fs s" and ok: "inodes_ok fs" and r: "refs_below (2 ^ 32 - 1) fs"
  shows "\<exists>r fs' s'. ext2_read_inode n fs s = Some (r, fs', s') \<and> quiet F fs s fs' s'
    \<and> (if bad_inode_num n fs then r = Inl EXT2_ERROR_INVALID else r = Inl EXT2_ERROR_IO \<or> r = Inr (inode_at sector fs n))"
proof (cases "bad_inode_num n fs")
  case True then show ?thesis using quiet_refl [OF inv] by (simp add: ext2_read_inode_def)
next
  case False
  note P = inode_place [OF ok False]
  obtain b off where b: "inode_pos n fs = Some (b, off)" "off + 128 \<le> unat (block_size fs)" "valid_blk fs b"
    using P ok by (auto simp: inodes_ok_def)
  have rb: "refs fs b < 2 ^ 32 - 1" using r by (simp add: refs_below_def)
  obtain p fs1 s1 where h: "ext2_get_block b fs s = Some (p, fs1, s1)" "p = 0 \<longrightarrow> quiet F fs s fs1 s1"
    "p \<noteq> 0 \<longrightarrow> block_at p fs1 = Some (bview sector fs b) \<and> same_meta fs fs1 \<and> quiet F fs s (ext2_put_block p False fs1) s1"
    using peek [OF inv b(3) rb] by blast
  have d: "disk_get off 128 (bview sector fs b) = Some (take 128 (drop off (bview sector fs b)))"
    using b(2) view_length [OF inv] by (simp add: disk_get_def)
  show ?thesis
  proof (cases "p = 0")
    case True then show ?thesis using False b(1) h(1,2) by (simp add: ext2_read_inode_def)
  next
    case p: False then show ?thesis using False b(1) h d by (simp add: ext2_read_inode_def inode_at_def)
  qed
qed

lemma write_inode:
  assumes inv: "cache_inv good sector F fs s" and ok: "inodes_ok fs" and r: "refs_below (2 ^ 32 - 1) fs" and i: "inode_ok inode"
  shows "\<exists>r fs' s'. ext2_write_inode n inode fs s = Some (r, fs', s') \<and> (r \<noteq> EXT2_SUCCESS \<longrightarrow> quiet F fs s fs' s')
    \<and> (r = EXT2_SUCCESS \<longrightarrow> \<not> bad_inode_num n fs \<and> keeps F fs s fs' s' \<and> same_meta fs fs' \<and> inode_at sector fs' n = inode
        \<and> (\<forall>m. m \<noteq> n \<longrightarrow> \<not> bad_inode_num m fs \<longrightarrow> inode_at sector fs' m = inode_at sector fs m)
        \<and> (\<exists>g q X. table_range fs g q \<and> bview sector fs' = (bview sector fs)(table_block fs g q := X)))
    \<and> (r = EXT2_ERROR_INVALID \<longleftrightarrow> bad_inode_num n fs)"
proof (cases "bad_inode_num n fs")
  case True then show ?thesis using quiet_refl [OF inv] by (simp add: ext2_write_inode_def)
next
  case False
  note P = inode_place [OF ok False]
  obtain g q off where t: "inode_pos n fs = Some (table_block fs g q, off)" "off + 128 \<le> unat (block_size fs)" "table_range fs g q"
    using P by blast
  let ?b = "table_block fs g q" and ?xs = "inode_bytes inode"
  have v: "valid_blk fs ?b" using ok t(3) by (simp add: inodes_ok_def)
  have rb: "refs fs ?b < 2 ^ 32 - 1" using r by (simp add: refs_below_def)
  have l: "length ?xs = 128" by (rule inode_bytes_length [OF i])
  then have n: "off + length ?xs \<le> unat (block_size fs)" "off + length ?xs \<le> length (bview sector fs ?b)" using t(2) view_length [OF inv] by auto
  obtain p fs1 s1 where h: "ext2_get_block ?b fs s = Some (p, fs1, s1)" "p = 0 \<longrightarrow> quiet F fs s fs1 s1"
    "p \<noteq> 0 \<longrightarrow> (\<exists>gs. block_copy p off ?xs fs1 = Some gs \<and> same_meta fs gs
         \<and> edits F ?b (overlay off ?xs (bview sector fs ?b)) fs s (ext2_put_block p True gs) s1)"
    using poke_bytes [OF inv v rb n(1)] by blast
  show ?thesis
  proof (cases "p = 0")
    case True then show ?thesis using False t(1) h(1,2) by (simp add: ext2_write_inode_def)
  next
    case p: False
    then obtain gs where gs: "block_copy p off ?xs fs1 = Some gs" "edits F ?b (overlay off ?xs (bview sector fs ?b)) fs s (ext2_put_block p True gs) s1"
      using h(3) by blast
    let ?fs = "ext2_put_block p True gs"
    have k: "keeps F fs s ?fs s1" "same_meta fs ?fs" "bview sector ?fs = (bview sector fs)(?b := overlay off ?xs (bview sector fs ?b))"
      using gs(2) by (auto simp: edits_def)
    note S = same_geo_inode [OF view_keepsD(2) [OF k(1)] ok]
    have "inode_at sector ?fs n = inode"
      using S(2) [OF False] t(1) take_drop_overlay_same [OF n(2)] l inode_roundtrip [OF i] by (simp add: inode_at_def k(3))
    moreover have "inode_at sector ?fs m = inode_at sector fs m" if m: "m \<noteq> n" "\<not> bad_inode_num m fs" for m
    proof -
      obtain b' off' where p: "inode_pos m fs = Some (b', off')" "off' + 128 \<le> unat (block_size fs)" using inode_place [OF ok m(2)] by blast
      have "?b \<noteq> b' \<or> off + 128 \<le> off' \<or> off' + 128 \<le> off" using inode_disjoint [OF ok False m(2) _ t(1) p(1)] m(1) by auto
      then have "b' = ?b \<Longrightarrow> take 128 (drop off' (overlay off ?xs (bview sector fs ?b))) = take 128 (drop off' (bview sector fs ?b))"
        using take_drop_overlay_other [OF n(2), of off' 128] l p(2) view_length [OF inv, of ?b] by auto
      then show ?thesis using S(2) [OF m(2)] p(1) by (simp add: inode_at_def k(3))
    qed
    ultimately show ?thesis using False t(1,3) h(1) p gs(1) k by (auto simp: ext2_write_inode_def)
  qed
qed

end

end
