(* ===== verification/Ext2FileProps.thy ===== *)
theory Ext2FileProps
  imports Ext2AllocProps
begin

text \<open>
  Files: the blocks a file consists of, reading, and writing to the direct blocks.
\<close>

section \<open>The blocks of a file\<close>

text \<open>The blocks that belong to no file, which a sound volume has marked as used.\<close>

definition sys_blocks :: "'d ext2_fs \<Rightarrow> u32 set" where
  "sys_blocks fs = {0} \<union> set (meta_blocks fs) \<union> {table_block fs g q | g q. table_range fs g q}"

definition volume_ok :: "('d block_device \<Rightarrow> nat \<Rightarrow> u8 list) \<Rightarrow> 'd ext2_fs \<Rightarrow> bool" where
  "volume_ok sec fs \<longleftrightarrow> inodes_ok fs \<and> (\<forall>b. in_groups fs b \<longrightarrow> valid_blk fs b)
     \<and> (\<forall>b \<in> sys_blocks fs. in_groups fs b \<longrightarrow> block_used sec fs b)"

text \<open>A block in use that is no block of the system.\<close>

definition data_block :: "('d block_device \<Rightarrow> nat \<Rightarrow> u8 list) \<Rightarrow> 'd ext2_fs \<Rightarrow> u32 \<Rightarrow> bool" where
  "data_block sec fs b \<longleftrightarrow> in_groups fs b \<and> block_used sec fs b \<and> b \<notin> sys_blocks fs"

lemma sys_blocks_geo:
  assumes "same_geo fs fs'" "groups_ok fs"
  shows "sys_blocks fs' = sys_blocks fs"
proof -
  have r: "table_range fs' h q \<longleftrightarrow> table_range fs h q" for h q by (simp add: table_range_def same_geoD [OF assms(1)])
  have "table_block fs' h q = table_block fs h q" if "table_range fs h q" for h q
    using that same_geo_group(3) [OF assms(1) meta_in(1) [OF assms(2)]] by (simp add: table_block_def table_range_def)
  then have "{table_block fs' g q | g q. table_range fs' g q} = {table_block fs g q | g q. table_range fs g q}" unfolding r by metis
  then show ?thesis by (simp add: sys_blocks_def same_geo_meta [OF assms(1)])
qed

lemma volume_ok_cong:
  assumes "volume_ok sec fs" "same_geo fs fs'" "\<And>b. in_groups fs b \<Longrightarrow> block_used sec fs b \<Longrightarrow> block_used sec fs' b"
  shows "volume_ok sec fs'"
  using assms inodes_ok_geo [OF assms(2)] sys_blocks_geo [OF assms(2)]
  by (auto simp: volume_ok_def inodes_ok_def same_geoD same_geo_pos)

lemma bits_view: "same_geo fs fs' \<Longrightarrow> groups_ok fs \<Longrightarrow> in_groups fs c \<Longrightarrow> (\<And>b. b \<in> set (meta_blocks fs) \<Longrightarrow> bview sec fs' b = bview sec fs b)
    \<Longrightarrow> block_used sec fs' c = block_used sec fs c"
proof -
  assume g: "same_geo fs fs'" and ok: "groups_ok fs" and c: "in_groups fs c" and v: "\<And>b. b \<in> set (meta_blocks fs) \<Longrightarrow> bview sec fs' b = bview sec fs b"
  have l: "group_of_block fs c < length (group_desc fs)" using c meta_in(1) [OF ok] by (simp add: in_groups_def)
  then have "bg_block_bitmap (group_desc fs ! group_of_block fs c) \<in> set (meta_blocks fs)" by (simp add: meta_blocks_def)
  then show ?thesis using v same_geo_group(1) [OF g l] by (simp add: block_used_def bit_set_def same_geo_pos [OF g])
qed

context block_store
begin

text \<open>
  The frame of an operation on a file: the volume stays sound, blocks in use stay in use, and the data blocks
  outside of \<open>B\<close> keep their contents.
\<close>

definition frame :: "region set \<Rightarrow> u32 set \<Rightarrow> 'd ext2_fs \<Rightarrow> 'a heap_scheme \<Rightarrow> 'd ext2_fs \<Rightarrow> 'a heap_scheme \<Rightarrow> bool" where
  "frame F B fs s fs' s' \<longleftrightarrow> keeps F fs s fs' s' \<and> volume_ok sector fs'
     \<and> (\<forall>c. in_groups fs c \<longrightarrow> block_used sector fs c \<longrightarrow> block_used sector fs' c)
     \<and> (\<forall>c. data_block sector fs c \<longrightarrow> c \<notin> B \<longrightarrow> bview sector fs' c = bview sector fs c)"

lemma frame_data: "frame F B fs s fs' s' \<Longrightarrow> groups_ok fs \<Longrightarrow> data_block sector fs c \<Longrightarrow> data_block sector fs' c"
  using sys_blocks_geo by (auto simp: frame_def data_block_def keeps_def same_geo_pos)

lemma frame_trans:
  assumes "frame F B fs s gs t" "frame F C gs t hs u" "groups_ok fs"
  shows "frame F (B \<union> C) fs s hs u"
  using assms(1,2) frame_data [OF assms(1,3)] keeps_trans [of F fs s gs t hs u]
  by (auto simp: frame_def keeps_def same_geo_pos)

lemma frame_mono: "frame F B fs s gs t \<Longrightarrow> B \<subseteq> C \<Longrightarrow> frame F C fs s gs t"
  by (auto simp: frame_def)

lemma quiet_frame: "quiet F fs s fs' s' \<Longrightarrow> volume_ok sector fs \<Longrightarrow> frame F {} fs s fs' s'"
proof -
  assume q: "quiet F fs s fs' s'" and v: "volume_ok sector fs"
  note K = quiet_keeps [OF q]
  have g: "same_geo fs fs'" "groups_ok fs" using K view_keepsD(2) v by (auto simp: volume_ok_def inodes_ok_def)
  have "block_used sector fs' c = block_used sector fs c" if "in_groups fs c" for c using bits_view [OF g that] K by simp
  then show ?thesis using K volume_ok_cong [OF v g(1)] by (auto simp: frame_def)
qed

lemma edit_frame:
  assumes "edits F b xs fs s fs' s'" "volume_ok sector fs" "b \<notin> set (meta_blocks fs)"
  shows "frame F {b} fs s fs' s'"
proof -
  have K: "keeps F fs s fs' s'" "bview sector fs' = (bview sector fs)(b := xs)" using assms(1) by (auto simp: edits_def)
  have g: "same_geo fs fs'" "groups_ok fs" using K view_keepsD(2) assms(2) by (auto simp: volume_ok_def inodes_ok_def)
  have "block_used sector fs' c = block_used sector fs c" if "in_groups fs c" for c by (rule bits_view [OF g that]) (use K(2) assms(3) in auto)
  then show ?thesis using K volume_ok_cong [OF assms(2) g(1)] by (auto simp: frame_def)
qed

lemma alloc_block:
  assumes inv: "cache_inv good sector F fs s" and v: "volume_ok sector fs" and r: "refs_below (2 ^ 32 - 1) fs"
  shows "\<exists>r fs' s'. ext2_alloc_block fs s = Some (r, fs', s') \<and> frame F {} fs s fs' s'
    \<and> (\<forall>b. r = Inr b \<longrightarrow> in_groups fs b \<and> \<not> block_used sector fs b \<and> data_block sector fs' b)"
proof -
  have ok: "groups_ok fs" using v by (simp add: volume_ok_def inodes_ok_def)
  obtain r fs' s' where a: "ext2_alloc_block fs s = Some (r, fs', s')" "alloc_res F 0 (unat (num_groups fs)) fs s r fs' s'"
    using alloc_block_from [OF inv ok r, of 0 "unat (num_groups fs)"] by (auto simp: ext2_alloc_block_def)
  show ?thesis
  proof (cases r)
    case (Inl e)
    then have "quiet F fs s fs' s'" using a(2) by (simp add: alloc_res_def)
    from quiet_frame [OF this v] show ?thesis using a(1) Inl by simp
  next
    case (Inr b)
    then obtain h i where t: "b = group_block fs h i" "takes_block F h i fs s fs' s'" using a(2) by (auto simp: alloc_res_def)
    note T = takes_used [OF inv ok t(2), folded t(1)]
    have k: "keeps F fs s fs' s'" using t(2) by (simp add: takes_block_def)
    note g = view_keepsD(2) [OF k]
    have nd: "b \<notin> sys_blocks fs" using T(1,2) v by (auto simp: volume_ok_def)
    have "c \<notin> set (meta_blocks fs)" if "data_block sector fs c" for c using that by (auto simp: data_block_def sys_blocks_def)
    then have "frame F {} fs s fs' s'" using k T(3,4) volume_ok_cong [OF v g] by (auto simp: frame_def)
    moreover have "data_block sector fs' b"
      using T(1,3) nd by (simp add: data_block_def sys_blocks_geo [OF g ok] same_geo_pos [OF g])
    ultimately show ?thesis using a(1) Inr T(1,2) by auto
  qed
qed

lemma zero_block:
  assumes inv: "cache_inv good sector F fs s" and v: "volume_ok sector fs" and r: "refs_below (2 ^ 32 - 1) fs" and b: "data_block sector fs b"
  shows "\<exists>fs' s'. zero_block b fs s = Some (fs', s') \<and> frame F {b} fs s fs' s'"
proof -
  have vb: "valid_blk fs b" "refs fs b < 2 ^ 32 - 1" "b \<notin> set (meta_blocks fs)"
    using v b r by (auto simp: volume_ok_def data_block_def refs_below_def sys_blocks_def)
  let ?z = "replicate (unat (block_size fs)) 0"
  obtain p fs1 s1 where h: "ext2_get_block b fs s = Some (p, fs1, s1)" "p = 0 \<longrightarrow> quiet F fs s fs1 s1" "same_meta fs fs1"
    "p \<noteq> 0 \<longrightarrow> (\<exists>gs. block_copy p 0 ?z fs1 = Some gs \<and> same_meta fs gs
         \<and> edits F b (overlay 0 ?z (bview sector fs b)) fs s (ext2_put_block p True gs) s1)"
    using poke_bytes [OF inv vb(1,2), of 0 ?z] by auto
  show ?thesis
  proof (cases "p = 0")
    case True then show ?thesis using h quiet_frame [OF _ v] frame_mono by (fastforce simp: zero_block_def)
  next
    case False
    then obtain gs where "block_copy p 0 ?z fs1 = Some gs" "edits F b (overlay 0 ?z (bview sector fs b)) fs s (ext2_put_block p True gs) s1" using h(4) by blast
    then show ?thesis using False h(1) edit_frame [OF _ v vb(3)] same_metaD(1) [OF h(3)] by (auto simp: zero_block_def)
  qed
qed

lemma root_slot:
  assumes inv: "cache_inv good sector F fs s" and v: "volume_ok sector fs" and r: "refs_below (2 ^ 32 - 1) fs" and k: "k < length (i_block inode)"
  shows "\<exists>b inode' fs' s'. root_slot k True inode fs s = Some (b, inode', fs', s') \<and> frame F {} fs s fs' s'
    \<and> (b = i_block inode ! k \<and> inode' = inode
       \<or> i_block inode ! k = 0 \<and> inode' = inode\<lparr>i_block := (i_block inode)[k := b]\<rparr> \<and> in_groups fs b \<and> \<not> block_used sector fs b \<and> data_block sector fs' b)"
proof (cases "i_block inode ! k = 0")
  case False then show ?thesis using quiet_frame [OF quiet_refl [OF inv] v] by (simp add: root_slot_def)
next
  case True
  have ok: "groups_ok fs" using v by (simp add: volume_ok_def inodes_ok_def)
  obtain q gs t where a: "ext2_alloc_block fs s = Some (q, gs, t)" "frame F {} fs s gs t"
    "\<forall>b. q = Inr b \<longrightarrow> in_groups fs b \<and> \<not> block_used sector fs b \<and> data_block sector gs b"
    using alloc_block [OF inv v r] by blast
  show ?thesis
  proof (cases q)
    case (Inl e) then show ?thesis using True a(1,2) by (simp add: root_slot_def)
  next
    case (Inr b)
    have g: "cache_inv good sector F gs t" "volume_ok sector gs" "refs_below (2 ^ 32 - 1) gs" "groups_ok gs"
      using a(2) r view_keepsD [of F fs s gs t] by (auto simp: frame_def volume_ok_def inodes_ok_def)
    have b: "in_groups fs b" "\<not> block_used sector fs b" "data_block sector gs b" using a(3) Inr by auto
    obtain fs' s' where z: "zero_block b gs t = Some (fs', s')" "frame F {b} gs t fs' s'" using zero_block [OF g(1,2,3) b(3)] by blast
    have "frame F ({} \<union> {b}) fs s fs' s'" by (rule frame_trans [OF a(2) z(2) ok])
    then have "frame F {} fs s fs' s'" using b(2) by (auto simp: frame_def data_block_def)
    then show ?thesis using True a(1) Inr z(1) b frame_data [OF z(2) g(4) b(3)] by (simp add: root_slot_def)
  qed
qed

end

section \<open>Reading a file\<close>

text \<open>The block a chain of pointers leads to, and whether the blocks on the way are blocks of the device.\<close>

fun ptr_walk :: "(u32 \<Rightarrow> u8 list) \<Rightarrow> u32 \<Rightarrow> nat list \<Rightarrow> u32" where
  "ptr_walk V b [] = b"
| "ptr_walk V b (i # is) = (if b = 0 then 0 else ptr_walk V (dec32 (V b) (4 * i)) is)"

fun walk_valid :: "'d ext2_fs \<Rightarrow> (u32 \<Rightarrow> u8 list) \<Rightarrow> u32 \<Rightarrow> nat list \<Rightarrow> bool" where
  "walk_valid fs V b [] \<longleftrightarrow> (b \<noteq> 0 \<longrightarrow> valid_blk fs b)"
| "walk_valid fs V b (i # is) \<longleftrightarrow> (b \<noteq> 0 \<longrightarrow> valid_blk fs b \<and> walk_valid fs V (dec32 (V b) (4 * i)) is)"

definition file_block :: "('d block_device \<Rightarrow> nat \<Rightarrow> u8 list) \<Rightarrow> 'd ext2_fs \<Rightarrow> ext2_inode \<Rightarrow> nat \<Rightarrow> u32" where
  "file_block sec fs inode j =
     (case block_path (block_size fs div 4) (of_nat j) of
        None \<Rightarrow> 0 | Some (k, is) \<Rightarrow> ptr_walk (bview sec fs) (i_block inode ! k) is)"

definition file_byte :: "('d block_device \<Rightarrow> nat \<Rightarrow> u8 list) \<Rightarrow> 'd ext2_fs \<Rightarrow> ext2_inode \<Rightarrow> nat \<Rightarrow> u8" where
  "file_byte sec fs inode k =
     (let b = file_block sec fs inode (k div unat (block_size fs))
      in if b = 0 then 0 else bview sec fs b ! (k mod unat (block_size fs)))"

text \<open>The first \<open>n\<close> blocks of a file are found by pointers to blocks of the device.\<close>

definition blocks_valid :: "('d block_device \<Rightarrow> nat \<Rightarrow> u8 list) \<Rightarrow> 'd ext2_fs \<Rightarrow> ext2_inode \<Rightarrow> nat \<Rightarrow> bool" where
  "blocks_valid sec fs inode n \<longleftrightarrow>
     (\<forall>j < n. \<forall>k is. block_path (block_size fs div 4) (of_nat j) = Some (k, is) \<longrightarrow> walk_valid fs (bview sec fs) (i_block inode ! k) is)"

lemma mult_word_unat: "unat x * unat y < 2 ^ 32 \<Longrightarrow> unat (x * y) = unat x * unat y" for x y :: u32
  using unat_mult_lem [of x y] by simp

lemma block_path_bounds:
  assumes b: "unat n \<le> 1024" and p: "block_path n j = Some (k, is)" and i: "i \<in> set is"
  shows "i < unat n"
proof -
  have n2: "unat (n * n) = unat n * unat n"
    by (rule mult_word_unat) (use mult_le_mono [OF b b] in simp)
  have n3: "unat (n * n * n) = unat n * unat n * unat n"
    by (subst mult_word_unat) (use n2 mult_le_mono [OF mult_le_mono [OF b b] b] in simp_all)
  have n0: "n \<noteq> 0" using p i by (cases "n = 0") (auto simp: block_path_def split: if_splits)
  have d2: "unat (x div n) < unat n" if "x < n * n" for x
    using that n2 by (simp add: unat_div word_less_nat_alt less_mult_imp_div_less)
  have d3: "unat (x div (n * n)) < unat n" if "x < n * n * n" for x
    using that n2 n3 by (simp add: unat_div word_less_nat_alt less_mult_imp_div_less mult.assoc)
  have m: "unat (x mod n) < unat n" for x using n0 by (simp add: unat_mod unat_gt_0)
  show ?thesis using p i m d2 d3 by (auto simp: block_path_def Let_def word_less_nat_alt split: if_splits)
qed

lemma block_path_root: "block_path n j = Some (k, is) \<Longrightarrow> k < 15 \<and> (is = [] \<longleftrightarrow> j < 12) \<and> (j < 12 \<longrightarrow> k = unat j)"
  by (auto simp: block_path_def Let_def word_less_nat_alt split: if_splits)

lemma walk_valid_cong: "valid_blk gs = valid_blk fs \<Longrightarrow> walk_valid gs = walk_valid fs"
proof (intro ext)
  fix V b js assume "valid_blk gs = valid_blk fs"
  then show "walk_valid gs V b js = walk_valid fs V b js" by (induction js arbitrary: b) auto
qed

lemma ptr_walk_0 [simp]: "ptr_walk V 0 is = 0"
  by (cases "is") auto

context block_store
begin

lemma ind_slot_read:
  assumes inv: "cache_inv good sector F fs s" and r: "refs_below (2 ^ 32 - 1) fs" and b: "valid_blk fs b" and i: "4 * i + 4 \<le> unat (block_size fs)"
  shows "\<exists>n fs' s'. ind_slot b i False fs s = Some (n, fs', s') \<and> quiet F fs s fs' s' \<and> (n = 0 \<or> n = dec32 (bview sector fs b) (4 * i))"
proof -
  have rb: "refs fs b < 2 ^ 32 - 1" using r by (simp add: refs_below_def)
  obtain p fs1 s1 where h: "ext2_get_block b fs s = Some (p, fs1, s1)" "p = 0 \<longrightarrow> quiet F fs s fs1 s1"
    "p \<noteq> 0 \<longrightarrow> block_at p fs1 = Some (bview sector fs b) \<and> same_meta fs fs1 \<and> quiet F fs s (ext2_put_block p False fs1) s1"
    using peek [OF inv b rb] by blast
  have "get32 (bview sector fs b) (4 * i) = Some (dec32 (bview sector fs b) (4 * i))"
    using i view_length [OF inv] by (simp add: get32_def disk_get_def dec32_def)
  then show ?thesis using h by (cases "p = 0") (auto simp: ind_slot_def)
qed

lemma ind_walk_read:
  assumes "cache_inv good sector F fs s" "refs_below (2 ^ 32 - 1) fs" "walk_valid fs (bview sector fs) b is" "\<forall>i \<in> set is. 4 * i + 4 \<le> unat (block_size fs)"
  shows "\<exists>n fs' s'. ind_walk b is False fs s = Some (n, fs', s') \<and> quiet F fs s fs' s'
    \<and> (n = ptr_walk (bview sector fs) b is \<or> n = 0 \<and> is \<noteq> [])"
  using assms
proof (induction "is" arbitrary: b fs s)
  case Nil then show ?case using quiet_refl by simp
next
  case (Cons i js)
  show ?case
  proof (cases "b = 0")
    case True then show ?thesis using quiet_refl [OF Cons.prems(1)] by simp
  next
    case False
    obtain n gs t where g: "ind_slot b i False fs s = Some (n, gs, t)" "quiet F fs s gs t" "n = 0 \<or> n = dec32 (bview sector fs b) (4 * i)"
      using ind_slot_read [OF Cons.prems(1,2), of b i] Cons.prems(3,4) False by auto
    note K = quiet_keeps [OF g(2)]
    have "walk_valid gs (bview sector gs) n js"
    proof -
      have "walk_valid gs = walk_valid fs" by (rule walk_valid_cong [OF same_metaD(12)]) (use K in blast)
      then show ?thesis using g(3) Cons.prems(3) False K by (cases js) auto
    qed
    moreover have "refs_below (2 ^ 32 - 1) gs" "\<forall>i \<in> set js. 4 * i + 4 \<le> unat (block_size gs)"
      using K Cons.prems(2,4) by (auto simp: view_keepsD same_metaD)
    ultimately obtain m fs' s' where m: "ind_walk n js False gs t = Some (m, fs', s')" "quiet F gs t fs' s'"
      "m = ptr_walk (bview sector gs) n js \<or> m = 0 \<and> js \<noteq> []"
      using Cons.IH [of gs t n] K view_keepsD(1) by blast
    have "m = ptr_walk (bview sector fs) b (i # js) \<or> m = 0" using m(3) g(3) K False by auto
    then show ?thesis using False g(1) m(1) quiet_trans [OF g(2) m(2)] by auto
  qed
qed

lemma get_block_num_read:
  assumes inv: "cache_inv good sector F fs s" and r: "refs_below (2 ^ 32 - 1) fs" and v: "blocks_valid sector fs inode N"
    and bs: "unat (block_size fs) \<le> 4096" and j: "j < 2 ^ 32" "j < N"
  shows "\<exists>n fs' s'. ext2_get_block_num (of_nat j) False inode fs s = Some (n, inode, fs', s') \<and> quiet F fs s fs' s'
    \<and> (n = file_block sector fs inode j \<or> n = 0 \<and> 12 \<le> j) \<and> (n \<noteq> 0 \<longrightarrow> valid_blk fs n)"
proof (cases "block_path (block_size fs div 4) (of_nat j)")
  case None then show ?thesis using quiet_refl [OF inv] by (simp add: ext2_get_block_num_def file_block_def)
next
  case (Some a)
  obtain k js where a: "a = (k, js)" by (cases a)
  have u: "unat (of_nat j :: u32) = j" using j(1) by (simp add: unat_of_nat take_bit_nat_eq_self_iff)
  note p = Some [unfolded a]
  have n: "unat (block_size fs div 4) \<le> 1024" using bs by (simp add: unat_div)
  have "4 * i + 4 \<le> unat (block_size fs)" if "i \<in> set js" for i
    using block_path_bounds [OF n p that] by (simp add: unat_div)
  moreover have w: "walk_valid fs (bview sector fs) (i_block inode ! k) js" using v p j(2) by (simp add: blocks_valid_def)
  ultimately obtain m fs' s' where m: "ind_walk (i_block inode ! k) js False fs s = Some (m, fs', s')" "quiet F fs s fs' s'"
    "m = ptr_walk (bview sector fs) (i_block inode ! k) js \<or> m = 0 \<and> js \<noteq> []"
    using ind_walk_read [OF inv r] by blast
  have "valid_blk fs (ptr_walk V b js)" if "walk_valid fs V b js" "ptr_walk V b js \<noteq> 0" for V b
    using that by (induction js arbitrary: b) (auto split: if_splits)
  then have "m \<noteq> 0 \<longrightarrow> valid_blk fs m" using m(3) w by auto
  moreover have "js \<noteq> [] \<longrightarrow> 12 \<le> j" using block_path_root [OF p] u by (simp add: word_less_nat_alt)
  ultimately show ?thesis using m p by (auto simp: ext2_get_block_num_def tree_slot_def root_slot_def file_block_def)
qed

end

lemma chunk_at_eq:
  assumes "block_size fs \<noteq> 0" "unat pos < 2 ^ 32" "left \<noteq> 0"
  obtains c where "chunk_at pos left fs = Some (of_nat (unat pos div unat (block_size fs)), of_nat (unat pos mod unat (block_size fs)), c)"
    "unat c = min (unat left) (unat (block_size fs) - unat pos mod unat (block_size fs))" "0 < unat c"
proof -
  let ?bs = "unat (block_size fs)"
  have u: "unat (ucast (block_size fs) :: u64) = ?bs"
    by (simp add: unsigned_ucast_eq take_bit_nat_eq_self_iff) (rule order_less_trans [OF unsigned_less], simp)
  have b0: "ucast (block_size fs) \<noteq> (0 :: u64)" "?bs > 0" using u assms(1) by (auto simp: unat_gt_0 unat_eq_zero)
  have o: "ucast x = (of_nat (unat x) :: u32)" for x :: u64 by simp
  have e: "ucast (pos div ucast (block_size fs)) = (of_nat (unat pos div ?bs) :: u32)" "ucast (pos mod ucast (block_size fs)) = (of_nat (unat pos mod ?bs) :: u32)"
    using o [of "pos div ucast (block_size fs)"] o [of "pos mod ucast (block_size fs)"] unfolding unat_div unat_mod u by simp_all
  have lt: "unat pos mod ?bs < ?bs" using b0(2) by simp
  moreover have "?bs < 2 ^ 32" using unsigned_less [of "block_size fs", where 'a = nat] by simp
  ultimately have m: "unat (of_nat (unat pos mod ?bs) :: u32) = unat pos mod ?bs" by (simp add: unat_of_nat take_bit_nat_eq_self_iff)
  let ?room = "block_size fs - of_nat (unat pos mod ?bs)"
  have r: "unat ?room = ?bs - unat pos mod ?bs" using lt m by (simp add: unat_sub word_le_nat_alt)
  let ?c = "if left < ?room then left else ?room"
  show thesis
  proof (rule that [of ?c])
    show "chunk_at pos left fs = Some (of_nat (unat pos div ?bs), of_nat (unat pos mod ?bs), ?c)"
      using b0(1) by (simp add: chunk_at_def udiv_def umod_def Let_def e)
    show "unat ?c = min (unat left) (?bs - unat pos mod ?bs)" using r by (auto simp: word_less_nat_alt)
    then show "0 < unat ?c" using lt assms(3) by (simp add: unat_gt_0)
  qed
qed

lemma chunk_div:
  fixes P i c bs :: nat
  assumes "i < c" "c \<le> bs - P mod bs"
  shows "(P + i) div bs = P div bs" "(P + i) mod bs = P mod bs + i"
proof -
  have lt: "P mod bs + i < bs" using assms by linarith
  have e: "bs * (P div bs) + P mod bs = P" by simp
  show d: "(P + i) div bs = P div bs" by (rule div_nat_eqI, unfold mult_Suc_right) (use lt e in linarith)+
  have "bs * ((P + i) div bs) + (P + i) mod bs = P + i" by simp
  then show "(P + i) mod bs = P mod bs + i" unfolding d using e by linarith
qed

lemma unat_ucast_64 [simp]: "unat (ucast x :: u64) = unat x" for x :: u32
  by (simp add: unsigned_ucast_eq take_bit_nat_eq_self_iff) (rule order_less_trans [OF unsigned_less], simp)

lemma pos_add: "unat p + unat c < 2 ^ 32 \<Longrightarrow> unat (p + ucast c) = unat p + unat c" for p :: u64 and c :: u32
  by (simp add: unat_word_ariths)

lemma chunk_facts:
  assumes "block_size fs \<noteq> 0" "unat pos + unat left < 2 ^ 32" "left \<noteq> 0"
  obtains c where "chunk_at pos left fs = Some (of_nat (unat pos div unat (block_size fs)), of_nat (unat pos mod unat (block_size fs)), c)"
    "0 < unat c" "unat c \<le> unat left" "unat c \<le> unat (block_size fs) - unat pos mod unat (block_size fs)"
    "unat (of_nat (unat pos mod unat (block_size fs)) :: u32) = unat pos mod unat (block_size fs)"
    "unat (left - c) = unat left - unat c" "unat (pos + ucast c) = unat pos + unat c" "pos + ucast c + ucast (left - c) = pos + ucast left"
proof -
  have P: "unat pos < 2 ^ 32" using assms(2) by simp
  obtain c where c: "chunk_at pos left fs = Some (of_nat (unat pos div unat (block_size fs)), of_nat (unat pos mod unat (block_size fs)), c)"
    "unat c = min (unat left) (unat (block_size fs) - unat pos mod unat (block_size fs))" "0 < unat c"
    by (rule chunk_at_eq [OF assms(1) P assms(3)])
  have cl: "unat c \<le> unat left" using c(2) by simp
  have dl: "unat (left - c) = unat left - unat c" using cl by (simp add: unat_sub word_le_nat_alt)
  have "ucast c + ucast (left - c) = (ucast left :: u64)" using dl cl unsigned_less [of left, where 'a = nat]
    by (intro word_unat_eq_iff [THEN iffD2]) (simp add: unat_word_ariths)
  then have "pos + ucast c + ucast (left - c) = pos + ucast left" by (simp add: add.assoc)
  moreover have "unat (of_nat (unat pos mod unat (block_size fs)) :: u32) = unat pos mod unat (block_size fs)"
    using le_less_trans [OF mod_less_eq_dividend P, of "unat (block_size fs)"] by (simp add: unat_of_nat take_bit_nat_eq_self_iff)
  moreover have "unat (pos + ucast c) = unat pos + unat c" by (rule pos_add) (use assms(2) cl in simp)
  ultimately show thesis using that [of c] c cl dl by simp
qed

context block_store
begin

lemma quiet_file:
  assumes "quiet F fs s gs t"
  shows "file_byte sector gs = file_byte sector fs" "blocks_valid sector gs = blocks_valid sector fs" "refs_below n gs = refs_below n fs"
    "block_size gs = block_size fs" "cache_inv good sector F gs t"
proof -
  have K: "keeps F fs s gs t" "bview sector gs = bview sector fs" "same_meta fs gs" using quiet_keeps [OF assms] by auto
  show "block_size gs = block_size fs" "cache_inv good sector F gs t" "refs_below n gs = refs_below n fs"
    using K(1,3) by (simp_all add: view_keepsD same_metaD)
  then show "file_byte sector gs = file_byte sector fs" unfolding fun_eq_iff file_byte_def file_block_def K(2) Let_def by simp
  show "blocks_valid sector gs = blocks_valid sector fs"
    unfolding fun_eq_iff blocks_valid_def K(2) walk_valid_cong [OF same_metaD(12) [OF K(3)]] same_metaD [OF K(3)] by simp
qed

text \<open>
  What reading gives: the bytes of the file, except that blocks behind an indirect block that
  cannot be fetched read as zeros.
\<close>

definition reads :: "'d ext2_fs \<Rightarrow> ext2_inode \<Rightarrow> nat \<Rightarrow> u8 list \<Rightarrow> bool" where
  "reads fs inode P bs \<longleftrightarrow> (\<forall>i < length bs. bs ! i = file_byte sector fs inode (P + i)
     \<or> bs ! i = 0 \<and> 12 * unat (block_size fs) \<le> P + i)"

lemma reads_append: "reads fs inode P xs \<Longrightarrow> reads fs inode (P + length xs) ys \<Longrightarrow> reads fs inode P (xs @ ys)"
  unfolding reads_def
proof (intro allI impI)
  fix i assume a: "\<forall>i < length xs. xs ! i = file_byte sector fs inode (P + i) \<or> xs ! i = 0 \<and> 12 * unat (block_size fs) \<le> P + i"
    "\<forall>i < length ys. ys ! i = file_byte sector fs inode (P + length xs + i) \<or> ys ! i = 0 \<and> 12 * unat (block_size fs) \<le> P + length xs + i"
    and i: "i < length (xs @ ys)"
  show "(xs @ ys) ! i = file_byte sector fs inode (P + i) \<or> (xs @ ys) ! i = 0 \<and> 12 * unat (block_size fs) \<le> P + i"
  proof (cases "i < length xs")
    case True then show ?thesis using a(1) by (simp add: nth_append)
  next
    case False then show ?thesis using a(2) [rule_format, of "i - length xs"] i by (simp add: nth_append)
  qed
qed

lemma read_chunk:
  assumes inv: "cache_inv good sector F fs s" and r: "refs_below (2 ^ 32 - 1) fs" and v: "blocks_valid sector fs inode N"
    and bs: "unat (block_size fs) \<le> 4096" and P: "P < 2 ^ 32" "P div unat (block_size fs) < N" and c: "c \<le> unat (block_size fs) - P mod unat (block_size fs)"
  shows "\<exists>n gs t. ext2_get_block_num (of_nat (P div unat (block_size fs))) False inode fs s = Some (n, inode, gs, t) \<and> quiet F fs s gs t
    \<and> (n = 0 \<longrightarrow> reads fs inode P (replicate c 0))
    \<and> (n \<noteq> 0 \<longrightarrow> (\<exists>p hs u. ext2_get_block n gs t = Some (p, hs, u) \<and> (p = 0 \<longrightarrow> quiet F fs s hs u)
         \<and> (p \<noteq> 0 \<longrightarrow> quiet F fs s (ext2_put_block p False hs) u
              \<and> (\<exists>xs data. block_at p hs = Some data \<and> disk_get (P mod unat (block_size fs)) c data = Some xs \<and> length xs = c \<and> reads fs inode P xs))))"
proof -
  let ?bs = "unat (block_size fs)" and ?j = "P div unat (block_size fs)"
  have j: "?j < 2 ^ 32" using P(1) by (meson div_le_dividend le_less_trans)
  obtain n gs t where g: "ext2_get_block_num (of_nat ?j) False inode fs s = Some (n, inode, gs, t)" "quiet F fs s gs t"
    "n = file_block sector fs inode ?j \<or> n = 0 \<and> 12 \<le> ?j" "n \<noteq> 0 \<longrightarrow> valid_blk fs n"
    using get_block_num_read [OF inv r v bs j P(2)] by blast
  note D = chunk_div [of _ c ?bs P, OF _ c]
  have "reads fs inode P (replicate c 0)" if "n = 0"
  proof (cases "n = file_block sector fs inode ?j")
    case True then show ?thesis using that D by (simp add: reads_def file_byte_def)
  next
    case False
    then have "12 * ?bs \<le> ?j * ?bs" using g(3) by (intro mult_le_mono1) auto
    also have "\<dots> \<le> P" by simp
    finally show ?thesis by (auto simp: reads_def)
  qed
  moreover have "\<exists>p hs u. ext2_get_block n gs t = Some (p, hs, u) \<and> (p = 0 \<longrightarrow> quiet F fs s hs u)
         \<and> (p \<noteq> 0 \<longrightarrow> quiet F fs s (ext2_put_block p False hs) u
              \<and> (\<exists>xs data. block_at p hs = Some data \<and> disk_get (P mod ?bs) c data = Some xs \<and> length xs = c \<and> reads fs inode P xs))"
    if n: "n \<noteq> 0"
  proof -
    note Q = quiet_file [OF g(2)] and K = quiet_keeps [OF g(2)]
    have fb: "n = file_block sector fs inode ?j" using g(3) n by simp
    have vn: "valid_blk gs n" "refs gs n < 2 ^ 32 - 1" using g(4) n K r by (auto simp: same_metaD view_keepsD refs_below_def)
    obtain p hs u where h: "ext2_get_block n gs t = Some (p, hs, u)" "p = 0 \<longrightarrow> quiet F gs t hs u"
      "p \<noteq> 0 \<longrightarrow> block_at p hs = Some (bview sector gs n) \<and> same_meta gs hs \<and> quiet F gs t (ext2_put_block p False hs) u"
      using peek [OF Q(5) vn] by blast
    let ?xs = "take c (drop (P mod ?bs) (bview sector fs n))"
    have l: "length (bview sector fs n) = ?bs" by (rule view_length [OF inv])
    have "P mod ?bs + c \<le> ?bs \<or> c = 0 \<and> ?bs \<le> P mod ?bs" using c by linarith
    moreover have "?bs > 0" using inv by (simp add: cache_inv_def geo_ok_def unat_gt_0)
    ultimately have le: "P mod ?bs + c \<le> ?bs" by (metis mod_less_divisor not_less)
    then have "disk_get (P mod ?bs) c (bview sector fs n) = Some ?xs" "length ?xs = c" by (simp_all add: disk_get_def l)
    moreover have "reads fs inode P ?xs"
      using le D n fb by (auto simp: reads_def file_byte_def Let_def l)
    ultimately show ?thesis using h K quiet_trans [OF g(2)] by metis
  qed
  ultimately show ?thesis using g(1,2) by blast
qed

text \<open>What a loop that still has to read \<open>left\<close> bytes gives.\<close>

definition read_res :: "region set \<Rightarrow> u32 \<Rightarrow> u8 list \<Rightarrow> ext2_file \<Rightarrow> 'd ext2_fs \<Rightarrow> 'a heap_scheme \<Rightarrow> int \<times> u8 list \<times> ext2_file \<times> 'd ext2_fs \<times> 'a heap_scheme \<Rightarrow> bool" where
  "read_res F left acc f fs s = (\<lambda>(r, acc', f', fs', s'). \<exists>xs. acc' = acc @ xs \<and> quiet F fs s fs' s' \<and> f_inode f' = f_inode f
     \<and> reads fs (f_inode f) (unat (position f)) xs
     \<and> (r = EXT2_ERROR_IO \<or> r = sint (of_nat (length acc + unat left) :: u32) \<and> length xs = unat left \<and> position f' = position f + ucast left))"

lemma read_res_next:
  assumes q: "quiet F fs s hs u" and xs: "length xs = unat c" "reads fs (f_inode f) (unat (position f)) xs"
    and c: "unat c \<le> unat left" "unat (left - c) = unat left - unat c" "unat (position f + ucast c) = unat (position f) + unat c"
      "position f + ucast c + ucast (left - c) = position f + ucast left"
    and R: "read_res F (left - c) (acc @ xs) (f\<lparr>position := position f + ucast c\<rparr>) hs u res"
  shows "read_res F left acc f fs s res"
proof -
  obtain r acc' f' fs' s' where e: "res = (r, acc', f', fs', s')" by (cases res)
  obtain ys where ys: "acc' = (acc @ xs) @ ys" "quiet F hs u fs' s'" "f_inode f' = f_inode f" "reads hs (f_inode f) (unat (position f) + unat c) ys"
    "r = EXT2_ERROR_IO \<or> r = sint (of_nat (length (acc @ xs) + unat (left - c)) :: u32) \<and> length ys = unat (left - c)
       \<and> position f' = position f + ucast c + ucast (left - c)"
    using R c(3) by (auto simp: read_res_def e)
  have "reads fs (f_inode f) (unat (position f)) (xs @ ys)"
    using reads_append [OF xs(2)] ys(4) xs(1) by (simp add: reads_def quiet_file [OF q])
  then show ?thesis using ys c xs(1) quiet_trans [OF q ys(2)] unfolding read_res_def e by (auto intro!: exI [of _ "xs @ ys"])
qed

lemma read_loop:
  assumes "cache_inv good sector F fs s" "refs_below (2 ^ 32 - 1) fs" "blocks_valid sector fs (f_inode f) N"
    "unat (block_size fs) \<le> 4096" "unat (position f) + unat left < 2 ^ 32" "unat (position f) + unat left \<le> N * unat (block_size fs)"
  shows "\<exists>res. read_loop left acc f fs s = Some res \<and> read_res F left acc f fs s res"
  using assms
proof (induction "unat left" arbitrary: left acc f fs s rule: less_induct)
  case less
  let ?bs = "unat (block_size fs)" and ?P = "unat (position f)"
  note U = read_loop.simps [of left acc f fs s]
  show ?case
  proof (cases "left = 0")
    case True then show ?thesis using quiet_refl [OF less.prems(1)] U by (simp add: reads_def read_res_def)
  next
    case False
    have b0: "block_size fs \<noteq> 0" using less.prems(1) by (simp add: cache_inv_def geo_ok_def)
    have P: "?P < 2 ^ 32" using less.prems(5) by simp
    obtain c where c: "chunk_at (position f) left fs = Some (of_nat (?P div ?bs), of_nat (?P mod ?bs), c)" "0 < unat c" "unat c \<le> unat left"
      "unat c \<le> ?bs - ?P mod ?bs" "unat (of_nat (?P mod ?bs) :: u32) = ?P mod ?bs"
      "unat (left - c) = unat left - unat c" "unat (position f + ucast c) = ?P + unat c" "position f + ucast c + ucast (left - c) = position f + ucast left"
      by (rule chunk_facts [OF b0 less.prems(5) False])
    have j: "?P div ?bs < N" using less.prems(6) c(2,3) by (intro less_mult_imp_div_less) simp
    have nxt: "\<exists>res. read_loop (left - c) (acc @ xs) (f\<lparr>position := position f + ucast c\<rparr>) hs u = Some res \<and> read_res F left acc f fs s res"
      if q: "quiet F fs s hs u" and xs: "length xs = unat c" "reads fs (f_inode f) ?P xs" for xs hs u
    proof -
      have "\<exists>res. read_loop (left - c) (acc @ xs) (f\<lparr>position := position f + ucast c\<rparr>) hs u = Some res
          \<and> read_res F (left - c) (acc @ xs) (f\<lparr>position := position f + ucast c\<rparr>) hs u res"
        by (rule less.hyps) (use c less.prems in \<open>auto simp: quiet_file [OF q]\<close>)
      then show ?thesis using read_res_next [OF q xs c(3,6,7,8)] by blast
    qed
    obtain n gs t where g: "ext2_get_block_num (of_nat (?P div ?bs)) False (f_inode f) fs s = Some (n, f_inode f, gs, t)" "quiet F fs s gs t"
      "n = 0 \<longrightarrow> reads fs (f_inode f) ?P (replicate (unat c) 0)"
      "n \<noteq> 0 \<longrightarrow> (\<exists>p hs u. ext2_get_block n gs t = Some (p, hs, u) \<and> (p = 0 \<longrightarrow> quiet F fs s hs u)
         \<and> (p \<noteq> 0 \<longrightarrow> quiet F fs s (ext2_put_block p False hs) u
              \<and> (\<exists>xs data. block_at p hs = Some data \<and> disk_get (?P mod ?bs) (unat c) data = Some xs \<and> length xs = unat c \<and> reads fs (f_inode f) ?P xs)))"
      using read_chunk [OF less.prems(1-4) P j c(4)] by blast
    show ?thesis
    proof (cases "n = 0")
      case True
      then show ?thesis using nxt [OF g(2), of "replicate (unat c) 0"] g(1,3) False c(1) U by (simp add: Let_def)
    next
      case n: False
      then obtain p hs u where h: "ext2_get_block n gs t = Some (p, hs, u)" "p = 0 \<longrightarrow> quiet F fs s hs u"
        "p \<noteq> 0 \<longrightarrow> quiet F fs s (ext2_put_block p False hs) u
              \<and> (\<exists>xs data. block_at p hs = Some data \<and> disk_get (?P mod ?bs) (unat c) data = Some xs \<and> length xs = unat c \<and> reads fs (f_inode f) ?P xs)"
        using g(4) by blast
      show ?thesis
      proof (cases "p = 0")
        case True
        then show ?thesis using n g(1) False c(1) h(1,2) U by (simp add: Let_def reads_def read_res_def)
      next
        case p: False
        then obtain xs data where "block_at p hs = Some data" "disk_get (?P mod ?bs) (unat c) data = Some xs" "length xs = unat c" "reads fs (f_inode f) ?P xs"
          "quiet F fs s (ext2_put_block p False hs) u" using h(3) by blast
        then show ?thesis using nxt n g(1) False c(1,5) h(1) p U by (simp add: Let_def)
      qed
    qed
  qed
qed

end

section \<open>Writing a file\<close>

text \<open>The direct blocks of a file are different data blocks.\<close>

definition file_ok :: "('d block_device \<Rightarrow> nat \<Rightarrow> u8 list) \<Rightarrow> 'd ext2_fs \<Rightarrow> ext2_inode \<Rightarrow> bool" where
  "file_ok sec fs inode \<longleftrightarrow> inode_ok inode \<and> (\<forall>k < 12. i_block inode ! k \<noteq> 0 \<longrightarrow> data_block sec fs (i_block inode ! k))
     \<and> (\<forall>j < 12. \<forall>k < 12. i_block inode ! j = i_block inode ! k \<longrightarrow> i_block inode ! j = 0 \<or> j = k)"

definition own_blocks :: "ext2_inode \<Rightarrow> u32 set" where
  "own_blocks inode = {i_block inode ! k | k. k < 12 \<and> i_block inode ! k \<noteq> 0}"

definition grows :: "ext2_inode \<Rightarrow> ext2_inode \<Rightarrow> bool" where
  "grows inode inode' \<longleftrightarrow> (\<forall>k < 12. i_block inode ! k \<noteq> 0 \<longrightarrow> i_block inode' ! k = i_block inode ! k)"

lemma file_block_direct: "j < 12 \<Longrightarrow> file_block sec fs inode j = i_block inode ! j"
proof -
  assume j: "j < 12"
  then have "unat (of_nat j :: u32) = j" by (simp add: unat_of_nat take_bit_nat_eq_self_iff)
  then show ?thesis using j by (simp add: file_block_def block_path_def word_less_nat_alt)
qed

lemma file_byte_direct:
  assumes "k < 12 * unat (block_size fs)"
  shows "file_byte sec fs inode k = (if i_block inode ! (k div unat (block_size fs)) = 0 then 0
    else bview sec fs (i_block inode ! (k div unat (block_size fs))) ! (k mod unat (block_size fs)))"
proof -
  have "k div unat (block_size fs) < 12" using assms by (simp add: less_mult_imp_div_less)
  then show ?thesis by (simp add: file_byte_def file_block_direct)
qed

lemma same_block:
  fixes k P bs n :: nat
  assumes "k div bs = P div bs"
  shows "k - P = k mod bs - P mod bs" "P \<le> k \<longleftrightarrow> P mod bs \<le> k mod bs" "k < P + n \<longleftrightarrow> k mod bs < P mod bs + n"
proof -
  define D where "D = P div bs * bs"
  have "k = D + k mod bs" "P = D + P mod bs" unfolding D_def using assms by (metis div_mult_mod_eq)+
  then show "k - P = k mod bs - P mod bs" "P \<le> k \<longleftrightarrow> P mod bs \<le> k mod bs" "k < P + n \<longleftrightarrow> k mod bs < P mod bs + n" by linarith+
qed

context block_store
begin

lemma frame_drop: "frame F (B \<union> C) fs s gs t \<Longrightarrow> (\<And>c. c \<in> C \<Longrightarrow> c \<in> B \<or> \<not> data_block sector fs c) \<Longrightarrow> frame F B fs s gs t"
  by (auto simp: frame_def)

lemma frame_ok:
  assumes "frame F B fs s gs t" "refs_below n fs"
  shows "cache_inv good sector F gs t" "volume_ok sector gs" "refs_below n gs" "block_size gs = block_size fs" "same_geo fs gs"
  using assms view_keepsD [of F fs s gs t] same_geoD(1) [of fs gs] by (auto simp: frame_def)

lemma volume_groups: "volume_ok sector fs \<Longrightarrow> groups_ok fs"
  by (simp add: volume_ok_def inodes_ok_def)

lemma frame_file_ok:
  assumes "frame F B fs s gs t" "volume_ok sector fs" "file_ok sector fs inode"
  shows "file_ok sector gs inode"
  using assms frame_data [OF assms(1) volume_groups [OF assms(2)]] by (auto simp: file_ok_def)

text \<open>The contents of the direct blocks after \<open>xs\<close> was written at \<open>P\<close>.\<close>

definition writes :: "nat \<Rightarrow> u8 list \<Rightarrow> 'd ext2_fs \<Rightarrow> ext2_inode \<Rightarrow> 'd ext2_fs \<Rightarrow> ext2_inode \<Rightarrow> bool" where
  "writes P xs fs inode fs' inode' \<longleftrightarrow> (\<forall>k < 12 * unat (block_size fs).
     (P \<le> k \<and> k < P + length xs \<longrightarrow> i_block inode' ! (k div unat (block_size fs)) \<noteq> 0 \<and> file_byte sector fs' inode' k = xs ! (k - P))
     \<and> (\<not> (P \<le> k \<and> k < P + length xs) \<and> (i_block inode ! (k div unat (block_size fs)) \<noteq> 0 \<or> i_block inode' ! (k div unat (block_size fs)) = 0)
        \<longrightarrow> file_byte sector fs' inode' k = file_byte sector fs inode k))"

lemma writes_refl: "writes P [] fs inode fs inode"
  by (auto simp: writes_def)

lemma writes_append:
  assumes w: "writes P xs fs inode gs inode1" "writes (P + length xs) ys gs inode1 hs inode2"
    and g: "grows inode inode1" "grows inode1 inode2" and bs: "block_size gs = block_size fs"
  shows "writes P (xs @ ys) fs inode hs inode2"
  unfolding writes_def
proof (intro allI impI)
  fix k assume k: "k < 12 * unat (block_size fs)"
  let ?d = "k div unat (block_size fs)"
  have d: "?d < 12" using k by (simp add: less_mult_imp_div_less)
  note A = w(1) [unfolded writes_def, rule_format, OF k] and B = w(2) [unfolded writes_def bs, rule_format, OF k]
  have G: "i_block inode ! ?d \<noteq> 0 \<longrightarrow> i_block inode1 ! ?d = i_block inode ! ?d" "i_block inode1 ! ?d \<noteq> 0 \<longrightarrow> i_block inode2 ! ?d = i_block inode1 ! ?d"
    using g d by (auto simp: grows_def)
  consider "P \<le> k" "k < P + length xs" | "P + length xs \<le> k" "k < P + length xs + length ys" | "k < P \<or> P + length xs + length ys \<le> k" by linarith
  then show "(P \<le> k \<and> k < P + length (xs @ ys) \<longrightarrow> i_block inode2 ! ?d \<noteq> 0 \<and> file_byte sector hs inode2 k = (xs @ ys) ! (k - P))
      \<and> (\<not> (P \<le> k \<and> k < P + length (xs @ ys)) \<and> (i_block inode ! ?d \<noteq> 0 \<or> i_block inode2 ! ?d = 0) \<longrightarrow> file_byte sector hs inode2 k = file_byte sector fs inode k)"
  proof cases
    case 1
    then have "k - P < length xs" by linarith
    with 1 show ?thesis using A B G by (simp add: nth_append)
  next
    case 2
    then have "\<not> k - P < length xs" by linarith
    with 2 show ?thesis using B by (simp add: nth_append diff_diff_add)
  next
    case 3
    then have "\<not> (P \<le> k \<and> k < P + length xs)" "\<not> (P + length xs \<le> k \<and> k < P + length xs + length ys)" by auto
    with 3 A B G show ?thesis by auto
  qed
qed

lemma get_block_num_write:
  assumes inv: "cache_inv good sector F fs s" and v: "volume_ok sector fs" and r: "refs_below (2 ^ 32 - 1) fs" and f: "file_ok sector fs inode" and j: "j < 12"
  shows "\<exists>b inode' gs t. ext2_get_block_num (of_nat j) True inode fs s = Some (b, inode', gs, t) \<and> frame F {} fs s gs t
    \<and> file_ok sector gs inode' \<and> grows inode inode' \<and> (\<exists>bl. inode' = inode\<lparr>i_block := bl\<rparr>)
    \<and> (\<forall>c \<in> own_blocks inode'. c \<in> own_blocks inode \<or> \<not> data_block sector fs c)
    \<and> (b \<noteq> 0 \<longrightarrow> i_block inode' ! j = b \<and> (\<forall>k. k \<noteq> j \<longrightarrow> i_block inode' ! k = i_block inode ! k)
        \<and> (i_block inode ! j = b \<or> i_block inode ! j = 0 \<and> \<not> data_block sector fs b))"
proof -
  have "unat (of_nat j :: u32) = j" using j by (simp add: unat_of_nat take_bit_nat_eq_self_iff)
  then have p: "block_path (block_size fs div 4) (of_nat j) = Some (j, [])" using j by (simp add: block_path_def word_less_nat_alt)
  have len: "length (i_block inode) = 15" using f by (simp add: file_ok_def inode_ok_def)
  obtain b inode' gs t where a: "root_slot j True inode fs s = Some (b, inode', gs, t)" "frame F {} fs s gs t"
    "b = i_block inode ! j \<and> inode' = inode
       \<or> i_block inode ! j = 0 \<and> inode' = inode\<lparr>i_block := (i_block inode)[j := b]\<rparr> \<and> in_groups fs b \<and> \<not> block_used sector fs b \<and> data_block sector gs b"
    using root_slot [OF inv v r, of j inode] len j by auto
  have run: "ext2_get_block_num (of_nat j) True inode fs s = Some (b, inode', gs, t)" using p a(1) by (simp add: ext2_get_block_num_def tree_slot_def)
  note ok = frame_file_ok [OF a(2) v f]
  from a(3) show ?thesis
  proof
    assume h: "b = i_block inode ! j \<and> inode' = inode"
    then have "\<exists>bl. inode' = inode\<lparr>i_block := bl\<rparr>" by (intro exI [of _ "i_block inode"]) simp
    then show ?thesis using run a(2) ok h by (auto simp: grows_def)
  next
    assume h: "i_block inode ! j = 0 \<and> inode' = inode\<lparr>i_block := (i_block inode)[j := b]\<rparr> \<and> in_groups fs b \<and> \<not> block_used sector fs b \<and> data_block sector gs b"
    have new: "i_block inode ! k \<noteq> b" if "k < 12" "i_block inode ! k \<noteq> 0" for k using that h f by (auto simp: file_ok_def data_block_def)
    have nth: "i_block inode' ! k = (if k = j then b else i_block inode ! k)" for k using h len j by (cases "k = j") auto
    have nd: "\<not> data_block sector fs b" using h by (simp add: data_block_def)
    have b0: "b \<noteq> 0" using h by (auto simp: data_block_def sys_blocks_def)
    have "file_ok sector gs inode'"
      using ok new h b0 unfolding file_ok_def nth by (auto simp: inode_ok_def)
    moreover have "\<forall>c \<in> own_blocks inode'. c \<in> own_blocks inode \<or> \<not> data_block sector fs c"
      unfolding own_blocks_def nth using nd by auto
    ultimately show ?thesis using run a(2) h nth nd by (auto simp: grows_def)
  qed
qed

lemma chunk_writes:
  assumes B: "i_block inode' ! (P div unat (block_size fs)) = b" "\<And>k. k \<noteq> P div unat (block_size fs) \<Longrightarrow> i_block inode' ! k = i_block inode ! k"
      "i_block inode ! (P div unat (block_size fs)) = b \<or> i_block inode ! (P div unat (block_size fs)) = 0" "b \<noteq> 0"
      "\<And>k. k < 12 \<Longrightarrow> k \<noteq> P div unat (block_size fs) \<Longrightarrow> i_block inode ! k \<noteq> b"
    and len: "length (bview sector gs b) = unat (block_size fs)"
    and le: "P mod unat (block_size fs) + length xs \<le> unat (block_size fs)"
    and view: "bview sector hs = (bview sector gs)(b := overlay (P mod unat (block_size fs)) xs (bview sector gs b))"
    and bk: "block_size hs = block_size fs"
    and same: "\<And>k. k < 12 \<Longrightarrow> i_block inode ! k \<noteq> 0 \<Longrightarrow> bview sector gs (i_block inode ! k) = bview sector fs (i_block inode ! k)"
  shows "writes P xs fs inode hs inode'"
  unfolding writes_def
proof (intro allI impI)
  let ?bs = "unat (block_size fs)" and ?j = "P div unat (block_size fs)"
  fix k assume k: "k < 12 * ?bs"
  then have kd: "k div ?bs < 12" "k mod ?bs < ?bs" by (auto simp: less_mult_imp_div_less)
  note N = file_byte_direct [of k hs sector inode', unfolded bk, OF k] and O = file_byte_direct [OF k, of sector inode]
  show "(P \<le> k \<and> k < P + length xs \<longrightarrow> i_block inode' ! (k div ?bs) \<noteq> 0 \<and> file_byte sector hs inode' k = xs ! (k - P))
    \<and> (\<not> (P \<le> k \<and> k < P + length xs) \<and> (i_block inode ! (k div ?bs) \<noteq> 0 \<or> i_block inode' ! (k div ?bs) = 0)
       \<longrightarrow> file_byte sector hs inode' k = file_byte sector fs inode k)"
  proof (cases "k div ?bs = ?j")
    case True
    note eq = same_block [OF True]
    have "file_byte sector hs inode' k = (if P \<le> k \<and> k < P + length xs then xs ! (k - P) else bview sector gs b ! (k mod ?bs))"
      using N True B(1,4) le len kd(2) by (simp add: view nth_overlay eq)
    then show ?thesis using True B(1,3,4) O same [OF kd(1)] by auto
  next
    case False
    then have s: "i_block inode' ! (k div ?bs) = i_block inode ! (k div ?bs)" using B(2) by simp
    have "file_byte sector hs inode' k = file_byte sector fs inode k"
      using N O s same [OF kd(1)] B(5) [OF kd(1) False] by (simp add: view)
    moreover have "length xs \<le> ?bs - P mod ?bs" using le by linarith
    then have "\<not> (P \<le> k \<and> k < P + length xs)" using chunk_div(1) [of "k - P" "length xs" ?bs P] False
      by (metis le_add_diff_inverse nat_add_left_cancel_less)
    ultimately show ?thesis by blast
  qed
qed

lemma write_chunk:
  assumes inv: "cache_inv good sector F fs s" and v: "volume_ok sector fs" and r: "refs_below (2 ^ 32 - 1) fs" and f: "file_ok sector fs inode"
    and P: "P div unat (block_size fs) < 12" and c: "length xs \<le> unat (block_size fs) - P mod unat (block_size fs)"
  shows "\<exists>b inode' gs t. ext2_get_block_num (of_nat (P div unat (block_size fs))) True inode fs s = Some (b, inode', gs, t) \<and> frame F {} fs s gs t
    \<and> file_ok sector gs inode' \<and> grows inode inode' \<and> (\<exists>bl. inode' = inode\<lparr>i_block := bl\<rparr>)
    \<and> (\<forall>c \<in> own_blocks inode'. c \<in> own_blocks inode \<or> \<not> data_block sector fs c)
    \<and> (b \<noteq> 0 \<longrightarrow> (\<exists>p hs u. ext2_get_block b gs t = Some (p, hs, u) \<and> (p = 0 \<longrightarrow> frame F {} fs s hs u \<and> file_ok sector hs inode')
         \<and> (p \<noteq> 0 \<longrightarrow> (\<exists>ks. block_copy p (P mod unat (block_size fs)) xs hs = Some ks
              \<and> frame F (own_blocks inode) fs s (ext2_put_block p True ks) u
              \<and> file_ok sector (ext2_put_block p True ks) inode' \<and> writes P xs fs inode (ext2_put_block p True ks) inode'))))"
proof -
  let ?bs = "unat (block_size fs)" and ?j = "P div unat (block_size fs)"
  obtain b inode' gs t where g: "ext2_get_block_num (of_nat ?j) True inode fs s = Some (b, inode', gs, t)" "frame F {} fs s gs t"
    "file_ok sector gs inode'" "grows inode inode'" "\<exists>bl. inode' = inode\<lparr>i_block := bl\<rparr>"
    "\<forall>c \<in> own_blocks inode'. c \<in> own_blocks inode \<or> \<not> data_block sector fs c"
    "b \<noteq> 0 \<longrightarrow> i_block inode' ! ?j = b \<and> (\<forall>k. k \<noteq> ?j \<longrightarrow> i_block inode' ! k = i_block inode ! k)
        \<and> (i_block inode ! ?j = b \<or> i_block inode ! ?j = 0 \<and> \<not> data_block sector fs b)"
    using get_block_num_write [OF inv v r f P] by blast
  note G = frame_ok [OF g(2) r]
  have "\<exists>p hs u. ext2_get_block b gs t = Some (p, hs, u) \<and> (p = 0 \<longrightarrow> frame F {} fs s hs u \<and> file_ok sector hs inode')
         \<and> (p \<noteq> 0 \<longrightarrow> (\<exists>ks. block_copy p (P mod ?bs) xs hs = Some ks
              \<and> frame F (own_blocks inode) fs s (ext2_put_block p True ks) u
              \<and> file_ok sector (ext2_put_block p True ks) inode' \<and> writes P xs fs inode (ext2_put_block p True ks) inode'))"
    if b: "b \<noteq> 0"
  proof -
    have B: "i_block inode' ! ?j = b" "\<And>k. k \<noteq> ?j \<Longrightarrow> i_block inode' ! k = i_block inode ! k"
      "i_block inode ! ?j = b \<or> i_block inode ! ?j = 0 \<and> \<not> data_block sector fs b" using g(7) b by auto
    have db: "data_block sector gs b" using g(3) P B(1) b by (auto simp: file_ok_def)
    then have vb: "valid_blk gs b" "refs gs b < 2 ^ 32 - 1" "b \<notin> set (meta_blocks gs)"
      using G(2,3) by (auto simp: volume_ok_def data_block_def refs_below_def sys_blocks_def)
    have "?bs > 0" using inv by (simp add: cache_inv_def geo_ok_def unat_gt_0)
    then have le: "P mod ?bs + length xs \<le> ?bs" using c mod_less_divisor [of ?bs P] by linarith
    let ?ys = "overlay (P mod ?bs) xs (bview sector gs b)"
    obtain p hs u where h: "ext2_get_block b gs t = Some (p, hs, u)" "p = 0 \<longrightarrow> quiet F gs t hs u"
      "p \<noteq> 0 \<longrightarrow> (\<exists>ks. block_copy p (P mod ?bs) xs hs = Some ks \<and> same_meta gs ks \<and> edits F b ?ys gs t (ext2_put_block p True ks) u)"
      using poke_bytes [OF G(1) vb(1,2), of "P mod ?bs" xs] le G(4) by auto
    have q0: "frame F {} fs s hs u \<and> file_ok sector hs inode'" if "p = 0"
    proof -
      have "frame F {} gs t hs u" by (rule quiet_frame [OF _ G(2)]) (use h(2) that in simp)
      from frame_trans [OF g(2) this volume_groups [OF v]] frame_file_ok [OF this G(2) g(3)] show ?thesis by simp
    qed
    have "\<exists>ks. block_copy p (P mod ?bs) xs hs = Some ks \<and> frame F (own_blocks inode) fs s (ext2_put_block p True ks) u
              \<and> file_ok sector (ext2_put_block p True ks) inode' \<and> writes P xs fs inode (ext2_put_block p True ks) inode'" if p: "p \<noteq> 0"
    proof -
      obtain ks where ks: "block_copy p (P mod ?bs) xs hs = Some ks" "edits F b ?ys gs t (ext2_put_block p True ks) u" using h(3) p by blast
      let ?k = "ext2_put_block p True ks"
      have fr: "frame F {b} gs t ?k u" by (rule edit_frame [OF ks(2) G(2) vb(3)])
      have view: "bview sector ?k = (bview sector gs)(b := ?ys)" using ks(2) by (simp add: edits_def)
      have "frame F ({} \<union> {b}) fs s ?k u" by (rule frame_trans [OF g(2) fr volume_groups [OF v]])
      then have "frame F (own_blocks inode \<union> {b}) fs s ?k u" by (rule frame_mono) auto
      then have "frame F (own_blocks inode) fs s ?k u" by (rule frame_drop) (use B(3) b P in \<open>auto simp: own_blocks_def\<close>)
      moreover have "file_ok sector ?k inode'" by (rule frame_file_ok [OF fr G(2) g(3)])
      moreover have "writes P xs fs inode ?k inode'"
      proof (rule chunk_writes [OF B(1,2) _ b _ _ le view])
        show "i_block inode ! ?j = b \<or> i_block inode ! ?j = 0" using B(3) by blast
        show "length (bview sector gs b) = ?bs" using view_length [OF G(1)] G(4) by simp
        show "block_size ?k = block_size fs" using frame_ok(4) [OF fr G(3)] G(4) by simp
        show "i_block inode ! k \<noteq> b" if "k < 12" "k \<noteq> ?j" for k
          using g(3) B(1,2) b that P unfolding file_ok_def by metis
        show "bview sector gs (i_block inode ! k) = bview sector fs (i_block inode ! k)" if "k < 12" "i_block inode ! k \<noteq> 0" for k
          using g(2) f that by (simp add: frame_def file_ok_def)
      qed
      ultimately show ?thesis using ks(1) by blast
    qed
    then show ?thesis using h(1) q0 by blast
  qed
  then show ?thesis using g(1-6) by blast
qed

end

text \<open>The size of a file after a write that ends at \<open>e\<close>.\<close>

definition sized :: "ext2_inode \<Rightarrow> ext2_inode \<Rightarrow> nat \<Rightarrow> bool" where
  "sized inode inode' e \<longleftrightarrow> unat (i_size inode') = max (unat (i_size inode)) e"

lemma file_ok_cong: "i_block inode' = i_block inode \<Longrightarrow> i_osd2 inode' = i_osd2 inode \<Longrightarrow> file_ok sec fs inode' = file_ok sec fs inode"
  by (simp add: file_ok_def inode_ok_def)

lemma file_byte_cong: "i_block inode' = i_block inode \<Longrightarrow> file_byte sec fs inode' = file_byte sec fs inode"
  proof -
  assume "i_block inode' = i_block inode"
  then have "file_block sec fs inode' = file_block sec fs inode" by (auto simp: fun_eq_iff file_block_def split: option.split)
  then show ?thesis by (simp add: file_byte_def fun_eq_iff)
qed

context block_store
begin

lemma writes_cong: "i_block i2 = i_block i1 \<Longrightarrow> writes P xs fs inode gs i2 = writes P xs fs inode gs i1"
  using file_byte_cong [of i2 i1 sector gs] by (simp add: writes_def)

lemma grows_trans: "grows i1 i2 \<Longrightarrow> grows i2 i3 \<Longrightarrow> grows i1 i3"
  by (simp add: grows_def)

lemma write_loop_step:
  assumes left: "left \<noteq> 0" and ch: "chunk_at (position f) left fs = Some (bi, bo, c)"
    and g: "ext2_get_block_num bi True (f_inode f) fs s = Some (b, inode, gs, t)"
  shows "b = 0 \<Longrightarrow> ext2_write_loop buf left f fs s = Some (EXT2_ERROR_NO_SPACE, f\<lparr>f_inode := inode\<rparr>, gs, t)"
    "b \<noteq> 0 \<Longrightarrow> ext2_get_block b gs t = Some (0, hs, u) \<Longrightarrow> ext2_write_loop buf left f fs s = Some (EXT2_ERROR_IO, f\<lparr>f_inode := inode\<rparr>, hs, u)"
    "b \<noteq> 0 \<Longrightarrow> ext2_get_block b gs t = Some (p, hs, u) \<Longrightarrow> p \<noteq> 0 \<Longrightarrow> block_copy p (unat bo) (take (unat c) buf) hs = Some ks \<Longrightarrow>
      ext2_write_loop buf left f fs s = ext2_write_loop (drop (unat c) buf) (left - c)
        (f\<lparr>position := position f + ucast c,
           f_inode := (if position f + ucast c > ucast (i_size inode) then inode\<lparr>i_size := ucast (position f + ucast c)\<rparr> else inode)\<rparr>)
        (ext2_put_block p True ks) u"
proof -
  note U = ext2_write_loop.simps [of buf left f fs s] left ch g
  show "b = 0 \<Longrightarrow> ext2_write_loop buf left f fs s = Some (EXT2_ERROR_NO_SPACE, f\<lparr>f_inode := inode\<rparr>, gs, t)" using U by simp
  show "b \<noteq> 0 \<Longrightarrow> ext2_get_block b gs t = Some (0, hs, u) \<Longrightarrow> ext2_write_loop buf left f fs s = Some (EXT2_ERROR_IO, f\<lparr>f_inode := inode\<rparr>, hs, u)"
    using U by simp
  assume "b \<noteq> 0" "ext2_get_block b gs t = Some (p, hs, u)" "p \<noteq> 0" "block_copy p (unat bo) (take (unat c) buf) hs = Some ks"
  then show "ext2_write_loop buf left f fs s = ext2_write_loop (drop (unat c) buf) (left - c)
        (f\<lparr>position := position f + ucast c,
           f_inode := (if position f + ucast c > ucast (i_size inode) then inode\<lparr>i_size := ucast (position f + ucast c)\<rparr> else inode)\<rparr>)
        (ext2_put_block p True ks) u"
    using U by (cases f) (simp add: Let_def)
qed

definition write_res :: "region set \<Rightarrow> u8 list \<Rightarrow> u32 \<Rightarrow> ext2_file \<Rightarrow> 'd ext2_fs \<Rightarrow> 'a heap_scheme \<Rightarrow> int \<times> ext2_file \<times> 'd ext2_fs \<times> 'a heap_scheme \<Rightarrow> bool" where
  "write_res F buf left f fs s = (\<lambda>(r, f', fs', s'). frame F (own_blocks (f_inode f)) fs s fs' s'
     \<and> file_ok sector fs' (f_inode f') \<and> grows (f_inode f) (f_inode f') \<and> inode_num f' = inode_num f \<and> is_directory f' = is_directory f
     \<and> (r = EXT2_ERROR_NO_SPACE \<or> r = EXT2_ERROR_IO
        \<or> r = EXT2_SUCCESS \<and> position f' = position f + ucast left \<and> writes (unat (position f)) buf fs (f_inode f) fs' (f_inode f')
            \<and> (if left = 0 then f_inode f' = f_inode f else sized (f_inode f) (f_inode f') (unat (position f) + unat left))))"

lemma write_res_next:
  assumes v: "volume_ok sector fs" and fr: "frame F (own_blocks (f_inode f)) fs s hs u" and bs: "block_size hs = block_size fs"
    and w: "writes (unat (position f)) (take (unat c) buf) fs (f_inode f) hs i2" and gr: "grows (f_inode f) i2"
    and own: "\<forall>b \<in> own_blocks i2. b \<in> own_blocks (f_inode f) \<or> \<not> data_block sector fs b"
    and sz: "unat (i_size i2) = max (unat (i_size (f_inode f))) (unat (position f) + unat c)"
    and c: "left \<noteq> 0" "unat c \<le> unat left" "length buf = unat left" "unat (left - c) = unat left - unat c"
      "unat (position f + ucast c) = unat (position f) + unat c" "position f + ucast c + ucast (left - c) = position f + ucast left"
    and R: "write_res F (drop (unat c) buf) (left - c) (f\<lparr>position := position f + ucast c, f_inode := i2\<rparr>) hs u res"
  shows "write_res F buf left f fs s res"
proof -
  let ?P = "unat (position f)"
  obtain r f' fs' s' where e: "res = (r, f', fs', s')" by (cases res)
  have r: "frame F (own_blocks i2) hs u fs' s'" "file_ok sector fs' (f_inode f')" "grows i2 (f_inode f')" "inode_num f' = inode_num f \<and> is_directory f' = is_directory f"
    "r = EXT2_ERROR_NO_SPACE \<or> r = EXT2_ERROR_IO
     \<or> r = EXT2_SUCCESS \<and> position f' = position f + ucast left \<and> writes (?P + unat c) (drop (unat c) buf) hs i2 fs' (f_inode f')
         \<and> (if left - c = 0 then f_inode f' = i2 else sized i2 (f_inode f') (?P + unat c + unat (left - c)))"
    using R c(5,6) by (auto simp: write_res_def e split: if_splits)
  have "frame F (own_blocks (f_inode f) \<union> own_blocks i2) fs s fs' s'" by (rule frame_trans [OF fr r(1) volume_groups [OF v]])
  then have "frame F (own_blocks (f_inode f)) fs s fs' s'" by (rule frame_drop) (use own in blast)
  moreover have "writes ?P buf fs (f_inode f) fs' (f_inode f')" if "writes (?P + unat c) (drop (unat c) buf) hs i2 fs' (f_inode f')"
    using writes_append [OF w, of "drop (unat c) buf" fs' "f_inode f'"] that c gr r(3) bs by simp
  moreover have "sized (f_inode f) (f_inode f') (?P + unat left)"
    if "if left - c = 0 then f_inode f' = i2 else sized i2 (f_inode f') (?P + unat c + unat (left - c))"
    using that sz c(2,4) by (cases "left = c") (auto simp: sized_def)
  ultimately show ?thesis using r(2,4,5) grows_trans [OF gr r(3)] c(1) by (auto simp: write_res_def e)
qed

lemma resized:
  fixes f :: ext2_file and c :: u32
  defines "i2 inode' \<equiv> (if position f + ucast c > ucast (i_size inode') then inode'\<lparr>i_size := ucast (position f + ucast c)\<rparr> else inode')"
  assumes "unat (position f + ucast c) = unat (position f) + unat c" "unat (position f) + unat c < 2 ^ 32"
  shows "i_block (i2 inode') = i_block inode'" "i_osd2 (i2 inode') = i_osd2 inode'"
    "unat (i_size (i2 inode')) = max (unat (i_size inode')) (unat (position f) + unat c)"
proof -
  have "unat (ucast (position f + ucast c) :: u32) = unat (position f) + unat c"
    using assms(2,3) by (simp add: unsigned_ucast_eq take_bit_nat_eq_self_iff)
  then show "unat (i_size (i2 inode')) = max (unat (i_size inode')) (unat (position f) + unat c)"
    using assms(2) by (auto simp: i2_def word_less_nat_alt)
qed (auto simp: i2_def)

lemma write_loop:
  assumes "cache_inv good sector F fs s" "volume_ok sector fs" "refs_below (2 ^ 32 - 1) fs" "file_ok sector fs (f_inode f)"
    "unat (block_size fs) \<le> 4096" "unat (position f) + unat left \<le> 12 * unat (block_size fs)" "length buf = unat left"
  shows "\<exists>res. ext2_write_loop buf left f fs s = Some res \<and> write_res F buf left f fs s res"
  using assms
proof (induction "unat left" arbitrary: left buf f fs s rule: less_induct)
  case less
  let ?bs = "unat (block_size fs)" and ?P = "unat (position f)"
  show ?case
  proof (cases "left = 0")
    case True
    then show ?thesis using frame_mono [OF quiet_frame [OF quiet_refl [OF less.prems(1)] less.prems(2)]] less.prems(4,7) writes_refl
      ext2_write_loop.simps [of buf left f fs s] by (simp add: grows_def write_res_def)
  next
    case False
    have b0: "block_size fs \<noteq> 0" using less.prems(1) by (simp add: cache_inv_def geo_ok_def)
    have "12 * ?bs < 2 ^ 32" using less.prems(5) by simp
    then have P: "?P + unat left < 2 ^ 32" using less.prems(6) by linarith
    obtain c where c: "chunk_at (position f) left fs = Some (of_nat (?P div ?bs), of_nat (?P mod ?bs), c)" "0 < unat c" "unat c \<le> unat left"
      "unat c \<le> ?bs - ?P mod ?bs" "unat (of_nat (?P mod ?bs) :: u32) = ?P mod ?bs"
      "unat (left - c) = unat left - unat c" "unat (position f + ucast c) = ?P + unat c" "position f + ucast c + ucast (left - c) = position f + ucast left"
      by (rule chunk_facts [OF b0 P False])
    have j: "?P div ?bs < 12" using less.prems(6) c(2,3) by (intro less_mult_imp_div_less) simp
    have lx: "length (take (unat c) buf) \<le> ?bs - ?P mod ?bs" using c(3,4) less.prems(7) by auto
    obtain b inode' gs t where g: "ext2_get_block_num (of_nat (?P div ?bs)) True (f_inode f) fs s = Some (b, inode', gs, t)" "frame F {} fs s gs t"
      "file_ok sector gs inode'" "grows (f_inode f) inode'" "\<exists>bl. inode' = (f_inode f)\<lparr>i_block := bl\<rparr>"
      "\<forall>c \<in> own_blocks inode'. c \<in> own_blocks (f_inode f) \<or> \<not> data_block sector fs c"
      "b \<noteq> 0 \<longrightarrow> (\<exists>p hs u. ext2_get_block b gs t = Some (p, hs, u) \<and> (p = 0 \<longrightarrow> frame F {} fs s hs u \<and> file_ok sector hs inode')
         \<and> (p \<noteq> 0 \<longrightarrow> (\<exists>ks. block_copy p (?P mod ?bs) (take (unat c) buf) hs = Some ks
              \<and> frame F (own_blocks (f_inode f)) fs s (ext2_put_block p True ks) u
              \<and> file_ok sector (ext2_put_block p True ks) inode' \<and> writes ?P (take (unat c) buf) fs (f_inode f) (ext2_put_block p True ks) inode')))"
      using write_chunk [OF less.prems(1-4) j lx] by blast
    note step = write_loop_step [OF False c(1) g(1)]
    show ?thesis
    proof (cases "b = 0")
      case True
      then show ?thesis using step(1) g(3,4) frame_mono [OF g(2)] by (simp add: write_res_def)
    next
      case b: False
      then obtain p hs u where h: "ext2_get_block b gs t = Some (p, hs, u)" "p = 0 \<longrightarrow> frame F {} fs s hs u \<and> file_ok sector hs inode'"
        "p \<noteq> 0 \<longrightarrow> (\<exists>ks. block_copy p (?P mod ?bs) (take (unat c) buf) hs = Some ks \<and> frame F (own_blocks (f_inode f)) fs s (ext2_put_block p True ks) u
              \<and> file_ok sector (ext2_put_block p True ks) inode' \<and> writes ?P (take (unat c) buf) fs (f_inode f) (ext2_put_block p True ks) inode')"
        using g(7) by blast
      show ?thesis
      proof (cases "p = 0")
        case True
        then show ?thesis using step(2) b h(1,2) g(4) frame_mono [of F "{}" fs s hs u] by (simp add: write_res_def)
      next
        case p: False
        then obtain ks where ks: "block_copy p (?P mod ?bs) (take (unat c) buf) hs = Some ks" "frame F (own_blocks (f_inode f)) fs s (ext2_put_block p True ks) u"
          "file_ok sector (ext2_put_block p True ks) inode'" "writes ?P (take (unat c) buf) fs (f_inode f) (ext2_put_block p True ks) inode'" using h(3) by blast
        define i2 where "i2 = (if position f + ucast c > ucast (i_size inode') then inode'\<lparr>i_size := ucast (position f + ucast c)\<rparr> else inode')"
        have "?P + unat c < 2 ^ 32" using P c(3) by linarith
        note i2 = resized [OF c(7) this, of inode', folded i2_def]
        let ?f = "f\<lparr>position := position f + ucast c, f_inode := i2\<rparr>" and ?k = "ext2_put_block p True ks"
        note K = frame_ok [OF ks(2) less.prems(3)]
        have "\<exists>res. ext2_write_loop (drop (unat c) buf) (left - c) ?f ?k u = Some res \<and> write_res F (drop (unat c) buf) (left - c) ?f ?k u res"
          by (rule less.hyps) (use K less.prems c ks(3) file_ok_cong [OF i2(1,2)] in auto)
        then obtain res where res: "ext2_write_loop (drop (unat c) buf) (left - c) ?f ?k u = Some res" "write_res F (drop (unat c) buf) (left - c) ?f ?k u res"
          by blast
        have "write_res F buf left f fs s res"
          by (rule write_res_next [OF less.prems(2) ks(2) K(4) _ _ _ _ False c(3) less.prems(7) c(6-8) res(2)])
            (use ks(4) writes_cong [OF i2(1)] g(4,5,6) i2 in \<open>auto simp: grows_def own_blocks_def\<close>)
        then show ?thesis using step(3) [OF b h(1) p] ks(1) c(5) res(1) by (simp add: i2_def)
      qed
    qed
  qed
qed

end

lemma sint_small: "n < 2 ^ 31 \<Longrightarrow> sint (of_nat n :: u32) = int n"
  by (simp add: signed_of_nat signed_take_bit_int_eq_self)

lemma table_sys: "table_range fs g q \<Longrightarrow> table_block fs g q \<in> sys_blocks fs"
  by (auto simp: sys_blocks_def)

context block_store
begin

lemma free_entries:
  assumes "distinct (cptrs es)" "set (cptrs es) \<subseteq> P" "ptr_mem F P s" "0 \<notin> set (cptrs es)"
  shows "\<exists>t. free_entries es s = Some t \<and> heap_step F s t \<and> ptr_mem F (P - set (cptrs es)) t"
  using assms
proof (induction es arbitrary: s P)
  case (Cons e es)
  obtain t where t: "kfree (ce_data_ptr e) s = Some t" "heap_step F s t" "ptr_mem F (P - {unat (ce_data_ptr e)}) t"
    using ptr_free [OF Cons.prems(3), of "ce_data_ptr e"] Cons.prems(2) by auto
  obtain u where u: "kfree (ce_ptr e) t = Some u" "heap_step F t u" "ptr_mem F (P - {unat (ce_data_ptr e)} - {unat (ce_ptr e)}) u"
    using ptr_free [OF t(3), of "ce_ptr e"] Cons.prems(1,2) by auto
  obtain v where v: "free_entries es u = Some v" "heap_step F u v" "ptr_mem F (P - {unat (ce_data_ptr e)} - {unat (ce_ptr e)} - set (cptrs es)) v"
    using Cons.IH [OF _ _ u(3)] Cons.prems(1,2,4) by auto
  have "P - {unat (ce_data_ptr e)} - {unat (ce_ptr e)} - set (cptrs es) = P - set (cptrs (e # es))" by auto
  moreover have "heap_step F s v" by (rule heap_step_trans [OF t(2) heap_step_trans [OF u(2) v(2)]])
  ultimately show ?case using t(1) u(1) v(1,3) by simp
qed auto

lemma write_inode_frame:
  assumes inv: "cache_inv good sector F fs s" and v: "volume_ok sector fs" and r: "refs_below (2 ^ 32 - 1) fs" and i: "inode_ok inode"
  shows "\<exists>r fs' s'. ext2_write_inode n inode fs s = Some (r, fs', s') \<and> frame F {} fs s fs' s' \<and> (r = EXT2_SUCCESS \<longrightarrow> inode_at sector fs' n = inode)"
proof -
  have ok: "inodes_ok fs" using v by (simp add: volume_ok_def)
  obtain q fs' s' where w: "ext2_write_inode n inode fs s = Some (q, fs', s')" "q \<noteq> EXT2_SUCCESS \<longrightarrow> quiet F fs s fs' s'"
    "q = EXT2_SUCCESS \<longrightarrow> keeps F fs s fs' s' \<and> same_meta fs fs' \<and> inode_at sector fs' n = inode
        \<and> (\<exists>g q X. table_range fs g q \<and> bview sector fs' = (bview sector fs)(table_block fs g q := X))"
    using write_inode [OF inv ok r i, of n] by blast
  have "frame F {} fs s fs' s'"
  proof (cases "q = EXT2_SUCCESS")
    case False then show ?thesis using w(2) quiet_frame [OF _ v] by blast
  next
    case True
    then obtain g p X where t: "keeps F fs s fs' s'" "same_meta fs fs'" "table_range fs g p" "bview sector fs' = (bview sector fs)(table_block fs g p := X)"
      using w(3) by blast
    have "table_block fs g p \<notin> set (meta_blocks fs)" using ok t(3) by (simp add: inodes_ok_def)
    then have "frame F {table_block fs g p} fs s fs' s'" using edit_frame [of F "table_block fs g p" X fs s fs' s'] t v by (simp add: edits_def)
    then show ?thesis using table_sys [OF t(3)] by (auto simp: frame_def data_block_def)
  qed
  then show ?thesis using w by blast
qed

text \<open>An operation that touches no data block of a file keeps its contents.\<close>

lemma frame_bytes:
  assumes fr: "frame F {} fs s fs' s'" and f: "file_ok sector fs inode" and bs: "block_size fs' = block_size fs" and k: "k < 12 * unat (block_size fs)"
  shows "file_byte sector fs' inode k = file_byte sector fs inode k"
proof -
  have "k div unat (block_size fs) < 12" using k by (simp add: less_mult_imp_div_less)
  then show ?thesis
    using fr f file_byte_direct [OF k, of sector inode] file_byte_direct [of k fs' sector inode] bs k by (auto simp: frame_def file_ok_def)
qed

lemma write_file:
  assumes inv: "cache_inv good sector F fs s" and v: "volume_ok sector fs" and r: "refs_below (2 ^ 32 - 1) fs" and f: "file_ok sector fs (f_inode f)"
    and bs: "unat (block_size fs) \<le> 4096" and P: "unat (position f) + length buf \<le> 12 * unat (block_size fs)" and d: "\<not> is_directory f"
  shows "\<exists>r f' fs' s'. ext2_write f buf fs s = Some (r, f', fs', s') \<and> frame F (own_blocks (f_inode f)) fs s fs' s' \<and> file_ok sector fs' (f_inode f') \<and> is_directory f' = is_directory f
    \<and> (r = EXT2_ERROR_NO_SPACE \<or> r = EXT2_ERROR_IO
       \<or> r = int (length buf) \<and> position f' = position f + of_nat (length buf) \<and> writes (unat (position f)) buf fs (f_inode f) fs' (f_inode f')
           \<and> (if buf = [] then f_inode f' = f_inode f else sized (f_inode f) (f_inode f') (unat (position f) + length buf)))"
proof -
  let ?n = "of_nat (length buf) :: u32"
  have lb: "length buf < 2 ^ 31" using P bs by simp
  then have n: "unat ?n = length buf" by (simp add: unat_of_nat take_bit_nat_eq_self_iff)
  have si: "sint ?n = int (length buf)" by (rule sint_small [OF lb])
  have uc: "(ucast ?n :: u64) = of_nat (length buf)" using n by (intro word_unat_eq_iff [THEN iffD2]) (use lb in \<open>simp add: unat_of_nat take_bit_nat_eq_self_iff\<close>)
  obtain q f' gs t where w: "ext2_write_loop buf ?n f fs s = Some (q, f', gs, t)" "write_res F buf ?n f fs s (q, f', gs, t)"
    using write_loop [OF inv v r f bs, of ?n buf] P n by auto
  have dir: "is_directory f' = is_directory f" using w(2) by (simp add: write_res_def)
  have W: "frame F (own_blocks (f_inode f)) fs s gs t" "file_ok sector gs (f_inode f')"
    "q = EXT2_ERROR_NO_SPACE \<or> q = EXT2_ERROR_IO
       \<or> q = EXT2_SUCCESS \<and> position f' = position f + of_nat (length buf) \<and> writes (unat (position f)) buf fs (f_inode f) gs (f_inode f')
           \<and> (if buf = [] then f_inode f' = f_inode f else sized (f_inode f) (f_inode f') (unat (position f) + length buf))"
    using w(2) n uc by (auto simp: write_res_def unat_eq_zero split: if_splits)
  show ?thesis
  proof (cases "q = EXT2_SUCCESS")
    case False
    then show ?thesis using w(1) W d dir by (auto simp: ext2_write_def)
  next
    case True
    note G = frame_ok [OF W(1) r]
    have "inode_ok (f_inode f')" using W(2) by (simp add: file_ok_def)
    from write_inode_frame [OF G(1-3) this, of "inode_num f'"]
    obtain r2 hs u where h: "ext2_write_inode (inode_num f') (f_inode f') gs t = Some (r2, hs, u)" "frame F {} gs t hs u" by blast
    have run: "ext2_write f buf fs s = Some (int (length buf), f', hs, u)" using d w(1) True h(1) si by (simp add: ext2_write_def)
    have "frame F (own_blocks (f_inode f) \<union> {}) fs s hs u" by (rule frame_trans [OF W(1) h(2) volume_groups [OF v]])
    moreover have "file_ok sector hs (f_inode f')" by (rule frame_file_ok [OF h(2) G(2) W(2)])
    moreover have "writes (unat (position f)) buf fs (f_inode f) hs (f_inode f')"
    proof -
      have "block_size hs = block_size gs" using frame_ok(4) [OF h(2) G(3)] by simp
      then have "file_byte sector hs (f_inode f') k = file_byte sector gs (f_inode f') k" if "k < 12 * unat (block_size fs)" for k
        using frame_bytes [OF h(2) W(2)] that G(4) by simp
      then show ?thesis using W(3) True by (auto simp: writes_def)
    qed
    ultimately show ?thesis using run W(3) True dir by auto
  qed
qed

lemma read_file:
  assumes inv: "cache_inv good sector F fs s" and r: "refs_below (2 ^ 32 - 1) fs" and v: "blocks_valid sector fs (f_inode f) N"
    and bs: "unat (block_size fs) \<le> 4096" and P: "unat (i_size (f_inode f)) \<le> N * unat (block_size fs)" "unat (i_size (f_inode f)) < 2 ^ 31" and d: "\<not> is_directory f"
  shows "\<exists>r xs f' fs' s'. ext2_read f n fs s = Some (r, xs, f', fs', s') \<and> quiet F fs s fs' s' \<and> f_inode f' = f_inode f
    \<and> reads fs (f_inode f) (unat (position f)) xs
    \<and> (r = EXT2_ERROR_IO \<or> r = int (length xs) \<and> length xs = min (unat n) (unat (i_size (f_inode f)) - unat (position f))
         \<and> position f' = position f + of_nat (length xs))"
proof (cases "position f \<ge> ucast (i_size (f_inode f))")
  case True
  then have "unat (i_size (f_inode f)) \<le> unat (position f)" by (simp add: word_le_nat_alt)
  then show ?thesis using True d quiet_refl [OF inv] by (simp add: ext2_read_def reads_def)
next
  case False
  let ?sz = "unat (i_size (f_inode f))" and ?P = "unat (position f)"
  have lt: "?P < ?sz" using False by (simp add: word_le_nat_alt)
  define rest where "rest = ucast (i_size (f_inode f)) - position f"
  have ur: "unat rest = ?sz - ?P" using False by (simp add: rest_def unat_sub)
  define m where "m = (if ucast n < rest then n else ucast rest)"
  have um: "unat m = min (unat n) (?sz - ?P)"
  proof -
    have "unat (ucast rest :: u32) = ?sz - ?P" using ur P(2) by (simp add: unsigned_ucast_eq take_bit_nat_eq_self_iff)
    then show ?thesis using ur by (auto simp: m_def word_less_nat_alt)
  qed
  have si: "sint (of_nat (unat m) :: u32) = int (unat m)"
    by (rule sint_small) (use um P(2) in simp)
  have "unat m \<le> ?sz - ?P" using um by simp
  then have le: "?P + unat m \<le> ?sz" using lt by linarith
  have b: "?P + unat m < 2 ^ 32" "?P + unat m \<le> N * unat (block_size fs)"
    by (rule le_less_trans [OF le]) (use P le in simp_all)
  obtain res where "read_loop m [] f fs s = Some res" "read_res F m [] f fs s res"
    using read_loop [OF inv r v bs b, of "[]"] by blast
  moreover have "ext2_read f n fs s = read_loop m [] f fs s" using False d by (simp add: ext2_read_def rest_def m_def Let_def)
  moreover have "(of_nat (unat m) :: u64) = ucast m" by simp
  ultimately show ?thesis using si um by (auto simp: read_res_def)
qed

end

end
