(* ===== verification/Ext2Props.thy ===== *)
theory Ext2Props
  imports Ext2FileProps UserProps
begin

text \<open>
  The properties of the ext2 driver on disks in memory, and a volume on which they are applied.
\<close>

section \<open>Properties\<close>

definition mounted_ok :: "region set \<Rightarrow> mem_ctx ext2_fs \<Rightarrow> 'a heap_scheme \<Rightarrow> bool" where
  "mounted_ok F fs s \<longleftrightarrow> cache_inv mem_good mem_sector F fs s \<and> volume_ok mem_sector fs \<and> refs_below (2 ^ 32 - 1) fs
     \<and> unat (block_size fs) \<le> 4096"

lemma frame_mounted: "ram.frame F B fs s fs' s' \<Longrightarrow> mounted_ok F fs s \<Longrightarrow> mounted_ok F fs' s' \<and> same_geo fs fs'"
  using ram.frame_ok [of F B fs s fs' s' "2 ^ 32 - 1"] by (auto simp: mounted_ok_def)

text \<open>
  C26: The block cache is transparent. A block that is fetched has its contents, those of the cache or
  of the device; fetching, with the evictions and write-backs it causes, changes the contents of no
  block. Data assigned to the block and released as dirty changes the contents of that block only.
  A failed fetch changes nothing.
\<close>

theorem block_cache_transparent:
  assumes "cache_inv mem_good mem_sector F fs s" "valid_blk fs b" "refs fs b < 2 ^ 32 - 1"
  shows "\<exists>p fs' s'. ext2_get_block b fs s = Some (p, fs', s') \<and> bview mem_sector fs' = bview mem_sector fs
    \<and> cache_inv mem_good mem_sector F fs' s'
    \<and> (if p = 0 then refs fs' = refs fs
       else block_at p fs' = Some (bview mem_sector fs b) \<and> refs fs' = (refs fs)(b := refs fs b + 1)
         \<and> (\<forall>xs. length xs = unat (block_size fs) \<longrightarrow>
              bview mem_sector (ext2_put_block p True (block_put p xs fs')) = (bview mem_sector fs)(b := xs)
              \<and> refs (ext2_put_block p True (block_put p xs fs')) = refs fs
              \<and> cache_inv mem_good mem_sector F (ext2_put_block p True (block_put p xs fs')) s'))"
proof -
  obtain p fs' s' where g: "ext2_get_block b fs s = Some (p, fs', s')" "if p = 0 then ram.quiet F fs s fs' s' else ram.taken F p b fs s fs' s'"
    using ram.get_block [OF assms] by blast
  have w: "ram.edits F b xs fs s (ext2_put_block p True (block_put p xs fs')) s'" if "p \<noteq> 0" "length xs = unat (block_size fs)" for xs
    using ram.poke [OF assms] g(1) that by auto
  show ?thesis
  proof (cases "p = 0")
    case True then show ?thesis using g by (simp add: ram.quiet_def)
  next
    case False
    then have t: "ram.taken F p b fs s fs' s'" using g(2) by simp
    moreover have "block_at p fs' = Some (bview mem_sector fs' b)"
      by (rule ram.block_at_view) (use t in \<open>auto simp: ram.taken_def\<close>)
    ultimately show ?thesis using False g(1) w by (auto simp: ram.taken_def ram.edits_def ram.keeps_def)
  qed
qed

text \<open>
  C27: Unmounting returns and gives the memory of the file system back to the heap. If the dirty
  blocks could be written, the device holds afterwards the contents of every block.
\<close>

theorem unmount_writes_back:
  assumes "cache_inv mem_good mem_sector F fs s" "(unat (group_desc_ptr fs), m) \<in> F" "(unat (fs_ptr fs), n) \<in> F"
    "group_desc_ptr fs \<noteq> fs_ptr fs"
  shows "\<exists>r fs' t. ext2_flush_cache fs = Some (r, fs') \<and> ext2_unmount fs s = Some (EXT2_SUCCESS, fs_device fs', t)
    \<and> heap_owns t (F - {(unat (group_desc_ptr fs), m), (unat (fs_ptr fs), n)})
    \<and> (r = EXT2_SUCCESS \<longrightarrow> dblock mem_sector fs' = bview mem_sector fs)"
proof -
  obtain r fs' where f: "ext2_flush_cache fs = Some (r, fs')" "ram.quiet F fs s fs' s" "cptrs (cache fs') = cptrs (cache fs)"
    "r = EXT2_SUCCESS \<longrightarrow> dblock mem_sector fs' = bview mem_sector fs"
    using ram.flush_cache [OF assms(1)] by blast
  have c: "entries_ok mem_sector fs'" "ptr_mem F (set (cptrs (cache fs'))) s" "same_meta fs fs'" using f(2) by (auto simp: ram.quiet_def cache_inv_def)
  then obtain t where t: "free_entries (cache fs') s = Some t" "ptr_mem F (set (cptrs (cache fs')) - set (cptrs (cache fs'))) t"
    using ram.free_entries [of "cache fs'" "set (cptrs (cache fs'))" F s] by (auto simp: entries_ok_def)
  then have o: "heap_owns t F" by (auto simp: ptr_mem_def)
  obtain u where u: "kfree (group_desc_ptr fs) t = Some u" "heap_owns u (F - {(unat (group_desc_ptr fs), m)})"
    using kheap.free_law [OF o assms(2)] by blast
  have "(unat (fs_ptr fs), n) \<in> F - {(unat (group_desc_ptr fs), m)}" using assms(3,4) by (simp add: word_unat_eq_iff)
  then obtain v where v: "kfree (fs_ptr fs) u = Some v" "heap_owns v (F - {(unat (group_desc_ptr fs), m)} - {(unat (fs_ptr fs), n)})"
    using kheap.free_law [OF u(2)] by blast
  have "F - {(unat (group_desc_ptr fs), m)} - {(unat (fs_ptr fs), n)} = F - {(unat (group_desc_ptr fs), m), (unat (fs_ptr fs), n)}" by blast
  then show ?thesis using f(1,4) t(1) u(1) v same_metaD [OF c(3)] by (auto simp: ext2_unmount_def)
qed

text \<open>
  C29: Reading an inode after it was written gives the inode that was written, and every other
  inode is what it was; invalid numbers are refused. A failed write changes nothing.
\<close>

theorem inode_write_read:
  assumes "mounted_ok F fs s" "inode_ok inode"
  shows "\<exists>r fs' s'. ext2_write_inode n inode fs s = Some (r, fs', s') \<and> mounted_ok F fs' s'
    \<and> (r = EXT2_ERROR_INVALID \<longleftrightarrow> bad_inode_num n fs)
    \<and> (\<forall>m. \<not> bad_inode_num m fs \<longrightarrow>
         (\<exists>q fs'' s''. ext2_read_inode m fs' s' = Some (q, fs'', s'')
           \<and> (q = Inl EXT2_ERROR_IO \<or> q = Inr (if m = n \<and> r = EXT2_SUCCESS then inode else inode_at mem_sector fs m))))"
proof -
  have ok: "cache_inv mem_good mem_sector F fs s" "inodes_ok fs" "refs_below (2 ^ 32 - 1) fs" "volume_ok mem_sector fs"
    using assms(1) by (auto simp: mounted_ok_def volume_ok_def)
  obtain r fs' s' where w: "ext2_write_inode n inode fs s = Some (r, fs', s')" "r \<noteq> EXT2_SUCCESS \<longrightarrow> ram.quiet F fs s fs' s'"
    "r = EXT2_SUCCESS \<longrightarrow> inode_at mem_sector fs' n = inode \<and> (\<forall>m. m \<noteq> n \<longrightarrow> \<not> bad_inode_num m fs \<longrightarrow> inode_at mem_sector fs' m = inode_at mem_sector fs m)"
    "r = EXT2_ERROR_INVALID \<longleftrightarrow> bad_inode_num n fs"
    using ram.write_inode [OF ok(1-3) assms(2), of n] by blast
  have fr: "ram.frame F {} fs s fs' s'" using ram.write_inode_frame [OF ok(1,4,3) assms(2), of n] w(1) by auto
  note M = frame_mounted [OF fr assms(1)]
  have i: "inodes_ok fs'" "cache_inv mem_good mem_sector F fs' s'" "refs_below (2 ^ 32 - 1) fs'" using M by (auto simp: mounted_ok_def volume_ok_def)
  have at: "inode_at mem_sector fs' m = (if m = n \<and> r = EXT2_SUCCESS then inode else inode_at mem_sector fs m)" if m: "\<not> bad_inode_num m fs" for m
  proof (cases "r = EXT2_SUCCESS")
    case True then show ?thesis using w(3) m by auto
  next
    case False
    then have "bview mem_sector fs' = bview mem_sector fs" using w(2) by (simp add: ram.quiet_def)
    then show ?thesis using False same_geo_inode(2) [OF conjunct2 [OF M] ok(2) m] by (simp add: inode_at_def split: option.split)
  qed
  have "\<exists>q fs'' s''. ext2_read_inode m fs' s' = Some (q, fs'', s'')
           \<and> (q = Inl EXT2_ERROR_IO \<or> q = Inr (if m = n \<and> r = EXT2_SUCCESS then inode else inode_at mem_sector fs m))" if m: "\<not> bad_inode_num m fs" for m
  proof -
    have "\<not> bad_inode_num m fs'" using same_geo_inode(1) [OF conjunct2 [OF M] ok(2), of m] m by simp
    then obtain q fs'' s'' where "ext2_read_inode m fs' s' = Some (q, fs'', s'')" "q = Inl EXT2_ERROR_IO \<or> q = Inr (inode_at mem_sector fs' m)"
      using ram.read_inode [OF i(2,1,3), of m] by auto
    then show ?thesis unfolding at [OF m] by blast
  qed
  then show ?thesis using w(1,4) M by blast
qed

text \<open>
  C28: A block that is allocated was free and is marked as used afterwards; no other mark changes, no
  block outside of the bitmaps and descriptors changes, and a block of the system is never handed out.
  When the call fails nothing changes, and it reports a lack of space only if every group is full.
\<close>

theorem alloc_block_fresh:
  assumes "mounted_ok F fs s"
  shows "\<exists>r fs' s'. ext2_alloc_block fs s = Some (r, fs', s') \<and> mounted_ok F fs' s'
    \<and> (case r of
         Inl e \<Rightarrow> bview mem_sector fs' = bview mem_sector fs
           \<and> (e = EXT2_ERROR_IO \<or> e = EXT2_ERROR_NO_SPACE \<and> (\<forall>g < unat (num_groups fs). group_full mem_sector fs g))
       | Inr b \<Rightarrow> in_groups fs b \<and> \<not> block_used mem_sector fs b \<and> b \<notin> sys_blocks fs
           \<and> (\<forall>c. in_groups fs c \<longrightarrow> (block_used mem_sector fs' c \<longleftrightarrow> block_used mem_sector fs c \<or> c = b))
           \<and> (\<forall>c. c \<notin> set (meta_blocks fs) \<longrightarrow> bview mem_sector fs' c = bview mem_sector fs c)
           \<and> s_free_blocks_count (superblock fs') = s_free_blocks_count (superblock fs) - 1)"
proof -
  have ok: "cache_inv mem_good mem_sector F fs s" "groups_ok fs" "refs_below (2 ^ 32 - 1) fs" "volume_ok mem_sector fs"
    using assms(1) by (auto simp: mounted_ok_def volume_ok_def inodes_ok_def)
  obtain r fs' s' where a: "ext2_alloc_block fs s = Some (r, fs', s')" "ram.alloc_res F 0 (unat (num_groups fs)) fs s r fs' s'"
    using ram.alloc_block_from [OF ok(1-3), of 0 "unat (num_groups fs)"] by (auto simp: ext2_alloc_block_def)
  have "ram.frame F {} fs s fs' s'" using ram.alloc_block [OF ok(1,4,3)] a(1) by auto
  note M = frame_mounted [OF this assms(1)]
  show ?thesis
  proof (cases r)
    case (Inl e)
    then show ?thesis using a M by (auto simp: ram.alloc_res_def ram.quiet_def)
  next
    case (Inr b)
    then obtain h i where t: "b = group_block fs h i" "ram.takes_block F h i fs s fs' s'" using a(2) by (auto simp: ram.alloc_res_def)
    note T = ram.takes_used [OF ok(1,2) t(2), folded t(1)]
    have "b \<notin> sys_blocks fs" using T(1,2) ok(4) by (auto simp: volume_ok_def)
    moreover have "s_free_blocks_count (superblock fs') = s_free_blocks_count (superblock fs) - 1" using t(2) by (simp add: ram.takes_block_def)
    ultimately show ?thesis using a(1) M Inr T by auto
  qed
qed

text \<open>
  Freeing a block clears its mark and no other, and changes no block outside of the bitmaps and
  descriptors; a number outside the volume is refused and changes nothing.
\<close>

theorem free_block_exact:
  assumes "mounted_ok F fs s"
  shows "\<exists>r fs' s'. ext2_free_block b fs s = Some (r, fs', s')
    \<and> (r = EXT2_ERROR_INVALID \<longleftrightarrow> b < first_data_block fs \<or> b \<ge> s_blocks_count (superblock fs))
    \<and> (if r = EXT2_SUCCESS
       then (\<forall>c. in_groups fs c \<longrightarrow> (block_used mem_sector fs' c \<longleftrightarrow> block_used mem_sector fs c \<and> c \<noteq> b))
         \<and> (\<forall>c. c \<notin> set (meta_blocks fs) \<longrightarrow> bview mem_sector fs' c = bview mem_sector fs c)
         \<and> s_free_blocks_count (superblock fs') = s_free_blocks_count (superblock fs) + 1
       else bview mem_sector fs' = bview mem_sector fs)"
proof -
  have ok: "cache_inv mem_good mem_sector F fs s" "groups_ok fs" "refs_below (2 ^ 32 - 1) fs"
    using assms(1) by (auto simp: mounted_ok_def volume_ok_def inodes_ok_def)
  obtain r fs' s' where f: "ext2_free_block b fs s = Some (r, fs', s')" "r \<noteq> EXT2_SUCCESS \<longrightarrow> ram.quiet F fs s fs' s'"
    "r = EXT2_SUCCESS \<longrightarrow> (\<forall>c. in_groups fs c \<longrightarrow> (block_used mem_sector fs' c \<longleftrightarrow> block_used mem_sector fs c \<and> c \<noteq> b))
        \<and> (\<forall>c. c \<notin> set (meta_blocks fs) \<longrightarrow> bview mem_sector fs' c = bview mem_sector fs c)
        \<and> s_free_blocks_count (superblock fs') = s_free_blocks_count (superblock fs) + 1"
    "r = EXT2_ERROR_INVALID \<longleftrightarrow> b < first_data_block fs \<or> b \<ge> s_blocks_count (superblock fs)"
    using ram.free_block [OF ok, of b] by blast
  show ?thesis
    by (rule exI [of _ r], rule exI [of _ fs'], rule exI [of _ s'], cases "r = EXT2_SUCCESS") (use f in \<open>simp_all add: ram.quiet_def\<close>)
qed


text \<open>
  C24: Writing to the direct blocks of a file returns. On success the file holds the bytes written at the
  position, and every byte outside of the range that had a block before is unchanged, the size covers
  the range and the position is behind it. On success and on failure the contents of all data blocks
  that are not blocks of the file stay the same and the volume stays sound.
\<close>

theorem ext2_write_correct:
  assumes "mounted_ok F fs s" "file_ok mem_sector fs (f_inode f)" "\<not> is_directory f"
    "unat (position f) + length buf \<le> 12 * unat (block_size fs)"
  shows "\<exists>r f' fs' s'. ext2_write f buf fs s = Some (r, f', fs', s') \<and> mounted_ok F fs' s' \<and> file_ok mem_sector fs' (f_inode f')
    \<and> (\<forall>c. data_block mem_sector fs c \<longrightarrow> c \<notin> own_blocks (f_inode f) \<longrightarrow> bview mem_sector fs' c = bview mem_sector fs c)
    \<and> (r = EXT2_ERROR_NO_SPACE \<or> r = EXT2_ERROR_IO
       \<or> r = int (length buf) \<and> position f' = position f + of_nat (length buf)
         \<and> (\<forall>i < length buf. file_byte mem_sector fs' (f_inode f') (unat (position f) + i) = buf ! i)
         \<and> (\<forall>k < 12 * unat (block_size fs). \<not> (unat (position f) \<le> k \<and> k < unat (position f) + length buf) \<longrightarrow>
              i_block (f_inode f) ! (k div unat (block_size fs)) \<noteq> 0 \<longrightarrow>
              file_byte mem_sector fs' (f_inode f') k = file_byte mem_sector fs (f_inode f) k)
         \<and> (buf \<noteq> [] \<longrightarrow> unat (i_size (f_inode f')) = max (unat (i_size (f_inode f))) (unat (position f) + length buf)))"
proof -
  have ok: "cache_inv mem_good mem_sector F fs s" "volume_ok mem_sector fs" "refs_below (2 ^ 32 - 1) fs" "unat (block_size fs) \<le> 4096"
    using assms(1) by (auto simp: mounted_ok_def)
  obtain r f' fs' s' where w: "ext2_write f buf fs s = Some (r, f', fs', s')" "ram.frame F (own_blocks (f_inode f)) fs s fs' s'" "file_ok mem_sector fs' (f_inode f')"
    "r = EXT2_ERROR_NO_SPACE \<or> r = EXT2_ERROR_IO
       \<or> r = int (length buf) \<and> position f' = position f + of_nat (length buf) \<and> ram.writes (unat (position f)) buf fs (f_inode f) fs' (f_inode f')
           \<and> (if buf = [] then f_inode f' = f_inode f else sized (f_inode f) (f_inode f') (unat (position f) + length buf))"
    using ram.write_file [OF ok(1-3) assms(2) ok(4) assms(4,3)] by blast
  have "file_byte mem_sector fs' (f_inode f') (unat (position f) + i) = buf ! i"
    if "ram.writes (unat (position f)) buf fs (f_inode f) fs' (f_inode f')" "i < length buf" for i
    using that assms(4) unfolding ram.writes_def by (auto dest!: spec [of _ "unat (position f) + i"])
  moreover have "\<forall>c. data_block mem_sector fs c \<longrightarrow> c \<notin> own_blocks (f_inode f) \<longrightarrow> bview mem_sector fs' c = bview mem_sector fs c"
    using w(2) by (auto simp: ram.frame_def)
  moreover have "mounted_ok F fs' s'" using frame_mounted [OF w(2) assms(1)] by blast
  ultimately show ?thesis using w(1,3,4) by (auto simp: sized_def ram.writes_def)
qed


lemma file_ok_blocks: "volume_ok sec fs \<Longrightarrow> file_ok sec fs inode \<Longrightarrow> blocks_valid sec fs inode 12"
  unfolding blocks_valid_def
proof (intro allI impI)
  fix j k js assume v: "volume_ok sec fs" "file_ok sec fs inode" and j: "j < 12" "block_path (block_size fs div 4) (of_nat j) = Some (k, js)"
  have "unat (of_nat j :: u32) = j" using j(1) by (simp add: unat_of_nat take_bit_nat_eq_self_iff)
  then have "k = j \<and> js = []" using block_path_root [OF j(2)] j(1) by (simp add: word_less_nat_alt)
  then show "walk_valid fs (bview sec fs) (i_block inode ! k) js"
    using v j(1) by (auto simp: file_ok_def volume_ok_def data_block_def)
qed

lemma write_then_read:
  assumes "mounted_ok F fs s" "file_ok mem_sector fs (f_inode f)" "\<not> is_directory f" "unat (i_size (f_inode f)) \<le> 12 * unat (block_size fs)"
    "unat (position f) + length buf \<le> 12 * unat (block_size fs)"
  shows "\<exists>r f' fs' s'. ext2_write f buf fs s = Some (r, f', fs', s') \<and> (r = EXT2_ERROR_NO_SPACE \<or> r = EXT2_ERROR_IO \<or> r = int (length buf))
    \<and> heap_step F s s' \<and> mounted_ok F fs' s'
    \<and> (r = int (length buf) \<longrightarrow> (\<forall>t :: 'a heap_scheme. mounted_ok F fs' t \<longrightarrow>
        (\<exists>q xs f'' fs'' t''. ext2_read (f'\<lparr>position := position f\<rparr>) (of_nat (length buf)) fs' t = Some (q, xs, f'', fs'', t'')
          \<and> (q = EXT2_ERROR_IO \<or> q = int (length buf) \<and> xs = buf))))"
proof -
  have ok: "cache_inv mem_good mem_sector F fs s" "volume_ok mem_sector fs" "refs_below (2 ^ 32 - 1) fs" "unat (block_size fs) \<le> 4096"
    using assms(1) by (auto simp: mounted_ok_def)
  obtain r f' fs' s' where w: "ext2_write f buf fs s = Some (r, f', fs', s')" "ram.frame F (own_blocks (f_inode f)) fs s fs' s'" "file_ok mem_sector fs' (f_inode f')"
    "is_directory f' = is_directory f" "r = EXT2_ERROR_NO_SPACE \<or> r = EXT2_ERROR_IO
       \<or> r = int (length buf) \<and> position f' = position f + of_nat (length buf) \<and> ram.writes (unat (position f)) buf fs (f_inode f) fs' (f_inode f')
           \<and> (if buf = [] then f_inode f' = f_inode f else sized (f_inode f) (f_inode f') (unat (position f) + length buf))"
    using ram.write_file [OF ok(1-3) assms(2) ok(4) assms(5,3)] by blast
  have M: "mounted_ok F fs' s'" "block_size fs' = block_size fs" using frame_mounted [OF w(2) assms(1)] by (auto simp: same_geoD)
  have h: "heap_step F s s'" using w(2) by (simp add: ram.frame_def ram.keeps_def)
  have "\<exists>q xs f'' fs'' t''. ext2_read (f'\<lparr>position := position f\<rparr>) (of_nat (length buf)) fs' t = Some (q, xs, f'', fs'', t'')
      \<and> (q = EXT2_ERROR_IO \<or> q = int (length buf) \<and> xs = buf)" if r: "r = int (length buf)" and t: "mounted_ok F fs' t" for t :: "'a heap_scheme"
  proof -
    let ?g = "f'\<lparr>position := position f\<rparr>" and ?P = "unat (position f)"
    have wr: "ram.writes ?P buf fs (f_inode f) fs' (f_inode f')" "buf \<noteq> [] \<longrightarrow> unat (i_size (f_inode f')) = max (unat (i_size (f_inode f))) (?P + length buf)"
      "buf = [] \<longrightarrow> f_inode f' = f_inode f" using w(5) r by (auto simp: sized_def split: if_splits)
    have sz: "unat (i_size (f_inode f')) \<le> 12 * unat (block_size fs')" using wr(2,3) assms(4,5) M(2) by (cases "buf = []") auto
    then have sz2: "unat (i_size (f_inode f')) < 2 ^ 31" using M(2) ok(4) by simp
    have n: "unat (of_nat (length buf) :: u32) = length buf" using assms(5) ok(4) by (simp add: unat_of_nat take_bit_nat_eq_self_iff)
    have bv: "blocks_valid mem_sector fs' (f_inode ?g) 12" using file_ok_blocks [OF _ w(3)] M(1) by (simp add: mounted_ok_def)
    obtain q xs f'' fs'' s'' where R: "ext2_read ?g (of_nat (length buf)) fs' t = Some (q, xs, f'', fs'', s'')" "ram.reads fs' (f_inode f') ?P xs"
      "q = EXT2_ERROR_IO \<or> q = int (length xs) \<and> length xs = min (length buf) (unat (i_size (f_inode f')) - ?P)"
      using ram.read_file [of F fs' t ?g 12 "of_nat (length buf)"] t bv sz sz2 w(4) assms(3) n by (auto simp: mounted_ok_def)
    have "xs = buf" if l: "length xs = min (length buf) (unat (i_size (f_inode f')) - ?P)"
    proof (rule nth_equalityI)
      show len: "length xs = length buf" using l wr(2) by (cases "buf = []") auto
      fix i assume "i < length xs"
      then have i: "i < length buf" "?P + i < 12 * unat (block_size fs)" using len assms(5) by auto
      then have "file_byte mem_sector fs' (f_inode f') (?P + i) = buf ! i" using wr(1) unfolding ram.writes_def by (auto dest!: spec [of _ "?P + i"])
      then show "xs ! i = buf ! i" using R(2) i len M(2) by (auto simp: ram.reads_def)
    qed
    then show ?thesis using R(1,3) by auto
  qed
  then show ?thesis using w(1,5) h M(1) by blast
qed

text \<open>
  What was written to the direct blocks of a file is read back from the same position, unless the device or the memory
  fails.
\<close>

theorem ext2_write_read_back:
  assumes "mounted_ok F fs s" "file_ok mem_sector fs (f_inode f)" "\<not> is_directory f" "unat (i_size (f_inode f)) \<le> 12 * unat (block_size fs)"
    "unat (position f) + length buf \<le> 12 * unat (block_size fs)"
  shows "\<exists>r f' fs' s'. ext2_write f buf fs s = Some (r, f', fs', s') \<and> (r = EXT2_ERROR_NO_SPACE \<or> r = EXT2_ERROR_IO \<or> r = int (length buf))
    \<and> (r = int (length buf) \<longrightarrow>
        (\<exists>q xs f'' fs'' s''. ext2_read (f'\<lparr>position := position f\<rparr>) (of_nat (length buf)) fs' s' = Some (q, xs, f'', fs'', s'')
          \<and> (q = EXT2_ERROR_IO \<or> q = int (length buf) \<and> xs = buf)))"
  using write_then_read [OF assms] by blast

section \<open>Witnesses\<close>

text \<open>
  A volume of 32 blocks of 1024 bytes in a disk in memory: the descriptors are in block 2, the bitmaps in
  blocks 3 and 4, the inode table is block 5; the first five bits of the block bitmap are set.
\<close>

definition disk_demo :: "mem_ctx block_device" where
  "disk_demo = \<lparr>bd_name = ''ram0'', sector_count = 64, sector_size = 512, lba_offset = 0,
     driver_data = \<lparr>ctx_ptr = 0, data_ptr = 0, disk_bytes = replicate 3072 0 @ [0x1F] @ replicate 29695 0, size_bytes = 32768\<rparr>,
     bd_read = ramdisk_read, bd_write = ramdisk_write\<rparr>"

definition group_demo :: ext2_group_desc where
  "group_demo = \<lparr>bg_block_bitmap = 3, bg_inode_bitmap = 4, bg_inode_table = 5, bg_free_blocks_count = 27, bg_free_inodes_count = 6,
     bg_used_dirs_count = 1, bg_pad = 0, bg_reserved = replicate 12 0\<rparr>"

definition volume_demo :: "mem_ctx ext2_fs" where
  "volume_demo = \<lparr>fs_ptr = of_nat (heap_lo + 32), fs_device = disk_demo,
     superblock = \<lparr>s_inodes_count = 8, s_blocks_count = 32, s_free_blocks_count = 27, s_free_inodes_count = 6, s_first_data_block = 1,
       s_log_block_size = 0, s_blocks_per_group = 32, s_inodes_per_group = 8, s_magic = 0xEF53, s_inode_size = 128\<rparr>,
     group_desc_ptr = of_nat (heap_lo + 176), group_desc = [group_demo], block_size = 1024, inode_size = 128, num_groups = 1,
     first_data_block = 1, cache = [], cache_size = 0, max_cache_entries = 64\<rparr>"

definition file_demo :: ext2_file where
  "file_demo = \<lparr>file_ptr = 0x100, inode_num = 3, f_inode = zero_inode\<lparr>i_mode := EXT2_S_IFREG, i_links_count := 1\<rparr>, position = 1000,
     is_directory = False\<rparr>"

lemma mem_dblock:
  "dblock mem_sector fs b = map (mem_byte (fs_device fs)) [(unat (lba_offset (fs_device fs)) + unat b * spb fs) * unat (sector_size (fs_device fs))
     ..<(unat (lba_offset (fs_device fs)) + unat b * spb fs + spb fs) * unat (sector_size (fs_device fs))]"
  unfolding dblock_def mem_sector_def concat_rows by simp

lemma volume_demo_simps [simp]:
  "cache volume_demo = []" "block_size volume_demo = 1024" "num_groups volume_demo = 1" "first_data_block volume_demo = 1"
  "group_desc volume_demo = [group_demo]" "inode_size volume_demo = 128" "s_blocks_per_group (superblock volume_demo) = 32"
  "s_inodes_per_group (superblock volume_demo) = 8" "s_blocks_count (superblock volume_demo) = 32" "s_inodes_count (superblock volume_demo) = 8"
  "fs_device volume_demo = disk_demo" "spb volume_demo = 2"
  "bg_block_bitmap group_demo = 3" "bg_inode_bitmap group_demo = 4" "bg_inode_table group_demo = 5"
  by (simp_all add: volume_demo_def group_demo_def spb_def disk_demo_def)

lemma disk_demo_good: "mem_good disk_demo"
  by (simp add: mem_good_def disk_demo_def)

lemma volume_demo_refs: "refs volume_demo b = 0"
  by (simp add: refs_def ext2_cache_find_def)

lemma volume_demo_cache: "heap_owns s F \<Longrightarrow> cache_inv mem_good mem_sector F volume_demo s"
proof -
  assume o: "heap_owns s F"
  have "entries_ok mem_sector volume_demo" by (simp add: entries_ok_def volume_demo_def)
  moreover have "ptr_mem F {} s" using o by (auto simp: ptr_mem_def)
  moreover have "geo_ok volume_demo" by (simp add: geo_ok_def) (simp add: disk_demo_def)
  ultimately show ?thesis using disk_demo_good by (simp add: cache_inv_def)
qed

lemma volume_demo_bit: "bit_set mem_sector volume_demo 0 i \<longleftrightarrow> i < 5" if "i < 8"
proof -
  have v: "bview mem_sector volume_demo 3 = map (mem_byte disk_demo) [3072..<4096]"
    by (simp add: bview_def ext2_cache_find_def mem_dblock) (simp add: disk_demo_def)
  have "mem_byte disk_demo 3072 = 0x1F" by (simp add: mem_byte_def disk_demo_def nth_append)
  then have "bit_set mem_sector volume_demo 0 i \<longleftrightarrow> bit (0x1F :: u8) i" using that by (simp add: bit_set_def bit_of_def v)
  also have "\<dots> \<longleftrightarrow> i < 5" using that by (cases i rule: nat.exhaust) (auto simp: bit_simps less_Suc_eq numeral_eq_Suc)
  finally show ?thesis .
qed


lemma volume_demo_groups: "groups_ok volume_demo"
  by (simp add: groups_ok_def meta_blocks_def gdt_block_def blocks_in_group_def valid_blk_def) (simp add: group_demo_def)

lemma volume_demo_inodes: "inodes_ok volume_demo"
proof -
  have r: "table_range volume_demo g q \<longleftrightarrow> g = 0 \<and> q = 0" for g q by (auto simp: table_range_def)
  show ?thesis
    using volume_demo_groups unfolding inodes_ok_def r
    by (simp add: table_block_def valid_blk_def meta_blocks_def gdt_block_def)
qed

lemma volume_demo_pos: "in_groups volume_demo b \<Longrightarrow> 1 \<le> unat b \<and> unat b < 33 \<and> group_of_block volume_demo b = 0 \<and> index_of_block volume_demo b = unat b - 1"
proof -
  assume b: "in_groups volume_demo b"
  then have g: "group_of_block volume_demo b = 0" "1 \<le> b" by (auto simp: in_groups_def)
  have u: "unat (b - 1) = unat b - 1" using g(2) by (simp add: unat_sub)
  moreover have "unat b \<ge> 1" using g(2) by (simp add: word_le_nat_alt)
  ultimately show ?thesis using g by (auto simp: group_of_block_def index_of_block_def unat_div unat_mod div_eq_0_iff)
qed

lemma volume_demo_sys: "sys_blocks volume_demo = {0, 2, 3, 4, 5}"
proof -
  have r: "table_range volume_demo g q \<longleftrightarrow> g = 0 \<and> q = 0" for g q by (auto simp: table_range_def)
  show ?thesis by (auto simp: sys_blocks_def r table_block_def meta_blocks_def gdt_block_def)
qed

lemma volume_demo_ok: "volume_ok mem_sector volume_demo"
proof -
  have "valid_blk volume_demo b" if "in_groups volume_demo b" for b using volume_demo_pos [OF that] by (simp add: valid_blk_def)
  moreover have "block_used mem_sector volume_demo b" if "b \<in> {0, 2, 3, 4, 5}" "in_groups volume_demo b" for b
    using that volume_demo_pos [OF that(2)] volume_demo_bit [of "unat b - 1"] by (auto simp: block_used_def)
  ultimately show ?thesis using volume_demo_inodes by (simp add: volume_ok_def volume_demo_sys)
qed

lemma volume_demo_mounted: "heap_owns s F \<Longrightarrow> mounted_ok F volume_demo s"
  using volume_demo_cache volume_demo_ok by (simp add: mounted_ok_def refs_below_def volume_demo_refs)

lemma file_demo_ok: "file_ok mem_sector volume_demo (f_inode file_demo)"
  by (simp add: file_ok_def file_demo_def zero_inode_def inode_ok_def)

lemma heap_two_blocks: "\<exists>s :: heap. heap_owns s {(heap_lo + 32, 112), (heap_lo + 176, 112)}"
proof -
  obtain s :: heap where s: "heap_inv s [(heap_lo, 112, False), (heap_lo + 144, 0x1000000 - 176, True)]"
    using hdemo_kmalloc by (auto simp: whole_heap_def carve_def)
  have n: "unat (align 100) = 112" by (simp add: align_nat)
  have "first_fit (unat (align 100)) [(heap_lo, 112, False), (heap_lo + 144, 0x1000000 - 176, True)] = Some (heap_lo + 144, 0x1000000 - 176, True)"
    unfolding n by (simp add: first_fit_def)
  from kmalloc_refine(2) [OF s _ this] obtain t :: heap where
    t: "heap_inv t (take_fit 112 [(heap_lo, 112, False), (heap_lo + 144, 0x1000000 - 176, True)])" unfolding n by auto
  moreover have "regions (take_fit 112 [(heap_lo, 112, False), (heap_lo + 144, 0x1000000 - 176, True)]) = {(heap_lo + 32, 112), (heap_lo + 176, 112)}"
    by (simp add: regions_def allocated_def carve_def del: set_filter)
  ultimately have "heap_owns t {(heap_lo + 32, 112), (heap_lo + 176, 112)}" unfolding heap_owns_def by (intro exI conjI) auto
  then show ?thesis by blast
qed

theorem block_cache_transparent_witness:
  "\<exists>p fs' s'. ext2_get_block 3 volume_demo udemo = Some (p, fs', s') \<and> bview mem_sector fs' = bview mem_sector volume_demo
    \<and> (p \<noteq> 0 \<longrightarrow> bview mem_sector (ext2_put_block p True (block_put p (replicate 1024 7) fs')) 3 = replicate 1024 7)"
proof -
  have "valid_blk volume_demo 3" by (simp add: valid_blk_def)
  with block_cache_transparent [OF volume_demo_cache [OF udemo_owns(1)], of 3] obtain p fs' s' where
    "ext2_get_block 3 volume_demo udemo = Some (p, fs', s')" "bview mem_sector fs' = bview mem_sector volume_demo"
    "p \<noteq> 0 \<longrightarrow> (\<forall>xs. length xs = 1024 \<longrightarrow> bview mem_sector (ext2_put_block p True (block_put p xs fs')) = (bview mem_sector volume_demo)(3 := xs))"
    by (auto simp: volume_demo_refs split: if_splits)
  then show ?thesis by (intro exI [of _ p] exI [of _ fs'] exI [of _ s']) simp
qed

theorem unmount_writes_back_witness:
  "\<exists>r fs' (s :: heap) t. ext2_flush_cache volume_demo = Some (r, fs') \<and> ext2_unmount volume_demo s = Some (EXT2_SUCCESS, fs_device fs', t) \<and> heap_owns t {}
    \<and> (r = EXT2_SUCCESS \<longrightarrow> dblock mem_sector fs' = bview mem_sector volume_demo)"
proof -
  obtain s :: heap where s: "heap_owns s {(heap_lo + 32, 112), (heap_lo + 176, 112)}" using heap_two_blocks by blast
  have u: "unat (of_nat (heap_lo + 32) :: u64) = heap_lo + 32" "unat (of_nat (heap_lo + 176) :: u64) = heap_lo + 176"
    by (simp_all add: unat_of_nat take_bit_nat_eq_self_iff)
  have p: "unat (group_desc_ptr volume_demo) = heap_lo + 176" "unat (fs_ptr volume_demo) = heap_lo + 32" unfolding volume_demo_def using u by simp_all
  then have "group_desc_ptr volume_demo \<noteq> fs_ptr volume_demo" by auto
  then obtain r fs' t where "ext2_flush_cache volume_demo = Some (r, fs')" "ext2_unmount volume_demo s = Some (EXT2_SUCCESS, fs_device fs', t)"
    "heap_owns t ({(heap_lo + 32, 112), (heap_lo + 176, 112)} - {(heap_lo + 176, 112), (heap_lo + 32, 112)})"
    "r = EXT2_SUCCESS \<longrightarrow> dblock mem_sector fs' = bview mem_sector volume_demo"
    using unmount_writes_back [OF volume_demo_cache [OF s], of 112 112] unfolding p by auto
  moreover have "{(heap_lo + 32, 112), (heap_lo + 176, 112)} - {(heap_lo + 176, 112), (heap_lo + 32, 112)} = ({} :: region set)" by auto
  ultimately show ?thesis by (simp only:) blast
qed

theorem inode_write_read_witness:
  "\<exists>r fs' s'. ext2_write_inode 3 (f_inode file_demo) volume_demo udemo = Some (r, fs', s')
    \<and> (\<exists>q fs'' s''. ext2_read_inode 3 fs' s' = Some (q, fs'', s'')
         \<and> (q = Inl EXT2_ERROR_IO \<or> q = Inr (if r = EXT2_SUCCESS then f_inode file_demo else inode_at mem_sector volume_demo 3)))"
proof -
  have i: "inode_ok (f_inode file_demo)" using file_demo_ok by (simp add: file_ok_def)
  have b: "\<not> bad_inode_num 3 volume_demo" by (simp add: bad_inode_num_def)
  obtain r fs' s' where "ext2_write_inode 3 (f_inode file_demo) volume_demo udemo = Some (r, fs', s')"
    "\<forall>m. \<not> bad_inode_num m volume_demo \<longrightarrow> (\<exists>q fs'' s''. ext2_read_inode m fs' s' = Some (q, fs'', s'')
       \<and> (q = Inl EXT2_ERROR_IO \<or> q = Inr (if m = 3 \<and> r = EXT2_SUCCESS then f_inode file_demo else inode_at mem_sector volume_demo m)))"
    using inode_write_read [OF volume_demo_mounted [OF udemo_owns(1)] i, of 3] by blast
  then show ?thesis using b by auto
qed

theorem alloc_block_fresh_witness:
  "\<exists>r fs' s'. ext2_alloc_block volume_demo udemo = Some (r, fs', s') \<and> (\<forall>b. r = Inr b \<longrightarrow> \<not> block_used mem_sector volume_demo b \<and> b \<notin> {0, 2, 3, 4, 5})"
  using alloc_block_fresh [OF volume_demo_mounted [OF udemo_owns(1)]] unfolding volume_demo_sys by (force split: sum.splits)

theorem free_block_exact_witness:
  "\<exists>r fs' s'. ext2_free_block 40 volume_demo udemo = Some (r, fs', s') \<and> r = EXT2_ERROR_INVALID \<and> bview mem_sector fs' = bview mem_sector volume_demo"
proof -
  obtain r fs' s' where f: "ext2_free_block 40 volume_demo udemo = Some (r, fs', s')" "r = EXT2_ERROR_INVALID" "bview mem_sector fs' = bview mem_sector volume_demo"
    using free_block_exact [OF volume_demo_mounted [OF udemo_owns(1)], of 40] by (auto split: if_splits)
  then show ?thesis by blast
qed


theorem ext2_write_correct_witness:
  "\<exists>r f' fs' s'. ext2_write file_demo [1, 2, 3] volume_demo udemo = Some (r, f', fs', s')
    \<and> (r < 0 \<or> r = 3 \<and> file_byte mem_sector fs' (f_inode f') 1000 = 1 \<and> unat (i_size (f_inode f')) = 1003)"
proof -
  have d: "\<not> is_directory file_demo" "unat (position file_demo) = 1000" "i_size (f_inode file_demo) = 0" by (simp_all add: file_demo_def zero_inode_def)
  then have p: "unat (position file_demo) + length [1, 2, 3 :: u8] \<le> 12 * unat (block_size volume_demo)" by simp
  obtain r f' fs' s' where w: "ext2_write file_demo [1, 2, 3] volume_demo udemo = Some (r, f', fs', s')"
    "r = EXT2_ERROR_NO_SPACE \<or> r = EXT2_ERROR_IO \<or> r = 3 \<and> (\<forall>i < 3. file_byte mem_sector fs' (f_inode f') (1000 + i) = [1, 2, 3] ! i)
       \<and> unat (i_size (f_inode f')) = 1003"
    using ext2_write_correct [OF volume_demo_mounted [OF udemo_owns(1)] file_demo_ok d(1) p] d(2,3) by auto
  then show ?thesis by (intro exI [of _ r] exI [of _ f'] exI [of _ fs'] exI [of _ s']) (auto dest: spec [of _ 0])
qed

theorem ext2_write_read_back_witness:
  "\<exists>r f' fs' s'. ext2_write file_demo [1, 2, 3] volume_demo udemo = Some (r, f', fs', s')
    \<and> (r = 3 \<longrightarrow> (\<exists>q xs f'' fs'' s''. ext2_read (f'\<lparr>position := 1000\<rparr>) 3 fs' s' = Some (q, xs, f'', fs'', s'') \<and> (q = EXT2_ERROR_IO \<or> xs = [1, 2, 3])))"
proof -
  have d: "\<not> is_directory file_demo" "position file_demo = 1000" "i_size (f_inode file_demo) = 0" by (simp_all add: file_demo_def zero_inode_def)
  then have p: "unat (i_size (f_inode file_demo)) \<le> 12 * unat (block_size volume_demo)"
    "unat (position file_demo) + length [1, 2, 3 :: u8] \<le> 12 * unat (block_size volume_demo)" by simp_all
  from ext2_write_read_back [OF volume_demo_mounted [OF udemo_owns(1)] file_demo_ok d(1) p] show ?thesis by (auto simp: d(2))
qed

end
