(* ===== verification/Console.thy ===== *)
theory Console
  imports UnixSocket
begin

text \<open>
  The console, \<^verbatim>\<open>src/kernel/console/console.c\<close>: the input line, the processes that wait for it, the
  terminal settings and the escape sequences of the output. What is drawn is the list of
  calls to the text renderer, latest first. The vector of waiting processes (\<^verbatim>\<open>util/vector.h\<close>) is a
  list with the address and the capacity of its memory. \<open>None\<close> stands for an access outside a
  buffer or through a null pointer.
\<close>

section \<open>State\<close>

abbreviation (input) CONSOLE_BUFFER_SIZE :: u64 where "CONSOLE_BUFFER_SIZE \<equiv> 128"

datatype tr_call = TR_PUTC u8 | TR_BACKSPACE | TR_CLEAR | TR_COLOR u32 u32

record termios =
  c_iflag :: u32
  c_oflag :: u32
  c_cflag :: u32
  c_lflag :: u32
  c_line :: u8
  c_cc :: "u8 list"

record winsize =
  ws_row :: u16
  ws_col :: u16
  ws_xpixel :: u16
  ws_ypixel :: u16

record InputManager =
  im_ptr :: u64
  im_buf_ptr :: u64
  im_buffer :: "u8 list"
  im_length :: nat
  im_capacity :: nat

record WaitingProc =
  wp_ptr :: u64
  wp_pid :: int
  wp_buffer :: u64
  wp_buf_size :: u64
  wp_active :: bool

record 'e vector =
  vec_data :: u64
  vec_capacity :: u64
  vec_elems :: "'e list"

record con_sys = sock_sys +
  con_input :: "InputManager option"
  waitingProcesses :: "WaitingProc vector"
  c_current_key :: u8
  c_escape_mode :: bool
  c_escape_buf :: "u8 list"
  c_special_buf :: "u64 list"
  c_special_buf_pos :: nat
  c_termios :: termios
  c_winsize :: winsize
  c_pgrp :: int
  screen :: "tr_call list"

abbreviation (input) ICRNL :: u32 where "ICRNL \<equiv> 0x0100"
abbreviation (input) IXON :: u32 where "IXON \<equiv> 0x0400"
abbreviation (input) OPOST :: u32 where "OPOST \<equiv> 0x0001"
abbreviation (input) ISIG :: u32 where "ISIG \<equiv> 0x0001"
abbreviation (input) ICANON :: u32 where "ICANON \<equiv> 0x0002"
abbreviation (input) ECHO :: u32 where "ECHO \<equiv> 0x0008"
abbreviation (input) TCIFLUSH :: int where "TCIFLUSH \<equiv> 0"
abbreviation (input) TCIOFLUSH :: int where "TCIOFLUSH \<equiv> 2"

section \<open>Vectors\<close>

definition vector_reserve :: "u64 \<Rightarrow> u64 \<Rightarrow> 'e vector \<Rightarrow> 'a heap_scheme \<Rightarrow> ('e vector \<times> 'a heap_scheme) option" where
  "vector_reserve elem_size capacity v s =
     (if capacity \<le> vec_capacity v then Some (v, s)
      else do {
        (new_data, s) \<leftarrow> kmalloc (capacity * elem_size) s;
        if new_data = 0 \<and> vec_data v \<noteq> 0 \<and> vec_elems v \<noteq> [] then None
        else do {
          s \<leftarrow> kfree (vec_data v) s;
          Some (v\<lparr>vec_data := new_data, vec_capacity := capacity\<rparr>, s)
        }
      })"

definition vector_push :: "u64 \<Rightarrow> 'e \<Rightarrow> 'e vector \<Rightarrow> 'a heap_scheme \<Rightarrow> ('e vector \<times> 'a heap_scheme) option" where
  "vector_push elem_size e v s = do {
     (v, s) \<leftarrow> (if of_nat (length (vec_elems v)) \<ge> vec_capacity v
               then vector_reserve elem_size (if vec_capacity v \<noteq> 0 then vec_capacity v * 2 else 4) v s
               else Some (v, s));
     if vec_data v = 0 then None else Some (v\<lparr>vec_elems := vec_elems v @ [e]\<rparr>, s)
   }"

definition vector_clear :: "'e vector \<Rightarrow> 'e vector" where
  "vector_clear v = v\<lparr>vec_elems := []\<rparr>"

section \<open>Output\<close>

definition emit :: "tr_call list \<Rightarrow> 'a con_sys_scheme \<Rightarrow> 'a con_sys_scheme" where
  "emit cs s = s\<lparr>screen := rev cs @ screen s\<rparr>"

definition draw_cursor :: "'a con_sys_scheme \<Rightarrow> 'a con_sys_scheme" where
  "draw_cursor s = emit [TR_PUTC (of_char CHR ''_'')] s"

definition console_clear_text :: "'a con_sys_scheme \<Rightarrow> 'a con_sys_scheme" where
  "console_clear_text s = draw_cursor (emit [TR_CLEAR] s)"

definition rgb :: "u8 \<Rightarrow> u8 \<Rightarrow> u8 \<Rightarrow> u32" where
  "rgb r g b = push_bit 16 (ucast r) OR push_bit 8 (ucast g) OR ucast b"

text \<open>The foreground and background colour that a parameter selects.\<close>

definition sgr_color :: "u32 \<Rightarrow> u32 option \<times> u32 option \<Rightarrow> u32 option \<times> u32 option" where
  "sgr_color val c =
     (let fg = (\<lambda>r g b. (Some (rgb r g b), snd c)); bg = (\<lambda>r g b. (fst c, Some (rgb r g b))) in
      if val = 0 then (Some (rgb 255 255 255), Some (rgb 0 0 0))
      else if val = 30 then fg 85 85 85
      else if val = 31 then fg 255 85 85
      else if val = 32 then fg 85 225 85
      else if val = 33 then fg 255 255 85
      else if val = 34 then fg 85 85 255
      else if val = 35 then fg 255 85 255
      else if val = 36 then fg 85 255 255
      else if val = 37 then fg 255 255 255
      else if val = 40 then bg 0 0 0
      else if val = 41 then bg 170 0 0
      else if val = 42 then bg 0 170 0
      else if val = 43 then bg 170 85 0
      else if val = 44 then bg 0 0 170
      else if val = 45 then bg 170 0 170
      else if val = 46 then bg 0 170 170
      else if val = 47 then bg 170 170 170
      else c)"

text \<open>The loop over the characters of the sequence up to a zero.\<close>

fun sgr_scan :: "u8 list \<Rightarrow> u32 \<Rightarrow> u32 option \<times> u32 option \<Rightarrow> u32 option \<times> u32 option" where
  "sgr_scan [] val c = c"
| "sgr_scan (ch # cs) val c =
     (if ch = 0 then c
      else if of_char CHR ''0'' \<le> ch \<and> ch \<le> of_char CHR ''9'' then sgr_scan cs (val * 10 + ucast (ch - of_char CHR ''0'')) c
      else if ch = of_char CHR '';'' \<or> ch = of_char CHR ''m'' then sgr_scan cs 0 (sgr_color val c)
      else sgr_scan cs val c)"

definition end_escape :: "'a con_sys_scheme \<Rightarrow> 'a con_sys_scheme" where
  "end_escape s = s\<lparr>c_escape_mode := False, c_escape_buf := []\<rparr>"

text \<open>\<open>c_escape_buf\<close> holds the \<^verbatim>\<open>c_escape_pos\<close> characters that are in use.\<close>

definition handle_escape_sequence :: "'a con_sys_scheme \<Rightarrow> 'a con_sys_scheme" where
  "handle_escape_sequence s =
     (let b = c_escape_buf s in
      if b = bytes ''[2J'' then end_escape (console_clear_text s)
      else (let (fg, bg) = (if length b \<ge> 2 \<and> last b = of_char CHR ''m'' then sgr_scan b 0 (None, None) else (None, None));
                s = (if fg \<noteq> None \<or> bg \<noteq> None
                     then emit [TR_COLOR (case fg of None \<Rightarrow> 0xFFFFFF | Some x \<Rightarrow> x) (case bg of None \<Rightarrow> 0 | Some x \<Rightarrow> x)] s
                     else s)
            in end_escape s))"

definition is_letter :: "u8 \<Rightarrow> bool" where
  "is_letter c \<longleftrightarrow> of_char CHR ''A'' \<le> c \<and> c \<le> of_char CHR ''Z'' \<or> of_char CHR ''a'' \<le> c \<and> c \<le> of_char CHR ''z''"

definition put_at_cursor :: "u8 \<Rightarrow> 'a con_sys_scheme \<Rightarrow> 'a con_sys_scheme" where
  "put_at_cursor c s = draw_cursor (emit [TR_BACKSPACE, TR_PUTC c] s)"

definition console_putc :: "u8 \<Rightarrow> 'a con_sys_scheme \<Rightarrow> 'a con_sys_scheme" where
  "console_putc c s =
     (if c_escape_mode s
      then (let s = (if length (c_escape_buf s) < 15 then s\<lparr>c_escape_buf := c_escape_buf s @ [c]\<rparr> else s)
            in if is_letter c then handle_escape_sequence s else s)
      else if c = 27 then s\<lparr>c_escape_mode := True, c_escape_buf := []\<rparr>
      else put_at_cursor c s)"

definition console_backspace_no_input :: "'a con_sys_scheme \<Rightarrow> 'a con_sys_scheme" where
  "console_backspace_no_input s = draw_cursor (emit [TR_BACKSPACE, TR_BACKSPACE] s)"

section \<open>Special keys\<close>

definition console_add_special_char :: "u64 \<Rightarrow> 'a con_sys_scheme \<Rightarrow> 'a con_sys_scheme" where
  "console_add_special_char sc s =
     (if c_special_buf_pos s \<ge> 26 then s
      else s\<lparr>c_special_buf := (c_special_buf s)[c_special_buf_pos s := sc], c_special_buf_pos := c_special_buf_pos s + 1\<rparr>)"

definition console_reset_special_char :: "'a con_sys_scheme \<Rightarrow> 'a con_sys_scheme" where
  "console_reset_special_char s = s\<lparr>c_special_buf_pos := 0, c_special_buf := replicate 26 0\<rparr>"

definition console_read_special_char :: "nat \<Rightarrow> 'a con_sys_scheme \<Rightarrow> u8 list" where
  "console_read_special_char count s = map (\<lambda>i. ucast (c_special_buf s ! i AND 0xFF)) [0..<min 26 count]"

section \<open>The input line\<close>

definition upd_input :: "(InputManager \<Rightarrow> InputManager) \<Rightarrow> 'a con_sys_scheme \<Rightarrow> 'a con_sys_scheme" where
  "upd_input f s = s\<lparr>con_input := map_option f (con_input s)\<rparr>"

definition console_addchar :: "u8 \<Rightarrow> 'a con_sys_scheme \<Rightarrow> bool \<times> 'a con_sys_scheme" where
  "console_addchar c s =
     (case con_input s of
        None \<Rightarrow> (False, s)
      | Some i \<Rightarrow>
          if im_length i \<ge> im_capacity i then (False, s)
          else (True, upd_input (\<lambda>i. i\<lparr>im_buffer := (im_buffer i)[im_length i := c], im_length := im_length i + 1\<rparr>) s))"

definition console_rmchar :: "'a con_sys_scheme \<Rightarrow> bool \<times> 'a con_sys_scheme" where
  "console_rmchar s =
     (case con_input s of
        None \<Rightarrow> (False, s)
      | Some i \<Rightarrow> if im_length i = 0 then (False, s) else (True, upd_input (\<lambda>i. i\<lparr>im_length := im_length i - 1\<rparr>) s))"

definition console_user_put_c :: "u8 \<Rightarrow> 'a con_sys_scheme \<Rightarrow> 'a con_sys_scheme" where
  "console_user_put_c c s = (let (ok, s) = console_addchar c s in if ok then put_at_cursor c s else s)"

definition console_backspace :: "'a con_sys_scheme \<Rightarrow> 'a con_sys_scheme" where
  "console_backspace s = (let (ok, s) = console_rmchar s in if ok then console_backspace_no_input s else s)"

definition console_backspace_no_dispaly :: "'a con_sys_scheme \<Rightarrow> 'a con_sys_scheme" where
  "console_backspace_no_dispaly s = snd (console_rmchar s)"

definition console_get_length :: "'a con_sys_scheme \<Rightarrow> u64" where
  "console_get_length s = (case con_input s of None \<Rightarrow> -1 | Some i \<Rightarrow> of_nat (im_length i))"

definition console_tcflush :: "int \<Rightarrow> 'a con_sys_scheme \<Rightarrow> 'a con_sys_scheme" where
  "console_tcflush queue s =
     (if queue = TCIFLUSH \<or> queue = TCIOFLUSH then upd_input (\<lambda>i. i\<lparr>im_length := 0\<rparr>) s else s)"

section \<open>Waiting processes\<close>

definition console_is_raw_mode :: "'a con_sys_scheme \<Rightarrow> bool" where
  "console_is_raw_mode s \<longleftrightarrow>
     (let t = c_termios s in
      c_lflag t AND ICANON = 0 \<and> c_lflag t AND ECHO = 0 \<and> c_lflag t AND ISIG = 0
      \<and> c_iflag t AND IXON = 0 \<and> c_iflag t AND ICRNL = 0 \<and> c_oflag t AND OPOST = 0)"

abbreviation (input) SIZEOF_WAITING_PROC :: u64 where "SIZEOF_WAITING_PROC \<equiv> 32"

definition console_register_proc :: "int \<Rightarrow> u64 \<Rightarrow> u64 \<Rightarrow> 'a con_sys_scheme \<Rightarrow> 'a con_sys_scheme option" where
  "console_register_proc pid buf buf_size s = do {
     (wp, s) \<leftarrow> kmalloc SIZEOF_WAITING_PROC s;
     if wp = 0 then None
     else do {
       (v, s) \<leftarrow> vector_push 8 \<lparr>wp_ptr = wp, wp_pid = pid, wp_buffer = buf, wp_buf_size = buf_size, wp_active = True\<rparr>
                   (waitingProcesses s) s;
       Some (proc_block pid (s\<lparr>waitingProcesses := v\<rparr>))
     }
   }"

text \<open>
  The slot of the vector is read as the record itself: the lower half of the pointer in it is
  taken for the process id, and the flag is the lowest byte of the pointer three slots on. A pointer
  that changes this way, or a write behind the vector, has no defined result.
\<close>

definition console_unregister_proc :: "int \<Rightarrow> 'a con_sys_scheme \<Rightarrow> 'a con_sys_scheme option" where
  "console_unregister_proc pid s =
     (let ws = vec_elems (waitingProcesses s) in
      case scan (\<lambda>i. sint (ucast (wp_ptr (ws ! i)) :: u32) = pid) 0 (length ws) of
        None \<Rightarrow> Some s
      | Some i \<Rightarrow>
          if i + 3 \<ge> unat (vec_capacity (waitingProcesses s)) then None
          else if i + 3 < length ws \<and> wp_ptr (ws ! (i + 3)) AND 0xFF \<noteq> 0 then None
          else Some s)"

text \<open>A waiting process is made ready and its record given back.\<close>

definition release_waiting :: "WaitingProc \<Rightarrow> 'a con_sys_scheme \<Rightarrow> 'a con_sys_scheme option" where
  "release_waiting wp s = kfree (wp_ptr wp) (proc_unblock (wp_pid wp) s)"

fun raw_wake :: "WaitingProc list \<Rightarrow> 'a con_sys_scheme \<Rightarrow> 'a con_sys_scheme option" where
  "raw_wake [] s = Some s"
| "raw_wake (wp # wps) s = do {
     s \<leftarrow> (if wp_buffer wp \<noteq> 0 \<and> wp_active wp \<and> wp_buf_size wp > 0
           then map_option snd (proc_write_to_user (wp_pid wp) (wp_buffer wp) (Some [c_current_key s]) s)
           else Some s);
     s \<leftarrow> release_waiting wp s;
     raw_wake wps s
   }"

definition console_set_current_c :: "u8 \<Rightarrow> 'a con_sys_scheme \<Rightarrow> 'a con_sys_scheme option" where
  "console_set_current_c c s =
     (let s = s\<lparr>c_current_key := c\<rparr> in
      if console_is_raw_mode s
      then do {
        s \<leftarrow> raw_wake (vec_elems (waitingProcesses s)) s;
        Some (s\<lparr>waitingProcesses := vector_clear (waitingProcesses s)\<rparr>)
      }
      else Some s)"

definition console_get_current_c :: "'a con_sys_scheme \<Rightarrow> u8" where
  "console_get_current_c s = c_current_key s"

text \<open>
  The line is ended in the input buffer itself and copied with its terminator; a line of
  the whole capacity has no room for it.
\<close>

definition give_line :: "WaitingProc \<Rightarrow> 'a con_sys_scheme \<Rightarrow> 'a con_sys_scheme option" where
  "give_line wp s =
     (case con_input s of
        None \<Rightarrow> None
      | Some i \<Rightarrow>
          if wp_buffer wp \<noteq> 0 \<and> wp_active wp
          then (let copy_len = (if of_nat (im_length i) < wp_buf_size wp - 1 then im_length i else unat (wp_buf_size wp - 1)) in
                if copy_len \<ge> length (im_buffer i) then None
                else do {
                  let i = i\<lparr>im_buffer := (im_buffer i)[copy_len := 0]\<rparr>;
                  (_, s) \<leftarrow> proc_write_to_user (wp_pid wp) (wp_buffer wp) (Some (take (copy_len + 1) (im_buffer i))) (s\<lparr>con_input := Some i\<rparr>);
                  Some s
                })
          else Some s)"

fun line_wake :: "WaitingProc list \<Rightarrow> 'a con_sys_scheme \<Rightarrow> 'a con_sys_scheme option" where
  "line_wake [] s = Some s"
| "line_wake (wp # wps) s = do {
     s \<leftarrow> give_line wp s;
     s \<leftarrow> release_waiting wp s;
     line_wake wps s
   }"

definition console_clear :: "'a con_sys_scheme \<Rightarrow> 'a con_sys_scheme option" where
  "console_clear s =
     (if con_input s = None then Some s
      else do {
        s \<leftarrow> line_wake (vec_elems (waitingProcesses s)) s;
        Some (upd_input (\<lambda>i. i\<lparr>im_length := 0\<rparr>) (s\<lparr>waitingProcesses := vector_clear (waitingProcesses s)\<rparr>))
      })"

abbreviation (input) SIZEOF_INPUT_MANAGER :: u64 where "SIZEOF_INPUT_MANAGER \<equiv> 24"

definition console_init :: "'a con_sys_scheme \<Rightarrow> (bool \<times> 'a con_sys_scheme) option" where
  "console_init s =
     (if con_input s \<noteq> None then Some (False, s)
      else do {
        (p, s) \<leftarrow> kmalloc SIZEOF_INPUT_MANAGER s;
        if p = 0 then Some (False, s)
        else do {
          (b, s) \<leftarrow> kmalloc CONSOLE_BUFFER_SIZE s;
          if b = 0 then do { s \<leftarrow> kfree p s; Some (False, s) }
          else Some (True, s\<lparr>con_input := Some \<lparr>im_ptr = p, im_buf_ptr = b, im_buffer = map (\<lambda>i. hmem s (unat b + i)) [0..<128],
                                   im_length = 0, im_capacity = 128\<rparr>,
                     waitingProcesses := \<lparr>vec_data = 0, vec_capacity = 0, vec_elems = []\<rparr>\<rparr>)
        }
      })"

definition console_free :: "'a con_sys_scheme \<Rightarrow> 'a con_sys_scheme option" where
  "console_free s =
     (if con_input s = None then Some s
      else do {
        s \<leftarrow> console_clear s;
        i \<leftarrow> con_input s;
        s \<leftarrow> kfree (im_buf_ptr i) s;
        s \<leftarrow> kfree (im_ptr i) s;
        Some (s\<lparr>con_input := None\<rparr>)
      })"

section \<open>Terminal settings\<close>

definition console_get_termios :: "'a con_sys_scheme \<Rightarrow> termios" where
  "console_get_termios s = c_termios s"

definition console_set_termios :: "termios \<Rightarrow> 'a con_sys_scheme \<Rightarrow> 'a con_sys_scheme" where
  "console_set_termios t s = s\<lparr>c_termios := t\<rparr>"

definition console_get_winsize :: "'a con_sys_scheme \<Rightarrow> winsize" where
  "console_get_winsize s = c_winsize s"

definition console_set_winsize :: "winsize \<Rightarrow> 'a con_sys_scheme \<Rightarrow> 'a con_sys_scheme" where
  "console_set_winsize w s = s\<lparr>c_winsize := w\<rparr>"

definition console_get_pgrp :: "'a con_sys_scheme \<Rightarrow> int" where
  "console_get_pgrp s = c_pgrp s"

definition console_set_pgrp :: "int \<Rightarrow> 'a con_sys_scheme \<Rightarrow> 'a con_sys_scheme" where
  "console_set_pgrp g s = s\<lparr>c_pgrp := g\<rparr>"

end
