(* ===== verification/Mkfs.thy ===== *)
theory Mkfs
  imports Ext2Ops
begin

text \<open>
  The ext2 formatter, \<^verbatim>\<open>src/kernel/mkfs/ext2_format.c\<close>: one block group with superblock, descriptor,
  bitmaps, inode table and the root directory. A function returns the device with what was written.
\<close>

abbreviation (input) FMT_BLOCK_SIZE :: nat where "FMT_BLOCK_SIZE \<equiv> 1024"
abbreviation (input) FMT_BLOCKS_PER_GROUP :: u32 where "FMT_BLOCKS_PER_GROUP \<equiv> 8192"

definition fmt_write_block :: "'d block_device \<Rightarrow> u32 \<Rightarrow> u8 list \<Rightarrow> (bool \<times> 'd block_device) option" where
  "fmt_write_block dev blk data = do {
     r \<leftarrow> dev_write dev (ucast blk * 2) 2 data;
     Some (case r of None \<Rightarrow> (False, dev) | Some dev \<Rightarrow> (True, dev))
   }"

definition fmt_bitmap_set :: "nat \<Rightarrow> u8 list \<Rightarrow> u8 list option" where
  "fmt_bitmap_set i bm = do { b \<leftarrow> get8 bm (i div 8); Some (bm[i div 8 := b OR push_bit (i mod 8) 1]) }"

fun fmt_bits :: "nat list \<Rightarrow> u8 list \<Rightarrow> u8 list option" where
  "fmt_bits [] bm = Some bm"
| "fmt_bits (i # is) bm = do { bm \<leftarrow> fmt_bitmap_set i bm; fmt_bits is bm }"

text \<open>Assignments to the fields of a structure in a buffer.\<close>

fun put_fields :: "(nat \<times> u8 list) list \<Rightarrow> u8 list \<Rightarrow> u8 list" where
  "put_fields [] xs = xs"
| "put_fields ((off, bs) # fs) xs = put_fields fs (overlay off bs xs)"

text \<open>The sizes that follow from the number of blocks.\<close>

record fmt_layout =
  fl_blocks :: u32
  fl_group :: u32
  fl_inodes :: u32
  fl_table :: u32
  fl_overhead :: u32

definition fmt_layout_of :: "u32 \<Rightarrow> fmt_layout" where
  "fmt_layout_of total_blocks =
     (let group = (if total_blocks - 1 > FMT_BLOCKS_PER_GROUP then FMT_BLOCKS_PER_GROUP else total_blocks - 1);
          inodes = (group div 4 + 7) AND NOT 7;
          inodes = (if inodes < 16 then 16 else inodes);
          inodes = (if inodes > 8192 then 8192 else inodes);
          table = (inodes * 128 + 1024 - 1) div 1024
      in \<lparr>fl_blocks = total_blocks, fl_group = group, fl_inodes = inodes, fl_table = table, fl_overhead = 4 + table + 1\<rparr>)"

definition fmt_superblock :: "fmt_layout \<Rightarrow> u8 list" where
  "fmt_superblock l =
     put_fields [(0, le_enc 4 (fl_inodes l)), (4, le_enc 4 (fl_blocks l)), (8, le_enc 4 (fl_blocks l div 20)),
       (12, le_enc 4 (fl_group l - fl_overhead l)), (16, le_enc 4 (fl_inodes l - 10)), (20, le_enc 4 (1 :: u32)),
       (24, le_enc 4 (0 :: u32)), (28, le_enc 4 (0 :: u32)), (32, le_enc 4 FMT_BLOCKS_PER_GROUP), (36, le_enc 4 FMT_BLOCKS_PER_GROUP),
       (40, le_enc 4 (fl_inodes l)), (56, le_enc 2 EXT2_SUPER_MAGIC), (58, le_enc 2 (1 :: u16)), (76, le_enc 4 (1 :: u32)),
       (84, le_enc 4 (11 :: u32)), (88, le_enc 2 (128 :: u16)), (72, le_enc 4 (0 :: u32))] (replicate FMT_BLOCK_SIZE 0)"

definition fmt_group_desc :: "fmt_layout \<Rightarrow> u8 list" where
  "fmt_group_desc l =
     put_fields [(0, le_enc 4 (3 :: u32)), (4, le_enc 4 (4 :: u32)), (8, le_enc 4 (5 :: u32)),
       (12, le_enc 2 (ucast (fl_group l - fl_overhead l) :: u16)), (14, le_enc 2 (ucast (fl_inodes l - 10) :: u16)),
       (16, le_enc 2 (1 :: u16))] (replicate FMT_BLOCK_SIZE 0)"

definition fmt_block_bitmap :: "fmt_layout \<Rightarrow> u8 list option" where
  "fmt_block_bitmap l =
     fmt_bits ([0..<unat (fl_overhead l)] @ [unat (fl_group l)..<unat FMT_BLOCKS_PER_GROUP]) (replicate FMT_BLOCK_SIZE 0)"

definition fmt_inode_bitmap :: "fmt_layout \<Rightarrow> u8 list option" where
  "fmt_inode_bitmap l = fmt_bits ([0..<10] @ [unat (fl_inodes l)..<unat FMT_BLOCKS_PER_GROUP]) (replicate FMT_BLOCK_SIZE 0)"

definition fmt_root_inode :: "fmt_layout \<Rightarrow> ext2_inode" where
  "fmt_root_inode l = zero_inode\<lparr>i_mode := EXT2_S_IFDIR OR 0x1ED, i_uid := 0, i_size := 1024, i_links_count := 2, i_blocks := 2,
     i_block := (i_block zero_inode)[0 := 5 + fl_table l]\<rparr>"

definition fmt_inode_table :: "fmt_layout \<Rightarrow> u8 list" where
  "fmt_inode_table l = overlay 128 (inode_bytes (fmt_root_inode l)) (replicate (unat (fl_table l) * FMT_BLOCK_SIZE) 0)"

text \<open>A buffer of one block is allocated, filled, written and given back.\<close>

definition fmt_put :: "u32 \<Rightarrow> u8 list option \<Rightarrow> 'd block_device \<Rightarrow> 'a heap_scheme \<Rightarrow> (bool \<times> 'd block_device \<times> 'a heap_scheme) option" where
  "fmt_put blk data dev s = do {
     (p, s) \<leftarrow> kmalloc (of_nat FMT_BLOCK_SIZE) s;
     if p = 0 then Some (False, dev, s)
     else do {
       bs \<leftarrow> data;
       (ok, dev) \<leftarrow> fmt_write_block dev blk bs;
       s \<leftarrow> kfree p s;
       Some (ok, dev, s)
     }
   }"

fun fmt_table_blocks :: "nat list \<Rightarrow> u8 list \<Rightarrow> 'd block_device \<Rightarrow> (bool \<times> 'd block_device) option" where
  "fmt_table_blocks [] table dev = Some (True, dev)"
| "fmt_table_blocks (i # is) table dev = do {
     (ok, dev) \<leftarrow> fmt_write_block dev (5 + of_nat i) (take FMT_BLOCK_SIZE (drop (i * FMT_BLOCK_SIZE) table));
     if ok then fmt_table_blocks is table dev else Some (False, dev)
   }"

definition fmt_put_table :: "fmt_layout \<Rightarrow> 'd block_device \<Rightarrow> 'a heap_scheme \<Rightarrow> (bool \<times> 'd block_device \<times> 'a heap_scheme) option" where
  "fmt_put_table l dev s = do {
     (p, s) \<leftarrow> kmalloc (ucast (fl_table l * 1024)) s;
     if p = 0 then Some (False, dev, s)
     else do {
       (ok, dev) \<leftarrow> fmt_table_blocks [0..<unat (fl_table l)] (fmt_inode_table l) dev;
       s \<leftarrow> kfree p s;
       Some (ok, dev, s)
     }
   }"

text \<open>The steps in order, up to the first that fails.\<close>

definition fmt_then ::
    "('d block_device \<Rightarrow> 'a heap_scheme \<Rightarrow> (bool \<times> 'd block_device \<times> 'a heap_scheme) option)
     \<Rightarrow> (bool \<times> 'd block_device \<times> 'a heap_scheme) option \<Rightarrow> (bool \<times> 'd block_device \<times> 'a heap_scheme) option" where
  "fmt_then f r = do { (ok, dev, s) \<leftarrow> r; if ok then f dev s else Some (False, dev, s) }"

definition fmt_write_all :: "fmt_layout \<Rightarrow> 'd block_device \<Rightarrow> 'a heap_scheme \<Rightarrow> (bool \<times> 'd block_device \<times> 'a heap_scheme) option" where
  "fmt_write_all l dev s =
     fmt_then (fmt_put (5 + fl_table l) (Some (dot_entries 1024 2 2)))
     (fmt_then (fmt_put_table l)
     (fmt_then (fmt_put 4 (fmt_inode_bitmap l))
     (fmt_then (fmt_put 3 (fmt_block_bitmap l))
     (fmt_then (fmt_put 2 (Some (fmt_group_desc l)))
     (fmt_put 1 (Some (fmt_superblock l)) dev s)))))"

definition ext2_format :: "'d block_device \<Rightarrow> 'a heap_scheme \<Rightarrow> (int \<times> 'd block_device \<times> 'a heap_scheme) option" where
  "ext2_format dev s =
     (let total_bytes = sector_count dev * ucast (sector_size dev);
          total_blocks = ucast (total_bytes div 1024) :: u32;
          l = fmt_layout_of total_blocks
      in if total_blocks < 16 then Some (-1, dev, s)
         else if fl_group l < fl_overhead l then Some (-1, dev, s)
         else do {
           (ok, dev, s) \<leftarrow> fmt_write_all l dev s;
           Some (if ok then 0 else -1, dev, s)
         })"

end
