(* ===== verification/Partition.thy ===== *)
theory Partition
  imports Ext2
begin

text \<open>
  Partitions (\<^verbatim>\<open>block_gpt.c\<close>, \<^verbatim>\<open>block_mbr.c\<close>) and boot images (\<^verbatim>\<open>block_image.c\<close>). A partition is a device with the driver
  data and the functions of its disk and an offset; it is registered in the table of devices. The
  results of \<^verbatim>\<open>kmalloc\<close> are not checked by this code: \<open>None\<close> stands for writing to the null pointer, a division by zero and
  accesses outside a buffer. The contents of the disk are those at the time of registration.
\<close>

definition get64 :: "u8 list \<Rightarrow> nat \<Rightarrow> u64 option" where
  "get64 xs off = map_option le_val (disk_get off 8 xs)"

text \<open>A buffer from \<^verbatim>\<open>kmalloc\<close> that is used without a check.\<close>

definition must_malloc :: "u64 \<Rightarrow> 'a heap_scheme \<Rightarrow> (u64 \<times> 'a heap_scheme) option" where
  "must_malloc n s = do { (p, s) \<leftarrow> kmalloc n s; if p = 0 then None else Some (p, s) }"

definition make_partition_name :: "string \<Rightarrow> nat \<Rightarrow> 'a heap_scheme \<Rightarrow> (u64 \<times> string \<times> 'a heap_scheme) option" where
  "make_partition_name base i s = do {
     (p, s) \<leftarrow> must_malloc (of_nat (length base) + 32) s;
     let name = base @ ''p'' @ rev (digits_rev (i + 1));
     Some (p, name, s\<lparr>hmem := put_bytes (unat p) (bytes name @ [0]) (hmem s)\<rparr>)
   }"

text \<open>A partition of \<open>count\<close> sectors from \<open>start\<close> on, as device number \<open>i\<close> of its disk.\<close>

definition register_part ::
    "'d block_device \<Rightarrow> nat \<Rightarrow> u64 \<Rightarrow> u64 \<Rightarrow> 'd block_table \<Rightarrow> 'a heap_scheme \<Rightarrow> (bool \<times> 'd block_table \<times> 'a heap_scheme) option" where
  "register_part dev i start count t s = do {
     (part, s) \<leftarrow> must_malloc SIZEOF_BLOCK_DEVICE s;
     (p, name, s) \<leftarrow> make_partition_name (bd_name dev) i s;
     let (ok, t) = block_register (dev\<lparr>bd_name := name, sector_count := count, lba_offset := lba_offset dev + start\<rparr>) t;
     if ok then Some (True, t, s)
     else do { s \<leftarrow> kfree p s; s \<leftarrow> kfree part s; Some (False, t, s) }
   }"

section \<open>GUID partition tables\<close>

abbreviation (input) GPT_SIGNATURE :: u64 where "GPT_SIGNATURE \<equiv> 0x5452415020494645"

record gpt_header =
  gpt_signature :: u64
  partition_entry_lba :: u64
  partition_entry_count :: u32
  partition_entry_size :: u32

definition gpt_header_of :: "u8 list \<Rightarrow> gpt_header option" where
  "gpt_header_of xs = do {
     sig \<leftarrow> get64 xs 0;
     lba \<leftarrow> get64 xs 72;
     n \<leftarrow> get32 xs 80;
     sz \<leftarrow> get32 xs 84;
     _ \<leftarrow> get32 xs 88;
     Some \<lparr>gpt_signature = sig, partition_entry_lba = lba, partition_entry_count = n, partition_entry_size = sz\<rparr>
   }"

definition guid_is_zero :: "u8 list \<Rightarrow> bool" where
  "guid_is_zero g \<longleftrightarrow> (\<forall>b \<in> set (take 16 g). b = 0)"

text \<open>The first sector and the number of sectors of an entry that describes a partition.\<close>

definition gpt_entry :: "u8 list \<Rightarrow> (u64 \<times> u64) option option" where
  "gpt_entry e = do {
     start \<leftarrow> get64 e 32;
     end \<leftarrow> get64 e 40;
     Some (if guid_is_zero e \<or> start = 0 \<or> end < start then None else Some (start, end - start + 1))
   }"

fun gpt_entries ::
    "'d block_device \<Rightarrow> u8 list \<Rightarrow> u32 \<Rightarrow> nat list \<Rightarrow> nat \<Rightarrow> 'd block_table \<Rightarrow> 'a heap_scheme \<Rightarrow> (nat \<times> 'd block_table \<times> 'a heap_scheme) option" where
  "gpt_entries dev table sz [] registered t s = Some (registered, t, s)"
| "gpt_entries dev table sz (i # is) registered t s = do {
     e \<leftarrow> disk_get (unat (of_nat i * sz)) 128 table;
     r \<leftarrow> gpt_entry e;
     (case r of
        None \<Rightarrow> gpt_entries dev table sz is registered t s
      | Some (start, count) \<Rightarrow> do {
          (ok, t, s) \<leftarrow> register_part dev i start count t s;
          gpt_entries dev table sz is (if ok then registered + 1 else registered) t s
        })
   }"

definition gpt_register_partitions :: "'d block_device \<Rightarrow> 'd block_table \<Rightarrow> 'a heap_scheme \<Rightarrow> (bool \<times> 'd block_table \<times> 'a heap_scheme) option" where
  "gpt_register_partitions dev t s = do {
     (sector, s) \<leftarrow> must_malloc (ucast (sector_size dev)) s;
     r \<leftarrow> dev_read dev 1 1;
     (case r of
        None \<Rightarrow> do { s \<leftarrow> kfree sector s; Some (False, t, s) }
      | Some bs \<Rightarrow> do {
          bs \<leftarrow> read_into sector (unat (sector_size dev)) bs s;
          header \<leftarrow> gpt_header_of bs;
          s \<leftarrow> kfree sector s;
          if gpt_signature header \<noteq> GPT_SIGNATURE then Some (False, t, s)
          else if partition_entry_size header < 128 then Some (False, t, s)
          else do {
            entries_per_sector \<leftarrow> udiv (sector_size dev) (partition_entry_size header);
            total_sectors \<leftarrow> udiv (partition_entry_count header + entries_per_sector - 1) entries_per_sector;
            (table, s) \<leftarrow> must_malloc (ucast (total_sectors * sector_size dev)) s;
            r \<leftarrow> dev_read dev (partition_entry_lba header) total_sectors;
            (case r of
               None \<Rightarrow> do { s \<leftarrow> kfree table s; Some (False, t, s) }
             | Some bs \<Rightarrow> do {
                 bs \<leftarrow> read_into table (unat (total_sectors * sector_size dev)) bs s;
                 (registered, t, s) \<leftarrow> gpt_entries dev bs (partition_entry_size header) [0..<unat (partition_entry_count header)] 0 t s;
                 s \<leftarrow> kfree table s;
                 Some (registered > 0, t, s)
               })
          }
        })
   }"

section \<open>Master boot records\<close>

abbreviation (input) MBR_SIGNATURE :: u16 where "MBR_SIGNATURE \<equiv> 0xAA55"

fun mbr_entries ::
    "'d block_device \<Rightarrow> u8 list \<Rightarrow> nat list \<Rightarrow> nat \<Rightarrow> 'd block_table \<Rightarrow> 'a heap_scheme \<Rightarrow> (nat \<times> 'd block_table \<times> 'a heap_scheme) option" where
  "mbr_entries dev mbr [] registered t s = Some (registered, t, s)"
| "mbr_entries dev mbr (i # is) registered t s = do {
     type \<leftarrow> get8 mbr (446 + 16 * i + 4);
     lba_start \<leftarrow> get32 mbr (446 + 16 * i + 8);
     count \<leftarrow> get32 mbr (446 + 16 * i + 12);
     if type = 0 \<or> count = 0 then mbr_entries dev mbr is registered t s
     else do {
       (ok, t, s) \<leftarrow> register_part dev i (ucast lba_start) (ucast count) t s;
       mbr_entries dev mbr is (if ok then registered + 1 else registered) t s
     }
   }"

definition mbr_register_partitions :: "'d block_device \<Rightarrow> 'd block_table \<Rightarrow> 'a heap_scheme \<Rightarrow> (bool \<times> 'd block_table \<times> 'a heap_scheme) option" where
  "mbr_register_partitions dev t s = do {
     (mbr, s) \<leftarrow> must_malloc 512 s;
     r \<leftarrow> dev_read dev 0 1;
     (case r of
        None \<Rightarrow> do { s \<leftarrow> kfree mbr s; Some (False, t, s) }
      | Some bs \<Rightarrow> do {
          bs \<leftarrow> read_into mbr 512 bs s;
          sig \<leftarrow> get16 bs 510;
          if sig \<noteq> MBR_SIGNATURE then do { s \<leftarrow> kfree mbr s; Some (False, t, s) }
          else do {
            (registered, t, s) \<leftarrow> mbr_entries dev bs [0..<4] 0 t s;
            s \<leftarrow> kfree mbr s;
            Some (registered > 0, t, s)
          }
        })
   }"

section \<open>Boot images\<close>

text \<open>The modules of the boot loader, with their paths, addresses and contents, are an argument.\<close>

record limine_file =
  mod_path :: string
  mod_address :: u64
  file_bytes :: "u8 list"

definition limine_get_module :: "string \<Rightarrow> limine_file list \<Rightarrow> limine_file option" where
  "limine_get_module name mods = find (\<lambda>m. \<exists>i \<in> set [0..<length (mod_path m) + 1]. take (length name) (drop i (mod_path m)) = name) mods"

definition image_create_blockdev ::
    "limine_file list \<Rightarrow> string \<Rightarrow> string \<Rightarrow> 'a heap_scheme \<Rightarrow> ((u64 \<times> mem_ctx block_device) option \<times> 'a heap_scheme) option" where
  "image_create_blockdev mods name mod_name s =
     (case limine_get_module mod_name mods of
        None \<Rightarrow> Some (None, s)
      | Some m \<Rightarrow>
          if mod_address m = 0 then Some (None, s)
          else do {
            (dev, s) \<leftarrow> must_malloc SIZEOF_BLOCK_DEVICE s;
            (ctx, s) \<leftarrow> must_malloc SIZEOF_CTX s;
            let n = of_nat (length (file_bytes m));
            Some (Some (dev, \<lparr>bd_name = name, sector_count = n div 512, sector_size = 512, lba_offset = 0,
                    driver_data = \<lparr>ctx_ptr = ctx, data_ptr = mod_address m, disk_bytes = file_bytes m, size_bytes = n\<rparr>,
                    bd_read = image_read, bd_write = image_write\<rparr>), s)
          })"

end
