(* ===== verification/Config.thy ===== *)
theory Config
  imports Partition
begin

text \<open>
  The boot configuration, \<^verbatim>\<open>src/kernel/config/config.c\<close>: lines \<^verbatim>\<open>key=value\<close> with comments, kept in a table
  of 64 entries with keys and values of bounded length. The modules of the boot loader are an
  argument.
\<close>

abbreviation (input) MAX_CONFIG_ENTRIES :: nat where "MAX_CONFIG_ENTRIES \<equiv> 64"
abbreviation (input) MAX_KEY_LEN :: nat where "MAX_KEY_LEN \<equiv> 32"
abbreviation (input) MAX_VALUE_LEN :: nat where "MAX_VALUE_LEN \<equiv> 64"

type_synonym config = "(u8 list \<times> u8 list) list"

text \<open>The text of a C string in a buffer.\<close>

definition upto_nul :: "u8 list \<Rightarrow> u8 list" where
  "upto_nul = takeWhile (\<lambda>c. c \<noteq> 0)"

definition config_add :: "u8 list \<Rightarrow> u8 list \<Rightarrow> config \<Rightarrow> config" where
  "config_add key val es =
     (if length es \<ge> MAX_CONFIG_ENTRIES then es
      else es @ [(take (MAX_KEY_LEN - 1) (upto_nul key), take (MAX_VALUE_LEN - 1) (upto_nul val))])"

abbreviation (input) EQ_CHAR :: u8 where "EQ_CHAR \<equiv> 0x3D"
abbreviation (input) NEWLINE :: u8 where "NEWLINE \<equiv> 0x0A"
abbreviation (input) HASH_CHAR :: u8 where "HASH_CHAR \<equiv> 0x23"

text \<open>One line: the key, the value and what is left of the buffer behind the line.\<close>

definition config_line :: "u8 list \<Rightarrow> u8 list \<times> u8 list \<times> u8 list" where
  "config_line buf =
     (let key = takeWhile (\<lambda>c. c \<noteq> EQ_CHAR \<and> c \<noteq> NEWLINE \<and> c \<noteq> HASH_CHAR) buf;
          buf = dropWhile (\<lambda>c. c \<noteq> EQ_CHAR \<and> c \<noteq> NEWLINE \<and> c \<noteq> HASH_CHAR) buf;
          buf = (case buf of c # cs \<Rightarrow> if c = EQ_CHAR then cs else buf | [] \<Rightarrow> buf);
          val = takeWhile (\<lambda>c. c \<noteq> NEWLINE \<and> c \<noteq> HASH_CHAR) buf;
          buf = dropWhile (\<lambda>c. c \<noteq> NEWLINE \<and> c \<noteq> HASH_CHAR) buf;
          buf = dropWhile (\<lambda>c. c \<noteq> NEWLINE) buf
      in (take (MAX_KEY_LEN - 1) key, take (MAX_VALUE_LEN - 1) val, tl buf))"

lemma config_line_shorter: "buf \<noteq> [] \<Longrightarrow> config_line buf = (key, val, rest) \<Longrightarrow> length rest < length buf"
proof -
  assume b: "buf \<noteq> []" and l: "config_line buf = (key, val, rest)"
  have d: "length (dropWhile P xs) \<le> length xs" for P and xs :: "u8 list" by (rule length_dropWhile_le)
  define b1 where "b1 = dropWhile (\<lambda>c. c \<noteq> EQ_CHAR \<and> c \<noteq> NEWLINE \<and> c \<noteq> HASH_CHAR) buf"
  define b2 where "b2 = (case b1 of c # cs \<Rightarrow> if c = EQ_CHAR then cs else b1 | [] \<Rightarrow> b1)"
  define b3 where "b3 = dropWhile (\<lambda>c. c \<noteq> NEWLINE) (dropWhile (\<lambda>c. c \<noteq> NEWLINE \<and> c \<noteq> HASH_CHAR) b2)"
  have "length b1 \<le> length buf" by (simp add: b1_def d)
  moreover have "length b2 \<le> length b1" by (simp add: b2_def split: list.split)
  moreover have "length b3 \<le> length b2" unfolding b3_def by (rule order_trans [OF d d])
  ultimately have "length b3 \<le> length buf" by simp
  moreover have "rest = tl b3" using l by (simp add: config_line_def Let_def flip: b1_def, simp flip: b2_def, simp flip: b3_def)
  ultimately show ?thesis using b by (cases b3) auto
qed

function config_lines :: "u8 list \<Rightarrow> config \<Rightarrow> config" where
  "config_lines buf es =
     (if buf = [] then es
      else (let (key, val, rest) = config_line buf
            in config_lines rest (if key \<noteq> [] then config_add key val es else es)))"
  by pat_completeness auto
termination
  by (relation "measure (\<lambda>(buf, es). length buf)") (auto dest: config_line_shorter [OF _ sym])

declare config_lines.simps [simp del]

definition loadConfig :: "limine_file list \<Rightarrow> config \<Rightarrow> config" where
  "loadConfig mods es =
     (case limine_get_module ''kernel.conf'' mods of
        None \<Rightarrow> es
      | Some m \<Rightarrow> if mod_address m = 0 then es else config_lines (file_bytes m) es)"

definition config_get :: "u8 list \<Rightarrow> u8 list \<Rightarrow> config \<Rightarrow> u8 list" where
  "config_get key fallback es = (case find (\<lambda>e. fst e = key) es of None \<Rightarrow> fallback | Some e \<Rightarrow> snd e)"

end
