(* ===== verification/VfsState.thy ===== *)
theory VfsState
  imports Console Mkfs Config UserDisk
begin

text \<open>
  The state of the virtual file system, \<^verbatim>\<open>src/kernel/hal/vfs.c\<close>, with mounting, the choice of the file
  system for a path, permissions and \<^verbatim>\<open>VFS_Create\<close>. Objects that the code shares by pointer are kept in
  stores by their address: mounted file systems, open ext2 files and directory iterators with
  the address of their file system, and the contents of the disks in memory by the address of the
  driver data, so that all devices of a disk show the same contents. A missing object stands for
  a dangling pointer, and using it has no defined result (\<open>None\<close>).
\<close>

section \<open>Error numbers\<close>

definition serror :: "int \<Rightarrow> u64" where
  "serror err = - word_of_int err"

text \<open>The error number as the \<^verbatim>\<open>int\<close> that the functions of the virtual file system return.\<close>

definition vfs_err :: "int \<Rightarrow> int" where
  "vfs_err e = sint (ucast (serror e) :: u32)"

abbreviation (input) EPERM :: int where "EPERM \<equiv> 1"
abbreviation (input) ENOENT :: int where "ENOENT \<equiv> 2"
abbreviation (input) ESRCH :: int where "ESRCH \<equiv> 3"
abbreviation (input) EIO :: int where "EIO \<equiv> 5"
abbreviation (input) EBADF :: int where "EBADF \<equiv> 9"
abbreviation (input) ENOMEM :: int where "ENOMEM \<equiv> 12"
abbreviation (input) EACCES :: int where "EACCES \<equiv> 13"
abbreviation (input) EFAULT :: int where "EFAULT \<equiv> 14"
abbreviation (input) EEXIST :: int where "EEXIST \<equiv> 17"
abbreviation (input) ENODEV :: int where "ENODEV \<equiv> 19"
abbreviation (input) ENOTDIR :: int where "ENOTDIR \<equiv> 20"
abbreviation (input) EINVAL :: int where "EINVAL \<equiv> 22"
abbreviation (input) ENFILE :: int where "ENFILE \<equiv> 23"
abbreviation (input) EMFILE :: int where "EMFILE \<equiv> 24"
abbreviation (input) ESPIPE :: int where "ESPIPE \<equiv> 29"
abbreviation (input) ERANGE :: int where "ERANGE \<equiv> 34"
abbreviation (input) ENOTSOCK :: int where "ENOTSOCK \<equiv> 88"
abbreviation (input) EDESTADDRREQ :: int where "EDESTADDRREQ \<equiv> 89"
abbreviation (input) ESOCKTNOSUPPORT :: int where "ESOCKTNOSUPPORT \<equiv> 94"
abbreviation (input) EOPNOTSUPP :: int where "EOPNOTSUPP \<equiv> 95"
abbreviation (input) EAFNOSUPPORT :: int where "EAFNOSUPPORT \<equiv> 97"
abbreviation (input) EADDRINUSE :: int where "EADDRINUSE \<equiv> 98"
abbreviation (input) ECONNREFUSED :: int where "ECONNREFUSED \<equiv> 111"

section \<open>Data\<close>

datatype dev_kind = DEV_STDIN | DEV_STDOUT | DEV_TTY | DEV_FB

record device_t =
  dev_ptr :: u64
  dev_path :: string
  dev_kind :: dev_kind

text \<open>A pointer to a string: a constant of the kernel, or an address in the space of the running process.\<close>

datatype cpath = KString string | UPtr u64

datatype file_flags_t = USER_WRITE | KERNEL

record VFS_File_t =
  vf_path :: "cpath option"
  vf_file :: u64
  vf_dir_iter :: u64
  vf_fs :: u64
  vf_flags :: file_flags_t
  vf_pid :: int
  vf_owner :: int
  vf_exists :: bool
  vf_is_dir :: bool
  vf_dev :: "device_t option"
  vf_is_dev :: bool
  vf_write_all :: bool
  vf_is_socket :: bool
  unix_sock_id :: int

record vfs_mount_t =
  mountpoint :: string
  mnt_fs :: u64
  mnt_dev :: "mem_ctx block_device"
  mnt_active :: bool

record fb_info_t =
  fb_width :: u32
  fb_height :: u32
  fb_pitch :: u32
  fb_bpp :: u32

record vfs_sys = con_sys +
  block_devices :: "mem_ctx block_table"
  disks :: "u64 \<Rightarrow> mem_ctx"
  fs_store :: "u64 \<Rightarrow> mem_ctx ext2_fs option"
  file_store :: "u64 \<Rightarrow> (u64 \<times> ext2_file) option"
  iter_store :: "u64 \<Rightarrow> (u64 \<times> ext2_dir_iter) option"
  rootfs :: u64
  mounted :: bool
  mount_table :: "nat \<Rightarrow> vfs_mount_t"
  open_files :: "nat \<Rightarrow> VFS_File_t"
  devices :: "nat \<Rightarrow> device_t option"
  framebuffer :: fb_info_t
  ret_junk :: int
  fs_base :: u64
  gs_base :: u64

abbreviation (input) MAX_OPEN_FILES :: nat where "MAX_OPEN_FILES \<equiv> 100"
abbreviation (input) MAX_MOUNTS :: nat where "MAX_MOUNTS \<equiv> 16"
abbreviation (input) MAX_DEVICES :: nat where "MAX_DEVICES \<equiv> 32"

section \<open>User memory\<close>

text \<open>Accesses through pointers of the running process go through its page tables.\<close>

definition cur_space :: "'a proc_sys_scheme \<Rightarrow> space_ptr" where
  "cur_space s = (if current_proc s < 0 then SKernel else pcb_space (cur_pcb s))"

definition load_user :: "u64 \<Rightarrow> nat \<Rightarrow> 'a proc_sys_scheme \<Rightarrow> u8 list option" where
  "load_user p n s = virt_read s (cur_space s) p n"

definition store_user :: "u64 \<Rightarrow> u8 list \<Rightarrow> 'a proc_sys_scheme \<Rightarrow> 'a proc_sys_scheme option" where
  "store_user p bs s = virt_write (cur_space s) p bs s"

partial_function (option) user_str :: "u64 \<Rightarrow> 'a proc_sys_scheme \<Rightarrow> string option" where
  "user_str p s = do {
     a \<leftarrow> mmu s (cur_space s) p;
     if mem s a = 0 then Some []
     else do { cs \<leftarrow> user_str (p + 1) s; Some (char_of (unat (mem s a)) # cs) }
   }"

definition path_str :: "cpath \<Rightarrow> 'a proc_sys_scheme \<Rightarrow> string option" where
  "path_str path s = (case path of KString x \<Rightarrow> Some x | UPtr p \<Rightarrow> user_str p s)"

section \<open>Calls to the file systems\<close>

definition load_disk :: "mem_ctx block_device \<Rightarrow> 'a vfs_sys_scheme \<Rightarrow> mem_ctx block_device" where
  "load_disk dev s = dev\<lparr>driver_data := disks s (ctx_ptr (driver_data dev))\<rparr>"

definition save_disk :: "mem_ctx block_device \<Rightarrow> 'a vfs_sys_scheme \<Rightarrow> 'a vfs_sys_scheme" where
  "save_disk dev s = s\<lparr>disks := (disks s)(ctx_ptr (driver_data dev) := driver_data dev)\<rparr>"

definition load_fs :: "u64 \<Rightarrow> 'a vfs_sys_scheme \<Rightarrow> mem_ctx ext2_fs option" where
  "load_fs p s = map_option (\<lambda>fs. fs\<lparr>fs_device := load_disk (fs_device fs) s\<rparr>) (fs_store s p)"

definition save_fs :: "u64 \<Rightarrow> mem_ctx ext2_fs \<Rightarrow> 'a vfs_sys_scheme \<Rightarrow> 'a vfs_sys_scheme" where
  "save_fs p fs s = save_disk (fs_device fs) (s\<lparr>fs_store := (fs_store s)(p \<mapsto> fs)\<rparr>)"

text \<open>A call to the ext2 driver with the file system at \<open>p\<close>; \<open>r0\<close> is the result for the null pointer.\<close>

definition fs_call ::
    "'r \<Rightarrow> u64 \<Rightarrow> (mem_ctx ext2_fs \<Rightarrow> 'a vfs_sys_scheme \<Rightarrow> ('r \<times> mem_ctx ext2_fs \<times> 'a vfs_sys_scheme) option)
     \<Rightarrow> 'a vfs_sys_scheme \<Rightarrow> ('r \<times> 'a vfs_sys_scheme) option" where
  "fs_call r0 p f s =
     (if p = 0 then Some (r0, s)
      else do {
        fs \<leftarrow> load_fs p s;
        (r, fs, s) \<leftarrow> f fs s;
        Some (r, save_fs p fs s)
      })"

definition fs_mount :: "mem_ctx block_device \<Rightarrow> 'a vfs_sys_scheme \<Rightarrow> (u64 \<times> 'a vfs_sys_scheme) option" where
  "fs_mount dev s = do {
     (fs, s) \<leftarrow> ext2_mount (load_disk dev s) s;
     Some (case fs of None \<Rightarrow> (0, s) | Some fs \<Rightarrow> (fs_ptr fs, save_fs (fs_ptr fs) fs s))
   }"

definition fs_unmount :: "u64 \<Rightarrow> 'a vfs_sys_scheme \<Rightarrow> 'a vfs_sys_scheme option" where
  "fs_unmount p s =
     (if p = 0 then Some s
      else do {
        fs \<leftarrow> load_fs p s;
        (_, dev, s) \<leftarrow> ext2_unmount fs s;
        Some (save_disk dev (s\<lparr>fs_store := (fs_store s)(p := None)\<rparr>))
      })"

section \<open>Paths\<close>

text \<open>Part number \<open>key\<close> of a text that is divided by slashes, in a buffer of \<open>n\<close> characters.\<close>

fun key_scan :: "string \<Rightarrow> nat \<Rightarrow> nat \<Rightarrow> nat \<Rightarrow> string \<Rightarrow> nat \<times> string" where
  "key_scan [] cur key n out = (cur, out)"
| "key_scan (c # cs) cur key n out =
     (if cur = key \<and> c = CHR ''/'' then (cur, out)
      else (let out = (if cur = key \<and> length out + 1 < n then out @ [c] else out)
            in key_scan cs (if c = CHR ''/'' then cur + 1 else cur) key n out))"

definition get_value_by_key :: "string \<Rightarrow> nat \<Rightarrow> nat \<Rightarrow> int + string" where
  "get_value_by_key input key n =
     (if n = 0 then Inl (vfs_err EINVAL)
      else (let (cur, out) = key_scan input 0 key n [] in if cur \<noteq> key then Inl (vfs_err ENOENT) else Inr out))"

definition special_paths :: "string list" where
  "special_paths = [''/dev/stdin'', ''/dev/stdout'', ''/dev/stderr'', ''/dev/stddbg'']"

definition check_path :: "string \<Rightarrow> int" where
  "check_path path = (case scan (\<lambda>i. special_paths ! i = path) 0 (length special_paths) of None \<Rightarrow> -1 | Some i \<Rightarrow> int i)"

definition vfs_caller_uid :: "'a proc_sys_scheme \<Rightarrow> int" where
  "vfs_caller_uid s =
     (let pid = proc_get_current_pid s in
      if pid < 0 then UID_ROOT
      else (let u = proc_get_owner pid s in if \<not> user_exists s u then UID_ROOT else u))"

text \<open>The loop over the mount table keeps the file system, the path in it and the length of the best mount point.\<close>

fun best_mount :: "string \<Rightarrow> vfs_mount_t list \<Rightarrow> u64 \<times> string \<times> nat \<Rightarrow> u64 \<times> string \<times> nat" where
  "best_mount path [] best = best"
| "best_mount path (m # ms) best =
     (let mplen = length (mountpoint m) in
      if \<not> mnt_active m \<or> mplen \<le> snd (snd best) then best_mount path ms best
      else if take mplen path = mountpoint m \<and> (drop mplen path = [] \<or> hd (drop mplen path) = CHR ''/'')
      then best_mount path ms (mnt_fs m, if drop mplen path = [] then ''/'' else drop mplen path, mplen)
      else best_mount path ms best)"

definition resolve_fs :: "string \<Rightarrow> 'a vfs_sys_scheme \<Rightarrow> u64 \<times> string" where
  "resolve_fs path s =
     (let (fs, rel, _) = best_mount path (map (mount_table s) [0..<MAX_MOUNTS]) (rootfs s, path, 0) in (fs, rel))"

definition vfs_access_ok :: "u64 \<Rightarrow> string \<Rightarrow> u16 \<Rightarrow> bool \<Rightarrow> 'a vfs_sys_scheme \<Rightarrow> (bool \<times> 'a vfs_sys_scheme) option" where
  "vfs_access_ok fs path acc privileged s =
     (if privileged then Some (True, s)
      else (let u = vfs_caller_uid s in
            if user_is_root s u then Some (True, s)
            else do {
              (r, s) \<leftarrow> fs_call EXT2_ERROR_INVALID fs (ext2_access path u acc) s;
              Some (r = EXT2_SUCCESS, s)
            }))"

section \<open>Mounting and creation\<close>

definition free_mount :: "'a vfs_sys_scheme \<Rightarrow> nat option" where
  "free_mount s = scan (\<lambda>i. \<not> mnt_active (mount_table s i)) 0 MAX_MOUNTS"

definition VFS_Mount :: "string \<Rightarrow> string \<Rightarrow> 'a vfs_sys_scheme \<Rightarrow> (int \<times> 'a vfs_sys_scheme) option" where
  "VFS_Mount source target s =
     (case block_get source (block_devices s) of
        None \<Rightarrow> Some (vfs_err ENODEV, s)
      | Some dev \<Rightarrow> do {
          (fs, s) \<leftarrow> fs_mount dev s;
          if fs = 0 then Some (vfs_err EIO, s)
          else (case free_mount s of
                  None \<Rightarrow> do { s \<leftarrow> fs_unmount fs s; Some (vfs_err ENFILE, s) }
                | Some i \<Rightarrow> Some (0, s\<lparr>mount_table := (mount_table s)(i := \<lparr>mountpoint = take 255 target, mnt_fs = fs, mnt_dev = dev,
                                                                         mnt_active = True\<rparr>)\<rparr>))
        })"

definition VFS_Unmount_Path :: "string \<Rightarrow> 'a vfs_sys_scheme \<Rightarrow> (int \<times> 'a vfs_sys_scheme) option" where
  "VFS_Unmount_Path target s =
     (case scan (\<lambda>i. mnt_active (mount_table s i) \<and> mountpoint (mount_table s i) = target) 0 MAX_MOUNTS of
        None \<Rightarrow> Some (vfs_err ENOENT, s)
      | Some i \<Rightarrow> do {
          s \<leftarrow> fs_unmount (mnt_fs (mount_table s i)) s;
          Some (0, s\<lparr>mount_table := (mount_table s)(i := (mount_table s i)\<lparr>mnt_active := False\<rparr>)\<rparr>)
        })"

definition VFS_Create :: "string \<Rightarrow> bool \<Rightarrow> 'a vfs_sys_scheme \<Rightarrow> (int \<times> 'a vfs_sys_scheme) option" where
  "VFS_Create path isDir s = do {
     let (fs, rel) = resolve_fs path s;
     (ok, s) \<leftarrow> vfs_access_ok fs rel ACCESS_WRITE False s;
     if \<not> ok then Some (vfs_err EPERM, s)
     else if isDir
     then do {
       (r, s) \<leftarrow> fs_call EXT2_ERROR_INVALID fs (ext2_mkdir rel) s;
       Some (if r = EXT2_SUCCESS then 0 else vfs_err ENOTDIR, s)
     }
     else do {
       (r, s) \<leftarrow> fs_call EXT2_ERROR_INVALID fs (ext2_create rel 0x1A4) s;
       Some (if r = EXT2_SUCCESS then 0 else vfs_err EIO, s)
     }
   }"

end
