(* ===== verification/Device.thy ===== *)
theory Device
  imports VfsState
begin

text \<open>
  The device registry (\<^verbatim>\<open>src/kernel/device/device.c\<close>) and the character devices: standard input and output,
  terminal and framebuffer. A device has a kind, which stands for its three functions. A read
  from standard input gives up the processor (\<open>SBlock\<close>) and returns the size of its buffer when
  the process runs again. The functions of the framebuffer device for reading and writing are never set; the
  write function of standard output returns no value, \<open>ret_junk\<close> being what the caller finds.
\<close>

section \<open>Registry\<close>

definition device_init :: "'a vfs_sys_scheme \<Rightarrow> 'a vfs_sys_scheme option" where
  "device_init s = do {
     (p, s) \<leftarrow> kmalloc (of_nat MAX_DEVICES * 8) s;
     if p = 0 then None else Some (s\<lparr>devices := (\<lambda>_. None)\<rparr>)
   }"

definition device_register :: "device_t \<Rightarrow> 'a vfs_sys_scheme \<Rightarrow> (bool \<times> 'a vfs_sys_scheme) option" where
  "device_register dev s =
     (case scan (\<lambda>i. devices s i = None) 0 MAX_DEVICES of
        None \<Rightarrow> Some (False, s)
      | Some i \<Rightarrow> do {
          (_, s) \<leftarrow> VFS_Create (dev_path dev) False (s\<lparr>devices := (devices s)(i \<mapsto> dev)\<rparr>);
          Some (True, s)
        })"

definition device_slot :: "string \<Rightarrow> 'a vfs_sys_scheme \<Rightarrow> nat option" where
  "device_slot path s = scan (\<lambda>i. case devices s i of None \<Rightarrow> False | Some d \<Rightarrow> dev_path d = path) 0 MAX_DEVICES"

definition device_get :: "string \<Rightarrow> 'a vfs_sys_scheme \<Rightarrow> device_t option" where
  "device_get path s = (case device_slot path s of None \<Rightarrow> None | Some i \<Rightarrow> devices s i)"

definition device_unregister :: "string \<Rightarrow> 'a vfs_sys_scheme \<Rightarrow> bool \<times> 'a vfs_sys_scheme" where
  "device_unregister path s =
     (case device_slot path s of None \<Rightarrow> (False, s) | Some i \<Rightarrow> (True, s\<lparr>devices := (devices s)(i := None)\<rparr>))"

abbreviation (input) SIZEOF_DEVICE :: u64 where "SIZEOF_DEVICE \<equiv> 32"

definition char_device_init :: "dev_kind \<Rightarrow> string \<Rightarrow> 'a vfs_sys_scheme \<Rightarrow> (device_t option \<times> 'a vfs_sys_scheme) option" where
  "char_device_init kind path s = do {
     (r, s) \<leftarrow> VFS_Create path False s;
     if r < 0 then Some (None, s)
     else do {
       (p, s) \<leftarrow> kmalloc SIZEOF_DEVICE s;
       if p = 0 then Some (None, s)
       else do {
         let dev = \<lparr>dev_ptr = p, dev_path = path, dev_kind = kind\<rparr>;
         (_, s) \<leftarrow> device_register dev s;
         Some (Some dev, s)
       }
     }
   }"

definition stdin_device_init :: "string \<Rightarrow> 'a vfs_sys_scheme \<Rightarrow> (device_t option \<times> 'a vfs_sys_scheme) option" where
  "stdin_device_init = char_device_init DEV_STDIN"

definition stdout_device_init :: "string \<Rightarrow> 'a vfs_sys_scheme \<Rightarrow> (device_t option \<times> 'a vfs_sys_scheme) option" where
  "stdout_device_init = char_device_init DEV_STDOUT"

definition tty_device_init :: "string \<Rightarrow> 'a vfs_sys_scheme \<Rightarrow> (device_t option \<times> 'a vfs_sys_scheme) option" where
  "tty_device_init = char_device_init DEV_TTY"

definition console_make_dev :: "'a vfs_sys_scheme \<Rightarrow> 'a vfs_sys_scheme option" where
  "console_make_dev s = map_option snd (tty_device_init ''/dev/tty'' s)"

definition fb_device_init :: "string \<Rightarrow> 'a vfs_sys_scheme \<Rightarrow> (device_t option \<times> 'a vfs_sys_scheme) option" where
  "fb_device_init = char_device_init DEV_FB"

section \<open>Standard input and output\<close>

text \<open>A value is given to the process through its pointer.\<close>

definition give_user :: "int \<Rightarrow> u64 \<Rightarrow> u8 list \<Rightarrow> 'a vfs_sys_scheme \<Rightarrow> (int \<times> 'a vfs_sys_scheme) option" where
  "give_user pid arg bs s =
     (if arg = 0 then Some (-1, s)
      else do { (ok, s) \<leftarrow> proc_write_to_user pid arg (Some bs) s; Some (if ok then 0 else -1, s) })"

definition stdin_dispatcher :: "int \<Rightarrow> u64 \<Rightarrow> u64 \<Rightarrow> 'a vfs_sys_scheme \<Rightarrow> (int \<times> 'a vfs_sys_scheme) option" where
  "stdin_dispatcher pid req arg s =
     (if req = 1 then Some (0, console_backspace s)
      else if req = 2 then do { s \<leftarrow> console_clear s; Some (0, s) }
      else if req = 3 then give_user pid arg [console_get_current_c s] s
      else Some (-1, s))"

definition stdin_read :: "u64 \<Rightarrow> u64 \<Rightarrow> 'a vfs_sys_scheme \<Rightarrow> (sock_result \<times> 'a vfs_sys_scheme) option" where
  "stdin_read count buf s =
     (let pid = proc_get_current_pid s in
      if pid < 0 then Some (SDone (vfs_err ESRCH), s)
      else do { s \<leftarrow> console_register_proc pid buf count s; Some (SBlock, s) })"

definition stdin_read_resume :: "u64 \<Rightarrow> int" where
  "stdin_read_resume count = sint (ucast count :: u32)"

definition stdout_putcs :: "u8 list \<Rightarrow> 'a con_sys_scheme \<Rightarrow> 'a con_sys_scheme" where
  "stdout_putcs bs s = fold console_putc bs s"

definition stdout_write :: "u64 \<Rightarrow> 'a vfs_sys_scheme \<Rightarrow> (int \<times> 'a vfs_sys_scheme) option" where
  "stdout_write arg s = do {
     event \<leftarrow> load_user arg 16 s;
     count \<leftarrow> get64 event 0;
     buf \<leftarrow> get64 event 8;
     bs \<leftarrow> load_user buf (unat count) s;
     Some (0, stdout_putcs bs s)
   }"

definition stdout_dispatcher :: "u64 \<Rightarrow> u64 \<Rightarrow> 'a vfs_sys_scheme \<Rightarrow> (int \<times> 'a vfs_sys_scheme) option" where
  "stdout_dispatcher req arg s =
     (if req = 1 then stdout_write arg s
      else if req = 2 then Some (0, console_putc (ucast arg) s)
      else if req = 3 then Some (0, console_backspace_no_input s)
      else Some (-1, s))"

section \<open>Terminal\<close>

definition termios_bytes :: "termios \<Rightarrow> u8 list" where
  "termios_bytes t = le_enc 4 (c_iflag t) @ le_enc 4 (c_oflag t) @ le_enc 4 (c_cflag t) @ le_enc 4 (c_lflag t) @ [c_line t] @ c_cc t"

definition termios_of :: "u8 list \<Rightarrow> termios" where
  "termios_of bs = \<lparr>c_iflag = dec32 bs 0, c_oflag = dec32 bs 4, c_cflag = dec32 bs 8, c_lflag = dec32 bs 12, c_line = bs ! 16,
     c_cc = take 19 (drop 17 bs)\<rparr>"

definition winsize_bytes :: "winsize \<Rightarrow> u8 list" where
  "winsize_bytes w = le_enc 2 (ws_row w) @ le_enc 2 (ws_col w) @ le_enc 2 (ws_xpixel w) @ le_enc 2 (ws_ypixel w)"

definition winsize_of :: "u8 list \<Rightarrow> winsize" where
  "winsize_of bs = \<lparr>ws_row = dec16 bs 0, ws_col = dec16 bs 2, ws_xpixel = dec16 bs 4, ws_ypixel = dec16 bs 6\<rparr>"

definition tty_tcsets :: "u64 \<Rightarrow> nat \<Rightarrow> 'a vfs_sys_scheme \<Rightarrow> (int \<times> 'a vfs_sys_scheme) option" where
  "tty_tcsets arg mode s =
     (if arg = 0 then Some (-1, s)
      else do {
        let s = (if mode = 2 then console_tcflush TCIFLUSH s else s);
        bs \<leftarrow> load_user arg 36 s;
        Some (0, console_set_termios (termios_of bs) s)
      })"

definition tty_tiocswinsz :: "u64 \<Rightarrow> 'a vfs_sys_scheme \<Rightarrow> (int \<times> 'a vfs_sys_scheme) option" where
  "tty_tiocswinsz arg s =
     (if arg = 0 then Some (-1, s) else do { bs \<leftarrow> load_user arg 8 s; Some (0, console_set_winsize (winsize_of bs) s) })"

definition load_int :: "u64 \<Rightarrow> 'a proc_sys_scheme \<Rightarrow> int option" where
  "load_int arg s = map_option (\<lambda>bs. sint (dec32 bs 0)) (load_user arg 4 s)"

definition int_bytes :: "int \<Rightarrow> u8 list" where
  "int_bytes i = le_enc 4 (word_of_int i :: u32)"

definition tty_tcflsh :: "u64 \<Rightarrow> 'a vfs_sys_scheme \<Rightarrow> (int \<times> 'a vfs_sys_scheme) option" where
  "tty_tcflsh arg s = do {
     queue \<leftarrow> (if arg \<noteq> 0 then load_int arg s else Some TCIOFLUSH);
     Some (0, console_tcflush queue s)
   }"

definition tty_tiocspgrp :: "u64 \<Rightarrow> 'a vfs_sys_scheme \<Rightarrow> (int \<times> 'a vfs_sys_scheme) option" where
  "tty_tiocspgrp arg s =
     (if arg = 0 then Some (-1, s) else do { g \<leftarrow> load_int arg s; Some (0, console_set_pgrp g s) })"

definition tty_dispatcher :: "int \<Rightarrow> u64 \<Rightarrow> u64 \<Rightarrow> 'a vfs_sys_scheme \<Rightarrow> (int \<times> 'a vfs_sys_scheme) option" where
  "tty_dispatcher pid req arg s =
     (if req = 0x5401 then give_user pid arg (termios_bytes (console_get_termios s)) s
      else if req = 0x5402 then tty_tcsets arg 0 s
      else if req = 0x5403 then tty_tcsets arg 1 s
      else if req = 0x5404 then tty_tcsets arg 2 s
      else if req = 0x540B then tty_tcflsh arg s
      else if req = 0x5413 then give_user pid arg (winsize_bytes (console_get_winsize s)) s
      else if req = 0x5414 then tty_tiocswinsz arg s
      else if req = 0x540F then give_user pid arg (int_bytes (console_get_pgrp s)) s
      else if req = 0x5410 then tty_tiocspgrp arg s
      else if req = 0x5411 then give_user pid arg (int_bytes 0) s
      else if req = 0x541B then give_user pid arg (le_enc 4 (ucast (console_get_length s) :: u32)) s
      else Some (-1, s))"

section \<open>Framebuffer\<close>

definition fb_info_bytes :: "fb_info_t \<Rightarrow> u8 list" where
  "fb_info_bytes i = le_enc 4 (fb_width i) @ le_enc 4 (fb_height i) @ le_enc 4 (fb_pitch i) @ le_enc 4 (fb_bpp i)"

definition fb_get_info :: "int \<Rightarrow> u64 \<Rightarrow> 'a vfs_sys_scheme \<Rightarrow> (int \<times> 'a vfs_sys_scheme) option" where
  "fb_get_info pid arg s =
     (if arg = 0 then Some (-1, s)
      else if pid < 0 then do { s \<leftarrow> virt_write SKernel arg (fb_info_bytes (framebuffer s)) s; Some (0, s) }
      else give_user (proc_get_current_pid s) arg (fb_info_bytes (framebuffer s)) s)"

definition fb_dispatcher :: "int \<Rightarrow> u64 \<Rightarrow> u64 \<Rightarrow> 'a vfs_sys_scheme \<Rightarrow> (int \<times> 'a vfs_sys_scheme) option" where
  "fb_dispatcher pid req arg s = (if req = 1 then fb_get_info pid arg s else Some (-1, s))"

section \<open>The functions of a device\<close>

definition dev_dispatch :: "device_t \<Rightarrow> int \<Rightarrow> u64 \<Rightarrow> u64 \<Rightarrow> 'a vfs_sys_scheme \<Rightarrow> (int \<times> 'a vfs_sys_scheme) option" where
  "dev_dispatch dev pid req arg s =
     (case dev_kind dev of
        DEV_STDIN \<Rightarrow> stdin_dispatcher pid req arg s
      | DEV_STDOUT \<Rightarrow> stdout_dispatcher req arg s
      | DEV_TTY \<Rightarrow> tty_dispatcher pid req arg s
      | DEV_FB \<Rightarrow> fb_dispatcher pid req arg s)"

definition dev_read_fn :: "device_t \<Rightarrow> u64 \<Rightarrow> u64 \<Rightarrow> 'a vfs_sys_scheme \<Rightarrow> (sock_result \<times> 'a vfs_sys_scheme) option" where
  "dev_read_fn dev count buf s =
     (case dev_kind dev of
        DEV_STDIN \<Rightarrow> stdin_read count buf s
      | DEV_STDOUT \<Rightarrow> Some (SDone (-1), s)
      | DEV_TTY \<Rightarrow> Some (SDone (-1), s)
      | DEV_FB \<Rightarrow> None)"

text \<open>The bytes of the buffer are used by standard output only.\<close>

definition dev_write_fn :: "device_t \<Rightarrow> u8 list option \<Rightarrow> 'a vfs_sys_scheme \<Rightarrow> (sock_result \<times> 'a vfs_sys_scheme) option" where
  "dev_write_fn dev buf s =
     (case dev_kind dev of
        DEV_STDIN \<Rightarrow> Some (SDone (-1), s)
      | DEV_STDOUT \<Rightarrow> do { bs \<leftarrow> buf; Some (SDone (ret_junk s), stdout_putcs bs s) }
      | DEV_TTY \<Rightarrow> Some (SDone (-1), s)
      | DEV_FB \<Rightarrow> None)"

end
