(* ===== verification/Vfs.thy ===== *)
theory Vfs
  imports Device
begin

text \<open>
  Descriptors of the virtual file system (\<^verbatim>\<open>src/kernel/hal/vfs.c\<close>): opening, reading, writing, closing,
  directories and device control. A result is \<open>SDone\<close> of the returned number, or \<open>SBlock\<close> and \<open>SMore\<close> where the
  process gives up the processor in a socket or a device.
\<close>

section \<open>Descriptors\<close>

text \<open>A buffer of the kernel, or of the running process, which is read when it is used.\<close>

datatype cbuf = KBytes "u8 list" | UBuf u64

definition fetch_buf :: "cbuf \<Rightarrow> u64 \<Rightarrow> 'a proc_sys_scheme \<Rightarrow> u8 list option" where
  "fetch_buf buf count s =
     (case buf of
        KBytes bs \<Rightarrow> if length bs < unat count then None else Some (take (unat count) bs)
      | UBuf p \<Rightarrow> load_user p (unat count) s)"

definition null_buf :: "cbuf \<Rightarrow> bool" where
  "null_buf buf = (case buf of KBytes _ \<Rightarrow> False | UBuf p \<Rightarrow> p = 0)"

definition upd_file :: "nat \<Rightarrow> (VFS_File_t \<Rightarrow> VFS_File_t) \<Rightarrow> 'a vfs_sys_scheme \<Rightarrow> 'a vfs_sys_scheme" where
  "upd_file i f s = s\<lparr>open_files := (open_files s)(i := f (open_files s i))\<rparr>"

definition bad_fd :: "int \<Rightarrow> bool" where
  "bad_fd fd \<longleftrightarrow> fd < 0 \<or> fd \<ge> int MAX_OPEN_FILES"

abbreviation file_at :: "'a vfs_sys_scheme \<Rightarrow> int \<Rightarrow> VFS_File_t" where
  "file_at s fd \<equiv> open_files s (nat fd)"

definition setflags :: "file_flags_t \<Rightarrow> int \<Rightarrow> 'a vfs_sys_scheme \<Rightarrow> int \<times> 'a vfs_sys_scheme" where
  "setflags flags fd s =
     (if \<not> vf_exists (file_at s fd) then (vfs_err EBADF, s) else (0, upd_file (nat fd) (\<lambda>f. f\<lparr>vf_flags := flags\<rparr>) s))"

definition setwriteall :: "int \<Rightarrow> 'a vfs_sys_scheme \<Rightarrow> 'a vfs_sys_scheme" where
  "setwriteall fd s = upd_file (nat fd) (\<lambda>f. f\<lparr>vf_write_all := True\<rparr>) s"

definition free_fd :: "nat \<Rightarrow> 'a vfs_sys_scheme \<Rightarrow> nat option" where
  "free_fd start s = scan (\<lambda>i. \<not> vf_exists (open_files s i)) start MAX_OPEN_FILES"

section \<open>Opening\<close>

definition dir_opened :: "cpath \<Rightarrow> u64 \<Rightarrow> u64 \<Rightarrow> int \<Rightarrow> bool \<Rightarrow> int \<Rightarrow> VFS_File_t \<Rightarrow> VFS_File_t" where
  "dir_opened path it fs caller privileged pid f =
     f\<lparr>vf_path := Some path, vf_file := 0, vf_dir_iter := it, vf_fs := fs, vf_is_dir := True, vf_exists := True, vf_is_dev := False,
       vf_is_socket := False, vf_owner := caller, vf_pid := (if privileged then -1 else pid), vf_write_all := False,
       vf_flags := (if privileged then KERNEL else vf_flags f)\<rparr>"

definition open_dir :: "cpath \<Rightarrow> u64 \<Rightarrow> string \<Rightarrow> int \<Rightarrow> bool \<Rightarrow> 'a vfs_sys_scheme \<Rightarrow> (int \<times> 'a vfs_sys_scheme) option" where
  "open_dir path fs rel caller privileged s = do {
     (it, s) \<leftarrow> fs_call None fs (ext2_opendir rel) s;
     (case it of
        None \<Rightarrow> Some (vfs_err ENOTDIR, s)
      | Some it \<Rightarrow>
          (case free_fd 0 s of
             None \<Rightarrow> do { (_, s) \<leftarrow> fs_call EXT2_ERROR_INVALID fs (ext2_closedir it) s; Some (vfs_err EMFILE, s) }
           | Some i \<Rightarrow> Some (int i, upd_file i (dir_opened path (iter_ptr it) fs caller privileged (proc_get_current_pid s))
                                     (s\<lparr>iter_store := (iter_store s)(iter_ptr it \<mapsto> (fs, it))\<rparr>))))
   }"

definition file_opened :: "cpath \<Rightarrow> u64 \<Rightarrow> u64 \<Rightarrow> int \<Rightarrow> bool \<Rightarrow> int \<Rightarrow> device_t option \<Rightarrow> VFS_File_t \<Rightarrow> VFS_File_t" where
  "file_opened path fp fs caller privileged pid dev f =
     (let f = f\<lparr>vf_path := Some path, vf_file := fp, vf_dir_iter := 0, vf_fs := fs, vf_is_dir := False, vf_exists := True,
                vf_owner := caller, vf_pid := (if privileged then -1 else pid), vf_write_all := False, vf_is_socket := False,
                vf_flags := (if privileged then KERNEL else vf_flags f)\<rparr>
      in case dev of None \<Rightarrow> f | Some d \<Rightarrow> f\<lparr>vf_is_dev := True, vf_dev := Some d\<rparr>)"

definition open_file :: "cpath \<Rightarrow> string \<Rightarrow> u64 \<Rightarrow> string \<Rightarrow> int \<Rightarrow> bool \<Rightarrow> 'a vfs_sys_scheme \<Rightarrow> (int \<times> 'a vfs_sys_scheme) option" where
  "open_file path name fs rel caller privileged s = do {
     (f, s) \<leftarrow> fs_call None fs (ext2_open rel) s;
     (case f of
        None \<Rightarrow> Some (vfs_err ENOENT, s)
      | Some f \<Rightarrow>
          (case free_fd 0 s of
             None \<Rightarrow> do { (_, s) \<leftarrow> fs_call EXT2_ERROR_INVALID fs (ext2_close f) s; Some (vfs_err EMFILE, s) }
           | Some i \<Rightarrow> Some (int i, upd_file i (file_opened path (file_ptr f) fs caller privileged (proc_get_current_pid s) (device_get name s))
                                     (s\<lparr>file_store := (file_store s)(file_ptr f \<mapsto> (fs, f))\<rparr>))))
   }"

definition VFS_Open :: "cpath \<Rightarrow> bool \<Rightarrow> 'a vfs_sys_scheme \<Rightarrow> (int \<times> 'a vfs_sys_scheme) option" where
  "VFS_Open path privileged s = do {
     name \<leftarrow> path_str path s;
     if check_path name \<noteq> -1 \<and> \<not> privileged then Some (check_path name, s)
     else do {
       let (fs, rel) = resolve_fs name s;
       (ok, s) \<leftarrow> vfs_access_ok fs rel ACCESS_READ privileged s;
       if \<not> ok then Some (vfs_err EPERM, s)
       else do {
         let caller = (if privileged then UID_ROOT else vfs_caller_uid s);
         (st, s) \<leftarrow> fs_call (Inl EXT2_ERROR_INVALID) fs (ext2_stat rel) s;
         (case st of
            Inr inode \<Rightarrow> if i_mode inode AND 0xF000 = EXT2_S_IFDIR then open_dir path fs rel caller privileged s
                          else open_file path name fs rel caller privileged s
          | Inl _ \<Rightarrow> open_file path name fs rel caller privileged s)
       }
     }
   }"

section \<open>Files that are open\<close>

text \<open>A call on the ext2 file at address \<open>fp\<close>, which is kept with its changes.\<close>

definition file_call ::
    "u64 \<Rightarrow> (ext2_file \<Rightarrow> mem_ctx ext2_fs \<Rightarrow> 'a vfs_sys_scheme \<Rightarrow> ('r \<times> ext2_file \<times> mem_ctx ext2_fs \<times> 'a vfs_sys_scheme) option)
     \<Rightarrow> 'a vfs_sys_scheme \<Rightarrow> ('r \<times> 'a vfs_sys_scheme) option" where
  "file_call fp g s = do {
     (p, f) \<leftarrow> file_store s fp;
     fs \<leftarrow> load_fs p s;
     (r, f, fs, s) \<leftarrow> g f fs s;
     let s = save_fs p fs s;
     Some (r, s\<lparr>file_store := (file_store s)(fp \<mapsto> (p, f))\<rparr>)
   }"

definition file_close :: "u64 \<Rightarrow> 'a vfs_sys_scheme \<Rightarrow> 'a vfs_sys_scheme option" where
  "file_close fp s = do {
     (p, f) \<leftarrow> file_store s fp;
     (_, s) \<leftarrow> fs_call EXT2_ERROR_INVALID p (ext2_close f) s;
     Some (s\<lparr>file_store := (file_store s)(fp := None)\<rparr>)
   }"

definition iter_close :: "u64 \<Rightarrow> 'a vfs_sys_scheme \<Rightarrow> 'a vfs_sys_scheme option" where
  "iter_close ip s = do {
     (p, it) \<leftarrow> iter_store s ip;
     (_, s) \<leftarrow> fs_call EXT2_ERROR_INVALID p (ext2_closedir it) s;
     Some (s\<lparr>iter_store := (iter_store s)(ip := None)\<rparr>)
   }"

definition VFS_ioctl :: "int \<Rightarrow> u64 \<Rightarrow> u64 \<Rightarrow> 'a vfs_sys_scheme \<Rightarrow> (int \<times> 'a vfs_sys_scheme) option" where
  "VFS_ioctl fd req arg s =
     (if bad_fd fd then None
      else (let pid = proc_get_current_pid s; f = file_at s fd in
            if \<not> vf_exists f \<or> \<not> vf_is_dev f \<or> vf_pid f \<noteq> pid then Some (vfs_err EBADF, s)
            else case vf_dev f of None \<Rightarrow> None | Some d \<Rightarrow> dev_dispatch d pid req arg s))"

definition write_file :: "VFS_File_t \<Rightarrow> u64 \<Rightarrow> cbuf \<Rightarrow> 'a vfs_sys_scheme \<Rightarrow> (sock_result \<times> 'a vfs_sys_scheme) option" where
  "write_file f count buf s =
     (if vf_file f = 0 then Some (SDone (vfs_err EBADF), s)
      else if vf_is_dev f
      then (case vf_dev f of None \<Rightarrow> None | Some d \<Rightarrow> dev_write_fn d (fetch_buf buf count s) s)
      else if null_buf buf then Some (SDone (vfs_err EIO), s)
      else do {
        bs \<leftarrow> fetch_buf buf (ucast (ucast count :: u32)) s;
        (r, s) \<leftarrow> file_call (vf_file f) (\<lambda>f. ext2_write f bs) s;
        Some (SDone (if r < 0 then vfs_err EIO else r), s)
      })"

definition VFS_Write :: "int \<Rightarrow> u64 \<Rightarrow> cbuf \<Rightarrow> bool \<Rightarrow> 'a vfs_sys_scheme \<Rightarrow> (sock_result \<times> 'a vfs_sys_scheme) option" where
  "VFS_Write fd count buf privileged s =
     (if bad_fd fd then Some (SDone (vfs_err EBADF), s)
      else (let f = file_at s fd in
            if \<not> vf_exists f then Some (SDone (vfs_err EBADF), s)
            else if vf_is_socket f
            then (if vf_pid f \<noteq> proc_get_current_pid s then Some (SDone (vfs_err EACCES), s)
                  else do { bs \<leftarrow> fetch_buf buf count s; Some (unix_sock_write (unix_sock_id f) bs s) })
            else if \<not> privileged \<and> vf_pid f \<noteq> proc_get_current_pid s \<and> \<not> vf_write_all f then Some (SDone (vfs_err EACCES), s)
            else do {
              path \<leftarrow> vf_path f;
              name \<leftarrow> path_str path s;
              let (_, rel) = resolve_fs name s;
              (ok, s) \<leftarrow> (if vf_is_dev f then Some (True, s) else vfs_access_ok (vf_fs f) rel ACCESS_WRITE privileged s);
              if \<not> ok then Some (SDone (vfs_err EACCES), s) else write_file f count buf s
            }))"

definition read_file :: "VFS_File_t \<Rightarrow> u64 \<Rightarrow> u64 \<Rightarrow> 'a vfs_sys_scheme \<Rightarrow> (sock_result \<times> u8 list \<times> 'a vfs_sys_scheme) option" where
  "read_file f count buf s =
     (if vf_file f = 0 then Some (SDone (vfs_err EBADF), [], s)
      else if vf_is_dev f
      then (case vf_dev f of None \<Rightarrow> None | Some d \<Rightarrow> do { (r, s) \<leftarrow> dev_read_fn d count buf s; Some (r, [], s) })
      else if buf = 0 then Some (SDone (vfs_err EIO), [], s)
      else do {
        ((r, bs), s) \<leftarrow> file_call (vf_file f) (\<lambda>f fs s. do { (r, bs, f, fs, s) \<leftarrow> ext2_read f (ucast count) fs s; Some ((r, bs), f, fs, s) }) s;
        Some (SDone (if r < 0 then vfs_err EIO else r), bs, s)
      })"

text \<open>The bytes are what the call stores in the buffer at \<open>buf\<close>.\<close>

definition VFS_Read :: "int \<Rightarrow> u64 \<Rightarrow> u64 \<Rightarrow> 'a vfs_sys_scheme \<Rightarrow> (sock_result \<times> u8 list \<times> 'a vfs_sys_scheme) option" where
  "VFS_Read fd count buf s =
     (if bad_fd fd then Some (SDone (vfs_err EBADF), [], s)
      else (let f = file_at s fd in
            if \<not> vf_exists f then Some (SDone (vfs_err EBADF), [], s)
            else if vf_is_socket f
            then (if vf_pid f \<noteq> proc_get_current_pid s then Some (SDone (vfs_err EACCES), [], s)
                  else Some (unix_sock_read (unix_sock_id f) (ucast count) s))
            else if vf_pid f \<noteq> -1 \<and> vf_pid f \<noteq> proc_get_current_pid s then Some (SDone (vfs_err EACCES), [], s)
            else read_file f count buf s))"

definition VFS_Close :: "int \<Rightarrow> bool \<Rightarrow> 'a vfs_sys_scheme \<Rightarrow> (int \<times> 'a vfs_sys_scheme) option" where
  "VFS_Close fd privileged s =
     (if bad_fd fd then Some (vfs_err EBADF, s)
      else (let f = file_at s fd in
            if \<not> vf_exists f then Some (vfs_err EBADF, s)
            else if vf_is_socket f
            then (if \<not> privileged \<and> vf_pid f \<noteq> proc_get_current_pid s then Some (vfs_err EACCES, s)
                  else Some (0, upd_file (nat fd) (\<lambda>f. f\<lparr>vf_exists := False, vf_is_socket := False\<rparr>) (unix_sock_destroy (unix_sock_id f) s)))
            else if \<not> privileged \<and> vf_flags f = KERNEL then Some (vfs_err EACCES, s)
            else if \<not> privileged \<and> vf_pid f \<noteq> proc_get_current_pid s then Some (vfs_err EACCES, s)
            else if vf_is_dir f \<and> vf_dir_iter f \<noteq> 0
            then do {
              s \<leftarrow> iter_close (vf_dir_iter f) s;
              Some (0, upd_file (nat fd) (\<lambda>f. f\<lparr>vf_dir_iter := 0, vf_exists := False, vf_is_dir := False\<rparr>) s)
            }
            else if vf_file f \<noteq> 0
            then do {
              s \<leftarrow> file_close (vf_file f) s;
              Some (0, upd_file (nat fd) (\<lambda>f. f\<lparr>vf_file := 0, vf_exists := False, vf_is_dir := False\<rparr>) s)
            }
            else Some (0, upd_file (nat fd) (\<lambda>f. f\<lparr>vf_exists := False, vf_is_dir := False\<rparr>) s)))"

definition VFS_Set_Pos :: "int \<Rightarrow> u32 \<Rightarrow> bool \<Rightarrow> 'a vfs_sys_scheme \<Rightarrow> (int \<times> 'a vfs_sys_scheme) option" where
  "VFS_Set_Pos fd pos privileged s =
     (if bad_fd fd then Some (vfs_err EBADF, s)
      else (let f = file_at s fd in
            if \<not> vf_exists f \<or> vf_file f = 0 then Some (vfs_err EBADF, s)
            else if \<not> privileged \<and> vf_flags f = KERNEL then Some (vfs_err EACCES, s)
            else if \<not> privileged \<and> vf_pid f \<noteq> proc_get_current_pid s then Some (vfs_err EACCES, s)
            else do {
              (p, e) \<leftarrow> file_store s (vf_file f);
              let (r, e) = ext2_seek e (ucast pos) EXT2_SEEK_SET;
              Some (if r = EXT2_SUCCESS then 0 else vfs_err ESPIPE, s\<lparr>file_store := (file_store s)(vf_file f \<mapsto> (p, e))\<rparr>)
            }))"

section \<open>Reading directories\<close>

definition dent_len :: "nat \<Rightarrow> nat" where
  "dent_len namelen = (19 + namelen + 1 + 7) div 8 * 8"

definition dent_bytes :: "u32 \<Rightarrow> u8 \<Rightarrow> nat \<Rightarrow> u8 list \<Rightarrow> u8 list" where
  "dent_bytes ino type off name =
     le_enc 8 (ucast ino :: u64) @ le_enc 8 (of_nat (off + dent_len (length name)) :: u64)
     @ le_enc 2 (of_nat (dent_len (length name)) :: u16) @ [type] @ name @ [0]"

text \<open>The entries with their offsets in the buffer, and the number of bytes used.\<close>

function dents_loop ::
    "u64 \<Rightarrow> nat \<Rightarrow> nat \<Rightarrow> (nat \<times> u8 list) list \<Rightarrow> 'a vfs_sys_scheme \<Rightarrow> (nat \<times> (nat \<times> u8 list) list \<times> 'a vfs_sys_scheme) option" where
  "dents_loop ip written count out s =
     (if written < count
      then do {
        (p, it) \<leftarrow> iter_store s ip;
        fs \<leftarrow> load_fs p s;
        (r, it, fs, s) \<leftarrow> ext2_readdir it fs s;
        let s = (save_fs p fs s)\<lparr>iter_store := (iter_store s)(ip \<mapsto> (p, it))\<rparr>;
        (case r of
           Inl _ \<Rightarrow> Some (written, out, s)
         | Inr (name, ino, type) \<Rightarrow>
             (let name = upto_nul name; reclen = dent_len (length name) in
              if written + reclen > count then Some (written, out, s)
              else dents_loop ip (written + reclen) count (out @ [(written, dent_bytes ino type written name)]) s))
      }
      else Some (written, out, s))"
  by pat_completeness auto
termination
  by (relation "measure (\<lambda>(ip, written, count, out, s). count - written)") (auto simp: dent_len_def)

declare dents_loop.simps [simp del]

definition VFS_GetDents64 :: "int \<Rightarrow> nat \<Rightarrow> 'a vfs_sys_scheme \<Rightarrow> (int \<times> (nat \<times> u8 list) list \<times> 'a vfs_sys_scheme) option" where
  "VFS_GetDents64 fd count s =
     (if bad_fd fd then Some (vfs_err EBADF, [], s)
      else (let f = file_at s fd in
            if \<not> vf_exists f \<or> \<not> vf_is_dir f \<or> vf_dir_iter f = 0 then Some (vfs_err ENOTDIR, [], s)
            else if vf_pid f \<noteq> proc_get_current_pid s then Some (vfs_err EACCES, [], s)
            else do {
              (written, out, s) \<leftarrow> dents_loop (vf_dir_iter f) 0 count [] s;
              Some (sint (of_nat written :: u32), out, s)
            }))"

text \<open>Output that does not go through the descriptors; the debug port is left out.\<close>

definition VFS_Write_old :: "int \<Rightarrow> u8 list \<Rightarrow> 'a con_sys_scheme \<Rightarrow> int \<times> 'a con_sys_scheme" where
  "VFS_Write_old fd bs s =
     (if fd = 0 then (0, s)
      else if fd = 1 \<or> fd = 2 then (sint (of_nat (length bs) :: u32), fold console_putc bs s)
      else if fd = 3 then (sint (of_nat (length bs) :: u32), s)
      else (vfs_err EBADF, s))"

end
