(* ===== verification/VfsSock.thy ===== *)
theory VfsSock
  imports Vfs
begin

text \<open>
  Socket descriptors (\<^verbatim>\<open>src/kernel/hal/vfs.c\<close>). An address is a pointer of the running process to a family
  and a path. The suffix \<open>_resume\<close> marks what happens when a process that gave up the
  processor in the call runs again.
\<close>

abbreviation (input) AF_UNIX :: int where "AF_UNIX \<equiv> 1"

definition zero_file :: VFS_File_t where
  "zero_file = \<lparr>vf_path = None, vf_file = 0, vf_dir_iter = 0, vf_fs = 0, vf_flags = USER_WRITE, vf_pid = 0, vf_owner = 0,
     vf_exists = False, vf_is_dir = False, vf_dev = None, vf_is_dev = False, vf_write_all = False, vf_is_socket = False, unix_sock_id = 0\<rparr>"

definition vfs_alloc_socket_fd :: "int \<Rightarrow> 'a vfs_sys_scheme \<Rightarrow> int \<times> 'a vfs_sys_scheme" where
  "vfs_alloc_socket_fd sock_id s =
     (case free_fd 4 s of
        None \<Rightarrow> (-1, s)
      | Some i \<Rightarrow> (int i, upd_file i (\<lambda>_. zero_file\<lparr>vf_exists := True, vf_is_socket := True, unix_sock_id := sock_id,
                                          vf_pid := proc_get_current_pid s\<rparr>) s))"

definition VFS_Socket :: "int \<Rightarrow> int \<Rightarrow> 'a vfs_sys_scheme \<Rightarrow> int \<times> 'a vfs_sys_scheme" where
  "VFS_Socket domain type s =
     (if domain \<noteq> AF_UNIX then (vfs_err EAFNOSUPPORT, s)
      else if type \<noteq> SOCK_STREAM \<and> type \<noteq> SOCK_DGRAM then (vfs_err ESOCKTNOSUPPORT, s)
      else (let (sock_id, s) = unix_sock_create type s in
            if sock_id < 0 then (vfs_err ENFILE, s)
            else (let (fd, s) = vfs_alloc_socket_fd sock_id s in
                  if fd < 0 then (vfs_err EMFILE, unix_sock_destroy sock_id s) else (fd, s))))"

text \<open>The tests that the calls on a socket descriptor start with.\<close>

definition sock_fd_error :: "int \<Rightarrow> 'a vfs_sys_scheme \<Rightarrow> int option" where
  "sock_fd_error fd s =
     (if bad_fd fd then Some (vfs_err EBADF)
      else if \<not> vf_exists (file_at s fd) \<or> \<not> vf_is_socket (file_at s fd) then Some (vfs_err ENOTSOCK)
      else if vf_pid (file_at s fd) \<noteq> proc_get_current_pid s then Some (vfs_err EACCES)
      else None)"

definition sun_family :: "u64 \<Rightarrow> 'a proc_sys_scheme \<Rightarrow> int option" where
  "sun_family addr s = map_option (\<lambda>bs. uint (dec16 bs 0)) (load_user addr 2 s)"

definition sun_path :: "u64 \<Rightarrow> 'a proc_sys_scheme \<Rightarrow> string option" where
  "sun_path addr s = user_str (addr + 2) s"

definition VFS_Bind :: "int \<Rightarrow> u64 \<Rightarrow> u32 \<Rightarrow> 'a vfs_sys_scheme \<Rightarrow> (int \<times> 'a vfs_sys_scheme) option" where
  "VFS_Bind fd addr addrlen s =
     (case sock_fd_error fd s of
        Some e \<Rightarrow> Some (e, s)
      | None \<Rightarrow>
          if addr = 0 \<or> addrlen < 2 then Some (vfs_err EINVAL, s)
          else do {
            family \<leftarrow> sun_family addr s;
            if family \<noteq> AF_UNIX then Some (vfs_err EAFNOSUPPORT, s)
            else do {
              path \<leftarrow> sun_path addr s;
              (_, s) \<leftarrow> VFS_Create path False s;
              let (rc, s) = unix_sock_bind (unix_sock_id (file_at s fd)) (Some path) s;
              if rc < 0 then Some (vfs_err EADDRINUSE, s)
              else Some (0, upd_file (nat fd) (\<lambda>f. f\<lparr>vf_path := Some (UPtr (addr + 2))\<rparr>) s)
            }
          })"

definition VFS_Listen :: "int \<Rightarrow> 'a vfs_sys_scheme \<Rightarrow> int \<times> 'a vfs_sys_scheme" where
  "VFS_Listen fd s =
     (case sock_fd_error fd s of
        Some e \<Rightarrow> (e, s)
      | None \<Rightarrow> (let (rc, s) = unix_sock_listen (unix_sock_id (file_at s fd)) s in (if rc < 0 then vfs_err EOPNOTSUPP else 0, s)))"

text \<open>The address of the client is stored when the caller gives room for it.\<close>

definition give_peer :: "int \<Rightarrow> u64 \<Rightarrow> u64 \<Rightarrow> 'a vfs_sys_scheme \<Rightarrow> 'a vfs_sys_scheme option" where
  "give_peer new_id peer_addr addrlen s =
     (if peer_addr = 0 \<or> addrlen = 0 then Some s
      else do {
        bs \<leftarrow> load_user addrlen 4 s;
        if dec32 bs 0 < 110 then Some s
        else do {
          s \<leftarrow> (case unix_sock_get new_id s of
                  None \<Rightarrow> Some s
                | Some n \<Rightarrow>
                    (case (if peer_id (sock_table s n) \<ge> 0 then unix_sock_get (peer_id (sock_table s n)) s else None) of
                       None \<Rightarrow> Some s
                     | Some c \<Rightarrow> do {
                         s \<leftarrow> store_user peer_addr (le_enc 2 (1 :: u16)) s;
                         store_user (peer_addr + 2) (bytes (strncpy_buf 107 (cval (us_path (sock_table s c))) (replicate 108 NUL))) s
                       }));
          store_user addrlen (le_enc 4 (110 :: u32)) s
        }
      })"

definition accept_result :: "int \<Rightarrow> u64 \<Rightarrow> u64 \<Rightarrow> 'a vfs_sys_scheme \<Rightarrow> (int \<times> 'a vfs_sys_scheme) option" where
  "accept_result new_id peer_addr addrlen s =
     (if new_id < 0 then Some (vfs_err EINVAL, s)
      else do {
        s \<leftarrow> give_peer new_id peer_addr addrlen s;
        let (new_fd, s) = vfs_alloc_socket_fd new_id s;
        if new_fd < 0 then Some (vfs_err EMFILE, unix_sock_destroy new_id s) else Some (new_fd, s)
      })"

definition VFS_Accept_resume :: "int \<Rightarrow> u64 \<Rightarrow> u64 \<Rightarrow> 'a vfs_sys_scheme \<Rightarrow> (sock_result \<times> 'a vfs_sys_scheme) option" where
  "VFS_Accept_resume sock_id peer_addr addrlen s =
     (case unix_sock_accept sock_id s of
        (SDone new_id, s) \<Rightarrow> do { (r, s) \<leftarrow> accept_result new_id peer_addr addrlen s; Some (SDone r, s) }
      | (r, s) \<Rightarrow> Some (r, s))"

definition VFS_Accept :: "int \<Rightarrow> u64 \<Rightarrow> u64 \<Rightarrow> 'a vfs_sys_scheme \<Rightarrow> (sock_result \<times> 'a vfs_sys_scheme) option" where
  "VFS_Accept fd peer_addr addrlen s =
     (case sock_fd_error fd s of
        Some e \<Rightarrow> Some (SDone e, s)
      | None \<Rightarrow> VFS_Accept_resume (unix_sock_id (file_at s fd)) peer_addr addrlen s)"

definition connect_result :: "int \<Rightarrow> int" where
  "connect_result rc = (if rc < 0 then vfs_err ECONNREFUSED else 0)"

definition VFS_Connect :: "int \<Rightarrow> u64 \<Rightarrow> u32 \<Rightarrow> 'a vfs_sys_scheme \<Rightarrow> (sock_result \<times> 'a vfs_sys_scheme) option" where
  "VFS_Connect fd addr addrlen s =
     (case sock_fd_error fd s of
        Some e \<Rightarrow> Some (SDone e, s)
      | None \<Rightarrow>
          if addr = 0 \<or> addrlen < 2 then Some (SDone (vfs_err EINVAL), s)
          else do {
            family \<leftarrow> sun_family addr s;
            if family \<noteq> AF_UNIX then Some (SDone (vfs_err EAFNOSUPPORT), s)
            else do {
              path \<leftarrow> sun_path addr s;
              (case unix_sock_connect (unix_sock_id (file_at s fd)) path s of
                 (SDone rc, s) \<Rightarrow> Some (SDone (connect_result rc), s)
               | (r, s) \<Rightarrow> Some (r, s))
            }
          })"

definition VFS_Connect_resume :: "int \<Rightarrow> 'a vfs_sys_scheme \<Rightarrow> int" where
  "VFS_Connect_resume sock_id s = connect_result (unix_sock_connect_resume sock_id s)"

definition VFS_SendTo :: "int \<Rightarrow> u64 \<Rightarrow> u64 \<Rightarrow> u64 \<Rightarrow> 'a vfs_sys_scheme \<Rightarrow> (sock_result \<times> 'a vfs_sys_scheme) option" where
  "VFS_SendTo fd buf count dest s =
     (case sock_fd_error fd s of
        Some e \<Rightarrow> Some (SDone e, s)
      | None \<Rightarrow>
          (case unix_sock_get (unix_sock_id (file_at s fd)) s of
             None \<Rightarrow> Some (SDone (vfs_err EBADF), s)
           | Some i \<Rightarrow>
               if us_type (sock_table s i) = SOCK_STREAM
               then do { bs \<leftarrow> load_user buf (unat count) s; Some (unix_sock_write (unix_sock_id (file_at s fd)) bs s) }
               else if dest = 0 then Some (SDone (vfs_err EDESTADDRREQ), s)
               else do {
                 family \<leftarrow> sun_family dest s;
                 if family \<noteq> AF_UNIX then Some (SDone (vfs_err EAFNOSUPPORT), s)
                 else do {
                   bs \<leftarrow> load_user buf (unat count) s;
                   path \<leftarrow> sun_path dest s;
                   let (rc, s) = unix_sock_sendto (unix_sock_id (file_at s fd)) bs path s;
                   Some (SDone (if rc < 0 then vfs_err ENOENT else rc), s)
                 }
               }))"

text \<open>
  Receiving into the buffer at \<open>buf\<close>. For datagrams the path of the sender is left empty by
  \<open>unix_sock_recvfrom\<close>, and the caller gets that when it asks for the source.
\<close>

definition recv_result :: "int \<Rightarrow> u64 \<Rightarrow> 'a vfs_sys_scheme \<Rightarrow> (int \<times> 'a vfs_sys_scheme) option" where
  "recv_result rc src_out s =
     (if rc < 0 then Some (vfs_err EIO, s)
      else do {
        s \<leftarrow> (if src_out \<noteq> 0 then store_user src_out (le_enc 2 (1 :: u16) @ replicate 108 0) s else Some s);
        Some (rc, s)
      })"

definition VFS_RecvFrom :: "int \<Rightarrow> u64 \<Rightarrow> u64 \<Rightarrow> u64 \<Rightarrow> 'a vfs_sys_scheme \<Rightarrow> (sock_result \<times> 'a vfs_sys_scheme) option" where
  "VFS_RecvFrom fd buf count src_out s =
     (case sock_fd_error fd s of
        Some e \<Rightarrow> Some (SDone e, s)
      | None \<Rightarrow>
          (case unix_sock_get (unix_sock_id (file_at s fd)) s of
             None \<Rightarrow> Some (SDone (vfs_err EBADF), s)
           | Some i \<Rightarrow>
               if us_type (sock_table s i) = SOCK_STREAM
               then (let (r, bs, s) = unix_sock_read (unix_sock_id (file_at s fd)) (ucast count) s
                     in do { s \<leftarrow> store_user buf bs s; Some (r, s) })
               else (case unix_sock_recvfrom (unix_sock_id (file_at s fd)) (ucast count) s of
                       (SDone rc, bs, s) \<Rightarrow> do {
                         s \<leftarrow> store_user buf bs s;
                         (r, s) \<leftarrow> recv_result rc src_out s;
                         Some (SDone r, s)
                       }
                     | (r, bs, s) \<Rightarrow> Some (r, s))))"

end
