(* ===== verification/Loader.thy ===== *)
theory Loader
  imports VfsSock Cred
begin

text \<open>
  The ELF loader, \<^verbatim>\<open>src/kernel/loaders/bin_loader.c\<close>, and \<^verbatim>\<open>sys_execve\<close> of \<^verbatim>\<open>vfs.c\<close>. The segments of an executable are
  copied into one flat image, from which a process is created. The bounds of a segment are
  computed with the wrap-around of the code; a copy that leaves the image is \<open>None\<close>. Loading a
  program from a device that makes the caller wait is left out (\<open>None\<close>).
\<close>

section \<open>Headers\<close>

record Elf64_Ehdr =
  e_ident :: "u8 list"
  e_type :: u16
  e_machine :: u16
  e_entry :: u64
  e_phoff :: u64
  e_phentsize :: u16
  e_phnum :: u16

record Elf64_Phdr =
  p_type :: u32
  p_offset :: u64
  p_vaddr :: u64
  p_filesz :: u64
  p_memsz :: u64

definition dec64 :: "u8 list \<Rightarrow> nat \<Rightarrow> u64" where
  "dec64 xs off = le_val (take 8 (drop off xs))"

definition ehdr_of :: "u8 list \<Rightarrow> Elf64_Ehdr" where
  "ehdr_of xs = \<lparr>e_ident = take 16 xs, e_type = dec16 xs 16, e_machine = dec16 xs 18, e_entry = dec64 xs 24, e_phoff = dec64 xs 32,
     e_phentsize = dec16 xs 54, e_phnum = dec16 xs 56\<rparr>"

definition phdr_of :: "u8 list \<Rightarrow> Elf64_Phdr" where
  "phdr_of xs = \<lparr>p_type = dec32 xs 0, p_offset = dec64 xs 8, p_vaddr = dec64 xs 16, p_filesz = dec64 xs 32, p_memsz = dec64 xs 40\<rparr>"

definition elf_validate :: "Elf64_Ehdr \<Rightarrow> int" where
  "elf_validate h =
     (if take 4 (e_ident h) \<noteq> [0x7F, 0x45, 0x4C, 0x46] then -1
      else if e_ident h ! 4 \<noteq> 2 then -1
      else if e_ident h ! 5 \<noteq> 1 then -1
      else if e_type h \<noteq> 2 then -1
      else if e_machine h \<noteq> 62 then -1
      else if e_phnum h = 0 then -1
      else if e_phentsize h < 56 then -1
      else if e_phnum h > 64 then -1
      else 0)"

text \<open>The program headers in the buffer that was read.\<close>

definition phdrs_of :: "Elf64_Ehdr \<Rightarrow> u8 list \<Rightarrow> Elf64_Phdr list" where
  "phdrs_of h xs = map (\<lambda>i. phdr_of (take 56 (drop (i * unat (e_phentsize h)) xs))) [0..<unat (e_phnum h)]"

definition loadable :: "Elf64_Phdr \<Rightarrow> bool" where
  "loadable ph \<longleftrightarrow> p_type ph = 1 \<and> p_memsz ph \<noteq> 0"

section \<open>Reading the file\<close>

text \<open>\<open>None\<close> in the first component is the result \<open>-1\<close>.\<close>

definition elf_read_at :: "int \<Rightarrow> u32 \<Rightarrow> u64 \<Rightarrow> 'a vfs_sys_scheme \<Rightarrow> (u8 list option \<times> 'a vfs_sys_scheme) option" where
  "elf_read_at fd off n s = do {
     (r, s) \<leftarrow> VFS_Set_Pos fd off True s;
     if r < 0 then Some (None, s)
     else do {
       (r, bs, s) \<leftarrow> VFS_Read fd n 1 s;
       (case r of
          SDone got \<Rightarrow> Some (if got < 0 \<or> got < uint n then None else Some bs, s)
        | _ \<Rightarrow> None)
     }
   }"

fun load_range :: "Elf64_Phdr list \<Rightarrow> u64 \<Rightarrow> u64 \<Rightarrow> nat \<Rightarrow> (u64 \<times> u64 \<times> nat) option" where
  "load_range [] base hi n = Some (base, hi, n)"
| "load_range (ph # phs) base hi n =
     (if \<not> loadable ph then load_range phs base hi n
      else if p_filesz ph > p_memsz ph then None
      else load_range phs (min base (p_vaddr ph)) (max hi (p_vaddr ph + p_memsz ph)) (n + 1))"

definition elf_parse_load_range :: "Elf64_Phdr list \<Rightarrow> (u64 \<times> u64) option" where
  "elf_parse_load_range phs =
     (case load_range phs (-1) 0 0 of
        None \<Rightarrow> None
      | Some (base, hi, n) \<Rightarrow> if n = 0 then None else Some (base, hi))"

fun elf_read_segments ::
    "int \<Rightarrow> Elf64_Phdr list \<Rightarrow> u64 \<Rightarrow> u64 \<Rightarrow> u8 list \<Rightarrow> 'a vfs_sys_scheme \<Rightarrow> (u8 list option \<times> 'a vfs_sys_scheme) option" where
  "elf_read_segments fd [] flat_size base img s = Some (Some img, s)"
| "elf_read_segments fd (ph # phs) flat_size base img s =
     (if \<not> loadable ph then elf_read_segments fd phs flat_size base img s
      else (let buf_off = p_vaddr ph - base in
            if buf_off + p_memsz ph > flat_size then Some (None, s)
            else if p_filesz ph > 0
            then (if p_offset ph > 0xFFFFFFFF then Some (None, s)
                  else do {
                    (r, s) \<leftarrow> elf_read_at fd (ucast (p_offset ph)) (p_filesz ph) s;
                    (case r of
                       None \<Rightarrow> Some (None, s)
                     | Some bs \<Rightarrow> do {
                         img \<leftarrow> disk_put (unat buf_off) bs img;
                         elf_read_segments fd phs flat_size base img s
                       })
                  })
            else elf_read_segments fd phs flat_size base img s))"

abbreviation (input) BIN_MAX_IMAGE_SIZE :: u64 where "BIN_MAX_IMAGE_SIZE \<equiv> 0x20000000"

text \<open>The result of a successful load: the address and the bytes of the image, where it is loaded, and the entry point.\<close>

type_synonym elf_image = "u64 \<times> u8 list \<times> u64 \<times> u64"

definition elf_load_image :: "int \<Rightarrow> Elf64_Ehdr \<Rightarrow> Elf64_Phdr list \<Rightarrow> 'a vfs_sys_scheme \<Rightarrow> (elf_image option \<times> 'a vfs_sys_scheme) option" where
  "elf_load_image fd h phs s =
     (case elf_parse_load_range phs of
        None \<Rightarrow> Some (None, s)
      | Some (base, hi) \<Rightarrow>
          (let flat_size = hi - base in
           if flat_size = 0 then Some (None, s)
           else if flat_size > BIN_MAX_IMAGE_SIZE then Some (None, s)
           else if e_entry h < base \<or> e_entry h \<ge> hi then Some (None, s)
           else do {
             (p, s) \<leftarrow> kmalloc flat_size s;
             if p = 0 then Some (None, s)
             else do {
               (img, s) \<leftarrow> elf_read_segments fd phs flat_size base (replicate (unat flat_size) 0) s;
               (case img of
                  None \<Rightarrow> do { s \<leftarrow> kfree p s; Some (None, s) }
                | Some img \<Rightarrow> Some (Some (p, img, base, e_entry h), s))
             }
           }))"

definition elf_load_headers :: "int \<Rightarrow> Elf64_Ehdr \<Rightarrow> 'a vfs_sys_scheme \<Rightarrow> (elf_image option \<times> 'a vfs_sys_scheme) option" where
  "elf_load_headers fd h s = do {
     let n = ucast (e_phnum h) * ucast (e_phentsize h);
     (p, s) \<leftarrow> kmalloc n s;
     if p = 0 then Some (None, s)
     else do {
       (r, s) \<leftarrow> (if e_phoff h > 0xFFFFFFFF then Some (None, s)
                 else do {
                   (r, s) \<leftarrow> elf_read_at fd (ucast (e_phoff h)) n s;
                   (case r of None \<Rightarrow> Some (None, s) | Some bs \<Rightarrow> elf_load_image fd h (phdrs_of h bs) s)
                 });
       s \<leftarrow> kfree p s;
       Some (r, s)
     }
   }"

definition elf_open_and_load :: "cpath \<Rightarrow> 'a vfs_sys_scheme \<Rightarrow> (elf_image option \<times> 'a vfs_sys_scheme) option" where
  "elf_open_and_load path s = do {
     (fd, s) \<leftarrow> VFS_Open path True s;
     if fd < 0 then Some (None, s)
     else do {
       (r, s) \<leftarrow> do {
         (r, s) \<leftarrow> elf_read_at fd 0 64 s;
         (case r of
            None \<Rightarrow> Some (None, s)
          | Some bs \<Rightarrow> if elf_validate (ehdr_of bs) < 0 then Some (None, s) else elf_load_headers fd (ehdr_of bs) s)
       };
       (_, s) \<leftarrow> VFS_Close fd True s;
       Some (r, s)
     }
   }"

section \<open>Starting programs\<close>

definition bin_load_elf :: "cpath \<Rightarrow> u32 \<Rightarrow> u32 \<Rightarrow> 'a vfs_sys_scheme \<Rightarrow> (int \<times> 'a vfs_sys_scheme) option" where
  "bin_load_elf path priority parent s = do {
     (r, s) \<leftarrow> elf_open_and_load path s;
     (case r of
        None \<Rightarrow> Some (-1, s)
      | Some (p, img, base, entry) \<Rightarrow> do {
          (ret, s) \<leftarrow> proc_create_user_image (Some img) base entry priority parent s;
          s \<leftarrow> kfree p s;
          Some (ret, s)
        })
   }"

definition bin_load_elf_argv ::
    "cpath \<Rightarrow> u32 \<Rightarrow> u32 \<Rightarrow> string list \<Rightarrow> string list \<Rightarrow> 'a vfs_sys_scheme \<Rightarrow> (int \<times> 'a vfs_sys_scheme) option" where
  "bin_load_elf_argv path priority parent argv envp s = do {
     (r, s) \<leftarrow> elf_open_and_load path s;
     (case r of
        None \<Rightarrow> Some (-1, s)
      | Some (p, img, base, entry) \<Rightarrow> do {
          (ret, s) \<leftarrow> proc_create_user_image_argv (Some img) base entry priority parent argv envp s;
          s \<leftarrow> kfree p s;
          Some (ret, s)
        })
   }"

text \<open>The strings of an array of pointers that ends with a null pointer.\<close>

partial_function (option) user_strs :: "u64 \<Rightarrow> 'a proc_sys_scheme \<Rightarrow> string list option" where
  "user_strs p s = do {
     bs \<leftarrow> load_user p 8 s;
     if dec64 bs 0 = 0 then Some []
     else do { x \<leftarrow> user_str (dec64 bs 0) s; xs \<leftarrow> user_strs (p + 8) s; Some (x # xs) }
   }"

definition strs_at :: "u64 \<Rightarrow> 'a proc_sys_scheme \<Rightarrow> string list option" where
  "strs_at p s = (if p = 0 then Some [] else user_strs p s)"

definition exec_allowed :: "u64 \<Rightarrow> int \<Rightarrow> 'a vfs_sys_scheme \<Rightarrow> (bool \<times> 'a vfs_sys_scheme) option" where
  "exec_allowed path u s =
     (if user_is_root s u then Some (True, s)
      else do {
        name \<leftarrow> user_str path s;
        let (fs, rel) = resolve_fs name s;
        (r, s) \<leftarrow> fs_call EXT2_ERROR_INVALID fs (ext2_access rel u ACCESS_EXEC) s;
        Some (r = EXT2_SUCCESS, s)
      })"

definition sys_execve :: "u64 \<Rightarrow> u64 \<Rightarrow> u64 \<Rightarrow> 'a vfs_sys_scheme \<Rightarrow> (u64 \<times> 'a vfs_sys_scheme) option" where
  "sys_execve path argv envp s =
     (let caller = proc_get_owner (proc_get_current_pid s) s in
      if \<not> user_exists s caller then Some (serror EPERM, s)
      else do {
        (ok, s) \<leftarrow> exec_allowed path caller s;
        if \<not> ok then Some (serror EACCES, s)
        else do {
          av \<leftarrow> strs_at argv s;
          ev \<leftarrow> strs_at envp s;
          (pid, s) \<leftarrow> bin_load_elf_argv (UPtr path) 1 (word_of_int (proc_get_current_pid s)) av ev s;
          let s = (if pid > 0 then snd (proc_set_owner pid caller s) else s);
          Some (word_of_int pid, s)
        }
      })"

definition load_bin :: "u64 \<Rightarrow> u64 \<Rightarrow> 'a vfs_sys_scheme \<Rightarrow> (u64 \<times> 'a vfs_sys_scheme) option" where
  "load_bin path priority s = do {
     (pid, s) \<leftarrow> (if path = 0 then Some (-1, s)
                 else bin_load_elf (UPtr path) (ucast priority) (word_of_int (proc_get_current_pid s)) s);
     Some (word_of_int pid, s)
   }"

end
