(* ===== verification/Syscalls.thy ===== *)
theory Syscalls
  imports Loader
begin

text \<open>
  The system calls, \<^verbatim>\<open>src/kernel/syscalls/sys.c\<close>: conversion of the arguments, user memory, and the mapping of
  results to error numbers. Pointers are addresses in the space of the running process; the
  code uses them without a check, so that an access to an unmapped page has no result (\<open>None\<close>).
  A call that gives up the processor ends in \<open>Wait\<close> or \<open>More n\<close>, and \<open>Exited\<close> stands for
  a process that has ended, with the registers of the next one.
\<close>

datatype sysret = Ret u64 | Wait | More nat | Exited "Registers option"

fun sysret_of :: "sock_result \<Rightarrow> sysret" where
  "sysret_of (SDone r) = Ret (word_of_int r)"
| "sysret_of SBlock = Wait"
| "sysret_of (SMore n) = More n"

text \<open>Conversion of an argument to \<^verbatim>\<open>int\<close>.\<close>

definition as_int :: "u64 \<Rightarrow> int" where
  "as_int x = sint (ucast x :: u32)"

definition ret_or :: "int \<Rightarrow> int \<Rightarrow> u64" where
  "ret_or e r = (if r = 0 then 0 else serror e)"

section \<open>Identities\<close>

definition sys_getpid :: "'a vfs_sys_scheme \<Rightarrow> u64" where
  "sys_getpid s = (let pid = proc_get_current_pid s in if pid < 0 then serror ESRCH else word_of_int pid)"

definition sys_getppid :: "'a vfs_sys_scheme \<Rightarrow> u64" where
  "sys_getppid s = (let pid = proc_getppid s in if pid < 0 then serror ESRCH else word_of_int pid)"

definition sys_getuid :: "'a vfs_sys_scheme \<Rightarrow> u64" where
  "sys_getuid s = word_of_int (proc_getuid s)"

definition sys_geteuid :: "'a vfs_sys_scheme \<Rightarrow> u64" where
  "sys_geteuid s = word_of_int (proc_geteuid s)"

definition sys_getgid :: "'a vfs_sys_scheme \<Rightarrow> u64" where
  "sys_getgid s = word_of_int (proc_getgid s)"

definition sys_getegid :: "'a vfs_sys_scheme \<Rightarrow> u64" where
  "sys_getegid s = word_of_int (proc_getegid s)"

definition sys_setuid :: "u64 \<Rightarrow> 'a vfs_sys_scheme \<Rightarrow> u64 \<times> 'a vfs_sys_scheme" where
  "sys_setuid u s = (let (r, s) = proc_setuid (as_int u) s in (ret_or EPERM r, s))"

definition sys_seteuid :: "u64 \<Rightarrow> 'a vfs_sys_scheme \<Rightarrow> u64 \<times> 'a vfs_sys_scheme" where
  "sys_seteuid u s = (let (r, s) = proc_seteuid (as_int u) s in (ret_or EPERM r, s))"

definition sys_setgid :: "u64 \<Rightarrow> 'a vfs_sys_scheme \<Rightarrow> u64 \<times> 'a vfs_sys_scheme" where
  "sys_setgid g s = (let (r, s) = proc_setgid (as_int g) s in (ret_or EPERM r, s))"

definition sys_setreuid :: "u64 \<Rightarrow> u64 \<Rightarrow> 'a vfs_sys_scheme \<Rightarrow> u64 \<times> 'a vfs_sys_scheme" where
  "sys_setreuid ruid euid s = (let (r, s) = proc_setreuid (as_int ruid) (as_int euid) s in (ret_or EPERM r, s))"

definition sys_setregid :: "u64 \<Rightarrow> u64 \<Rightarrow> 'a vfs_sys_scheme \<Rightarrow> u64 \<times> 'a vfs_sys_scheme" where
  "sys_setregid rgid egid s = (let (r, s) = proc_setregid (as_int rgid) (as_int egid) s in (ret_or EPERM r, s))"

definition sys_setresuid :: "u64 \<Rightarrow> u64 \<Rightarrow> u64 \<Rightarrow> 'a vfs_sys_scheme \<Rightarrow> u64 \<times> 'a vfs_sys_scheme" where
  "sys_setresuid ruid euid suid s =
     (if proc_get_current_pid s < 0 then (serror ESRCH, s)
      else if \<not> user_is_root s (proc_geteuid s)
      then (let (r, s) = proc_setreuid (as_int ruid) (as_int euid) s in (if r < 0 then serror EPERM else 0, s))
      else (let (_, s) = proc_setreuid (as_int ruid) (as_int euid) s
            in (0, if suid \<noteq> -1 then snd (proc_seteuid (as_int suid) s) else s)))"

text \<open>An integer is stored through a pointer that is not null.\<close>

definition put_id :: "u64 \<Rightarrow> int \<Rightarrow> 'a vfs_sys_scheme \<Rightarrow> 'a vfs_sys_scheme option" where
  "put_id p i s = (if p \<noteq> 0 then store_user p (int_bytes i) s else Some s)"

definition sys_getresuid :: "u64 \<Rightarrow> u64 \<Rightarrow> u64 \<Rightarrow> 'a vfs_sys_scheme \<Rightarrow> (u64 \<times> 'a vfs_sys_scheme) option" where
  "sys_getresuid ruid_ptr euid_ptr suid_ptr s = do {
     let r = proc_getuid s;
     let e = proc_geteuid s;
     s \<leftarrow> put_id ruid_ptr r s;
     s \<leftarrow> put_id euid_ptr e s;
     s \<leftarrow> put_id suid_ptr e s;
     Some (0, s)
   }"

definition sys_setresgid :: "u64 \<Rightarrow> u64 \<Rightarrow> u64 \<Rightarrow> 'a vfs_sys_scheme \<Rightarrow> u64 \<times> 'a vfs_sys_scheme" where
  "sys_setresgid rgid egid sgid s =
     (let (r, s) = proc_setresgid (as_int rgid) (as_int egid) (as_int sgid) s in (ret_or EPERM r, s))"

definition sys_getresgid :: "u64 \<Rightarrow> u64 \<Rightarrow> u64 \<Rightarrow> 'a vfs_sys_scheme \<Rightarrow> (u64 \<times> 'a vfs_sys_scheme) option" where
  "sys_getresgid rgid_ptr egid_ptr sgid_ptr s =
     (case proc_getresgid s of
        None \<Rightarrow> Some (serror ESRCH, s)
      | Some (r, e, g) \<Rightarrow> do {
          s \<leftarrow> put_id rgid_ptr r s;
          s \<leftarrow> put_id egid_ptr e s;
          s \<leftarrow> put_id sgid_ptr g s;
          Some (0, s)
        })"

section \<open>Processes\<close>

definition child_ret :: "int \<Rightarrow> u64" where
  "child_ret child = (if child < 0 then serror ENOMEM else word_of_int child)"

definition sys_fork :: "'a vfs_sys_scheme \<Rightarrow> (u64 \<times> 'a vfs_sys_scheme) option" where
  "sys_fork s =
     (case proc_get_syscall_frame s of
        None \<Rightarrow> Some (serror EINVAL, s)
      | Some frame \<Rightarrow> do { (child, s) \<leftarrow> proc_fork frame s; Some (child_ret child, s) })"

definition sys_vfork :: "'a vfs_sys_scheme \<Rightarrow> u64 \<times> 'a vfs_sys_scheme" where
  "sys_vfork s =
     (case proc_get_syscall_frame s of
        None \<Rightarrow> (serror EINVAL, s)
      | Some frame \<Rightarrow> (let (child, s) = proc_vfork frame s in (child_ret child, s)))"

definition sys_clone :: "u64 \<Rightarrow> u64 \<Rightarrow> 'a vfs_sys_scheme \<Rightarrow> (u64 \<times> 'a vfs_sys_scheme) option" where
  "sys_clone flags child_stack s =
     (case proc_get_syscall_frame s of
        None \<Rightarrow> Some (serror EINVAL, s)
      | Some frame \<Rightarrow> do { (child, s) \<leftarrow> proc_clone frame flags child_stack s; Some (child_ret child, s) })"

text \<open>What \<open>sys_wait4\<close> does with the exit code, also when it waited.\<close>

definition wait4_result :: "u64 \<Rightarrow> u64 \<Rightarrow> u64 \<Rightarrow> 'a vfs_sys_scheme \<Rightarrow> (u64 \<times> 'a vfs_sys_scheme) option" where
  "wait4_result pid wstatus_ptr exit_code s =
     (if exit_code = -1 then Some (serror ESRCH, s)
      else do {
        s \<leftarrow> (if wstatus_ptr \<noteq> 0 then store_user wstatus_ptr (le_enc 4 (ucast (push_bit 8 (exit_code AND 0xFF)) :: u32)) s else Some s);
        Some (pid, s)
      })"

definition sys_wait4 :: "u64 \<Rightarrow> u64 \<Rightarrow> 'a vfs_sys_scheme \<Rightarrow> (sysret \<times> 'a vfs_sys_scheme) option" where
  "sys_wait4 pid wstatus_ptr s =
     (case proc_wait_pid_as (proc_getuid s) pid s of
        (WYield, s) \<Rightarrow> Some (Wait, s)
      | (WDone code, s) \<Rightarrow> do { (r, s) \<leftarrow> wait4_result pid wstatus_ptr code s; Some (Ret r, s) })"

definition sys_wait4_resume :: "u64 \<Rightarrow> u64 \<Rightarrow> 'a vfs_sys_scheme \<Rightarrow> (u64 \<times> 'a vfs_sys_scheme) option" where
  "sys_wait4_resume pid wstatus_ptr s =
     (let (code, s) = proc_wait_pid_resume pid s in wait4_result pid wstatus_ptr code s)"

definition sys_kill :: "u64 \<Rightarrow> u64 \<Rightarrow> 'a vfs_sys_scheme \<Rightarrow> (u64 \<times> 'a vfs_sys_scheme) option" where
  "sys_kill pid sig s =
     (if sig = 9 \<or> sig = 15 \<or> sig = 0
      then do { (r, s) \<leftarrow> proc_kill_as (proc_getuid s) (as_int pid) s; Some (ret_or EPERM r, s) }
      else Some (0, s))"

definition sys_tgkill :: "u64 \<Rightarrow> u64 \<Rightarrow> u64 \<Rightarrow> 'a vfs_sys_scheme \<Rightarrow> (u64 \<times> 'a vfs_sys_scheme) option" where
  "sys_tgkill tgid tid sig s = sys_kill tid sig s"

definition sys_exit_group :: "u64 \<Rightarrow> 'a vfs_sys_scheme \<Rightarrow> (Registers option \<times> 'a vfs_sys_scheme) option" where
  "sys_exit_group code s = proc_exit code s"

definition sys_set_tid_address :: "u64 \<Rightarrow> 'a vfs_sys_scheme \<Rightarrow> u64" where
  "sys_set_tid_address tidptr s = word_of_int (proc_get_current_pid s)"

definition sys_arch_prctl :: "u64 \<Rightarrow> u64 \<Rightarrow> 'a vfs_sys_scheme \<Rightarrow> (u64 \<times> 'a vfs_sys_scheme) option" where
  "sys_arch_prctl code addr s =
     (let c = as_int code in
      if c = 0x1002 then Some (0, s\<lparr>fs_base := addr\<rparr>)
      else if c = 0x1003
      then (if addr = 0 then Some (serror EFAULT, s) else do { s \<leftarrow> store_user addr (le_enc 8 (fs_base s)) s; Some (0, s) })
      else if c = 0x1001 then Some (0, s\<lparr>gs_base := addr\<rparr>)
      else if c = 0x1004
      then (if addr = 0 then Some (serror EFAULT, s) else do { s \<leftarrow> store_user addr (le_enc 8 (gs_base s)) s; Some (0, s) })
      else Some (serror EINVAL, s))"

definition sys_mmap :: "u64 \<Rightarrow> 'a vfs_sys_scheme \<Rightarrow> (u64 \<times> 'a vfs_sys_scheme) option" where
  "sys_mmap n s =
     (if n = 0 then Some (serror EINVAL, s)
      else do {
        (r, s) \<leftarrow> proc_brk 0 s;
        if r = -1 then Some (serror ENOMEM, s)
        else do {
          (r, s) \<leftarrow> proc_sbrk (sint ((n + 4095) AND NOT 4095)) s;
          Some (if r = -1 then serror ENOMEM else r, s)
        }
      })"

definition sys_munmap :: "'a vfs_sys_scheme \<Rightarrow> u64 \<times> 'a vfs_sys_scheme" where
  "sys_munmap s = (0, s)"

definition sys_mprotect :: "'a vfs_sys_scheme \<Rightarrow> u64 \<times> 'a vfs_sys_scheme" where
  "sys_mprotect s = (0, s)"

section \<open>System and users\<close>

definition uts_field :: "string \<Rightarrow> u8 list" where
  "uts_field x = bytes x @ replicate (65 - length x) 0"

definition sys_uname :: "u64 \<Rightarrow> 'a vfs_sys_scheme \<Rightarrow> (u64 \<times> 'a vfs_sys_scheme) option" where
  "sys_uname buf s =
     (if buf = 0 then Some (serror EFAULT, s)
      else do {
        s \<leftarrow> store_user buf (concat (map uts_field [''Blackmount'', ''blackmount'', ''1.4.1'', ''#1 26.03.2026'', ''x86_64'', ''(none)''])) s;
        Some (0, s)
      })"

text \<open>The function ends without a \<^verbatim>\<open>return\<close>; \<open>ret_junk\<close> is what the caller finds.\<close>

definition sys_authu :: "u64 \<Rightarrow> u64 \<Rightarrow> 'a vfs_sys_scheme \<Rightarrow> (u64 \<times> 'a vfs_sys_scheme) option" where
  "sys_authu name_ptr pass_ptr s =
     (if name_ptr = 0 \<or> pass_ptr = 0 then Some (serror EFAULT, s)
      else do {
        u \<leftarrow> user_str name_ptr s;
        p \<leftarrow> user_str pass_ptr s;
        (_, s) \<leftarrow> user_authenticate (Some u) (Some p) s;
        Some (word_of_int (ret_junk s), s)
      })"

definition sys_getcwd :: "u64 \<Rightarrow> u64 \<Rightarrow> 'a vfs_sys_scheme \<Rightarrow> (u64 \<times> 'a vfs_sys_scheme) option" where
  "sys_getcwd buf n s =
     (if buf = 0 \<or> n = 0 then Some (serror EFAULT, s)
      else case proc_getcwd (unat n) s of
             None \<Rightarrow> Some (serror ERANGE, s)
           | Some d \<Rightarrow> do { s \<leftarrow> store_user buf (bytes d) s; Some (buf, s) })"

section \<open>Files by path\<close>

definition root_stat :: "string \<Rightarrow> 'a vfs_sys_scheme \<Rightarrow> (ext2_inode res \<times> 'a vfs_sys_scheme) option" where
  "root_stat path s = fs_call (Inl EXT2_ERROR_INVALID) (rootfs s) (ext2_stat path) s"

definition sys_chdir :: "u64 \<Rightarrow> 'a vfs_sys_scheme \<Rightarrow> (u64 \<times> 'a vfs_sys_scheme) option" where
  "sys_chdir path_ptr s =
     (if path_ptr = 0 then Some (serror EFAULT, s)
      else do {
        path \<leftarrow> user_str path_ptr s;
        (r, s) \<leftarrow> root_stat path s;
        (case r of
           Inl _ \<Rightarrow> Some (serror ENOENT, s)
         | Inr inode \<Rightarrow>
             if i_mode inode AND 0xF000 \<noteq> EXT2_S_IFDIR then Some (serror ENOTDIR, s)
             else do {
               (r, s) \<leftarrow> fs_call EXT2_ERROR_INVALID (rootfs s) (ext2_access path (proc_geteuid s) ACCESS_EXEC) s;
               if r \<noteq> EXT2_SUCCESS then Some (serror EPERM, s)
               else (let (r, s) = proc_chdir path s in Some (ret_or EINVAL r, s))
             })
      })"

definition stat_bytes :: "ext2_inode \<Rightarrow> u8 list" where
  "stat_bytes n = le_enc 8 (0 :: u64) @ le_enc 8 (0 :: u64) @ le_enc 8 (ucast (i_links_count n) :: u64)
     @ le_enc 4 (ucast (i_mode n) :: u32) @ le_enc 4 (ucast (i_uid n) :: u32) @ le_enc 4 (ucast (i_gid n) :: u32) @ le_enc 4 (0 :: u32)
     @ le_enc 8 (0 :: u64) @ le_enc 8 (ucast (i_size n) :: u64) @ le_enc 8 (4096 :: u64) @ le_enc 8 (ucast (i_blocks n) :: u64)
     @ le_enc 8 (ucast (i_atime n) :: u64) @ le_enc 8 (0 :: u64) @ le_enc 8 (ucast (i_mtime n) :: u64) @ le_enc 8 (0 :: u64)
     @ le_enc 8 (ucast (i_ctime n) :: u64) @ le_enc 8 (0 :: u64)"

definition stat_path :: "string \<Rightarrow> u64 \<Rightarrow> 'a vfs_sys_scheme \<Rightarrow> (u64 \<times> 'a vfs_sys_scheme) option" where
  "stat_path path statbuf s = do {
     (r, s) \<leftarrow> root_stat path s;
     (case r of
        Inl _ \<Rightarrow> Some (serror ENOENT, s)
      | Inr inode \<Rightarrow> do { s \<leftarrow> store_user statbuf (stat_bytes inode) s; Some (0, s) })
   }"

definition sys_stat :: "u64 \<Rightarrow> u64 \<Rightarrow> 'a vfs_sys_scheme \<Rightarrow> (u64 \<times> 'a vfs_sys_scheme) option" where
  "sys_stat path_ptr statbuf s =
     (if path_ptr = 0 \<or> statbuf = 0 then Some (serror EFAULT, s)
      else do { path \<leftarrow> user_str path_ptr s; stat_path path statbuf s })"

definition sys_lstat :: "u64 \<Rightarrow> u64 \<Rightarrow> 'a vfs_sys_scheme \<Rightarrow> (u64 \<times> 'a vfs_sys_scheme) option" where
  "sys_lstat path_ptr statbuf s = sys_stat path_ptr statbuf s"

definition big_fd :: "u64 \<Rightarrow> bool" where
  "big_fd fd \<longleftrightarrow> fd \<ge> of_nat MAX_OPEN_FILES"

definition sys_fstat :: "u64 \<Rightarrow> u64 \<Rightarrow> 'a vfs_sys_scheme \<Rightarrow> (u64 \<times> 'a vfs_sys_scheme) option" where
  "sys_fstat fd statbuf s =
     (if statbuf = 0 then Some (serror EFAULT, s)
      else if big_fd fd then Some (serror EBADF, s)
      else (let f = open_files s (unat fd) in
            if \<not> vf_exists f then Some (serror EBADF, s)
            else case vf_path f of
                   None \<Rightarrow> Some (serror EBADF, s)
                 | Some p \<Rightarrow> do { path \<leftarrow> path_str p s; stat_path path statbuf s }))"

definition access_mask :: "u64 \<Rightarrow> u16" where
  "access_mask mode = (if mode AND 4 \<noteq> 0 then ACCESS_READ else 0) OR (if mode AND 2 \<noteq> 0 then ACCESS_WRITE else 0)
     OR (if mode AND 1 \<noteq> 0 then ACCESS_EXEC else 0)"

definition sys_access :: "u64 \<Rightarrow> u64 \<Rightarrow> 'a vfs_sys_scheme \<Rightarrow> (u64 \<times> 'a vfs_sys_scheme) option" where
  "sys_access path_ptr mode s =
     (if path_ptr = 0 then Some (serror EFAULT, s)
      else do {
        path \<leftarrow> user_str path_ptr s;
        if mode = 0
        then do { (r, s) \<leftarrow> fs_call False (rootfs s) (ext2_exists path) s; Some (if r then 0 else serror ENOENT, s) }
        else do {
          (r, s) \<leftarrow> fs_call EXT2_ERROR_INVALID (rootfs s) (ext2_access path (proc_getuid s) (access_mask mode)) s;
          Some (ret_or EPERM r, s)
        }
      })"

definition sys_mkdir :: "u64 \<Rightarrow> 'a vfs_sys_scheme \<Rightarrow> (u64 \<times> 'a vfs_sys_scheme) option" where
  "sys_mkdir path_ptr s =
     (if path_ptr = 0 then Some (serror EFAULT, s)
      else do { path \<leftarrow> user_str path_ptr s; (r, s) \<leftarrow> VFS_Create path True s; Some (ret_or EEXIST r, s) })"

text \<open>\<open>ext2_chown_as\<close> is called with the unchanged owner, and its result is not used.\<close>

definition sys_rmdir :: "u64 \<Rightarrow> 'a vfs_sys_scheme \<Rightarrow> (u64 \<times> 'a vfs_sys_scheme) option" where
  "sys_rmdir path_ptr s =
     (if path_ptr = 0 then Some (serror EFAULT, s)
      else if rootfs s = 0 then Some (serror ENODEV, s)
      else do {
        path \<leftarrow> user_str path_ptr s;
        (_, s) \<leftarrow> fs_call EXT2_ERROR_INVALID (rootfs s) (ext2_chown_as path (uint (word_of_int (proc_geteuid s) :: u16)) (-1) (-1)) s;
        (r, s) \<leftarrow> fs_call EXT2_ERROR_INVALID (rootfs s) (ext2_rmdir path) s;
        Some (ret_or ENOENT r, s)
      })"

definition sys_unlink :: "u64 \<Rightarrow> 'a vfs_sys_scheme \<Rightarrow> (u64 \<times> 'a vfs_sys_scheme) option" where
  "sys_unlink path_ptr s =
     (if path_ptr = 0 then Some (serror EFAULT, s)
      else if rootfs s = 0 then Some (serror ENODEV, s)
      else do {
        path \<leftarrow> user_str path_ptr s;
        (r, s) \<leftarrow> fs_call EXT2_ERROR_INVALID (rootfs s) (ext2_access path (proc_geteuid s) ACCESS_WRITE) s;
        if r \<noteq> EXT2_SUCCESS then Some (serror EPERM, s)
        else do {
          (r, s) \<leftarrow> fs_call EXT2_ERROR_INVALID (rootfs s) (ext2_delete path) s;
          Some (ret_or ENOENT r, s)
        }
      })"

definition chmod_path :: "string \<Rightarrow> u64 \<Rightarrow> 'a vfs_sys_scheme \<Rightarrow> (u64 \<times> 'a vfs_sys_scheme) option" where
  "chmod_path path mode s = do {
     (r, s) \<leftarrow> fs_call EXT2_ERROR_INVALID (rootfs s) (ext2_chmod_as path (proc_geteuid s) (ucast mode)) s;
     Some (ret_or EPERM r, s)
   }"

definition chown_path :: "string \<Rightarrow> u64 \<Rightarrow> u64 \<Rightarrow> 'a vfs_sys_scheme \<Rightarrow> (u64 \<times> 'a vfs_sys_scheme) option" where
  "chown_path path u g s = do {
     (r, s) \<leftarrow> fs_call EXT2_ERROR_INVALID (rootfs s)
                 (ext2_chown_as path (uint (word_of_int (proc_geteuid s) :: u16)) (ucast u) (ucast g)) s;
     Some (ret_or EPERM r, s)
   }"

definition sys_chmod :: "u64 \<Rightarrow> u64 \<Rightarrow> 'a vfs_sys_scheme \<Rightarrow> (u64 \<times> 'a vfs_sys_scheme) option" where
  "sys_chmod path_ptr mode s =
     (if path_ptr = 0 then Some (serror EFAULT, s) else do { path \<leftarrow> user_str path_ptr s; chmod_path path mode s })"

definition sys_chown :: "u64 \<Rightarrow> u64 \<Rightarrow> u64 \<Rightarrow> 'a vfs_sys_scheme \<Rightarrow> (u64 \<times> 'a vfs_sys_scheme) option" where
  "sys_chown path_ptr u g s =
     (if path_ptr = 0 then Some (serror EFAULT, s) else do { path \<leftarrow> user_str path_ptr s; chown_path path u g s })"

text \<open>The path of an open descriptor.\<close>

definition with_fd_path :: "u64 \<Rightarrow> (string \<Rightarrow> 'a vfs_sys_scheme \<Rightarrow> (u64 \<times> 'a vfs_sys_scheme) option) \<Rightarrow> 'a vfs_sys_scheme \<Rightarrow> (u64 \<times> 'a vfs_sys_scheme) option" where
  "with_fd_path fd f s =
     (if big_fd fd then Some (serror EBADF, s)
      else if \<not> vf_exists (open_files s (unat fd)) then Some (serror EBADF, s)
      else case vf_path (open_files s (unat fd)) of
             None \<Rightarrow> Some (serror EBADF, s)
           | Some p \<Rightarrow> do { path \<leftarrow> path_str p s; f path s })"

definition sys_fchmod :: "u64 \<Rightarrow> u64 \<Rightarrow> 'a vfs_sys_scheme \<Rightarrow> (u64 \<times> 'a vfs_sys_scheme) option" where
  "sys_fchmod fd mode s = with_fd_path fd (\<lambda>path. chmod_path path mode) s"

definition sys_fchown :: "u64 \<Rightarrow> u64 \<Rightarrow> u64 \<Rightarrow> 'a vfs_sys_scheme \<Rightarrow> (u64 \<times> 'a vfs_sys_scheme) option" where
  "sys_fchown fd u g s = with_fd_path fd (\<lambda>path. chown_path path u g) s"

definition sys_umask :: "'a vfs_sys_scheme \<Rightarrow> u64 \<times> 'a vfs_sys_scheme" where
  "sys_umask s = (0x12, s)"

definition sys_create :: "u64 \<Rightarrow> u64 \<Rightarrow> 'a vfs_sys_scheme \<Rightarrow> (u64 \<times> 'a vfs_sys_scheme) option" where
  "sys_create path is_dir s =
     (if path = 0 then Some (serror EFAULT, s)
      else do { p \<leftarrow> user_str path s; (r, s) \<leftarrow> VFS_Create p (is_dir \<noteq> 0) s; Some (if r < 0 then serror EEXIST else 0, s) })"

section \<open>Descriptors\<close>

abbreviation (input) O_WRONLY :: u64 where "O_WRONLY \<equiv> 1"
abbreviation (input) O_RDWR :: u64 where "O_RDWR \<equiv> 2"
abbreviation (input) O_CREAT :: u64 where "O_CREAT \<equiv> 64"

text \<open>A file that is opened for writing is opened with the privileges of the kernel.\<close>

definition sys_open :: "u64 \<Rightarrow> u64 \<Rightarrow> 'a vfs_sys_scheme \<Rightarrow> (u64 \<times> 'a vfs_sys_scheme) option" where
  "sys_open path flags s =
     (if path = 0 then Some (serror EFAULT, s)
      else do {
        (r, s) \<leftarrow> (if flags AND O_CREAT \<noteq> 0 then do { p \<leftarrow> user_str path s; VFS_Create p False s } else Some (0, s));
        if r < 0 then Some (serror EEXIST, s)
        else do {
          (fd, s) \<leftarrow> VFS_Open (UPtr path) (flags AND O_RDWR \<noteq> 0 \<or> flags AND O_WRONLY \<noteq> 0) s;
          Some (if fd < 0 then serror ENOENT else word_of_int fd, s)
        }
      })"

definition sys_close :: "u64 \<Rightarrow> 'a vfs_sys_scheme \<Rightarrow> (u64 \<times> 'a vfs_sys_scheme) option" where
  "sys_close fd s = do { (r, s) \<leftarrow> VFS_Close (as_int fd) False s; Some (if r < 0 then serror EBADF else 0, s) }"

definition sys_write :: "u64 \<Rightarrow> u64 \<Rightarrow> u64 \<Rightarrow> 'a vfs_sys_scheme \<Rightarrow> (sysret \<times> 'a vfs_sys_scheme) option" where
  "sys_write fd buf count s = do { (r, s) \<leftarrow> VFS_Write (as_int fd) count (UBuf buf) False s; Some (sysret_of r, s) }"

definition sys_read :: "u64 \<Rightarrow> u64 \<Rightarrow> u64 \<Rightarrow> 'a vfs_sys_scheme \<Rightarrow> (sysret \<times> 'a vfs_sys_scheme) option" where
  "sys_read fd buf count s = do {
     (r, bs, s) \<leftarrow> VFS_Read (as_int fd) count buf s;
     s \<leftarrow> store_user buf bs s;
     Some (sysret_of r, s)
   }"

definition sys_lseek :: "u64 \<Rightarrow> u64 \<Rightarrow> 'a vfs_sys_scheme \<Rightarrow> (u64 \<times> 'a vfs_sys_scheme) option" where
  "sys_lseek fd offset s =
     (if big_fd fd then Some (serror EBADF, s)
      else do { (r, s) \<leftarrow> VFS_Set_Pos (as_int fd) (ucast offset) False s; Some (if r = 0 then offset else serror EINVAL, s) })"

text \<open>The copy of a descriptor: the file is opened again in the root file system.\<close>

definition copy_fd :: "nat \<Rightarrow> nat \<Rightarrow> 'a vfs_sys_scheme \<Rightarrow> 'a vfs_sys_scheme option" where
  "copy_fd old new s = do {
     let f = open_files s old;
     let s = upd_file new (\<lambda>_. f\<lparr>vf_file := 0\<rparr>) s;
     s \<leftarrow> (case vf_path f of
             None \<Rightarrow> Some s
           | Some p \<Rightarrow> do {
               path \<leftarrow> path_str p s;
               (e, s) \<leftarrow> fs_call None (rootfs s) (ext2_open path) s;
               Some (case e of
                       None \<Rightarrow> s
                     | Some e \<Rightarrow> upd_file new (\<lambda>f. f\<lparr>vf_file := file_ptr e\<rparr>)
                                   (s\<lparr>file_store := (file_store s)(file_ptr e \<mapsto> (rootfs s, e))\<rparr>))
             });
     Some (upd_file new (\<lambda>f. f\<lparr>vf_pid := proc_get_current_pid s\<rparr>) s)
   }"

definition sys_dup :: "u64 \<Rightarrow> 'a vfs_sys_scheme \<Rightarrow> (u64 \<times> 'a vfs_sys_scheme) option" where
  "sys_dup fd s =
     (if big_fd fd then Some (serror EBADF, s)
      else if \<not> vf_exists (open_files s (unat fd)) then Some (serror EBADF, s)
      else case free_fd 0 s of
             None \<Rightarrow> Some (serror EMFILE, s)
           | Some i \<Rightarrow> do { s \<leftarrow> copy_fd (unat fd) i s; Some (of_nat i, s) })"

definition sys_dup2 :: "u64 \<Rightarrow> u64 \<Rightarrow> 'a vfs_sys_scheme \<Rightarrow> (u64 \<times> 'a vfs_sys_scheme) option" where
  "sys_dup2 oldfd newfd s =
     (if big_fd oldfd \<or> big_fd newfd then Some (serror EBADF, s)
      else if \<not> vf_exists (open_files s (unat oldfd)) then Some (serror EBADF, s)
      else if oldfd = newfd then Some (newfd, s)
      else do {
        s \<leftarrow> (if vf_exists (open_files s (unat newfd)) then map_option snd (VFS_Close (int (unat newfd)) False s) else Some s);
        s \<leftarrow> copy_fd (unat oldfd) (unat newfd) s;
        Some (newfd, s)
      })"

definition sys_fcntl :: "u64 \<Rightarrow> u64 \<Rightarrow> 'a vfs_sys_scheme \<Rightarrow> (u64 \<times> 'a vfs_sys_scheme) option" where
  "sys_fcntl fd cmd s =
     (if big_fd fd then Some (serror EBADF, s)
      else if cmd = 1 then Some (fd, s)
      else if cmd = 2 then sys_dup fd s
      else Some (0, s))"

definition sys_ioctl :: "u64 \<Rightarrow> u64 \<Rightarrow> u64 \<Rightarrow> 'a vfs_sys_scheme \<Rightarrow> (u64 \<times> 'a vfs_sys_scheme) option" where
  "sys_ioctl fd req arg s =
     (if (fd = 1 \<or> fd = 2) \<and> req = 0x5401
      then do { s \<leftarrow> (if arg \<noteq> 0 then store_user arg (replicate 44 0) s else Some s); Some (0, s) }
      else do { (r, s) \<leftarrow> VFS_ioctl (as_int fd) req arg s; Some (if r < 0 then serror EBADF else word_of_int r, s) })"

fun store_dents :: "u64 \<Rightarrow> (nat \<times> u8 list) list \<Rightarrow> 'a vfs_sys_scheme \<Rightarrow> 'a vfs_sys_scheme option" where
  "store_dents buf [] s = Some s"
| "store_dents buf ((off, bs) # ds) s = do { s \<leftarrow> store_user (buf + of_nat off) bs s; store_dents buf ds s }"

definition sys_getdents64 :: "u64 \<Rightarrow> u64 \<Rightarrow> u64 \<Rightarrow> 'a vfs_sys_scheme \<Rightarrow> (u64 \<times> 'a vfs_sys_scheme) option" where
  "sys_getdents64 fd buf n s =
     (if buf = 0 then Some (serror EFAULT, s)
      else do {
        (r, out, s) \<leftarrow> VFS_GetDents64 (as_int fd) (unat n) s;
        s \<leftarrow> store_dents buf out s;
        Some (if r < 0 then serror EBADF else word_of_int r, s)
      })"

section \<open>Vectors of buffers\<close>

text \<open>
  The loop of \<open>sys_readv\<close>, with \<open>k\<close> entries left. It ends when a call makes the process wait,
  after which the loop goes on in the code.
\<close>

fun readv_loop :: "int \<Rightarrow> u64 \<Rightarrow> nat \<Rightarrow> u64 \<Rightarrow> 'a vfs_sys_scheme \<Rightarrow> (sysret \<times> 'a vfs_sys_scheme) option" where
  "readv_loop fd iov 0 acc_len s = Some (Ret acc_len, s)"
| "readv_loop fd iov (Suc k) acc_len s = do {
     e \<leftarrow> load_user iov 16 s;
     let base = dec64 e 0;
     let len = dec64 e 8;
     if base = 0 \<or> len = 0 then readv_loop fd (iov + 16) k acc_len s
     else do {
       (r, bs, s) \<leftarrow> VFS_Read fd len base s;
       s \<leftarrow> store_user base bs s;
       (case r of
          SDone r \<Rightarrow>
            if r < 0 then Some (Ret (if acc_len > 0 then acc_len else serror EBADF), s)
            else if word_of_int r < len then Some (Ret (acc_len + word_of_int r), s)
            else readv_loop fd (iov + 16) k (acc_len + word_of_int r) s
        | _ \<Rightarrow> Some (sysret_of r, s))
     }
   }"

definition sys_readv :: "u64 \<Rightarrow> u64 \<Rightarrow> u64 \<Rightarrow> 'a vfs_sys_scheme \<Rightarrow> (sysret \<times> 'a vfs_sys_scheme) option" where
  "sys_readv fd iov iovcnt s =
     (if iov = 0 then Some (Ret (serror EFAULT), s) else readv_loop (as_int fd) iov (unat iovcnt) 0 s)"

fun writev_loop :: "int \<Rightarrow> int \<Rightarrow> u8 list \<Rightarrow> nat \<Rightarrow> u64 \<Rightarrow> 'a vfs_sys_scheme \<Rightarrow> (sysret \<times> 'a vfs_sys_scheme) option" where
  "writev_loop fd pid kiov 0 acc_len s = Some (Ret acc_len, s)"
| "writev_loop fd pid kiov (Suc k) acc_len s = do {
     let base = dec64 kiov 0;
     let len = dec64 kiov 8;
     let fail = (\<lambda>e. Ret (if acc_len > 0 then acc_len else serror e));
     if base = 0 \<or> len = 0 then writev_loop fd pid (drop 16 kiov) k acc_len s
     else if len > 0x100000 then Some (fail EINVAL, s)
     else do {
       (kbuf, s) \<leftarrow> kmalloc len s;
       if kbuf = 0 then Some (fail ENOMEM, s)
       else do {
         (ok, bs, s) \<leftarrow> proc_read_from_user pid base (unat len) s;
         if \<not> ok then do { s \<leftarrow> kfree kbuf s; Some (fail EFAULT, s) }
         else do {
           (r, s) \<leftarrow> VFS_Write fd len (KBytes bs) False s;
           (case r of
              SDone r \<Rightarrow> do {
                s \<leftarrow> kfree kbuf s;
                if r < 0 then Some (fail EIO, s) else writev_loop fd pid (drop 16 kiov) k (acc_len + word_of_int r) s
              }
            | _ \<Rightarrow> Some (sysret_of r, s))
         }
       }
     }
   }"

definition sys_writev :: "u64 \<Rightarrow> u64 \<Rightarrow> u64 \<Rightarrow> 'a vfs_sys_scheme \<Rightarrow> (sysret \<times> 'a vfs_sys_scheme) option" where
  "sys_writev fd iov iovcnt s =
     (if iov = 0 then Some (Ret (serror EFAULT), s)
      else do {
        let pid = proc_get_current_pid s;
        let n = iovcnt * 16;
        (kiov, s) \<leftarrow> kmalloc n s;
        if kiov = 0 then Some (Ret (serror ENOMEM), s)
        else do {
          (ok, bs, s) \<leftarrow> proc_read_from_user pid iov (unat n) s;
          if \<not> ok then do { s \<leftarrow> kfree kiov s; Some (Ret (serror EFAULT), s) }
          else if length bs < 16 * unat iovcnt then None
          else do {
            (r, s) \<leftarrow> writev_loop (as_int fd) pid bs (unat iovcnt) 0 s;
            s \<leftarrow> (case r of Ret _ \<Rightarrow> kfree kiov s | _ \<Rightarrow> Some s);
            Some (r, s)
          }
        }
      })"

section \<open>Sockets\<close>

definition sys_socket :: "u64 \<Rightarrow> u64 \<Rightarrow> 'a vfs_sys_scheme \<Rightarrow> u64 \<times> 'a vfs_sys_scheme" where
  "sys_socket domain type s = (let (r, s) = VFS_Socket (as_int domain) (as_int type) s in (word_of_int r, s))"

definition sys_bind :: "u64 \<Rightarrow> u64 \<Rightarrow> u64 \<Rightarrow> 'a vfs_sys_scheme \<Rightarrow> (u64 \<times> 'a vfs_sys_scheme) option" where
  "sys_bind fd addr addrlen s = do { (r, s) \<leftarrow> VFS_Bind (as_int fd) addr (ucast addrlen) s; Some (word_of_int r, s) }"

definition sys_listen :: "u64 \<Rightarrow> 'a vfs_sys_scheme \<Rightarrow> u64 \<times> 'a vfs_sys_scheme" where
  "sys_listen fd s = (let (r, s) = VFS_Listen (as_int fd) s in (word_of_int r, s))"

text \<open>The pointer to the length is cut to 32 bits.\<close>

definition sys_accept :: "u64 \<Rightarrow> u64 \<Rightarrow> u64 \<Rightarrow> 'a vfs_sys_scheme \<Rightarrow> (sysret \<times> 'a vfs_sys_scheme) option" where
  "sys_accept fd addr addrlen s = do {
     (r, s) \<leftarrow> VFS_Accept (as_int fd) addr (ucast (ucast addrlen :: u32)) s;
     Some (sysret_of r, s)
   }"

definition sys_connect :: "u64 \<Rightarrow> u64 \<Rightarrow> u64 \<Rightarrow> 'a vfs_sys_scheme \<Rightarrow> (sysret \<times> 'a vfs_sys_scheme) option" where
  "sys_connect fd addr addrlen s = do { (r, s) \<leftarrow> VFS_Connect (as_int fd) addr (ucast addrlen) s; Some (sysret_of r, s) }"

definition sys_sendto :: "u64 \<Rightarrow> u64 \<Rightarrow> u64 \<Rightarrow> u64 \<Rightarrow> 'a vfs_sys_scheme \<Rightarrow> (sysret \<times> 'a vfs_sys_scheme) option" where
  "sys_sendto fd buf count dest s = do { (r, s) \<leftarrow> VFS_SendTo (as_int fd) buf count dest s; Some (sysret_of r, s) }"

definition sys_recvfrom :: "u64 \<Rightarrow> u64 \<Rightarrow> u64 \<Rightarrow> u64 \<Rightarrow> 'a vfs_sys_scheme \<Rightarrow> (sysret \<times> 'a vfs_sys_scheme) option" where
  "sys_recvfrom fd buf count src_out s = do {
     (r, s) \<leftarrow> VFS_RecvFrom (as_int fd) buf count src_out s;
     Some (sysret_of r, s)
   }"

end
