(* ===== verification/VfsInit.thy ===== *)
theory VfsInit
  imports VfsSock
begin

text \<open>
  The start and the end of the virtual file system (\<^verbatim>\<open>src/kernel/hal/vfs.c\<close>): the root file system from a boot
  image or a hard disk, the special files, and the final unmounting. The boot modules, the
  configuration, the memory of the descriptor table before it is set up and the disk of the ATA
  driver are arguments. A panic does not return (\<open>None\<close>).
\<close>

definition make_ram_disk :: "string \<Rightarrow> string \<Rightarrow> 'a vfs_sys_scheme \<Rightarrow> 'a vfs_sys_scheme option" where
  "make_ram_disk name target s = do {
     (r, s) \<leftarrow> ramdisk_create_blockdev name 0x400000 s;
     (_, dev) \<leftarrow> r;
     let s = save_disk dev s;
     let (_, t) = block_register dev (block_devices s);
     let s = s\<lparr>block_devices := t\<rparr>;
     (_, dev, s) \<leftarrow> ext2_format (load_disk dev s) s;
     (_, s) \<leftarrow> VFS_Mount name target (save_disk dev s);
     Some s
   }"

fun open_special :: "string list \<Rightarrow> 'a vfs_sys_scheme \<Rightarrow> 'a vfs_sys_scheme option" where
  "open_special [] s = Some s"
| "open_special (p # ps) s = do { (_, s) \<leftarrow> VFS_Open (KString p) True s; open_special ps s }"

definition create_special_files :: "'a vfs_sys_scheme \<Rightarrow> 'a vfs_sys_scheme option" where
  "create_special_files s = do {
     (_, s) \<leftarrow> VFS_Create ''/dev'' True s;
     s \<leftarrow> make_ram_disk ''ram0'' ''/dev'' s;
     s \<leftarrow> make_ram_disk ''ram1'' ''/tmp'' s;
     (_, s) \<leftarrow> stdin_device_init ''/dev/stdin'' s;
     (_, s) \<leftarrow> stdout_device_init ''/dev/stdout'' s;
     (_, s) \<leftarrow> VFS_Create ''/dev/stderr'' False s;
     (_, s) \<leftarrow> VFS_Create ''/dev/stddbg'' False s;
     s \<leftarrow> open_special [''/dev/stdin'', ''/dev/stdout'', ''/dev/stderr'', ''/dev/stddbg''] s;
     Some (setwriteall 3 (setwriteall 2 (setwriteall 1 s)))
   }"

definition clear_file :: "VFS_File_t \<Rightarrow> VFS_File_t" where
  "clear_file f = f\<lparr>vf_exists := False, vf_file := 0, vf_dir_iter := 0, vf_is_dir := False, vf_fs := 0, vf_is_socket := False\<rparr>"

definition set_root :: "mem_ctx block_device \<Rightarrow> 'a vfs_sys_scheme \<Rightarrow> 'a vfs_sys_scheme option" where
  "set_root dev s = do {
     (fs, s) \<leftarrow> fs_mount dev s;
     if fs = 0 then None else create_special_files (s\<lparr>rootfs := fs, mounted := True\<rparr>)
   }"

definition mount_image :: "limine_file list \<Rightarrow> 'a vfs_sys_scheme \<Rightarrow> 'a vfs_sys_scheme option" where
  "mount_image mods s = do {
     (r, s) \<leftarrow> image_create_blockdev mods ''hdaimg'' ''hdd.img'' s;
     (_, dev) \<leftarrow> r;
     let s = save_disk dev s;
     let (_, t) = block_register dev (block_devices s);
     (ok, t, s) \<leftarrow> gpt_register_partitions dev t s;
     if \<not> ok then None
     else do {
       part \<leftarrow> block_get ''hdaimgp1'' t;
       set_root part (s\<lparr>block_devices := t\<rparr>)
     }
   }"

abbreviation (input) SIZEOF_VFS_FILE :: u64 where "SIZEOF_VFS_FILE \<equiv> 72"

definition VFS_Init ::
    "limine_file list \<Rightarrow> config \<Rightarrow> (nat \<Rightarrow> VFS_File_t) \<Rightarrow> mem_ctx block_device option \<Rightarrow> 'a vfs_sys_scheme \<Rightarrow> 'a vfs_sys_scheme option" where
  "VFS_Init mods cfg table ata s = do {
     (p, s) \<leftarrow> kmalloc (of_nat MAX_OPEN_FILES * SIZEOF_VFS_FILE) s;
     if p = 0 then None
     else do {
       let s = s\<lparr>open_files := (\<lambda>i. clear_file (table i)), mount_table := (\<lambda>i. (mount_table s i)\<lparr>mnt_active := False\<rparr>)\<rparr>;
       let s = unix_sock_init s;
       let rd = chars (config_get (bytes ''bootdisk'') (bytes ''iso'') cfg);
       if rd = ''iso'' then mount_image mods s
       else if get_value_by_key rd 0 32 = Inr ''ata''
       then (case ata of None \<Rightarrow> None | Some dev \<Rightarrow> set_root dev (save_disk dev s))
       else Some s
     }
   }"

fun unmount_all :: "nat list \<Rightarrow> 'a vfs_sys_scheme \<Rightarrow> 'a vfs_sys_scheme option" where
  "unmount_all [] s = Some s"
| "unmount_all (i # is) s =
     (if mnt_active (mount_table s i)
      then do {
        s \<leftarrow> fs_unmount (mnt_fs (mount_table s i)) s;
        unmount_all is (s\<lparr>mount_table := (mount_table s)(i := (mount_table s i)\<lparr>mnt_active := False\<rparr>)\<rparr>)
      }
      else unmount_all is s)"

definition VFS_Unmount :: "'a vfs_sys_scheme \<Rightarrow> 'a vfs_sys_scheme option" where
  "VFS_Unmount s = do {
     s \<leftarrow> (if mounted s then fs_unmount (rootfs s) s else Some s);
     unmount_all [0..<MAX_MOUNTS] s
   }"

end
