(* ===== verification/SyscallTable.thy ===== *)
theory SyscallTable
  imports Syscalls VfsInit
begin

text \<open>
  The table of system calls (\<^verbatim>\<open>src/kernel/syscalls/scman.c\<close>), the dispatcher that the entry code calls
  (\<^verbatim>\<open>src/kernel/arch/x86_64/syscalls.c\<close>), and the end of the system (\<^verbatim>\<open>src/kernel/shutdown/shutdown.c\<close>). A handler gets the six
  argument registers. Switching off the machine is not part of the sources and is an argument of
  the dispatcher.
\<close>

section \<open>Handlers\<close>

type_synonym 'a call_args = "u64 \<Rightarrow> u64 \<Rightarrow> u64 \<Rightarrow> u64 \<Rightarrow> u64 \<Rightarrow> u64 \<Rightarrow> 'a"

text \<open>The forms of the results of the handlers.\<close>

definition rets :: "(u64 \<times> 's) option \<Rightarrow> (sysret \<times> 's) option" where
  "rets r = map_option (\<lambda>(x, s). (Ret x, s)) r"

definition exits :: "(Registers option \<times> 's) option \<Rightarrow> (sysret \<times> 's) option" where
  "exits r = map_option (\<lambda>(x, s). (Exited x, s)) r"

definition waits :: "wait_result \<times> 's \<Rightarrow> (sysret \<times> 's) option" where
  "waits r = Some (case fst r of WDone x \<Rightarrow> Ret x | WYield \<Rightarrow> Wait, snd r)"

definition prep_shutdown :: "'a vfs_sys_scheme \<Rightarrow> 'a vfs_sys_scheme option" where
  "prep_shutdown s = VFS_Unmount s"

definition shutdown ::
    "('a vfs_sys_scheme \<Rightarrow> (u64 \<times> 'a vfs_sys_scheme) option) \<Rightarrow> 'a vfs_sys_scheme \<Rightarrow> (u64 \<times> 'a vfs_sys_scheme) option" where
  "shutdown acpi_shutdown s = do { s \<leftarrow> prep_shutdown s; acpi_shutdown s }"

section \<open>The table\<close>

definition file_handlers :: "(nat \<times> ('a vfs_sys_scheme \<Rightarrow> (sysret \<times> 'a vfs_sys_scheme) option) call_args) list" where
  "file_handlers = [
     (0, \<lambda>a b c _ _ _. sys_read a b c),
     (1, \<lambda>a b c _ _ _. sys_write a b c),
     (2, \<lambda>a b _ _ _ _ s. rets (sys_open a b s)),
     (3, \<lambda>a _ _ _ _ _ s. rets (sys_close a s)),
     (4, \<lambda>a b _ _ _ _ s. rets (sys_stat a b s)),
     (5, \<lambda>a b _ _ _ _ s. rets (sys_fstat a b s)),
     (6, \<lambda>a b _ _ _ _ s. rets (sys_lstat a b s)),
     (8, \<lambda>a b _ _ _ _ s. rets (sys_lseek a b s)),
     (9, \<lambda>_ b _ _ _ _ s. rets (sys_mmap b s)),
     (10, \<lambda>_ _ _ _ _ _ s. rets (Some (sys_mprotect s))),
     (11, \<lambda>_ _ _ _ _ _ s. rets (Some (sys_munmap s))),
     (12, \<lambda>a _ _ _ _ _ s. rets (proc_brk a s)),
     (16, \<lambda>a b c _ _ _ s. rets (sys_ioctl a b c s)),
     (19, \<lambda>a b c _ _ _. sys_readv a b c),
     (20, \<lambda>a b c _ _ _. sys_writev a b c),
     (21, \<lambda>a b _ _ _ _ s. rets (sys_access a b s)),
     (32, \<lambda>a _ _ _ _ _ s. rets (sys_dup a s)),
     (33, \<lambda>a b _ _ _ _ s. rets (sys_dup2 a b s)),
     (72, \<lambda>a b _ _ _ _ s. rets (sys_fcntl a b s)),
     (83, \<lambda>a _ _ _ _ _ s. rets (sys_mkdir a s)),
     (84, \<lambda>a _ _ _ _ _ s. rets (sys_rmdir a s)),
     (87, \<lambda>a _ _ _ _ _ s. rets (sys_unlink a s)),
     (90, \<lambda>a b _ _ _ _ s. rets (sys_chmod a b s)),
     (91, \<lambda>a b _ _ _ _ s. rets (sys_fchmod a b s)),
     (92, \<lambda>a b c _ _ _ s. rets (sys_chown a b c s)),
     (93, \<lambda>a b c _ _ _ s. rets (sys_fchown a b c s)),
     (95, \<lambda>_ _ _ _ _ _ s. rets (Some (sys_umask s))),
     (217, \<lambda>a b c _ _ _ s. rets (sys_getdents64 a b c s))]"

definition socket_handlers :: "(nat \<times> ('a vfs_sys_scheme \<Rightarrow> (sysret \<times> 'a vfs_sys_scheme) option) call_args) list" where
  "socket_handlers = [
     (24, \<lambda>_ _ _ _ _ _ s. Some (Wait, s)),
     (35, \<lambda>a _ _ _ _ _ s. rets (proc_brk a s)),
     (41, \<lambda>a b _ _ _ _ s. rets (Some (sys_socket a b s))),
     (42, \<lambda>a b c _ _ _. sys_connect a b c),
     (43, \<lambda>a b c _ _ _. sys_accept a b c),
     (44, \<lambda>a b c d _ _. sys_sendto a b c d),
     (45, \<lambda>a b c d _ _. sys_recvfrom a b c d),
     (49, \<lambda>a b c _ _ _ s. rets (sys_bind a b c s)),
     (50, \<lambda>a _ _ _ _ _ s. rets (Some (sys_listen a s)))]"

definition process_handlers :: "(nat \<times> ('a vfs_sys_scheme \<Rightarrow> (sysret \<times> 'a vfs_sys_scheme) option) call_args) list" where
  "process_handlers = [
     (56, \<lambda>a b _ _ _ _ s. rets (sys_clone a b s)),
     (57, \<lambda>_ _ _ _ _ _ s. rets (sys_fork s)),
     (58, \<lambda>_ _ _ _ _ _ s. rets (Some (sys_vfork s))),
     (59, \<lambda>a b c _ _ _ s. rets (sys_execve a b c s)),
     (60, \<lambda>a _ _ _ _ _ s. exits (proc_exit a s)),
     (61, \<lambda>a b _ _ _ _. sys_wait4 a b),
     (62, \<lambda>a b _ _ _ _ s. rets (sys_kill a b s)),
     (231, \<lambda>a _ _ _ _ _ s. exits (sys_exit_group a s)),
     (234, \<lambda>a b c _ _ _ s. rets (sys_tgkill a b c s)),
     (39, \<lambda>_ _ _ _ _ _ s. Some (Ret (sys_getpid s), s)),
     (110, \<lambda>_ _ _ _ _ _ s. Some (Ret (sys_getppid s), s)),
     (63, \<lambda>a _ _ _ _ _ s. rets (sys_uname a s)),
     (79, \<lambda>a b _ _ _ _ s. rets (sys_getcwd a b s)),
     (80, \<lambda>a _ _ _ _ _ s. rets (sys_chdir a s)),
     (158, \<lambda>a b _ _ _ _ s. rets (sys_arch_prctl a b s)),
     (218, \<lambda>a _ _ _ _ _ s. Some (Ret (sys_set_tid_address a s), s))]"

definition identity_handlers :: "(nat \<times> ('a vfs_sys_scheme \<Rightarrow> (sysret \<times> 'a vfs_sys_scheme) option) call_args) list" where
  "identity_handlers = [
     (102, \<lambda>_ _ _ _ _ _ s. Some (Ret (sys_getuid s), s)),
     (104, \<lambda>_ _ _ _ _ _ s. Some (Ret (sys_getgid s), s)),
     (105, \<lambda>a _ _ _ _ _ s. rets (Some (sys_setuid a s))),
     (106, \<lambda>a _ _ _ _ _ s. rets (Some (sys_setgid a s))),
     (107, \<lambda>_ _ _ _ _ _ s. Some (Ret (sys_geteuid s), s)),
     (108, \<lambda>_ _ _ _ _ _ s. Some (Ret (sys_getegid s), s)),
     (113, \<lambda>a b _ _ _ _ s. rets (Some (sys_setreuid a b s))),
     (114, \<lambda>a b _ _ _ _ s. rets (Some (sys_setregid a b s))),
     (117, \<lambda>a b c _ _ _ s. rets (Some (sys_setresuid a b c s))),
     (118, \<lambda>a b c _ _ _ s. rets (sys_getresuid a b c s)),
     (119, \<lambda>a b c _ _ _ s. rets (Some (sys_setresgid a b c s))),
     (120, \<lambda>a b c _ _ _ s. rets (sys_getresgid a b c s))]"

definition register_syscalls ::
    "('a vfs_sys_scheme \<Rightarrow> (u64 \<times> 'a vfs_sys_scheme) option)
     \<Rightarrow> (nat \<times> ('a vfs_sys_scheme \<Rightarrow> (sysret \<times> 'a vfs_sys_scheme) option) call_args) list" where
  "register_syscalls acpi_shutdown =
     file_handlers @ socket_handlers @ process_handlers @ identity_handlers
     @ [(48, \<lambda>_ _ _ _ _ _ s. rets (shutdown acpi_shutdown s)),
        (301, \<lambda>a b _ _ _ _ s. rets (load_bin a b s)),
        (302, \<lambda>a _ _ _ _ _ s. waits (proc_wait_pid a s)),
        (303, \<lambda>a b _ _ _ _ s. rets (sys_create a b s)),
        (304, \<lambda>a b _ _ _ _ s. rets (sys_authu a b s))]"

text \<open>A handler that returns leaves the kernel; one that waits does so when it runs again.\<close>

definition x86_64_Syscall_Dispatch ::
    "('a vfs_sys_scheme \<Rightarrow> (u64 \<times> 'a vfs_sys_scheme) option)
     \<Rightarrow> u64 \<Rightarrow> ('a vfs_sys_scheme \<Rightarrow> (sysret \<times> 'a vfs_sys_scheme) option) call_args" where
  "x86_64_Syscall_Dispatch acpi_shutdown number a b c d e f s =
     (case (if number < 500 then map_of (register_syscalls acpi_shutdown) (unat number) else None) of
        None \<Rightarrow> Some (Ret (-1), s)
      | Some h \<Rightarrow> do {
          (r, s) \<leftarrow> h a b c d e f (proc_enter_syscall s);
          Some (r, case r of Ret _ \<Rightarrow> proc_exit_syscall s | _ \<Rightarrow> s)
        })"

end
