(* ===== verification/VfsDemo.thy ===== *)
theory VfsDemo
  imports SyscallTable UnixProps Ext2Props
begin

text \<open>
  A state of the whole kernel for examples: process 1 runs and process 2 is ready; a volume is mounted
  at \<^verbatim>\<open>/dev\<close> and \<^verbatim>\<open>/dev/pts\<close>; descriptor 4 is a file of process 1, descriptors 5 and 6 are a file and a
  socket of process 2.
\<close>

definition fdemo_file :: "int \<Rightarrow> VFS_File_t" where
  "fdemo_file pid = zero_file\<lparr>vf_path := Some (KString ''/f''), vf_file := 0x100, vf_fs := 0x80, vf_pid := pid, vf_exists := True\<rparr>"

definition fdemo_socket :: "int \<Rightarrow> VFS_File_t" where
  "fdemo_socket pid = zero_file\<lparr>vf_pid := pid, vf_exists := True, vf_is_socket := True, unix_sock_id := 2\<rparr>"

definition fdemo_mount :: "string \<Rightarrow> vfs_mount_t" where
  "fdemo_mount path = \<lparr>mountpoint = path, mnt_fs = 0x80 + of_nat (length path), mnt_dev = disk_demo, mnt_active = True\<rparr>"

definition fdemo_table :: "nat \<Rightarrow> VFS_File_t" where
  "fdemo_table = (\<lambda>_. zero_file)(4 := fdemo_file 1, 5 := fdemo_file 2, 6 := fdemo_socket 2)"

definition fdemo_con :: con_sys where
  "fdemo_con = sock_sys.extend sdemo (con_sys.fields None \<lparr>vec_data = 0, vec_capacity = 0, vec_elems = []\<rparr> 0 False [] (replicate 26 0) 0
     \<lparr>c_iflag = 0, c_oflag = 0, c_cflag = 0, c_lflag = 0, c_line = 0, c_cc = replicate 19 0\<rparr>
     \<lparr>ws_row = 25, ws_col = 80, ws_xpixel = 0, ws_ypixel = 0\<rparr> 0 [])"

definition fdemo :: vfs_sys where
  "fdemo = con_sys.extend fdemo_con (vfs_sys.fields Map.empty (\<lambda>_. driver_data disk_demo) [0x80 \<mapsto> volume_demo]
     [0x100 \<mapsto> (0x80, file_demo)] Map.empty 0x80 True
     (\<lambda>i. if i = 0 then fdemo_mount ''/dev'' else if i = 1 then fdemo_mount ''/dev/pts'' else (fdemo_mount [])\<lparr>mnt_active := False\<rparr>)
     fdemo_table (\<lambda>_. None) \<lparr>fb_width = 0, fb_height = 0, fb_pitch = 0, fb_bpp = 0\<rparr> 0 0 0)"

lemma fdemo_fields [simp]:
  "open_files fdemo = fdemo_table" "rootfs fdemo = 0x80" "fs_store fdemo = [0x80 \<mapsto> volume_demo]" "file_store fdemo = [0x100 \<mapsto> (0x80, file_demo)]"
  "disks fdemo = (\<lambda>_. driver_data disk_demo)"
  "mount_table fdemo =
     (\<lambda>i. if i = 0 then fdemo_mount ''/dev'' else if i = 1 then fdemo_mount ''/dev/pts'' else (fdemo_mount [])\<lparr>mnt_active := False\<rparr>)"
  by (simp_all add: fdemo_def fdemo_con_def sdemo_def pdemo_def udemo_root_def udemo_def vfs_sys.defs con_sys.defs sock_sys.defs proc_sys.defs user_sys.defs heap.defs)

lemma fdemo_procs [simp]: "proc_table fdemo = proc_table (pdemo 1)" "current_proc fdemo = 0" "sock_table fdemo = sock_table sdemo"
  by (simp_all add: fdemo_def fdemo_con_def sdemo_def pdemo_def udemo_root_def udemo_def vfs_sys.defs con_sys.defs sock_sys.defs proc_sys.defs user_sys.defs heap.defs)

lemma fdemo_pid: "proc_get_current_pid fdemo = 1"
  by (simp add: proc_get_current_pid_def)

lemma fdemo_owns: "heap_owns fdemo {}"
proof -
  have "heap_owns fdemo {} = heap_owns udemo_root {}"
    by (simp add: fdemo_def fdemo_con_def sdemo_def pdemo_def heap_owns_def heap_inv_def vfs_sys.defs con_sys.defs sock_sys.defs proc_sys.defs user_sys.defs heap.defs)
  then show ?thesis using udemo_owns(2) by simp
qed

lemma fdemo_root: "user_is_root fdemo (vfs_caller_uid fdemo)"
proof -
  have u: "users fdemo = users udemo_root" "groups fdemo = groups udemo_root"
    by (simp_all add: fdemo_def fdemo_con_def sdemo_def pdemo_def udemo_root_def udemo_def vfs_sys.defs con_sys.defs sock_sys.defs proc_sys.defs user_sys.defs heap.defs)
  have "proc_get_owner 1 fdemo = 0"
    by (simp add: proc_get_owner_def proc_find_index_def scan.simps)
  then show ?thesis by (simp add: vfs_caller_uid_def fdemo_pid user_is_root_def user_exists_def u udemo_root_def udemo_fields root_user_def root_group_def blank_user_def)
qed

end
