(* ===== verification/MountProps.thy ===== *)
theory MountProps
  imports VfsDemo
begin

text \<open>
  The choice of the file system for a path: the longest active mount point that is a prefix of the
  path at a directory boundary.
\<close>

definition covers :: "vfs_mount_t \<Rightarrow> string \<Rightarrow> bool" where
  "covers m path \<longleftrightarrow> mnt_active m \<and> mountpoint m \<noteq> []
     \<and> (\<exists>rest. path = mountpoint m @ rest \<and> (rest = [] \<or> hd rest = CHR ''/''))"

definition rel_path :: "vfs_mount_t \<Rightarrow> string \<Rightarrow> string" where
  "rel_path m path = (if path = mountpoint m then ''/'' else drop (length (mountpoint m)) path)"

text \<open>A specification of the loop: mount point \<open>m\<close> of \<open>ms\<close> is the first of the longest that cover the path.\<close>

definition first_longest :: "string \<Rightarrow> vfs_mount_t list \<Rightarrow> nat \<Rightarrow> bool" where
  "first_longest path ms i \<longleftrightarrow> i < length ms \<and> covers (ms ! i) path
     \<and> (\<forall>j < length ms. covers (ms ! j) path \<longrightarrow> length (mountpoint (ms ! j)) \<le> length (mountpoint (ms ! i)))
     \<and> (\<forall>j < i. covers (ms ! j) path \<longrightarrow> length (mountpoint (ms ! j)) < length (mountpoint (ms ! i)))"

lemma covers_iff:
  "covers m path \<longleftrightarrow> mnt_active m \<and> mountpoint m \<noteq> []
     \<and> take (length (mountpoint m)) path = mountpoint m
     \<and> (drop (length (mountpoint m)) path = [] \<or> hd (drop (length (mountpoint m)) path) = CHR ''/'')"
  unfolding covers_def by (metis append_take_drop_id append_eq_conv_conj)

text \<open>One step of the loop.\<close>

definition better :: "string \<Rightarrow> u64 \<times> string \<times> nat \<Rightarrow> vfs_mount_t \<Rightarrow> u64 \<times> string \<times> nat" where
  "better path best m =
     (if covers m path \<and> snd (snd best) < length (mountpoint m) then (mnt_fs m, rel_path m path, length (mountpoint m)) else best)"

lemma best_mount_fold: "best_mount path ms best = foldl (better path) best ms"
proof (induction ms arbitrary: best)
  case (Cons m ms)
  have "drop (length (mountpoint m)) path = [] \<longleftrightarrow> path = mountpoint m" if "take (length (mountpoint m)) path = mountpoint m"
    using that by (metis append_Nil2 append_take_drop_id drop_all order_refl)
  then have "best_mount path (m # ms) best = best_mount path ms (better path best m)"
    by (auto simp: better_def covers_iff rel_path_def Let_def)
  then show ?case using Cons.IH by simp
qed simp

lemma best_mount_snoc: "best_mount path (ms @ [m]) best = better path (best_mount path ms best) m"
  by (simp add: best_mount_fold)

lemma some_covers: "(\<exists>i < length ms. covers (ms ! i) path) \<longleftrightarrow> (\<exists>m \<in> set ms. covers m path)"
  by (metis in_set_conv_nth)

lemma best_mount_spec:
  "if \<exists>i < length ms. covers (ms ! i) path
   then \<exists>i. first_longest path ms i
          \<and> best_mount path ms (fs, path, 0) = (mnt_fs (ms ! i), rel_path (ms ! i) path, length (mountpoint (ms ! i)))
   else best_mount path ms (fs, path, 0) = (fs, path, 0)"
proof (induction ms rule: rev_induct)
  case (snoc m ms)
  let ?b = "best_mount path ms (fs, path, 0)"
  have ex: "(\<exists>i < length (ms @ [m]). covers ((ms @ [m]) ! i) path) \<longleftrightarrow> (\<exists>i < length ms. covers (ms ! i) path) \<or> covers m path"
    unfolding some_covers by auto
  show ?case
  proof (cases "\<exists>i < length ms. covers (ms ! i) path")
    case old: True
    then obtain i where i: "first_longest path ms i" "?b = (mnt_fs (ms ! i), rel_path (ms ! i) path, length (mountpoint (ms ! i)))"
      using snoc.IH by auto
    let ?j = "if covers m path \<and> length (mountpoint (ms ! i)) < length (mountpoint m) then length ms else i"
    have "first_longest path (ms @ [m]) ?j"
      using i(1) by (auto simp: first_longest_def nth_append less_Suc_eq; fastforce)
    moreover have "best_mount path (ms @ [m]) (fs, path, 0) =
        (mnt_fs ((ms @ [m]) ! ?j), rel_path ((ms @ [m]) ! ?j) path, length (mountpoint ((ms @ [m]) ! ?j)))"
      using i by (auto simp: best_mount_snoc better_def first_longest_def nth_append)
    ultimately show ?thesis unfolding ex using old by auto
  next
    case new: False
    then have b: "?b = (fs, path, 0)" using snoc.IH by auto
    show ?thesis
    proof (cases "covers m path")
      case True
      then have "first_longest path (ms @ [m]) (length ms)" using new by (auto simp: first_longest_def nth_append less_Suc_eq)
      moreover have "best_mount path (ms @ [m]) (fs, path, 0) = (mnt_fs m, rel_path m path, length (mountpoint m))"
        using True b by (simp add: best_mount_snoc better_def covers_def)
      ultimately show ?thesis unfolding ex using True by (auto intro!: exI [of _ "length ms"])
    next
      case False
      then show ?thesis unfolding ex using new b by (auto simp: best_mount_snoc better_def)
    qed
  qed
qed simp

text \<open>
  C32: A path is looked up in the file system of the longest active mount point that is a prefix of
  the path and ends at a slash or at the end of the path, the first such entry of the table; the rest of the path is the path there.
  Without such a mount point the root file system and the whole path are used.
\<close>

theorem resolve_fs_longest:
  "if \<exists>i < MAX_MOUNTS. covers (mount_table s i) path
   then \<exists>i < MAX_MOUNTS. covers (mount_table s i) path
          \<and> resolve_fs path s = (mnt_fs (mount_table s i), rel_path (mount_table s i) path)
          \<and> (\<forall>j < MAX_MOUNTS. covers (mount_table s j) path \<longrightarrow>
               length (mountpoint (mount_table s j)) \<le> length (mountpoint (mount_table s i))
               \<and> (j < i \<longrightarrow> length (mountpoint (mount_table s j)) < length (mountpoint (mount_table s i))))
   else resolve_fs path s = (rootfs s, path)"
proof -
  let ?ms = "map (mount_table s) [0..<16]"
  have nth: "?ms ! i = mount_table s i" if "i < 16" for i using that by (simp del: upt_rec_numeral)
  have len: "length ?ms = 16" by (simp del: upt_rec_numeral)
  have ex: "(\<exists>i < length ?ms. covers (?ms ! i) path) \<longleftrightarrow> (\<exists>i < 16. covers (mount_table s i) path)"
    unfolding len using nth by metis
  note spec = best_mount_spec [of ?ms path "rootfs s", unfolded ex]
  show ?thesis
  proof (cases "\<exists>i < 16. covers (mount_table s i) path")
    case True
    then obtain i where i: "first_longest path ?ms i"
      "best_mount path ?ms (rootfs s, path, 0) = (mnt_fs (?ms ! i), rel_path (?ms ! i) path, length (mountpoint (?ms ! i)))"
      using spec by auto
    then have "i < 16" using len by (simp add: first_longest_def del: upt_rec_numeral)
    then show ?thesis using True i nth len unfolding first_longest_def resolve_fs_def
      by (auto simp: simp del: upt_rec_numeral intro!: exI [of _ i])
  next
    case False
    then show ?thesis unfolding if_not_P [OF False] using spec by (simp add: resolve_fs_def del: upt_rec_numeral)
  qed
qed

theorem resolve_fs_longest_witness: "resolve_fs ''/dev/pts/0'' fdemo = (0x88, ''/0'')"
proof -
  have m: "mnt_active (mount_table fdemo i) \<longleftrightarrow> i < 2" "mountpoint (mount_table fdemo 0) = ''/dev''" "mountpoint (mount_table fdemo 1) = ''/dev/pts''"
    "mnt_fs (mount_table fdemo 1) = 0x88" for i by (simp_all add: fdemo_mount_def less_2_cases_iff)
  have c: "covers (mount_table fdemo i) ''/dev/pts/0'' \<longleftrightarrow> i = 0 \<or> i = 1" for i
    by (auto simp: covers_iff fdemo_mount_def)
  have "\<exists>i < 16. covers (mount_table fdemo i) ''/dev/pts/0''" unfolding c by (intro exI [of _ 0]) simp
  with resolve_fs_longest [of fdemo "''/dev/pts/0''"] obtain i where i: "i < 16" "covers (mount_table fdemo i) ''/dev/pts/0''"
    "resolve_fs ''/dev/pts/0'' fdemo = (mnt_fs (mount_table fdemo i), rel_path (mount_table fdemo i) ''/dev/pts/0'')"
    "\<forall>j < 16. covers (mount_table fdemo j) ''/dev/pts/0'' \<longrightarrow> length (mountpoint (mount_table fdemo j)) \<le> length (mountpoint (mount_table fdemo i))"
    by (auto simp del: fdemo_fields)
  have "length (mountpoint (mount_table fdemo 1)) \<le> length (mountpoint (mount_table fdemo i))" using spec [OF i(4), of 1] c [of 1] by (simp del: fdemo_fields)
  then have "i = 1" using i(2) [unfolded c] m(2,3) by (auto simp del: fdemo_fields)
  then show ?thesis using i(3) m(3,4) by (simp add: rel_path_def del: fdemo_fields)
qed

end
