(* ===== verification/ConsoleProps.thy ===== *)
theory ConsoleProps
  imports VfsDemo
begin

text \<open>
  The input line of the console as an edited text of bounded length, and its delivery to a process that waits for it.
\<close>

section \<open>The interface\<close>

datatype 'c edit = Put 'c | Del | Flush

fun edited :: "nat \<Rightarrow> 'c edit \<Rightarrow> 'c list \<Rightarrow> 'c list" where
  "edited room (Put c) xs = (if length xs < room then xs @ [c] else xs)"
| "edited room Del xs = butlast xs"
| "edited room Flush xs = []"

text \<open>An editor whose line behaves as a list of at most \<open>room\<close> characters.\<close>

locale line_editor =
  fixes ok :: "'s \<Rightarrow> bool"
    and line :: "'s \<Rightarrow> 'c list"
    and room :: nat
    and edit :: "'c edit \<Rightarrow> 's \<Rightarrow> 's"
  assumes ok_edit: "ok s \<Longrightarrow> ok (edit e s)"
    and line_edit: "ok s \<Longrightarrow> line (edit e s) = edited room e (line s)"
    and line_room: "ok s \<Longrightarrow> length (line s) \<le> room"
begin

lemma edits: "ok s \<Longrightarrow> ok (fold edit es s) \<and> line (fold edit es s) = fold (edited room) es (line s) \<and> length (fold (edited room) es (line s)) \<le> room"
proof (induction es arbitrary: s)
  case (Cons e es)
  then show ?case using Cons.IH [of "edit e s"] by (simp add: ok_edit line_edit)
qed (simp add: line_room)

end

section \<open>The console\<close>

definition con_ok :: "'a con_sys_scheme \<Rightarrow> bool" where
  "con_ok s \<longleftrightarrow> (\<exists>i. con_input s = Some i \<and> im_capacity i = 128 \<and> length (im_buffer i) = 128 \<and> im_length i \<le> 128)"

definition con_line :: "'a con_sys_scheme \<Rightarrow> u8 list" where
  "con_line s = (case con_input s of None \<Rightarrow> [] | Some i \<Rightarrow> take (im_length i) (im_buffer i))"

fun con_edit :: "u8 edit \<Rightarrow> 'a con_sys_scheme \<Rightarrow> 'a con_sys_scheme" where
  "con_edit (Put c) s = console_user_put_c c s"
| "con_edit Del s = console_backspace s"
| "con_edit Flush s = console_tcflush TCIFLUSH s"

lemmas con_output = put_at_cursor_def console_backspace_no_input_def draw_cursor_def emit_def

lemma take_snoc: "n < length xs \<Longrightarrow> take (Suc n) (xs[n := c]) = take n xs @ [c]"
  by (simp add: take_Suc_conv_app_nth)

lemma con_edit_line: "con_ok s \<Longrightarrow> con_ok (con_edit e s) \<and> con_line (con_edit e s) = edited 128 e (con_line s)"
proof -
  assume "con_ok s"
  then obtain i where i: "con_input s = Some i" "im_capacity i = 128" "length (im_buffer i) = 128" "im_length i \<le> 128"
    by (auto simp: con_ok_def)
  show ?thesis
  proof (cases e)
    case (Put c)
    then show ?thesis using i
      by (simp add: con_ok_def con_line_def console_user_put_c_def console_addchar_def upd_input_def con_output take_snoc)
  next
    case Del
    then show ?thesis using i
      by (auto simp: con_ok_def con_line_def console_backspace_def console_rmchar_def upd_input_def con_output butlast_take)
  next
    case Flush
    then show ?thesis using i by (simp add: con_ok_def con_line_def console_tcflush_def upd_input_def)
  qed
qed

interpretation con: line_editor con_ok con_line 128 con_edit
proof
  show "con_ok s \<Longrightarrow> length (con_line s) \<le> 128" for s :: "'a con_sys_scheme"
    by (auto simp: con_ok_def con_line_def)
qed (simp_all add: con_edit_line)

lemma console_init_ok: "console_init s = Some (True, t) \<Longrightarrow> con_ok t \<and> con_line t = []"
  by (auto simp: console_init_def bind_eq_Some_conv con_ok_def con_line_def simp del: upt_rec_numeral split: if_splits)

lemma give_line_text:
  assumes "con_ok s" "length (con_line s) < 128" "wp_buffer wp \<noteq> 0" "wp_active wp" "wp_buf_size wp \<noteq> 0"
  shows "\<exists>i. give_line wp s = do {
      (_, s) \<leftarrow> proc_write_to_user (wp_pid wp) (wp_buffer wp) (Some (take (unat (wp_buf_size wp) - 1) (con_line s) @ [0])) (s\<lparr>con_input := Some i\<rparr>);
      Some s }"
proof -
  obtain i where i: "con_input s = Some i" "length (im_buffer i) = 128" "im_length i < 128" "con_line s = take (im_length i) (im_buffer i)"
    using assms(1,2) by (auto simp: con_ok_def con_line_def)
  let ?n = "unat (wp_buf_size wp) - 1"
  have u: "unat (wp_buf_size wp - 1) = ?n" using assms(5) by (simp add: unat_minus_one)
  have l: "of_nat (im_length i) < wp_buf_size wp - 1 \<longleftrightarrow> im_length i < ?n"
    using i(3) u by (simp add: word_less_nat_alt unat_of_nat take_bit_nat_eq_self)
  define k where "k = (if of_nat (im_length i) < wp_buf_size wp - 1 then im_length i else unat (wp_buf_size wp - 1))"
  have k: "k = min (im_length i) ?n" "k < 128" using i(3) l u by (auto simp: k_def)
  have "take (k + 1) ((im_buffer i)[k := 0]) = take ?n (con_line s) @ [0]"
    using k i(2) by (simp add: take_snoc i(4) min.commute)
  then show ?thesis using i assms(3,4) k
    by (intro exI [of _ "i\<lparr>im_buffer := (im_buffer i)[k := 0]\<rparr>"]) (simp add: give_line_def Let_def flip: k_def)
qed


definition con_demo :: con_sys where
  "con_demo = fdemo_con\<lparr>con_input := Some \<lparr>im_ptr = 0, im_buf_ptr = 0, im_buffer = replicate 128 0, im_length = 0, im_capacity = 128\<rparr>\<rparr>"


end
