(* ===== verification/LoaderProps.thy ===== *)
theory LoaderProps
  imports VfsDemo
begin

text \<open>
  The bounds of the segments of an executable: without wrap-around every segment fits into the image, and with
  it the test of the code can be passed by a segment that does not.
\<close>

lemma min_minus_one [simp]: "min (-1) x = (x :: 'a :: len word)"
  by (rule min_absorb2) (rule word_n1_ge)

lemma load_range_bounds:
  "load_range phs base hi n = Some (b, h, k) \<Longrightarrow> b \<le> base \<and> hi \<le> h
     \<and> (\<forall>ph \<in> set phs. loadable ph \<longrightarrow> b \<le> p_vaddr ph \<and> p_vaddr ph + p_memsz ph \<le> h \<and> p_filesz ph \<le> p_memsz ph)"
proof (induction phs arbitrary: base hi n)
  case (Cons ph phs)
  show ?case
  proof (cases "loadable ph")
    case True
    then have "\<not> p_filesz ph > p_memsz ph" "load_range phs (min base (p_vaddr ph)) (max hi (p_vaddr ph + p_memsz ph)) (n + 1) = Some (b, h, k)"
      using Cons.prems by (auto split: if_splits)
    then show ?thesis using Cons.IH by fastforce
  qed (use Cons in auto)
qed simp

lemma segment_range:
  assumes "elf_parse_load_range phs = Some (base, hi)" "ph \<in> set phs" "loadable ph"
  shows "base \<le> p_vaddr ph" "p_vaddr ph + p_memsz ph \<le> hi" "p_filesz ph \<le> p_memsz ph"
  using assms load_range_bounds [of phs "-1" 0 0] by (auto simp: elf_parse_load_range_def split: option.splits if_splits)

lemma disk_put_fits: "off + length bs \<le> length img \<Longrightarrow>
    \<exists>img'. disk_put off bs img = Some img' \<and> length img' = length img \<and> take (length bs) (drop off img') = bs
      \<and> take off img' = take off img \<and> drop (off + length bs) img' = drop (off + length bs) img"
  by (simp add: disk_put_def overlay_def)


definition demo_segment :: "u64 \<Rightarrow> u64 \<Rightarrow> u64 \<Rightarrow> Elf64_Phdr" where
  "demo_segment va filesz memsz = \<lparr>p_type = 1, p_offset = 0x1000, p_vaddr = va, p_filesz = filesz, p_memsz = memsz\<rparr>"


text \<open>
  A segment whose size wraps around passes the test although its bytes do not fit into the image: the
  second segment starts at offset \<^verbatim>\<open>0x800\<close> of an image of \<^verbatim>\<open>0x1000\<close> bytes and has \<^verbatim>\<open>0x100000\<close> bytes in the file.
\<close>

lemma elf_wrapped_segment_escapes:
  "let a = demo_segment 0x1000 0x1000 0x1000; b = demo_segment 0x1800 0x100000 (- 0x100) in
   elf_parse_load_range [a, b] = Some (0x1000, 0x2000) \<and> p_vaddr b - 0x1000 + p_memsz b \<le> 0x2000 - 0x1000
   \<and> (\<forall>bs img. length bs = unat (p_filesz b) \<and> length img = 0x1000 \<longrightarrow> disk_put (unat (p_vaddr b - 0x1000)) bs img = None)"
  by (simp add: elf_parse_load_range_def loadable_def demo_segment_def max_def disk_put_def)

end
