(* ===== verification/ConfigProps.thy ===== *)
theory ConfigProps
  imports VfsDemo
begin

text \<open>Reading back a configuration text.\<close>

definition key_ok :: "u8 list \<Rightarrow> bool" where
  "key_ok k \<longleftrightarrow> k \<noteq> [] \<and> length k < MAX_KEY_LEN \<and> (\<forall>c \<in> set k. c \<noteq> EQ_CHAR \<and> c \<noteq> NEWLINE \<and> c \<noteq> HASH_CHAR \<and> c \<noteq> 0)"

definition val_ok :: "u8 list \<Rightarrow> bool" where
  "val_ok v \<longleftrightarrow> length v < MAX_VALUE_LEN \<and> (\<forall>c \<in> set v. c \<noteq> NEWLINE \<and> c \<noteq> HASH_CHAR \<and> c \<noteq> 0)"

text \<open>Lines of a configuration file: an entry, followed by a comment or not, or a line with a comment only.\<close>

datatype conf_line = Entry "u8 list" "u8 list" "u8 list option" | Comment "u8 list"

fun line_ok :: "conf_line \<Rightarrow> bool" where
  "line_ok (Entry k v c) \<longleftrightarrow> key_ok k \<and> val_ok v \<and> (case c of None \<Rightarrow> True | Some c \<Rightarrow> NEWLINE \<notin> set c)"
| "line_ok (Comment c) \<longleftrightarrow> NEWLINE \<notin> set c"

fun line_text :: "conf_line \<Rightarrow> u8 list" where
  "line_text (Entry k v c) = k @ [EQ_CHAR] @ v @ (case c of None \<Rightarrow> [] | Some c \<Rightarrow> HASH_CHAR # c) @ [NEWLINE]"
| "line_text (Comment c) = HASH_CHAR # c @ [NEWLINE]"

fun line_entry :: "conf_line \<Rightarrow> config" where
  "line_entry (Entry k v c) = [(k, v)]"
| "line_entry (Comment c) = []"

lemma takeWhile_stop: "\<forall>x \<in> set xs. P x \<Longrightarrow> \<not> P y \<Longrightarrow> takeWhile P (xs @ y # zs) = xs \<and> dropWhile P (xs @ y # zs) = y # zs"
  by (simp add: takeWhile_append2 dropWhile_append2)

lemma drop_to_newline: "NEWLINE \<notin> set c \<Longrightarrow> dropWhile (\<lambda>c. c \<noteq> NEWLINE) (c @ NEWLINE # rest) = NEWLINE # rest"
  by (induction c) auto

lemma config_line_entry:
  assumes "key_ok k" "val_ok v" "case c of None \<Rightarrow> True | Some c \<Rightarrow> NEWLINE \<notin> set c"
  shows "config_line (line_text (Entry k v c) @ rest) = (k, v, rest)"
proof -
  let ?tail = "(case c of None \<Rightarrow> [] | Some c \<Rightarrow> HASH_CHAR # c) @ NEWLINE # rest"
  let ?P = "\<lambda>c :: u8. c \<noteq> EQ_CHAR \<and> c \<noteq> NEWLINE \<and> c \<noteq> HASH_CHAR" and ?Q = "\<lambda>c :: u8. c \<noteq> NEWLINE \<and> c \<noteq> HASH_CHAR"
  have k: "takeWhile ?P (k @ EQ_CHAR # v @ ?tail) = k" "dropWhile ?P (k @ EQ_CHAR # v @ ?tail) = EQ_CHAR # v @ ?tail"
    using assms(1) takeWhile_stop [of k ?P EQ_CHAR "v @ ?tail"] by (auto simp: key_ok_def)
  obtain y zs where t: "?tail = y # zs" "\<not> ?Q y" by (cases c) auto
  have v: "takeWhile ?Q (v @ ?tail) = v" "dropWhile ?Q (v @ ?tail) = ?tail"
    using assms(2) takeWhile_stop [of v ?Q y zs] t by (auto simp: val_ok_def)
  have e: "dropWhile (\<lambda>c. c \<noteq> NEWLINE) ?tail = NEWLINE # rest"
    using assms(3) by (cases c) (simp_all add: drop_to_newline)
  have "line_text (Entry k v c) @ rest = k @ EQ_CHAR # v @ ?tail" by (cases c) auto
  then show ?thesis
    using assms(1,2) by (simp add: config_line_def Let_def k v e key_ok_def val_ok_def)
qed

lemma config_line_comment: "NEWLINE \<notin> set c \<Longrightarrow> config_line (line_text (Comment c) @ rest) = ([], [], rest)"
  by (simp add: config_line_def Let_def drop_to_newline)

lemma config_add_ok: "key_ok k \<Longrightarrow> val_ok v \<Longrightarrow> length es < 64 \<Longrightarrow> config_add k v es = es @ [(k, v)]"
  by (simp add: config_add_def upto_nul_def key_ok_def val_ok_def takeWhile_eq_all_conv [THEN iffD2])

lemma config_lines_text:
  "\<forall>l \<in> set ls. line_ok l \<Longrightarrow> length es + length (concat (map line_entry ls)) \<le> 64 \<Longrightarrow>
     config_lines (concat (map line_text ls)) es = es @ concat (map line_entry ls)"
proof (induction ls arbitrary: es)
  case Nil
  then show ?case by (simp add: config_lines.simps)
next
  case (Cons l ls)
  let ?rest = "concat (map line_text ls)"
  have ne: "line_text l @ ?rest \<noteq> []" by (cases l) auto
  show ?case
  proof (cases l)
    case (Entry k v c)
    then have o: "key_ok k" "val_ok v" "case c of None \<Rightarrow> True | Some c \<Rightarrow> NEWLINE \<notin> set c" "k \<noteq> []" using Cons.prems(1) by (auto simp: key_ok_def)
    have "config_lines (line_text l @ ?rest) es = config_lines ?rest (es @ [(k, v)])"
      using ne config_line_entry [OF o(1-3), of ?rest] o(4) config_add_ok [OF o(1,2)] Cons.prems(2) Entry
      by (subst config_lines.simps) simp
    also have "\<dots> = (es @ [(k, v)]) @ concat (map line_entry ls)" using Cons.prems Entry by (intro Cons.IH) auto
    finally show ?thesis using Entry by simp
  next
    case (Comment c)
    then have "config_lines (line_text l @ ?rest) es = config_lines ?rest es"
      using ne config_line_comment [of c ?rest] Cons.prems(1) by (subst config_lines.simps) simp
    then show ?thesis using Comment Cons by simp
  qed
qed

lemma config_get_map_of: "config_get k fb es = (case map_of es k of None \<Rightarrow> fb | Some v \<Rightarrow> v)"
  by (induction es) (auto simp: config_get_def)

text \<open>
  C35: A configuration file of lines \<^verbatim>\<open>key=value\<close>, with or without comments, is read back: after loading a module with at most 64 entries
  whose keys and values fit, every key has the value of its first line, and other keys the default.
\<close>

theorem config_roundtrip:
  assumes "limine_get_module ''kernel.conf'' mods = Some m" "mod_address m \<noteq> 0" "file_bytes m = concat (map line_text ls)"
    "\<forall>l \<in> set ls. line_ok l" "length (concat (map line_entry ls)) \<le> 64"
  shows "config_get k fb (loadConfig mods []) = (case map_of (concat (map line_entry ls)) k of None \<Rightarrow> fb | Some v \<Rightarrow> v)"
  using assms config_lines_text [of ls "[]"] by (simp add: loadConfig_def config_get_map_of)

theorem config_roundtrip_witness:
  "config_get [0x62] [0x7A] (loadConfig [\<lparr>mod_path = ''/boot/kernel.conf'', mod_address = 0x1000, file_bytes = [0x23, 0x68, 10, 0x62, 0x3D, 0x61, 0x74, 0x61, 0x23, 0x21, 10]\<rparr>] [])
     = [0x61, 0x74, 0x61]"
proof -
  let ?m = "\<lparr>mod_path = ''/boot/kernel.conf'', mod_address = 0x1000, file_bytes = [0x23, 0x68, 10, 0x62, 0x3D, 0x61, 0x74, 0x61, 0x23, 0x21, 10]\<rparr>"
  let ?ls = "[Comment [0x68], Entry [0x62] [0x61, 0x74, 0x61] (Some [0x21])]"
  have m: "limine_get_module ''kernel.conf'' [?m] = Some ?m" by (simp add: limine_get_module_def, rule bexI [of _ 6]) simp_all
  have "config_get [0x62] [0x7A] (loadConfig [?m] []) = (case map_of (concat (map line_entry ?ls)) [0x62] of None \<Rightarrow> [0x7A] | Some v \<Rightarrow> v)"
    by (rule config_roundtrip [OF m]) (simp_all add: key_ok_def val_ok_def)
  then show ?thesis by simp
qed

end
