(* ===== verification/FdProps.thy ===== *)
theory FdProps
  imports VfsDemo
begin

text \<open>
  Descriptors and processes: a process that does not own a descriptor gets an error from the
  calls that check the owner, and none of them changes anything. Duplicating a descriptor does not check the owner.
\<close>

section \<open>Error numbers\<close>

lemma vfs_err_small: "0 \<le> e \<Longrightarrow> e < 2 ^ 31 \<Longrightarrow> vfs_err e = - e"
proof -
  assume e: "0 \<le> e" "e < 2 ^ 31"
  have w: "serror e = word_of_int (- e)" by (simp add: serror_def)
  have "(ucast (serror e) :: u32) = word_of_int (- e)" unfolding w by (rule ucast_down_wi) (simp add: is_down)
  moreover have "sint (word_of_int (- e) :: u32) = - e" using e unfolding signed_of_int by (simp add: signed_take_bit_int_eq_self)
  ultimately show ?thesis by (simp only: vfs_err_def)
qed

lemma vfs_err_numeral [simp]: "vfs_err (numeral n) = - numeral n" if "(numeral n :: int) < 2 ^ 31"
  by (rule vfs_err_small) (use that in simp_all)

lemma word_of_err: "word_of_int (- e) = serror e"
  by (simp add: serror_def)

section \<open>The interface\<close>

primrec run_calls :: "('c \<Rightarrow> 'o \<Rightarrow> 's \<Rightarrow> ('r \<times> 's) option) \<Rightarrow> ('c \<times> 'o) list \<Rightarrow> 's \<Rightarrow> ('r list \<times> 's) option" where
  "run_calls f [] s = Some ([], s)"
| "run_calls f (c # cs) s = do { (r, s) \<leftarrow> f (fst c) (snd c) s; (rs, s) \<leftarrow> run_calls f cs s; Some (r # rs, s) }"

text \<open>
  Calls on objects that belong to somebody. A call on an object that is not the caller's is refused
  and has no effect; then a sequence of such calls has none.
\<close>

locale owned_objects =
  fixes call :: "'c \<Rightarrow> 'o \<Rightarrow> 's \<Rightarrow> ('r \<times> 's) option"
    and foreign :: "'o \<Rightarrow> 's \<Rightarrow> bool"
    and refused :: "'r \<Rightarrow> bool"
  assumes refuse: "foreign x s \<Longrightarrow> \<exists>r. call c x s = Some (r, s) \<and> refused r"
begin

lemma calls_refused: "\<forall>c \<in> set cs. foreign (snd c) s \<Longrightarrow> \<exists>rs. run_calls call cs s = Some (rs, s) \<and> length rs = length cs \<and> (\<forall>r \<in> set rs. refused r)"
proof (induction cs)
  case (Cons c cs)
  then obtain r rs where "call (fst c) (snd c) s = Some (r, s)" "refused r" "run_calls call cs s = Some (rs, s)" "length rs = length cs" "\<forall>r \<in> set rs. refused r"
    using refuse [of "snd c" s "fst c"] by auto
  then show ?case by simp
qed simp

end

section \<open>Descriptors of other processes\<close>

datatype fd_call = FRead u64 u64 | FWrite u64 u64 | FClose | FSeek u64 | FDents u64 u64 | FIoctl u64 u64
  | FBind u64 u64 | FListen | FAccept u64 u64 | FConnect u64 u64 | FSendTo u64 u64 u64 | FRecvFrom u64 u64 u64

fun fd_syscall :: "fd_call \<Rightarrow> u64 \<Rightarrow> 'a vfs_sys_scheme \<Rightarrow> (sysret \<times> 'a vfs_sys_scheme) option" where
  "fd_syscall (FRead buf n) fd s = sys_read fd buf n s"
| "fd_syscall (FWrite buf n) fd s = sys_write fd buf n s"
| "fd_syscall FClose fd s = rets (sys_close fd s)"
| "fd_syscall (FSeek off) fd s = rets (sys_lseek fd off s)"
| "fd_syscall (FDents buf n) fd s = rets (sys_getdents64 fd buf n s)"
| "fd_syscall (FIoctl req arg) fd s = rets (sys_ioctl fd req arg s)"
| "fd_syscall (FBind addr n) fd s = rets (sys_bind fd addr n s)"
| "fd_syscall FListen fd s = rets (Some (sys_listen fd s))"
| "fd_syscall (FAccept addr n) fd s = sys_accept fd addr n s"
| "fd_syscall (FConnect addr n) fd s = sys_connect fd addr n s"
| "fd_syscall (FSendTo buf n dest) fd s = sys_sendto fd buf n dest s"
| "fd_syscall (FRecvFrom buf n src) fd s = sys_recvfrom fd buf n src s"

text \<open>An open descriptor of another process, not one of the four special files that everybody may write.\<close>

definition foreign_fd :: "u64 \<Rightarrow> 'a vfs_sys_scheme \<Rightarrow> bool" where
  "foreign_fd fd s \<longleftrightarrow> 4 \<le> fd \<and> fd < of_nat MAX_OPEN_FILES
     \<and> (let f = open_files s (unat fd) in
        vf_exists f \<and> vf_pid f \<noteq> proc_get_current_pid s \<and> vf_pid f \<noteq> -1 \<and> \<not> vf_write_all f)"

definition fd_error :: "sysret \<Rightarrow> bool" where
  "fd_error r \<longleftrightarrow> (\<exists>e \<in> {EBADF, EACCES, EINVAL, EFAULT, ENOTDIR, ENOTSOCK}. r = Ret (serror e))"

lemma as_int_small: "fd < 100 \<Longrightarrow> as_int fd = int (unat fd)"
proof -
  assume "fd < 100"
  then have n: "unat fd < 100" by (simp add: word_less_nat_alt)
  have "(ucast fd :: u32) = of_nat (unat fd)" by simp
  then show ?thesis using sint_small [of "unat fd"] n unfolding as_int_def by simp
qed

lemma foreign_fdD:
  assumes "foreign_fd fd s"
  shows "\<not> bad_fd (as_int fd)" "vf_exists (file_at s (as_int fd))" "vf_pid (file_at s (as_int fd)) \<noteq> proc_get_current_pid s"
    "vf_pid (file_at s (as_int fd)) \<noteq> -1" "\<not> vf_write_all (file_at s (as_int fd))" "as_int fd = int (unat fd)" "\<not> big_fd fd" "fd \<noteq> 1" "fd \<noteq> 2"
proof -
  have f: "4 \<le> fd" "fd < 100" using assms by (auto simp: foreign_fd_def)
  then have a: "as_int fd = int (unat fd)" by (simp add: as_int_small)
  have n: "unat fd < 100" using f(2) by (simp add: word_less_nat_alt)
  have "\<not> (int (unat fd) < 0 \<or> int (unat fd) \<ge> int 100)" using n by linarith
  then show "\<not> bad_fd (as_int fd)" unfolding bad_fd_def a .
  show "\<not> big_fd fd" "as_int fd = int (unat fd)" using a f by (auto simp: big_fd_def)
  show "fd \<noteq> 1" "fd \<noteq> 2" using f(1) by (auto simp: word_le_nat_alt)
  show "vf_exists (file_at s (as_int fd))" "vf_pid (file_at s (as_int fd)) \<noteq> proc_get_current_pid s" "vf_pid (file_at s (as_int fd)) \<noteq> -1"
    "\<not> vf_write_all (file_at s (as_int fd))" using assms a by (auto simp: foreign_fd_def Let_def)
qed

lemma sock_fd_foreign: "foreign_fd fd s \<Longrightarrow> sock_fd_error (as_int fd) s = Some (- ENOTSOCK) \<or> sock_fd_error (as_int fd) s = Some (- EACCES)"
  using foreign_fdD(1-3) [of fd s] by (auto simp: sock_fd_error_def)

lemma fd_errorI: "e \<in> {EBADF, EACCES, EINVAL, EFAULT, ENOTDIR, ENOTSOCK} \<Longrightarrow> fd_error (Ret (serror e))"
  by (auto simp: fd_error_def)

lemma fd_error_neg: "e \<in> {EBADF, EACCES, EINVAL, EFAULT, ENOTDIR, ENOTSOCK} \<Longrightarrow> fd_error (Ret (- word_of_int e))"
  using fd_errorI [of e] by (simp only: serror_def)

lemma fd_syscall_refuses:
  assumes f: "foreign_fd fd s"
  shows "\<exists>r. fd_syscall c fd s = Some (r, s) \<and> fd_error r"
proof -
  note d = foreign_fdD(1-5,7-9) [OF f]
  note k = fd_error_neg [of EBADF] fd_error_neg [of EACCES] fd_error_neg [of ENOTSOCK] fd_error_neg [of ENOTDIR]
    fd_errorI [of EBADF] fd_errorI [of EINVAL] fd_errorI [of EFAULT]
  have S: "sock_fd_error (as_int fd) s = Some (- ENOTSOCK) \<or> sock_fd_error (as_int fd) s = Some (- EACCES)" using sock_fd_foreign [OF f] .
  show ?thesis
  proof (cases c)
    case (FRead buf n) then show ?thesis using d k by (simp add: sys_read_def VFS_Read_def Let_def store_user_def)
  next
    case (FWrite buf n) then show ?thesis using d k by (simp add: sys_write_def VFS_Write_def Let_def)
  next
    case FClose then show ?thesis using d k by (simp add: sys_close_def VFS_Close_def Let_def rets_def)
  next
    case (FSeek off) then show ?thesis using d k by (simp add: sys_lseek_def VFS_Set_Pos_def Let_def rets_def)
  next
    case (FDents buf n) then show ?thesis using d k by (simp add: sys_getdents64_def VFS_GetDents64_def Let_def rets_def)
  next
    case (FIoctl req arg) then show ?thesis using d k by (simp add: sys_ioctl_def VFS_ioctl_def Let_def rets_def)
  next
    case (FBind addr n) then show ?thesis using S k by (auto simp: sys_bind_def VFS_Bind_def rets_def)
  next
    case FListen then show ?thesis using S k by (auto simp: sys_listen_def VFS_Listen_def rets_def)
  next
    case (FAccept addr n) then show ?thesis using S k by (auto simp: sys_accept_def VFS_Accept_def)
  next
    case (FConnect addr n) then show ?thesis using S k by (auto simp: sys_connect_def VFS_Connect_def)
  next
    case (FSendTo buf n dest) then show ?thesis using S k by (auto simp: sys_sendto_def VFS_SendTo_def)
  next
    case (FRecvFrom buf n src) then show ?thesis using S k by (auto simp: sys_recvfrom_def VFS_RecvFrom_def)
  qed
qed

interpretation fd: owned_objects fd_syscall foreign_fd fd_error
  by unfold_locales (rule fd_syscall_refuses)



text \<open>
  The calls that duplicate a descriptor do not check the owner: a process that duplicates a socket of another process
  gets a descriptor of its own for the same socket, in the lowest free slot.
\<close>

theorem dup_takes_foreign_socket:
  assumes "foreign_fd fd s" "vf_is_socket (open_files s (unat fd))" "vf_path (open_files s (unat fd)) = None" "free_fd 0 s = Some i"
  shows "\<exists>t. sys_dup fd s = Some (of_nat i, t) \<and> \<not> foreign_fd (of_nat i) t
    \<and> open_files t = (open_files s)(i := (open_files s (unat fd))\<lparr>vf_file := 0, vf_pid := proc_get_current_pid s\<rparr>)
    \<and> unix_sock_id (open_files t i) = unix_sock_id (open_files s (unat fd))"
proof -
  have e: "vf_exists (open_files s (unat fd))" "\<not> big_fd fd" using assms(1) foreign_fdD(7) [OF assms(1)] by (auto simp: foreign_fd_def Let_def)
  have i: "i < 100" using assms(4) scan_SomeD [of _ 0 100 i] unfolding free_fd_def by blast
  then have u: "unat (of_nat i :: u64) = i" by (simp add: unat_of_nat take_bit_nat_eq_self)
  have p: "proc_get_current_pid (upd_file j f s) = proc_get_current_pid s" for j f by (simp add: proc_get_current_pid_def upd_file_def)
  show ?thesis using e assms(3,4)
    by (auto simp: sys_dup_def copy_fd_def upd_file_def foreign_fd_def u p proc_get_current_pid_def Let_def)
qed

theorem dup_takes_foreign_socket_witness:
  "\<exists>t. sys_dup 6 fdemo = Some (0, t) \<and> vf_pid (open_files t 0) = 1 \<and> unix_sock_id (open_files t 0) = 2"
proof -
  have f: "foreign_fd 6 fdemo" by (simp add: foreign_fd_def fdemo_pid fdemo_table_def fdemo_socket_def zero_file_def)
  have g: "vf_is_socket (open_files fdemo (unat (6 :: u64)))" "vf_path (open_files fdemo (unat (6 :: u64))) = None" "unix_sock_id (open_files fdemo (unat (6 :: u64))) = 2"
    by (simp_all add: fdemo_table_def fdemo_socket_def zero_file_def)
  have "free_fd 0 fdemo = Some 0" by (simp add: free_fd_def scan_Some_iff fdemo_table_def zero_file_def)
  from dup_takes_foreign_socket [OF f g(1,2) this] show ?thesis using g(3) by (auto simp: fdemo_pid)
qed

section \<open>Opening for writing\<close>



end
