(* ===== verification/VfsFileProps.thy ===== *)
theory VfsFileProps
  imports FdProps
begin

text \<open>
  Writing and reading files through descriptors: the properties of the ext2 driver carried over to the
  calls of the virtual file system.
\<close>

section \<open>The store of file systems\<close>

lemma load_save_fs [simp]: "load_fs p (save_fs p fs s) = Some fs"
  by (simp add: load_fs_def save_fs_def save_disk_def load_disk_def)

lemma load_fs_file_store [simp]: "load_fs p (s\<lparr>file_store := x\<rparr>) = load_fs p s"
  by (simp add: load_fs_def load_disk_def)

lemma save_fs_fields [simp]:
  "open_files (save_fs p fs s) = open_files s" "file_store (save_fs p fs s) = file_store s" "current_proc (save_fs p fs s) = current_proc s"
  "proc_table (save_fs p fs s) = proc_table s" "mount_table (save_fs p fs s) = mount_table s" "rootfs (save_fs p fs s) = rootfs s" "users (save_fs p fs s) = users s"
  by (simp_all add: save_fs_def save_disk_def)

lemma heap_owns_stores [simp]:
  "heap_owns (save_fs p fs s) A = heap_owns s A" "heap_owns (s\<lparr>file_store := x\<rparr>) A = heap_owns s A" "heap_owns (s\<lparr>open_files := y\<rparr>) A = heap_owns s A"
  by (simp_all add: heap_owns_def heap_inv_def save_fs_def save_disk_def)

lemma mounted_ok_stores [simp]:
  "mounted_ok F gs (save_fs p fs s) = mounted_ok F gs s" "mounted_ok F gs (s\<lparr>file_store := x\<rparr>) = mounted_ok F gs s"
  by (simp_all add: mounted_ok_def cache_inv_def ptr_mem_def)

lemma pid_cong: "current_proc t = current_proc s \<Longrightarrow> proc_table t = proc_table s \<Longrightarrow> proc_get_current_pid t = proc_get_current_pid s"
  by (simp add: proc_get_current_pid_def)

section \<open>Reading back\<close>

text \<open>An open file of the running process, which is not a device.\<close>

definition own_file :: "int \<Rightarrow> 'a vfs_sys_scheme \<Rightarrow> bool" where
  "own_file fd s \<longleftrightarrow> \<not> bad_fd fd \<and> vf_exists (file_at s fd) \<and> \<not> vf_is_socket (file_at s fd) \<and> \<not> vf_is_dev (file_at s fd)
     \<and> vf_file (file_at s fd) \<noteq> 0 \<and> vf_flags (file_at s fd) \<noteq> KERNEL \<and> vf_pid (file_at s fd) = proc_get_current_pid s"

lemma own_file_cong:
  "own_file fd s \<Longrightarrow> open_files t = open_files s \<Longrightarrow> current_proc t = current_proc s \<Longrightarrow> proc_table t = proc_table s \<Longrightarrow> own_file fd t"
  using pid_cong [of t s] by (simp add: own_file_def)

lemma VFS_Write_own:
  assumes "own_file fd s" "vf_path (file_at s fd) = Some (KString name)" "user_is_root s (vfs_caller_uid s)"
    "file_store s (vf_file (file_at s fd)) = Some (p, e)" "load_fs p s = Some fs" "ext2_write e bs fs s = Some (r, e', fs', s')"
    "length bs = unat n" "ucast (ucast n :: u32) = n"
  shows "VFS_Write fd n (KBytes bs) False s
    = Some (SDone (if r < 0 then - EIO else r), (save_fs p fs' s')\<lparr>file_store := (file_store s')(vf_file (file_at s fd) \<mapsto> (p, e'))\<rparr>)"
  using assms by (simp add: own_file_def VFS_Write_def write_file_def file_call_def fetch_buf_def null_buf_def path_str_def vfs_access_ok_def Let_def split_beta)

lemma VFS_Read_own:
  assumes "own_file fd s" "file_store s (vf_file (file_at s fd)) = Some (p, e)" "load_fs p s = Some fs"
    "ext2_read e (ucast n) fs s = Some (r, bs, e', fs', s')"
  shows "VFS_Read fd n 1 s
    = Some (SDone (if r < 0 then - EIO else r), bs, (save_fs p fs' s')\<lparr>file_store := (file_store s')(vf_file (file_at s fd) \<mapsto> (p, e'))\<rparr>)"
  using assms by (simp add: own_file_def VFS_Read_def read_file_def file_call_def Let_def split_beta)

lemma sint_small_64: "n < 2 ^ 63 \<Longrightarrow> sint (of_nat n :: u64) = int n"
  by (simp add: signed_of_nat signed_take_bit_int_eq_self)

lemma VFS_Set_Pos_own:
  assumes "own_file fd s" "file_store s (vf_file (file_at s fd)) = Some (p, e)"
  shows "VFS_Set_Pos fd pos False s = Some (0, s\<lparr>file_store := (file_store s)(vf_file (file_at s fd) \<mapsto> (p, e\<lparr>position := ucast pos\<rparr>))\<rparr>)"
proof -
  have "unat pos < 2 ^ 63" using unsigned_less [of pos, where 'a = nat] by simp
  from sint_small_64 [OF this] have "\<not> sint (ucast pos :: u64) < 0" by simp
  then show ?thesis using assms by (simp add: own_file_def VFS_Set_Pos_def ext2_seek_def Let_def)
qed



end
