(* ===== verification/FormatProps.thy ===== *)
theory FormatProps
  imports VfsDemo
begin

text \<open>
  Formatting a disk and mounting it. The lemmas on the formatter are proved in the interface
  \<open>block_store\<close> of the device: a step writes certain blocks of 1024 bytes and leaves the others and the heap as they were.
\<close>

section \<open>The steps of the formatter\<close>

definition dev_block :: "('d block_device \<Rightarrow> nat \<Rightarrow> u8 list) \<Rightarrow> 'd block_device \<Rightarrow> nat \<Rightarrow> u8 list" where
  "dev_block sec dev b = sec dev (2 * b) @ sec dev (2 * b + 1)"

text \<open>\<open>f\<close> returns, keeps the heap and, if it succeeds, changes the blocks of the device by \<open>upd\<close>.\<close>

definition formats ::
    "('d block_device \<Rightarrow> bool) \<Rightarrow> ('d block_device \<Rightarrow> nat \<Rightarrow> u8 list) \<Rightarrow> ((nat \<Rightarrow> u8 list) \<Rightarrow> nat \<Rightarrow> u8 list)
     \<Rightarrow> ('d block_device \<Rightarrow> 'a heap_scheme \<Rightarrow> (bool \<times> 'd block_device \<times> 'a heap_scheme) option) \<Rightarrow> bool" where
  "formats good sec upd f \<longleftrightarrow> (\<forall>F dev s. good dev \<and> sector_size dev = 512 \<and> heap_owns s F \<longrightarrow>
     (\<exists>ok dev' s'. f dev s = Some (ok, dev', s') \<and> good dev' \<and> sector_size dev' = 512 \<and> heap_owns s' F
        \<and> (ok \<longrightarrow> dev_block sec dev' = upd (dev_block sec dev))))"

lemma heap_scratch:
  assumes "heap_owns s F" "n \<noteq> 0" "unat n \<le> 2 ^ 64 - 16"
  shows "kmalloc n s = Some (0, s) \<or> (\<exists>p t k. kmalloc n s = Some (p, t) \<and> p \<noteq> 0 \<and> unat n \<le> k \<and> (unat p, k) \<notin> F \<and> heap_owns t (insert (unat p, k) F))"
  using kheap.malloc_total [OF assms] by metis

lemma heap_release:
  assumes "heap_owns s (insert (unat p, k) F)" "(unat p, k) \<notin> F"
  shows "\<exists>t. kfree p s = Some t \<and> heap_owns t F"
proof -
  have "insert (unat p, k) F - {(unat p, k)} = F" using assms(2) by blast
  then show ?thesis using kheap.free_law [OF assms(1) insertI1] by metis
qed

context block_store
begin

lemma fmt_write:
  assumes "good dev" "sector_size dev = 512" "unat blk < 2 ^ 20" "length data = 1024"
  shows "\<exists>ok dev'. fmt_write_block dev blk data = Some (ok, dev') \<and> good dev' \<and> sector_size dev' = 512
    \<and> (ok \<longrightarrow> dev_block sector dev' = (dev_block sector dev)(unat blk := data))"
proof -
  have u: "unat (ucast blk * 2 :: u64) = 2 * unat blk"
    using assms(3) by (simp add: unat_word_ariths unat_ucast_64 mult.commute)
  have l: "unat (ucast blk * 2 :: u64) + unat (2 :: u32) \<le> 2 ^ 32" "length data = unat (2 :: u32) * unat (sector_size dev)"
    using u assms by simp_all
  show ?thesis using write_law [OF assms(1) l]
  proof (elim disjE exE conjE)
    assume "dev_write dev (ucast blk * 2) 2 data = Some None"
    then show ?thesis using assms(1,2) by (auto simp: fmt_write_block_def)
  next
    fix dev' assume w: "dev_write dev (ucast blk * 2) 2 data = Some (Some dev')" "good dev'" "sector_size dev' = sector_size dev"
      and sec: "\<forall>i. sector dev' i = (if unat (ucast blk * 2 :: u64) \<le> i \<and> i < unat (ucast blk * 2 :: u64) + unat (2 :: u32)
        then take (unat (sector_size dev)) (drop ((i - unat (ucast blk * 2 :: u64)) * unat (sector_size dev)) data) else sector dev i)"
    have "dev_block sector dev' b = ((dev_block sector dev)(unat blk := data)) b" for b
    proof (cases "b = unat blk")
      case True
      have "take 512 (drop 512 data) = drop 512 data" using assms(4) by simp
      then show ?thesis using True assms(2,4) by (simp add: dev_block_def sec u)
    next
      case False
      then have "\<not> (2 * unat blk \<le> 2 * b \<and> 2 * b < 2 * unat blk + 2)" "\<not> (2 * unat blk \<le> 2 * b + 1 \<and> 2 * b + 1 < 2 * unat blk + 2)" by auto
      then show ?thesis using False unfolding dev_block_def sec [rule_format] u by auto
    qed
    then show ?thesis using w assms(2) by (intro exI [of _ True] exI [of _ dev']) (auto simp: fmt_write_block_def)
  qed
qed

lemma formats_put:
  assumes "unat blk < 2 ^ 20" "data = Some bs" "length bs = 1024"
  shows "formats good sector (\<lambda>c. c(unat blk := bs)) (fmt_put blk data)"
  unfolding formats_def
proof (intro allI impI, elim conjE)
  fix F and dev :: "'d block_device" and s :: "'a heap_scheme"
  assume d: "good dev" "sector_size dev = 512" "heap_owns s F"
  have n: "(1024 :: u64) \<noteq> 0" "unat (1024 :: u64) \<le> 2 ^ 64 - 16" by simp_all
  obtain ok dev' where w: "fmt_write_block dev blk bs = Some (ok, dev')" "good dev'" "sector_size dev' = 512"
    "ok \<longrightarrow> dev_block sector dev' = (dev_block sector dev)(unat blk := bs)" using fmt_write [OF d(1,2) assms(1,3)] by blast
  show "\<exists>ok dev' s'. fmt_put blk data dev s = Some (ok, dev', s') \<and> good dev' \<and> sector_size dev' = 512 \<and> heap_owns s' F
      \<and> (ok \<longrightarrow> dev_block sector dev' = (dev_block sector dev)(unat blk := bs))"
    using heap_scratch [OF d(3) n]
  proof (elim disjE exE conjE)
    fix p t k assume p: "kmalloc 1024 s = Some (p, t)" "p \<noteq> 0" "(unat p, k) \<notin> F" "heap_owns t (insert (unat p, k) F)"
    obtain t' where "kfree p t = Some t'" "heap_owns t' F" using heap_release [OF p(4,3)] by blast
    then show ?thesis using p w assms(2) by (simp add: fmt_put_def)
  qed (use d in \<open>auto simp: fmt_put_def\<close>)
qed

lemma formats_then:
  assumes "formats good sector u f" "formats good sector v g"
  shows "formats good sector (\<lambda>c. v (u c)) (\<lambda>dev s. fmt_then g (f dev s))"
  unfolding formats_def
proof (intro allI impI, elim conjE)
  fix F and dev :: "'d block_device" and s :: "'a heap_scheme"
  assume d: "good dev" "sector_size dev = 512" "heap_owns s F"
  obtain ok dev' s' where f: "f dev s = Some (ok, dev', s')" "good dev'" "sector_size dev' = 512" "heap_owns s' F" "ok \<longrightarrow> dev_block sector dev' = u (dev_block sector dev)"
    using assms(1) d unfolding formats_def by blast
  obtain ok2 dev2 s2 where g: "g dev' s' = Some (ok2, dev2, s2)" "good dev2" "sector_size dev2 = 512" "heap_owns s2 F" "ok2 \<longrightarrow> dev_block sector dev2 = v (dev_block sector dev')"
    using assms(2) f(2-4) unfolding formats_def by blast
  show "\<exists>ok dev' s'. fmt_then g (f dev s) = Some (ok, dev', s') \<and> good dev' \<and> sector_size dev' = 512 \<and> heap_owns s' F
      \<and> (ok \<longrightarrow> dev_block sector dev' = v (u (dev_block sector dev)))"
    using f g by (cases ok) (auto simp: fmt_then_def)
qed

lemma fmt_table:
  assumes "good dev" "sector_size dev = 512" "length table = n * 1024" "a + m \<le> n" "n < 2 ^ 19"
  shows "\<exists>ok dev'. fmt_table_blocks [a..<a + m] table dev = Some (ok, dev') \<and> good dev' \<and> sector_size dev' = 512
    \<and> (ok \<longrightarrow> dev_block sector dev' = (\<lambda>b. if 5 + a \<le> b \<and> b < 5 + a + m then take 1024 (drop ((b - 5) * 1024) table) else dev_block sector dev b))"
  using assms(1,2,4)
proof (induction m arbitrary: a dev)
  case 0 then show ?case by (intro exI [of _ True] exI [of _ dev]) (auto simp: fun_eq_iff)
next
  case (Suc m)
  let ?bs = "take 1024 (drop (a * 1024) table)" and ?blk = "5 + of_nat a :: u32"
  have a: "Suc a \<le> n" "Suc a + m \<le> n" using Suc.prems(3) by simp_all
  then have "Suc a * 1024 \<le> n * 1024" by (intro mult_le_mono1)
  then have l: "length ?bs = 1024" using assms(3) by simp
  have u: "unat ?blk = 5 + a" using a assms(5) by (simp add: unat_word_ariths unat_of_nat take_bit_nat_eq_self)
  then have "unat ?blk < 2 ^ 20" using a assms(5) by simp
  then obtain ok dev' where w: "fmt_write_block dev ?blk ?bs = Some (ok, dev')" "good dev'" "sector_size dev' = 512"
    "ok \<longrightarrow> dev_block sector dev' = (dev_block sector dev)(5 + a := ?bs)" using fmt_write [OF Suc.prems(1,2) _ l, of ?blk] u by auto
  obtain ok2 dev2 where r: "fmt_table_blocks [Suc a..<Suc a + m] table dev' = Some (ok2, dev2)" "good dev2" "sector_size dev2 = 512"
    "ok2 \<longrightarrow> dev_block sector dev2 = (\<lambda>b. if 5 + Suc a \<le> b \<and> b < 5 + Suc a + m then take 1024 (drop ((b - 5) * 1024) table) else dev_block sector dev' b)"
    using Suc.IH [OF w(2,3) a(2)] by blast
  have up: "[a..<a + Suc m] = a # [Suc a..<Suc a + m]" by (simp add: upt_conv_Cons)
  show ?case
  proof (cases ok)
    case True
    then have "ok2 \<longrightarrow> dev_block sector dev2 = (\<lambda>b. if 5 + a \<le> b \<and> b < 5 + a + Suc m then take 1024 (drop ((b - 5) * 1024) table) else dev_block sector dev b)"
      using r(4) w(4) by (auto simp: fun_eq_iff)
    then show ?thesis using True w(1) r(1-3) unfolding up by simp
  next
    case False then show ?thesis unfolding up using w by auto
  qed
qed

lemma formats_table:
  assumes "unat (fl_table l) \<noteq> 0" "unat (fl_table l) < 2 ^ 19" "length (fmt_inode_table l) = unat (fl_table l) * 1024"
  shows "formats good sector (\<lambda>c b. if 5 \<le> b \<and> b < 5 + unat (fl_table l) then take 1024 (drop ((b - 5) * 1024) (fmt_inode_table l)) else c b) (fmt_put_table l)"
  unfolding formats_def
proof (intro allI impI, elim conjE)
  fix F and dev :: "'d block_device" and s :: "'a heap_scheme"
  let ?T = "unat (fl_table l)"
  assume d: "good dev" "sector_size dev = 512" "heap_owns s F"
  have "unat (ucast (fl_table l * 1024) :: u64) = ?T * 1024" using assms(2) by (simp add: unat_word_ariths)
  then have n: "(ucast (fl_table l * 1024) :: u64) \<noteq> 0" "unat (ucast (fl_table l * 1024) :: u64) \<le> 2 ^ 64 - 16"
    using assms(1,2) by (auto simp: unat_eq_0 [symmetric])
  obtain ok dev' where w: "fmt_table_blocks [0..<?T] (fmt_inode_table l) dev = Some (ok, dev')" "good dev'" "sector_size dev' = 512"
    "ok \<longrightarrow> dev_block sector dev' = (\<lambda>b. if 5 \<le> b \<and> b < 5 + ?T then take 1024 (drop ((b - 5) * 1024) (fmt_inode_table l)) else dev_block sector dev b)"
    using fmt_table [OF d(1,2) assms(3), of 0 ?T] assms(2) by auto
  show "\<exists>ok dev' s'. fmt_put_table l dev s = Some (ok, dev', s') \<and> good dev' \<and> sector_size dev' = 512 \<and> heap_owns s' F
      \<and> (ok \<longrightarrow> dev_block sector dev' = (\<lambda>b. if 5 \<le> b \<and> b < 5 + ?T then take 1024 (drop ((b - 5) * 1024) (fmt_inode_table l)) else dev_block sector dev b))"
    using heap_scratch [OF d(3) n]
  proof (elim disjE exE conjE)
    fix p t k assume p: "kmalloc (ucast (fl_table l * 1024)) s = Some (p, t)" "p \<noteq> 0" "(unat p, k) \<notin> F" "heap_owns t (insert (unat p, k) F)"
    obtain t' where "kfree p t = Some t'" "heap_owns t' F" using heap_release [OF p(4,3)] by blast
    then show ?thesis using p w by (simp add: fmt_put_table_def)
  qed (use d in \<open>auto simp: fmt_put_table_def\<close>)
qed

end

section \<open>What is written\<close>

lemma fmt_layout_facts:
  assumes "16 \<le> unat n" "unat n \<le> 8192"
  defines "l \<equiv> fmt_layout_of n"
  shows "fl_blocks l = n" "unat (fl_group l) = unat n - 1" "16 \<le> unat (fl_inodes l)" "unat (fl_inodes l) \<le> 2060"
    "unat (fl_table l) = (unat (fl_inodes l) * 128 + 1023) div 1024" "unat (fl_overhead l) = 5 + unat (fl_table l)"
proof -
  have m: "unat (n - 1) = unat n - 1" using assms(1) by (intro unat_minus_one) auto
  then have g: "\<not> n - 1 > 8192" using assms(2) by (simp add: word_less_nat_alt)
  have q: "unat ((n - 1) div 4 + 7) = (unat n - 1) div 4 + 7" using assms(2) m by (simp add: unat_word_ariths)
  have "(n - 1) div 4 + 7 AND NOT 7 \<le> (n - 1) div 4 + 7" by (rule word_and_le2)
  then have i: "unat ((n - 1) div 4 + 7 AND NOT 7) \<le> 2060" using q assms(2) by (simp add: word_le_nat_alt)
  define w where "w = (if ((n - 1) div 4 + 7) AND NOT 7 < 16 then 16 else ((n - 1) div 4 + 7) AND NOT 7)"
  have w: "16 \<le> unat w" "unat w \<le> 2060" using i by (auto simp: w_def word_less_nat_alt not_less)
  then have nw: "\<not> w > 8192" by (simp add: word_less_nat_alt)
  have l: "l = \<lparr>fl_blocks = n, fl_group = n - 1, fl_inodes = w, fl_table = (w * 128 + 1024 - 1) div 1024, fl_overhead = 4 + (w * 128 + 1024 - 1) div 1024 + 1\<rparr>"
    unfolding l_def fmt_layout_of_def Let_def if_not_P [OF g] w_def [symmetric] if_not_P [OF nw] ..
  have "unat (w * 128 + 1024 - 1) = unat w * 128 + 1023" using w(2) by (simp add: unat_word_ariths)
  then have t: "unat ((w * 128 + 1024 - 1) div 1024) = (unat w * 128 + 1023) div 1024" by (simp add: unat_div)
  then have "unat ((w * 128 + 1024 - 1) div 1024) \<le> 300" using w(2) by simp
  then have "unat (4 + (w * 128 + 1024 - 1) div 1024 + 1) = 5 + unat ((w * 128 + 1024 - 1) div 1024)" by (simp add: unat_word_ariths)
  then show "fl_blocks l = n" "unat (fl_group l) = unat n - 1" "16 \<le> unat (fl_inodes l)" "unat (fl_inodes l) \<le> 2060"
    "unat (fl_table l) = (unat (fl_inodes l) * 128 + 1023) div 1024" "unat (fl_overhead l) = 5 + unat (fl_table l)"
    using m w t unfolding l by simp_all
qed

lemma fmt_superblock_of:
  "superblock_of (fmt_superblock l) = \<lparr>s_inodes_count = fl_inodes l, s_blocks_count = fl_blocks l, s_free_blocks_count = fl_group l - fl_overhead l,
     s_free_inodes_count = fl_inodes l - 10, s_first_data_block = 1, s_log_block_size = 0, s_blocks_per_group = 8192,
     s_inodes_per_group = fl_inodes l, s_magic = EXT2_SUPER_MAGIC, s_inode_size = 128\<rparr>"
  "length (fmt_superblock l) = 1024"
  by (simp_all add: superblock_of_def fmt_superblock_def overlay_def dec32_def dec16_def le_val_enc)

lemma fmt_group_desc_of:
  "group_desc_of (take 32 (fmt_group_desc l)) = \<lparr>bg_block_bitmap = 3, bg_inode_bitmap = 4, bg_inode_table = 5, bg_free_blocks_count = ucast (fl_group l - fl_overhead l),
     bg_free_inodes_count = ucast (fl_inodes l - 10), bg_used_dirs_count = 1, bg_pad = 0, bg_reserved = replicate 12 0\<rparr>"
  "length (fmt_group_desc l) = 1024"
  by (simp_all add: group_desc_of_def fmt_group_desc_def overlay_def dec32_def dec16_def le_val_enc numeral_2_eq_2)

lemma fmt_bits_spec:
  "\<forall>i \<in> set is. i < 8 * length bm \<Longrightarrow>
     \<exists>bm'. fmt_bits is bm = Some bm' \<and> length bm' = length bm \<and> (\<forall>j < 8 * length bm. bit_of bm' j \<longleftrightarrow> bit_of bm j \<or> j \<in> set is)"
proof (induction "is" arbitrary: bm)
  case (Cons i "is")
  let ?bm = "bm[i div 8 := bm ! (i div 8) OR push_bit (i mod 8) 1]"
  have i: "i div 8 < length bm" using Cons.prems by (auto simp: less_mult_imp_div_less mult.commute)
  have b: "bit_of ?bm j \<longleftrightarrow> bit_of bm j \<or> j = i" if "j < 8 * length bm" for j
  proof (cases "j div 8 = i div 8")
    case True
    then have "j = i \<longleftrightarrow> j mod 8 = i mod 8" by (metis div_mult_mod_eq)
    moreover have "j mod 8 < 8" "i mod 8 < 8" by simp_all
    ultimately show ?thesis using True i by (auto simp: bit_of_def bit_simps)
  next
    case False then show ?thesis using i by (auto simp: bit_of_def)
  qed
  obtain bm' where "fmt_bits is ?bm = Some bm'" "length bm' = length bm" "\<forall>j < 8 * length bm. bit_of bm' j \<longleftrightarrow> bit_of ?bm j \<or> j \<in> set is"
    using Cons.IH [of ?bm] Cons.prems by auto
  then show ?case using i b by (auto simp: fmt_bitmap_set_def get8_def)
qed simp

lemma bit_of_zero: "j < 8 * n \<Longrightarrow> \<not> bit_of (replicate n 0) j"
  by (simp add: bit_of_def less_mult_imp_div_less mult.commute)

lemma fmt_block_bitmap_bits:
  assumes "unat (fl_overhead l) \<le> 8192"
  shows "\<exists>bm. fmt_block_bitmap l = Some bm \<and> length bm = 1024
    \<and> (\<forall>j < 8192. bit_of bm j \<longleftrightarrow> j < unat (fl_overhead l) \<or> unat (fl_group l) \<le> j)"
proof -
  let ?is = "[0..<unat (fl_overhead l)] @ [unat (fl_group l)..<8192]" and ?z = "replicate 1024 0 :: u8 list"
  have "\<forall>i \<in> set ?is. i < 8 * length ?z" using assms by auto
  then obtain bm where "fmt_bits ?is ?z = Some bm" "length bm = length ?z" "\<forall>j < 8 * length ?z. bit_of bm j \<longleftrightarrow> bit_of ?z j \<or> j \<in> set ?is"
    using fmt_bits_spec [of ?is ?z] by blast
  then show ?thesis using bit_of_zero [of _ 1024] by (intro exI [of _ bm]) (auto simp: fmt_block_bitmap_def)
qed

lemma fmt_inode_bitmap_some: "\<exists>bm. fmt_inode_bitmap l = Some bm \<and> length bm = 1024"
proof -
  let ?is = "[0..<10] @ [unat (fl_inodes l)..<8192]" and ?z = "replicate 1024 0 :: u8 list"
  have "\<forall>i \<in> set ?is. i < 8 * length ?z" by auto
  then obtain bm where "fmt_bits ?is ?z = Some bm" "length bm = length ?z"
    using fmt_bits_spec [of ?is ?z] by blast
  then show ?thesis by (simp add: fmt_inode_bitmap_def del: upt_rec_numeral)
qed

lemma fmt_root_ok: "inode_ok (fmt_root_inode l)"
  by (simp add: inode_ok_def fmt_root_inode_def zero_inode_def)

lemma fmt_inode_table_length:
  assumes "unat (fl_table l) \<noteq> 0" shows "length (fmt_inode_table l) = unat (fl_table l) * 1024"
  using assms by (simp add: fmt_inode_table_def overlay_def inode_bytes_length fmt_root_ok)

lemma dot_entries_length: "length (dot_entries 1024 2 2) = 1024"
  by (simp add: dot_entries_def overlay_def entry_bytes_def)

text \<open>A device that holds what the formatter writes.\<close>

definition formatted :: "('d block_device \<Rightarrow> nat \<Rightarrow> u8 list) \<Rightarrow> 'd block_device \<Rightarrow> fmt_layout \<Rightarrow> bool" where
  "formatted sec dev l \<longleftrightarrow> dev_block sec dev 1 = fmt_superblock l \<and> dev_block sec dev 2 = fmt_group_desc l
     \<and> fmt_block_bitmap l = Some (dev_block sec dev 3) \<and> fmt_inode_bitmap l = Some (dev_block sec dev 4)
     \<and> (\<forall>b. 5 \<le> b \<and> b < 5 + unat (fl_table l) \<longrightarrow> dev_block sec dev b = take 1024 (drop ((b - 5) * 1024) (fmt_inode_table l)))
     \<and> dev_block sec dev (5 + unat (fl_table l)) = dot_entries 1024 2 2"

context block_store
begin

lemma format_writes:
  assumes n: "16 \<le> unat n" "unat n \<le> 8192" and d: "good dev" "sector_size dev = 512" "heap_owns s F"
  shows "\<exists>ok dev' s'. fmt_write_all (fmt_layout_of n) dev s = Some (ok, dev', s') \<and> good dev' \<and> sector_size dev' = 512 \<and> heap_owns s' F
    \<and> (ok \<longrightarrow> formatted sector dev' (fmt_layout_of n))"
proof -
  let ?l = "fmt_layout_of n"
  let ?T = "unat (fl_table ?l)"
  note L = fmt_layout_facts [OF n]
  have T: "?T \<noteq> 0" "?T \<le> 300" "?T < 2 ^ 19" using L(3,4) unfolding L(5) by auto
  then have u: "unat (5 + fl_table ?l) = 5 + ?T" by (simp add: unat_word_ariths)
  obtain bm where bm: "fmt_block_bitmap ?l = Some bm" "length bm = 1024" using fmt_block_bitmap_bits [of ?l] L(6) T(2) by auto
  obtain im where im: "fmt_inode_bitmap ?l = Some im" "length im = 1024" using fmt_inode_bitmap_some by blast
  have p: "formats good sector (\<lambda>c. c(unat blk := bs)) (fmt_put blk (Some bs))" if "unat blk < 2 ^ 20" "length bs = 1024" for blk bs
    using formats_put that by blast
  note table = formats_table [OF T(1,3) fmt_inode_table_length [OF T(1)]]
  note all = formats_then [OF formats_then [OF formats_then [OF formats_then [OF formats_then [OF p [of 1 "fmt_superblock ?l"] p [of 2 "fmt_group_desc ?l"]]
    p [of 3 bm]] p [of 4 im]] table] p [of "5 + fl_table ?l" "dot_entries 1024 2 2"]]
  obtain ok dev' s' where r: "fmt_write_all ?l dev s = Some (ok, dev', s')" "good dev'" "sector_size dev' = 512" "heap_owns s' F"
    and b: "ok \<longrightarrow> dev_block sector dev' = (\<lambda>b. if 5 \<le> b \<and> b < 5 + ?T then take 1024 (drop ((b - 5) * 1024) (fmt_inode_table ?l))
        else ((dev_block sector dev)(1 := fmt_superblock ?l, 2 := fmt_group_desc ?l, 3 := bm, 4 := im)) b)(5 + ?T := dot_entries 1024 2 2)"
    using all d T(2) u unfolding formats_def fmt_write_all_def bm(1) im(1)
    by (simp add: fmt_superblock_of fmt_group_desc_of bm im dot_entries_length cong: if_cong) blast
  then show ?thesis using bm im by (intro exI [of _ ok] exI [of _ dev'] exI [of _ s']) (auto simp: formatted_def)
qed

end

section \<open>Mounting\<close>

text \<open>The file system that is mounted.\<close>

definition fmt_fs :: "u64 \<Rightarrow> u64 \<Rightarrow> 'd block_device \<Rightarrow> fmt_layout \<Rightarrow> 'd ext2_fs" where
  "fmt_fs fp gp dev l = \<lparr>fs_ptr = fp, fs_device = dev, superblock = superblock_of (fmt_superblock l), group_desc_ptr = gp,
     group_desc = [group_desc_of (take 32 (fmt_group_desc l))], block_size = 1024, inode_size = 128, num_groups = 1, first_data_block = 1,
     cache = [], cache_size = 0, max_cache_entries = EXT2_CACHE_SIZE\<rparr>"

lemma fmt_geometry:
  assumes "16 \<le> unat (fl_blocks l)" "unat (fl_blocks l) \<le> 8192"
  shows "fs_geometry fp dev (superblock_of (fmt_superblock l)) = Some ((fmt_fs fp 0 dev l)\<lparr>group_desc := []\<rparr>)"
proof -
  have "unat (fl_blocks l + 8191) = unat (fl_blocks l) + 8191" using assms by (simp add: unat_word_ariths)
  then have "unat ((fl_blocks l + 8191) div 8192) = 1" using assms by (simp add: unat_div)
  then have "(fl_blocks l + 8191) div 8192 = 1" by (metis unat_1 word_unat_eq_iff)
  then have "(8191 + fl_blocks l) div 8192 = 1" by (simp add: add.commute)
  then show ?thesis by (simp add: fs_geometry_def fmt_superblock_of fmt_fs_def udiv_def)
qed

context block_store
begin

lemma fmt_dblock: "sector_size (fs_device fs) = 512 \<Longrightarrow> block_size fs = 1024 \<Longrightarrow> dblock sector fs b = dev_block sector (fs_device fs) (unat b)"
proof -
  assume "sector_size (fs_device fs) = 512" "block_size fs = 1024"
  then have "spb fs = 2" by (simp add: spb_def)
  then show ?thesis by (simp add: dblock_def dev_block_def mult.commute upt_rec)
qed

lemma mount_groups_format:
  assumes d: "good dev" "sector_size dev = 512" "formatted sector dev l" and h: "heap_owns s (insert (unat fp, k) F)" "(unat fp, k) \<notin> F"
  shows "\<exists>t. mount_groups ((fmt_fs fp 0 dev l)\<lparr>group_desc := []\<rparr>) s = Some (None, t) \<and> heap_owns t F
    \<or> (\<exists>gp j. mount_groups ((fmt_fs fp 0 dev l)\<lparr>group_desc := []\<rparr>) s = Some (Some (fmt_fs fp gp dev l), t)
         \<and> heap_owns t (insert (unat gp, j) (insert (unat fp, k) F)))"
proof -
  let ?fs = "(fmt_fs fp 0 dev l)\<lparr>group_desc := []\<rparr>" and ?A = "insert (unat fp, k) F"
  have g: "geo_ok ?fs" "valid_blk ?fs 2" "good (fs_device ?fs)" "dblock sector ?fs 2 = fmt_group_desc l"
    using d fmt_dblock [of ?fs 2] by (simp_all add: geo_ok_def valid_blk_def spb_def fmt_fs_def formatted_def)
  have r: "ext2_read_block 2 ?fs = Some None \<or> ext2_read_block 2 ?fs = Some (Some (fmt_group_desc l))"
    using read_block [OF g(3,1,2)] g(4) by simp
  have n: "(32 :: u64) \<noteq> 0" "unat (32 :: u64) \<le> 2 ^ 64 - 16" "(1024 :: u64) \<noteq> 0" "unat (1024 :: u64) \<le> 2 ^ 64 - 16" by simp_all
  have "kmalloc 32 s = Some (0, s) \<or> (\<exists>gp t j. kmalloc 32 s = Some (gp, t) \<and> gp \<noteq> 0 \<and> (unat gp, j) \<notin> ?A \<and> heap_owns t (insert (unat gp, j) ?A))"
    using heap_scratch [OF h(1) n(1,2)] by blast
  then show ?thesis
  proof (elim disjE exE conjE)
    assume "kmalloc 32 s = Some (0, s)"
    then show ?thesis using heap_release [OF h] by (auto simp: mount_groups_def fmt_fs_def)
  next
    fix gp t j assume gp: "kmalloc 32 s = Some (gp, t)" "gp \<noteq> 0" "(unat gp, j) \<notin> ?A" "heap_owns t (insert (unat gp, j) ?A)"
    obtain u v where u: "kfree gp t = Some u" "kfree fp u = Some v" "heap_owns v F"
      using heap_release [OF gp(4,3)] heap_release [OF _ h(2)] by blast
    show ?thesis using heap_scratch [OF gp(4) n(3,4)]
    proof (elim disjE exE conjE)
      assume "kmalloc 1024 t = Some (0, t)"
      then show ?thesis using gp u by (auto simp: mount_groups_def fmt_fs_def)
    next
      fix bf w i assume bf: "kmalloc 1024 t = Some (bf, w)" "bf \<noteq> 0" "(unat bf, i) \<notin> insert (unat gp, j) ?A" "heap_owns w (insert (unat bf, i) (insert (unat gp, j) ?A))"
      obtain x where x: "kfree bf w = Some x" "heap_owns x (insert (unat gp, j) ?A)" using heap_release [OF bf(4,3)] by blast
      obtain y z where y: "kfree gp x = Some y" "kfree fp y = Some z" "heap_owns z F"
        using heap_release [OF x(2) gp(3)] heap_release [OF _ h(2)] by blast
      have ri: "read_into bf 1024 (fmt_group_desc l) w = Some (fmt_group_desc l)" "disk_get 0 32 (fmt_group_desc l) = Some (take 32 (fmt_group_desc l))"
        "groups_of 1 (take 32 (fmt_group_desc l)) = [group_desc_of (take 32 (fmt_group_desc l))]"
        by (simp_all add: read_into_def disk_get_def groups_of_def fmt_group_desc_of)
      show ?thesis using r gp bf x y ri unfolding mount_groups_def by (auto simp: fmt_fs_def)
    qed
  qed
qed

lemma mount_format:
  assumes n: "16 \<le> unat (fl_blocks l)" "unat (fl_blocks l) \<le> 8192" and d: "good dev" "sector_size dev = 512" "formatted sector dev l" "heap_owns s F"
  shows "\<exists>t. ext2_mount dev s = Some (None, t) \<and> heap_owns t F
    \<or> (\<exists>fp gp A. ext2_mount dev s = Some (Some (fmt_fs fp gp dev l), t) \<and> heap_owns t A \<and> F \<subseteq> A)"
proof -
  have m: "(1080 :: u64) \<noteq> 0" "unat (1080 :: u64) \<le> 2 ^ 64 - 16" "(1024 :: u64) \<noteq> 0" "unat (1024 :: u64) \<le> 2 ^ 64 - 16" by simp_all
  have "dev_block sector dev 1 = concat (map (sector dev) [unat (2 :: u64)..<unat (2 :: u64) + unat (2 :: u32)])"
    by (simp add: dev_block_def)
  then have r: "dev_read dev 2 2 = Some None \<or> dev_read dev 2 2 = Some (Some (fmt_superblock l))"
    using read_law [OF d(1), of 2 2] d(3) by (simp add: formatted_def)
  show ?thesis using heap_scratch [OF d(4) m(1,2)]
  proof (elim disjE exE conjE)
    assume "kmalloc 1080 s = Some (0, s)"
    then show ?thesis using d(4) by (auto simp: ext2_mount_def)
  next
    fix fp t k assume fp: "kmalloc 1080 s = Some (fp, t)" "fp \<noteq> 0" "(unat fp, k) \<notin> F" "heap_owns t (insert (unat fp, k) F)"
    obtain u where u: "kfree fp t = Some u" "heap_owns u F" using heap_release [OF fp(4,3)] by blast
    show ?thesis using heap_scratch [OF fp(4) m(3,4)]
    proof (elim disjE exE conjE)
      assume "kmalloc 1024 t = Some (0, t)"
      then show ?thesis using fp u by (auto simp: ext2_mount_def)
    next
      fix bf w i assume bf: "kmalloc 1024 t = Some (bf, w)" "bf \<noteq> 0" "(unat bf, i) \<notin> insert (unat fp, k) F" "heap_owns w (insert (unat bf, i) (insert (unat fp, k) F))"
      obtain x where x: "kfree bf w = Some x" "heap_owns x (insert (unat fp, k) F)" using heap_release [OF bf(4,3)] by blast
      obtain y where y: "kfree fp x = Some y" "heap_owns y F" using heap_release [OF x(2) fp(3)] by blast
      have ri: "read_into bf 1024 (fmt_superblock l) w = Some (fmt_superblock l)" by (simp add: read_into_def fmt_superblock_of)
      have mg: "s_magic (superblock_of (fmt_superblock l)) = EXT2_SUPER_MAGIC" by (simp add: fmt_superblock_of)
      have "ext2_mount dev s = mount_groups ((fmt_fs fp 0 dev l)\<lparr>group_desc := []\<rparr>) x" if "dev_read dev 2 2 = Some (Some (fmt_superblock l))"
        using that fp(1,2) bf(1,2) x(1) ri mg fmt_geometry [OF n, of fp dev] d(2) by (simp add: ext2_mount_def udiv_def)
      moreover have "ext2_mount dev s = Some (None, y)" if "dev_read dev 2 2 = Some None"
        using that fp(1,2) bf(1,2) x(1) y(1) d(2) by (simp add: ext2_mount_def udiv_def)
      ultimately show ?thesis using r mount_groups_format [OF d(1-3) x(2) fp(3)] y(2) by (metis subset_insertI2 subset_refl subset_insertI)
    qed
  qed
qed

end

section \<open>The new volume\<close>

lemma fmt_fs_fields [simp]: "block_size (fmt_fs fp gp dev l) = 1024" "inode_size (fmt_fs fp gp dev l) = 128" "num_groups (fmt_fs fp gp dev l) = 1"
    "first_data_block (fmt_fs fp gp dev l) = 1" "fs_device (fmt_fs fp gp dev l) = dev" "cache (fmt_fs fp gp dev l) = []"
    "s_blocks_per_group (superblock (fmt_fs fp gp dev l)) = 8192" "s_inodes_per_group (superblock (fmt_fs fp gp dev l)) = fl_inodes l"
    "s_inodes_count (superblock (fmt_fs fp gp dev l)) = fl_inodes l" "s_blocks_count (superblock (fmt_fs fp gp dev l)) = fl_blocks l"
    "length (group_desc (fmt_fs fp gp dev l)) = 1" "meta_blocks (fmt_fs fp gp dev l) = [2, 3, 4]"
    "bg_inode_table (group_desc (fmt_fs fp gp dev l) ! 0) = 5" "bg_block_bitmap (group_desc (fmt_fs fp gp dev l) ! 0) = 3"
    "bview sec (fmt_fs fp gp dev l) = dblock sec (fmt_fs fp gp dev l)"
  by (simp_all add: fmt_fs_def fmt_superblock_of fmt_group_desc_of meta_blocks_def gdt_block_def bview_def ext2_cache_find_def fun_eq_iff)

lemma fmt_groups_ok:
  assumes n: "16 \<le> unat n" "unat n \<le> 8192" and d: "sector_size dev = 512"
  shows "groups_ok (fmt_fs fp gp dev (fmt_layout_of n))"
proof -
  let ?fs = "fmt_fs fp gp dev (fmt_layout_of n)"
  note L = fmt_layout_facts [OF n]
  have "\<forall>x \<in> set (group_desc ?fs). length (bg_reserved x) = 12" by (simp add: fmt_fs_def fmt_group_desc_of)
  moreover have "blocks_in_group 0 ?fs = n" using L(1) by (simp add: blocks_in_group_def)
  moreover have "fl_inodes (fmt_layout_of n) \<noteq> 0" using L(3) by auto
  ultimately show ?thesis unfolding groups_ok_def using n d L by (simp add: valid_blk_def spb_def)
qed

lemma fmt_table_block: "table_block (fmt_fs fp gp dev l) 0 q = 5 + of_nat q"
  by (simp add: table_block_def)

lemma fmt_table_range:
  assumes n: "16 \<le> unat n" "unat n \<le> 8192"
  shows "table_range (fmt_fs fp gp dev (fmt_layout_of n)) g q \<longleftrightarrow> g = 0 \<and> q < unat (fl_table (fmt_layout_of n))"
  using fmt_layout_facts(5) [OF n] by (auto simp: table_range_def)

lemma fmt_inodes_ok:
  assumes n: "16 \<le> unat n" "unat n \<le> 8192" and d: "sector_size dev = 512"
  shows "inodes_ok (fmt_fs fp gp dev (fmt_layout_of n))"
proof -
  let ?fs = "fmt_fs fp gp dev (fmt_layout_of n)"
  note L = fmt_layout_facts [OF n]
  have T: "unat (fl_table (fmt_layout_of n)) \<le> 300" using L(4) unfolding L(5) by auto
  have u: "unat (table_block ?fs 0 q) = 5 + q" if "q < unat (fl_table (fmt_layout_of n))" for q
    using that T by (simp add: fmt_table_block unat_word_ariths unat_of_nat take_bit_nat_eq_self)
  have v: "valid_blk ?fs (table_block ?fs 0 q)" "table_block ?fs 0 q \<notin> set (meta_blocks ?fs)" if q: "q < unat (fl_table (fmt_layout_of n))" for q
  proof -
    have "5 + q \<le> 400" using q T by simp
    then show "valid_blk ?fs (table_block ?fs 0 q)" using d by (simp add: valid_blk_def spb_def u [OF q] del: fmt_table_block)
    have "unat (table_block ?fs 0 q) \<notin> {2, 3, 4}" unfolding u [OF q] by simp
    then show "table_block ?fs 0 q \<notin> set (meta_blocks ?fs)" by auto
  qed
  have i: "q = r" if "q < unat (fl_table (fmt_layout_of n))" "r < unat (fl_table (fmt_layout_of n))" "table_block ?fs 0 q = table_block ?fs 0 r" for q r
    using u [OF that(1)] u [OF that(2)] unfolding that(3) by linarith
  have w: "unat (fl_inodes (fmt_layout_of n)) * 128 < 2 ^ 32" using L(4) by simp
  show ?thesis unfolding inodes_ok_def fmt_table_range [OF n]
  proof (intro conjI allI impI)
    fix g q :: nat assume g: "g = 0 \<and> q < unat (fl_table (fmt_layout_of n))"
    then show "valid_blk ?fs (table_block ?fs g q)" "table_block ?fs g q \<notin> set (meta_blocks ?fs)" using v [of q] by blast+
  next
    fix g q h r :: nat assume "g = 0 \<and> q < unat (fl_table (fmt_layout_of n))" "h = 0 \<and> r < unat (fl_table (fmt_layout_of n))" "table_block ?fs g q = table_block ?fs h r"
    then show "g = h" "q = r" using i [of q r] by blast+
  qed (use fmt_groups_ok [OF n d] w in simp_all)
qed

lemma fmt_volume_ok:
  assumes n: "16 \<le> unat n" "unat n \<le> 8192" and d: "sector_size dev = 512" "formatted sec dev (fmt_layout_of n)"
    and sec: "dblock sec (fmt_fs fp gp dev (fmt_layout_of n)) 3 = dev_block sec dev 3"
  shows "volume_ok sec (fmt_fs fp gp dev (fmt_layout_of n))"
proof -
  let ?l = "fmt_layout_of n" and ?fs = "fmt_fs fp gp dev (fmt_layout_of n)"
  note L = fmt_layout_facts [OF n]
  have T: "unat (fl_table ?l) \<le> 300" using L(4) unfolding L(5) by auto
  obtain bm where "fmt_block_bitmap ?l = Some bm" "\<forall>j < 8192. bit_of bm j \<longleftrightarrow> j < unat (fl_overhead ?l) \<or> unat (fl_group ?l) \<le> j"
    using fmt_block_bitmap_bits [of ?l] L(6) T by auto
  then have bm: "bit_of (dblock sec ?fs 3) j" if "j < 5 + unat (fl_table ?l)" for j
    using that d(2) sec L(6) T by (simp add: formatted_def)
  have idx: "index_of_block ?fs b = unat b - 1" "group_of_block ?fs b = 0" if "1 \<le> unat b" "unat b \<le> 8192" for b
  proof -
    have "unat (b - 1) = unat b - 1" using that by (intro unat_minus_one) auto
    then show "index_of_block ?fs b = unat b - 1" "group_of_block ?fs b = 0" using that by (simp_all add: index_of_block_def group_of_block_def unat_mod unat_div)
  qed
  have small: "unat b \<le> 8192" if "in_groups ?fs b" for b
  proof -
    have "1 \<le> b" "unat ((b - 1) div 8192) = 0" using that by (auto simp: in_groups_def group_of_block_def)
    then show ?thesis by (auto simp: unat_div word_le_nat_alt unat_minus_one unat_eq_0 [symmetric] div_eq_0_iff)
  qed
  have used: "block_used sec ?fs b" if "1 \<le> unat b" "unat b \<le> 4 + unat (fl_table ?l)" for b
    using that T idx [of b] bm [of "unat b - 1"] by (simp add: block_used_def bit_set_def)
  have u: "unat (table_block ?fs 0 q) = 5 + q" if "q < unat (fl_table ?l)" for q
    using that T by (simp add: fmt_table_block unat_word_ariths unat_of_nat take_bit_nat_eq_self)
  have "block_used sec ?fs b" if "b \<in> sys_blocks ?fs" "in_groups ?fs b" for b
    using that u L(3) unfolding sys_blocks_def fmt_table_range [OF n] by (auto simp: in_groups_def L(5) intro!: used)
  moreover have "valid_blk ?fs b" if "in_groups ?fs b" for b using small [OF that] d(1) by (simp add: valid_blk_def spb_def)
  ultimately show ?thesis using fmt_inodes_ok [OF n d(1)] by (simp add: volume_ok_def)
qed

text \<open>The root directory and the marks of the blocks.\<close>

lemma fmt_root_at:
  assumes n: "16 \<le> unat n" "unat n \<le> 8192" and d: "sector_size dev = 512" "formatted sec dev (fmt_layout_of n)"
    and b: "\<And>b. dblock sec (fmt_fs fp gp dev (fmt_layout_of n)) b = dev_block sec dev (unat b)"
  shows "inode_at sec (fmt_fs fp gp dev (fmt_layout_of n)) 2 = fmt_root_inode (fmt_layout_of n)"
    "bview sec (fmt_fs fp gp dev (fmt_layout_of n)) (5 + fl_table (fmt_layout_of n)) = dot_entries 1024 2 2"
proof -
  let ?l = "fmt_layout_of n" and ?fs = "fmt_fs fp gp dev (fmt_layout_of n)"
  note L = fmt_layout_facts [OF n]
  have T: "0 < unat (fl_table ?l)" "unat (fl_table ?l) \<le> 300" using L(3,4) unfolding L(5) by auto
  have i: "fl_inodes ?l \<noteq> 0" "1 div fl_inodes ?l = 0" "1 mod fl_inodes ?l = 1"
    using L(3) by (auto simp: word_unat_eq_iff unat_div unat_mod)
  have p: "inode_pos 2 ?fs = Some (5, 128)"
    using i by (simp add: inode_pos_def udiv_def umod_def group_at_def)
  have "dev_block sec dev 5 = take 1024 (fmt_inode_table ?l)" using d(2) T(1) by (auto simp: formatted_def)
  moreover have "take 128 (drop 128 (take 1024 (fmt_inode_table ?l))) = inode_bytes (fmt_root_inode ?l)"
    using T(1) by (simp add: fmt_inode_table_def overlay_def inode_bytes_length fmt_root_ok drop_take min_def)
  ultimately show "inode_at sec ?fs 2 = fmt_root_inode ?l"
    using p b [of 5] by (simp add: inode_at_def inode_roundtrip fmt_root_ok)
  have "unat (5 + fl_table ?l) = 5 + unat (fl_table ?l)" using T(2) by (simp add: unat_word_ariths)
  then show "bview sec ?fs (5 + fl_table ?l) = dot_entries 1024 2 2" using d(2) b by (simp add: formatted_def)
qed

section \<open>Formatting, then mounting\<close>

lemma fmt_mounted_ok:
  assumes n: "16 \<le> unat n" "unat n \<le> 8192" and d: "mem_good dev" "sector_size dev = 512" "formatted mem_sector dev (fmt_layout_of n)" and h: "heap_owns t A"
  shows "mounted_ok A (fmt_fs fp gp dev (fmt_layout_of n)) t"
proof -
  let ?fs = "fmt_fs fp gp dev (fmt_layout_of n)"
  have "volume_ok mem_sector ?fs" using fmt_volume_ok [OF n d(2,3), of fp gp] ram.fmt_dblock [of ?fs 3] d(2) by simp
  moreover have "entries_ok mem_sector ?fs" by (simp add: entries_ok_def fmt_fs_def)
  moreover have "ptr_mem A {} t" using h by (auto simp: ptr_mem_def)
  ultimately show ?thesis using d by (simp add: mounted_ok_def cache_inv_def geo_ok_def spb_def refs_below_def refs_def ext2_cache_find_def)
qed

lemma fmt_mount_result:
  assumes n: "16 \<le> unat n" "unat n \<le> 8192" and d: "mem_good dev" "sector_size dev = 512" "formatted mem_sector dev (fmt_layout_of n)" and h: "heap_owns s F"
  shows "\<exists>m t. ext2_mount dev s = Some (m, t) \<and> (m = None \<longrightarrow> heap_owns t F)
    \<and> (\<forall>fs. m = Some fs \<longrightarrow> (\<exists>A. F \<subseteq> A \<and> mounted_ok A fs t \<and> inode_at mem_sector fs 2 = fmt_root_inode (fmt_layout_of n)
         \<and> bview mem_sector fs (5 + fl_table (fmt_layout_of n)) = dot_entries 1024 2 2))"
proof -
  let ?l = "fmt_layout_of n"
  have b: "16 \<le> unat (fl_blocks ?l)" "unat (fl_blocks ?l) \<le> 8192" using n fmt_layout_facts(1) [OF n] by simp_all
  have v: "mounted_ok A (fmt_fs fp gp dev ?l) t" "inode_at mem_sector (fmt_fs fp gp dev ?l) 2 = fmt_root_inode ?l"
    "bview mem_sector (fmt_fs fp gp dev ?l) (5 + fl_table ?l) = dot_entries 1024 2 2" if "heap_owns t A" for A fp gp and t :: "'a heap_scheme"
    using fmt_mounted_ok [OF n d that] fmt_root_at [OF n d(2,3)] ram.fmt_dblock d(2) by simp_all
  obtain t where "ext2_mount dev s = Some (None, t) \<and> heap_owns t F
    \<or> (\<exists>fp gp A. ext2_mount dev s = Some (Some (fmt_fs fp gp dev ?l), t) \<and> heap_owns t A \<and> F \<subseteq> A)"
    using ram.mount_format [OF b d h] by blast
  then show ?thesis
  proof (elim disjE exE conjE)
    fix fp gp A assume m: "ext2_mount dev s = Some (Some (fmt_fs fp gp dev ?l), t)" "heap_owns t A" "F \<subseteq> A"
    then show ?thesis using v [OF m(2), of fp gp]
      by (intro exI [of _ "Some (fmt_fs fp gp dev ?l)"] exI [of _ t] conjI allI impI exI [of _ A]) (simp_all only: option.inject option.distinct)
  qed simp
qed



end
