(* ===== verification/Dma.thy ===== *)
theory Dma
  imports Vmm
begin

text \<open>
  The memory for devices, \<^verbatim>\<open>src/kernel/mem/dma.c\<close>: page frames from the page allocator, or for
  old devices from a pool below 16 MB, mapped at pages of a range of the kernel space that a bitmap
  hands out. A table of 256 entries records what is allocated. The locks and the cache instructions
  have no effect on the modelled state; the kernel space is the one in use.
\<close>

section \<open>State\<close>

abbreviation DMA_ZONE_ISA :: int where "DMA_ZONE_ISA \<equiv> 1"

definition DMA_VIRT_BASE :: u64 where "DMA_VIRT_BASE = 0xFFFFE00000000000"
definition DMA_VIRT_PAGE_COUNT :: nat where "DMA_VIRT_PAGE_COUNT = 65536"
definition ISA_LIMIT_PHYS :: u64 where "ISA_LIMIT_PHYS = 0x1000000"
definition ISA_POOL_PAGES :: nat where "ISA_POOL_PAGES = 64"
definition META_CAP :: nat where "META_CAP = 256"

text \<open>Present, writable, not cached, global.\<close>

definition DMA_MAP_FLAGS :: u64 where "DMA_MAP_FLAGS = 0x113"

record meta_t =
  m_virt :: u64
  m_phys :: u64
  m_size :: u64
  m_pages :: u64
  m_zone :: int
  m_from_isa_pool :: bool
  m_used :: bool

record isa_node_t =
  node_phys :: u64
  node_next :: "nat option"

record dma_sys = vmm +
  virt_bitmap :: "u64 list"
  meta :: "meta_t list"
  isa_nodes :: "isa_node_t list"
  isa_free_list :: "nat option"
  isa_pool_size :: nat

section \<open>The virtual range\<close>

definition virt_used :: "u64 list \<Rightarrow> nat \<Rightarrow> bool" where
  "virt_used bm i \<longleftrightarrow> bit (bm ! (i div 64)) (i mod 64)"

definition virt_mark :: "nat \<Rightarrow> u64 list \<Rightarrow> u64 list" where
  "virt_mark i bm = bm[i div 64 := bm ! (i div 64) OR push_bit (i mod 64) 1]"

definition virt_unmark :: "nat \<Rightarrow> u64 list \<Rightarrow> u64 list" where
  "virt_unmark i bm = bm[i div 64 := bm ! (i div 64) AND NOT (push_bit (i mod 64) 1)]"

definition virt_range_alloc :: "nat \<Rightarrow> 'a dma_sys_scheme \<Rightarrow> u64 \<times> 'a dma_sys_scheme" where
  "virt_range_alloc pages s =
     (case find_run (\<lambda>i. \<not> virt_used (virt_bitmap s) i) pages DMA_VIRT_PAGE_COUNT 0 0 0 of
        Some start \<Rightarrow> (DMA_VIRT_BASE + of_nat start * of_nat PAGE_SIZE,
                        s\<lparr>virt_bitmap := fold virt_mark [start..<start + pages] (virt_bitmap s)\<rparr>)
      | None \<Rightarrow> (0, s))"

definition virt_range_free :: "u64 \<Rightarrow> nat \<Rightarrow> 'a dma_sys_scheme \<Rightarrow> 'a dma_sys_scheme" where
  "virt_range_free virt pages s =
     (let start = unat (virt - DMA_VIRT_BASE) div PAGE_SIZE
      in s\<lparr>virt_bitmap := fold virt_unmark [start..<start + pages] (virt_bitmap s)\<rparr>)"

section \<open>The pool\<close>

fun isa_fill :: "nat \<Rightarrow> 'a dma_sys_scheme \<Rightarrow> 'a dma_sys_scheme" where
  "isa_fill 0 s = s"
| "isa_fill (Suc tries) s =
     (if isa_pool_size s < ISA_POOL_PAGES
      then let (p, s) = pmm_alloc s in
           if p = 0 then s
           else if p \<ge> ISA_LIMIT_PHYS then isa_fill tries (pmm_free p s)
           else isa_fill tries (s\<lparr>isa_nodes := (isa_nodes s)[isa_pool_size s := \<lparr>node_phys = p, node_next = isa_free_list s\<rparr>],
                                   isa_free_list := Some (isa_pool_size s), isa_pool_size := isa_pool_size s + 1\<rparr>)
      else s)"

definition isa_pool_init :: "'a dma_sys_scheme \<Rightarrow> 'a dma_sys_scheme" where
  "isa_pool_init s = isa_fill (ISA_POOL_PAGES * 8) s"

definition isa_page_alloc :: "'a dma_sys_scheme \<Rightarrow> u64 \<times> 'a dma_sys_scheme" where
  "isa_page_alloc s =
     (case isa_free_list s of
        None \<Rightarrow> (0, s)
      | Some n \<Rightarrow> (node_phys (isa_nodes s ! n), s\<lparr>isa_free_list := node_next (isa_nodes s ! n)\<rparr>))"

definition isa_page_free :: "u64 \<Rightarrow> 'a dma_sys_scheme \<Rightarrow> 'a dma_sys_scheme" where
  "isa_page_free phys s =
     (case scan (\<lambda>i. node_phys (isa_nodes s ! i) = phys) 0 (isa_pool_size s) of
        Some i \<Rightarrow> s\<lparr>isa_nodes := (isa_nodes s)[i := (isa_nodes s ! i)\<lparr>node_next := isa_free_list s\<rparr>], isa_free_list := Some i\<rparr>
      | None \<Rightarrow> pmm_free phys s)"

section \<open>The table of allocations\<close>

definition upd_meta :: "nat \<Rightarrow> meta_t \<Rightarrow> 'a dma_sys_scheme \<Rightarrow> 'a dma_sys_scheme" where
  "upd_meta i m s = s\<lparr>meta := (meta s)[i := m]\<rparr>"

definition meta_alloc :: "'a dma_sys_scheme \<Rightarrow> nat option \<times> 'a dma_sys_scheme" where
  "meta_alloc s =
     (case scan (\<lambda>i. \<not> m_used (meta s ! i)) 0 META_CAP of
        Some i \<Rightarrow> (Some i, upd_meta i ((meta s ! i)\<lparr>m_used := True\<rparr>) s)
      | None \<Rightarrow> (None, s))"

definition meta_find :: "u64 \<Rightarrow> 'a dma_sys_scheme \<Rightarrow> nat option" where
  "meta_find virt s = scan (\<lambda>i. m_used (meta s ! i) \<and> m_virt (meta s ! i) = virt) 0 META_CAP"

definition meta_free :: "nat \<Rightarrow> 'a dma_sys_scheme \<Rightarrow> 'a dma_sys_scheme" where
  "meta_free i s = upd_meta i ((meta s ! i)\<lparr>m_used := False\<rparr>) s"

section \<open>Allocation\<close>

definition dma_init :: "'a dma_sys_scheme \<Rightarrow> 'a dma_sys_scheme" where
  "dma_init s = isa_pool_init s"

definition dma_take :: "int \<Rightarrow> u64 \<Rightarrow> 'a dma_sys_scheme \<Rightarrow> u64 \<times> bool \<times> 'a dma_sys_scheme" where
  "dma_take zone pages s =
     (if zone = DMA_ZONE_ISA \<and> pages = 1 then let (p, s) = isa_page_alloc s in (p, True, s)
      else let (p, s) = pmm_alloc_pages (unat pages) s in (p, False, s))"

definition dma_fits :: "u64 \<Rightarrow> u64 \<Rightarrow> u64 \<Rightarrow> int \<Rightarrow> u64 \<Rightarrow> u64 \<Rightarrow> bool" where
  "dma_fits sz alignment boundary zone pages phys \<longleftrightarrow>
     \<not> (zone = DMA_ZONE_ISA \<and> pages \<noteq> 1 \<and> phys \<ge> ISA_LIMIT_PHYS)
     \<and> \<not> (alignment \<noteq> 0 \<and> phys AND (alignment - 1) \<noteq> 0)
     \<and> \<not> (boundary \<noteq> 0 \<and> phys AND NOT (boundary - 1) \<noteq> (phys + sz - 1) AND NOT (boundary - 1))"

definition dma_give_back :: "bool \<Rightarrow> u64 \<Rightarrow> u64 \<Rightarrow> 'a dma_sys_scheme \<Rightarrow> 'a dma_sys_scheme" where
  "dma_give_back isa phys pages s = (if isa then isa_page_free phys s else pmm_free_pages phys (unat pages) s)"

text \<open>Writing zeros to the pages that have been mapped.\<close>

definition virt_clear :: "u64 \<Rightarrow> nat \<Rightarrow> 'a vmm_scheme \<Rightarrow> 'a vmm_scheme" where
  "virt_clear virt pages s =
     fold (\<lambda>i s. s\<lparr>mem := memset (mem s) (unat (fst (vmm_get_physical SKernel (virt + of_nat i * of_nat PAGE_SIZE) s))) 0 PAGE_SIZE\<rparr>)
       [0..<pages] s"

text \<open>One pass of the loop: the result, or nothing when it is repeated.\<close>

definition dma_attempt :: "u64 \<Rightarrow> u64 \<Rightarrow> u64 \<Rightarrow> int \<Rightarrow> u64 \<Rightarrow> 'a dma_sys_scheme \<Rightarrow> u64 option \<times> 'a dma_sys_scheme" where
  "dma_attempt sz alignment boundary zone pages s =
     (let (phys, isa, s) = dma_take zone pages s in
      if phys = 0 then (Some 0, s)
      else if \<not> dma_fits sz alignment boundary zone pages phys then (None, dma_give_back isa phys pages s)
      else let (virt, s) = virt_range_alloc (unat pages) s in
      if virt = 0 then (None, dma_give_back isa phys pages s)
      else let (ok, s) = vmm_map_range SKernel virt phys (unat pages) DMA_MAP_FLAGS s in
      if \<not> ok then (None, dma_give_back isa phys pages (virt_range_free virt (unat pages) s))
      else let (m, s) = meta_alloc (virt_clear virt (unat pages) s) in
      case m of
        None \<Rightarrow> (None, dma_give_back isa phys pages (virt_range_free virt (unat pages) (vmm_unmap_range SKernel virt (unat pages) s)))
      | Some i \<Rightarrow> (Some virt, upd_meta i \<lparr>m_virt = virt, m_phys = phys, m_size = sz, m_pages = pages, m_zone = zone,
                                         m_from_isa_pool = isa, m_used = True\<rparr> s))"

partial_function (option) dma_loop :: "u64 \<Rightarrow> u64 \<Rightarrow> u64 \<Rightarrow> int \<Rightarrow> u64 \<Rightarrow> 'a dma_sys_scheme \<Rightarrow> (u64 \<times> 'a dma_sys_scheme) option" where
  "dma_loop sz alignment boundary zone pages s =
     (case dma_attempt sz alignment boundary zone pages s of
        (Some p, s) \<Rightarrow> Some (p, s)
      | (None, s) \<Rightarrow> dma_loop sz alignment boundary zone pages s)"

definition dma_alloc :: "u64 \<Rightarrow> u64 \<Rightarrow> u64 \<Rightarrow> int \<Rightarrow> 'a dma_sys_scheme \<Rightarrow> (u64 \<times> 'a dma_sys_scheme) option" where
  "dma_alloc sz alignment boundary zone s =
     (if sz = 0 then Some (0, s)
      else if alignment \<noteq> 0 \<and> alignment AND (alignment - 1) \<noteq> 0 then Some (0, s)
      else if boundary \<noteq> 0 \<and> boundary AND (boundary - 1) \<noteq> 0 then Some (0, s)
      else dma_loop sz alignment boundary zone ((sz + of_nat PAGE_SIZE - 1) div of_nat PAGE_SIZE) s)"

definition dma_free :: "u64 \<Rightarrow> 'a dma_sys_scheme \<Rightarrow> 'a dma_sys_scheme" where
  "dma_free ptr s =
     (if ptr = 0 then s
      else case meta_find ptr s of
        None \<Rightarrow> s
      | Some i \<Rightarrow>
          let m = meta s ! i;
              s = vmm_unmap_range SKernel (m_virt m) (unat (m_pages m)) s;
              s = virt_range_free (m_virt m) (unat (m_pages m)) s;
              s = dma_give_back (m_from_isa_pool m) (m_phys m) (m_pages m) s
          in meta_free i s)"

end
