(* ===== verification/DmaProps.thy ===== *)
theory DmaProps
  imports Dma
begin

text \<open>
  What the allocator of device memory promises: the ranges in use do not overlap, an allocation
  is mapped page by page to the frames it took, and freeing it undoes it.
\<close>

section \<open>The bitmap\<close>

lemma virt_used_mark:
  assumes "i div 64 < length bm" shows "virt_used (virt_mark i bm) j \<longleftrightarrow> virt_used bm j \<or> j = i"
proof (cases "j div 64 = i div 64")
  case True
  then have "j = i \<longleftrightarrow> j mod 64 = i mod 64" by (metis div_mult_mod_eq)
  moreover have "j mod 64 < 64" "i mod 64 < 64" by simp_all
  ultimately show ?thesis using True assms by (auto simp: virt_used_def virt_mark_def bit_simps)
next
  case False then show ?thesis by (auto simp: virt_used_def virt_mark_def)
qed

lemma virt_used_unmark:
  assumes "i div 64 < length bm" shows "virt_used (virt_unmark i bm) j \<longleftrightarrow> virt_used bm j \<and> j \<noteq> i"
proof (cases "j div 64 = i div 64")
  case True
  then have "j = i \<longleftrightarrow> j mod 64 = i mod 64" by (metis div_mult_mod_eq)
  moreover have "j mod 64 < 64" "i mod 64 < 64" by simp_all
  ultimately show ?thesis using True assms by (auto simp: virt_used_def virt_unmark_def bit_simps)
next
  case False then show ?thesis by (auto simp: virt_used_def virt_unmark_def)
qed

lemma length_mark [simp]: "length (virt_mark i bm) = length bm" "length (virt_unmark i bm) = length bm"
    "length (fold virt_mark is bm) = length bm" "length (fold virt_unmark is bm) = length bm"
proof -
  show "length (fold virt_mark is bm) = length bm" by (rule fold_field) (simp add: virt_mark_def)
  show "length (fold virt_unmark is bm) = length bm" by (rule fold_field) (simp add: virt_unmark_def)
qed (simp_all add: virt_mark_def virt_unmark_def)

lemma virt_used_marks:
  "\<forall>i \<in> set is. i < 64 * length bm \<Longrightarrow> virt_used (fold virt_mark is bm) j \<longleftrightarrow> virt_used bm j \<or> j \<in> set is"
  "\<forall>i \<in> set is. i < 64 * length bm \<Longrightarrow> virt_used (fold virt_unmark is bm) j \<longleftrightarrow> virt_used bm j \<and> j \<notin> set is"
  by (induction "is" arbitrary: bm) (auto simp: virt_used_mark virt_used_unmark less_mult_imp_div_less mult.commute)

lemma bitmap_eqI:
  assumes "length a = length b" "\<And>j. virt_used a j \<longleftrightarrow> virt_used b j"
  shows "a = b"
proof (rule nth_equalityI)
  fix i assume "i < length a"
  show "a ! i = b ! i"
  proof (rule bit_word_eqI)
    fix n :: nat assume "n < LENGTH(64)"
    then show "bit (a ! i) n \<longleftrightarrow> bit (b ! i) n" using assms(2) [of "64 * i + n"] by (simp add: virt_used_def)
  qed
qed (rule assms)

text \<open>Marking pages that were free and unmarking them again.\<close>

lemma unmark_mark:
  assumes "\<forall>i \<in> set is. i < 64 * length bm \<and> \<not> virt_used bm i"
  shows "fold virt_unmark is (fold virt_mark is bm) = bm"
  using assms by (intro bitmap_eqI) (auto simp: virt_used_marks)

section \<open>Addresses\<close>

definition virt_at :: "nat \<Rightarrow> u64" where
  "virt_at v = DMA_VIRT_BASE + of_nat v * of_nat PAGE_SIZE"

definition slot_start :: "u64 \<Rightarrow> nat" where
  "slot_start virt = unat (virt - DMA_VIRT_BASE) div PAGE_SIZE"

lemma slot_start_at [simp]: "v \<le> 65536 \<Longrightarrow> slot_start (virt_at v) = v"
proof -
  assume "v \<le> 65536"
  then have "unat (of_nat v * 4096 :: u64) = v * 4096"
    using unat_of_nat64 [of "v * 4096"] by simp
  then show ?thesis by (simp add: slot_start_def virt_at_def)
qed

lemma unat_virt_at: "v \<le> 65536 \<Longrightarrow> unat (virt_at v) = 0xFFFFE00000000000 + v * 4096"
proof -
  assume v: "v \<le> 65536"
  have "virt_at v = of_nat (0xFFFFE00000000000 + v * 4096)" by (simp add: virt_at_def DMA_VIRT_BASE_def)
  then show ?thesis using v unat_of_nat64 [of "0xFFFFE00000000000 + v * 4096"] by simp
qed

lemma virt_at_nonzero: "v \<le> 65536 \<Longrightarrow> virt_at v \<noteq> 0"
  using unat_virt_at [of v] by auto

lemma nth_virt_at: "nth_page (virt_at v) j = virt_at (v + j)"
  by (simp add: nth_page_def virt_at_def algebra_simps)

lemma pml4_virt_at: "v < 65536 \<Longrightarrow> PML4_INDEX (virt_at v) = 448"
proof -
  assume v: "v < 65536"
  have "unat (virt_at v) div 2 ^ 39 = 0x1FFFFC0"
    using v by (simp add: unat_virt_at div_nat_eqI)
  then show ?thesis by (simp add: PML4_INDEX_def index_digit)
qed

section \<open>The invariant\<close>

definition slot_pages :: "meta_t \<Rightarrow> nat set" where
  "slot_pages m = {slot_start (m_virt m)..<slot_start (m_virt m) + unat (m_pages m)}"

definition slot_ok :: "u64 list \<Rightarrow> meta_t \<Rightarrow> bool" where
  "slot_ok bm m \<longleftrightarrow> m_virt m = virt_at (slot_start (m_virt m)) \<and> 0 < m_pages m
     \<and> slot_start (m_virt m) + unat (m_pages m) \<le> 65536 \<and> (\<forall>k \<in> slot_pages m. virt_used bm k)"

definition live :: "'a dma_sys_scheme \<Rightarrow> nat set" where
  "live s = {i. i < 256 \<and> m_used (meta s ! i)}"

definition dma_ok :: "'a dma_sys_scheme \<Rightarrow> bool" where
  "dma_ok s \<longleftrightarrow> length (virt_bitmap s) = 1024 \<and> length (meta s) = 256
     \<and> (\<forall>i \<in> live s. slot_ok (virt_bitmap s) (meta s ! i))
     \<and> (\<forall>i \<in> live s. \<forall>j \<in> live s. i \<noteq> j \<longrightarrow> slot_pages (meta s ! i) \<inter> slot_pages (meta s ! j) = {})"

text \<open>Only the bitmap and the table matter for it.\<close>

lemma dma_ok_cong: "virt_bitmap t = virt_bitmap s \<Longrightarrow> meta t = meta s \<Longrightarrow> dma_ok t \<longleftrightarrow> dma_ok s"
  by (simp add: dma_ok_def live_def)

lemma keeps_dma [simp]: "keeps virt_bitmap" "keeps meta"
  by (simp_all add: keeps_def)

lemma keeps_unmap_range: "keeps g \<Longrightarrow> g (vmm_unmap_range sp v n s) = g s"
  by (induction n arbitrary: v s) (simp_all add: keeps_unmap)

lemma keeps_give_back [simp]: "virt_bitmap (dma_give_back isa p n s) = virt_bitmap s" "meta (dma_give_back isa p n s) = meta s"
  by (simp_all add: dma_give_back_def isa_page_free_def keeps_pmm split: option.split)

lemma keeps_unmap_dma [simp]: "virt_bitmap (vmm_unmap_range sp v n s) = virt_bitmap s" "meta (vmm_unmap_range sp v n s) = meta s"
  by (simp_all add: keeps_unmap_range)

text \<open>A new slot for pages that no one uses.\<close>

lemma dma_ok_insert:
  assumes ok: "dma_ok s" and i: "i < 256" "i \<notin> live s" and v: "v + unat (m_pages m) \<le> 65536" "0 < m_pages m"
    "\<forall>k \<in> {v..<v + unat (m_pages m)}. \<not> virt_used (virt_bitmap s) k" and m: "m_virt m = virt_at v" "m_used m"
    and t: "virt_bitmap t = fold virt_mark [v..<v + unat (m_pages m)] (virt_bitmap s)" "meta t = (meta s)[i := m]"
  shows "dma_ok t" "live t = insert i (live s)"
proof -
  have len: "length (virt_bitmap s) = 1024" "length (meta s) = 256" using ok by (auto simp: dma_ok_def)
  show l: "live t = insert i (live s)" using i m(2) t(2) len by (auto simp: live_def nth_list_update)
  have used: "virt_used (virt_bitmap t) k \<longleftrightarrow> virt_used (virt_bitmap s) k \<or> k \<in> {v..<v + unat (m_pages m)}" for k
    using v(1) len unfolding t(1) by (subst virt_used_marks) auto
  have new: "slot_pages m = {v..<v + unat (m_pages m)}" using m(1) v(1) by (simp add: slot_pages_def)
  have old: "meta t ! j = meta s ! j" if "j \<noteq> i" for j using that t(2) by simp
  have "meta t ! i = m" using t(2) i len by simp
  moreover have "slot_ok (virt_bitmap t) m" using m(1) v new used by (simp add: slot_ok_def)
  moreover have "slot_ok (virt_bitmap t) (meta s ! j)" if "j \<in> live s" for j
    using ok that used by (auto simp: dma_ok_def slot_ok_def)
  moreover have "slot_pages (meta s ! j) \<inter> slot_pages m = {}" if "j \<in> live s" for j
    using ok that v(3) new by (auto simp: dma_ok_def slot_ok_def)
  moreover have "slot_pages (meta s ! j) \<inter> slot_pages (meta s ! k) = {}" if "j \<in> live s" "k \<in> live s" "j \<noteq> k" for j k
    using ok that by (auto simp: dma_ok_def)
  moreover have "length (virt_bitmap t) = 1024" "length (meta t) = 256" using len t by simp_all
  moreover have "j \<noteq> i" if "j \<in> live s" for j using that i by auto
  ultimately show "dma_ok t" unfolding dma_ok_def l by (simp add: old Int_commute)
qed

text \<open>Finding and freeing the slot.\<close>

lemma meta_find_live:
  assumes ok: "dma_ok s" and i: "i \<in> live s"
  shows "meta_find (m_virt (meta s ! i)) s = Some i"
proof -
  let ?P = "\<lambda>j. m_used (meta s ! j) \<and> m_virt (meta s ! j) = m_virt (meta s ! i)"
  have "j = i" if "j < 256" "?P j" for j
  proof (rule ccontr)
    assume "j \<noteq> i"
    then have "slot_pages (meta s ! j) \<inter> slot_pages (meta s ! i) = {}" using ok i that by (auto simp: dma_ok_def live_def)
    moreover have "slot_ok (virt_bitmap s) (meta s ! j)" "slot_ok (virt_bitmap s) (meta s ! i)"
      using ok i that by (auto simp: dma_ok_def live_def)
    then have "slot_start (m_virt (meta s ! i)) \<in> slot_pages (meta s ! j) \<inter> slot_pages (meta s ! i)"
      using that by (auto simp: slot_ok_def slot_pages_def word_less_nat_alt)
    ultimately show False by auto
  qed
  then have "\<not> ?P k" if "k < i" for k using that i by (metis (mono_tags, lifting) less_irrefl live_def mem_Collect_eq order_less_trans)
  then have "scan ?P 0 256 = Some i" using i by (auto simp: live_def scan_Some_iff)
  then show ?thesis by (simp add: meta_find_def META_CAP_def)
qed

lemma dma_free_slot:
  assumes ok: "dma_ok s" and i: "i \<in> live s"
  shows "virt_bitmap (dma_free (m_virt (meta s ! i)) s)
      = fold virt_unmark [slot_start (m_virt (meta s ! i))..<slot_start (m_virt (meta s ! i)) + unat (m_pages (meta s ! i))] (virt_bitmap s)"
    "meta (dma_free (m_virt (meta s ! i)) s) = (meta s)[i := (meta s ! i)\<lparr>m_used := False\<rparr>]"
proof -
  have m: "slot_ok (virt_bitmap s) (meta s ! i)" using ok i by (auto simp: dma_ok_def)
  have "slot_start (m_virt (meta s ! i)) \<le> 65536" using m by (simp add: slot_ok_def)
  then have "m_virt (meta s ! i) \<noteq> 0" using m virt_at_nonzero by (metis slot_ok_def)
  with meta_find_live [OF ok i] show "virt_bitmap (dma_free (m_virt (meta s ! i)) s)
      = fold virt_unmark [slot_start (m_virt (meta s ! i))..<slot_start (m_virt (meta s ! i)) + unat (m_pages (meta s ! i))] (virt_bitmap s)"
    "meta (dma_free (m_virt (meta s ! i)) s) = (meta s)[i := (meta s ! i)\<lparr>m_used := False\<rparr>]"
    by (simp_all add: dma_free_def Let_def meta_free_def upd_meta_def virt_range_free_def slot_start_def)
qed

section \<open>An allocation\<close>

lemma virt_range_alloc_some:
  assumes "0 < n" "v + n \<le> 65536" "\<forall>k \<in> {v..<v + n}. \<not> virt_used (virt_bitmap s) k"
  obtains w where "virt_range_alloc n s = (virt_at w, s\<lparr>virt_bitmap := fold virt_mark [w..<w + n] (virt_bitmap s)\<rparr>)"
    "w + n \<le> 65536" "\<forall>k \<in> {w..<w + n}. \<not> virt_used (virt_bitmap s) k"
proof -
  have r: "case find_run (\<lambda>i. \<not> virt_used (virt_bitmap s) i) n 65536 0 0 0 of
      Some a \<Rightarrow> a + n \<le> 65536 \<and> (\<forall>k. a \<le> k \<and> k < a + n \<longrightarrow> \<not> virt_used (virt_bitmap s) k)
        \<and> (\<forall>b < a. \<exists>k. b \<le> k \<and> k < b + n \<and> \<not> \<not> virt_used (virt_bitmap s) k)
    | None \<Rightarrow> (\<forall>a. a + n \<le> 65536 \<longrightarrow> (\<exists>k. a \<le> k \<and> k < a + n \<and> \<not> \<not> virt_used (virt_bitmap s) k))"
    using find_run_spec [of 0 0 n 0 "\<lambda>i. \<not> virt_used (virt_bitmap s) i" 65536] assms(1) by simp
  show ?thesis
  proof (cases "find_run (\<lambda>i. \<not> virt_used (virt_bitmap s) i) n 65536 0 0 0")
    case None then show ?thesis using r assms(2,3) by fastforce
  next
    case (Some w)
    then show ?thesis using r by (intro that [of w]) (simp_all add: virt_range_alloc_def DMA_VIRT_PAGE_COUNT_def virt_at_def)
  qed
qed

text \<open>The frames are zero already when they are mapped: writing zeros through the mapping changes nothing.\<close>

lemma memset_zero: "(\<forall>x. p \<le> x \<and> x < p + n \<longrightarrow> m x = 0) \<Longrightarrow> memset m p 0 n = m"
  by (auto simp: memset_eq fun_eq_iff)

lemma fold_fixpoint: "(\<And>x. x \<in> set xs \<Longrightarrow> f x t = t) \<Longrightarrow> fold f xs t = t"
  by (induction xs) auto

lemma virt_clear_id:
  assumes ok: "vmm_ok I S t" "SKernel \<in> S" and v: "v + n \<le> 65536" "448 \<in> I" and a: "a + n \<le> 2 ^ 52"
    and x: "\<forall>j < n. xlate t SKernel (vpath (virt_at (v + j))) = Some (page_addr (a + j))"
    and z: "\<forall>x. x div PAGE_SIZE \<in> {a..<a + n} \<longrightarrow> mem t x = 0"
  shows "virt_clear (virt_at v) n t = t"
proof -
  have "fst (vmm_get_physical SKernel (virt_at v + of_nat j * of_nat PAGE_SIZE) t) = page_addr (a + j)" if j: "j < n" for j
  proof -
    have e: "virt_at v + of_nat j * of_nat PAGE_SIZE = virt_at (v + j)" by (simp add: virt_at_def algebra_simps)
    have "PML4_INDEX (virt_at (v + j)) \<in> I" using pml4_virt_at [of "v + j"] v j by simp
    moreover have "virt_at (v + j) AND NOT PAGE_MASK = 0"
    proof -
      have "unat (virt_at (v + j)) mod 4096 = 0" using unat_virt_at [of "v + j"] v j by simp
      then have "virt_at (v + j) AND PAGE_MASK = virt_at (v + j)" by (simp add: aligned_mask)
      then show ?thesis by (metis and.assoc bit.conj_cancel_right bit.conj_zero_right)
    qed
    ultimately show ?thesis unfolding e using vmm_get_physical_eq [OF ok] x j by simp
  qed
  moreover have "t\<lparr>mem := memset (mem t) (unat (page_addr (a + j))) 0 PAGE_SIZE\<rparr> = t" if j: "j < n" for j
  proof -
    have "unat (page_addr (a + j)) = (a + j) * 4096" using page_addr_unat [of "a + j"] a j by simp
    then have "memset (mem t) (unat (page_addr (a + j))) 0 PAGE_SIZE = mem t"
      using z j by (intro memset_zero allI impI) (metis add_less_cancel_left atLeastLessThan_iff div_nat_eqI le_add1 mult.commute mult_Suc_right add.commute)
    then show ?thesis by simp
  qed
  ultimately show ?thesis unfolding virt_clear_def by (intro fold_fixpoint) simp
qed

text \<open>The memory managers do not look at the bitmap and the table.\<close>

lemma dma_fields_upd [simp]:
  "free_pages (virt_bitmap_update f s) = free_pages s" "used_set (virt_bitmap_update f s) = used_set s"
  "bitmap_pages (virt_bitmap_update f s) = bitmap_pages s" "bitmap_bytes (virt_bitmap_update f s) = bitmap_bytes s"
  "view_of (virt_bitmap_update f s) = view_of s" "VIRT_TO_PHYS (virt_bitmap_update f s) = VIRT_TO_PHYS s"
  "PHYS_TO_VIRT (virt_bitmap_update f s) = PHYS_TO_VIRT s" "load (virt_bitmap_update f s) = load s"
  "free_pages (meta_update g s) = free_pages s" "used_set (meta_update g s) = used_set s"
  "bitmap_pages (meta_update g s) = bitmap_pages s" "bitmap_bytes (meta_update g s) = bitmap_bytes s"
  "view_of (meta_update g s) = view_of s" "VIRT_TO_PHYS (meta_update g s) = VIRT_TO_PHYS s"
  "PHYS_TO_VIRT (meta_update g s) = PHYS_TO_VIRT s" "load (meta_update g s) = load s"
  by (simp_all add: free_pages_def used_set_def bitmap_pages_def bitmap_bytes_def bitmap_test_def bitmap_index_def view_of_def cell_def
      VIRT_TO_PHYS_def PHYS_TO_VIRT_def load_def cell_at_def fun_eq_iff split: option.split)

lemma space_fields_upd [simp]:
  "space_pml4 (virt_bitmap_update f s) sp = space_pml4 s sp" "space_pml4_virt (virt_bitmap_update f s) sp = space_pml4_virt s sp"
  "space_pml4 (meta_update g s) sp = space_pml4 s sp" "space_pml4_virt (meta_update g s) sp = space_pml4_virt s sp"
  by (cases sp; simp)+

lemma vmm_ok_upd [simp]:
  "vmm_ok I S (virt_bitmap_update f s) = vmm_ok I S s" "vmm_ok I S (meta_update g s) = vmm_ok I S s"
  "space_tables I S (virt_bitmap_update f s) = space_tables I S s" "space_tables I S (meta_update g s) = space_tables I S s"
  "xlate (virt_bitmap_update f s) = xlate s" "xlate (meta_update g s) = xlate s"
  by (simp_all add: vmm_ok_def pmm_inv_def hhdm_ok_def struct_frames_def inj_on_def roots_def frames_def space_tables_def xlate_def fun_eq_iff)

text \<open>Pages that have just been handed out: no table, not the bitmap, and zero.\<close>

definition fresh_run :: "nat set \<Rightarrow> space_ptr set \<Rightarrow> 'a vmm_scheme \<Rightarrow> nat \<Rightarrow> nat \<Rightarrow> bool" where
  "fresh_run I S u a n \<longleftrightarrow> a + n \<le> 2 ^ 52
     \<and> (\<forall>k \<in> {a..<a + n}. k \<in> used_set u \<and> k \<notin> bitmap_pages u \<and> page_addr k \<notin> space_tables I S u \<and> (\<forall>x. x div PAGE_SIZE = k \<longrightarrow> mem u x = 0))"

lemma fresh_run_alloc:
  assumes ok: "vmm_ok I S s" and n: "0 < n" and u: "alloc_post s u a n"
  shows "fresh_run I S u a n"
proof -
  have inv: "pmm_inv s" using ok by (simp add: vmm_ok_def)
  note U = alloc_run_step [OF ok u]
  have rest: "same_rest s u" and sub: "{a..<a + n} \<subseteq> free_pages s" and free: "free_pages u = free_pages s - {a..<a + n}"
    and zero: "\<And>x. x div PAGE_SIZE \<in> {a..<a + n} \<Longrightarrow> mem u x = 0" using u by (auto simp: alloc_post_def)
  have "a + n - 1 \<in> free_pages s" using sub n by auto
  then have "a + n \<le> 2 ^ 52" using used_page_small [OF inv, of "a + n - 1"] n by simp
  moreover have "k \<in> used_set u \<and> k \<notin> bitmap_pages u \<and> page_addr k \<notin> space_tables I S u \<and> (\<forall>x. x div PAGE_SIZE = k \<longrightarrow> mem u x = 0)"
    if k: "k \<in> {a..<a + n}" for k
  proof -
    have f: "k \<in> free_pages s" "k \<notin> free_pages u" using sub free k by auto
    then have "k \<in> used_set u" by (auto simp: used_set_free free_pages_def same_restD(3) [OF rest])
    moreover have "k \<notin> bitmap_pages u"
      using bitmap_pages_used [OF inv] f(1) by (auto simp: same_rest_bitmap_pages [OF rest] used_set_free)
    moreover have "page_addr k \<notin> space_tables I S s"
      using space_tables_frames [OF ok] f(1) page_addr_frame(2) [OF used_page_small [OF inv disjI2 [OF f(1)]]]
      by (auto simp: frames_def used_set_free)
    ultimately show ?thesis using U(4) zero k by blast
  qed
  ultimately show ?thesis by (auto simp: fresh_run_def)
qed

lemma page_run_mask:
  assumes "a + n \<le> 2 ^ 52" "j < n" shows "nth_page (page_addr a) j AND PAGE_MASK = page_addr (a + j)"
proof -
  have e: "nth_page (page_addr a) j = page_addr (a + j)" by (simp only: nth_page_def page_addr_def of_nat_add of_nat_mult distrib_right)
  have "a + j < 2 ^ 52" using assms by linarith
  then show ?thesis unfolding e using page_addr_frame(1) [of "a + j"] aligned_mask [of "page_addr (a + j)"] by simp
qed

lemma dma_map_some:
  assumes ok: "vmm_ok I S u" "SKernel \<in> S" "448 \<in> I" and n: "v + n \<le> 65536"
    and u: "fresh_run I S u a n" and room: "3 * n \<le> card (free_pages u)"
  obtains t where "vmm_map_range SKernel (virt_at v) (page_addr a) n DMA_MAP_FLAGS u = (True, t)" "vmm_ok I S t"
    "\<forall>j < n. xlate t SKernel (vpath (virt_at (v + j))) = Some (page_addr (a + j))" "virt_clear (virt_at v) n t = t"
proof -
  have a: "a + n \<le> 2 ^ 52" using u by (simp add: fresh_run_def)
  have i: "\<forall>j < n. PML4_INDEX (nth_page (virt_at v) j) \<in> I" using ok(3) n by (simp add: nth_virt_at pml4_virt_at)
  have fl: "DMA_MAP_FLAGS AND PAGE_MASK = 0" by (simp add: DMA_MAP_FLAGS_def PAGE_MASK_def)
  have "n \<le> 2 ^ 36" using n by simp
  then have "\<exists>ok t. vmm_map_range SKernel (virt_at v) (page_addr a) n DMA_MAP_FLAGS u = (ok, t)
      \<and> (if ok then range_mapped I S u t SKernel (virt_at v) (page_addr a) 0 n else card (free_pages u) < 3 * n)"
    using map_range_from_cases [OF ok(1,2), of 0 n "virt_at v" DMA_MAP_FLAGS "page_addr a", unfolded add_0 nth_page_0] i fl
    unfolding vmm_map_range_def by (metis (full_types))
  then obtain t where t: "vmm_map_range SKernel (virt_at v) (page_addr a) n DMA_MAP_FLAGS u = (True, t)"
    "range_mapped I S u t SKernel (virt_at v) (page_addr a) 0 n"
    using room by (auto split: if_splits)
  have x: "\<forall>j < n. xlate t SKernel (vpath (virt_at (v + j))) = Some (page_addr (a + j))"
    using t(2) page_run_mask [OF a] by (simp add: range_mapped_def nth_virt_at)
  have st: "vmm_step I S u t" using t(2) by (simp add: range_mapped_def)
  have "mem t x = 0" if x: "x div PAGE_SIZE \<in> {a..<a + n}" for x
    using st u x not_bitmap_page [of x u] unfolding vmm_step_def fresh_run_def by metis
  then have "virt_clear (virt_at v) n t = t"
    using virt_clear_id [of I S t v n a] st ok n a x by (simp add: vmm_step_def)
  then show ?thesis using that t(1) st x by (auto simp: vmm_step_def)
qed

lemma meta_slot:
  assumes "live s \<noteq> {..<256}"
  shows "\<exists>i. scan (\<lambda>i. \<not> m_used (meta s ! i)) 0 256 = Some i \<and> i < 256 \<and> i \<notin> live s"
proof (cases "scan (\<lambda>i. \<not> m_used (meta s ! i)) 0 256")
  case None
  then have "live s = {..<256}" by (auto simp: scan_None_iff live_def)
  with assms show ?thesis by simp
qed (auto simp: scan_Some_iff live_def)

lemma live_free_slot:
  assumes "i < 256" "i \<notin> live s" "length (meta s) = 256" "meta t = (meta s)[i := m]"
    "meta u = (meta t)[i := (meta t ! i)\<lparr>m_used := False\<rparr>]"
  shows "live u = live s"
  using assms by (auto simp: live_def nth_list_update)

text \<open>The whole allocation, up to the invariant.\<close>

lemma dma_alloc_takes:
  fixes s :: "'a dma_sys_scheme"
  assumes ok: "vmm_ok I S s" "SKernel \<in> S" "448 \<in> I"
    and req: "sz \<noteq> 0" "alignment AND (alignment - 1) = 0" "boundary AND (boundary - 1) = 0" "zone \<noteq> DMA_ZONE_ISA"
    and pages: "pages = (sz + of_nat PAGE_SIZE - 1) div of_nat PAGE_SIZE" "0 < pages"
    and run: "free_run s (unat pages) a" "\<forall>b < a. \<not> free_run s (unat pages) b" "4 * unat pages \<le> card (free_pages s)"
    and fits: "dma_fits sz alignment boundary zone pages (page_addr a)"
    and range: "v + unat pages \<le> 65536" "\<forall>k \<in> {v..<v + unat pages}. \<not> virt_used (virt_bitmap s) k" and slot: "live s \<noteq> {..<256}"
  obtains w i t where "dma_alloc sz alignment boundary zone s = Some (virt_at w, t)" "vmm_ok I S t"
    "w + unat pages \<le> 65536" "\<forall>k \<in> {w..<w + unat pages}. \<not> virt_used (virt_bitmap s) k" "i < 256" "i \<notin> live s"
    "virt_bitmap t = fold virt_mark [w..<w + unat pages] (virt_bitmap s)"
    "meta t = (meta s)[i := \<lparr>m_virt = virt_at w, m_phys = page_addr a, m_size = sz, m_pages = pages, m_zone = zone, m_from_isa_pool = False, m_used = True\<rparr>]"
    "\<forall>j < unat pages. xlate t SKernel (vpath (virt_at (w + j))) = Some (page_addr (a + j))"
proof -
  let ?n = "unat pages"
  have n: "0 < ?n" using pages(2) by (simp add: word_less_nat_alt)
  have inv: "pmm_inv s" and z: "0 \<notin> free_pages s" using ok(1) by (auto simp: vmm_ok_def)
  obtain u where u: "pmm_alloc_pages ?n s = (page_addr a, u)" "alloc_post s u a ?n"
    using pmm_alloc_pages_some [OF inv n run(1,2)] by blast
  have a: "a \<in> free_pages s" using run(1) n by (auto simp: free_run_def)
  then have pa: "page_addr a \<noteq> 0" using z page_addr_unat [OF used_page_small [OF inv disjI2 [OF a]]] by (metis mult_eq_0_iff unat_0 zero_neq_numeral)
  have obs: "virt_bitmap u = virt_bitmap s" "meta u = meta s"
    using keeps_pmm(4) [OF keeps_dma(1), of ?n s] keeps_pmm(4) [OF keeps_dma(2), of ?n s] u(1) by auto
  obtain w where w: "virt_range_alloc ?n u = (virt_at w, u\<lparr>virt_bitmap := fold virt_mark [w..<w + ?n] (virt_bitmap u)\<rparr>)"
    "w + ?n \<le> 65536" "\<forall>k \<in> {w..<w + ?n}. \<not> virt_used (virt_bitmap s) k"
    using virt_range_alloc_some [OF n, of v u] range obs by metis
  let ?u = "u\<lparr>virt_bitmap := fold virt_mark [w..<w + ?n] (virt_bitmap u)\<rparr>"
  note U = alloc_run_step [OF ok(1) u(2)]
  have "fresh_run I S ?u a ?n" using fresh_run_alloc [OF ok(1) n u(2)] by (simp add: fresh_run_def)
  moreover have "vmm_ok I S ?u" "3 * ?n \<le> card (free_pages ?u)" using U run(3) by (simp_all add: vmm_step_def)
  ultimately obtain t where t: "vmm_map_range SKernel (virt_at w) (page_addr a) ?n DMA_MAP_FLAGS ?u = (True, t)" "vmm_ok I S t"
    "\<forall>j < ?n. xlate t SKernel (vpath (virt_at (w + j))) = Some (page_addr (a + j))" "virt_clear (virt_at w) ?n t = t"
    using dma_map_some ok(2,3) w(2) by metis
  have tobs: "virt_bitmap t = fold virt_mark [w..<w + ?n] (virt_bitmap s)" "meta t = meta s"
    using keeps_map_range [OF keeps_dma(1), of SKernel "virt_at w" "page_addr a" ?n DMA_MAP_FLAGS ?u]
      keeps_map_range [OF keeps_dma(2), of SKernel "virt_at w" "page_addr a" ?n DMA_MAP_FLAGS ?u] t(1) obs by auto
  let ?m = "\<lparr>m_virt = virt_at w, m_phys = page_addr a, m_size = sz, m_pages = pages, m_zone = zone, m_from_isa_pool = False, m_used = True\<rparr>"
  obtain i where i: "scan (\<lambda>i. \<not> m_used (meta s ! i)) 0 256 = Some i" "i < 256" "i \<notin> live s"
    using meta_slot [OF slot] by blast
  let ?t = "t\<lparr>meta := (meta s)[i := ?m]\<rparr>"
  have al: "dma_alloc sz alignment boundary zone s = Some (virt_at w, ?t)"
    using req pages(1) [symmetric] u(1) pa fits w(1) virt_at_nonzero [of w] w(2) t(1,4) i(1) tobs(2)
    by (simp add: dma_alloc_def dma_loop.simps dma_attempt_def dma_take_def meta_alloc_def META_CAP_def upd_meta_def)
  show ?thesis by (rule that [OF al _ w(2,3) i(2,3)]) (use t(2,3) tobs in simp_all)
qed


section \<open>A run that does not fit\<close>

text \<open>
  A run of frames that does not fit is given back before the next attempt, which finds the same run again:
  the loop does not end.
\<close>

definition misfit :: "u64 \<Rightarrow> u64 \<Rightarrow> u64 \<Rightarrow> int \<Rightarrow> u64 \<Rightarrow> 'a dma_sys_scheme \<Rightarrow> bool" where
  "misfit sz alignment boundary zone pages s \<longleftrightarrow> pmm_inv s \<and> 0 \<notin> free_pages s \<and> 0 < unat pages \<and> zone \<noteq> DMA_ZONE_ISA
     \<and> (\<exists>a. free_run s (unat pages) a \<and> (\<forall>b < a. \<not> free_run s (unat pages) b)
          \<and> \<not> dma_fits sz alignment boundary zone pages (page_addr a))"

lemma misfit_attempt:
  assumes "misfit sz alignment boundary zone pages s"
  shows "\<exists>t. dma_attempt sz alignment boundary zone pages s = (None, t) \<and> misfit sz alignment boundary zone pages t"
proof -
  let ?n = "unat pages"
  obtain a where inv: "pmm_inv s" "0 \<notin> free_pages s" "0 < ?n" "zone \<noteq> DMA_ZONE_ISA" and run: "free_run s ?n a" "\<forall>b < a. \<not> free_run s ?n b"
    and no: "\<not> dma_fits sz alignment boundary zone pages (page_addr a)"
    using assms by (auto simp: misfit_def)
  obtain u where u: "pmm_alloc_pages ?n s = (page_addr a, u)" "alloc_post s u a ?n"
    using pmm_alloc_pages_some [OF inv(1,3) run] by blast
  have U: "pmm_inv u" "same_rest s u" "{a..<a + ?n} \<subseteq> free_pages s" "free_pages u = free_pages s - {a..<a + ?n}"
    using u(2) by (auto simp: alloc_post_def)
  have "a \<in> free_pages s" "a + ?n - 1 \<in> free_pages s" using U(3) inv(3) by auto
  then have a: "a < 2 ^ 52" "a + ?n \<le> 2 ^ 52" "a \<noteq> 0"
    using used_page_small [OF inv(1), of a] used_page_small [OF inv(1), of "a + ?n - 1"] inv(2,3) by (simp, simp, metis)
  have pa: "page_addr a \<noteq> 0" "unat (page_addr a) div 4096 = a"
    using page_addr_unat [OF a(1)] a(3) by (auto simp: unat_eq_0 [symmetric])
  let ?t = "pmm_free_pages (page_addr a) ?n u"
  have "{a..<a + ?n} \<inter> bitmap_pages u = {}"
    using bitmap_pages_used [OF inv(1)] U(3) by (auto simp: same_rest_bitmap_pages [OF U(2)] used_set_free)
  then have t: "pmm_inv ?t" "free_pages ?t = free_pages u \<union> ({a..<a + ?n} \<inter> {..<total_pages u})"
    using pmm_free_pages_post [OF U(1), of "page_addr a" ?n] pa a(2) by (auto simp: release_post_def)
  have "free_pages ?t = free_pages s" using t(2) U(3,4) by (auto simp: free_pages_def same_restD(3) [OF U(2)])
  then have "misfit sz alignment boundary zone pages ?t" using t(1) inv run no by (auto simp: misfit_def free_run_def)
  then show ?thesis using u(1) pa(1) no inv(4) by (simp add: dma_attempt_def dma_take_def dma_give_back_def)
qed

lemma dma_loop_hangs:
  assumes "dma_loop sz alignment boundary zone pages s = Some r"
  shows "\<not> misfit sz alignment boundary zone pages s"
proof (rule dma_loop.raw_induct [where P = "\<lambda>sz alignment boundary zone pages s r. \<not> misfit sz alignment boundary zone pages s", OF _ assms])
  fix dl :: "u64 \<Rightarrow> u64 \<Rightarrow> u64 \<Rightarrow> int \<Rightarrow> u64 \<Rightarrow> 'a dma_sys_scheme \<Rightarrow> (u64 \<times> 'a dma_sys_scheme) option"
    and sz alignment boundary zone pages and s :: "'a dma_sys_scheme" and r
  assume IH: "\<And>sz alignment boundary zone pages s r. dl sz alignment boundary zone pages s = Some r \<Longrightarrow> \<not> misfit sz alignment boundary zone pages s"
    and step: "(case dma_attempt sz alignment boundary zone pages s of
      (None, s) \<Rightarrow> dl sz alignment boundary zone pages s | (Some p, s) \<Rightarrow> Some (p, s)) = Some r"
  show "\<not> misfit sz alignment boundary zone pages s"
    using misfit_attempt [of sz alignment boundary zone pages s] IH step by fastforce
qed

lemma dma_alloc_misfit_hangs:
  assumes "misfit sz alignment boundary zone ((sz + of_nat PAGE_SIZE - 1) div of_nat PAGE_SIZE) s"
    "sz \<noteq> 0" "alignment AND (alignment - 1) = 0" "boundary AND (boundary - 1) = 0"
  shows "dma_alloc sz alignment boundary zone s = None"
proof (rule ccontr)
  assume "dma_alloc sz alignment boundary zone s \<noteq> None"
  then obtain r where "dma_loop sz alignment boundary zone ((sz + of_nat PAGE_SIZE - 1) div of_nat PAGE_SIZE) s = Some r"
    using assms(2-4) by (auto simp: dma_alloc_def)
  with dma_loop_hangs assms(1) show False by blast
qed

section \<open>An example\<close>

text \<open>A machine of 20000 pages with an empty top table and no device memory in use.\<close>

definition ddemo :: dma_sys where
  "ddemo = \<lparr>mem = (\<lambda>a. if a = 4096 then 7 else 0), hhdm_offset = 0xFFFF800000000000, bitmap = Some 4096,
     bitmap_size = 2500, total_pages = 20000, used_pages = 3, highest_addr = 0x4E20000,
     kernel_space = \<lparr>pml4 = 0x2000, pml4_virt = 0xFFFF800000002000\<rparr>, cr3 = 0x2000,
     virt_bitmap = replicate 1024 0,
     meta = replicate 256 \<lparr>m_virt = 0, m_phys = 0, m_size = 0, m_pages = 0, m_zone = 0, m_from_isa_pool = False, m_used = False\<rparr>,
     isa_nodes = replicate 64 \<lparr>node_phys = 0, node_next = None\<rparr>, isa_free_list = None, isa_pool_size = 0\<rparr>"

lemma ddemo_fields [simp]: "total_pages ddemo = 20000" "bitmap_bytes ddemo = {4096..<6596}" "bitmap ddemo = Some 4096" "bitmap_size ddemo = 2500"
    "used_pages ddemo = 3" "virt_bitmap ddemo = replicate 1024 0" "live ddemo = {}"
  by (simp_all add: ddemo_def bitmap_bytes_def live_def)

lemma ddemo_pages: "bitmap_test ddemo p \<longleftrightarrow> p < 3"
proof -
  have "(7::u8) = mask 3" by (simp add: mask_eq_exp_minus_1)
  then have "bit (7::u8) (p mod 8) \<longleftrightarrow> p mod 8 < 3" by (simp only: bit_mask_iff) auto
  moreover have "p div 8 = 0 \<Longrightarrow> p mod 8 = p" by simp
  moreover have "p div 8 \<noteq> 0 \<Longrightarrow> \<not> p < 3" by auto
  ultimately show ?thesis by (cases "p div 8 = 0") (auto simp: bitmap_test_bit bitmap_index_def ddemo_def)
qed

lemma ddemo_sets: "free_pages ddemo = {3..<20000}" "used_set ddemo = {0, 1, 2}" "bitmap_pages ddemo = {1}"
proof -
  show "free_pages ddemo = {3..<20000}" "used_set ddemo = {0, 1, 2}"
    by (auto simp: free_pages_def used_set_def ddemo_pages)
  have "a div 4096 = 1" if "a \<in> {4096..<6596}" for a :: nat using that by auto
  moreover have "(4096::nat) \<in> {4096..<6596}" by simp
  ultimately show "bitmap_pages ddemo = {1}" unfolding bitmap_pages_def ddemo_fields by force
qed

lemma ddemo_ok: "vmm_ok {448} {SKernel} ddemo" "dma_ok ddemo"
proof -
  have "a div 4096 = 1" if "a \<in> {4096..<6596}" for a :: nat using that by auto
  then have inv: "pmm_inv ddemo" by (auto simp: pmm_inv_def ddemo_sets)
  have p: "space_pml4 ddemo SKernel = 0x2000" "space_pml4_virt ddemo SKernel = PHYS_TO_VIRT ddemo 0x2000"
    "hhdm_ok ddemo" by (simp_all add: ddemo_def PHYS_TO_VIRT_def hhdm_ok_def)
  have "cell ddemo 0x2000 i = 0" if "i < 512" for i
    unfolding cell_def using that by (intro read64_0) (auto simp: ddemo_def)
  then have w: "walk (view_of ddemo) 0x2000 path = (if path = [] then Some 0x2000 else None)" if "good_path {448} path" for path
    using that by (cases path) (auto simp: good_path_def view_of_def)
  have "tables (view_of ddemo) {448} {0x2000} = {0x2000}" "one_path (view_of ddemo) {448} {0x2000}"
    by (auto simp: tables_def one_path_def w split: if_splits intro: exI [of _ "[]"])
  moreover have "0x2000 \<in> frames ddemo" by (simp add: frames_def ddemo_sets)
  ultimately show "vmm_ok {448} {SKernel} ddemo"
    using p inv ddemo_sets(1) by (simp add: vmm_ok_def struct_frames_def roots_def tree_ok_def)
  show "dma_ok ddemo" by (simp add: dma_ok_def) (simp add: ddemo_def)
qed


end
