(* ===== verification/Stdio.thy ===== *)
theory Stdio
  imports Vfs
begin

text \<open>
  Formatted output, \<^verbatim>\<open>src/kernel/stdio.c\<close>. A format and a string argument are the lists of their
  characters before the terminating zero. An argument list is the list of the values that are passed; to
  take an argument that is not there, or a number where a string was passed, has no result.
\<close>

section \<open>Characters and strings\<close>

definition fputc :: "u8 \<Rightarrow> int \<Rightarrow> 'a con_sys_scheme \<Rightarrow> 'a con_sys_scheme" where
  "fputc c fd s = snd (VFS_Write_old fd [c] s)"

fun fputs :: "u8 list \<Rightarrow> int \<Rightarrow> 'a con_sys_scheme \<Rightarrow> 'a con_sys_scheme" where
  "fputs [] fd s = s"
| "fputs (c # str) fd s = fputs str fd (fputc c fd s)"

definition putc :: "u8 \<Rightarrow> 'a con_sys_scheme \<Rightarrow> 'a con_sys_scheme" where
  "putc c s = fputc c 1 s"

definition puts :: "u8 list \<Rightarrow> 'a con_sys_scheme \<Rightarrow> 'a con_sys_scheme" where
  "puts str s = fputs str 1 s"

section \<open>Numbers\<close>

definition g_HexChars :: "u8 list" where
  "g_HexChars = bytes ''0123456789abcdef''"

text \<open>
  The digits, least significant first, in a buffer of 32 characters. More digits than that, and a
  radix that the table of digits does not have, have no result.
\<close>

partial_function (option) digit_loop :: "u64 \<Rightarrow> u64 \<Rightarrow> u8 list \<Rightarrow> u8 list option" where
  "digit_loop radix number buffer =
     (if radix = 0 \<or> 16 < radix \<or> 32 \<le> length buffer then None
      else let buffer = buffer @ [g_HexChars ! unat (number mod radix)]; number = number div radix
           in if number > 0 then digit_loop radix number buffer else Some buffer)"

definition fprintf_unsigned :: "int \<Rightarrow> u64 \<Rightarrow> u64 \<Rightarrow> 'a con_sys_scheme \<Rightarrow> 'a con_sys_scheme option" where
  "fprintf_unsigned fd number radix s = do {
     buffer \<leftarrow> digit_loop radix number [];
     Some (fold (\<lambda>c. fputc c fd) (rev buffer) s) }"

definition fprintf_signed :: "int \<Rightarrow> u64 \<Rightarrow> u64 \<Rightarrow> 'a con_sys_scheme \<Rightarrow> 'a con_sys_scheme option" where
  "fprintf_signed fd number radix s =
     (if sint number < 0 then fprintf_unsigned fd (- number) radix (fputc (of_char CHR ''-'') fd s)
      else fprintf_unsigned fd number radix s)"

section \<open>Formats\<close>

datatype va_value = VNum u64 | VStr "u8 list"

datatype printf_state = PRINTF_NORMAL | PRINTF_LENGTH | PRINTF_SHORT | PRINTF_LONG | PRINTF_SPEC

datatype printf_length = LENGTH_DEFAULT | LENGTH_SHORT_SHORT | LENGTH_SHORT | LENGTH_LONG | LENGTH_LONG_LONG

fun va_num :: "va_value list \<Rightarrow> (u64 \<times> va_value list) option" where
  "va_num (VNum v # args) = Some (v, args)"
| "va_num args = None"

fun va_str :: "va_value list \<Rightarrow> (u8 list \<times> va_value list) option" where
  "va_str (VStr v # args) = Some (v, args)"
| "va_str args = None"

text \<open>The next argument with the length of the directive: only \<^verbatim>\<open>l\<close> and \<^verbatim>\<open>ll\<close> take all 64 bits.\<close>

definition print_number :: "int \<Rightarrow> bool \<Rightarrow> u64 \<Rightarrow> printf_length \<Rightarrow> va_value list \<Rightarrow> 'a con_sys_scheme
    \<Rightarrow> (va_value list \<times> 'a con_sys_scheme) option" where
  "print_number fd sign radix len args s = do {
     (v, args) \<leftarrow> va_num args;
     s \<leftarrow> (if sign
           then (if len \<in> {LENGTH_LONG, LENGTH_LONG_LONG} then fprintf_signed fd v radix s
                 else fprintf_signed fd (scast (ucast v :: u32)) radix s)
           else (if len \<in> {LENGTH_LONG, LENGTH_LONG_LONG} then fprintf_unsigned fd v radix s
                 else fprintf_unsigned fd (ucast (ucast v :: u32)) radix s));
     Some (args, s) }"

definition printf_spec :: "int \<Rightarrow> printf_length \<Rightarrow> u8 \<Rightarrow> va_value list \<Rightarrow> 'a con_sys_scheme
    \<Rightarrow> (va_value list \<times> 'a con_sys_scheme) option" where
  "printf_spec fd len c args s =
     (if c = of_char CHR ''c'' then do { (v, args) \<leftarrow> va_num args; Some (args, fputc (ucast v) fd s) }
      else if c = of_char CHR ''s'' then do { (v, args) \<leftarrow> va_str args; Some (args, fputs v fd s) }
      else if c = of_char CHR ''%'' then Some (args, fputc (of_char CHR ''%'') fd s)
      else if c \<in> set (bytes ''di'') then print_number fd True 10 len args s
      else if c = of_char CHR ''u'' then print_number fd False 10 len args s
      else if c \<in> set (bytes ''Xxp'') then print_number fd False 16 len args s
      else if c = of_char CHR ''o'' then print_number fd False 8 len args s
      else Some (args, s))"

text \<open>After a directive the state and the length are reset.\<close>

fun vfprintf_loop :: "int \<Rightarrow> printf_state \<Rightarrow> printf_length \<Rightarrow> u8 list \<Rightarrow> va_value list \<Rightarrow> 'a con_sys_scheme
    \<Rightarrow> 'a con_sys_scheme option" where
  "vfprintf_loop fd st len [] args s = Some s"
| "vfprintf_loop fd st len (c # fmt) args s =
     (let spec = do { (args, s) \<leftarrow> printf_spec fd len c args s; vfprintf_loop fd PRINTF_NORMAL LENGTH_DEFAULT fmt args s } in
      case st of
        PRINTF_NORMAL \<Rightarrow>
          if c = of_char CHR ''%'' then vfprintf_loop fd PRINTF_LENGTH len fmt args s
          else vfprintf_loop fd PRINTF_NORMAL len fmt args (fputc c fd s)
      | PRINTF_LENGTH \<Rightarrow>
          if c = of_char CHR ''h'' then vfprintf_loop fd PRINTF_SHORT LENGTH_SHORT fmt args s
          else if c = of_char CHR ''l'' then vfprintf_loop fd PRINTF_LONG LENGTH_LONG fmt args s
          else if c \<in> set (bytes ''0123456789-+ #'') then vfprintf_loop fd PRINTF_LENGTH len fmt args s
          else spec
      | PRINTF_SHORT \<Rightarrow>
          if c = of_char CHR ''h'' then vfprintf_loop fd PRINTF_SPEC LENGTH_SHORT_SHORT fmt args s else spec
      | PRINTF_LONG \<Rightarrow>
          if c = of_char CHR ''l'' then vfprintf_loop fd PRINTF_SPEC LENGTH_LONG_LONG fmt args s else spec
      | PRINTF_SPEC \<Rightarrow> spec)"

definition vfprintf :: "int \<Rightarrow> u8 list \<Rightarrow> va_value list \<Rightarrow> 'a con_sys_scheme \<Rightarrow> 'a con_sys_scheme option" where
  "vfprintf fd fmt args s = vfprintf_loop fd PRINTF_NORMAL LENGTH_DEFAULT fmt args s"

definition fprintf :: "int \<Rightarrow> u8 list \<Rightarrow> va_value list \<Rightarrow> 'a con_sys_scheme \<Rightarrow> 'a con_sys_scheme option" where
  "fprintf fd fmt args s = vfprintf fd fmt args s"

definition printf :: "u8 list \<Rightarrow> va_value list \<Rightarrow> 'a con_sys_scheme \<Rightarrow> 'a con_sys_scheme option" where
  "printf fmt args s = vfprintf 1 fmt args s"

section \<open>Buffers\<close>

text \<open>The counter of the loop has 16 bits: it does not reach a \<open>count\<close> above 65535, and the loop does not end.\<close>

definition hex_byte_out :: "int \<Rightarrow> u8 \<Rightarrow> 'a con_sys_scheme \<Rightarrow> 'a con_sys_scheme" where
  "hex_byte_out fd b s = fputc (g_HexChars ! unat (b AND 0xF)) fd (fputc (g_HexChars ! unat (drop_bit 4 b)) fd s)"

definition fprint_buffer :: "int \<Rightarrow> u8 list \<Rightarrow> u8 list \<Rightarrow> u32 \<Rightarrow> 'a con_sys_scheme \<Rightarrow> 'a con_sys_scheme option" where
  "fprint_buffer fd msg buffer count s =
     (if 0xFFFF < count \<or> length buffer < unat count then None
      else Some (fputs [10] fd (fold (hex_byte_out fd) (take (unat count) buffer) (fputs msg fd s))))"

definition print_buffer :: "u8 list \<Rightarrow> u8 list \<Rightarrow> u32 \<Rightarrow> 'a con_sys_scheme \<Rightarrow> 'a con_sys_scheme option" where
  "print_buffer msg buffer count s = fprint_buffer 1 msg buffer count s"

text \<open>The same for the debug port.\<close>

definition debugc :: "u8 \<Rightarrow> 'a con_sys_scheme \<Rightarrow> 'a con_sys_scheme" where
  "debugc c s = fputc c 3 s"

definition debugs :: "u8 list \<Rightarrow> 'a con_sys_scheme \<Rightarrow> 'a con_sys_scheme" where
  "debugs str s = fputs str 3 s"

definition debugf :: "u8 list \<Rightarrow> va_value list \<Rightarrow> 'a con_sys_scheme \<Rightarrow> 'a con_sys_scheme option" where
  "debugf fmt args s = vfprintf 3 fmt args s"

definition debug_buffer :: "u8 list \<Rightarrow> u8 list \<Rightarrow> u32 \<Rightarrow> 'a con_sys_scheme \<Rightarrow> 'a con_sys_scheme option" where
  "debug_buffer msg buffer count s = fprint_buffer 3 msg buffer count s"

section \<open>What is printed\<close>

text \<open>The digits of a number, most significant first.\<close>

fun num_digits :: "nat \<Rightarrow> nat \<Rightarrow> nat list" where
  "num_digits b n = (if n < b \<or> b < 2 then [n] else num_digits b (n div b) @ [n mod b])"

declare num_digits.simps [simp del]

definition num_value :: "nat \<Rightarrow> nat list \<Rightarrow> nat" where
  "num_value b ds = foldl (\<lambda>v d. b * v + d) 0 ds"

lemma num_digits_value: "num_value b (num_digits b n) = n"
proof (induction b n rule: num_digits.induct)
  case (1 b n)
  show ?case
  proof (cases "n < b \<or> b < 2")
    case False
    then show ?thesis using 1 by (subst num_digits.simps) (simp add: num_value_def)
  qed (simp add: num_digits.simps [of b n] num_value_def)
qed

lemma num_digits_bound: "2 \<le> b \<Longrightarrow> d \<in> set (num_digits b n) \<Longrightarrow> d < b"
proof (induction b n rule: num_digits.induct)
  case (1 b n)
  then show ?case by (cases "n < b") (auto simp: num_digits.simps [of b n])
qed

lemma num_digits_length: "8 \<le> b \<Longrightarrow> n < 8 ^ k \<Longrightarrow> 0 < k \<Longrightarrow> length (num_digits b n) \<le> k"
proof (induction k arbitrary: n)
  case (Suc k)
  show ?case
  proof (cases "n < b")
    case False
    have "n div b \<le> n div 8" using Suc.prems(1) by (simp add: div_le_mono2)
    moreover have "n div 8 < 8 ^ k" using Suc.prems(2) by (simp add: less_mult_imp_div_less mult.commute)
    ultimately have "n div b < 8 ^ k" by simp
    moreover have "0 < k" using False Suc.prems by (cases k) auto
    ultimately show ?thesis using Suc.IH [of "n div b"] Suc.prems(1) False by (subst num_digits.simps) simp
  qed (simp add: num_digits.simps)
qed simp

definition digit_text :: "nat \<Rightarrow> nat \<Rightarrow> u8 list" where
  "digit_text b n = map (\<lambda>d. g_HexChars ! d) (num_digits b n)"

lemma digit_loop_digits:
  assumes "2 \<le> radix" "radix \<le> 16"
  shows "length buf + length (num_digits (unat radix) (unat n)) \<le> 32 \<Longrightarrow>
    digit_loop radix n buf = Some (buf @ rev (digit_text (unat radix) (unat n)))"
proof (induction "unat n" arbitrary: n buf rule: less_induct)
  case less
  have r: "radix \<noteq> 0" "\<not> 16 < radix" "2 \<le> unat radix" using assms by (auto simp: word_le_nat_alt word_less_nat_alt)
  have l: "length buf < 32" using less.prems by (subst (asm) num_digits.simps) (auto split: if_splits)
  have z: "n div radix > 0 \<longleftrightarrow> \<not> unat n < unat radix"
    using r(1) by (auto simp: word_less_nat_alt unat_div div_greater_zero_iff unat_gt_0)
  show ?case
  proof (cases "unat n < unat radix")
    case True
    then show ?thesis using r l z
      by (subst digit_loop.simps) (simp add: digit_text_def num_digits.simps [of _ "unat n"] unat_mod)
  next
    case False
    have d: "unat (n div radix) < unat n" using False r(3) by (simp add: unat_div)
    have "length (buf @ [g_HexChars ! unat (n mod radix)]) + length (num_digits (unat radix) (unat (n div radix))) \<le> 32"
      using less.prems False r(3) by (subst (asm) num_digits.simps) (simp add: unat_div)
    from less.hyps [OF d this] show ?thesis using r l z False
      by (subst digit_loop.simps) (simp add: digit_text_def num_digits.simps [of _ "unat n"] unat_div unat_mod)
  qed
qed

lemma fprintf_unsigned_digits:
  assumes "8 \<le> radix" "radix \<le> 16"
  shows "fprintf_unsigned fd n radix s = Some (fold (\<lambda>c. fputc c fd) (digit_text (unat radix) (unat n)) s)"
proof -
  have "unat n < 8 ^ 22" using unat_lt64 [of n] by simp
  then have "length (num_digits (unat radix) (unat n)) \<le> 22" using assms by (intro num_digits_length) (auto simp: word_le_nat_alt)
  then show ?thesis using assms digit_loop_digits [of radix "[]" n] order_trans [of 2 8 radix]
    by (simp add: fprintf_unsigned_def)
qed

definition signed_text :: "int \<Rightarrow> u8 list" where
  "signed_text i = (if i < 0 then [of_char CHR ''-''] else []) @ digit_text 10 (nat \<bar>i\<bar>)"

lemma unat_neg_sint:
  fixes n :: u64
  assumes "sint n < 0" shows "unat (- n) = nat \<bar>sint n\<bar>"
proof -
  have "- (2 ^ 63) \<le> sint n" using sint_range_size [of n] by (simp add: word_size)
  have "uint (- n) = (- sint n) mod 2 ^ 64"
    using uint_word_of_int [where 'a=64, of "- sint n"] by simp
  also have "\<dots> = - sint n" using assms \<open>- (2 ^ 63) \<le> sint n\<close> by (intro mod_pos_pos_trivial) auto
  finally show ?thesis using assms nat_uint_eq [of "- n"] by simp
qed

lemma fprintf_signed_digits: "fprintf_signed fd n 10 s = Some (fold (\<lambda>c. fputc c fd) (signed_text (sint n)) s)"
proof (cases "sint n < 0")
  case True
  then have "unat (- n) = nat (- sint n)" using unat_neg_sint [of n] by simp
  then show ?thesis using True fprintf_unsigned_digits [of 10 fd "- n"] by (simp add: fprintf_signed_def signed_text_def)
next
  case False
  then have "unat n = nat (sint n)" using uint_word_of_int [where 'a=64, of "sint n"] sint_lt [of n] nat_uint_eq [of n] by simp
  then show ?thesis using False fprintf_unsigned_digits [of 10 fd n s] by (simp add: fprintf_signed_def signed_text_def)
qed

lemma fputs_fold: "fputs str fd s = fold (\<lambda>c. fputc c fd) str s"
  by (induction str arbitrary: s) auto

text \<open>The pieces of a format, each with its text in the format, its arguments and what it prints.\<close>

datatype piece = PText "u8 list" | PPercent | PChar u64 | PString "u8 list" | PInt u64 | PUnsigned u64 | PHex u64 | POct u64
  | PLongInt u64 | PLongUnsigned u64 | PLongHex u64

fun piece_format :: "piece \<Rightarrow> u8 list" where
  "piece_format (PText t) = t"
| "piece_format PPercent = bytes ''%%''"
| "piece_format (PChar c) = bytes ''%c''"
| "piece_format (PString t) = bytes ''%s''"
| "piece_format (PInt v) = bytes ''%d''"
| "piece_format (PUnsigned v) = bytes ''%u''"
| "piece_format (PHex v) = bytes ''%x''"
| "piece_format (POct v) = bytes ''%o''"
| "piece_format (PLongInt v) = bytes ''%ld''"
| "piece_format (PLongUnsigned v) = bytes ''%lu''"
| "piece_format (PLongHex v) = bytes ''%llx''"

fun piece_args :: "piece \<Rightarrow> va_value list" where
  "piece_args (PText t) = []"
| "piece_args PPercent = []"
| "piece_args (PString t) = [VStr t]"
| "piece_args (PChar v) = [VNum v]"
| "piece_args (PInt v) = [VNum v]"
| "piece_args (PUnsigned v) = [VNum v]"
| "piece_args (PHex v) = [VNum v]"
| "piece_args (POct v) = [VNum v]"
| "piece_args (PLongInt v) = [VNum v]"
| "piece_args (PLongUnsigned v) = [VNum v]"
| "piece_args (PLongHex v) = [VNum v]"

fun piece_text :: "piece \<Rightarrow> u8 list" where
  "piece_text (PText t) = t"
| "piece_text PPercent = bytes ''%''"
| "piece_text (PString t) = t"
| "piece_text (PChar v) = [ucast v]"
| "piece_text (PInt v) = signed_text (sint (ucast v :: u32))"
| "piece_text (PUnsigned v) = digit_text 10 (unat v mod 2 ^ 32)"
| "piece_text (PHex v) = digit_text 16 (unat v mod 2 ^ 32)"
| "piece_text (POct v) = digit_text 8 (unat v mod 2 ^ 32)"
| "piece_text (PLongInt v) = signed_text (sint v)"
| "piece_text (PLongUnsigned v) = digit_text 10 (unat v)"
| "piece_text (PLongHex v) = digit_text 16 (unat v)"

fun piece_ok :: "piece \<Rightarrow> bool" where
  "piece_ok (PText t) = (of_char CHR ''%'' \<notin> set t)"
| "piece_ok p = True"

lemma vfprintf_text:
  "of_char CHR ''%'' \<notin> set t \<Longrightarrow> vfprintf_loop fd PRINTF_NORMAL LENGTH_DEFAULT (t @ fmt) args s
     = vfprintf_loop fd PRINTF_NORMAL LENGTH_DEFAULT fmt args (fold (\<lambda>c. fputc c fd) t s)"
  by (induction t arbitrary: s) auto

lemma sint_scast32: "sint (scast (w :: u32) :: u64) = sint w"
  by (rule sint_up_scast) (simp add: is_up)

lemma unat_ucast32: "unat (ucast (ucast (v :: u64) :: u32) :: u64) = unat v mod 2 ^ 32"
  by (simp add: unsigned_ucast_eq take_bit_eq_mod unat_mod)

lemma vfprintf_piece:
  "piece_ok p \<Longrightarrow> vfprintf_loop fd PRINTF_NORMAL LENGTH_DEFAULT (piece_format p @ fmt) (piece_args p @ args) s
     = vfprintf_loop fd PRINTF_NORMAL LENGTH_DEFAULT fmt args (fold (\<lambda>c. fputc c fd) (piece_text p) s)"
  by (cases p) (simp_all add: vfprintf_text bytes_def printf_spec_def print_number_def fprintf_signed_digits fprintf_unsigned_digits
      fputs_fold sint_scast32 unat_ucast32)

lemma vfprintf_pieces:
  "\<forall>p \<in> set ps. piece_ok p \<Longrightarrow> vfprintf fd (concat (map piece_format ps)) (concat (map piece_args ps)) s
     = Some (fold (\<lambda>c. fputc c fd) (concat (map piece_text ps)) s)"
  unfolding vfprintf_def by (induction ps arbitrary: s) (auto simp: vfprintf_piece)

lemma num_digits_leading: "2 \<le> b \<Longrightarrow> 0 < n \<Longrightarrow> hd (num_digits b n) \<noteq> 0"
proof (induction b n rule: num_digits.induct)
  case (1 b n)
  have "num_digits b m \<noteq> []" for m by (simp add: num_digits.simps [of b m])
  then show ?case using 1 by (cases "n < b") (auto simp: num_digits.simps [of b n] div_greater_zero_iff)
qed

text \<open>
  C40: \<^verbatim>\<open>vfprintf\<close> prints a format of text and directives as the pieces one after the other, each directive with its argument:
  a number without a length modifier is cut to 32 bits, a signed one has a sign. The digits of a number are those of its
  representation in the base, without leading zeros.
\<close>

theorem vfprintf_prints:
  assumes "\<forall>p \<in> set ps. piece_ok p" "2 \<le> b"
  shows "vfprintf fd (concat (map piece_format ps)) (concat (map piece_args ps)) s
      = Some (fold (\<lambda>c. fputc c fd) (concat (map piece_text ps)) s)
    \<and> num_value b (num_digits b n) = n \<and> (\<forall>d \<in> set (num_digits b n). d < b) \<and> (0 < n \<longrightarrow> hd (num_digits b n) \<noteq> 0)"
  using assms by (auto simp: vfprintf_pieces num_digits_value intro: num_digits_bound dest: num_digits_leading)

theorem vfprintf_prints_witness:
  "\<forall>s :: con_sys. vfprintf 1 (bytes ''<F%d> %lu'') [VNum (-3), VNum 250] s = Some (fold (\<lambda>c. fputc c 1) (bytes ''<F-3> 250'') s)"
proof
  fix s :: con_sys
  show "vfprintf 1 (bytes ''<F%d> %lu'') [VNum (-3), VNum 250] s = Some (fold (\<lambda>c. fputc c 1) (bytes ''<F-3> 250'') s)"
    using vfprintf_prints [of "[PText (bytes ''<F''), PInt (-3), PText (bytes ''> ''), PLongUnsigned 250]" 10 1 s 250]
    by (simp add: bytes_def signed_text_def digit_text_def num_digits.simps g_HexChars_def)
qed

end
