(* ===== verification/Keyboard.thy ===== *)
theory Keyboard
  imports Stdio
begin

text \<open>
  The keyboards: \<^verbatim>\<open>src/kernel/drivers/input/keyboard/ps2.c\<close>, the reports of USB keyboards in
  \<^verbatim>\<open>src/kernel/drivers/usb/xhci/hid_keyboard.c\<close>, and \<^verbatim>\<open>src/kernel/drivers/driverman.c\<close>, which passes
  the keys to the console. What the hardware delivers is an argument: the scan code that is read from the port, and for
  USB the list of what the waits for a transfer give, nothing or a report.
\<close>

section \<open>PS/2\<close>

record ps2_keyboard =
  shift_pressed :: bool
  ctrl_pressed :: bool
  alt_pressed :: bool
  capslock_on :: bool
  keyboard_buffer :: "u8 list"
  buffer_write_pos :: u32
  buffer_read_pos :: u32

definition padded :: "u8 list \<Rightarrow> u8 list" where
  "padded bs = bs @ replicate (128 - length bs) 0"

definition scancode_lowercase :: "u8 list" where
  "scancode_lowercase = padded ([0, 27] @ bytes ''1234567890-='' @ [8, 9] @ bytes ''qwertyuiop[]'' @ [10, 0] @ bytes ''asdfghjkl;'' @ [39, 96, 0, 92]
     @ bytes ''zxcvbnm,./'' @ [0] @ bytes ''*'' @ [0] @ bytes '' '' @ replicate 16 0 @ bytes ''-'' @ [0, 0, 0] @ bytes ''+'')"

definition scancode_uppercase :: "u8 list" where
  "scancode_uppercase = padded ([0, 27] @ bytes ''!@#$%^&*()_+'' @ [8, 9] @ bytes ''QWERTYUIOP{}'' @ [10, 0] @ bytes ''ASDFGHJKL:'' @ [34, 126, 0, 124]
     @ bytes ''ZXCVBNM<>?'' @ [0] @ bytes ''*'' @ [0] @ bytes '' '' @ replicate 16 0 @ bytes ''-'' @ [0, 0, 0] @ bytes ''+'')"

definition keyboard_buffer_push :: "u8 \<Rightarrow> ps2_keyboard \<Rightarrow> ps2_keyboard" where
  "keyboard_buffer_push c k =
     (let next_pos = (buffer_write_pos k + 1) mod 256 in
      if next_pos \<noteq> buffer_read_pos k
      then k\<lparr>keyboard_buffer := (keyboard_buffer k)[unat (buffer_write_pos k) := c], buffer_write_pos := next_pos\<rparr>
      else k)"

text \<open>The result holds the character that the callback is called with.\<close>

definition keyboard_irq_handler :: "u8 \<Rightarrow> ps2_keyboard \<Rightarrow> u8 option \<times> ps2_keyboard" where
  "keyboard_irq_handler code k =
     (let released = (code AND 0x80 \<noteq> 0); scancode = code AND 0x7F in
      if scancode = 0x2A \<or> scancode = 0x36 then (None, k\<lparr>shift_pressed := \<not> released\<rparr>)
      else if scancode = 0x1D then (None, k\<lparr>ctrl_pressed := \<not> released\<rparr>)
      else if scancode = 0x38 then (None, k\<lparr>alt_pressed := \<not> released\<rparr>)
      else if scancode = 0x3A \<and> \<not> released then (None, k\<lparr>capslock_on := \<not> capslock_on k\<rparr>)
      else if released then (None, k)
      else let c = (if shift_pressed k \<noteq> capslock_on k then scancode_uppercase else scancode_lowercase) ! unat scancode in
           if c \<noteq> 0 then (Some c, keyboard_buffer_push c k) else (None, k))"

definition ps2_keyboard_getchar :: "ps2_keyboard \<Rightarrow> u8 \<times> ps2_keyboard" where
  "ps2_keyboard_getchar k =
     (if buffer_read_pos k = buffer_write_pos k then (0, k)
      else (keyboard_buffer k ! unat (buffer_read_pos k), k\<lparr>buffer_read_pos := (buffer_read_pos k + 1) mod 256\<rparr>))"

definition ps2_keyboard_has_input :: "ps2_keyboard \<Rightarrow> bool" where
  "ps2_keyboard_has_input k \<longleftrightarrow> buffer_read_pos k \<noteq> buffer_write_pos k"

definition ps2_keyboard_init :: "ps2_keyboard \<Rightarrow> ps2_keyboard" where
  "ps2_keyboard_init k = k\<lparr>shift_pressed := False, ctrl_pressed := False, alt_pressed := False, capslock_on := False,
     buffer_write_pos := 0, buffer_read_pos := 0\<rparr>"

text \<open>The buffer is a queue of at most 255 characters; a character that does not fit is lost.\<close>

definition ps2_ok :: "ps2_keyboard \<Rightarrow> bool" where
  "ps2_ok k \<longleftrightarrow> length (keyboard_buffer k) = 256 \<and> buffer_write_pos k < 256 \<and> buffer_read_pos k < 256"

definition ps2_count :: "ps2_keyboard \<Rightarrow> nat" where
  "ps2_count k = (unat (buffer_write_pos k) + 256 - unat (buffer_read_pos k)) mod 256"

definition ps2_queue :: "ps2_keyboard \<Rightarrow> u8 list" where
  "ps2_queue k = map (\<lambda>i. keyboard_buffer k ! ((unat (buffer_read_pos k) + i) mod 256)) [0..<ps2_count k]"

lemma ps2_next: "(w :: u32) < 256 \<Longrightarrow> unat ((w + 1) mod 256) = (unat w + 1) mod 256"
proof -
  assume "w < 256"
  then have "unat w < 256" by (simp add: word_less_nat_alt)
  then have "unat (w + 1) = unat w + 1" by (simp add: unat_word_ariths)
  then show ?thesis by (simp add: unat_mod)
qed

lemma ps2_push:
  assumes ok: "ps2_ok k"
  shows "ps2_ok (keyboard_buffer_push c k)"
    "ps2_queue (keyboard_buffer_push c k) = (if length (ps2_queue k) < 255 then ps2_queue k @ [c] else ps2_queue k)"
proof -
  let ?w = "unat (buffer_write_pos k)" and ?r = "unat (buffer_read_pos k)" and ?n = "(buffer_write_pos k + 1) mod 256"
  have b: "?w < 256" "?r < 256" "length (keyboard_buffer k) = 256" using ok by (auto simp: ps2_ok_def word_less_nat_alt)
  have n: "unat ?n = (?w + 1) mod 256" using ok by (intro ps2_next) (simp add: ps2_ok_def)
  have eq: "?n = buffer_read_pos k \<longleftrightarrow> ps2_count k = 255"
    using b n by (auto simp: ps2_count_def word_unat_eq_iff mod_if)
  show "ps2_ok (keyboard_buffer_push c k)"
    using ok n by (auto simp: ps2_ok_def keyboard_buffer_push_def Let_def word_less_nat_alt)
  show "ps2_queue (keyboard_buffer_push c k) = (if length (ps2_queue k) < 255 then ps2_queue k @ [c] else ps2_queue k)"
  proof (cases "ps2_count k = 255")
    case True
    then show ?thesis using eq by (simp add: keyboard_buffer_push_def ps2_queue_def)
  next
    case False
    have "ps2_count k < 256" by (simp add: ps2_count_def)
    then have lt: "ps2_count k < 255" using False by simp
    have cnt: "ps2_count (keyboard_buffer_push c k) = ps2_count k + 1"
      using False eq b n by (auto simp: keyboard_buffer_push_def Let_def ps2_count_def mod_if)
    have w: "(?r + ps2_count k) mod 256 = ?w" using b by (simp add: ps2_count_def mod_if)
    have "(?r + i) mod 256 \<noteq> ?w" if "i < ps2_count k" for i using that b lt by (auto simp: ps2_count_def mod_if split: if_splits)
    then have "map (\<lambda>i. (keyboard_buffer k)[?w := c] ! ((?r + i) mod 256)) [0..<ps2_count k] = ps2_queue k"
      unfolding ps2_queue_def by (intro map_cong refl nth_list_update_neq) (metis atLeastLessThan_iff set_upt)
    moreover have "length (ps2_queue k) = ps2_count k" by (simp add: ps2_queue_def)
    ultimately show ?thesis using False eq cnt b w lt
      unfolding ps2_queue_def [of "keyboard_buffer_push c k"] by (simp add: keyboard_buffer_push_def)
  qed
qed

lemma ps2_getchar:
  assumes ok: "ps2_ok k"
  shows "ps2_ok (snd (ps2_keyboard_getchar k))"
    "ps2_queue k = [] \<Longrightarrow> ps2_keyboard_getchar k = (0, k)"
    "ps2_queue k = c # cs \<Longrightarrow> fst (ps2_keyboard_getchar k) = c \<and> ps2_queue (snd (ps2_keyboard_getchar k)) = cs"
proof -
  let ?w = "unat (buffer_write_pos k)" and ?r = "unat (buffer_read_pos k)" and ?n = "(buffer_read_pos k + 1) mod 256"
  have b: "?w < 256" "?r < 256" using ok by (auto simp: ps2_ok_def word_less_nat_alt)
  have n: "unat ?n = (?r + 1) mod 256" using ok by (intro ps2_next) (simp add: ps2_ok_def)
  have eq: "buffer_read_pos k = buffer_write_pos k \<longleftrightarrow> ps2_count k = 0"
    using b by (auto simp: ps2_count_def word_unat_eq_iff mod_if)
  show "ps2_ok (snd (ps2_keyboard_getchar k))"
    using ok n by (auto simp: ps2_ok_def ps2_keyboard_getchar_def word_less_nat_alt)
  show "ps2_queue k = [] \<Longrightarrow> ps2_keyboard_getchar k = (0, k)"
    using eq by (simp add: ps2_queue_def ps2_keyboard_getchar_def)
  assume q: "ps2_queue k = c # cs"
  then have pos: "0 < ps2_count k" by (auto simp: ps2_queue_def intro: gr0I)
  have cnt: "ps2_count (snd (ps2_keyboard_getchar k)) = ps2_count k - 1"
    using pos eq b n by (auto simp: ps2_keyboard_getchar_def ps2_count_def mod_if split: if_splits)
  have "[0..<ps2_count k] = 0 # map Suc [0..<ps2_count k - 1]" using pos by (simp add: upt_conv_Cons map_Suc_upt)
  then show "fst (ps2_keyboard_getchar k) = c \<and> ps2_queue (snd (ps2_keyboard_getchar k)) = cs"
    using q pos eq b n cnt by (auto simp: ps2_queue_def ps2_keyboard_getchar_def mod_simps)
qed

section \<open>USB reports\<close>

record hid_keyboard_report_t =
  r_modifiers :: u8
  r_keycodes :: "u8 list"

record hid_keyboard_device_t =
  k_active :: bool
  k_prev_report :: hid_keyboard_report_t
  k_modifiers :: u8
  k_caps_lock_active :: bool
  k_error :: bool

definition keymap_normal :: "u8 list" where
  "keymap_normal = padded (replicate 4 0 @ bytes ''abcdefghijklmnopqrstuvwxyz1234567890'' @ [10, 27, 8, 9] @ bytes '' -=[]'' @ [92, 0] @ bytes '';'' @ [39, 96]
     @ bytes '',./'')"

definition keymap_shifted :: "u8 list" where
  "keymap_shifted = padded (replicate 4 0 @ bytes ''ABCDEFGHIJKLMNOPQRSTUVWXYZ!@#$%^&*()'' @ [10, 27, 8, 9] @ bytes '' _+{}|'' @ [0] @ bytes '':'' @ [34, 126]
     @ bytes ''<>?'')"

definition keycode_in_report :: "hid_keyboard_report_t \<Rightarrow> u8 \<Rightarrow> bool" where
  "keycode_in_report r code \<longleftrightarrow> code \<in> set (take 6 (r_keycodes r))"

text \<open>Keys without a character.\<close>

definition special_key :: "u8 \<Rightarrow> u16" where
  "special_key k =
     (if 0x3A \<le> k \<and> k \<le> 0x45 then 0x100 + ucast (k - 0x3A)
      else if k = 0x52 then 0x200 else if k = 0x51 then 0x201 else if k = 0x50 then 0x202 else if k = 0x4F then 0x203
      else if k = 0x4A then 0x204 else if k = 0x4D then 0x205 else if k = 0x4B then 0x206 else if k = 0x4E then 0x207
      else if k = 0x49 then 0x208 else if k = 0x4C then 0x7F else if k = 0x39 then 0x300
      else if k = 0x54 then 47 else if k = 0x55 then 42 else if k = 0x56 then 45 else if k = 0x57 then 43
      else if k = 0x58 then 13 else if k = 0x63 then 46
      else if 0x59 \<le> k \<and> k \<le> 0x61 then 49 + ucast (k - 0x59)
      else if k = 0x62 then 48 else 0)"

definition keycode_to_char :: "u8 \<Rightarrow> u8 \<Rightarrow> bool \<Rightarrow> u16" where
  "keycode_to_char keycode modifiers caps_lock =
     (let shift = (modifiers AND 0x22 \<noteq> 0);
          is_alpha = (0x04 \<le> keycode \<and> keycode \<le> 0x1D);
          upper = (shift \<noteq> (caps_lock \<and> is_alpha));
          c = (if upper then keymap_shifted else keymap_normal) ! unat keycode
      in if keycode < 128 \<and> c \<noteq> 0
         then if modifiers AND 0x11 \<noteq> 0 \<and> 97 \<le> c \<and> c \<le> 122 then ucast c - 97 + 1
              else if modifiers AND 0x11 \<noteq> 0 \<and> 65 \<le> c \<and> c \<le> 90 then ucast c - 65 + 1
              else ucast c
         else special_key keycode)"

text \<open>The first new key of a report that has a translation.\<close>

fun new_key :: "hid_keyboard_report_t \<Rightarrow> u8 \<Rightarrow> bool \<Rightarrow> u8 list \<Rightarrow> u16" where
  "new_key prev modifiers caps [] = 0"
| "new_key prev modifiers caps (code # codes) =
     (if code = 0 \<or> keycode_in_report prev code then new_key prev modifiers caps codes
      else let result = keycode_to_char code modifiers caps in
           if result \<noteq> 0 then result else new_key prev modifiers caps codes)"

definition key_report :: "hid_keyboard_report_t \<Rightarrow> hid_keyboard_device_t \<Rightarrow> u16 \<times> hid_keyboard_device_t" where
  "key_report r k =
     (if r_keycodes r ! 0 = 1 then (0, k)
      else let k = (if keycode_in_report r 0x39 \<and> \<not> keycode_in_report (k_prev_report k) 0x39
                    then k\<lparr>k_caps_lock_active := \<not> k_caps_lock_active k\<rparr> else k);
               k = k\<lparr>k_modifiers := r_modifiers r\<rparr>;
               result = new_key (k_prev_report k) (r_modifiers r) (k_caps_lock_active k) (take 6 (r_keycodes r))
           in (result, k\<lparr>k_prev_report := r\<rparr>))"

text \<open>
  The loop waits until a report gives a key; \<open>None\<close> when no more events come. The list of events that is left
  is part of the result. With no keyboard the result is \<^verbatim>\<open>HID_SPECIAL_KEY_NONE\<close>.
\<close>

fun read_key_loop :: "hid_keyboard_report_t option list \<Rightarrow> hid_keyboard_device_t \<Rightarrow> (u16 \<times> hid_keyboard_report_t option list \<times> hid_keyboard_device_t) option" where
  "read_key_loop [] k = None"
| "read_key_loop (None # es) k = read_key_loop es k"
| "read_key_loop (Some r # es) k =
     (let (result, k) = key_report r k in if result \<noteq> 0 then Some (result, es, k) else read_key_loop es k)"

definition hid_keyboard_read_key :: "hid_keyboard_report_t option list \<Rightarrow> hid_keyboard_device_t option
    \<Rightarrow> (u16 \<times> hid_keyboard_report_t option list \<times> hid_keyboard_device_t option) option" where
  "hid_keyboard_read_key es kbd =
     (case kbd of
        None \<Rightarrow> Some (0, es, None)
      | Some k \<Rightarrow> if \<not> k_active k then Some (0, es, Some k)
                 else do { (c, es, k) \<leftarrow> read_key_loop es k; Some (c, es, Some k) })"

definition hid_keyboard_key_available :: "bool \<Rightarrow> hid_keyboard_device_t option \<Rightarrow> bool" where
  "hid_keyboard_key_available completed kbd = (case kbd of None \<Rightarrow> False | Some k \<Rightarrow> k_active k \<and> completed)"

definition hid_keyboard_has_error :: "hid_keyboard_device_t option \<Rightarrow> bool" where
  "hid_keyboard_has_error kbd = (case kbd of None \<Rightarrow> False | Some k \<Rightarrow> k_error k)"

section \<open>The interface of a keyboard\<close>

record usb_endpoint =
  e_iface :: u8
  e_addr :: u8
  e_attrs :: u8
  e_max_pkt :: u16
  e_interval :: u8

text \<open>The walk through the descriptors at offset \<open>p\<close>; an access outside the buffer has no result.\<close>

lemma descriptor_step: "(b :: u8) \<noteq> 0 \<Longrightarrow> \<not> total_len < p + unat b \<Longrightarrow> total_len - (p + unat b) < total_len - p"
  using unat_gt_0 [of b] by linarith

function find_endpoint :: "u8 list \<Rightarrow> nat \<Rightarrow> nat \<Rightarrow> bool \<Rightarrow> u8 \<Rightarrow> usb_endpoint option option" where
  "find_endpoint buf total_len p in_iface cur =
     (if \<not> p < total_len \<or> p + 2 > total_len then Some None
      else if length buf < total_len then None
      else let bLength = buf ! p; bType = buf ! (p + 1) in
      if bLength = 0 \<or> p + unat bLength > total_len then Some None
      else if bType = 4 \<and> 9 \<le> bLength
        then find_endpoint buf total_len (p + unat bLength) (buf ! (p + 5) = 3 \<and> buf ! (p + 7) = 1) (buf ! (p + 2))
      else if bType = 5 \<and> in_iface \<and> 7 \<le> bLength \<and> buf ! (p + 2) AND 0x80 \<noteq> 0 \<and> buf ! (p + 3) AND 3 = 3
           \<and> ucast (buf ! (p + 4)) + push_bit 8 (ucast (buf ! (p + 5))) \<le> (8 :: u16)
        then Some (Some \<lparr>e_iface = cur, e_addr = buf ! (p + 2), e_attrs = buf ! (p + 3),
                         e_max_pkt = ucast (buf ! (p + 4)) + push_bit 8 (ucast (buf ! (p + 5))), e_interval = buf ! (p + 6)\<rparr>)
      else find_endpoint buf total_len (p + unat bLength) in_iface cur)"
  by pat_completeness auto
termination
  by (relation "measure (\<lambda>(buf, total_len, p, in_iface, cur). total_len - p)") (auto intro: descriptor_step)

declare find_endpoint.simps [simp del]

definition find_hid_keyboard_interface :: "u8 list \<Rightarrow> u16 \<Rightarrow> (u8 \<times> usb_endpoint option) option" where
  "find_hid_keyboard_interface buf total_len =
     (if length buf < 6 then None
      else do { e \<leftarrow> find_endpoint buf (unat total_len) 0 False 0; Some (buf ! 5, e) })"

section \<open>Keys to the console\<close>

definition input_keyboard_binding :: "u8 \<Rightarrow> 'a con_sys_scheme \<Rightarrow> 'a con_sys_scheme option" where
  "input_keyboard_binding c s =
     (if c = 8 \<or> c = 127 then Some (if console_get_length s = 0 then s else console_backspace s)
      else if c = 10 then do { s \<leftarrow> console_clear s; printf [10] [] s }
      else Some (console_user_put_c c s))"

text \<open>What is printed for a special key.\<close>

definition key_name :: "u16 \<Rightarrow> (u8 list \<times> va_value list) option" where
  "key_name key =
     (if key = 0x200 then Some (bytes ''<UP>'', []) else if key = 0x201 then Some (bytes ''<DOWN>'', [])
      else if key = 0x202 then Some (bytes ''<LEFT>'', []) else if key = 0x203 then Some (bytes ''<RIGHT>'', [])
      else if 0x100 \<le> key \<and> key \<le> 0x10B then Some (bytes ''<F%d>'', [VNum (ucast (key - 0x100 + 1))])
      else if key = 0x204 then Some (bytes ''<HOME>'', []) else if key = 0x205 then Some (bytes ''<END>'', [])
      else if key = 0x206 then Some (bytes ''<PGUP>'', []) else if key = 0x207 then Some (bytes ''<PGDN>'', [])
      else if key = 0x208 then Some (bytes ''<INS>'', []) else if key = 0x7F then Some (bytes ''<DEL>'', [])
      else if key = 0x300 then Some (bytes ''<CAPS>'', []) else None)"

definition dispatch_key :: "u16 \<Rightarrow> 'a con_sys_scheme \<Rightarrow> 'a con_sys_scheme option" where
  "dispatch_key key s =
     (if key = 0 then Some s
      else case key_name key of
        Some (fmt, args) \<Rightarrow> do { s \<leftarrow> printf fmt args s; Some (console_add_special_char (ucast key) s) }
      | None \<Rightarrow> do { s \<leftarrow> input_keyboard_binding (ucast key) s; console_set_current_c (ucast key) s })"

definition hid_keyboard_loop :: "bool \<Rightarrow> hid_keyboard_report_t option list \<Rightarrow> hid_keyboard_device_t option \<Rightarrow> 'a con_sys_scheme
    \<Rightarrow> (hid_keyboard_report_t option list \<times> hid_keyboard_device_t option \<times> 'a con_sys_scheme) option" where
  "hid_keyboard_loop completed es kbd s =
     (if hid_keyboard_key_available completed kbd
      then do {
        (key, es, kbd) \<leftarrow> hid_keyboard_read_key es kbd;
        s \<leftarrow> dispatch_key key s;
        Some (es, kbd, s) }
      else Some (es, kbd, s))"

text \<open>\<open>n\<close> rounds of the endless loop that polls the keyboard, each with what the host controller reports.\<close>

fun drivers_loop :: "nat \<Rightarrow> hid_keyboard_report_t option list \<Rightarrow> hid_keyboard_device_t option \<Rightarrow> 'a con_sys_scheme
    \<Rightarrow> (hid_keyboard_report_t option list \<times> hid_keyboard_device_t option \<times> 'a con_sys_scheme) option" where
  "drivers_loop 0 es kbd s = Some (es, kbd, s)"
| "drivers_loop (Suc n) es kbd s = do {
     (es, kbd, s) \<leftarrow> hid_keyboard_loop (es \<noteq> []) es kbd s;
     drivers_loop n es kbd s }"

end
