(* ===== verification/KeyboardProps.thy ===== *)
theory KeyboardProps
  imports Keyboard ConsoleProps
begin

text \<open>
  From the reports of a USB keyboard to the input line of the console: every stroke, however long the key is held, puts one
  character into the line.
\<close>

section \<open>Strokes\<close>

text \<open>A key that is pressed with modifiers, held for a number of further reports and released.\<close>

record stroke =
  st_code :: u8
  st_mods :: u8
  st_held :: nat

definition press :: "stroke \<Rightarrow> hid_keyboard_report_t" where
  "press k = \<lparr>r_modifiers = st_mods k, r_keycodes = [st_code k, 0, 0, 0, 0, 0]\<rparr>"

definition idle :: hid_keyboard_report_t where
  "idle = \<lparr>r_modifiers = 0, r_keycodes = [0, 0, 0, 0, 0, 0]\<rparr>"

definition stroke_rest :: "stroke \<Rightarrow> hid_keyboard_report_t option list" where
  "stroke_rest k = replicate (st_held k) (Some (press k)) @ [Some idle]"

definition stroke_events :: "stroke \<Rightarrow> hid_keyboard_report_t option list" where
  "stroke_events k = Some (press k) # stroke_rest k"

definition stroke_key :: "bool \<Rightarrow> stroke \<Rightarrow> u16" where
  "stroke_key caps k = keycode_to_char (st_code k) (st_mods k) caps"

text \<open>A stroke of a key with a character that does not end the line.\<close>

definition stroke_ok :: "bool \<Rightarrow> stroke \<Rightarrow> bool" where
  "stroke_ok caps k \<longleftrightarrow> st_code k \<notin> {0, 1, 0x39} \<and> stroke_key caps k \<noteq> 0 \<and> key_name (stroke_key caps k) = None
     \<and> (ucast (stroke_key caps k) :: u8) \<noteq> 10"

definition key_edit :: "u16 \<Rightarrow> u8 edit" where
  "key_edit key = (if (ucast key :: u8) = 8 \<or> (ucast key :: u8) = 127 then Del else Put (ucast key))"

section \<open>Reports\<close>

lemma key_report_press:
  assumes "k_prev_report k = idle" "stroke_ok (k_caps_lock_active k) st"
  shows "key_report (press st) k = (stroke_key (k_caps_lock_active k) st, k\<lparr>k_modifiers := st_mods st, k_prev_report := press st\<rparr>)"
  using assms by (auto simp: key_report_def keycode_in_report_def press_def idle_def stroke_ok_def stroke_key_def Let_def)

lemma key_report_held:
  assumes "k_prev_report k = press st" "st_code st \<notin> {0, 1}"
  shows "\<exists>k'. key_report (press st) k = (0, k') \<and> k_prev_report k' = press st
    \<and> k_caps_lock_active k' = k_caps_lock_active k \<and> k_active k' = k_active k"
  using assms by (auto simp: key_report_def keycode_in_report_def press_def Let_def)

lemma key_report_idle:
  "\<exists>k'. key_report idle k = (0, k') \<and> k_prev_report k' = idle \<and> k_caps_lock_active k' = k_caps_lock_active k \<and> k_active k' = k_active k"
  by (auto simp: key_report_def keycode_in_report_def idle_def Let_def)

text \<open>The reports after the first one of a stroke give no key.\<close>

definition settles :: "hid_keyboard_report_t option list \<Rightarrow> hid_keyboard_device_t \<Rightarrow> bool" where
  "settles lead k \<longleftrightarrow> k_active k \<and> (\<forall>es. \<exists>k'. read_key_loop (lead @ es) k = read_key_loop es k' \<and> k_prev_report k' = idle
     \<and> k_caps_lock_active k' = k_caps_lock_active k \<and> k_active k')"

lemma settles_rest:
  assumes "k_prev_report k = press st" "st_code st \<notin> {0, 1}" "k_active k"
  shows "settles (stroke_rest st) k"
proof -
  have "\<exists>k'. read_key_loop (replicate n (Some (press st)) @ Some idle # es) k = read_key_loop es k' \<and> k_prev_report k' = idle
     \<and> k_caps_lock_active k' = k_caps_lock_active k \<and> k_active k'" for n es
    using assms
  proof (induction n arbitrary: k)
    case 0
    then show ?case using key_report_idle [of k] by auto
  next
    case (Suc n)
    obtain j where j: "key_report (press st) k = (0, j)" "k_prev_report j = press st" "k_caps_lock_active j = k_caps_lock_active k" "k_active j"
      using key_report_held [OF Suc.prems(1,2)] Suc.prems(3) by auto
    show ?case using Suc.IH [OF j(2) Suc.prems(2) j(4)] j by simp
  qed
  then show ?thesis using assms(3) by (simp add: settles_def stroke_rest_def)
qed

lemma read_stroke:
  assumes "settles lead k" "stroke_ok (k_caps_lock_active k) st"
  shows "\<exists>k'. hid_keyboard_read_key (lead @ stroke_events st @ es) (Some k)
      = Some (stroke_key (k_caps_lock_active k) st, stroke_rest st @ es, Some k')
    \<and> settles (stroke_rest st) k' \<and> k_caps_lock_active k' = k_caps_lock_active k"
proof -
  obtain j where j: "read_key_loop (lead @ stroke_events st @ es) k = read_key_loop (stroke_events st @ es) j" "k_prev_report j = idle"
    "k_caps_lock_active j = k_caps_lock_active k" "k_active j" "k_active k"
    using assms(1) unfolding settles_def by metis
  let ?k = "j\<lparr>k_modifiers := st_mods st, k_prev_report := press st\<rparr>"
  have "settles (stroke_rest st) ?k" using assms(2) j(4) by (intro settles_rest) (auto simp: stroke_ok_def)
  then show ?thesis using j key_report_press [OF j(2), of st] assms(2)
    by (auto simp: hid_keyboard_read_key_def stroke_events_def stroke_ok_def)
qed

section \<open>The console\<close>

lemma dispatch_plain:
  assumes "con_ok s" "\<not> console_is_raw_mode s" "key \<noteq> 0" "key_name key = None" "(ucast key :: u8) \<noteq> 10"
  shows "\<exists>t. dispatch_key key s = Some t \<and> con_ok t \<and> \<not> console_is_raw_mode t \<and> con_line t = edited 128 (key_edit key) (con_line s)"
proof -
  let ?s = "if (ucast key :: u8) \<in> {8, 127} \<and> console_get_length s = 0 then s else con_edit (key_edit key) s"
  have raw: "c_termios (console_backspace s) = c_termios s" "c_termios (console_user_put_c c s) = c_termios s" for c
    by (simp_all add: console_backspace_def console_rmchar_def console_user_put_c_def console_addchar_def upd_input_def con_output Let_def
        split: option.split)
  have len: "con_line s = []" if "console_get_length s = 0"
  proof -
    obtain i where i: "con_input s = Some i" "im_length i \<le> 128" using assms(1) by (auto simp: con_ok_def)
    then have "im_length i = 0" using that unat_of_nat64 [of "im_length i"] by (simp add: console_get_length_def)
    then show ?thesis using i by (simp add: con_line_def)
  qed
  have e: "con_ok ?s \<and> con_line ?s = edited 128 (key_edit key) (con_line s)"
    using con_edit_line [OF assms(1), of "key_edit key"] assms(1) len by (auto simp: key_edit_def)
  have b: "input_keyboard_binding (ucast key) s = Some ?s"
    using assms(5) by (auto simp: input_keyboard_binding_def key_edit_def)
  have "\<not> console_is_raw_mode (?s\<lparr>c_current_key := c\<rparr>)" for c
    using assms(2) raw by (auto simp: console_is_raw_mode_def key_edit_def Let_def)
  then show ?thesis using assms(3,4) b e
    by (auto simp: dispatch_key_def console_set_current_c_def con_ok_def con_line_def)
qed

lemma drivers_loop_strokes:
  assumes "settles lead k" "con_ok s" "\<not> console_is_raw_mode s" "\<forall>st \<in> set sts. stroke_ok (k_caps_lock_active k) st"
  shows "\<exists>es k' t. drivers_loop (length sts) (lead @ concat (map stroke_events sts)) (Some k) s = Some (es, k', t) \<and> con_ok t
    \<and> con_line t = fold (edited 128) (map (key_edit \<circ> stroke_key (k_caps_lock_active k)) sts) (con_line s)"
  using assms
proof (induction sts arbitrary: lead k s)
  case (Cons st sts)
  let ?es = "concat (map stroke_events sts)"
  have st: "stroke_ok (k_caps_lock_active k) st" using Cons.prems(4) by simp
  obtain k' where k': "hid_keyboard_read_key (lead @ stroke_events st @ ?es) (Some k)
      = Some (stroke_key (k_caps_lock_active k) st, stroke_rest st @ ?es, Some k')"
    "settles (stroke_rest st) k'" "k_caps_lock_active k' = k_caps_lock_active k"
    using read_stroke [OF Cons.prems(1) st] by blast
  obtain t where t: "dispatch_key (stroke_key (k_caps_lock_active k) st) s = Some t" "con_ok t" "\<not> console_is_raw_mode t"
    "con_line t = edited 128 (key_edit (stroke_key (k_caps_lock_active k) st)) (con_line s)"
    using dispatch_plain [OF Cons.prems(2,3)] st by (auto simp: stroke_ok_def)
  have a: "k_active k" using Cons.prems(1) by (simp add: settles_def)
  have "drivers_loop (length (st # sts)) (lead @ concat (map stroke_events (st # sts))) (Some k) s
      = drivers_loop (length sts) (stroke_rest st @ ?es) (Some k') t"
    using k'(1) t(1) a by (simp add: hid_keyboard_loop_def hid_keyboard_key_available_def) (simp add: stroke_events_def)
  then show ?case using Cons.IH [OF k'(2) t(2,3)] Cons.prems(4) k'(3) t(4) by simp
qed simp

text \<open>
  C39: What is typed on a USB keyboard is the input line: in the mode in which lines are edited, any sequence of strokes of keys with a character,
  each held for any number of reports, is read as one character per stroke, with shift, control and caps lock taken into account, and
  the line is edited by these characters. Backspace deletes; the line is bounded by 128 characters.
\<close>

theorem keyboard_types_line:
  fixes s :: "'a con_sys_scheme"
  assumes "k_active k" "k_prev_report k = idle" "con_ok s" "\<not> console_is_raw_mode s" "\<forall>st \<in> set sts. stroke_ok (k_caps_lock_active k) st"
  shows "\<exists>es k' t. drivers_loop (length sts) (concat (map stroke_events sts)) (Some k) s = Some (es, k', t)
    \<and> con_line t = fold (edited 128) (map (key_edit \<circ> stroke_key (k_caps_lock_active k)) sts) (con_line s)"
proof -
  have "settles [] k" using assms(1,2) by (auto simp: settles_def)
  from drivers_loop_strokes [OF this assms(3-5)] show ?thesis by auto
qed

definition kbd_demo :: hid_keyboard_device_t where
  "kbd_demo = \<lparr>k_active = True, k_prev_report = idle, k_modifiers = 0, k_caps_lock_active = True, k_error = False\<rparr>"

text \<open>With caps lock on: a, shift and a, 1, and backspace.\<close>

theorem keyboard_types_line_witness:
  "\<exists>es k' t. drivers_loop 4 (concat (map stroke_events
       [\<lparr>st_code = 4, st_mods = 0, st_held = 3\<rparr>, \<lparr>st_code = 4, st_mods = 2, st_held = 0\<rparr>, \<lparr>st_code = 0x1E, st_mods = 0, st_held = 1\<rparr>,
        \<lparr>st_code = 0x2A, st_mods = 0, st_held = 0\<rparr>])) (Some kbd_demo) (con_demo\<lparr>c_termios := (c_termios con_demo)\<lparr>c_lflag := ICANON\<rparr>\<rparr>) = Some (es, k', t)
     \<and> con_line t = [65, 97]"
proof -
  let ?sts = "[\<lparr>st_code = 4, st_mods = 0, st_held = 3\<rparr>, \<lparr>st_code = 4, st_mods = 2, st_held = 0\<rparr>, \<lparr>st_code = 0x1E, st_mods = 0, st_held = 1\<rparr>,
        \<lparr>st_code = 0x2A, st_mods = 0, st_held = 0\<rparr>]" and ?s = "con_demo\<lparr>c_termios := (c_termios con_demo)\<lparr>c_lflag := ICANON\<rparr>\<rparr>"
  note tables = keymap_normal_def keymap_shifted_def padded_def bytes_def keycode_to_char_def
  have k: "map (stroke_key True) ?sts = [65, 97, 49, 8]" by (simp add: stroke_key_def tables Let_def nth_append)
  have "\<forall>st \<in> set ?sts. stroke_ok True st" using k by (simp add: stroke_ok_def key_name_def)
  moreover have "con_ok ?s" "con_line ?s = []" "\<not> console_is_raw_mode ?s"
    by (simp_all add: con_ok_def con_line_def con_demo_def console_is_raw_mode_def)
  moreover have "map (key_edit \<circ> stroke_key True) ?sts = [Put 65, Put 97, Put 49, Del]" using k by (simp add: key_edit_def)
  ultimately show ?thesis
    using keyboard_types_line [of kbd_demo ?s ?sts]
    by (simp add: kbd_demo_def numeral_eq_Suc del: list.map concat.simps drivers_loop.simps)
qed

end
