(* ===== verification/Timer.thy ===== *)
theory Timer
  imports ProcProps
begin

text \<open>
  The timer, \<^verbatim>\<open>src/kernel/timer/timer.c\<close>: the interrupt that counts ticks and schedules, and the
  pauses made with the programmable interval timer, of which the counts that are loaded are modelled.
\<close>

section \<open>The interrupt\<close>

definition timer_irq_handler :: "Registers \<Rightarrow> u32 \<times> 'a proc_sys_scheme \<Rightarrow> Registers \<times> u32 \<times> 'a proc_sys_scheme" where
  "timer_irq_handler regs st =
     (let (g_pit_ticks, s) = st; g_pit_ticks = g_pit_ticks + 1; s = proc_update_time 1 s; (regs, s) = proc_schedule_interrupt regs s
      in (regs, g_pit_ticks, s))"

definition timer_get_ticks :: "u32 \<times> 'a proc_sys_scheme \<Rightarrow> u32" where
  "timer_get_ticks st = fst st"

section \<open>Pauses\<close>

definition PIT_FREQUENCY :: u64 where "PIT_FREQUENCY = 1193182"

definition pit_ticks :: "u32 \<Rightarrow> u32" where
  "pit_ticks chunk = (let ticks = ucast (ucast chunk * PIT_FREQUENCY div 1000000) in if ticks = 0 then 1 else ticks)"

definition sleep_chunk :: "u32 \<Rightarrow> u32" where
  "sleep_chunk us = (if us > 54000 then 54000 else us)"

text \<open>The bytes that are written to the data port of the timer, low and high, for each part of the pause.\<close>

function timer_sleep_us :: "u32 \<Rightarrow> (u8 \<times> u8) list" where
  "timer_sleep_us us =
     (if us > 0
      then let ticks = pit_ticks (sleep_chunk us)
           in (ucast (ticks AND 0xFF), ucast (drop_bit 8 ticks)) # timer_sleep_us (us - sleep_chunk us)
      else [])"
  by pat_completeness auto
termination
proof (relation "measure unat", goal_cases)
  case (2 us)
  have "sleep_chunk us \<le> us" "0 < sleep_chunk us" using 2 by (auto simp: sleep_chunk_def word_gt_0)
  then have "unat (us - sleep_chunk us) = unat us - unat (sleep_chunk us)" "0 < unat (sleep_chunk us)" "unat (sleep_chunk us) \<le> unat us"
    by (auto simp: unat_sub_if' word_le_nat_alt unat_gt_0)
  then show ?case by simp
qed simp

declare timer_sleep_us.simps [simp del]

definition timer_sleep_ms :: "u32 \<Rightarrow> (u8 \<times> u8) list" where
  "timer_sleep_ms ms = timer_sleep_us (ms * 1000)"

definition timer_sleep_s :: "u32 \<Rightarrow> (u8 \<times> u8) list" where
  "timer_sleep_s s = timer_sleep_us (s * 1000000)"

section \<open>What the counts amount to\<close>

text \<open>The count of a part fits the 16 bits of the timer and is the number of ticks in the time, rounded down, but not 0.\<close>

definition time_ticks :: "nat \<Rightarrow> nat" where
  "time_ticks us = max 1 (us * 1193182 div 1000000)"

lemma pit_ticks_count:
  assumes "chunk \<le> 54000" shows "unat (pit_ticks chunk) = time_ticks (unat chunk)" "unat (pit_ticks chunk) < 65536"
proof -
  have c: "unat chunk \<le> 54000" using assms by (simp add: word_le_nat_alt)
  let ?n = "unat chunk * 1193182 div 1000000"
  have n: "?n < 65536" using c by simp
  have "ucast chunk * PIT_FREQUENCY = of_nat (unat chunk * 1193182)" by (simp add: PIT_FREQUENCY_def)
  then have "unat (ucast chunk * PIT_FREQUENCY) = unat chunk * 1193182" using c unat_of_nat64 [of "unat chunk * 1193182"] by simp
  then have "unat (ucast chunk * PIT_FREQUENCY div 1000000) = ?n" by (simp add: unat_div)
  then have "unat (ucast (ucast chunk * PIT_FREQUENCY div 1000000) :: u32) = ?n"
    using n by (simp add: unsigned_ucast_eq take_bit_nat_eq_self)
  moreover define w where "w = (ucast (ucast chunk * PIT_FREQUENCY div 1000000) :: u32)"
  ultimately have w: "unat w = ?n" by simp
  then have "unat (if w = 0 then 1 else w) = max 1 ?n" by (cases "w = 0") (auto simp: max_def unat_gt_0 [symmetric] simp del: unat_gt_0)
  then show e: "unat (pit_ticks chunk) = time_ticks (unat chunk)" by (simp add: pit_ticks_def Let_def time_ticks_def flip: w_def)
  show "unat (pit_ticks chunk) < 65536" using n unfolding e by (simp add: time_ticks_def)
qed

definition pit_count :: "u8 \<times> u8 \<Rightarrow> nat" where
  "pit_count b = unat (fst b) + 256 * unat (snd b)"

lemma pit_count_bytes:
  assumes "unat (t :: u32) < 65536" shows "pit_count (ucast (t AND 0xFF), ucast (drop_bit 8 t)) = unat t"
proof -
  have "unat (ucast (t AND 0xFF) :: u8) = unat t mod 256"
  proof -
    have "t AND 0xFF = take_bit 8 t" by (simp add: take_bit_eq_mask mask_eq_exp_minus_1)
    then show ?thesis by (simp add: unsigned_ucast_eq unsigned_take_bit_eq take_bit_nat_def)
  qed
  moreover have "unat (ucast (drop_bit 8 t) :: u8) = unat t div 256"
    using assms by (simp add: unsigned_ucast_eq unsigned_drop_bit_eq drop_bit_nat_def take_bit_nat_eq_self less_mult_imp_div_less)
  ultimately show ?thesis by (simp add: pit_count_def)
qed

text \<open>A pause is split into parts of at most 54 milliseconds that add up to it.\<close>

lemma timer_sleep_parts:
  "\<exists>cs :: u32 list. sum_list (map unat cs) = unat us \<and> (\<forall>c \<in> set cs. 0 < c \<and> c \<le> 54000)
     \<and> map pit_count (timer_sleep_us us) = map (time_ticks \<circ> unat) cs"
proof (induction us rule: timer_sleep_us.induct)
  case (1 us)
  show ?case
  proof (cases "us > 0")
    case True
    let ?c = "sleep_chunk us"
    have c: "0 < ?c" "?c \<le> 54000" "?c \<le> us" using True by (auto simp: sleep_chunk_def word_gt_0)
    obtain cs :: "u32 list" where cs: "sum_list (map unat cs) = unat (us - ?c)" "\<forall>c \<in> set cs. 0 < c \<and> c \<le> 54000"
      "map pit_count (timer_sleep_us (us - ?c)) = map (time_ticks \<circ> unat) cs"
      using 1 [OF True refl] by blast
    have "unat ?c + unat (us - ?c) = unat us" using c(3) by (simp add: unat_sub_if' word_le_nat_alt)
    then show ?thesis using True cs c(1,2) pit_ticks_count [OF c(2)] pit_count_bytes [of "pit_ticks ?c"]
      by (intro exI [of _ "?c # cs"]) (simp add: timer_sleep_us.simps [of us] Let_def)
  qed (simp add: timer_sleep_us.simps exI [of _ "[]"] word_gt_0)
qed

text \<open>The interrupt handler is a step of the processes.\<close>

lemma timer_irq_steps: "proc_step\<^sup>*\<^sup>* s (snd (snd (timer_irq_handler regs (n, s))))"
proof -
  have "proc_step s (proc_update_time 1 s)" by (rule proc_step.time)
  moreover have "proc_step (proc_update_time 1 s) (snd (proc_schedule_interrupt regs (proc_update_time 1 s)))" by (rule proc_step.tick)
  ultimately show ?thesis by (auto simp: timer_irq_handler_def split: prod.split)
qed

end
