(* ===== verification/Modules.thy ===== *)
theory Modules
  imports Strings "HOL-Library.Monad_Syntax"
begin

text \<open>
  The table of kernel modules, \<^verbatim>\<open>src/kernel/module/module.c\<close>. A module is a static structure that the table points to; the start and
  exit functions of the modules are arguments that act on the state of the system. The calls of \<^verbatim>\<open>strtok\<close> on the copied
  list are replaced by the tokens they return (lemma \<open>strtok_run_tokens\<close>).
\<close>

abbreviation (input) MAX_MODS :: nat where "MAX_MODS \<equiv> 120"

record module_t =
  mod_name :: "u8 list"
  mod_enabled :: bool

record mod_table =
  kernel_modules :: "module_t option list"
  module_count :: nat

definition module_init :: "mod_table \<Rightarrow> 'a heap_scheme \<Rightarrow> (int \<times> mod_table \<times> 'a heap_scheme) option" where
  "module_init mt s = do {
     (p, s) \<leftarrow> kmalloc (8 * of_nat MAX_MODS) s;
     if p = 0 then Some (-1, mt\<lparr>kernel_modules := []\<rparr>, s)
     else Some (0, \<lparr>kernel_modules = replicate MAX_MODS None, module_count = 0\<rparr>, s) }"

text \<open>Without the table there is no defined result.\<close>

definition module_register :: "module_t \<Rightarrow> mod_table \<Rightarrow> (int \<times> mod_table) option" where
  "module_register m mt =
     (if module_count mt \<ge> MAX_MODS then Some (-1, mt)
      else if length (kernel_modules mt) \<le> module_count mt then None
      else Some (0, \<lparr>kernel_modules = (kernel_modules mt)[module_count mt := Some m], module_count = module_count mt + 1\<rparr>))"

definition module_start :: "(module_t \<Rightarrow> 's \<Rightarrow> int \<times> 's) \<Rightarrow> mod_table \<Rightarrow> 's \<Rightarrow> 's" where
  "module_start start mt s =
     fold (\<lambda>i s. case kernel_modules mt ! i of
                   None \<Rightarrow> s
                 | Some m \<Rightarrow> if mod_enabled m then snd (start m s) else s) [0..<module_count mt] s"

definition module_exit :: "(module_t \<Rightarrow> 's \<Rightarrow> 's) \<Rightarrow> mod_table \<Rightarrow> 's \<Rightarrow> 's" where
  "module_exit exit mt s =
     fold (\<lambda>i s. case kernel_modules mt ! i of None \<Rightarrow> s | Some m \<Rightarrow> exit m s) [0..<module_count mt] s"

text \<open>The names that are allowed: at most \<^verbatim>\<open>MAX_MODS\<close> tokens of the first 511 characters.\<close>

definition allowed_names :: "u8 list \<Rightarrow> u8 list list" where
  "allowed_names enabled_list = take MAX_MODS (tokens (\<lambda>b. b \<in> set (bytes '','')) (take 511 enabled_list))"

definition module_disable_others :: "u8 list option \<Rightarrow> mod_table \<Rightarrow> mod_table" where
  "module_disable_others enabled_list mt =
     (case enabled_list of
        None \<Rightarrow> mt
      | Some l \<Rightarrow>
          mt\<lparr>kernel_modules := fold (\<lambda>i ms. ms[i := map_option (\<lambda>m. m\<lparr>mod_enabled := (mod_name m \<in> set (allowed_names l))\<rparr>) (ms ! i)])
                                [0..<module_count mt] (kernel_modules mt)\<rparr>)"

text \<open>The modules in the order in which they were registered.\<close>

definition registered :: "mod_table \<Rightarrow> module_t list" where
  "registered mt = List.map_filter (\<lambda>m. m) (take (module_count mt) (kernel_modules mt))"

definition mods_ok :: "mod_table \<Rightarrow> bool" where
  "mods_ok mt \<longleftrightarrow> length (kernel_modules mt) = MAX_MODS \<and> module_count mt \<le> MAX_MODS"

lemma module_register_appends:
  assumes "mods_ok mt"
  shows "\<exists>r mt'. module_register m mt = Some (r, mt') \<and> mods_ok mt'
    \<and> (if module_count mt < MAX_MODS then r = 0 \<and> registered mt' = registered mt @ [m] else r = -1 \<and> mt' = mt)"
  using assms by (auto simp: mods_ok_def module_register_def registered_def take_Suc_conv_app_nth map_filter_def)

lemma fold_slots:
  "n \<le> length ms \<Longrightarrow> fold (\<lambda>i ms. ms[i := g (ms ! i)]) [0..<n] ms = map g (take n ms) @ drop n ms"
proof (induction n)
  case (Suc n)
  have "(map g (take n ms) @ drop n ms) ! n = ms ! n" using Suc.prems by (simp add: nth_append)
  then show ?case using Suc by (simp add: list_update_append take_Suc_conv_app_nth Cons_nth_drop_Suc [symmetric])
qed simp

text \<open>Exactly the modules whose names are in the list stay enabled, and exactly the enabled ones are started, in order.\<close>

lemma module_disable_others_exact:
  assumes "mods_ok mt"
  shows "registered (module_disable_others (Some l) mt)
    = map (\<lambda>m. m\<lparr>mod_enabled := (mod_name m \<in> set (allowed_names l))\<rparr>) (registered mt)"
  using assms fold_slots [of "module_count mt" "kernel_modules mt"]
  by (auto simp: mods_ok_def module_disable_others_def registered_def map_filter_def filter_map comp_def)

lemma module_start_order:
  assumes "mods_ok mt"
  shows "module_start start mt s = fold (\<lambda>m s. snd (start m s)) (filter mod_enabled (registered mt)) s"
proof -
  have "fold (\<lambda>i s. case kernel_modules mt ! i of None \<Rightarrow> s | Some m \<Rightarrow> if mod_enabled m then snd (start m s) else s) [0..<n] s
      = fold (\<lambda>m s. snd (start m s)) (filter mod_enabled (List.map_filter (\<lambda>m. m) (take n (kernel_modules mt)))) s" if "n \<le> 120" for n
    using that
  proof (induction n)
    case (Suc n)
    then show ?case using assms
      by (cases "kernel_modules mt ! n") (auto simp: mods_ok_def take_Suc_conv_app_nth map_filter_def)
  qed (simp add: map_filter_def)
  then show ?thesis using assms by (simp add: module_start_def mods_ok_def registered_def)
qed

end
