(* ===== verification/Spec2Isabelle.thy ===== *)
theory Spec2Isabelle
  imports UserProps UnixProps UserDisk Ext2Props SyscallTable MountProps ConsoleProps LoaderProps ConfigProps VfsFileProps FormatProps DmaProps KeyboardProps Timer Modules
begin

text \<open>
  A verification of the kernel of Blackmount, a 64-bit operating system in C. The theories
  translate the memory management, the heap, the strings, the user database, the processes,
  the sockets, the block devices, the ext2 file system and its formatter, the virtual file system,
  the console and the keyboards, the program loader, the system calls and the smaller parts of \<^verbatim>\<open>src/kernel\<close>
  into HOL functions and prove what makes them correct.

  \<^bold>\<open>The parts and how they interact.\<close> The physical memory manager hands out page frames; the
  virtual memory manager builds page tables from them; the heap lives in pages it maps.
  The user database and the processes allocate from the heap, and processes own address
  spaces. The sockets block and wake processes. The ext2 driver caches blocks of a block
  device in heap memory; the user database keeps its files in it. The virtual file system maps descriptors
  of processes to files of mounted volumes, devices and sockets; the keyboards feed the console, which is one of
  the devices and wakes the processes that wait for a line; the loader maps a program into an address space.
  The system calls convert the arguments of user programs and call these parts. Each part extends the state of the parts
  below it: the record \<open>vfs_sys\<close> extends \<open>con_sys\<close>, which extends \<open>sock_sys\<close>, \<open>proc_sys\<close>, \<open>user_sys\<close>, \<open>heap\<close>, \<open>vmm\<close> and
  \<open>pmm\<close>, and the operations are polymorphic in the extension, so that a client calls them on
  its own state. The memory for devices, \<open>dma_sys\<close>, extends \<open>vmm\<close>.

  \<^bold>\<open>Theories.\<close>

  \<^item> \<open>Prelude\<close>: the C integer types, the search loop \<open>scan\<close>, shared facts.
  \<^item> \<open>Memory\<close>: byte memory and \<^verbatim>\<open>memory.c\<close>.
  \<^item> \<open>Pmm\<close>: \<^verbatim>\<open>mem/pmm.c\<close>, the bitmap of page frames. Allocation returns the lowest free page or
    run, never a page in use; freeing gives back exactly the range.
  \<^item> \<open>PageTree\<close>, \<open>Vmm\<close>: \<^verbatim>\<open>mem/vmm.c\<close>, four-level page tables in physical memory. The operations
    refine finite maps from virtual pages to frames, one per address space.
  \<^item> \<open>Heap\<close>, \<open>Allocator\<close>: \<^verbatim>\<open>heap.c\<close>, the block list in heap memory; it refines a list of blocks that
    tile the heap, and provides the interface \<open>allocator\<close> to its clients.
  \<^item> \<open>Strings\<close>, \<open>Sha256\<close>: \<^verbatim>\<open>string.c\<close> and \<^verbatim>\<open>user/sha256.c\<close>.
  \<^item> \<open>User\<close>, \<open>UserProps\<close>: \<^verbatim>\<open>user/user.c\<close>, accounts, passwords and their files.
  \<^item> \<open>Proc\<close>, \<open>ProcMem\<close>, \<open>ProcLife\<close>, \<open>Cred\<close>: \<^verbatim>\<open>proc/proc.c\<close>, the process table, user memory, creation
    and termination, credentials. \<open>ProcFrame\<close>, \<open>Scheduler\<close>, \<open>ProcKill\<close>, \<open>ProcInv\<close> and \<open>ProcProps\<close> hold
    the proofs: the table invariant over all kernel steps, round-robin choice and
    progress, termination of the recursion over children, permissions.
  \<^item> \<open>Ring\<close>, \<open>UnixSocket\<close>, \<open>UnixInv\<close>, \<open>UnixProps\<close>: \<^verbatim>\<open>net/unix_socket.c\<close>. The ring buffer provides the
    interface \<open>byte_queue\<close>; the socket table stays well formed; connections are made and
    bytes delivered in order.
  \<^item> \<open>Block\<close>, \<open>LittleEndian\<close>, \<open>Partition\<close>: \<^verbatim>\<open>block/\<close>, the table of block devices, disks in memory, boot
    images, GUID and MBR partition tables; integers in byte buffers.
  \<^item> \<open>Ext2\<close>, \<open>Ext2Alloc\<close>, \<open>Ext2Dir\<close>, \<open>Ext2File\<close>, \<open>Ext2Ops\<close>: \<^verbatim>\<open>drivers/fs/ext/ext2.c\<close> in the order of the file:
    block cache and bitmaps; inodes, allocation and block pointers; directories and paths;
    mounting and files; creation, deletion, modes and owners. \<open>UserDisk\<close> holds the functions of
    \<^verbatim>\<open>user/user.c\<close> that read and write whole files.
  \<^item> \<open>Ext2Cache\<close>, \<open>MemDisk\<close>, \<open>Ext2View\<close>, \<open>Ext2AllocProps\<close>, \<open>Ext2FileProps\<close>, \<open>Ext2Props\<close>: the proofs. The
    interface \<open>block_store\<close> says what the driver relies on from a device, and \<open>MemDisk\<close> interprets
    it on the disks in memory. The cache refines a function from block numbers to contents
    (\<open>bview\<close>); on it, allocation marks exactly one free block, inodes are read back as written,
    and files are functions from offsets to bytes that \<open>ext2_read\<close> and \<open>ext2_write\<close> look up and update.
  \<^item> \<open>Mkfs\<close>, \<open>FormatProps\<close>: \<^verbatim>\<open>mkfs/ext2_format.c\<close>. A formatted disk is one that \<open>ext2_mount\<close> accepts, as a
    volume that satisfies the invariant under which the properties of the driver hold.
  \<^item> \<open>Console\<close>, \<open>ConsoleProps\<close>: \<^verbatim>\<open>console/console.c\<close>, line editing, the processes that wait for input, escape sequences
    of the output. The input line refines a text of bounded length (interface \<open>line_editor\<close>) and reaches the process that waits.
  \<^item> \<open>Keyboard\<close>, \<open>KeyboardProps\<close>: scan codes of \<^verbatim>\<open>ps2.c\<close>, reports of USB keyboards, and the loop that passes keys to the console;
    every stroke edits the input line by one character.
  \<^item> \<open>VfsState\<close>, \<open>Device\<close>, \<open>Vfs\<close>, \<open>VfsSock\<close>, \<open>VfsInit\<close>: \<^verbatim>\<open>hal/vfs.c\<close> and \<^verbatim>\<open>device/\<close>: the mount table, the device registry with its
    character devices, descriptors, socket descriptors, start and end. \<open>VfsDemo\<close> is a state of all parts for the witnesses.
    \<open>MountProps\<close>: a path is resolved at the longest mount point. \<open>FdProps\<close>: a process cannot
    use descriptors it does not own (interface \<open>owned_objects\<close>). \<open>VfsFileProps\<close>: what is written through a descriptor is read back.
  \<^item> \<open>Loader\<close>, \<open>LoaderProps\<close>: \<^verbatim>\<open>loaders/bin_loader.c\<close> and \<open>sys_execve\<close>, with the bounds of the segments.
  \<^item> \<open>Syscalls\<close>, \<open>SyscallTable\<close>: \<^verbatim>\<open>syscalls/\<close>, every handler, the table, the dispatcher and the shutdown.
  \<^item> \<open>Config\<close>, \<open>ConfigProps\<close>: \<^verbatim>\<open>config/config.c\<close>; a printed configuration is read back.
  \<^item> \<open>Stdio\<close>: \<^verbatim>\<open>stdio.c\<close>; formats are printed with their arguments, numbers with their digits.
  \<^item> \<open>Dma\<close>, \<open>DmaProps\<close>: \<^verbatim>\<open>mem/dma.c\<close>; ranges in use do not overlap and are mapped to the frames they took.
  \<^item> \<open>Timer\<close>, \<open>Modules\<close>: \<^verbatim>\<open>timer/timer.c\<close> and \<^verbatim>\<open>module/module.c\<close>.

  \<^bold>\<open>Interfaces.\<close> \<open>frame_allocator\<close> (page frames, interpreted in \<open>Pmm\<close>), \<open>allocator\<close> (heap blocks, in \<open>Allocator\<close>), \<open>byte_queue\<close> (the ring
  buffer, in \<open>Ring\<close>), \<open>block_store\<close> (disks, in \<open>MemDisk\<close>), \<open>line_editor\<close> (the console, in \<open>ConsoleProps\<close>) and \<open>owned_objects\<close>
  (descriptors, in \<open>FdProps\<close>) are locales whose laws the model's own operations satisfy.

  \<^bold>\<open>Conventions.\<close> Machine integers are words of their width. Errors are the return values of
  the code. A loop without a bound of its own is a partial function with \<open>None\<close> for not
  returning, and the theorems show that it returns. A call that gives up the processor is
  modelled up to that point and, with suffix \<open>_resume\<close>, from there on. No fuel is used.

  \<^bold>\<open>Arguments.\<close> What is decided outside the sources is an argument of the definitions: the bytes and reports that
  the hardware delivers to the keyboards, the boot modules, the entry functions of modules, switching off the machine. \<^verbatim>\<open>VFS_Create\<close> is an
  argument of \<open>user_create_user\<close>, since the virtual file system is built on top of the user database.

  \<^bold>\<open>Not modelled.\<close> Log output; the assembly that switches contexts and enters user mode; the descriptor
  tables and interrupt stubs; the drivers of the USB host controller, PCI, ACPI, the APICs, ATA and floppy disks, which are sequences
  of accesses to hardware whose behaviour is not part of the sources; pixels and fonts; the FAT file system and the archive
  ramdisk, which the boot path does not use; the C library and the programs in user space.
\<close>

end
